(* ===== verification/Prelude.thy ===== *)
theory Prelude
  imports Complex_Main "HOL-Library.AList" "HOL-Library.Multiset"
begin

text \<open>
  Shared vocabulary of the development: how Python data is represented, and the
  generic lemmas the component theories use.

  A Python \<open>dict\<close> is an association list in insertion order. \<open>AList.update\<close> is
  \<open>d[k] = v\<close> (in place for an old key, at the end for a new one), \<open>AList.delete\<close> is
  \<open>d.pop(k, None)\<close>, \<open>map_of\<close> is \<open>d.get(k)\<close>. A Python \<open>set\<close> is a duplicate-free list;
  the order of the list stands for the iteration order, which no property depends on.
  Python integers are \<open>int\<close>; Python floats (times, rates, ratios) are exact rationals:
  rounding errors of binary floating point are not modelled, comparisons and the
  control flow they drive are. The current time is an argument of every operation
  that reads the clock.
\<close>

section \<open>Representation of Python data\<close>

type_synonym pyfloat = rat
type_synonym ('k, 'v) dict = "('k \<times> 'v) list"
type_synonym 'a pyset = "'a list"

text \<open>An adapter identifier as it occurs at run time: \<open>Optional[str]\<close>.\<close>

type_synonym adapter = "string option"

text \<open>The exceptions the modelled code raises or lets escape.\<close>

datatype py_error =
    ValueError | ZeroDivisionError | IndexError | KeyError | TypeError | RuntimeError | ConnectionError | StructError |
    AttributeError | FileNotFoundError

text \<open>An operation that may raise, then another on its result.\<close>

definition and_then :: "'e + 'a \<Rightarrow> ('a \<Rightarrow> 'e + 'b) \<Rightarrow> 'e + 'b" where
  "and_then r f = (case r of Inl e \<Rightarrow> Inl e | Inr x \<Rightarrow> f x)"

lemma and_then_simps [simp]:
  "and_then (Inl e) f = Inl e" "and_then (Inr x) f = f x"
  by (simp_all add: and_then_def)

lemma and_then_Inr: "and_then r f = Inr y \<longleftrightarrow> (\<exists>x. r = Inr x \<and> f x = Inr y)"
  by (cases r) simp_all

named_theorems dict_simps \<open>lookups and keys of updated dictionaries\<close>
named_theorems step_defs \<open>definitions of the atomic steps of a component\<close>

abbreviation dict_keys :: "('k, 'v) dict \<Rightarrow> 'k list" where
  "dict_keys d \<equiv> map fst d"

abbreviation dict_values :: "('k, 'v) dict \<Rightarrow> 'v list" where
  "dict_values d \<equiv> map snd d"

abbreviation dict_wf :: "('k, 'v) dict \<Rightarrow> bool" where
  "dict_wf d \<equiv> distinct (map fst d)"

definition dict_get :: "('k, 'v) dict \<Rightarrow> 'k \<Rightarrow> 'v \<Rightarrow> 'v" where
  "dict_get d k v = (case map_of d k of None \<Rightarrow> v | Some x \<Rightarrow> x)"

definition set_add :: "'a \<Rightarrow> 'a pyset \<Rightarrow> 'a pyset" where
  "set_add x xs = (if x \<in> set xs then xs else xs @ [x])"

definition set_discard :: "'a \<Rightarrow> 'a pyset \<Rightarrow> 'a pyset" where
  "set_discard x xs = filter (\<lambda>y. y \<noteq> x) xs"

definition truthy :: "adapter \<Rightarrow> bool" where
  "truthy a = (case a of None \<Rightarrow> False | Some s \<Rightarrow> s \<noteq> [])"

text \<open>\<open>int(x)\<close> truncates towards zero; \<open>round(x)\<close> rounds half to even.\<close>

definition py_int :: "pyfloat \<Rightarrow> int" where
  "py_int x = (if 0 \<le> x then \<lfloor>x\<rfloor> else \<lceil>x\<rceil>)"

definition py_round :: "pyfloat \<Rightarrow> int" where
  "py_round x =
     (let f = \<lfloor>x\<rfloor>; d = x - of_int f
      in if d < 1/2 then f else if 1/2 < d then f + 1 else if even f then f else f + 1)"

text \<open>\<open>min(xs, key=f)\<close> and \<open>max(xs, key=f)\<close> return the first extremal element.\<close>

fun arg_first :: "('a \<Rightarrow> 'a \<Rightarrow> bool) \<Rightarrow> 'a \<Rightarrow> 'a list \<Rightarrow> 'a" where
  "arg_first better b [] = b"
| "arg_first better b (x # xs) = arg_first better (if better x b then x else b) xs"

definition py_min :: "('a \<Rightarrow> 'k::linorder) \<Rightarrow> 'a list \<Rightarrow> 'a option" where
  "py_min f xs = (case xs of [] \<Rightarrow> None | x # ys \<Rightarrow> Some (arg_first (\<lambda>a b. f a < f b) x ys))"

definition py_max :: "('a \<Rightarrow> 'k::linorder) \<Rightarrow> 'a list \<Rightarrow> 'a option" where
  "py_max f xs = (case xs of [] \<Rightarrow> None | x # ys \<Rightarrow> Some (arg_first (\<lambda>a b. f b < f a) x ys))"

text \<open>\<open>sorted(xs, key=f, reverse=True)\<close>: descending, equal keys keep their order.\<close>

definition sort_desc :: "('a \<Rightarrow> 'k::linorder) \<Rightarrow> 'a list \<Rightarrow> 'a list" where
  "sort_desc f xs = rev (sort_key f (rev xs))"

section \<open>Dictionaries\<close>

lemmas [dict_simps] = update_conv' delete_conv' update_keys delete_keys

declare distinct_update [simp] distinct_delete [simp]
declare map_of_eq_Some_iff [simp del] Some_eq_map_of_iff [simp del]

lemma dict_get_None [simp]: "map_of d k = None \<Longrightarrow> dict_get d k v = v"
  by (simp add: dict_get_def)

lemma dict_get_Some [simp]: "map_of d k = Some x \<Longrightarrow> dict_get d k v = x"
  by (simp add: dict_get_def)

lemma dict_get_update [simp]:
  "dict_get (AList.update k x d) k' v = (if k' = k then x else dict_get d k' v)"
  by (simp add: dict_get_def update_conv')

lemma dict_get_Nil [simp]: "dict_get [] k v = v"
  by (simp add: dict_get_def)

lemma update_fresh: "k \<notin> set (dict_keys d) \<Longrightarrow> AList.update k v d = d @ [(k, v)]"
  by (induction d) auto

lemma map_of_in_keys: "map_of d k = Some v \<Longrightarrow> k \<in> set (dict_keys d)"
  by (induction d) (auto split: if_splits)

lemma map_of_in_values: "map_of d k = Some v \<Longrightarrow> v \<in> set (dict_values d)"
  by (induction d) (auto split: if_splits)

lemma map_of_None_keys: "map_of d k = None \<longleftrightarrow> k \<notin> set (dict_keys d)"
  by (induction d) auto

lemma dict_values_iff: "dict_wf d \<Longrightarrow> v \<in> set (dict_values d) \<longleftrightarrow> (\<exists>k. map_of d k = Some v)"
  by (auto simp: image_iff map_of_eq_Some_iff intro: bexI [rotated])

lemma filter_ConsD: "filter P xs = y # ys \<Longrightarrow> y \<in> set xs \<and> P y"
  by (drule arg_cong [where f = set]) auto

lemma delete_filter: "AList.delete k d = filter (\<lambda>(k', _). k \<noteq> k') d"
  by (simp add: AList.delete_eq)

lemma delete_fresh: "k \<notin> set (dict_keys d) \<Longrightarrow> AList.delete k d = d"
  by (induction d) (auto simp: delete_filter)

text \<open>How the number of entries with a property changes when a key is removed.\<close>

lemma count_delete:
  assumes "dict_wf d" and "map_of d k = Some v"
  shows "length (filter P (dict_values d)) =
    length (filter P (dict_values (AList.delete k d))) + (if P v then 1 else 0)"
  using assms
proof (induction d)
  case Nil
  then show ?case by simp
next
  case (Cons kv d)
  obtain k0 v0 where kv: "kv = (k0, v0)" by (cases kv)
  show ?case
  proof (cases "k0 = k")
    case True
    with Cons.prems kv have "v0 = v" and "k \<notin> set (dict_keys d)" by auto
    then show ?thesis using True kv by (simp add: delete_fresh)
  next
    case False
    with Cons kv show ?thesis by auto
  qed
qed

lemma length_delete:
  "dict_wf d \<Longrightarrow> map_of d k = Some v \<Longrightarrow> length d = Suc (length (AList.delete k d))"
  using count_delete [of d k v "\<lambda>_. True"] by simp

lemma length_update: "length (AList.update k v d) = (if k \<in> set (dict_keys d) then length d else Suc (length d))"
  by (metis (no_types) length_append_singleton length_map update_keys)

text \<open>Sums over the values of a dictionary.\<close>

lemma sum_values_update:
  fixes f :: "'v \<Rightarrow> int"
  assumes "dict_wf d"
  shows "sum_list (map f (dict_values (AList.update k v d))) =
    sum_list (map f (dict_values d)) - (case map_of d k of None \<Rightarrow> 0 | Some w \<Rightarrow> f w) + f v"
  using assms by (induction d) (auto simp: map_of_None_keys split: option.split)

lemma sum_values_delete:
  fixes f :: "'v \<Rightarrow> int"
  assumes "dict_wf d"
  shows "sum_list (map f (dict_values (AList.delete k d))) =
    sum_list (map f (dict_values d)) - (case map_of d k of None \<Rightarrow> 0 | Some w \<Rightarrow> f w)"
  using assms
proof (induction d)
  case Nil
  then show ?case by simp
next
  case (Cons kv d)
  show ?case
  proof (cases "fst kv = k")
    case True
    with Cons.prems have "k \<notin> set (dict_keys d)" by auto
    with True show ?thesis by (simp add: delete_fresh map_of_None_keys)
  next
    case False
    with Cons show ?thesis by simp
  qed
qed

lemma map_of_sum_le:
  fixes f :: "'v \<Rightarrow> int"
  assumes "map_of d k = Some v" and "\<And>x. 0 \<le> f x"
  shows "f v \<le> sum_list (map f (dict_values d))"
proof -
  have "v \<in> set (dict_values d)" using assms(1) by (rule map_of_in_values)
  then show ?thesis using assms(2) by (intro member_le_sum_list) auto
qed

section \<open>Sets as lists\<close>

lemma set_set_add [simp]: "set (set_add x xs) = insert x (set xs)"
  by (auto simp: set_add_def)

lemma set_set_discard [simp]: "set (set_discard x xs) = set xs - {x}"
  by (auto simp: set_discard_def)

lemma distinct_set_add [simp]: "distinct xs \<Longrightarrow> distinct (set_add x xs)"
  by (simp add: set_add_def)

lemma distinct_set_discard [simp]: "distinct xs \<Longrightarrow> distinct (set_discard x xs)"
  by (simp add: set_discard_def)

section \<open>Numbers\<close>

lemma py_int_nonneg: "0 \<le> x \<Longrightarrow> 0 \<le> py_int x"
  by (simp add: py_int_def)

lemma py_int_le: "0 \<le> x \<Longrightarrow> of_int (py_int x) \<le> x"
  by (simp add: py_int_def)

lemma py_int_le_iff: "0 \<le> x \<Longrightarrow> x \<le> of_int n \<Longrightarrow> py_int x \<le> n"
  by (simp add: py_int_def floor_le_iff)

lemma py_int_of_int [simp]: "py_int (of_int n) = n"
  by (simp add: py_int_def)

lemma py_round_of_int [simp]: "py_round (of_int n) = n"
  by (simp add: py_round_def)

lemma py_round_bounds: "\<lfloor>x\<rfloor> \<le> py_round x \<and> py_round x \<le> \<lfloor>x\<rfloor> + 1"
  by (simp add: py_round_def Let_def)

lemma py_round_dist: "\<bar>of_int (py_round x) - x\<bar> \<le> 1/2"
proof -
  have "of_int \<lfloor>x\<rfloor> \<le> x" and "x < of_int \<lfloor>x\<rfloor> + 1" by linarith+
  then show ?thesis by (auto simp: py_round_def Let_def abs_le_iff)
qed

section \<open>First extremal element, sorting\<close>

lemma arg_first_in: "arg_first better b xs \<in> set (b # xs)"
  by (induction xs arbitrary: b) (fastforce split: if_splits)+

lemma arg_first_le:
  "y \<in> set (b # xs) \<Longrightarrow> (f (arg_first (\<lambda>a b. f a < f b) b xs) :: 'k::linorder) \<le> f y"
proof (induction xs arbitrary: b y)
  case Nil
  then show ?case by simp
next
  case (Cons x xs)
  let ?b = "if f x < f b then x else b"
  have le: "f (arg_first (\<lambda>a b. f a < f b) ?b xs) \<le> f ?b"
    by (rule Cons.IH) simp
  have "f ?b \<le> f x" and "f ?b \<le> f b" by auto
  with le Cons.IH [of y ?b] Cons.prems show ?case by fastforce
qed

lemma arg_first_ge:
  "y \<in> set (b # xs) \<Longrightarrow> f y \<le> (f (arg_first (\<lambda>a b. f b < f a) b xs) :: 'k::linorder)"
proof (induction xs arbitrary: b y)
  case Nil
  then show ?case by simp
next
  case (Cons x xs)
  let ?b = "if f b < f x then x else b"
  have le: "f ?b \<le> f (arg_first (\<lambda>a b. f b < f a) ?b xs)"
    by (rule Cons.IH) simp
  have "f x \<le> f ?b" and "f b \<le> f ?b" by auto
  with le Cons.IH [of y ?b] Cons.prems show ?case by fastforce
qed

lemma py_min_None [simp]: "py_min f xs = None \<longleftrightarrow> xs = []"
  by (simp add: py_min_def split: list.splits)

lemma py_max_None [simp]: "py_max f xs = None \<longleftrightarrow> xs = []"
  by (simp add: py_max_def split: list.splits)

lemma py_min_ex [simp]: "(\<exists>y. py_min f xs = Some y) \<longleftrightarrow> xs \<noteq> []"
  by (metis not_None_eq py_min_None)

lemma py_max_ex [simp]: "(\<exists>y. py_max f xs = Some y) \<longleftrightarrow> xs \<noteq> []"
  by (metis not_None_eq py_max_None)

lemma py_min_Some:
  assumes "py_min f xs = Some x"
  shows "x \<in> set xs" and "\<forall>y \<in> set xs. f x \<le> f y"
proof -
  obtain y ys where xs: "xs = y # ys" and x: "x = arg_first (\<lambda>a b. f a < f b) y ys"
    using assms by (auto simp: py_min_def split: list.splits)
  show "x \<in> set xs" unfolding xs x by (rule arg_first_in)
  show "\<forall>y \<in> set xs. f x \<le> f y" unfolding xs x by (blast intro: arg_first_le)
qed

lemma py_max_Some:
  assumes "py_max f xs = Some x"
  shows "x \<in> set xs" and "\<forall>y \<in> set xs. f y \<le> f x"
proof -
  obtain y ys where xs: "xs = y # ys" and x: "x = arg_first (\<lambda>a b. f b < f a) y ys"
    using assms by (auto simp: py_max_def split: list.splits)
  show "x \<in> set xs" unfolding xs x by (rule arg_first_in)
  show "\<forall>y \<in> set xs. f y \<le> f x" unfolding xs x by (blast intro: arg_first_ge)
qed

lemma set_sort_desc [simp]: "set (sort_desc f xs) = set xs"
  by (simp add: sort_desc_def)

lemma distinct_sort_desc [simp]: "distinct (sort_desc f xs) = distinct xs"
  by (simp add: sort_desc_def)

lemma length_sort_desc [simp]: "length (sort_desc f xs) = length xs"
  by (simp add: sort_desc_def)

lemma sorted_sort_desc: "sorted_wrt (\<lambda>a b. f b \<le> f a) (sort_desc f xs)"
  using sorted_sort_key [of f "rev xs"]
  by (simp add: sort_desc_def sorted_wrt_rev sorted_map)

lemma distinct_map_sort_key [simp]: "distinct (map g (sort_key f xs)) = distinct (map g xs)"
  by (metis distinct_map mset_sort mset_eq_imp_distinct_iff mset_map)

lemma distinct_map_sort_desc [simp]: "distinct (map g (sort_desc f xs)) = distinct (map g xs)"
  by (simp add: sort_desc_def flip: rev_map)

lemma distinct_singleton: "distinct xs \<Longrightarrow> set xs = {x} \<Longrightarrow> xs = [x]"
  by (cases xs) (auto simp: insert_eq_iff subset_singleton_iff)

lemma length_filter_sort_key: "length (filter P (sort_key f xs)) = length (filter P xs)"
  by (metis mset_filter mset_sort size_mset)

end
