(* ===== verification/Barrier.thy ===== *)
theory Barrier
  imports Prelude
begin

text \<open>
  The barrier by which the workers of a GPU share the base model of the aggregator. A
  worker that serves a request asks the aggregator for the results of one operation after
  the other (\<open>BatchedAggregatorOps\<close> in \<open>src/src/worker/worker_sync.py\<close>, on top of
  \<open>src/src/cpp_extensions/ext_ipc_queue.cpp\<close>); the aggregator's main loop
  (\<open>ext_aggregator.cpp\<close>) waits until all active slots are ready, executes their operation as
  one batch and raises the epoch. Every access to shared memory that others can observe is
  a step of its own. The slot masks are sets, which the words of the masks refine (see
  Slot_Pool). Quitting, the eviction of a slot that is stuck for 500 ms and the zeroing of a
  slot's buffers when it is released are not modelled.
\<close>

section \<open>Requests to the aggregator\<close>

text \<open>The operation codes, with the layer the command carries.\<close>

datatype agg_op =
    Op_embed
  | Op_qkv_fused nat
  | Op_o_proj nat
  | Op_gate_up_fused nat
  | Op_down_proj nat
  | Op_lm_head

text \<open>What a worker does for a request: calls with an input, going on with the result.\<close>

datatype ('i, 'o, 'r) calls = Return 'r | Call agg_op 'i "'o \<Rightarrow> ('i, 'o, 'r) calls"

text \<open>The result if every call is answered by a function of its own input.\<close>

primrec run_calls :: "(agg_op \<Rightarrow> 'i \<Rightarrow> 'o) \<Rightarrow> ('i, 'o, 'r) calls \<Rightarrow> 'r" where
  "run_calls f (Return r) = r"
| "run_calls f (Call op i k) = (run_calls f \<circ> k) (f op i)"

definition ops_per_token :: "nat \<Rightarrow> nat" where
  "ops_per_token num_layers = 1 + num_layers * 4 + 1"

section \<open>State\<close>

record command =
  cmd_slot :: nat
  cmd_worker :: int
  cmd_op :: agg_op

text \<open>
  Where the thread that serves a slot stands. From \<open>At\<close> on it has a request and the calls
  that are left of it; between reading the epoch and reading the result, the first of these
  is under way. A thread that has its result has signalled its leave and waits for the
  aggregator to drop the slot, before it gives the slot back.
\<close>

datatype ('i, 'o, 'r) slot_stage =
    Free
  | Claimed "('i, 'o, 'r) calls"
  | Joining "('i, 'o, 'r) calls"
  | At "('i, 'o, 'r) calls" "('i, 'o, 'r) calls"
  | Epoch_read int "('i, 'o, 'r) calls" "('i, 'o, 'r) calls"
  | Submitted int "('i, 'o, 'r) calls" "('i, 'o, 'r) calls"
  | Waiting_epoch int "('i, 'o, 'r) calls" "('i, 'o, 'r) calls"
  | Leaving "('i, 'o, 'r) calls" 'r

text \<open>
  Where the main loop stands: the three steps at a token boundary, waiting for the slots at
  the operation of an index, or with the commands of that operation fetched; or an exception
  has ended it at that operation (nothing catches it, in the extension or in
  \<open>aggregator.py\<close>).
\<close>

datatype agg_pc = Take_leaves | Take_joins | Publish | Wait_slots nat | Execute nat "command list" | Crashed nat

text \<open>
  \<open>br_owner\<close> is the owner the aggregator has for a slot, -1 if it is free; \<open>br_worker\<close> the id
  of the worker whose thread serves the slot, which it writes into its commands.
\<close>

record ('i, 'o, 'r) barrier =
  br_active :: "nat set"
  br_shared :: "nat set"
  br_joins :: "nat set"
  br_leaves :: "nat set"
  br_ready :: "nat set"
  br_epoch :: int
  br_ring :: "command list"
  br_owner :: "nat \<Rightarrow> int"
  br_worker :: "nat \<Rightarrow> int"
  br_input :: "nat \<Rightarrow> 'i"
  br_output :: "nat \<Rightarrow> 'o"
  br_pc :: agg_pc
  br_slot :: "nat \<Rightarrow> ('i, 'o, 'r) slot_stage"
  br_done :: "(nat \<times> ('i, 'o, 'r) calls \<times> 'r) list"

record 'a barrier_config =
  bc_num_slots :: nat
  bc_capacity :: nat
  bc_num_layers :: nat
  bc_execute :: 'a

type_synonym ('i, 'o) batch_fun = "agg_op \<Rightarrow> 'i list \<Rightarrow> 'o list"

definition barrier_init :: "(nat \<Rightarrow> 'i) \<Rightarrow> (nat \<Rightarrow> 'o) \<Rightarrow> ('i, 'o, 'r) barrier" where
  "barrier_init input output =
     \<lparr>br_active = {}, br_shared = {}, br_joins = {}, br_leaves = {}, br_ready = {}, br_epoch = 0, br_ring = [],
      br_owner = (\<lambda>_. -1), br_worker = (\<lambda>_. -1),
      br_input = input, br_output = output, br_pc = Take_leaves, br_slot = (\<lambda>_. Free), br_done = []\<rparr>"

section \<open>The worker of a slot\<close>

definition set_stage :: "nat \<Rightarrow> ('i, 'o, 'r) slot_stage \<Rightarrow> ('i, 'o, 'r) barrier \<Rightarrow> ('i, 'o, 'r) barrier" where
  "set_stage sid stage b = b\<lparr>br_slot := (br_slot b)(sid := stage)\<rparr>"

text \<open>
  \<open>claim_slot\<close> takes a slot that has been given back, whatever of its last owner is still
  under way; only the ready bit that owner may have left is cleared.
\<close>

definition barrier_claim :: "nat \<Rightarrow> int \<Rightarrow> ('i, 'o, 'r) calls \<Rightarrow> ('i, 'o, 'r) barrier \<Rightarrow> ('i, 'o, 'r) barrier" where
  "barrier_claim sid wid req b =
     (case br_slot b sid of
        Free \<Rightarrow>
          set_stage sid (Claimed req)
            (b\<lparr>br_ready := br_ready b - {sid}, br_owner := (br_owner b)(sid := wid), br_worker := (br_worker b)(sid := wid)\<rparr>)
      | _ \<Rightarrow> b)"

definition signal_slot_join :: "nat \<Rightarrow> ('i, 'o, 'r) barrier \<Rightarrow> ('i, 'o, 'r) barrier" where
  "signal_slot_join sid b =
     (case br_slot b sid of
        Claimed req \<Rightarrow> set_stage sid (Joining req) (b\<lparr>br_joins := insert sid (br_joins b)\<rparr>)
      | _ \<Rightarrow> b)"

definition notice_active :: "nat \<Rightarrow> ('i, 'o, 'r) barrier \<Rightarrow> ('i, 'o, 'r) barrier" where
  "notice_active sid b =
     (case br_slot b sid of
        Joining req \<Rightarrow> if sid \<in> br_shared b then set_stage sid (At req req) b else b
      | _ \<Rightarrow> b)"

text \<open>
  \<open>release_slot\<close> gives a slot back (its check that the worker owns the slot passes as long as
  a thread serves it, \<open>owners_sync\<close>).
\<close>

definition barrier_release :: "nat \<Rightarrow> ('i, 'o, 'r) barrier \<Rightarrow> ('i, 'o, 'r) barrier" where
  "barrier_release sid b = set_stage sid Free (b\<lparr>br_owner := (br_owner b)(sid := -1)\<rparr>)"

text \<open>The paths that abort a request signal the leave and give the slot back at once.\<close>

definition leave_barrier :: "nat \<Rightarrow> ('i, 'o, 'r) barrier \<Rightarrow> ('i, 'o, 'r) barrier" where
  "leave_barrier sid b = barrier_release sid (b\<lparr>br_leaves := insert sid (br_leaves b)\<rparr>)"

definition read_epoch :: "nat \<Rightarrow> ('i, 'o, 'r) barrier \<Rightarrow> ('i, 'o, 'r) barrier" where
  "read_epoch sid b =
     (case br_slot b sid of
        At req (Call op i k) \<Rightarrow> set_stage sid (Epoch_read (br_epoch b) req (Call op i k)) b
      | _ \<Rightarrow> b)"

text \<open>
  The input is copied into the slot's buffer and the command appended to the ring; with a
  full ring that raises, and the engine drops the request.
\<close>

definition submit_command :: "'a barrier_config \<Rightarrow> nat \<Rightarrow> ('i, 'o, 'r) barrier \<Rightarrow> ('i, 'o, 'r) barrier" where
  "submit_command cfg sid b =
     (case br_slot b sid of
        Epoch_read e req (Call op i k) \<Rightarrow>
          if bc_capacity cfg \<le> length (br_ring b) + 1
          then leave_barrier sid (b\<lparr>br_input := (br_input b)(sid := i)\<rparr>)
          else set_stage sid (Submitted e req (Call op i k))
                 (b\<lparr>br_input := (br_input b)(sid := i), br_ring := br_ring b @ [\<lparr>cmd_slot = sid, cmd_worker = br_worker b sid, cmd_op = op\<rparr>]\<rparr>)
      | _ \<Rightarrow> b)"

definition signal_slot_ready :: "nat \<Rightarrow> ('i, 'o, 'r) barrier \<Rightarrow> ('i, 'o, 'r) barrier" where
  "signal_slot_ready sid b =
     (case br_slot b sid of
        Submitted e req rest \<Rightarrow> set_stage sid (Waiting_epoch e req rest) (b\<lparr>br_ready := insert sid (br_ready b)\<rparr>)
      | _ \<Rightarrow> b)"

definition read_output :: "nat \<Rightarrow> ('i, 'o, 'r) barrier \<Rightarrow> ('i, 'o, 'r) barrier" where
  "read_output sid b =
     (case br_slot b sid of
        Waiting_epoch e req (Call op i k) \<Rightarrow>
          if e < br_epoch b then set_stage sid (At req (k (br_output b sid))) b else b
      | _ \<Rightarrow> b)"

text \<open>
  A finished request: the leave is signalled; when the slot is no longer active, or that has
  taken too long, it is given back and the request is answered.
\<close>

definition finish_slot :: "nat \<Rightarrow> ('i, 'o, 'r) barrier \<Rightarrow> ('i, 'o, 'r) barrier" where
  "finish_slot sid b =
     (case br_slot b sid of
        At req (Return r) \<Rightarrow> set_stage sid (Leaving req r) (b\<lparr>br_leaves := insert sid (br_leaves b)\<rparr>)
      | _ \<Rightarrow> b)"

definition await_left :: "bool \<Rightarrow> nat \<Rightarrow> ('i, 'o, 'r) barrier \<Rightarrow> ('i, 'o, 'r) barrier" where
  "await_left timed_out sid b =
     (case br_slot b sid of
        Leaving req r \<Rightarrow>
          if sid \<in> br_shared b \<and> \<not> timed_out then b
          else barrier_release sid (b\<lparr>br_done := br_done b @ [(sid, req, r)]\<rparr>)
      | _ \<Rightarrow> b)"

text \<open>
  A failure of the engine: a slot that has not become active is released without a leave,
  unless its activation timed out; an active slot leaves.
\<close>

definition give_up :: "nat \<Rightarrow> ('i, 'o, 'r) barrier \<Rightarrow> ('i, 'o, 'r) barrier" where
  "give_up sid b =
     (case br_slot b sid of
        Claimed req \<Rightarrow> barrier_release sid b
      | Joining req \<Rightarrow> barrier_release sid b
      | _ \<Rightarrow> b)"

definition abort_slot :: "nat \<Rightarrow> ('i, 'o, 'r) barrier \<Rightarrow> ('i, 'o, 'r) barrier" where
  "abort_slot sid b =
     (case br_slot b sid of
        Free \<Rightarrow> b
      | Claimed req \<Rightarrow> b
      | _ \<Rightarrow> leave_barrier sid b)"

section \<open>The main loop\<close>

text \<open>
  Reading the ring: commands of slots that are not active are dropped, until the number
  asked for is found or the limit is reached; \<open>None\<close> while the loop spins on an empty entry.
\<close>

fun fetch_commands :: "nat set \<Rightarrow> nat \<Rightarrow> nat \<Rightarrow> command list \<Rightarrow> (command list \<times> command list) option" where
  "fetch_commands act 0 limit ring = Some ([], ring)"
| "fetch_commands act (Suc n) 0 ring = Some ([], ring)"
| "fetch_commands act (Suc n) (Suc limit) [] = None"
| "fetch_commands act (Suc n) (Suc limit) (c # ring) =
     (if cmd_slot c \<in> act then map_option (apfst ((#) c)) (fetch_commands act n limit ring)
      else fetch_commands act (Suc n) limit ring)"

definition max_drain :: nat where
  "max_drain = 128 + 8"

definition next_pc :: "nat \<Rightarrow> nat \<Rightarrow> agg_pc" where
  "next_pc num_layers k = (if k + 1 < ops_per_token num_layers then Wait_slots (k + 1) else Take_leaves)"

text \<open>The results are scattered to the buffers of the slots; the first command says which operation it is.\<close>

definition scatter :: "(nat \<times> 'o) list \<Rightarrow> (nat \<Rightarrow> 'o) \<Rightarrow> nat \<Rightarrow> 'o" where
  "scatter sos output = foldl (\<lambda>out (sid, y). out(sid := y)) output sos"

text \<open>
  Every kernel first verifies that the worker of a command owns the command's slot, and
  throws if not, before it writes any result (\<open>VERIFY_SLOT_OWNER\<close>).
\<close>

definition owners_verified :: "command list \<Rightarrow> ('i, 'o, 'r) barrier \<Rightarrow> bool" where
  "owners_verified cmds b = list_all (\<lambda>c. br_owner b (cmd_slot c) = cmd_worker c) cmds"

definition execute_commands ::
  "('i, 'o) batch_fun \<Rightarrow> command list \<Rightarrow> ('i, 'o, 'r) barrier \<Rightarrow> ('i, 'o, 'r) barrier" where
  "execute_commands execute cmds b =
     b\<lparr>br_output := scatter (zip (map cmd_slot cmds) (execute (cmd_op (hd cmds)) (map (br_input b \<circ> cmd_slot) cmds)))
                            (br_output b)\<rparr>"

definition signal_done :: "('i, 'o, 'r) barrier \<Rightarrow> ('i, 'o, 'r) barrier" where
  "signal_done b = b\<lparr>br_ready := br_ready b - br_shared b, br_epoch := br_epoch b + 1\<rparr>"

definition agg_loop_step ::
  "('i, 'o) batch_fun barrier_config \<Rightarrow> ('i, 'o, 'r) barrier \<Rightarrow> ('i, 'o, 'r) barrier" where
  "agg_loop_step cfg b =
     (case br_pc b of
        Take_leaves \<Rightarrow> b\<lparr>br_active := br_active b - br_leaves b, br_leaves := {}, br_pc := Take_joins\<rparr>
      | Take_joins \<Rightarrow> b\<lparr>br_active := br_active b \<union> br_joins b, br_joins := {}, br_pc := Publish\<rparr>
      | Publish \<Rightarrow> b\<lparr>br_shared := br_active b, br_pc := (if br_active b = {} then Take_leaves else Wait_slots 0)\<rparr>
      | Wait_slots k \<Rightarrow>
          if \<not> br_active b \<subseteq> br_ready b then b
          else (case fetch_commands (br_active b) (card (br_active b)) max_drain (br_ring b) of
                  None \<Rightarrow> b
                | Some (cmds, ring) \<Rightarrow>
                    b\<lparr>br_ring := ring,
                      br_pc := (if cmds = [] then next_pc (bc_num_layers cfg) k else Execute k cmds)\<rparr>)
      | Execute k cmds \<Rightarrow>
          if owners_verified cmds b
          then (signal_done (execute_commands (bc_execute cfg) cmds b))\<lparr>br_pc := next_pc (bc_num_layers cfg) k\<rparr>
          else b\<lparr>br_pc := Crashed k\<rparr>
      | Crashed k \<Rightarrow> b)"

text \<open>While it waits, every 10 ms: active slots that have signalled a leave are dropped.\<close>

definition check_leaves :: "('i, 'o, 'r) barrier \<Rightarrow> ('i, 'o, 'r) barrier" where
  "check_leaves b =
     (case br_pc b of
        Wait_slots k \<Rightarrow>
          let leaving = br_leaves b \<inter> br_active b
          in if br_active b \<subseteq> br_ready b \<or> leaving = {} then b
             else b\<lparr>br_active := br_active b - leaving, br_leaves := br_leaves b - leaving,
                    br_shared := br_active b - leaving,
                    br_pc := (if br_active b - leaving = {} then Take_leaves else Wait_slots k)\<rparr>
      | _ \<Rightarrow> b)"

section \<open>Runs\<close>

datatype ('i, 'o, 'r) barrier_event =
    Claim_slot nat int "('i, 'o, 'r) calls"
  | Join nat
  | Notice nat
  | Read_epoch nat
  | Submit_command nat
  | Signal_ready nat
  | Read_output nat
  | Finish nat
  | Release nat
  | Release_timeout nat
  | Give_up nat
  | Abort nat
  | Agg_loop
  | Check_leaves

definition barrier_step ::
  "('i, 'o) batch_fun barrier_config \<Rightarrow> ('i, 'o, 'r) barrier_event \<Rightarrow> ('i, 'o, 'r) barrier \<Rightarrow> ('i, 'o, 'r) barrier" where
  "barrier_step cfg ev =
     (case ev of
        Claim_slot sid wid req \<Rightarrow> barrier_claim sid wid req
      | Join sid \<Rightarrow> signal_slot_join sid
      | Notice sid \<Rightarrow> notice_active sid
      | Read_epoch sid \<Rightarrow> read_epoch sid
      | Submit_command sid \<Rightarrow> submit_command cfg sid
      | Signal_ready sid \<Rightarrow> signal_slot_ready sid
      | Read_output sid \<Rightarrow> read_output sid
      | Finish sid \<Rightarrow> finish_slot sid
      | Release sid \<Rightarrow> await_left False sid
      | Release_timeout sid \<Rightarrow> await_left True sid
      | Give_up sid \<Rightarrow> give_up sid
      | Abort sid \<Rightarrow> abort_slot sid
      | Agg_loop \<Rightarrow> agg_loop_step cfg
      | Check_leaves \<Rightarrow> check_leaves)"

definition barrier_run ::
  "('i, 'o) batch_fun barrier_config \<Rightarrow> ('i, 'o, 'r) barrier_event list \<Rightarrow> ('i, 'o, 'r) barrier \<Rightarrow> ('i, 'o, 'r) barrier" where
  "barrier_run cfg evs b = foldl (\<lambda>b ev. barrier_step cfg ev b) b evs"

end
