(* ===== verification/Barrier_Inv.thy ===== *)
theory Barrier_Inv
  imports Barrier
begin

text \<open>
  Sharing the base model is transparent as long as a slot is claimed anew only when nothing of
  its last owner is left: then all active slots are at the same operation whenever a batch is
  executed, and every request computes what it would compute with a base model of its own.
  Workers that finish their requests leave nothing behind; what a worker that aborts a request
  can leave behind, no step of the code checks.
\<close>

section \<open>Requests in phase\<close>

text \<open>The operation at an index of a token, as the workers' forward pass asks for them.\<close>

definition op_at :: "nat \<Rightarrow> nat \<Rightarrow> agg_op" where
  "op_at num_layers k =
     (if k = 0 then Op_embed
      else if k = 4 * num_layers + 1 then Op_lm_head
      else let layer = (k - 1) div 4
           in [Op_qkv_fused layer, Op_o_proj layer, Op_gate_up_fused layer, Op_down_proj layer] ! ((k - 1) mod 4))"

text \<open>Calls that follow this order from an index on, with good inputs, if they are answered by a function.\<close>

primrec in_phase ::
  "(agg_op \<Rightarrow> 'i \<Rightarrow> 'o) \<Rightarrow> (agg_op \<Rightarrow> 'i \<Rightarrow> bool) \<Rightarrow> nat \<Rightarrow> ('i, 'o, 'r) calls \<Rightarrow> nat \<Rightarrow> bool" where
  "in_phase f good num_layers (Return r) = (\<lambda>n. True)"
| "in_phase f good num_layers (Call op i k) =
     (\<lambda>n. op = op_at num_layers n \<and> good op i \<and>
          (in_phase f good num_layers \<circ> k) (f op i) (Suc n mod ops_per_token num_layers))"

lemma in_phase_call:
  "in_phase f good L (Call op i k) n \<longleftrightarrow>
     op = op_at L n \<and> good op i \<and> in_phase f good L (k (f op i)) (Suc n mod ops_per_token L)"
  by simp

declare in_phase.simps(2) [simp del]

lemma ops_per_token_pos [simp]: "0 < ops_per_token L"
  by (simp add: ops_per_token_def)

section \<open>Fetching and scattering\<close>

abbreviation ring_slots :: "command list \<Rightarrow> nat list" where
  "ring_slots ring \<equiv> map cmd_slot ring"

lemma fetch_all:
  assumes "length (filter (\<lambda>c. cmd_slot c \<in> act) ring) = n" "length ring \<le> limit"
  shows "\<exists>ring'. fetch_commands act n limit ring = Some (filter (\<lambda>c. cmd_slot c \<in> act) ring, ring') \<and>
    (\<exists>pre. ring = pre @ ring') \<and> (\<forall>c \<in> set ring'. cmd_slot c \<notin> act)"
  using assms
proof (induction act n limit ring rule: fetch_commands.induct)
  case (1 act limit ring)
  then show ?case by (auto simp: filter_empty_conv)
next
  case (4 act n limit c ring)
  show ?case
  proof (cases "cmd_slot c \<in> act")
    case True
    then obtain ring' pre where "fetch_commands act n limit ring = Some (filter (\<lambda>c. cmd_slot c \<in> act) ring, ring')"
      "ring = pre @ ring'" "\<forall>c \<in> set ring'. cmd_slot c \<notin> act"
      using 4 by auto
    with True show ?thesis by (auto intro: exI [of _ "c # pre"])
  next
    case False
    then obtain ring' pre where "fetch_commands act (Suc n) limit ring = Some (filter (\<lambda>c. cmd_slot c \<in> act) ring, ring')"
      "ring = pre @ ring'" "\<forall>c \<in> set ring'. cmd_slot c \<notin> act"
      using 4 by auto
    with False show ?thesis by (auto intro: exI [of _ "c # pre"])
  qed
qed auto

lemma card_active_commands:
  assumes "distinct (ring_slots ring)" "act \<subseteq> set (ring_slots ring)"
  shows "length (filter (\<lambda>c. cmd_slot c \<in> act) ring) = card act"
proof -
  have "distinct (ring_slots (filter (\<lambda>c. cmd_slot c \<in> act) ring))"
    using assms(1) by (simp add: distinct_map_filter)
  moreover have "set (ring_slots (filter (\<lambda>c. cmd_slot c \<in> act) ring)) = act"
    using assms(2) by auto
  ultimately show ?thesis by (metis distinct_card length_map)
qed

lemma scatter_other: "sid \<notin> fst ` set sos \<Longrightarrow> scatter sos out sid = out sid"
  unfolding scatter_def by (induction sos arbitrary: out) auto

lemma scatter_mem: "distinct (map fst sos) \<Longrightarrow> (sid, y) \<in> set sos \<Longrightarrow> scatter sos out sid = y"
proof (induction sos arbitrary: out)
  case (Cons so sos)
  obtain s z where so: "so = (s, z)" by (cases so)
  have "scatter (so # sos) out = scatter sos (out(s := z))" by (simp add: scatter_def so)
  with Cons so show ?case using scatter_other [of s sos "out(s := z)"] by auto
qed simp

section \<open>The invariant\<close>

definition cur_op :: "('i, 'o, 'r) barrier \<Rightarrow> nat" where
  "cur_op b = (case br_pc b of Wait_slots k \<Rightarrow> k | Execute k cmds \<Rightarrow> k | Crashed k \<Rightarrow> k | _ \<Rightarrow> 0)"

text \<open>Nothing of a slot is under way.\<close>

definition quiet :: "('i, 'o, 'r) barrier \<Rightarrow> nat \<Rightarrow> bool" where
  "quiet b sid \<longleftrightarrow> sid \<notin> br_ready b \<and> sid \<notin> set (ring_slots (br_ring b))"

definition running :: "('i, 'o, 'r) barrier \<Rightarrow> nat \<Rightarrow> bool" where
  "running b sid \<longleftrightarrow> sid \<in> br_active b \<and> sid \<in> br_shared b \<and> sid \<notin> br_leaves b"

text \<open>
  The stage of a slot's worker against the position of the main loop: it is at the
  operation the loop waits for, or has not yet read the result of the one before.
\<close>

definition slot_sync ::
  "(agg_op \<Rightarrow> 'i \<Rightarrow> 'o) \<Rightarrow> (agg_op \<Rightarrow> 'i \<Rightarrow> bool) \<Rightarrow> nat \<Rightarrow> ('i, 'o, 'r) barrier \<Rightarrow> nat \<Rightarrow> bool" where
  "slot_sync f good L b sid =
     (case br_slot b sid of
        Free \<Rightarrow> True
      | Claimed req \<Rightarrow>
          sid \<notin> br_active b \<and> sid \<notin> br_joins b \<and> sid \<notin> br_leaves b \<and> sid \<notin> br_shared b \<and> quiet b sid \<and>
          in_phase f good L req 0
      | Joining req \<Rightarrow>
          sid \<notin> br_leaves b \<and> (sid \<in> br_joins b \<or> sid \<in> br_active b \<and> quiet b sid \<and> cur_op b = 0) \<and>
          (sid \<in> br_shared b \<longrightarrow> sid \<in> br_active b) \<and> in_phase f good L req 0
      | At req rest \<Rightarrow>
          running b sid \<and> quiet b sid \<and> in_phase f good L rest (cur_op b) \<and> run_calls f req = run_calls f rest
      | Epoch_read e req rest \<Rightarrow>
          running b sid \<and> quiet b sid \<and> in_phase f good L rest (cur_op b) \<and> run_calls f req = run_calls f rest \<and>
          e = br_epoch b
      | Submitted e req rest \<Rightarrow>
          running b sid \<and> sid \<notin> br_ready b \<and> sid \<in> set (ring_slots (br_ring b)) \<and>
          in_phase f good L rest (cur_op b) \<and> run_calls f req = run_calls f rest \<and> e = br_epoch b \<and>
          (case rest of Return r \<Rightarrow> False | Call op i k \<Rightarrow> br_input b sid = i)
      | Waiting_epoch e req rest \<Rightarrow>
          running b sid \<and> run_calls f req = run_calls f rest \<and>
          (case rest of
             Return r \<Rightarrow> False
           | Call op i k \<Rightarrow>
               if e < br_epoch b
               then quiet b sid \<and> br_output b sid = f op i \<and> in_phase f good L (k (f op i)) (cur_op b)
               else e = br_epoch b \<and> sid \<in> br_ready b \<and> br_input b sid = i \<and> in_phase f good L rest (cur_op b))
      | Leaving req r \<Rightarrow>
          quiet b sid \<and> sid \<notin> br_joins b \<and> run_calls f req = r \<and>
          (if sid \<in> br_leaves b then sid \<in> br_active b \<and> sid \<in> br_shared b else sid \<notin> br_active b))"

text \<open>Commands of active slots are commands of the current operation; a ready slot has one.\<close>

definition ring_sync :: "(agg_op \<Rightarrow> 'i \<Rightarrow> bool) \<Rightarrow> nat \<Rightarrow> ('i, 'o, 'r) barrier \<Rightarrow> bool" where
  "ring_sync good L b \<longleftrightarrow>
     distinct (ring_slots (br_ring b)) \<and>
     (\<forall>c \<in> set (br_ring b). cmd_slot c \<in> br_active b \<longrightarrow>
        cmd_op c = op_at L (cur_op b) \<and> good (op_at L (cur_op b)) (br_input b (cmd_slot c)))"

definition loop_sync :: "(agg_op \<Rightarrow> 'i \<Rightarrow> bool) \<Rightarrow> nat \<Rightarrow> ('i, 'o, 'r) barrier \<Rightarrow> bool" where
  "loop_sync good L b =
     (case br_pc b of
        Wait_slots k \<Rightarrow>
          br_shared b = br_active b \<and> br_active b \<noteq> {} \<and> k < ops_per_token L \<and>
          br_active b \<inter> br_ready b \<subseteq> set (ring_slots (br_ring b))
      | Execute k cmds \<Rightarrow>
          br_shared b = br_active b \<and> br_active b \<noteq> {} \<and> k < ops_per_token L \<and> br_active b \<subseteq> br_ready b \<and>
          distinct (ring_slots cmds) \<and> set (ring_slots cmds) = br_active b \<and>
          br_active b \<inter> set (ring_slots (br_ring b)) = {} \<and>
          (\<forall>c \<in> set cmds. cmd_op c = op_at L k \<and> good (op_at L k) (br_input b (cmd_slot c)))
      | Crashed k \<Rightarrow> True
      | _ \<Rightarrow> br_active b \<inter> br_ready b \<subseteq> set (ring_slots (br_ring b)))"

definition masks_bounded :: "nat \<Rightarrow> ('i, 'o, 'r) barrier \<Rightarrow> bool" where
  "masks_bounded n b \<longleftrightarrow>
     br_active b \<subseteq> {..<n} \<and> br_joins b \<subseteq> {..<n} \<and> set (ring_slots (br_ring b)) \<subseteq> {..<n} \<and>
     (\<forall>sid. br_slot b sid \<noteq> Free \<longrightarrow> sid < n)"

text \<open>A slot that is about to join is quiet and not active; nobody serves it unless it still waits.\<close>

definition joins_sync :: "('i, 'o, 'r) barrier \<Rightarrow> bool" where
  "joins_sync b \<longleftrightarrow>
     (\<forall>sid \<in> br_joins b. sid \<notin> br_active b \<and> quiet b sid \<and> (case br_slot b sid of Free \<Rightarrow> True | Joining req \<Rightarrow> True | _ \<Rightarrow> False))"

text \<open>A slot that is served has its worker as the owner, also in the commands that are under way.\<close>

definition fetched :: "('i, 'o, 'r) barrier \<Rightarrow> command list" where
  "fetched b = (case br_pc b of Execute k cmds \<Rightarrow> cmds | _ \<Rightarrow> [])"

definition owners_sync :: "('i, 'o, 'r) barrier \<Rightarrow> bool" where
  "owners_sync b \<longleftrightarrow>
     (\<forall>sid. br_slot b sid \<noteq> Free \<longrightarrow> br_owner b sid = br_worker b sid) \<and>
     (\<forall>c \<in> set (br_ring b) \<union> set (fetched b). br_slot b (cmd_slot c) \<noteq> Free \<longrightarrow> cmd_worker c = br_owner b (cmd_slot c))"

definition results_ok :: "(agg_op \<Rightarrow> 'i \<Rightarrow> 'o) \<Rightarrow> ('i, 'o, 'r) barrier \<Rightarrow> bool" where
  "results_ok f b \<longleftrightarrow> (\<forall>(sid, req, r) \<in> set (br_done b). r = run_calls f req)"

definition barrier_ok ::
  "(agg_op \<Rightarrow> 'i \<Rightarrow> 'o) \<Rightarrow> (agg_op \<Rightarrow> 'i \<Rightarrow> bool) \<Rightarrow> nat \<Rightarrow> nat \<Rightarrow> ('i, 'o, 'r) barrier \<Rightarrow> bool" where
  "barrier_ok f good L n b \<longleftrightarrow>
     masks_bounded n b \<and> joins_sync b \<and> ring_sync good L b \<and> loop_sync good L b \<and> results_ok f b \<and>
     (\<forall>sid. slot_sync f good L b sid) \<and> owners_sync b"

lemmas barrier_defs = masks_bounded_def joins_sync_def ring_sync_def loop_sync_def results_ok_def barrier_ok_def owners_sync_def

lemma barrier_okI:
  "masks_bounded n b \<Longrightarrow> joins_sync b \<Longrightarrow> ring_sync good L b \<Longrightarrow> loop_sync good L b \<Longrightarrow> results_ok f b \<Longrightarrow>
     (\<And>sid. slot_sync f good L b sid) \<Longrightarrow> owners_sync b \<Longrightarrow> barrier_ok f good L n b"
  by (simp add: barrier_ok_def)

lemma barrier_okD:
  assumes "barrier_ok f good L n b"
  shows "masks_bounded n b" "joins_sync b" "ring_sync good L b" "loop_sync good L b" "results_ok f b" "slot_sync f good L b sid"
    "owners_sync b"
  using assms by (simp_all add: barrier_ok_def)

lemma barrier_init_ok: "barrier_ok f good L n (barrier_init input out)"
  by (simp add: barrier_defs barrier_init_def slot_sync_def fetched_def)

text \<open>What requests are served.\<close>

definition phased_event ::
  "(agg_op \<Rightarrow> 'i \<Rightarrow> 'o) \<Rightarrow> (agg_op \<Rightarrow> 'i \<Rightarrow> bool) \<Rightarrow> nat \<Rightarrow> nat \<Rightarrow> ('i, 'o, 'r) barrier_event \<Rightarrow> bool" where
  "phased_event f good L n ev =
     (case ev of Claim_slot sid wid req \<Rightarrow> sid < n \<and> in_phase f good L req 0 | _ \<Rightarrow> True)"

text \<open>
  Nothing of the last owner of a slot is left: the aggregator has noticed that it left, has
  taken a join it has signalled, and has taken its commands from the ring. \<open>claim_slot\<close> does
  not check this; it is a condition on a run.
\<close>

definition leave_noticed :: "('i, 'o, 'r) barrier \<Rightarrow> nat \<Rightarrow> bool" where
  "leave_noticed b sid \<longleftrightarrow> sid \<notin> br_active b \<and> sid \<notin> br_shared b \<and> sid \<notin> br_leaves b"

definition settled :: "('i, 'o, 'r) barrier \<Rightarrow> nat \<Rightarrow> bool" where
  "settled b sid \<longleftrightarrow> leave_noticed b sid \<and> sid \<notin> br_joins b \<and> list_all (\<lambda>c. cmd_slot c \<noteq> sid) (br_ring b)"

definition settled_event :: "('i, 'o, 'r) barrier_event \<Rightarrow> ('i, 'o, 'r) barrier \<Rightarrow> bool" where
  "settled_event ev b = (case ev of Claim_slot sid wid req \<Rightarrow> br_slot b sid = Free \<longrightarrow> settled b sid | _ \<Rightarrow> True)"

lemma settled_iff:
  "settled b sid \<longleftrightarrow>
     sid \<notin> br_active b \<and> sid \<notin> br_shared b \<and> sid \<notin> br_leaves b \<and> sid \<notin> br_joins b \<and> sid \<notin> set (ring_slots (br_ring b))"
  unfolding settled_def leave_noticed_def list_all_iff by auto

section \<open>The steps of a slot\<close>

text \<open>What the other slots can see of a step.\<close>

definition same_view :: "nat \<Rightarrow> ('i, 'o, 'r) barrier \<Rightarrow> ('i, 'o, 'r) barrier \<Rightarrow> bool" where
  "same_view sid b b' \<longleftrightarrow>
     br_slot b' sid = br_slot b sid \<and> br_input b' sid = br_input b sid \<and> br_output b' sid = br_output b sid \<and>
     (sid \<in> br_active b') = (sid \<in> br_active b) \<and> (sid \<in> br_shared b') = (sid \<in> br_shared b) \<and>
     (sid \<in> br_joins b') = (sid \<in> br_joins b) \<and> (sid \<in> br_leaves b') = (sid \<in> br_leaves b) \<and>
     (sid \<in> br_ready b') = (sid \<in> br_ready b) \<and>
     (sid \<in> set (ring_slots (br_ring b'))) = (sid \<in> set (ring_slots (br_ring b))) \<and>
     br_epoch b' = br_epoch b \<and> cur_op b' = cur_op b"

lemma same_view_sync: "same_view sid b b' \<Longrightarrow> slot_sync f good L b' sid = slot_sync f good L b sid"
  unfolding slot_sync_def quiet_def running_def same_view_def by (simp only: refl)

lemma cur_op_cong: "br_pc b' = br_pc b \<Longrightarrow> cur_op b' = cur_op b"
  by (simp add: cur_op_def)

lemma loop_sync_keep:
  assumes "loop_sync good L b" "br_pc b' = br_pc b" "br_active b' = br_active b" "br_shared b' = br_shared b"
    "br_ready b' = br_ready b" "br_ring b' = br_ring b" "br_input b' = br_input b"
  shows "loop_sync good L b'"
  using assms(1) unfolding loop_sync_def assms(2-)  .

lemma set_stage_simps [simp]:
  "br_active (set_stage sid stage b) = br_active b" "br_shared (set_stage sid stage b) = br_shared b"
  "br_joins (set_stage sid stage b) = br_joins b" "br_leaves (set_stage sid stage b) = br_leaves b"
  "br_ready (set_stage sid stage b) = br_ready b" "br_epoch (set_stage sid stage b) = br_epoch b"
  "br_ring (set_stage sid stage b) = br_ring b" "br_owner (set_stage sid stage b) = br_owner b"
  "br_worker (set_stage sid stage b) = br_worker b" "br_input (set_stage sid stage b) = br_input b"
  "br_output (set_stage sid stage b) = br_output b" "br_pc (set_stage sid stage b) = br_pc b"
  "br_done (set_stage sid stage b) = br_done b" "br_slot (set_stage sid stage b) = (br_slot b)(sid := stage)"
  by (simp_all add: set_stage_def)

lemma leave_barrier_simps [simp]:
  "br_active (leave_barrier sid b) = br_active b" "br_shared (leave_barrier sid b) = br_shared b"
  "br_joins (leave_barrier sid b) = br_joins b" "br_leaves (leave_barrier sid b) = insert sid (br_leaves b)"
  "br_ready (leave_barrier sid b) = br_ready b" "br_epoch (leave_barrier sid b) = br_epoch b"
  "br_ring (leave_barrier sid b) = br_ring b" "br_input (leave_barrier sid b) = br_input b"
  "br_owner (leave_barrier sid b) = (br_owner b)(sid := -1)" "br_worker (leave_barrier sid b) = br_worker b"
  "br_output (leave_barrier sid b) = br_output b" "br_pc (leave_barrier sid b) = br_pc b"
  "br_done (leave_barrier sid b) = br_done b" "br_slot (leave_barrier sid b) = (br_slot b)(sid := Free)"
  by (simp_all add: leave_barrier_def barrier_release_def)

lemma owners_keep:
  assumes "owners_sync b" "\<And>s. br_slot b' s \<noteq> Free \<Longrightarrow> br_slot b s \<noteq> Free \<and> br_owner b' s = br_owner b s \<and> br_worker b' s = br_worker b s"
    and "set (br_ring b') \<union> set (fetched b') \<subseteq> set (br_ring b) \<union> set (fetched b)"
  shows "owners_sync b'"
  unfolding owners_sync_def
proof (intro conjI allI ballI impI)
  show "br_owner b' s = br_worker b' s" if "br_slot b' s \<noteq> Free" for s
    using assms(1) assms(2) [OF that] by (simp add: owners_sync_def)
  fix c assume c: "c \<in> set (br_ring b') \<union> set (fetched b')" and served: "br_slot b' (cmd_slot c) \<noteq> Free"
  have "c \<in> set (br_ring b) \<union> set (fetched b)" using c assms(3) by blast
  then show "cmd_worker c = br_owner b' (cmd_slot c)"
    using assms(1) assms(2) [OF served] by (simp add: owners_sync_def)
qed

lemma fetched_cong: "br_pc b' = br_pc b \<Longrightarrow> fetched b' = fetched b"
  by (simp add: fetched_def)

text \<open>
  A step of one slot's worker keeps the invariant if it keeps the shared parts of it, leaves
  the view of the other slots as it was, and puts the slot in a stage that is in step.
\<close>

lemma slot_step_ok:
  assumes "barrier_ok f good L n b"
    and "masks_bounded n b'" "joins_sync b'" "ring_sync good L b'" "loop_sync good L b'" "results_ok f b'"
    and "slot_sync f good L b' sid" "\<And>t. t \<noteq> sid \<Longrightarrow> same_view t b b'" "owners_sync b'"
  shows "barrier_ok f good L n b'"
proof (rule barrier_okI [OF assms(2-6) _ assms(9)])
  show "slot_sync f good L b' t" for t
    using assms(7) same_view_sync [OF assms(8), of t f good L] barrier_okD(6) [OF assms(1), of t] by (cases "t = sid") simp_all
qed

text \<open>Leaving at any stage after the slot has signalled its join.\<close>

lemma leave_ok:
  assumes "barrier_ok f good L n b" "sid \<in> br_joins b \<longrightarrow> (\<exists>req. br_slot b sid = Joining req)"
  shows "barrier_ok f good L n (leave_barrier sid b)"
proof (rule slot_step_ok [OF assms(1)])
  note ok = barrier_okD [OF assms(1)]
  show "masks_bounded n (leave_barrier sid b)" using ok(1) by (auto simp: masks_bounded_def)
  show "joins_sync (leave_barrier sid b)" using ok(2) by (auto simp: joins_sync_def quiet_def)
  show "ring_sync good L (leave_barrier sid b)" using ok(3) by (simp add: ring_sync_def cur_op_def)
  show "loop_sync good L (leave_barrier sid b)" by (rule loop_sync_keep [OF ok(4)]) simp_all
  show "results_ok f (leave_barrier sid b)" using ok(5) by (simp add: results_ok_def)
  show "owners_sync (leave_barrier sid b)" by (rule owners_keep [OF ok(7)]) (auto simp: fetched_def split: if_splits)
  show "slot_sync f good L (leave_barrier sid b) sid" by (simp add: slot_sync_def)
  show "same_view t b (leave_barrier sid b)" if "t \<noteq> sid" for t
    using that by (simp add: same_view_def cur_op_def)
qed

lemma sync_not_joining: "joins_sync b \<Longrightarrow> sid \<in> br_joins b \<Longrightarrow> br_slot b sid = Free \<or> (\<exists>req. br_slot b sid = Joining req)"
  unfolding joins_sync_def by (cases "br_slot b sid") (auto dest: bspec [of _ _ sid])

lemma claim_ok:
  assumes "barrier_ok f good L n b" "phased_event f good L n (Claim_slot sid wid req)" "settled_event (Claim_slot sid wid req) b"
  shows "barrier_ok f good L n (barrier_claim sid wid req b)"
proof (cases "br_slot b sid = Free")
  case True
  then have free: "sid < n" "in_phase f good L req 0" "settled b sid"
    using assms(2,3) by (simp_all add: phased_event_def settled_event_def)
  note free3 = free(3) [unfolded settled_iff]
  let ?b = "set_stage sid (Claimed req)
    (b\<lparr>br_ready := br_ready b - {sid}, br_owner := (br_owner b)(sid := wid), br_worker := (br_worker b)(sid := wid)\<rparr>)"
  note ok = barrier_okD [OF assms(1)]
  have other: "cmd_slot c \<noteq> sid" if "c \<in> set (br_ring b) \<union> set (fetched b)" for c
    using that free3 ok(4) by (auto simp: fetched_def loop_sync_def split: agg_pc.splits)
  have "barrier_ok f good L n ?b"
  proof (rule slot_step_ok [OF assms(1)])
    show "masks_bounded n ?b" using ok(1) free(1) by (auto simp: masks_bounded_def)
    show "joins_sync ?b" using ok(2) free3 by (auto simp: joins_sync_def quiet_def)
    show "ring_sync good L ?b" using ok(3) by (simp add: ring_sync_def cur_op_def)
    show "loop_sync good L ?b" using ok(4) free3 by (auto simp: loop_sync_def split: agg_pc.splits)
    show "results_ok f ?b" using ok(5) by (simp add: results_ok_def)
    show "slot_sync f good L ?b sid" using free(2) free3 by (simp add: slot_sync_def quiet_def)
    show "same_view t b ?b" if "t \<noteq> sid" for t using that by (simp add: same_view_def cur_op_def)
    show "owners_sync ?b" using ok(7) other by (simp add: owners_sync_def fetched_def)
  qed
  with True show ?thesis by (simp add: barrier_claim_def)
next
  case False
  then show ?thesis using assms(1) by (simp add: barrier_claim_def split: slot_stage.split)
qed

lemma join_ok:
  assumes "barrier_ok f good L n b"
  shows "barrier_ok f good L n (signal_slot_join sid b)"
proof (cases "\<exists>req. br_slot b sid = Claimed req")
  case True
  then obtain req where stage: "br_slot b sid = Claimed req" by blast
  let ?b = "set_stage sid (Joining req) (b\<lparr>br_joins := insert sid (br_joins b)\<rparr>)"
  note ok = barrier_okD [OF assms]
  note s = ok(6) [of sid, unfolded slot_sync_def stage slot_stage.case]
  have "barrier_ok f good L n ?b"
  proof (rule slot_step_ok [OF assms])
    show "masks_bounded n ?b" using ok(1) stage by (auto simp: masks_bounded_def)
    show "joins_sync ?b" using ok(2) s by (auto simp: joins_sync_def quiet_def)
    show "ring_sync good L ?b" using ok(3) by (simp add: ring_sync_def cur_op_def)
    show "loop_sync good L ?b" by (rule loop_sync_keep [OF ok(4)]) simp_all
    show "results_ok f ?b" using ok(5) by (simp add: results_ok_def)
    show "owners_sync ?b" using stage by (intro owners_keep [OF ok(7)]) (auto simp: fetched_def split: if_splits)
    show "slot_sync f good L ?b sid" using s by (simp add: slot_sync_def)
    show "same_view t b ?b" if "t \<noteq> sid" for t using that by (simp add: same_view_def cur_op_def)
  qed
  with stage show ?thesis by (simp add: signal_slot_join_def)
next
  case False
  then show ?thesis using assms by (simp add: signal_slot_join_def split: slot_stage.split)
qed

text \<open>Steps that only move the stage of a slot.\<close>

lemma move_stage_ok:
  assumes "barrier_ok f good L n b" "slot_sync f good L (set_stage sid stage b) sid"
    and "br_slot b sid \<noteq> Free" "sid \<notin> br_joins b"
  shows "barrier_ok f good L n (set_stage sid stage b)"
proof (rule slot_step_ok [OF assms(1) _ _ _ _ _ assms(2)])
  note ok = barrier_okD [OF assms(1)]
  show "masks_bounded n (set_stage sid stage b)" using ok(1) assms(3) by (auto simp: masks_bounded_def)
  show "joins_sync (set_stage sid stage b)" using ok(2) assms(4) by (auto simp: joins_sync_def quiet_def)
  show "ring_sync good L (set_stage sid stage b)" using ok(3) by (simp add: ring_sync_def cur_op_def)
  show "loop_sync good L (set_stage sid stage b)" by (rule loop_sync_keep [OF ok(4)]) simp_all
  show "results_ok f (set_stage sid stage b)" using ok(5) by (simp add: results_ok_def)
  show "owners_sync (set_stage sid stage b)" using assms(3) by (intro owners_keep [OF ok(7)]) (auto simp: fetched_def split: if_splits)
  show "same_view t b (set_stage sid stage b)" if "t \<noteq> sid" for t using that by (simp add: same_view_def cur_op_def)
qed

lemma quiet_stage [simp]: "quiet (set_stage sid stage b) = quiet b" "running (set_stage sid stage b) = running b"
  "cur_op (set_stage sid stage b) = cur_op b"
  by (simp_all add: quiet_def running_def cur_op_def fun_eq_iff)

lemma notice_ok:
  assumes "barrier_ok f good L n b"
  shows "barrier_ok f good L n (notice_active sid b)"
proof (cases "(\<exists>req. br_slot b sid = Joining req) \<and> sid \<in> br_shared b")
  case True
  then obtain req where stage: "br_slot b sid = Joining req" and shared: "sid \<in> br_shared b" by blast
  note ok = barrier_okD [OF assms]
  note s = ok(6) [of sid, unfolded slot_sync_def stage slot_stage.case]
  then have "sid \<in> br_active b" using shared by blast
  moreover then have "sid \<notin> br_joins b" using ok(2) by (auto simp: joins_sync_def)
  ultimately have "barrier_ok f good L n (set_stage sid (At req req) b)"
    using s stage shared by (intro move_stage_ok [OF assms]) (auto simp: slot_sync_def running_def)
  with stage shared show ?thesis by (simp add: notice_active_def)
next
  case False
  then show ?thesis using assms by (auto simp: notice_active_def split: slot_stage.split)
qed

lemma read_epoch_ok:
  assumes "barrier_ok f good L n b"
  shows "barrier_ok f good L n (read_epoch sid b)"
proof (cases "\<exists>req op i k. br_slot b sid = At req (Call op i k)")
  case True
  then obtain req op i k where stage: "br_slot b sid = At req (Call op i k)" by blast
  note ok = barrier_okD [OF assms]
  note s = ok(6) [of sid, unfolded slot_sync_def stage slot_stage.case]
  have "sid \<notin> br_joins b" using sync_not_joining [OF ok(2)] stage by fastforce
  then have "barrier_ok f good L n (set_stage sid (Epoch_read (br_epoch b) req (Call op i k)) b)"
    using s stage by (intro move_stage_ok [OF assms]) (auto simp: slot_sync_def)
  with stage show ?thesis by (simp add: read_epoch_def)
next
  case False
  then show ?thesis using assms by (auto simp: read_epoch_def split: slot_stage.split calls.split)
qed

lemma not_joining: "joins_sync b \<Longrightarrow> br_slot b sid \<noteq> Free \<Longrightarrow> (\<And>req. br_slot b sid \<noteq> Joining req) \<Longrightarrow> sid \<notin> br_joins b"
  using sync_not_joining by blast

lemma input_ok:
  assumes "barrier_ok f good L n b" "br_slot b sid = Epoch_read e req rest"
  shows "barrier_ok f good L n (b\<lparr>br_input := (br_input b)(sid := i)\<rparr>)"
proof (rule slot_step_ok [OF assms(1)])
  let ?b = "b\<lparr>br_input := (br_input b)(sid := i)\<rparr>"
  note ok = barrier_okD [OF assms(1)]
  note s = ok(6) [of sid, unfolded slot_sync_def assms(2) slot_stage.case]
  have notin: "sid \<notin> set (ring_slots (br_ring b))" "sid \<in> br_active b" "sid \<notin> br_ready b"
    using s by (auto simp: quiet_def running_def)
  show "masks_bounded n ?b" using ok(1) by (simp add: masks_bounded_def)
  show "joins_sync ?b" using ok(2) by (simp add: joins_sync_def quiet_def)
  show "ring_sync good L ?b" using ok(3) notin(1) by (auto simp: ring_sync_def cur_op_def)
  show "loop_sync good L ?b"
    using ok(4) notin by (cases "br_pc b") (auto simp: loop_sync_def)
  show "results_ok f ?b" using ok(5) by (simp add: results_ok_def)
  show "owners_sync ?b" by (rule owners_keep [OF ok(7)]) (auto simp: fetched_def split: if_splits)
  show "slot_sync f good L ?b sid" using s assms(2) by (simp add: slot_sync_def quiet_def running_def cur_op_def)
  show "same_view t b ?b" if "t \<noteq> sid" for t using that by (simp add: same_view_def cur_op_def)
qed

lemma submit_ok:
  assumes "barrier_ok f good L n b"
  shows "barrier_ok f good L n (submit_command cfg sid b)"
proof (cases "\<exists>e req op i k. br_slot b sid = Epoch_read e req (Call op i k)")
  case True
  then obtain e req op i k where stage: "br_slot b sid = Epoch_read e req (Call op i k)" by blast
  let ?b1 = "b\<lparr>br_input := (br_input b)(sid := i)\<rparr>"
  have ok1: "barrier_ok f good L n ?b1" by (rule input_ok [OF assms stage])
  note ok = barrier_okD [OF ok1]
  have stage1: "br_slot ?b1 sid = Epoch_read e req (Call op i k)" using stage by simp
  note s = ok(6) [of sid, unfolded slot_sync_def stage1 slot_stage.case]
  have nj: "sid \<notin> br_joins ?b1" by (rule not_joining [OF ok(2)]) (simp_all add: stage)
  show ?thesis
  proof (cases "bc_capacity cfg \<le> length (br_ring b) + 1")
    case True
    then show ?thesis using leave_ok [OF ok1] nj stage by (simp add: submit_command_def)
  next
    case False
    let ?c = "\<lparr>cmd_slot = sid, cmd_worker = br_worker b sid, cmd_op = op\<rparr>"
    let ?b = "set_stage sid (Submitted e req (Call op i k)) (?b1\<lparr>br_ring := br_ring b @ [?c]\<rparr>)"
    have act: "sid \<in> br_active b" "sid \<notin> br_ready b" "sid \<notin> set (ring_slots (br_ring b))"
      and phase: "op = op_at L (cur_op b)" "good op i" "sid < n"
      using s ok(1) by (auto simp: running_def quiet_def in_phase_call cur_op_def masks_bounded_def)
    have "barrier_ok f good L n ?b"
    proof (rule slot_step_ok [OF ok1])
      show "masks_bounded n ?b" using ok(1) phase(3) by (auto simp: masks_bounded_def)
      show "joins_sync ?b" using ok(2) nj by (auto simp: joins_sync_def quiet_def)
      show "ring_sync good L ?b" using ok(3) act phase by (auto simp: ring_sync_def cur_op_def)
      show "loop_sync good L ?b"
        using ok(4) act by (cases "br_pc b") (auto simp: loop_sync_def)
      show "results_ok f ?b" using ok(5) by (simp add: results_ok_def)
      show "owners_sync ?b" using ok(7) stage by (auto simp: owners_sync_def fetched_def)
      show "slot_sync f good L ?b sid" using s by (simp add: slot_sync_def quiet_def running_def cur_op_def)
      show "same_view t ?b1 ?b" if "t \<noteq> sid" for t using that by (simp add: same_view_def cur_op_def)
    qed
    with False stage show ?thesis by (simp add: submit_command_def)
  qed
next
  case False
  then show ?thesis using assms by (auto simp: submit_command_def split: slot_stage.split calls.split)
qed

lemma signal_ready_ok:
  assumes "barrier_ok f good L n b"
  shows "barrier_ok f good L n (signal_slot_ready sid b)"
proof (cases "\<exists>e req rest. br_slot b sid = Submitted e req rest")
  case True
  then obtain e req rest where stage: "br_slot b sid = Submitted e req rest" by blast
  let ?b = "set_stage sid (Waiting_epoch e req rest) (b\<lparr>br_ready := insert sid (br_ready b)\<rparr>)"
  note ok = barrier_okD [OF assms]
  note s = ok(6) [of sid, unfolded slot_sync_def stage slot_stage.case]
  have nj: "sid \<notin> br_joins b" by (rule not_joining [OF ok(2)]) (simp_all add: stage)
  have ring: "sid \<in> set (ring_slots (br_ring b))" "sid \<in> br_active b" "sid \<notin> br_ready b" using s by (auto simp: running_def)
  show ?thesis
  proof (cases rest)
    case (Return r)
    then show ?thesis using s by simp
  next
    case (Call op i k)
    have "barrier_ok f good L n ?b"
    proof (rule slot_step_ok [OF assms])
      show "masks_bounded n ?b" using ok(1) stage by (auto simp: masks_bounded_def)
      show "joins_sync ?b" using ok(2) nj by (auto simp: joins_sync_def quiet_def)
      show "ring_sync good L ?b" using ok(3) by (auto simp: ring_sync_def cur_op_def)
      show "loop_sync good L ?b"
        using ok(4) ring by (cases "br_pc b") (auto simp: loop_sync_def)
      show "results_ok f ?b" using ok(5) by (simp add: results_ok_def)
      show "owners_sync ?b" using stage by (intro owners_keep [OF ok(7)]) (auto simp: fetched_def split: if_splits)
      show "slot_sync f good L ?b sid" using s Call by (simp add: slot_sync_def quiet_def running_def cur_op_def)
      show "same_view t b ?b" if "t \<noteq> sid" for t using that by (simp add: same_view_def cur_op_def)
    qed
    with stage show ?thesis by (simp add: signal_slot_ready_def)
  qed
next
  case False
  then show ?thesis using assms by (auto simp: signal_slot_ready_def split: slot_stage.split)
qed

lemma read_output_ok:
  assumes "barrier_ok f good L n b"
  shows "barrier_ok f good L n (read_output sid b)"
proof (cases "\<exists>e req op i k. br_slot b sid = Waiting_epoch e req (Call op i k) \<and> e < br_epoch b")
  case True
  then obtain e req op i k where stage: "br_slot b sid = Waiting_epoch e req (Call op i k)" and e: "e < br_epoch b" by blast
  note ok = barrier_okD [OF assms]
  note s = ok(6) [of sid, unfolded slot_sync_def stage slot_stage.case calls.case]
  have "sid \<notin> br_joins b" by (rule not_joining [OF ok(2)]) (simp_all add: stage)
  then have "barrier_ok f good L n (set_stage sid (At req (k (br_output b sid))) b)"
    using s e stage by (intro move_stage_ok [OF assms]) (auto simp: slot_sync_def)
  with stage e show ?thesis by (simp add: read_output_def)
next
  case False
  then show ?thesis using assms by (auto simp: read_output_def split: slot_stage.split calls.split)
qed

lemma finish_ok:
  assumes "barrier_ok f good L n b"
  shows "barrier_ok f good L n (finish_slot sid b)"
proof (cases "\<exists>req r. br_slot b sid = At req (Return r)")
  case True
  then obtain req r where stage: "br_slot b sid = At req (Return r)" by blast
  let ?b = "set_stage sid (Leaving req r) (b\<lparr>br_leaves := insert sid (br_leaves b)\<rparr>)"
  note ok = barrier_okD [OF assms]
  note s = ok(6) [of sid, unfolded slot_sync_def stage slot_stage.case]
  have nj: "sid \<notin> br_joins b" by (rule not_joining [OF ok(2)]) (simp_all add: stage)
  have "barrier_ok f good L n ?b"
  proof (rule slot_step_ok [OF assms])
    show "masks_bounded n ?b" using ok(1) stage by (auto simp: masks_bounded_def)
    show "joins_sync ?b" using ok(2) nj by (auto simp: joins_sync_def quiet_def)
    show "ring_sync good L ?b" using ok(3) by (simp add: ring_sync_def cur_op_def)
    show "loop_sync good L ?b" by (rule loop_sync_keep [OF ok(4)]) simp_all
    show "results_ok f ?b" using ok(5) by (simp add: results_ok_def)
    show "owners_sync ?b" using stage by (intro owners_keep [OF ok(7)]) (auto simp: fetched_def split: if_splits)
    show "slot_sync f good L ?b sid" using s nj by (simp add: slot_sync_def quiet_def running_def)
    show "same_view t b ?b" if "t \<noteq> sid" for t using that by (simp add: same_view_def cur_op_def)
  qed
  with stage show ?thesis by (simp add: finish_slot_def)
next
  case False
  then show ?thesis using assms by (auto simp: finish_slot_def split: slot_stage.split calls.split)
qed

text \<open>Giving a slot back, whatever its stage.\<close>

lemma release_ok:
  assumes "barrier_ok f good L n b"
  shows "barrier_ok f good L n (barrier_release sid b)"
  unfolding barrier_release_def
proof (rule slot_step_ok [OF assms])
  let ?b = "set_stage sid Free (b\<lparr>br_owner := (br_owner b)(sid := -1)\<rparr>)"
  note ok = barrier_okD [OF assms]
  show "masks_bounded n ?b" using ok(1) by (auto simp: masks_bounded_def)
  show "joins_sync ?b" using ok(2) by (auto simp: joins_sync_def quiet_def)
  show "ring_sync good L ?b" using ok(3) by (simp add: ring_sync_def cur_op_def)
  show "loop_sync good L ?b" by (rule loop_sync_keep [OF ok(4)]) simp_all
  show "results_ok f ?b" using ok(5) by (simp add: results_ok_def)
  show "owners_sync ?b" by (rule owners_keep [OF ok(7)]) (auto simp: fetched_def split: if_splits)
  show "slot_sync f good L ?b sid" by (simp add: slot_sync_def)
  show "same_view t b ?b" if "t \<noteq> sid" for t using that by (simp add: same_view_def cur_op_def)
qed

lemma await_left_ok:
  assumes "barrier_ok f good L n b"
  shows "barrier_ok f good L n (await_left timed_out sid b)"
proof (cases "\<exists>req r. br_slot b sid = Leaving req r \<and> (sid \<in> br_shared b \<longrightarrow> timed_out)")
  case True
  then obtain req r where stage: "br_slot b sid = Leaving req r" and now: "sid \<in> br_shared b \<longrightarrow> timed_out" by blast
  let ?b = "b\<lparr>br_done := br_done b @ [(sid, req, r)]\<rparr>"
  note ok = barrier_okD [OF assms]
  note s = ok(6) [of sid, unfolded slot_sync_def stage slot_stage.case]
  have "barrier_ok f good L n ?b"
  proof (rule slot_step_ok [OF assms])
    show "masks_bounded n ?b" using ok(1) by (simp add: masks_bounded_def)
    show "joins_sync ?b" using ok(2) by (simp add: joins_sync_def quiet_def)
    show "ring_sync good L ?b" using ok(3) by (simp add: ring_sync_def cur_op_def)
    show "loop_sync good L ?b" by (rule loop_sync_keep [OF ok(4)]) simp_all
    show "results_ok f ?b" using ok(5) s by (auto simp: results_ok_def)
    show "owners_sync ?b" by (rule owners_keep [OF ok(7)]) (auto simp: fetched_def)
    show "slot_sync f good L ?b sid" using s stage by (simp add: slot_sync_def quiet_def)
    show "same_view t b ?b" for t by (simp add: same_view_def cur_op_def)
  qed
  from release_ok [OF this, of sid] stage now show ?thesis by (auto simp: await_left_def)
next
  case False
  then show ?thesis using assms by (auto simp: await_left_def split: slot_stage.split)
qed

lemma abort_ok:
  assumes "barrier_ok f good L n b"
  shows "barrier_ok f good L n (abort_slot sid b)"
proof -
  have "sid \<notin> br_joins b" if "br_slot b sid \<noteq> Free" "\<And>req. br_slot b sid \<noteq> Joining req"
    by (rule not_joining [OF barrier_okD(2) [OF assms] that])
  then show ?thesis
    using assms leave_ok [OF assms] by (auto simp: abort_slot_def split: slot_stage.split)
qed

lemma give_up_ok:
  assumes "barrier_ok f good L n b"
  shows "barrier_ok f good L n (give_up sid b)"
  using assms release_ok [OF assms] by (auto simp: give_up_def split: slot_stage.split)

section \<open>The steps of the main loop\<close>

lemma take_leaves_ok:
  assumes "barrier_ok f good L n b" "br_pc b = Take_leaves"
  shows "barrier_ok f good L n (b\<lparr>br_active := br_active b - br_leaves b, br_leaves := {}, br_pc := Take_joins\<rparr>)"
    (is "barrier_ok f good L n ?b")
proof (rule barrier_okI)
  note ok = barrier_okD [OF assms(1)]
  show "masks_bounded n ?b" using ok(1) by (auto simp: masks_bounded_def)
  show "joins_sync ?b" using ok(2) by (simp add: joins_sync_def quiet_def)
  show "ring_sync good L ?b" using ok(3) assms(2) by (simp add: ring_sync_def cur_op_def)
  show "loop_sync good L ?b" using ok(4) assms(2) by (auto simp: loop_sync_def)
  show "results_ok f ?b" using ok(5) by (simp add: results_ok_def)
  show "owners_sync ?b" by (rule owners_keep [OF ok(7)]) (auto simp: fetched_def split: if_splits)
  show "slot_sync f good L ?b sid" for sid
    using ok(6) [of sid] assms(2)
    by (cases "br_slot b sid") (auto simp: slot_sync_def quiet_def running_def cur_op_def split: calls.splits)
qed

lemma take_joins_ok:
  assumes "barrier_ok f good L n b" "br_pc b = Take_joins"
  shows "barrier_ok f good L n (b\<lparr>br_active := br_active b \<union> br_joins b, br_joins := {}, br_pc := Publish\<rparr>)"
    (is "barrier_ok f good L n ?b")
proof (rule barrier_okI)
  note ok = barrier_okD [OF assms(1)]
  have joins: "sid \<notin> br_ready b \<and> sid \<notin> set (ring_slots (br_ring b))" if "sid \<in> br_joins b" for sid
    using ok(2) that by (auto simp: joins_sync_def quiet_def)
  show "masks_bounded n ?b" using ok(1) by (auto simp: masks_bounded_def)
  show "joins_sync ?b" by (simp add: joins_sync_def)
  show "ring_sync good L ?b" using ok(3) joins assms(2) by (auto simp: ring_sync_def cur_op_def)
  show "loop_sync good L ?b" using ok(4) joins assms(2) by (auto simp: loop_sync_def)
  show "results_ok f ?b" using ok(5) by (simp add: results_ok_def)
  show "owners_sync ?b" by (rule owners_keep [OF ok(7)]) (auto simp: fetched_def split: if_splits)
  show "slot_sync f good L ?b sid" for sid
    using ok(6) [of sid] joins [of sid] assms(2)
    by (cases "br_slot b sid") (auto simp: slot_sync_def quiet_def running_def cur_op_def split: calls.splits)
qed

lemma publish_ok:
  assumes "barrier_ok f good L n b" "br_pc b = Publish"
  shows "barrier_ok f good L n
    (b\<lparr>br_shared := br_active b, br_pc := (if br_active b = {} then Take_leaves else Wait_slots 0)\<rparr>)"
    (is "barrier_ok f good L n ?b")
proof (rule barrier_okI)
  note ok = barrier_okD [OF assms(1)]
  have cur: "cur_op ?b = 0" "cur_op b = 0" using assms(2) by (simp_all add: cur_op_def)
  show "masks_bounded n ?b" using ok(1) by (auto simp: masks_bounded_def)
  show "joins_sync ?b" using ok(2) by (simp add: joins_sync_def quiet_def)
  show "ring_sync good L ?b" using ok(3) by (simp add: ring_sync_def cur)
  show "loop_sync good L ?b" using ok(4) assms(2) by (auto simp: loop_sync_def)
  show "results_ok f ?b" using ok(5) by (simp add: results_ok_def)
  show "owners_sync ?b" by (rule owners_keep [OF ok(7)]) (auto simp: fetched_def split: if_splits)
  show "slot_sync f good L ?b sid" for sid
    using ok(6) [of sid] assms(2)
    by (cases "br_slot b sid"; cases "br_active b = {}")
      (auto simp: slot_sync_def quiet_def running_def cur_op_def split: calls.splits)
qed

text \<open>Waiting: once all active slots are ready, exactly their commands are fetched.\<close>

lemma ring_short:
  assumes "distinct (ring_slots ring)" "set (ring_slots ring) \<subseteq> {..<n}" "n \<le> 128"
  shows "length ring \<le> max_drain"
proof -
  have "length ring = card (set (ring_slots ring))" using assms(1) by (metis distinct_card length_map)
  also have "\<dots> \<le> n" using card_mono [OF _ assms(2)] by simp
  finally show ?thesis using assms(3) by (simp add: max_drain_def)
qed

lemma fetch_ready:
  assumes "barrier_ok f good L n b" "n \<le> 128" "br_pc b = Wait_slots k" "br_active b \<subseteq> br_ready b"
  obtains pre ring where "fetch_commands (br_active b) (card (br_active b)) max_drain (br_ring b) =
      Some (filter (\<lambda>c. cmd_slot c \<in> br_active b) (br_ring b), ring)"
    "br_ring b = pre @ ring" "\<forall>c \<in> set ring. cmd_slot c \<notin> br_active b"
    "set (ring_slots (filter (\<lambda>c. cmd_slot c \<in> br_active b) (br_ring b))) = br_active b"
    "distinct (ring_slots (filter (\<lambda>c. cmd_slot c \<in> br_active b) (br_ring b)))"
proof -
  note ok = barrier_okD [OF assms(1)]
  have ring: "distinct (ring_slots (br_ring b))" "set (ring_slots (br_ring b)) \<subseteq> {..<n}"
    using ok(1,3) by (auto simp: ring_sync_def masks_bounded_def)
  have act: "br_active b \<subseteq> set (ring_slots (br_ring b))"
    using ok(4) assms(3,4) by (auto simp: loop_sync_def)
  obtain pre rest where "fetch_commands (br_active b) (card (br_active b)) max_drain (br_ring b) =
      Some (filter (\<lambda>c. cmd_slot c \<in> br_active b) (br_ring b), rest)"
    "br_ring b = pre @ rest" "\<forall>c \<in> set rest. cmd_slot c \<notin> br_active b"
    using fetch_all [OF card_active_commands [OF ring(1) act] ring_short [OF ring assms(2)]] by blast
  moreover have "set (ring_slots (filter (\<lambda>c. cmd_slot c \<in> br_active b) (br_ring b))) = br_active b" using act by auto
  moreover have "distinct (ring_slots (filter (\<lambda>c. cmd_slot c \<in> br_active b) (br_ring b)))"
    using ring(1) by (simp add: distinct_map_filter)
  ultimately show ?thesis by (rule that)
qed

lemma wait_ok:
  assumes "barrier_ok f good L n b" "n \<le> 128" "br_pc b = Wait_slots k" "br_active b \<subseteq> br_ready b"
    and "cmds = filter (\<lambda>c. cmd_slot c \<in> br_active b) (br_ring b)" "br_ring b = pre @ ring"
    and "\<forall>c \<in> set ring. cmd_slot c \<notin> br_active b" "set (ring_slots cmds) = br_active b" "distinct (ring_slots cmds)"
  shows "barrier_ok f good L n (b\<lparr>br_ring := ring, br_pc := Execute k cmds\<rparr>)" (is "barrier_ok f good L n ?b")
proof (rule barrier_okI)
  note ok = barrier_okD [OF assms(1)]
  have cur: "cur_op ?b = cur_op b" using assms(3) by (simp add: cur_op_def)
  have sub: "set (ring_slots ring) \<subseteq> set (ring_slots (br_ring b))" using assms(6) by auto
  show "masks_bounded n ?b" using ok(1) subset_trans [OF sub] by (simp add: masks_bounded_def)
  show "joins_sync ?b" using ok(2) sub by (fastforce simp: joins_sync_def quiet_def)
  show "ring_sync good L ?b" using ok(3) assms(6,7) by (auto simp: ring_sync_def)
  show "loop_sync good L ?b"
    using ok(3,4) assms(3,4,5,7,8,9) by (auto simp: loop_sync_def ring_sync_def cur_op_def)
  show "results_ok f ?b" using ok(5) by (simp add: results_ok_def)
  show "owners_sync ?b" using assms(5,6) by (intro owners_keep [OF ok(7)]) (auto simp: fetched_def)
  show "slot_sync f good L ?b sid" for sid
    using ok(6) [of sid] assms(4) sub cur
    by (cases "br_slot b sid") (auto simp: slot_sync_def quiet_def running_def split: calls.splits)
qed

lemma next_pc_cur: "k < ops_per_token L \<Longrightarrow> br_pc b = next_pc L k \<Longrightarrow> cur_op b = Suc k mod ops_per_token L"
  by (cases "Suc k = ops_per_token L") (simp_all add: next_pc_def cur_op_def)

lemma loop_sync_next:
  assumes "br_pc b = next_pc L k" "br_shared b = br_active b" "br_active b \<noteq> {}" "br_active b \<inter> br_ready b = {}"
  shows "loop_sync good L b"
  using assms by (cases "k + 1 < ops_per_token L") (simp_all add: next_pc_def loop_sync_def)

lemma run_results:
  assumes "\<forall>op ins. list_all (good op) ins \<longrightarrow> execute op ins = map (f op) ins"
    and "distinct (ring_slots cmds)" "\<forall>c \<in> set cmds. cmd_op c = op \<and> good op (br_input b (cmd_slot c))" "cmds \<noteq> []"
    and "c \<in> set cmds"
  shows "br_output (execute_commands execute cmds b) (cmd_slot c) = f op (br_input b (cmd_slot c))"
proof -
  let ?ins = "map (br_input b \<circ> cmd_slot) cmds"
  have "execute (cmd_op (hd cmds)) ?ins = map (f op) ?ins"
    using assms(1,3,4) by (simp add: list_all_iff)
  then have "zip (ring_slots cmds) (execute (cmd_op (hd cmds)) ?ins) = map (\<lambda>c. (cmd_slot c, f op (br_input b (cmd_slot c)))) cmds"
    by (simp add: zip_map_map zip_same_conv_map)
  moreover have "scatter (map (\<lambda>c. (cmd_slot c, f op (br_input b (cmd_slot c)))) cmds) out (cmd_slot c) = f op (br_input b (cmd_slot c))" for out
    using assms(2,5) by (intro scatter_mem) (auto simp: comp_def)
  ultimately show ?thesis by (simp add: execute_commands_def)
qed

lemma execute_ok:
  assumes "barrier_ok f good L n b" "br_pc b = Execute k cmds"
    and "\<forall>op ins. list_all (good op) ins \<longrightarrow> execute op ins = map (f op) ins"
  shows "barrier_ok f good L n ((signal_done (execute_commands execute cmds b))\<lparr>br_pc := next_pc L k\<rparr>)"
    (is "barrier_ok f good L n ?b")
proof (rule barrier_okI)
  note ok = barrier_okD [OF assms(1)]
  note loop = ok(4) [unfolded loop_sync_def assms(2) agg_pc.case]
  then have cmds: "distinct (ring_slots cmds)" "\<forall>c \<in> set cmds. cmd_op c = op_at L k \<and> good (op_at L k) (br_input b (cmd_slot c))" "cmds \<noteq> []"
    by auto
  have kept: "br_active ?b = br_active b" "br_shared ?b = br_shared b" "br_joins ?b = br_joins b" "br_leaves ?b = br_leaves b"
    "br_ready ?b = br_ready b - br_shared b" "br_epoch ?b = br_epoch b + 1" "br_ring ?b = br_ring b" "br_input ?b = br_input b"
    "br_slot ?b = br_slot b" "br_done ?b = br_done b" "br_pc ?b = next_pc L k"
    "br_output ?b = br_output (execute_commands execute cmds b)" "br_owner ?b = br_owner b" "br_worker ?b = br_worker b"
    by (simp_all add: signal_done_def execute_commands_def)
  have cur: "cur_op ?b = Suc k mod ops_per_token L" "cur_op b = k"
    using next_pc_cur [OF _ kept(11)] loop assms(2) by (auto simp: cur_op_def)
  show "masks_bounded n ?b" using ok(1) by (simp add: masks_bounded_def kept)
  show "joins_sync ?b" using ok(2) by (simp add: joins_sync_def quiet_def kept)
  show "ring_sync good L ?b" using ok(3) loop by (auto simp: ring_sync_def kept)
  show "loop_sync good L ?b" by (rule loop_sync_next [OF kept(11)]) (use loop kept in auto)
  show "results_ok f ?b" using ok(5) by (simp add: results_ok_def kept)
  show "owners_sync ?b" by (rule owners_keep [OF ok(7)]) (simp_all only: kept, simp_all add: fetched_def kept next_pc_def)
  show "slot_sync f good L ?b sid" for sid
  proof (cases "sid \<in> br_active b")
    case True
    then have ready: "sid \<in> br_ready b" "sid \<notin> set (ring_slots (br_ring b))" "sid \<in> br_shared b"
      using loop by auto
    have "sid \<in> cmd_slot ` set cmds" using loop True by auto
    then obtain c where c: "c \<in> set cmds" "cmd_slot c = sid" by blast
    have out: "br_output ?b sid = f (op_at L k) (br_input b sid)"
      using run_results [OF assms(3) cmds c(1)] c(2) by (simp add: kept)
    show ?thesis
    proof (cases "br_slot b sid")
      case (Waiting_epoch e req rest)
      note s = ok(6) [of sid, unfolded slot_sync_def Waiting_epoch slot_stage.case]
      then obtain op i g where rest: "rest = Call op i g" by (cases rest) auto
      have "\<not> e < br_epoch b" using s ready(1) by (auto simp: rest quiet_def)
      then have w: "e = br_epoch b" "br_input b sid = i" "in_phase f good L (Call op i g) k"
        using s cur by (auto simp: rest)
      then have "op = op_at L k" "in_phase f good L (g (f op i)) (Suc k mod ops_per_token L)"
        unfolding in_phase_call by blast+
      then show ?thesis
        using s w ready out Waiting_epoch rest
        by (auto simp: slot_sync_def quiet_def running_def kept cur simp del: in_phase.simps)
    qed (use ok(6) [of sid] True ready in \<open>auto simp: slot_sync_def quiet_def running_def kept\<close>)
  next
    case False
    then have "br_slot b sid = Free \<or> (\<exists>req. br_slot b sid = Claimed req \<or> br_slot b sid = Joining req) \<or>
      (\<exists>req r. br_slot b sid = Leaving req r)"
      using ok(6) [of sid] by (cases "br_slot b sid") (auto simp: slot_sync_def running_def split: calls.splits)
    then show ?thesis
      using ok(6) [of sid] False by (auto simp: slot_sync_def quiet_def running_def kept)
  qed
qed

lemma crash_ok:
  assumes "barrier_ok f good L n b" "br_pc b = Execute k cmds"
  shows "barrier_ok f good L n (b\<lparr>br_pc := Crashed k\<rparr>)" (is "barrier_ok f good L n ?b")
proof (rule barrier_okI)
  note ok = barrier_okD [OF assms(1)]
  show "masks_bounded n ?b" using ok(1) by (simp add: masks_bounded_def)
  show "joins_sync ?b" using ok(2) by (simp add: joins_sync_def quiet_def)
  show "ring_sync good L ?b" using ok(3) assms(2) by (simp add: ring_sync_def cur_op_def)
  show "loop_sync good L ?b" by (simp add: loop_sync_def)
  show "results_ok f ?b" using ok(5) by (simp add: results_ok_def)
  show "owners_sync ?b" by (rule owners_keep [OF ok(7)]) (auto simp: fetched_def)
  show "slot_sync f good L ?b sid" for sid
    using ok(6) [of sid] same_view_sync [of sid b ?b f good L] assms(2) by (simp add: same_view_def cur_op_def)
qed

lemma check_leaves_ok:
  assumes "barrier_ok f good L n b"
  shows "barrier_ok f good L n (check_leaves b)"
proof (cases "\<exists>k. br_pc b = Wait_slots k \<and> \<not> br_active b \<subseteq> br_ready b \<and> br_leaves b \<inter> br_active b \<noteq> {}")
  case True
  then obtain k where pc: "br_pc b = Wait_slots k" and leaving: "\<not> br_active b \<subseteq> br_ready b" "br_leaves b \<inter> br_active b \<noteq> {}"
    by blast
  define act where "act = br_active b - br_leaves b \<inter> br_active b"
  let ?b = "b\<lparr>br_active := act, br_leaves := br_leaves b - br_leaves b \<inter> br_active b, br_shared := act,
             br_pc := (if act = {} then Take_leaves else Wait_slots k)\<rparr>"
  note ok = barrier_okD [OF assms]
  have act: "sid \<in> act \<longleftrightarrow> sid \<in> br_active b \<and> sid \<notin> br_leaves b" for sid by (auto simp: act_def)
  have cur: "cur_op ?b = cur_op b" if "act \<noteq> {}" using that pc by (simp add: cur_op_def)
  have "barrier_ok f good L n ?b"
  proof (rule barrier_okI)
    show "masks_bounded n ?b" using ok(1) by (auto simp: masks_bounded_def act)
    show "joins_sync ?b" using ok(2) by (simp add: joins_sync_def quiet_def act)
    show "ring_sync good L ?b" using ok(3) cur by (cases "act = {}") (auto simp: ring_sync_def act)
    show "loop_sync good L ?b" using ok(4) pc by (auto simp: loop_sync_def act)
    show "results_ok f ?b" using ok(5) by (simp add: results_ok_def)
    show "owners_sync ?b" by (rule owners_keep [OF ok(7)]) (auto simp: fetched_def split: if_splits)
    show "slot_sync f good L ?b sid" for sid
    proof (cases "sid \<in> act")
      case True
      then have "same_view sid b ?b"
        using act [of sid] ok(4) pc cur by (auto simp: same_view_def loop_sync_def)
      then show ?thesis using same_view_sync [of sid b ?b f good L] ok(6) [of sid] by simp
    next
      case False
      then have gone: "sid \<in> br_active b \<Longrightarrow> sid \<in> br_leaves b" using act [of sid] by simp
      then have "\<not> running b sid" by (auto simp: running_def)
      show ?thesis
      proof (cases "sid \<in> br_active b")
        case True
        then show ?thesis
          using ok(6) [of sid] gone [OF True] False \<open>\<not> running b sid\<close>
          by (cases "br_slot b sid") (simp_all add: slot_sync_def quiet_def)
      next
        case inactive: False
        then show ?thesis
          using ok(6) [of sid] False \<open>\<not> running b sid\<close>
          by (cases "br_slot b sid") (simp_all add: slot_sync_def quiet_def split: if_split_asm)
      qed
    qed
  qed
  with pc leaving show ?thesis by (simp add: check_leaves_def Let_def act_def)
next
  case False
  then show ?thesis using assms by (auto simp: check_leaves_def Let_def split: agg_pc.split)
qed

lemma agg_loop_ok:
  assumes "barrier_ok f good (bc_num_layers cfg) n b" "n \<le> 128"
    and "\<forall>op ins. list_all (good op) ins \<longrightarrow> bc_execute cfg op ins = map (f op) ins"
  shows "barrier_ok f good (bc_num_layers cfg) n (agg_loop_step cfg b)"
proof (cases "br_pc b")
  case (Wait_slots k)
  show ?thesis
  proof (cases "br_active b \<subseteq> br_ready b")
    case True
    let ?cmds = "filter (\<lambda>c. cmd_slot c \<in> br_active b) (br_ring b)"
    obtain pre ring where fetch: "fetch_commands (br_active b) (card (br_active b)) max_drain (br_ring b) = Some (?cmds, ring)"
      and parts: "br_ring b = pre @ ring" "\<forall>c \<in> set ring. cmd_slot c \<notin> br_active b"
        "set (ring_slots ?cmds) = br_active b" "distinct (ring_slots ?cmds)"
      by (rule fetch_ready [OF assms(1,2) Wait_slots True])
    have "br_active b \<noteq> {}" using barrier_okD(4) [OF assms(1)] Wait_slots by (simp add: loop_sync_def)
    then have "?cmds \<noteq> []" using parts(3) by (metis list.map(1) list.set(1))
    with fetch True Wait_slots wait_ok [OF assms(1,2) Wait_slots True refl parts] show ?thesis
      by (simp add: agg_loop_step_def)
  qed (simp add: agg_loop_step_def Wait_slots assms(1))
next
  case (Execute k cmds)
  then show ?thesis
    using execute_ok [OF assms(1) Execute assms(3)] crash_ok [OF assms(1) Execute] by (simp add: agg_loop_step_def)
qed (simp_all add: agg_loop_step_def take_leaves_ok take_joins_ok publish_ok assms(1))

section \<open>Runs\<close>

fun settled_claims :: "('i, 'o) batch_fun barrier_config \<Rightarrow> ('i, 'o, 'r) barrier_event list \<Rightarrow> ('i, 'o, 'r) barrier \<Rightarrow> bool" where
  "settled_claims cfg [] b = True"
| "settled_claims cfg (ev # evs) b \<longleftrightarrow> settled_event ev b \<and> settled_claims cfg evs (barrier_step cfg ev b)"

lemma barrier_step_ok:
  assumes "barrier_ok f good (bc_num_layers cfg) n b" "n \<le> 128"
    and "\<forall>op ins. list_all (good op) ins \<longrightarrow> bc_execute cfg op ins = map (f op) ins"
    and "phased_event f good (bc_num_layers cfg) n ev" "settled_event ev b"
  shows "barrier_ok f good (bc_num_layers cfg) n (barrier_step cfg ev b)"
  using assms
  by (cases ev) (simp_all add: barrier_step_def claim_ok join_ok notice_ok read_epoch_ok submit_ok signal_ready_ok
       read_output_ok finish_ok await_left_ok give_up_ok abort_ok agg_loop_ok check_leaves_ok)

text \<open>
  An orderly run: no request is cut short, no wait for a leave times out, and the ring has
  room for a command of every slot. In such a run the waiting that the code does before it
  gives a slot back is enough: every free slot is settled.
\<close>

definition orderly_event :: "('i, 'o, 'r) barrier_event \<Rightarrow> bool" where
  "orderly_event ev = (case ev of Release_timeout sid \<Rightarrow> False | Give_up sid \<Rightarrow> False | Abort sid \<Rightarrow> False | _ \<Rightarrow> True)"

definition orderly :: "('i, 'o) batch_fun barrier_config \<Rightarrow> ('i, 'o, 'r) barrier_event list \<Rightarrow> bool" where
  "orderly cfg evs \<longleftrightarrow> bc_num_slots cfg < bc_capacity cfg \<and> list_all orderly_event evs"

definition free_settled :: "('i, 'o, 'r) barrier \<Rightarrow> bool" where
  "free_settled b \<longleftrightarrow> (\<forall>sid. br_slot b sid = Free \<longrightarrow> settled b sid)"

lemma free_settledD: "free_settled b \<Longrightarrow> br_slot b sid = Free \<Longrightarrow>
    sid \<notin> br_active b \<and> sid \<notin> br_shared b \<and> sid \<notin> br_leaves b \<and> sid \<notin> br_joins b \<and> sid \<notin> set (ring_slots (br_ring b))"
  unfolding free_settled_def settled_iff by blast

lemma barrier_init_free: "free_settled (barrier_init input out)"
  by (simp add: free_settled_def settled_def leave_noticed_def barrier_init_def)

lemma free_settledI:
  "(\<And>sid. br_slot b sid = Free \<Longrightarrow> sid \<notin> br_active b \<and> sid \<notin> br_shared b \<and> sid \<notin> br_leaves b \<and> sid \<notin> br_joins b \<and>
      sid \<notin> set (ring_slots (br_ring b))) \<Longrightarrow> free_settled b"
  unfolding free_settled_def settled_iff by blast

lemma fetch_suffix: "fetch_commands act n limit ring = Some (cmds, ring') \<Longrightarrow> set ring' \<subseteq> set ring"
  by (induction act n limit ring arbitrary: cmds ring' rule: fetch_commands.induct) (auto split: if_splits)

lemma agg_loop_free:
  assumes "free_settled b"
  shows "free_settled (agg_loop_step cfg b)"
proof (rule free_settledI)
  fix sid assume "br_slot (agg_loop_step cfg b) sid = Free"
  moreover have "br_slot (agg_loop_step cfg b) = br_slot b"
    by (simp add: agg_loop_step_def signal_done_def execute_commands_def split: agg_pc.split option.split)
  ultimately have free: "br_slot b sid = Free" by simp
  note s = free_settledD [OF assms free]
  have ring: "sid \<notin> set (ring_slots ring)" if "fetch_commands act n limit (br_ring b) = Some (cmds, ring)" for act n limit cmds ring
    using s fetch_suffix [OF that] by auto
  show "sid \<notin> br_active (agg_loop_step cfg b) \<and> sid \<notin> br_shared (agg_loop_step cfg b) \<and> sid \<notin> br_leaves (agg_loop_step cfg b) \<and>
    sid \<notin> br_joins (agg_loop_step cfg b) \<and> sid \<notin> set (ring_slots (br_ring (agg_loop_step cfg b)))"
    using s ring by (auto simp: agg_loop_step_def signal_done_def execute_commands_def split: agg_pc.split option.split prod.split)
qed

lemma ring_room:
  assumes "barrier_ok f good L n b" "sid < n" "sid \<notin> set (ring_slots (br_ring b))"
  shows "length (br_ring b) + 1 \<le> n"
proof -
  note ok = barrier_okD [OF assms(1)]
  have "distinct (sid # ring_slots (br_ring b))" "set (sid # ring_slots (br_ring b)) \<subseteq> {..<n}"
    using ok(1,3) assms(2,3) by (auto simp: ring_sync_def masks_bounded_def)
  then have "length (sid # ring_slots (br_ring b)) \<le> card {..<n}"
    by (metis card_mono distinct_card finite_lessThan)
  then show ?thesis by simp
qed

lemma submit_free:
  assumes "barrier_ok f good L (bc_num_slots cfg) b" "bc_num_slots cfg < bc_capacity cfg" "free_settled b"
  shows "free_settled (submit_command cfg sid b)"
proof (cases "\<exists>e req op i k. br_slot b sid = Epoch_read e req (Call op i k)")
  case True
  then obtain e req op i k where stage: "br_slot b sid = Epoch_read e req (Call op i k)" by blast
  note ok = barrier_okD [OF assms(1)]
  have "sid < bc_num_slots cfg" using ok(1) stage by (simp add: masks_bounded_def)
  moreover have "sid \<notin> set (ring_slots (br_ring b))"
    using ok(6) [of sid, unfolded slot_sync_def stage slot_stage.case] by (simp add: quiet_def)
  ultimately have "\<not> bc_capacity cfg \<le> length (br_ring b) + 1" using ring_room [OF assms(1)] assms(2) by fastforce
  then show ?thesis
    using free_settledD [OF assms(3)] stage by (intro free_settledI) (auto simp: submit_command_def split: if_splits)
next
  case False
  then show ?thesis using assms(3) by (auto simp: submit_command_def split: slot_stage.split calls.split)
qed

lemma await_left_free:
  assumes "barrier_ok f good L n b" "free_settled b"
  shows "free_settled (await_left False sid b)"
proof (cases "\<exists>req r. br_slot b sid = Leaving req r \<and> sid \<notin> br_shared b")
  case True
  then obtain req r where stage: "br_slot b sid = Leaving req r" and left: "sid \<notin> br_shared b" by blast
  note ok = barrier_okD [OF assms(1)]
  have "sid \<notin> br_joins b" by (rule not_joining [OF ok(2)]) (simp_all add: stage)
  then show ?thesis
    using ok(6) [of sid, unfolded slot_sync_def stage slot_stage.case] free_settledD [OF assms(2)] stage left
    by (intro free_settledI) (auto simp: await_left_def barrier_release_def quiet_def split: if_splits)
next
  case False
  then show ?thesis using assms(2) by (auto simp: await_left_def split: slot_stage.split)
qed

lemma orderly_step_free:
  assumes "barrier_ok f good L (bc_num_slots cfg) b" "bc_num_slots cfg < bc_capacity cfg" "free_settled b" "orderly_event ev"
  shows "free_settled (barrier_step cfg ev b)"
proof -
  note free = free_settledD [OF assms(3)]
  have stage: "free_settled (set_stage sid stage b')"
    if "stage \<noteq> Free" "br_active b' = br_active b" "br_shared b' = br_shared b" "br_leaves b' \<subseteq> insert sid (br_leaves b)"
      "br_joins b' \<subseteq> insert sid (br_joins b)" "br_ring b' = br_ring b" "br_slot b' = br_slot b" for sid stage b'
    using that free by (intro free_settledI) (auto split: if_splits)
  have "free_settled (check_leaves b)"
    using free assms(3) by (auto intro!: free_settledI simp: check_leaves_def Let_def split: agg_pc.split)
  moreover have "free_settled (barrier_claim sid wid req b)" "free_settled (signal_slot_join sid b)" "free_settled (notice_active sid b)"
    "free_settled (read_epoch sid b)" "free_settled (signal_slot_ready sid b)" "free_settled (read_output sid b)"
    "free_settled (finish_slot sid b)" for sid wid req
    using assms(3)
    by (auto intro!: stage simp: barrier_claim_def signal_slot_join_def notice_active_def read_epoch_def signal_slot_ready_def
        read_output_def finish_slot_def split: slot_stage.split calls.split)
  ultimately show ?thesis
    using assms(4) submit_free [OF assms(1-3)] await_left_free [OF assms(1,3)] agg_loop_free [OF assms(3)]
    by (cases ev) (simp_all add: barrier_step_def orderly_event_def)
qed

text \<open>The operations a batch executor of the base model must be given by.\<close>

locale batch_executor =
  fixes good :: "agg_op \<Rightarrow> 'i \<Rightarrow> bool" and execute :: "('i, 'o) batch_fun" and f :: "agg_op \<Rightarrow> 'i \<Rightarrow> 'o"
  assumes batch_of_singles: "list_all (good op) ins \<Longrightarrow> execute op ins = map (f op) ins"
begin

lemma run_ok:
  assumes "bc_execute cfg = execute" "bc_num_slots cfg \<le> 128"
    and "barrier_ok f good (bc_num_layers cfg) (bc_num_slots cfg) b"
    and "list_all (phased_event f good (bc_num_layers cfg) (bc_num_slots cfg)) evs" "settled_claims cfg evs b"
  shows "barrier_ok f good (bc_num_layers cfg) (bc_num_slots cfg) (barrier_run cfg evs b)"
  using assms(3-5)
proof (induction evs arbitrary: b)
  case (Cons ev evs)
  then show ?case
    using barrier_step_ok [OF Cons.prems(1) assms(2), of ev] batch_of_singles assms(1) by (simp add: barrier_run_def)
qed (simp add: barrier_run_def)

text \<open>In an orderly run every slot that is claimed is settled.\<close>

lemma orderly_settled:
  assumes "bc_execute cfg = execute" "bc_num_slots cfg \<le> 128" "barrier_ok f good (bc_num_layers cfg) (bc_num_slots cfg) b"
    and "list_all (phased_event f good (bc_num_layers cfg) (bc_num_slots cfg)) evs" "orderly cfg evs" "free_settled b"
  shows "settled_claims cfg evs b"
  using assms(3-6)
proof (induction evs arbitrary: b)
  case (Cons ev evs)
  have now: "settled_event ev b"
    using Cons.prems(4) by (auto simp: settled_event_def free_settled_def split: barrier_event.split)
  have "barrier_ok f good (bc_num_layers cfg) (bc_num_slots cfg) (barrier_step cfg ev b)"
    using barrier_step_ok [OF Cons.prems(1) assms(2), of ev] batch_of_singles assms(1) Cons.prems(2) now by simp
  moreover have "free_settled (barrier_step cfg ev b)"
    using orderly_step_free [OF Cons.prems(1) _ Cons.prems(4)] Cons.prems(3) by (simp add: orderly_def)
  ultimately show ?case using Cons.IH Cons.prems(2,3) now by (simp add: orderly_def)
qed simp

text \<open>Every request gets the result it would get with a base model of its own.\<close>

theorem transparent:
  assumes "bc_execute cfg = execute" "bc_num_slots cfg \<le> 128"
    and "list_all (phased_event f good (bc_num_layers cfg) (bc_num_slots cfg)) evs" "settled_claims cfg evs (barrier_init input out)"
    and "(sid, req, r) \<in> set (br_done (barrier_run cfg evs (barrier_init input out)))"
  shows "r = run_calls f req"
  using barrier_okD(5) [OF run_ok [OF assms(1,2) barrier_init_ok assms(3,4)]] assms(5) by (auto simp: results_ok_def)

text \<open>
  The loop does not get stuck: when every active slot waits for its result, two of its steps
  end the operation and each of them can read.
\<close>

theorem completes:
  assumes "bc_execute cfg = execute" "bc_num_slots cfg \<le> 128"
    and "barrier_ok f good (bc_num_layers cfg) (bc_num_slots cfg) b" "br_pc b = Wait_slots k"
    and "\<forall>sid \<in> br_active b. \<exists>req rest. br_slot b sid = Waiting_epoch (br_epoch b) req rest"
    and "b' = agg_loop_step cfg (agg_loop_step cfg b)"
  shows "br_epoch b' = br_epoch b + 1 \<and>
    (\<forall>sid \<in> br_active b. \<exists>req op i g. br_slot b sid = Waiting_epoch (br_epoch b) req (Call op i g) \<and>
       br_slot (read_output sid b') sid = At req (g (f op i)))"
proof -
  note ok = barrier_okD [OF assms(3)]
  let ?cmds = "filter (\<lambda>c. cmd_slot c \<in> br_active b) (br_ring b)"
  have ready: "br_active b \<subseteq> br_ready b"
  proof
    fix sid assume "sid \<in> br_active b"
    then obtain req rest where w: "br_slot b sid = Waiting_epoch (br_epoch b) req rest" using assms(5) by blast
    show "sid \<in> br_ready b"
      using ok(6) [of sid, unfolded slot_sync_def w slot_stage.case] by (cases rest) auto
  qed
  obtain pre ring where fetch: "fetch_commands (br_active b) (card (br_active b)) max_drain (br_ring b) = Some (?cmds, ring)"
    and parts: "br_ring b = pre @ ring" "\<forall>c \<in> set ring. cmd_slot c \<notin> br_active b"
      "set (ring_slots ?cmds) = br_active b" "distinct (ring_slots ?cmds)"
    by (rule fetch_ready [OF assms(3,2,4) ready])
  have "br_active b \<noteq> {}" using ok(4) assms(4) by (simp add: loop_sync_def)
  then have ne: "?cmds \<noteq> []" using parts(3) by (metis list.map(1) list.set(1))
  define b1 where "b1 = b\<lparr>br_ring := ring, br_pc := Execute k ?cmds\<rparr>"
  have step1: "agg_loop_step cfg b = b1" using fetch ready assms(4) ne by (simp add: agg_loop_step_def b1_def)
  have ok1: "barrier_ok f good (bc_num_layers cfg) (bc_num_slots cfg) b1"
    unfolding b1_def by (rule wait_ok [OF assms(3,2,4) ready refl parts])
  have law: "\<forall>op ins. list_all (good op) ins \<longrightarrow> bc_execute cfg op ins = map (f op) ins"
    using batch_of_singles assms(1) by simp
  have "owners_sync b1" by (rule barrier_okD(7) [OF ok1])
  moreover have "br_slot b1 (cmd_slot c) \<noteq> Free" if "c \<in> set ?cmds" for c
    using that assms(5) by (auto simp: b1_def)
  ultimately have verified: "owners_verified ?cmds b1"
    by (auto simp: owners_verified_def list_all_iff owners_sync_def fetched_def b1_def)
  have step2: "b' = (signal_done (execute_commands (bc_execute cfg) ?cmds b1))\<lparr>br_pc := next_pc (bc_num_layers cfg) k\<rparr>"
    using assms(6) verified by (simp add: step1) (simp add: agg_loop_step_def b1_def)
  have ok2: "barrier_ok f good (bc_num_layers cfg) (bc_num_slots cfg) b'"
    unfolding step2 by (rule execute_ok [OF ok1 _ law]) (simp add: b1_def)
  have kept: "br_epoch b' = br_epoch b + 1" "br_slot b' = br_slot b"
    by (simp_all add: step2 signal_done_def execute_commands_def b1_def)
  show ?thesis
  proof (intro conjI ballI)
    fix sid assume "sid \<in> br_active b"
    then obtain req rest where w: "br_slot b sid = Waiting_epoch (br_epoch b) req rest" using assms(5) by blast
    have w': "br_slot b' sid = Waiting_epoch (br_epoch b) req rest" using w kept by simp
    note s = barrier_okD(6) [OF ok2, of sid, unfolded slot_sync_def w' slot_stage.case]
    then obtain op i g where rest: "rest = Call op i g" by (cases rest) auto
    then have "br_output b' sid = f op i" using s kept by simp
    then show "\<exists>req op i g. br_slot b sid = Waiting_epoch (br_epoch b) req (Call op i g) \<and>
       br_slot (read_output sid b') sid = At req (g (f op i))"
      using w w' rest kept by (auto simp: read_output_def)
  qed (rule kept)
qed

end

end
