(* ===== verification/Lora_Layers.thy ===== *)
theory Lora_Layers
  imports Prelude
begin

text \<open>
  The LoRA layers of a worker, \<open>src/src/worker/model_builder.py\<close> and the operations of
  \<open>worker_sync.py\<close> that add their deltas to what the aggregator computes. A 2-D tensor
  is its shape and its rows; a hidden state of one slot, of shape (1, t, d), is
  a matrix of t rows. Arithmetic is exact. An operation on shapes that torch refuses is a
  \<open>RuntimeError\<close>; torch's broadcasting of sizes one is written out.
\<close>

section \<open>Tensors\<close>

record matrix =
  mx_rows :: nat
  mx_cols :: nat
  mx_data :: "pyfloat list list"

definition mk_matrix :: "nat \<Rightarrow> nat \<Rightarrow> (nat \<Rightarrow> nat \<Rightarrow> pyfloat) \<Rightarrow> matrix" where
  "mk_matrix r c f = \<lparr>mx_rows = r, mx_cols = c, mx_data = map (\<lambda>i. map (f i) [0..<c]) [0..<r]\<rparr>"

definition mx_at :: "matrix \<Rightarrow> nat \<Rightarrow> nat \<Rightarrow> pyfloat" where
  "mx_at m i j = mx_data m ! i ! j"

definition mx_zeros :: "nat \<Rightarrow> nat \<Rightarrow> matrix" where
  "mx_zeros r c = mk_matrix r c (\<lambda>_ _. 0)"

definition mx_transpose :: "matrix \<Rightarrow> matrix" where
  "mx_transpose m = mk_matrix (mx_cols m) (mx_rows m) (\<lambda>i j. mx_at m j i)"

definition mx_scale :: "pyfloat \<Rightarrow> matrix \<Rightarrow> matrix" where
  "mx_scale s m = mk_matrix (mx_rows m) (mx_cols m) (\<lambda>i j. mx_at m i j * s)"

definition mx_mult :: "matrix \<Rightarrow> matrix \<Rightarrow> py_error + matrix" where
  "mx_mult a b =
     (if mx_cols a = mx_rows b
      then Inr (mk_matrix (mx_rows a) (mx_cols b)
                  (\<lambda>i j. sum_list (map (\<lambda>k. mx_at a i k * mx_at b k j) [0..<mx_cols a])))
      else Inl RuntimeError)"

text \<open>A size is stretched to another if it is the same or one; the index then read.\<close>

definition fits :: "nat \<Rightarrow> nat \<Rightarrow> bool" where
  "fits n m \<longleftrightarrow> n = m \<or> n = 1"

definition bc :: "nat \<Rightarrow> nat \<Rightarrow> nat" where
  "bc n i = (if n = 1 then 0 else i)"

definition mx_add :: "matrix \<Rightarrow> matrix \<Rightarrow> py_error + matrix" where
  "mx_add a b =
     (if (fits (mx_rows a) (mx_rows b) \<or> mx_rows b = 1) \<and> (fits (mx_cols a) (mx_cols b) \<or> mx_cols b = 1)
      then Inr (mk_matrix (if mx_rows a = 1 then mx_rows b else mx_rows a) (if mx_cols a = 1 then mx_cols b else mx_cols a)
                  (\<lambda>i j. mx_at a (bc (mx_rows a) i) (bc (mx_cols a) j) + mx_at b (bc (mx_rows b) i) (bc (mx_cols b) j)))
      else Inl RuntimeError)"

text \<open>\<open>dst.data.copy_(src)\<close>.\<close>

definition mx_copy :: "matrix \<Rightarrow> matrix \<Rightarrow> py_error + matrix" where
  "mx_copy dst src =
     (if fits (mx_rows src) (mx_rows dst) \<and> fits (mx_cols src) (mx_cols dst)
      then Inr (mk_matrix (mx_rows dst) (mx_cols dst) (\<lambda>i j. mx_at src (bc (mx_rows src) i) (bc (mx_cols src) j)))
      else Inl RuntimeError)"

definition mx_zeroed :: "matrix \<Rightarrow> matrix" where
  "mx_zeroed m = mx_zeros (mx_rows m) (mx_cols m)"

text \<open>\<open>m[r0:r1, c0:c1] = src\<close>; bounds past the end are cut.\<close>

definition mx_assign :: "matrix \<Rightarrow> nat \<Rightarrow> nat \<Rightarrow> nat \<Rightarrow> nat \<Rightarrow> matrix \<Rightarrow> py_error + matrix" where
  "mx_assign m r0 r1 c0 c1 src =
     (let r1' = min r1 (mx_rows m); c1' = min c1 (mx_cols m)
      in if fits (mx_rows src) (r1' - r0) \<and> fits (mx_cols src) (c1' - c0)
         then Inr (mk_matrix (mx_rows m) (mx_cols m)
                     (\<lambda>i j. if r0 \<le> i \<and> i < r1' \<and> c0 \<le> j \<and> j < c1'
                            then mx_at src (bc (mx_rows src) (i - r0)) (bc (mx_cols src) (j - c0))
                            else mx_at m i j))
         else Inl RuntimeError)"

text \<open>\<open>torch.cat(ms, dim=1)\<close> and \<open>m.split(dims, dim=-1)\<close>.\<close>

fun cat_at :: "matrix list \<Rightarrow> nat \<Rightarrow> nat \<Rightarrow> pyfloat" where
  "cat_at [] i j = 0"
| "cat_at (m # ms) i j = (if j < mx_cols m then mx_at m i j else cat_at ms i (j - mx_cols m))"

definition mx_cat :: "matrix list \<Rightarrow> py_error + matrix" where
  "mx_cat ms =
     (case ms of
        [] \<Rightarrow> Inl RuntimeError
      | m # rest \<Rightarrow>
          if list_all (\<lambda>x. mx_rows x = mx_rows m) rest
          then Inr (mk_matrix (mx_rows m) (sum_list (map mx_cols ms)) (cat_at ms))
          else Inl RuntimeError)"

fun split_cols :: "nat \<Rightarrow> nat list \<Rightarrow> matrix \<Rightarrow> matrix list" where
  "split_cols off [] m = []"
| "split_cols off (d # ds) m = mk_matrix (mx_rows m) d (\<lambda>i j. mx_at m i (off + j)) # split_cols (off + d) ds m"

definition mx_split :: "nat list \<Rightarrow> matrix \<Rightarrow> py_error + matrix list" where
  "mx_split dims m = (if sum_list dims = mx_cols m then Inr (split_cols 0 dims m) else Inl RuntimeError)"

section \<open>LoRA modules\<close>

text \<open>\<open>FastLoRAModule\<close>: A of shape (rank, in), B of shape (out, rank).\<close>

record fast_lora =
  fm_A :: matrix
  fm_B :: matrix
  fm_scaling :: pyfloat

text \<open>\<open>nn.Linear\<close> without bias.\<close>

definition linear :: "matrix \<Rightarrow> matrix \<Rightarrow> py_error + matrix" where
  "linear weight x = mx_mult x (mx_transpose weight)"

text \<open>\<open>FusedLoRA\<close>; \<open>fused_A\<close> and \<open>fused_B\<close> exist only if \<open>has_lora\<close>.\<close>

record fused_lora =
  fl_out_dims :: "nat list"
  fl_num_loras :: nat
  fl_params :: "(matrix \<times> matrix) option"

definition has_lora :: "fused_lora \<Rightarrow> bool" where
  "has_lora f = (fl_params f \<noteq> None)"

text \<open>The weights of one projection, zero if the adapter does not target it; \<open>scaling\<close> is the factor of A.\<close>

definition lora_weights :: "nat \<Rightarrow> nat \<Rightarrow> nat \<Rightarrow> (fast_lora \<Rightarrow> pyfloat) \<Rightarrow> fast_lora option \<Rightarrow> matrix \<times> matrix" where
  "lora_weights in_features rank out scaling m =
     (case m of
        Some l \<Rightarrow> (mx_scale (scaling l) (mx_transpose (fm_A l)), mx_transpose (fm_B l))
      | None \<Rightarrow> (mx_zeros in_features rank, mx_zeros rank out))"

text \<open>The loop that collects them; \<open>out_dims[i]\<close> is only read for a missing module.\<close>

fun collect_weights ::
  "nat \<Rightarrow> nat \<Rightarrow> (fast_lora \<Rightarrow> pyfloat) \<Rightarrow> fast_lora option list \<Rightarrow> nat list \<Rightarrow> py_error + (matrix \<times> matrix) list" where
  "collect_weights in_features rank scaling [] dims = Inr []"
| "collect_weights in_features rank scaling (m # ms) dims =
     (if m = None \<and> dims = [] then Inl IndexError
      else and_then (collect_weights in_features rank scaling ms (tl dims))
             (\<lambda>ws. Inr (lora_weights in_features rank (hd dims) scaling m # ws)))"

text \<open>The loop that writes the blocks of B on the diagonal.\<close>

fun fill_diagonal :: "nat \<Rightarrow> nat \<Rightarrow> nat \<Rightarrow> matrix list \<Rightarrow> nat list \<Rightarrow> matrix \<Rightarrow> py_error + matrix" where
  "fill_diagonal rank i col [] dims m = Inr m"
| "fill_diagonal rank i col (b # bs) [] m = Inl IndexError"
| "fill_diagonal rank i col (b # bs) (d # dims) m =
     and_then (mx_assign m (i * rank) ((i + 1) * rank) col (col + d) b)
       (fill_diagonal rank (i + 1) (col + d) bs dims)"

definition valid_modules :: "fast_lora option list \<Rightarrow> fast_lora list" where
  "valid_modules ms = map the (filter (\<lambda>m. m \<noteq> None) ms)"

definition new_fused_lora :: "fast_lora option list \<Rightarrow> nat list \<Rightarrow> py_error + fused_lora" where
  "new_fused_lora ms dims =
     (case valid_modules ms of
        [] \<Rightarrow> Inr \<lparr>fl_out_dims = dims, fl_num_loras = length ms, fl_params = None\<rparr>
      | v # _ \<Rightarrow>
          and_then (collect_weights (mx_cols (fm_A v)) (mx_rows (fm_A v)) fm_scaling ms dims) (\<lambda>ws.
          and_then (mx_cat (map fst ws)) (\<lambda>a.
          let rank = mx_cols (fst (hd ws))
          in and_then (fill_diagonal rank 0 0 (map snd ws) dims (mx_zeros (rank * length ms) (sum_list dims))) (\<lambda>b.
          Inr \<lparr>fl_out_dims = dims, fl_num_loras = length ms, fl_params = Some (a, b)\<rparr>))))"

definition fused_forward :: "fused_lora \<Rightarrow> matrix \<Rightarrow> py_error + matrix option list" where
  "fused_forward f x =
     (case fl_params f of
        None \<Rightarrow> Inr (replicate (fl_num_loras f) None)
      | Some (a, b) \<Rightarrow>
          and_then (mx_mult x a) (\<lambda>xa. and_then (mx_mult xa b) (\<lambda>y.
          and_then (mx_split (fl_out_dims f) y) (\<lambda>ds. Inr (map Some ds)))))"

section \<open>The layers of the hollow model\<close>

text \<open>\<open>SyncRemoteLinear\<close> and \<open>SyncRemoteLoRALinear\<close>.\<close>

datatype remote_linear = Remote_linear | Remote_lora matrix matrix pyfloat

record decoder_layer =
  dl_qkv :: "fused_lora option"
  dl_gate_up :: "fused_lora option"
  dl_o_proj :: remote_linear
  dl_down_proj :: remote_linear

record model_info =
  mi_hidden_size :: nat
  mi_num_heads :: nat
  mi_num_kv_heads :: nat
  mi_intermediate_size :: nat

type_synonym lora_layers = "(int, (string, fast_lora) dict) dict"

definition get_lora_module :: "lora_layers \<Rightarrow> int \<Rightarrow> string \<Rightarrow> fast_lora option" where
  "get_lora_module lls layer_idx module_name =
     (case map_of lls layer_idx of None \<Rightarrow> None | Some ms \<Rightarrow> map_of ms module_name)"

definition qkv_names :: "string list" where
  "qkv_names = [''self_attn.q_proj'', ''self_attn.k_proj'', ''self_attn.v_proj'']"

definition gate_up_names :: "string list" where
  "gate_up_names = [''mlp.gate_proj'', ''mlp.up_proj'']"

definition qkv_dims :: "model_info \<Rightarrow> py_error + nat list" where
  "qkv_dims info =
     (if mi_num_heads info = 0 then Inl ZeroDivisionError
      else let k_dim = mi_hidden_size info div mi_num_heads info * mi_num_kv_heads info
           in Inr [mi_hidden_size info, k_dim, k_dim])"

definition gate_up_dims :: "model_info \<Rightarrow> nat list" where
  "gate_up_dims info = [mi_intermediate_size info, mi_intermediate_size info]"

text \<open>\<open>FusedLoRA(...) if any(modules) else None\<close>.\<close>

definition fused_or_none :: "fast_lora option list \<Rightarrow> nat list \<Rightarrow> py_error + fused_lora option" where
  "fused_or_none ms dims =
     (if list_ex (\<lambda>m. m \<noteq> None) ms then and_then (new_fused_lora ms dims) (\<lambda>f. Inr (Some f)) else Inr None)"

definition remote_of :: "fast_lora option \<Rightarrow> remote_linear" where
  "remote_of m = (case m of None \<Rightarrow> Remote_linear | Some l \<Rightarrow> Remote_lora (fm_A l) (fm_B l) (fm_scaling l))"

definition build_layer :: "lora_layers \<Rightarrow> nat list \<Rightarrow> nat list \<Rightarrow> int \<Rightarrow> py_error + decoder_layer" where
  "build_layer lls qdims gdims i =
     and_then (fused_or_none (map (get_lora_module lls i) qkv_names) qdims) (\<lambda>qkv.
     and_then (fused_or_none (map (get_lora_module lls i) gate_up_names) gdims) (\<lambda>gu.
     Inr \<lparr>dl_qkv = qkv, dl_gate_up = gu,
          dl_o_proj = remote_of (get_lora_module lls i ''self_attn.o_proj''),
          dl_down_proj = remote_of (get_lora_module lls i ''mlp.down_proj'')\<rparr>))"

fun build_layers :: "lora_layers \<Rightarrow> nat list \<Rightarrow> nat list \<Rightarrow> int \<Rightarrow> nat \<Rightarrow> py_error + decoder_layer list" where
  "build_layers lls qdims gdims i 0 = Inr []"
| "build_layers lls qdims gdims i (Suc n) =
     and_then (build_layer lls qdims gdims i) (\<lambda>l.
     and_then (build_layers lls qdims gdims (i + 1) n) (\<lambda>ls. Inr (l # ls)))"

text \<open>The adapter part of \<open>build_hollow_model\<close>.\<close>

definition build_lora_model :: "model_info \<Rightarrow> nat \<Rightarrow> lora_layers \<Rightarrow> py_error + decoder_layer list" where
  "build_lora_model info num_layers lls =
     and_then (qkv_dims info) (\<lambda>qdims. build_layers lls qdims (gate_up_dims info) 0 num_layers)"

section \<open>Deltas\<close>

text \<open>
  The deltas \<open>qkv_submit_all\<close> and \<open>gate_up_submit_all\<close> compute while the aggregator works,
  and the sums \<open>qkv_get_all\<close> and \<open>gate_up_get_all\<close> return.
\<close>

definition fused_deltas :: "nat \<Rightarrow> fused_lora option \<Rightarrow> matrix \<Rightarrow> py_error + matrix option list" where
  "fused_deltas n f hidden =
     (case f of
        Some fl \<Rightarrow> if has_lora fl then fused_forward fl hidden else Inr (replicate n None)
      | None \<Rightarrow> Inr (replicate n None))"

fun add_deltas :: "matrix list \<Rightarrow> matrix option list \<Rightarrow> py_error + matrix list" where
  "add_deltas (q # qs) (d # ds) =
     and_then (case d of None \<Rightarrow> Inr q | Some m \<Rightarrow> mx_add q m) (\<lambda>y.
     and_then (add_deltas qs ds) (\<lambda>ys. Inr (y # ys)))"
| "add_deltas [] [] = Inr []"
| "add_deltas _ _ = Inl ValueError"

definition qkv_all :: "decoder_layer \<Rightarrow> matrix \<Rightarrow> matrix list \<Rightarrow> py_error + matrix list" where
  "qkv_all layer hidden raw = and_then (fused_deltas 3 (dl_qkv layer) hidden) (add_deltas raw)"

definition gate_up_all :: "decoder_layer \<Rightarrow> matrix \<Rightarrow> matrix list \<Rightarrow> py_error + matrix list" where
  "gate_up_all layer hidden raw = and_then (fused_deltas 2 (dl_gate_up layer) hidden) (add_deltas raw)"

definition remote_delta :: "remote_linear \<Rightarrow> matrix \<Rightarrow> py_error + matrix option" where
  "remote_delta l x =
     (case l of
        Remote_linear \<Rightarrow> Inr None
      | Remote_lora a b s \<Rightarrow>
          and_then (linear a x) (\<lambda>xa. and_then (linear b xa) (\<lambda>y. Inr (Some (mx_scale s y)))))"

text \<open>\<open>o_proj\<close> and \<open>down_proj\<close>: the new hidden state is the residual, plus the aggregator's result with the delta.\<close>

definition remote_all :: "remote_linear \<Rightarrow> matrix \<Rightarrow> matrix \<Rightarrow> matrix \<Rightarrow> py_error + matrix" where
  "remote_all l x raw residual =
     and_then (remote_delta l x) (\<lambda>d.
     and_then (case d of None \<Rightarrow> Inr raw | Some m \<Rightarrow> mx_add raw m) (mx_add residual))"

end
