(* ===== verification/Lora_Facts.thy ===== *)
theory Lora_Facts
  imports Lora_Layers
begin

text \<open>
  The fused LoRA product of a worker's layer is the sum of the products of its modules: the
  layers built from an adapter hold it, and a layer that holds an adapter adds exactly the
  delta of each of its modules to what the aggregator computed.
\<close>

section \<open>Matrices by their entries\<close>

lemma mk_matrix_shape [simp]: "mx_rows (mk_matrix r c f) = r" "mx_cols (mk_matrix r c f) = c"
  by (simp_all add: mk_matrix_def)

lemma mx_at_mk [simp]: "i < r \<Longrightarrow> j < c \<Longrightarrow> mx_at (mk_matrix r c f) i j = f i j"
  by (simp add: mk_matrix_def mx_at_def)

lemma mk_matrix_cong:
  assumes "r = r'" "c = c'" "\<And>i j. i < r' \<Longrightarrow> j < c' \<Longrightarrow> f i j = g i j"
  shows "mk_matrix r c f = mk_matrix r' c' g"
  using assms by (simp add: mk_matrix_def)

text \<open>The rows agree with the shape.\<close>

definition mx_ok :: "matrix \<Rightarrow> bool" where
  "mx_ok m \<longleftrightarrow> length (mx_data m) = mx_rows m \<and> list_all (\<lambda>row. length row = mx_cols m) (mx_data m)"

lemma mx_ok_mk [simp]: "mx_ok (mk_matrix r c f)"
  by (simp add: mx_ok_def mk_matrix_def list_all_iff)

lemma mk_matrix_at: "mx_ok m \<Longrightarrow> mk_matrix (mx_rows m) (mx_cols m) (mx_at m) = m"
  by (cases m) (auto simp: mk_matrix_def mx_ok_def mx_at_def list_all_length intro!: nth_equalityI)

lemma mx_zeros_shape [simp]: "mx_rows (mx_zeros r c) = r" "mx_cols (mx_zeros r c) = c"
  by (simp_all add: mx_zeros_def)

section \<open>What a module adds\<close>

text \<open>The delta of one module at row r and column c of its output; none is no delta.\<close>

definition delta_at :: "fast_lora \<Rightarrow> matrix \<Rightarrow> nat \<Rightarrow> nat \<Rightarrow> pyfloat" where
  "delta_at m x r c =
     sum_list (map (\<lambda>l. sum_list (map (\<lambda>k. mx_at x r k * mx_at (fm_A m) l k) [0..<mx_cols x])
                        * mx_at (fm_B m) c l) [0..<mx_rows (fm_A m)]) * fm_scaling m"

definition effect_at :: "fast_lora option \<Rightarrow> matrix \<Rightarrow> nat \<Rightarrow> nat \<Rightarrow> pyfloat" where
  "effect_at m x r c = (case m of None \<Rightarrow> 0 | Some l \<Rightarrow> delta_at l x r c)"

text \<open>The shapes of a module for a projection from \<open>nin\<close> to \<open>out\<close> features.\<close>

definition module_fits :: "nat \<Rightarrow> nat \<Rightarrow> fast_lora option \<Rightarrow> nat \<Rightarrow> bool" where
  "module_fits nin rank m out = (case m of
     None \<Rightarrow> True
   | Some l \<Rightarrow> mx_cols (fm_A l) = nin \<and> mx_rows (fm_A l) = rank \<and> mx_rows (fm_B l) = out \<and> mx_cols (fm_B l) = rank \<and>
       mx_ok (fm_A l) \<and> mx_ok (fm_B l))"

lemma sum_list_upt_sum: "sum_list (map f [0..<n]) = (\<Sum>k<n. f k :: pyfloat)"
  by (simp add: interv_sum_list_conv_sum_set_nat atLeast0LessThan)

lemma delta_at_sum:
  "delta_at m x r c = (\<Sum>l<mx_rows (fm_A m). (\<Sum>k<mx_cols x. mx_at x r k * (mx_at (fm_A m) l k * fm_scaling m)) * mx_at (fm_B m) c l)"
proof -
  have "(\<Sum>k<n. f k * (g k * s)) * b = (\<Sum>k<n. f k * g k) * b * s" for f g :: "nat \<Rightarrow> pyfloat" and n s b
  proof -
    have "(\<Sum>k<n. f k * (g k * s)) = (\<Sum>k<n. f k * g k) * s"
      by (simp add: sum_distrib_right mult.assoc)
    then show ?thesis by simp
  qed
  then show ?thesis by (simp add: delta_at_def sum_list_upt_sum sum_distrib_right)
qed

lemma bc_below: "i < n \<Longrightarrow> bc n i = i"
  by (simp add: bc_def)

section \<open>The fused weights\<close>

definition block_weights :: "nat \<Rightarrow> nat \<Rightarrow> (fast_lora \<Rightarrow> pyfloat) \<Rightarrow> fast_lora option list \<Rightarrow> nat list \<Rightarrow> (matrix \<times> matrix) list" where
  "block_weights nin rank sc ms dims = map2 (\<lambda>m d. lora_weights nin rank d sc m) ms dims"

lemma lora_weights_shape:
  "module_fits nin rank m d \<Longrightarrow> mx_rows (fst (lora_weights nin rank d sc m)) = nin \<and>
     mx_cols (fst (lora_weights nin rank d sc m)) = rank \<and>
     mx_rows (snd (lora_weights nin rank d sc m)) = rank \<and> mx_cols (snd (lora_weights nin rank d sc m)) = d"
  by (auto simp: lora_weights_def module_fits_def mx_scale_def mx_transpose_def mx_zeros_def split: option.splits)

lemma collect_weights_ok:
  "length ms \<le> length dims \<Longrightarrow> collect_weights nin rank sc ms dims = Inr (block_weights nin rank sc ms dims)"
proof (induction ms arbitrary: dims)
  case (Cons m ms)
  then obtain d ds where "dims = d # ds" by (cases dims) auto
  with Cons show ?case by (simp add: block_weights_def)
qed (simp add: block_weights_def)

lemma block_shapes:
  "list_all2 (module_fits nin rank) ms dims \<Longrightarrow>
     list_all2 (\<lambda>w d. mx_rows (fst w) = nin \<and> mx_cols (fst w) = rank \<and> mx_rows (snd w) = rank \<and> mx_cols (snd w) = d)
       (block_weights nin rank sc ms dims) dims"
  by (induction rule: list_all2_induct) (simp_all add: block_weights_def lora_weights_shape)

text \<open>The entries of a block diagonal matrix.\<close>

fun diag_at :: "nat \<Rightarrow> matrix list \<Rightarrow> nat list \<Rightarrow> nat \<Rightarrow> nat \<Rightarrow> pyfloat" where
  "diag_at rank (b # bs) (d # ds) r c =
     (if r < rank then (if c < d then mx_at b r c else 0)
      else if c < d then 0 else diag_at rank bs ds (r - rank) (c - d))"
| "diag_at rank _ _ r c = 0"

lemma fill_diagonal_ok:
  assumes "list_all2 (\<lambda>b d. mx_rows b = rank \<and> mx_cols b = d) bs dims"
    "R = (i + length bs) * rank" "C = col + sum_list dims"
    "\<And>r c. i * rank \<le> r \<Longrightarrow> col \<le> c \<Longrightarrow> f r c = 0"
  shows "fill_diagonal rank i col bs dims (mk_matrix R C f) =
    Inr (mk_matrix R C (\<lambda>r c. if i * rank \<le> r \<and> col \<le> c then diag_at rank bs dims (r - i * rank) (c - col) else f r c))"
  using assms
proof (induction bs dims arbitrary: i col f rule: list_all2_induct)
  case Nil
  then show ?case by (auto intro!: mk_matrix_cong)
next
  case (Cons b bs d ds)
  define f1 where "f1 = (\<lambda>r c. if i * rank \<le> r \<and> r < (i + 1) * rank \<and> col \<le> c \<and> c < col + d
      then mx_at b (r - i * rank) (c - col) else f r c)"
  have "(i + 1) * rank \<le> R" "col + d \<le> C" using Cons.prems by (simp_all add: algebra_simps)
  then have assign: "mx_assign (mk_matrix R C f) (i * rank) ((i + 1) * rank) col (col + d) b = Inr (mk_matrix R C f1)"
    using Cons.hyps
    by (auto simp: mx_assign_def fits_def min_absorb1 Let_def f1_def bc_below intro!: mk_matrix_cong)
  have zero: "f1 r c = 0" if "(i + 1) * rank \<le> r" "col + d \<le> c" for r c
    using that Cons.prems(3) [of r c] by (auto simp: f1_def)
  have shape: "R = (i + 1 + length bs) * rank" "C = col + d + sum_list ds"
    using Cons.prems by (simp_all add: algebra_simps)
  have "(if (i + 1) * rank \<le> r \<and> col + d \<le> c then diag_at rank bs ds (r - (i + 1) * rank) (c - (col + d)) else f1 r c) =
      (if i * rank \<le> r \<and> col \<le> c then diag_at rank (b # bs) (d # ds) (r - i * rank) (c - col) else f r c)" for r c
    using Cons.prems(3) [of r c] by (auto simp: f1_def algebra_simps)
  then show ?case using Cons.IH [OF shape zero] assign by simp
qed

text \<open>The fused weights of modules: A side by side, B block by block.\<close>

definition fused_of :: "nat \<Rightarrow> nat \<Rightarrow> fast_lora option list \<Rightarrow> nat list \<Rightarrow> fused_lora" where
  "fused_of nin rank ms dims =
     (let ws = block_weights nin rank fm_scaling ms dims; n = rank * length ms
      in \<lparr>fl_out_dims = dims, fl_num_loras = length ms,
          fl_params = Some (mk_matrix nin n (cat_at (map fst ws)),
                            mk_matrix n (sum_list dims) (diag_at rank (map snd ws) dims))\<rparr>)"

lemma valid_modules_cases:
  assumes "list_ex (\<lambda>m. m \<noteq> None) ms" "list_all2 (module_fits nin rank) ms dims"
  obtains v vs where "valid_modules ms = v # vs" "mx_cols (fm_A v) = nin" "mx_rows (fm_A v) = rank"
proof -
  from assms(1) obtain v vs where v: "valid_modules ms = v # vs"
    by (cases "valid_modules ms") (auto simp: valid_modules_def list_ex_iff filter_empty_conv)
  then have "v \<in> set (valid_modules ms)" by simp
  then have "Some v \<in> set ms" by (auto simp: valid_modules_def)
  then obtain j where "j < length ms" "ms ! j = Some v" by (auto simp: in_set_conv_nth)
  then have "module_fits nin rank (Some v) (dims ! j)" using assms(2) by (metis list_all2_nthD)
  then show ?thesis using that [OF v] by (simp add: module_fits_def)
qed

lemma mx_cat_ok:
  assumes "ms \<noteq> []" "list_all (\<lambda>m. mx_rows m = nin \<and> mx_cols m = rank) ms"
  shows "mx_cat ms = Inr (mk_matrix nin (rank * length ms) (cat_at ms))"
proof -
  have "list_all (\<lambda>m. mx_cols m = rank) ms" using assms(2) by (auto simp: list_all_iff)
  then have "sum_list (map mx_cols ms) = rank * length ms" by (induction ms) (auto simp: algebra_simps)
  with assms show ?thesis by (cases ms) (auto simp: mx_cat_def list_all_iff)
qed

lemma block_weights_parts:
  assumes "list_all2 (module_fits nin rank) ms dims"
  shows "length (block_weights nin rank sc ms dims) = length ms"
    "list_all (\<lambda>m. mx_rows m = nin \<and> mx_cols m = rank) (map fst (block_weights nin rank sc ms dims))"
    "list_all2 (\<lambda>b d. mx_rows b = rank \<and> mx_cols b = d) (map snd (block_weights nin rank sc ms dims)) dims"
proof -
  note shapes = block_shapes [OF assms, of sc]
  show "length (block_weights nin rank sc ms dims) = length ms"
    using assms by (simp add: block_weights_def list_all2_lengthD)
  show "list_all (\<lambda>m. mx_rows m = nin \<and> mx_cols m = rank) (map fst (block_weights nin rank sc ms dims))"
    using shapes by (auto simp: list_all_length list_all2_conv_all_nth)
  show "list_all2 (\<lambda>b d. mx_rows b = rank \<and> mx_cols b = d) (map snd (block_weights nin rank sc ms dims)) dims"
    using shapes by (auto simp: list_all2_conv_all_nth)
qed

text \<open>Side by side and block by block, whatever scales A.\<close>

lemma fused_parts:
  assumes "list_all2 (module_fits nin rank) ms dims" "ms \<noteq> []" and ws_def: "ws = block_weights nin rank sc ms dims"
  shows "collect_weights nin rank sc ms dims = Inr ws"
    "mx_cat (map fst ws) = Inr (mk_matrix nin (rank * length ms) (cat_at (map fst ws)))"
    "fill_diagonal rank 0 0 (map snd ws) dims (mx_zeros (rank * length ms) (sum_list dims)) =
       Inr (mk_matrix (rank * length ms) (sum_list dims) (diag_at rank (map snd ws) dims))"
    "mx_cols (fst (hd ws)) = rank"
proof -
  note parts = block_weights_parts [OF assms(1), of sc, folded ws_def]
  show "collect_weights nin rank sc ms dims = Inr ws"
    using collect_weights_ok assms(1) by (simp add: ws_def list_all2_lengthD)
  show "mx_cat (map fst ws) = Inr (mk_matrix nin (rank * length ms) (cat_at (map fst ws)))"
    using mx_cat_ok [OF _ parts(2)] assms(2) parts(1) by (metis length_map list.size(3) length_0_conv)
  show "fill_diagonal rank 0 0 (map snd ws) dims (mx_zeros (rank * length ms) (sum_list dims)) =
       Inr (mk_matrix (rank * length ms) (sum_list dims) (diag_at rank (map snd ws) dims))"
    using fill_diagonal_ok [OF parts(3), where i = 0 and col = 0 and f = "\<lambda>_ _. 0"] parts(1)
    by (simp add: mx_zeros_def mult.commute)
  show "mx_cols (fst (hd ws)) = rank"
    using parts(1,2) assms(2) by (cases ws) auto
qed

lemma new_fused_lora_of:
  assumes "list_ex (\<lambda>m. m \<noteq> None) ms" "list_all2 (module_fits nin rank) ms dims"
  shows "new_fused_lora ms dims = Inr (fused_of nin rank ms dims)"
proof -
  obtain v vs where v: "valid_modules ms = v # vs" "mx_cols (fm_A v) = nin" "mx_rows (fm_A v) = rank"
    using valid_modules_cases [OF assms] by blast
  have "ms \<noteq> []" using assms(1) by auto
  note parts = fused_parts [OF assms(2) this refl, of fm_scaling]
  show ?thesis by (simp add: new_fused_lora_def v parts Let_def fused_of_def)
qed

section \<open>The fused product is the product of the modules\<close>

lemma sum_blocks:
  fixes f g :: "nat \<Rightarrow> pyfloat"
  shows "(\<Sum>k<rank + n. f k * g k) = (\<Sum>k<rank. f k * g k) + (\<Sum>k<n. f (rank + k) * g (rank + k))"
  by (induction n) (simp_all add: add.assoc)

text \<open>Column c of the i-th block only meets the i-th A.\<close>

lemma fused_sum_block:
  assumes "list_all2 (\<lambda>w d. mx_rows (fst w) = nin \<and> mx_cols (fst w) = rank \<and> mx_rows (snd w) = rank \<and> mx_cols (snd w) = d) ws dims"
    "i < length ws" "c < dims ! i"
  shows "(\<Sum>l<rank * length ws. (\<Sum>k<nin. h k * cat_at (map fst ws) k l) *
        diag_at rank (map snd ws) dims l (sum_list (take i dims) + c)) =
     (\<Sum>l<rank. (\<Sum>k<nin. h k * mx_at (fst (ws ! i)) k l) * mx_at (snd (ws ! i)) l c)"
  using assms
proof (induction ws dims arbitrary: i rule: list_all2_induct)
  case (Cons w ws d ds)
  have split: "rank * length (w # ws) = rank + rank * length ws" by simp
  show ?case
  proof (cases i)
    case 0
    with Cons show ?thesis unfolding split sum_blocks by simp
  next
    case (Suc i')
    have "\<not> d + (sum_list (take i' ds) + c) < d" by simp
    then show ?thesis
      using Cons Suc unfolding split sum_blocks by (simp add: add.assoc)
  qed
qed simp

lemma split_cols_nth:
  "i < length ds \<Longrightarrow> split_cols off ds m ! i =
     mk_matrix (mx_rows m) (ds ! i) (\<lambda>r c. mx_at m r (off + sum_list (take i ds) + c))"
proof (induction ds arbitrary: off i)
  case (Cons d ds)
  then show ?case by (cases i) (simp_all add: add.assoc)
qed simp

lemma split_cols_length: "length (split_cols off ds m) = length ds"
  by (induction ds arbitrary: off) simp_all

lemma block_effect:
  assumes "module_fits nin rank m d" "mx_cols x = nin" "c < d"
  shows "(\<Sum>l<rank. (\<Sum>k<nin. mx_at x r k * mx_at (fst (lora_weights nin rank d fm_scaling m)) k l) *
      mx_at (snd (lora_weights nin rank d fm_scaling m)) l c) = effect_at m x r c"
  using assms
  by (cases m) (simp_all add: lora_weights_def effect_at_def module_fits_def delta_at_sum
                  mx_scale_def mx_transpose_def mx_zeros_def)

lemma partial_sum_below:
  "i < length (ds :: nat list) \<Longrightarrow> c < ds ! i \<Longrightarrow> sum_list (take i ds) + c < sum_list ds"
proof (induction ds arbitrary: i)
  case (Cons d ds)
  then show ?case by (cases i) auto
qed simp

lemma fused_forward_effect:
  assumes "list_all2 (module_fits nin rank) ms dims" "mx_cols x = nin"
  shows "fused_forward (fused_of nin rank ms dims) x =
    Inr (map Some (map2 (\<lambda>m d. mk_matrix (mx_rows x) d (effect_at m x)) ms dims))"
proof -
  define ws where "ws = block_weights nin rank fm_scaling ms dims"
  define n where "n = rank * length ms"
  note shapes = block_shapes [OF assms(1), of fm_scaling, folded ws_def]
  have len: "length ws = length ms" "length ms = length dims"
    using block_weights_parts(1) [OF assms(1)] assms(1) by (auto simp: ws_def list_all2_lengthD)
  define y where "y = mk_matrix (mx_rows x) (sum_list dims)
    (\<lambda>r c. \<Sum>l<n. (\<Sum>k<nin. mx_at x r k * cat_at (map fst ws) k l) * diag_at rank (map snd ws) dims l c)"
  have forward: "fused_forward (fused_of nin rank ms dims) x = Inr (map Some (split_cols 0 dims y))"
    using assms(2)
    by (auto simp: fused_forward_def fused_of_def mx_mult_def sum_list_upt_sum mx_split_def y_def Let_def
             simp flip: ws_def n_def intro!: arg_cong [where f = "split_cols 0 dims"] mk_matrix_cong)
  have "mx_at y r (sum_list (take i dims) + c) = effect_at (ms ! i) x r c"
    if "i < length dims" "r < mx_rows x" "c < dims ! i" for i r c
  proof -
    have "sum_list (take i dims) + c < sum_list dims" using partial_sum_below that by blast
    then have "mx_at y r (sum_list (take i dims) + c) =
        (\<Sum>l<n. (\<Sum>k<nin. mx_at x r k * cat_at (map fst ws) k l) * diag_at rank (map snd ws) dims l (sum_list (take i dims) + c))"
      using that by (simp add: y_def)
    also have "\<dots> = (\<Sum>l<rank. (\<Sum>k<nin. mx_at x r k * mx_at (fst (ws ! i)) k l) * mx_at (snd (ws ! i)) l c)"
      unfolding n_def len(1) [symmetric] by (rule fused_sum_block [OF shapes]) (use that len in simp_all)
    also have "\<dots> = effect_at (ms ! i) x r c"
      using block_effect [OF _ assms(2)] assms(1) that len
      by (simp add: ws_def block_weights_def list_all2_nthD)
    finally show ?thesis .
  qed
  then have "split_cols 0 dims y = map2 (\<lambda>m d. mk_matrix (mx_rows x) d (effect_at m x)) ms dims"
    using len by (intro nth_equalityI) (auto simp: split_cols_length split_cols_nth y_def intro!: mk_matrix_cong)
  with forward show ?thesis by simp
qed

section \<open>The layers built from an adapter\<close>

definition group_of :: "nat \<Rightarrow> nat \<Rightarrow> fast_lora option list \<Rightarrow> nat list \<Rightarrow> fused_lora option" where
  "group_of nin rank ms dims = (if list_ex (\<lambda>m. m \<noteq> None) ms then Some (fused_of nin rank ms dims) else None)"

abbreviation modules_of :: "lora_layers \<Rightarrow> int \<Rightarrow> string list \<Rightarrow> fast_lora option list" where
  "modules_of lls i names \<equiv> map (get_lora_module lls i) names"

definition layer_of :: "model_info \<Rightarrow> nat list \<Rightarrow> nat \<Rightarrow> lora_layers \<Rightarrow> int \<Rightarrow> decoder_layer" where
  "layer_of info qdims rank lls i =
     \<lparr>dl_qkv = group_of (mi_hidden_size info) rank (modules_of lls i qkv_names) qdims,
      dl_gate_up = group_of (mi_hidden_size info) rank (modules_of lls i gate_up_names) (gate_up_dims info),
      dl_o_proj = remote_of (get_lora_module lls i ''self_attn.o_proj''),
      dl_down_proj = remote_of (get_lora_module lls i ''mlp.down_proj'')\<rparr>"

definition model_of :: "model_info \<Rightarrow> nat list \<Rightarrow> nat \<Rightarrow> lora_layers \<Rightarrow> nat \<Rightarrow> decoder_layer list" where
  "model_of info qdims rank lls n = map (\<lambda>i. layer_of info qdims rank lls (int i)) [0..<n]"

text \<open>The modules of an adapter have the shapes of the model's projections and one rank.\<close>

definition layer_fits :: "model_info \<Rightarrow> nat list \<Rightarrow> nat \<Rightarrow> lora_layers \<Rightarrow> int \<Rightarrow> bool" where
  "layer_fits info qdims rank lls i \<longleftrightarrow>
     (let h = mi_hidden_size info; m = mi_intermediate_size info
      in list_all2 (module_fits h rank) (modules_of lls i qkv_names) qdims \<and>
         list_all2 (module_fits h rank) (modules_of lls i gate_up_names) (gate_up_dims info) \<and>
         module_fits h rank (get_lora_module lls i ''self_attn.o_proj'') h \<and>
         module_fits m rank (get_lora_module lls i ''mlp.down_proj'') h)"

definition adapter_fits :: "model_info \<Rightarrow> nat \<Rightarrow> lora_layers \<Rightarrow> nat \<Rightarrow> bool" where
  "adapter_fits info rank lls n \<longleftrightarrow>
     (case qkv_dims info of Inl e \<Rightarrow> False | Inr qdims \<Rightarrow> list_all (\<lambda>i. layer_fits info qdims rank lls (int i)) [0..<n])"

lemma adapter_fits_layer:
  assumes "adapter_fits info rank lls n"
  obtains qdims where "qkv_dims info = Inr qdims" "\<And>i. i < n \<Longrightarrow> layer_fits info qdims rank lls (int i)"
  using assms by (auto simp: adapter_fits_def list_all_iff split: sum.splits)

lemma fused_or_none_of:
  "list_all2 (module_fits nin rank) ms dims \<Longrightarrow> fused_or_none ms dims = Inr (group_of nin rank ms dims)"
  by (simp add: fused_or_none_def group_of_def new_fused_lora_of)

lemma build_layer_of:
  "layer_fits info qdims rank lls i \<Longrightarrow>
     build_layer lls qdims (gate_up_dims info) i = Inr (layer_of info qdims rank lls i)"
  by (auto simp: build_layer_def layer_of_def layer_fits_def Let_def dest!: fused_or_none_of)

lemma build_layers_of:
  "(\<And>j. j < n \<Longrightarrow> layer_fits info qdims rank lls (i + int j)) \<Longrightarrow>
     build_layers lls qdims (gate_up_dims info) i n = Inr (map (\<lambda>j. layer_of info qdims rank lls (i + int j)) [0..<n])"
proof (induction n arbitrary: i)
  case (Suc n)
  have "layer_fits info qdims rank lls i" using Suc.prems [of 0] by simp
  moreover have "layer_fits info qdims rank lls (i + 1 + int j)" if "j < n" for j
    using Suc.prems [of "Suc j"] that by (simp add: add.assoc)
  ultimately show ?case
    using Suc.IH [of "i + 1"] by (simp add: build_layer_of map_upt_Suc add.assoc del: upt_Suc)
qed simp

lemma build_lora_model_of:
  assumes "adapter_fits info rank lls n" "qkv_dims info = Inr qdims"
  shows "build_lora_model info n lls = Inr (model_of info qdims rank lls n)"
  using adapter_fits_layer [OF assms(1)] assms(2) build_layers_of [of n info qdims rank lls 0]
  by (auto simp: build_lora_model_def model_of_def)

section \<open>What a layer adds\<close>

text \<open>The aggregator's result plus the effect of a module.\<close>

definition with_effect :: "matrix \<Rightarrow> fast_lora option \<Rightarrow> matrix \<Rightarrow> matrix" where
  "with_effect x m raw = mk_matrix (mx_rows raw) (mx_cols raw) (\<lambda>r c. mx_at raw r c + effect_at m x r c)"

lemma with_no_effect: "mx_ok raw \<Longrightarrow> with_effect x None raw = raw"
  unfolding with_effect_def effect_at_def
  by (rule trans [OF mk_matrix_cong [OF refl refl] mk_matrix_at]) simp_all

lemma mx_add_same:
  assumes "mx_rows a = mx_rows b" "mx_cols a = mx_cols b"
  shows "mx_add a b = Inr (mk_matrix (mx_rows a) (mx_cols a) (\<lambda>i j. mx_at a i j + mx_at b i j))"
  using assms by (auto simp: mx_add_def fits_def bc_below intro!: mk_matrix_cong)

lemma add_effect:
  "mx_rows raw = mx_rows x \<Longrightarrow> mx_add raw (mk_matrix (mx_rows x) (mx_cols raw) (effect_at m x)) = Inr (with_effect x m raw)"
  by (simp add: mx_add_same with_effect_def) (rule mk_matrix_cong; simp)

definition raw_fits :: "nat \<Rightarrow> matrix list \<Rightarrow> nat list \<Rightarrow> bool" where
  "raw_fits rows raw dims \<longleftrightarrow> list_all2 (\<lambda>m d. mx_rows m = rows \<and> mx_cols m = d \<and> mx_ok m) raw dims"

lemma add_effects:
  "list_all2 (\<lambda>m d. mx_rows m = mx_rows x \<and> mx_cols m = d \<and> mx_ok m) raw dims \<Longrightarrow> length ms = length dims \<Longrightarrow>
     add_deltas raw (map Some (map2 (\<lambda>m d. mk_matrix (mx_rows x) d (effect_at m x)) ms dims)) =
     Inr (map2 (with_effect x) ms raw)"
proof (induction arbitrary: ms rule: list_all2_induct)
  case (Cons m raw d dims)
  then show ?case by (cases ms) (auto simp: add_effect)
qed simp

lemma add_no_deltas:
  "list_all mx_ok raw \<Longrightarrow> add_deltas raw (replicate (length raw) None) = Inr (map2 (with_effect x) (replicate (length raw) None) raw)"
  by (induction raw) (simp_all add: with_no_effect)

lemma group_adds:
  assumes "list_all2 (module_fits nin rank) ms dims" "mx_cols x = nin" "raw_fits (mx_rows x) raw dims"
  shows "and_then (fused_deltas (length ms) (group_of nin rank ms dims) x) (add_deltas raw) = Inr (map2 (with_effect x) ms raw)"
proof (cases "list_ex (\<lambda>m. m \<noteq> None) ms")
  case True
  have "has_lora (fused_of nin rank ms dims)" by (simp add: has_lora_def fused_of_def Let_def)
  then have "fused_deltas (length ms) (group_of nin rank ms dims) x =
      Inr (map Some (map2 (\<lambda>m d. mk_matrix (mx_rows x) d (effect_at m x)) ms dims))"
    using True fused_forward_effect [OF assms(1,2)] by (simp only: group_of_def fused_deltas_def if_True option.case)
  then show ?thesis
    using add_effects [OF assms(3) [unfolded raw_fits_def] list_all2_lengthD [OF assms(1)]]
    by (simp only: and_then_simps)
next
  case False
  then have ms: "ms = replicate (length ms) None"
    by (auto simp: list_ex_iff intro: replicate_eqI)
  have raw: "length raw = length ms" "list_all mx_ok raw"
    using assms(3) list_all2_lengthD [OF assms(1)]
    by (simp_all add: raw_fits_def list_all_length list_all2_conv_all_nth)
  have "and_then (fused_deltas (length ms) (group_of nin rank ms dims) x) (add_deltas raw) =
      Inr (map2 (with_effect x) (replicate (length ms) None) raw)"
    using False add_no_deltas [OF raw(2), of x] raw(1) by (simp add: group_of_def fused_deltas_def)
  then show ?thesis by (simp only: ms [symmetric])
qed

lemma remote_adds:
  assumes "module_fits nin rank m out" "mx_cols x = nin" "mx_rows raw = mx_rows x" "mx_cols raw = out" "mx_ok raw"
  shows "remote_all (remote_of m) x raw residual = mx_add residual (with_effect x m raw)"
proof (cases m)
  case None
  then show ?thesis using assms(5) by (simp add: remote_of_def remote_all_def remote_delta_def with_no_effect)
next
  case (Some l)
  then have l: "mx_cols (fm_A l) = nin" "mx_rows (fm_A l) = rank" "mx_rows (fm_B l) = out" "mx_cols (fm_B l) = rank"
    using assms(1) by (simp_all add: module_fits_def)
  have "remote_delta (remote_of m) x = Inr (Some (mk_matrix (mx_rows x) out (effect_at m x)))"
    using Some l assms(2)
    by (auto simp: remote_of_def remote_delta_def linear_def mx_mult_def mx_transpose_def mx_scale_def
             effect_at_def delta_at_def sum_list_upt_sum intro!: mk_matrix_cong)
  with add_effect [OF assms(3), of m] assms(4) show ?thesis by (simp add: remote_all_def)
qed

text \<open>A layer of a model built for an adapter adds the deltas of the adapter's modules.\<close>

lemma layer_adds:
  assumes "layer_fits info qdims rank lls i" "mx_cols x = mi_hidden_size info"
  shows "raw_fits (mx_rows x) raw qdims \<Longrightarrow>
      qkv_all (layer_of info qdims rank lls i) x raw = Inr (map2 (with_effect x) (modules_of lls i qkv_names) raw)"
    "raw_fits (mx_rows x) raw (gate_up_dims info) \<Longrightarrow>
      gate_up_all (layer_of info qdims rank lls i) x raw = Inr (map2 (with_effect x) (modules_of lls i gate_up_names) raw)"
proof -
  have 3: "length (modules_of lls i qkv_names) = 3" and 2: "length (modules_of lls i gate_up_names) = 2"
    by (simp_all add: qkv_names_def gate_up_names_def)
  note fits = assms(1) [unfolded layer_fits_def Let_def]
  show "raw_fits (mx_rows x) raw qdims \<Longrightarrow>
      qkv_all (layer_of info qdims rank lls i) x raw = Inr (map2 (with_effect x) (modules_of lls i qkv_names) raw)"
    using group_adds [of _ rank "modules_of lls i qkv_names" qdims x raw] assms(2) fits unfolding 3
    by (simp add: qkv_all_def layer_of_def)
  show "raw_fits (mx_rows x) raw (gate_up_dims info) \<Longrightarrow>
      gate_up_all (layer_of info qdims rank lls i) x raw = Inr (map2 (with_effect x) (modules_of lls i gate_up_names) raw)"
    using group_adds [of _ rank "modules_of lls i gate_up_names" "gate_up_dims info" x raw] assms(2) fits unfolding 2
    by (simp add: gate_up_all_def layer_of_def)
qed

text \<open>A linear layer whose weights were zeroed adds nothing.\<close>

lemma zeroed_adds_nothing:
  assumes "mx_rows a = mx_cols b" "mx_cols a = mx_cols x" "mx_rows b = mx_cols raw" "mx_rows raw = mx_rows x" "mx_ok raw"
  shows "remote_all (Remote_lora (mx_zeroed a) (mx_zeroed b) s) x raw residual = mx_add residual raw"
proof -
  have "remote_delta (Remote_lora (mx_zeroed a) (mx_zeroed b) s) x = Inr (Some (mk_matrix (mx_rows x) (mx_cols raw) (effect_at None x)))"
    using assms
    by (auto simp: remote_delta_def linear_def mx_mult_def mx_transpose_def mx_scale_def mx_zeroed_def mx_zeros_def
             effect_at_def sum_list_upt_sum intro!: mk_matrix_cong)
  with add_effect [OF assms(4), of None] assms(5) show ?thesis by (simp add: remote_all_def with_no_effect)
qed

end
