(* ===== verification/Base_Model.thy ===== *)
theory Base_Model
  imports Barrier_Inv Lora_Facts
begin

text \<open>
  What the aggregator computes for a batch, \<open>src/src/cpp_extensions/ext_aggregator.cpp\<close>: the
  inputs of all slots are stacked, multiplied once with the fused weights, and the rows are
  scattered back. A buffer holds the token ids or the hidden state its command describes;
  the state of the sampler of a command's worker stands beside the hidden state of the LM
  head. How a token is drawn for a sampling worker is a parameter.
\<close>

section \<open>Weights\<close>

record layer_weights =
  lw_q_dim :: nat
  lw_k_dim :: nat
  lw_v_dim :: nat
  lw_gate_dim :: nat
  lw_up_dim :: nat
  lw_qkv :: matrix
  lw_gate_up :: matrix
  lw_o :: matrix
  lw_o_bias :: "pyfloat list option"
  lw_down :: matrix
  lw_down_bias :: "pyfloat list option"

record base_weights =
  bw_embed :: matrix
  bw_lm_head :: matrix
  bw_layers :: "layer_weights list"

text \<open>\<open>torch::cat(ms, 0)\<close> of matrices of the same width.\<close>

fun row_at :: "matrix list \<Rightarrow> nat \<Rightarrow> nat \<Rightarrow> pyfloat" where
  "row_at [] i j = 0"
| "row_at (m # ms) i j = (if i < mx_rows m then mx_at m i j else row_at ms (i - mx_rows m) j)"

definition mx_vcat :: "matrix list \<Rightarrow> matrix" where
  "mx_vcat ms = mk_matrix (sum_list (map mx_rows ms)) (mx_cols (hd ms)) (row_at ms)"

definition init_aggregator_layer ::
  "matrix \<Rightarrow> matrix \<Rightarrow> matrix \<Rightarrow> matrix \<Rightarrow> pyfloat list option \<Rightarrow> matrix \<Rightarrow> matrix \<Rightarrow> matrix \<Rightarrow> pyfloat list option \<Rightarrow>
   layer_weights" where
  "init_aggregator_layer q k v o_weight o_bias gate up down down_bias =
     \<lparr>lw_q_dim = mx_rows q, lw_k_dim = mx_rows k, lw_v_dim = mx_rows v, lw_gate_dim = mx_rows gate, lw_up_dim = mx_rows up,
      lw_qkv = mx_vcat [q, k, v], lw_gate_up = mx_vcat [gate, up], lw_o = o_weight, lw_o_bias = o_bias,
      lw_down = down, lw_down_bias = down_bias\<rparr>"

section \<open>One multiplication for all slots\<close>

text \<open>\<open>matmul(x, w.t())\<close>, and the bias added to every row.\<close>

definition gemm :: "matrix \<Rightarrow> matrix \<Rightarrow> matrix" where
  "gemm w x = mk_matrix (mx_rows x) (mx_rows w) (\<lambda>i j. sum_list (map (\<lambda>k. mx_at x i k * mx_at w j k) [0..<mx_cols x]))"

definition add_bias :: "pyfloat list option \<Rightarrow> matrix \<Rightarrow> matrix" where
  "add_bias bias y =
     (case bias of None \<Rightarrow> y | Some bs \<Rightarrow> mk_matrix (mx_rows y) (mx_cols y) (\<lambda>i j. mx_at y i j + bs ! j))"

definition narrow_rows :: "nat \<Rightarrow> nat \<Rightarrow> matrix \<Rightarrow> matrix" where
  "narrow_rows start n m = mk_matrix n (mx_cols m) (\<lambda>i j. mx_at m (start + i) j)"

fun scatter_rows :: "nat \<Rightarrow> nat list \<Rightarrow> matrix \<Rightarrow> matrix list" where
  "scatter_rows off [] m = []"
| "scatter_rows off (n # ns) m = narrow_rows off n m # scatter_rows (off + n) ns m"

definition batched_linear :: "matrix \<Rightarrow> pyfloat list option \<Rightarrow> matrix list \<Rightarrow> matrix list" where
  "batched_linear w bias xs =
     (case xs of
        [x] \<Rightarrow> [add_bias bias (gemm w x)]
      | _ \<Rightarrow> scatter_rows 0 (map mx_rows xs) (add_bias bias (gemm w (mx_vcat xs))))"

section \<open>Inputs and outputs\<close>

record worker_sampling =
  sp_do_sample :: bool
  sp_temperature :: pyfloat
  sp_top_k :: int
  sp_top_p :: pyfloat

datatype agg_input = Token_ids "int list" | Hidden matrix | Last_hidden worker_sampling matrix

datatype agg_output = Tensor matrix | Next_token int

primrec hidden_of :: "agg_input \<Rightarrow> matrix" where
  "hidden_of (Token_ids ts) = mx_zeros 0 0"
| "hidden_of (Hidden x) = x"
| "hidden_of (Last_hidden s x) = x"

primrec tokens_of :: "agg_input \<Rightarrow> int list" where
  "tokens_of (Token_ids ts) = ts"
| "tokens_of (Hidden x) = []"
| "tokens_of (Last_hidden s x) = []"

text \<open>Token ids are clamped to the vocabulary.\<close>

definition embed_tokens :: "matrix \<Rightarrow> int list \<Rightarrow> matrix" where
  "embed_tokens w ts =
     mk_matrix (length ts) (mx_cols w) (\<lambda>i j. mx_at w (nat (max 0 (min (ts ! i) (int (mx_rows w) - 1)))) j)"

definition batched_embed :: "matrix \<Rightarrow> int list list \<Rightarrow> matrix list" where
  "batched_embed w tss =
     (case tss of
        [ts] \<Rightarrow> [embed_tokens w ts]
      | _ \<Rightarrow> scatter_rows 0 (map length tss) (embed_tokens w (concat tss)))"

text \<open>The first index of the largest entry of a row.\<close>

definition argmax_row :: "matrix \<Rightarrow> nat \<Rightarrow> int" where
  "argmax_row m i = int (foldl (\<lambda>best j. if mx_at m i best < mx_at m i j then j else best) 0 [1..<mx_cols m])"

text \<open>
  One decision for the whole batch, with the sampling state of the worker of the first
  command.
\<close>

type_synonym draw = "worker_sampling \<Rightarrow> matrix \<Rightarrow> nat \<Rightarrow> int"

definition next_tokens :: "draw \<Rightarrow> worker_sampling \<Rightarrow> matrix \<Rightarrow> int list" where
  "next_tokens draw s logits =
     map (\<lambda>i. if sp_do_sample s then draw s logits i else argmax_row logits i) [0..<mx_rows logits]"

definition default_sampling :: worker_sampling where
  "default_sampling = \<lparr>sp_do_sample = False, sp_temperature = 1, sp_top_k = 0, sp_top_p = 1\<rparr>"

primrec sampling_of :: "agg_input \<Rightarrow> worker_sampling" where
  "sampling_of (Token_ids ts) = default_sampling"
| "sampling_of (Hidden x) = default_sampling"
| "sampling_of (Last_hidden s x) = s"

definition last_row :: "matrix \<Rightarrow> matrix" where
  "last_row x = narrow_rows (mx_rows x - 1) 1 x"

definition batched_lm_head :: "draw \<Rightarrow> matrix \<Rightarrow> agg_input list \<Rightarrow> int list" where
  "batched_lm_head draw w ins =
     next_tokens draw (sampling_of (hd ins)) (gemm w (mx_vcat (map (last_row \<circ> hidden_of) ins)))"

definition execute_batch :: "draw \<Rightarrow> base_weights \<Rightarrow> agg_op \<Rightarrow> agg_input list \<Rightarrow> agg_output list" where
  "execute_batch draw w op ins =
     (case op of
        Op_embed \<Rightarrow> map Tensor (batched_embed (bw_embed w) (map tokens_of ins))
      | Op_lm_head \<Rightarrow> map Next_token (batched_lm_head draw (bw_lm_head w) ins)
      | Op_qkv_fused l \<Rightarrow> map Tensor (batched_linear (lw_qkv (bw_layers w ! l)) None (map hidden_of ins))
      | Op_o_proj l \<Rightarrow>
          map Tensor (batched_linear (lw_o (bw_layers w ! l)) (lw_o_bias (bw_layers w ! l)) (map hidden_of ins))
      | Op_gate_up_fused l \<Rightarrow> map Tensor (batched_linear (lw_gate_up (bw_layers w ! l)) None (map hidden_of ins))
      | Op_down_proj l \<Rightarrow>
          map Tensor (batched_linear (lw_down (bw_layers w ! l)) (lw_down_bias (bw_layers w ! l)) (map hidden_of ins)))"

section \<open>A slot of its own\<close>

text \<open>What a base model that serves only this slot computes.\<close>

definition base_op :: "draw \<Rightarrow> base_weights \<Rightarrow> agg_op \<Rightarrow> agg_input \<Rightarrow> agg_output" where
  "base_op draw w op i = hd (execute_batch draw w op [i])"

text \<open>
  Inputs of the right kind and width, for greedy decoding. A command of no token or of
  more than 65536 is refused.
\<close>

definition command_size_ok :: "nat \<Rightarrow> bool" where
  "command_size_ok n \<longleftrightarrow> 0 < n \<and> n \<le> 65536"

definition good_input :: "base_weights \<Rightarrow> agg_op \<Rightarrow> agg_input \<Rightarrow> bool" where
  "good_input w op i =
     (case (op, i) of
        (Op_embed, Token_ids ts) \<Rightarrow> command_size_ok (length ts)
      | (Op_qkv_fused l, Hidden x) \<Rightarrow> command_size_ok (mx_rows x) \<and> mx_cols x = mx_cols (lw_qkv (bw_layers w ! l))
      | (Op_o_proj l, Hidden x) \<Rightarrow> command_size_ok (mx_rows x) \<and> mx_cols x = mx_cols (lw_o (bw_layers w ! l))
      | (Op_gate_up_fused l, Hidden x) \<Rightarrow> command_size_ok (mx_rows x) \<and> mx_cols x = mx_cols (lw_gate_up (bw_layers w ! l))
      | (Op_down_proj l, Hidden x) \<Rightarrow> command_size_ok (mx_rows x) \<and> mx_cols x = mx_cols (lw_down (bw_layers w ! l))
      | (Op_lm_head, Last_hidden s x) \<Rightarrow>
          \<not> sp_do_sample s \<and> command_size_ok (mx_rows x) \<and> mx_cols x = mx_cols (bw_lm_head w)
      | _ \<Rightarrow> False)"

lemma good_input_simps:
  "good_input w Op_embed i \<longleftrightarrow> (\<exists>ts. i = Token_ids ts \<and> command_size_ok (length ts))"
  "good_input w (Op_qkv_fused l) i \<longleftrightarrow> (\<exists>x. i = Hidden x \<and> command_size_ok (mx_rows x) \<and> mx_cols x = mx_cols (lw_qkv (bw_layers w ! l)))"
  "good_input w (Op_o_proj l) i \<longleftrightarrow> (\<exists>x. i = Hidden x \<and> command_size_ok (mx_rows x) \<and> mx_cols x = mx_cols (lw_o (bw_layers w ! l)))"
  "good_input w (Op_gate_up_fused l) i \<longleftrightarrow> (\<exists>x. i = Hidden x \<and> command_size_ok (mx_rows x) \<and> mx_cols x = mx_cols (lw_gate_up (bw_layers w ! l)))"
  "good_input w (Op_down_proj l) i \<longleftrightarrow> (\<exists>x. i = Hidden x \<and> command_size_ok (mx_rows x) \<and> mx_cols x = mx_cols (lw_down (bw_layers w ! l)))"
  "good_input w Op_lm_head i \<longleftrightarrow>
     (\<exists>s x. i = Last_hidden s x \<and> \<not> sp_do_sample s \<and> command_size_ok (mx_rows x) \<and> mx_cols x = mx_cols (bw_lm_head w))"
  by (cases i; simp add: good_input_def)+

section \<open>The batch is its slots\<close>

lemma single_case: "(case xs of [x] \<Rightarrow> f x | _ \<Rightarrow> d) = (if length xs = 1 then f (hd xs) else d)"
  by (cases xs; cases "tl xs") auto

lemma narrow_rows_mk:
  "start + n \<le> r \<Longrightarrow> narrow_rows start n (mk_matrix r c f) = mk_matrix n c (\<lambda>i j. f (start + i) j)"
  by (auto simp: narrow_rows_def intro!: mk_matrix_cong)

lemma scatter_rows_blocks:
  assumes "\<And>b i j. b < length ns \<Longrightarrow> i < ns ! b \<Longrightarrow> j < c \<Longrightarrow> f (off + sum_list (take b ns) + i) j = g b i j"
    and "off + sum_list ns \<le> r"
  shows "scatter_rows off ns (mk_matrix r c f) = map (\<lambda>b. mk_matrix (ns ! b) c (g b)) [0..<length ns]"
  using assms
proof (induction ns arbitrary: off g)
  case (Cons n ns)
  have head: "narrow_rows off n (mk_matrix r c f) = mk_matrix n c (g 0)"
    using Cons.prems(1) [of 0] Cons.prems(2) by (auto simp: narrow_rows_mk intro!: mk_matrix_cong)
  have "f (off + n + sum_list (take b ns) + i) j = g (Suc b) i j" if "b < length ns" "i < ns ! b" "j < c" for b i j
    using Cons.prems(1) [of "Suc b" i j] that by (simp add: add.assoc)
  then have "scatter_rows (off + n) ns (mk_matrix r c f) = map (\<lambda>b. mk_matrix (ns ! b) c (g (Suc b))) [0..<length ns]"
    using Cons.prems(2) by (intro Cons.IH) (auto simp: add.assoc)
  with head show ?case by (simp add: map_upt_Suc del: upt_Suc)
qed simp

lemma row_at_block:
  "b < length ms \<Longrightarrow> i < mx_rows (ms ! b) \<Longrightarrow> row_at ms (sum_list (take b (map mx_rows ms)) + i) j = mx_at (ms ! b) i j"
proof (induction ms arbitrary: b)
  case (Cons m ms)
  then show ?case by (cases b) (simp_all add: add.assoc)
qed simp

lemma mx_vcat_shape [simp]: "mx_rows (mx_vcat ms) = sum_list (map mx_rows ms)" "mx_cols (mx_vcat ms) = mx_cols (hd ms)"
  by (simp_all add: mx_vcat_def)

lemma row_bound: "b < length (ns :: nat list) \<Longrightarrow> i < ns ! b \<Longrightarrow> sum_list (take b ns) + i < sum_list ns"
  by (rule partial_sum_below)

lemma mx_vcat_at:
  assumes "b < length ms" "i < mx_rows (ms ! b)" "j < mx_cols (hd ms)"
  shows "mx_at (mx_vcat ms) (sum_list (take b (map mx_rows ms)) + i) j = mx_at (ms ! b) i j"
  using row_at_block [OF assms(1,2)] row_bound [of b "map mx_rows ms" i] assms by (simp add: mx_vcat_def)

text \<open>A function of the rows of a matrix, entry by entry, of stacked matrices is the one of each.\<close>

lemma scatter_vcat:
  assumes "\<And>x i j. x \<in> set xs \<Longrightarrow> mx_cols x = c"
    and "\<And>b i j. b < length xs \<Longrightarrow> i < mx_rows (xs ! b) \<Longrightarrow> j < d \<Longrightarrow>
      f (sum_list (take b (map mx_rows xs)) + i) j = g (xs ! b) i j"
  shows "scatter_rows 0 (map mx_rows xs) (mk_matrix (sum_list (map mx_rows xs)) d f) =
    map (\<lambda>x. mk_matrix (mx_rows x) d (g x)) xs"
proof -
  have "scatter_rows 0 (map mx_rows xs) (mk_matrix (sum_list (map mx_rows xs)) d f) =
      map (\<lambda>b. mk_matrix (map mx_rows xs ! b) d (g (xs ! b))) [0..<length (map mx_rows xs)]"
    using assms(2) by (intro scatter_rows_blocks) auto
  also have "\<dots> = map (\<lambda>x. mk_matrix (mx_rows x) d (g x)) xs"
    by (rule nth_equalityI) auto
  finally show ?thesis .
qed

definition linear_at :: "matrix \<Rightarrow> pyfloat list option \<Rightarrow> matrix \<Rightarrow> nat \<Rightarrow> nat \<Rightarrow> pyfloat" where
  "linear_at w bias x i j =
     sum_list (map (\<lambda>k. mx_at x i k * mx_at w j k) [0..<mx_cols x]) + (case bias of None \<Rightarrow> 0 | Some bs \<Rightarrow> bs ! j)"

lemma linear_by_entries: "add_bias bias (gemm w x) = mk_matrix (mx_rows x) (mx_rows w) (linear_at w bias x)"
  by (cases bias) (auto simp: add_bias_def gemm_def linear_at_def intro!: mk_matrix_cong)

lemma batched_linear_each:
  assumes "\<forall>x \<in> set xs. mx_cols x = c"
  shows "batched_linear w bias xs = map (\<lambda>x. add_bias bias (gemm w x)) xs"
proof -
  have "scatter_rows 0 (map mx_rows xs) (add_bias bias (gemm w (mx_vcat xs))) = map (\<lambda>x. add_bias bias (gemm w x)) xs"
    unfolding linear_by_entries mx_vcat_shape
  proof (rule scatter_vcat)
    fix b i j assume b: "b < length xs" "i < mx_rows (xs ! b)"
    then have "xs \<noteq> []" by auto
    with b have "hd xs \<in> set xs" "xs ! b \<in> set xs" by (simp_all del: hd_conv_nth)
    then have c: "mx_cols (mx_vcat xs) = c" "mx_cols (hd xs) = c" "mx_cols (xs ! b) = c" using assms by simp_all
    show "linear_at w bias (mx_vcat xs) (sum_list (take b (map mx_rows xs)) + i) j = linear_at w bias (xs ! b) i j"
    proof -
      have "mx_at (mx_vcat xs) (sum_list (take b (map mx_rows xs)) + i) k = mx_at (xs ! b) i k" if "k < c" for k
        using mx_vcat_at [OF b] that c(2) by simp
      then have "map (\<lambda>k. mx_at (mx_vcat xs) (sum_list (take b (map mx_rows xs)) + i) k * mx_at w j k) [0..<c] =
          map (\<lambda>k. mx_at (xs ! b) i k * mx_at w j k) [0..<c]" by simp
      then show ?thesis by (simp only: linear_at_def c)
    qed
  qed (use assms in auto)
  moreover have "[add_bias bias (gemm w (hd xs))] = map (\<lambda>x. add_bias bias (gemm w x)) xs" if "length xs = 1"
    using that by (cases xs) auto
  ultimately show ?thesis by (simp only: batched_linear_def single_case split: if_split) blast
qed

lemma embed_each: "batched_embed w tss = map (embed_tokens w) tss"
proof -
  let ?g = "\<lambda>ts i j. mx_at w (nat (max 0 (min (ts ! i) (int (mx_rows w) - 1)))) j"
  have nth: "concat tss ! (sum_list (take b (map length tss)) + i) = tss ! b ! i" if "b < length tss" "i < length (tss ! b)" for b i
    using that
  proof (induction tss arbitrary: b)
    case (Cons ts tss)
    then show ?case by (cases b) (simp_all add: nth_append add.assoc)
  qed simp
  have "scatter_rows 0 (map length tss) (embed_tokens w (concat tss)) =
      map (\<lambda>b. mk_matrix (map length tss ! b) (mx_cols w) (?g (tss ! b))) [0..<length (map length tss)]"
    unfolding embed_tokens_def by (rule scatter_rows_blocks) (simp_all add: nth length_concat)
  also have "\<dots> = map (embed_tokens w) tss"
    by (rule nth_equalityI) (simp_all add: embed_tokens_def)
  finally have "scatter_rows 0 (map length tss) (embed_tokens w (concat tss)) = map (embed_tokens w) tss" .
  moreover have "[embed_tokens w (hd tss)] = map (embed_tokens w) tss" if "length tss = 1"
    using that by (cases tss) auto
  ultimately show ?thesis by (simp only: batched_embed_def single_case split: if_split) blast
qed

lemma argmax_row_cong:
  "mx_cols m = mx_cols m' \<Longrightarrow> (\<And>j. j < mx_cols m \<Longrightarrow> mx_at m i j = mx_at m' i' j) \<Longrightarrow> argmax_row m i = argmax_row m' i'"
proof -
  assume c: "mx_cols m = mx_cols m'" and e: "\<And>j. j < mx_cols m \<Longrightarrow> mx_at m i j = mx_at m' i' j"
  have same: "foldl (\<lambda>best j. if mx_at m i best < mx_at m i j then j else best) a js =
      foldl (\<lambda>best j. if mx_at m' i' best < mx_at m' i' j then j else best) a js"
    if "set js \<subseteq> {..<mx_cols m}" "a < mx_cols m \<or> js = []" for a js
    using that e by (induction js arbitrary: a) auto
  have "foldl (\<lambda>best j. if mx_at m i best < mx_at m i j then j else best) 0 [1..<mx_cols m] =
      foldl (\<lambda>best j. if mx_at m' i' best < mx_at m' i' j then j else best) 0 [1..<mx_cols m]"
    by (rule same) auto
  then show "argmax_row m i = argmax_row m' i'" by (simp add: argmax_row_def c)
qed

lemma last_row_shape [simp]: "mx_rows (last_row x) = 1" "mx_cols (last_row x) = mx_cols x"
  by (simp_all add: last_row_def narrow_rows_def)

lemma next_tokens_greedy:
  assumes "\<not> sp_do_sample s" "\<forall>x \<in> set xs. mx_rows x = 1 \<and> mx_cols x = c"
  shows "next_tokens draw s (gemm w (mx_vcat xs)) = map (\<lambda>x. argmax_row (gemm w x) 0) xs"
proof (rule nth_equalityI)
  have rows: "map mx_rows xs = replicate (length xs) 1"
    using assms(2) by (intro replicate_eqI) auto
  then have total_rows: "sum_list (map mx_rows xs) = length xs" by (simp add: sum_list_replicate)
  then show "length (next_tokens draw s (gemm w (mx_vcat xs))) = length (map (\<lambda>x. argmax_row (gemm w x) 0) xs)"
    by (simp add: next_tokens_def gemm_def)
  fix b assume "b < length (next_tokens draw s (gemm w (mx_vcat xs)))"
  then have b: "b < length xs" using total_rows by (simp add: next_tokens_def gemm_def)
  have x: "mx_rows (xs ! b) = 1" "mx_cols (xs ! b) = c" "mx_cols (mx_vcat xs) = c"
    using assms(2) b by (auto simp: list_all_iff) (cases xs; auto)
  have at: "mx_at (mx_vcat xs) b k = mx_at (xs ! b) 0 k" if "k < c" for k
    using mx_vcat_at [OF b, of 0 k] that x b by (simp add: rows sum_list_replicate min_absorb1)
  have "argmax_row (gemm w (mx_vcat xs)) b = argmax_row (gemm w (xs ! b)) 0"
  proof (rule argmax_row_cong)
    fix j assume "j < mx_cols (gemm w (mx_vcat xs))"
    then have j: "j < mx_rows w" by (simp add: gemm_def)
    have "sum_list (map (\<lambda>k. mx_at (mx_vcat xs) b k * mx_at w j k) [0..<c]) =
        sum_list (map (\<lambda>k. mx_at (xs ! b) 0 k * mx_at w j k) [0..<c])"
      using at by (intro arg_cong [where f = sum_list] map_cong) auto
    then show "mx_at (gemm w (mx_vcat xs)) b j = mx_at (gemm w (xs ! b)) 0 j"
      using j b x total_rows by (simp add: gemm_def del: mx_vcat_shape(2))
  qed (simp add: gemm_def)
  then show "next_tokens draw s (gemm w (mx_vcat xs)) ! b = map (\<lambda>x. argmax_row (gemm w x) 0) xs ! b"
    using b assms(1) total_rows by (simp add: next_tokens_def gemm_def)
qed

lemma base_op_simps:
  "base_op draw w Op_embed i = Tensor (embed_tokens (bw_embed w) (tokens_of i))"
  "base_op draw w (Op_qkv_fused l) i = Tensor (gemm (lw_qkv (bw_layers w ! l)) (hidden_of i))"
  "base_op draw w (Op_o_proj l) i =
     Tensor (add_bias (lw_o_bias (bw_layers w ! l)) (gemm (lw_o (bw_layers w ! l)) (hidden_of i)))"
  "base_op draw w (Op_gate_up_fused l) i = Tensor (gemm (lw_gate_up (bw_layers w ! l)) (hidden_of i))"
  "base_op draw w (Op_down_proj l) i =
     Tensor (add_bias (lw_down_bias (bw_layers w ! l)) (gemm (lw_down (bw_layers w ! l)) (hidden_of i)))"
  by (simp_all add: base_op_def execute_batch_def batched_embed_def batched_linear_def add_bias_def)

lemma base_op_greedy:
  "\<not> sp_do_sample (sampling_of i) \<Longrightarrow>
     base_op draw w Op_lm_head i = Next_token (argmax_row (gemm (bw_lm_head w) (last_row (hidden_of i))) 0)"
  using next_tokens_greedy [of "sampling_of i" "[last_row (hidden_of i)]" "mx_cols (hidden_of i)" draw "bw_lm_head w"]
  by (simp add: base_op_def execute_batch_def batched_lm_head_def)

lemma execute_batch_each:
  assumes "list_all (good_input w op) ins"
  shows "execute_batch draw w op ins = map (base_op draw w op) ins"
proof -
  have linear: "batched_linear wt bias (map hidden_of ins) = map (\<lambda>i. add_bias bias (gemm wt (hidden_of i))) ins"
    if "\<forall>i \<in> set ins. mx_cols (hidden_of i) = c" for wt bias c
    using batched_linear_each [of "map hidden_of ins" c wt bias] that by simp
  have no_bias: "add_bias None x = x" for x by (simp add: add_bias_def)
  show ?thesis
  proof (cases op)
    case Op_embed
    then show ?thesis by (simp add: execute_batch_def embed_each base_op_simps)
  next
    case (Op_qkv_fused l)
    then have "\<forall>i \<in> set ins. mx_cols (hidden_of i) = mx_cols (lw_qkv (bw_layers w ! l))"
      using assms by (fastforce simp: list_all_iff good_input_simps)
    from linear [OF this] Op_qkv_fused show ?thesis by (simp add: execute_batch_def base_op_simps no_bias)
  next
    case (Op_o_proj l)
    then have "\<forall>i \<in> set ins. mx_cols (hidden_of i) = mx_cols (lw_o (bw_layers w ! l))"
      using assms by (fastforce simp: list_all_iff good_input_simps)
    from linear [OF this] Op_o_proj show ?thesis by (simp add: execute_batch_def base_op_simps)
  next
    case (Op_gate_up_fused l)
    then have "\<forall>i \<in> set ins. mx_cols (hidden_of i) = mx_cols (lw_gate_up (bw_layers w ! l))"
      using assms by (fastforce simp: list_all_iff good_input_simps)
    from linear [OF this] Op_gate_up_fused show ?thesis by (simp add: execute_batch_def base_op_simps no_bias)
  next
    case (Op_down_proj l)
    then have "\<forall>i \<in> set ins. mx_cols (hidden_of i) = mx_cols (lw_down (bw_layers w ! l))"
      using assms by (fastforce simp: list_all_iff good_input_simps)
    from linear [OF this] Op_down_proj show ?thesis by (simp add: execute_batch_def base_op_simps)
  next
    case Op_lm_head
    then have good: "\<forall>i \<in> set ins. \<not> sp_do_sample (sampling_of i) \<and> mx_cols (hidden_of i) = mx_cols (bw_lm_head w)"
      using assms by (fastforce simp: list_all_iff good_input_simps)
    show ?thesis
    proof (cases ins)
      case Nil
      then show ?thesis
        using Op_lm_head by (simp add: execute_batch_def batched_lm_head_def next_tokens_def gemm_def)
    next
      case (Cons i rest)
      then have "batched_lm_head draw (bw_lm_head w) ins =
          map (\<lambda>x. argmax_row (gemm (bw_lm_head w) x) 0) (map (last_row \<circ> hidden_of) ins)"
        unfolding batched_lm_head_def using good by (intro next_tokens_greedy [where c = "mx_cols (bw_lm_head w)"]) auto
      with Op_lm_head good show ?thesis by (auto simp: execute_batch_def base_op_greedy)
    qed
  qed
qed

text \<open>The shared base model is a batch executor.\<close>

interpretation base_model: batch_executor "good_input w" "execute_batch draw w" "base_op draw w" for draw w
  by unfold_locales (rule execute_batch_each)

text \<open>
  With sampling it is not: the tokens of the whole batch are drawn as the worker of the
  first command asks for.
\<close>

lemma sampling_of_first_command:
  "batched_lm_head draw w [Last_hidden s x, Last_hidden s' y] =
     next_tokens draw s (gemm w (mx_vcat [last_row x, last_row y]))"
  by (simp add: batched_lm_head_def)

end
