(* ===== verification/Forward_Pass.thy ===== *)
theory Forward_Pass
  imports Base_Model
begin

text \<open>
  One pass of a worker over its model, \<open>_generate_one_token_all\<close> and the classes
  \<open>WorkerBatchedOps\<close> and \<open>BatchedAggregatorOps\<close> of \<open>src/src/worker/worker_sync.py\<close>, for the
  active slot: the operations the aggregator computes are calls, the worker adds the deltas
  of its adapter and does the rest. (The methods take the first active slot; a worker has
  one, since its server admits one request at a time.) The norms of the transformers library, the rotary
  embedding with the attention kernel on the slot's cache, and the activation function are
  parameters. A delta is computed while the aggregator works; its exception appears here
  after the wait. The copy of the pass that measures times is not modelled.
\<close>

section \<open>State\<close>

record 'c model_fns =
  mf_input_norm :: "nat \<Rightarrow> matrix \<Rightarrow> matrix"
  mf_post_norm :: "nat \<Rightarrow> matrix \<Rightarrow> matrix"
  mf_final_norm :: "matrix \<Rightarrow> matrix"
  mf_silu :: "pyfloat \<Rightarrow> pyfloat"
  mf_attention :: "nat \<Rightarrow> 'c \<Rightarrow> int \<Rightarrow> matrix \<Rightarrow> matrix \<Rightarrow> matrix \<Rightarrow> matrix \<times> 'c"

record 'c forward_config =
  fc_layers :: "decoder_layer list"
  fc_qkv_dims :: "nat list"
  fc_gate_up_dims :: "nat list"
  fc_hidden_size :: nat
  fc_fns :: "'c model_fns"
  fc_sampling :: worker_sampling

record 'c forward_state =
  fs_input_ids :: "int list"
  fs_chunks :: "int list list"
  fs_generated :: "int list"
  fs_hidden :: matrix
  fs_residual :: matrix
  fs_mlp_residual :: matrix
  fs_seq_len :: int
  fs_cache :: 'c

text \<open>A worker's calls end with a result or an exception.\<close>

type_synonym 'r worker_calls = "(agg_input, agg_output, py_error + 'r) calls"

definition raising :: "py_error + 'a \<Rightarrow> ('a \<Rightarrow> 'r worker_calls) \<Rightarrow> 'r worker_calls" where
  "raising x k = (case x of Inl e \<Rightarrow> Return (Inl e) | Inr a \<Rightarrow> k a)"

section \<open>The worker's own operations\<close>

definition is_prefill :: "'c forward_state \<Rightarrow> bool" where
  "is_prefill st = (1 < length (fs_input_ids st))"

definition batch_layernorm :: "(matrix \<Rightarrow> matrix) \<Rightarrow> bool \<Rightarrow> bool \<Rightarrow> 'c forward_state \<Rightarrow> 'c forward_state" where
  "batch_layernorm norm_layer save_residual save_mlp_residual st =
     (let st1 = (if save_residual then st\<lparr>fs_residual := fs_hidden st\<rparr> else st);
          st2 = (if save_mlp_residual then st1\<lparr>fs_mlp_residual := fs_hidden st1\<rparr> else st1)
      in st2\<lparr>fs_hidden := norm_layer (fs_hidden st2)\<rparr>)"

definition input_layernorm :: "'c model_fns \<Rightarrow> nat \<Rightarrow> 'c forward_state \<Rightarrow> 'c forward_state" where
  "input_layernorm mf l st =
     (if is_prefill st then st\<lparr>fs_residual := fs_hidden st, fs_hidden := mf_input_norm mf l (fs_hidden st)\<rparr>
      else batch_layernorm (mf_input_norm mf l) True False st)"

definition post_attention_layernorm :: "'c model_fns \<Rightarrow> nat \<Rightarrow> 'c forward_state \<Rightarrow> 'c forward_state" where
  "post_attention_layernorm mf l st =
     (if is_prefill st then st\<lparr>fs_mlp_residual := fs_hidden st, fs_hidden := mf_post_norm mf l (fs_hidden st)\<rparr>
      else batch_layernorm (mf_post_norm mf l) False True st)"

text \<open>The last chunk and a decoded token keep all rows; the aggregator takes the last.\<close>

definition final_layernorm :: "'c model_fns \<Rightarrow> 'c forward_state \<Rightarrow> 'c forward_state" where
  "final_layernorm mf st =
     (let h = mf_final_norm mf (fs_hidden st)
      in st\<lparr>fs_hidden := (if is_prefill st \<and> fs_chunks st \<noteq> [] then last_row h else h)\<rparr>)"

text \<open>\<open>F.silu(gate) * up\<close>, with torch's broadcasting.\<close>

definition mx_times :: "matrix \<Rightarrow> matrix \<Rightarrow> py_error + matrix" where
  "mx_times a b =
     (if (fits (mx_rows a) (mx_rows b) \<or> mx_rows b = 1) \<and> (fits (mx_cols a) (mx_cols b) \<or> mx_cols b = 1)
      then Inr (mk_matrix (if mx_rows a = 1 then mx_rows b else mx_rows a) (if mx_cols a = 1 then mx_cols b else mx_cols a)
                  (\<lambda>i j. mx_at a (bc (mx_rows a) i) (bc (mx_cols a) j) * mx_at b (bc (mx_rows b) i) (bc (mx_cols b) j)))
      else Inl RuntimeError)"

definition mx_map :: "(pyfloat \<Rightarrow> pyfloat) \<Rightarrow> matrix \<Rightarrow> matrix" where
  "mx_map f m = mk_matrix (mx_rows m) (mx_cols m) (\<lambda>i j. f (mx_at m i j))"

definition mlp_activation :: "(pyfloat \<Rightarrow> pyfloat) \<Rightarrow> matrix list \<Rightarrow> py_error + matrix" where
  "mlp_activation silu results =
     (case results of [gate, up] \<Rightarrow> mx_times (mx_map silu gate) up | _ \<Rightarrow> Inl ValueError)"

definition flash_attention ::
  "'c model_fns \<Rightarrow> nat \<Rightarrow> matrix list \<Rightarrow> 'c forward_state \<Rightarrow> py_error + matrix \<times> 'c forward_state" where
  "flash_attention mf l qkv st =
     (case qkv of
        [q, k, v] \<Rightarrow>
          let (out, cache) = mf_attention mf l (fs_cache st) (fs_seq_len st) q k v
          in Inr (out, st\<lparr>fs_cache := cache\<rparr>)
      | _ \<Rightarrow> Inl ValueError)"

section \<open>Results of the aggregator\<close>

text \<open>The rows of a slot's output buffer, split into the widths of the projections.\<close>

definition get_outputs :: "nat list \<Rightarrow> agg_output \<Rightarrow> py_error + matrix list" where
  "get_outputs dims out = (case out of Tensor y \<Rightarrow> mx_split dims y | Next_token t \<Rightarrow> Inl RuntimeError)"

definition get_embeddings :: "agg_output \<Rightarrow> py_error + matrix" where
  "get_embeddings out = (case out of Tensor y \<Rightarrow> Inr y | Next_token t \<Rightarrow> Inl RuntimeError)"

definition get_next_token :: "agg_output \<Rightarrow> py_error + int" where
  "get_next_token out = (case out of Tensor y \<Rightarrow> Inl RuntimeError | Next_token t \<Rightarrow> Inr t)"

section \<open>The pass\<close>

definition attention_calls ::
  "'c forward_config \<Rightarrow> nat \<Rightarrow> 'c forward_state \<Rightarrow> ('c forward_state \<Rightarrow> 'r worker_calls) \<Rightarrow> 'r worker_calls" where
  "attention_calls cfg l st k =
     (let layer = fc_layers cfg ! l; st1 = input_layernorm (fc_fns cfg) l st
      in Call (Op_qkv_fused l) (Hidden (fs_hidden st1)) (\<lambda>y.
         raising (fused_deltas 3 (dl_qkv layer) (fs_hidden st1)) (\<lambda>deltas.
         raising (and_then (get_outputs (fc_qkv_dims cfg) y) (\<lambda>raw. add_deltas raw deltas)) (\<lambda>qkv.
         raising (flash_attention (fc_fns cfg) l qkv st1) (\<lambda>(att, st2).
         Call (Op_o_proj l) (Hidden att) (\<lambda>y.
         raising (and_then (get_outputs [fc_hidden_size cfg] y)
                    (\<lambda>raw. remote_all (dl_o_proj layer) att (hd raw) (fs_residual st2))) (\<lambda>h.
         k (st2\<lparr>fs_hidden := h\<rparr>))))))))"

definition mlp_calls ::
  "'c forward_config \<Rightarrow> nat \<Rightarrow> 'c forward_state \<Rightarrow> ('c forward_state \<Rightarrow> 'r worker_calls) \<Rightarrow> 'r worker_calls" where
  "mlp_calls cfg l st k =
     (let layer = fc_layers cfg ! l; st1 = post_attention_layernorm (fc_fns cfg) l st
      in Call (Op_gate_up_fused l) (Hidden (fs_hidden st1)) (\<lambda>y.
         raising (fused_deltas 2 (dl_gate_up layer) (fs_hidden st1)) (\<lambda>deltas.
         raising (and_then (get_outputs (fc_gate_up_dims cfg) y) (\<lambda>raw. add_deltas raw deltas)) (\<lambda>gate_up.
         raising (mlp_activation (mf_silu (fc_fns cfg)) gate_up) (\<lambda>x.
         Call (Op_down_proj l) (Hidden x) (\<lambda>y.
         raising (and_then (get_outputs [fc_hidden_size cfg] y)
                    (\<lambda>raw. remote_all (dl_down_proj layer) x (hd raw) (fs_mlp_residual st1))) (\<lambda>h.
         k (st1\<lparr>fs_hidden := h\<rparr>))))))))"

definition layer_calls ::
  "'c forward_config \<Rightarrow> nat \<Rightarrow> 'c forward_state \<Rightarrow> ('c forward_state \<Rightarrow> 'r worker_calls) \<Rightarrow> 'r worker_calls" where
  "layer_calls cfg l st k = attention_calls cfg l st (\<lambda>st. mlp_calls cfg l st k)"

fun layers_calls ::
  "'c forward_config \<Rightarrow> nat \<Rightarrow> nat \<Rightarrow> 'c forward_state \<Rightarrow> ('c forward_state \<Rightarrow> 'r worker_calls) \<Rightarrow> 'r worker_calls" where
  "layers_calls cfg l 0 st k = k st"
| "layers_calls cfg l (Suc n) st k = layer_calls cfg l st (\<lambda>st. layers_calls cfg (l + 1) n st k)"

text \<open>The token of a prefill chunk that is not the last is dropped.\<close>

definition take_token :: "int \<Rightarrow> 'c forward_state \<Rightarrow> 'c forward_state" where
  "take_token t st =
     (case fs_chunks st of
        c # cs \<Rightarrow> st\<lparr>fs_input_ids := c, fs_chunks := cs\<rparr>
      | [] \<Rightarrow> st\<lparr>fs_generated := fs_generated st @ [t], fs_input_ids := [t]\<rparr>)"

definition token_calls ::
  "'c forward_config \<Rightarrow> 'c forward_state \<Rightarrow> ('c forward_state \<Rightarrow> 'r worker_calls) \<Rightarrow> 'r worker_calls" where
  "token_calls cfg st k =
     Call Op_embed (Token_ids (fs_input_ids st)) (\<lambda>y.
     raising (get_embeddings y) (\<lambda>h.
     layers_calls cfg 0 (length (fc_layers cfg)) (st\<lparr>fs_hidden := h\<rparr>) (\<lambda>st.
     let st1 = final_layernorm (fc_fns cfg) (st\<lparr>fs_seq_len := fs_seq_len st + int (length (fs_input_ids st))\<rparr>)
     in Call Op_lm_head (Last_hidden (fc_sampling cfg) (fs_hidden st1)) (\<lambda>y.
        raising (get_next_token y) (\<lambda>t. k (take_token t st1))))))"

text \<open>
  The passes of a request, until it has reached its limit or the end-of-sequence token; the
  number bounds them (one for every chunk but the last and one for every token).
\<close>

definition generation_done :: "nat \<Rightarrow> int option \<Rightarrow> 'c forward_state \<Rightarrow> bool" where
  "generation_done max_tokens eos st \<longleftrightarrow>
     max_tokens \<le> length (fs_generated st) \<or> (fs_generated st \<noteq> [] \<and> eos = Some (last (fs_generated st)))"

fun generate_calls ::
  "'c forward_config \<Rightarrow> nat \<Rightarrow> int option \<Rightarrow> nat \<Rightarrow> 'c forward_state \<Rightarrow> (int list) worker_calls" where
  "generate_calls cfg max_tokens eos 0 st = Return (Inr (fs_generated st))"
| "generate_calls cfg max_tokens eos (Suc n) st =
     token_calls cfg st (\<lambda>st.
       if generation_done max_tokens eos st then Return (Inr (fs_generated st))
       else generate_calls cfg max_tokens eos n st)"

definition passes :: "nat \<Rightarrow> 'c forward_state \<Rightarrow> nat" where
  "passes max_tokens st = length (fs_chunks st) + max max_tokens 1"

definition serve_calls :: "'c forward_config \<Rightarrow> nat \<Rightarrow> int option \<Rightarrow> 'c forward_state \<Rightarrow> (int list) worker_calls" where
  "serve_calls cfg max_tokens eos st = generate_calls cfg max_tokens eos (passes max_tokens st) st"

end
