(* ===== verification/Merged_Model.thy ===== *)
theory Merged_Model
  imports Forward_Pass
begin

text \<open>
  A worker and the aggregator together compute the merged model: the base model in whose
  weights the adapter has been added, W + s B A for every targeted projection, one layer
  after the other, without aggregator, fused weights or deltas.
\<close>

section \<open>The reference\<close>

record plain_layer =
  pl_q :: matrix
  pl_k :: matrix
  pl_v :: matrix
  pl_o :: matrix
  pl_o_bias :: "pyfloat list option"
  pl_gate :: matrix
  pl_up :: matrix
  pl_down :: matrix
  pl_down_bias :: "pyfloat list option"

record plain_model =
  pm_embed :: matrix
  pm_lm_head :: matrix
  pm_layers :: "plain_layer list"

definition mx_plus :: "matrix \<Rightarrow> matrix \<Rightarrow> matrix" where
  "mx_plus a b = mk_matrix (mx_rows a) (mx_cols a) (\<lambda>i j. mx_at a i j + mx_at b i j)"

definition mx_prod :: "matrix \<Rightarrow> matrix \<Rightarrow> matrix" where
  "mx_prod a b = mk_matrix (mx_rows a) (mx_cols a) (\<lambda>i j. mx_at a i j * mx_at b i j)"

definition attention_block :: "'c model_fns \<Rightarrow> plain_layer \<Rightarrow> nat \<Rightarrow> int \<Rightarrow> matrix \<times> 'c \<Rightarrow> matrix \<times> 'c" where
  "attention_block mf p l pos hc =
     (let x = mf_input_norm mf l (fst hc);
          (att, cache) = mf_attention mf l (snd hc) pos (gemm (pl_q p) x) (gemm (pl_k p) x) (gemm (pl_v p) x)
      in (mx_plus (fst hc) (add_bias (pl_o_bias p) (gemm (pl_o p) att)), cache))"

definition mlp_block :: "'c model_fns \<Rightarrow> plain_layer \<Rightarrow> nat \<Rightarrow> matrix \<Rightarrow> matrix" where
  "mlp_block mf p l h =
     (let x = mf_post_norm mf l h;
          z = mx_prod (mx_map (mf_silu mf) (gemm (pl_gate p) x)) (gemm (pl_up p) x)
      in mx_plus h (add_bias (pl_down_bias p) (gemm (pl_down p) z)))"

definition plain_layer_pass :: "'c model_fns \<Rightarrow> plain_layer \<Rightarrow> nat \<Rightarrow> int \<Rightarrow> matrix \<times> 'c \<Rightarrow> matrix \<times> 'c" where
  "plain_layer_pass mf p l pos hc = apfst (mlp_block mf p l) (attention_block mf p l pos hc)"

fun plain_layers_pass :: "'c model_fns \<Rightarrow> nat \<Rightarrow> plain_layer list \<Rightarrow> int \<Rightarrow> matrix \<times> 'c \<Rightarrow> matrix \<times> 'c" where
  "plain_layers_pass mf l [] pos hc = hc"
| "plain_layers_pass mf l (p # ps) pos hc = plain_layers_pass mf (l + 1) ps pos (plain_layer_pass mf p l pos hc)"

record 'c decode_state =
  ds_input_ids :: "int list"
  ds_chunks :: "int list list"
  ds_generated :: "int list"
  ds_seq_len :: int
  ds_cache :: 'c

definition plain_token :: "'c model_fns \<Rightarrow> plain_model \<Rightarrow> 'c decode_state \<Rightarrow> 'c decode_state" where
  "plain_token mf pm ds =
     (let (h, cache) = plain_layers_pass mf 0 (pm_layers pm) (ds_seq_len ds)
                         (embed_tokens (pm_embed pm) (ds_input_ids ds), ds_cache ds);
          t = argmax_row (gemm (pm_lm_head pm) (last_row (mf_final_norm mf h))) 0;
          ds1 = ds\<lparr>ds_seq_len := ds_seq_len ds + int (length (ds_input_ids ds)), ds_cache := cache\<rparr>
      in case ds_chunks ds of
           c # cs \<Rightarrow> ds1\<lparr>ds_input_ids := c, ds_chunks := cs\<rparr>
         | [] \<Rightarrow> ds1\<lparr>ds_generated := ds_generated ds @ [t], ds_input_ids := [t]\<rparr>)"

fun plain_generate ::
  "'c model_fns \<Rightarrow> plain_model \<Rightarrow> nat \<Rightarrow> int option \<Rightarrow> nat \<Rightarrow> 'c decode_state \<Rightarrow> int list" where
  "plain_generate mf pm max_tokens eos 0 ds = ds_generated ds"
| "plain_generate mf pm max_tokens eos (Suc n) ds =
     (let ds1 = plain_token mf pm ds
      in if max_tokens \<le> length (ds_generated ds1) \<or>
            (ds_generated ds1 \<noteq> [] \<and> eos = Some (last (ds_generated ds1)))
         then ds_generated ds1 else plain_generate mf pm max_tokens eos n ds1)"

section \<open>Merging an adapter\<close>

definition merge_module :: "matrix \<Rightarrow> fast_lora option \<Rightarrow> matrix" where
  "merge_module w m =
     (case m of
        None \<Rightarrow> w
      | Some l \<Rightarrow> mk_matrix (mx_rows w) (mx_cols w) (\<lambda>c k. mx_at w c k +
          sum_list (map (\<lambda>r. mx_at (fm_B l) c r * mx_at (fm_A l) r k) [0..<mx_rows (fm_A l)]) * fm_scaling l))"

definition merge_layer :: "lora_layers \<Rightarrow> int \<Rightarrow> plain_layer \<Rightarrow> plain_layer" where
  "merge_layer lls i p =
     p\<lparr>pl_q := merge_module (pl_q p) (get_lora_module lls i ''self_attn.q_proj''),
       pl_k := merge_module (pl_k p) (get_lora_module lls i ''self_attn.k_proj''),
       pl_v := merge_module (pl_v p) (get_lora_module lls i ''self_attn.v_proj''),
       pl_o := merge_module (pl_o p) (get_lora_module lls i ''self_attn.o_proj''),
       pl_gate := merge_module (pl_gate p) (get_lora_module lls i ''mlp.gate_proj''),
       pl_up := merge_module (pl_up p) (get_lora_module lls i ''mlp.up_proj''),
       pl_down := merge_module (pl_down p) (get_lora_module lls i ''mlp.down_proj'')\<rparr>"

definition merge_adapter :: "lora_layers \<Rightarrow> plain_model \<Rightarrow> plain_model" where
  "merge_adapter lls pm =
     pm\<lparr>pm_layers := map (\<lambda>i. merge_layer lls (int i) (pm_layers pm ! i)) [0..<length (pm_layers pm)]\<rparr>"

section \<open>The weights of the aggregator\<close>

definition load_layer :: "plain_layer \<Rightarrow> layer_weights" where
  "load_layer p = init_aggregator_layer (pl_q p) (pl_k p) (pl_v p) (pl_o p) (pl_o_bias p) (pl_gate p) (pl_up p)
     (pl_down p) (pl_down_bias p)"

definition load_weights :: "plain_model \<Rightarrow> base_weights" where
  "load_weights pm =
     \<lparr>bw_embed = pm_embed pm, bw_lm_head = pm_lm_head pm, bw_layers = map load_layer (pm_layers pm)\<rparr>"

text \<open>Shapes: the hidden, key and intermediate sizes of the model.\<close>

definition has_shape :: "nat \<Rightarrow> nat \<Rightarrow> matrix \<Rightarrow> bool" where
  "has_shape r c m \<longleftrightarrow> mx_rows m = r \<and> mx_cols m = c"

definition plain_layer_fits :: "nat \<Rightarrow> nat \<Rightarrow> nat \<Rightarrow> plain_layer \<Rightarrow> bool" where
  "plain_layer_fits h kd m p \<longleftrightarrow>
     has_shape h h (pl_q p) \<and> has_shape kd h (pl_k p) \<and> has_shape kd h (pl_v p) \<and> has_shape h h (pl_o p) \<and>
     has_shape m h (pl_gate p) \<and> has_shape m h (pl_up p) \<and> has_shape h m (pl_down p)"

definition fns_fit :: "nat \<Rightarrow> 'c model_fns \<Rightarrow> bool" where
  "fns_fit h mf \<longleftrightarrow>
     (\<forall>l x. mx_rows (mf_input_norm mf l x) = mx_rows x \<and> mx_cols (mf_input_norm mf l x) = mx_cols x \<and>
            mx_rows (mf_post_norm mf l x) = mx_rows x \<and> mx_cols (mf_post_norm mf l x) = mx_cols x \<and>
            mx_rows (mf_final_norm mf x) = mx_rows x \<and> mx_cols (mf_final_norm mf x) = mx_cols x) \<and>
     (\<forall>l cache pos q k v. mx_rows (fst (mf_attention mf l cache pos q k v)) = mx_rows q \<and>
            mx_cols (fst (mf_attention mf l cache pos q k v)) = h)"

section \<open>One projection\<close>

lemma gemm_shape [simp]: "mx_rows (gemm w x) = mx_rows x" "mx_cols (gemm w x) = mx_rows w" "mx_ok (gemm w x)"
  by (simp_all add: gemm_def)

lemma add_bias_shape [simp]: "mx_rows (add_bias b y) = mx_rows y" "mx_cols (add_bias b y) = mx_cols y"
  by (simp_all add: add_bias_def split: option.split)

lemma add_bias_ok [simp]: "mx_ok y \<Longrightarrow> mx_ok (add_bias b y)"
  by (simp add: add_bias_def split: option.split)

lemma add_no_bias: "add_bias None y = y"
  by (simp add: add_bias_def)

lemma merge_shape [simp]: "mx_rows (merge_module w m) = mx_rows w" "mx_cols (merge_module w m) = mx_cols w"
  by (simp_all add: merge_module_def split: option.split)

text \<open>Adding the delta of a module is the same as multiplying with the merged weights.\<close>

lemma merge_adds:
  assumes "module_fits nin rank m (mx_rows w)" "mx_cols w = nin" "mx_cols x = nin"
  shows "with_effect x m (add_bias b (gemm w x)) = add_bias b (gemm (merge_module w m) x)"
proof (cases m)
  case None
  then show ?thesis by (simp add: with_no_effect merge_module_def)
next
  case (Some l)
  then have l: "mx_rows (fm_A l) = rank" using assms(1) by (simp add: module_fits_def)
  have "linear_at w b x i j + effect_at m x i j = linear_at (merge_module w m) b x i j" if "i < mx_rows x" "j < mx_rows w" for i j
  proof -
    let ?d = "\<lambda>k. (\<Sum>r<rank. mx_at (fm_B l) j r * mx_at (fm_A l) r k) * fm_scaling l"
    have "(\<Sum>k<nin. mx_at x i k * ?d k) = (\<Sum>k<nin. \<Sum>r<rank. mx_at x i k * (mx_at (fm_B l) j r * mx_at (fm_A l) r k) * fm_scaling l)"
      by (simp add: sum_distrib_left sum_distrib_right mult.assoc)
    also have "\<dots> = (\<Sum>r<rank. \<Sum>k<nin. mx_at x i k * (mx_at (fm_B l) j r * mx_at (fm_A l) r k) * fm_scaling l)"
      by (rule sum.swap)
    also have "\<dots> = delta_at l x i j"
      by (simp add: delta_at_sum l assms(3) sum_distrib_right sum_distrib_left mult.assoc mult.commute mult.left_commute)
    finally have d: "(\<Sum>k<nin. mx_at x i k * ?d k) = delta_at l x i j" .
    have "mx_at (merge_module w m) j k = mx_at w j k + ?d k" if "k < nin" for k
      using that \<open>j < mx_rows w\<close> assms(2) by (simp add: merge_module_def Some l sum_list_upt_sum)
    then have "(\<Sum>k<nin. mx_at x i k * mx_at (merge_module w m) j k) =
        (\<Sum>k<nin. mx_at x i k * mx_at w j k) + (\<Sum>k<nin. mx_at x i k * ?d k)"
      by (simp add: distrib_left sum.distrib)
    then show ?thesis by (simp add: linear_at_def sum_list_upt_sum assms(3) d effect_at_def Some)
  qed
  then show ?thesis
    by (auto simp: linear_by_entries with_effect_def intro!: mk_matrix_cong)
qed

text \<open>The fused weights give the projections side by side.\<close>

lemma split_fused:
  assumes "\<forall>w \<in> set ws. mx_cols w = mx_cols x" "ws \<noteq> []"
  shows "mx_split (map mx_rows ws) (gemm (mx_vcat ws) x) = Inr (map (\<lambda>w. gemm w x) ws)"
proof -
  have "split_cols 0 (map mx_rows ws) (gemm (mx_vcat ws) x) ! b = gemm (ws ! b) x" if "b < length ws" for b
  proof -
    have "mx_cols (hd ws) = mx_cols x" "mx_cols (ws ! b) = mx_cols x" using assms that by simp_all
    then show ?thesis
      using that row_bound [of b "map mx_rows ws"]
      by (auto simp: split_cols_nth gemm_def mx_vcat_at intro!: mk_matrix_cong arg_cong [where f = sum_list] map_cong)
  qed
  then have "split_cols 0 (map mx_rows ws) (gemm (mx_vcat ws) x) = map (\<lambda>w. gemm w x) ws"
    by (intro nth_equalityI) (simp_all add: split_cols_length)
  then show ?thesis by (simp add: mx_split_def)
qed

section \<open>One layer\<close>

text \<open>What calls mean: their result, and that they keep the order of the barrier.\<close>

definition meaning ::
  "draw \<Rightarrow> base_weights \<Rightarrow> 'r worker_calls \<Rightarrow> nat \<Rightarrow> (py_error + 'r) \<times> bool" where
  "meaning draw w c n = (run_calls (base_op draw w) c,
     in_phase (base_op draw w) (good_input w) (length (bw_layers w)) c n)"

lemma meaning_call:
  assumes "op = op_at (length (bw_layers w)) n" "good_input w op i" "n + 1 < ops_per_token (length (bw_layers w))"
    and "n + 1 = m"
  shows "meaning draw w (Call op i k) n = meaning draw w (k (base_op draw w op i)) m"
  using assms by (auto simp: meaning_def in_phase_call)

lemma raising_Inr [simp]: "raising (Inr a) k = k a"
  by (simp add: raising_def)

lemma raising_bind: "raising (and_then x g) k = raising x (\<lambda>a. raising (g a) k)"
  by (cases x) (simp_all add: raising_def)

lemma op_at_layer:
  assumes "l < L"
  shows "op_at L (4 * l + 1) = Op_qkv_fused l" "op_at L (4 * l + 2) = Op_o_proj l"
    "op_at L (4 * l + 3) = Op_gate_up_fused l" "op_at L (4 * l + 4) = Op_down_proj l"
proof -
  have "(4 * l + 1) div 4 = l" "(4 * l + 2) div 4 = l" "(4 * l + 3) div 4 = l"
    "(4 * l + 1) mod 4 = 1" "(4 * l + 2) mod 4 = 2" "(4 * l + 3) mod 4 = 3"
    by presburger+
  then show "op_at L (4 * l + 1) = Op_qkv_fused l" "op_at L (4 * l + 2) = Op_o_proj l"
    "op_at L (4 * l + 3) = Op_gate_up_fused l" "op_at L (4 * l + 4) = Op_down_proj l"
    using assms by (simp_all add: op_at_def)
qed

lemma input_layernorm_eq:
  "input_layernorm mf l st = st\<lparr>fs_residual := fs_hidden st, fs_hidden := mf_input_norm mf l (fs_hidden st)\<rparr>"
  by (simp add: input_layernorm_def batch_layernorm_def)

lemma post_attention_layernorm_eq:
  "post_attention_layernorm mf l st = st\<lparr>fs_mlp_residual := fs_hidden st, fs_hidden := mf_post_norm mf l (fs_hidden st)\<rparr>"
  by (simp add: post_attention_layernorm_def batch_layernorm_def)

lemma mx_add_plus: "mx_rows a = mx_rows b \<Longrightarrow> mx_cols a = mx_cols b \<Longrightarrow> mx_add a b = Inr (mx_plus a b)"
  by (simp add: mx_add_same mx_plus_def)

lemma mx_times_prod: "mx_rows a = mx_rows b \<Longrightarrow> mx_cols a = mx_cols b \<Longrightarrow> mx_times a b = Inr (mx_prod a b)"
  by (auto simp: mx_times_def mx_prod_def fits_def bc_below intro!: mk_matrix_cong)

lemma mx_plus_shape [simp]: "mx_rows (mx_plus a b) = mx_rows a" "mx_cols (mx_plus a b) = mx_cols a"
  by (simp_all add: mx_plus_def)

lemma mx_prod_shape [simp]: "mx_rows (mx_prod a b) = mx_rows a" "mx_cols (mx_prod a b) = mx_cols a"
  by (simp_all add: mx_prod_def)

lemma mx_map_shape [simp]: "mx_rows (mx_map f a) = mx_rows a" "mx_cols (mx_map f a) = mx_cols a"
  by (simp_all add: mx_map_def)

text \<open>A group of fused projections, and one that is not fused.\<close>

lemma fused_group:
  assumes "list_all2 (module_fits nin rank) ms (map mx_rows ws)" "\<forall>w \<in> set ws. mx_cols w = nin" "ws \<noteq> []" "mx_cols x = nin"
  shows "raising (fused_deltas (length ms) (group_of nin rank ms (map mx_rows ws)) x) (\<lambda>deltas.
      raising (and_then (get_outputs (map mx_rows ws) (Tensor (gemm (mx_vcat ws) x))) (\<lambda>raw. add_deltas raw deltas)) k) =
    k (map2 (\<lambda>m w. gemm (merge_module w m) x) ms ws)"
proof -
  let ?raw = "map (\<lambda>w. gemm w x) ws"
  have split: "mx_split (map mx_rows ws) (gemm (mx_vcat ws) x) = Inr ?raw" using split_fused [OF _ assms(3)] assms(2,4) by simp
  have len: "length ms = length ws" using list_all2_lengthD [OF assms(1)] by simp
  have "raw_fits (mx_rows x) ?raw (map mx_rows ws)"
    by (simp add: raw_fits_def list_all2_conv_all_nth)
  then have adds: "and_then (fused_deltas (length ms) (group_of nin rank ms (map mx_rows ws)) x) (add_deltas ?raw) =
      Inr (map2 (with_effect x) ms ?raw)"
    by (rule group_adds [OF assms(1,4)])
  have "map2 (with_effect x) ms ?raw = map2 (\<lambda>m w. gemm (merge_module w m) x) ms ws"
  proof (rule nth_equalityI)
    fix b assume "b < length (map2 (with_effect x) ms ?raw)"
    then have b: "b < length ms" "b < length ws" by simp_all
    then have "module_fits nin rank (ms ! b) (mx_rows (ws ! b))" using list_all2_nthD [OF assms(1) b(1)] by simp
    moreover have "mx_cols (ws ! b) = nin" using assms(2) b by simp
    ultimately have "with_effect x (ms ! b) (gemm (ws ! b) x) = gemm (merge_module (ws ! b) (ms ! b)) x"
      using merge_adds [of nin rank "ms ! b" "ws ! b" x None] assms(4) by (simp add: add_no_bias)
    then show "map2 (with_effect x) ms ?raw ! b = map2 (\<lambda>m w. gemm (merge_module w m) x) ms ws ! b"
      using b by simp
  qed (simp add: len)
  with adds show ?thesis by (simp add: get_outputs_def split flip: raising_bind)
qed

lemma remote_projection:
  assumes "module_fits nin rank m (mx_rows w)" "mx_cols w = nin" "mx_cols x = nin" "mx_rows residual = mx_rows x"
    and "mx_cols residual = mx_rows w"
  shows "raising (and_then (get_outputs [mx_rows w] (Tensor (add_bias b (gemm w x))))
      (\<lambda>raw. remote_all (remote_of m) x (hd raw) residual)) k =
    k (mx_plus residual (add_bias b (gemm (merge_module w m) x)))"
proof -
  let ?y = "add_bias b (gemm w x)"
  have "mx_split [mx_rows w] ?y = Inr [mk_matrix (mx_rows ?y) (mx_rows w) (mx_at ?y)]"
    by (simp add: mx_split_def)
  moreover have "mk_matrix (mx_rows ?y) (mx_rows w) (mx_at ?y) = ?y"
    using mk_matrix_at [of ?y] by simp
  ultimately have "and_then (get_outputs [mx_rows w] (Tensor ?y)) (\<lambda>raw. remote_all (remote_of m) x (hd raw) residual) =
      remote_all (remote_of m) x ?y residual"
    by (simp add: get_outputs_def)
  also have "\<dots> = mx_add residual (with_effect x m ?y)"
    by (rule remote_adds [OF assms(1,3)]) simp_all
  also have "\<dots> = Inr (mx_plus residual (add_bias b (gemm (merge_module w m) x)))"
    unfolding merge_adds [OF assms(1-3)] by (rule mx_add_plus) (simp_all add: assms(4,5))
  finally show ?thesis by simp
qed

definition serving_fits :: "model_info \<Rightarrow> nat \<Rightarrow> lora_layers \<Rightarrow> plain_model \<Rightarrow> 'c forward_config \<Rightarrow> bool" where
  "serving_fits info rank lls pm cfg \<longleftrightarrow>
     (let h = mi_hidden_size info; m = mi_intermediate_size info; n = length (pm_layers pm)
      in case qkv_dims info of
           Inl e \<Rightarrow> False
         | Inr qdims \<Rightarrow>
             adapter_fits info rank lls n \<and> build_lora_model info n lls = Inr (fc_layers cfg) \<and>
             fc_qkv_dims cfg = qdims \<and> fc_gate_up_dims cfg = gate_up_dims info \<and> fc_hidden_size cfg = h \<and>
             list_all (plain_layer_fits h (qdims ! 1) m) (pm_layers pm) \<and> fns_fit h (fc_fns cfg) \<and>
             mx_cols (pm_embed pm) = h \<and> mx_cols (pm_lm_head pm) = h \<and> \<not> sp_do_sample (fc_sampling cfg))"

lemma qkv_dims_cases: "qkv_dims info = Inr qdims \<Longrightarrow> qdims = [mi_hidden_size info, qdims ! 1, qdims ! 1]"
  by (auto simp: qkv_dims_def Let_def split: if_splits)

text \<open>What the hypotheses say of one layer.\<close>

lemma serving_layer:
  fixes p
  defines "p \<equiv> \<lambda>pm l. pm_layers pm ! l"
  assumes fit: "serving_fits info rank lls pm cfg" and l: "l < length (pm_layers pm)"
  shows serving_dims: "fc_qkv_dims cfg = map mx_rows [pl_q (p pm l), pl_k (p pm l), pl_v (p pm l)]"
      "fc_gate_up_dims cfg = map mx_rows [pl_gate (p pm l), pl_up (p pm l)]" "fc_hidden_size cfg = mi_hidden_size info"
    and serving_groups: "dl_qkv (fc_layers cfg ! l) = group_of (mi_hidden_size info) rank (modules_of lls (int l) qkv_names) (fc_qkv_dims cfg)"
      "dl_gate_up (fc_layers cfg ! l) =
         group_of (mi_hidden_size info) rank (modules_of lls (int l) gate_up_names) (fc_gate_up_dims cfg)"
      "dl_o_proj (fc_layers cfg ! l) = remote_of (get_lora_module lls (int l) ''self_attn.o_proj'')"
      "dl_down_proj (fc_layers cfg ! l) = remote_of (get_lora_module lls (int l) ''mlp.down_proj'')"
    and serving_modules: "list_all2 (module_fits (mi_hidden_size info) rank) (modules_of lls (int l) qkv_names) (fc_qkv_dims cfg)"
      "list_all2 (module_fits (mi_hidden_size info) rank) (modules_of lls (int l) gate_up_names) (fc_gate_up_dims cfg)"
      "module_fits (mi_hidden_size info) rank (get_lora_module lls (int l) ''self_attn.o_proj'') (mi_hidden_size info)"
      "module_fits (mi_intermediate_size info) rank (get_lora_module lls (int l) ''mlp.down_proj'') (mi_hidden_size info)"
    and serving_shapes: "\<exists>kd. plain_layer_fits (mi_hidden_size info) kd (mi_intermediate_size info) (p pm l)"
    and serving_fns: "fns_fit (mi_hidden_size info) (fc_fns cfg)"
proof -
  obtain qdims where q: "qkv_dims info = Inr qdims" using fit by (auto simp: serving_fits_def Let_def split: sum.splits)
  have fits: "adapter_fits info rank lls (length (pm_layers pm))" "build_lora_model info (length (pm_layers pm)) lls = Inr (fc_layers cfg)"
    "fc_qkv_dims cfg = qdims" "fc_gate_up_dims cfg = gate_up_dims info" "fc_hidden_size cfg = mi_hidden_size info"
    "plain_layer_fits (mi_hidden_size info) (qdims ! 1) (mi_intermediate_size info) (p pm l)" "fns_fit (mi_hidden_size info) (fc_fns cfg)"
    using fit q l by (auto simp: serving_fits_def Let_def list_all_length p_def)
  have layer: "fc_layers cfg ! l = layer_of info qdims rank lls (int l)"
    using build_lora_model_of [OF fits(1) q] fits(2) l by (auto simp: model_of_def)
  have mods: "layer_fits info qdims rank lls (int l)" using adapter_fits_layer [OF fits(1)] q l by auto
  note shapes = fits(6) [unfolded plain_layer_fits_def has_shape_def]
  show "fc_qkv_dims cfg = map mx_rows [pl_q (p pm l), pl_k (p pm l), pl_v (p pm l)]"
    "fc_gate_up_dims cfg = map mx_rows [pl_gate (p pm l), pl_up (p pm l)]" "fc_hidden_size cfg = mi_hidden_size info"
    using qkv_dims_cases [OF q] shapes by (simp_all add: fits gate_up_dims_def)
  show "dl_qkv (fc_layers cfg ! l) = group_of (mi_hidden_size info) rank (modules_of lls (int l) qkv_names) (fc_qkv_dims cfg)"
    "dl_gate_up (fc_layers cfg ! l) =
       group_of (mi_hidden_size info) rank (modules_of lls (int l) gate_up_names) (fc_gate_up_dims cfg)"
    "dl_o_proj (fc_layers cfg ! l) = remote_of (get_lora_module lls (int l) ''self_attn.o_proj'')"
    "dl_down_proj (fc_layers cfg ! l) = remote_of (get_lora_module lls (int l) ''mlp.down_proj'')"
    by (simp_all add: layer layer_of_def fits)
  show "list_all2 (module_fits (mi_hidden_size info) rank) (modules_of lls (int l) qkv_names) (fc_qkv_dims cfg)"
    "list_all2 (module_fits (mi_hidden_size info) rank) (modules_of lls (int l) gate_up_names) (fc_gate_up_dims cfg)"
    "module_fits (mi_hidden_size info) rank (get_lora_module lls (int l) ''self_attn.o_proj'') (mi_hidden_size info)"
    "module_fits (mi_intermediate_size info) rank (get_lora_module lls (int l) ''mlp.down_proj'') (mi_hidden_size info)"
    using mods unfolding layer_fits_def Let_def fits by blast+
  show "\<exists>kd. plain_layer_fits (mi_hidden_size info) kd (mi_intermediate_size info) (p pm l)" "fns_fit (mi_hidden_size info) (fc_fns cfg)"
    using fits by blast+
qed

lemma fns_fitD:
  assumes "fns_fit h mf"
  shows "mx_rows (mf_input_norm mf l x) = mx_rows x" "mx_cols (mf_input_norm mf l x) = mx_cols x"
    "mx_rows (mf_post_norm mf l x) = mx_rows x" "mx_cols (mf_post_norm mf l x) = mx_cols x"
    "mx_rows (mf_final_norm mf x) = mx_rows x" "mx_cols (mf_final_norm mf x) = mx_cols x"
    "mf_attention mf l c pos a b d = (att, c') \<Longrightarrow> mx_rows att = mx_rows a \<and> mx_cols att = h"
proof -
  show "mf_attention mf l c pos a b d = (att, c') \<Longrightarrow> mx_rows att = mx_rows a \<and> mx_cols att = h"
    using assms by (metis fns_fit_def fst_conv)
qed (use assms in \<open>simp_all add: fns_fit_def\<close>)

lemma loaded_layer:
  assumes "l < length (pm_layers pm)"
  shows "lw_qkv (bw_layers (load_weights pm) ! l) = mx_vcat [pl_q (pm_layers pm ! l), pl_k (pm_layers pm ! l), pl_v (pm_layers pm ! l)]"
    "lw_gate_up (bw_layers (load_weights pm) ! l) = mx_vcat [pl_gate (pm_layers pm ! l), pl_up (pm_layers pm ! l)]"
    "lw_o (bw_layers (load_weights pm) ! l) = pl_o (pm_layers pm ! l)"
    "lw_o_bias (bw_layers (load_weights pm) ! l) = pl_o_bias (pm_layers pm ! l)"
    "lw_down (bw_layers (load_weights pm) ! l) = pl_down (pm_layers pm ! l)"
    "lw_down_bias (bw_layers (load_weights pm) ! l) = pl_down_bias (pm_layers pm ! l)"
  using assms by (simp_all add: load_weights_def load_layer_def init_aggregator_layer_def)

lemma loaded_length [simp]: "length (bw_layers (load_weights pm)) = length (pm_layers pm)"
  by (simp add: load_weights_def)

text \<open>The calls of a layer, in the order of the barrier.\<close>

lemma meaning_layer_call:
  assumes "l < length (pm_layers pm)"
  shows "good_input (load_weights pm) (Op_qkv_fused l) i \<Longrightarrow> meaning draw (load_weights pm) (Call (Op_qkv_fused l) i c) (4 * l + 1) =
      meaning draw (load_weights pm) (c (base_op draw (load_weights pm) (Op_qkv_fused l) i)) (4 * l + 2)"
    "good_input (load_weights pm) (Op_o_proj l) i \<Longrightarrow> meaning draw (load_weights pm) (Call (Op_o_proj l) i c) (4 * l + 2) =
      meaning draw (load_weights pm) (c (base_op draw (load_weights pm) (Op_o_proj l) i)) (4 * l + 3)"
    "good_input (load_weights pm) (Op_gate_up_fused l) i \<Longrightarrow> meaning draw (load_weights pm) (Call (Op_gate_up_fused l) i c) (4 * l + 3) =
      meaning draw (load_weights pm) (c (base_op draw (load_weights pm) (Op_gate_up_fused l) i)) (4 * l + 4)"
    "good_input (load_weights pm) (Op_down_proj l) i \<Longrightarrow> meaning draw (load_weights pm) (Call (Op_down_proj l) i c) (4 * l + 4) =
      meaning draw (load_weights pm) (c (base_op draw (load_weights pm) (Op_down_proj l) i)) (4 * l + 5)"
  using assms op_at_layer [OF assms] by (auto simp: ops_per_token_def intro!: meaning_call)

definition attended :: "'c model_fns \<Rightarrow> plain_layer \<Rightarrow> nat \<Rightarrow> 'c forward_state \<Rightarrow> 'c forward_state" where
  "attended mf p l st =
     (let (h, cache) = attention_block mf p l (fs_seq_len st) (fs_hidden st, fs_cache st)
      in st\<lparr>fs_residual := fs_hidden st, fs_cache := cache, fs_hidden := h\<rparr>)"

definition fed_forward :: "'c model_fns \<Rightarrow> plain_layer \<Rightarrow> nat \<Rightarrow> 'c forward_state \<Rightarrow> 'c forward_state" where
  "fed_forward mf p l st = st\<lparr>fs_mlp_residual := fs_hidden st, fs_hidden := mlp_block mf p l (fs_hidden st)\<rparr>"

lemma attention_calls_pass:
  assumes fit: "serving_fits info rank lls pm cfg" and l: "l < length (pm_layers pm)"
    and cols: "mx_cols (fs_hidden st) = mi_hidden_size info" and rows: "command_size_ok (mx_rows (fs_hidden st))"
  defines "st' \<equiv> attended (fc_fns cfg) (merge_layer lls (int l) (pm_layers pm ! l)) l st"
  shows "meaning draw (load_weights pm) (attention_calls cfg l st k) (4 * l + 1) = meaning draw (load_weights pm) (k st') (4 * l + 3)"
    and "mx_cols (fs_hidden st') = mi_hidden_size info" "mx_rows (fs_hidden st') = mx_rows (fs_hidden st)"
proof -
  let ?p = "pm_layers pm ! l" and ?mf = "fc_fns cfg"
  let ?P = "merge_layer lls (int l) ?p" and ?ws = "[pl_q ?p, pl_k ?p, pl_v ?p]"
  obtain kd where "plain_layer_fits (mi_hidden_size info) kd (mi_intermediate_size info) ?p" using serving_shapes [OF fit l] by blast
  note shapes = this [unfolded plain_layer_fits_def has_shape_def]
  note mf = fns_fitD [OF serving_fns [OF fit l]]
  define x where "x = mf_input_norm ?mf l (fs_hidden st)"
  define st1 where "st1 = st\<lparr>fs_residual := fs_hidden st, fs_hidden := x\<rparr>"
  have x: "mx_cols x = mi_hidden_size info" "mx_rows x = mx_rows (fs_hidden st)" by (simp_all add: x_def mf cols)
  have st1: "input_layernorm ?mf l st = st1" "fs_hidden st1 = x" by (simp_all add: input_layernorm_eq st1_def x_def)
  have three: "3 = length (modules_of lls (int l) qkv_names)" by (simp add: qkv_names_def)
  have qkv: "raising (fused_deltas 3 (dl_qkv (fc_layers cfg ! l)) x) (\<lambda>deltas.
      raising (and_then (get_outputs (fc_qkv_dims cfg) (Tensor (gemm (mx_vcat ?ws) x))) (\<lambda>raw. add_deltas raw deltas)) c) =
      c [gemm (pl_q ?P) x, gemm (pl_k ?P) x, gemm (pl_v ?P) x]" for c :: "_ \<Rightarrow> 'b worker_calls"
    unfolding serving_groups [OF fit l] serving_dims [OF fit l] three
    using serving_modules(1) [OF fit l] shapes
    by (subst fused_group) (simp_all add: serving_dims [OF fit l] x qkv_names_def merge_layer_def)
  obtain att cache where att: "mf_attention ?mf l (fs_cache st) (fs_seq_len st) (gemm (pl_q ?P) x) (gemm (pl_k ?P) x) (gemm (pl_v ?P) x) = (att, cache)"
    by (cases "mf_attention ?mf l (fs_cache st) (fs_seq_len st) (gemm (pl_q ?P) x) (gemm (pl_k ?P) x) (gemm (pl_v ?P) x)")
  have attend: "flash_attention ?mf l [gemm (pl_q ?P) x, gemm (pl_k ?P) x, gemm (pl_v ?P) x] st1 = Inr (att, st1\<lparr>fs_cache := cache\<rparr>)"
    using att by (simp add: flash_attention_def st1_def)
  have att_shape: "mx_rows att = mx_rows x" "mx_cols att = mi_hidden_size info" using mf(7) [OF att] by simp_all
  define h1 where "h1 = mx_plus (fs_hidden st) (add_bias (pl_o_bias ?p) (gemm (pl_o ?P) att))"
  have "attention_block ?mf ?P l (fs_seq_len st) (fs_hidden st, fs_cache st) = (h1, cache)"
    using att by (simp add: attention_block_def Let_def h1_def merge_layer_def flip: x_def)
  then have st': "st' = st1\<lparr>fs_cache := cache, fs_hidden := h1\<rparr>" by (simp add: st'_def attended_def st1_def)
  have o_proj: "raising (and_then (get_outputs [fc_hidden_size cfg] (Tensor (add_bias (pl_o_bias ?p) (gemm (pl_o ?p) att))))
      (\<lambda>raw. remote_all (dl_o_proj (fc_layers cfg ! l)) att (hd raw) (fs_hidden st))) c = c h1" for c :: "_ \<Rightarrow> 'b worker_calls"
    using remote_projection [of "mi_hidden_size info" rank "get_lora_module lls (int l) ''self_attn.o_proj''" "pl_o ?p" att "fs_hidden st"]
      serving_modules(3) [OF fit l] shapes att_shape x(2) cols
    by (simp add: h1_def serving_groups [OF fit l] serving_dims [OF fit l] merge_layer_def)
  have good: "good_input (load_weights pm) (Op_qkv_fused l) (Hidden x)" "good_input (load_weights pm) (Op_o_proj l) (Hidden att)"
    using shapes rows by (simp_all add: good_input_simps loaded_layer [OF l] x att_shape)
  have fields: "fs_residual (st1\<lparr>fs_cache := cache\<rparr>) = fs_hidden st" by (simp add: st1_def)
  show "meaning draw (load_weights pm) (attention_calls cfg l st k) (4 * l + 1) = meaning draw (load_weights pm) (k st') (4 * l + 3)"
    by (simp only: attention_calls_def Let_def st1 fields meaning_layer_call [OF l] good base_op_simps loaded_layer [OF l] add_no_bias
      hidden_of.simps qkv attend raising_Inr prod.case o_proj st')
  show "mx_cols (fs_hidden st') = mi_hidden_size info" "mx_rows (fs_hidden st') = mx_rows (fs_hidden st)" by (simp_all add: st' h1_def cols)
qed

lemma mlp_calls_pass:
  assumes fit: "serving_fits info rank lls pm cfg" and l: "l < length (pm_layers pm)"
    and cols: "mx_cols (fs_hidden st) = mi_hidden_size info" and rows: "command_size_ok (mx_rows (fs_hidden st))"
  defines "st' \<equiv> fed_forward (fc_fns cfg) (merge_layer lls (int l) (pm_layers pm ! l)) l st"
  shows "meaning draw (load_weights pm) (mlp_calls cfg l st k) (4 * l + 3) = meaning draw (load_weights pm) (k st') (4 * l + 5)"
    and "mx_cols (fs_hidden st') = mi_hidden_size info" "mx_rows (fs_hidden st') = mx_rows (fs_hidden st)"
proof -
  let ?p = "pm_layers pm ! l" and ?mf = "fc_fns cfg"
  let ?P = "merge_layer lls (int l) ?p" and ?us = "[pl_gate ?p, pl_up ?p]"
  obtain kd where "plain_layer_fits (mi_hidden_size info) kd (mi_intermediate_size info) ?p" using serving_shapes [OF fit l] by blast
  note shapes = this [unfolded plain_layer_fits_def has_shape_def]
  note mf = fns_fitD [OF serving_fns [OF fit l]]
  define x where "x = mf_post_norm ?mf l (fs_hidden st)"
  define st1 where "st1 = st\<lparr>fs_mlp_residual := fs_hidden st, fs_hidden := x\<rparr>"
  have x: "mx_cols x = mi_hidden_size info" "mx_rows x = mx_rows (fs_hidden st)" by (simp_all add: x_def mf cols)
  have st1: "post_attention_layernorm ?mf l st = st1" "fs_hidden st1 = x" "fs_mlp_residual st1 = fs_hidden st"
    by (simp_all add: post_attention_layernorm_eq st1_def x_def)
  have two: "2 = length (modules_of lls (int l) gate_up_names)" by (simp add: gate_up_names_def)
  have gate_up: "raising (fused_deltas 2 (dl_gate_up (fc_layers cfg ! l)) x) (\<lambda>deltas.
      raising (and_then (get_outputs (fc_gate_up_dims cfg) (Tensor (gemm (mx_vcat ?us) x))) (\<lambda>raw. add_deltas raw deltas)) c) =
      c [gemm (pl_gate ?P) x, gemm (pl_up ?P) x]" for c :: "_ \<Rightarrow> 'b worker_calls"
    unfolding serving_groups [OF fit l] serving_dims [OF fit l] two
    using serving_modules(2) [OF fit l] shapes
    by (subst fused_group) (simp_all add: serving_dims [OF fit l] x gate_up_names_def merge_layer_def)
  define z where "z = mx_prod (mx_map (mf_silu ?mf) (gemm (pl_gate ?P) x)) (gemm (pl_up ?P) x)"
  have act: "mlp_activation (mf_silu ?mf) [gemm (pl_gate ?P) x, gemm (pl_up ?P) x] = Inr z"
    using shapes by (simp add: mlp_activation_def mx_times_prod z_def merge_layer_def)
  have z: "mx_rows z = mx_rows x" "mx_cols z = mi_intermediate_size info" using shapes by (simp_all add: z_def merge_layer_def)
  define h2 where "h2 = mx_plus (fs_hidden st) (add_bias (pl_down_bias ?p) (gemm (pl_down ?P) z))"
  have "mlp_block ?mf ?P l (fs_hidden st) = h2"
    by (simp add: mlp_block_def Let_def h2_def z_def merge_layer_def flip: x_def)
  then have st': "st' = st1\<lparr>fs_hidden := h2\<rparr>" by (simp add: st'_def fed_forward_def st1_def)
  have down: "raising (and_then (get_outputs [fc_hidden_size cfg] (Tensor (add_bias (pl_down_bias ?p) (gemm (pl_down ?p) z))))
      (\<lambda>raw. remote_all (dl_down_proj (fc_layers cfg ! l)) z (hd raw) (fs_hidden st))) c = c h2" for c :: "_ \<Rightarrow> 'b worker_calls"
    using remote_projection [of "mi_intermediate_size info" rank "get_lora_module lls (int l) ''mlp.down_proj''" "pl_down ?p" z "fs_hidden st"]
      serving_modules(4) [OF fit l] shapes z x(2) cols
    by (simp add: h2_def serving_groups [OF fit l] serving_dims [OF fit l] merge_layer_def)
  have good: "good_input (load_weights pm) (Op_gate_up_fused l) (Hidden x)" "good_input (load_weights pm) (Op_down_proj l) (Hidden z)"
    using shapes rows by (simp_all add: good_input_simps loaded_layer [OF l] x z)
  show "meaning draw (load_weights pm) (mlp_calls cfg l st k) (4 * l + 3) = meaning draw (load_weights pm) (k st') (4 * l + 5)"
    by (simp only: mlp_calls_def Let_def st1 meaning_layer_call [OF l] good base_op_simps loaded_layer [OF l] add_no_bias
      hidden_of.simps gate_up act raising_Inr down st')
  show "mx_cols (fs_hidden st') = mi_hidden_size info" "mx_rows (fs_hidden st') = mx_rows (fs_hidden st)" by (simp_all add: st' h2_def cols)
qed

section \<open>Layers, tokens, requests\<close>

definition decode_of :: "'c forward_state \<Rightarrow> 'c decode_state" where
  "decode_of st =
     \<lparr>ds_input_ids = fs_input_ids st, ds_chunks = fs_chunks st, ds_generated = fs_generated st,
      ds_seq_len = fs_seq_len st, ds_cache = fs_cache st\<rparr>"

fun layers_passed :: "'c model_fns \<Rightarrow> nat \<Rightarrow> plain_layer list \<Rightarrow> 'c forward_state \<Rightarrow> 'c forward_state" where
  "layers_passed mf l [] st = st"
| "layers_passed mf l (p # ps) st = layers_passed mf (l + 1) ps (fed_forward mf p l (attended mf p l st))"

lemma layer_passed:
  "decode_of (fed_forward mf p l (attended mf p l st)) = (decode_of st)\<lparr>ds_cache := snd (attention_block mf p l (fs_seq_len st) (fs_hidden st, fs_cache st))\<rparr>"
  "(fs_hidden (fed_forward mf p l (attended mf p l st)), fs_cache (fed_forward mf p l (attended mf p l st))) =
     plain_layer_pass mf p l (fs_seq_len st) (fs_hidden st, fs_cache st)"
  "fs_seq_len (fed_forward mf p l (attended mf p l st)) = fs_seq_len st"
  by (simp_all add: fed_forward_def attended_def decode_of_def plain_layer_pass_def apfst_def map_prod_def split: prod.split)

lemma layers_passed:
  "decode_of (layers_passed mf l ps st) =
     (decode_of st)\<lparr>ds_cache := snd (plain_layers_pass mf l ps (fs_seq_len st) (fs_hidden st, fs_cache st))\<rparr>"
  "fs_hidden (layers_passed mf l ps st) = fst (plain_layers_pass mf l ps (fs_seq_len st) (fs_hidden st, fs_cache st))"
proof (induction ps arbitrary: l st)
  case Nil
  {
    case 1 show ?case by (simp add: decode_of_def)
  next
    case 2 show ?case by simp
  }
next
  case (Cons p ps)
  {
    case 1 show ?case using Cons.IH(1) [of "l + 1" "fed_forward mf p l (attended mf p l st)"] by (simp add: layer_passed)
  next
    case 2 show ?case using Cons.IH(2) [of "l + 1" "fed_forward mf p l (attended mf p l st)"] by (simp add: layer_passed)
  }
qed

abbreviation merged_layers :: "lora_layers \<Rightarrow> plain_model \<Rightarrow> nat \<Rightarrow> nat \<Rightarrow> plain_layer list" where
  "merged_layers lls pm l n \<equiv> map (\<lambda>i. merge_layer lls (int i) (pm_layers pm ! i)) [l..<l + n]"

lemma layers_calls_pass:
  assumes fit: "serving_fits info rank lls pm cfg" and "l + n \<le> length (pm_layers pm)"
    and "mx_cols (fs_hidden st) = mi_hidden_size info" "command_size_ok (mx_rows (fs_hidden st))"
  defines "st' \<equiv> layers_passed (fc_fns cfg) l (merged_layers lls pm l n) st"
  shows "meaning draw (load_weights pm) (layers_calls cfg l n st k) (4 * l + 1) =
      meaning draw (load_weights pm) (k st') (4 * (l + n) + 1) \<and>
      mx_cols (fs_hidden st') = mi_hidden_size info \<and> mx_rows (fs_hidden st') = mx_rows (fs_hidden st)"
  using assms(2-4) unfolding st'_def
proof (induction n arbitrary: l st)
  case (Suc n)
  let ?p = "merge_layer lls (int l) (pm_layers pm ! l)"
  let ?st1 = "attended (fc_fns cfg) ?p l st" and ?st2 = "fed_forward (fc_fns cfg) ?p l (attended (fc_fns cfg) ?p l st)"
  have l: "l < length (pm_layers pm)" using Suc.prems(1) by simp
  note att = attention_calls_pass [OF fit l Suc.prems(2,3)]
  have size: "command_size_ok (mx_rows (fs_hidden ?st1))" using att(3) Suc.prems(3) by simp
  note mlp = mlp_calls_pass [OF fit l att(2) size]
  have "meaning draw (load_weights pm) (layers_calls cfg l (Suc n) st k) (4 * l + 1) =
      meaning draw (load_weights pm) (layers_calls cfg (l + 1) n ?st2 k) (4 * (l + 1) + 1)"
    by (simp only: layers_calls.simps layer_calls_def att mlp) (simp add: algebra_simps)
  moreover have "merged_layers lls pm l (Suc n) = ?p # merged_layers lls pm (l + 1) n"
    by (simp add: upt_conv_Cons del: upt_Suc)
  ultimately show ?case
    using Suc.IH [of "l + 1" ?st2] Suc.prems(1,3) mlp(2,3) att(3) by (simp del: upt_Suc)
qed simp

lemma narrow_last: "last_row (last_row h) = last_row h"
  by (auto simp: last_row_def narrow_rows_def intro!: mk_matrix_cong)

definition token_passed :: "'c model_fns \<Rightarrow> plain_model \<Rightarrow> 'c forward_state \<Rightarrow> 'c forward_state" where
  "token_passed mf pm st =
     (let st1 = layers_passed mf 0 (pm_layers pm) (st\<lparr>fs_hidden := embed_tokens (pm_embed pm) (fs_input_ids st)\<rparr>);
          st2 = final_layernorm mf (st1\<lparr>fs_seq_len := fs_seq_len st1 + int (length (fs_input_ids st1))\<rparr>)
      in take_token (argmax_row (gemm (pm_lm_head pm) (last_row (fs_hidden st2))) 0) st2)"

lemma token_passed_plain: "decode_of (token_passed mf pm st) = plain_token mf pm (decode_of st)"
proof -
  let ?st0 = "st\<lparr>fs_hidden := embed_tokens (pm_embed pm) (fs_input_ids st)\<rparr>"
  define st1 where "st1 = layers_passed mf 0 (pm_layers pm) ?st0"
  obtain h c where pass: "plain_layers_pass mf 0 (pm_layers pm) (fs_seq_len st)
      (embed_tokens (pm_embed pm) (fs_input_ids st), fs_cache st) = (h, c)" by fastforce
  have st1: "fs_hidden st1 = h" "decode_of st1 = (decode_of st)\<lparr>ds_cache := c\<rparr>"
    using layers_passed [of mf 0 "pm_layers pm" ?st0] pass by (simp_all add: st1_def decode_of_def)
  then have fields: "fs_input_ids st1 = fs_input_ids st" "fs_chunks st1 = fs_chunks st" "fs_generated st1 = fs_generated st"
    "fs_seq_len st1 = fs_seq_len st" "fs_cache st1 = c"
    by (simp_all add: decode_of_def)
  show ?thesis
    unfolding token_passed_def st1_def [symmetric]
    by (simp add: plain_token_def Let_def decode_of_def pass final_layernorm_def take_token_def fields st1(1) narrow_last split: list.split)
qed

lemma op_at_ends: "op_at L 0 = Op_embed" "op_at L (4 * L + 1) = Op_lm_head"
  by (simp_all add: op_at_def)

lemma final_layernorm_shape:
  "fns_fit h mf \<Longrightarrow> mx_cols (fs_hidden (final_layernorm mf st)) = mx_cols (fs_hidden st)"
  "fns_fit h mf \<Longrightarrow> command_size_ok (mx_rows (fs_hidden st)) \<Longrightarrow> command_size_ok (mx_rows (fs_hidden (final_layernorm mf st)))"
  by (simp_all add: final_layernorm_def Let_def fns_fitD command_size_ok_def)

text \<open>The tokens and chunks of a request have admissible sizes, and keep them.\<close>

definition inputs_ok :: "'c forward_state \<Rightarrow> bool" where
  "inputs_ok st \<longleftrightarrow> command_size_ok (length (fs_input_ids st)) \<and> list_all (command_size_ok \<circ> length) (fs_chunks st)"

lemma inputs_ok_plain:
  "inputs_ok st \<longleftrightarrow> command_size_ok (length (ds_input_ids (decode_of st))) \<and> list_all (command_size_ok \<circ> length) (ds_chunks (decode_of st))"
  by (simp add: inputs_ok_def decode_of_def)

lemma inputs_ok_passed: "inputs_ok st \<Longrightarrow> inputs_ok (token_passed mf pm st)"
  unfolding inputs_ok_plain token_passed_plain
  by (auto simp: plain_token_def Let_def command_size_ok_def split: prod.split list.split)

lemma token_calls_pass:
  assumes fit: "serving_fits info rank lls pm cfg" and inputs: "inputs_ok st"
  shows "meaning draw (load_weights pm) (token_calls cfg st k) 0 =
    meaning draw (load_weights pm) (k (token_passed (fc_fns cfg) (merge_adapter lls pm) st)) 0"
proof -
  let ?L = "length (pm_layers pm)" and ?mf = "fc_fns cfg" and ?w = "load_weights pm"
  obtain qdims where q: "qkv_dims info = Inr qdims" using fit by (auto simp: serving_fits_def Let_def split: sum.splits)
  have fns: "fns_fit (mi_hidden_size info) ?mf" and heads: "mx_cols (pm_embed pm) = mi_hidden_size info"
    "mx_cols (pm_lm_head pm) = mi_hidden_size info" "\<not> sp_do_sample (fc_sampling cfg)"
    and build: "adapter_fits info rank lls ?L" "build_lora_model info ?L lls = Inr (fc_layers cfg)"
    using fit q by (simp_all add: serving_fits_def Let_def)
  have len: "length (fc_layers cfg) = ?L" using build_lora_model_of [OF build(1) q] build(2) by (auto simp: model_of_def)
  define st0 where "st0 = st\<lparr>fs_hidden := embed_tokens (pm_embed pm) (fs_input_ids st)\<rparr>"
  define st1 where "st1 = layers_passed ?mf 0 (merged_layers lls pm 0 ?L) st0"
  define st2 where "st2 = final_layernorm ?mf (st1\<lparr>fs_seq_len := fs_seq_len st1 + int (length (fs_input_ids st1))\<rparr>)"
  have cols0: "mx_cols (fs_hidden st0) = mi_hidden_size info" by (simp add: st0_def embed_tokens_def heads)
  have size: "command_size_ok (length (fs_input_ids st))" using inputs by (simp add: inputs_ok_def)
  then have size0: "command_size_ok (mx_rows (fs_hidden st0))" by (simp add: st0_def embed_tokens_def)
  note pass = layers_calls_pass [OF fit _ cols0 size0, of 0 ?L draw, folded st1_def]
  have shape1: "mx_cols (fs_hidden st1) = mi_hidden_size info \<and> mx_rows (fs_hidden st1) = mx_rows (fs_hidden st0)"
    by (rule conjunct2 [OF pass]) simp
  have layers: "meaning draw ?w (layers_calls cfg 0 ?L st0 c) 1 = meaning draw ?w (c st1) (4 * ?L + 1)" for c :: "_ \<Rightarrow> 'b worker_calls"
    using conjunct1 [OF pass, of c] by simp
  have cols: "mx_cols (fs_hidden st2) = mx_cols (pm_lm_head pm)"
    by (simp add: st2_def final_layernorm_shape [OF fns] heads shape1)
  have size2: "command_size_ok (mx_rows (fs_hidden st2))"
    using size0 by (simp add: st2_def final_layernorm_shape [OF fns] shape1)
  let ?t = "argmax_row (gemm (pm_lm_head pm) (last_row (fs_hidden st2))) 0"
  have weights: "bw_embed ?w = pm_embed pm" "bw_lm_head ?w = pm_lm_head pm" by (simp_all add: load_weights_def)
  have first: "meaning draw ?w (Call Op_embed (Token_ids (fs_input_ids st)) c) 0 =
      meaning draw ?w (c (Tensor (embed_tokens (pm_embed pm) (fs_input_ids st)))) 1" for c :: "_ \<Rightarrow> 'b worker_calls"
    using meaning_call [of Op_embed ?w 0 "Token_ids (fs_input_ids st)" 1 draw c] size by (simp add: op_at_ends good_input_simps ops_per_token_def base_op_simps weights)
  have final: "meaning draw ?w (Call Op_lm_head (Last_hidden (fc_sampling cfg) (fs_hidden st2)) c) (4 * ?L + 1) =
      meaning draw ?w (c (Next_token ?t)) 0" for c :: "_ \<Rightarrow> 'b worker_calls"
    using heads cols size2 op_at_ends(2) [of ?L]
    by (simp add: meaning_def in_phase_call good_input_simps base_op_greedy weights ops_per_token_def algebra_simps)
  have "meaning draw ?w (token_calls cfg st k) 0 = meaning draw ?w (k (take_token ?t st2)) 0"
    by (simp only: token_calls_def first get_embeddings_def len final get_next_token_def Let_def agg_output.case raising_Inr layers
      flip: st0_def st2_def)
  also have "take_token ?t st2 = token_passed ?mf (merge_adapter lls pm) st"
    by (simp add: token_passed_def merge_adapter_def st2_def st1_def st0_def Let_def)
  finally show ?thesis .
qed

lemma generate_calls_pass:
  assumes fit: "serving_fits info rank lls pm cfg" and "inputs_ok st"
  shows "meaning draw (load_weights pm) (generate_calls cfg max_tokens eos n st) 0 =
    (Inr (plain_generate (fc_fns cfg) (merge_adapter lls pm) max_tokens eos n (decode_of st)), True)"
using assms(2)
proof (induction n arbitrary: st)
  case 0
  show ?case by (simp add: meaning_def decode_of_def)
next
  case (Suc n)
  let ?st = "token_passed (fc_fns cfg) (merge_adapter lls pm) st"
  have fields: "fs_generated ?st = ds_generated (decode_of ?st)" by (simp add: decode_of_def)
  have unfold: "meaning draw (load_weights pm) (generate_calls cfg max_tokens eos (Suc n) st) 0 =
      meaning draw (load_weights pm) (if generation_done max_tokens eos ?st then Return (Inr (fs_generated ?st))
        else generate_calls cfg max_tokens eos n ?st) 0"
    by (simp only: generate_calls.simps token_calls_pass [OF fit Suc.prems])
  show ?case
    unfolding unfold using Suc.IH [OF inputs_ok_passed [OF Suc.prems]]
    by (simp add: generation_done_def fields token_passed_plain Let_def) (simp add: meaning_def)
qed

text \<open>A request means what the merged model generates, and its calls follow the barrier.\<close>

lemma serve_calls_merged:
  assumes "serving_fits info rank lls pm cfg" "inputs_ok st"
  shows "run_calls (base_op draw (load_weights pm)) (serve_calls cfg max_tokens eos st) =
      Inr (plain_generate (fc_fns cfg) (merge_adapter lls pm) max_tokens eos (passes max_tokens st) (decode_of st))"
    and "in_phase (base_op draw (load_weights pm)) (good_input (load_weights pm)) (length (pm_layers pm))
      (serve_calls cfg max_tokens eos st) 0"
  using generate_calls_pass [OF assms] by (simp_all add: serve_calls_def meaning_def)

text \<open>The bound on the passes is no restriction: with more of them the result is the same.\<close>

lemma plain_token_progress:
  "ds_chunks ds = c # cs \<Longrightarrow> ds_chunks (plain_token mf pm ds) = cs \<and> ds_generated (plain_token mf pm ds) = ds_generated ds"
  "ds_chunks ds = [] \<Longrightarrow>
     ds_chunks (plain_token mf pm ds) = [] \<and> length (ds_generated (plain_token mf pm ds)) = Suc (length (ds_generated ds))"
  by (simp_all add: plain_token_def Let_def split: prod.split)

lemma plain_generate_enough:
  assumes "length (ds_chunks ds) + max 1 (max_tokens - length (ds_generated ds)) \<le> n"
  shows "plain_generate mf pm max_tokens eos (n + k) ds = plain_generate mf pm max_tokens eos n ds"
  using assms
proof (induction n arbitrary: ds)
  case (Suc n)
  let ?ds = "plain_token mf pm ds"
  show ?case
  proof (cases "max_tokens \<le> length (ds_generated ?ds)")
    case False
    have "length (ds_chunks ?ds) + max 1 (max_tokens - length (ds_generated ?ds)) \<le> n"
    proof (cases "ds_chunks ds")
      case Nil
      then show ?thesis using Suc.prems False plain_token_progress(2) [OF Nil, of mf pm] by simp
    next
      case (Cons c cs)
      then show ?thesis using Suc.prems plain_token_progress(1) [OF Cons, of mf pm] by simp
    qed
    from Suc.IH [OF this] show ?thesis by (simp add: Let_def)
  qed (simp add: Let_def)
qed simp

lemma serve_calls_enough:
  assumes "serving_fits info rank lls pm cfg" "inputs_ok st"
  shows "run_calls (base_op draw (load_weights pm)) (generate_calls cfg max_tokens eos (passes max_tokens st + k) st) =
    run_calls (base_op draw (load_weights pm)) (serve_calls cfg max_tokens eos st)"
proof -
  have "length (ds_chunks (decode_of st)) + max 1 (max_tokens - length (ds_generated (decode_of st))) \<le> passes max_tokens st"
    by (auto simp: passes_def decode_of_def)
  from plain_generate_enough [OF this] show ?thesis
    using generate_calls_pass [OF assms] by (simp add: serve_calls_def meaning_def)
qed

end
