(* ===== verification/Serving.thy ===== *)
theory Serving
  imports Merged_Model
begin

text \<open>
  The barrier with the calls of the workers' requests and the kernels of the aggregator:
  runs in which workers serve requests, and the run of one worker alone, which ends with
  an answer.
\<close>

section \<open>Runs that serve requests\<close>

text \<open>
  The requests of workers whose adapters fit the model, greedily decoded.
\<close>

definition fitting_request :: "'c model_fns \<Rightarrow> plain_model \<Rightarrow> (int list) worker_calls \<Rightarrow> bool" where
  "fitting_request mf pm req \<longleftrightarrow>
     (\<exists>info rank lls cfg max_tokens eos st. serving_fits info rank lls pm cfg \<and> fc_fns cfg = mf \<and>
        inputs_ok (st :: 'c forward_state) \<and> req = serve_calls cfg max_tokens eos st)"

definition serving_event ::
  "'c model_fns \<Rightarrow> plain_model \<Rightarrow> nat \<Rightarrow> (agg_input, agg_output, py_error + int list) barrier_event \<Rightarrow> bool" where
  "serving_event mf pm n ev =
     (case ev of Claim_slot sid wid req \<Rightarrow> sid < n \<and> fitting_request mf pm req | _ \<Rightarrow> True)"

definition serving_run ::
  "'c model_fns \<Rightarrow> plain_model \<Rightarrow> (agg_input, agg_output) batch_fun barrier_config \<Rightarrow>
   (agg_input, agg_output, py_error + int list) barrier_event list \<Rightarrow> bool" where
  "serving_run mf pm cfg evs = list_all (serving_event mf pm (bc_num_slots cfg)) evs"

lemma fitting_in_phase:
  "fitting_request mf pm req \<Longrightarrow>
     in_phase (base_op draw (load_weights pm)) (good_input (load_weights pm)) (length (pm_layers pm)) req 0"
  by (auto simp: fitting_request_def serve_calls_merged)

lemma serving_run_phased:
  assumes "bc_num_layers cfg = length (pm_layers pm)" "serving_run mf pm cfg evs"
  shows "list_all (phased_event (base_op draw (load_weights pm)) (good_input (load_weights pm)) (bc_num_layers cfg) (bc_num_slots cfg)) evs"
proof -
  have "phased_event (base_op draw (load_weights pm)) (good_input (load_weights pm)) (bc_num_layers cfg) (bc_num_slots cfg) ev"
    if "serving_event mf pm (bc_num_slots cfg) ev" for ev
    using that fitting_in_phase [of mf pm _ draw] by (cases ev) (auto simp: serving_event_def phased_event_def assms(1))
  then show ?thesis using assms(2) by (simp add: serving_run_def list_all_iff)
qed

text \<open>
  Slots are used again only when nothing of the last owner is left: because the run is
  orderly, or because that is so at every claim.
\<close>

definition safe_reuse :: "('i, 'o) batch_fun barrier_config \<Rightarrow> ('i, 'o, 'r) barrier_event list \<Rightarrow> ('i, 'o, 'r) barrier \<Rightarrow> bool" where
  "safe_reuse cfg evs b \<longleftrightarrow> orderly cfg evs \<or> settled_claims cfg evs b"

lemma safe_reuse_settled:
  assumes "bc_execute cfg = execute_batch draw (load_weights pm)" "bc_num_slots cfg \<le> 128" "bc_num_layers cfg = length (pm_layers pm)"
    and "serving_run mf pm cfg evs" "safe_reuse cfg evs (barrier_init input out)"
  shows "settled_claims cfg evs (barrier_init input out)"
  using assms(5) base_model.orderly_settled [OF assms(1,2) barrier_init_ok serving_run_phased [OF assms(3,4)] _ barrier_init_free]
  by (auto simp: safe_reuse_def)

section \<open>A worker alone\<close>

text \<open>The calls of a request, when they are answered by a function.\<close>

primrec num_calls :: "(agg_op \<Rightarrow> 'i \<Rightarrow> 'o) \<Rightarrow> ('i, 'o, 'r) calls \<Rightarrow> nat" where
  "num_calls f (Return r) = 0"
| "num_calls f (Call op i k) = Suc ((num_calls f \<circ> k) (f op i))"

text \<open>
  The worker enters, its slot becomes active, each call takes a round of the loop (five
  steps, for an operation and a token boundary); it leaves, and gives the slot back when the
  loop has dropped it.
\<close>

definition solo_enter :: "nat \<Rightarrow> int \<Rightarrow> ('i, 'o, 'r) calls \<Rightarrow> ('i, 'o, 'r) barrier_event list" where
  "solo_enter sid wid req = [Claim_slot sid wid req, Join sid, Agg_loop, Agg_loop, Agg_loop, Notice sid]"

definition solo_round :: "nat \<Rightarrow> ('i, 'o, 'r) barrier_event list" where
  "solo_round sid =
     [Read_epoch sid, Submit_command sid, Signal_ready sid, Agg_loop, Agg_loop, Agg_loop, Agg_loop, Agg_loop, Read_output sid]"

definition solo_events :: "nat \<Rightarrow> int \<Rightarrow> ('i, 'o, 'r) calls \<Rightarrow> nat \<Rightarrow> ('i, 'o, 'r) barrier_event list" where
  "solo_events sid wid req n =
     solo_enter sid wid req @ concat (replicate n (solo_round sid)) @ [Finish sid, Check_leaves, Release sid]"

definition solo_at :: "nat \<Rightarrow> ('i, 'o, 'r) calls \<Rightarrow> ('i, 'o, 'r) calls \<Rightarrow> ('i, 'o, 'r) barrier \<Rightarrow> bool" where
  "solo_at sid req rest b \<longleftrightarrow>
     br_active b = {sid} \<and> br_shared b = {sid} \<and> br_joins b = {} \<and> br_leaves b = {} \<and> br_ready b = {} \<and> br_ring b = [] \<and>
     (\<exists>k. br_pc b = Wait_slots k) \<and> br_slot b sid = At req rest \<and> br_owner b sid = br_worker b sid \<and> br_done b = []"

lemmas barrier_step_defs = barrier_step_def barrier_claim_def signal_slot_join_def notice_active_def read_epoch_def submit_command_def
  signal_slot_ready_def read_output_def finish_slot_def leave_barrier_def await_left_def
  barrier_release_def set_stage_def

lemma solo_enter_at: "solo_at sid req req (barrier_run cfg (solo_enter sid wid req) (barrier_init input out))"
  by (simp add: barrier_run_def solo_enter_def barrier_init_def barrier_step_defs agg_loop_step_def solo_at_def)

text \<open>Three more steps bring the loop to the next operation or over the boundary of the token.\<close>

lemma solo_settles:
  assumes "br_active b = {sid}" "br_shared b = {sid}" "br_joins b = {}" "br_leaves b = {}" "br_ready b = {}" "br_pc b = next_pc L k"
  obtains n where "agg_loop_step cfg (agg_loop_step cfg (agg_loop_step cfg b)) = b\<lparr>br_pc := Wait_slots n\<rparr>"
proof (cases "k + 1 < ops_per_token L")
  case True
  then have "agg_loop_step cfg b = b" "b\<lparr>br_pc := Wait_slots (k + 1)\<rparr> = b"
    using assms by (simp_all add: next_pc_def agg_loop_step_def)
  then show ?thesis using that [of "k + 1"] by simp
next
  case False
  then have "agg_loop_step cfg (agg_loop_step cfg (agg_loop_step cfg b)) = b\<lparr>br_pc := Wait_slots 0\<rparr>"
    using assms by (cases b) (simp add: next_pc_def agg_loop_step_def)
  then show ?thesis by (rule that)
qed

lemma solo_round_at:
  assumes "solo_at sid req (Call op i k) b" "2 \<le> bc_capacity cfg" "bc_execute cfg op [i] \<noteq> []"
  shows "solo_at sid req (k (hd (bc_execute cfg op [i]))) (barrier_run cfg (solo_round sid) b)"
proof -
  obtain n where b: "br_active b = {sid}" "br_shared b = {sid}" "br_joins b = {}" "br_leaves b = {}" "br_ready b = {}"
    "br_ring b = []" "br_pc b = Wait_slots n" "br_slot b sid = At req (Call op i k)" "br_owner b sid = br_worker b sid" "br_done b = []"
    using assms(1) by (auto simp: solo_at_def)
  let ?cmd = "\<lparr>cmd_slot = sid, cmd_worker = br_worker b sid, cmd_op = op\<rparr>"
  obtain y ys where y: "bc_execute cfg op [i] = y # ys" using assms(3) by (cases "bc_execute cfg op [i]") auto
  define b1 where "b1 = b\<lparr>br_input := (br_input b)(sid := i), br_ring := [?cmd], br_ready := {sid},
    br_slot := (br_slot b)(sid := Waiting_epoch (br_epoch b) req (Call op i k))\<rparr>"
  have asked: "barrier_step cfg (Signal_ready sid) (barrier_step cfg (Submit_command sid) (barrier_step cfg (Read_epoch sid) b)) = b1"
    using assms(2) by (simp add: barrier_step_defs b b1_def)
  have "fetch_commands {sid} 1 max_drain [?cmd] = Some ([?cmd], [])" by (simp add: max_drain_def eval_nat_numeral)
  then have fetched: "agg_loop_step cfg b1 = b1\<lparr>br_ring := [], br_pc := Execute n [?cmd]\<rparr>"
    by (simp add: agg_loop_step_def b1_def b)
  define b2 where "b2 = b1\<lparr>br_ring := [], br_output := (br_output b)(sid := y), br_ready := {}, br_epoch := br_epoch b + 1,
    br_pc := next_pc (bc_num_layers cfg) n\<rparr>"
  have "agg_loop_step cfg (b1\<lparr>br_ring := [], br_pc := Execute n [?cmd]\<rparr>) = b2"
    by (simp add: y agg_loop_step_def owners_verified_def signal_done_def execute_commands_def scatter_def b1_def b2_def b)
  then have two: "agg_loop_step cfg (agg_loop_step cfg b1) = b2" using fetched by simp
  obtain m where three: "agg_loop_step cfg (agg_loop_step cfg (agg_loop_step cfg b2)) = b2\<lparr>br_pc := Wait_slots m\<rparr>"
    by (rule solo_settles [of b2 sid "bc_num_layers cfg" n]) (simp_all add: b2_def b1_def b)
  have "barrier_run cfg (solo_round sid) b = read_output sid (b2\<lparr>br_pc := Wait_slots m\<rparr>)"
    using asked two three by (simp add: barrier_run_def solo_round_def barrier_step_def)
  then show ?thesis by (simp add: solo_at_def read_output_def set_stage_def b2_def b1_def b y)
qed

lemma barrier_run_append: "barrier_run cfg (xs @ ys) b = barrier_run cfg ys (barrier_run cfg xs b)"
  by (simp add: barrier_run_def)

lemma execute_batch_single: "execute_batch draw w op [i] \<noteq> []"
  by (cases op)
    (simp_all add: execute_batch_def batched_embed_def batched_linear_def batched_lm_head_def next_tokens_def)

text \<open>The whole run, for kernels that answer a batch of one.\<close>

lemma solo_rounds_at:
  assumes "2 \<le> bc_capacity cfg" "\<And>op i. bc_execute cfg op [i] \<noteq> []" "\<And>op i. f op i = hd (bc_execute cfg op [i])"
    and "solo_at sid req rest b"
  shows "solo_at sid req (Return (run_calls f rest)) (barrier_run cfg (concat (replicate (num_calls f rest) (solo_round sid))) b)"
  using assms(4)
proof (induction rest arbitrary: b)
  case (Return r)
  then show ?case by (simp add: barrier_run_def)
next
  case (Call op i k)
  have "solo_at sid req (k (f op i)) (barrier_run cfg (solo_round sid) b)"
    using solo_round_at [OF Call.prems assms(1,2)] by (simp add: assms(3))
  from Call.IH [OF _ this] show ?case by (simp add: barrier_run_append)
qed

theorem solo_answered:
  assumes "2 \<le> bc_capacity cfg" "\<And>op i. bc_execute cfg op [i] \<noteq> []" "\<And>op i. f op i = hd (bc_execute cfg op [i])"
  shows "br_done (barrier_run cfg (solo_events sid wid req (num_calls f req)) (barrier_init input out)) = [(sid, req, run_calls f req)]"
  using solo_rounds_at [OF assms solo_enter_at, of sid req cfg wid input out]
  by (simp add: solo_events_def barrier_run_append)
    (auto simp: barrier_run_def barrier_step_defs check_leaves_def Let_def solo_at_def)

lemma solo_events_serving:
  assumes "sid < bc_num_slots cfg" "fitting_request mf pm req"
  shows "serving_run mf pm cfg (solo_events sid wid req n)"
  using assms
  by (auto simp: serving_run_def solo_events_def solo_enter_def solo_round_def serving_event_def list_all_iff)

lemma solo_events_orderly: "bc_num_slots cfg < bc_capacity cfg \<Longrightarrow> orderly cfg (solo_events sid wid req n)"
  by (auto simp: orderly_def orderly_event_def solo_events_def solo_enter_def solo_round_def list_all_iff)

end
