(* ===== verification/Sched_Base.thy ===== *)
theory Sched_Base
  imports Prelude
begin

text \<open>
  \<open>src/src/controller/scheduling/base.py\<close>: the data exchanged between the load
  balancer and a local scheduling policy, and the contract of a policy as the locale
  \<open>local_scheduler\<close>. The policies of \<open>lorant.py\<close> and \<open>random_sched.py\<close>
  interpret it (theories \<open>Lorant\<close> and \<open>Random_Sched\<close>); the load balancer
  relies on it. The scaling types of the second half of \<open>base.py\<close> are in theory
  \<open>Scaler\<close>.
\<close>

section \<open>Snapshots and decisions\<close>

record worker_snapshot =
  ws_worker_id :: int
  ws_adapter_id :: adapter
  ws_status :: string
  ws_active_requests :: int
  ws_idle_time :: pyfloat
  ws_device :: string

datatype routing_action = ROUTE | SPAWN | QUEUE | REJECT

record routing_decision =
  rd_action :: routing_action
  rd_worker_id :: "int option"
  rd_needs_swap :: bool
  rd_needs_spawn :: bool

text \<open>The dataclass defaults: \<open>RoutingDecision(action=a)\<close>.\<close>

definition mk_decision :: "routing_action \<Rightarrow> routing_decision" where
  "mk_decision a = \<lparr>rd_action = a, rd_worker_id = None, rd_needs_swap = False, rd_needs_spawn = False\<rparr>"

record sched_config =
  sc_spawn_timeout :: pyfloat
  sc_queue_poll_interval :: pyfloat
  sc_health_check_interval :: pyfloat
  sc_worker_http_timeout :: pyfloat
  sc_worker_ready_poll_interval :: pyfloat
  sc_worker_shutdown_timeout :: pyfloat
  sc_worker_kill_grace_period :: pyfloat
  sc_initial_spawn_batch_timeout :: pyfloat
  sc_idempotency_cleanup_interval :: pyfloat

definition default_sched_config :: sched_config where
  "default_sched_config = \<lparr>
     sc_spawn_timeout = 180, sc_queue_poll_interval = 1/10, sc_health_check_interval = 5,
     sc_worker_http_timeout = 2, sc_worker_ready_poll_interval = 1/5,
     sc_worker_shutdown_timeout = 5, sc_worker_kill_grace_period = 1/2,
     sc_initial_spawn_batch_timeout = 120, sc_idempotency_cleanup_interval = 300\<rparr>"

type_synonym snapshots = "(int, worker_snapshot) dict"
type_synonym rates = "(adapter, pyfloat) dict"
type_synonym counts = "(adapter, int) dict"

section \<open>Derived notions\<close>

text \<open>\<open>w.status == "ready" and w.active_requests == 0\<close>.\<close>

definition is_free :: "worker_snapshot \<Rightarrow> bool" where
  "is_free w \<longleftrightarrow> ws_status w = ''ready'' \<and> ws_active_requests w = 0"

definition is_busy :: "worker_snapshot \<Rightarrow> bool" where
  "is_busy w \<longleftrightarrow> ws_status w = ''ready'' \<and> 0 < ws_active_requests w"

text \<open>Number of workers that hold adapter \<open>a\<close>, counted directly.\<close>

definition holders :: "snapshots \<Rightarrow> adapter \<Rightarrow> int" where
  "holders ws a = int (length (filter (\<lambda>w. ws_adapter_id w = a) (dict_values ws)))"

lemma holders_nonneg [simp]: "0 \<le> holders ws a"
  by (simp add: holders_def)

lemma holders_Cons [simp]:
  "holders (kw # ws) a = (if ws_adapter_id (snd kw) = a then 1 else 0) + holders ws a"
  by (simp add: holders_def)

lemma holders_Nil [simp]: "holders [] a = 0"
  by (simp add: holders_def)

lemma holders_pos:
  assumes "(k, w) \<in> set ws"
  shows "0 < holders ws (ws_adapter_id w)"
proof -
  from assms have "w \<in> set (filter (\<lambda>v. ws_adapter_id v = ws_adapter_id w) (dict_values ws))"
    by force
  then show ?thesis unfolding holders_def by (metis length_pos_if_in_set of_nat_0_less_iff)
qed

section \<open>The contract of a scheduling policy\<close>

text \<open>
  What the load balancer relies on when it calls \<open>route_request\<close> and
  \<open>select_workers_to_reap\<close>. A policy never rejects, routes only to a worker that
  is ready and has no request, asks for a spawn only below capacity, queues only at
  capacity, and reaps only idle workers, never below the floor.
\<close>

locale local_scheduler =
  fixes route :: "'s \<Rightarrow> adapter \<Rightarrow> snapshots \<Rightarrow> int pyset \<Rightarrow> pyfloat \<Rightarrow> rates \<Rightarrow> int \<Rightarrow> int
      \<Rightarrow> routing_decision \<times> 's"
    and reap :: "'s \<Rightarrow> snapshots \<Rightarrow> int \<Rightarrow> pyfloat \<Rightarrow> int list"
  assumes route_free: "dict_wf ws \<Longrightarrow> rd_action (fst (route s a ws wwa r rs n m)) = ROUTE \<Longrightarrow>
      \<exists>wid w. rd_worker_id (fst (route s a ws wwa r rs n m)) = Some wid \<and>
        map_of ws wid = Some w \<and> is_free w"
    and route_match: "dict_wf ws \<Longrightarrow> rd_action (fst (route s a ws wwa r rs n m)) = ROUTE \<Longrightarrow>
      \<not> rd_needs_swap (fst (route s a ws wwa r rs n m)) \<Longrightarrow>
      \<exists>wid \<in> set wwa. rd_worker_id (fst (route s a ws wwa r rs n m)) = Some wid"
    and route_spawn: "rd_action (fst (route s a ws wwa r rs n m)) = SPAWN \<Longrightarrow> n < m"
    and route_queue: "rd_action (fst (route s a ws wwa r rs n m)) = QUEUE \<Longrightarrow> m \<le> n"
    and route_total: "rd_action (fst (route s a ws wwa r rs n m)) \<noteq> REJECT"
    and reap_idle: "dict_wf ws \<Longrightarrow> wid \<in> set (reap s ws mn d) \<Longrightarrow>
      \<exists>w. map_of ws wid = Some w \<and> ws_status w = ''ready'' \<and> ws_active_requests w \<le> 0 \<and>
        d \<le> ws_idle_time w"
    and reap_distinct: "dict_wf ws \<Longrightarrow> distinct (reap s ws mn d)"
    and reap_floor: "reap s ws mn d \<noteq> [] \<Longrightarrow> mn \<le> int (length ws) - int (length (reap s ws mn d))"
begin

lemma route_idle_not_queued:
  assumes "n < m"
  shows "rd_action (fst (route s a ws wwa r rs n m)) \<in> {ROUTE, SPAWN}"
  using assms route_queue [of s a ws wwa r rs n m] route_total [of s a ws wwa r rs n m]
  by (cases "rd_action (fst (route s a ws wwa r rs n m))") auto

lemma route_at_capacity:
  assumes "m \<le> n"
  shows "rd_action (fst (route s a ws wwa r rs n m)) \<in> {ROUTE, QUEUE}"
  using assms route_spawn [of s a ws wwa r rs n m] route_total [of s a ws wwa r rs n m]
  by (cases "rd_action (fst (route s a ws wwa r rs n m))") auto

lemma route_worker_known:
  assumes "dict_wf ws" and "rd_action (fst (route s a ws wwa r rs n m)) = ROUTE"
  shows "the (rd_worker_id (fst (route s a ws wwa r rs n m))) \<in> set (dict_keys ws)"
  using route_free [OF assms] by (auto dest: map_of_in_keys)

lemma reap_known: "dict_wf ws \<Longrightarrow> set (reap s ws mn d) \<subseteq> set (dict_keys ws)"
  using reap_idle by (fastforce dest: map_of_in_keys)

end

end
