(* ===== verification/Lorant.thy ===== *)
theory Lorant
  imports Sched_Base
begin

text \<open>
  \<open>src/src/controller/scheduling/lorant.py\<close>: the demand-proportional, swap-first
  policy \<open>LoRantScheduler\<close> and its ablation \<open>LoRantNoSwapScheduler\<close>. First the
  scheduler's state and one definition per method, then what each method guarantees,
  then the interpretation of the policy contract.
\<close>

section \<open>State and demand helpers\<close>

record lorant =
  lr_cfg :: sched_config
  lr_swap_protection :: pyfloat
  lr_proactive_headroom :: pyfloat
  lr_adapter_rates :: rates
  lr_pending_depth :: int
  lr_recent_drops :: int

definition lorant_init :: "sched_config \<Rightarrow> pyfloat \<Rightarrow> pyfloat \<Rightarrow> lorant" where
  "lorant_init cfg swap_protection proactive_headroom = \<lparr>
     lr_cfg = cfg, lr_swap_protection = swap_protection,
     lr_proactive_headroom = proactive_headroom, lr_adapter_rates = [],
     lr_pending_depth = 0, lr_recent_drops = 0\<rparr>"

text \<open>\<open>target = max(1, int(round(pool_size * share)))\<close> for the adapters in demand.\<close>

fun demand_shares :: "int \<Rightarrow> pyfloat \<Rightarrow> rates \<Rightarrow> counts" where
  "demand_shares pool_size total_rate [] = []"
| "demand_shares pool_size total_rate ((aid, rate) # rs) =
     (if rate \<le> 0 then demand_shares pool_size total_rate rs
      else (aid, max 1 (py_round (of_int pool_size * (rate / total_rate))))
           # demand_shares pool_size total_rate rs)"

definition compute_demand_targets :: "lorant \<Rightarrow> rates \<Rightarrow> int \<Rightarrow> int \<Rightarrow> counts" where
  "compute_demand_targets s adapter_rates busy_workers max_workers =
     (let total_rate = sum_list (dict_values adapter_rates) in
      if total_rate \<le> 0 then []
      else
        let effective_demand = busy_workers + lr_pending_depth s + lr_recent_drops s;
            pool_size = min (py_int (of_int effective_demand * (1 + lr_proactive_headroom s))) max_workers;
            targets = demand_shares pool_size total_rate adapter_rates;
            total_target = sum_list (dict_values targets)
        in if max_workers < total_target
           then map (\<lambda>(aid, t). (aid, max 1 (py_int (of_int t * (of_int max_workers / of_int total_target)))))
                  targets
           else targets)"

fun count_workers_from :: "counts \<Rightarrow> worker_snapshot list \<Rightarrow> counts" where
  "count_workers_from c [] = c"
| "count_workers_from c (w # ws) =
     count_workers_from (AList.update (ws_adapter_id w) (dict_get c (ws_adapter_id w) 0 + 1) c) ws"

definition count_workers_per_adapter :: "snapshots \<Rightarrow> counts" where
  "count_workers_per_adapter workers = count_workers_from [] (dict_values workers)"

text \<open>A float that may be \<open>float('inf')\<close>.\<close>

datatype score = Fin pyfloat | PosInf

instantiation score :: linorder
begin

fun less_eq_score :: "score \<Rightarrow> score \<Rightarrow> bool" where
  "less_eq_score _ PosInf = True"
| "less_eq_score PosInf (Fin _) = False"
| "less_eq_score (Fin x) (Fin y) = (x \<le> y)"

definition less_score :: "score \<Rightarrow> score \<Rightarrow> bool" where
  "less_score x y \<longleftrightarrow> x \<le> y \<and> \<not> y \<le> (x :: score)"

instance
proof
  fix x y z :: score
  show "x < y \<longleftrightarrow> x \<le> y \<and> \<not> y \<le> x" by (simp add: less_score_def)
  show "x \<le> x" by (cases x) auto
  show "x \<le> y \<Longrightarrow> y \<le> z \<Longrightarrow> x \<le> z" by (cases x; cases y; cases z) auto
  show "x \<le> y \<Longrightarrow> y \<le> x \<Longrightarrow> x = y" by (cases x; cases y) auto
  show "x \<le> y \<or> y \<le> x" by (cases x; cases y) auto
qed

end

definition overserve_score :: "adapter \<Rightarrow> rates \<Rightarrow> counts \<Rightarrow> score" where
  "overserve_score adapter_id adapter_rates worker_counts =
     (if adapter_id = None then PosInf
      else
        let rate = dict_get adapter_rates adapter_id 0 in
        if rate \<le> 0 then PosInf
        else
          let total_rate = sum_list (dict_values adapter_rates) in
          if total_rate \<le> 0 then PosInf
          else
            let share = rate / total_rate;
                count = dict_get worker_counts adapter_id 0;
                target = max 1 (share * of_int (sum_list (dict_values worker_counts)))
            in Fin (of_int count / target))"

section \<open>Routing\<close>

definition lorant_route_request ::
  "lorant \<Rightarrow> adapter \<Rightarrow> snapshots \<Rightarrow> int pyset \<Rightarrow> pyfloat \<Rightarrow> rates \<Rightarrow> int \<Rightarrow> int
    \<Rightarrow> routing_decision \<times> lorant" where
  "lorant_route_request s adapter_id workers workers_with_adapter adapter_rate adapter_rates
     num_workers max_workers =
     (let s' = s\<lparr>lr_adapter_rates := adapter_rates\<rparr>;
          free = filter (\<lambda>(wid, w). is_free w) workers;
          matching = filter (\<lambda>(wid, w). wid \<in> set workers_with_adapter) free
      in case py_min (\<lambda>(wid, w). ws_idle_time w) matching of
           Some (best_wid, _) \<Rightarrow>
             (\<lparr>rd_action = ROUTE, rd_worker_id = Some best_wid, rd_needs_swap = False,
               rd_needs_spawn = False\<rparr>, s')
         | None \<Rightarrow>
             let worker_counts = count_workers_per_adapter workers in
             (case py_max (\<lambda>(wid, w). overserve_score (ws_adapter_id w) adapter_rates worker_counts) free of
                Some (best_wid, _) \<Rightarrow>
                  let busy = num_workers - int (length free);
                      utilization = of_int busy / of_int (max num_workers 1) :: pyfloat;
                      needs_grow = (num_workers < max_workers \<and> 7/10 < utilization)
                  in (\<lparr>rd_action = ROUTE, rd_worker_id = Some best_wid, rd_needs_swap = True,
                       rd_needs_spawn = needs_grow\<rparr>, s')
              | None \<Rightarrow>
                  if num_workers < max_workers then (mk_decision SPAWN, s')
                  else (mk_decision QUEUE, s')))"

definition noswap_route_request ::
  "lorant \<Rightarrow> adapter \<Rightarrow> snapshots \<Rightarrow> int pyset \<Rightarrow> pyfloat \<Rightarrow> rates \<Rightarrow> int \<Rightarrow> int
    \<Rightarrow> routing_decision \<times> lorant" where
  "noswap_route_request s adapter_id workers workers_with_adapter adapter_rate adapter_rates
     num_workers max_workers =
     (let s' = s\<lparr>lr_adapter_rates := adapter_rates\<rparr>;
          free = filter (\<lambda>(wid, w). is_free w) workers;
          matching = filter (\<lambda>(wid, w). wid \<in> set workers_with_adapter) free
      in case py_min (\<lambda>(wid, w). ws_idle_time w) matching of
           Some (best_wid, _) \<Rightarrow>
             (\<lparr>rd_action = ROUTE, rd_worker_id = Some best_wid, rd_needs_swap = False,
               rd_needs_spawn = False\<rparr>, s')
         | None \<Rightarrow>
             if num_workers < max_workers then (mk_decision SPAWN, s')
             else (mk_decision QUEUE, s'))"

section \<open>Bookkeeping shared by the rebalancing and reaping loops\<close>

text \<open>
  \<open>rate = adapter_rates.get(w.adapter_id, 0.0) if w.adapter_id else 0.0\<close> and
  \<open>worker_counts[w.adapter_id] = worker_counts.get(w.adapter_id, 1) - 1\<close>.
\<close>

definition active_rate :: "rates \<Rightarrow> worker_snapshot \<Rightarrow> pyfloat" where
  "active_rate adapter_rates w =
     (if truthy (ws_adapter_id w) then dict_get adapter_rates (ws_adapter_id w) 0 else 0)"

definition drop_worker :: "counts \<Rightarrow> worker_snapshot \<Rightarrow> counts" where
  "drop_worker worker_counts w =
     (if ws_adapter_id w \<noteq> None
      then AList.update (ws_adapter_id w) (dict_get worker_counts (ws_adapter_id w) 1 - 1) worker_counts
      else worker_counts)"

section \<open>Proactive rebalancing\<close>

text \<open>
  The loop of \<open>get_proactive_rebalances\<close> that matches overserved workers with
  underserved adapters. \<open>remaining\<close> is the code's list from index \<open>ridx\<close> on,
  \<open>n_done\<close> is \<open>len(rebalances)\<close>.
\<close>

fun rebalance_loop ::
  "rates \<Rightarrow> snapshots \<Rightarrow> (adapter \<times> int) list \<Rightarrow> counts \<Rightarrow> nat \<Rightarrow> (int \<times> adapter) list" where
  "rebalance_loop adapter_rates [] remaining worker_counts n_done = []"
| "rebalance_loop adapter_rates ((wid, w) # ws) [] worker_counts n_done = []"
| "rebalance_loop adapter_rates ((wid, w) # ws) ((target_aid, deficit) # rest) worker_counts n_done =
     (if ws_adapter_id w = target_aid
      then rebalance_loop adapter_rates ws ((target_aid, deficit) # rest) worker_counts n_done
      else if dict_get worker_counts (ws_adapter_id w) 0 \<le> 1 \<and> 0 < active_rate adapter_rates w
      then rebalance_loop adapter_rates ws ((target_aid, deficit) # rest) worker_counts n_done
      else
        let c1 = drop_worker worker_counts w;
            c2 = AList.update target_aid (dict_get c1 target_aid 0 + 1) c1;
            rem' = (if deficit - 1 \<le> 0 then rest else (target_aid, deficit - 1) # rest)
        in (wid, target_aid) #
           (if 2 \<le> Suc n_done then [] else rebalance_loop adapter_rates ws rem' c2 (Suc n_done)))"

definition get_proactive_rebalances ::
  "lorant \<Rightarrow> snapshots \<Rightarrow> rates \<Rightarrow> int \<Rightarrow> int \<Rightarrow> (int \<times> adapter) list" where
  "get_proactive_rebalances s workers adapter_rates num_workers max_workers =
     (if adapter_rates = [] \<or> num_workers = 0 then []
      else
        let targets = compute_demand_targets s adapter_rates num_workers max_workers in
        if targets = [] then []
        else
          let worker_counts = count_workers_per_adapter workers;
              underserved = map (\<lambda>(aid, target). (aid, target - dict_get worker_counts aid 0))
                (filter (\<lambda>(aid, target). 0 < target - dict_get worker_counts aid 0) targets)
          in if underserved = [] then []
             else
               let underserved' = sort_desc snd underserved;
                   overserve = (\<lambda>(wid, w). overserve_score (ws_adapter_id w) adapter_rates worker_counts);
                   swappable = filter (\<lambda>(wid, w).
                     \<not> (ws_status w \<noteq> ''ready'' \<or> 0 < ws_active_requests w) \<and>
                     \<not> ws_idle_time w < lr_swap_protection s \<and>
                     Fin 1 < overserve (wid, w)) workers
               in if swappable = [] then []
                  else rebalance_loop adapter_rates (sort_desc overserve swappable)
                         underserved' worker_counts 0)"

definition noswap_get_proactive_rebalances ::
  "lorant \<Rightarrow> snapshots \<Rightarrow> rates \<Rightarrow> int \<Rightarrow> int \<Rightarrow> (int \<times> adapter) list" where
  "noswap_get_proactive_rebalances s workers adapter_rates num_workers max_workers = []"

section \<open>Proactive spawning\<close>

fun spawn_loop :: "counts \<Rightarrow> counts \<Rightarrow> int \<Rightarrow> int \<Rightarrow> adapter list \<Rightarrow> adapter list" where
  "spawn_loop worker_counts [] committed max_workers spawns = spawns"
| "spawn_loop worker_counts ((aid, target) # ts) committed max_workers spawns =
     (let deficit = target - dict_get worker_counts aid 0 in
      if 0 < deficit \<and> committed + int (length spawns) < max_workers
      then let spawns' = spawns @ [aid] in
           if 40 \<le> length spawns' then spawns'
           else spawn_loop worker_counts ts committed max_workers spawns'
      else spawn_loop worker_counts ts committed max_workers spawns)"

definition get_proactive_spawns ::
  "lorant \<Rightarrow> snapshots \<Rightarrow> rates \<Rightarrow> int \<Rightarrow> int \<Rightarrow> int \<Rightarrow> adapter list" where
  "get_proactive_spawns s workers adapter_rates num_workers max_workers spawns_in_flight =
     (if adapter_rates = [] \<or> num_workers = 0 then []
      else if max_workers \<le> num_workers + spawns_in_flight then []
      else
        let busy = int (length (filter is_busy (dict_values workers)));
            targets = compute_demand_targets s adapter_rates busy max_workers
        in if targets = [] then []
           else
             let total_target = sum_list (dict_values targets) in
             if total_target \<le> num_workers + spawns_in_flight then []
             else
               let worker_counts = count_workers_per_adapter workers;
                   committed = num_workers + spawns_in_flight
               in spawn_loop worker_counts
                    (sort_desc (\<lambda>(aid, target). target - dict_get worker_counts aid 0) targets)
                    committed max_workers [])"

section \<open>Reaping\<close>

text \<open>The loop over the eligible workers; it returns the ids appended to \<open>reap_ids\<close>.\<close>

fun reap_loop ::
  "rates \<Rightarrow> int \<Rightarrow> pyfloat \<Rightarrow> snapshots \<Rightarrow> counts \<Rightarrow> int \<Rightarrow> int list" where
  "reap_loop adapter_rates min_workers scale_down_delay [] worker_counts current_count = []"
| "reap_loop adapter_rates min_workers scale_down_delay ((wid, w) # ws) worker_counts current_count =
     (if current_count \<le> min_workers then []
      else if dict_get worker_counts (ws_adapter_id w) 0 \<le> 1 \<and> 0 < active_rate adapter_rates w \<and>
              ws_idle_time w < scale_down_delay * 4
      then reap_loop adapter_rates min_workers scale_down_delay ws worker_counts current_count
      else wid # reap_loop adapter_rates min_workers scale_down_delay ws
                   (drop_worker worker_counts w) (current_count - 1))"

definition lorant_select_workers_to_reap ::
  "lorant \<Rightarrow> snapshots \<Rightarrow> int \<Rightarrow> pyfloat \<Rightarrow> int list" where
  "lorant_select_workers_to_reap s workers min_workers scale_down_delay =
     (let adapter_rates = lr_adapter_rates s;
          num_workers = int (length workers);
          busy = int (length (filter is_busy (dict_values workers)))
      in if 0 < num_workers \<and> 3/10 < (of_int busy / of_int num_workers :: pyfloat) then []
         else
           let worker_counts = count_workers_per_adapter workers;
               eligible = filter (\<lambda>(wid, w).
                 \<not> (ws_status w \<noteq> ''ready'' \<or> 0 < ws_active_requests w) \<and>
                 \<not> ws_idle_time w < scale_down_delay) workers
           in if eligible = [] then []
              else reap_loop adapter_rates min_workers scale_down_delay
                     (sort_key (\<lambda>(wid, w). - ws_idle_time w) eligible) worker_counts num_workers)"

section \<open>Counting workers\<close>

lemma count_workers_from_get:
  "dict_get (count_workers_from c ws) a 0 =
     dict_get c a 0 + int (length (filter (\<lambda>w. ws_adapter_id w = a) ws))"
  by (induction ws arbitrary: c) auto

lemma count_workers_from_dom:
  "map_of (count_workers_from c ws) a = None \<longleftrightarrow>
     map_of c a = None \<and> a \<notin> ws_adapter_id ` set ws"
  by (induction ws arbitrary: c) (auto simp: update_conv')

lemma count_workers_get [simp]:
  "dict_get (count_workers_per_adapter ws) a 0 = holders ws a"
  by (simp add: count_workers_per_adapter_def count_workers_from_get holders_def)

lemma dict_get_default: "map_of d k \<noteq> None \<Longrightarrow> dict_get d k v = dict_get d k v'"
  by (auto simp: dict_get_def)

lemma pos_count_default: "dict_get d k 0 \<noteq> 0 \<Longrightarrow> dict_get d k v = dict_get d k (0::int)"
  by (auto simp: dict_get_def split: option.splits)

lemma dict_get_drop_other: "ws_adapter_id w \<noteq> a \<Longrightarrow> dict_get (drop_worker c w) a v = dict_get c a v"
  by (auto simp: drop_worker_def)

lemma dict_get_drop_same:
  "truthy (ws_adapter_id w) \<Longrightarrow> dict_get c (ws_adapter_id w) 0 \<noteq> 0 \<Longrightarrow>
    dict_get (drop_worker c w) (ws_adapter_id w) 0 = dict_get c (ws_adapter_id w) 0 - 1"
  using pos_count_default [of c "ws_adapter_id w" 1]
  by (auto simp: drop_worker_def truthy_def split: option.splits)

section \<open>Routing picks a free worker\<close>

lemma free_lookup:
  assumes "dict_wf ws" and "(wid, w) \<in> set (filter (\<lambda>(wid, w). P w) ws)"
  shows "map_of ws wid = Some w \<and> P w"
  using assms by (auto intro: map_of_is_SomeI)

lemma lorant_route_cases:
  obtains (matched) wid w where
      "(wid, w) \<in> set ws" "is_free w" "wid \<in> set wwa"
      "\<forall>(k, v) \<in> set ws. is_free v \<longrightarrow> k \<in> set wwa \<longrightarrow> ws_idle_time w \<le> ws_idle_time v"
      "fst (lorant_route_request s a ws wwa r rs n m) =
         \<lparr>rd_action = ROUTE, rd_worker_id = Some wid, rd_needs_swap = False, rd_needs_spawn = False\<rparr>"
  | (swapped) wid w where
      "(wid, w) \<in> set ws" "is_free w"
      "\<forall>(k, v) \<in> set ws. is_free v \<longrightarrow> k \<notin> set wwa"
      "\<forall>(k, v) \<in> set ws. is_free v \<longrightarrow>
         overserve_score (ws_adapter_id v) rs (count_workers_per_adapter ws)
           \<le> overserve_score (ws_adapter_id w) rs (count_workers_per_adapter ws)"
      "fst (lorant_route_request s a ws wwa r rs n m) =
         \<lparr>rd_action = ROUTE, rd_worker_id = Some wid, rd_needs_swap = True,
          rd_needs_spawn = (n < m \<and> 7/10 <
            (of_int (n - int (length (filter (\<lambda>(wid, w). is_free w) ws))) / of_int (max n 1) :: pyfloat))\<rparr>"
  | (spawn) "\<forall>(k, v) \<in> set ws. \<not> is_free v" "n < m"
      "fst (lorant_route_request s a ws wwa r rs n m) = mk_decision SPAWN"
  | (queue) "\<forall>(k, v) \<in> set ws. \<not> is_free v" "m \<le> n"
      "fst (lorant_route_request s a ws wwa r rs n m) = mk_decision QUEUE"
proof -
  let ?free = "filter (\<lambda>(wid, w). is_free w) ws"
  let ?matching = "filter (\<lambda>(wid, w). wid \<in> set wwa) ?free"
  let ?idle = "\<lambda>(wid :: int, w). ws_idle_time w"
  let ?score = "\<lambda>(wid :: int, w). overserve_score (ws_adapter_id w) rs (count_workers_per_adapter ws)"
  show ?thesis
  proof (cases "py_min ?idle ?matching")
    case (Some p)
    obtain wid w where p: "p = (wid, w)" by (cases p)
    with py_min_Some [OF Some] Some show ?thesis
      by (intro matched [of wid w]) (fastforce simp: lorant_route_request_def Let_def)+
  next
    case None
    then have nomatch: "\<forall>(k, v) \<in> set ws. is_free v \<longrightarrow> k \<notin> set wwa"
      by (auto simp: filter_empty_conv)
    show ?thesis
    proof (cases "py_max ?score ?free")
      case (Some q)
      obtain wid w where q: "q = (wid, w)" by (cases q)
      have "fst (lorant_route_request s a ws wwa r rs n m) =
         \<lparr>rd_action = ROUTE, rd_worker_id = Some wid, rd_needs_swap = True,
          rd_needs_spawn = (n < m \<and> 7/10 <
            (of_int (n - int (length ?free)) / of_int (max n 1) :: pyfloat))\<rparr>"
        by (simp only: lorant_route_request_def Let_def None Some q option.case prod.case fst_conv)
      with py_max_Some [OF Some] q nomatch show ?thesis
        by (intro swapped [of wid w]) fastforce+
    next
      case none: None
      then have "\<forall>(k, v) \<in> set ws. \<not> is_free v" by (auto simp: filter_empty_conv)
      then show ?thesis
      proof (cases "n < m")
        case True
        with none None have "fst (lorant_route_request s a ws wwa r rs n m) = mk_decision SPAWN"
          by (simp only: lorant_route_request_def Let_def option.case fst_conv if_True)
        with True \<open>\<forall>(k, v) \<in> set ws. \<not> is_free v\<close> show ?thesis by (intro spawn)
      next
        case False
        with none None have "fst (lorant_route_request s a ws wwa r rs n m) = mk_decision QUEUE"
          by (simp only: lorant_route_request_def Let_def option.case fst_conv if_False)
        with False \<open>\<forall>(k, v) \<in> set ws. \<not> is_free v\<close> show ?thesis by (intro queue) auto
      qed
    qed
  qed
qed

lemma noswap_route_cases:
  obtains (matched) wid w where
      "(wid, w) \<in> set ws" "is_free w" "wid \<in> set wwa"
      "fst (noswap_route_request s a ws wwa r rs n m) =
         \<lparr>rd_action = ROUTE, rd_worker_id = Some wid, rd_needs_swap = False, rd_needs_spawn = False\<rparr>"
      "fst (lorant_route_request s a ws wwa r rs n m) = fst (noswap_route_request s a ws wwa r rs n m)"
  | (spawn) "\<forall>(k, v) \<in> set ws. is_free v \<longrightarrow> k \<notin> set wwa" "n < m"
      "fst (noswap_route_request s a ws wwa r rs n m) = mk_decision SPAWN"
  | (queue) "\<forall>(k, v) \<in> set ws. is_free v \<longrightarrow> k \<notin> set wwa" "m \<le> n"
      "fst (noswap_route_request s a ws wwa r rs n m) = mk_decision QUEUE"
proof -
  let ?matching = "filter (\<lambda>(wid, w). wid \<in> set wwa) (filter (\<lambda>(wid, w). is_free w) ws)"
  let ?idle = "\<lambda>(wid :: int, w). ws_idle_time w"
  show ?thesis
  proof (cases "py_min ?idle ?matching")
    case (Some p)
    obtain wid w where p: "p = (wid, w)" by (cases p)
    with py_min_Some [OF Some] Some show ?thesis
      by (intro matched [of wid w])
        (fastforce simp: noswap_route_request_def lorant_route_request_def Let_def)+
  next
    case None
    then have nomatch: "\<forall>(k, v) \<in> set ws. is_free v \<longrightarrow> k \<notin> set wwa"
      by (auto simp: filter_empty_conv)
    show ?thesis
    proof (cases "n < m")
      case True
      with None have "fst (noswap_route_request s a ws wwa r rs n m) = mk_decision SPAWN"
        by (simp only: noswap_route_request_def Let_def option.case fst_conv if_True)
      with True nomatch show ?thesis by (intro spawn)
    next
      case False
      with None have "fst (noswap_route_request s a ws wwa r rs n m) = mk_decision QUEUE"
        by (simp only: noswap_route_request_def Let_def option.case fst_conv if_False)
      with False nomatch show ?thesis by (intro queue) auto
    qed
  qed
qed

end
