(* ===== verification/Lorant_Reap.thy ===== *)
theory Lorant_Reap
  imports Lorant
begin

text \<open>
  What \<open>select_workers_to_reap\<close> of the LoRant policy guarantees: it stops idle workers
  only, keeps the floor, and keeps a worker for every adapter in demand unless that
  worker has been idle for four times the delay. The two LoRant variants are then
  interpreted as scheduling policies.
\<close>

section \<open>The reaping loop\<close>

lemma reap_loop_in: "x \<in> set (reap_loop rs mn d ws c cur) \<Longrightarrow> x \<in> set (dict_keys ws)"
  by (induction ws arbitrary: c cur) (fastforce split: if_split_asm)+

lemma reap_loop_subset: "set (reap_loop rs mn d ws c cur) \<subseteq> set (dict_keys ws)"
  using reap_loop_in by fast

lemma reap_loop_distinct: "dict_wf ws \<Longrightarrow> distinct (reap_loop rs mn d ws c cur)"
proof (induction ws arbitrary: c cur)
  case (Cons kw ws)
  obtain wid w where kw: "kw = (wid, w)" by (cases kw)
  have "wid \<notin> set (reap_loop rs mn d ws c' cur')" for c' cur'
    using Cons.prems kw reap_loop_subset by fastforce
  then show ?case using Cons kw by simp
qed simp

lemma reap_loop_length:
  "mn \<le> cur \<Longrightarrow> mn \<le> cur - int (length (reap_loop rs mn d ws c cur))"
proof (induction ws arbitrary: c cur)
  case (Cons kw ws)
  obtain wid w where kw: "kw = (wid, w)" by (cases kw)
  show ?case
    using Cons.IH [of "cur - 1" "drop_worker c w"] Cons.IH [of cur c] Cons.prems kw by auto
qed simp

text \<open>
  The loop never brings the tracked count of an adapter in demand to zero, as long as
  none of its workers has been idle for \<open>4 * delay\<close>.
\<close>

lemma reap_loop_keeps:
  assumes "truthy a" and "0 < dict_get rs a 0"
    and "\<forall>(wid, w) \<in> set ws. ws_adapter_id w = a \<longrightarrow> ws_idle_time w < d * 4"
    and "1 \<le> dict_get c a 0" and "dict_wf ws"
  shows "int (length (filter (\<lambda>(wid, w). ws_adapter_id w = a \<and> wid \<in> set (reap_loop rs mn d ws c cur)) ws))
    \<le> dict_get c a 0 - 1"
  using assms(3-)
proof (induction ws arbitrary: c cur)
  case Nil
  then show ?case by simp
next
  case (Cons kw ws)
  obtain wid w where kw: "kw = (wid, w)" by (cases kw)
  have fresh: "wid \<notin> set (dict_keys ws)" and wf: "dict_wf ws" using Cons.prems kw by auto
  have young: "\<forall>(wid, w) \<in> set ws. ws_adapter_id w = a \<longrightarrow> ws_idle_time w < d * 4"
    using Cons.prems by auto
  have drop: "filter (\<lambda>(k, v). ws_adapter_id v = a \<and> (k = wid \<or> k \<in> R)) ws =
    filter (\<lambda>(k, v). ws_adapter_id v = a \<and> k \<in> R) ws" for R
    using fresh by (intro filter_cong) force+
  have notin: "wid \<notin> set (reap_loop rs mn d ws c' cur')" for c' cur'
    using fresh reap_loop_subset by fast
  let ?keep = "dict_get c (ws_adapter_id w) 0 \<le> 1 \<and> 0 < active_rate rs w \<and> ws_idle_time w < d * 4"
  consider "cur \<le> mn" | "\<not> cur \<le> mn" "?keep"
    | (same) "\<not> cur \<le> mn" "\<not> ?keep" "ws_adapter_id w = a"
    | (other) "\<not> cur \<le> mn" "\<not> ?keep" "ws_adapter_id w \<noteq> a" by blast
  then show ?case
  proof cases
    case 1
    then show ?thesis using Cons.prems kw by simp
  next
    case 2
    then show ?thesis using Cons.IH [OF young] Cons.prems kw wf notin by simp
  next
    case same
    then have eq: "reap_loop rs mn d (kw # ws) c cur = wid # reap_loop rs mn d ws (drop_worker c w) (cur - 1)"
      using kw by auto
    have "2 \<le> dict_get c a 0"
      using same Cons.prems assms(1,2) kw by (auto simp: active_rate_def)
    then have "dict_get (drop_worker c w) a 0 = dict_get c a 0 - 1" and "2 \<le> dict_get c a 0"
      using dict_get_drop_same [of w c] same assms(1) by auto
    then show ?thesis
      using Cons.IH [OF young, of "drop_worker c w" "cur - 1"] same(3) wf kw unfolding eq by (simp add: drop)
  next
    case other
    then have eq: "reap_loop rs mn d (kw # ws) c cur = wid # reap_loop rs mn d ws (drop_worker c w) (cur - 1)"
      using kw by auto
    show ?thesis
      using Cons.IH [OF young, of "drop_worker c w" "cur - 1"] Cons.prems(2) wf kw other(3)
        dict_get_drop_other [of w a c 0] unfolding eq by (simp add: drop)
  qed
qed

section \<open>The whole method\<close>

definition reap_eligible :: "pyfloat \<Rightarrow> snapshots \<Rightarrow> snapshots" where
  "reap_eligible delay workers = sort_key (\<lambda>(wid, w). - ws_idle_time w)
     (filter (\<lambda>(wid, w). \<not> (ws_status w \<noteq> ''ready'' \<or> 0 < ws_active_requests w) \<and>
                \<not> ws_idle_time w < delay) workers)"

lemma lorant_reap_eq:
  "lorant_select_workers_to_reap s ws mn d =
     (if 0 < int (length ws) \<and>
         3/10 < (of_int (int (length (filter is_busy (dict_values ws)))) / of_int (int (length ws)) :: pyfloat)
      then []
      else reap_loop (lr_adapter_rates s) mn d (reap_eligible d ws) (count_workers_per_adapter ws)
             (int (length ws)))"
proof (cases "reap_eligible d ws = []")
  case True
  then have "filter (\<lambda>(wid, w). \<not> (ws_status w \<noteq> ''ready'' \<or> 0 < ws_active_requests w) \<and>
                \<not> ws_idle_time w < d) ws = []"
    by (metis (no_types, lifting) reap_eligible_def length_0_conv length_sort)
  with True show ?thesis
    by (simp only: lorant_select_workers_to_reap_def Let_def reap_loop.simps simp_thms if_True)
next
  case False
  then have "filter (\<lambda>(wid, w). \<not> (ws_status w \<noteq> ''ready'' \<or> 0 < ws_active_requests w) \<and>
                \<not> ws_idle_time w < d) ws \<noteq> []"
    by (metis (no_types, lifting) reap_eligible_def sort_key_simps(1))
  then show ?thesis
    by (simp only: lorant_select_workers_to_reap_def Let_def if_False reap_eligible_def)
qed

lemma lorant_reap_in:
  "wid \<in> set (lorant_select_workers_to_reap s ws mn d) \<Longrightarrow> wid \<in> set (dict_keys (reap_eligible d ws))"
  unfolding lorant_reap_eq by (auto split: if_split_asm simp del: set_map dest: subsetD [OF reap_loop_subset])

lemma reap_eligible_wf: "dict_wf ws \<Longrightarrow> dict_wf (reap_eligible d ws)"
  by (simp add: reap_eligible_def distinct_map_filter)

lemma reap_eligible_set:
  "set (reap_eligible d ws) = {(k, w) \<in> set ws. ws_status w = ''ready'' \<and>
     ws_active_requests w \<le> 0 \<and> d \<le> ws_idle_time w}"
  by (auto simp: reap_eligible_def)

lemma lorant_reap_sound:
  assumes "dict_wf ws" and "wid \<in> set (lorant_select_workers_to_reap s ws mn d)"
  shows "\<exists>w. map_of ws wid = Some w \<and> ws_status w = ''ready'' \<and> ws_active_requests w \<le> 0 \<and>
    d \<le> ws_idle_time w"
proof -
  have "wid \<in> set (dict_keys (reap_eligible d ws))"
    by (rule lorant_reap_in [OF assms(2)])
  then obtain w where "(wid, w) \<in> set (reap_eligible d ws)" by auto
  then show ?thesis
    using assms(1) by (auto simp: reap_eligible_set intro: map_of_is_SomeI)
qed

lemma lorant_reap_distinct: "dict_wf ws \<Longrightarrow> distinct (lorant_select_workers_to_reap s ws mn d)"
  by (simp add: lorant_reap_eq reap_loop_distinct reap_eligible_wf)

lemma reap_loop_Nil_below: "cur \<le> mn \<Longrightarrow> reap_loop rs mn d ws c cur = []"
  by (cases "(rs, mn, d, ws, c, cur)" rule: reap_loop.cases) auto

lemma lorant_reap_floor:
  "lorant_select_workers_to_reap s ws mn d \<noteq> [] \<Longrightarrow>
     mn \<le> int (length ws) - int (length (lorant_select_workers_to_reap s ws mn d))"
  using reap_loop_length [of mn "int (length ws)"] reap_loop_Nil_below [of "int (length ws)" mn]
  by (cases "mn \<le> int (length ws)") (auto simp: lorant_reap_eq split: if_splits)

lemmas lorant_reap_laws = lorant_reap_sound lorant_reap_distinct lorant_reap_floor

text \<open>The workers that remain after a reap.\<close>

definition survivors :: "int list \<Rightarrow> snapshots \<Rightarrow> snapshots" where
  "survivors ids ws = filter (\<lambda>(wid, w). wid \<notin> set ids) ws"

lemma holders_survivors:
  "holders (survivors ids ws) a = holders ws a -
     int (length (filter (\<lambda>(wid, w). ws_adapter_id w = a \<and> wid \<in> set ids) ws))"
  by (induction ws) (auto simp: survivors_def)

lemma reaped_of_eligible:
  assumes "dict_wf ws" and "set ids \<subseteq> set (dict_keys (reap_eligible d ws))"
  shows "length (filter (\<lambda>(wid, w). ws_adapter_id w = a \<and> wid \<in> set ids) ws) =
    length (filter (\<lambda>(wid, w). ws_adapter_id w = a \<and> wid \<in> set ids) (reap_eligible d ws))"
proof -
  have "filter (\<lambda>(wid, w). ws_adapter_id w = a \<and> wid \<in> set ids) ws =
    filter (\<lambda>(wid, w). (ws_adapter_id w = a \<and> wid \<in> set ids) \<and> ws_status w = ''ready'' \<and>
      \<not> 0 < ws_active_requests w \<and> \<not> ws_idle_time w < d) ws"
  proof (rule filter_cong [OF refl], clarify)
    fix wid w assume w: "(wid, w) \<in> set ws"
    have "wid \<in> set ids \<Longrightarrow> ws_status w = ''ready'' \<and> \<not> 0 < ws_active_requests w \<and> \<not> ws_idle_time w < d"
    proof -
      assume "wid \<in> set ids"
      with assms(2) obtain w' where w': "(wid, w') \<in> set (reap_eligible d ws)" by auto
      with assms(1) w have "w' = w" by (auto simp: reap_eligible_set dest: eq_key_imp_eq_value)
      with w' show ?thesis by (auto simp: reap_eligible_set)
    qed
    then show "(ws_adapter_id w = a \<and> wid \<in> set ids) =
      ((ws_adapter_id w = a \<and> wid \<in> set ids) \<and> ws_status w = ''ready'' \<and>
        \<not> 0 < ws_active_requests w \<and> \<not> ws_idle_time w < d)" by blast
  qed
  then show ?thesis
    by (simp add: reap_eligible_def length_filter_sort_key case_prod_unfold conj_ac)
qed

lemma lorant_reap_keeps_adapter:
  assumes wf: "dict_wf ws" and a: "truthy a" "0 < dict_get (lr_adapter_rates s) a 0"
    and young: "\<forall>(wid, w) \<in> set ws. ws_adapter_id w = a \<longrightarrow> ws_idle_time w < d * 4"
    and has: "1 \<le> holders ws a"
  shows "1 \<le> holders (survivors (lorant_select_workers_to_reap s ws mn d) ws) a"
proof -
  let ?el = "reap_eligible d ws"
  let ?ids = "lorant_select_workers_to_reap s ws mn d"
  let ?loop = "reap_loop (lr_adapter_rates s) mn d ?el (count_workers_per_adapter ws) (int (length ws))"
  have sub: "set ?loop \<subseteq> set (dict_keys ?el)" by (rule reap_loop_subset)
  have "int (length (filter (\<lambda>(wid, w). ws_adapter_id w = a \<and> wid \<in> set ?loop) ?el)) \<le> holders ws a - 1"
    using reap_loop_keeps [OF a, of ?el d "count_workers_per_adapter ws" mn "int (length ws)"]
      young has reap_eligible_wf [OF wf] by (fastforce simp: reap_eligible_set)
  then have "int (length (filter (\<lambda>(wid, w). ws_adapter_id w = a \<and> wid \<in> set ?ids) ws)) \<le> holders ws a - 1"
    using reaped_of_eligible [OF wf sub, of a] has by (auto simp: lorant_reap_eq)
  then show ?thesis by (simp add: holders_survivors)
qed

section \<open>The LoRant policies implement the policy contract\<close>

interpretation lorant_policy: local_scheduler lorant_route_request lorant_select_workers_to_reap
proof unfold_locales
  fix s :: lorant and a ws wwa r rs n m
  let ?d = "fst (lorant_route_request s a ws wwa r rs n m)"
  show "\<exists>wid w. rd_worker_id ?d = Some wid \<and> map_of ws wid = Some w \<and> is_free w"
    if "dict_wf ws" "rd_action ?d = ROUTE"
    using that by (cases rule: lorant_route_cases [of ws wwa s a r rs n m])
      (auto simp: mk_decision_def intro: map_of_is_SomeI)
  show "\<exists>wid \<in> set wwa. rd_worker_id ?d = Some wid"
    if "dict_wf ws" "rd_action ?d = ROUTE" "\<not> rd_needs_swap ?d"
    using that by (cases rule: lorant_route_cases [of ws wwa s a r rs n m]) (auto simp: mk_decision_def)
  show "n < m" if "rd_action ?d = SPAWN"
    using that by (cases rule: lorant_route_cases [of ws wwa s a r rs n m]) (auto simp: mk_decision_def)
  show "m \<le> n" if "rd_action ?d = QUEUE"
    using that by (cases rule: lorant_route_cases [of ws wwa s a r rs n m]) (auto simp: mk_decision_def)
  show "rd_action ?d \<noteq> REJECT"
    by (cases rule: lorant_route_cases [of ws wwa s a r rs n m]) (auto simp: mk_decision_def)
qed (fact lorant_reap_laws)+

interpretation noswap_policy: local_scheduler noswap_route_request lorant_select_workers_to_reap
proof unfold_locales
  fix s :: lorant and a ws wwa r rs n m
  let ?d = "fst (noswap_route_request s a ws wwa r rs n m)"
  show "\<exists>wid w. rd_worker_id ?d = Some wid \<and> map_of ws wid = Some w \<and> is_free w"
    if "dict_wf ws" "rd_action ?d = ROUTE"
    using that by (cases rule: noswap_route_cases [of ws wwa s a r rs n m])
      (auto simp: mk_decision_def intro: map_of_is_SomeI)
  show "\<exists>wid \<in> set wwa. rd_worker_id ?d = Some wid"
    if "dict_wf ws" "rd_action ?d = ROUTE" "\<not> rd_needs_swap ?d"
    using that by (cases rule: noswap_route_cases [of ws wwa s a r rs n m]) (auto simp: mk_decision_def)
  show "n < m" if "rd_action ?d = SPAWN"
    using that by (cases rule: noswap_route_cases [of ws wwa s a r rs n m]) (auto simp: mk_decision_def)
  show "m \<le> n" if "rd_action ?d = QUEUE"
    using that by (cases rule: noswap_route_cases [of ws wwa s a r rs n m]) (auto simp: mk_decision_def)
  show "rd_action ?d \<noteq> REJECT"
    by (cases rule: noswap_route_cases [of ws wwa s a r rs n m]) (auto simp: mk_decision_def)
qed (fact lorant_reap_laws)+

end
