(* ===== verification/Random_Sched.thy ===== *)
theory Random_Sched
  imports Lorant_Reap
begin

text \<open>
  \<open>src/src/controller/scheduling/random_sched.py\<close>: the ablation policy without
  adapter awareness, its interpretation of the policy contract, and the type of all
  schedulers the controller can be started with (\<open>--scheduler\<close>).
  \<open>random.choice(xs)\<close> is \<open>xs\<close> at an index below its length; the draws are a
  sequence in the scheduler's state, and every property holds for all sequences.
\<close>

section \<open>The random policy\<close>

record random_sched =
  rs_cfg :: sched_config
  rs_adapter_rates :: rates
  rs_draws :: "nat \<Rightarrow> nat"
  rs_pos :: nat

definition random_init :: "sched_config \<Rightarrow> (nat \<Rightarrow> nat) \<Rightarrow> random_sched" where
  "random_init cfg draws = \<lparr>rs_cfg = cfg, rs_adapter_rates = [], rs_draws = draws, rs_pos = 0\<rparr>"

definition random_choice :: "random_sched \<Rightarrow> 'a list \<Rightarrow> 'a" where
  "random_choice s xs = xs ! (rs_draws s (rs_pos s) mod length xs)"

definition random_route_request ::
  "random_sched \<Rightarrow> adapter \<Rightarrow> snapshots \<Rightarrow> int pyset \<Rightarrow> pyfloat \<Rightarrow> rates \<Rightarrow> int \<Rightarrow> int
    \<Rightarrow> routing_decision \<times> random_sched" where
  "random_route_request s adapter_id workers workers_with_adapter adapter_rate adapter_rates
     num_workers max_workers =
     (let s' = s\<lparr>rs_adapter_rates := adapter_rates\<rparr>;
          free = map fst (filter (\<lambda>(wid, w). is_free w) workers)
      in if free \<noteq> []
         then let chosen = random_choice s' free;
                  needs_swap = (chosen \<notin> set workers_with_adapter)
              in (\<lparr>rd_action = ROUTE, rd_worker_id = Some chosen, rd_needs_swap = needs_swap,
                   rd_needs_spawn = False\<rparr>, s'\<lparr>rs_pos := Suc (rs_pos s')\<rparr>)
         else if num_workers < max_workers then (mk_decision SPAWN, s')
         else (mk_decision QUEUE, s'))"

definition random_get_proactive_spawns ::
  "random_sched \<Rightarrow> snapshots \<Rightarrow> rates \<Rightarrow> int \<Rightarrow> int \<Rightarrow> int \<Rightarrow> adapter list" where
  "random_get_proactive_spawns s workers adapter_rates num_workers max_workers spawns_in_flight = []"

definition random_select_workers_to_reap ::
  "random_sched \<Rightarrow> snapshots \<Rightarrow> int \<Rightarrow> pyfloat \<Rightarrow> int list" where
  "random_select_workers_to_reap s workers min_workers scale_down_delay =
     (let adapter_rates = rs_adapter_rates s;
          num_workers = int (length workers);
          busy = int (length (filter is_busy (dict_values workers)))
      in if 0 < num_workers \<and> 3/10 < (of_int busy / of_int num_workers :: pyfloat) then []
         else
           let worker_counts = count_workers_from [] (dict_values workers);
               eligible = filter (\<lambda>(wid, w). ws_status w = ''ready'' \<and> ws_active_requests w = 0 \<and>
                 scale_down_delay \<le> ws_idle_time w) workers
           in if eligible = [] then []
              else reap_loop adapter_rates min_workers scale_down_delay
                     (sort_key (\<lambda>(wid, w). - ws_idle_time w) eligible) worker_counts num_workers)"

lemma random_choice_in: "xs \<noteq> [] \<Longrightarrow> random_choice s xs \<in> set xs"
  by (simp add: random_choice_def)

lemma random_route_cases:
  obtains (routed) wid w where
      "(wid, w) \<in> set ws" "is_free w"
      "fst (random_route_request s a ws wwa r rs n m) =
         \<lparr>rd_action = ROUTE, rd_worker_id = Some wid, rd_needs_swap = (wid \<notin> set wwa), rd_needs_spawn = False\<rparr>"
  | (spawn) "\<forall>(k, v) \<in> set ws. \<not> is_free v" "n < m"
      "fst (random_route_request s a ws wwa r rs n m) = mk_decision SPAWN"
  | (queue) "\<forall>(k, v) \<in> set ws. \<not> is_free v" "m \<le> n"
      "fst (random_route_request s a ws wwa r rs n m) = mk_decision QUEUE"
proof (cases "map fst (filter (\<lambda>(wid, w). is_free w) ws) = []")
  case True
  then show ?thesis
    by (cases "n < m") (auto simp: random_route_request_def filter_empty_conv intro: spawn queue)
next
  case False
  let ?free = "map fst (filter (\<lambda>(wid, w). is_free w) ws)"
  let ?wid = "random_choice (s\<lparr>rs_adapter_rates := rs\<rparr>) ?free"
  have "?wid \<in> set ?free" by (rule random_choice_in [OF False])
  then obtain w where w: "(?wid, w) \<in> set ws" "is_free w" by auto
  have "fst (random_route_request s a ws wwa r rs n m) =
      \<lparr>rd_action = ROUTE, rd_worker_id = Some ?wid, rd_needs_swap = (?wid \<notin> set wwa), rd_needs_spawn = False\<rparr>"
    using False by (simp only: random_route_request_def Let_def simp_thms if_True fst_conv)
  with w show ?thesis by (rule routed)
qed

definition random_eligible :: "pyfloat \<Rightarrow> snapshots \<Rightarrow> snapshots" where
  "random_eligible delay workers = sort_key (\<lambda>(wid, w). - ws_idle_time w)
     (filter (\<lambda>(wid, w). ws_status w = ''ready'' \<and> ws_active_requests w = 0 \<and>
        delay \<le> ws_idle_time w) workers)"

lemma random_reap_eq:
  "random_select_workers_to_reap s ws mn d =
     (if 0 < int (length ws) \<and>
         3/10 < (of_int (int (length (filter is_busy (dict_values ws)))) / of_int (int (length ws)) :: pyfloat)
      then []
      else reap_loop (rs_adapter_rates s) mn d (random_eligible d ws) (count_workers_per_adapter ws)
             (int (length ws)))"
proof (cases "random_eligible d ws = []")
  case True
  then have "filter (\<lambda>(wid, w). ws_status w = ''ready'' \<and> ws_active_requests w = 0 \<and> d \<le> ws_idle_time w) ws = []"
    by (metis (no_types, lifting) random_eligible_def length_0_conv length_sort)
  with True show ?thesis
    by (simp only: random_select_workers_to_reap_def Let_def reap_loop.simps simp_thms if_True)
next
  case False
  then have "filter (\<lambda>(wid, w). ws_status w = ''ready'' \<and> ws_active_requests w = 0 \<and> d \<le> ws_idle_time w) ws \<noteq> []"
    by (metis (no_types, lifting) random_eligible_def sort_key_simps(1))
  then show ?thesis
    by (simp only: random_select_workers_to_reap_def Let_def if_False random_eligible_def count_workers_per_adapter_def)
qed

lemma random_reap_sound:
  assumes "dict_wf ws" and "wid \<in> set (random_select_workers_to_reap s ws mn d)"
  shows "\<exists>w. map_of ws wid = Some w \<and> ws_status w = ''ready'' \<and> ws_active_requests w \<le> 0 \<and>
    d \<le> ws_idle_time w"
proof -
  have "wid \<in> set (dict_keys (random_eligible d ws))"
    using assms(2) unfolding random_reap_eq by (auto split: if_split_asm simp del: set_map dest: reap_loop_in)
  then obtain w where "(wid, w) \<in> set (random_eligible d ws)" by auto
  then show ?thesis
    using assms(1) by (auto simp: random_eligible_def intro: map_of_is_SomeI)
qed

lemma random_reap_distinct: "dict_wf ws \<Longrightarrow> distinct (random_select_workers_to_reap s ws mn d)"
  by (simp add: random_reap_eq reap_loop_distinct random_eligible_def distinct_map_filter)

lemma random_reap_floor:
  "random_select_workers_to_reap s ws mn d \<noteq> [] \<Longrightarrow>
     mn \<le> int (length ws) - int (length (random_select_workers_to_reap s ws mn d))"
  using reap_loop_length [of mn "int (length ws)"] reap_loop_Nil_below [of "int (length ws)" mn]
  by (cases "mn \<le> int (length ws)") (auto simp: random_reap_eq split: if_splits)

lemmas random_reap_laws = random_reap_sound random_reap_distinct random_reap_floor

interpretation random_policy: local_scheduler random_route_request random_select_workers_to_reap
proof unfold_locales
  fix s :: random_sched and a ws wwa r rs n m
  let ?d = "fst (random_route_request s a ws wwa r rs n m)"
  show "\<exists>wid w. rd_worker_id ?d = Some wid \<and> map_of ws wid = Some w \<and> is_free w"
    if "dict_wf ws" "rd_action ?d = ROUTE"
    using that by (cases rule: random_route_cases [of ws s a wwa r rs n m])
      (auto simp: mk_decision_def intro: map_of_is_SomeI)
  show "\<exists>wid \<in> set wwa. rd_worker_id ?d = Some wid"
    if "dict_wf ws" "rd_action ?d = ROUTE" "\<not> rd_needs_swap ?d"
    using that by (cases rule: random_route_cases [of ws s a wwa r rs n m]) (auto simp: mk_decision_def)
  show "n < m" if "rd_action ?d = SPAWN"
    using that by (cases rule: random_route_cases [of ws s a wwa r rs n m]) (auto simp: mk_decision_def)
  show "m \<le> n" if "rd_action ?d = QUEUE"
    using that by (cases rule: random_route_cases [of ws s a wwa r rs n m]) (auto simp: mk_decision_def)
  show "rd_action ?d \<noteq> REJECT"
    by (cases rule: random_route_cases [of ws s a wwa r rs n m]) (auto simp: mk_decision_def)
qed (fact random_reap_laws)+

section \<open>All schedulers\<close>

datatype scheduler = LoRant lorant | LoRantNoSwap lorant | RandomS random_sched

text \<open>The choice made by \<open>--scheduler\<close>; an unknown name raises \<open>ValueError\<close>.\<close>

definition create_scheduler :: "string \<Rightarrow> sched_config \<Rightarrow> (nat \<Rightarrow> nat) \<Rightarrow> py_error + scheduler" where
  "create_scheduler name cfg draws =
     (if name = ''lorant'' then Inr (LoRant (lorant_init cfg (1/10) (1/5)))
      else if name = ''noswap'' then Inr (LoRantNoSwap (lorant_init cfg (1/10) (1/5)))
      else if name = ''random'' then Inr (RandomS (random_init cfg draws))
      else Inl ValueError)"

fun sched_route ::
  "scheduler \<Rightarrow> adapter \<Rightarrow> snapshots \<Rightarrow> int pyset \<Rightarrow> pyfloat \<Rightarrow> rates \<Rightarrow> int \<Rightarrow> int
    \<Rightarrow> routing_decision \<times> scheduler" where
  "sched_route (LoRant s) a ws wwa r rs n m = map_prod id LoRant (lorant_route_request s a ws wwa r rs n m)"
| "sched_route (LoRantNoSwap s) a ws wwa r rs n m =
     map_prod id LoRantNoSwap (noswap_route_request s a ws wwa r rs n m)"
| "sched_route (RandomS s) a ws wwa r rs n m = map_prod id RandomS (random_route_request s a ws wwa r rs n m)"

fun sched_reap :: "scheduler \<Rightarrow> snapshots \<Rightarrow> int \<Rightarrow> pyfloat \<Rightarrow> int list" where
  "sched_reap (LoRant s) ws mn d = lorant_select_workers_to_reap s ws mn d"
| "sched_reap (LoRantNoSwap s) ws mn d = lorant_select_workers_to_reap s ws mn d"
| "sched_reap (RandomS s) ws mn d = random_select_workers_to_reap s ws mn d"

text \<open>
  \<open>isinstance(self.scheduler, LoRantScheduler)\<close> holds for both LoRant variants: the
  controller then publishes the queue depth and the recent drops to the policy.
\<close>

fun sched_set_demand :: "scheduler \<Rightarrow> int \<Rightarrow> int \<Rightarrow> scheduler" where
  "sched_set_demand (LoRant s) depth drops = LoRant (s\<lparr>lr_pending_depth := depth, lr_recent_drops := drops\<rparr>)"
| "sched_set_demand (LoRantNoSwap s) depth drops =
     LoRantNoSwap (s\<lparr>lr_pending_depth := depth, lr_recent_drops := drops\<rparr>)"
| "sched_set_demand (RandomS s) depth drops = RandomS s"

fun sched_rebalances :: "scheduler \<Rightarrow> snapshots \<Rightarrow> rates \<Rightarrow> int \<Rightarrow> int \<Rightarrow> (int \<times> adapter) list" where
  "sched_rebalances (LoRant s) ws rs n m = get_proactive_rebalances s ws rs n m"
| "sched_rebalances (LoRantNoSwap s) ws rs n m = noswap_get_proactive_rebalances s ws rs n m"
| "sched_rebalances (RandomS s) ws rs n m = []"

fun sched_spawns :: "scheduler \<Rightarrow> snapshots \<Rightarrow> rates \<Rightarrow> int \<Rightarrow> int \<Rightarrow> int \<Rightarrow> adapter list" where
  "sched_spawns (LoRant s) ws rs n m fl = get_proactive_spawns s ws rs n m fl"
| "sched_spawns (LoRantNoSwap s) ws rs n m fl = get_proactive_spawns s ws rs n m fl"
| "sched_spawns (RandomS s) ws rs n m fl = random_get_proactive_spawns s ws rs n m fl"

lemma fst_sched_route:
  "fst (sched_route s a ws wwa r rs n m) = (case s of
     LoRant l \<Rightarrow> fst (lorant_route_request l a ws wwa r rs n m)
   | LoRantNoSwap l \<Rightarrow> fst (noswap_route_request l a ws wwa r rs n m)
   | RandomS q \<Rightarrow> fst (random_route_request q a ws wwa r rs n m))"
  by (cases s) simp_all

interpretation any_policy: local_scheduler sched_route sched_reap
proof unfold_locales
  fix s a ws wwa r rs n m
  let ?d = "fst (sched_route s a ws wwa r rs n m)"
  show "\<exists>wid w. rd_worker_id ?d = Some wid \<and> map_of ws wid = Some w \<and> is_free w"
    if "dict_wf ws" "rd_action ?d = ROUTE"
    using that lorant_policy.route_free noswap_policy.route_free random_policy.route_free
    by (cases s) (simp_all add: fst_sched_route)
  show "\<exists>wid \<in> set wwa. rd_worker_id ?d = Some wid"
    if "dict_wf ws" "rd_action ?d = ROUTE" "\<not> rd_needs_swap ?d"
    using that lorant_policy.route_match noswap_policy.route_match random_policy.route_match
    by (cases s) (simp_all add: fst_sched_route)
  show "n < m" if "rd_action ?d = SPAWN"
    using that lorant_policy.route_spawn noswap_policy.route_spawn random_policy.route_spawn
    by (cases s) (simp_all add: fst_sched_route)
  show "m \<le> n" if "rd_action ?d = QUEUE"
    using that lorant_policy.route_queue noswap_policy.route_queue random_policy.route_queue
    by (cases s) (simp_all add: fst_sched_route)
  show "rd_action ?d \<noteq> REJECT"
    using lorant_policy.route_total noswap_policy.route_total random_policy.route_total
    by (cases s) (simp_all add: fst_sched_route)
next
  fix s ws wid mn d
  show "\<exists>w. map_of ws wid = Some w \<and> ws_status w = ''ready'' \<and> ws_active_requests w \<le> 0 \<and> d \<le> ws_idle_time w"
    if "dict_wf ws" "wid \<in> set (sched_reap s ws mn d)"
    using that lorant_reap_sound random_reap_sound by (cases s) simp_all
  show "distinct (sched_reap s ws mn d)" if "dict_wf ws"
    using that lorant_reap_distinct random_reap_distinct by (cases s) simp_all
  show "mn \<le> int (length ws) - int (length (sched_reap s ws mn d))" if "sched_reap s ws mn d \<noteq> []"
    using that lorant_reap_floor random_reap_floor by (cases s) simp_all
qed

end
