(* ===== verification/Admission.thy ===== *)
theory Admission
  imports Prelude
begin

text \<open>
  \<open>src/src/controller/admission.py\<close> and \<open>src/src/controller/slo_metrics.py\<close>: the
  deadline policy shared by the systems, and the metrics that judge it.
  An environment is a dictionary from names to strings; \<open>float(string)\<close> is the
  parameter \<open>parse\<close> (\<open>None\<close> is \<open>ValueError\<close>).
\<close>

section \<open>Deadlines\<close>

definition default_slo_s :: pyfloat where "default_slo_s = 6"

definition margin_min_samples :: int where "margin_min_samples = 5"

definition margin_max_frac :: pyfloat where "margin_max_frac = 1/4"

definition post_admit_margin :: "pyfloat \<Rightarrow> int \<Rightarrow> pyfloat \<Rightarrow> pyfloat" where
  "post_admit_margin observed_s n_samples slo_s =
     (if n_samples < margin_min_samples then 0
      else min (max 0 observed_s) (margin_max_frac * slo_s))"

record admission_config =
  ac_slo_s :: pyfloat

definition admission_config :: "pyfloat \<Rightarrow> py_error + admission_config" where
  "admission_config slo_s = (if slo_s \<le> 0 then Inl ValueError else Inr \<lparr>ac_slo_s = slo_s\<rparr>)"

definition slo_from_env :: "(string \<Rightarrow> pyfloat option) \<Rightarrow> (string, string) dict \<Rightarrow> py_error + pyfloat" where
  "slo_from_env parse env =
     (case map_of env ''ADMISSION_SLO_S'' of
        None \<Rightarrow> Inr default_slo_s
      | Some v \<Rightarrow> (case parse v of None \<Rightarrow> Inl ValueError | Some x \<Rightarrow> Inr x))"

definition admission_from_env ::
  "(string \<Rightarrow> pyfloat option) \<Rightarrow> (string, string) dict \<Rightarrow> py_error + admission_config" where
  "admission_from_env parse env =
     (case map_of env ''ADMISSION_SLO_S'' of
        None \<Rightarrow> admission_config default_slo_s
      | Some v \<Rightarrow> (case parse v of None \<Rightarrow> Inl ValueError | Some x \<Rightarrow> admission_config x))"

lemma post_admit_margin_bounds:
  "0 < slo \<Longrightarrow> 0 \<le> post_admit_margin obs n slo \<and> post_admit_margin obs n slo \<le> slo / 4"
  by (auto simp: post_admit_margin_def margin_max_frac_def min_def)

lemma admission_config_pos: "admission_config slo = Inr c \<Longrightarrow> 0 < ac_slo_s c"
  by (auto simp: admission_config_def split: if_splits)

section \<open>SLO metrics\<close>

text \<open>One sample per submitted request: \<open>(succeeded, ttft_seconds, completion_tokens)\<close>.\<close>

type_synonym sample = "bool \<times> pyfloat \<times> int"

definition meets_slo :: "pyfloat \<Rightarrow> sample \<Rightarrow> bool" where
  "meets_slo slo_s = (\<lambda>(succeeded, ttft_s, tokens). succeeded \<and> 0 < ttft_s \<and> ttft_s \<le> slo_s)"

text \<open>The loop over the samples: \<open>(met_count, met_tokens)\<close>.\<close>

fun slo_loop :: "pyfloat \<Rightarrow> sample list \<Rightarrow> int \<Rightarrow> int \<Rightarrow> int \<times> int" where
  "slo_loop slo_s [] met_count met_tokens = (met_count, met_tokens)"
| "slo_loop slo_s (x # xs) met_count met_tokens =
     (if meets_slo slo_s x
      then slo_loop slo_s xs (met_count + 1) (met_tokens + max 0 (snd (snd x)))
      else slo_loop slo_s xs met_count met_tokens)"

text \<open>\<open>round(x, n)\<close>: half to even at the \<open>n\<close>-th decimal.\<close>

definition py_round_digits :: "nat \<Rightarrow> pyfloat \<Rightarrow> pyfloat" where
  "py_round_digits n x = of_int (py_round (x * 10 ^ n)) / 10 ^ n"

record slo_report =
  sr_slo_s :: pyfloat
  sr_met_requests :: int
  sr_attainment :: pyfloat
  sr_effective_throughput :: pyfloat

definition slo_metrics :: "py_error + pyfloat \<Rightarrow> sample list \<Rightarrow> pyfloat \<Rightarrow> pyfloat option \<Rightarrow> py_error + slo_report" where
  "slo_metrics env_slo samples duration_s slo_s =
     (case (case slo_s of None \<Rightarrow> env_slo | Some x \<Rightarrow> Inr x) of
        Inl e \<Rightarrow> Inl e
      | Inr slo \<Rightarrow>
          if slo \<le> 0 then Inl ValueError
          else
            let total = int (length samples);
                (met_count, met_tokens) = slo_loop slo samples 0 0
            in Inr \<lparr>sr_slo_s = slo, sr_met_requests = met_count,
                     sr_attainment = (if total \<noteq> 0 then py_round_digits 4 (of_int met_count / of_int total) else 0),
                     sr_effective_throughput =
                       (if 0 < duration_s then py_round_digits 1 (of_int met_tokens / duration_s) else 0)\<rparr>)"

definition ttft_percentiles_all ::
  "sample list \<Rightarrow> pyfloat list \<Rightarrow> pyfloat option \<Rightarrow> py_error + (int, pyfloat) dict" where
  "ttft_percentiles_all samples percentiles miss_value_s =
     (if samples = [] then Inr []
      else
        let observed = map (\<lambda>(ok, t, _). t) (filter (\<lambda>(ok, t, _). ok \<and> 0 < t) samples) in
        if observed = [] then Inr []
        else
          let charge = (case miss_value_s of Some v \<Rightarrow> v | None \<Rightarrow> Max (set observed));
              full = sort (map (\<lambda>(ok, t, _). if ok \<and> 0 < t then t else charge) samples)
          in foldl (\<lambda>res p. case res of Inl e \<Rightarrow> Inl e | Inr out \<Rightarrow>
                 let i = min (py_int (p * of_nat (length full))) (int (length full) - 1);
                     j = (if i < 0 then int (length full) + i else i)
                 in if j < 0 then Inl IndexError
                    else Inr (AList.update (py_int (p * 100))
                           (py_round_digits 1 (full ! nat j * 1000)) out))
               (Inr []) percentiles)"

lemma slo_loop_eq:
  "slo_loop slo xs c t = (c + int (length (filter (meets_slo slo) xs)),
     t + sum_list (map (\<lambda>x. max 0 (snd (snd x))) (filter (meets_slo slo) xs)))"
  by (induction xs arbitrary: c t) auto

end
