(* ===== verification/Adapter_Tracking.thy ===== *)
theory Adapter_Tracking
  imports Prelude
begin

text \<open>
  Two helpers of \<open>src/src/controller/controller.py\<close>: \<open>AdapterRegistry\<close>, the two-way map
  between adapters and workers, and \<open>AdapterFrequencyTracker\<close>, the sliding-window request
  rates. The tracker is only ever built with its default window of 60 seconds.
\<close>

section \<open>AdapterRegistry\<close>

record adapter_registry =
  ar_adapter_to_workers :: "(adapter, int pyset) dict"
  ar_worker_to_adapter :: "(int, adapter) dict"

definition adapter_registry_init :: adapter_registry where
  "adapter_registry_init = \<lparr>ar_adapter_to_workers = [], ar_worker_to_adapter = []\<rparr>"

text \<open>Both updates go through a \<open>defaultdict(set)\<close>.\<close>

definition discard_worker :: "adapter \<Rightarrow> int \<Rightarrow> adapter_registry \<Rightarrow> adapter_registry" where
  "discard_worker a wid r = r\<lparr>ar_adapter_to_workers :=
     AList.update a (set_discard wid (dict_get (ar_adapter_to_workers r) a [])) (ar_adapter_to_workers r)\<rparr>"

definition add_worker :: "adapter \<Rightarrow> int \<Rightarrow> adapter_registry \<Rightarrow> adapter_registry" where
  "add_worker a wid r = r\<lparr>ar_adapter_to_workers :=
     AList.update a (set_add wid (dict_get (ar_adapter_to_workers r) a [])) (ar_adapter_to_workers r)\<rparr>"

definition ar_register :: "int \<Rightarrow> adapter \<Rightarrow> adapter_registry \<Rightarrow> adapter_registry" where
  "ar_register wid a r =
     (let r1 = (case map_of (ar_worker_to_adapter r) wid of
                  None \<Rightarrow> r
                | Some old_adapter \<Rightarrow> if truthy old_adapter then discard_worker old_adapter wid r else r);
          r2 = r1\<lparr>ar_worker_to_adapter := AList.update wid a (ar_worker_to_adapter r1)\<rparr>
      in add_worker a wid r2)"

definition ar_unregister :: "int \<Rightarrow> adapter_registry \<Rightarrow> adapter_registry" where
  "ar_unregister wid r =
     (let r1 = r\<lparr>ar_worker_to_adapter := AList.delete wid (ar_worker_to_adapter r)\<rparr>
      in case map_of (ar_worker_to_adapter r) wid of
           None \<Rightarrow> r1
         | Some a \<Rightarrow> if truthy a then discard_worker a wid r1 else r1)"

definition get_workers_for_adapter :: "adapter_registry \<Rightarrow> adapter \<Rightarrow> int pyset" where
  "get_workers_for_adapter r a = dict_get (ar_adapter_to_workers r) a []"

definition get_adapter_for_worker :: "adapter_registry \<Rightarrow> int \<Rightarrow> adapter" where
  "get_adapter_for_worker r wid = dict_get (ar_worker_to_adapter r) wid None"

definition ar_get_all_adapters :: "adapter_registry \<Rightarrow> adapter list" where
  "ar_get_all_adapters r = map fst (filter (\<lambda>(a, ws). ws \<noteq> []) (ar_adapter_to_workers r))"

text \<open>
  The two maps agree on every real adapter. For the empty adapter (\<open>None\<close> or \<open>""\<close>) only
  one direction holds: registering a worker anew does not take it out of that set.
\<close>

definition ar_inv :: "adapter_registry \<Rightarrow> bool" where
  "ar_inv r \<longleftrightarrow> (\<forall>a wid. map_of (ar_worker_to_adapter r) wid = Some a \<longrightarrow> wid \<in> set (get_workers_for_adapter r a)) \<and>
     (\<forall>a wid. truthy a \<longrightarrow> wid \<in> set (get_workers_for_adapter r a) \<longrightarrow>
        map_of (ar_worker_to_adapter r) wid = Some a) \<and>
     (\<forall>a. distinct (get_workers_for_adapter r a))"

lemma workers_discard [simp]:
  "get_workers_for_adapter (discard_worker a wid r) b =
     (if b = a then set_discard wid (get_workers_for_adapter r a) else get_workers_for_adapter r b)"
  by (simp add: get_workers_for_adapter_def discard_worker_def)

lemma workers_add [simp]:
  "get_workers_for_adapter (add_worker a wid r) b =
     (if b = a then set_add wid (get_workers_for_adapter r a) else get_workers_for_adapter r b)"
  by (simp add: get_workers_for_adapter_def add_worker_def)

lemma workers_frame [simp]:
  "get_workers_for_adapter (r\<lparr>ar_worker_to_adapter := m\<rparr>) a = get_workers_for_adapter r a"
  by (simp add: get_workers_for_adapter_def)

lemma w2a_frame [simp]:
  "ar_worker_to_adapter (discard_worker a wid r) = ar_worker_to_adapter r"
  "ar_worker_to_adapter (add_worker a wid r) = ar_worker_to_adapter r"
  by (simp_all add: discard_worker_def add_worker_def)

lemma ar_register_w2a:
  "map_of (ar_worker_to_adapter (ar_register wid a r)) w = (if w = wid then Some a else map_of (ar_worker_to_adapter r) w)"
  by (auto simp: ar_register_def Let_def update_conv' split: option.split)

lemma ar_unregister_w2a:
  "map_of (ar_worker_to_adapter (ar_unregister wid r)) w = (if w = wid then None else map_of (ar_worker_to_adapter r) w)"
  by (auto simp: ar_unregister_def Let_def delete_conv' split: option.split)

lemma ar_register_workers:
  "set (get_workers_for_adapter (ar_register wid a r) b) =
     (if b = a then insert wid (set (get_workers_for_adapter r b))
      else if truthy b \<and> map_of (ar_worker_to_adapter r) wid = Some b then set (get_workers_for_adapter r b) - {wid}
      else set (get_workers_for_adapter r b))"
  by (auto simp: ar_register_def Let_def split: option.split)

lemma ar_unregister_workers:
  "set (get_workers_for_adapter (ar_unregister wid r) b) =
     (if truthy b \<and> map_of (ar_worker_to_adapter r) wid = Some b then set (get_workers_for_adapter r b) - {wid}
      else set (get_workers_for_adapter r b))"
  by (auto simp: ar_unregister_def Let_def split: option.split)

lemma ar_distinct:
  assumes "\<forall>a. distinct (get_workers_for_adapter r a)"
  shows "distinct (get_workers_for_adapter (ar_register wid a r) b)"
    and "distinct (get_workers_for_adapter (ar_unregister wid r) b)"
  using assms by (auto simp: ar_register_def ar_unregister_def Let_def split: option.split)

lemma ar_init_inv: "ar_inv adapter_registry_init"
  by (simp add: ar_inv_def adapter_registry_init_def get_workers_for_adapter_def)

lemma ar_invI:
  assumes "\<And>a wid. map_of (ar_worker_to_adapter r) wid = Some a \<Longrightarrow> wid \<in> set (get_workers_for_adapter r a)"
    and "\<And>a wid. truthy a \<Longrightarrow> wid \<in> set (get_workers_for_adapter r a) \<Longrightarrow> map_of (ar_worker_to_adapter r) wid = Some a"
    and "\<And>a. distinct (get_workers_for_adapter r a)"
  shows "ar_inv r"
  using assms unfolding ar_inv_def by blast

lemma ar_invD:
  assumes "ar_inv r"
  shows "map_of (ar_worker_to_adapter r) wid = Some a \<Longrightarrow> wid \<in> set (get_workers_for_adapter r a)"
    and "truthy a \<Longrightarrow> wid \<in> set (get_workers_for_adapter r a) \<Longrightarrow> map_of (ar_worker_to_adapter r) wid = Some a"
    and "\<forall>a. distinct (get_workers_for_adapter r a)"
  using assms unfolding ar_inv_def by blast+

lemma ar_register_inv:
  assumes inv: "ar_inv r"
  shows "ar_inv (ar_register wid a r)"
proof (rule ar_invI)
  fix b w
  show "w \<in> set (get_workers_for_adapter (ar_register wid a r) b)"
    if "map_of (ar_worker_to_adapter (ar_register wid a r)) w = Some b"
    using that ar_invD(1) [OF inv, of w b] by (auto simp: ar_register_w2a ar_register_workers split: if_split_asm)
  show "map_of (ar_worker_to_adapter (ar_register wid a r)) w = Some b"
    if "truthy b" "w \<in> set (get_workers_for_adapter (ar_register wid a r) b)"
    using that ar_invD(2) [OF inv, of b w] by (auto simp: ar_register_w2a ar_register_workers split: if_split_asm)
  show "distinct (get_workers_for_adapter (ar_register wid a r) b)"
    using ar_invD(3) [OF inv] by (rule ar_distinct)
qed

lemma ar_unregister_inv:
  assumes inv: "ar_inv r"
  shows "ar_inv (ar_unregister wid r)"
proof (rule ar_invI)
  fix b w
  show "w \<in> set (get_workers_for_adapter (ar_unregister wid r) b)"
    if "map_of (ar_worker_to_adapter (ar_unregister wid r)) w = Some b"
    using that ar_invD(1) [OF inv, of w b] by (auto simp: ar_unregister_w2a ar_unregister_workers split: if_split_asm)
  show "map_of (ar_worker_to_adapter (ar_unregister wid r)) w = Some b"
    if "truthy b" "w \<in> set (get_workers_for_adapter (ar_unregister wid r) b)"
    using that ar_invD(2) [OF inv, of b w] by (auto simp: ar_unregister_w2a ar_unregister_workers split: if_split_asm)
  show "distinct (get_workers_for_adapter (ar_unregister wid r) b)"
    using ar_invD(3) [OF inv] by (rule ar_distinct)
qed

text \<open>A sequence of calls: \<open>Some a\<close> registers the worker for \<open>a\<close>, \<open>None\<close> unregisters it.\<close>

definition ar_call :: "adapter_registry \<Rightarrow> int \<times> adapter option \<Rightarrow> adapter_registry" where
  "ar_call r = (\<lambda>(wid, c). case c of Some a \<Rightarrow> ar_register wid a r | None \<Rightarrow> ar_unregister wid r)"

definition ar_run :: "(int \<times> adapter option) list \<Rightarrow> adapter_registry" where
  "ar_run = foldl ar_call adapter_registry_init"

lemma ar_run_inv: "ar_inv (ar_run cs)"
proof -
  have "ar_inv r \<Longrightarrow> ar_inv (foldl ar_call r cs)" for r
    by (induction cs arbitrary: r) (auto simp: ar_call_def ar_register_inv ar_unregister_inv split: option.split)
  then show ?thesis by (simp add: ar_run_def ar_init_inv)
qed

lemma ar_run_snoc [simp]: "ar_run (cs @ [c]) = ar_call (ar_run cs) c"
  by (simp add: ar_run_def)

lemma ar_run_worker:
  "map_of (ar_worker_to_adapter (ar_run cs)) wid =
     (case map_of (rev cs) wid of None \<Rightarrow> None | Some c \<Rightarrow> c)"
proof (induction cs rule: rev_induct)
  case Nil
  then show ?case by (simp add: ar_run_def adapter_registry_init_def)
next
  case (snoc c cs)
  then show ?case
    by (cases c) (auto simp: ar_call_def ar_register_w2a ar_unregister_w2a split: option.split)
qed

section \<open>AdapterFrequencyTracker\<close>

type_synonym tracker = "(adapter, pyfloat list) dict"

definition frequency_window :: pyfloat where
  "frequency_window = 60"

definition prune :: "pyfloat \<Rightarrow> pyfloat list \<Rightarrow> pyfloat list" where
  "prune now ts = filter (\<lambda>t. now - frequency_window < t) ts"

definition ft_record_request :: "pyfloat \<Rightarrow> adapter \<Rightarrow> tracker \<Rightarrow> tracker" where
  "ft_record_request now a tr =
     (let ts = dict_get tr a [] @ [now]
      in AList.update a (if 200 < length ts then prune now ts else ts) tr)"

definition ft_get_request_rate :: "pyfloat \<Rightarrow> adapter \<Rightarrow> tracker \<Rightarrow> pyfloat \<times> tracker" where
  "ft_get_request_rate now a tr =
     (case map_of tr a of
        None \<Rightarrow> (0, tr)
      | Some ts0 \<Rightarrow>
          let ts = prune now ts0; tr1 = AList.update a ts tr
          in if ts = [] then (0, tr1) else (of_nat (length ts) / frequency_window, tr1))"

text \<open>\<open>{aid: get_request_rate(aid) for aid in _timestamps}\<close>.\<close>

fun rates_of :: "pyfloat \<Rightarrow> adapter list \<Rightarrow> tracker \<Rightarrow> rat list \<times> tracker" where
  "rates_of now [] tr = ([], tr)"
| "rates_of now (a # as) tr =
     (let (r, tr1) = ft_get_request_rate now a tr; (rs, tr2) = rates_of now as tr1 in (r # rs, tr2))"

text \<open>One reading of the clock stands for those of all the looks of \<open>get_all_rates\<close>.\<close>

definition ft_all_rates :: "pyfloat \<Rightarrow> tracker \<Rightarrow> (adapter, pyfloat) dict \<times> tracker" where
  "ft_all_rates now tr = (let (rs, tr1) = rates_of now (dict_keys tr) tr in (zip (dict_keys tr) rs, tr1))"

text \<open>
  Abstractly a tracker is the list of all requests so far. It represents a history when
  every later look through the window sees the same requests.
\<close>

type_synonym history = "(adapter \<times> pyfloat) list"

definition hist_times :: "history \<Rightarrow> adapter \<Rightarrow> pyfloat list" where
  "hist_times h a = map snd (filter (\<lambda>(b, _). b = a) h)"

definition hist_rate :: "pyfloat \<Rightarrow> history \<Rightarrow> adapter \<Rightarrow> pyfloat" where
  "hist_rate now h a = of_nat (length (filter (\<lambda>t. now - 60 < t) (hist_times h a))) / 60"

definition represents :: "pyfloat \<Rightarrow> tracker \<Rightarrow> history \<Rightarrow> bool" where
  "represents now tr h \<longleftrightarrow>
     (\<forall>a x. now \<le> x \<longrightarrow> prune x (dict_get tr a []) = prune x (hist_times h a))"

lemma prune_prune: "now \<le> x \<Longrightarrow> prune x (prune now ts) = prune x ts"
  by (auto simp: prune_def intro!: filter_cong)

lemma prune_Nil [simp]: "prune x [] = []"
  by (simp add: prune_def)

lemma prune_append [simp]: "prune x (xs @ ys) = prune x xs @ prune x ys"
  by (simp add: prune_def)

lemma hist_times_snoc: "hist_times (h @ [(b, t)]) a = hist_times h a @ (if a = b then [t] else [])"
  by (simp add: hist_times_def)

lemma represents_init: "represents now [] []"
  by (simp add: represents_def hist_times_def)

lemma represents_record:
  assumes "represents now tr h" and "now \<le> now'"
  shows "represents now' (ft_record_request now' b tr) (h @ [(b, now')])"
  using assms by (auto simp: represents_def ft_record_request_def Let_def prune_prune hist_times_snoc)

lemma represents_rate:
  assumes "represents now tr h" and "now \<le> now'"
  shows "fst (ft_get_request_rate now' b tr) = hist_rate now' h b \<and>
    represents now' (snd (ft_get_request_rate now' b tr)) h"
proof -
  have eq: "prune now' (dict_get tr b []) = prune now' (hist_times h b)"
    using assms by (simp add: represents_def)
  show ?thesis
  proof (cases "map_of tr b")
    case None
    then have "prune now' (hist_times h b) = []" using eq by (simp add: prune_def)
    with None assms show ?thesis
      by (simp add: ft_get_request_rate_def hist_rate_def represents_def prune_def frequency_window_def)
  next
    case (Some ts)
    then have p: "prune now' ts = prune now' (hist_times h b)" using eq by simp
    have "dict_get tr b [] = ts" using Some by simp
    then have "prune x (prune now' ts) = prune x (hist_times h b)" if "now' \<le> x" for x
      using assms that unfolding represents_def by (metis order.trans prune_prune)
    with Some p assms show ?thesis
      by (auto simp: ft_get_request_rate_def hist_rate_def represents_def Let_def frequency_window_def)
        (simp_all add: prune_def frequency_window_def)
  qed
qed

lemma rates_of_spec:
  assumes "represents now tr h" and "now \<le> now'"
  shows "fst (rates_of now' as tr) = map (hist_rate now' h) as \<and> represents now' (snd (rates_of now' as tr)) h"
  using assms
proof (induction as arbitrary: tr now)
  case Nil
  then show ?case by (simp add: represents_def)
next
  case (Cons a as)
  have "represents now' (snd (ft_get_request_rate now' a tr)) h"
    using represents_rate [OF Cons.prems] by blast
  from Cons.IH [OF this] represents_rate [OF Cons.prems, of a] show ?case
    by (simp add: Let_def case_prod_unfold)
qed

lemma ft_all_rates_spec:
  assumes "represents now tr h" and "now \<le> now'"
  shows "fst (ft_all_rates now' tr) = map (\<lambda>a. (a, hist_rate now' h a)) (dict_keys tr) \<and>
    represents now' (snd (ft_all_rates now' tr)) h"
proof -
  have "zip as (map f as) = map (\<lambda>a. (a, f a)) as" for f :: "adapter \<Rightarrow> pyfloat" and as
    by (induction as) simp_all
  with rates_of_spec [OF assms, of "dict_keys tr"] show ?thesis
    by (simp add: ft_all_rates_def Let_def case_prod_unfold del: map_map)
qed

text \<open>
  Calls of the tracker, each with its reading of the clock: requests that are recorded, looks
  at one rate, and looks at all of them. Every look prunes what it reads.
\<close>

datatype tracker_call = Record_request adapter | Get_rate adapter | Get_all_rates

definition tracker_step :: "tracker \<Rightarrow> pyfloat \<times> tracker_call \<Rightarrow> tracker" where
  "tracker_step tr = (\<lambda>(now, call). case call of
      Record_request a \<Rightarrow> ft_record_request now a tr
    | Get_rate a \<Rightarrow> snd (ft_get_request_rate now a tr)
    | Get_all_rates \<Rightarrow> snd (ft_all_rates now tr))"

definition tracker_run :: "(pyfloat \<times> tracker_call) list \<Rightarrow> tracker" where
  "tracker_run = foldl tracker_step []"

definition requests_of :: "(pyfloat \<times> tracker_call) list \<Rightarrow> history" where
  "requests_of cs = concat (map (\<lambda>(now, call). case call of Record_request a \<Rightarrow> [(a, now)] | _ \<Rightarrow> []) cs)"

lemma represents_later: "represents now tr h \<Longrightarrow> now \<le> now' \<Longrightarrow> represents now' tr h"
  by (auto simp: represents_def)

lemma tracker_step_represents:
  assumes "represents now tr h" "now \<le> now'"
  shows "represents now' (tracker_step tr (now', call)) (h @ requests_of [(now', call)])"
  using represents_record [OF assms] represents_rate [OF assms] ft_all_rates_spec [OF assms]
  by (cases call) (simp_all add: tracker_step_def requests_of_def)

lemma tracker_run_represents:
  assumes "sorted (map fst cs)" "\<forall>(t, call) \<in> set cs. t \<le> now"
  shows "represents now (tracker_run cs) (requests_of cs)"
  using assms
proof (induction cs arbitrary: now rule: rev_induct)
  case Nil
  then show ?case by (simp add: tracker_run_def requests_of_def represents_init)
next
  case (snoc c cs)
  obtain t call where c: "c = (t, call)" by (cases c)
  have "represents t (tracker_run cs) (requests_of cs)"
    using snoc.prems(1) by (intro snoc.IH) (auto simp: c sorted_append)
  from tracker_step_represents [OF this order_refl, of call]
  have "represents t (tracker_run (cs @ [c])) (requests_of (cs @ [c]))"
    by (simp add: tracker_run_def requests_of_def c)
  then show ?case by (rule represents_later) (use snoc.prems(2) in \<open>simp add: c\<close>)
qed

text \<open>An adapter is known from its first request on.\<close>

lemma ft_record_keys: "set (dict_keys (ft_record_request now a tr)) = insert a (set (dict_keys tr))"
  by (auto simp: ft_record_request_def Let_def dom_update)

lemma ft_rate_keys: "set (dict_keys (snd (ft_get_request_rate now a tr))) = set (dict_keys tr)"
proof (cases "map_of tr a")
  case (Some ts)
  then have "a \<in> set (dict_keys tr)" by (metis map_of_None_keys option.distinct(1))
  with Some show ?thesis by (auto simp: ft_get_request_rate_def Let_def dom_update)
qed (simp add: ft_get_request_rate_def)

lemma rates_of_keys: "set (dict_keys (snd (rates_of now as tr))) = set (dict_keys tr)"
proof (induction as arbitrary: tr)
  case (Cons a as)
  show ?case
    using Cons.IH [of "snd (ft_get_request_rate now a tr)"] ft_rate_keys [of now a tr]
    by (simp add: Let_def case_prod_unfold)
qed simp

lemma tracker_run_keys: "set (dict_keys (tracker_run cs)) = fst ` set (requests_of cs)"
proof (induction cs rule: rev_induct)
  case Nil
  then show ?case by (simp add: tracker_run_def requests_of_def)
next
  case (snoc c cs)
  obtain t call where c: "c = (t, call)" by (cases c)
  have run: "tracker_run (cs @ [c]) = tracker_step (tracker_run cs) c" by (simp add: tracker_run_def)
  have req: "requests_of (cs @ [c]) = requests_of cs @ requests_of [c]" by (simp add: requests_of_def)
  have all: "set (dict_keys (snd (ft_all_rates t tr))) = set (dict_keys tr)" for tr
    using rates_of_keys [of t "dict_keys tr" tr] by (simp add: ft_all_rates_def Let_def case_prod_unfold)
  show ?case
    unfolding run req using snoc.IH
    by (cases call)
      (simp_all add: c tracker_step_def requests_of_def ft_record_keys ft_rate_keys all image_Un insert_commute Un_insert_right del: set_map)
qed

end
