(* ===== verification/Worker_Pool.thy ===== *)
theory Worker_Pool
  imports Random_Sched Admission Adapter_Tracking
begin

text \<open>
  The worker pool of \<open>AsyncLoadBalancer\<close> in \<open>src/src/controller/controller.py\<close>: its state,
  spawning, stopping, reaping, health checks and adapter swaps.

  Coroutines hold on to \<open>WorkerInfo\<close> objects after the object has left
  \<open>self.workers\<close>, and a worker id is reused, so the objects live in a store and
  \<open>lb_workers\<close> maps an id to the object's address. An operation that waits for the network
  or a process is cut at that point; the answer is an argument of the next part. The locks
  are never held across such a point. The processes themselves are not modelled.
\<close>

section \<open>State\<close>

datatype worker_status = W_STARTING | W_READY | W_SWAPPING | W_UNHEALTHY | W_STOPPING

fun worker_status_value :: "worker_status \<Rightarrow> string" where
  "worker_status_value W_STARTING = ''starting''"
| "worker_status_value W_READY = ''ready''"
| "worker_status_value W_SWAPPING = ''swapping''"
| "worker_status_value W_UNHEALTHY = ''unhealthy''"
| "worker_status_value W_STOPPING = ''stopping''"

record worker_info =
  wi_worker_id :: int
  wi_http_port :: int
  wi_adapter_id :: adapter
  wi_status :: worker_status
  wi_device :: string
  wi_active_requests :: int
  wi_reported_active_slots :: int
  wi_reported_gpu_memory_free_mb :: int
  wi_reported_gpu_memory_total_mb :: int
  wi_last_health_check :: pyfloat
  wi_spawned_at :: pyfloat
  wi_last_request_at :: pyfloat
  wi_requests_handled :: int
  wi_total_inference_ms :: pyfloat
  wi_total_swap_ms :: pyfloat

definition mk_worker :: "pyfloat \<Rightarrow> int \<Rightarrow> int \<Rightarrow> adapter \<Rightarrow> string \<Rightarrow> worker_info" where
  "mk_worker now worker_id http_port a device = \<lparr>wi_worker_id = worker_id, wi_http_port = http_port,
     wi_adapter_id = a, wi_status = W_STARTING, wi_device = device, wi_active_requests = 0,
     wi_reported_active_slots = 0, wi_reported_gpu_memory_free_mb = 0, wi_reported_gpu_memory_total_mb = 0,
     wi_last_health_check = 0, wi_spawned_at = now, wi_last_request_at = 0, wi_requests_handled = 0,
     wi_total_inference_ms = 0, wi_total_swap_ms = 0\<rparr>"

definition avg_inference_ms :: "worker_info \<Rightarrow> pyfloat" where
  "avg_inference_ms w =
     (if wi_requests_handled w = 0 then 0 else wi_total_inference_ms w / of_int (wi_requests_handled w))"

definition worker_idle_time :: "pyfloat \<Rightarrow> worker_info \<Rightarrow> pyfloat" where
  "worker_idle_time now w =
     (if wi_last_request_at w = 0 then now - wi_spawned_at w else now - wi_last_request_at w)"

record lb_stats =
  st_requests_total :: int
  st_requests_matched :: int
  st_requests_swapped :: int
  st_requests_spawned :: int
  st_requests_queued :: int
  st_workers_scaled_down :: int
  st_total_swap_ms :: pyfloat
  st_total_inference_ms :: pyfloat
  st_queue_depth :: int

text \<open>A queued request; its future is known by number.\<close>

record pending_request =
  pr_adapter_id :: adapter
  pr_future :: nat
  pr_deadline :: pyfloat
  pr_enqueued_at :: pyfloat
  pr_cold :: bool

datatype future = F_Pending | F_Result nat | F_Cancelled

record 'r load_balancer =
  lb_max_workers :: int
  lb_base_port :: int
  lb_default_adapter :: adapter
  lb_min_workers :: int
  lb_scale_down_delay :: pyfloat
  lb_worker_devices :: "string list"
  lb_scheduler_config :: sched_config
  lb_scheduler :: scheduler
  lb_gpu_worker_caps :: "(string, int) dict option"
  lb_gpu_worker_count :: "(string, int) dict"
  lb_aggregator_ready :: "(string, bool) dict"
  lb_heap :: "(nat, worker_info) dict"
  lb_next_oid :: nat
  lb_workers :: "(int, nat) dict"
  lb_registry :: adapter_registry
  lb_tracker :: tracker
  lb_stats_of :: lb_stats
  lb_idempotency :: "(string, pyfloat \<times> 'r) dict"
  lb_slo_s :: pyfloat
  lb_recent_drops :: "pyfloat list"
  lb_e1_s :: pyfloat
  lb_e1_n :: int
  lb_pending :: "pending_request list"
  lb_futures :: "(nat, future) dict"
  lb_next_future :: nat
  lb_spawns_in_progress :: "adapter list"
  lb_recent_arrivals :: "pyfloat list"
  lb_worker_available :: bool

definition drop_window_s :: pyfloat where "drop_window_s = 5"
definition burst_window :: pyfloat where "burst_window = 2"
definition burst_threshold :: int where "burst_threshold = 10"
definition burst_spawn_cap :: int where "burst_spawn_cap = 20"

definition zero_stats :: lb_stats where
  "zero_stats = \<lparr>st_requests_total = 0, st_requests_matched = 0, st_requests_swapped = 0,
     st_requests_spawned = 0, st_requests_queued = 0, st_workers_scaled_down = 0, st_total_swap_ms = 0,
     st_total_inference_ms = 0, st_queue_depth = 0\<rparr>"

text \<open>\<open>__init__\<close>: the arguments that the modelled code reads.\<close>

record lb_args =
  la_max_workers :: int
  la_base_port :: int
  la_default_adapter :: adapter
  la_min_workers :: int
  la_scale_down_delay :: pyfloat
  la_worker_devices :: "string list"
  la_scheduler :: "scheduler option"
  la_scheduler_config :: "sched_config option"
  la_gpu_worker_caps :: "(string, int) dict option"

definition lb_init :: "lb_args \<Rightarrow> pyfloat \<Rightarrow> 'r load_balancer" where
  "lb_init p slo_s =
     (let devices = (if la_worker_devices p = [] then [''cuda:0''] else la_worker_devices p);
          cfg = (case la_scheduler_config p of None \<Rightarrow> default_sched_config | Some c \<Rightarrow> c)
      in \<lparr>lb_max_workers = la_max_workers p, lb_base_port = la_base_port p,
          lb_default_adapter = la_default_adapter p, lb_min_workers = la_min_workers p,
          lb_scale_down_delay = la_scale_down_delay p, lb_worker_devices = devices, lb_scheduler_config = cfg,
          lb_scheduler = (case la_scheduler p of
             None \<Rightarrow> LoRant (lorant_init cfg (1/10) (1/5)) | Some sch \<Rightarrow> sch),
          lb_gpu_worker_caps = la_gpu_worker_caps p,
          lb_gpu_worker_count = foldl (\<lambda>d dev. AList.update dev 0 d) [] devices,
          lb_aggregator_ready = [], lb_heap = [], lb_next_oid = 0, lb_workers = [],
          lb_registry = adapter_registry_init, lb_tracker = [], lb_stats_of = zero_stats, lb_idempotency = [],
          lb_slo_s = slo_s, lb_recent_drops = [], lb_e1_s = 0, lb_e1_n = 0, lb_pending = [], lb_futures = [],
          lb_next_future = 0, lb_spawns_in_progress = [], lb_recent_arrivals = [], lb_worker_available = False\<rparr>)"

section \<open>Access to worker objects\<close>

definition upd_worker :: "nat \<Rightarrow> (worker_info \<Rightarrow> worker_info) \<Rightarrow> 'r load_balancer \<Rightarrow> 'r load_balancer" where
  "upd_worker oid f s =
     (case map_of (lb_heap s) oid of
        None \<Rightarrow> s
      | Some w \<Rightarrow> s\<lparr>lb_heap := AList.update oid (f w) (lb_heap s)\<rparr>)"

text \<open>\<open>self.workers.get(wid)\<close>, as an address, and as an object.\<close>

definition worker_oid :: "'r load_balancer \<Rightarrow> int \<Rightarrow> nat option" where
  "worker_oid s wid = map_of (lb_workers s) wid"

definition pool_workers :: "'r load_balancer \<Rightarrow> worker_info list" where
  "pool_workers s = List.map_filter (map_of (lb_heap s)) (dict_values (lb_workers s))"

definition upd_stats :: "(lb_stats \<Rightarrow> lb_stats) \<Rightarrow> 'r load_balancer \<Rightarrow> 'r load_balancer" where
  "upd_stats f s = s\<lparr>lb_stats_of := f (lb_stats_of s)\<rparr>"

definition wake :: "'r load_balancer \<Rightarrow> 'r load_balancer" where
  "wake s = s\<lparr>lb_worker_available := True\<rparr>"

definition release_gpu :: "string \<Rightarrow> (string, int) dict \<Rightarrow> (string, int) dict" where
  "release_gpu dev d = AList.update dev (max 0 (dict_get d dev 1 - 1)) d"

definition build_worker_snapshots :: "pyfloat \<Rightarrow> 'r load_balancer \<Rightarrow> snapshots" where
  "build_worker_snapshots now s = foldl (\<lambda>d w. AList.update (wi_worker_id w)
     \<lparr>ws_worker_id = wi_worker_id w, ws_adapter_id = wi_adapter_id w,
      ws_status = worker_status_value (wi_status w), ws_active_requests = wi_active_requests w,
      ws_idle_time = worker_idle_time now w, ws_device = wi_device w\<rparr> d) [] (pool_workers s)"

section \<open>Worker ids and devices\<close>

definition get_next_worker_id :: "'r load_balancer \<Rightarrow> int" where
  "get_next_worker_id s =
     (case find (\<lambda>i. i \<notin> set (dict_keys (lb_workers s))) (map int [0..<nat (lb_max_workers s)]) of
        Some i \<Rightarrow> i
      | None \<Rightarrow> -1)"

fun pick_device_loop :: "'r load_balancer \<Rightarrow> string list \<Rightarrow> string option" where
  "pick_device_loop s [] = None"
| "pick_device_loop s (dev # rest) =
     (case lb_gpu_worker_caps s of
        None \<Rightarrow> Some dev
      | Some caps \<Rightarrow>
          if dict_get (lb_gpu_worker_count s) dev 0 < dict_get caps dev (lb_max_workers s) then Some dev
          else pick_device_loop s rest)"

definition pick_device :: "'r load_balancer \<Rightarrow> string option" where
  "pick_device s = pick_device_loop s (lb_worker_devices s)"

text \<open>The device whose aggregator is launched ahead of time, if any.\<close>

fun next_device :: "string \<Rightarrow> string list \<Rightarrow> string option" where
  "next_device device [] = None"
| "next_device device (d # ds) =
     (if d = device then (case ds of [] \<Rightarrow> None | n # _ \<Rightarrow> Some n) else next_device device ds)"

definition prelaunch_target :: "string \<Rightarrow> 'r load_balancer \<Rightarrow> string option" where
  "prelaunch_target device s =
     (case lb_gpu_worker_caps s of
        None \<Rightarrow> None
      | Some caps \<Rightarrow>
          if dict_get (lb_gpu_worker_count s) device 0 < py_int (of_int (dict_get caps device (lb_max_workers s)) * (4/5))
          then None
          else (case next_device device (lb_worker_devices s) of
                  None \<Rightarrow> None
                | Some n \<Rightarrow> if dict_get (lb_aggregator_ready s) n False then None else Some n))"

section \<open>Aggregators\<close>

text \<open>
  \<open>_ensure_aggregator\<close> and \<open>_launch_aggregator\<close>: \<open>prelaunched\<close> says whether the health port
  answers "ready" before a launch, \<open>ports_known\<close> whether all three ports are configured,
  \<open>came_up\<close> whether the launched process becomes ready in time.
\<close>

definition donor_device :: "'r load_balancer \<Rightarrow> string option" where
  "donor_device s = map_option fst (find snd (lb_aggregator_ready s))"

definition aggregator_up :: "string \<Rightarrow> 'r load_balancer \<Rightarrow> 'r load_balancer" where
  "aggregator_up device s = s\<lparr>lb_aggregator_ready := AList.update device True (lb_aggregator_ready s)\<rparr>"

definition ensure_aggregator ::
  "string \<Rightarrow> bool \<Rightarrow> bool \<Rightarrow> bool \<Rightarrow> 'r load_balancer \<Rightarrow> bool \<times> 'r load_balancer" where
  "ensure_aggregator device prelaunched ports_known came_up s =
     (if dict_get (lb_aggregator_ready s) device False then (True, s)
      else if prelaunched then (True, aggregator_up device s)
      else if donor_device s = None then (False, s)
      else if \<not> ports_known then (False, s)
      else if came_up then (True, aggregator_up device s)
      else (False, s))"

section \<open>Spawning\<close>

text \<open>
  Between its two locked blocks a spawn holds a worker id (not yet claimed) and a GPU slot.
  The coroutine may end there by an exception (of the launch of the aggregator or of the
  worker's process) or because it is cancelled (the time limit for the initial workers);
  nothing gives the slot back then.
\<close>

record reservation =
  rv_worker_id :: int
  rv_device :: string
  rv_alive :: bool

definition spawn_begin :: "'r load_balancer \<Rightarrow> reservation option \<times> 'r load_balancer" where
  "spawn_begin s =
     (let worker_id = get_next_worker_id s
      in if worker_id < 0 then (None, s)
         else case pick_device s of
           None \<Rightarrow> (None, s)
         | Some device \<Rightarrow>
             (Some \<lparr>rv_worker_id = worker_id, rv_device = device, rv_alive = True\<rparr>,
              s\<lparr>lb_gpu_worker_count := AList.update device
                  (dict_get (lb_gpu_worker_count s) device 0 + 1) (lb_gpu_worker_count s)\<rparr>))"

definition spawn_crash :: "reservation \<Rightarrow> reservation" where
  "spawn_crash rv = rv\<lparr>rv_alive := False\<rparr>"

text \<open>The GPU slot is given back without a lower bound: \<open>self._gpu_worker_count[device] -= 1\<close>.\<close>

definition drop_reservation :: "string \<Rightarrow> 'r load_balancer \<Rightarrow> 'r load_balancer" where
  "drop_reservation device s = s\<lparr>lb_gpu_worker_count :=
     AList.update device (dict_get (lb_gpu_worker_count s) device 0 - 1) (lb_gpu_worker_count s)\<rparr>"

definition insert_worker :: "pyfloat \<Rightarrow> int \<Rightarrow> adapter \<Rightarrow> string \<Rightarrow> 'r load_balancer \<Rightarrow> 'r load_balancer" where
  "insert_worker now worker_id a device s =
     s\<lparr>lb_heap := AList.update (lb_next_oid s)
         (mk_worker now worker_id (lb_base_port s + worker_id * 10) a device) (lb_heap s),
       lb_workers := AList.update worker_id (lb_next_oid s) (lb_workers s),
       lb_next_oid := Suc (lb_next_oid s)\<rparr>"

definition spawn_claim ::
  "pyfloat \<Rightarrow> reservation \<Rightarrow> adapter \<Rightarrow> 'r load_balancer \<Rightarrow> nat option \<times> 'r load_balancer" where
  "spawn_claim now rv a s =
     (let worker_id = (if rv_worker_id rv \<in> set (dict_keys (lb_workers s)) then get_next_worker_id s
                       else rv_worker_id rv)
      in if worker_id < 0 then (None, drop_reservation (rv_device rv) s)
         else (Some (lb_next_oid s), insert_worker now worker_id a (rv_device rv) s))"

text \<open>The \<open>/health\<close> poll answered "ready": the end of \<open>_wait_for_worker_ready\<close> and of \<open>spawn_worker\<close>.\<close>

definition worker_ready :: "pyfloat \<Rightarrow> nat \<Rightarrow> 'r load_balancer \<Rightarrow> 'r load_balancer" where
  "worker_ready now oid s = upd_worker oid (\<lambda>w. w\<lparr>wi_status := W_READY, wi_spawned_at := now\<rparr>) s"

definition register_worker :: "nat \<Rightarrow> adapter \<Rightarrow> 'r load_balancer \<Rightarrow> 'r load_balancer" where
  "register_worker oid a s =
     (case map_of (lb_heap s) oid of
        None \<Rightarrow> s
      | Some w \<Rightarrow> s\<lparr>lb_registry := ar_register (wi_worker_id w) a (lb_registry s)\<rparr>)"

definition spawn_ready :: "pyfloat \<Rightarrow> nat \<Rightarrow> adapter \<Rightarrow> 'r load_balancer \<Rightarrow> 'r load_balancer" where
  "spawn_ready now oid a s = wake (register_worker oid a (worker_ready now oid s))"

section \<open>Stopping\<close>

definition remove_worker :: "int \<Rightarrow> 'r load_balancer \<Rightarrow> 'r load_balancer" where
  "remove_worker worker_id s =
     (let s1 = (case map_of (lb_workers s) worker_id of
                  None \<Rightarrow> s
                | Some oid \<Rightarrow>
                    let s0 = s\<lparr>lb_workers := AList.delete worker_id (lb_workers s)\<rparr>
                    in case map_of (lb_heap s) oid of
                         None \<Rightarrow> s0
                       | Some w \<Rightarrow> s0\<lparr>lb_gpu_worker_count := release_gpu (wi_device w) (lb_gpu_worker_count s)\<rparr>)
      in s1\<lparr>lb_registry := ar_unregister worker_id (lb_registry s1)\<rparr>)"

text \<open>\<open>_stop_worker\<close> before and after the shutdown call and the wait for the process.\<close>

definition stop_begin :: "nat \<Rightarrow> 'r load_balancer \<Rightarrow> 'r load_balancer" where
  "stop_begin oid s = upd_worker oid (\<lambda>w. w\<lparr>wi_status := W_STOPPING\<rparr>) s"

definition stop_end :: "nat \<Rightarrow> 'r load_balancer \<Rightarrow> 'r load_balancer" where
  "stop_end oid s =
     (case map_of (lb_heap s) oid of None \<Rightarrow> s | Some w \<Rightarrow> remove_worker (wi_worker_id w) s)"

text \<open>The end of \<open>_stop_worker_process\<close>, for a worker already taken out of the pool.\<close>

definition stop_process_end :: "nat \<Rightarrow> 'r load_balancer \<Rightarrow> 'r load_balancer" where
  "stop_process_end oid s =
     (case map_of (lb_heap s) oid of
        None \<Rightarrow> s
      | Some w \<Rightarrow> s\<lparr>lb_registry := ar_unregister (wi_worker_id w) (lb_registry s)\<rparr>)"

section \<open>Reaping idle workers\<close>

text \<open>The loop under both locks; the result lists the objects taken out.\<close>

fun reap_workers :: "int list \<Rightarrow> int \<Rightarrow> 'r load_balancer \<Rightarrow> nat list \<times> 'r load_balancer" where
  "reap_workers [] current_count s = ([], s)"
| "reap_workers (wid # rest) current_count s =
     (if current_count \<le> lb_min_workers s then ([], s)
      else case map_of (lb_workers s) wid of
        None \<Rightarrow> reap_workers rest current_count s
      | Some oid \<Rightarrow>
          (case map_of (lb_heap s) oid of
             None \<Rightarrow> reap_workers rest current_count s
           | Some w \<Rightarrow>
               if 0 < wi_active_requests w \<or> wi_status w \<noteq> W_READY then reap_workers rest current_count s
               else
                 let s1 = upd_worker oid (\<lambda>w. w\<lparr>wi_status := W_STOPPING\<rparr>) s;
                     s2 = upd_stats (\<lambda>t. t\<lparr>st_workers_scaled_down := st_workers_scaled_down t + 1\<rparr>) s1;
                     s3 = s2\<lparr>lb_workers := AList.delete wid (lb_workers s2),
                             lb_gpu_worker_count := release_gpu (wi_device w) (lb_gpu_worker_count s2)\<rparr>;
                     (stopped, s4) = reap_workers rest (current_count - 1) s3
                 in (oid # stopped, s4)))"

definition unregister_worker :: "'r load_balancer \<Rightarrow> nat \<Rightarrow> 'r load_balancer" where
  "unregister_worker s oid =
     (case map_of (lb_heap s) oid of
        None \<Rightarrow> s
      | Some w \<Rightarrow> s\<lparr>lb_registry := ar_unregister (wi_worker_id w) (lb_registry s)\<rparr>)"

definition reap_idle_workers :: "pyfloat \<Rightarrow> 'r load_balancer \<Rightarrow> nat list \<times> 'r load_balancer" where
  "reap_idle_workers now s =
     (if lb_pending s \<noteq> [] then ([], s)
      else
        let snapshots = build_worker_snapshots now s;
            worker_ids = sched_reap (lb_scheduler s) snapshots (lb_min_workers s) (lb_scale_down_delay s)
        in if worker_ids = [] then ([], s)
           else let (to_stop, s1) = reap_workers worker_ids (int (length (lb_workers s))) s
                in (to_stop, foldl unregister_worker s1 to_stop))"

section \<open>Health checks\<close>

text \<open>
  What \<open>/health\<close> answers: a status other than "ready"; "ready" with the reported metrics;
  503; another code; no answer, with the process dead or alive. Then, after "ready", what
  \<open>/adapter_info\<close> answers.
\<close>

datatype health_reply = H_NotReady | H_Ready int int int | H_503 | H_Other | H_Failed bool

definition check_worker_health :: "pyfloat \<Rightarrow> nat \<Rightarrow> health_reply \<Rightarrow> 'r load_balancer \<Rightarrow> 'r load_balancer" where
  "check_worker_health now oid reply s =
     (case map_of (lb_heap s) oid of
        None \<Rightarrow> s
      | Some w \<Rightarrow>
          (case reply of
             H_NotReady \<Rightarrow>
               if wi_status w \<noteq> W_STARTING then upd_worker oid (\<lambda>w. w\<lparr>wi_status := W_UNHEALTHY\<rparr>) s else s
           | H_Ready slots gpu_free gpu_total \<Rightarrow>
               let s1 = upd_worker oid (\<lambda>w. w\<lparr>wi_reported_active_slots := slots,
                          wi_reported_gpu_memory_free_mb := gpu_free, wi_reported_gpu_memory_total_mb := gpu_total,
                          wi_last_health_check := now\<rparr>) s
               in if wi_status w = W_UNHEALTHY \<or> wi_status w = W_STARTING
                  then wake (upd_worker oid (\<lambda>w. w\<lparr>wi_status := W_READY\<rparr>) s1)
                  else s1
           | H_503 \<Rightarrow>
               if wi_status w \<noteq> W_STARTING then upd_worker oid (\<lambda>w. w\<lparr>wi_status := W_UNHEALTHY\<rparr>) s else s
           | H_Other \<Rightarrow> upd_worker oid (\<lambda>w. w\<lparr>wi_status := W_UNHEALTHY\<rparr>) s
           | H_Failed process_dead \<Rightarrow>
               if process_dead then remove_worker (wi_worker_id w) s
               else upd_worker oid (\<lambda>w. w\<lparr>wi_status := W_UNHEALTHY\<rparr>) s))"

definition update_worker_adapter_info :: "nat \<Rightarrow> adapter \<Rightarrow> bool \<Rightarrow> 'r load_balancer \<Rightarrow> 'r load_balancer" where
  "update_worker_adapter_info oid a is_swapping s =
     (let s1 = (if truthy a
                then register_worker oid a (upd_worker oid (\<lambda>w. w\<lparr>wi_adapter_id := a\<rparr>) s)
                else s)
      in if is_swapping then upd_worker oid (\<lambda>w. w\<lparr>wi_status := W_SWAPPING\<rparr>) s1 else s1)"

section \<open>Adapter swaps\<close>

definition swap_begin :: "nat \<Rightarrow> 'r load_balancer \<Rightarrow> 'r load_balancer" where
  "swap_begin oid s = upd_worker oid (\<lambda>w. w\<lparr>wi_status := W_SWAPPING\<rparr>) s"

text \<open>\<open>reply\<close>: the swap time of a successful answer; \<open>None\<close> for a failure or an exception.\<close>

definition swap_finish :: "nat \<Rightarrow> adapter \<Rightarrow> pyfloat option \<Rightarrow> 'r load_balancer \<Rightarrow> bool \<times> 'r load_balancer" where
  "swap_finish oid a reply s =
     (case reply of
        Some swap_ms \<Rightarrow>
          let s1 = upd_worker oid (\<lambda>w. w\<lparr>wi_adapter_id := a, wi_total_swap_ms := wi_total_swap_ms w + swap_ms\<rparr>) s;
              s2 = upd_stats (\<lambda>t. t\<lparr>st_total_swap_ms := st_total_swap_ms t + swap_ms\<rparr>) s1;
              s3 = wake (register_worker oid a s2)
          in (True, upd_worker oid (\<lambda>w. w\<lparr>wi_status := W_READY\<rparr>) s3)
      | None \<Rightarrow> (False, upd_worker oid (\<lambda>w. w\<lparr>wi_status := W_READY\<rparr>) s))"

section \<open>Pre-warming\<close>

text \<open>
  One iteration of the first phase of \<open>prewarm_workers\<close>: launch a worker for an adapter on
  the next device of the requested list, else on a picked one. The GPU slot is taken
  without regard to the caps when the device comes from the list.
\<close>

definition prewarm_one ::
  "pyfloat \<Rightarrow> adapter \<Rightarrow> string list \<Rightarrow> 'r load_balancer \<Rightarrow> (nat \<times> string list \<times> 'r load_balancer) option" where
  "prewarm_one now a device_list s =
     (let worker_id = get_next_worker_id s
      in if worker_id < 0 then None
         else
           case (case device_list of d # ds \<Rightarrow> Some (d, ds) | [] \<Rightarrow> map_option (\<lambda>d. (d, [])) (pick_device s)) of
             None \<Rightarrow> None
           | Some (device, rest) \<Rightarrow>
               let s1 = insert_worker now worker_id a device s
               in Some (lb_next_oid s, rest, s1\<lparr>lb_gpu_worker_count := AList.update device
                    (dict_get (lb_gpu_worker_count s1) device 0 + 1) (lb_gpu_worker_count s1)\<rparr>))"

fun prewarm_count ::
  "pyfloat \<Rightarrow> adapter \<Rightarrow> nat \<Rightarrow> string list \<Rightarrow> 'r load_balancer \<Rightarrow> nat list \<times> string list \<times> 'r load_balancer" where
  "prewarm_count now a 0 dl s = ([], dl, s)"
| "prewarm_count now a (Suc n) dl s =
     (case prewarm_one now a dl s of
        None \<Rightarrow> ([], dl, s)
      | Some (oid, dl1, s1) \<Rightarrow> let (oids, dl2, s2) = prewarm_count now a n dl1 s1 in (oid # oids, dl2, s2))"

fun prewarm_adapters ::
  "pyfloat \<Rightarrow> (adapter \<times> int) list \<Rightarrow> string list \<Rightarrow> 'r load_balancer \<Rightarrow> (adapter \<times> nat) list \<times> 'r load_balancer" where
  "prewarm_adapters now [] dl s = ([], s)"
| "prewarm_adapters now ((a, n) # rest) dl s =
     (let (oids, dl1, s1) = prewarm_count now a (nat n) dl s;
          (more, s2) = prewarm_adapters now rest dl1 s1
      in (map (\<lambda>oid. (a, oid)) oids @ more, s2))"

definition prewarm_devices :: "(string, int) dict option \<Rightarrow> string list" where
  "prewarm_devices devices =
     (case devices of None \<Rightarrow> [] | Some ds \<Rightarrow> concat (map (\<lambda>(dev, cnt). replicate (nat cnt) dev) ds))"

definition prewarm_launch ::
  "pyfloat \<Rightarrow> (adapter \<times> int) list \<Rightarrow> (string, int) dict option \<Rightarrow> 'r load_balancer
     \<Rightarrow> (adapter \<times> nat) list \<times> 'r load_balancer" where
  "prewarm_launch now adapters devices s = prewarm_adapters now adapters (prewarm_devices devices) s"

text \<open>\<open>wait_and_register\<close> after the worker answered "ready".\<close>

definition prewarm_ready :: "pyfloat \<Rightarrow> nat \<Rightarrow> adapter \<Rightarrow> 'r load_balancer \<Rightarrow> 'r load_balancer" where
  "prewarm_ready now oid a s = register_worker oid a (worker_ready now oid s)"

section \<open>Status and idempotency\<close>

record worker_row =
  wr_worker_id :: int
  wr_http_port :: int
  wr_adapter_id :: adapter
  wr_status :: string
  wr_active_requests :: int
  wr_requests_handled :: int
  wr_avg_inference_ms :: pyfloat
  wr_idle_time :: pyfloat

definition get_workers :: "pyfloat \<Rightarrow> 'r load_balancer \<Rightarrow> worker_row list" where
  "get_workers now s = map (\<lambda>w. \<lparr>wr_worker_id = wi_worker_id w, wr_http_port = wi_http_port w,
     wr_adapter_id = wi_adapter_id w, wr_status = worker_status_value (wi_status w),
     wr_active_requests = wi_active_requests w, wr_requests_handled = wi_requests_handled w,
     wr_avg_inference_ms = py_round_digits 2 (avg_inference_ms w),
     wr_idle_time = (if 0 < wi_last_request_at w then py_round_digits 1 (worker_idle_time now w) else -1)\<rparr>)
     (pool_workers s)"

definition get_stats :: "'r load_balancer \<Rightarrow> (int \<times> int \<times> lb_stats \<times> pyfloat) \<times> 'r load_balancer" where
  "get_stats s =
     (let requests = st_requests_total (lb_stats_of s);
          s1 = upd_stats (\<lambda>t. t\<lparr>st_queue_depth := int (length (lb_pending s))\<rparr>) s
      in ((int (length (lb_workers s1)), lb_max_workers s1, lb_stats_of s1,
           py_round_digits 2 (st_total_inference_ms (lb_stats_of s1) / of_int (max 1 requests))), s1))"

definition get_node_metrics :: "'r load_balancer \<Rightarrow> (string, pyfloat) dict" where
  "get_node_metrics s =
     (let ws = pool_workers s in
      [(''total_active_requests'', of_nat (length (filter (\<lambda>w. 0 < wi_active_requests w) ws))),
       (''num_workers'', of_nat (length ws)),
       (''num_swapping'', of_nat (length (filter (\<lambda>w. wi_status w = W_SWAPPING) ws))),
       (''swap_count'', of_int (st_requests_swapped (lb_stats_of s))),
       (''total_swap_ms'', st_total_swap_ms (lb_stats_of s))])"

definition check_idempotency :: "pyfloat \<Rightarrow> string \<Rightarrow> 'r load_balancer \<Rightarrow> 'r option" where
  "check_idempotency now key s =
     (case map_of (lb_idempotency s) key of
        None \<Rightarrow> None
      | Some (ts, r) \<Rightarrow> if now - ts < 3600 then Some r else None)"

definition cache_idempotency :: "pyfloat \<Rightarrow> string \<Rightarrow> 'r \<Rightarrow> 'r load_balancer \<Rightarrow> 'r load_balancer" where
  "cache_idempotency now key r s = s\<lparr>lb_idempotency := AList.update key (now, r) (lb_idempotency s)\<rparr>"

definition lb_idempotency_cleanup :: "pyfloat \<Rightarrow> 'r load_balancer \<Rightarrow> 'r load_balancer" where
  "lb_idempotency_cleanup now s =
     (let expired = map fst (filter (\<lambda>(k, ts, _). 3600 < now - ts) (lb_idempotency s))
      in s\<lparr>lb_idempotency := foldl (\<lambda>c k. AList.delete k c) (lb_idempotency s) expired\<rparr>)"

end
