(* ===== verification/Pool_Inv.thy ===== *)
theory Pool_Inv
  imports Worker_Pool
begin

text \<open>
  The invariant of the worker pool. \<open>rs\<close> is the multiset of devices on which a spawn holds
  a GPU slot it has not yet turned into a worker: the list of the reservations that are
  between the two locked blocks of \<open>spawn_worker\<close>.
\<close>

section \<open>The invariant\<close>

definition on_device :: "'r load_balancer \<Rightarrow> string \<Rightarrow> nat \<Rightarrow> int" where
  "on_device s dev oid = (case map_of (lb_heap s) oid of
     None \<Rightarrow> 0 | Some w \<Rightarrow> if wi_device w = dev then 1 else 0)"

definition workers_on :: "'r load_balancer \<Rightarrow> string \<Rightarrow> int" where
  "workers_on s dev = sum_list (map (on_device s dev) (dict_values (lb_workers s)))"

definition entry_ok :: "'r load_balancer \<Rightarrow> int \<Rightarrow> nat \<Rightarrow> bool" where
  "entry_ok s wid oid \<longleftrightarrow> 0 \<le> wid \<and> wid < lb_max_workers s \<and>
     (\<exists>w. map_of (lb_heap s) oid = Some w \<and> wi_worker_id w = wid \<and> wi_http_port w = lb_base_port s + wid * 10)"

definition gpu_ok :: "string list \<Rightarrow> 'r load_balancer \<Rightarrow> bool" where
  "gpu_ok rs s \<longleftrightarrow>
     (\<forall>dev. dict_get (lb_gpu_worker_count s) dev 0 = workers_on s dev + int (count_list rs dev))"

definition pool_ok :: "'r load_balancer \<Rightarrow> bool" where
  "pool_ok s \<longleftrightarrow> dict_wf (lb_workers s) \<and>
     (\<forall>wid oid. map_of (lb_workers s) wid = Some oid \<longrightarrow> entry_ok s wid oid) \<and>
     (\<forall>oid \<in> set (dict_keys (lb_heap s)). oid < lb_next_oid s)"

definition pool_inv :: "string list \<Rightarrow> 'r load_balancer \<Rightarrow> bool" where
  "pool_inv rs s \<longleftrightarrow> pool_ok s \<and> gpu_ok rs s"

lemma on_device_nonneg [simp]: "0 \<le> on_device s dev oid"
  by (simp add: on_device_def split: option.split)

lemma workers_on_nonneg: "0 \<le> workers_on s dev"
  unfolding workers_on_def by (rule sum_list_nonneg) auto

section \<open>Ids, ports, size\<close>

lemma next_worker_id_fresh:
  assumes "0 \<le> get_next_worker_id s"
  shows "get_next_worker_id s < lb_max_workers s \<and> get_next_worker_id s \<notin> set (dict_keys (lb_workers s))"
proof (cases "find (\<lambda>i. i \<notin> set (dict_keys (lb_workers s))) (map int [0..<nat (lb_max_workers s)])")
  case None
  with assms show ?thesis by (simp add: get_next_worker_id_def del: set_map)
next
  case (Some i)
  then have "get_next_worker_id s = i" by (simp add: get_next_worker_id_def del: set_map)
  moreover have "i \<in> set (map int [0..<nat (lb_max_workers s)]) \<and> i \<notin> set (dict_keys (lb_workers s))"
    using Some by (metis (no_types, lifting) find_Some_iff nth_mem)
  ultimately show ?thesis by auto
qed

lemma next_worker_id_exhausted:
  "get_next_worker_id s < 0 \<longleftrightarrow> (\<forall>i. 0 \<le> i \<longrightarrow> i < lb_max_workers s \<longrightarrow> i \<in> set (dict_keys (lb_workers s)))"
proof (cases "find (\<lambda>i. i \<notin> set (dict_keys (lb_workers s))) (map int [0..<nat (lb_max_workers s)])")
  case None
  then have sub: "\<forall>i \<in> set (map int [0..<nat (lb_max_workers s)]). i \<in> set (dict_keys (lb_workers s))"
    by (metis find_None_iff)
  have all: "\<forall>k < nat (lb_max_workers s). int k \<in> set (dict_keys (lb_workers s))"
  proof (intro allI impI)
    fix k assume "k < nat (lb_max_workers s)"
    then have "int k \<in> set (map int [0..<nat (lb_max_workers s)])" by simp
    with sub show "int k \<in> set (dict_keys (lb_workers s))" by blast
  qed
  then have "i \<in> set (dict_keys (lb_workers s))" if "0 \<le> i" "i < lb_max_workers s" for i
    using all [rule_format, of "nat i"] that by simp
  with None show ?thesis by (simp add: get_next_worker_id_def del: set_map)
next
  case (Some i)
  then have id: "get_next_worker_id s = i" by (simp add: get_next_worker_id_def del: set_map)
  have "i \<in> set (map int [0..<nat (lb_max_workers s)]) \<and> i \<notin> set (dict_keys (lb_workers s))"
    using Some by (metis (no_types, lifting) find_Some_iff nth_mem)
  then have "0 \<le> i" "i < lb_max_workers s" "i \<notin> set (dict_keys (lb_workers s))" by auto
  with id show ?thesis by auto
qed

lemma pool_size_le:
  assumes "pool_ok s" and "0 \<le> lb_max_workers s"
  shows "int (length (lb_workers s)) \<le> lb_max_workers s"
proof -
  have "set (dict_keys (lb_workers s)) \<subseteq> {0..<lb_max_workers s}"
  proof
    fix wid assume "wid \<in> set (dict_keys (lb_workers s))"
    then obtain oid where "map_of (lb_workers s) wid = Some oid"
      by (metis map_of_None_keys not_None_eq)
    with assms(1) show "wid \<in> {0..<lb_max_workers s}" by (auto simp: pool_ok_def entry_ok_def)
  qed
  then have "card (set (dict_keys (lb_workers s))) \<le> card {0..<lb_max_workers s}" by (rule card_mono [rotated]) simp
  moreover have "card (set (dict_keys (lb_workers s))) = length (lb_workers s)"
    using assms(1) distinct_card [of "dict_keys (lb_workers s)"] by (simp add: pool_ok_def)
  ultimately show ?thesis using assms(2) by simp
qed

section \<open>Updates of worker objects\<close>

definition keeps_identity :: "(worker_info \<Rightarrow> worker_info) \<Rightarrow> bool" where
  "keeps_identity f \<longleftrightarrow> (\<forall>w. wi_worker_id (f w) = wi_worker_id w \<and> wi_http_port (f w) = wi_http_port w \<and>
     wi_device (f w) = wi_device w)"

lemma upd_worker_heap:
  "map_of (lb_heap (upd_worker oid f s)) o' = (if o' = oid then map_option f (map_of (lb_heap s) o') else map_of (lb_heap s) o')"
  by (auto simp: upd_worker_def update_conv' split: option.split)

lemma upd_worker_frame [simp]:
  "lb_workers (upd_worker oid f s) = lb_workers s"
  "lb_gpu_worker_count (upd_worker oid f s) = lb_gpu_worker_count s"
  "lb_max_workers (upd_worker oid f s) = lb_max_workers s"
  "lb_min_workers (upd_worker oid f s) = lb_min_workers s"
  "lb_base_port (upd_worker oid f s) = lb_base_port s"
  "lb_next_oid (upd_worker oid f s) = lb_next_oid s"
  "lb_registry (upd_worker oid f s) = lb_registry s"
  "lb_scheduler (upd_worker oid f s) = lb_scheduler s"
  "lb_pending (upd_worker oid f s) = lb_pending s"
  "lb_gpu_worker_caps (upd_worker oid f s) = lb_gpu_worker_caps s"
  by (simp_all add: upd_worker_def split: option.split)

lemma upd_worker_keys: "set (dict_keys (lb_heap (upd_worker oid f s))) = set (dict_keys (lb_heap s))"
  by (auto simp: upd_worker_def update_keys dest: map_of_in_keys split: option.split simp del: set_map)

text \<open>Two states that agree on the pool, up to the mutable fields of the objects.\<close>

definition same_pool :: "'r load_balancer \<Rightarrow> 'r load_balancer \<Rightarrow> bool" where
  "same_pool s s' \<longleftrightarrow> lb_workers s' = lb_workers s \<and> lb_gpu_worker_count s' = lb_gpu_worker_count s \<and>
     lb_max_workers s' = lb_max_workers s \<and> lb_base_port s' = lb_base_port s \<and> lb_next_oid s' = lb_next_oid s \<and>
     lb_gpu_worker_caps s' = lb_gpu_worker_caps s \<and>
     set (dict_keys (lb_heap s')) = set (dict_keys (lb_heap s)) \<and>
     (\<forall>oid. map_option (\<lambda>w. (wi_worker_id w, wi_http_port w, wi_device w)) (map_of (lb_heap s') oid) =
            map_option (\<lambda>w. (wi_worker_id w, wi_http_port w, wi_device w)) (map_of (lb_heap s) oid))"

lemma same_pool_refl [simp]: "same_pool s s"
  by (simp add: same_pool_def)

lemma same_pool_trans: "same_pool s s1 \<Longrightarrow> same_pool s1 s2 \<Longrightarrow> same_pool s s2"
  by (simp add: same_pool_def)

lemma same_pool_both:
  assumes "same_pool s s'"
  shows "pool_ok s \<Longrightarrow> pool_ok s'" and "gpu_ok rs s \<Longrightarrow> gpu_ok rs s'"
proof -
  have look: "map_option (\<lambda>w. (wi_worker_id w, wi_http_port w, wi_device w)) (map_of (lb_heap s') oid) =
      map_option (\<lambda>w. (wi_worker_id w, wi_http_port w, wi_device w)) (map_of (lb_heap s) oid)" for oid
    using assms by (simp add: same_pool_def)
  have dev: "on_device s' d oid = on_device s d oid" for d oid
    using look [of oid]
    by (cases "map_of (lb_heap s) oid"; cases "map_of (lb_heap s') oid") (auto simp: on_device_def)
  then have "workers_on s' d = workers_on s d" for d
    using assms by (simp add: workers_on_def same_pool_def cong: map_cong)
  moreover have "entry_ok s' wid oid = entry_ok s wid oid" for wid oid
    using look [of oid] assms
    by (cases "map_of (lb_heap s) oid"; cases "map_of (lb_heap s') oid") (auto simp: entry_ok_def same_pool_def)
  ultimately show "pool_ok s \<Longrightarrow> pool_ok s'" and "gpu_ok rs s \<Longrightarrow> gpu_ok rs s'"
    using assms by (simp_all add: pool_ok_def gpu_ok_def same_pool_def)
qed

lemma same_pool_inv: "same_pool s s' \<Longrightarrow> pool_inv rs s \<Longrightarrow> pool_inv rs s'"
  using same_pool_both by (auto simp: pool_inv_def)

lemma upd_worker_same: "keeps_identity f \<Longrightarrow> same_pool s (upd_worker oid f s)"
  by (auto simp: same_pool_def upd_worker_heap upd_worker_keys keeps_identity_def option.map_comp comp_def
      simp del: set_map)

lemma fields_same:
  "same_pool s (s\<lparr>lb_registry := r\<rparr>)" "same_pool s (s\<lparr>lb_worker_available := b\<rparr>)"
  "same_pool s (s\<lparr>lb_stats_of := st\<rparr>)" "same_pool s (s\<lparr>lb_aggregator_ready := ag\<rparr>)"
  "same_pool s (s\<lparr>lb_scheduler := sch\<rparr>)" "same_pool s (s\<lparr>lb_tracker := tr\<rparr>)"
  "same_pool s (s\<lparr>lb_pending := p\<rparr>)" "same_pool s (s\<lparr>lb_futures := fs\<rparr>)"
  "same_pool s (s\<lparr>lb_next_future := nf\<rparr>)" "same_pool s (s\<lparr>lb_recent_drops := rd\<rparr>)"
  "same_pool s (s\<lparr>lb_spawns_in_progress := sp\<rparr>)" "same_pool s (s\<lparr>lb_recent_arrivals := ra\<rparr>)"
  "same_pool s (s\<lparr>lb_e1_s := e\<rparr>)" "same_pool s (s\<lparr>lb_e1_n := en\<rparr>)" "same_pool s (s\<lparr>lb_idempotency := ic\<rparr>)"
  by (simp_all add: same_pool_def)

lemma register_worker_same: "same_pool s (register_worker oid a s)"
  by (simp add: register_worker_def fields_same split: option.split)

lemma wake_same: "same_pool s (wake s)"
  by (simp add: wake_def fields_same)

lemma upd_stats_same: "same_pool s (upd_stats f s)"
  by (simp add: upd_stats_def fields_same)

lemmas pool_frame = upd_worker_same register_worker_same wake_same upd_stats_same fields_same

lemma pool_into:
  "same_pool s t \<Longrightarrow> keeps_identity f \<Longrightarrow> same_pool s (upd_worker oid f t)"
  "same_pool s t \<Longrightarrow> same_pool s (register_worker oid a t)"
  "same_pool s t \<Longrightarrow> same_pool s (wake t)"
  "same_pool s t \<Longrightarrow> same_pool s (upd_stats g t)"
  using same_pool_trans pool_frame by blast+

lemma spawn_ready_inv: "pool_inv rs s \<Longrightarrow> pool_inv rs (spawn_ready now oid a s)"
  unfolding spawn_ready_def worker_ready_def
  by (elim same_pool_inv [rotated]) (simp add: pool_into keeps_identity_def)

lemma prewarm_ready_inv: "pool_inv rs s \<Longrightarrow> pool_inv rs (prewarm_ready now oid a s)"
  unfolding prewarm_ready_def worker_ready_def
  by (elim same_pool_inv [rotated]) (simp add: pool_into keeps_identity_def)

lemma stop_begin_inv: "pool_inv rs s \<Longrightarrow> pool_inv rs (stop_begin oid s)"
  unfolding stop_begin_def by (elim same_pool_inv [rotated]) (rule pool_frame, simp add: keeps_identity_def)

lemma stop_process_end_inv: "pool_inv rs s \<Longrightarrow> pool_inv rs (stop_process_end oid s)"
  unfolding stop_process_end_def by (elim same_pool_inv [rotated]) (simp add: fields_same split: option.split)

lemma swap_begin_inv: "pool_inv rs s \<Longrightarrow> pool_inv rs (swap_begin oid s)"
  unfolding swap_begin_def by (elim same_pool_inv [rotated]) (rule pool_frame, simp add: keeps_identity_def)

lemma swap_finish_same: "same_pool s (snd (swap_finish oid a reply s))"
proof (cases reply)
  case None
  then show ?thesis by (simp add: swap_finish_def upd_worker_same keeps_identity_def)
next
  case (Some ms)
  show ?thesis
    unfolding swap_finish_def Some Let_def option.case snd_conv
    by (simp add: pool_into keeps_identity_def)
qed

lemma swap_finish_inv: "pool_inv rs s \<Longrightarrow> pool_inv rs (snd (swap_finish oid a reply s))"
  using swap_finish_same by (rule same_pool_inv)

lemma update_adapter_info_same: "same_pool s (update_worker_adapter_info oid a sw s)"
  by (simp add: update_worker_adapter_info_def Let_def pool_into keeps_identity_def)

section \<open>Spawning\<close>

lemma pick_device_cap:
  assumes "pick_device s = Some dev"
  shows "dev \<in> set (lb_worker_devices s) \<and>
    (\<forall>caps. lb_gpu_worker_caps s = Some caps \<longrightarrow>
       dict_get (lb_gpu_worker_count s) dev 0 < dict_get caps dev (lb_max_workers s))"
proof -
  have "pick_device_loop s ds = Some dev \<Longrightarrow> dev \<in> set ds \<and>
    (\<forall>caps. lb_gpu_worker_caps s = Some caps \<longrightarrow>
       dict_get (lb_gpu_worker_count s) dev 0 < dict_get caps dev (lb_max_workers s))" for ds
    by (induction ds) (auto split: option.splits if_splits)
  with assms show ?thesis by (simp add: pick_device_def)
qed

lemma spawn_begin_inv:
  assumes "pool_inv rs s" and "spawn_begin s = (Some rv, s1)"
  shows "pool_inv (rv_device rv # rs) s1"
proof -
  obtain dev where s1: "s1 = s\<lparr>lb_gpu_worker_count := AList.update dev (dict_get (lb_gpu_worker_count s) dev 0 + 1)
      (lb_gpu_worker_count s)\<rparr>" and dev: "rv_device rv = dev"
    using assms(2) by (auto simp: spawn_begin_def Let_def split: if_splits option.splits)
  have "workers_on s1 d = workers_on s d" for d by (simp add: s1 workers_on_def on_device_def cong: map_cong)
  moreover have "entry_ok s1 wid oid = entry_ok s wid oid" for wid oid by (simp add: s1 entry_ok_def)
  ultimately show ?thesis
    using assms(1) dev unfolding pool_inv_def pool_ok_def gpu_ok_def by (simp add: s1)
qed

lemma spawn_begin_none: "spawn_begin s = (None, s1) \<Longrightarrow> s1 = s"
  by (auto simp: spawn_begin_def Let_def split: if_splits option.splits)

lemma drop_reservation_inv:
  assumes "pool_inv (dev # rs) s"
  shows "pool_inv rs (drop_reservation dev s)"
proof -
  have "workers_on (drop_reservation dev s) d = workers_on s d" for d
    by (simp add: drop_reservation_def workers_on_def on_device_def cong: map_cong)
  moreover have "entry_ok (drop_reservation dev s) wid oid = entry_ok s wid oid" for wid oid
    by (simp add: drop_reservation_def entry_ok_def)
  ultimately show ?thesis
    using assms unfolding pool_inv_def pool_ok_def gpu_ok_def by (auto simp: drop_reservation_def)
qed

lemma pool_entry: "pool_ok s \<Longrightarrow> map_of (lb_workers s) wid = Some oid \<Longrightarrow> entry_ok s wid oid"
  by (simp add: pool_ok_def)

lemma pool_oid_used:
  assumes "pool_ok s" and "map_of (lb_workers s) wid = Some oid"
  shows "oid < lb_next_oid s"
proof -
  obtain w where "map_of (lb_heap s) oid = Some w" using pool_entry [OF assms] by (auto simp: entry_ok_def)
  then have "oid \<in> set (dict_keys (lb_heap s))" by (rule map_of_in_keys)
  with assms(1) show ?thesis by (simp add: pool_ok_def del: set_map)
qed

lemma heap_bound: "pool_ok s \<Longrightarrow> oid \<in> set (dict_keys (lb_heap s)) \<Longrightarrow> oid < lb_next_oid s"
  unfolding pool_ok_def by blast

lemma insert_worker_pool:
  assumes ok: "pool_ok s" and wid: "0 \<le> wid" "wid < lb_max_workers s" "wid \<notin> set (dict_keys (lb_workers s))"
  shows "pool_ok (insert_worker now wid a dev s) \<and>
    workers_on (insert_worker now wid a dev s) d = workers_on s d + (if d = dev then 1 else 0)"
proof
  let ?s = "insert_worker now wid a dev s"
  have heap: "map_of (lb_heap ?s) oid = (if oid = lb_next_oid s
      then Some (mk_worker now wid (lb_base_port s + wid * 10) a dev) else map_of (lb_heap s) oid)" for oid
    by (simp add: insert_worker_def update_conv')
  have old: "entry_ok ?s w oid" if "map_of (lb_workers s) w = Some oid" for w oid
    using pool_entry [OF ok that] pool_oid_used [OF ok that] heap by (auto simp: entry_ok_def insert_worker_def)
  have new: "entry_ok ?s wid (lb_next_oid s)"
    using wid heap by (simp add: entry_ok_def mk_worker_def insert_worker_def)
  show "pool_ok ?s"
    unfolding pool_ok_def
  proof (intro conjI allI impI ballI)
    show "dict_wf (lb_workers ?s)" using ok by (simp add: insert_worker_def pool_ok_def)
    show "entry_ok ?s w oid" if "map_of (lb_workers ?s) w = Some oid" for w oid
    proof (cases "w = wid")
      case True
      with that have "oid = lb_next_oid s" by (simp add: insert_worker_def update_conv')
      with new True show ?thesis by simp
    next
      case False
      with that have "map_of (lb_workers s) w = Some oid" by (simp add: insert_worker_def update_conv')
      then show ?thesis by (rule old)
    qed
    show "oid < lb_next_oid ?s" if "oid \<in> set (dict_keys (lb_heap ?s))" for oid
    proof -
      have "oid = lb_next_oid s \<or> oid \<in> set (dict_keys (lb_heap s))"
        using that by (simp add: insert_worker_def update_keys split: if_split_asm)
      then have "oid < Suc (lb_next_oid s)" using heap_bound [OF ok, of oid] by (elim disjE) simp_all
      then show ?thesis by (simp add: insert_worker_def)
    qed
  qed
  have "on_device ?s d oid = on_device s d oid" if "oid \<in> set (dict_values (lb_workers s))" for oid
  proof -
    have "dict_wf (lb_workers s)" using ok by (simp add: pool_ok_def)
    from iffD1 [OF dict_values_iff [OF this] that] obtain k where "map_of (lb_workers s) k = Some oid" ..
    then have "oid < lb_next_oid s" by (rule pool_oid_used [OF ok])
    then show ?thesis using heap by (simp add: on_device_def)
  qed
  then have eq: "map (on_device ?s d) (dict_values (lb_workers s)) = map (on_device s d) (dict_values (lb_workers s))"
    by (intro map_cong) (rule refl, blast)
  have ws: "lb_workers ?s = lb_workers s @ [(wid, lb_next_oid s)]"
    using wid(3) by (simp add: insert_worker_def update_fresh)
  have "on_device ?s d (lb_next_oid s) = (if d = dev then 1 else 0)"
    using heap by (simp add: on_device_def mk_worker_def)
  then show "workers_on ?s d = workers_on s d + (if d = dev then 1 else 0)"
    unfolding workers_on_def ws by (simp add: eq del: map_map)
qed

lemma insert_worker_frame [simp]:
  "lb_gpu_worker_count (insert_worker now wid a dev s) = lb_gpu_worker_count s"
  "lb_gpu_worker_caps (insert_worker now wid a dev s) = lb_gpu_worker_caps s"
  "lb_max_workers (insert_worker now wid a dev s) = lb_max_workers s"
  by (simp_all add: insert_worker_def)

lemma spawn_claim_inv:
  assumes inv: "pool_inv (rv_device rv # rs) s" and rv: "0 \<le> rv_worker_id rv" "rv_worker_id rv < lb_max_workers s"
    and claim: "spawn_claim now rv a s = (res, s1)"
  shows "pool_inv rs s1"
proof -
  let ?wid = "if rv_worker_id rv \<in> set (dict_keys (lb_workers s)) then get_next_worker_id s else rv_worker_id rv"
  show ?thesis
  proof (cases "?wid < 0")
    case True
    with claim drop_reservation_inv [OF inv] show ?thesis by (simp add: spawn_claim_def)
  next
    case False
    then have "0 \<le> ?wid \<and> ?wid < lb_max_workers s \<and> ?wid \<notin> set (dict_keys (lb_workers s))"
      using next_worker_id_fresh [of s] rv(2) by (auto split: if_splits)
    moreover have s1: "s1 = insert_worker now ?wid a (rv_device rv) s"
      using claim False by (simp add: spawn_claim_def Let_def split: if_splits)
    ultimately have "pool_ok s1" and "\<And>d. workers_on s1 d = workers_on s d + (if d = rv_device rv then 1 else 0)"
      using insert_worker_pool inv unfolding pool_inv_def by blast+
    moreover have "lb_gpu_worker_count s1 = lb_gpu_worker_count s" by (simp add: s1)
    ultimately show ?thesis
      using inv by (auto simp: pool_inv_def gpu_ok_def)
  qed
qed

lemma spawn_begin_id: "spawn_begin s = (Some rv, s1) \<Longrightarrow>
    0 \<le> rv_worker_id rv \<and> rv_worker_id rv < lb_max_workers s1 \<and> lb_max_workers s1 = lb_max_workers s"
  using next_worker_id_fresh [of s] by (auto simp: spawn_begin_def Let_def split: if_splits option.splits)

section \<open>Removal\<close>

text \<open>Taking a worker out of the pool and giving its GPU slot back.\<close>

definition take_out :: "int \<Rightarrow> string \<Rightarrow> 'r load_balancer \<Rightarrow> 'r load_balancer" where
  "take_out wid dev s = s\<lparr>lb_workers := AList.delete wid (lb_workers s),
     lb_gpu_worker_count := release_gpu dev (lb_gpu_worker_count s)\<rparr>"

lemma release_gpu_get:
  "1 \<le> dict_get d dev 0 \<Longrightarrow> dict_get (release_gpu dev d) e 0 = dict_get d e 0 - (if e = dev then 1 else 0)"
  by (cases "map_of d dev") (auto simp: release_gpu_def)

lemma take_out_inv:
  assumes inv: "pool_inv rs s" and wid: "map_of (lb_workers s) wid = Some oid" "map_of (lb_heap s) oid = Some w"
  shows "pool_inv rs (take_out wid (wi_device w) s)"
proof -
  let ?s = "take_out wid (wi_device w) s"
  have wf: "dict_wf (lb_workers s)" using inv by (simp add: pool_inv_def pool_ok_def)
  have on: "on_device ?s = on_device s" by (simp add: fun_eq_iff on_device_def take_out_def)
  have ws: "lb_workers ?s = AList.delete wid (lb_workers s)" by (simp add: take_out_def)
  have "workers_on ?s d = workers_on s d - on_device s d oid" for d
    using wid(1) by (simp add: workers_on_def on ws sum_values_delete [OF wf] del: map_map)
  then have wo: "workers_on ?s d = workers_on s d - (if d = wi_device w then 1 else 0)" for d
    using wid(2) by (simp add: on_device_def)
  have "0 \<le> workers_on ?s (wi_device w)" by (rule workers_on_nonneg)
  then have "1 \<le> workers_on s (wi_device w)" by (simp add: wo)
  then have "1 \<le> dict_get (lb_gpu_worker_count s) (wi_device w) 0"
    using inv by (simp add: pool_inv_def gpu_ok_def)
  then have gpu: "gpu_ok rs ?s"
    unfolding gpu_ok_def wo using inv by (simp add: pool_inv_def gpu_ok_def release_gpu_get take_out_def)
  have "entry_ok ?s k o' = entry_ok s k o'" for k o' by (simp add: entry_ok_def take_out_def)
  then have "pool_ok ?s"
    using inv wf unfolding pool_inv_def pool_ok_def by (simp add: take_out_def delete_conv' del: set_map)
  with gpu show ?thesis by (simp add: pool_inv_def)
qed

lemma pool_inv_obj:
  "pool_inv rs s \<Longrightarrow> map_of (lb_workers s) wid = Some oid \<Longrightarrow>
    \<exists>w. map_of (lb_heap s) oid = Some w \<and> wi_worker_id w = wid"
  using pool_entry [of s wid oid] by (auto simp: pool_inv_def entry_ok_def)

lemma remove_worker_inv:
  assumes "pool_inv rs s"
  shows "pool_inv rs (remove_worker wid s)"
proof (cases "map_of (lb_workers s) wid")
  case None
  then show ?thesis using same_pool_inv [OF fields_same(1) assms] by (simp add: remove_worker_def)
next
  case (Some oid)
  obtain w where w: "map_of (lb_heap s) oid = Some w" using pool_inv_obj [OF assms Some] by blast
  have "remove_worker wid s = (take_out wid (wi_device w) s)\<lparr>lb_registry := ar_unregister wid (lb_registry s)\<rparr>"
    using Some w by (simp add: remove_worker_def take_out_def Let_def)
  then show ?thesis using same_pool_inv [OF fields_same(1) take_out_inv [OF assms Some w]] by simp
qed

lemma stop_end_inv: "pool_inv rs s \<Longrightarrow> pool_inv rs (stop_end oid s)"
  by (simp add: stop_end_def remove_worker_inv split: option.split)

lemma check_health_inv: "pool_inv rs s \<Longrightarrow> pool_inv rs (check_worker_health now oid reply s)"
proof (cases "map_of (lb_heap s) oid")
  case None
  then show "pool_inv rs s \<Longrightarrow> ?thesis" by (simp add: check_worker_health_def)
next
  case (Some w)
  assume inv: "pool_inv rs s"
  have upd: "pool_inv rs (upd_worker oid f s)" if "keeps_identity f" for f
    using same_pool_inv [OF upd_worker_same [OF that] inv] .
  show ?thesis
  proof (cases reply)
    case (H_Ready a b c)
    have "same_pool s (check_worker_health now oid reply s)"
      using Some H_Ready by (simp add: check_worker_health_def Let_def pool_into keeps_identity_def)
    then show ?thesis using inv by (rule same_pool_inv)
  qed (use Some inv in \<open>simp_all add: check_worker_health_def upd keeps_identity_def remove_worker_inv\<close>)
qed

section \<open>Reaping\<close>

text \<open>The state after one idle worker is taken out.\<close>

definition reap_one :: "int \<Rightarrow> nat \<Rightarrow> worker_info \<Rightarrow> 'r load_balancer \<Rightarrow> 'r load_balancer" where
  "reap_one wid oid w s = take_out wid (wi_device w)
     (upd_stats (\<lambda>t. t\<lparr>st_workers_scaled_down := st_workers_scaled_down t + 1\<rparr>)
       (upd_worker oid (\<lambda>w. w\<lparr>wi_status := W_STOPPING\<rparr>) s))"

lemma reap_workers_Cons:
  "reap_workers (wid # rest) n s =
    (if n \<le> lb_min_workers s then ([], s)
     else case map_of (lb_workers s) wid of
       None \<Rightarrow> reap_workers rest n s
     | Some oid \<Rightarrow> (case map_of (lb_heap s) oid of
         None \<Rightarrow> reap_workers rest n s
       | Some w \<Rightarrow>
           if 0 < wi_active_requests w \<or> wi_status w \<noteq> W_READY then reap_workers rest n s
           else (oid # fst (reap_workers rest (n - 1) (reap_one wid oid w s)),
                 snd (reap_workers rest (n - 1) (reap_one wid oid w s)))))"
  by (simp add: reap_one_def take_out_def case_prod_unfold Let_def upd_stats_def split: option.split)

lemma reap_one_inv:
  assumes inv: "pool_inv rs s" and oid: "map_of (lb_workers s) wid = Some oid" and w: "map_of (lb_heap s) oid = Some w"
  shows "pool_inv rs (reap_one wid oid w s)"
proof -
  let ?s2 = "upd_stats (\<lambda>t. t\<lparr>st_workers_scaled_down := st_workers_scaled_down t + 1\<rparr>)
       (upd_worker oid (\<lambda>w. w\<lparr>wi_status := W_STOPPING\<rparr>) s)"
  have "same_pool s ?s2" by (simp add: pool_into keeps_identity_def)
  then have s2: "pool_inv rs ?s2" using inv by (rule same_pool_inv)
  have "map_of (lb_workers ?s2) wid = Some oid" using oid by (simp add: upd_stats_def)
  moreover have "map_of (lb_heap ?s2) oid = Some (w\<lparr>wi_status := W_STOPPING\<rparr>)"
    using w by (simp add: upd_stats_def upd_worker_heap)
  ultimately have "pool_inv rs (take_out wid (wi_device (w\<lparr>wi_status := W_STOPPING\<rparr>)) ?s2)"
    by (rule take_out_inv [OF s2])
  then show ?thesis by (simp add: reap_one_def)
qed

lemma reap_workers_inv: "pool_inv rs s \<Longrightarrow> pool_inv rs (snd (reap_workers wids n s))"
proof (induction wids arbitrary: n s)
  case Nil
  then show ?case by simp
next
  case (Cons wid rest)
  show ?case
    unfolding reap_workers_Cons
    using Cons reap_one_inv [OF Cons.prems] by (simp split: option.split)
qed

lemma unregister_worker_same: "same_pool s (unregister_worker s oid)"
  by (simp add: unregister_worker_def fields_same split: option.split)

lemma foldl_same: "(\<And>t x. same_pool t (f t x)) \<Longrightarrow> same_pool s (foldl f s xs)"
  by (induction xs arbitrary: s) (auto intro: same_pool_trans)

lemma reap_idle_inv:
  assumes "pool_inv rs s"
  shows "pool_inv rs (snd (reap_idle_workers now s))"
proof -
  obtain os s1 where r: "reap_workers (sched_reap (lb_scheduler s) (build_worker_snapshots now s) (lb_min_workers s)
      (lb_scale_down_delay s)) (int (length (lb_workers s))) s = (os, s1)" by fastforce
  then have "pool_inv rs s1" using reap_workers_inv [OF assms] by (metis snd_conv)
  then have "pool_inv rs (foldl unregister_worker s1 os)"
    using same_pool_inv [OF foldl_same] unregister_worker_same by blast
  with r assms show ?thesis by (simp add: reap_idle_workers_def Let_def)
qed

section \<open>Pre-warming\<close>

lemma prewarm_one_inv:
  assumes inv: "pool_inv rs s" and one: "prewarm_one now a dl s = Some (oid, dl1, s1)"
  shows "pool_inv rs s1"
proof -
  let ?wid = "get_next_worker_id s"
  have pos: "0 \<le> ?wid" using one by (auto simp: prewarm_one_def Let_def split: if_splits)
  obtain dev where s1: "s1 = (insert_worker now ?wid a dev s)\<lparr>lb_gpu_worker_count :=
      AList.update dev (dict_get (lb_gpu_worker_count s) dev 0 + 1) (lb_gpu_worker_count s)\<rparr>"
    using one pos by (auto simp: prewarm_one_def Let_def split: option.splits)
  let ?s0 = "insert_worker now ?wid a dev s"
  have ok: "pool_ok ?s0" and wo: "workers_on ?s0 d = workers_on s d + (if d = dev then 1 else 0)" for d
    using insert_worker_pool [of s ?wid now a dev d] next_worker_id_fresh [OF pos] pos inv
    by (simp_all add: pool_inv_def)
  have "workers_on s1 d = workers_on ?s0 d" for d
    by (simp add: s1 workers_on_def on_device_def cong: map_cong)
  moreover have "entry_ok s1 wid oid = entry_ok ?s0 wid oid" for wid oid by (simp add: s1 entry_ok_def)
  ultimately show ?thesis
    using ok inv wo unfolding pool_inv_def pool_ok_def gpu_ok_def by (simp add: s1)
qed

lemma prewarm_count_inv: "pool_inv rs s \<Longrightarrow> pool_inv rs (snd (snd (prewarm_count now a n dl s)))"
proof (induction n arbitrary: dl s)
  case (Suc n)
  show ?case
    using Suc.IH prewarm_one_inv [OF Suc.prems]
    by (cases "prewarm_one now a dl s") (use Suc.prems in \<open>auto simp: case_prod_unfold Let_def\<close>)
qed simp

lemma prewarm_adapters_inv: "pool_inv rs s \<Longrightarrow> pool_inv rs (snd (prewarm_adapters now as dl s))"
proof (induction as arbitrary: dl s)
  case (Cons an as)
  obtain a n where an: "an = (a, n)" by fastforce
  have "pool_inv rs (snd (snd (prewarm_count now a (nat n) dl s)))" using Cons.prems by (rule prewarm_count_inv)
  from Cons.IH [OF this] show ?case by (simp add: an case_prod_unfold Let_def)
qed simp

end
