(* ===== verification/Dispatch.thy ===== *)
theory Dispatch
  imports Pool_Inv
begin

text \<open>
  Request routing of \<open>AsyncLoadBalancer\<close> in \<open>src/src/controller/controller.py\<close>:
  \<open>route_request\<close>, the queue and its dispatcher, burst detection, the proactive loop and
  \<open>_send_inference\<close>, cut where the coroutines wait. A definition that starts background
  tasks returns them (\<open>asyncio.create_task\<close> does not run the task yet).
\<close>

section \<open>Tasks, futures, reservations\<close>

datatype lb_task =
    SwapResolve nat adapter nat
  | SpawnDispatch adapter
  | BackgroundGrow adapter
  | RebalanceSwap nat adapter

definition future_done :: "'r load_balancer \<Rightarrow> nat \<Rightarrow> bool" where
  "future_done s fid \<longleftrightarrow> map_of (lb_futures s) fid \<noteq> Some F_Pending"

definition set_future :: "nat \<Rightarrow> future \<Rightarrow> 'r load_balancer \<Rightarrow> 'r load_balancer" where
  "set_future fid v s = s\<lparr>lb_futures := AList.update fid v (lb_futures s)\<rparr>"

definition cancel_future :: "nat \<Rightarrow> 'r load_balancer \<Rightarrow> 'r load_balancer" where
  "cancel_future fid s = (if future_done s fid then s else set_future fid F_Cancelled s)"

definition reserve :: "nat \<Rightarrow> 'r load_balancer \<Rightarrow> 'r load_balancer" where
  "reserve oid s = upd_worker oid (\<lambda>w. w\<lparr>wi_active_requests := wi_active_requests w + 1\<rparr>) s"

definition unreserve :: "nat \<Rightarrow> 'r load_balancer \<Rightarrow> 'r load_balancer" where
  "unreserve oid s = upd_worker oid (\<lambda>w. w\<lparr>wi_active_requests := wi_active_requests w - 1\<rparr>) s"

definition set_queue_depth :: "'r load_balancer \<Rightarrow> 'r load_balancer" where
  "set_queue_depth s = upd_stats (\<lambda>t. t\<lparr>st_queue_depth := int (length (lb_pending s))\<rparr>) s"

section \<open>The scheduling decision\<close>

definition trim_recent_drops :: "pyfloat \<Rightarrow> 'r load_balancer \<Rightarrow> int \<times> 'r load_balancer" where
  "trim_recent_drops now s =
     (let drops = dropWhile (\<lambda>t. t < now - drop_window_s) (lb_recent_drops s)
      in (int (length drops), s\<lparr>lb_recent_drops := drops\<rparr>))"

definition is_lorant :: "scheduler \<Rightarrow> bool" where
  "is_lorant sch = (case sch of RandomS _ \<Rightarrow> False | _ \<Rightarrow> True)"

definition publish_demand :: "pyfloat \<Rightarrow> 'r load_balancer \<Rightarrow> 'r load_balancer" where
  "publish_demand now s =
     (if is_lorant (lb_scheduler s)
      then let (drops, s1) = trim_recent_drops now s
           in s1\<lparr>lb_scheduler := sched_set_demand (lb_scheduler s1) (int (length (lb_pending s1))) drops\<rparr>
      else s)"

text \<open>Snapshot, rates and \<open>scheduler.route_request\<close>: the block under the routing lock.\<close>

definition decide :: "pyfloat \<Rightarrow> adapter \<Rightarrow> 'r load_balancer \<Rightarrow> routing_decision \<times> 'r load_balancer" where
  "decide now a s =
     (let workers_with_adapter = get_workers_for_adapter (lb_registry s) a;
          snapshots = build_worker_snapshots now s;
          (adapter_rate, tr1) = ft_get_request_rate now a (lb_tracker s);
          (adapter_rates, tr2) = ft_all_rates now tr1;
          num_workers = int (length (lb_workers s));
          s1 = publish_demand now (s\<lparr>lb_tracker := tr2\<rparr>);
          (decision, sch) = sched_route (lb_scheduler s1) a snapshots workers_with_adapter adapter_rate
             adapter_rates num_workers (lb_max_workers s1)
      in (decision, s1\<lparr>lb_scheduler := sch\<rparr>))"

definition routed_oid :: "routing_decision \<Rightarrow> 'r load_balancer \<Rightarrow> nat option" where
  "routed_oid d s = (if rd_action d = ROUTE
     then (case rd_worker_id d of None \<Rightarrow> None | Some wid \<Rightarrow> worker_oid s wid) else None)"

text \<open>Decide and, for ROUTE, reserve the worker before anything else can run.\<close>

definition decide_and_reserve ::
  "pyfloat \<Rightarrow> adapter \<Rightarrow> 'r load_balancer \<Rightarrow> routing_decision \<times> nat option \<times> 'r load_balancer" where
  "decide_and_reserve now a s =
     (let (d, s1) = decide now a s
      in case routed_oid d s1 of
           None \<Rightarrow> (d, None, s1)
         | Some oid \<Rightarrow> (d, Some oid, reserve oid s1))"

section \<open>The dispatcher\<close>

definition current_e1 :: "'r load_balancer \<Rightarrow> pyfloat" where
  "current_e1 s = post_admit_margin (lb_e1_s s) (lb_e1_n s) (lb_slo_s s)"

definition expired :: "pyfloat \<Rightarrow> pending_request \<Rightarrow> 'r load_balancer \<Rightarrow> bool" where
  "expired now pr s \<longleftrightarrow> future_done s (pr_future pr) \<or> pr_deadline pr < now + current_e1 s"

text \<open>Drop expired entries from the head of the queue.\<close>

fun prune_queue :: "pyfloat \<Rightarrow> pending_request list \<Rightarrow> 'r load_balancer \<Rightarrow> 'r load_balancer" where
  "prune_queue now [] s = s\<lparr>lb_pending := []\<rparr>"
| "prune_queue now (pr # rest) s =
     (if expired now pr s then prune_queue now rest (cancel_future (pr_future pr) s)
      else s\<lparr>lb_pending := pr # rest\<rparr>)"

text \<open>
  One entry of the queue: whether it stays pending, and the task it starts. The whole
  cycle runs at one time, as it does not wait.
\<close>

definition dispatch_one ::
  "pyfloat \<Rightarrow> pending_request \<Rightarrow> 'r load_balancer \<Rightarrow> bool \<times> lb_task list \<times> 'r load_balancer" where
  "dispatch_one now pr s =
     (if expired now pr s then (False, [], cancel_future (pr_future pr) s)
      else
        let (d, worker, s1) = decide_and_reserve now (pr_adapter_id pr) s
        in case rd_action d of
             ROUTE \<Rightarrow>
               (case worker of
                  None \<Rightarrow> (True, [], s1)
                | Some oid \<Rightarrow>
                    if rd_needs_swap d then (False, [SwapResolve oid (pr_adapter_id pr) (pr_future pr)], s1)
                    else if \<not> future_done s1 (pr_future pr)
                    then (False, [], set_future (pr_future pr) (F_Result oid) s1)
                    else (False, [], unreserve oid s1))
           | SPAWN \<Rightarrow>
               (True, [SpawnDispatch (pr_adapter_id pr)],
                s1\<lparr>lb_spawns_in_progress := lb_spawns_in_progress s1 @ [pr_adapter_id pr]\<rparr>)
           | _ \<Rightarrow> (True, [], s1))"

fun dispatch_all ::
  "pyfloat \<Rightarrow> pending_request list \<Rightarrow> 'r load_balancer
     \<Rightarrow> pending_request list \<times> lb_task list \<times> 'r load_balancer" where
  "dispatch_all now [] s = ([], [], s)"
| "dispatch_all now (pr # rest) s =
     (let (stays, ts, s1) = dispatch_one now pr s;
          (still, more, s2) = dispatch_all now rest s1
      in (if stays then pr # still else still, ts @ more, s2))"

definition dispatch_cycle :: "pyfloat \<Rightarrow> 'r load_balancer \<Rightarrow> lb_task list \<times> 'r load_balancer" where
  "dispatch_cycle now s =
     (let s0 = s\<lparr>lb_worker_available := False\<rparr>
      in if lb_pending s0 = [] then ([], s0)
         else
           let s1 = prune_queue now (lb_pending s0) s0
           in if lb_pending s1 = [] then ([], upd_stats (\<lambda>t. t\<lparr>st_queue_depth := 0\<rparr>) s1)
              else
                let (still_pending, ts, s2) = dispatch_all now (lb_pending s1) s1
                in (ts, set_queue_depth (s2\<lparr>lb_pending := still_pending\<rparr>)))"

section \<open>Burst detection\<close>

text \<open>\<open>Counter(...)\<close>, in the order of first occurrence; \<open>most_common()\<close> is a stable descending sort.\<close>

definition adapter_demand :: "pending_request list \<Rightarrow> (adapter, int) dict" where
  "adapter_demand prs =
     foldl (\<lambda>d pr. AList.update (pr_adapter_id pr) (dict_get d (pr_adapter_id pr) 0 + 1) d) [] prs"

text \<open>\<open>budget\<close> is \<open>max_workers - total_committed\<close>: what may still be started.\<close>

fun burst_spawn_n :: "nat \<Rightarrow> adapter \<Rightarrow> int \<Rightarrow> int \<Rightarrow> int \<times> adapter list" where
  "burst_spawn_n 0 a budget spawned = (spawned, [])"
| "burst_spawn_n (Suc n) a budget spawned =
     (if budget \<le> spawned then (spawned, [])
      else let (spawned1, as) = burst_spawn_n n a budget (spawned + 1) in (spawned1, a # as))"

fun burst_loop :: "(adapter \<times> int) list \<Rightarrow> adapter list \<Rightarrow> int \<Rightarrow> int \<Rightarrow> adapter list" where
  "burst_loop [] in_progress budget spawned = []"
| "burst_loop ((a, n) # rest) in_progress budget spawned =
     (let in_flight = int (count_list in_progress a);
          to_spawn = min (n - in_flight) (burst_spawn_cap - spawned);
          (spawned1, as) = burst_spawn_n (nat to_spawn) a budget spawned
      in if burst_spawn_cap \<le> spawned1 \<or> budget \<le> spawned1 then as
         else as @ burst_loop rest (in_progress @ as) budget spawned1)"

definition starting_workers :: "'r load_balancer \<Rightarrow> int" where
  "starting_workers s = int (length (filter (\<lambda>w. wi_status w = W_STARTING) (pool_workers s)))"

definition total_committed :: "'r load_balancer \<Rightarrow> int" where
  "total_committed s = int (length (lb_workers s)) +
     (starting_workers s + int (length (lb_spawns_in_progress s)))"

definition detect_burst_and_spawn :: "pyfloat \<Rightarrow> 'r load_balancer \<Rightarrow> lb_task list \<times> 'r load_balancer" where
  "detect_burst_and_spawn now s =
     (let s1 = s\<lparr>lb_recent_arrivals := filter (\<lambda>t. now - burst_window < t) (lb_recent_arrivals s @ [now])\<rparr>
      in if int (length (lb_recent_arrivals s1)) < burst_threshold then ([], s1)
         else if int (length (lb_pending s1)) < burst_threshold then ([], s1)
         else if lb_max_workers s1 \<le> total_committed s1 then ([], s1)
         else
           let as = burst_loop (sort_desc snd (adapter_demand (lb_pending s1))) (lb_spawns_in_progress s1)
                      (lb_max_workers s1 - total_committed s1) 0
           in (map SpawnDispatch as, s1\<lparr>lb_spawns_in_progress := lb_spawns_in_progress s1 @ as\<rparr>))"

section \<open>Queueing a request\<close>

text \<open>\<open>_wait_for_available_worker\<close> up to its wait: the number of the future.\<close>

definition enqueue :: "pyfloat \<Rightarrow> adapter \<Rightarrow> pyfloat \<Rightarrow> 'r load_balancer \<Rightarrow> nat \<times> 'r load_balancer" where
  "enqueue now a arrival s =
     (let fid = lb_next_future s;
          pr = \<lparr>pr_adapter_id = a, pr_future = fid, pr_deadline = arrival + lb_slo_s s, pr_enqueued_at = now,
                pr_cold = False\<rparr>;
          s1 = s\<lparr>lb_next_future := Suc fid, lb_futures := AList.update fid F_Pending (lb_futures s),
                 lb_pending := lb_pending s @ [pr]\<rparr>
      in (fid, wake (set_queue_depth s1)))"

text \<open>
  The end of the wait: the worker the future was resolved with, or none when it was
  cancelled or timed out (\<open>wait_for\<close> then cancels it).
\<close>

definition wait_finish :: "nat \<Rightarrow> 'r load_balancer \<Rightarrow> nat option \<times> 'r load_balancer" where
  "wait_finish fid s =
     (let s1 = cancel_future fid s
      in (case map_of (lb_futures s1) fid of Some (F_Result oid) \<Rightarrow> Some oid | _ \<Rightarrow> None,
          set_queue_depth s1))"

section \<open>Background tasks\<close>

definition swap_and_resolve_finish ::
  "pyfloat \<Rightarrow> nat \<Rightarrow> adapter \<Rightarrow> nat \<Rightarrow> pyfloat option \<Rightarrow> 'r load_balancer \<Rightarrow> 'r load_balancer" where
  "swap_and_resolve_finish now oid a fid reply s =
     (let (ok, s1) = swap_finish oid a reply s
      in if ok
         then (if \<not> future_done s1 fid then set_future fid (F_Result oid) s1 else unreserve oid s1)
         else
           let s2 = unreserve oid s1;
               s3 = (if \<not> future_done s2 fid
                     then s2\<lparr>lb_pending := lb_pending s2 @ [\<lparr>pr_adapter_id = a, pr_future = fid,
                            pr_deadline = now + 60, pr_enqueued_at = now, pr_cold = False\<rparr>]\<rparr>
                     else s2)
           in wake s3)"

text \<open>
  \<open>_spawn_for_dispatch\<close> after the spawn: give the new worker to the first waiting request of
  the adapter, or of the adapter the worker now has.
\<close>

fun resolve_first :: "nat \<Rightarrow> adapter \<Rightarrow> adapter \<Rightarrow> pending_request list \<Rightarrow> 'r load_balancer
    \<Rightarrow> pending_request list \<times> 'r load_balancer" where
  "resolve_first oid a wa [] s = ([], s)"
| "resolve_first oid a wa (pr # rest) s =
     (if \<not> future_done s (pr_future pr) \<and> (pr_adapter_id pr = a \<or> wa = pr_adapter_id pr)
      then (pr\<lparr>pr_cold := True\<rparr> # rest, set_future (pr_future pr) (F_Result oid) (reserve oid s))
      else let (rest1, s1) = resolve_first oid a wa rest s in (pr # rest1, s1))"

definition spawn_for_dispatch_finish :: "nat option \<Rightarrow> adapter \<Rightarrow> 'r load_balancer \<Rightarrow> 'r load_balancer" where
  "spawn_for_dispatch_finish worker a s =
     (let s1 = (case worker of
                  None \<Rightarrow> s
                | Some oid \<Rightarrow>
                    (case map_of (lb_heap s) oid of
                       None \<Rightarrow> s
                     | Some w \<Rightarrow>
                         let (prs, s0) = resolve_first oid a (wi_adapter_id w) (lb_pending s) s
                         in s0\<lparr>lb_pending := prs\<rparr>))
      in wake (s1\<lparr>lb_spawns_in_progress := remove1 a (lb_spawns_in_progress s1)\<rparr>))"

definition background_grow_finish :: "nat option \<Rightarrow> 'r load_balancer \<Rightarrow> 'r load_balancer" where
  "background_grow_finish worker s = (if worker \<noteq> None then wake s else s)"

section \<open>The proactive loop\<close>

definition rebalance_task :: "'r load_balancer \<Rightarrow> int \<times> adapter \<Rightarrow> lb_task list" where
  "rebalance_task s = (\<lambda>(wid, target).
     case worker_oid s wid of
       None \<Rightarrow> []
     | Some oid \<Rightarrow>
         (case map_of (lb_heap s) oid of
            None \<Rightarrow> []
          | Some w \<Rightarrow> if wi_active_requests w = 0 then [RebalanceSwap oid target] else []))"

definition proactive_cycle :: "pyfloat \<Rightarrow> 'r load_balancer \<Rightarrow> lb_task list \<times> 'r load_balancer" where
  "proactive_cycle now s =
     (let (adapter_rates, tr) = ft_all_rates now (lb_tracker s);
          s1 = s\<lparr>lb_tracker := tr\<rparr>
      in if adapter_rates = [] then ([], s1)
         else
           let snapshots = build_worker_snapshots now s1;
               num_workers = int (length (lb_workers s1));
               rebalances = (if is_lorant (lb_scheduler s1)
                             then sched_rebalances (lb_scheduler s1) snapshots adapter_rates num_workers (lb_max_workers s1)
                             else []);
               to_spawn = sched_spawns (lb_scheduler s1) snapshots adapter_rates num_workers (lb_max_workers s1)
                            (starting_workers s1)
           in (concat (map (rebalance_task s1) rebalances) @ map SpawnDispatch to_spawn,
               s1\<lparr>lb_spawns_in_progress := lb_spawns_in_progress s1 @ to_spawn\<rparr>))"

section \<open>Sending a request to a worker\<close>

text \<open>\<open>_send_inference\<close> up to the POST; \<open>False\<close>: the worker is being stopped, the call returns.\<close>

definition send_begin :: "nat \<Rightarrow> 'r load_balancer \<Rightarrow> bool \<times> 'r load_balancer" where
  "send_begin oid s =
     (case map_of (lb_heap s) oid of
        Some w \<Rightarrow> if wi_status w = W_STOPPING then (False, unreserve oid s) else (True, s)
      | None \<Rightarrow> (False, s))"

text \<open>
  The worker's answer: a success with its end-to-end and first-token times, a JSON answer
  without success, or an exception. The flag says whether the error text contains
  "Connect call failed".
\<close>

datatype 'r send_reply = SendOk 'r pyfloat pyfloat | SendFail bool | SendExn bool

definition finish_worker :: "pyfloat \<Rightarrow> worker_info \<Rightarrow> worker_info" where
  "finish_worker now w =
     (let w1 = w\<lparr>wi_active_requests := wi_active_requests w - 1, wi_last_request_at := now\<rparr>
      in if wi_status w1 = W_UNHEALTHY then w1\<lparr>wi_status := W_READY\<rparr> else w1)"

definition send_finish :: "pyfloat \<Rightarrow> nat \<Rightarrow> 'r send_reply \<Rightarrow> 'r load_balancer \<Rightarrow> 'r load_balancer" where
  "send_finish now oid reply s =
     (let s1 = (case reply of
                  SendOk r e2e ttft \<Rightarrow>
                    upd_stats (\<lambda>t. t\<lparr>st_total_inference_ms := st_total_inference_ms t + e2e\<rparr>)
                      (upd_worker oid (\<lambda>w. w\<lparr>wi_requests_handled := wi_requests_handled w + 1,
                          wi_total_inference_ms := wi_total_inference_ms w + e2e\<rparr>) s)
                | SendFail _ \<Rightarrow> upd_worker oid (\<lambda>w. w\<lparr>wi_requests_handled := wi_requests_handled w + 1\<rparr>) s
                | SendExn _ \<Rightarrow> s)
      in wake (upd_worker oid (finish_worker now) s1))"

text \<open>The moving average of the post-assignment work.\<close>

definition observe_e1 :: "pyfloat \<Rightarrow> pyfloat \<Rightarrow> pyfloat \<Rightarrow> 'r load_balancer \<Rightarrow> 'r load_balancer" where
  "observe_e1 ttft_ms dispatch_wall arrival s =
     (let obs = ttft_ms / 1000 - (dispatch_wall - arrival)
      in if 0 < obs \<and> obs < lb_slo_s s
         then s\<lparr>lb_e1_s := (if lb_e1_n s = 0 then obs else (1/5) * obs + (4/5) * lb_e1_s s),
                lb_e1_n := lb_e1_n s + 1\<rparr>
         else s)"

section \<open>route\_request\<close>

text \<open>
  Where a request goes on: swapping the reserved worker, sending, spawning, waiting in the
  queue, or finished with an error.
\<close>

datatype route_next =
    N_Swap nat bool
  | N_Send nat
  | N_Spawn
  | N_Wait nat
  | N_Error

definition queue_request :: "pyfloat \<Rightarrow> adapter \<Rightarrow> pyfloat \<Rightarrow> 'r load_balancer
    \<Rightarrow> route_next \<times> lb_task list \<times> 'r load_balancer" where
  "queue_request now a arrival s =
     (let s1 = upd_stats (\<lambda>t. t\<lparr>st_requests_queued := st_requests_queued t + 1\<rparr>) s;
          (ts, s2) = detect_burst_and_spawn now s1;
          (fid, s3) = enqueue now a arrival s2
      in (N_Wait fid, ts, s3))"

definition count_spawned :: "'r load_balancer \<Rightarrow> 'r load_balancer" where
  "count_spawned s = upd_stats (\<lambda>t. t\<lparr>st_requests_spawned := st_requests_spawned t + 1\<rparr>) s"

definition queue_exhausted :: "pyfloat \<Rightarrow> 'r load_balancer \<Rightarrow> 'r load_balancer" where
  "queue_exhausted now s = s\<lparr>lb_recent_drops := lb_recent_drops s @ [now]\<rparr>"

definition request_adapter :: "adapter \<Rightarrow> 'r load_balancer \<Rightarrow> adapter" where
  "request_adapter a s = (if truthy a then a else lb_default_adapter s)"

definition route_begin :: "pyfloat \<Rightarrow> adapter \<Rightarrow> pyfloat \<Rightarrow> 'r load_balancer
    \<Rightarrow> route_next \<times> lb_task list \<times> 'r load_balancer" where
  "route_begin now req_adapter arrival s =
     (let s0 = upd_stats (\<lambda>t. t\<lparr>st_requests_total := st_requests_total t + 1\<rparr>) s;
          a = request_adapter req_adapter s0;
          s1 = s0\<lparr>lb_tracker := ft_record_request now a (lb_tracker s0)\<rparr>;
          (d, worker, s2) = decide_and_reserve now a s1
      in case rd_action d of
           ROUTE \<Rightarrow>
             (case worker of
                None \<Rightarrow> (N_Error, [], queue_exhausted now s2)
              | Some oid \<Rightarrow>
                  if rd_needs_swap d
                  then (N_Swap oid (rd_needs_spawn d), [],
                        swap_begin oid (upd_stats (\<lambda>t. t\<lparr>st_requests_swapped := st_requests_swapped t + 1\<rparr>) s2))
                  else (N_Send oid, if rd_needs_spawn d then [BackgroundGrow a] else [],
                        upd_stats (\<lambda>t. t\<lparr>st_requests_matched := st_requests_matched t + 1\<rparr>) s2))
         | SPAWN \<Rightarrow> (N_Spawn, [], count_spawned s2)
         | QUEUE \<Rightarrow> queue_request now a arrival s2
         | REJECT \<Rightarrow> (N_Error, [], s2))"

definition route_after_swap :: "nat \<Rightarrow> adapter \<Rightarrow> bool \<Rightarrow> pyfloat option \<Rightarrow> 'r load_balancer
    \<Rightarrow> route_next \<times> lb_task list \<times> 'r load_balancer" where
  "route_after_swap oid a needs_spawn reply s =
     (let (ok, s1) = swap_finish oid a reply s
      in if ok then (N_Send oid, if needs_spawn then [BackgroundGrow a] else [], s1)
         else (N_Spawn, [], count_spawned (unreserve oid s1)))"

text \<open>After both attempts to spawn (a failed first one is repeated after a second).\<close>

definition route_after_spawn :: "pyfloat \<Rightarrow> nat option \<Rightarrow> adapter \<Rightarrow> pyfloat \<Rightarrow> 'r load_balancer
    \<Rightarrow> route_next \<times> lb_task list \<times> 'r load_balancer" where
  "route_after_spawn now worker a arrival s =
     (case worker of
        Some oid \<Rightarrow> (N_Send oid, [], reserve oid s)
      | None \<Rightarrow> queue_request now a arrival s)"

definition route_after_wait :: "pyfloat \<Rightarrow> nat \<Rightarrow> 'r load_balancer \<Rightarrow> route_next \<times> 'r load_balancer" where
  "route_after_wait now fid s =
     (let (worker, s1) = wait_finish fid s
      in case worker of
           Some oid \<Rightarrow> (N_Send oid, s1)
         | None \<Rightarrow> (N_Error, queue_exhausted now s1))"

text \<open>
  After a send: remember the work time; after a refused connection remove the worker by its
  id and queue again (\<open>N_Wait\<close>), else the call returns (\<open>None\<close>).
\<close>

definition connect_failed :: "'r send_reply \<Rightarrow> bool" where
  "connect_failed reply = (case reply of SendOk _ _ _ \<Rightarrow> False | SendFail b \<Rightarrow> b | SendExn b \<Rightarrow> b)"

definition route_after_send :: "pyfloat \<Rightarrow> nat \<Rightarrow> adapter \<Rightarrow> pyfloat \<Rightarrow> pyfloat \<Rightarrow> 'r send_reply \<Rightarrow> 'r load_balancer
    \<Rightarrow> nat option \<times> 'r load_balancer" where
  "route_after_send now oid a arrival dispatch_wall reply s =
     (let s1 = (case reply of SendOk r e2e ttft \<Rightarrow> observe_e1 ttft dispatch_wall arrival s | _ \<Rightarrow> s)
      in if connect_failed reply
         then (case map_of (lb_heap s1) oid of
                 None \<Rightarrow> (None, s1)
               | Some w \<Rightarrow>
                   let (fid, s2) = enqueue now a arrival (remove_worker (wi_worker_id w) s1)
                   in (Some fid, s2))
         else (None, s1))"

text \<open>The second wait: the worker the dispatcher already reserved is reserved once more.\<close>

definition route_after_retry_wait :: "nat \<Rightarrow> 'r load_balancer \<Rightarrow> nat option \<times> 'r load_balancer" where
  "route_after_retry_wait fid s =
     (let (worker, s1) = wait_finish fid s
      in case worker of
           Some oid \<Rightarrow> (Some oid, reserve oid s1)
         | None \<Rightarrow> (None, s1))"

section \<open>Prompt construction\<close>

text \<open>\<open>messages_to_prompt\<close>: messages are pairs of role and content; other roles are dropped.\<close>

definition message_part :: "string \<times> string \<Rightarrow> string list" where
  "message_part = (\<lambda>(role, content).
     if role = ''system'' then [''System: '' @ content]
     else if role = ''user'' then [''User: '' @ content]
     else if role = ''assistant'' then [''Assistant: '' @ content]
     else [])"

fun join_lines :: "string list \<Rightarrow> string" where
  "join_lines [] = []"
| "join_lines [x] = x"
| "join_lines (x # y # ys) = x @ [CHR 0x0A] @ join_lines (y # ys)"

definition messages_to_prompt :: "(string \<times> string) list \<Rightarrow> string" where
  "messages_to_prompt messages = join_lines (concat (map message_part messages) @ [''Assistant:''])"

end
