(* ===== verification/Dispatch_Inv.thy ===== *)
theory Dispatch_Inv
  imports Dispatch
begin

text \<open>
  What routing and dispatching guarantee: a reserved worker was ready and idle, one cycle
  of the dispatcher never gives two requests the same worker and never loses a request,
  burst spawns stay within their bounds, and a reaped worker was idle.
\<close>

section \<open>Snapshots describe the pool\<close>

definition snapshot_of :: "pyfloat \<Rightarrow> worker_info \<Rightarrow> worker_snapshot" where
  "snapshot_of now w = \<lparr>ws_worker_id = wi_worker_id w, ws_adapter_id = wi_adapter_id w,
      ws_status = worker_status_value (wi_status w), ws_active_requests = wi_active_requests w,
      ws_idle_time = worker_idle_time now w, ws_device = wi_device w\<rparr>"

lemma foldl_update_fresh:
  assumes "distinct (map k xs)" and "set (map k xs) \<inter> set (dict_keys d) = {}"
  shows "foldl (\<lambda>d x. AList.update (k x) (f x) d) d xs = d @ map (\<lambda>x. (k x, f x)) xs"
  using assms
proof (induction xs arbitrary: d)
  case (Cons x xs)
  have "AList.update (k x) (f x) d = d @ [(k x, f x)]"
    using Cons.prems by (intro update_fresh) auto
  with Cons show ?case by (auto simp: image_iff)
qed simp

lemma pool_workers_ids:
  assumes "pool_ok s"
  shows "map wi_worker_id (pool_workers s) = dict_keys (lb_workers s)"
proof -
  have "map wi_worker_id (List.map_filter (map_of (lb_heap s)) (dict_values d)) = dict_keys d"
    if "\<forall>(wid, oid) \<in> set d. entry_ok s wid oid" for d
    using that by (induction d) (auto simp: List.map_filter_simps entry_ok_def)
  moreover have "\<forall>(wid, oid) \<in> set (lb_workers s). entry_ok s wid oid"
    using assms by (auto simp: pool_ok_def map_of_eq_Some_iff)
  ultimately show ?thesis unfolding pool_workers_def by blast
qed

lemma snapshots_eq:
  assumes "pool_ok s"
  shows "build_worker_snapshots now s = map (\<lambda>w. (wi_worker_id w, snapshot_of now w)) (pool_workers s)"
proof -
  have "distinct (map wi_worker_id (pool_workers s))"
    using assms pool_workers_ids [OF assms] by (simp add: pool_ok_def)
  then show ?thesis
    using foldl_update_fresh [of wi_worker_id "pool_workers s" "[]" "snapshot_of now"]
    by (simp add: build_worker_snapshots_def snapshot_of_def)
qed

lemma snapshots_wf: "pool_ok s \<Longrightarrow> dict_wf (build_worker_snapshots now s)"
  using pool_workers_ids [of s] by (simp add: snapshots_eq comp_def pool_ok_def)

lemma snapshots_length: "pool_ok s \<Longrightarrow> length (build_worker_snapshots now s) = length (lb_workers s)"
  using arg_cong [OF pool_workers_ids, of s length] by (simp add: snapshots_eq)

lemma snapshot_lookup:
  assumes ok: "pool_ok s" and snap: "map_of (build_worker_snapshots now s) wid = Some sn"
  shows "\<exists>oid w. map_of (lb_workers s) wid = Some oid \<and> map_of (lb_heap s) oid = Some w \<and> sn = snapshot_of now w"
proof -
  have "(wid, sn) \<in> set (build_worker_snapshots now s)" using snap by (rule map_of_SomeD)
  then obtain w where w: "w \<in> set (pool_workers s)" "wi_worker_id w = wid" "sn = snapshot_of now w"
    using ok by (auto simp: snapshots_eq)
  then have "\<exists>oid \<in> set (dict_values (lb_workers s)). map_of (lb_heap s) oid = Some w"
    by (force simp: pool_workers_def List.map_filter_def)
  then obtain oid where oid: "oid \<in> set (dict_values (lb_workers s))" "map_of (lb_heap s) oid = Some w" by blast
  have wf: "dict_wf (lb_workers s)" using ok by (simp add: pool_ok_def)
  obtain k where k: "map_of (lb_workers s) k = Some oid" using iffD1 [OF dict_values_iff [OF wf] oid(1)] ..
  have "entry_ok s k oid" using ok k by (rule pool_entry)
  then have "k = wid" using oid w by (auto simp: entry_ok_def)
  with k oid w show ?thesis by blast
qed

section \<open>A routed worker was ready and idle\<close>

definition idle_ready :: "'r load_balancer \<Rightarrow> nat \<Rightarrow> bool" where
  "idle_ready s oid \<longleftrightarrow> oid \<in> set (dict_values (lb_workers s)) \<and>
     (case map_of (lb_heap s) oid of None \<Rightarrow> False
      | Some w \<Rightarrow> wi_status w = W_READY \<and> wi_active_requests w = 0)"

lemma status_ready: "worker_status_value st = ''ready'' \<longleftrightarrow> st = W_READY"
  by (cases st) auto

lemma publish_demand_frame [simp]:
  "lb_workers (publish_demand now s) = lb_workers s" "lb_heap (publish_demand now s) = lb_heap s"
  "lb_futures (publish_demand now s) = lb_futures s" "lb_pending (publish_demand now s) = lb_pending s"
  "lb_max_workers (publish_demand now s) = lb_max_workers s"
  "lb_slo_s (publish_demand now s) = lb_slo_s s" "lb_e1_s (publish_demand now s) = lb_e1_s s"
  "lb_e1_n (publish_demand now s) = lb_e1_n s"
  by (simp_all add: publish_demand_def trim_recent_drops_def Let_def)

lemma decide_frame:
  assumes "decide now a s = (d, s1)"
  shows "lb_workers s1 = lb_workers s" "lb_heap s1 = lb_heap s" "lb_futures s1 = lb_futures s"
    "lb_pending s1 = lb_pending s" "lb_max_workers s1 = lb_max_workers s" "lb_slo_s s1 = lb_slo_s s"
    "lb_e1_s s1 = lb_e1_s s" "lb_e1_n s1 = lb_e1_n s"
  using assms by (auto simp: decide_def Let_def case_prod_unfold)

lemma decide_sched:
  assumes "decide now a s = (d, s1)"
  shows "\<exists>sch wwa r rs. d = fst (sched_route sch a (build_worker_snapshots now s) wwa r rs
     (int (length (lb_workers s))) (lb_max_workers s))"
  using assms by (auto simp: decide_def Let_def case_prod_unfold)

lemma decide_route_idle:
  assumes ok: "pool_ok s" and d: "decide now a s = (d, s1)" and route: "rd_action d = ROUTE"
  shows "\<exists>oid. routed_oid d s1 = Some oid \<and> idle_ready s oid"
proof -
  obtain sch wwa r rs where deq: "d = fst (sched_route sch a (build_worker_snapshots now s) wwa r rs
      (int (length (lb_workers s))) (lb_max_workers s))" using decide_sched [OF d] by blast
  obtain wid sn where wid: "rd_worker_id d = Some wid" and sn: "map_of (build_worker_snapshots now s) wid = Some sn"
    and free: "is_free sn"
    using any_policy.route_free [OF snapshots_wf [OF ok]] route unfolding deq by blast
  obtain oid w where w: "map_of (lb_workers s) wid = Some oid" "map_of (lb_heap s) oid = Some w" "sn = snapshot_of now w"
    using snapshot_lookup [OF ok sn] by blast
  have "oid \<in> set (dict_values (lb_workers s))" using w(1) by (rule map_of_in_values)
  with w free have "idle_ready s oid"
    by (simp add: idle_ready_def is_free_def snapshot_of_def status_ready del: set_map)
  moreover have "routed_oid d s1 = Some oid"
    using route wid w decide_frame [OF d] by (simp add: routed_oid_def worker_oid_def)
  ultimately show ?thesis by blast
qed

lemma decide_queue_full:
  assumes "pool_ok s" and "decide now a s = (d, s1)"
  shows "rd_action d = SPAWN \<Longrightarrow> int (length (lb_workers s)) < lb_max_workers s"
    and "rd_action d = QUEUE \<Longrightarrow> lb_max_workers s \<le> int (length (lb_workers s))"
    and "rd_action d \<noteq> REJECT"
  using decide_sched [OF assms(2)] any_policy.route_spawn any_policy.route_queue any_policy.route_total by metis+

lemma routed_action: "routed_oid d s = Some oid \<Longrightarrow> rd_action d = ROUTE"
  by (simp add: routed_oid_def split: if_splits)

text \<open>The reservation takes a free worker to one request.\<close>

lemma decide_and_reserve_cases:
  assumes ok: "pool_ok s" and dr: "decide_and_reserve now a s = (d, worker, s1)"
  shows "(case worker of
       None \<Rightarrow> rd_action d \<noteq> ROUTE \<and> lb_heap s1 = lb_heap s
     | Some oid \<Rightarrow> rd_action d = ROUTE \<and> idle_ready s oid \<and> lb_heap s1 = lb_heap (reserve oid s)) \<and>
    lb_workers s1 = lb_workers s \<and> lb_futures s1 = lb_futures s \<and> lb_pending s1 = lb_pending s"
proof -
  obtain d' s0 where dec: "decide now a s = (d', s0)" by fastforce
  note fr = decide_frame [OF dec]
  have same: "lb_heap (reserve oid s0) = lb_heap (reserve oid s)" for oid
    by (simp add: reserve_def upd_worker_def fr split: option.split)
  have rfr: "lb_workers (reserve oid s0) = lb_workers s" "lb_futures (reserve oid s0) = lb_futures s"
    "lb_pending (reserve oid s0) = lb_pending s" for oid
    by (simp_all add: reserve_def upd_worker_def fr split: option.split)
  show ?thesis
  proof (cases "routed_oid d' s0")
    case None
    then have "rd_action d' \<noteq> ROUTE" using decide_route_idle [OF ok dec] by auto
    with dr None fr show ?thesis by (auto simp: decide_and_reserve_def dec)
  next
    case (Some oid)
    then have "idle_ready s oid" using decide_route_idle [OF ok dec routed_action [OF Some]] by auto
    moreover have "d = d'" "worker = Some oid" "s1 = reserve oid s0"
      using dr Some by (simp_all add: decide_and_reserve_def dec)
    ultimately show ?thesis using routed_action [OF Some] same rfr by simp
  qed
qed

lemma idle_ready_reserve:
  "idle_ready s oid \<Longrightarrow> \<not> idle_ready (reserve oid s) oid"
  by (auto simp: idle_ready_def reserve_def upd_worker_heap split: option.splits)

lemma reserve_same: "same_pool s t \<Longrightarrow> same_pool s (reserve oid t)"
  by (simp add: reserve_def pool_into keeps_identity_def)

lemma unreserve_same: "same_pool s t \<Longrightarrow> same_pool s (unreserve oid t)"
  by (simp add: unreserve_def pool_into keeps_identity_def)

lemma decide_same: "decide now a s = (d, s1) \<Longrightarrow> same_pool s s1"
  by (auto simp: decide_def publish_demand_def trim_recent_drops_def same_pool_def Let_def case_prod_unfold
      split: if_splits)

lemma decide_and_reserve_same: "decide_and_reserve now a s = (d, worker, s1) \<Longrightarrow> same_pool s s1"
  by (auto simp: decide_and_reserve_def split: prod.splits option.splits dest!: decide_same intro: reserve_same)

lemma cancel_future_same: "same_pool s (cancel_future fid s)" "same_pool s (set_future fid v s)"
  by (simp_all add: cancel_future_def set_future_def fields_same)

section \<open>One cycle of the dispatcher\<close>

text \<open>
  What handling one entry does: nothing is handed out, or one idle worker is, by
  resolving the future or by a swap task.
\<close>

definition handed :: "pending_request \<Rightarrow> nat \<Rightarrow> lb_task list \<Rightarrow> 'r load_balancer \<Rightarrow> 'r load_balancer \<Rightarrow> bool" where
  "handed pr oid ts s s1 \<longleftrightarrow> idle_ready s oid \<and> lb_heap s1 = lb_heap (reserve oid s) \<and>
     (ts = [SwapResolve oid (pr_adapter_id pr) (pr_future pr)] \<and> lb_futures s1 = lb_futures s \<or>
      ts = [] \<and> lb_futures s1 = AList.update (pr_future pr) (F_Result oid) (lb_futures s))"

definition not_handed :: "pending_request \<Rightarrow> bool \<Rightarrow> lb_task list \<Rightarrow> 'r load_balancer \<Rightarrow> 'r load_balancer \<Rightarrow> bool" where
  "not_handed pr stays ts s s1 \<longleftrightarrow> lb_heap s1 = lb_heap s \<and> (\<forall>oid a fid. SwapResolve oid a fid \<notin> set ts) \<and>
     (if stays then lb_futures s1 = lb_futures s else lb_futures s1 = lb_futures (cancel_future (pr_future pr) s))"

lemma dispatch_one_cases:
  assumes ok: "pool_ok s" and one: "dispatch_one now pr s = (stays, ts, s1)"
  shows "lb_workers s1 = lb_workers s \<and> lb_pending s1 = lb_pending s \<and> pool_ok s1 \<and>
    (not_handed pr stays ts s s1 \<or> (\<not> stays \<and> (\<exists>oid. handed pr oid ts s s1)))"
proof (cases "expired now pr s")
  case True
  then have "s1 = cancel_future (pr_future pr) s" "ts = []" "\<not> stays" using one by (auto simp: dispatch_one_def)
  moreover have "pool_ok (cancel_future (pr_future pr) s)" using same_pool_both(1) cancel_future_same(1) ok by blast
  ultimately show ?thesis by (simp add: not_handed_def cancel_future_def set_future_def)
next
  case False
  then have nd: "\<not> future_done s (pr_future pr)" by (simp add: expired_def)
  obtain d worker s2 where dr: "decide_and_reserve now (pr_adapter_id pr) s = (d, worker, s2)"
    by (cases "decide_and_reserve now (pr_adapter_id pr) s") auto
  note c = decide_and_reserve_cases [OF ok dr]
  have ok2: "pool_ok s2" using same_pool_both(1) [OF decide_and_reserve_same [OF dr] ok] .
  have nd2: "\<not> future_done s2 (pr_future pr)" using nd c by (simp add: future_done_def)
  show ?thesis
  proof (cases worker)
    case None
    then have na: "rd_action d \<noteq> ROUTE" and heap: "lb_heap s2 = lb_heap s" using c by simp_all
    have ok3: "pool_ok (s2\<lparr>lb_spawns_in_progress := xs\<rparr>)" for xs using same_pool_both(1) [OF fields_same(11) ok2] .
    show ?thesis
      using one False dr na heap None c ok2 ok3
      by (cases "rd_action d") (auto simp: dispatch_one_def not_handed_def)
  next
    case (Some oid)
    then have r: "rd_action d = ROUTE" and idle: "idle_ready s oid" and heap: "lb_heap s2 = lb_heap (reserve oid s)"
      using c by simp_all
    have ok3: "pool_ok (set_future fid v s2)" for fid v using same_pool_both(1) [OF cancel_future_same(2) ok2] .
    show ?thesis
      using one False dr r idle heap Some c ok2 ok3 nd2
      by (auto simp: dispatch_one_def handed_def set_future_def split: if_splits)
  qed
qed

lemma reserve_heap:
  "map_of (lb_heap (reserve oid s)) o' =
    (if o' = oid then map_option (\<lambda>w. w\<lparr>wi_active_requests := wi_active_requests w + 1\<rparr>) (map_of (lb_heap s) o')
     else map_of (lb_heap s) o')"
  by (simp add: reserve_def upd_worker_heap)

lemma idle_ready_cong:
  "lb_heap s1 = lb_heap s2 \<Longrightarrow> lb_workers s1 = lb_workers s2 \<Longrightarrow> idle_ready s1 = idle_ready s2"
  by (simp add: idle_ready_def fun_eq_iff)

lemma idle_ready_other:
  assumes "idle_ready s oid" and "idle_ready (reserve oid s) o'"
  shows "idle_ready s o' \<and> o' \<noteq> oid"
proof (cases "o' = oid")
  case True
  with assms idle_ready_reserve show ?thesis by blast
next
  case False
  then have "map_of (lb_heap (reserve oid s)) o' = map_of (lb_heap s) o'" by (simp add: reserve_heap)
  moreover have "lb_workers (reserve oid s) = lb_workers s" by (simp add: reserve_def)
  ultimately show ?thesis using assms(2) False by (simp add: idle_ready_def del: set_map)
qed

lemma future_update_pending:
  "map_of (AList.update f v d) fid = Some F_Pending \<Longrightarrow> v \<noteq> F_Pending \<Longrightarrow> map_of d fid = Some F_Pending"
  by (simp add: update_conv' split: if_splits)

text \<open>The workers handed out in one pass over the queue, with the futures they went to.\<close>

definition pass_ok :: "(nat \<times> nat) list \<Rightarrow> lb_task list \<Rightarrow> 'r load_balancer \<Rightarrow> 'r load_balancer \<Rightarrow> bool" where
  "pass_ok hs ts s s1 \<longleftrightarrow> distinct (map snd hs) \<and> (\<forall>(fid, oid) \<in> set hs. idle_ready s oid) \<and>
     (\<forall>oid a fid. SwapResolve oid a fid \<in> set ts \<longrightarrow> (fid, oid) \<in> set hs) \<and>
     (\<forall>fid oid. map_of (lb_futures s1) fid = Some (F_Result oid) \<longrightarrow>
        map_of (lb_futures s) fid = Some (F_Result oid) \<or> (fid, oid) \<in> set hs) \<and>
     (\<forall>oid. map_of (lb_heap s1) oid = (if oid \<in> snd ` set hs
        then map_option (\<lambda>w. w\<lparr>wi_active_requests := 1\<rparr>) (map_of (lb_heap s) oid) else map_of (lb_heap s) oid))"

lemma pass_ok_not_handed:
  assumes "not_handed pr stays ts s s1" and "lb_workers s1 = lb_workers s" and "pass_ok hs ts2 s1 s2"
  shows "pass_ok hs (ts @ ts2) s s2"
proof -
  have "idle_ready s1 = idle_ready s" using assms by (intro idle_ready_cong) (simp_all add: not_handed_def)
  moreover have "map_of (lb_futures s1) fid = Some (F_Result oid) \<Longrightarrow> map_of (lb_futures s) fid = Some (F_Result oid)"
    for fid oid
    using assms(1) by (auto simp: not_handed_def cancel_future_def set_future_def update_conv' split: if_splits)
  moreover have "lb_heap s1 = lb_heap s" "\<forall>oid a fid. SwapResolve oid a fid \<notin> set ts"
    using assms(1) by (simp_all add: not_handed_def)
  ultimately show ?thesis using assms(3) unfolding pass_ok_def by (simp only: set_append Un_iff) blast
qed

lemma pass_ok_transfer:
  assumes "pass_ok hs ts s s1" and "idle_ready s = idle_ready r" and "lb_heap s = lb_heap r"
    and "lb_heap r1 = lb_heap s1" and "lb_futures r1 = lb_futures s1"
    and "\<forall>fid oid. map_of (lb_futures s) fid = Some (F_Result oid) \<longrightarrow> map_of (lb_futures r) fid = Some (F_Result oid)"
  shows "pass_ok hs ts r r1"
  using assms unfolding pass_ok_def by (simp only:) blast

lemma pass_ok_handed:
  assumes h: "handed pr oid ts s s1" and ws: "lb_workers s1 = lb_workers s" and p: "pass_ok hs ts2 s1 s2"
  shows "pass_ok ((pr_future pr, oid) # hs) (ts @ ts2) s s2"
proof -
  have heap: "lb_heap s1 = lb_heap (reserve oid s)" and idle: "idle_ready s oid" using h by (simp_all add: handed_def)
  have "idle_ready s1 = idle_ready (reserve oid s)" using heap ws by (intro idle_ready_cong) (simp_all add: reserve_def)
  then have other: "idle_ready s1 o' \<Longrightarrow> idle_ready s o' \<and> o' \<noteq> oid" for o'
    using idle_ready_other [OF idle] by simp
  have fresh: "oid \<notin> snd ` set hs"
  proof
    assume "oid \<in> snd ` set hs"
    then have "idle_ready s1 oid" using p by (auto simp: pass_ok_def)
    with other show False by blast
  qed
  obtain w where w: "map_of (lb_heap s) oid = Some w" "wi_active_requests w = 0"
    using idle by (auto simp: idle_ready_def split: option.splits)
  have fut: "map_of (lb_futures s1) fid = Some (F_Result o') \<Longrightarrow>
      map_of (lb_futures s) fid = Some (F_Result o') \<or> (fid, o') = (pr_future pr, oid)" for fid o'
    using h by (auto simp: handed_def update_conv' split: if_splits)
  have tsk: "SwapResolve o' a fid \<in> set ts \<Longrightarrow> (fid, o') = (pr_future pr, oid)" for o' a fid
    using h by (auto simp: handed_def)
  have "map_of (lb_heap s2) o' = (if o' \<in> snd ` set ((pr_future pr, oid) # hs)
      then map_option (\<lambda>w. w\<lparr>wi_active_requests := 1\<rparr>) (map_of (lb_heap s) o') else map_of (lb_heap s) o')" for o'
    using p w fresh by (simp add: pass_ok_def heap reserve_heap)
  moreover have "map_of (lb_futures s2) fid = Some (F_Result o') \<Longrightarrow>
      map_of (lb_futures s) fid = Some (F_Result o') \<or> (fid, o') \<in> set ((pr_future pr, oid) # hs)" for fid o'
    using p fut [of fid o'] unfolding pass_ok_def by (metis list.set_intros)
  moreover have "SwapResolve o' a fid \<in> set (ts @ ts2) \<Longrightarrow> (fid, o') \<in> set ((pr_future pr, oid) # hs)" for o' a fid
    using p tsk [of o' a fid] unfolding pass_ok_def by auto
  moreover have "distinct (map snd ((pr_future pr, oid) # hs))" using p fresh by (simp add: pass_ok_def)
  moreover have "\<forall>(fid, o') \<in> set ((pr_future pr, oid) # hs). idle_ready s o'"
    using p idle other unfolding pass_ok_def by auto
  ultimately show ?thesis unfolding pass_ok_def by blast
qed

lemma dispatch_all_pass:
  assumes "pool_ok s" and "dispatch_all now prs s = (still, ts, s1)"
  shows "lb_workers s1 = lb_workers s \<and> (\<exists>hs. pass_ok hs ts s s1)"
  using assms
proof (induction prs arbitrary: s still ts s1)
  case Nil
  then show ?case by (auto simp: pass_ok_def intro!: exI [of _ "[]"])
next
  case (Cons pr prs)
  obtain stays ts1 s2 where one: "dispatch_one now pr s = (stays, ts1, s2)" by (cases "dispatch_one now pr s") auto
  obtain still2 ts2 s3 where rest: "dispatch_all now prs s2 = (still2, ts2, s3)"
    by (cases "dispatch_all now prs s2") auto
  have eq: "ts = ts1 @ ts2" "s1 = s3" using Cons.prems(2) one rest by auto
  note c = dispatch_one_cases [OF Cons.prems(1) one]
  from Cons.IH [OF _ rest] c obtain hs where hs: "pass_ok hs ts2 s2 s3" and ws: "lb_workers s3 = lb_workers s" by auto
  from c have "not_handed pr stays ts1 s s2 \<or> (\<exists>oid. handed pr oid ts1 s s2)" by blast
  then show ?case
    using pass_ok_not_handed [OF _ _ hs] pass_ok_handed [OF _ _ hs] c ws unfolding eq by blast
qed

section \<open>No request is lost\<close>

lemma future_done_cong: "lb_futures s1 = lb_futures s2 \<Longrightarrow> future_done s1 = future_done s2"
  by (simp add: future_done_def fun_eq_iff)

lemma future_done_cancel [simp]: "future_done (cancel_future fid s) g = (g = fid \<or> future_done s g)"
  by (auto simp: future_done_def cancel_future_def set_future_def update_conv')

lemma future_done_update: "v \<noteq> F_Pending \<Longrightarrow> lb_futures s1 = AList.update fid v (lb_futures s) \<Longrightarrow>
    future_done s1 g = (g = fid \<or> future_done s g)"
  by (simp add: future_done_def update_conv')

lemma dispatch_one_progress:
  assumes "pool_ok s" and "dispatch_one now pr s = (stays, ts, s1)"
  shows "(future_done s g \<longrightarrow> future_done s1 g) \<and>
    (stays \<or> future_done s1 (pr_future pr) \<or> (\<exists>oid a. SwapResolve oid a (pr_future pr) \<in> set ts))"
proof -
  note c = dispatch_one_cases [OF assms]
  consider (no) "not_handed pr stays ts s s1" | (yes) oid where "\<not> stays" "handed pr oid ts s s1" using c by blast
  then show ?thesis
  proof cases
    case no
    then show ?thesis
      using future_done_cong [of s1 s] future_done_cong [of s1 "cancel_future (pr_future pr) s"]
      by (auto simp: not_handed_def split: if_splits)
  next
    case yes
    then show ?thesis
      using future_done_cong [of s1 s] future_done_update [of "F_Result oid" s1 "pr_future pr" s]
      by (auto simp: handed_def)
  qed
qed

lemma dispatch_all_progress:
  assumes "pool_ok s" and "dispatch_all now prs s = (still, ts, s1)"
  shows "(\<forall>g. future_done s g \<longrightarrow> future_done s1 g) \<and>
    (\<forall>pr \<in> set prs. pr \<in> set still \<or> future_done s1 (pr_future pr) \<or>
       (\<exists>oid a. SwapResolve oid a (pr_future pr) \<in> set ts)) \<and> set still \<subseteq> set prs"
  using assms
proof (induction prs arbitrary: s still ts s1)
  case Nil
  then show ?case by auto
next
  case (Cons pr prs)
  obtain stays ts1 s2 where one: "dispatch_one now pr s = (stays, ts1, s2)" by (cases "dispatch_one now pr s") auto
  obtain still2 ts2 s3 where rest: "dispatch_all now prs s2 = (still2, ts2, s3)"
    by (cases "dispatch_all now prs s2") auto
  have eq: "ts = ts1 @ ts2" "s1 = s3" "still = (if stays then pr # still2 else still2)"
    using Cons.prems(2) one rest by (auto split: if_splits)
  have ok2: "pool_ok s2" using dispatch_one_cases [OF Cons.prems(1) one] by blast
  show ?case
    using Cons.IH [OF ok2 rest] dispatch_one_progress [OF Cons.prems(1) one] unfolding eq by auto
qed

lemma prune_queue_effect:
  "lb_workers (prune_queue now prs s) = lb_workers s \<and> lb_heap (prune_queue now prs s) = lb_heap s \<and>
   same_pool s (prune_queue now prs s) \<and>
   (\<forall>g. future_done s g \<longrightarrow> future_done (prune_queue now prs s) g) \<and>
   (\<forall>pr \<in> set prs. pr \<in> set (lb_pending (prune_queue now prs s)) \<or> future_done (prune_queue now prs s) (pr_future pr)) \<and>
   (\<forall>fid oid. map_of (lb_futures (prune_queue now prs s)) fid = Some (F_Result oid) \<longrightarrow>
      map_of (lb_futures s) fid = Some (F_Result oid))"
proof (induction prs arbitrary: s)
  case Nil
  then show ?case by (simp add: fields_same future_done_def)
next
  case (Cons pr prs)
  show ?case
  proof (cases "expired now pr s")
    case True
    let ?s = "cancel_future (pr_future pr) s"
    have same: "same_pool s ?s" "lb_workers ?s = lb_workers s" "lb_heap ?s = lb_heap s"
      by (simp_all add: cancel_future_same) (simp_all add: cancel_future_def set_future_def)
    have res: "map_of (lb_futures ?s) fid = Some (F_Result oid) \<Longrightarrow> map_of (lb_futures s) fid = Some (F_Result oid)" for fid oid
      by (auto simp: cancel_future_def set_future_def update_conv' split: if_splits)
    show ?thesis
      using Cons.IH [of ?s] True same res same_pool_trans [OF same(1)] by auto
  next
    case False
    then show ?thesis by (simp add: fields_same future_done_def)
  qed
qed

text \<open>The whole cycle.\<close>

lemma dispatch_cycle_cases:
  assumes ok: "pool_ok s" and c: "dispatch_cycle now s = (ts, s')"
  shows "\<exists>hs. pass_ok hs ts s s' \<and>
    (\<forall>pr \<in> set (lb_pending s). pr \<in> set (lb_pending s') \<or> future_done s' (pr_future pr) \<or>
       (\<exists>oid a. SwapResolve oid a (pr_future pr) \<in> set ts))"
proof -
  let ?s0 = "s\<lparr>lb_worker_available := False\<rparr>"
  let ?s1 = "prune_queue now (lb_pending ?s0) ?s0"
  have idle0: "idle_ready ?s0 = idle_ready s" by (simp add: idle_ready_def fun_eq_iff)
  note pq = prune_queue_effect [of now "lb_pending ?s0" ?s0]
  have ok1: "pool_ok ?s1" using pq same_pool_both(1) same_pool_both(1) [OF fields_same(2) ok] by blast
  have idle1: "idle_ready ?s1 = idle_ready s" using pq idle_ready_cong [of ?s1 ?s0] idle0 by simp
  have none: "pass_ok [] [] s t" if "lb_heap t = lb_heap s"
    "\<And>fid oid. map_of (lb_futures t) fid = Some (F_Result oid) \<Longrightarrow> map_of (lb_futures s) fid = Some (F_Result oid)"
    for t :: "'a load_balancer"
    using that by (simp add: pass_ok_def)
  show ?thesis
  proof (cases "lb_pending s = []")
    case True
    then have "ts = []" "s' = ?s0" using c by (simp_all add: dispatch_cycle_def)
    with none [of ?s0] True show ?thesis by auto
  next
    case False
    show ?thesis
    proof (cases "lb_pending ?s1 = []")
      case True
      let ?s2 = "upd_stats (\<lambda>t. t\<lparr>st_queue_depth := 0\<rparr>) ?s1"
      have eq: "ts = []" "s' = ?s2" using c False True by (simp_all add: dispatch_cycle_def Let_def)
      have "pass_ok [] [] s ?s2" using pq by (intro none) (simp_all add: upd_stats_def)
      moreover have "future_done ?s2 = future_done ?s1" by (rule future_done_cong) (simp add: upd_stats_def)
      ultimately show ?thesis using pq True unfolding eq by auto
    next
      case ne: False
      obtain still ts2 s2 where d: "dispatch_all now (lb_pending ?s1) ?s1 = (still, ts2, s2)"
        by (cases "dispatch_all now (lb_pending ?s1) ?s1") auto
      let ?s3 = "set_queue_depth (s2\<lparr>lb_pending := still\<rparr>)"
      have eq: "ts = ts2" "s' = ?s3" using c False ne d by (simp_all add: dispatch_cycle_def Let_def)
      have f3: "lb_heap ?s3 = lb_heap s2" "lb_futures ?s3 = lb_futures s2" "lb_pending ?s3 = still"
        by (simp_all add: set_queue_depth_def upd_stats_def)
      obtain hs where hs: "pass_ok hs ts2 ?s1 s2" using dispatch_all_pass [OF ok1 d] by blast
      have "pass_ok hs ts2 s ?s3"
        using hs idle1 f3(1,2) pq by (intro pass_ok_transfer [OF hs]) simp_all
      moreover have "future_done ?s3 = future_done s2" by (rule future_done_cong) (simp add: f3)
      ultimately show ?thesis
        using dispatch_all_progress [OF ok1 d] pq unfolding eq f3 by auto
    qed
  qed
qed

section \<open>Reaping and bursts\<close>

lemma reap_one_frame [simp]:
  "lb_min_workers (reap_one wid oid w s) = lb_min_workers s"
  "lb_workers (reap_one wid oid w s) = AList.delete wid (lb_workers s)"
  "map_of (lb_heap (reap_one wid oid w s)) o' =
     (if o' = oid then map_option (\<lambda>w. w\<lparr>wi_status := W_STOPPING\<rparr>) (map_of (lb_heap s) o') else map_of (lb_heap s) o')"
  by (simp_all add: reap_one_def take_out_def upd_stats_def upd_worker_heap)

definition reapable :: "'r load_balancer \<Rightarrow> nat \<Rightarrow> bool" where
  "reapable s oid \<longleftrightarrow> (\<exists>wid. map_of (lb_workers s) wid = Some oid) \<and>
     (\<exists>w. map_of (lb_heap s) oid = Some w \<and> wi_status w = W_READY \<and> wi_active_requests w \<le> 0)"

lemma reapable_reap_one: "reapable (reap_one wid oid w s) q \<Longrightarrow> reapable s q"
  by (auto simp: reapable_def delete_conv' split: if_split_asm)

lemma reap_workers_sound:
  assumes "dict_wf (lb_workers s)" and "int (length (lb_workers s)) = n"
  shows "(\<forall>q \<in> set (fst (reap_workers wids n s)). reapable s q) \<and>
    int (length (lb_workers (snd (reap_workers wids n s)))) = n - int (length (fst (reap_workers wids n s))) \<and>
    (lb_min_workers s \<le> n \<longrightarrow> lb_min_workers s \<le> n - int (length (fst (reap_workers wids n s))))"
  using assms
proof (induction wids arbitrary: n s)
  case Nil
  then show ?case by simp
next
  case (Cons wid rest)
  show ?case
  proof (cases "n \<le> lb_min_workers s \<or> map_of (lb_workers s) wid = None")
    case True
    with Cons.IH [OF Cons.prems] Cons.prems show ?thesis unfolding reap_workers_Cons by auto
  next
    case False
    then obtain oid where oid: "map_of (lb_workers s) wid = Some oid" and n: "\<not> n \<le> lb_min_workers s" by auto
    show ?thesis
    proof (cases "map_of (lb_heap s) oid")
      case None
      with Cons.IH [OF Cons.prems] n oid show ?thesis unfolding reap_workers_Cons by simp
    next
      case (Some w)
      show ?thesis
      proof (cases "0 < wi_active_requests w \<or> wi_status w \<noteq> W_READY")
        case True
        with Cons.IH [OF Cons.prems] n oid Some show ?thesis unfolding reap_workers_Cons by simp
      next
        case idle: False
        let ?s = "reap_one wid oid w s"
        have len: "int (length (lb_workers ?s)) = n - 1"
          using length_delete [OF Cons.prems(1) oid] Cons.prems(2) by simp
        have wf: "dict_wf (lb_workers ?s)" using Cons.prems(1) by simp
        obtain os s2 where r: "reap_workers rest (n - 1) ?s = (os, s2)" by fastforce
        have step: "reap_workers (wid # rest) n s = (oid # os, s2)"
          unfolding reap_workers_Cons using n oid Some idle r by simp
        have "reapable s oid" using oid Some idle by (auto simp: reapable_def)
        then show ?thesis
          using Cons.IH [OF wf len] n reapable_reap_one [of wid oid w s] unfolding step r fst_conv snd_conv by auto
      qed
    qed
  qed
qed

lemma burst_spawn_n_spec:
  "burst_spawn_n k a budget spawned = (spawned1, as) \<Longrightarrow>
    spawned1 = spawned + int (length as) \<and> length as \<le> k \<and> set as \<subseteq> {a} \<and> spawned1 \<le> max spawned budget"
proof (induction k arbitrary: spawned spawned1 as)
  case (Suc k)
  show ?case
  proof (cases "budget \<le> spawned")
    case False
    obtain s2 as2 where r: "burst_spawn_n k a budget (spawned + 1) = (s2, as2)" by fastforce
    then show ?thesis using Suc.IH [OF r] Suc.prems False by (auto simp: Let_def)
  qed (use Suc in simp)
qed simp

lemma burst_loop_bounds:
  assumes "0 \<le> spawned" and "spawned \<le> burst_spawn_cap" and "spawned \<le> budget"
  shows "spawned + int (length (burst_loop ds ip budget spawned)) \<le> min burst_spawn_cap budget \<and>
    set (burst_loop ds ip budget spawned) \<subseteq> fst ` set ds"
  using assms
proof (induction ds ip budget spawned rule: burst_loop.induct)
  case (1 ip budget spawned)
  then show ?case by simp
next
  case (2 a n rest ip budget spawned)
  let ?k = "nat (min (n - int (count_list ip a)) (burst_spawn_cap - spawned))"
  obtain s1 as where r: "burst_spawn_n ?k a budget spawned = (s1, as)" by fastforce
  note sp = burst_spawn_n_spec [OF r]
  have le: "s1 \<le> burst_spawn_cap" "s1 \<le> budget" "0 \<le> s1" "s1 = spawned + int (length as)"
    using sp 2(2-4) by auto
  show ?case
  proof (cases "burst_spawn_cap \<le> s1 \<or> budget \<le> s1")
    case True
    then show ?thesis using r le sp by (auto simp: Let_def)
  next
    case False
    have "s1 + int (length (burst_loop rest (ip @ as) budget s1)) \<le> min burst_spawn_cap budget \<and>
        set (burst_loop rest (ip @ as) budget s1) \<subseteq> fst ` set rest"
      using 2(1) [OF refl refl refl, of s1 as] r False le by auto
    then show ?thesis using r le sp False by (auto simp: Let_def)
  qed
qed

section \<open>Cases of the reaper; adapters in demand\<close>

lemma adapter_demand_keys: "fst ` set (adapter_demand prs) = pr_adapter_id ` set prs"
proof -
  have "fst ` set (foldl (\<lambda>d pr. AList.update (pr_adapter_id pr) (dict_get d (pr_adapter_id pr) 0 + 1) d) e prs)
      = fst ` set e \<union> pr_adapter_id ` set prs" for e :: "(adapter, int) dict"
  proof (induction prs arbitrary: e)
    case (Cons pr prs)
    then show ?case by (simp add: dom_update del: set_map)
  qed simp
  from this [of "[]"] show ?thesis by (simp add: adapter_demand_def)
qed

lemma reap_idle_workers_cases:
  assumes "reap_idle_workers now s = (stopped, s')"
  obtains (none) "stopped = []" "s' = s"
  | (some) ids where "lb_pending s = []" "ids \<noteq> []"
      "ids = sched_reap (lb_scheduler s) (build_worker_snapshots now s) (lb_min_workers s) (lb_scale_down_delay s)"
      "stopped = fst (reap_workers ids (int (length (lb_workers s))) s)"
      "s' = foldl unregister_worker (snd (reap_workers ids (int (length (lb_workers s))) s)) stopped"
proof (cases "lb_pending s = [] \<and>
    sched_reap (lb_scheduler s) (build_worker_snapshots now s) (lb_min_workers s) (lb_scale_down_delay s) \<noteq> []")
  case True
  with assms show ?thesis by (intro some [OF _ _ refl]) (auto simp: reap_idle_workers_def Let_def case_prod_unfold)
next
  case False
  with assms show ?thesis by (intro none) (simp_all add: reap_idle_workers_def Let_def split: if_split_asm)
qed

lemma unregister_workers_frame: "lb_workers (foldl unregister_worker s os) = lb_workers s"
  by (induction os arbitrary: s) (simp_all add: unregister_worker_def split: option.split)

end
