(* ===== verification/Pool_System.thy ===== *)
theory Pool_System
  imports Dispatch_Inv
begin

text \<open>
  The worker pool over every interleaving of the controller's activities: a step relation
  whose states are the load balancer with the spawns that hold a reservation, and the
  invariant of every reachable state.
\<close>

section \<open>Routing operations do not touch the pool\<close>

lemma set_queue_depth_same: "same_pool s t \<Longrightarrow> same_pool s (set_queue_depth t)"
  by (simp add: set_queue_depth_def pool_into)

lemma dispatch_one_same: "dispatch_one now pr s = (stays, ts, s1) \<Longrightarrow> same_pool s s1"
proof -
  assume one: "dispatch_one now pr s = (stays, ts, s1)"
  obtain d w s2 where dr: "decide_and_reserve now (pr_adapter_id pr) s = (d, w, s2)"
    by (cases "decide_and_reserve now (pr_adapter_id pr) s") auto
  note s2 = decide_and_reserve_same [OF dr]
  have "same_pool s (set_future fid v s2)" "same_pool s (unreserve oid s2)"
    "same_pool s (s2\<lparr>lb_spawns_in_progress := xs\<rparr>)" for fid v oid xs
    using s2 cancel_future_same(2) fields_same(11) same_pool_trans unreserve_same by blast+
  then show ?thesis
    using one s2 dr cancel_future_same(1)
    by (auto simp: dispatch_one_def split: if_splits routing_action.splits option.splits)
qed

lemma dispatch_all_same: "dispatch_all now prs s = (still, ts, s1) \<Longrightarrow> same_pool s s1"
proof (induction prs arbitrary: s still ts s1)
  case (Cons pr prs)
  obtain stays ts1 s2 where one: "dispatch_one now pr s = (stays, ts1, s2)" by (cases "dispatch_one now pr s") auto
  obtain still2 ts2 s3 where rest: "dispatch_all now prs s2 = (still2, ts2, s3)"
    by (cases "dispatch_all now prs s2") auto
  have "s1 = s3" using Cons.prems one rest by (auto split: if_splits)
  then show ?case using same_pool_trans [OF dispatch_one_same [OF one] Cons.IH [OF rest]] by simp
qed simp

lemma dispatch_cycle_same: "same_pool s (snd (dispatch_cycle now s))"
proof -
  let ?s0 = "s\<lparr>lb_worker_available := False\<rparr>"
  let ?s1 = "prune_queue now (lb_pending ?s0) ?s0"
  have s1: "same_pool s ?s1"
    using prune_queue_effect [of now "lb_pending ?s0" ?s0] same_pool_trans [OF fields_same(2)] by blast
  obtain still ts s2 where d: "dispatch_all now (lb_pending ?s1) ?s1 = (still, ts, s2)"
    by (cases "dispatch_all now (lb_pending ?s1) ?s1") auto
  have "same_pool s s2" using same_pool_trans [OF s1 dispatch_all_same [OF d]] .
  then have "same_pool s (set_queue_depth (s2\<lparr>lb_pending := still\<rparr>))"
    using same_pool_trans [OF _ fields_same(7)] set_queue_depth_same by blast
  moreover have "same_pool s (upd_stats f ?s1)" for f using s1 by (rule pool_into)
  ultimately show ?thesis using d by (simp add: dispatch_cycle_def Let_def fields_same)
qed

lemma resolve_first_same: "same_pool s (snd (resolve_first oid a wa prs s))"
proof (induction prs arbitrary: s)
  case (Cons pr prs)
  have "same_pool s (set_future (pr_future pr) (F_Result oid) (reserve oid s))"
    by (rule same_pool_trans [OF reserve_same [OF same_pool_refl] cancel_future_same(2)])
  with Cons show ?case by (simp add: case_prod_unfold Let_def)
qed simp

section \<open>Steps\<close>

text \<open>
  The list has the slots that spawns have reserved and not given back, those of spawns that
  have crashed among them. \<open>Frame\<close> stands for every operation that leaves ids, ports, devices, the GPU counts and
  the pool alone; the lemma below lists them.
\<close>

type_synonym 'r pool_state = "reservation list \<times> 'r load_balancer"

inductive pool_step :: "'r pool_state \<Rightarrow> 'r pool_state \<Rightarrow> bool" where
  SpawnBegin: "spawn_begin s = (Some rv, s1) \<Longrightarrow> pool_step (rvs, s) (rv # rvs, s1)"
| SpawnCrash: "rv \<in> set rvs \<Longrightarrow> rv_alive rv \<Longrightarrow> pool_step (rvs, s) (spawn_crash rv # remove1 rv rvs, s)"
| SpawnAbort: "rv \<in> set rvs \<Longrightarrow> rv_alive rv \<Longrightarrow> pool_step (rvs, s) (remove1 rv rvs, drop_reservation (rv_device rv) s)"
| SpawnClaim: "rv \<in> set rvs \<Longrightarrow> rv_alive rv \<Longrightarrow> spawn_claim now rv a s = (res, s1) \<Longrightarrow> pool_step (rvs, s) (remove1 rv rvs, s1)"
| SpawnReady: "pool_step (rvs, s) (rvs, spawn_ready now oid a s)"
| StopBegin: "pool_step (rvs, s) (rvs, stop_begin oid s)"
| StopEnd: "pool_step (rvs, s) (rvs, stop_end oid s)"
| StopProcessEnd: "pool_step (rvs, s) (rvs, stop_process_end oid s)"
| Remove: "pool_step (rvs, s) (rvs, remove_worker wid s)"
| Reap: "pool_step (rvs, s) (rvs, snd (reap_idle_workers now s))"
| Health: "pool_step (rvs, s) (rvs, check_worker_health now oid reply s)"
| AdapterInfo: "pool_step (rvs, s) (rvs, update_worker_adapter_info oid a is_swapping s)"
| SwapBegin: "pool_step (rvs, s) (rvs, swap_begin oid s)"
| SwapFinish: "pool_step (rvs, s) (rvs, snd (swap_finish oid a swap_reply s))"
| Prewarm: "pool_step (rvs, s) (rvs, snd (prewarm_launch now as devices s))"
| PrewarmReady: "pool_step (rvs, s) (rvs, prewarm_ready now oid a s)"
| Dispatch: "pool_step (rvs, s) (rvs, snd (dispatch_cycle now s))"
| Reserve: "pool_step (rvs, s) (rvs, reserve oid s)"
| Decide: "pool_step (rvs, s) (rvs, snd (snd (decide_and_reserve now a s)))"
| Unreserve: "pool_step (rvs, s) (rvs, unreserve oid s)"
| SendFinish: "pool_step (rvs, s) (rvs, send_finish now oid send_reply s)"
| SpawnForDispatch: "pool_step (rvs, s) (rvs, spawn_for_dispatch_finish worker a s)"
| Frame: "same_pool s s1 \<Longrightarrow> pool_step (rvs, s) (rvs, s1)"

inductive pool_reachable :: "lb_args \<Rightarrow> pyfloat \<Rightarrow> 'r pool_state \<Rightarrow> bool" for p slo_s where
  init: "pool_reachable p slo_s ([], lb_init p slo_s)"
| step: "pool_reachable p slo_s st \<Longrightarrow> pool_step st st' \<Longrightarrow> pool_reachable p slo_s st'"

inductive_cases pool_stepE: "pool_step st st'"

text \<open>The operations of \<open>Dispatch\<close> that are frame steps.\<close>

lemma frame_operations:
  "same_pool s (snd (enqueue now a arrival s))" "same_pool s (snd (wait_finish fid s))"
  "same_pool s (snd (detect_burst_and_spawn now s))" "same_pool s (snd (proactive_cycle now s))"
  "same_pool s (background_grow_finish worker s)" "same_pool s (observe_e1 ttft dw arrival s)"
  "same_pool s (queue_exhausted now s)" "same_pool s (cache_idempotency now key r s)"
  "same_pool s (lb_idempotency_cleanup now s)" "same_pool s (snd (ensure_aggregator dev b1 b2 b3 s))"
  by (auto simp: enqueue_def wait_finish_def cancel_future_def set_future_def detect_burst_and_spawn_def
      proactive_cycle_def background_grow_finish_def observe_e1_def queue_exhausted_def cache_idempotency_def
      lb_idempotency_cleanup_def ensure_aggregator_def aggregator_up_def wake_def set_queue_depth_def upd_stats_def
      same_pool_def Let_def case_prod_unfold)

section \<open>The invariant of reachable states\<close>

definition pool_state_inv :: "'r pool_state \<Rightarrow> bool" where
  "pool_state_inv st \<longleftrightarrow> pool_inv (map rv_device (fst st)) (snd st) \<and>
     (\<forall>rv \<in> set (fst st). 0 \<le> rv_worker_id rv \<and> rv_worker_id rv < lb_max_workers (snd st))"

lemma pool_inv_mset: "mset xs = mset ys \<Longrightarrow> pool_inv xs s = pool_inv ys s"
  by (simp add: pool_inv_def gpu_ok_def count_mset flip: count_mset)

lemma pool_inv_remove:
  assumes "pool_inv (map rv_device rvs) s" and "rv \<in> set rvs"
  shows "pool_inv (rv_device rv # map rv_device (remove1 rv rvs)) s"
proof -
  have "mset (map rv_device rvs) = mset (rv_device rv # map rv_device (remove1 rv rvs))"
    using assms(2) by (simp flip: image_mset_add_mset)
  with assms(1) show ?thesis by (metis pool_inv_mset)
qed

lemma same_max: "same_pool s s1 \<Longrightarrow> lb_max_workers s1 = lb_max_workers s"
  by (simp add: same_pool_def)

lemma same_state_inv:
  "same_pool s s1 \<Longrightarrow> pool_state_inv (rvs, s) \<Longrightarrow> pool_state_inv (rvs, s1)"
  by (auto simp: pool_state_inv_def same_max same_pool_inv)

lemma max_frame [simp]:
  "lb_max_workers (drop_reservation dev s) = lb_max_workers s"
  "lb_max_workers (remove_worker wid s) = lb_max_workers s"
  "lb_max_workers (stop_end oid s) = lb_max_workers s"
  "lb_max_workers (take_out wid dev s) = lb_max_workers s"
  "lb_max_workers (reap_one wid oid w s) = lb_max_workers s"
  by (auto simp: drop_reservation_def remove_worker_def stop_end_def take_out_def reap_one_def upd_stats_def
      Let_def split: option.split)

lemma reap_workers_max: "lb_max_workers (snd (reap_workers wids n s)) = lb_max_workers s"
proof (induction wids arbitrary: n s)
  case (Cons wid rest)
  then show ?case unfolding reap_workers_Cons by (simp split: option.split)
qed simp

lemma reap_idle_max: "lb_max_workers (snd (reap_idle_workers now s)) = lb_max_workers s"
proof -
  have "lb_max_workers (foldl unregister_worker t os) = lb_max_workers t" for t :: "'a load_balancer" and os
    using same_max [OF foldl_same [OF unregister_worker_same]] .
  then show ?thesis by (auto simp: reap_idle_workers_def Let_def case_prod_unfold reap_workers_max)
qed

lemma health_max: "lb_max_workers (check_worker_health now oid reply s) = lb_max_workers s"
  by (auto simp: check_worker_health_def Let_def wake_def split: option.split health_reply.split)

lemma prewarm_one_max: "prewarm_one now a dl s = Some (oid, dl1, s1) \<Longrightarrow> lb_max_workers s1 = lb_max_workers s"
  by (auto simp: prewarm_one_def Let_def split: if_splits option.splits)

lemma prewarm_count_max: "lb_max_workers (snd (snd (prewarm_count now a n dl s))) = lb_max_workers s"
proof (induction n arbitrary: dl s)
  case (Suc n)
  then show ?case
    by (cases "prewarm_one now a dl s") (auto simp: case_prod_unfold Let_def prewarm_one_max)
qed simp

lemma prewarm_max: "lb_max_workers (snd (prewarm_adapters now as dl s)) = lb_max_workers s"
proof (induction as arbitrary: dl s)
  case (Cons an as)
  then show ?case by (cases an) (simp add: case_prod_unfold Let_def prewarm_count_max)
qed simp

lemma send_finish_same: "same_pool s (send_finish now oid reply s)"
  by (cases reply) (simp_all add: send_finish_def Let_def pool_into keeps_identity_def finish_worker_def)

lemma spawn_for_dispatch_same: "same_pool s (spawn_for_dispatch_finish worker a s)"
proof -
  have 1: "same_pool s (s0\<lparr>lb_pending := prs\<rparr>)" if "resolve_first oid a wa qs s = (prs, s0)" for oid wa qs prs s0
    using same_pool_trans [OF resolve_first_same [of s oid a wa qs]] that fields_same(7) by (metis snd_conv)
  have 2: "same_pool s t \<Longrightarrow> same_pool s (wake (t\<lparr>lb_spawns_in_progress := xs\<rparr>))" for t xs
    using same_pool_trans [OF _ fields_same(11)] pool_into(3) by blast
  show ?thesis
    unfolding spawn_for_dispatch_finish_def Let_def
    by (rule 2) (auto intro: 1 split: option.split prod.split)
qed

lemma pool_step_inv: "pool_step st st' \<Longrightarrow> pool_state_inv st \<Longrightarrow> pool_state_inv st'"
proof (induction rule: pool_step.induct)
  case (SpawnBegin s rv s1 rvs)
  then show ?case
    using spawn_begin_inv [of "map rv_device rvs" s rv s1] spawn_begin_id [of s rv s1] by (auto simp: pool_state_inv_def)
next
  case (SpawnCrash rv rvs s)
  then show ?case
    using pool_inv_remove [of rvs s rv]
    by (auto simp: pool_state_inv_def spawn_crash_def dest: notin_set_remove1)
next
  case (SpawnAbort rv rvs s)
  then show ?case
    using drop_reservation_inv [OF pool_inv_remove [of rvs s rv]]
    by (auto simp: pool_state_inv_def dest: notin_set_remove1)
next
  case (SpawnClaim rv rvs now a s res s1)
  have "lb_max_workers s1 = lb_max_workers s"
    using SpawnClaim(3) by (auto simp: spawn_claim_def Let_def split: if_splits)
  with SpawnClaim show ?case
    using spawn_claim_inv [OF pool_inv_remove [of rvs s rv], of now a res s1]
    by (auto simp: pool_state_inv_def dest: notin_set_remove1)
next
  case (StopEnd rvs s oid)
  then show ?case by (simp add: pool_state_inv_def stop_end_inv)
next
  case (Remove rvs s wid)
  then show ?case by (simp add: pool_state_inv_def remove_worker_inv)
next
  case (Reap rvs s now)
  then show ?case by (simp add: pool_state_inv_def reap_idle_inv reap_idle_max)
next
  case (Health rvs s now oid reply)
  then show ?case by (simp add: pool_state_inv_def check_health_inv health_max)
next
  case (Prewarm rvs s now as devices)
  then show ?case by (simp add: pool_state_inv_def prewarm_launch_def prewarm_adapters_inv prewarm_max)
next
  case (SpawnReady rvs s now oid a)
  have "same_pool s (spawn_ready now oid a s)"
    by (simp add: spawn_ready_def worker_ready_def pool_into keeps_identity_def)
  then show ?case using SpawnReady by (rule same_state_inv)
next
  case (StopBegin rvs s oid)
  have "same_pool s (stop_begin oid s)" by (simp add: stop_begin_def pool_into keeps_identity_def)
  then show ?case using StopBegin by (rule same_state_inv)
next
  case (StopProcessEnd rvs s oid)
  have "same_pool s (stop_process_end oid s)" by (simp add: stop_process_end_def fields_same split: option.split)
  then show ?case using StopProcessEnd by (rule same_state_inv)
next
  case (SwapBegin rvs s oid)
  have "same_pool s (swap_begin oid s)" by (simp add: swap_begin_def pool_into keeps_identity_def)
  then show ?case using SwapBegin by (rule same_state_inv)
next
  case (PrewarmReady rvs s now oid a)
  have "same_pool s (prewarm_ready now oid a s)"
    by (simp add: prewarm_ready_def worker_ready_def pool_into keeps_identity_def)
  then show ?case using PrewarmReady by (rule same_state_inv)
next
  case (Decide rvs s now a)
  have "same_pool s (snd (snd (decide_and_reserve now a s)))"
    by (cases "decide_and_reserve now a s") (auto dest: decide_and_reserve_same)
  then show ?case using Decide by (rule same_state_inv)
qed (auto intro: same_state_inv [OF reserve_same [OF same_pool_refl]] same_state_inv [OF unreserve_same [OF same_pool_refl]]
    same_state_inv update_adapter_info_same swap_finish_same dispatch_cycle_same reserve_same
    unreserve_same send_finish_same spawn_for_dispatch_same)

lemma pool_init_inv: "pool_state_inv ([], lb_init p slo_s)"
proof -
  have zero: "dict_get (foldl (\<lambda>d dev. AList.update dev 0 d) d devs) dev 0 = (0 :: int)"
    if "dict_get d dev 0 = 0" for d devs dev
    using that by (induction devs arbitrary: d) auto
  show ?thesis
    by (simp add: pool_state_inv_def pool_inv_def pool_ok_def gpu_ok_def workers_on_def lb_init_def Let_def zero)
qed

lemma pool_reachable_inv: "pool_reachable p slo_s st \<Longrightarrow> pool_state_inv st"
  by (induction rule: pool_reachable.induct) (auto intro: pool_init_inv pool_step_inv)

text \<open>The slot of a crashed spawn is never given back: no step takes it from the list.\<close>

lemma crashed_stay:
  assumes "pool_step (rvs, s) (rvs', s')" "\<not> rv_alive dead"
  shows "count_list rvs dead \<le> count_list rvs' dead"
proof -
  have less: "count_list (remove1 q rvs) dead = count_list rvs dead" if "rv_alive q" for q and rvs :: "reservation list"
    using that assms(2) by (induction rvs) auto
  show ?thesis
    using assms(1) by (cases rule: pool_step.cases) (simp_all del: count_list_remove1 add: less le_SucI)
qed

text \<open>Counts over the pool as counts over its worker objects.\<close>

lemma workers_on_count:
  assumes "pool_ok s"
  shows "workers_on s dev = int (length (filter (\<lambda>w. wi_device w = dev) (pool_workers s)))"
proof -
  have "sum_list (map (on_device s dev) (dict_values d)) =
      int (length (filter (\<lambda>w. wi_device w = dev) (List.map_filter (map_of (lb_heap s)) (dict_values d))))" for d
    by (induction d) (auto simp: List.map_filter_simps on_device_def split: option.split)
  then show ?thesis by (simp add: workers_on_def pool_workers_def del: map_map)
qed

lemma count_list_filter: "count_list (map f xs) y = length (filter (\<lambda>x. f x = y) xs)"
  by (induction xs) auto

lemma pool_ports_distinct:
  assumes "pool_ok s"
  shows "distinct (map wi_http_port (pool_workers s))"
proof -
  have ids: "distinct (map wi_worker_id (pool_workers s))"
    using assms pool_workers_ids [OF assms] by (simp add: pool_ok_def)
  have port: "wi_http_port w = lb_base_port s + wi_worker_id w * 10" if "w \<in> set (pool_workers s)" for w
  proof -
    have "\<exists>oid \<in> set (dict_values (lb_workers s)). map_of (lb_heap s) oid = Some w"
      using that by (force simp: pool_workers_def List.map_filter_def)
    then obtain oid where "oid \<in> set (dict_values (lb_workers s))" and w: "map_of (lb_heap s) oid = Some w" by blast
    moreover have "dict_wf (lb_workers s)" using assms by (simp add: pool_ok_def)
    ultimately obtain k where "map_of (lb_workers s) k = Some oid"
      using iffD1 [OF dict_values_iff [of "lb_workers s" oid]] by blast
    from pool_entry [OF assms this] w show ?thesis by (auto simp: entry_ok_def)
  qed
  have eq: "map wi_http_port (pool_workers s) = map (\<lambda>w. lb_base_port s + wi_worker_id w * 10) (pool_workers s)"
    by (intro map_cong) (auto simp: port)
  show ?thesis unfolding eq using ids by (auto simp: distinct_map inj_on_def)
qed

lemma pool_workers_length: "pool_ok s \<Longrightarrow> length (pool_workers s) = length (lb_workers s)"
  using arg_cong [OF pool_workers_ids, of s length] by simp

end
