(* ===== verification/Registry.thy ===== *)
theory Registry
  imports Prelude
begin

text \<open>
  \<open>src/src/controller/cluster/registry.py\<close>: the registry of nodes, adapters and their
  placement. Each method takes its locks without waiting while it holds one and awaits
  nothing else, so under \<open>asyncio\<close> each method is one atomic step of the model. The
  load metrics a heartbeat carries form the nested record \<open>load_report\<close>.
\<close>

section \<open>Nodes and adapters\<close>

datatype node_status = IDLE | STARTING | ACTIVE | DRAINING | FAILED

fun status_value :: "node_status \<Rightarrow> string" where
  "status_value IDLE = ''idle''"
| "status_value STARTING = ''starting''"
| "status_value ACTIVE = ''active''"
| "status_value DRAINING = ''draining''"
| "status_value FAILED = ''failed''"

record load_report =
  lo_active_requests :: pyfloat
  lo_total_capacity :: pyfloat
  lo_num_swapping :: pyfloat
  lo_max_seq_len :: pyfloat
  lo_total_seq_len :: pyfloat
  lo_num_prefill :: pyfloat
  lo_num_decode :: pyfloat
  lo_utilization :: pyfloat
  lo_gpu_memory_free_mb :: pyfloat
  lo_gpu_memory_total_mb :: pyfloat
  lo_swap_count :: pyfloat
  lo_total_swap_ms :: pyfloat

definition empty_load :: load_report where
  "empty_load = \<lparr>lo_active_requests = 0, lo_total_capacity = 0, lo_num_swapping = 0,
     lo_max_seq_len = 0, lo_total_seq_len = 0, lo_num_prefill = 0, lo_num_decode = 0,
     lo_utilization = 0, lo_gpu_memory_free_mb = 0, lo_gpu_memory_total_mb = 0,
     lo_swap_count = 0, lo_total_swap_ms = 0\<rparr>"

record node_info =
  ni_node_id :: string
  ni_host :: string
  ni_port :: int
  ni_gpu_type :: string
  ni_gpu_memory_gb :: pyfloat
  ni_num_gpus :: int
  ni_status :: node_status
  ni_base_model :: "string option"
  ni_base_model_id :: "string option"
  ni_aggregator_pid :: "int option"
  ni_aggregator_ready_at :: "pyfloat option"
  ni_loaded_adapters :: "string pyset"
  ni_active_workers :: int
  ni_total_workers :: int
  ni_free_workers :: int
  ni_queue_depth :: int
  ni_max_workers :: int
  ni_reported :: load_report
  ni_circuit_state :: string
  ni_registered_at :: pyfloat
  ni_last_heartbeat :: pyfloat
  ni_last_request_at :: pyfloat
  ni_total_requests :: int

definition is_available :: "node_info \<Rightarrow> bool" where
  "is_available n \<longleftrightarrow> ni_status n = ACTIVE"

definition has_capacity :: "node_info \<Rightarrow> bool" where
  "has_capacity n \<longleftrightarrow> ni_active_workers n < ni_max_workers n"

text \<open>\<open>self.aggregator_ready_at\<close> is also tested for being non-zero.\<close>

definition node_idle_time :: "pyfloat \<Rightarrow> node_info \<Rightarrow> pyfloat" where
  "node_idle_time now n =
     (if ni_last_request_at n = 0
      then (case ni_aggregator_ready_at n of
              None \<Rightarrow> 0
            | Some t \<Rightarrow> if t = 0 then 0 else now - t)
      else now - ni_last_request_at n)"

record adapter_info =
  ai_adapter_name :: string
  ai_adapter_path :: "string option"
  ai_loaded_on_nodes :: "string pyset"
  ai_total_requests :: int
  ai_last_request_at :: pyfloat

definition mk_adapter_info :: "string \<Rightarrow> string option \<Rightarrow> adapter_info" where
  "mk_adapter_info name path = \<lparr>ai_adapter_name = name, ai_adapter_path = path,
     ai_loaded_on_nodes = [], ai_total_requests = 0, ai_last_request_at = 0\<rparr>"

definition is_loaded :: "adapter_info \<Rightarrow> bool" where
  "is_loaded a \<longleftrightarrow> 0 < length (ai_loaded_on_nodes a)"

record registry =
  rg_nodes :: "(string, node_info) dict"
  rg_adapters :: "(string, adapter_info) dict"
  rg_adapter_to_nodes :: "(string, string pyset) dict"

definition registry_init :: registry where
  "registry_init = \<lparr>rg_nodes = [], rg_adapters = [], rg_adapter_to_nodes = []\<rparr>"

text \<open>Update the fields of a node that is registered; nothing for an unknown id.\<close>

definition upd_node :: "string \<Rightarrow> (node_info \<Rightarrow> node_info) \<Rightarrow> registry \<Rightarrow> registry" where
  "upd_node node_id f r =
     (case map_of (rg_nodes r) node_id of
        None \<Rightarrow> r
      | Some n \<Rightarrow> r\<lparr>rg_nodes := AList.update node_id (f n) (rg_nodes r)\<rparr>)"

section \<open>Node management\<close>

record node_spec =
  ns_host :: string
  ns_port :: int
  ns_gpu_type :: string
  ns_gpu_memory_gb :: pyfloat
  ns_num_gpus :: int
  ns_max_workers :: int

definition new_node :: "pyfloat \<Rightarrow> string \<Rightarrow> node_spec \<Rightarrow> node_info" where
  "new_node now node_id p = \<lparr>
     ni_node_id = node_id, ni_host = ns_host p, ni_port = ns_port p, ni_gpu_type = ns_gpu_type p,
     ni_gpu_memory_gb = ns_gpu_memory_gb p, ni_num_gpus = ns_num_gpus p, ni_status = IDLE,
     ni_base_model = None, ni_base_model_id = None, ni_aggregator_pid = None,
     ni_aggregator_ready_at = None, ni_loaded_adapters = [], ni_active_workers = 0,
     ni_total_workers = 0, ni_free_workers = 0, ni_queue_depth = 0,
     ni_max_workers = ns_max_workers p, ni_reported = empty_load, ni_circuit_state = ''closed'',
     ni_registered_at = now, ni_last_heartbeat = now, ni_last_request_at = 0, ni_total_requests = 0\<rparr>"

definition register_node :: "pyfloat \<Rightarrow> string \<Rightarrow> node_spec \<Rightarrow> registry \<Rightarrow> registry" where
  "register_node now node_id p r =
     (case map_of (rg_nodes r) node_id of
        Some n \<Rightarrow> r\<lparr>rg_nodes := AList.update node_id
          (n\<lparr>ni_host := ns_host p, ni_port := ns_port p, ni_gpu_type := ns_gpu_type p,
            ni_gpu_memory_gb := ns_gpu_memory_gb p, ni_num_gpus := ns_num_gpus p,
            ni_max_workers := ns_max_workers p, ni_last_heartbeat := now\<rparr>) (rg_nodes r)\<rparr>
      | None \<Rightarrow> r\<lparr>rg_nodes := AList.update node_id (new_node now node_id p) (rg_nodes r)\<rparr>)"

text \<open>
  \<open>self._adapter_to_nodes[a].discard(node_id)\<close> on a \<open>defaultdict(set)\<close>, followed by the
  same on \<open>self.adapters[a]\<close> when the adapter is known.
\<close>

definition unmap_adapter :: "string \<Rightarrow> registry \<Rightarrow> string \<Rightarrow> registry" where
  "unmap_adapter node_id r a =
     (let r1 = r\<lparr>rg_adapter_to_nodes :=
                 AList.update a (set_discard node_id (dict_get (rg_adapter_to_nodes r) a []))
                   (rg_adapter_to_nodes r)\<rparr>
      in case map_of (rg_adapters r1) a of
           None \<Rightarrow> r1
         | Some info \<Rightarrow> r1\<lparr>rg_adapters := AList.update a
             (info\<lparr>ai_loaded_on_nodes := set_discard node_id (ai_loaded_on_nodes info)\<rparr>) (rg_adapters r1)\<rparr>)"

definition map_adapter :: "string \<Rightarrow> registry \<Rightarrow> string \<Rightarrow> registry" where
  "map_adapter node_id r a =
     (let r1 = r\<lparr>rg_adapter_to_nodes :=
                 AList.update a (set_add node_id (dict_get (rg_adapter_to_nodes r) a []))
                   (rg_adapter_to_nodes r)\<rparr>;
          info = dict_get (rg_adapters r1) a (mk_adapter_info a None)
      in r1\<lparr>rg_adapters := AList.update a
           (info\<lparr>ai_loaded_on_nodes := set_add node_id (ai_loaded_on_nodes info)\<rparr>) (rg_adapters r1)\<rparr>)"

definition unregister_node :: "string \<Rightarrow> registry \<Rightarrow> registry" where
  "unregister_node node_id r =
     (case map_of (rg_nodes r) node_id of
        None \<Rightarrow> r
      | Some n \<Rightarrow> foldl (unmap_adapter node_id)
          (r\<lparr>rg_nodes := AList.delete node_id (rg_nodes r)\<rparr>) (ni_loaded_adapters n))"

definition update_node_status :: "pyfloat \<Rightarrow> string \<Rightarrow> node_status \<Rightarrow> registry \<Rightarrow> registry" where
  "update_node_status now node_id status = upd_node node_id (\<lambda>n.
     let old_status = ni_status n;
         n1 = n\<lparr>ni_status := status, ni_last_heartbeat := now\<rparr>
     in if status = ACTIVE \<and> old_status = STARTING
        then n1\<lparr>ni_aggregator_ready_at := Some now\<rparr> else n1)"

record heartbeat =
  hb_active_workers :: int
  hb_loaded_adapters :: "string list"
  hb_aggregator_pid :: "int option"
  hb_max_workers :: "int option"
  hb_num_gpus :: "int option"
  hb_gpu_type :: "string option"
  hb_node_metrics :: "(string, pyfloat) dict option"
  hb_total_workers :: int
  hb_free_workers :: int
  hb_queue_depth :: int

definition ingest_metrics :: "(string, pyfloat) dict \<Rightarrow> load_report" where
  "ingest_metrics m = \<lparr>
     lo_active_requests = dict_get m ''total_active_requests'' 0,
     lo_total_capacity = dict_get m ''total_capacity'' 0,
     lo_num_swapping = dict_get m ''num_swapping'' 0,
     lo_max_seq_len = dict_get m ''max_seq_len'' 0,
     lo_total_seq_len = dict_get m ''total_seq_len'' 0,
     lo_num_prefill = dict_get m ''num_prefill'' 0,
     lo_num_decode = dict_get m ''num_decode'' 0,
     lo_utilization = dict_get m ''utilization'' 0,
     lo_gpu_memory_free_mb = dict_get m ''gpu_memory_free_mb'' 0,
     lo_gpu_memory_total_mb = dict_get m ''gpu_memory_total_mb'' 0,
     lo_swap_count = dict_get m ''swap_count'' 0,
     lo_total_swap_ms = dict_get m ''total_swap_ms'' 0\<rparr>"

definition heartbeat_fields :: "pyfloat \<Rightarrow> heartbeat \<Rightarrow> node_info \<Rightarrow> node_info" where
  "heartbeat_fields now h n =
     (let n1 = n\<lparr>ni_last_heartbeat := now, ni_active_workers := hb_active_workers h,
                 ni_total_workers := hb_total_workers h, ni_free_workers := hb_free_workers h,
                 ni_queue_depth := hb_queue_depth h, ni_aggregator_pid := hb_aggregator_pid h\<rparr>;
          n2 = (case hb_max_workers h of
                  Some m \<Rightarrow> if m \<noteq> ni_max_workers n1 then n1\<lparr>ni_max_workers := m\<rparr> else n1
                | None \<Rightarrow> n1);
          n3 = (case hb_num_gpus h of
                  Some g \<Rightarrow> if 0 < g then n2\<lparr>ni_num_gpus := g\<rparr> else n2
                | None \<Rightarrow> n2);
          n4 = (case hb_gpu_type h of
                  Some t \<Rightarrow> if t \<noteq> ''unknown'' then n3\<lparr>ni_gpu_type := t\<rparr> else n3
                | None \<Rightarrow> n3);
          n5 = (case hb_node_metrics h of
                  Some m \<Rightarrow> if m \<noteq> [] then n4\<lparr>ni_reported := ingest_metrics m\<rparr> else n4
                | None \<Rightarrow> n4)
      in n5)"

definition update_node_heartbeat :: "pyfloat \<Rightarrow> string \<Rightarrow> heartbeat \<Rightarrow> registry \<Rightarrow> registry" where
  "update_node_heartbeat now node_id h r =
     (case map_of (rg_nodes r) node_id of
        None \<Rightarrow> r
      | Some n \<Rightarrow>
          let n' = heartbeat_fields now h n;
              old_adapters = ni_loaded_adapters n';
              new_adapters = remdups (hb_loaded_adapters h);
              removed = filter (\<lambda>a. a \<notin> set new_adapters) old_adapters;
              added = filter (\<lambda>a. a \<notin> set old_adapters) new_adapters;
              r1 = r\<lparr>rg_nodes := AList.update node_id (n'\<lparr>ni_loaded_adapters := new_adapters\<rparr>) (rg_nodes r)\<rparr>
          in foldl (map_adapter node_id) (foldl (unmap_adapter node_id) r1 removed) added)"

definition update_node_error_state :: "string \<Rightarrow> string \<Rightarrow> registry \<Rightarrow> registry" where
  "update_node_error_state node_id circuit_state = upd_node node_id (\<lambda>n. n\<lparr>ni_circuit_state := circuit_state\<rparr>)"

definition registry_record_request :: "pyfloat \<Rightarrow> string \<Rightarrow> string \<Rightarrow> registry \<Rightarrow> registry" where
  "registry_record_request now node_id adapter_name r =
     (let r1 = upd_node node_id (\<lambda>n. n\<lparr>ni_last_request_at := now,
                 ni_total_requests := ni_total_requests n + 1\<rparr>) r
      in case map_of (rg_adapters r1) adapter_name of
           None \<Rightarrow> r1
         | Some a \<Rightarrow> r1\<lparr>rg_adapters := AList.update adapter_name
             (a\<lparr>ai_last_request_at := now, ai_total_requests := ai_total_requests a + 1\<rparr>) (rg_adapters r1)\<rparr>)"

definition set_node_base_model :: "string \<Rightarrow> string \<Rightarrow> string option \<Rightarrow> registry \<Rightarrow> registry" where
  "set_node_base_model node_id base_model base_model_id = upd_node node_id
     (\<lambda>n. n\<lparr>ni_base_model := Some base_model, ni_base_model_id := base_model_id\<rparr>)"

definition register_adapter :: "string \<Rightarrow> string option \<Rightarrow> registry \<Rightarrow> registry" where
  "register_adapter name path r =
     (case map_of (rg_adapters r) name of
        None \<Rightarrow> r\<lparr>rg_adapters := AList.update name (mk_adapter_info name path) (rg_adapters r)\<rparr>
      | Some a \<Rightarrow>
          if path \<noteq> None \<and> path \<noteq> Some []
          then r\<lparr>rg_adapters := AList.update name (a\<lparr>ai_adapter_path := path\<rparr>) (rg_adapters r)\<rparr>
          else r)"

section \<open>Queries\<close>

definition get_node :: "registry \<Rightarrow> string \<Rightarrow> node_info option" where
  "get_node r node_id = map_of (rg_nodes r) node_id"

definition get_nodes_for_adapter :: "registry \<Rightarrow> string \<Rightarrow> node_info list" where
  "get_nodes_for_adapter r a =
     filter is_available (List.map_filter (map_of (rg_nodes r)) (dict_get (rg_adapter_to_nodes r) a []))"

definition get_active_nodes :: "registry \<Rightarrow> node_info list" where
  "get_active_nodes r = filter (\<lambda>n. ni_status n = ACTIVE) (dict_values (rg_nodes r))"

definition get_idle_nodes :: "registry \<Rightarrow> node_info list" where
  "get_idle_nodes r = filter (\<lambda>n. ni_status n = IDLE) (dict_values (rg_nodes r))"

definition get_nodes_with_capacity :: "registry \<Rightarrow> node_info list" where
  "get_nodes_with_capacity r =
     filter (\<lambda>n. is_available n \<and> has_capacity n) (dict_values (rg_nodes r))"

definition get_least_loaded_node :: "registry \<Rightarrow> node_info option" where
  "get_least_loaded_node r =
     py_min ni_active_workers (filter is_available (dict_values (rg_nodes r)))"

definition get_stale_nodes :: "pyfloat \<Rightarrow> pyfloat \<Rightarrow> registry \<Rightarrow> node_info list" where
  "get_stale_nodes now timeout r =
     filter (\<lambda>n. ni_status n \<in> {ACTIVE, DRAINING} \<and> timeout < now - ni_last_heartbeat n)
       (dict_values (rg_nodes r))"

definition get_drainable_nodes :: "pyfloat \<Rightarrow> pyfloat \<Rightarrow> registry \<Rightarrow> node_info list" where
  "get_drainable_nodes now idle_threshold r =
     filter (\<lambda>n. ni_status n = ACTIVE \<and> ni_active_workers n = 0 \<and> idle_threshold < node_idle_time now n)
       (dict_values (rg_nodes r))"

definition get_nodes_for_base_model :: "registry \<Rightarrow> string \<Rightarrow> node_info list" where
  "get_nodes_for_base_model r base_model =
     filter (\<lambda>n. ni_base_model n = Some base_model \<and> ni_status n = ACTIVE) (dict_values (rg_nodes r))"

definition get_nodes_for_base_model_with_capacity :: "registry \<Rightarrow> string \<Rightarrow> node_info list" where
  "get_nodes_for_base_model_with_capacity r base_model =
     filter (\<lambda>n. ni_base_model n = Some base_model \<and> ni_status n = ACTIVE \<and> has_capacity n)
       (dict_values (rg_nodes r))"

definition get_idle_nodes_for_base_model :: "registry \<Rightarrow> string \<Rightarrow> node_info list" where
  "get_idle_nodes_for_base_model r base_model =
     filter (\<lambda>n. ni_base_model n = Some base_model \<and> ni_status n = IDLE) (dict_values (rg_nodes r))"

definition get_any_idle_node :: "registry \<Rightarrow> node_info option" where
  "get_any_idle_node r =
     (case filter (\<lambda>n. ni_status n = IDLE) (dict_values (rg_nodes r)) of [] \<Rightarrow> None | n # _ \<Rightarrow> Some n)"

definition get_adapter :: "registry \<Rightarrow> string \<Rightarrow> adapter_info option" where
  "get_adapter r name = map_of (rg_adapters r) name"

definition list_adapters :: "registry \<Rightarrow> adapter_info list" where
  "list_adapters r = dict_values (rg_adapters r)"

record base_model_stats =
  bs_active_nodes :: int
  bs_idle_nodes :: int
  bs_total_workers :: int
  bs_total_requests :: int

definition add_base_stats :: "(string, base_model_stats) dict \<Rightarrow> node_info \<Rightarrow> (string, base_model_stats) dict" where
  "add_base_stats stats n =
     (case ni_base_model n of
        None \<Rightarrow> stats
      | Some b \<Rightarrow>
          if b = [] then stats
          else
            let e = dict_get stats b \<lparr>bs_active_nodes = 0, bs_idle_nodes = 0, bs_total_workers = 0,
                      bs_total_requests = 0\<rparr>;
                e1 = (if ni_status n = ACTIVE
                      then e\<lparr>bs_active_nodes := bs_active_nodes e + 1,
                             bs_total_workers := bs_total_workers e + ni_active_workers n\<rparr>
                      else if ni_status n = IDLE
                      then e\<lparr>bs_idle_nodes := bs_idle_nodes e + 1\<rparr> else e)
            in AList.update b (e1\<lparr>bs_total_requests := bs_total_requests e1 + ni_total_requests n\<rparr>) stats)"

definition get_base_model_stats :: "registry \<Rightarrow> (string, base_model_stats) dict" where
  "get_base_model_stats r = foldl add_base_stats [] (dict_values (rg_nodes r))"

record cluster_summary =
  su_total_nodes :: int
  su_active_nodes :: int
  su_idle_nodes :: int
  su_total_adapters :: int
  su_loaded_adapters :: int

record cluster_state =
  cs_nodes :: "(string, node_info \<times> pyfloat) dict"
  cs_adapters :: "(string, string list \<times> int) dict"
  cs_summary :: cluster_summary

text \<open>
  The snapshot lists every node with its idle time; the dictionary of a node's reported
  fields is the node record itself.
\<close>

definition get_cluster_state :: "pyfloat \<Rightarrow> registry \<Rightarrow> cluster_state" where
  "get_cluster_state now r =
     (let nodes_state = map (\<lambda>(node_id, n). (node_id, (n, node_idle_time now n))) (rg_nodes r);
          adapters_state = map (\<lambda>(name, info). (name, (ai_loaded_on_nodes info, ai_total_requests info)))
            (rg_adapters r)
      in \<lparr>cs_nodes = nodes_state, cs_adapters = adapters_state,
          cs_summary = \<lparr>
            su_total_nodes = int (length nodes_state),
            su_active_nodes = int (length (filter (\<lambda>(n, _). status_value (ni_status n) = ''active'') (dict_values nodes_state))),
            su_idle_nodes = int (length (filter (\<lambda>(n, _). status_value (ni_status n) = ''idle'') (dict_values nodes_state))),
            su_total_adapters = int (length adapters_state),
            su_loaded_adapters = int (length (filter (\<lambda>(on, _). on \<noteq> []) (dict_values adapters_state)))\<rparr>\<rparr>)"

end
