(* ===== verification/Registry_Inv.thy ===== *)
theory Registry_Inv
  imports Registry
begin

text \<open>
  The consistency of the registry: the sets of adapters held by the nodes, the reverse
  index from adapters to nodes and the adapter records describe one placement relation,
  and every operation keeps them so.
\<close>

section \<open>The invariant\<close>

definition index :: "registry \<Rightarrow> string \<Rightarrow> string pyset" where
  "index r a = dict_get (rg_adapter_to_nodes r) a []"

definition node_holds :: "registry \<Rightarrow> string \<Rightarrow> string \<Rightarrow> bool" where
  "node_holds r node_id a \<longleftrightarrow>
     (case map_of (rg_nodes r) node_id of None \<Rightarrow> False | Some n \<Rightarrow> a \<in> set (ni_loaded_adapters n))"

definition nodes_ok :: "registry \<Rightarrow> bool" where
  "nodes_ok r \<longleftrightarrow> dict_wf (rg_nodes r) \<and>
     (\<forall>nid n. map_of (rg_nodes r) nid = Some n \<longrightarrow> ni_node_id n = nid)"

definition index_ok :: "registry \<Rightarrow> bool" where
  "index_ok r \<longleftrightarrow> (\<forall>a nid. nid \<in> set (index r a) \<longleftrightarrow> node_holds r nid a)"

definition adapter_ok_at :: "registry \<Rightarrow> string \<Rightarrow> bool" where
  "adapter_ok_at r a \<longleftrightarrow> (case map_of (rg_adapters r) a of
       None \<Rightarrow> index r a = []
     | Some info \<Rightarrow> set (ai_loaded_on_nodes info) = set (index r a))"

definition adapters_ok :: "registry \<Rightarrow> bool" where
  "adapters_ok r \<longleftrightarrow> (\<forall>a. adapter_ok_at r a)"

definition registry_inv :: "registry \<Rightarrow> bool" where
  "registry_inv r \<longleftrightarrow> nodes_ok r \<and> index_ok r \<and> adapters_ok r"

lemma adapter_ok_at_cong:
  "map_of (rg_adapters r') a = map_of (rg_adapters r) a \<Longrightarrow> index r' a = index r a \<Longrightarrow>
    adapter_ok_at r' a = adapter_ok_at r a"
  by (simp add: adapter_ok_at_def split: option.split)

lemma registry_invI: "nodes_ok r \<Longrightarrow> index_ok r \<Longrightarrow> adapters_ok r \<Longrightarrow> registry_inv r"
  by (simp add: registry_inv_def)

section \<open>The two index updates\<close>

lemma set_discard_idem [simp]: "set_discard x (set_discard x xs) = set_discard x xs"
  by (simp add: set_discard_def)

lemma set_add_idem [simp]: "set_add x (set_add x xs) = set_add x xs"
  by (simp add: set_add_def)

lemma unmap_adapter_nodes [simp]: "rg_nodes (unmap_adapter nid r a) = rg_nodes r"
  by (simp add: unmap_adapter_def Let_def split: option.split)

lemma map_adapter_nodes [simp]: "rg_nodes (map_adapter nid r a) = rg_nodes r"
  by (simp add: map_adapter_def Let_def)

lemma unmap_adapter_index:
  "index (unmap_adapter nid r a) b = (if b = a then set_discard nid (index r a) else index r b)"
  by (simp add: unmap_adapter_def index_def Let_def split: option.split)

lemma map_adapter_index:
  "index (map_adapter nid r a) b = (if b = a then set_add nid (index r a) else index r b)"
  by (simp add: map_adapter_def index_def Let_def)

lemma unmap_adapter_adapters:
  "map_of (rg_adapters (unmap_adapter nid r a)) b =
     (if b = a
      then map_option (\<lambda>i. i\<lparr>ai_loaded_on_nodes := set_discard nid (ai_loaded_on_nodes i)\<rparr>) (map_of (rg_adapters r) a)
      else map_of (rg_adapters r) b)"
  by (simp add: unmap_adapter_def Let_def update_conv' split: option.split)

lemma map_adapter_adapters:
  "map_of (rg_adapters (map_adapter nid r a)) b =
     (if b = a
      then (let i = dict_get (rg_adapters r) a (mk_adapter_info a None)
            in Some (i\<lparr>ai_loaded_on_nodes := set_add nid (ai_loaded_on_nodes i)\<rparr>))
      else map_of (rg_adapters r) b)"
  by (simp add: map_adapter_def Let_def update_conv')

lemma foldl_unmap_nodes [simp]: "rg_nodes (foldl (unmap_adapter nid) r as) = rg_nodes r"
  by (induction as arbitrary: r) simp_all

lemma foldl_map_nodes [simp]: "rg_nodes (foldl (map_adapter nid) r as) = rg_nodes r"
  by (induction as arbitrary: r) simp_all

lemma foldl_unmap_index:
  "index (foldl (unmap_adapter nid) r as) b =
     (if b \<in> set as then set_discard nid (index r b) else index r b)"
  by (induction as arbitrary: r) (auto simp: unmap_adapter_index)

lemma foldl_map_index:
  "index (foldl (map_adapter nid) r as) b =
     (if b \<in> set as then set_add nid (index r b) else index r b)"
  by (induction as arbitrary: r) (auto simp: map_adapter_index)

lemma adapter_ok_at_None:
  "map_of (rg_adapters r) a = None \<Longrightarrow> adapter_ok_at r a = (index r a = [])"
  by (simp add: adapter_ok_at_def)

lemma adapter_ok_at_Some:
  "map_of (rg_adapters r) a = Some i \<Longrightarrow> adapter_ok_at r a = (set (ai_loaded_on_nodes i) = set (index r a))"
  by (simp add: adapter_ok_at_def)

lemma adapter_ok_at_unmap:
  assumes "adapter_ok_at r b"
  shows "adapter_ok_at (unmap_adapter nid r a) b"
proof (cases "map_of (rg_adapters r) b")
  case None
  with assms show ?thesis
    by (cases "b = a") (simp_all add: adapter_ok_at_None unmap_adapter_adapters unmap_adapter_index set_discard_def)
next
  case (Some i)
  with assms show ?thesis
    by (cases "b = a") (simp_all add: adapter_ok_at_Some unmap_adapter_adapters unmap_adapter_index)
qed

lemma adapter_ok_at_map:
  assumes "adapter_ok_at r b"
  shows "adapter_ok_at (map_adapter nid r a) b"
proof (cases "map_of (rg_adapters r) b")
  case None
  with assms show ?thesis
    by (cases "b = a") (simp_all add: adapter_ok_at_None adapter_ok_at_Some map_adapter_adapters
        map_adapter_index Let_def mk_adapter_info_def)
next
  case (Some i)
  with assms show ?thesis
    by (cases "b = a") (simp_all add: adapter_ok_at_Some map_adapter_adapters map_adapter_index Let_def)
qed

lemma adapters_ok_unmap: "adapters_ok r \<Longrightarrow> adapters_ok (unmap_adapter nid r a)"
  by (simp add: adapters_ok_def adapter_ok_at_unmap)

lemma adapters_ok_map: "adapters_ok r \<Longrightarrow> adapters_ok (map_adapter nid r a)"
  by (simp add: adapters_ok_def adapter_ok_at_map)

lemma adapters_ok_foldl_unmap: "adapters_ok r \<Longrightarrow> adapters_ok (foldl (unmap_adapter nid) r as)"
  by (induction as arbitrary: r) (auto simp: adapters_ok_unmap)

lemma adapters_ok_foldl_map: "adapters_ok r \<Longrightarrow> adapters_ok (foldl (map_adapter nid) r as)"
  by (induction as arbitrary: r) (auto simp: adapters_ok_map)

section \<open>Frame: what a change of nodes only leaves alone\<close>

lemma index_nodes_update [simp]: "index (r\<lparr>rg_nodes := ns\<rparr>) a = index r a"
  by (simp add: index_def)

lemma index_adapters_update [simp]: "index (r\<lparr>rg_adapters := as\<rparr>) a = index r a"
  by (simp add: index_def)

lemma adapters_ok_nodes_update [simp]: "adapters_ok (r\<lparr>rg_nodes := ns\<rparr>) = adapters_ok r"
  by (simp add: adapters_ok_def adapter_ok_at_def split: option.split)

lemma node_holds_adapters_update [simp]: "node_holds (r\<lparr>rg_adapters := as\<rparr>) = node_holds r"
  by (simp add: node_holds_def fun_eq_iff)

lemma upd_node_lookup:
  "map_of (rg_nodes (upd_node nid f r)) m =
     (if m = nid then map_option f (map_of (rg_nodes r) nid) else map_of (rg_nodes r) m)"
  by (auto simp: upd_node_def update_conv' split: option.split)

lemma upd_node_frame [simp]:
  "rg_adapters (upd_node nid f r) = rg_adapters r" "index (upd_node nid f r) a = index r a"
  by (simp_all add: upd_node_def index_def split: option.split)

lemma upd_node_inv:
  assumes inv: "registry_inv r"
    and id: "\<And>n. ni_node_id (f n) = ni_node_id n" and ld: "\<And>n. ni_loaded_adapters (f n) = ni_loaded_adapters n"
  shows "registry_inv (upd_node nid f r)"
proof -
  have holds: "node_holds (upd_node nid f r) = node_holds r"
    by (auto simp: node_holds_def fun_eq_iff upd_node_lookup ld split: option.split)
  have "dict_wf (rg_nodes (upd_node nid f r))"
    using inv by (auto simp: upd_node_def registry_inv_def nodes_ok_def split: option.split)
  then have "nodes_ok (upd_node nid f r)"
    using inv by (auto simp: nodes_ok_def registry_inv_def upd_node_lookup id split: if_split_asm)
  moreover have "index_ok (upd_node nid f r)" using inv by (simp add: index_ok_def holds registry_inv_def)
  moreover have "adapters_ok (upd_node nid f r)"
    using inv by (simp add: adapters_ok_def registry_inv_def adapter_ok_at_cong [of "upd_node nid f r" _ r])
  ultimately show ?thesis by (rule registry_invI)
qed

section \<open>Every operation keeps the invariant\<close>

lemma registry_init_inv: "registry_inv registry_init"
  by (simp add: registry_inv_def nodes_ok_def index_ok_def adapters_ok_def adapter_ok_at_def registry_init_def
      index_def node_holds_def)

lemma register_node_inv:
  assumes "registry_inv r"
  shows "registry_inv (register_node now nid p r)"
proof (cases "map_of (rg_nodes r) nid")
  case None
  with assms show ?thesis
    by (auto simp: registry_inv_def nodes_ok_def index_ok_def node_holds_def register_node_def new_node_def
        update_conv')
next
  case (Some n)
  with assms show ?thesis
    by (auto simp: registry_inv_def nodes_ok_def index_ok_def node_holds_def register_node_def update_conv')
qed

lemma node_holds_foldl [simp]:
  "node_holds (foldl (unmap_adapter nid) r as) = node_holds r"
  "node_holds (foldl (map_adapter nid) r as) = node_holds r"
  by (simp_all add: node_holds_def fun_eq_iff)

lemma unregister_node_inv:
  assumes "registry_inv r"
  shows "registry_inv (unregister_node nid r)"
proof (cases "map_of (rg_nodes r) nid")
  case None
  with assms show ?thesis by (simp add: unregister_node_def)
next
  case (Some n)
  let ?r0 = "r\<lparr>rg_nodes := AList.delete nid (rg_nodes r)\<rparr>"
  let ?r' = "foldl (unmap_adapter nid) ?r0 (ni_loaded_adapters n)"
  have holds: "node_holds ?r0 m a \<longleftrightarrow> m \<noteq> nid \<and> node_holds r m a" for m a
    by (simp add: node_holds_def delete_conv')
  have "nodes_ok ?r'"
    using assms by (auto simp: registry_inv_def nodes_ok_def delete_conv' split: if_split_asm)
  moreover have "index_ok ?r'"
    using assms Some
    by (auto simp: registry_inv_def index_ok_def foldl_unmap_index holds) (auto simp: node_holds_def)
  moreover have "adapters_ok ?r'"
    using assms by (intro adapters_ok_foldl_unmap) (simp add: registry_inv_def)
  ultimately show ?thesis using Some by (simp add: unregister_node_def registry_inv_def)
qed

lemma heartbeat_fields_frame [simp]:
  "ni_node_id (heartbeat_fields now h n) = ni_node_id n"
  "ni_loaded_adapters (heartbeat_fields now h n) = ni_loaded_adapters n"
  "ni_status (heartbeat_fields now h n) = ni_status n"
  "ni_last_heartbeat (heartbeat_fields now h n) = now"
  "ni_aggregator_pid (heartbeat_fields now h n) = hb_aggregator_pid h"
  "ni_base_model (heartbeat_fields now h n) = ni_base_model n"
  by (auto simp: heartbeat_fields_def Let_def split: option.split)

lemma update_node_heartbeat_index:
  assumes "registry_inv r" and "map_of (rg_nodes r) nid = Some n"
  shows "set (index (update_node_heartbeat now nid h r) a) =
    (if a \<in> set (hb_loaded_adapters h) then insert nid (set (index r a)) else set (index r a) - {nid})"
proof -
  have "nid \<in> set (index r a) \<longleftrightarrow> a \<in> set (ni_loaded_adapters n)"
    using assms by (simp add: registry_inv_def index_ok_def node_holds_def)
  then show ?thesis
    using assms(2)
    by (auto simp: update_node_heartbeat_def Let_def foldl_map_index foldl_unmap_index)
qed

lemma update_node_heartbeat_nodes:
  "rg_nodes (update_node_heartbeat now nid h r) =
    (case map_of (rg_nodes r) nid of None \<Rightarrow> rg_nodes r
     | Some n \<Rightarrow> AList.update nid
         ((heartbeat_fields now h n)\<lparr>ni_loaded_adapters := remdups (hb_loaded_adapters h)\<rparr>) (rg_nodes r))"
  by (simp add: update_node_heartbeat_def Let_def split: option.split)

lemma update_node_heartbeat_inv:
  assumes "registry_inv r"
  shows "registry_inv (update_node_heartbeat now nid h r)"
proof (cases "map_of (rg_nodes r) nid")
  case None
  with assms show ?thesis by (simp add: update_node_heartbeat_def)
next
  case (Some n)
  let ?r' = "update_node_heartbeat now nid h r"
  have "nodes_ok ?r'"
    using assms Some
    by (auto simp: registry_inv_def nodes_ok_def update_node_heartbeat_nodes update_conv' split: if_split_asm)
  moreover have "index_ok ?r'"
    using assms Some unfolding index_ok_def update_node_heartbeat_index [OF assms Some]
    by (auto simp: registry_inv_def index_ok_def node_holds_def update_node_heartbeat_nodes update_conv')
  moreover have "adapters_ok ?r'"
    using assms Some unfolding update_node_heartbeat_def
    by (auto simp: Let_def registry_inv_def intro!: adapters_ok_foldl_map adapters_ok_foldl_unmap)
  ultimately show ?thesis by (rule registry_invI)
qed

lemma update_node_status_inv: "registry_inv r \<Longrightarrow> registry_inv (update_node_status now nid st r)"
  unfolding update_node_status_def by (erule upd_node_inv) (simp_all add: Let_def)

lemma update_node_error_state_inv: "registry_inv r \<Longrightarrow> registry_inv (update_node_error_state nid cs r)"
  unfolding update_node_error_state_def by (erule upd_node_inv) simp_all

lemma set_node_base_model_inv: "registry_inv r \<Longrightarrow> registry_inv (set_node_base_model nid b bid r)"
  unfolding set_node_base_model_def by (erule upd_node_inv) simp_all

lemma adapter_update_inv:
  assumes inv: "registry_inv r" and same: "set (ai_loaded_on_nodes info') = set (index r a)"
  shows "registry_inv (r\<lparr>rg_adapters := AList.update a info' (rg_adapters r)\<rparr>)"
proof -
  have "adapter_ok_at (r\<lparr>rg_adapters := AList.update a info' (rg_adapters r)\<rparr>) b" for b
  proof (cases "b = a")
    case True
    with same show ?thesis by (simp add: adapter_ok_at_Some update_conv')
  next
    case False
    then have "adapter_ok_at (r\<lparr>rg_adapters := AList.update a info' (rg_adapters r)\<rparr>) b = adapter_ok_at r b"
      by (intro adapter_ok_at_cong) (simp_all add: update_conv')
    with inv show ?thesis by (simp add: registry_inv_def adapters_ok_def)
  qed
  with inv show ?thesis by (simp add: registry_inv_def nodes_ok_def index_ok_def adapters_ok_def)
qed

lemma registry_inv_known: "registry_inv r \<Longrightarrow> map_of (rg_adapters r) a = Some info \<Longrightarrow>
    set (ai_loaded_on_nodes info) = set (index r a)"
  by (auto simp: registry_inv_def adapters_ok_def adapter_ok_at_def dest: spec [of _ a])

lemma registry_inv_unknown: "registry_inv r \<Longrightarrow> map_of (rg_adapters r) a = None \<Longrightarrow> index r a = []"
  by (auto simp: registry_inv_def adapters_ok_def adapter_ok_at_def dest: spec [of _ a])

lemma registry_record_request_inv:
  assumes "registry_inv r"
  shows "registry_inv (registry_record_request now nid a r)"
proof -
  let ?r1 = "upd_node nid (\<lambda>n. n\<lparr>ni_last_request_at := now, ni_total_requests := ni_total_requests n + 1\<rparr>) r"
  have inv: "registry_inv ?r1" using assms by (rule upd_node_inv) simp_all
  show ?thesis
  proof (cases "map_of (rg_adapters ?r1) a")
    case None
    with inv show ?thesis by (simp add: registry_record_request_def Let_def)
  next
    case (Some i)
    with registry_inv_known [OF inv Some] adapter_update_inv [OF inv] show ?thesis
      by (simp add: registry_record_request_def Let_def)
  qed
qed

lemma register_adapter_inv: "registry_inv r \<Longrightarrow> registry_inv (register_adapter a path r)"
  by (auto simp: register_adapter_def mk_adapter_info_def registry_inv_known registry_inv_unknown
      split: option.split intro!: adapter_update_inv)

lemmas registry_op_inv =
  register_node_inv unregister_node_inv update_node_status_inv update_node_heartbeat_inv
  update_node_error_state_inv registry_record_request_inv set_node_base_model_inv register_adapter_inv

section \<open>Queries return registered nodes\<close>

lemma registry_values:
  assumes "registry_inv r" and "n \<in> set (dict_values (rg_nodes r))"
  shows "map_of (rg_nodes r) (ni_node_id n) = Some n"
proof -
  have wf: "dict_wf (rg_nodes r)" and id: "\<And>k m. map_of (rg_nodes r) k = Some m \<Longrightarrow> ni_node_id m = k"
    using assms(1) by (simp_all add: registry_inv_def nodes_ok_def)
  obtain k where "map_of (rg_nodes r) k = Some n" using assms(2) dict_values_iff [OF wf] by blast
  with id show ?thesis by blast
qed

lemma get_nodes_for_adapter_set:
  assumes "registry_inv r"
  shows "set (get_nodes_for_adapter r a) =
    {n. \<exists>nid. map_of (rg_nodes r) nid = Some n \<and> ni_status n = ACTIVE \<and> a \<in> set (ni_loaded_adapters n)}"
proof -
  have "nid \<in> set (dict_get (rg_adapter_to_nodes r) a []) \<longleftrightarrow> node_holds r nid a" for nid
    using assms by (simp add: registry_inv_def index_ok_def index_def)
  then show ?thesis
    by (auto simp: get_nodes_for_adapter_def map_filter_def node_holds_def is_available_def split: option.splits)
      (force simp: node_holds_def image_iff)
qed

lemmas node_queries =
  get_active_nodes_def get_idle_nodes_def get_nodes_with_capacity_def get_nodes_for_base_model_def
  get_nodes_for_base_model_with_capacity_def get_idle_nodes_for_base_model_def is_available_def

end
