(* ===== verification/Model_Config.thy ===== *)
theory Model_Config
  imports Prelude
begin

text \<open>
  \<open>src/src/controller/cluster/model_config.py\<close>: the static mapping of base models,
  adapters and node assignments. A parsed JSON or YAML document is a \<open>raw_config\<close>
  record whose fields are \<open>None\<close> where the key is missing; reading the file is not
  modelled.
\<close>

section \<open>Data\<close>

record base_model_config =
  bm_name :: string
  bm_model_id :: string
  bm_adapters :: "string list"
  bm_adapter_paths :: "(string, string) dict"
  bm_gpu_memory_gb :: pyfloat
  bm_max_workers :: int

record cluster_model_config =
  cm_base_models :: "(string, base_model_config) dict"
  cm_adapter_to_base :: "(string, string) dict"
  cm_node_assignments :: "(string, string list) dict"

text \<open>The two nested loops of \<open>_build_reverse_lookup\<close>: later entries win.\<close>

fun map_adapters :: "string \<Rightarrow> string list \<Rightarrow> (string, string) dict \<Rightarrow> (string, string) dict" where
  "map_adapters base_name [] lookup = lookup"
| "map_adapters base_name (adapter # rest) lookup =
     map_adapters base_name rest (AList.update adapter base_name lookup)"

fun reverse_lookup_from ::
  "(string, base_model_config) dict \<Rightarrow> (string, string) dict \<Rightarrow> (string, string) dict" where
  "reverse_lookup_from [] lookup = lookup"
| "reverse_lookup_from ((base_name, config) # rest) lookup =
     reverse_lookup_from rest (map_adapters base_name (bm_adapters config) lookup)"

definition build_reverse_lookup :: "cluster_model_config \<Rightarrow> cluster_model_config" where
  "build_reverse_lookup c = c\<lparr>cm_adapter_to_base := reverse_lookup_from (cm_base_models c) []\<rparr>"

text \<open>\<open>ClusterModelConfig(base_models=...)\<close>, with \<open>__post_init__\<close>.\<close>

definition mk_model_config :: "(string, base_model_config) dict \<Rightarrow> cluster_model_config" where
  "mk_model_config base_models = build_reverse_lookup
     \<lparr>cm_base_models = base_models, cm_adapter_to_base = [], cm_node_assignments = []\<rparr>"

section \<open>Queries and updates\<close>

definition get_base_model_for_adapter :: "cluster_model_config \<Rightarrow> string \<Rightarrow> string option" where
  "get_base_model_for_adapter c adapter_name = map_of (cm_adapter_to_base c) adapter_name"

definition get_base_model_config :: "cluster_model_config \<Rightarrow> string \<Rightarrow> base_model_config option" where
  "get_base_model_config c base_name = map_of (cm_base_models c) base_name"

definition assigned_nodes_for_base_model :: "cluster_model_config \<Rightarrow> string \<Rightarrow> string list" where
  "assigned_nodes_for_base_model c base_name = dict_get (cm_node_assignments c) base_name []"

definition assign_node_to_base_model :: "cluster_model_config \<Rightarrow> string \<Rightarrow> string \<Rightarrow> cluster_model_config" where
  "assign_node_to_base_model c node_id base_name =
     (let a1 = (if base_name \<in> set (dict_keys (cm_node_assignments c)) then cm_node_assignments c
                else AList.update base_name [] (cm_node_assignments c));
          ids = dict_get a1 base_name []
      in c\<lparr>cm_node_assignments :=
            (if node_id \<in> set ids then a1 else AList.update base_name (ids @ [node_id]) a1)\<rparr>)"

definition remove_node_from_base_model :: "cluster_model_config \<Rightarrow> string \<Rightarrow> string \<Rightarrow> cluster_model_config" where
  "remove_node_from_base_model c node_id base_name =
     (case map_of (cm_node_assignments c) base_name of
        None \<Rightarrow> c
      | Some ids \<Rightarrow>
          if node_id \<in> set ids
          then c\<lparr>cm_node_assignments := AList.update base_name (remove1 node_id ids) (cm_node_assignments c)\<rparr>
          else c)"

definition get_all_adapters :: "cluster_model_config \<Rightarrow> string list" where
  "get_all_adapters c = dict_keys (cm_adapter_to_base c)"

definition list_base_models :: "cluster_model_config \<Rightarrow> string list" where
  "list_base_models c = dict_keys (cm_base_models c)"

section \<open>Serialisation\<close>

record raw_base =
  raw_name :: "string option"
  raw_model_id :: "string option"
  raw_adapters :: "string list option"
  raw_adapter_paths :: "(string, string) dict option"
  raw_gpu_memory_gb :: "pyfloat option"
  raw_max_workers :: "int option"

record raw_config =
  raw_base_models :: "(string, raw_base) dict option"
  raw_node_assignments :: "(string, string list) dict option"

definition base_to_dict :: "base_model_config \<Rightarrow> raw_base" where
  "base_to_dict cfg = \<lparr>
     raw_name = Some (bm_name cfg), raw_model_id = Some (bm_model_id cfg),
     raw_adapters = Some (bm_adapters cfg), raw_adapter_paths = Some (bm_adapter_paths cfg),
     raw_gpu_memory_gb = Some (bm_gpu_memory_gb cfg), raw_max_workers = Some (bm_max_workers cfg)\<rparr>"

definition model_config_to_dict :: "cluster_model_config \<Rightarrow> raw_config" where
  "model_config_to_dict c = \<lparr>
     raw_base_models = Some (map (\<lambda>(name, cfg). (name, base_to_dict cfg)) (cm_base_models c)),
     raw_node_assignments = Some (cm_node_assignments c)\<rparr>"

definition opt_default :: "'a option \<Rightarrow> 'a \<Rightarrow> 'a" where
  "opt_default x d = (case x of None \<Rightarrow> d | Some v \<Rightarrow> v)"

lemma opt_default_simps [simp]: "opt_default None d = d" "opt_default (Some v) d = v"
  by (simp_all add: opt_default_def)

text \<open>\<open>cfg["name"]\<close> and \<open>cfg["model_id"]\<close> raise \<open>KeyError\<close>; the rest have defaults.\<close>

definition base_from_dict :: "raw_base \<Rightarrow> py_error + base_model_config" where
  "base_from_dict cfg =
     (case (raw_name cfg, raw_model_id cfg) of
        (Some nm, Some mid) \<Rightarrow> Inr \<lparr>
          bm_name = nm, bm_model_id = mid,
          bm_adapters = opt_default (raw_adapters cfg) [],
          bm_adapter_paths = opt_default (raw_adapter_paths cfg) [],
          bm_gpu_memory_gb = opt_default (raw_gpu_memory_gb cfg) 16,
          bm_max_workers = opt_default (raw_max_workers cfg) 32\<rparr>
      | _ \<Rightarrow> Inl KeyError)"

fun raw_bases :: "(string, raw_base) dict \<Rightarrow> (string, base_model_config) dict
    \<Rightarrow> py_error + (string, base_model_config) dict" where
  "raw_bases [] acc = Inr acc"
| "raw_bases ((name, cfg) # rest) acc =
     (case base_from_dict cfg of
        Inl e \<Rightarrow> Inl e
      | Inr base \<Rightarrow> raw_bases rest (AList.update name base acc))"

definition model_config_from_dict :: "raw_config \<Rightarrow> py_error + cluster_model_config" where
  "model_config_from_dict data =
     (case raw_bases (opt_default (raw_base_models data) []) [] of
        Inl e \<Rightarrow> Inl e
      | Inr base_models \<Rightarrow>
          Inr ((mk_model_config base_models)
                \<lparr>cm_node_assignments := opt_default (raw_node_assignments data) []\<rparr>))"

section \<open>The generated benchmark configuration\<close>

text \<open>Decimal digits of a natural number, \<open>str(n)\<close>.\<close>

definition digit_char :: "nat \<Rightarrow> char" where
  "digit_char d = char_of (48 + d)"

fun str_nat :: "nat \<Rightarrow> string" where
  "str_nat n = (if n < 10 then [digit_char n] else str_nat (n div 10) @ [digit_char (n mod 10)])"

declare str_nat.simps [simp del]

text \<open>\<open>model_id.split("/")[-1].lower().replace("-", "_")\<close>, for ASCII names.\<close>

definition to_lower :: "char \<Rightarrow> char" where
  "to_lower c = (let n = of_char c :: nat in if 65 \<le> n \<and> n \<le> 90 then char_of (n + 32) else c)"

definition short_name :: "string \<Rightarrow> string" where
  "short_name model_id =
     map ((\<lambda>c. if c = CHR ''-'' then CHR ''_'' else c) \<circ> to_lower)
       (rev (takeWhile (\<lambda>c. c \<noteq> CHR ''/'') (rev model_id)))"

text \<open>\<open>while len(base_model_ids) < num_base_models: append(f"base-model-{len}")\<close>\<close>

function extend_ids :: "string list \<Rightarrow> nat \<Rightarrow> string list" where
  "extend_ids ids n =
     (if length ids < n then extend_ids (ids @ [''base-model-'' @ str_nat (length ids)]) n else ids)"
  by pat_completeness auto
termination
  by (relation "measure (\<lambda>(ids, n). n - length ids)") auto

declare extend_ids.simps [simp del]

definition benchmark_base :: "string list \<Rightarrow> nat \<Rightarrow> string \<Rightarrow> nat \<Rightarrow> string \<times> base_model_config" where
  "benchmark_base ids adapters_per_model adapter_prefix i =
     (let model_id = ids ! i; name = short_name model_id; adapter_start = i * adapters_per_model
      in (name, \<lparr>bm_name = name, bm_model_id = model_id,
           bm_adapters = map (\<lambda>j. adapter_prefix @ str_nat (adapter_start + j)) [0 ..< adapters_per_model],
           bm_adapter_paths = [], bm_gpu_memory_gb = 16, bm_max_workers = 32\<rparr>))"

text \<open>
  \<open>default_id\<close> is \<open>config.BASE_MODEL_ID\<close>, used when no ids are given.
\<close>

definition create_benchmark_config ::
  "string \<Rightarrow> nat \<Rightarrow> nat \<Rightarrow> string list option \<Rightarrow> string \<Rightarrow> cluster_model_config" where
  "create_benchmark_config default_id num_base_models adapters_per_model base_model_ids adapter_prefix =
     (let ids = extend_ids (opt_default base_model_ids [default_id]) num_base_models
      in mk_model_config
           (foldl (\<lambda>d i. case benchmark_base ids adapters_per_model adapter_prefix i of
                           (k, v) \<Rightarrow> AList.update k v d)
             [] [0 ..< num_base_models]))"

section \<open>Reverse lookup\<close>

lemma map_adapters_lookup:
  "map_of (map_adapters b as d) a = (if a \<in> set as then Some b else map_of d a)"
  by (induction as arbitrary: d) (auto simp: update_conv')

lemma reverse_lookup_from_None:
  "\<forall>(b, cfg) \<in> set bs. a \<notin> set (bm_adapters cfg) \<Longrightarrow> map_of (reverse_lookup_from bs d) a = map_of d a"
  by (induction bs arbitrary: d) (auto simp: map_adapters_lookup)

lemma reverse_lookup_from_append:
  "reverse_lookup_from (bs @ cs) d = reverse_lookup_from cs (reverse_lookup_from bs d)"
  by (induction bs arbitrary: d) auto

lemma reverse_lookup_last_wins:
  assumes "a \<in> set (bm_adapters cfg)" and "\<forall>(b, c) \<in> set cs. a \<notin> set (bm_adapters c)"
  shows "map_of (reverse_lookup_from (bs @ (b, cfg) # cs) d) a = Some b"
  using assms by (simp add: reverse_lookup_from_append reverse_lookup_from_None map_adapters_lookup)

lemma reverse_lookup_sound:
  "map_of (reverse_lookup_from bs d) a = Some b \<Longrightarrow>
     map_of d a = Some b \<or> (\<exists>cfg. (b, cfg) \<in> set bs \<and> a \<in> set (bm_adapters cfg))"
proof (induction bs arbitrary: d)
  case (Cons bc bs)
  then show ?case by (cases bc) (fastforce simp: map_adapters_lookup split: if_split_asm)
qed simp

section \<open>Round trip\<close>

lemma base_from_to_dict [simp]: "base_from_dict (base_to_dict cfg) = Inr cfg"
  by (cases cfg) (simp add: base_from_dict_def base_to_dict_def)

lemma raw_bases_to_dict:
  assumes "distinct (map fst (acc @ bs))"
  shows "raw_bases (map (\<lambda>(name, cfg). (name, base_to_dict cfg)) bs) acc = Inr (acc @ bs)"
  using assms
proof (induction bs arbitrary: acc)
  case (Cons bc bs)
  obtain b cfg where bc: "bc = (b, cfg)" by (cases bc)
  have "AList.update b cfg acc = acc @ [(b, cfg)]"
    using Cons.prems bc by (intro update_fresh) auto
  then show ?case using Cons.IH [of "acc @ [(b, cfg)]"] Cons.prems bc by auto
qed simp

section \<open>Decimal strings\<close>

lemma digit_char_inj: "d < 10 \<Longrightarrow> e < 10 \<Longrightarrow> digit_char d = digit_char e \<longleftrightarrow> d = e"
  by (auto simp: digit_char_def char_of_eq_iff take_bit_eq_mod)

lemma str_nat_nonempty: "str_nat n \<noteq> []"
  by (subst str_nat.simps) simp

lemma str_nat_inj: "str_nat m = str_nat n \<longleftrightarrow> m = n"
proof
  show "str_nat m = str_nat n \<Longrightarrow> m = n"
  proof (induction m arbitrary: n rule: less_induct)
    case (less m)
    show ?case
    proof (cases "m < 10 \<or> n < 10")
      case True
      with less.prems str_nat_nonempty show ?thesis
        by (auto simp: str_nat.simps [of m] str_nat.simps [of n] digit_char_inj
            split: if_split_asm dest: arg_cong [of _ _ length])
    next
      case False
      with less.prems have "str_nat (m div 10) = str_nat (n div 10)" "m mod 10 = n mod 10"
        by (auto simp: str_nat.simps [of m] str_nat.simps [of n] digit_char_inj)
      moreover have "m div 10 < m" using False by simp
      ultimately show ?thesis using less.IH by (metis div_mult_mod_eq)
    qed
  qed
qed simp

lemma length_extend_ids: "length (extend_ids ids n) = max (length ids) n"
  by (induction ids n rule: extend_ids.induct) (subst extend_ids.simps, auto)

lemma take_extend_ids: "take (length ids) (extend_ids ids n) = ids"
proof (induction ids n rule: extend_ids.induct)
  case (1 ids n)
  show ?case
  proof (cases "length ids < n")
    case True
    have "take (length ids) (extend_ids ids n) =
        take (length ids) (take (Suc (length ids)) (extend_ids (ids @ [''base-model-'' @ str_nat (length ids)]) n))"
      using True by (subst extend_ids.simps) (simp add: min_def)
    also have "\<dots> = ids" using "1.IH" [OF True] by simp
    finally show ?thesis .
  next
    case False
    then show ?thesis by (subst extend_ids.simps) simp
  qed
qed

text \<open>With distinct short names the generated dictionary is the list of its bases.\<close>

lemma benchmark_bases_fold:
  assumes "distinct (map f is)" and "\<forall>i \<in> set is. fst (g i) = f i"
    and "\<forall>i \<in> set is. f i \<notin> set (dict_keys d)"
  shows "foldl (\<lambda>d i. case g i of (k, v) \<Rightarrow> AList.update k v d) d is = d @ map g is"
  using assms
proof (induction "is" arbitrary: d)
  case (Cons i "is")
  obtain k v where g: "g i = (k, v)" by (cases "g i")
  have k: "k = f i" using Cons.prems(2) g by force
  have "AList.update k v d = d @ [(k, v)]"
    using Cons.prems(3) k by (intro update_fresh) auto
  moreover have "foldl (\<lambda>d i. case g i of (k, v) \<Rightarrow> AList.update k v d) (d @ [(k, v)]) is =
      (d @ [(k, v)]) @ map g is"
    using Cons.prems k by (intro Cons.IH) (auto simp: image_iff)
  ultimately show ?case using g by simp
qed simp

end
