(* ===== verification/Placement.thy ===== *)
theory Placement
  imports Registry_Inv Model_Config
begin

text \<open>
  \<open>src/src/controller/cluster/placement.py\<close>: the policies by which the global controller
  picks the node of a request and the idle node to start next. A policy only reads the
  registry; \<open>LocalityAwarePolicy\<close> also keeps statistics, which are threaded through as the
  policy's state. No registry query waits, so a selection is one atomic step. The locale
  \<open>placement_policy\<close> is the contract the global controller relies on, and every policy
  is an instance of it.
\<close>

section \<open>The shared part: PlacementPolicy\<close>

definition placement_base_model :: "cluster_model_config option \<Rightarrow> string \<Rightarrow> string option" where
  "placement_base_model mc a = (case mc of None \<Rightarrow> None | Some c \<Rightarrow> get_base_model_for_adapter c a)"

definition filter_by_base_model ::
  "cluster_model_config option \<Rightarrow> string \<Rightarrow> node_info list \<Rightarrow> node_info list" where
  "filter_by_base_model mc a nodes =
     (let base_model = placement_base_model mc a
      in if truthy base_model then filter (\<lambda>n. ni_base_model n = base_model) nodes else nodes)"

type_synonym inflight = "(string, int) dict"

definition effective_load :: "inflight \<Rightarrow> node_info \<Rightarrow> pyfloat" where
  "effective_load inflight n =
     of_int (ni_active_workers n + dict_get inflight (ni_node_id n) 0) / of_int (max (ni_max_workers n) 1)"

text \<open>The scale-up choice that four of the policies repeat word for word.\<close>

definition first_idle_node :: "registry \<Rightarrow> string option \<Rightarrow> node_info option" where
  "first_idle_node r base_model =
     (case (if truthy base_model then get_idle_nodes_for_base_model r (the base_model) else []) of
        n # _ \<Rightarrow> Some n
      | [] \<Rightarrow> get_any_idle_node r)"

section \<open>AffinityFirstPolicy and LeastLoadedPolicy\<close>

definition requests_per_capacity :: "node_info \<Rightarrow> pyfloat" where
  "requests_per_capacity n = of_int (ni_total_requests n) / of_int (max (ni_max_workers n) 1)"

definition affinity_select ::
  "registry \<Rightarrow> cluster_model_config option \<Rightarrow> string \<Rightarrow> inflight \<Rightarrow> node_info option" where
  "affinity_select r mc a inflight =
     py_min requests_per_capacity (filter_by_base_model mc a (get_active_nodes r))"

definition affinity_scale_up :: "registry \<Rightarrow> string option \<Rightarrow> node_info option" where
  "affinity_scale_up r base_model = first_idle_node r base_model"

definition least_loaded_select ::
  "registry \<Rightarrow> cluster_model_config option \<Rightarrow> string \<Rightarrow> inflight \<Rightarrow> node_info option" where
  "least_loaded_select r mc a inflight =
     (let base_model = placement_base_model mc a
      in if truthy base_model
         then py_min (effective_load inflight) (get_nodes_for_base_model_with_capacity r (the base_model))
         else get_least_loaded_node r)"

definition least_loaded_scale_up :: "registry \<Rightarrow> string option \<Rightarrow> node_info option" where
  "least_loaded_scale_up r base_model = first_idle_node r base_model"

section \<open>LocalityAwarePolicy\<close>

record locality_stats =
  lc_request_count :: int
  lc_last_node_id :: "string option"
  lc_node_request_counts :: "(string, int) dict"

definition empty_locality :: locality_stats where
  "empty_locality = \<lparr>lc_request_count = 0, lc_last_node_id = None, lc_node_request_counts = []\<rparr>"

type_synonym locality_state = "(string, locality_stats) dict"

definition locality_record_request :: "string \<Rightarrow> string \<Rightarrow> locality_state \<Rightarrow> locality_state" where
  "locality_record_request a node_id st =
     (let stats = dict_get st a empty_locality
      in AList.update a (stats\<lparr>lc_request_count := lc_request_count stats + 1,
           lc_last_node_id := Some node_id,
           lc_node_request_counts := AList.update node_id
             (dict_get (lc_node_request_counts stats) node_id 0 + 1) (lc_node_request_counts stats)\<rparr>) st)"

text \<open>The sticky second choice: the node used last, if it can take the request.\<close>

definition locality_last_node ::
  "registry \<Rightarrow> cluster_model_config option \<Rightarrow> string \<Rightarrow> locality_stats \<Rightarrow> node_info option" where
  "locality_last_node r mc a stats =
     (if truthy (lc_last_node_id stats)
      then (case get_node r (the (lc_last_node_id stats)) of
              None \<Rightarrow> None
            | Some n \<Rightarrow>
                if is_available n \<and> has_capacity n \<and>
                   (\<not> truthy (placement_base_model mc a) \<or> ni_base_model n = placement_base_model mc a)
                then Some n else None)
      else None)"

definition locality_choice ::
  "registry \<Rightarrow> cluster_model_config option \<Rightarrow> string \<Rightarrow> inflight \<Rightarrow> locality_stats \<Rightarrow> node_info option" where
  "locality_choice r mc a inflight stats =
     (let with_adapter = filter_by_base_model mc a (get_nodes_for_adapter r a)
      in if with_adapter \<noteq> []
         then py_max (\<lambda>n. dict_get (lc_node_request_counts stats) (ni_node_id n) 0) with_adapter
         else case locality_last_node r mc a stats of
                Some n \<Rightarrow> Some n
              | None \<Rightarrow> py_min (effective_load inflight)
                  (filter_by_base_model mc a (get_nodes_with_capacity r)))"

text \<open>
  Reading \<open>self._adapter_stats[adapter_name]\<close>, a \<open>defaultdict\<close>, creates the entry even when
  no node is chosen.
\<close>

definition locality_select ::
  "registry \<Rightarrow> cluster_model_config option \<Rightarrow> string \<Rightarrow> inflight \<Rightarrow> locality_state
     \<Rightarrow> node_info option \<times> locality_state" where
  "locality_select r mc a inflight st =
     (let stats = dict_get st a empty_locality;
          st1 = AList.update a stats st
      in case locality_choice r mc a inflight stats of
           None \<Rightarrow> (None, st1)
         | Some n \<Rightarrow> (Some n, locality_record_request a (ni_node_id n) st1))"

definition locality_scale_up :: "registry \<Rightarrow> string option \<Rightarrow> node_info option" where
  "locality_scale_up r base_model = first_idle_node r base_model"

section \<open>GPUTypeAwarePolicy\<close>

fun gpu_loop ::
  "registry \<Rightarrow> cluster_model_config option \<Rightarrow> string \<Rightarrow> inflight \<Rightarrow> string list \<Rightarrow> node_info option" where
  "gpu_loop r mc a inflight [] = affinity_select r mc a inflight"
| "gpu_loop r mc a inflight (gpu_type # rest) =
     (let active_nodes = filter_by_base_model mc a (get_active_nodes r);
          matching_nodes = filter (\<lambda>n. ni_gpu_type n = gpu_type \<and> has_capacity n) active_nodes;
          with_adapter = filter (\<lambda>n. a \<in> set (ni_loaded_adapters n)) matching_nodes
      in if matching_nodes \<noteq> []
         then (if with_adapter \<noteq> [] then py_min (effective_load inflight) with_adapter
               else py_min (effective_load inflight) matching_nodes)
         else gpu_loop r mc a inflight rest)"

definition gpu_select ::
  "(string, string list) dict \<Rightarrow> registry \<Rightarrow> cluster_model_config option \<Rightarrow> string \<Rightarrow> inflight
     \<Rightarrow> node_info option" where
  "gpu_select preferences r mc a inflight = gpu_loop r mc a inflight (dict_get preferences a [])"

definition gpu_scale_up :: "registry \<Rightarrow> string option \<Rightarrow> node_info option" where
  "gpu_scale_up r base_model = affinity_scale_up r base_model"

section \<open>BinpackPolicy\<close>

definition binpack_select ::
  "pyfloat \<Rightarrow> registry \<Rightarrow> cluster_model_config option \<Rightarrow> string \<Rightarrow> inflight \<Rightarrow> node_info option" where
  "binpack_select target r mc a inflight =
     (let active_nodes = filter_by_base_model mc a (get_active_nodes r);
          sorted_nodes = sort_desc (effective_load inflight) active_nodes
      in case find (\<lambda>n. a \<in> set (ni_loaded_adapters n) \<and> has_capacity n) sorted_nodes of
           Some n \<Rightarrow> Some n
         | None \<Rightarrow>
             (case find (\<lambda>n. effective_load inflight n < target \<and> has_capacity n) sorted_nodes of
                Some n \<Rightarrow> Some n
              | None \<Rightarrow> find has_capacity sorted_nodes))"

text \<open>
  \<open>min(n.active_workers / n.max_workers for n in active_nodes)\<close> divides by the node's
  capacity without the \<open>max(..., 1)\<close> the other loads have.
\<close>

definition binpack_scale_up :: "pyfloat \<Rightarrow> registry \<Rightarrow> string option \<Rightarrow> py_error + node_info option" where
  "binpack_scale_up target r base_model =
     (let active_nodes = get_active_nodes r
      in if active_nodes \<noteq> []
         then (if \<exists>n \<in> set active_nodes. ni_max_workers n = 0 then Inl ZeroDivisionError
               else if Min (set (map (\<lambda>n. of_int (ni_active_workers n) / of_int (ni_max_workers n)) active_nodes)) < target
               then Inr None
               else Inr (first_idle_node r base_model))
         else Inr (first_idle_node r base_model))"

section \<open>The policies as one type, and their factory\<close>

datatype policy =
    AffinityFirst pyfloat pyfloat
  | LeastLoaded
  | LocalityAware locality_state
  | GPUTypeAware "(string, string list) dict"
  | Binpack pyfloat

fun policy_select ::
  "registry \<Rightarrow> cluster_model_config option \<Rightarrow> string \<Rightarrow> inflight \<Rightarrow> policy \<Rightarrow> node_info option \<times> policy" where
  "policy_select r mc a inflight (AffinityFirst t g) = (affinity_select r mc a inflight, AffinityFirst t g)"
| "policy_select r mc a inflight LeastLoaded = (least_loaded_select r mc a inflight, LeastLoaded)"
| "policy_select r mc a inflight (LocalityAware st) = map_prod id LocalityAware (locality_select r mc a inflight st)"
| "policy_select r mc a inflight (GPUTypeAware p) = (gpu_select p r mc a inflight, GPUTypeAware p)"
| "policy_select r mc a inflight (Binpack t) = (binpack_select t r mc a inflight, Binpack t)"

fun policy_scale_up :: "registry \<Rightarrow> string option \<Rightarrow> policy \<Rightarrow> py_error + node_info option" where
  "policy_scale_up r b (AffinityFirst t g) = Inr (affinity_scale_up r b)"
| "policy_scale_up r b LeastLoaded = Inr (least_loaded_scale_up r b)"
| "policy_scale_up r b (LocalityAware st) = Inr (locality_scale_up r b)"
| "policy_scale_up r b (GPUTypeAware p) = Inr (gpu_scale_up r b)"
| "policy_scale_up r b (Binpack t) = binpack_scale_up t r b"

text \<open>
  The factory. \<open>policy_kwargs\<close> holds the keyword arguments a caller passes on; a class that
  does not take one of them raises \<open>TypeError\<close>.
\<close>

record policy_kwargs =
  pk_spillover_threshold :: "pyfloat option"
  pk_spillover_gap :: "pyfloat option"
  pk_gpu_preferences :: "(string, string list) dict option"
  pk_target_utilization :: "pyfloat option"

definition no_kwargs :: policy_kwargs where
  "no_kwargs = \<lparr>pk_spillover_threshold = None, pk_spillover_gap = None, pk_gpu_preferences = None,
     pk_target_utilization = None\<rparr>"

definition or_default :: "'a option \<Rightarrow> 'a \<Rightarrow> 'a" where
  "or_default x d = (case x of None \<Rightarrow> d | Some v \<Rightarrow> v)"

definition create_placement_policy :: "string \<Rightarrow> policy_kwargs \<Rightarrow> py_error + policy" where
  "create_placement_policy name k =
     (let spill = (pk_spillover_threshold k \<noteq> None \<or> pk_spillover_gap k \<noteq> None);
          prefs = (pk_gpu_preferences k \<noteq> None);
          target = (pk_target_utilization k \<noteq> None)
      in if name = ''affinity'' then
           (if prefs \<or> target then Inl TypeError
            else Inr (AffinityFirst (or_default (pk_spillover_threshold k) (1/2))
                                    (or_default (pk_spillover_gap k) (1/5))))
         else if name = ''least_loaded'' then
           (if spill \<or> prefs \<or> target then Inl TypeError else Inr LeastLoaded)
         else if name = ''locality'' then
           (if spill \<or> prefs \<or> target then Inl TypeError else Inr (LocalityAware []))
         else if name = ''gpu_aware'' then
           (if spill \<or> target then Inl TypeError else Inr (GPUTypeAware (or_default (pk_gpu_preferences k) [])))
         else if name = ''binpack'' then
           (if spill \<or> prefs then Inl TypeError else Inr (Binpack (or_default (pk_target_utilization k) (4/5))))
         else Inl ValueError)"

section \<open>The contract\<close>

text \<open>A node that may serve a request for the adapter.\<close>

definition serves :: "cluster_model_config option \<Rightarrow> string \<Rightarrow> node_info \<Rightarrow> bool" where
  "serves mc a n \<longleftrightarrow> ni_status n = ACTIVE \<and>
     (truthy (placement_base_model mc a) \<longrightarrow> ni_base_model n = placement_base_model mc a)"

locale placement_policy =
  fixes select :: "registry \<Rightarrow> cluster_model_config option \<Rightarrow> string \<Rightarrow> inflight \<Rightarrow> 'st \<Rightarrow> node_info option \<times> 'st"
    and scale_up :: "registry \<Rightarrow> string option \<Rightarrow> 'st \<Rightarrow> py_error + node_info option"
  assumes select_sound: "fst (select r mc a i st) = Some n \<Longrightarrow> n \<in> set (dict_values (rg_nodes r)) \<and> serves mc a n"
    and select_complete: "n \<in> set (dict_values (rg_nodes r)) \<Longrightarrow> serves mc a n \<Longrightarrow> has_capacity n \<Longrightarrow>
          fst (select r mc a i st) \<noteq> None"
    and scale_up_idle: "scale_up r b st = Inr (Some n) \<Longrightarrow>
          n \<in> set (dict_values (rg_nodes r)) \<and> ni_status n = IDLE"
begin

lemma select_registered:
  assumes "registry_inv r" and "fst (select r mc a i st) = Some n"
  shows "map_of (rg_nodes r) (ni_node_id n) = Some n \<and> serves mc a n"
  using select_sound [OF assms(2)] registry_values [OF assms(1)] by blast

lemma scale_up_registered:
  assumes "registry_inv r" and "scale_up r b st = Inr (Some n)"
  shows "map_of (rg_nodes r) (ni_node_id n) = Some n \<and> ni_status n = IDLE"
  using scale_up_idle [OF assms(2)] registry_values [OF assms(1)] by blast

text \<open>A starting node is never one that was serving requests.\<close>

lemma scale_up_not_selected:
  "fst (select r mc a i st) = Some n \<Longrightarrow> scale_up r b st' = Inr (Some m) \<Longrightarrow> n \<noteq> m"
  using select_sound scale_up_idle by (fastforce simp: serves_def)

end

section \<open>Every policy keeps the contract\<close>

lemma filter_by_base_model_iff:
  "n \<in> set (filter_by_base_model mc a ns) \<longleftrightarrow>
     n \<in> set ns \<and> (truthy (placement_base_model mc a) \<longrightarrow> ni_base_model n = placement_base_model mc a)"
  by (auto simp: filter_by_base_model_def Let_def)

lemma serving_nodes:
  "n \<in> set (filter_by_base_model mc a (get_active_nodes r)) \<longleftrightarrow>
     n \<in> set (dict_values (rg_nodes r)) \<and> serves mc a n"
  by (auto simp: filter_by_base_model_iff get_active_nodes_def serves_def)

lemma truthy_the: "truthy x \<Longrightarrow> x = Some (the x)"
  by (cases x) (auto simp: truthy_def)

lemma first_idle_node_cases:
  "first_idle_node r b = (case (if truthy b then get_idle_nodes_for_base_model r (the b) else []) of
     n # _ \<Rightarrow> Some n
   | [] \<Rightarrow> (case get_idle_nodes r of [] \<Rightarrow> None | n # _ \<Rightarrow> Some n))"
  by (simp only: first_idle_node_def get_any_idle_node_def get_idle_nodes_def)

lemma first_idle_node_in: "first_idle_node r b = Some n \<Longrightarrow> n \<in> set (get_idle_nodes r)"
proof -
  have sub: "set (get_idle_nodes_for_base_model r c) \<subseteq> set (get_idle_nodes r)" for c
    by (auto simp: get_idle_nodes_for_base_model_def get_idle_nodes_def)
  show "first_idle_node r b = Some n \<Longrightarrow> n \<in> set (get_idle_nodes r)"
    using sub [of "the b"] by (auto simp: first_idle_node_cases split: list.splits if_splits)
qed

lemma first_idle_node_sound:
  "first_idle_node r b = Some n \<Longrightarrow> n \<in> set (dict_values (rg_nodes r)) \<and> ni_status n = IDLE"
  by (drule first_idle_node_in) (simp add: get_idle_nodes_def)

lemma first_idle_node_None:
  "first_idle_node r b = None \<longleftrightarrow> get_idle_nodes r = []"
proof -
  have "set (get_idle_nodes_for_base_model r c) \<subseteq> set (get_idle_nodes r)" for c
    by (auto simp: get_idle_nodes_for_base_model_def get_idle_nodes_def)
  then have "get_idle_nodes r = [] \<Longrightarrow> get_idle_nodes_for_base_model r c = []" for c
    by (metis list.set(1) set_empty subset_empty)
  then show ?thesis by (auto simp: first_idle_node_cases split: list.splits)
qed

lemma affinity_sound: "affinity_select r mc a i = Some n \<Longrightarrow> n \<in> set (dict_values (rg_nodes r)) \<and> serves mc a n"
  unfolding affinity_select_def by (drule py_min_Some(1)) (simp only: serving_nodes)

lemma affinity_complete:
  assumes "n \<in> set (dict_values (rg_nodes r))" and "serves mc a n"
  shows "affinity_select r mc a i \<noteq> None"
proof -
  have "n \<in> set (filter_by_base_model mc a (get_active_nodes r))" using assms by (simp only: serving_nodes)
  then have "filter_by_base_model mc a (get_active_nodes r) \<noteq> []" by force
  then show ?thesis by (simp add: affinity_select_def)
qed

lemma least_loaded_sound:
  assumes "least_loaded_select r mc a i = Some n"
  shows "n \<in> set (dict_values (rg_nodes r)) \<and> serves mc a n"
proof (cases "truthy (placement_base_model mc a)")
  case True
  with assms have "n \<in> set (get_nodes_for_base_model_with_capacity r (the (placement_base_model mc a)))"
    by (simp add: least_loaded_select_def py_min_Some(1))
  with truthy_the [OF True] show ?thesis
    by (auto simp: get_nodes_for_base_model_with_capacity_def serves_def)
next
  case False
  with assms have "n \<in> set (filter is_available (dict_values (rg_nodes r)))"
    unfolding least_loaded_select_def get_least_loaded_node_def by (simp only: Let_def if_False py_min_Some(1))
  with False show ?thesis by (simp add: serves_def is_available_def)
qed

lemma least_loaded_complete:
  assumes "n \<in> set (dict_values (rg_nodes r))" and "serves mc a n" and "has_capacity n"
  shows "least_loaded_select r mc a i \<noteq> None"
proof (cases "truthy (placement_base_model mc a)")
  case True
  have "n \<in> set (get_nodes_for_base_model_with_capacity r (the (placement_base_model mc a)))"
    using assms True truthy_the [OF True] by (simp add: get_nodes_for_base_model_with_capacity_def serves_def)
  then have "get_nodes_for_base_model_with_capacity r (the (placement_base_model mc a)) \<noteq> []" by force
  with True show ?thesis by (simp add: least_loaded_select_def)
next
  case False
  have "n \<in> set (filter is_available (dict_values (rg_nodes r)))"
    using assms by (simp add: is_available_def serves_def)
  then have "filter is_available (dict_values (rg_nodes r)) \<noteq> []" by force
  with False show ?thesis by (simp add: least_loaded_select_def get_least_loaded_node_def)
qed

lemma nodes_for_adapter_sub:
  assumes "n \<in> set (get_nodes_for_adapter r a)"
  shows "n \<in> set (dict_values (rg_nodes r)) \<and> ni_status n = ACTIVE"
proof -
  obtain nid where "map_of (rg_nodes r) nid = Some n" and "ni_status n = ACTIVE"
    using assms by (auto simp: get_nodes_for_adapter_def List.map_filter_def is_available_def)
  then show ?thesis using map_of_in_values [of "rg_nodes r" nid n] by simp
qed

lemma locality_last_node_sound:
  "locality_last_node r mc a stats = Some n \<Longrightarrow>
    n \<in> set (dict_values (rg_nodes r)) \<and> serves mc a n \<and> has_capacity n"
  by (auto simp: locality_last_node_def get_node_def serves_def is_available_def
      simp del: set_map split: if_splits option.splits dest: map_of_in_values)

lemma locality_choice_sound:
  assumes "locality_choice r mc a i stats = Some n"
  shows "n \<in> set (dict_values (rg_nodes r)) \<and> serves mc a n"
proof (cases "filter_by_base_model mc a (get_nodes_for_adapter r a) = []")
  case False
  with assms have "n \<in> set (filter_by_base_model mc a (get_nodes_for_adapter r a))"
    by (simp add: locality_choice_def Let_def py_max_Some(1))
  then show ?thesis using nodes_for_adapter_sub by (auto simp: filter_by_base_model_iff serves_def)
next
  case True
  show ?thesis
  proof (cases "locality_last_node r mc a stats")
    case (Some m)
    with assms True locality_last_node_sound [OF Some] show ?thesis by (simp add: locality_choice_def)
  next
    case None
    with assms True have "n \<in> set (filter_by_base_model mc a (get_nodes_with_capacity r))"
      by (simp add: locality_choice_def py_min_Some(1))
    then show ?thesis
      by (auto simp: filter_by_base_model_iff get_nodes_with_capacity_def is_available_def serves_def)
  qed
qed

lemma locality_choice_complete:
  assumes "n \<in> set (dict_values (rg_nodes r))" and "serves mc a n" and "has_capacity n"
  shows "locality_choice r mc a i stats \<noteq> None"
proof -
  have "n \<in> set (filter_by_base_model mc a (get_nodes_with_capacity r))"
    using assms by (auto simp: filter_by_base_model_iff get_nodes_with_capacity_def is_available_def serves_def)
  then have "filter_by_base_model mc a (get_nodes_with_capacity r) \<noteq> []" by force
  then show ?thesis by (simp add: locality_choice_def Let_def split: option.split)
qed

lemma locality_select_fst: "fst (locality_select r mc a i st) = locality_choice r mc a i (dict_get st a empty_locality)"
  by (simp add: locality_select_def Let_def split: option.split)

lemma gpu_loop_sound:
  "gpu_loop r mc a i gs = Some n \<Longrightarrow> n \<in> set (dict_values (rg_nodes r)) \<and> serves mc a n"
proof (induction gs)
  case Nil
  then show ?case using affinity_sound by simp
next
  case (Cons g gs)
  let ?m = "filter (\<lambda>n. ni_gpu_type n = g \<and> has_capacity n) (filter_by_base_model mc a (get_active_nodes r))"
  have "n \<in> set ?m \<or> gpu_loop r mc a i gs = Some n"
    using Cons.prems by (auto simp: Let_def simp del: filter_filter split: if_splits dest: py_min_Some(1))
  then show ?case using Cons.IH serving_nodes by (metis filter_is_subset subsetD)
qed

lemma gpu_loop_complete:
  assumes "n \<in> set (dict_values (rg_nodes r))" and "serves mc a n"
  shows "gpu_loop r mc a i gs \<noteq> None"
  using assms affinity_complete by (induction gs) (auto simp: Let_def)

lemma find_in: "find P xs = Some x \<Longrightarrow> x \<in> set xs \<and> P x"
  by (induction xs) (auto split: if_splits)

lemma binpack_sound:
  assumes "binpack_select t r mc a i = Some n"
  shows "n \<in> set (dict_values (rg_nodes r)) \<and> serves mc a n"
proof -
  have "n \<in> set (filter_by_base_model mc a (get_active_nodes r))"
    using assms by (auto simp: binpack_select_def Let_def split: option.splits dest!: find_in)
  then show ?thesis by (simp only: serving_nodes)
qed

lemma binpack_select_capacity: "binpack_select t r mc a i = Some n \<Longrightarrow> has_capacity n"
  by (auto simp: binpack_select_def Let_def split: option.splits dest!: find_in)

lemma binpack_complete:
  assumes "n \<in> set (dict_values (rg_nodes r))" and "serves mc a n" and "has_capacity n"
  shows "binpack_select t r mc a i \<noteq> None"
proof -
  have "n \<in> set (filter_by_base_model mc a (get_active_nodes r))" using assms by (simp only: serving_nodes)
  with assms(3) have "find has_capacity (sort_desc (effective_load i) (filter_by_base_model mc a (get_active_nodes r))) \<noteq> None"
    by (auto simp: find_None_iff)
  then show ?thesis by (simp add: binpack_select_def Let_def split: option.split)
qed

lemma binpack_scale_up_sound:
  "binpack_scale_up t r b = Inr (Some n) \<Longrightarrow> n \<in> set (dict_values (rg_nodes r)) \<and> ni_status n = IDLE"
  unfolding binpack_scale_up_def Let_def by (rule first_idle_node_sound) (simp split: if_splits)

lemma policy_select_sound:
  "fst (policy_select r mc a i p) = Some n \<Longrightarrow> n \<in> set (dict_values (rg_nodes r)) \<and> serves mc a n"
  using affinity_sound least_loaded_sound locality_choice_sound gpu_loop_sound binpack_sound
  by (cases p) (simp_all add: locality_select_fst gpu_select_def del: set_map)

lemma policy_select_complete:
  "n \<in> set (dict_values (rg_nodes r)) \<Longrightarrow> serves mc a n \<Longrightarrow> has_capacity n \<Longrightarrow>
    fst (policy_select r mc a i p) \<noteq> None"
  using affinity_complete least_loaded_complete locality_choice_complete gpu_loop_complete binpack_complete
  by (cases p) (simp_all add: locality_select_fst gpu_select_def del: set_map)

lemma policy_scale_up_sound:
  "policy_scale_up r b p = Inr (Some n) \<Longrightarrow> n \<in> set (dict_values (rg_nodes r)) \<and> ni_status n = IDLE"
  by (cases p) (simp_all add: affinity_scale_up_def least_loaded_scale_up_def locality_scale_up_def gpu_scale_up_def
      first_idle_node_sound binpack_scale_up_sound del: set_map)

interpretation any_placement: placement_policy policy_select policy_scale_up
  by unfold_locales (fact policy_select_sound policy_select_complete policy_scale_up_sound)+

section \<open>What the individual policies choose\<close>

lemma affinity_least_used:
  assumes "affinity_select r mc a i = Some n" and "m \<in> set (dict_values (rg_nodes r))" and "serves mc a m"
  shows "requests_per_capacity n \<le> requests_per_capacity m"
  using assms py_min_Some(2) unfolding affinity_select_def by (metis serving_nodes)

lemma locality_prefers_loaded:
  assumes "registry_inv r" and "fst (locality_select r mc a i st) = Some n"
    and "m \<in> set (dict_values (rg_nodes r))" and "serves mc a m" and "a \<in> set (ni_loaded_adapters m)"
  shows "a \<in> set (ni_loaded_adapters n)"
proof -
  have "m \<in> set (get_nodes_for_adapter r a)"
    using registry_values [OF assms(1,3)] assms(4,5) unfolding get_nodes_for_adapter_set [OF assms(1)]
    by (auto simp: serves_def)
  with assms(4) have ne: "filter_by_base_model mc a (get_nodes_for_adapter r a) \<noteq> []"
    by (metis filter_by_base_model_iff list.set(1) empty_iff serves_def)
  then have "n \<in> set (filter_by_base_model mc a (get_nodes_for_adapter r a))"
    using assms(2) by (simp add: locality_select_fst locality_choice_def py_max_Some(1))
  then show ?thesis by (simp add: filter_by_base_model_iff get_nodes_for_adapter_set [OF assms(1)])
qed

end
