(* ===== verification/Scaler.thy ===== *)
theory Scaler
  imports Prelude
begin

text \<open>
  The cluster scaling types of \<open>src/src/controller/scheduling/base.py\<close> and
  \<open>src/src/controller/cluster/default_scaler.py\<close>. The locale \<open>cluster_scaler\<close> is what the
  global controller may rely on when it executes the decisions.
\<close>

section \<open>Snapshot and decisions\<close>

datatype scaling_action = SCALE_UP | SCALE_DOWN

record cluster_snapshot =
  sn_num_active_nodes :: int
  sn_num_idle_nodes :: int
  sn_min_active_nodes :: int
  sn_max_active_nodes :: int
  sn_pending_requests :: int
  sn_default_base_model :: "string option"

record scaling_decision =
  sd_action :: scaling_action
  sd_node_id :: "string option"
  sd_base_model :: "string option"

definition scale_up_decision :: "string option \<Rightarrow> scaling_decision" where
  "scale_up_decision b = \<lparr>sd_action = SCALE_UP, sd_node_id = None, sd_base_model = b\<rparr>"

definition scale_down_decision :: "string \<Rightarrow> scaling_decision" where
  "scale_down_decision node_id = \<lparr>sd_action = SCALE_DOWN, sd_node_id = Some node_id, sd_base_model = None\<rparr>"

section \<open>DefaultClusterScaler\<close>

text \<open>The third loop: drainable nodes while the active count stays above the floor.\<close>

fun scale_down_loop :: "int \<Rightarrow> int \<Rightarrow> string list \<Rightarrow> scaling_decision list" where
  "scale_down_loop min_active active_after [] = []"
| "scale_down_loop min_active active_after (node_id # rest) =
     (if active_after \<le> min_active then []
      else scale_down_decision node_id # scale_down_loop min_active (active_after - 1) rest)"

definition make_scaling_decisions :: "int \<Rightarrow> cluster_snapshot \<Rightarrow> string list \<Rightarrow> scaling_decision list" where
  "make_scaling_decisions scale_up_threshold s drainable =
     (let deficit = sn_min_active_nodes s - sn_num_active_nodes s;
          prelaunch = replicate (nat (min deficit (sn_num_idle_nodes s)))
                        (scale_up_decision (sn_default_base_model s));
          scale_up = (if scale_up_threshold < sn_pending_requests s \<and>
                         sn_num_active_nodes s < sn_max_active_nodes s \<and> 0 < sn_num_idle_nodes s
                      then [scale_up_decision None] else []);
          scale_down = scale_down_loop (sn_min_active_nodes s) (sn_num_active_nodes s) drainable
      in prelaunch @ scale_up @ scale_down)"

definition scale_ups :: "scaling_decision list \<Rightarrow> scaling_decision list" where
  "scale_ups ds = filter (\<lambda>d. sd_action d = SCALE_UP) ds"

definition scale_downs :: "scaling_decision list \<Rightarrow> scaling_decision list" where
  "scale_downs ds = filter (\<lambda>d. sd_action d = SCALE_DOWN) ds"

section \<open>The contract\<close>

locale cluster_scaler =
  fixes decide :: "cluster_snapshot \<Rightarrow> string list \<Rightarrow> scaling_decision list"
  assumes downs_drainable: "\<exists>k. map sd_node_id (scale_downs (decide s ds)) = map Some (take k ds)"
    and downs_floor: "min (sn_num_active_nodes s) (sn_min_active_nodes s) \<le>
          sn_num_active_nodes s - int (length (scale_downs (decide s ds)))"
    and ups_ceiling: "sn_num_active_nodes s + int (length (scale_ups (decide s ds))) \<le>
          max (sn_num_active_nodes s) (max (sn_min_active_nodes s) (sn_max_active_nodes s - 1) + 1)"
    and ups_idle: "0 \<le> sn_num_idle_nodes s \<Longrightarrow> int (length (scale_ups (decide s ds))) \<le> sn_num_idle_nodes s + 1"
    and ups_none: "sn_num_idle_nodes s \<le> 0 \<Longrightarrow> scale_ups (decide s ds) = []"
begin

lemma downs_distinct: "distinct ds \<Longrightarrow> distinct (map sd_node_id (scale_downs (decide s ds)))"
proof -
  assume "distinct ds"
  moreover obtain k where "map sd_node_id (scale_downs (decide s ds)) = map Some (take k ds)"
    using downs_drainable by blast
  ultimately show ?thesis by (simp only: distinct_map distinct_take inj_on_def) simp
qed

lemma downs_sub: "d \<in> set (scale_downs (decide s ds)) \<Longrightarrow> \<exists>n \<in> set ds. sd_node_id d = Some n"
proof -
  assume "d \<in> set (scale_downs (decide s ds))"
  then have "sd_node_id d \<in> set (map sd_node_id (scale_downs (decide s ds)))" by simp
  moreover obtain k where "map sd_node_id (scale_downs (decide s ds)) = map Some (take k ds)"
    using downs_drainable by blast
  ultimately show ?thesis by (auto dest: in_set_takeD)
qed

text \<open>No node is stopped while the cluster is at or below its floor.\<close>

lemma no_downs_at_floor:
  assumes "sn_num_active_nodes s \<le> sn_min_active_nodes s"
  shows "scale_downs (decide s ds) = []"
proof -
  have "int (length (scale_downs (decide s ds))) \<le> 0" using downs_floor [of s ds] assms by simp
  then show ?thesis by simp
qed

end

section \<open>The default scaler keeps it\<close>

lemma scale_down_loop_nodes:
  "map sd_node_id (scale_down_loop m a ds) = map Some (take (nat (a - m)) ds)"
proof (induction ds arbitrary: a)
  case Nil
  then show ?case by simp
next
  case (Cons d ds)
  then show ?case
  proof (cases "a \<le> m")
    case True
    then show ?thesis by simp
  next
    case False
    then have "nat (a - m) = Suc (nat (a - 1 - m))" by simp
    with Cons.IH [of "a - 1"] False show ?thesis by (simp add: scale_down_decision_def)
  qed
qed

lemma scale_down_loop_length: "length (scale_down_loop m a ds) = min (length ds) (nat (a - m))"
  using arg_cong [OF scale_down_loop_nodes, of length] by simp

lemma scale_down_loop_action: "d \<in> set (scale_down_loop m a ds) \<Longrightarrow> sd_action d = SCALE_DOWN"
  by (induction ds arbitrary: a) (auto simp: scale_down_decision_def split: if_splits)

lemma scale_downs_decisions:
  "scale_downs (make_scaling_decisions t s ds) =
    scale_down_loop (sn_min_active_nodes s) (sn_num_active_nodes s) ds"
  by (simp add: make_scaling_decisions_def scale_downs_def Let_def scale_up_decision_def
      filter_id_conv scale_down_loop_action)

lemma scale_ups_decisions:
  "scale_ups (make_scaling_decisions t s ds) =
    replicate (nat (min (sn_min_active_nodes s - sn_num_active_nodes s) (sn_num_idle_nodes s)))
      (scale_up_decision (sn_default_base_model s)) @
    (if t < sn_pending_requests s \<and> sn_num_active_nodes s < sn_max_active_nodes s \<and> 0 < sn_num_idle_nodes s
     then [scale_up_decision None] else [])"
  by (auto simp: make_scaling_decisions_def scale_ups_def Let_def scale_up_decision_def
      filter_empty_conv dest: scale_down_loop_action)

interpretation default_scaler: cluster_scaler "make_scaling_decisions t"
proof unfold_locales
  fix s :: cluster_snapshot and ds :: "string list"
  show "\<exists>k. map sd_node_id (scale_downs (make_scaling_decisions t s ds)) = map Some (take k ds)"
    unfolding scale_downs_decisions scale_down_loop_nodes by blast
  show "min (sn_num_active_nodes s) (sn_min_active_nodes s) \<le>
      sn_num_active_nodes s - int (length (scale_downs (make_scaling_decisions t s ds)))"
    unfolding scale_downs_decisions scale_down_loop_length by linarith
  show "sn_num_active_nodes s + int (length (scale_ups (make_scaling_decisions t s ds))) \<le>
      max (sn_num_active_nodes s) (max (sn_min_active_nodes s) (sn_max_active_nodes s - 1) + 1)"
    unfolding scale_ups_decisions by auto
  show "int (length (scale_ups (make_scaling_decisions t s ds))) \<le> sn_num_idle_nodes s + 1"
    if "0 \<le> sn_num_idle_nodes s"
    using that unfolding scale_ups_decisions by auto
  show "scale_ups (make_scaling_decisions t s ds) = []" if "sn_num_idle_nodes s \<le> 0"
    using that unfolding scale_ups_decisions by auto
qed

end
