(* ===== verification/Resilience.thy ===== *)
theory Resilience
  imports Prelude
begin

text \<open>
  \<open>src/src/controller/cluster/resilience.py\<close>: error classification, retry with
  exponential backoff, and the circuit breaker. The exceptions the classifier tells
  apart are the constructors of \<open>exn\<close> (\<open>HttpError\<close> has an attribute \<open>status\<close>, FastAPI's
  \<open>HTTPException\<close> has not); the awaited function of a retry is the
  sequence of its outcomes, one per attempt. Every breaker operation runs under the
  breaker's lock, so each is one atomic step.
\<close>

section \<open>Error classification\<close>

datatype error_category = TRANSIENT | PERMANENT | UNKNOWN

datatype exn =
    TimeoutError
  | ClientConnectorError
  | ServerDisconnectedError
  | ConnectionRefusedError
  | OSErr "int option"
  | HttpError int
  | HTTPException int
  | OtherError string

definition classify_http_status :: "int \<Rightarrow> error_category" where
  "classify_http_status status =
     (if status \<in> {408, 429, 500, 502, 503, 504} then TRANSIENT
      else if 400 \<le> status \<and> status < 500 then PERMANENT
      else UNKNOWN)"

fun classify_error :: "exn \<Rightarrow> error_category" where
  "classify_error TimeoutError = TRANSIENT"
| "classify_error ClientConnectorError = TRANSIENT"
| "classify_error ServerDisconnectedError = TRANSIENT"
| "classify_error ConnectionRefusedError = TRANSIENT"
| "classify_error (OSErr errno) =
     (if errno = Some 111 \<or> errno = Some 113 then TRANSIENT else UNKNOWN)"
| "classify_error (HttpError status) = classify_http_status status"
| "classify_error (HTTPException status_code) = UNKNOWN"
| "classify_error (OtherError msg) = UNKNOWN"

section \<open>Retry with exponential backoff\<close>

record retry_config =
  rc_max_attempts :: int
  rc_base_delay :: pyfloat
  rc_max_delay :: pyfloat
  rc_exponential_base :: pyfloat
  rc_jitter :: pyfloat

definition default_retry_config :: retry_config where
  "default_retry_config = \<lparr>rc_max_attempts = 3, rc_base_delay = 1/2, rc_max_delay = 30,
     rc_exponential_base = 2, rc_jitter = 1/10\<rparr>"

text \<open>\<open>rnd\<close> is the value of \<open>random.random()\<close>.\<close>

definition calculate_delay :: "retry_config \<Rightarrow> nat \<Rightarrow> pyfloat \<Rightarrow> pyfloat" where
  "calculate_delay cfg attempt rnd =
     (let delay = min (rc_base_delay cfg * rc_exponential_base cfg ^ attempt) (rc_max_delay cfg);
          jitter = delay * rc_jitter cfg * rnd
      in delay + jitter)"

text \<open>
  The loop \<open>for attempt in range(max_attempts)\<close>, \<open>left\<close> iterations before its end.
  The result is what the call returns or raises, and the delays slept in between.
  \<open>raise last_error\<close> with no error recorded (\<open>max_attempts\<close> not positive) is a
  \<open>TypeError\<close>.
\<close>

fun retry_loop ::
  "retry_config \<Rightarrow> (exn \<Rightarrow> error_category) \<Rightarrow> (nat \<Rightarrow> pyfloat) \<Rightarrow> (nat \<Rightarrow> exn + 'a) \<Rightarrow> exn
    \<Rightarrow> nat \<Rightarrow> nat \<Rightarrow> (exn + 'a) \<times> pyfloat list" where
  "retry_loop cfg classifier rnd func last_error attempt 0 = (Inl last_error, [])"
| "retry_loop cfg classifier rnd func last_error attempt (Suc left) =
     (case func attempt of
        Inr v \<Rightarrow> (Inr v, [])
      | Inl e \<Rightarrow>
          if classifier e = PERMANENT then (Inl e, [])
          else if int attempt < rc_max_attempts cfg - 1
          then let (r, ds) = retry_loop cfg classifier rnd func e (Suc attempt) left
               in (r, calculate_delay cfg attempt (rnd attempt) # ds)
          else retry_loop cfg classifier rnd func e (Suc attempt) left)"

definition retry_execute ::
  "retry_config \<Rightarrow> (exn \<Rightarrow> error_category) \<Rightarrow> (nat \<Rightarrow> pyfloat) \<Rightarrow> (nat \<Rightarrow> exn + 'a)
    \<Rightarrow> (exn + 'a) \<times> pyfloat list" where
  "retry_execute cfg classifier rnd func =
     retry_loop cfg classifier rnd func (OtherError ''TypeError'') 0 (nat (rc_max_attempts cfg))"

lemma calculate_delay_bounds:
  assumes "0 \<le> rc_base_delay cfg" "0 \<le> rc_exponential_base cfg" "0 \<le> rc_max_delay cfg"
    and "0 \<le> rc_jitter cfg" "0 \<le> rnd" "rnd \<le> 1"
  shows "0 \<le> calculate_delay cfg n rnd" and
    "calculate_delay cfg n rnd \<le> rc_max_delay cfg * (1 + rc_jitter cfg)"
proof -
  let ?d = "min (rc_base_delay cfg * rc_exponential_base cfg ^ n) (rc_max_delay cfg)"
  have d: "0 \<le> ?d" "?d \<le> rc_max_delay cfg" using assms by simp_all
  have j: "0 \<le> rc_jitter cfg * rnd" "rc_jitter cfg * rnd \<le> rc_jitter cfg"
    using assms by (simp_all add: mult_left_le)
  have eq: "calculate_delay cfg n rnd = ?d * (1 + rc_jitter cfg * rnd)"
    by (simp add: calculate_delay_def Let_def algebra_simps)
  show "0 \<le> calculate_delay cfg n rnd" unfolding eq using d j by (intro mult_nonneg_nonneg) auto
  show "calculate_delay cfg n rnd \<le> rc_max_delay cfg * (1 + rc_jitter cfg)"
    unfolding eq using d j assms by (intro mult_mono) auto
qed

text \<open>The first success wins if every earlier failure is retryable.\<close>

lemma retry_loop_success:
  assumes "attempt + k < attempt + left" "func (attempt + k) = Inr v"
    and "\<forall>i < k. \<exists>e. func (attempt + i) = Inl e \<and> classifier e \<noteq> PERMANENT"
  shows "fst (retry_loop cfg classifier rnd func le attempt left) = Inr v"
  using assms
proof (induction k arbitrary: attempt left le)
  case 0
  then show ?case by (cases left) auto
next
  case (Suc k)
  obtain l where l: "left = Suc l" using Suc.prems(1) by (cases left) auto
  obtain e where e: "func attempt = Inl e" "classifier e \<noteq> PERMANENT" using Suc.prems(3) by fastforce
  have "fst (retry_loop cfg classifier rnd func e (Suc attempt) l) = Inr v"
    using Suc.prems l by (intro Suc.IH) (auto simp: add.commute [of attempt] dest: spec [of _ "Suc _"])
  then show ?case using e l by (simp add: case_prod_unfold)
qed

lemma retry_loop_permanent:
  assumes "k < left" "func (attempt + k) = Inl e" "classifier e = PERMANENT"
    and "\<forall>i < k. \<exists>e. func (attempt + i) = Inl e \<and> classifier e \<noteq> PERMANENT"
  shows "fst (retry_loop cfg classifier rnd func le attempt left) = Inl e"
  using assms
proof (induction k arbitrary: attempt left le)
  case 0
  then show ?case by (cases left) auto
next
  case (Suc k)
  obtain l where l: "left = Suc l" using Suc.prems(1) by (cases left) auto
  obtain e' where e': "func attempt = Inl e'" "classifier e' \<noteq> PERMANENT" using Suc.prems(4) by fastforce
  have "fst (retry_loop cfg classifier rnd func e' (Suc attempt) l) = Inl e"
    using Suc.prems l by (intro Suc.IH) (auto simp: add.commute [of attempt] dest: spec [of _ "Suc _"])
  then show ?case using e' l by (simp add: case_prod_unfold)
qed

lemma retry_loop_exhausted:
  assumes "\<forall>i < left. \<exists>e. func (attempt + i) = Inl e \<and> classifier e \<noteq> PERMANENT" and "0 < left"
  shows "fst (retry_loop cfg classifier rnd func le attempt left) = func (attempt + left - 1)"
  using assms
proof (induction left arbitrary: attempt le)
  case 0
  then show ?case by simp
next
  case (Suc l)
  obtain e where e: "func attempt = Inl e" "classifier e \<noteq> PERMANENT" using Suc.prems(1) by fastforce
  show ?case
  proof (cases l)
    case 0
    then show ?thesis using e by simp
  next
    case (Suc l')
    have "fst (retry_loop cfg classifier rnd func e (Suc attempt) l) = func (Suc attempt + l - 1)"
      using Suc.prems Suc by (intro Suc.IH) (auto dest: spec [of _ "Suc _"])
    then show ?thesis using e by (simp add: case_prod_unfold)
  qed
qed

lemma retry_loop_delays:
  assumes "int attempt + int left = rc_max_attempts cfg" and "0 < left"
  shows "length (snd (retry_loop cfg classifier rnd func le attempt left)) < left \<and>
    (\<forall>i < length (snd (retry_loop cfg classifier rnd func le attempt left)).
       snd (retry_loop cfg classifier rnd func le attempt left) ! i
         = calculate_delay cfg (attempt + i) (rnd (attempt + i)))"
  using assms
proof (induction left arbitrary: attempt le)
  case 0
  then show ?case by simp
next
  case (Suc l)
  show ?case
  proof (cases "\<exists>e. func attempt = Inl e \<and> classifier e \<noteq> PERMANENT")
    case False
    then show ?thesis by (cases "func attempt") auto
  next
    case True
    then obtain e where e: "func attempt = Inl e" "classifier e \<noteq> PERMANENT" by blast
    show ?thesis
    proof (cases "l = 0")
      case True
      then show ?thesis using e Suc.prems by simp
    next
      case False
      with Suc.prems have "int attempt < rc_max_attempts cfg - 1" by simp
      moreover note Suc.IH [of "Suc attempt" e] Suc.prems False e
      ultimately show ?thesis by (auto simp: case_prod_unfold Let_def nth_Cons' split: if_splits)
    qed
  qed
qed

section \<open>Circuit breaker\<close>

datatype circuit_state = CLOSED | OPEN | HALF_OPEN

fun circuit_value :: "circuit_state \<Rightarrow> string" where
  "circuit_value CLOSED = ''closed''"
| "circuit_value OPEN = ''open''"
| "circuit_value HALF_OPEN = ''half_open''"

record breaker_config =
  bc_failure_threshold :: int
  bc_success_threshold :: int
  bc_open_duration :: pyfloat
  bc_half_open_max :: int

definition default_breaker_config :: breaker_config where
  "default_breaker_config = \<lparr>bc_failure_threshold = 50, bc_success_threshold = 2,
     bc_open_duration = 10, bc_half_open_max = 3\<rparr>"

record breaker =
  cb_name :: string
  cb_config :: breaker_config
  cb_state :: circuit_state
  cb_failure_count :: int
  cb_success_count :: int
  cb_last_failure_time :: pyfloat
  cb_half_open_count :: int

definition breaker_init :: "string \<Rightarrow> breaker_config \<Rightarrow> breaker" where
  "breaker_init name cfg = \<lparr>cb_name = name, cb_config = cfg, cb_state = CLOSED, cb_failure_count = 0,
     cb_success_count = 0, cb_last_failure_time = 0, cb_half_open_count = 0\<rparr>"

definition breaker_acquire :: "pyfloat \<Rightarrow> breaker \<Rightarrow> bool \<times> breaker" where
  "breaker_acquire now b =
     (if cb_state b = OPEN \<and> now - cb_last_failure_time b < bc_open_duration (cb_config b)
      then (False, b)
      else
        let b1 = (if cb_state b = OPEN
                  then b\<lparr>cb_state := HALF_OPEN, cb_half_open_count := 0, cb_success_count := 0\<rparr>
                  else b)
        in if cb_state b1 = HALF_OPEN
           then if bc_half_open_max (cb_config b1) \<le> cb_half_open_count b1 then (False, b1)
                else (True, b1\<lparr>cb_half_open_count := cb_half_open_count b1 + 1\<rparr>)
           else (True, b1))"

definition breaker_success :: "breaker \<Rightarrow> breaker" where
  "breaker_success b =
     (if cb_state b = HALF_OPEN
      then let b1 = b\<lparr>cb_success_count := cb_success_count b + 1\<rparr>
           in if bc_success_threshold (cb_config b1) \<le> cb_success_count b1
              then b1\<lparr>cb_state := CLOSED, cb_failure_count := 0\<rparr>
              else b1
      else b\<lparr>cb_failure_count := 0\<rparr>)"

definition breaker_failure :: "pyfloat \<Rightarrow> breaker \<Rightarrow> breaker" where
  "breaker_failure now b =
     (let b1 = b\<lparr>cb_failure_count := cb_failure_count b + 1, cb_last_failure_time := now\<rparr>
      in if cb_state b1 = HALF_OPEN then b1\<lparr>cb_state := OPEN\<rparr>
         else if bc_failure_threshold (cb_config b1) \<le> cb_failure_count b1 then b1\<lparr>cb_state := OPEN\<rparr>
         else b1)"

lemmas breaker_defs = breaker_acquire_def breaker_success_def breaker_failure_def Let_def

text \<open>A sequence of calls on one breaker.\<close>

datatype breaker_call = Acquire pyfloat | Success | Failure pyfloat

fun breaker_step :: "breaker \<Rightarrow> breaker_call \<Rightarrow> breaker" where
  "breaker_step b (Acquire t) = snd (breaker_acquire t b)"
| "breaker_step b Success = breaker_success b"
| "breaker_step b (Failure t) = breaker_failure t b"

definition breaker_run :: "breaker \<Rightarrow> breaker_call list \<Rightarrow> breaker" where
  "breaker_run = foldl breaker_step"

lemma breaker_config_step [simp]: "cb_config (breaker_step b c) = cb_config b"
  by (cases c) (auto simp: breaker_defs)

lemma breaker_run_Nil [simp]: "breaker_run b [] = b"
  by (simp add: breaker_run_def)

lemma breaker_run_snoc [simp]: "breaker_run b (cs @ [c]) = breaker_step (breaker_run b cs) c"
  by (simp add: breaker_run_def)

lemma breaker_config_run [simp]: "cb_config (breaker_run b cs) = cb_config b"
  by (induction cs rule: rev_induct) simp_all

text \<open>
  The invariant: a closed breaker is below the failure threshold, a half-open one has
  admitted at most \<open>half_open_max\<close> probes and is below the success threshold.
\<close>

definition breaker_inv :: "breaker \<Rightarrow> bool" where
  "breaker_inv b \<longleftrightarrow> 0 \<le> cb_failure_count b \<and> 0 \<le> cb_success_count b \<and>
     (cb_state b = CLOSED \<longrightarrow> cb_failure_count b < bc_failure_threshold (cb_config b)) \<and>
     (cb_state b = HALF_OPEN \<longrightarrow> 0 \<le> cb_half_open_count b \<and>
        cb_half_open_count b \<le> bc_half_open_max (cb_config b) \<and>
        cb_success_count b < bc_success_threshold (cb_config b))"

definition breaker_config_ok :: "breaker_config \<Rightarrow> bool" where
  "breaker_config_ok c \<longleftrightarrow> 0 < bc_failure_threshold c \<and> 0 < bc_success_threshold c \<and> 0 \<le> bc_half_open_max c"

lemma breaker_inv_init: "breaker_config_ok cfg \<Longrightarrow> breaker_inv (breaker_init name cfg)"
  by (simp add: breaker_inv_def breaker_init_def breaker_config_ok_def)

lemma breaker_inv_step:
  assumes "breaker_inv b" and "breaker_config_ok (cb_config b)"
  shows "breaker_inv (breaker_step b c)"
proof (cases c)
  case (Acquire t)
  with assms show ?thesis
    by (cases "cb_state b") (auto simp: breaker_inv_def breaker_config_ok_def breaker_defs)
next
  case Success
  with assms show ?thesis
    by (cases "cb_state b") (auto simp: breaker_inv_def breaker_config_ok_def breaker_defs)
next
  case (Failure t)
  with assms show ?thesis
    by (cases "cb_state b") (auto simp: breaker_inv_def breaker_config_ok_def breaker_defs)
qed

lemma breaker_inv_run:
  "breaker_inv b \<Longrightarrow> breaker_config_ok (cb_config b) \<Longrightarrow> breaker_inv (breaker_run b cs)"
proof (induction cs rule: rev_induct)
  case (snoc c cs)
  then show ?case
    using breaker_inv_step [of "breaker_run b cs" c] by simp
qed simp

section \<open>When a closed breaker trips\<close>

text \<open>
  Recording outcomes on a fresh breaker: it is open exactly when \<open>failure_threshold\<close>
  failures came in a row.
\<close>

definition is_failure :: "breaker_call \<Rightarrow> bool" where
  "is_failure c = (case c of Failure _ \<Rightarrow> True | _ \<Rightarrow> False)"

definition failure_streak :: "breaker_call list \<Rightarrow> nat" where
  "failure_streak cs = length (takeWhile is_failure (rev cs))"

definition has_streak :: "nat \<Rightarrow> breaker_call list \<Rightarrow> bool" where
  "has_streak n cs \<longleftrightarrow> (\<exists>k \<le> length cs. n \<le> failure_streak (take k cs))"

lemma has_streak_snoc: "has_streak n (cs @ [c]) \<longleftrightarrow> has_streak n cs \<or> n \<le> failure_streak (cs @ [c])"
proof
  assume "has_streak n (cs @ [c])"
  then obtain k where k: "k \<le> Suc (length cs)" "n \<le> failure_streak (take k (cs @ [c]))"
    by (auto simp: has_streak_def)
  show "has_streak n cs \<or> n \<le> failure_streak (cs @ [c])"
  proof (cases "k \<le> length cs")
    case True
    with k(2) have "n \<le> failure_streak (take k cs)" by simp
    with True show ?thesis by (auto simp: has_streak_def)
  next
    case False
    with k have "take k (cs @ [c]) = cs @ [c]" by simp
    with k(2) show ?thesis by simp
  qed
next
  assume "has_streak n cs \<or> n \<le> failure_streak (cs @ [c])"
  then show "has_streak n (cs @ [c])"
  proof
    assume "has_streak n cs"
    then obtain k where "k \<le> length cs" "n \<le> failure_streak (take k cs)" by (auto simp: has_streak_def)
    then have "k \<le> length (cs @ [c])" "n \<le> failure_streak (take k (cs @ [c]))" by simp_all
    then show ?thesis unfolding has_streak_def by blast
  next
    assume "n \<le> failure_streak (cs @ [c])"
    then show ?thesis unfolding has_streak_def by (intro exI [of _ "length (cs @ [c])"]) simp
  qed
qed

lemma breaker_trip_state:
  assumes "0 < bc_failure_threshold cfg" and "\<forall>c \<in> set cs. \<forall>t. c \<noteq> Acquire t"
  shows "cb_state (breaker_run (breaker_init name cfg) cs) =
      (if has_streak (nat (bc_failure_threshold cfg)) cs then OPEN else CLOSED) \<and>
    (\<not> has_streak (nat (bc_failure_threshold cfg)) cs \<longrightarrow>
      cb_failure_count (breaker_run (breaker_init name cfg) cs) = int (failure_streak cs))"
  using assms(2)
proof (induction cs rule: rev_induct)
  case Nil
  then show ?case using assms(1)
    by (simp add: breaker_init_def has_streak_def failure_streak_def)
next
  case (snoc c cs)
  let ?n = "nat (bc_failure_threshold cfg)"
  let ?b = "breaker_run (breaker_init name cfg) cs"
  have cfg: "cb_config ?b = cfg" by (simp add: breaker_init_def)
  have step: "breaker_run (breaker_init name cfg) (cs @ [c]) = breaker_step ?b c"
    by simp
  have IH: "cb_state ?b = (if has_streak ?n cs then OPEN else CLOSED)"
    "\<not> has_streak ?n cs \<Longrightarrow> cb_failure_count ?b = int (failure_streak cs)"
    using snoc by auto
  show ?case
  proof (cases c)
    case (Acquire t)
    then show ?thesis using snoc.prems by auto
  next
    case Success
    then have "failure_streak (cs @ [c]) = 0" by (simp add: failure_streak_def is_failure_def)
    with IH assms(1) Success show ?thesis
      unfolding step has_streak_snoc by (simp add: breaker_success_def)
  next
    case (Failure t)
    then have "failure_streak (cs @ [c]) = Suc (failure_streak cs)"
      by (simp add: failure_streak_def is_failure_def)
    with IH cfg Failure show ?thesis
      unfolding step has_streak_snoc by (auto simp: breaker_failure_def Let_def nat_le_iff)
  qed
qed

end
