(* ===== verification/Global_Controller.thy ===== *)
theory Global_Controller
  imports Placement Scaler Resilience
begin

text \<open>
  \<open>src/src/controller/cluster/global_controller.py\<close>: the operations of \<open>GlobalController\<close>.

  A coroutine runs without interruption from one point where it really suspends (a
  network call, a sleep) to the next: the locks of the registry, of a breaker and of the
  idempotency cache are never held across such a point, so taking them does not suspend.
  Every operation below is such a segment, and the state a coroutine keeps between two
  segments is a \<open>request_task\<close>. The answer of a node to \<open>session.post\<close> is an argument of
  the segment that follows it.
\<close>

section \<open>State\<close>

record controller_config =
  gc_min_active_nodes :: int
  gc_max_active_nodes :: int
  gc_node_scale_up_threshold :: int
  gc_node_scale_down_delay :: pyfloat
  gc_heartbeat_timeout :: pyfloat
  gc_max_queue_size :: int
  gc_retry_max_attempts :: int
  gc_retry_base_delay :: pyfloat
  gc_forward_max_attempts :: int
  gc_latency_buffer_max :: int
  gc_per_node_latency_buffer_max :: int
  gc_scale_up_wait_timeout :: pyfloat
  gc_scale_up_poll_interval :: pyfloat

definition default_controller_config :: controller_config where
  "default_controller_config = \<lparr>gc_min_active_nodes = 0, gc_max_active_nodes = 10,
     gc_node_scale_up_threshold = 1, gc_node_scale_down_delay = 300, gc_heartbeat_timeout = 30,
     gc_max_queue_size = 1000, gc_retry_max_attempts = 3, gc_retry_base_delay = 1/2,
     gc_forward_max_attempts = 2, gc_latency_buffer_max = 1000, gc_per_node_latency_buffer_max = 200,
     gc_scale_up_wait_timeout = 60, gc_scale_up_poll_interval = 1/5\<rparr>"

record 'r controller =
  g_config :: controller_config
  g_registry :: registry
  g_model_config :: cluster_model_config
  g_placement :: policy
  g_retry_config :: retry_config
  g_node_circuits :: "(string, breaker) dict"
  g_idempotency_cache :: "(string, pyfloat \<times> 'r) dict"
  g_pending_requests :: int
  g_inflight_per_node :: "(string, int) dict"
  g_total_requests :: int
  g_completed_requests :: int
  g_failed_requests :: int
  g_requests_last_minute :: "pyfloat list"
  g_latency_buffer :: "pyfloat list"
  g_per_node_latency :: "(string, pyfloat list) dict"
  g_per_node_completed :: "(string, int) dict"
  g_per_node_errors :: "(string, int) dict"

definition idempotency_ttl :: pyfloat where
  "idempotency_ttl = 3600"

text \<open>\<open>GlobalController(config, model_config)\<close> with a given placement policy.\<close>

definition controller_init :: "controller_config \<Rightarrow> cluster_model_config \<Rightarrow> policy \<Rightarrow> 'r controller" where
  "controller_init cfg mc p = \<lparr>g_config = cfg, g_registry = registry_init, g_model_config = mc, g_placement = p,
     g_retry_config = default_retry_config\<lparr>rc_max_attempts := gc_retry_max_attempts cfg,
        rc_base_delay := gc_retry_base_delay cfg\<rparr>,
     g_node_circuits = [], g_idempotency_cache = [], g_pending_requests = 0, g_inflight_per_node = [],
     g_total_requests = 0, g_completed_requests = 0, g_failed_requests = 0, g_requests_last_minute = [],
     g_latency_buffer = [], g_per_node_latency = [], g_per_node_completed = [], g_per_node_errors = []\<rparr>"

definition bump :: "string \<Rightarrow> (string, int) dict \<Rightarrow> (string, int) dict" where
  "bump k d = AList.update k (dict_get d k 0 + 1) d"

section \<open>Latency statistics\<close>

text \<open>\<open>buf[-m:]\<close>: the last \<open>m\<close> entries, but the whole list for \<open>m = 0\<close>.\<close>

definition slice_last :: "int \<Rightarrow> 'a list \<Rightarrow> 'a list" where
  "slice_last m xs =
     (if m = 0 then xs else if 0 < m then drop (length xs - nat m) xs else drop (nat (- m)) xs)"

definition push_latency :: "int \<Rightarrow> pyfloat \<Rightarrow> pyfloat list \<Rightarrow> pyfloat list" where
  "push_latency m x buf = (let b = buf @ [x] in if m < int (length b) then slice_last m b else b)"

definition record_latency :: "pyfloat \<Rightarrow> string \<Rightarrow> 'r controller \<Rightarrow> 'r controller" where
  "record_latency latency_ms node_id s =
     (let s1 = s\<lparr>g_latency_buffer := push_latency (gc_latency_buffer_max (g_config s)) latency_ms (g_latency_buffer s)\<rparr>
      in if node_id \<noteq> []
         then s1\<lparr>g_per_node_latency := AList.update node_id
                (push_latency (gc_per_node_latency_buffer_max (g_config s)) latency_ms
                   (dict_get (g_per_node_latency s) node_id [])) (g_per_node_latency s)\<rparr>
         else s1)"

record percentiles =
  pc_p50 :: pyfloat
  pc_p90 :: pyfloat
  pc_p99 :: pyfloat
  pc_count :: nat

text \<open>An index past the end would be an \<open>IndexError\<close>.\<close>

definition py_nth :: "'a list \<Rightarrow> nat \<Rightarrow> py_error + 'a" where
  "py_nth xs i = (if i < length xs then Inr (xs ! i) else Inl IndexError)"

definition percentiles_from :: "pyfloat list \<Rightarrow> py_error + percentiles" where
  "percentiles_from buffer =
     (if buffer = [] then Inr \<lparr>pc_p50 = 0, pc_p90 = 0, pc_p99 = 0, pc_count = 0\<rparr>
      else let s = sort buffer; n = length s
           in case (py_nth s (n div 2), py_nth s (nat (py_int (of_nat n * (9/10)))),
                    py_nth s (nat (py_int (of_nat n * (99/100))))) of
                (Inr a, Inr b, Inr c) \<Rightarrow> Inr \<lparr>pc_p50 = a, pc_p90 = b, pc_p99 = c, pc_count = n\<rparr>
              | _ \<Rightarrow> Inl IndexError)"

definition compute_percentiles :: "'r controller \<Rightarrow> py_error + percentiles" where
  "compute_percentiles s = percentiles_from (g_latency_buffer s)"

section \<open>Node management endpoints\<close>

definition status_of_string :: "string \<Rightarrow> node_status" where
  "status_of_string v =
     (if v = ''idle'' then IDLE else if v = ''starting'' then STARTING else if v = ''active'' then ACTIVE
      else if v = ''draining'' then DRAINING else if v = ''failed'' then FAILED else ACTIVE)"

definition register_node_endpoint ::
  "pyfloat \<Rightarrow> string \<Rightarrow> node_spec \<Rightarrow> string option \<Rightarrow> 'r controller \<Rightarrow> 'r controller" where
  "register_node_endpoint now node_id spec base_model s =
     (let s1 = s\<lparr>g_registry := register_node now node_id spec (g_registry s)\<rparr>
      in if truthy base_model
         then s1\<lparr>g_registry := set_node_base_model node_id (the base_model) None (g_registry s1),
                 g_model_config := assign_node_to_base_model (g_model_config s1) node_id (the base_model)\<rparr>
         else s1)"

definition unregister_node_endpoint :: "string \<Rightarrow> 'r controller \<Rightarrow> 'r controller" where
  "unregister_node_endpoint node_id s =
     (let s1 = (case get_node (g_registry s) node_id of
                  None \<Rightarrow> s
                | Some n \<Rightarrow>
                    if truthy (ni_base_model n)
                    then s\<lparr>g_model_config := remove_node_from_base_model (g_model_config s) node_id (the (ni_base_model n))\<rparr>
                    else s)
      in s1\<lparr>g_registry := unregister_node node_id (g_registry s1)\<rparr>)"

definition node_heartbeat_endpoint ::
  "pyfloat \<Rightarrow> string \<Rightarrow> string \<Rightarrow> heartbeat \<Rightarrow> string option \<Rightarrow> 'r controller \<Rightarrow> 'r controller" where
  "node_heartbeat_endpoint now node_id status h base_model s =
     (let r1 = update_node_status now node_id (status_of_string status) (g_registry s);
          r2 = update_node_heartbeat now node_id h r1;
          r3 = (if truthy base_model then set_node_base_model node_id (the base_model) None r2 else r2)
      in s\<lparr>g_registry := r3\<rparr>)"

section \<open>Tier 2 scaling\<close>

text \<open>
  \<open>_scale_up_node\<close> up to its network call: pick an idle node, mark it STARTING and give
  it the base model. The result is the id of the node being launched.
\<close>

definition scale_up_begin ::
  "pyfloat \<Rightarrow> string option \<Rightarrow> 'r controller \<Rightarrow> py_error + (string option \<times> 'r controller)" where
  "scale_up_begin now base_model s =
     (case policy_scale_up (g_registry s) base_model (g_placement s) of
        Inl e \<Rightarrow> Inl e
      | Inr None \<Rightarrow> Inr (None, s)
      | Inr (Some n) \<Rightarrow>
          let node_id = ni_node_id n;
              model_id = (if truthy base_model
                          then map_option bm_model_id (get_base_model_config (g_model_config s) (the base_model))
                          else None);
              s1 = s\<lparr>g_registry := update_node_status now node_id STARTING (g_registry s)\<rparr>;
              s2 = (if truthy base_model
                    then s1\<lparr>g_registry := set_node_base_model node_id (the base_model) model_id (g_registry s1),
                            g_model_config := assign_node_to_base_model (g_model_config s1) node_id (the base_model)\<rparr>
                    else s1)
          in Inr (Some node_id, s2))"

text \<open>What the launch call comes back with, and what follows it.\<close>

datatype launch_reply = Launched | Refused | BadJson | LaunchExn

definition scale_up_finish ::
  "pyfloat \<Rightarrow> string \<Rightarrow> launch_reply \<Rightarrow> 'r controller \<Rightarrow> node_info option \<times> 'r controller" where
  "scale_up_finish now node_id reply s =
     (case reply of
        Launched \<Rightarrow>
          let s1 = s\<lparr>g_registry := update_node_status now node_id ACTIVE (g_registry s)\<rparr>
          in (get_node (g_registry s1) node_id, s1)
      | _ \<Rightarrow> (None, s\<lparr>g_registry := update_node_status now node_id FAILED (g_registry s)\<rparr>))"

definition scale_down_begin :: "pyfloat \<Rightarrow> string \<Rightarrow> 'r controller \<Rightarrow> bool \<times> 'r controller" where
  "scale_down_begin now node_id s =
     (case get_node (g_registry s) node_id of
        None \<Rightarrow> (False, s)
      | Some n \<Rightarrow> (True, s\<lparr>g_registry := update_node_status now node_id DRAINING (g_registry s)\<rparr>))"

text \<open>\<open>stopped\<close>: the node answered 200. Any other status and any exception mark it FAILED.\<close>

definition scale_down_finish :: "pyfloat \<Rightarrow> string \<Rightarrow> bool \<Rightarrow> 'r controller \<Rightarrow> 'r controller" where
  "scale_down_finish now node_id stopped s =
     s\<lparr>g_registry := update_node_status now node_id (if stopped then IDLE else FAILED) (g_registry s)\<rparr>"

definition default_base_model :: "'r controller \<Rightarrow> string option" where
  "default_base_model s = (case list_base_models (g_model_config s) of [] \<Rightarrow> None | b # _ \<Rightarrow> Some b)"

definition scaling_snapshot :: "'r controller \<Rightarrow> cluster_snapshot" where
  "scaling_snapshot s = \<lparr>
     sn_num_active_nodes = int (length (get_active_nodes (g_registry s))),
     sn_num_idle_nodes = int (length (get_idle_nodes (g_registry s))),
     sn_min_active_nodes = gc_min_active_nodes (g_config s),
     sn_max_active_nodes = gc_max_active_nodes (g_config s),
     sn_pending_requests = g_pending_requests s,
     sn_default_base_model = default_base_model s\<rparr>"

definition scaling_decisions :: "pyfloat \<Rightarrow> 'r controller \<Rightarrow> scaling_decision list" where
  "scaling_decisions now s =
     make_scaling_decisions (gc_node_scale_up_threshold (g_config s)) (scaling_snapshot s)
       (map ni_node_id (get_drainable_nodes now (gc_node_scale_down_delay (g_config s)) (g_registry s)))"

text \<open>
  \<open>asyncio.gather(*coros, return_exceptions=True)\<close>: each scale-up runs up to its network
  call before the next one starts; an exception ends only the scale-up that raised it.
\<close>

fun begin_scale_ups ::
  "pyfloat \<Rightarrow> string option \<Rightarrow> scaling_decision list \<Rightarrow> 'r controller \<Rightarrow> string list \<times> 'r controller" where
  "begin_scale_ups now default_base [] s = ([], s)"
| "begin_scale_ups now default_base (d # ds) s =
     (let bm = (if truthy (sd_base_model d) then sd_base_model d else default_base)
      in case scale_up_begin now bm s of
           Inr (Some node_id, s1) \<Rightarrow>
             let (ids, s2) = begin_scale_ups now default_base ds s1 in (node_id # ids, s2)
         | Inr (None, s1) \<Rightarrow> begin_scale_ups now default_base ds s1
         | Inl e \<Rightarrow> begin_scale_ups now default_base ds s)"

text \<open>
  One pass of \<open>_make_scaling_decision\<close> up to its first suspension: the nodes being
  launched, and the scale-downs that follow when all launches are answered.
\<close>

definition make_scaling_decision :: "pyfloat \<Rightarrow> 'r controller \<Rightarrow> string list \<times> string list \<times> 'r controller" where
  "make_scaling_decision now s =
     (let decisions = scaling_decisions now s;
          (launching, s1) = begin_scale_ups now (default_base_model s) (scale_ups decisions) s;
          stops = List.map_filter sd_node_id (scale_downs decisions)
      in (launching, filter (\<lambda>n. n \<noteq> []) stops, s1))"

section \<open>Health monitoring\<close>

definition recover_node :: "pyfloat \<Rightarrow> pyfloat \<Rightarrow> node_info \<Rightarrow> node_info" where
  "recover_node now timeout n =
     (if ni_status n \<noteq> FAILED then n
      else if now - ni_last_heartbeat n < timeout
      then n\<lparr>ni_status := (case ni_aggregator_pid n of
                              Some pid \<Rightarrow> if pid \<noteq> 0 then ACTIVE else IDLE
                            | None \<Rightarrow> IDLE)\<rparr>
      else n)"

definition recover_failed_nodes :: "pyfloat \<Rightarrow> 'r controller \<Rightarrow> 'r controller" where
  "recover_failed_nodes now s =
     s\<lparr>g_registry := (g_registry s)\<lparr>rg_nodes :=
        map (\<lambda>(k, n). (k, recover_node now (gc_heartbeat_timeout (g_config s)) n)) (rg_nodes (g_registry s))\<rparr>\<rparr>"

text \<open>One iteration of \<open>_health_monitor_loop\<close>, which does not suspend.\<close>

definition mark_stale :: "pyfloat \<Rightarrow> 'r controller \<Rightarrow> 'r controller" where
  "mark_stale now s =
     s\<lparr>g_registry := foldl (\<lambda>r n. update_node_status now (ni_node_id n) FAILED r) (g_registry s)
        (get_stale_nodes now (gc_heartbeat_timeout (g_config s)) (g_registry s))\<rparr>"

definition sync_circuits :: "'r controller \<Rightarrow> 'r controller" where
  "sync_circuits s =
     s\<lparr>g_registry := foldl (\<lambda>r (node_id, c). update_node_error_state node_id (circuit_value (cb_state c)) r)
        (g_registry s) (g_node_circuits s)\<rparr>"

definition health_monitor_pass :: "pyfloat \<Rightarrow> 'r controller \<Rightarrow> 'r controller" where
  "health_monitor_pass now s = recover_failed_nodes now (sync_circuits (mark_stale now s))"

section \<open>Idempotency cache and metrics\<close>

definition idempotency_cleanup :: "pyfloat \<Rightarrow> 'r controller \<Rightarrow> 'r controller" where
  "idempotency_cleanup now s =
     (let expired = map fst (filter (\<lambda>(k, ts, _). idempotency_ttl < now - ts) (g_idempotency_cache s))
      in s\<lparr>g_idempotency_cache := foldl (\<lambda>c k. AList.delete k c) (g_idempotency_cache s) expired\<rparr>)"

record node_metrics =
  nm_completed :: int
  nm_errors :: int
  nm_circuit_state :: string
  nm_inflight :: int
  nm_latency :: "py_error + percentiles"

record cluster_metrics =
  mx_summary :: cluster_summary
  mx_total_workers :: int
  mx_pending_requests :: int
  mx_total_requests :: int
  mx_completed_requests :: int
  mx_failed_requests :: int
  mx_requests_per_second :: pyfloat
  mx_latency :: "py_error + percentiles"
  mx_per_node :: "(string, node_metrics) dict"

definition node_metrics_of :: "'r controller \<Rightarrow> string \<Rightarrow> node_metrics" where
  "node_metrics_of s node_id = \<lparr>
     nm_completed = dict_get (g_per_node_completed s) node_id 0,
     nm_errors = dict_get (g_per_node_errors s) node_id 0,
     nm_circuit_state = (case map_of (g_node_circuits s) node_id of
        Some c \<Rightarrow> circuit_value (cb_state c) | None \<Rightarrow> ''closed''),
     nm_inflight = dict_get (g_inflight_per_node s) node_id 0,
     nm_latency = percentiles_from (dict_get (g_per_node_latency s) node_id [])\<rparr>"

definition get_metrics :: "pyfloat \<Rightarrow> 'r controller \<Rightarrow> cluster_metrics \<times> 'r controller" where
  "get_metrics now s =
     (let state = get_cluster_state now (g_registry s);
          s1 = s\<lparr>g_requests_last_minute := filter (\<lambda>t. now - t < 60) (g_requests_last_minute s)\<rparr>;
          rps = of_nat (length (g_requests_last_minute s1)) / 60;
          total_workers = sum_list (map (\<lambda>(n, _). ni_active_workers n) (dict_values (cs_nodes state)));
          all_node_ids = remdups (dict_keys (g_per_node_completed s1) @ dict_keys (g_per_node_errors s1) @
            dict_keys (g_inflight_per_node s1) @ dict_keys (g_per_node_latency s1))
      in (\<lparr>mx_summary = cs_summary state, mx_total_workers = total_workers,
           mx_pending_requests = g_pending_requests s1, mx_total_requests = g_total_requests s1,
           mx_completed_requests = g_completed_requests s1, mx_failed_requests = g_failed_requests s1,
           mx_requests_per_second = rps, mx_latency = compute_percentiles s1,
           mx_per_node = map (\<lambda>node_id. (node_id, node_metrics_of s1 node_id)) all_node_ids\<rparr>, s1))"

end
