(* ===== verification/Global_Requests.thy ===== *)
theory Global_Requests
  imports Global_Controller
begin

text \<open>
  The life of one request in \<open>src/src/controller/cluster/global_controller.py\<close>
  (\<open>_handle_inference\<close>, \<open>_get_node_for_request\<close>, \<open>_forward_to_node\<close>), cut at the points
  where it suspends, and the interleaving of many of them with the background activities
  as a step relation.
\<close>

section \<open>A request in flight\<close>

text \<open>
  Where a request is suspended: about to look for a node, waiting for the node it is
  launching, sleeping with \<open>k\<close> polls left, or waiting for a node's answer.
\<close>

datatype phase = SEEK | SCALING string | WAIT nat | FORWARD string

record request_task =
  t_adapter :: string
  t_key :: "string option"
  t_attempt :: nat
  t_tried :: "string pyset"
  t_phase :: phase

text \<open>
  What the client gets: a cached result, an HTTP error (503 queue full, 503 no node, 502),
  a result, or an exception that escapes (\<open>Raised\<close>; \<open>Cancelled\<close> when the task is cancelled).
\<close>

datatype 'r reply =
    Cached 'r | QueueFull | NoNode | Answered 'r | BadGateway | Raised py_error | Cancelled

datatype 'r progress = Running request_task | Finished "'r reply"

text \<open>The \<open>finally\<close> clause.\<close>

definition release_node :: "(string, int) dict \<Rightarrow> string \<Rightarrow> (string, int) dict" where
  "release_node d nid = AList.update nid (max 0 (dict_get d nid 1 - 1)) d"

definition request_finally :: "request_task \<Rightarrow> 'r controller \<Rightarrow> 'r controller" where
  "request_finally t s = s\<lparr>g_pending_requests := g_pending_requests s - 1,
     g_inflight_per_node := foldl release_node (g_inflight_per_node s) (t_tried t)\<rparr>"

definition finish :: "request_task \<Rightarrow> 'r reply \<Rightarrow> 'r controller \<Rightarrow> 'r progress \<times> 'r controller" where
  "finish t rep s = (Finished rep, request_finally t s)"

definition count_failed :: "'r controller \<Rightarrow> 'r controller" where
  "count_failed s = s\<lparr>g_failed_requests := g_failed_requests s + 1\<rparr>"

text \<open>The end of the body of the loop over attempts, and the code after the loop.\<close>

definition next_attempt :: "request_task \<Rightarrow> nat \<Rightarrow> 'r controller \<Rightarrow> 'r progress \<times> 'r controller" where
  "next_attempt t i s =
     (if int i < gc_forward_max_attempts (g_config s)
      then (Running (t\<lparr>t_attempt := i, t_phase := SEEK\<rparr>), s)
      else finish t BadGateway (count_failed s))"

section \<open>Arrival\<close>

definition cached_reply :: "pyfloat \<Rightarrow> string option \<Rightarrow> 'r controller \<Rightarrow> 'r option" where
  "cached_reply now key s =
     (if truthy key
      then (case map_of (g_idempotency_cache s) (the key) of
              None \<Rightarrow> None
            | Some (ts, r) \<Rightarrow> if now - ts < idempotency_ttl then Some r else None)
      else None)"

definition new_task :: "string \<Rightarrow> string option \<Rightarrow> request_task" where
  "new_task adapter key = \<lparr>t_adapter = adapter, t_key = key, t_attempt = 0, t_tried = [], t_phase = SEEK\<rparr>"

definition handle_arrival ::
  "pyfloat \<Rightarrow> string \<Rightarrow> string option \<Rightarrow> 'r controller \<Rightarrow> 'r progress \<times> 'r controller" where
  "handle_arrival now adapter key s =
     (case cached_reply now key s of
        Some r \<Rightarrow> (Finished (Cached r), s)
      | None \<Rightarrow>
          if gc_max_queue_size (g_config s) \<le> g_pending_requests s then (Finished QueueFull, s)
          else
            let s1 = s\<lparr>g_total_requests := g_total_requests s + 1,
                       g_pending_requests := g_pending_requests s + 1,
                       g_requests_last_minute := g_requests_last_minute s @ [now]\<rparr>
            in next_attempt (new_task adapter key) 0 s1)"

section \<open>Forwarding to a node\<close>

definition get_circuit :: "string \<Rightarrow> 'r controller \<Rightarrow> breaker" where
  "get_circuit node_id s =
     dict_get (g_node_circuits s) node_id (breaker_init (''node:'' @ node_id) default_breaker_config)"

definition set_circuit :: "string \<Rightarrow> breaker \<Rightarrow> 'r controller \<Rightarrow> 'r controller" where
  "set_circuit node_id b s = s\<lparr>g_node_circuits := AList.update node_id b (g_node_circuits s)\<rparr>"

text \<open>The handler of an error of the forward call.\<close>

definition forward_error :: "request_task \<Rightarrow> string \<Rightarrow> 'r controller \<Rightarrow> 'r progress \<times> 'r controller" where
  "forward_error t node_id s =
     (let s1 = s\<lparr>g_per_node_errors := bump node_id (g_per_node_errors s)\<rparr>
      in if t_attempt t = 0 then next_attempt t 1 s1
         else finish t BadGateway (count_failed s1))"

text \<open>
  From the moment a node is found: it is marked as tried and in flight, the request is
  recorded, and the breaker is asked. A refusal raises at once.
\<close>

definition take_node ::
  "pyfloat \<Rightarrow> request_task \<Rightarrow> string \<Rightarrow> 'r controller \<Rightarrow> 'r progress \<times> 'r controller" where
  "take_node now t node_id s =
     (let t1 = t\<lparr>t_tried := set_add node_id (t_tried t)\<rparr>;
          s1 = s\<lparr>g_inflight_per_node := bump node_id (g_inflight_per_node s),
                 g_registry := registry_record_request now node_id (t_adapter t) (g_registry s)\<rparr>;
          (granted, b) = breaker_acquire now (get_circuit node_id s1);
          s2 = set_circuit node_id b s1
      in if granted then (Running (t1\<lparr>t_phase := FORWARD node_id\<rparr>), s2)
         else forward_error t1 node_id s2)"

text \<open>
  The answer of \<open>self._retry.execute(do_forward)\<close>: its value, or the error it raises;
  \<open>latency_ms\<close> is the measured time.
\<close>

definition forward_finish ::
  "pyfloat \<Rightarrow> pyfloat \<Rightarrow> exn + 'r \<Rightarrow> request_task \<Rightarrow> string \<Rightarrow> 'r controller \<Rightarrow> 'r progress \<times> 'r controller" where
  "forward_finish now latency_ms result t node_id s =
     (case result of
        Inl e \<Rightarrow> forward_error t node_id (set_circuit node_id (breaker_failure now (get_circuit node_id s)) s)
      | Inr r \<Rightarrow>
          let s1 = set_circuit node_id (breaker_success (get_circuit node_id s)) s;
              s2 = record_latency latency_ms node_id s1;
              s3 = s2\<lparr>g_per_node_completed := bump node_id (g_per_node_completed s2),
                      g_completed_requests := g_completed_requests s2 + 1\<rparr>;
              s4 = (if truthy (t_key t)
                    then s3\<lparr>g_idempotency_cache := AList.update (the (t_key t)) (now, r) (g_idempotency_cache s3)\<rparr>
                    else s3)
          in finish t (Answered r) s4)"

section \<open>Looking for a node\<close>

text \<open>One call of the placement policy, excluding the nodes already tried.\<close>

definition select_node :: "request_task \<Rightarrow> 'r controller \<Rightarrow> string option \<times> 'r controller" where
  "select_node t s =
     (let (found, p) = policy_select (g_registry s) (Some (g_model_config s)) (t_adapter t)
                         (g_inflight_per_node s) (g_placement s);
          s1 = s\<lparr>g_placement := p\<rparr>
      in case found of
           Some n \<Rightarrow> if ni_node_id n \<notin> set (t_tried t) then (Some (ni_node_id n), s1) else (None, s1)
         | None \<Rightarrow> (None, s1))"

text \<open>No node after the last poll.\<close>

definition no_node :: "request_task \<Rightarrow> 'r controller \<Rightarrow> 'r progress \<times> 'r controller" where
  "no_node t s =
     (if t_attempt t = 0 then finish t NoNode (count_failed s)
      else finish t BadGateway (count_failed s))"

text \<open>\<open>int(scale_up_wait_timeout / scale_up_poll_interval)\<close> polls; \<open>range\<close> of a negative number is empty.\<close>

definition start_wait :: "request_task \<Rightarrow> 'r controller \<Rightarrow> 'r progress \<times> 'r controller" where
  "start_wait t s =
     (let cfg = g_config s
      in if gc_scale_up_poll_interval cfg = 0 then finish t (Raised ZeroDivisionError) s
         else let k = nat (py_int (gc_scale_up_wait_timeout cfg / gc_scale_up_poll_interval cfg))
              in if k = 0 then no_node t s else (Running (t\<lparr>t_phase := WAIT k\<rparr>), s))"

definition seek_node :: "pyfloat \<Rightarrow> request_task \<Rightarrow> 'r controller \<Rightarrow> 'r progress \<times> 'r controller" where
  "seek_node now t s =
     (case select_node t s of
        (Some node_id, s1) \<Rightarrow> take_node now t node_id s1
      | (None, s1) \<Rightarrow>
          (case select_node t s1 of
             (Some node_id, s2) \<Rightarrow> take_node now t node_id s2
           | (None, s2) \<Rightarrow>
               if int (length (get_active_nodes (g_registry s2))) < gc_max_active_nodes (g_config s2)
               then (case scale_up_begin now (placement_base_model (Some (g_model_config s2)) (t_adapter t)) s2 of
                       Inl e \<Rightarrow> finish t (Raised e) s2
                     | Inr (Some node_id, s3) \<Rightarrow> (Running (t\<lparr>t_phase := SCALING node_id\<rparr>), s3)
                     | Inr (None, s3) \<Rightarrow> start_wait t s3)
               else start_wait t s2))"

definition scaling_finish ::
  "pyfloat \<Rightarrow> launch_reply \<Rightarrow> request_task \<Rightarrow> string \<Rightarrow> 'r controller \<Rightarrow> 'r progress \<times> 'r controller" where
  "scaling_finish now reply t node_id s =
     (case scale_up_finish now node_id reply s of
        (Some n, s1) \<Rightarrow>
          if ni_node_id n \<notin> set (t_tried t) then take_node now t (ni_node_id n) s1 else start_wait t s1
      | (None, s1) \<Rightarrow> start_wait t s1)"

definition poll_node :: "pyfloat \<Rightarrow> request_task \<Rightarrow> nat \<Rightarrow> 'r controller \<Rightarrow> 'r progress \<times> 'r controller" where
  "poll_node now t k s =
     (case select_node t s of
        (Some node_id, s1) \<Rightarrow> take_node now t node_id s1
      | (None, s1) \<Rightarrow> if k \<le> 1 then no_node t s1 else (Running (t\<lparr>t_phase := WAIT (k - 1)\<rparr>), s1))"

section \<open>One step of a request\<close>

text \<open>
  What resumes a suspended request: the scheduler (\<open>Go\<close>), the answer to a launch, the
  answer to a forward, or a cancellation.
\<close>

datatype 'r wake = Go | LaunchReply launch_reply | ForwardReply pyfloat "exn + 'r" | Cancel

fun request_step :: "pyfloat \<Rightarrow> 'r wake \<Rightarrow> request_task \<Rightarrow> 'r controller \<Rightarrow> ('r progress \<times> 'r controller) option" where
  "request_step now w t s =
     (case (w, t_phase t) of
        (Cancel, _) \<Rightarrow> Some (finish t Cancelled s)
      | (Go, SEEK) \<Rightarrow> Some (seek_node now t s)
      | (Go, WAIT k) \<Rightarrow> Some (poll_node now t k s)
      | (LaunchReply rep, SCALING nid) \<Rightarrow> Some (scaling_finish now rep t nid s)
      | (ForwardReply ms res, FORWARD nid) \<Rightarrow> Some (forward_finish now ms res t nid s)
      | _ \<Rightarrow> None)"

declare request_step.simps [simp del]

section \<open>Everything else that changes the controller\<close>

datatype background =
    NodeRegister pyfloat string node_spec "string option"
  | NodeUnregister string
  | NodeHeartbeat pyfloat string string heartbeat "string option"
  | ScaleUpBegin pyfloat "string option"
  | ScaleUpReply pyfloat string launch_reply
  | AutoScale pyfloat
  | ScaleDownBegin pyfloat string
  | ScaleDownReply pyfloat string bool
  | HealthPass pyfloat
  | CacheCleanup pyfloat
  | ReadMetrics pyfloat

fun background_step :: "background \<Rightarrow> 'r controller \<Rightarrow> 'r controller" where
  "background_step (NodeRegister now nid spec b) s = register_node_endpoint now nid spec b s"
| "background_step (NodeUnregister nid) s = unregister_node_endpoint nid s"
| "background_step (NodeHeartbeat now nid st h b) s = node_heartbeat_endpoint now nid st h b s"
| "background_step (ScaleUpBegin now b) s = (case scale_up_begin now b s of Inl e \<Rightarrow> s | Inr (_, s1) \<Rightarrow> s1)"
| "background_step (ScaleUpReply now nid rep) s = snd (scale_up_finish now nid rep s)"
| "background_step (AutoScale now) s = snd (snd (make_scaling_decision now s))"
| "background_step (ScaleDownBegin now nid) s = snd (scale_down_begin now nid s)"
| "background_step (ScaleDownReply now nid ok) s = scale_down_finish now nid ok s"
| "background_step (HealthPass now) s = health_monitor_pass now s"
| "background_step (CacheCleanup now) s = idempotency_cleanup now s"
| "background_step (ReadMetrics now) s = snd (get_metrics now s)"

section \<open>The system\<close>

text \<open>
  The controller, the requests in flight by number, and the log of the replies given,
  which the code does not keep.
\<close>

record 'r system =
  y_controller :: "'r controller"
  y_tasks :: "(nat, request_task) dict"
  y_replies :: "'r reply list"

definition settle ::
  "nat \<Rightarrow> 'r progress \<times> 'r controller \<Rightarrow> 'r system \<Rightarrow> 'r system" where
  "settle tid out y =
     (case out of
        (Running t, s) \<Rightarrow> y\<lparr>y_controller := s, y_tasks := AList.update tid t (y_tasks y)\<rparr>
      | (Finished rep, s) \<Rightarrow> y\<lparr>y_controller := s, y_tasks := AList.delete tid (y_tasks y),
          y_replies := y_replies y @ [rep]\<rparr>)"

inductive gstep :: "'r system \<Rightarrow> 'r system \<Rightarrow> bool" where
  Arrive: "tid \<notin> set (dict_keys (y_tasks y)) \<Longrightarrow>
     gstep y (settle tid (handle_arrival now adapter key (y_controller y)) y)"
| Request: "map_of (y_tasks y) tid = Some t \<Longrightarrow> request_step now w t (y_controller y) = Some out \<Longrightarrow>
     gstep y (settle tid out y)"
| Background: "gstep y (y\<lparr>y_controller := background_step b (y_controller y)\<rparr>)"

definition system_init :: "controller_config \<Rightarrow> cluster_model_config \<Rightarrow> policy \<Rightarrow> 'r system" where
  "system_init cfg mc p = \<lparr>y_controller = controller_init cfg mc p, y_tasks = [], y_replies = []\<rparr>"

inductive reachable :: "controller_config \<Rightarrow> cluster_model_config \<Rightarrow> policy \<Rightarrow> 'r system \<Rightarrow> bool"
  for cfg mc p where
  init: "reachable cfg mc p (system_init cfg mc p)"
| step: "reachable cfg mc p y \<Longrightarrow> gstep y y' \<Longrightarrow> reachable cfg mc p y'"

end
