(* ===== verification/Global_Inv.thy ===== *)
theory Global_Inv
  imports Global_Requests
begin

text \<open>
  The bookkeeping of the global controller over every interleaving: the counters, the
  in-flight counts, the attempts of each request, the circuit breakers and the registry.
\<close>

section \<open>What one step of a request does to the counters\<close>

definition same_counts :: "'r controller \<Rightarrow> 'r controller \<Rightarrow> bool" where
  "same_counts s s' \<longleftrightarrow> g_config s' = g_config s \<and> g_pending_requests s' = g_pending_requests s \<and>
     g_total_requests s' = g_total_requests s \<and> g_completed_requests s' = g_completed_requests s \<and>
     g_failed_requests s' = g_failed_requests s \<and> g_inflight_per_node s' = g_inflight_per_node s"

definition inflight_of :: "'r controller \<Rightarrow> string \<Rightarrow> int" where
  "inflight_of s nid = dict_get (g_inflight_per_node s) nid 0"

definition holds_node :: "string \<Rightarrow> request_task \<Rightarrow> int" where
  "holds_node nid t = (if nid \<in> set (t_tried t) then 1 else 0)"

definition is_answered :: "'r reply \<Rightarrow> bool" where
  "is_answered rep = (case rep of Answered _ \<Rightarrow> True | _ \<Rightarrow> False)"

definition is_failed :: "'r reply \<Rightarrow> bool" where
  "is_failed rep = (case rep of NoNode \<Rightarrow> True | BadGateway \<Rightarrow> True | _ \<Rightarrow> False)"

definition is_aborted :: "'r reply \<Rightarrow> bool" where
  "is_aborted rep = (case rep of Raised _ \<Rightarrow> True | Cancelled \<Rightarrow> True | _ \<Rightarrow> False)"

definition accepted :: "'r reply \<Rightarrow> bool" where
  "accepted rep \<longleftrightarrow> is_answered rep \<or> is_failed rep \<or> is_aborted rep"

definition task_ok :: "controller_config \<Rightarrow> request_task \<Rightarrow> bool" where
  "task_ok cfg t \<longleftrightarrow> distinct (t_tried t) \<and> int (t_attempt t) < gc_forward_max_attempts cfg \<and>
     (case t_phase t of
        FORWARD nid \<Rightarrow> nid \<in> set (t_tried t) \<and> length (t_tried t) = Suc (t_attempt t)
      | _ \<Rightarrow> length (t_tried t) = t_attempt t)"

definition settled :: "request_task \<Rightarrow> 'r controller \<Rightarrow> 'r progress \<times> 'r controller \<Rightarrow> bool" where
  "settled t s out \<longleftrightarrow> (let s' = snd out in
     g_config s' = g_config s \<and> g_total_requests s' = g_total_requests s \<and>
     (case fst out of
        Running t' \<Rightarrow> g_pending_requests s' = g_pending_requests s \<and>
          g_completed_requests s' = g_completed_requests s \<and> g_failed_requests s' = g_failed_requests s \<and>
          (\<forall>nid. inflight_of s' nid = inflight_of s nid - holds_node nid t + holds_node nid t') \<and>
          task_ok (g_config s) t'
      | Finished rep \<Rightarrow> g_pending_requests s' = g_pending_requests s - 1 \<and>
          g_completed_requests s' = g_completed_requests s + (if is_answered rep then 1 else 0) \<and>
          g_failed_requests s' = g_failed_requests s + (if is_failed rep then 1 else 0) \<and>
          accepted rep \<and> (\<forall>nid. inflight_of s' nid = inflight_of s nid - holds_node nid t)))"

definition covered :: "request_task \<Rightarrow> 'r controller \<Rightarrow> bool" where
  "covered t s \<longleftrightarrow> distinct (t_tried t) \<and> (\<forall>nid. holds_node nid t \<le> inflight_of s nid)"

lemma same_counts_refl [simp]: "same_counts s s"
  by (simp add: same_counts_def)

lemma same_counts_trans [trans]: "same_counts s s1 \<Longrightarrow> same_counts s1 s2 \<Longrightarrow> same_counts s s2"
  by (simp add: same_counts_def)

lemma settled_same: "same_counts s s1 \<Longrightarrow> settled t s1 out \<Longrightarrow> settled t s out"
  unfolding same_counts_def settled_def inflight_of_def Let_def
  by (cases "fst out") simp_all

lemma covered_same: "same_counts s s1 \<Longrightarrow> covered t s1 = covered t s"
  by (simp add: same_counts_def covered_def inflight_of_def)

lemma release_nodes:
  assumes "distinct xs" and "\<And>n. n \<in> set xs \<Longrightarrow> 1 \<le> dict_get d n 0"
  shows "dict_get (foldl release_node d xs) n 0 = dict_get d n 0 - (if n \<in> set xs then 1 else 0)"
  using assms
proof (induction xs arbitrary: d)
  case Nil
  then show ?case by simp
next
  case (Cons x xs)
  have "1 \<le> dict_get d x 0" using Cons.prems(2) by simp
  then have x: "dict_get d x 1 = dict_get d x 0" by (cases "map_of d x") simp_all
  then have r: "dict_get (release_node d x) m 0 = (if m = x then dict_get d x 0 - 1 else dict_get d m 0)" for m
    using \<open>1 \<le> dict_get d x 0\<close> by (simp add: release_node_def)
  have "dict_get (foldl release_node (release_node d x) xs) n 0 =
      dict_get (release_node d x) n 0 - (if n \<in> set xs then 1 else 0)"
    using Cons.prems by (intro Cons.IH) (auto simp: r)
  then show ?case using Cons.prems(1) by (auto simp: r)
qed

lemma finish_settled:
  assumes "covered t s" and "accepted rep" and "same_counts s s1 \<or> (is_failed rep \<and> same_counts (count_failed s) s1) \<or>
     (is_answered rep \<and> same_counts (s\<lparr>g_completed_requests := g_completed_requests s + 1\<rparr>) s1)"
    and "same_counts s s1 \<longrightarrow> is_aborted rep"
  shows "settled t s (finish t rep s1)"
proof -
  have fl: "g_inflight_per_node s1 = g_inflight_per_node s"
    using assms(3) by (auto simp: same_counts_def count_failed_def)
  have "dict_get (foldl release_node (g_inflight_per_node s) (t_tried t)) n 0 =
      dict_get (g_inflight_per_node s) n 0 - (if n \<in> set (t_tried t) then 1 else 0)" for n
    using assms(1) by (intro release_nodes) (auto simp: covered_def holds_node_def inflight_of_def dest!: spec split: if_splits)
  then have infl: "inflight_of (request_finally t s1) nid = inflight_of s nid - holds_node nid t" for nid
    by (simp add: inflight_of_def request_finally_def fl holds_node_def)
  have "is_answered rep \<Longrightarrow> \<not> is_failed rep \<and> \<not> is_aborted rep" "is_failed rep \<Longrightarrow> \<not> is_aborted rep"
    by (auto simp: is_answered_def is_failed_def is_aborted_def split: reply.splits)
  with assms(2-4) show ?thesis
    unfolding settled_def finish_def Let_def
    by (auto simp: infl) (auto simp: request_finally_def same_counts_def count_failed_def)
qed

lemma is_reply_simps [simp]:
  "is_answered (Answered r)" "\<not> is_answered NoNode" "\<not> is_answered BadGateway" "\<not> is_answered (Raised e)"
  "\<not> is_answered Cancelled" "is_failed NoNode" "is_failed BadGateway" "\<not> is_failed (Answered r)"
  "\<not> is_failed (Raised e)" "\<not> is_failed Cancelled" "is_aborted (Raised e)" "is_aborted Cancelled"
  "\<not> is_aborted NoNode" "\<not> is_aborted BadGateway" "\<not> is_aborted (Answered r)"
  by (simp_all add: is_answered_def is_failed_def is_aborted_def)

lemma finish_failed:
  "covered t s \<Longrightarrow> same_counts s s1 \<Longrightarrow> is_failed rep \<Longrightarrow> settled t s (finish t rep (count_failed s1))"
  by (rule finish_settled) (auto simp: accepted_def same_counts_def count_failed_def)

lemma finish_aborted:
  "covered t s \<Longrightarrow> same_counts s s1 \<Longrightarrow> is_aborted rep \<Longrightarrow> settled t s (finish t rep s1)"
  by (rule finish_settled) (auto simp: accepted_def)

lemma finish_answered:
  "covered t s \<Longrightarrow> same_counts (s\<lparr>g_completed_requests := g_completed_requests s + 1\<rparr>) s1 \<Longrightarrow>
    settled t s (finish t (Answered r) s1)"
  by (rule finish_settled) (auto simp: accepted_def same_counts_def)

section \<open>Every segment settles\<close>

lemma next_attempt_settled:
  assumes "covered t s" and "same_counts s s1" and "length (t_tried t) = i"
  shows "settled t s (next_attempt t i s1)"
proof (cases "int i < gc_forward_max_attempts (g_config s1)")
  case True
  have "g_config s1 = g_config s" using assms(2) by (simp add: same_counts_def)
  with True assms show ?thesis
    by (simp add: next_attempt_def settled_def same_counts_def inflight_of_def task_ok_def covered_def holds_node_def)
next
  case False
  with finish_failed [OF assms(1,2)] show ?thesis by (simp add: next_attempt_def)
qed

lemma forward_error_settled:
  assumes "covered t s" and "same_counts s s1" and "length (t_tried t) = Suc (t_attempt t)"
  shows "settled t s (forward_error t nid s1)"
proof -
  let ?s2 = "s1\<lparr>g_per_node_errors := bump nid (g_per_node_errors s1)\<rparr>"
  have sc: "same_counts s ?s2" using assms(2) by (simp add: same_counts_def)
  show ?thesis
    using next_attempt_settled [OF assms(1) sc, of 1] finish_failed [OF assms(1) sc, of BadGateway] assms(3)
    by (simp add: forward_error_def Let_def)
qed

lemma take_node_settled:
  assumes "covered t s" and "task_ok (g_config s) t" and "\<forall>n. t_phase t \<noteq> FORWARD n" and "nid \<notin> set (t_tried t)"
  shows "settled t s (take_node now t nid s)"
proof -
  let ?t1 = "t\<lparr>t_tried := set_add nid (t_tried t)\<rparr>"
  let ?s1 = "s\<lparr>g_inflight_per_node := bump nid (g_inflight_per_node s),
                 g_registry := registry_record_request now nid (t_adapter t) (g_registry s)\<rparr>"
  obtain ok b where acq: "breaker_acquire now (get_circuit nid ?s1) = (ok, b)" by fastforce
  let ?s2 = "set_circuit nid b ?s1"
  have len: "length (t_tried t) = t_attempt t" using assms(2,3) by (auto simp: task_ok_def split: phase.splits)
  have infl: "inflight_of ?s1 m = inflight_of s m + (if m = nid then 1 else 0)" for m
    by (simp add: inflight_of_def bump_def)
  have holds: "holds_node m ?t1 = holds_node m t + (if m = nid then 1 else 0)" for m
    using assms(4) by (simp add: holds_node_def)
  have cov: "covered ?t1 ?s1"
    unfolding covered_def infl holds using assms(1) by (simp add: covered_def)
  have sc: "same_counts ?s1 ?s2" by (simp add: same_counts_def set_circuit_def)
  have transfer: "settled t s out" if "settled ?t1 ?s1 out" for out
    using that unfolding settled_def Let_def infl holds by (cases "fst out") auto
  show ?thesis
  proof (cases ok)
    case True
    have "settled ?t1 ?s1 (Running (?t1\<lparr>t_phase := FORWARD nid\<rparr>), ?s2)"
      using assms(2,4) len
      by (auto simp: settled_def set_circuit_def task_ok_def holds_node_def inflight_of_def set_add_def)
    with transfer True acq show ?thesis by (simp add: take_node_def Let_def)
  next
    case False
    have "settled ?t1 ?s1 (forward_error ?t1 nid ?s2)"
      using cov sc by (rule forward_error_settled) (simp add: set_add_def assms(4) len)
    with transfer False acq show ?thesis by (simp add: take_node_def Let_def)
  qed
qed

lemma settled_from:
  assumes "same_counts s s1" and "covered t s \<Longrightarrow> covered t s1 \<Longrightarrow> settled t s1 out" and "covered t s"
  shows "settled t s out"
  using assms covered_same settled_same by blast

lemma forward_finish_settled:
  assumes "covered t s" and "task_ok (g_config s) t" and "t_phase t = FORWARD nid"
  shows "settled t s (forward_finish now ms res t nid s)"
proof (cases res)
  case (Inl e)
  have "settled t s (forward_error t nid (set_circuit nid (breaker_failure now (get_circuit nid s)) s))"
    using assms by (intro forward_error_settled) (auto simp: same_counts_def set_circuit_def task_ok_def)
  with Inl show ?thesis by (simp add: forward_finish_def)
next
  case (Inr r)
  then show ?thesis
    unfolding forward_finish_def Let_def using assms(1)
    by (auto intro!: finish_answered simp: same_counts_def record_latency_def set_circuit_def Let_def)
qed

lemma select_node_same: "select_node t s = (found, s1) \<Longrightarrow> same_counts s s1"
  by (auto simp: select_node_def same_counts_def Let_def split: prod.splits option.splits if_splits)

lemma select_node_registry: "select_node t s = (found, s1) \<Longrightarrow> g_registry s1 = g_registry s \<and> g_model_config s1 = g_model_config s"
  by (auto simp: select_node_def Let_def split: prod.splits option.splits if_splits)

lemma select_node_fresh: "select_node t s = (Some nid, s1) \<Longrightarrow> nid \<notin> set (t_tried t)"
  by (auto simp: select_node_def Let_def split: prod.splits option.splits if_splits)

lemma no_node_settled: "covered t s \<Longrightarrow> settled t s (no_node t s)"
  by (simp add: no_node_def finish_failed)

lemma start_wait_settled:
  assumes "covered t s" and "task_ok (g_config s) t" and "\<forall>n. t_phase t \<noteq> FORWARD n"
  shows "settled t s (start_wait t s)"
proof -
  have "settled t s (Running (t\<lparr>t_phase := WAIT k\<rparr>), s)" for k
    using assms by (auto simp: settled_def task_ok_def holds_node_def split: phase.splits)
  then show ?thesis
    using assms no_node_settled [OF assms(1)] by (simp add: start_wait_def Let_def finish_aborted)
qed

lemma scale_up_begin_same: "scale_up_begin now b s = Inr (nid, s1) \<Longrightarrow> same_counts s s1"
  by (auto simp: scale_up_begin_def same_counts_def Let_def split: sum.splits option.splits if_splits)

lemma scale_up_finish_same: "scale_up_finish now nid rep s = (n, s1) \<Longrightarrow> same_counts s s1"
  by (auto simp: scale_up_finish_def same_counts_def Let_def split: launch_reply.splits)

lemma same_config: "same_counts s s1 \<Longrightarrow> g_config s1 = g_config s"
  by (simp add: same_counts_def)

lemma launch_settled:
  assumes "covered t s" and "task_ok (g_config s) t" and "\<forall>n. t_phase t \<noteq> FORWARD n"
  shows "settled t s
    (case scale_up_begin now b s of
       Inl e \<Rightarrow> finish t (Raised e) s
     | Inr (Some node_id, s3) \<Rightarrow> (Running (t\<lparr>t_phase := SCALING node_id\<rparr>), s3)
     | Inr (None, s3) \<Rightarrow> start_wait t s3)"
proof (cases "scale_up_begin now b s")
  case (Inl e)
  with assms show ?thesis by (simp add: finish_aborted)
next
  case (Inr p)
  obtain nid s3 where p: "p = (nid, s3)" by fastforce
  have sc: "same_counts s s3" using Inr p scale_up_begin_same by blast
  show ?thesis
  proof (cases nid)
    case None
    have "settled t s3 (start_wait t s3)"
      using assms sc by (intro start_wait_settled) (simp_all add: covered_same same_config)
    then have "settled t s (start_wait t s3)" by (rule settled_same [OF sc])
    with None Inr p show ?thesis by simp
  next
    case (Some n)
    have "settled t s3 (Running (t\<lparr>t_phase := SCALING n\<rparr>), s3)"
      using assms same_config [OF sc] by (auto simp: settled_def task_ok_def holds_node_def split: phase.splits)
    then have "settled t s (Running (t\<lparr>t_phase := SCALING n\<rparr>), s3)" by (rule settled_same [OF sc])
    with Some Inr p show ?thesis by simp
  qed
qed

lemma seek_node_settled:
  assumes "covered t s" and "task_ok (g_config s) t" and "\<forall>n. t_phase t \<noteq> FORWARD n"
  shows "settled t s (seek_node now t s)"
proof -
  obtain f1 s1 where s1: "select_node t s = (f1, s1)" by fastforce
  obtain f2 s2 where s2: "select_node t s1 = (f2, s2)" by fastforce
  have sc1: "same_counts s s1" using s1 by (rule select_node_same)
  also have "same_counts s1 s2" using s2 by (rule select_node_same)
  finally have sc2: "same_counts s s2" .
  have ok: "covered t s1" "task_ok (g_config s1) t" "covered t s2" "task_ok (g_config s2) t"
    using assms sc1 sc2 by (simp_all add: covered_same same_config)
  have take1: "settled t s (take_node now t nid s1)" if "f1 = Some nid" for nid
    using that ok assms(3) select_node_fresh [of t s nid s1] s1
    by (intro settled_same [OF sc1] take_node_settled) simp_all
  have take2: "settled t s (take_node now t nid s2)" if "f2 = Some nid" for nid
    using that ok assms(3) select_node_fresh [of t s1 nid s2] s2
    by (intro settled_same [OF sc2] take_node_settled) simp_all
  show ?thesis
    using take1 take2 settled_same [OF sc2 launch_settled [OF ok(3,4) assms(3)]]
      settled_same [OF sc2 start_wait_settled [OF ok(3,4) assms(3)]]
    by (auto simp: seek_node_def s1 s2 split: option.split)
qed

lemma poll_node_settled:
  assumes "covered t s" and "task_ok (g_config s) t" and "\<forall>n. t_phase t \<noteq> FORWARD n"
  shows "settled t s (poll_node now t k s)"
proof -
  obtain f1 s1 where s1: "select_node t s = (f1, s1)" by fastforce
  have sc: "same_counts s s1" using s1 by (rule select_node_same)
  have ok: "covered t s1" "task_ok (g_config s1) t" using assms sc by (simp_all add: covered_same same_config)
  have "settled t s1 (take_node now t nid s1)" if "f1 = Some nid" for nid
    using that ok assms(3) select_node_fresh [of t s nid s1] s1 by (intro take_node_settled) simp_all
  moreover have "settled t s1 (Running (t\<lparr>t_phase := WAIT (k - 1)\<rparr>), s1)"
    using ok assms(3) by (auto simp: settled_def task_ok_def holds_node_def split: phase.splits)
  ultimately have "settled t s1 (poll_node now t k s)"
    using no_node_settled [OF ok(1)] by (auto simp: poll_node_def s1 split: option.split)
  with sc show ?thesis by (rule settled_same)
qed

lemma scaling_finish_settled:
  assumes "covered t s" and "task_ok (g_config s) t" and "\<forall>n. t_phase t \<noteq> FORWARD n"
  shows "settled t s (scaling_finish now rep t nid s)"
proof -
  obtain f1 s1 where s1: "scale_up_finish now nid rep s = (f1, s1)" by fastforce
  have sc: "same_counts s s1" using s1 by (rule scale_up_finish_same)
  have ok: "covered t s1" "task_ok (g_config s1) t" using assms sc by (simp_all add: covered_same same_config)
  have "settled t s1 (scaling_finish now rep t nid s)"
    using ok assms(3) take_node_settled start_wait_settled by (auto simp: scaling_finish_def s1 split: option.split)
  with sc show ?thesis by (rule settled_same)
qed

lemma request_step_settled:
  assumes "covered t s" and "task_ok (g_config s) t" and "request_step now w t s = Some out"
  shows "settled t s out"
  using assms
  by (cases w; cases "t_phase t")
    (auto simp: request_step.simps finish_aborted seek_node_settled poll_node_settled scaling_finish_settled
      forward_finish_settled)

section \<open>The counters over all interleavings\<close>

definition counts_inv :: "controller_config \<Rightarrow> 'r system \<Rightarrow> bool" where
  "counts_inv cfg y \<longleftrightarrow> (let s = y_controller y; ts = dict_values (y_tasks y) in
     g_config s = cfg \<and> dict_wf (y_tasks y) \<and> (\<forall>t \<in> set ts. task_ok cfg t) \<and>
     g_pending_requests s = int (length ts) \<and>
     g_completed_requests s = int (length (filter is_answered (y_replies y))) \<and>
     g_failed_requests s = int (length (filter is_failed (y_replies y))) \<and>
     g_total_requests s = g_pending_requests s + int (length (filter accepted (y_replies y))) \<and>
     (\<forall>nid. inflight_of s nid = sum_list (map (holds_node nid) ts)))"

lemma dict_values_settle:
  "v \<in> set (dict_values (AList.update k t d)) \<Longrightarrow> dict_wf d \<Longrightarrow> v = t \<or> v \<in> set (dict_values d)"
  "v \<in> set (dict_values (AList.delete k d)) \<Longrightarrow> v \<in> set (dict_values d)"
proof -
  assume *: "v \<in> set (dict_values (AList.update k t d))" "dict_wf d"
  have "dict_wf (AList.update k t d)" using *(2) by simp
  then obtain j where "map_of (AList.update k t d) j = Some v" using * dict_values_iff by metis
  then show "v = t \<or> v \<in> set (dict_values d)"
    using map_of_in_values [of d j v] by (auto simp: update_conv' split: if_split_asm)
next
  assume "v \<in> set (dict_values (AList.delete k d))"
  then show "v \<in> set (dict_values d)" by (auto simp: delete_filter)
qed

lemma counts_task:
  assumes inv: "counts_inv cfg y" and tid: "map_of (y_tasks y) tid = Some t"
  shows "covered t (y_controller y) \<and> task_ok cfg t"
proof -
  have "t \<in> set (dict_values (y_tasks y))" using tid by (rule map_of_in_values)
  with inv have ok: "task_ok cfg t" by (simp add: counts_inv_def Let_def del: set_map)
  have "holds_node nid t \<le> inflight_of (y_controller y) nid" for nid
    using inv map_of_sum_le [OF tid, of "holds_node nid"]
    by (simp add: counts_inv_def Let_def holds_node_def)
  with ok show ?thesis by (simp add: covered_def task_ok_def)
qed

lemma settle_request_inv:
  assumes inv: "counts_inv cfg y" and tid: "map_of (y_tasks y) tid = Some t"
    and st: "settled t (y_controller y) out"
  shows "counts_inv cfg (settle tid out y)"
proof -
  obtain prog s where out: "out = (prog, s)" by fastforce
  let ?ts = "dict_values (y_tasks y)"
  have wf: "dict_wf (y_tasks y)" and ok: "\<And>u. u \<in> set ?ts \<Longrightarrow> task_ok cfg u"
    using inv by (simp_all add: counts_inv_def Let_def del: set_map)
  have key: "tid \<in> set (dict_keys (y_tasks y))" using tid by (rule map_of_in_keys)
  have cfg: "g_config (y_controller y) = cfg" using inv by (simp add: counts_inv_def Let_def)
  show ?thesis
  proof (cases prog)
    case (Running t')
    have "task_ok cfg u" if "u \<in> set (dict_values (AList.update tid t' (y_tasks y)))" for u
      using dict_values_settle(1) [OF that wf] ok st cfg by (auto simp: settled_def out Running simp del: set_map)
    with inv st Running key show ?thesis
      by (simp add: settle_def out counts_inv_def Let_def settled_def cfg wf length_update
          sum_values_update [OF wf] tid del: set_map map_map)
  next
    case (Finished rep)
    have "task_ok cfg u" if "u \<in> set (dict_values (AList.delete tid (y_tasks y)))" for u
      using dict_values_settle(2) [OF that] ok by simp
    with inv st Finished show ?thesis
      by (simp add: settle_def out counts_inv_def Let_def settled_def cfg wf length_delete [OF wf tid]
          sum_values_delete [OF wf] tid del: set_map map_map)
  qed
qed

lemma same_counts_inv:
  "counts_inv cfg y \<Longrightarrow> same_counts (y_controller y) s \<Longrightarrow> counts_inv cfg (y\<lparr>y_controller := s\<rparr>)"
  by (simp add: counts_inv_def Let_def same_counts_def inflight_of_def)

lemma begin_scale_ups_same: "same_counts s (snd (begin_scale_ups now b ds s))"
proof (induction now b ds s rule: begin_scale_ups.induct)
  case (1 now b s)
  then show ?case by simp
next
  case (2 now b d ds s)
  let ?bm = "if truthy (sd_base_model d) then sd_base_model d else b"
  show ?case
  proof (cases "scale_up_begin now ?bm s")
    case (Inl e)
    with 2 show ?thesis by auto
  next
    case (Inr p)
    obtain nid s1 where p: "p = (nid, s1)" by fastforce
    have "same_counts s s1" using Inr p scale_up_begin_same by blast
    moreover have "same_counts s1 (snd (begin_scale_ups now b ds s1))"
      using 2 Inr p by (cases nid) auto
    ultimately have "same_counts s (snd (begin_scale_ups now b ds s1))" by (rule same_counts_trans)
    with Inr p show ?thesis by (cases nid) (simp_all add: case_prod_unfold Let_def)
  qed
qed

lemma background_same: "same_counts s (background_step b s)"
proof (cases b)
  case (ScaleUpBegin now bm)
  then show ?thesis using scale_up_begin_same by (auto split: sum.split prod.split)
next
  case (ScaleUpReply now nid rep)
  then show ?thesis using scale_up_finish_same [of now nid rep s] by (cases "scale_up_finish now nid rep s") auto
next
  case (AutoScale now)
  then show ?thesis using begin_scale_ups_same [of s now] by (simp add: make_scaling_decision_def Let_def case_prod_unfold)
qed (auto simp: same_counts_def register_node_endpoint_def unregister_node_endpoint_def node_heartbeat_endpoint_def
    scale_down_begin_def scale_down_finish_def health_monitor_pass_def recover_failed_nodes_def sync_circuits_def
    mark_stale_def idempotency_cleanup_def get_metrics_def Let_def split: option.split)

lemma arrival_inv:
  assumes inv: "counts_inv cfg y" and tid: "tid \<notin> set (dict_keys (y_tasks y))"
  shows "counts_inv cfg (settle tid (handle_arrival now a key (y_controller y)) y)"
proof -
  let ?s = "y_controller y"
  let ?t = "new_task a key"
  let ?s1 = "?s\<lparr>g_total_requests := g_total_requests ?s + 1, g_pending_requests := g_pending_requests ?s + 1,
                       g_requests_last_minute := g_requests_last_minute ?s @ [now]\<rparr>"
  have rejected: "counts_inv cfg (settle tid (Finished rep, ?s) y)" if "\<not> accepted rep" for rep
    using inv that tid by (simp add: settle_def delete_fresh counts_inv_def Let_def accepted_def)
  have full: "counts_inv cfg (settle tid (Finished QueueFull, ?s) y)"
    by (rule rejected) (simp add: accepted_def is_answered_def is_failed_def is_aborted_def)
  have cached: "counts_inv cfg (settle tid (Finished (Cached r), ?s) y)" for r
    by (rule rejected) (simp add: accepted_def is_answered_def is_failed_def is_aborted_def)
  have cov: "covered ?t ?s1"
  proof -
    have "0 \<le> sum_list (map (holds_node nid) ts)" for nid ts
      by (rule sum_list_nonneg) (auto simp: holds_node_def)
    with inv show ?thesis
      by (simp add: covered_def new_task_def holds_node_def counts_inv_def Let_def inflight_of_def del: map_map)
  qed
  have "settled ?t ?s1 (next_attempt ?t 0 ?s1)"
    using cov by (rule next_attempt_settled) (simp_all add: new_task_def)
  moreover have "counts_inv cfg (settle tid (prog, s) y)" if "settled ?t ?s1 (prog, s)" for prog s
  proof (cases prog)
    case (Running t')
    have wf: "dict_wf (y_tasks y)" using inv by (simp add: counts_inv_def Let_def)
    have ok: "\<And>u. u \<in> set (dict_values (y_tasks y)) \<Longrightarrow> task_ok cfg u"
      using inv by (simp_all add: counts_inv_def Let_def del: set_map)
    show ?thesis
      using inv that Running tid ok
      by (auto simp: settle_def counts_inv_def Let_def settled_def update_fresh inflight_of_def holds_node_def new_task_def)
  next
    case (Finished rep)
    with inv that tid show ?thesis
      by (simp add: settle_def counts_inv_def Let_def settled_def delete_fresh inflight_of_def holds_node_def new_task_def)
  qed
  ultimately show ?thesis
    using full cached by (cases "next_attempt ?t 0 ?s1") (simp add: handle_arrival_def Let_def split: option.split)
qed

lemma gstep_counts: "counts_inv cfg y \<Longrightarrow> gstep y y' \<Longrightarrow> counts_inv cfg y'"
proof (erule gstep.cases)
  show "counts_inv cfg y \<Longrightarrow> y = z \<Longrightarrow> y' = settle tid (handle_arrival now a key (y_controller z)) z \<Longrightarrow>
      tid \<notin> set (dict_keys (y_tasks z)) \<Longrightarrow> counts_inv cfg y'" for tid z now a key
    using arrival_inv by blast
  show "counts_inv cfg y \<Longrightarrow> y = z \<Longrightarrow> y' = settle tid out z \<Longrightarrow> map_of (y_tasks z) tid = Some t \<Longrightarrow>
      request_step now w t (y_controller z) = Some out \<Longrightarrow> counts_inv cfg y'" for tid z t now w out
    using counts_task request_step_settled settle_request_inv
    by (metis (no_types, lifting) counts_inv_def)
  show "counts_inv cfg y \<Longrightarrow> y = z \<Longrightarrow> y' = z\<lparr>y_controller := background_step b (y_controller z)\<rparr> \<Longrightarrow>
      counts_inv cfg y'" for z b
    using same_counts_inv background_same by blast
qed

lemma reachable_counts: "reachable cfg mc p y \<Longrightarrow> counts_inv cfg y"
proof (induction rule: reachable.induct)
  case init
  then show ?case by (simp add: counts_inv_def system_init_def controller_init_def Let_def inflight_of_def)
next
  case (step y y')
  then show ?case using gstep_counts by blast
qed

end
