(* ===== verification/Global_Sound.thy ===== *)
theory Global_Sound
  imports Global_Inv
begin

text \<open>
  The registry and the circuit breakers of the global controller stay well-formed over
  every interleaving, the latency buffers stay within their bounds, and what the health
  monitor and the auto-scaler do to the nodes.
\<close>

section \<open>Well-formedness of the controller\<close>

definition circuits_ok :: "(string, breaker) dict \<Rightarrow> bool" where
  "circuits_ok cs \<longleftrightarrow> dict_wf cs \<and>
     (\<forall>b \<in> set (dict_values cs). cb_config b = default_breaker_config \<and> breaker_inv b)"

definition buffers_ok :: "'r controller \<Rightarrow> bool" where
  "buffers_ok s \<longleftrightarrow>
     (0 < gc_latency_buffer_max (g_config s) \<longrightarrow>
        int (length (g_latency_buffer s)) \<le> gc_latency_buffer_max (g_config s)) \<and>
     (0 < gc_per_node_latency_buffer_max (g_config s) \<longrightarrow>
        (\<forall>nid. int (length (dict_get (g_per_node_latency s) nid [])) \<le> gc_per_node_latency_buffer_max (g_config s)))"

definition sound :: "'r controller \<Rightarrow> bool" where
  "sound s \<longleftrightarrow> registry_inv (g_registry s) \<and> circuits_ok (g_node_circuits s) \<and> buffers_ok s"

lemma default_breaker_ok [simp]: "breaker_config_ok default_breaker_config"
  by (simp add: breaker_config_ok_def default_breaker_config_def)

lemma get_circuit_ok:
  assumes "circuits_ok (g_node_circuits s)"
  shows "cb_config (get_circuit nid s) = default_breaker_config \<and> breaker_inv (get_circuit nid s)"
proof (cases "map_of (g_node_circuits s) nid")
  case None
  then show ?thesis using breaker_inv_init [of default_breaker_config]
    by (simp add: get_circuit_def breaker_init_def)
next
  case (Some b)
  then have "b \<in> set (dict_values (g_node_circuits s))" by (rule map_of_in_values)
  with assms Some show ?thesis by (simp add: get_circuit_def circuits_ok_def del: set_map)
qed

lemma circuits_ok_step:
  assumes "circuits_ok (g_node_circuits s)"
  shows "circuits_ok (AList.update nid (breaker_step (get_circuit nid s) c) (g_node_circuits s))"
  unfolding circuits_ok_def
proof
  have wf: "dict_wf (g_node_circuits s)" using assms by (simp add: circuits_ok_def)
  then show "dict_wf (AList.update nid (breaker_step (get_circuit nid s) c) (g_node_circuits s))" by simp
  have "cb_config (breaker_step (get_circuit nid s) c) = default_breaker_config \<and>
      breaker_inv (breaker_step (get_circuit nid s) c)"
    using get_circuit_ok [OF assms, of nid] by (simp add: breaker_inv_step)
  then show "\<forall>b \<in> set (dict_values (AList.update nid (breaker_step (get_circuit nid s) c) (g_node_circuits s))).
      cb_config b = default_breaker_config \<and> breaker_inv b"
    using dict_values_settle(1) [OF _ wf] assms unfolding circuits_ok_def by blast
qed

lemma set_circuit_sound:
  "sound s \<Longrightarrow> sound (set_circuit nid (breaker_step (get_circuit nid s) c) s)"
  using circuits_ok_step [of s nid c] by (simp add: sound_def set_circuit_def buffers_ok_def)

lemmas circuit_ops_sound =
  set_circuit_sound [where c = "Acquire now" for now, unfolded breaker_step.simps]
  set_circuit_sound [where c = Success, unfolded breaker_step.simps]
  set_circuit_sound [where c = "Failure now" for now, unfolded breaker_step.simps]

lemma slice_last_length: "0 < m \<Longrightarrow> length (slice_last m xs) = min (length xs) (nat m)"
  by (simp add: slice_last_def)

lemma push_latency_length: "0 < m \<Longrightarrow> int (length (push_latency m x buf)) \<le> m"
  by (auto simp: push_latency_def Let_def slice_last_length)

lemma push_latency_keeps: "int (length buf) < m \<Longrightarrow> push_latency m x buf = buf @ [x]"
  by (simp add: push_latency_def Let_def)

lemma record_latency_sound: "sound s \<Longrightarrow> sound (record_latency ms nid s)"
  by (auto simp: sound_def buffers_ok_def record_latency_def Let_def push_latency_length)

text \<open>Fields outside the registry, the breakers and the buffers do not matter.\<close>

lemma sound_frame [simp]:
  "sound (s\<lparr>g_pending_requests := p\<rparr>) = sound s" "sound (s\<lparr>g_inflight_per_node := i\<rparr>) = sound s"
  "sound (s\<lparr>g_failed_requests := f\<rparr>) = sound s" "sound (s\<lparr>g_completed_requests := c\<rparr>) = sound s"
  "sound (s\<lparr>g_total_requests := f\<rparr>) = sound s" "sound (s\<lparr>g_placement := pl\<rparr>) = sound s"
  "sound (s\<lparr>g_model_config := mc\<rparr>) = sound s" "sound (s\<lparr>g_per_node_errors := e\<rparr>) = sound s"
  "sound (s\<lparr>g_per_node_completed := e\<rparr>) = sound s" "sound (s\<lparr>g_idempotency_cache := ic\<rparr>) = sound s"
  "sound (s\<lparr>g_requests_last_minute := rl\<rparr>) = sound s"
  by (simp_all add: sound_def buffers_ok_def)

lemma sound_registry: "sound s \<Longrightarrow> registry_inv r \<Longrightarrow> sound (s\<lparr>g_registry := r\<rparr>)"
  by (simp add: sound_def buffers_ok_def)

lemma soundD: "sound s \<Longrightarrow> registry_inv (g_registry s)"
  by (simp add: sound_def)

section \<open>Requests\<close>

lemma finish_sound: "sound s \<Longrightarrow> sound (snd (finish t rep s))"
  by (simp add: finish_def request_finally_def)

lemma count_failed_sound: "sound (count_failed s) = sound s"
  by (simp add: count_failed_def)

lemma next_attempt_sound: "sound s \<Longrightarrow> sound (snd (next_attempt t i s))"
  by (simp add: next_attempt_def finish_sound count_failed_sound)

lemma forward_error_sound: "sound s \<Longrightarrow> sound (snd (forward_error t nid s))"
  by (simp add: forward_error_def Let_def next_attempt_sound finish_sound count_failed_sound)

lemma take_node_sound:
  assumes "sound s"
  shows "sound (snd (take_node now t nid s))"
proof -
  let ?s1 = "s\<lparr>g_inflight_per_node := bump nid (g_inflight_per_node s),
                 g_registry := registry_record_request now nid (t_adapter t) (g_registry s)\<rparr>"
  have "sound ?s1" using assms by (intro sound_registry) (simp_all add: registry_record_request_inv soundD)
  then have "sound (set_circuit nid (snd (breaker_acquire now (get_circuit nid ?s1))) ?s1)"
    by (rule circuit_ops_sound)
  then show ?thesis
    by (simp add: take_node_def Let_def case_prod_unfold forward_error_sound)
qed

lemma forward_finish_sound:
  assumes "sound s"
  shows "sound (snd (forward_finish now ms res t nid s))"
proof (cases res)
  case (Inl e)
  have "sound (set_circuit nid (breaker_failure now (get_circuit nid s)) s)"
    using assms by (rule circuit_ops_sound)
  with Inl show ?thesis by (simp add: forward_finish_def forward_error_sound)
next
  case (Inr r)
  have "sound (set_circuit nid (breaker_success (get_circuit nid s)) s)"
    using assms by (rule circuit_ops_sound)
  with Inr show ?thesis by (simp add: forward_finish_def Let_def finish_sound record_latency_sound)
qed

lemma select_node_sound: "sound s \<Longrightarrow> sound (snd (select_node t s))"
  by (simp add: select_node_def Let_def split: prod.split option.split)

lemma scale_up_begin_sound:
  assumes "sound s" and "scale_up_begin now b s = Inr (nid, s1)"
  shows "sound s1"
  using assms
  by (auto simp: scale_up_begin_def Let_def sound_registry soundD update_node_status_inv set_node_base_model_inv
      split: sum.splits option.splits if_splits)

lemma scale_up_finish_sound: "sound s \<Longrightarrow> sound (snd (scale_up_finish now nid rep s))"
  by (cases rep) (simp_all add: scale_up_finish_def Let_def sound_registry soundD update_node_status_inv)

lemma start_wait_sound: "sound s \<Longrightarrow> sound (snd (start_wait t s))"
  by (simp add: start_wait_def Let_def no_node_def finish_sound count_failed_sound)

lemma seek_node_sound:
  assumes "sound s"
  shows "sound (snd (seek_node now t s))"
proof -
  obtain f1 s1 where s1: "select_node t s = (f1, s1)" by fastforce
  obtain f2 s2 where s2: "select_node t s1 = (f2, s2)" by fastforce
  have "sound s1" using select_node_sound [OF assms, of t] s1 by simp
  moreover from this have ok2: "sound s2" using select_node_sound [of s1 t] s2 by simp
  moreover have "sound s3" if "scale_up_begin now b s2 = Inr (nid, s3)" for b nid s3
    using ok2 that by (rule scale_up_begin_sound)
  ultimately show ?thesis
    by (auto simp: seek_node_def s1 s2 take_node_sound start_wait_sound finish_sound split: option.split sum.split)
qed

lemma request_step_sound:
  assumes "sound s" and "request_step now w t s = Some out"
  shows "sound (snd out)"
proof -
  have sel: "sound s1" if "select_node t s = (f, s1)" for f s1
    using select_node_sound [OF assms(1), of t] that by simp
  have fin: "sound s1" if "scale_up_finish now nid rep s = (f, s1)" for f nid rep s1
    using scale_up_finish_sound [OF assms(1), of now nid rep] that by simp
  show ?thesis
    using assms
    by (cases w; cases "t_phase t")
      (auto simp: request_step.simps finish_sound seek_node_sound forward_finish_sound poll_node_def scaling_finish_def
        take_node_sound start_wait_sound no_node_def count_failed_sound sel fin split: prod.split option.split)
qed

lemma handle_arrival_sound: "sound s \<Longrightarrow> sound (snd (handle_arrival now a key s))"
  by (simp add: handle_arrival_def Let_def next_attempt_sound split: option.split)

section \<open>Background activities\<close>

lemma begin_scale_ups_sound: "sound s \<Longrightarrow> sound (snd (begin_scale_ups now b ds s))"
proof (induction now b ds s rule: begin_scale_ups.induct)
  case (1 now b s)
  then show ?case by simp
next
  case (2 now b d ds s)
  let ?bm = "if truthy (sd_base_model d) then sd_base_model d else b"
  show ?case
  proof (cases "scale_up_begin now ?bm s")
    case (Inl e)
    with 2 show ?thesis by auto
  next
    case (Inr p)
    obtain nid s1 where p: "p = (nid, s1)" by fastforce
    have "sound s1" using 2(4) Inr p scale_up_begin_sound by blast
    with 2 Inr p have "sound (snd (begin_scale_ups now b ds s1))" by (cases nid) auto
    with Inr p show ?thesis by (cases nid) (simp_all add: case_prod_unfold Let_def)
  qed
qed

lemma foldl_inv: "(\<And>r x. I r \<Longrightarrow> I (f r x)) \<Longrightarrow> I r \<Longrightarrow> I (foldl f r xs)"
  by (induction xs arbitrary: r) auto

lemma mark_stale_sound: "sound s \<Longrightarrow> sound (mark_stale now s)"
  by (simp add: mark_stale_def sound_registry soundD foldl_inv [where I = registry_inv] update_node_status_inv)

lemma sync_circuits_sound: "sound s \<Longrightarrow> sound (sync_circuits s)"
  unfolding sync_circuits_def
  by (intro sound_registry foldl_inv [where I = registry_inv]) (auto simp: soundD update_node_error_state_inv)

lemma recover_node_frame [simp]:
  "ni_node_id (recover_node now tm n) = ni_node_id n"
  "ni_loaded_adapters (recover_node now tm n) = ni_loaded_adapters n"
  by (simp_all add: recover_node_def)

lemma registry_map_nodes_inv:
  assumes "registry_inv r" and "\<And>n. ni_node_id (f n) = ni_node_id n"
    and "\<And>n. ni_loaded_adapters (f n) = ni_loaded_adapters n"
  shows "registry_inv (r\<lparr>rg_nodes := map (\<lambda>(k, n). (k, f n)) (rg_nodes r)\<rparr>)"
proof -
  have look: "map_of (map (\<lambda>(k, n). (k, f n)) d) k = map_option f (map_of d k)" for d k
    by (induction d) auto
  have keys: "map fst (map (\<lambda>(k, n). (k, f n)) (rg_nodes r)) = map fst (rg_nodes r)"
    by (simp add: case_prod_unfold comp_def)
  have holds: "node_holds (r\<lparr>rg_nodes := map (\<lambda>(k, n). (k, f n)) (rg_nodes r)\<rparr>) = node_holds r"
    by (auto simp: node_holds_def fun_eq_iff look assms(3) split: option.split)
  show ?thesis
    using assms(1,2) keys
    by (auto simp: registry_inv_def nodes_ok_def index_ok_def holds look simp del: map_map)
qed

lemma recover_sound: "sound s \<Longrightarrow> sound (recover_failed_nodes now s)"
  by (simp add: recover_failed_nodes_def sound_registry soundD registry_map_nodes_inv)

lemma background_sound: "sound s \<Longrightarrow> sound (background_step b s)"
proof (cases b)
  case (ScaleUpBegin now bm)
  then show "sound s \<Longrightarrow> ?thesis" using scale_up_begin_sound by (auto split: sum.split prod.split)
next
  case (AutoScale now)
  then show "sound s \<Longrightarrow> ?thesis"
    by (simp add: make_scaling_decision_def Let_def case_prod_unfold begin_scale_ups_sound)
next
  case (HealthPass now)
  then show "sound s \<Longrightarrow> ?thesis"
    by (simp add: health_monitor_pass_def mark_stale_sound sync_circuits_sound recover_sound)
qed (auto simp: register_node_endpoint_def unregister_node_endpoint_def node_heartbeat_endpoint_def
    scale_down_begin_def scale_down_finish_def idempotency_cleanup_def get_metrics_def Let_def
    scale_up_finish_sound sound_registry soundD registry_op_inv split: option.split)

lemma gstep_sound: "gstep y y' \<Longrightarrow> sound (y_controller y) \<Longrightarrow> sound (y_controller y')"
proof (induction rule: gstep.induct)
  case (Arrive tid y now adapter key)
  then show ?case
    using handle_arrival_sound [of "y_controller y" now adapter key]
    by (cases "handle_arrival now adapter key (y_controller y)") (simp add: settle_def split: progress.split)
next
  case (Request y tid t now w out)
  then show ?case
    using request_step_sound [of "y_controller y" now w t out]
    by (cases out) (simp add: settle_def split: progress.split)
next
  case (Background y b)
  then show ?case by (simp add: background_sound)
qed

lemma reachable_sound: "reachable cfg mc p y \<Longrightarrow> sound (y_controller y)"
proof (induction rule: reachable.induct)
  case init
  then show ?case
    by (simp add: system_init_def controller_init_def sound_def registry_init_inv circuits_ok_def buffers_ok_def)
next
  case (step y y')
  then show ?case using gstep_sound by blast
qed

end
