(* ===== verification/Global_Facts.thy ===== *)
theory Global_Facts
  imports Global_Sound
begin

text \<open>
  Facts about single operations of the global controller: what a health-monitor pass does to
  a node, where the percentiles read the buffer, and what the idempotency cleanup keeps.
\<close>

section \<open>Health monitoring\<close>

lemma update_node_status_lookup:
  "map_of (rg_nodes (update_node_status now k FAILED r)) nid =
    (if nid = k then map_option (\<lambda>n. n\<lparr>ni_status := FAILED, ni_last_heartbeat := now\<rparr>) (map_of (rg_nodes r) nid)
     else map_of (rg_nodes r) nid)"
  by (simp add: update_node_status_def upd_node_lookup Let_def)

lemma fail_nodes_lookup:
  "map_of (rg_nodes (foldl (\<lambda>r n. update_node_status now (ni_node_id n) FAILED r) r ns)) nid =
    (if nid \<in> ni_node_id ` set ns
     then map_option (\<lambda>n. n\<lparr>ni_status := FAILED, ni_last_heartbeat := now\<rparr>) (map_of (rg_nodes r) nid)
     else map_of (rg_nodes r) nid)"
  by (induction ns arbitrary: r) (auto simp: update_node_status_lookup option.map_comp comp_def)

lemma sync_circuits_lookup:
  "\<exists>c. map_of (rg_nodes (foldl (\<lambda>r (k, b). update_node_error_state k (circuit_value (cb_state b)) r) r cs)) nid
     = map_option (\<lambda>n. n\<lparr>ni_circuit_state := c n\<rparr>) (map_of (rg_nodes r) nid)"
proof (induction cs arbitrary: r)
  case Nil
  then show ?case by (intro exI [of _ ni_circuit_state]) (simp add: option.map_ident)
next
  case (Cons kb cs)
  obtain k b where kb: "kb = (k, b)" by fastforce
  let ?r = "update_node_error_state k (circuit_value (cb_state b)) r"
  from Cons [of ?r] obtain c where c: "map_of (rg_nodes (foldl (\<lambda>r (k, b). update_node_error_state k (circuit_value (cb_state b)) r) ?r cs)) nid
     = map_option (\<lambda>n. n\<lparr>ni_circuit_state := c n\<rparr>) (map_of (rg_nodes ?r) nid)" by blast
  show ?case
    by (rule exI [of _ "\<lambda>n. c (if nid = k then n\<lparr>ni_circuit_state := circuit_value (cb_state b)\<rparr> else n)"])
      (simp only: kb foldl_Cons prod.case c, simp add: update_node_error_state_def upd_node_lookup option.map_comp comp_def)
qed

lemma recover_failed_lookup:
  "map_of (rg_nodes (g_registry (recover_failed_nodes now s))) nid =
     map_option (recover_node now (gc_heartbeat_timeout (g_config s))) (map_of (rg_nodes (g_registry s)) nid)"
  by (simp add: recover_failed_nodes_def map_of_map)

section \<open>Percentiles and the idempotency cache\<close>

lemma percentile_index:
  assumes "0 \<le> q" and "q < 1" and "0 < n"
  shows "nat (py_int (of_nat n * q)) < n"
proof -
  have "0 \<le> of_nat n * q" using assms(1) by simp
  moreover have "of_nat n * q < (of_nat n :: rat)" using assms by (simp add: mult_less_cancel_left2)
  then have "\<lfloor>of_nat n * q\<rfloor> < int n" by (simp add: floor_less_iff)
  ultimately show ?thesis by (simp add: py_int_def nat_less_iff)
qed

lemma percentile_index_mono:
  assumes "0 \<le> p" and "p \<le> q"
  shows "nat (py_int (of_nat n * p)) \<le> nat (py_int (of_nat n * q))"
proof -
  have "of_nat n * p \<le> of_nat n * q" "0 \<le> of_nat n * p" using assms by (simp_all add: mult_left_mono)
  moreover from this have "0 \<le> of_nat n * q" by (rule order_trans [rotated])
  ultimately show ?thesis by (simp add: py_int_def floor_mono nat_mono)
qed

lemma median_index: "n div 2 = nat (py_int (of_nat n * (1/2)))"
proof -
  have "\<lfloor>of_nat n / (2::rat)\<rfloor> = int n div 2" using floor_divide_of_int_eq [of "int n" 2, where 'a = rat] by simp
  then show ?thesis by (simp add: py_int_def nat_div_distrib)
qed

lemma foldl_delete_lookup:
  "map_of (foldl (\<lambda>c k. AList.delete k c) d ks) k = (if k \<in> set ks then None else map_of d k)"
  by (induction ks arbitrary: d) (auto simp: delete_conv')

lemma expired_keys:
  "k \<in> set (map fst (filter (\<lambda>(k, ts, _). ttl < now - ts) d)) \<longleftrightarrow> (\<exists>ts v. (k, ts, v) \<in> set d \<and> ttl < now - ts)"
  by (auto simp: image_iff Bex_def)

lemma idempotency_cleanup_lookup:
  assumes "dict_wf (g_idempotency_cache s)"
  shows "map_of (g_idempotency_cache (idempotency_cleanup now s)) k =
    (case map_of (g_idempotency_cache s) k of
       Some (ts, v) \<Rightarrow> if 3600 < now - ts then None else Some (ts, v) | None \<Rightarrow> None)"
proof (cases "map_of (g_idempotency_cache s) k")
  case None
  then show ?thesis by (simp add: idempotency_cleanup_def foldl_delete_lookup)
next
  case (Some e)
  obtain ts v where e: "e = (ts, v)" by fastforce
  let ?expired = "map fst (filter (\<lambda>(k, ts, _). 3600 < now - ts) (g_idempotency_cache s))"
  have "(k, ts, v) \<in> set (g_idempotency_cache s)" using Some e by (simp add: map_of_SomeD)
  moreover have "ts' = ts" if "(k, ts', v') \<in> set (g_idempotency_cache s)" for ts' v'
    using map_of_is_SomeI [OF assms that] Some e by simp
  ultimately have "k \<in> set ?expired \<longleftrightarrow> 3600 < now - ts"
    unfolding expired_keys by blast
  moreover have "g_idempotency_cache (idempotency_cleanup now s)
      = foldl (\<lambda>c k. AList.delete k c) (g_idempotency_cache s) ?expired"
    by (simp add: idempotency_cleanup_def idempotency_ttl_def)
  ultimately show ?thesis by (simp only: foldl_delete_lookup Some e option.case prod.case)
qed

end
