(* ===== verification/Lorant_Demand.thy ===== *)
theory Lorant_Demand
  imports Lorant
begin

text \<open>
  What the proactive half of the LoRant policy guarantees: the demand targets
  (\<open>_compute_demand_targets\<close>), pool growth (\<open>get_proactive_spawns\<close>) and
  rebalancing by swaps (\<open>get_proactive_rebalances\<close>).
\<close>

section \<open>Demand targets\<close>

lemma demand_shares_in:
  "(a, t) \<in> set (demand_shares p tot rs) \<Longrightarrow> 1 \<le> t"
  by (induction rs) (auto split: if_split_asm)

lemma demand_shares_keys: "dict_keys (demand_shares p tot rs) = dict_keys (filter (\<lambda>(a, r). 0 < r) rs)"
  by (induction rs) (auto simp: not_less)

text \<open>The clamped targets: each keeps its key, and is at least 1.\<close>

definition clamp_targets :: "int \<Rightarrow> counts \<Rightarrow> counts" where
  "clamp_targets m ts =
     (if m < sum_list (dict_values ts)
      then map (\<lambda>(aid, t). (aid, max 1 (py_int (of_int t * (of_int m / of_int (sum_list (dict_values ts))))))) ts
      else ts)"

lemma compute_demand_targets_eq:
  "compute_demand_targets s rs busy m =
    (if sum_list (dict_values rs) \<le> 0 then []
     else clamp_targets m (demand_shares
            (min (py_int (of_int (busy + lr_pending_depth s + lr_recent_drops s) *
                    (1 + lr_proactive_headroom s))) m)
            (sum_list (dict_values rs)) rs))"
  by (simp add: compute_demand_targets_def clamp_targets_def Let_def)

lemma clamp_targets_keys: "dict_keys (clamp_targets m ts) = dict_keys ts"
  by (auto simp: clamp_targets_def intro!: map_cong)

lemma clamp_targets_ge:
  "\<forall>(a, t) \<in> set ts. 1 \<le> t \<Longrightarrow> (a, t) \<in> set (clamp_targets m ts) \<Longrightarrow> 1 \<le> t"
  by (auto simp: clamp_targets_def split: if_split_asm)

lemma scaled_sum_le:
  assumes "\<forall>(a, t) \<in> set ts. 0 \<le> t" and "0 \<le> c"
  shows "of_int (sum_list (dict_values (map (\<lambda>(a, t). (a, max 1 (py_int (of_int t * c)))) ts)))
    \<le> of_int (sum_list (dict_values ts)) * c + (of_nat (length ts) :: pyfloat)"
  using assms(1)
proof (induction ts)
  case Nil
  then show ?case by simp
next
  case (Cons x ts)
  obtain a t where x: "x = (a, t)" by (cases x)
  have "0 \<le> of_int t * c" using Cons.prems x assms(2) by simp
  then have "of_int (max 1 (py_int (of_int t * c))) \<le> of_int t * c + 1"
    using py_int_le [of "of_int t * c"] by (auto simp: max_def)
  then show ?case using Cons x by (auto simp: algebra_simps)
qed

lemma clamp_targets_sum:
  assumes "\<forall>(a, t) \<in> set ts. 1 \<le> t" and "0 \<le> m"
  shows "sum_list (dict_values (clamp_targets m ts)) \<le> m + int (length ts)"
proof (cases "m < sum_list (dict_values ts)")
  case True
  let ?T = "sum_list (dict_values ts)"
  let ?c = "of_int m / of_int ?T :: pyfloat"
  have "0 < ?T" using True assms(2) by simp
  have "of_int (sum_list (dict_values (clamp_targets m ts)))
      \<le> of_int ?T * ?c + (of_nat (length ts) :: pyfloat)"
    using scaled_sum_le [of ts ?c] assms \<open>0 < ?T\<close> True by (force simp: clamp_targets_def)
  also have "of_int ?T * ?c = of_int m" using \<open>0 < ?T\<close> by simp
  finally have "of_int (sum_list (dict_values (clamp_targets m ts))) \<le> (of_int (m + int (length ts)) :: pyfloat)"
    by simp
  then show ?thesis by (simp only: of_int_le_iff)
next
  case False
  then show ?thesis by (simp add: clamp_targets_def)
qed

lemma demand_targets_ge:
  "(a, t) \<in> set (compute_demand_targets s rs busy m) \<Longrightarrow> 1 \<le> t"
  using clamp_targets_ge demand_shares_in
  by (fastforce simp: compute_demand_targets_eq split: if_split_asm)

lemma demand_targets_keys:
  "set (dict_keys (compute_demand_targets s rs busy m)) \<subseteq> {a. \<exists>r. (a, r) \<in> set rs \<and> 0 < r}"
  unfolding compute_demand_targets_eq
  by (auto simp: clamp_targets_keys demand_shares_keys simp del: set_map) auto

lemma demand_targets_complete:
  "0 < sum_list (dict_values rs) \<Longrightarrow> (a, r) \<in> set rs \<Longrightarrow> 0 < r \<Longrightarrow>
     a \<in> set (dict_keys (compute_demand_targets s rs busy m))"
  unfolding compute_demand_targets_eq
  by (simp add: clamp_targets_keys demand_shares_keys del: set_map) force

lemma demand_targets_wf: "dict_wf rs \<Longrightarrow> dict_wf (compute_demand_targets s rs busy m)"
  by (simp add: compute_demand_targets_eq clamp_targets_keys demand_shares_keys distinct_map_filter)

lemma demand_targets_sum:
  assumes "0 \<le> m"
  shows "sum_list (dict_values (compute_demand_targets s rs busy m))
    \<le> m + int (length (filter (\<lambda>(a, r). 0 < r) rs))"
proof -
  have "length (demand_shares p tot rs) = length (filter (\<lambda>(a, r). 0 < r) rs)" for p tot
    by (metis demand_shares_keys length_map)
  moreover have "\<forall>(a, t) \<in> set (demand_shares p tot rs). 1 \<le> t" for p tot
    using demand_shares_in by fast
  ultimately show ?thesis
    using assms clamp_targets_sum [OF _ assms] by (fastforce simp: compute_demand_targets_eq)
qed

section \<open>Pool growth\<close>

lemma spawn_loop_bounds:
  assumes "length spawns < 40" and "spawns = [] \<or> committed + int (length spawns) \<le> m"
  shows "length (spawn_loop c ts committed m spawns) \<le> 40 \<and>
    (spawn_loop c ts committed m spawns = [] \<or>
     committed + int (length (spawn_loop c ts committed m spawns)) \<le> m)"
  using assms
proof (induction ts arbitrary: spawns)
  case (Cons x ts)
  obtain a t where x: "x = (a, t)" by (cases x)
  show ?case
    using Cons.IH [of "spawns @ [a]"] Cons.IH [of spawns] Cons.prems x by (auto simp: Let_def)
qed simp

lemma spawn_loop_in:
  "b \<in> set (spawn_loop c ts committed m spawns) \<Longrightarrow>
     b \<in> set spawns \<or> (\<exists>t. (b, t) \<in> set ts \<and> dict_get c b 0 < t)"
proof (induction ts arbitrary: spawns)
  case (Cons x ts)
  obtain a t where x: "x = (a, t)" by (cases x)
  show ?case
    using Cons.IH [of "spawns @ [a]"] Cons.IH [of spawns] Cons.prems x
    by (auto simp: Let_def split: if_split_asm)
qed simp

lemma spawn_loop_distinct:
  "distinct (spawns @ dict_keys ts) \<Longrightarrow> distinct (spawn_loop c ts committed m spawns)"
proof (induction ts arbitrary: spawns)
  case (Cons x ts)
  obtain a t where x: "x = (a, t)" by (cases x)
  show ?case
    using Cons.IH [of "spawns @ [a]"] Cons.IH [of spawns] Cons.prems x by (auto simp: Let_def)
qed simp

lemma proactive_spawns_cases:
  obtains (none) "get_proactive_spawns s ws rs n m fl = []"
  | (loop) ts where "ts = compute_demand_targets s rs (int (length (filter is_busy (dict_values ws)))) m"
      "get_proactive_spawns s ws rs n m fl =
         spawn_loop (count_workers_per_adapter ws)
           (sort_desc (\<lambda>(aid, target). target - dict_get (count_workers_per_adapter ws) aid 0) ts) (n + fl) m []"
      "n + fl < m" "n + fl < sum_list (dict_values ts)"
proof (cases "get_proactive_spawns s ws rs n m fl = []")
  case False
  then show ?thesis
    unfolding get_proactive_spawns_def Let_def
    by (intro loop [OF refl]) (simp_all add: get_proactive_spawns_def Let_def not_le split: if_split_asm)
qed (rule none)

section \<open>Rebalancing\<close>

text \<open>One iteration of the loop: it ends, skips the worker, or swaps it.\<close>

lemma rebalance_loop_cases:
  obtains (stop) "rebalance_loop rs ((wid, w) # ws) rem c k = []"
  | (skip) "rebalance_loop rs ((wid, w) # ws) rem c k = rebalance_loop rs ws rem c k"
  | (swap) t c' rem' tail where
      "rebalance_loop rs ((wid, w) # ws) rem c k = (wid, t) # tail"
      "ws_adapter_id w \<noteq> t" "t \<in> fst ` set rem" "fst ` set rem' \<subseteq> fst ` set rem"
      "\<not> (dict_get c (ws_adapter_id w) 0 \<le> 1 \<and> 0 < active_rate rs w)"
      "c' = AList.update t (dict_get (drop_worker c w) t 0 + 1) (drop_worker c w)"
      "tail = [] \<or> Suc k < 2 \<and> tail = rebalance_loop rs ws rem' c' (Suc k)"
proof (cases rem)
  case Nil
  then show ?thesis by (intro stop) simp
next
  case (Cons td rest)
  obtain t d where td: "td = (t, d)" by (cases td)
  consider "ws_adapter_id w = t" | "dict_get c (ws_adapter_id w) 0 \<le> 1 \<and> 0 < active_rate rs w"
    | (take) "ws_adapter_id w \<noteq> t" "\<not> (dict_get c (ws_adapter_id w) 0 \<le> 1 \<and> 0 < active_rate rs w)"
    by blast
  then show ?thesis
  proof cases
    case take
    let ?c' = "AList.update t (dict_get (drop_worker c w) t 0 + 1) (drop_worker c w)"
    let ?rem' = "if d - 1 \<le> 0 then rest else (t, d - 1) # rest"
    let ?tail = "if 2 \<le> Suc k then [] else rebalance_loop rs ws ?rem' ?c' (Suc k)"
    have "rebalance_loop rs ((wid, w) # ws) rem c k = (wid, t) # ?tail"
      using take Cons td by (auto simp: Let_def)
    then show ?thesis
    proof (rule swap)
      show "ws_adapter_id w \<noteq> t" by (rule take)
      show "\<not> (dict_get c (ws_adapter_id w) 0 \<le> 1 \<and> 0 < active_rate rs w)" by (rule take)
      show "?c' = ?c'" by (rule refl)
      show "t \<in> fst ` set rem" "fst ` set ?rem' \<subseteq> fst ` set rem" using Cons td by auto
      show "?tail = [] \<or> Suc k < 2 \<and> ?tail = rebalance_loop rs ws ?rem' ?c' (Suc k)" by simp
    qed
  qed (use Cons td skip in simp_all)
qed

lemma rebalance_loop_length:
  "k < 2 \<Longrightarrow> length (rebalance_loop rs ws rem c k) \<le> 2 - k"
proof (induction ws arbitrary: rem c k)
  case (Cons kw ws)
  obtain wid w where kw [simp]: "kw = (wid, w)" by (cases kw)
  show ?case
  proof (cases rule: rebalance_loop_cases [of rs wid w ws rem c k])
    case (swap t c' rem' tail)
    then show ?thesis using Cons.IH [of "Suc k" rem' c'] Cons.prems by (auto simp: numeral_2_eq_2)
  qed (use Cons in simp_all)
qed simp

lemma rebalance_loop_in:
  "(x, t) \<in> set (rebalance_loop rs ws rem c k) \<Longrightarrow>
     (\<exists>w. (x, w) \<in> set ws \<and> ws_adapter_id w \<noteq> t) \<and> t \<in> fst ` set rem"
proof (induction ws arbitrary: rem c k)
  case (Cons kw ws)
  obtain wid w where kw [simp]: "kw = (wid, w)" by (cases kw)
  show ?case
  proof (cases rule: rebalance_loop_cases [of rs wid w ws rem c k])
    case (swap u c' rem' tail)
    then show ?thesis using Cons.IH [of rem' c' "Suc k"] Cons.prems by auto
  next
    case skip
    then show ?thesis using Cons.IH [of rem c k] Cons.prems by auto
  qed (use Cons in simp)
qed simp

lemma rebalance_loop_distinct:
  "dict_wf ws \<Longrightarrow> distinct (map fst (rebalance_loop rs ws rem c k))"
proof (induction ws arbitrary: rem c k)
  case (Cons kw ws)
  obtain wid w where kw [simp]: "kw = (wid, w)" by (cases kw)
  show ?case
  proof (cases rule: rebalance_loop_cases [of rs wid w ws rem c k])
    case (swap t c' rem' tail)
    moreover have "wid \<notin> fst ` set (rebalance_loop rs ws rem' c' (Suc k))"
      using Cons.prems kw by (force dest: rebalance_loop_in)
    ultimately show ?thesis using Cons kw by auto
  qed (use Cons kw in simp_all)
qed simp

text \<open>The pool after the swaps of a rebalance have been carried out.\<close>

definition apply_swaps :: "(int \<times> adapter) list \<Rightarrow> snapshots \<Rightarrow> snapshots" where
  "apply_swaps sw ws = map (\<lambda>(wid, w). (wid, case map_of sw wid of None \<Rightarrow> w
     | Some t \<Rightarrow> w\<lparr>ws_adapter_id := t\<rparr>)) ws"

definition swapped_out :: "adapter \<Rightarrow> (int \<times> adapter) list \<Rightarrow> snapshots \<Rightarrow> int" where
  "swapped_out a sw ws =
     int (length (filter (\<lambda>(wid, w). ws_adapter_id w = a \<and> map_of sw wid \<noteq> None) ws))"

definition swapped_in :: "adapter \<Rightarrow> (int \<times> adapter) list \<Rightarrow> snapshots \<Rightarrow> int" where
  "swapped_in a sw ws = int (length (filter (\<lambda>(wid, w). map_of sw wid = Some a) ws))"

lemma holders_apply_swaps:
  "holders (apply_swaps sw ws) a = holders ws a - swapped_out a sw ws + swapped_in a sw ws"
  by (induction ws)
    (auto simp: apply_swaps_def swapped_out_def swapped_in_def split: option.splits)

lemma swapped_Nil [simp]: "swapped_out a [] ws = 0" "swapped_in a [] ws = 0"
  by (simp_all add: swapped_out_def swapped_in_def)

lemma swapped_Cons:
  assumes "wid \<notin> set (dict_keys ws)"
  shows "swapped_out a ((wid, t) # sw) ((wid, w) # ws) =
      (if ws_adapter_id w = a then 1 else 0) + swapped_out a sw ws"
    and "swapped_in a ((wid, t) # sw) ((wid, w) # ws) = (if t = a then 1 else 0) + swapped_in a sw ws"
proof -
  have "filter (\<lambda>(k, v). ws_adapter_id v = a \<and> map_of ((wid, t) # sw) k \<noteq> None) ws =
      filter (\<lambda>(k, v). ws_adapter_id v = a \<and> map_of sw k \<noteq> None) ws"
    using assms by (intro filter_cong) force+
  then show "swapped_out a ((wid, t) # sw) ((wid, w) # ws) =
      (if ws_adapter_id w = a then 1 else 0) + swapped_out a sw ws"
    by (simp add: swapped_out_def)
  have "filter (\<lambda>(k, v). map_of ((wid, t) # sw) k = Some a) ws =
      filter (\<lambda>(k, v). map_of sw k = Some a) ws"
    using assms by (intro filter_cong) force+
  then show "swapped_in a ((wid, t) # sw) ((wid, w) # ws) = (if t = a then 1 else 0) + swapped_in a sw ws"
    by (simp add: swapped_in_def)
qed

lemma swapped_skip:
  assumes "map_of sw wid = None"
  shows "swapped_out a sw ((wid, w) # ws) = swapped_out a sw ws"
    and "swapped_in a sw ((wid, w) # ws) = swapped_in a sw ws"
  using assms by (simp_all add: swapped_out_def swapped_in_def)

lemma rebalance_loop_keeps:
  assumes "truthy a" and "0 < dict_get rs a 0" and "1 \<le> dict_get c a 0" and "dict_wf ws"
  shows "swapped_out a (rebalance_loop rs ws rem c k) ws + 1
    \<le> dict_get c a 0 + swapped_in a (rebalance_loop rs ws rem c k) ws"
  using assms(3,4)
proof (induction ws arbitrary: rem c k)
  case Nil
  then show ?case by simp
next
  case (Cons kw ws)
  obtain wid w where kw [simp]: "kw = (wid, w)" by (cases kw)
  have fresh: "wid \<notin> set (dict_keys ws)" and wf: "dict_wf ws" using Cons.prems kw by auto
  have notin: "map_of (rebalance_loop rs ws rem' c' k') wid = None" for rem' c' k'
    using fresh by (force simp: map_of_None_keys dest: rebalance_loop_in)
  show ?case
  proof (cases rule: rebalance_loop_cases [of rs wid w ws rem c k])
    case stop
    then show ?thesis using Cons.prems by simp
  next
    case skip
    then show ?thesis using Cons.IH [OF Cons.prems(1) wf] by (simp add: swapped_skip notin)
  next
    case (swap t c' rem' tail)
    have c': "dict_get c' a 0 = dict_get c a 0 - (if ws_adapter_id w = a then 1 else 0)
        + (if t = a then 1 else 0)" and pos: "1 \<le> dict_get c' a 0"
    proof -
      consider "ws_adapter_id w = a" "2 \<le> dict_get c a 0" | "ws_adapter_id w \<noteq> a"
        using swap(5) assms(1,2) by (fastforce simp: active_rate_def)
      then have "dict_get c' a 0 = dict_get c a 0 - (if ws_adapter_id w = a then 1 else 0)
        + (if t = a then 1 else 0) \<and> 1 \<le> dict_get c' a 0"
        using swap(2,6) assms(1) Cons.prems(1) dict_get_drop_other [of w a c 0] dict_get_drop_same [of w c]
        by cases auto
      then show "dict_get c' a 0 = dict_get c a 0 - (if ws_adapter_id w = a then 1 else 0)
        + (if t = a then 1 else 0)" and "1 \<le> dict_get c' a 0" by auto
    qed
    have "swapped_out a tail ws + 1 \<le> dict_get c' a 0 + swapped_in a tail ws"
      using swap(7) Cons.IH [OF pos wf] pos by auto
    then show ?thesis
      using c' swap(1,2) by (simp add: swapped_Cons [OF fresh])
  qed
qed

lemma proactive_rebalances_cases:
  obtains (none) "get_proactive_rebalances s ws rs n m = []"
  | (loop) sw under where
      "get_proactive_rebalances s ws rs n m = rebalance_loop rs sw under (count_workers_per_adapter ws) 0"
      "\<exists>f :: int \<times> worker_snapshot \<Rightarrow> score. sw = sort_desc f (filter (\<lambda>(wid, w).
         \<not> (ws_status w \<noteq> ''ready'' \<or> 0 < ws_active_requests w) \<and> \<not> ws_idle_time w < lr_swap_protection s \<and>
         Fin 1 < overserve_score (ws_adapter_id w) rs (count_workers_per_adapter ws)) ws)"
      "fst ` set under \<subseteq> {a. \<exists>t. (a, t) \<in> set (compute_demand_targets s rs n m) \<and> holders ws a < t}"
proof (cases "get_proactive_rebalances s ws rs n m = []")
  case False
  let ?c = "count_workers_per_adapter ws"
  let ?f = "\<lambda>(wid :: int, w). overserve_score (ws_adapter_id w) rs ?c"
  let ?sw = "filter (\<lambda>(wid, w). \<not> (ws_status w \<noteq> ''ready'' \<or> 0 < ws_active_requests w) \<and>
     \<not> ws_idle_time w < lr_swap_protection s \<and>
     Fin 1 < overserve_score (ws_adapter_id w) rs ?c) ws"
  let ?under = "sort_desc snd (map (\<lambda>(aid, target). (aid, target - dict_get ?c aid 0))
     (filter (\<lambda>(aid, target). 0 < target - dict_get ?c aid 0) (compute_demand_targets s rs n m)))"
  have e1: "get_proactive_rebalances s ws rs n m = rebalance_loop rs (sort_desc ?f ?sw) ?under ?c 0"
    using False unfolding get_proactive_rebalances_def Let_def
    by (simp only: simp_thms if_True if_False prod.case split: if_split_asm)
  have e2: "fst ` set ?under \<subseteq>
      {a. \<exists>t. (a, t) \<in> set (compute_demand_targets s rs n m) \<and> holders ws a < t}"
    by auto
  show ?thesis by (rule loop [OF e1 _ e2]) (rule exI, rule refl)
qed (rule none)

text \<open>Swaps chosen among a selection of the workers count the same over all workers.\<close>

lemma filter_of_selected:
  assumes "dict_wf ws" and "\<And>k v. (k, v) \<in> set ws \<Longrightarrow> P (k, v) \<Longrightarrow> k \<in> set (dict_keys (filter Q ws))"
  shows "length (filter P (sort_desc f (filter Q ws))) = length (filter P ws)"
proof -
  have "Q (k, v)" if "(k, v) \<in> set ws" "P (k, v)" for k v
  proof -
    have "k \<in> set (dict_keys (filter Q ws))" using assms(2) that by blast
    then obtain u where "(k, u) \<in> set ws" "Q (k, u)" by auto
    then show ?thesis using that(1) assms(1) map_of_is_SomeI [of ws k] by (metis option.inject)
  qed
  then have "filter (\<lambda>x. Q x \<and> P x) ws = filter P ws" by (intro filter_cong) auto
  then show ?thesis
    by (simp add: sort_desc_def rev_filter [symmetric] length_filter_sort_key conj_commute del: rev_filter)
qed

lemma rebalances_kept:
  assumes wf: "dict_wf ws" and a: "truthy a" "0 < dict_get rs a 0" "1 \<le> holders ws a"
  shows "1 \<le> holders (apply_swaps (get_proactive_rebalances s ws rs n m) ws) a"
proof (cases rule: proactive_rebalances_cases [of s ws rs n m])
  case none
  then show ?thesis using a(3) by (simp add: apply_swaps_def case_prod_unfold)
next
  case (loop sw under)
  let ?L = "rebalance_loop rs sw under (count_workers_per_adapter ws) 0"
  obtain f :: "int \<times> worker_snapshot \<Rightarrow> score" and Q where sw: "sw = sort_desc f (filter Q ws)"
    using loop(2) by blast
  have wf': "dict_wf sw" using wf by (simp add: sw distinct_map_filter)
  have key: "k \<in> set (dict_keys (filter Q ws))" if mem: "map_of ?L k \<noteq> None" for k
  proof -
    obtain t where "(k, t) \<in> set ?L" using mem by (cases "map_of ?L k") (auto dest: map_of_SomeD)
    then have "k \<in> fst ` set sw" using rebalance_loop_in by force
    then show ?thesis by (simp add: sw)
  qed
  have "swapped_out a ?L sw = swapped_out a ?L ws" "swapped_in a ?L sw = swapped_in a ?L ws"
    unfolding swapped_out_def swapped_in_def sw
    by (subst filter_of_selected [OF wf]; use key in \<open>auto simp: sw\<close>)+
  then show ?thesis
    using rebalance_loop_keeps [of a rs "count_workers_per_adapter ws" sw under 0] a wf'
    by (simp add: loop(1) holders_apply_swaps)
qed

end
