(* ===== verification/Examples.thy ===== *)
theory Examples
  imports Pool_System Global_Facts Lorant_Demand
begin

text \<open>
  Small concrete inputs at which the properties of the root theory are instantiated: a
  load balancer that spawned one worker and has one queued request, and a cluster with one
  active and one idle node.
\<close>

section \<open>A load balancer\<close>

definition ex_args :: lb_args where
  "ex_args = \<lparr>la_max_workers = 2, la_base_port = 9000, la_default_adapter = Some ''a'', la_min_workers = 0,
     la_scale_down_delay = 60, la_worker_devices = [''cuda:0''], la_scheduler = None, la_scheduler_config = None,
     la_gpu_worker_caps = Some [(''cuda:0'', 1)]\<rparr>"

definition ex_lb0 :: "unit load_balancer" where
  "ex_lb0 = lb_init ex_args 6"

definition ex_rv :: reservation where
  "ex_rv = \<lparr>rv_worker_id = 0, rv_device = ''cuda:0'', rv_alive = True\<rparr>"

lemma ex_rv_alive [simp]: "rv_alive ex_rv"
  by (simp add: ex_rv_def)

definition ex_lb1 :: "unit load_balancer" where
  "ex_lb1 = snd (spawn_begin ex_lb0)"

definition ex_lb2 :: "unit load_balancer" where
  "ex_lb2 = snd (spawn_claim 1 ex_rv (Some ''a'') ex_lb1)"

definition ex_lb3 :: "unit load_balancer" where
  "ex_lb3 = spawn_ready 2 0 (Some ''a'') ex_lb2"

text \<open>One queued request for the adapter of the idle worker.\<close>

definition ex_lb4 :: "unit load_balancer" where
  "ex_lb4 = snd (enqueue 3 (Some ''a'') 3 ex_lb3)"

lemma ex_spawn_begin_fst: "fst (spawn_begin ex_lb0) = Some ex_rv"
  by code_simp

lemma ex_spawn_begin: "spawn_begin ex_lb0 = (Some ex_rv, ex_lb1)"
  using ex_spawn_begin_fst unfolding ex_lb1_def by (cases "spawn_begin ex_lb0") simp

lemma ex_reachable1: "pool_reachable ex_args 6 ([ex_rv], ex_lb1)"
  using pool_reachable.step [OF pool_reachable.init pool_step.SpawnBegin] ex_spawn_begin
  unfolding ex_lb0_def by blast

text \<open>The spawn crashes: its slot stays reserved.\<close>

lemma ex_crashed: "pool_reachable ex_args 6 ([spawn_crash ex_rv], ex_lb1)"
  using pool_reachable.step [OF ex_reachable1 pool_step.SpawnCrash [of ex_rv "[ex_rv]"]] by simp

lemma ex_reachable2: "pool_reachable ex_args 6 ([], ex_lb2)"
proof -
  have "pool_step ([ex_rv], ex_lb1) (remove1 ex_rv [ex_rv], ex_lb2)"
    by (rule pool_step.SpawnClaim [of ex_rv "[ex_rv]" 1 "Some ''a''" ex_lb1 "fst (spawn_claim 1 ex_rv (Some ''a'') ex_lb1)"])
      (simp_all add: ex_lb2_def)
  then show ?thesis using pool_reachable.step [OF ex_reachable1] by simp
qed

lemma ex_reachable3: "pool_reachable ex_args 6 ([], ex_lb3)"
  using pool_reachable.step [OF ex_reachable2 pool_step.SpawnReady] unfolding ex_lb3_def by blast

lemma ex_reachable4: "pool_reachable ex_args 6 ([], ex_lb4)"
  using pool_reachable.step [OF ex_reachable3 pool_step.Frame [OF frame_operations(1)]] unfolding ex_lb4_def by blast

lemma ex_pool_ok: "pool_ok ex_lb3" "pool_ok ex_lb4"
  using pool_reachable_inv [OF ex_reachable3] pool_reachable_inv [OF ex_reachable4]
  by (simp_all add: pool_state_inv_def pool_inv_def)

lemma ex_dispatch: "fst (dispatch_cycle 4 ex_lb4) = [] \<and>
    map_of (lb_futures (snd (dispatch_cycle 4 ex_lb4))) 0 = Some (F_Result 0)"
  by code_simp

text \<open>A burst: twelve requests for one adapter were queued within the window.\<close>

definition ex_crowd :: "unit load_balancer" where
  "ex_crowd = (lb_init (ex_args\<lparr>la_max_workers := 8\<rparr>) 6)\<lparr>lb_recent_arrivals := replicate 11 1,
     lb_pending := map (\<lambda>i. \<lparr>pr_adapter_id = Some ''a'', pr_future = i, pr_deadline = 7, pr_enqueued_at = 1,
       pr_cold = False\<rparr>) [0..<12]\<rparr>"

text \<open>The worker died while starting; a second spawn took its id.\<close>

definition ex_lb5 :: "unit load_balancer" where
  "ex_lb5 = check_worker_health 3 0 (H_Failed True) ex_lb2"

definition ex_lb6 :: "unit load_balancer" where
  "ex_lb6 = snd (spawn_claim 4 ex_rv (Some ''b'') (snd (spawn_begin ex_lb5)))"

lemma ex_reachable6: "pool_reachable ex_args 6 ([], ex_lb6)"
proof -
  have 5: "pool_reachable ex_args 6 ([], ex_lb5)"
    using pool_reachable.step [OF ex_reachable2 pool_step.Health] unfolding ex_lb5_def by blast
  have "fst (spawn_begin ex_lb5) = Some ex_rv" by code_simp
  then have begin_: "spawn_begin ex_lb5 = (Some ex_rv, snd (spawn_begin ex_lb5))" by (cases "spawn_begin ex_lb5") simp
  have "pool_step ([ex_rv], snd (spawn_begin ex_lb5)) (remove1 ex_rv [ex_rv], ex_lb6)"
    by (rule pool_step.SpawnClaim [of ex_rv "[ex_rv]" 4 "Some ''b''" _
          "fst (spawn_claim 4 ex_rv (Some ''b'') (snd (spawn_begin ex_lb5)))"]) (simp_all add: ex_lb6_def)
  then show ?thesis
    using pool_reachable.step [OF pool_reachable.step [OF 5 pool_step.SpawnBegin [OF begin_]]] by simp
qed

section \<open>Snapshots\<close>

text \<open>Two snapshots: an idle worker of adapter a, a busy one of adapter b.\<close>

definition ex_idle :: worker_snapshot where
  "ex_idle = \<lparr>ws_worker_id = 0, ws_adapter_id = Some ''a'', ws_status = ''ready'', ws_active_requests = 0,
     ws_idle_time = 90, ws_device = ''cuda:0''\<rparr>"

definition ex_busy :: worker_snapshot where
  "ex_busy = ex_idle\<lparr>ws_worker_id := 1, ws_adapter_id := Some ''b'', ws_active_requests := 1, ws_idle_time := 0\<rparr>"

definition ex_snapshots :: snapshots where
  "ex_snapshots = [(0, ex_idle), (1, ex_busy)]"

definition ex_lorant :: lorant where
  "ex_lorant = lorant_init default_sched_config (1/10) (1/5)"

section \<open>A cluster\<close>

text \<open>A node registers and becomes active; a request arrives and takes it.\<close>

definition ex_spec :: node_spec where
  "ex_spec = \<lparr>ns_host = ''h'', ns_port = 1, ns_gpu_type = ''A100'', ns_gpu_memory_gb = 80, ns_num_gpus = 1,
     ns_max_workers = 4\<rparr>"

definition ex_heartbeat :: heartbeat where
  "ex_heartbeat = \<lparr>hb_active_workers = 0, hb_loaded_adapters = [''a''], hb_aggregator_pid = Some 7,
     hb_max_workers = None, hb_num_gpus = None, hb_gpu_type = None, hb_node_metrics = None, hb_total_workers = 0,
     hb_free_workers = 0, hb_queue_depth = 0\<rparr>"

definition ex_models :: cluster_model_config where
  "ex_models = mk_model_config [(''m'', \<lparr>bm_name = ''m'', bm_model_id = ''org/m'', bm_adapters = [''a''],
     bm_adapter_paths = [], bm_gpu_memory_gb = 16, bm_max_workers = 4\<rparr>)]"

definition ex_y0 :: "unit system" where
  "ex_y0 = system_init default_controller_config ex_models (AffinityFirst 0 0)"

definition ex_nodes :: background where
  "ex_nodes = NodeRegister 1 ''n'' ex_spec (Some ''m'')"

definition ex_beat :: background where
  "ex_beat = NodeHeartbeat 2 ''n'' ''active'' ex_heartbeat None"

definition ex_c1 :: "unit controller" where
  "ex_c1 = background_step ex_beat (background_step ex_nodes (y_controller ex_y0))"

definition ex_y1 :: "unit system" where
  "ex_y1 = settle 0 (handle_arrival 3 ''a'' (Some ''k'') ex_c1) (ex_y0\<lparr>y_controller := ex_c1\<rparr>)"

definition ex_y2 :: "unit system" where
  "ex_y2 = settle 0 (the (request_step 4 Go (the (map_of (y_tasks ex_y1) 0)) (y_controller ex_y1))) ex_y1"

lemma ex_c1_reachable:
  "reachable default_controller_config ex_models (AffinityFirst 0 0) (ex_y0\<lparr>y_controller := ex_c1\<rparr>)"
proof -
  let ?reach = "reachable default_controller_config ex_models (AffinityFirst 0 0) :: unit system \<Rightarrow> bool"
  let ?y = "ex_y0\<lparr>y_controller := background_step ex_nodes (y_controller ex_y0)\<rparr>"
  have 0: "?reach ex_y0" unfolding ex_y0_def by (rule reachable.init)
  have 1: "?reach ?y" by (rule reachable.step [OF 0 gstep.Background])
  have "?reach (?y\<lparr>y_controller := background_step ex_beat (y_controller ?y)\<rparr>)"
    by (rule reachable.step [OF 1 gstep.Background])
  then show ?thesis by (simp add: ex_c1_def)
qed

lemma ex_y1_reachable: "reachable default_controller_config ex_models (AffinityFirst 0 0) ex_y1"
proof -
  have "gstep (ex_y0\<lparr>y_controller := ex_c1\<rparr>) ex_y1"
    using gstep.Arrive [of 0 "ex_y0\<lparr>y_controller := ex_c1\<rparr>" 3 "''a''" "Some ''k''"]
    by (simp add: ex_y1_def ex_y0_def system_init_def)
  with ex_c1_reachable show ?thesis by (rule reachable.step)
qed

lemma ex_y1_state: "dict_keys (y_tasks ex_y1) = [0]" "y_replies ex_y1 = []" "length (y_tasks ex_y1) = 1"
  by code_simp+

lemma ex_y2_reachable: "reachable default_controller_config ex_models (AffinityFirst 0 0) ex_y2"
proof -
  obtain t where t: "map_of (y_tasks ex_y1) 0 = Some t" by (metis ex_y1_state(1) list.set_intros(1) map_of_None_keys not_None_eq)
  have "map_option (\<lambda>t. t_phase t) (map_of (y_tasks ex_y1) 0) = Some SEEK" by code_simp
  with t have "request_step 4 Go t (y_controller ex_y1) \<noteq> None" by (simp add: request_step.simps)
  then have "gstep ex_y1 ex_y2"
    using gstep.Request [OF t, of 4 Go] unfolding ex_y2_def t option.sel by (metis option.collapse)
  with ex_y1_reachable show ?thesis by (rule reachable.step)
qed

lemma ex_y2_state:
  "map (\<lambda>(k, t). (k, t_tried t, t_phase t)) (y_tasks ex_y2) = [(0, [''n''], FORWARD ''n'')]"
  "length (rg_nodes (g_registry (y_controller ex_y2))) = 1"
  by code_simp+

end
