(* ===== verification/Paged_Cache.thy ===== *)
theory Paged_Cache
  imports Prelude
begin

text \<open>
  \<open>src/src/worker/paged_attention.py\<close>, \<open>PagedKVCache\<close>: the block manager of the key/value
  cache of one worker. A layer's tensor is the list of its blocks, a block the list of its
  elements in memory order; attention kernels write rows of blocks through
  \<open>write_block\<close>. Free blocks are a stack whose top is the end of the list. The reusable
  metadata buffers of the object are cleared or overwritten before every use and only
  their clones are returned, so they are not part of the state.

  The lemmas show that the blocks of all slots and the free list always partition the
  pool, that free blocks hold only zeros, and when an allocation fails.
\<close>

section \<open>State\<close>

type_synonym block = "pyfloat list"

record kv_cache =
  kv_num_layers :: nat
  kv_block_size :: int
  kv_max_slots :: int
  kv_max_blocks_per_seq :: int
  kv_num_blocks :: int
  kv_key_caches :: "block list list"
  kv_value_caches :: "block list list"
  kv_free_blocks :: "int list"
  kv_block_tables :: "(int, int list) dict"
  kv_seq_lens :: "(int, int) dict"

definition zero_tensor :: "nat \<Rightarrow> int \<Rightarrow> nat \<Rightarrow> block list list" where
  "zero_tensor layers blocks elements = replicate layers (replicate (nat blocks) (replicate elements 0))"

definition ceil_div :: "int \<Rightarrow> int \<Rightarrow> int" where
  "ceil_div a b = (a + b - 1) div b"

definition kv_init :: "nat \<Rightarrow> nat \<Rightarrow> nat \<Rightarrow> int \<Rightarrow> int \<Rightarrow> int \<Rightarrow> kv_cache" where
  "kv_init num_layers num_kv_heads head_dim block_size max_slots max_seq_len =
     (let max_blocks = ceil_div max_seq_len block_size;
          num_blocks = max_slots * max_blocks;
          elements = nat block_size * num_kv_heads * head_dim
      in \<lparr>kv_num_layers = num_layers, kv_block_size = block_size, kv_max_slots = max_slots,
          kv_max_blocks_per_seq = max_blocks, kv_num_blocks = num_blocks,
          kv_key_caches = zero_tensor num_layers num_blocks elements,
          kv_value_caches = zero_tensor num_layers num_blocks elements,
          kv_free_blocks = rev [0..num_blocks - 1],
          kv_block_tables = [], kv_seq_lens = []\<rparr>)"

section \<open>Operations\<close>

text \<open>\<open>[free.pop() for _ in range(n)]\<close>: the popped blocks and the rest of the stack.\<close>

fun pop_blocks :: "nat \<Rightarrow> 'a list \<Rightarrow> 'a list \<times> 'a list" where
  "pop_blocks 0 free = ([], free)"
| "pop_blocks (Suc n) free =
     (let (blocks, rest) = pop_blocks n (butlast free) in (last free # blocks, rest))"

definition allocate_blocks :: "int \<Rightarrow> int \<Rightarrow> kv_cache \<Rightarrow> py_error + kv_cache" where
  "allocate_blocks slot_id num_blocks kv =
     (if int (length (kv_free_blocks kv)) < num_blocks then Inl RuntimeError
      else
        let (blocks, rest) = pop_blocks (nat num_blocks) (kv_free_blocks kv);
            kv1 = kv\<lparr>kv_free_blocks := rest\<rparr>
        in Inr (case map_of (kv_block_tables kv) slot_id of
             Some old \<Rightarrow> kv1\<lparr>kv_block_tables := AList.update slot_id (old @ blocks) (kv_block_tables kv)\<rparr>
           | None \<Rightarrow> kv1\<lparr>kv_block_tables := AList.update slot_id blocks (kv_block_tables kv),
                         kv_seq_lens := AList.update slot_id 0 (kv_seq_lens kv)\<rparr>))"

definition ensure_blocks_for_length :: "int \<Rightarrow> int \<Rightarrow> kv_cache \<Rightarrow> py_error + kv_cache" where
  "ensure_blocks_for_length slot_id needed_len kv =
     (let needed_blocks = ceil_div needed_len (kv_block_size kv);
          current_blocks = int (length (dict_get (kv_block_tables kv) slot_id []))
      in if current_blocks < needed_blocks
         then allocate_blocks slot_id (needed_blocks - current_blocks) kv
         else Inr kv)"

text \<open>\<open>tensor.index_fill_(0, idx, 0.0)\<close> on one layer.\<close>

definition zero_blocks :: "int list \<Rightarrow> block list \<Rightarrow> block list" where
  "zero_blocks idx layer =
     map (\<lambda>i. if int i \<in> set idx then map (\<lambda>_. 0) (layer ! i) else layer ! i) [0..<length layer]"

definition free_slot :: "int \<Rightarrow> kv_cache \<Rightarrow> kv_cache" where
  "free_slot slot_id kv =
     (let blocks = dict_get (kv_block_tables kv) slot_id [];
          kv1 = kv\<lparr>kv_block_tables := AList.delete slot_id (kv_block_tables kv)\<rparr>;
          kv2 = (if blocks \<noteq> []
                 then kv1\<lparr>kv_key_caches := map (zero_blocks blocks) (kv_key_caches kv1),
                          kv_value_caches := map (zero_blocks blocks) (kv_value_caches kv1)\<rparr>
                 else kv1)
      in kv2\<lparr>kv_free_blocks := kv_free_blocks kv2 @ blocks,
             kv_seq_lens := AList.delete slot_id (kv_seq_lens kv2)\<rparr>)"

text \<open>
  \<open>get_block_table_tensor\<close> writes row \<open>i\<close> of a buffer with \<open>max_slots\<close> rows of
  \<open>max_blocks_per_seq\<close> zeroed entries; \<open>get_seq_lens_tensor\<close> entry \<open>i\<close> of a buffer with
  \<open>max_slots\<close> entries. A slot that is not in the dictionary is a \<open>KeyError\<close>, a position
  outside the buffer an \<open>IndexError\<close>.
\<close>

fun block_table_rows :: "kv_cache \<Rightarrow> int \<Rightarrow> int list \<Rightarrow> py_error + int list list" where
  "block_table_rows kv i [] = Inr []"
| "block_table_rows kv i (sid # sids) =
     (case map_of (kv_block_tables kv) sid of
        None \<Rightarrow> Inl KeyError
      | Some blocks \<Rightarrow>
          if blocks \<noteq> [] \<and> (kv_max_slots kv \<le> i \<or> kv_max_blocks_per_seq kv < int (length blocks))
          then Inl IndexError
          else (case block_table_rows kv (i + 1) sids of
                  Inl e \<Rightarrow> Inl e
                | Inr rows \<Rightarrow>
                    Inr (if i < kv_max_slots kv
                         then (blocks @ replicate (nat (kv_max_blocks_per_seq kv) - length blocks) 0) # rows
                         else rows)))"

definition get_block_table_tensor :: "int list \<Rightarrow> kv_cache \<Rightarrow> py_error + int list list" where
  "get_block_table_tensor slot_ids kv = block_table_rows kv 0 slot_ids"

fun seq_len_entries :: "kv_cache \<Rightarrow> int \<Rightarrow> int list \<Rightarrow> py_error + int list" where
  "seq_len_entries kv i [] = Inr []"
| "seq_len_entries kv i (sid # sids) =
     (case map_of (kv_seq_lens kv) sid of
        None \<Rightarrow> Inl KeyError
      | Some n \<Rightarrow>
          if kv_max_slots kv \<le> i then Inl IndexError
          else (case seq_len_entries kv (i + 1) sids of
                  Inl e \<Rightarrow> Inl e
                | Inr ns \<Rightarrow> Inr (n # ns)))"

definition get_seq_lens_tensor :: "int list \<Rightarrow> kv_cache \<Rightarrow> py_error + int list" where
  "get_seq_lens_tensor slot_ids kv = seq_len_entries kv 0 slot_ids"

text \<open>
  \<open>advance_seq_lens_by\<close>, one slot after the other. With a missing slot the lengths of
  the slots before it stay advanced, so the state comes with the error.
\<close>

fun advance_seq_lens_by :: "int list \<Rightarrow> int list \<Rightarrow> kv_cache \<Rightarrow> py_error option \<times> kv_cache" where
  "advance_seq_lens_by (sid # sids) (n # ns) kv =
     (case map_of (kv_seq_lens kv) sid of
        None \<Rightarrow> (Some KeyError, kv)
      | Some m \<Rightarrow> advance_seq_lens_by sids ns
                    (kv\<lparr>kv_seq_lens := AList.update sid (m + n) (kv_seq_lens kv)\<rparr>))"
| "advance_seq_lens_by [] ns kv = (None, kv)"
| "advance_seq_lens_by (sid # sids) [] kv = (None, kv)"

definition advance_seq_lens :: "int list \<Rightarrow> int \<Rightarrow> kv_cache \<Rightarrow> py_error option \<times> kv_cache" where
  "advance_seq_lens slot_ids n kv = advance_seq_lens_by slot_ids (replicate (length slot_ids) n) kv"

text \<open>What an attention kernel does to the cache: it stores a block of one layer.\<close>

definition write_block :: "nat \<Rightarrow> int \<Rightarrow> block \<Rightarrow> block \<Rightarrow> kv_cache \<Rightarrow> kv_cache" where
  "write_block layer b k v kv =
     kv\<lparr>kv_key_caches := (kv_key_caches kv)[layer := (kv_key_caches kv ! layer)[nat b := k]],
        kv_value_caches := (kv_value_caches kv)[layer := (kv_value_caches kv ! layer)[nat b := v]]\<rparr>"

section \<open>Invariant: the blocks are partitioned\<close>

abbreviation slot_blocks :: "int \<Rightarrow> kv_cache \<Rightarrow> int list" where
  "slot_blocks slot_id kv \<equiv> dict_get (kv_block_tables kv) slot_id []"

definition owned_blocks :: "kv_cache \<Rightarrow> int list" where
  "owned_blocks kv = concat (dict_values (kv_block_tables kv))"

definition kv_shape :: "kv_cache \<Rightarrow> bool" where
  "kv_shape kv \<longleftrightarrow> 0 < kv_block_size kv \<and> dict_wf (kv_block_tables kv) \<and> dict_wf (kv_seq_lens kv) \<and>
     set (dict_keys (kv_block_tables kv)) \<subseteq> set (dict_keys (kv_seq_lens kv)) \<and>
     (\<forall>layer \<in> set (kv_key_caches kv) \<union> set (kv_value_caches kv). length layer = nat (kv_num_blocks kv))"

definition kv_partition :: "kv_cache \<Rightarrow> bool" where
  "kv_partition kv \<longleftrightarrow> mset (kv_free_blocks kv) + mset (owned_blocks kv) = mset [0..kv_num_blocks kv - 1]"

definition kv_clean :: "kv_cache \<Rightarrow> bool" where
  "kv_clean kv \<longleftrightarrow> (\<forall>layer \<in> set (kv_key_caches kv) \<union> set (kv_value_caches kv).
     \<forall>b \<in> set (kv_free_blocks kv). \<forall>x \<in> set (layer ! nat b). x = 0)"

definition kv_inv :: "kv_cache \<Rightarrow> bool" where
  "kv_inv kv \<longleftrightarrow> kv_shape kv \<and> kv_partition kv \<and> kv_clean kv"

lemmas kv_inv_defs = kv_inv_def kv_shape_def kv_partition_def kv_clean_def

lemma pop_blocks_eq:
  "n \<le> length free \<Longrightarrow> pop_blocks n free = (take n (rev free), take (length free - n) free)"
proof (induction n arbitrary: free)
  case 0
  then show ?case by simp
next
  case (Suc n)
  then obtain ys y where "free = ys @ [y]" by (cases free rule: rev_cases) auto
  with Suc show ?case by simp
qed

lemma pop_blocks_mset:
  assumes "n \<le> length free"
  shows "mset (fst (pop_blocks n free)) + mset (snd (pop_blocks n free)) = mset free"
proof -
  have "mset (take n (rev free)) = mset (drop (length free - n) free)"
    using assms by (simp add: take_rev)
  then show ?thesis
    using assms by (simp add: pop_blocks_eq) (metis append_take_drop_id mset_append union_commute)
qed

lemma concat_values_update:
  assumes "dict_wf d"
  shows "mset (concat (dict_values (AList.update k (dict_get d k [] @ bs) d))) =
    mset (concat (dict_values d)) + mset bs"
  using assms by (induction d) (auto simp: dict_get_def map_of_None_keys)

lemma concat_values_delete:
  assumes "dict_wf d"
  shows "mset (concat (dict_values (AList.delete k d))) + mset (dict_get d k []) =
    mset (concat (dict_values d))"
  using assms
proof (induction d)
  case Nil
  then show ?case by simp
next
  case (Cons kv d)
  then show ?case
    by (cases "fst kv = k") (auto simp: dict_get_def delete_fresh)
qed

lemma block_of_slot:
  assumes "b \<in> set (slot_blocks s kv)"
  shows "b \<in> set (owned_blocks kv)"
  using assms
  by (cases "map_of (kv_block_tables kv) s")
     (auto simp: owned_blocks_def dest!: map_of_in_values)

text \<open>What the partition says: no block is in two places, none is lost.\<close>

lemma kv_partition_distinct:
  assumes "kv_partition kv"
  shows "distinct (kv_free_blocks kv @ owned_blocks kv)" and
    "set (kv_free_blocks kv) \<union> set (owned_blocks kv) = {0..<kv_num_blocks kv}"
proof -
  have m: "mset (kv_free_blocks kv @ owned_blocks kv) = mset [0..kv_num_blocks kv - 1]"
    using assms by (simp add: kv_partition_def)
  show "distinct (kv_free_blocks kv @ owned_blocks kv)"
    using mset_eq_imp_distinct_iff [OF m] by simp
  have "set (kv_free_blocks kv @ owned_blocks kv) = {0..<kv_num_blocks kv}"
    using mset_eq_setD [OF m] by auto
  then show "set (kv_free_blocks kv) \<union> set (owned_blocks kv) = {0..<kv_num_blocks kv}" by simp
qed

lemma slot_blocks_disjoint:
  assumes "distinct (concat (dict_values d))" and "s \<noteq> t"
  shows "set (dict_get d s []) \<inter> set (dict_get d t []) = {}"
  using assms(1)
proof (induction d)
  case Nil
  then show ?case by simp
next
  case (Cons kv d)
  have sub: "set (dict_get d r []) \<subseteq> set (concat (dict_values d))" for r
    by (cases "map_of d r") (force dest: map_of_in_values)+
  obtain k v where kv: "kv = (k, v)" by (cases kv)
  have step: "dict_get ((k, v) # d) r [] = (if r = k then v else dict_get d r [])" for r
    by (simp add: dict_get_def)
  show ?case using Cons assms(2) sub [of s] sub [of t] by (auto simp: kv step)
qed

lemma dict_keys_delete: "fst ` set (AList.delete k d) = fst ` set d - {k}"
  by (induction d) auto

section \<open>Every operation keeps the invariant\<close>

lemma kv_init_inv:
  assumes "0 < block_size"
  shows "kv_inv (kv_init layers heads hdim block_size max_slots max_seq_len)"
  using assms
  by (auto simp: kv_inv_defs kv_init_def Let_def owned_blocks_def zero_tensor_def nth_append)

lemma allocate_blocks_error:
  "allocate_blocks s n kv = Inl e \<longleftrightarrow> e = RuntimeError \<and> int (length (kv_free_blocks kv)) < n"
  by (auto simp: allocate_blocks_def case_prod_unfold Let_def)

text \<open>What a successful allocation does to each component of the state.\<close>

lemma allocate_blocks_result:
  assumes "allocate_blocks s n kv = Inr kv'"
  shows "\<exists>blocks rest. pop_blocks (nat n) (kv_free_blocks kv) = (blocks, rest)
    \<and> nat n \<le> length (kv_free_blocks kv)
    \<and> kv' = kv\<lparr>kv_free_blocks := rest,
        kv_block_tables := AList.update s (slot_blocks s kv @ blocks) (kv_block_tables kv),
        kv_seq_lens := (if map_of (kv_block_tables kv) s = None
                        then AList.update s 0 (kv_seq_lens kv) else kv_seq_lens kv)\<rparr>"
  using assms
  by (cases "pop_blocks (nat n) (kv_free_blocks kv)")
     (auto simp: allocate_blocks_def Let_def split: if_splits option.splits)

lemma pop_blocks_rest:
  assumes "pop_blocks n free = (blocks, rest)" and "n \<le> length free"
  shows "length blocks = n" and "length rest = length free - n" and "set rest \<subseteq> set free"
    and "mset blocks + mset rest = mset free"
  using assms pop_blocks_mset [OF assms(2)]
  by (auto simp: pop_blocks_eq dest: in_set_takeD)

lemma allocate_blocks_inv:
  assumes inv: "kv_inv kv" and alloc: "allocate_blocks s n kv = Inr kv'"
  shows "kv_inv kv'"
proof -
  obtain blocks rest where pop: "pop_blocks (nat n) (kv_free_blocks kv) = (blocks, rest)"
    and le: "nat n \<le> length (kv_free_blocks kv)"
    and kv': "kv' = kv\<lparr>kv_free_blocks := rest,
        kv_block_tables := AList.update s (slot_blocks s kv @ blocks) (kv_block_tables kv),
        kv_seq_lens := (if map_of (kv_block_tables kv) s = None
                        then AList.update s 0 (kv_seq_lens kv) else kv_seq_lens kv)\<rparr>"
    using allocate_blocks_result [OF alloc] by blast
  note rest = pop_blocks_rest [OF pop le]
  have wf: "dict_wf (kv_block_tables kv)" using inv by (simp add: kv_inv_defs)
  have "kv_partition kv'"
    using inv concat_values_update [OF wf, of s blocks] rest(4)
    by (simp add: kv_inv_def kv_partition_def kv' owned_blocks_def flip: union_assoc)
       (metis union_assoc union_commute)
  moreover have "kv_shape kv'"
    using inv by (auto simp: kv_inv_defs kv' dict_simps map_of_None_keys dom_update)
  moreover have "kv_clean kv'"
    using inv rest(3) unfolding kv_inv_def kv_clean_def kv' by (simp, blast)
  ultimately show ?thesis by (simp add: kv_inv_def)
qed

lemma ensure_blocks_inv:
  assumes "kv_inv kv" and "ensure_blocks_for_length s n kv = Inr kv'"
  shows "kv_inv kv'"
  using assms by (auto simp: ensure_blocks_for_length_def Let_def intro: allocate_blocks_inv split: if_splits)

lemma length_zero_blocks [simp]: "length (zero_blocks idx layer) = length layer"
  by (simp add: zero_blocks_def)

lemma zero_blocks_nth:
  "i < length layer \<Longrightarrow>
   zero_blocks idx layer ! i = (if int i \<in> set idx then map (\<lambda>_. 0) (layer ! i) else layer ! i)"
  by (simp add: zero_blocks_def)

lemma free_slot_fields:
  "kv_free_blocks (free_slot s kv) = kv_free_blocks kv @ slot_blocks s kv"
  "kv_block_tables (free_slot s kv) = AList.delete s (kv_block_tables kv)"
  "kv_seq_lens (free_slot s kv) = AList.delete s (kv_seq_lens kv)"
  "kv_block_size (free_slot s kv) = kv_block_size kv"
  "kv_num_blocks (free_slot s kv) = kv_num_blocks kv"
  "kv_max_slots (free_slot s kv) = kv_max_slots kv"
  "kv_max_blocks_per_seq (free_slot s kv) = kv_max_blocks_per_seq kv"
  "kv_num_layers (free_slot s kv) = kv_num_layers kv"
  by (simp_all add: free_slot_def Let_def)

lemma zero_blocks_Nil: "zero_blocks [] = (\<lambda>layer. layer)"
  by (simp add: zero_blocks_def map_nth fun_eq_iff)

lemma free_slot_caches:
  "kv_key_caches (free_slot s kv) = map (zero_blocks (slot_blocks s kv)) (kv_key_caches kv)"
  "kv_value_caches (free_slot s kv) = map (zero_blocks (slot_blocks s kv)) (kv_value_caches kv)"
  by (simp_all add: free_slot_def Let_def zero_blocks_Nil)

lemma free_slot_inv:
  assumes inv: "kv_inv kv"
  shows "kv_inv (free_slot s kv)"
proof -
  have wf: "dict_wf (kv_block_tables kv)" using inv by (simp add: kv_inv_defs)
  have part: "kv_partition kv" using inv by (simp add: kv_inv_def)
  have "kv_partition (free_slot s kv)"
    using part concat_values_delete [OF wf, of s]
    by (simp add: kv_partition_def free_slot_fields owned_blocks_def)
       (metis union_assoc union_commute)
  moreover have "kv_shape (free_slot s kv)"
    using inv by (auto simp: kv_inv_def kv_shape_def free_slot_fields free_slot_caches dict_keys_delete)
  moreover have "kv_clean (free_slot s kv)"
  proof -
    have range: "b < kv_num_blocks kv \<and> 0 \<le> b" if "b \<in> set (kv_free_blocks kv) \<union> set (slot_blocks s kv)" for b
      using that kv_partition_distinct(2) [OF part] block_of_slot [of b kv s]
      by (auto simp: set_eq_iff)
    have zero: "\<forall>x \<in> set (zero_blocks (slot_blocks s kv) layer ! nat b). x = 0"
      if "layer \<in> set (kv_key_caches kv) \<union> set (kv_value_caches kv)"
        and "b \<in> set (kv_free_blocks kv) \<union> set (slot_blocks s kv)" for layer b
    proof -
      have i: "nat b < length layer" "int (nat b) = b"
        using that(1) range [OF that(2)] inv by (auto simp: kv_inv_defs)
      show ?thesis
      proof (cases "b \<in> set (slot_blocks s kv)")
        case True
        then show ?thesis using i by (simp add: zero_blocks_nth)
      next
        case False
        then have "b \<in> set (kv_free_blocks kv)" using that(2) by blast
        then have "\<forall>x \<in> set (layer ! nat b). x = 0"
          using that(1) inv unfolding kv_inv_def kv_clean_def by blast
        then show ?thesis using False i by (simp add: zero_blocks_nth)
      qed
    qed
    show ?thesis unfolding kv_clean_def
      using zero by (auto simp: free_slot_fields free_slot_caches)
  qed
  ultimately show ?thesis by (simp add: kv_inv_def)
qed

lemma advance_frame:
  "snd (advance_seq_lens_by sids ns kv) =
     kv\<lparr>kv_seq_lens := kv_seq_lens (snd (advance_seq_lens_by sids ns kv))\<rparr>"
  by (induction sids ns kv rule: advance_seq_lens_by.induct) (auto split: option.split)

lemma advance_keys:
  "dict_wf (kv_seq_lens kv) \<Longrightarrow>
   dict_wf (kv_seq_lens (snd (advance_seq_lens_by sids ns kv))) \<and>
   set (dict_keys (kv_seq_lens (snd (advance_seq_lens_by sids ns kv)))) = set (dict_keys (kv_seq_lens kv))"
proof (induction sids ns kv rule: advance_seq_lens_by.induct)
  case (1 sid sids n ns kv)
  show ?case
  proof (cases "map_of (kv_seq_lens kv) sid")
    case None
    then show ?thesis using 1 by simp
  next
    case (Some m)
    then have "sid \<in> set (dict_keys (kv_seq_lens kv))" by (rule map_of_in_keys)
    then show ?thesis using 1 Some by (simp add: dom_update insert_absorb)
  qed
qed simp_all

lemma kv_inv_seq_lens:
  assumes "kv_inv kv" and "dict_wf l" and "set (dict_keys (kv_block_tables kv)) \<subseteq> set (dict_keys l)"
  shows "kv_inv (kv\<lparr>kv_seq_lens := l\<rparr>)"
  using assms by (simp add: kv_inv_defs owned_blocks_def)

lemma advance_inv:
  assumes "kv_inv kv"
  shows "kv_inv (snd (advance_seq_lens_by sids ns kv))"
proof -
  have wf: "dict_wf (kv_seq_lens kv)" and sub: "set (dict_keys (kv_block_tables kv)) \<subseteq> set (dict_keys (kv_seq_lens kv))"
    using assms by (simp_all add: kv_inv_defs)
  show ?thesis using advance_keys [OF wf, of sids ns] sub
    by (subst advance_frame) (intro kv_inv_seq_lens assms, simp_all)
qed

text \<open>Attention kernels write to the blocks in the table of a slot only.\<close>

lemma write_layer_in:
  "l \<in> set (caches[layer := (caches ! layer)[i := x]]) \<Longrightarrow>
   \<exists>l0 \<in> set caches. l = l0 \<or> l = l0[i := x]"
  by (cases "layer < length caches")
     (auto simp: list_update_beyond dest!: set_update_subset_insert [THEN subsetD])

lemma write_block_inv:
  assumes inv: "kv_inv kv" and b: "b \<in> set (slot_blocks s kv)"
  shows "kv_inv (write_block layer b k v kv)"
proof -
  have part: "kv_partition kv" using inv by (simp add: kv_inv_def)
  have fresh: "nat b \<noteq> nat c" if "c \<in> set (kv_free_blocks kv)" for c
  proof -
    have "b \<in> set (owned_blocks kv)" by (rule block_of_slot [OF b])
    with that kv_partition_distinct [OF part] have "b \<noteq> c" "0 \<le> b" "0 \<le> c"
      by (auto simp: set_eq_iff)
    then show ?thesis by simp
  qed
  have layers: "\<exists>l0 \<in> set (kv_key_caches kv) \<union> set (kv_value_caches kv). \<exists>x. l = l0 \<or> l = l0[nat b := x]"
    if "l \<in> set (kv_key_caches (write_block layer b k v kv)) \<union>
             set (kv_value_caches (write_block layer b k v kv))" for l
    using that by (auto simp: write_block_def dest!: write_layer_in)
  have frame: "kv_free_blocks (write_block layer b k v kv) = kv_free_blocks kv"
    "kv_block_tables (write_block layer b k v kv) = kv_block_tables kv"
    "kv_seq_lens (write_block layer b k v kv) = kv_seq_lens kv"
    "kv_num_blocks (write_block layer b k v kv) = kv_num_blocks kv"
    "kv_block_size (write_block layer b k v kv) = kv_block_size kv"
    by (simp_all add: write_block_def)
  have "kv_shape (write_block layer b k v kv)"
    using inv unfolding kv_inv_def kv_shape_def frame by (auto dest!: layers)
  moreover have "kv_clean (write_block layer b k v kv)"
    unfolding kv_clean_def frame
  proof (intro ballI)
    fix l c x
    assume l: "l \<in> set (kv_key_caches (write_block layer b k v kv)) \<union>
                set (kv_value_caches (write_block layer b k v kv))"
      and c: "c \<in> set (kv_free_blocks kv)" and x: "x \<in> set (l ! nat c)"
    obtain l0 y where l0: "l0 \<in> set (kv_key_caches kv) \<union> set (kv_value_caches kv)"
      and "l = l0 \<or> l = l0[nat b := y]" using layers [OF l] by blast
    then have "l ! nat c = l0 ! nat c" using fresh [OF c] by auto
    with x l0 c inv show "x = 0" by (auto simp: kv_inv_def kv_clean_def)
  qed
  moreover have "kv_partition (write_block layer b k v kv)"
    using part unfolding kv_partition_def owned_blocks_def frame by simp
  ultimately show ?thesis by (simp add: kv_inv_def)
qed

section \<open>What the operations return\<close>

lemma allocate_blocks_slots:
  assumes "allocate_blocks s n kv = Inr kv'"
  shows "length (slot_blocks s kv') = length (slot_blocks s kv) + nat n"
    and "take (length (slot_blocks s kv)) (slot_blocks s kv') = slot_blocks s kv"
    and "t \<noteq> s \<Longrightarrow> slot_blocks t kv' = slot_blocks t kv"
    and "set (dict_keys (kv_block_tables kv')) = insert s (set (dict_keys (kv_block_tables kv)))"
    and "length (kv_free_blocks kv') = length (kv_free_blocks kv) - nat n"
proof -
  obtain blocks rest where pop: "pop_blocks (nat n) (kv_free_blocks kv) = (blocks, rest)"
    and le: "nat n \<le> length (kv_free_blocks kv)"
    and kv': "kv_free_blocks kv' = rest"
      "kv_block_tables kv' = AList.update s (slot_blocks s kv @ blocks) (kv_block_tables kv)"
    using allocate_blocks_result [OF assms] by auto
  note rest = pop_blocks_rest [OF pop le]
  show "length (slot_blocks s kv') = length (slot_blocks s kv) + nat n"
    and "take (length (slot_blocks s kv)) (slot_blocks s kv') = slot_blocks s kv"
    and "t \<noteq> s \<Longrightarrow> slot_blocks t kv' = slot_blocks t kv"
    and "length (kv_free_blocks kv') = length (kv_free_blocks kv) - nat n"
    using rest by (simp_all add: kv')
  show "set (dict_keys (kv_block_tables kv')) = insert s (set (dict_keys (kv_block_tables kv)))"
    by (simp add: kv' dom_update)
qed

lemma allocate_blocks_frame:
  assumes "allocate_blocks s n kv = Inr kv'"
  shows "kv_key_caches kv' = kv_key_caches kv" "kv_value_caches kv' = kv_value_caches kv"
    "kv_block_size kv' = kv_block_size kv" "kv_num_blocks kv' = kv_num_blocks kv"
    "kv_max_slots kv' = kv_max_slots kv" "kv_max_blocks_per_seq kv' = kv_max_blocks_per_seq kv"
  using allocate_blocks_result [OF assms] by auto

lemma ensure_cases:
  assumes "ensure_blocks_for_length s len kv = r"
  obtains (enough) "ceil_div len (kv_block_size kv) \<le> int (length (slot_blocks s kv))" "r = Inr kv"
  | (alloc) n where "n = ceil_div len (kv_block_size kv) - int (length (slot_blocks s kv))" "0 < n"
      "allocate_blocks s n kv = r"
  using assms by (auto simp: ensure_blocks_for_length_def Let_def split: if_splits)

lemma ensure_slots:
  assumes "ensure_blocks_for_length s len kv = Inr kv'"
  shows "int (length (slot_blocks s kv')) =
      max (int (length (slot_blocks s kv))) (ceil_div len (kv_block_size kv))"
    and "take (length (slot_blocks s kv)) (slot_blocks s kv') = slot_blocks s kv"
    and "t \<noteq> s \<Longrightarrow> slot_blocks t kv' = slot_blocks t kv"
    and "set (dict_keys (kv_block_tables kv')) \<subseteq> insert s (set (dict_keys (kv_block_tables kv)))"
proof -
  show "int (length (slot_blocks s kv')) =
      max (int (length (slot_blocks s kv))) (ceil_div len (kv_block_size kv))"
    and "take (length (slot_blocks s kv)) (slot_blocks s kv') = slot_blocks s kv"
    and "t \<noteq> s \<Longrightarrow> slot_blocks t kv' = slot_blocks t kv"
    using assms by (auto elim!: ensure_cases dest: allocate_blocks_slots)
  show "set (dict_keys (kv_block_tables kv')) \<subseteq> insert s (set (dict_keys (kv_block_tables kv)))"
    using assms by (elim ensure_cases) (simp_all only: allocate_blocks_slots(4) sum.inject, auto)
qed

lemma ensure_frame:
  assumes "ensure_blocks_for_length s len kv = Inr kv'"
  shows "kv_key_caches kv' = kv_key_caches kv" "kv_value_caches kv' = kv_value_caches kv"
    "kv_block_size kv' = kv_block_size kv" "kv_num_blocks kv' = kv_num_blocks kv"
    "kv_max_slots kv' = kv_max_slots kv" "kv_max_blocks_per_seq kv' = kv_max_blocks_per_seq kv"
  using assms by (auto elim!: ensure_cases dest: allocate_blocks_frame)

text \<open>\<open>ceil_div\<close> blocks are enough for the tokens, and one fewer is not.\<close>

lemma ceil_div_enough: "0 < b \<Longrightarrow> a \<le> ceil_div a b * b"
  unfolding ceil_div_def
  using div_mult_mod_eq [of "a + b - 1" b] pos_mod_bound [of b "a + b - 1"] by linarith

lemma ceil_div_nonneg: "0 < b \<Longrightarrow> 0 \<le> a \<Longrightarrow> 0 \<le> ceil_div a b"
  by (simp add: ceil_div_def pos_imp_zdiv_nonneg_iff)

lemma ceil_div_mono: "0 < b \<Longrightarrow> a \<le> c \<Longrightarrow> ceil_div a b \<le> ceil_div c b"
  by (simp add: ceil_div_def zdiv_mono1)

lemma ceil_div_least: "0 < b \<Longrightarrow> a \<le> n * b \<Longrightarrow> ceil_div a b \<le> n"
proof -
  assume b: "0 < b" and le: "a \<le> n * b"
  have "ceil_div (n * b) b = ((b - 1) + n * b) div b" by (simp add: ceil_div_def algebra_simps)
  also have "\<dots> = n + (b - 1) div b" using b by (intro div_mult_self1) simp
  also have "\<dots> = n" using b by (simp add: div_pos_pos_trivial)
  finally show ?thesis using ceil_div_mono [OF b le] by simp
qed

section \<open>The pool never runs dry within its limits\<close>

lemma sum_lengths_bound:
  assumes "\<forall>xs \<in> set xss. int (length xs) \<le> m"
  shows "int (length (concat xss)) \<le> int (length xss) * m"
  using assms by (induction xss) (auto simp: algebra_simps)

lemma free_count:
  assumes "kv_partition kv" and "0 \<le> kv_num_blocks kv"
  shows "int (length (kv_free_blocks kv)) = kv_num_blocks kv - int (length (owned_blocks kv))"
proof -
  have "size (mset (kv_free_blocks kv) + mset (owned_blocks kv)) = size (mset [0..kv_num_blocks kv - 1])"
    using assms(1) by (simp only: kv_partition_def)
  then show ?thesis using assms(2) by simp
qed

text \<open>
  When at most \<open>max_slots\<close> slots hold blocks (the asking one included), none of them more
  than \<open>max_blocks_per_seq\<close>, a request within \<open>max_blocks_per_seq\<close> is served.
\<close>

lemma ensure_succeeds:
  assumes inv: "kv_inv kv" and pool: "kv_num_blocks kv = kv_max_slots kv * kv_max_blocks_per_seq kv"
    and m: "0 \<le> kv_max_blocks_per_seq kv"
    and per: "\<forall>t. int (length (slot_blocks t kv)) \<le> kv_max_blocks_per_seq kv"
    and slots: "int (card (insert s (set (dict_keys (kv_block_tables kv))))) \<le> kv_max_slots kv"
    and need: "ceil_div len (kv_block_size kv) \<le> kv_max_blocks_per_seq kv"
  shows "\<exists>kv'. ensure_blocks_for_length s len kv = Inr kv'"
proof (rule ccontr)
  let ?m = "kv_max_blocks_per_seq kv" and ?d = "kv_block_tables kv"
  assume no: "\<not> ?thesis"
  then obtain e where e: "ensure_blocks_for_length s len kv = Inl e"
    by (cases "ensure_blocks_for_length s len kv") auto
  then have short: "int (length (kv_free_blocks kv)) < ceil_div len (kv_block_size kv) - int (length (slot_blocks s kv))"
    by (elim ensure_cases) (auto simp: allocate_blocks_error)
  have wf: "dict_wf ?d" and part: "kv_partition kv" using inv by (auto simp: kv_inv_defs)
  have pos: "0 < card (insert s (set (dict_keys ?d)))" by (subst card_gt_0_iff) simp
  then have "0 < kv_max_slots kv" using slots by linarith
  then have nn: "0 \<le> kv_num_blocks kv" using m by (simp add: pool)
  let ?rest = "AList.delete s ?d"
  have wf': "dict_wf ?rest" using wf by simp
  have "\<forall>xs \<in> set (dict_values ?rest). int (length xs) \<le> ?m"
  proof
    fix xs assume "xs \<in> set (dict_values ?rest)"
    then obtain t where t: "map_of ?rest t = Some xs" using dict_values_iff [OF wf'] by blast
    then have "map_of ?d t = Some xs" by (auto simp: delete_conv' split: if_splits)
    then show "int (length xs) \<le> ?m" using per [THEN spec, of t] by simp
  qed
  from sum_lengths_bound [OF this]
  have b1: "int (length (concat (dict_values ?rest))) \<le> int (length ?rest) * ?m" by simp
  have "int (length ?rest) = int (card (set (dict_keys ?rest)))"
    using distinct_card [OF wf'] by simp
  also have "\<dots> \<le> kv_max_slots kv - 1"
    using slots pos by (simp add: dict_keys_delete card_insert_if card_Diff_singleton_if split: if_splits)
  finally have "int (length ?rest) * ?m \<le> (kv_max_slots kv - 1) * ?m"
    using m by (intro mult_right_mono) auto
  moreover have "length (owned_blocks kv) = length (concat (dict_values ?rest)) + length (slot_blocks s kv)"
    using arg_cong [OF concat_values_delete [OF wf, of s], of size] by (simp add: owned_blocks_def)
  ultimately show False
    using short need b1 free_count [OF part nn] by (simp add: pool left_diff_distrib)
qed

end
