(* ===== verification/Slot_Pool.thy ===== *)
theory Slot_Pool
  imports Prelude "HOL-Library.Word"
begin

text \<open>
  The slot pool of the aggregator, \<open>src/src/cpp_extensions/ext_aggregator.cpp\<close> with the
  masks of \<open>common/ipc_types.h\<close> and the signals of \<open>ext_ipc_queue.cpp\<close>: a fixed number of
  GPU buffers, a 128-bit mask of the free ones, the owner of each, and the masks of the
  shared control block. The calls run under the Python lock of one process, so a
  compare-and-swap that retries is one atomic step.

  The masks are pairs of machine words; \<open>mask_set\<close> reads one as a set of slots and the
  lemmas of the first part show each mask operation to be the set operation it stands
  for. The locale \<open>slot_allocator\<close> is what a worker and the aggregator rely on.
\<close>

unbundle bit_operations_syntax

section \<open>Masks\<close>

record slot_mask =
  sm_w0 :: "64 word"
  sm_w1 :: "64 word"

definition zero_mask :: slot_mask where
  "zero_mask = \<lparr>sm_w0 = 0, sm_w1 = 0\<rparr>"

definition one_bit :: "nat \<Rightarrow> 64 word" where
  "one_bit i = push_bit (i mod 64) 1"

definition mask_or_bit :: "nat \<Rightarrow> slot_mask \<Rightarrow> slot_mask" where
  "mask_or_bit i m =
     (if i div 64 = 0 then m\<lparr>sm_w0 := sm_w0 m OR one_bit i\<rparr> else m\<lparr>sm_w1 := sm_w1 m OR one_bit i\<rparr>)"

definition mask_clear_bit :: "nat \<Rightarrow> slot_mask \<Rightarrow> slot_mask" where
  "mask_clear_bit i m =
     (if i div 64 = 0 then m\<lparr>sm_w0 := sm_w0 m AND NOT (one_bit i)\<rparr>
      else m\<lparr>sm_w1 := sm_w1 m AND NOT (one_bit i)\<rparr>)"

definition mask_test_bit :: "nat \<Rightarrow> slot_mask \<Rightarrow> bool" where
  "mask_test_bit i m =
     (drop_bit (i mod 64) (if i div 64 = 0 then sm_w0 m else sm_w1 m) AND 1 \<noteq> 0)"

definition mask_is_zero :: "slot_mask \<Rightarrow> bool" where
  "mask_is_zero m = (sm_w0 m = 0 \<and> sm_w1 m = 0)"

text \<open>The number of trailing zeros of a word that is not zero.\<close>

definition ctz64 :: "64 word \<Rightarrow> nat" where
  "ctz64 w = length (takeWhile (\<lambda>i. \<not> bit w i) [0..<64])"

definition mask_find_first :: "slot_mask \<Rightarrow> int" where
  "mask_find_first m =
     (if sm_w0 m \<noteq> 0 then int (ctz64 (sm_w0 m))
      else if sm_w1 m \<noteq> 0 then 64 + int (ctz64 (sm_w1 m))
      else -1)"

definition mask_all_below :: "int \<Rightarrow> slot_mask" where
  "mask_all_below n =
     (if n \<le> 0 then zero_mask
      else if 128 \<le> n then \<lparr>sm_w0 = NOT 0, sm_w1 = NOT 0\<rparr>
      else if 64 \<le> n
      then \<lparr>sm_w0 = NOT 0, sm_w1 = (if n = 64 then 0 else push_bit (nat (n - 64)) 1 - 1)\<rparr>
      else \<lparr>sm_w0 = push_bit (nat n) 1 - 1, sm_w1 = 0\<rparr>)"

text \<open>The slots whose bit is set.\<close>

definition mask_set :: "slot_mask \<Rightarrow> nat set" where
  "mask_set m = {i. i < 128 \<and> (if i < 64 then bit (sm_w0 m) i else bit (sm_w1 m) (i - 64))}"

lemma bit_one_bit: "bit (one_bit i) j \<longleftrightarrow> j = i mod 64"
  by (auto simp: one_bit_def bit_simps)

lemma mod_64: "(i :: nat) < 128 \<Longrightarrow> i mod 64 = (if i < 64 then i else i - 64)"
  by (simp add: le_mod_geq)

lemma div_64: "(i :: nat) < 128 \<Longrightarrow> i div 64 = 0 \<longleftrightarrow> i < 64"
  by (simp add: div_eq_0_iff)

lemma mask_set_zero [simp]: "mask_set zero_mask = {}"
  by (simp add: mask_set_def zero_mask_def)

lemma mask_set_or: "i < 128 \<Longrightarrow> mask_set (mask_or_bit i m) = insert i (mask_set m)"
  by (auto simp: mask_set_def mask_or_bit_def bit_or_iff bit_one_bit mod_64 div_64 split: if_splits)

lemma mask_set_clear: "i < 128 \<Longrightarrow> mask_set (mask_clear_bit i m) = mask_set m - {i}"
  by (auto simp: mask_set_def mask_clear_bit_def bit_and_iff bit_not_iff bit_one_bit mod_64 div_64
      split: if_splits)

lemma mask_test_bit_iff: "i < 128 \<Longrightarrow> mask_test_bit i m \<longleftrightarrow> i \<in> mask_set m"
  by (simp add: mask_test_bit_def mask_set_def mod_64 div_64 and_one_eq bit_iff_odd_drop_bit
      odd_iff_mod_2_eq_one)

lemma word_bits_below: "(w :: 64 word) = 0 \<longleftrightarrow> (\<forall>i < 64. \<not> bit w i)"
proof
  assume "\<forall>i < 64. \<not> bit w i"
  then show "w = 0" by (intro bit_word_eqI) simp
qed simp

lemma mask_is_zero_iff: "mask_is_zero m \<longleftrightarrow> mask_set m = {}"
proof -
  have "mask_set m = {} \<longleftrightarrow> (\<forall>i < 64. \<not> bit (sm_w0 m) i) \<and> (\<forall>i < 64. \<not> bit (sm_w1 m) i)"
  proof
    assume empty: "mask_set m = {}"
    have "\<not> bit (sm_w1 m) i" if "i < 64" for i
    proof -
      have "i + 64 \<notin> mask_set m" using empty by simp
      then show ?thesis using that by (simp add: mask_set_def)
    qed
    moreover have "\<not> bit (sm_w0 m) i" if "i < 64" for i
    proof -
      have "i \<notin> mask_set m" using empty by simp
      then show ?thesis using that by (simp add: mask_set_def)
    qed
    ultimately show "(\<forall>i < 64. \<not> bit (sm_w0 m) i) \<and> (\<forall>i < 64. \<not> bit (sm_w1 m) i)" by blast
  qed (auto simp: mask_set_def)
  then show ?thesis by (simp add: mask_is_zero_def word_bits_below)
qed

lemma ctz64:
  assumes "w \<noteq> 0"
  shows "ctz64 w < 64" and "bit w (ctz64 w)" and "\<forall>j < ctz64 w. \<not> bit w j"
proof -
  let ?P = "\<lambda>i. \<not> bit w i"
  obtain i where i: "i < 64" "bit w i" using assms word_bits_below by blast
  have split: "takeWhile ?P [0..<64] @ dropWhile ?P [0..<64] = [0..<64]" by simp
  have len: "ctz64 w < 64"
  proof (rule ccontr)
    assume "\<not> ?thesis"
    then have "takeWhile ?P [0..<64] = [0..<64]"
      using length_takeWhile_le [of ?P "[0..<64]"] unfolding ctz64_def
      by (metis append_eq_conv_conj le_antisym length_upt linorder_not_less minus_nat.diff_0 split take_all)
    then show False using i by (metis atLeastLessThan_iff set_takeWhileD set_upt zero_le)
  qed
  then show "ctz64 w < 64" .
  have "\<not> ?P ([0..<64] ! ctz64 w)"
    using nth_length_takeWhile [of ?P "[0..<64]"] len by (simp add: ctz64_def)
  then show "bit w (ctz64 w)" using len by simp
  show "\<forall>j < ctz64 w. \<not> bit w j"
  proof (intro allI impI)
    fix j assume j: "j < ctz64 w"
    then have "takeWhile ?P [0..<64] ! j \<in> set (takeWhile ?P [0..<64])" by (simp add: ctz64_def)
    moreover have "takeWhile ?P [0..<64] ! j = j"
      using j len by (simp add: takeWhile_nth ctz64_def)
    ultimately show "\<not> bit w j" by (metis set_takeWhileD)
  qed
qed

lemma mask_find_first_None: "mask_set m = {} \<Longrightarrow> mask_find_first m = -1"
  using mask_is_zero_iff [of m] by (simp add: mask_is_zero_def mask_find_first_def)

lemma mask_find_first_Min:
  assumes "mask_set m \<noteq> {}"
  shows "mask_find_first m = int (Min (mask_set m))"
proof -
  have fin: "finite (mask_set m)" by (rule finite_subset [of _ "{..<128}"]) (auto simp: mask_set_def)
  have nz: "sm_w0 m \<noteq> 0 \<or> sm_w1 m \<noteq> 0"
    using assms mask_is_zero_iff [of m] by (auto simp: mask_is_zero_def)
  show ?thesis
  proof (cases "sm_w0 m = 0")
    case False
    note c = ctz64 [OF False]
    have "Min (mask_set m) = ctz64 (sm_w0 m)"
      using c by (intro Min_eqI fin) (auto simp: mask_set_def not_le [symmetric] split: if_splits)
    then show ?thesis using False by (simp add: mask_find_first_def)
  next
    case True
    with nz have "sm_w1 m \<noteq> 0" by simp
    note c = ctz64 [OF this]
    have "Min (mask_set m) = 64 + ctz64 (sm_w1 m)"
    proof (intro Min_eqI fin)
      show "64 + ctz64 (sm_w1 m) \<in> mask_set m" using c by (simp add: mask_set_def)
      fix i assume "i \<in> mask_set m"
      then have "64 \<le> i" and "bit (sm_w1 m) (i - 64)" using True by (auto simp: mask_set_def split: if_splits)
      with c(3) show "64 + ctz64 (sm_w1 m) \<le> i" by (metis le_add_diff_inverse less_diff_conv2 not_less add.commute)
    qed
    then show ?thesis using True nz by (simp add: mask_find_first_def)
  qed
qed

lemma bit_ones_below: "bit (2 ^ n - 1 :: 64 word) i \<longleftrightarrow> i < 64 \<and> i < n"
  by (simp add: bit_mask_iff flip: mask_eq_exp_minus_1)

lemma mask_set_all_below: "mask_set (mask_all_below n) = {i. i < 128 \<and> int i < n}"
  unfolding mask_all_below_def
  by (auto simp: mask_set_def bit_ones_below push_bit_of_1 bit_not_iff zero_mask_def split: if_splits)

section \<open>The pool and its control block\<close>

record slot_pool =
  sp_initialized :: bool
  sp_num_slots :: int
  sp_free :: slot_mask
  sp_owner :: "int list"
  sp_input :: "8 word list list"
  sp_output :: "8 word list list"
  sc_active :: slot_mask
  sc_joins :: slot_mask
  sc_leaves :: slot_mask
  sc_ready :: slot_mask
  sc_evicted :: slot_mask

text \<open>The device memory is not cleared by its allocation: its content is an argument.\<close>

definition init_slot_pool :: "int \<Rightarrow> 8 word list list \<Rightarrow> 8 word list list \<Rightarrow> py_error + slot_pool" where
  "init_slot_pool num_slots input output =
     (if num_slots \<le> 0 \<or> 128 < num_slots then Inl RuntimeError
      else Inr \<lparr>sp_initialized = True, sp_num_slots = num_slots, sp_free = mask_all_below num_slots,
             sp_owner = replicate (nat num_slots) (-1), sp_input = input, sp_output = output,
             sc_active = zero_mask, sc_joins = zero_mask, sc_leaves = zero_mask,
             sc_ready = zero_mask, sc_evicted = zero_mask\<rparr>)"

definition claim_slot :: "int \<Rightarrow> slot_pool \<Rightarrow> py_error + int \<times> slot_pool" where
  "claim_slot worker_id p =
     (if \<not> sp_initialized p then Inl RuntimeError
      else if mask_is_zero (sp_free p) then Inl RuntimeError
      else
        let slot_id = mask_find_first (sp_free p); i = nat slot_id
        in Inr (slot_id, p\<lparr>sp_free := mask_clear_bit i (sp_free p),
                           sp_owner := (sp_owner p)[i := worker_id],
                           sc_ready := mask_clear_bit i (sc_ready p),
                           sc_evicted := mask_clear_bit i (sc_evicted p)\<rparr>))"

definition zero_buffer :: "8 word list \<Rightarrow> 8 word list" where
  "zero_buffer b = replicate (length b) 0"

definition release_slot :: "int \<Rightarrow> int \<Rightarrow> slot_pool \<Rightarrow> py_error + slot_pool" where
  "release_slot slot_id worker_id p =
     (if \<not> sp_initialized p then Inl RuntimeError
      else if slot_id < 0 \<or> sp_num_slots p \<le> slot_id then Inl RuntimeError
      else
        let i = nat slot_id
        in if sp_owner p ! i \<noteq> worker_id then Inl RuntimeError
           else Inr (p\<lparr>sp_owner := (sp_owner p)[i := -1],
                       sp_input := (sp_input p)[i := zero_buffer (sp_input p ! i)],
                       sp_output := (sp_output p)[i := zero_buffer (sp_output p ! i)],
                       sp_free := mask_or_bit i (sp_free p),
                       sc_active := mask_clear_bit i (sc_active p)\<rparr>))"

definition get_slot_owner :: "int \<Rightarrow> slot_pool \<Rightarrow> int" where
  "get_slot_owner slot_id p =
     (if \<not> sp_initialized p \<or> slot_id < 0 \<or> sp_num_slots p \<le> slot_id then -1
      else sp_owner p ! nat slot_id)"

definition slot_signal_join :: "int \<Rightarrow> slot_pool \<Rightarrow> py_error + slot_pool" where
  "slot_signal_join slot_id p =
     (if slot_id < 0 \<or> 128 \<le> slot_id then Inl RuntimeError
      else Inr (p\<lparr>sc_joins := mask_or_bit (nat slot_id) (sc_joins p)\<rparr>))"

definition slot_signal_leave :: "int \<Rightarrow> slot_pool \<Rightarrow> py_error + slot_pool" where
  "slot_signal_leave slot_id p =
     (if slot_id < 0 \<or> 128 \<le> slot_id then Inl RuntimeError
      else Inr (p\<lparr>sc_leaves := mask_or_bit (nat slot_id) (sc_leaves p)\<rparr>))"

definition is_slot_evicted :: "int \<Rightarrow> slot_pool \<Rightarrow> bool" where
  "is_slot_evicted slot_id p =
     (if slot_id < 0 \<or> 128 \<le> slot_id then False else mask_test_bit (nat slot_id) (sc_evicted p))"

definition clear_evicted_slot :: "int \<Rightarrow> slot_pool \<Rightarrow> slot_pool" where
  "clear_evicted_slot slot_id p =
     (if slot_id < 0 \<or> 128 \<le> slot_id then p
      else p\<lparr>sc_evicted := mask_clear_bit (nat slot_id) (sc_evicted p)\<rparr>)"

section \<open>What the pool promises\<close>

text \<open>The free slots, read from the mask.\<close>

definition free_slots :: "slot_pool \<Rightarrow> int set" where
  "free_slots p = int ` mask_set (sp_free p)"

definition pool_slots :: "slot_pool \<Rightarrow> int set" where
  "pool_slots p = {0..<sp_num_slots p}"

text \<open>A free slot has no owner; the reverse fails for a claim in the name of worker \<open>-1\<close>.\<close>

definition slot_pool_ok :: "slot_pool \<Rightarrow> bool" where
  "slot_pool_ok p \<longleftrightarrow> sp_initialized p \<and> 0 < sp_num_slots p \<and> sp_num_slots p \<le> 128 \<and>
     length (sp_owner p) = nat (sp_num_slots p) \<and>
     free_slots p \<subseteq> pool_slots p \<and>
     (\<forall>s \<in> free_slots p. get_slot_owner s p = -1)"

locale slot_allocator =
  fixes ok :: "'p \<Rightarrow> bool"
    and slots :: "'p \<Rightarrow> int set"
    and free :: "'p \<Rightarrow> int set"
    and owner :: "int \<Rightarrow> 'p \<Rightarrow> 'w"
    and claim :: "'w \<Rightarrow> 'p \<Rightarrow> py_error + int \<times> 'p"
    and release :: "int \<Rightarrow> 'w \<Rightarrow> 'p \<Rightarrow> py_error + 'p"
  assumes claim_succeeds: "ok p \<Longrightarrow> free p \<noteq> {} \<Longrightarrow> \<exists>s p'. claim w p = Inr (s, p')"
    and claim_fails: "ok p \<Longrightarrow> free p = {} \<Longrightarrow> \<exists>e. claim w p = Inl e"
    and claim_gives: "ok p \<Longrightarrow> claim w p = Inr (s, p') \<Longrightarrow>
      ok p' \<and> slots p' = slots p \<and> s \<in> slots p \<and> s \<in> free p \<and> free p' = free p - {s} \<and>
      owner s p' = w \<and> (\<forall>t. t \<noteq> s \<longrightarrow> owner t p' = owner t p)"
    and release_own: "ok p \<Longrightarrow> s \<in> slots p \<Longrightarrow> owner s p = w \<Longrightarrow> \<exists>p'. release s w p = Inr p'"
    and release_gives: "ok p \<Longrightarrow> release s w p = Inr p' \<Longrightarrow>
      ok p' \<and> slots p' = slots p \<and> s \<in> slots p \<and> owner s p = w \<and> free p' = insert s (free p) \<and>
      (\<forall>t. t \<noteq> s \<longrightarrow> owner t p' = owner t p)"
begin

text \<open>Releasing slots one after the other; a refused release changes nothing.\<close>

fun release_each :: "int list \<Rightarrow> 'w \<Rightarrow> 'p \<Rightarrow> 'p" where
  "release_each [] w p = p"
| "release_each (s # ss) w p =
     release_each ss w (case release s w p of Inl e \<Rightarrow> p | Inr p' \<Rightarrow> p')"

lemma release_each_keeps:
  "ok p \<Longrightarrow> ok (release_each ss w p) \<and> slots (release_each ss w p) = slots p \<and>
    free p \<subseteq> free (release_each ss w p) \<and> free (release_each ss w p) \<subseteq> free p \<union> set ss"
proof (induction ss arbitrary: p)
  case Nil
  then show ?case by simp
next
  case (Cons s ss)
  show ?case
  proof (cases "release s w p")
    case (Inl e)
    then show ?thesis using Cons.IH [OF Cons.prems] by auto
  next
    case (Inr p')
    from release_gives [OF Cons.prems this] Cons.IH [of p'] Inr show ?thesis by auto
  qed
qed

lemma release_each_other:
  "ok p \<Longrightarrow> t \<notin> set ss \<or> owner t p \<noteq> w \<Longrightarrow>
   owner t (release_each ss w p) = owner t p \<and> (t \<in> free (release_each ss w p) \<longleftrightarrow> t \<in> free p)"
proof (induction ss arbitrary: p)
  case Nil
  then show ?case by simp
next
  case (Cons s ss)
  show ?case
  proof (cases "release s w p")
    case (Inl e)
    then show ?thesis using Cons.IH [OF Cons.prems(1)] Cons.prems(2) by auto
  next
    case (Inr p')
    note g = release_gives [OF Cons.prems(1) Inr]
    then have "t \<noteq> s" using Cons.prems(2) by auto
    with g have same: "owner t p' = owner t p" "t \<in> free p' \<longleftrightarrow> t \<in> free p" by auto
    from g Cons.prems(2) same Cons.IH [of p'] Inr show ?thesis by auto
  qed
qed

lemma release_each_frees:
  "ok p \<Longrightarrow> distinct ss \<Longrightarrow> s \<in> set ss \<Longrightarrow> s \<in> slots p \<Longrightarrow> owner s p = w \<Longrightarrow>
   s \<in> free (release_each ss w p)"
proof (induction ss arbitrary: p)
  case Nil
  then show ?case by simp
next
  case (Cons r ss)
  show ?case
  proof (cases "r = s")
    case True
    obtain p' where p': "release s w p = Inr p'" using release_own Cons.prems by blast
    then have "ok p'" "s \<in> free p'" using release_gives [OF Cons.prems(1)] by auto
    then show ?thesis using release_each_keeps [of p' ss w] p' True by auto
  next
    case False
    show ?thesis
    proof (cases "release r w p")
      case (Inl e)
      then show ?thesis using Cons False by simp
    next
      case (Inr p')
      from release_gives [OF Cons.prems(1) Inr] False Cons Inr show ?thesis by auto
    qed
  qed
qed

text \<open>A slot is handed to one claimer at a time.\<close>

lemma claim_exclusive:
  assumes "ok p" "claim w p = Inr (s, p1)" "claim v p1 = Inr (t, p2)"
  shows "s \<noteq> t"
  using claim_gives [OF assms(1,2)] claim_gives [of p1, OF _ assms(3)] by auto

end

section \<open>The pool keeps the promises\<close>

lemma mask_set_below: "mask_set m \<subseteq> {..<128}"
  by (auto simp: mask_set_def)

lemma finite_mask_set [simp]: "finite (mask_set m)"
  by (rule finite_subset [OF mask_set_below]) simp

lemma init_slot_pool_ok:
  assumes "init_slot_pool n input output = Inr p"
  shows "slot_pool_ok p \<and> free_slots p = pool_slots p \<and> sp_num_slots p = n"
proof -
  have n: "0 < n" "n \<le> 128" and p: "sp_initialized p" "sp_num_slots p = n" "sp_free p = mask_all_below n"
    "sp_owner p = replicate (nat n) (-1)"
    using assms by (auto simp: init_slot_pool_def split: if_splits)
  have "x \<in> int ` {i. i < 128 \<and> int i < n}" if "0 \<le> x" "x < n" for x
    using that n by (intro image_eqI [of _ _ "nat x"]) auto
  then have "free_slots p = {0..<n}"
    by (auto simp: free_slots_def p mask_set_all_below)
  then show ?thesis using n by (auto simp: slot_pool_ok_def p pool_slots_def get_slot_owner_def)
qed

lemma claim_slot_found:
  assumes "slot_pool_ok p" and "claim_slot w p = Inr (s, p')"
  shows "s \<in> free_slots p" and "\<forall>t \<in> free_slots p. s \<le> t"
proof -
  have ne: "mask_set (sp_free p) \<noteq> {}" and s: "s = mask_find_first (sp_free p)"
    using assms by (auto simp: claim_slot_def Let_def mask_is_zero_iff split: if_splits)
  have "s = int (Min (mask_set (sp_free p)))" using mask_find_first_Min [OF ne] s by simp
  then show "s \<in> free_slots p" and "\<forall>t \<in> free_slots p. s \<le> t"
    using Min_in [OF finite_mask_set ne] by (auto simp: free_slots_def)
qed

lemma claim_slot_fields:
  assumes "claim_slot w p = Inr (s, p')"
  shows "sp_initialized p' = sp_initialized p" "sp_num_slots p' = sp_num_slots p"
    "sp_free p' = mask_clear_bit (nat s) (sp_free p)" "sp_owner p' = (sp_owner p)[nat s := w]"
    "sp_input p' = sp_input p" "sp_output p' = sp_output p"
    "sc_ready p' = mask_clear_bit (nat s) (sc_ready p)"
    "sc_evicted p' = mask_clear_bit (nat s) (sc_evicted p)"
  using assms by (auto simp: claim_slot_def Let_def split: if_splits)

lemma free_slots_bound: "s \<in> free_slots p \<Longrightarrow> 0 \<le> s \<and> nat s < 128 \<and> s = int (nat s)"
  by (auto simp: free_slots_def mask_set_def)

lemma free_slots_clear:
  "0 \<le> s \<Longrightarrow> nat s < 128 \<Longrightarrow> sp_free p' = mask_clear_bit (nat s) (sp_free p) \<Longrightarrow>
   free_slots p' = free_slots p - {s}"
  by (auto simp: free_slots_def mask_set_clear)

lemma free_slots_or:
  "0 \<le> s \<Longrightarrow> nat s < 128 \<Longrightarrow> sp_free p' = mask_or_bit (nat s) (sp_free p) \<Longrightarrow>
   free_slots p' = insert s (free_slots p)"
  by (auto simp: free_slots_def mask_set_or)

lemma claim_slot_gives:
  assumes ok: "slot_pool_ok p" and claim: "claim_slot w p = Inr (s, p')"
  shows "slot_pool_ok p' \<and> pool_slots p' = pool_slots p \<and> s \<in> pool_slots p \<and> s \<in> free_slots p \<and>
      free_slots p' = free_slots p - {s} \<and>
      get_slot_owner s p' = w \<and> (\<forall>t. t \<noteq> s \<longrightarrow> get_slot_owner t p' = get_slot_owner t p)"
proof -
  note f = claim_slot_fields [OF claim]
  have s: "s \<in> free_slots p" by (rule claim_slot_found [OF ok claim])
  note b = free_slots_bound [OF s]
  have "s \<in> pool_slots p" using ok s by (auto simp: slot_pool_ok_def)
  then have len: "nat s < length (sp_owner p)" using ok by (auto simp: slot_pool_ok_def pool_slots_def)
  have free: "free_slots p' = free_slots p - {s}" using b f(3) by (intro free_slots_clear) auto
  have own: "get_slot_owner s p' = w" "\<forall>t. t \<noteq> s \<longrightarrow> get_slot_owner t p' = get_slot_owner t p"
    using ok len b \<open>s \<in> pool_slots p\<close>
    by (auto simp: get_slot_owner_def f slot_pool_ok_def pool_slots_def nth_list_update)
  then show ?thesis using ok free s f \<open>s \<in> pool_slots p\<close>
    by (auto simp: slot_pool_ok_def pool_slots_def)
qed

lemma release_slot_fields:
  assumes "release_slot s w p = Inr p'"
  shows "0 \<le> s" "s < sp_num_slots p" "sp_initialized p" "sp_owner p ! nat s = w"
    "sp_initialized p' = sp_initialized p" "sp_num_slots p' = sp_num_slots p"
    "sp_free p' = mask_or_bit (nat s) (sp_free p)" "sp_owner p' = (sp_owner p)[nat s := -1]"
    "sp_input p' = (sp_input p)[nat s := zero_buffer (sp_input p ! nat s)]"
    "sp_output p' = (sp_output p)[nat s := zero_buffer (sp_output p ! nat s)]"
    "sc_active p' = mask_clear_bit (nat s) (sc_active p)"
  using assms by (auto simp: release_slot_def Let_def split: if_splits)

lemma release_slot_gives:
  assumes ok: "slot_pool_ok p" and rel: "release_slot s w p = Inr p'"
  shows "slot_pool_ok p' \<and> pool_slots p' = pool_slots p \<and> s \<in> pool_slots p \<and> get_slot_owner s p = w \<and>
      free_slots p' = insert s (free_slots p) \<and>
      (\<forall>t. t \<noteq> s \<longrightarrow> get_slot_owner t p' = get_slot_owner t p)"
proof -
  note f = release_slot_fields [OF rel]
  have b: "nat s < 128" "nat s < length (sp_owner p)" using ok f(1,2) by (auto simp: slot_pool_ok_def)
  have free: "free_slots p' = insert s (free_slots p)" using f b by (intro free_slots_or) auto
  have own: "get_slot_owner s p' = -1" "\<forall>t. t \<noteq> s \<longrightarrow> get_slot_owner t p' = get_slot_owner t p"
    using ok b f by (auto simp: get_slot_owner_def nth_list_update)
  have none: "\<forall>t \<in> free_slots p'. get_slot_owner t p' = -1"
  proof
    fix t assume "t \<in> free_slots p'"
    then show "get_slot_owner t p' = -1"
      using own free ok by (cases "t = s") (auto simp: slot_pool_ok_def)
  qed
  have "slot_pool_ok p'" using ok free none f unfolding slot_pool_ok_def pool_slots_def by auto
  then show ?thesis using ok free f own(2) by (auto simp: pool_slots_def get_slot_owner_def)
qed

interpretation pool: slot_allocator slot_pool_ok pool_slots free_slots get_slot_owner claim_slot release_slot
proof
  fix p w assume ok: "slot_pool_ok p"
  show "\<exists>s p'. claim_slot w p = Inr (s, p')" if "free_slots p \<noteq> {}"
    using ok that by (auto simp: claim_slot_def Let_def slot_pool_ok_def free_slots_def mask_is_zero_iff)
  show "\<exists>e. claim_slot w p = Inl e" if "free_slots p = {}"
    using ok that by (auto simp: claim_slot_def free_slots_def mask_is_zero_iff)
next
  fix p w s p' assume "slot_pool_ok p" "claim_slot w p = Inr (s, p')"
  then show "slot_pool_ok p' \<and> pool_slots p' = pool_slots p \<and> s \<in> pool_slots p \<and> s \<in> free_slots p \<and>
      free_slots p' = free_slots p - {s} \<and> get_slot_owner s p' = w \<and>
      (\<forall>t. t \<noteq> s \<longrightarrow> get_slot_owner t p' = get_slot_owner t p)"
    by (rule claim_slot_gives)
next
  fix p s w assume "slot_pool_ok p" "s \<in> pool_slots p" "get_slot_owner s p = w"
  then show "\<exists>p'. release_slot s w p = Inr p'"
    by (auto simp: release_slot_def Let_def slot_pool_ok_def pool_slots_def get_slot_owner_def split: if_splits)
next
  fix p s w p' assume "slot_pool_ok p" "release_slot s w p = Inr p'"
  then show "slot_pool_ok p' \<and> pool_slots p' = pool_slots p \<and> s \<in> pool_slots p \<and> get_slot_owner s p = w \<and>
      free_slots p' = insert s (free_slots p) \<and> (\<forall>t. t \<noteq> s \<longrightarrow> get_slot_owner t p' = get_slot_owner t p)"
    by (rule release_slot_gives)
qed

text \<open>A released slot carries nothing of its last tenant, and no other buffer is touched.\<close>

lemma release_slot_clears:
  assumes "release_slot s w p = Inr p'" and "nat s < length (sp_input p)" "nat s < length (sp_output p)"
  shows "set (sp_input p' ! nat s) \<subseteq> {0}" "set (sp_output p' ! nat s) \<subseteq> {0}"
    and "i \<noteq> nat s \<Longrightarrow> sp_input p' ! i = sp_input p ! i \<and> sp_output p' ! i = sp_output p ! i"
  using release_slot_fields [OF assms(1)] assms(2,3) by (auto simp: zero_buffer_def)

text \<open>The masks of the control block are cleared of the new tenant's slot.\<close>

lemma claim_slot_scrubs:
  assumes "slot_pool_ok p" and "claim_slot w p = Inr (s, p')"
  shows "\<not> is_slot_evicted s p'" "nat s \<notin> mask_set (sc_ready p')"
  using free_slots_bound [OF claim_slot_found(1) [OF assms]]
  by (auto simp: is_slot_evicted_def claim_slot_fields [OF assms(2)] mask_test_bit_iff mask_set_clear)

text \<open>Both operations on every outcome.\<close>

lemma claim_slot_spec:
  assumes ok: "slot_pool_ok p"
  shows "case claim_slot w p of
        Inl err \<Rightarrow> free_slots p = {}
      | Inr (s, p') \<Rightarrow> s = Min (free_slots p) \<and> slot_pool_ok p' \<and> free_slots p' = free_slots p - {s} \<and>
          get_slot_owner s p' = w \<and> (\<forall>t. t \<noteq> s \<longrightarrow> get_slot_owner t p' = get_slot_owner t p) \<and>
          \<not> is_slot_evicted s p' \<and> nat s \<notin> mask_set (sc_ready p')"
proof (cases "claim_slot w p")
  case (Inl err)
  then show ?thesis using pool.claim_succeeds [OF ok, of w] by fastforce
next
  case (Inr r)
  obtain s p' where r: "claim_slot w p = Inr (s, p')" using Inr by (cases r) simp
  have "finite (free_slots p)" by (simp add: free_slots_def)
  then have "s = Min (free_slots p)" using claim_slot_found [OF ok r] by (intro Min_eqI [symmetric]) auto
  then show ?thesis using pool.claim_gives [OF ok r] claim_slot_scrubs [OF ok r] r by simp
qed

lemma release_slot_spec:
  assumes ok: "slot_pool_ok p"
  shows "case release_slot s w p of
        Inl err \<Rightarrow> s \<notin> pool_slots p \<or> get_slot_owner s p \<noteq> w
      | Inr p' \<Rightarrow> s \<in> pool_slots p \<and> get_slot_owner s p = w \<and> slot_pool_ok p' \<and>
          free_slots p' = insert s (free_slots p) \<and> get_slot_owner s p' = -1 \<and>
          (\<forall>t. t \<noteq> s \<longrightarrow> get_slot_owner t p' = get_slot_owner t p) \<and>
          (nat s < length (sp_input p) \<and> nat s < length (sp_output p) \<longrightarrow>
             set (sp_input p' ! nat s) \<subseteq> {0} \<and> set (sp_output p' ! nat s) \<subseteq> {0})"
proof (cases "release_slot s w p")
  case (Inl err)
  then show ?thesis using pool.release_own [OF ok, of s w] by fastforce
next
  case (Inr p')
  note g = pool.release_gives [OF ok Inr]
  then have "get_slot_owner s p' = -1" unfolding slot_pool_ok_def by blast
  then show ?thesis using g release_slot_clears(1,2) [OF Inr] Inr by simp
qed

end
