(* ===== verification/Worker_Engine.thy ===== *)
theory Worker_Engine
  imports Paged_Cache Slot_Pool Admission
begin

text \<open>
  \<open>src/src/worker/worker_sync.py\<close>, the batching engine of a worker, with the slot manager
  of \<open>slot_client.py\<close>: requests wait in a queue, get a slot of the aggregator's pool, join
  its barrier, generate token by token, and give the slot back. One thread runs the
  engine; HTTP threads only append to the queue. A token is an integer, a tensor of input
  ids the list of its tokens. The tokens sampled by the aggregator, what the attention
  kernels store, the tokenizer's output, the state of the barrier and the failures of the
  connection are inputs of the steps. The connection answers in step: that the answer to a
  claim or a release comes after its socket operation has timed out, and is then read as the
  answer to the next one, is not modelled. A future is settled when its outcome is in
  \<open>en_settled\<close>.
\<close>

section \<open>State\<close>

text \<open>\<open>slo_deadline_wall\<close> is taken from the request's JSON as it is; it need not be a number.\<close>

datatype slo_deadline = No_deadline | Deadline pyfloat | Not_a_number

record inf_request =
  rq_id :: string
  rq_prompt :: string
  rq_max_tokens :: int
  rq_do_sample :: bool
  rq_temperature :: pyfloat
  rq_top_k :: int
  rq_top_p :: pyfloat
  rq_submit_time :: pyfloat
  rq_slo_deadline_wall :: slo_deadline

text \<open>\<open>prefill_chunks\<close> is \<open>None\<close> or not empty; both read as a list.\<close>

record slot_state =
  ss_request :: inf_request
  ss_slot_id :: int
  ss_input_ids :: "int list"
  ss_generated_tokens :: "int list"
  ss_joined :: bool
  ss_prefill_chunks :: "int list list"
  ss_prompt_tokens :: int
  ss_slot_allocated_time :: pyfloat
  ss_first_token_time :: "pyfloat option"
  ss_join_time :: "pyfloat option"

datatype finish_reason = Eos | Max_tokens

datatype outcome =
    Generated "int list" int finish_reason
  | Slo_pruned
  | Failed

text \<open>Where the thread of \<open>_inference_loop\<close> stands.\<close>

datatype engine_pc = Accepting | Activating | Deciding | Generating | Completing | Failing

record engine =
  en_worker_id :: int
  en_pc :: engine_pc
  en_queue :: "inf_request list"
  en_pending :: "(int, slot_state) dict"
  en_active :: "(int, slot_state) dict"
  en_kv :: kv_cache
  en_pool :: slot_pool
  en_post_admit_s :: pyfloat
  en_post_admit_n :: int
  en_settled :: "(string \<times> outcome) list"

record engine_config =
  ec_max_seq_len :: int
  ec_prefill_chunk_size :: nat
  ec_eos_token_id :: "int option"
  ec_activation_timeout :: pyfloat
  ec_slo_s :: pyfloat

definition settle_future :: "inf_request \<Rightarrow> outcome \<Rightarrow> engine \<Rightarrow> engine" where
  "settle_future req out e = e\<lparr>en_settled := en_settled e @ [(rq_id req, out)]\<rparr>"

text \<open>\<open>if not future.done(): future.set_exception(error)\<close>.\<close>

definition fail_future :: "inf_request \<Rightarrow> engine \<Rightarrow> engine" where
  "fail_future req e = (if rq_id req \<in> fst ` set (en_settled e) then e else settle_future req Failed e)"

definition submit_request :: "inf_request \<Rightarrow> engine \<Rightarrow> engine" where
  "submit_request req e = e\<lparr>en_queue := en_queue e @ [req]\<rparr>"

section \<open>Accepting requests\<close>

text \<open>\<open>tensor.split(n, dim=1)\<close>.\<close>

function split_chunks :: "nat \<Rightarrow> 'a list \<Rightarrow> 'a list list" where
  "split_chunks n xs = (if n = 0 \<or> length xs \<le> n then [xs] else take n xs # split_chunks n (drop n xs))"
  by pat_completeness auto
termination by (relation "measure (\<lambda>(n, xs). length xs)") auto

declare split_chunks.simps [simp del]

text \<open>
  What happens to the claim and the preparation of one request: the connection is lost
  (with or without the slot granted), the preparation raises after the claim (opening the
  buffers, tokenizing), or it yields the tokens of the prompt.
\<close>

datatype accept_input = Claim_lost bool | Prepare_error | Tokens "int list"

definition take_last :: "nat \<Rightarrow> 'a list \<Rightarrow> 'a list" where
  "take_last n xs = drop (length xs - n) xs"

definition prepare_slot :: "engine_config \<Rightarrow> inf_request \<Rightarrow> int \<Rightarrow> int list \<Rightarrow> pyfloat \<Rightarrow> slot_state" where
  "prepare_slot cfg req slot_id tokens perf =
     (let input_ids = (if ec_max_seq_len cfg \<le> int (length tokens)
                       then take_last (nat (ec_max_seq_len cfg - 1)) tokens else tokens);
          seq_len = int (length input_ids);
          max_allowed = ec_max_seq_len cfg - seq_len;
          req' = (if max_allowed < rq_max_tokens req then req\<lparr>rq_max_tokens := max_allowed\<rparr> else req);
          chunks = (if int (ec_prefill_chunk_size cfg) < seq_len
                    then split_chunks (ec_prefill_chunk_size cfg) input_ids else [input_ids])
      in \<lparr>ss_request = req', ss_slot_id = slot_id, ss_input_ids = hd chunks, ss_generated_tokens = [],
          ss_joined = False, ss_prefill_chunks = tl chunks, ss_prompt_tokens = seq_len,
          ss_slot_allocated_time = perf, ss_first_token_time = None, ss_join_time = None\<rparr>)"

definition past_deadline :: "engine_config \<Rightarrow> pyfloat \<Rightarrow> inf_request \<Rightarrow> engine \<Rightarrow> py_error + bool" where
  "past_deadline cfg wall req e =
     (case rq_slo_deadline_wall req of
        No_deadline \<Rightarrow> Inr False
      | Deadline d \<Rightarrow> Inr (d < wall + post_admit_margin (en_post_admit_s e) (en_post_admit_n e) (ec_slo_s cfg))
      | Not_a_number \<Rightarrow> Inl TypeError)"

text \<open>
  One round of the loop over the queue; the result tells whether it raised. The test of the
  deadline is outside the request's \<open>try\<close> block: when it raises, the request is out of the
  queue and nowhere else. The aggregator answers a claim and a release before the socket's
  timeout of 30 seconds; a late answer, which the next question would then read, is not
  modelled.
\<close>

definition accept_one ::
  "engine_config \<Rightarrow> accept_input \<Rightarrow> pyfloat \<Rightarrow> pyfloat \<Rightarrow> engine \<Rightarrow> bool \<times> engine" where
  "accept_one cfg inp wall perf e =
     (case en_queue e of
        [] \<Rightarrow> (False, e)
      | req # rest \<Rightarrow>
          let e1 = e\<lparr>en_queue := rest\<rparr>
          in case past_deadline cfg wall req e1 of
               Inl err \<Rightarrow> (True, e1)
             | Inr past \<Rightarrow> (False, if past then settle_future req Slo_pruned e1
             else
               (case claim_slot (en_worker_id e1) (en_pool e1) of
                  Inl err \<Rightarrow> settle_future req Failed e1
                | Inr (slot_id, p) \<Rightarrow>
                    (case inp of
                       Claim_lost granted \<Rightarrow> settle_future req Failed (if granted then e1\<lparr>en_pool := p\<rparr> else e1)
                     | Prepare_error \<Rightarrow> settle_future req Failed (e1\<lparr>en_pool := p\<rparr>)
                     | Tokens tokens \<Rightarrow>
                         e1\<lparr>en_pool := p,
                            en_kv := (en_kv e1)\<lparr>kv_seq_lens := AList.update slot_id 0 (kv_seq_lens (en_kv e1))\<rparr>,
                            en_pending := AList.update slot_id (prepare_slot cfg req slot_id tokens perf)
                              (en_pending e1)\<rparr>))))"

section \<open>Slots\<close>

text \<open>
  \<open>release_slot\<close> of the slot manager: a refusal of the aggregator is only logged, a lost
  connection raises. The result tells whether it raised.
\<close>

definition manager_release :: "bool \<Rightarrow> int \<Rightarrow> engine \<Rightarrow> bool \<times> engine" where
  "manager_release up slot_id e =
     (if slot_id < 0 then (False, e)
      else if \<not> up then (True, e)
      else (False, case release_slot slot_id (en_worker_id e) (en_pool e) of
                     Inl err \<Rightarrow> e
                   | Inr p \<Rightarrow> e\<lparr>en_pool := p\<rparr>))"

definition signal_join :: "int \<Rightarrow> engine \<Rightarrow> engine" where
  "signal_join slot_id e =
     (case slot_signal_join slot_id (en_pool e) of Inl err \<Rightarrow> e | Inr p \<Rightarrow> e\<lparr>en_pool := p\<rparr>)"

definition signal_leave :: "int \<Rightarrow> engine \<Rightarrow> engine" where
  "signal_leave slot_id e =
     (case slot_signal_leave slot_id (en_pool e) of Inl err \<Rightarrow> e | Inr p \<Rightarrow> e\<lparr>en_pool := p\<rparr>)"

definition drop_kv :: "int \<Rightarrow> engine \<Rightarrow> engine" where
  "drop_kv slot_id e = e\<lparr>en_kv := free_slot slot_id (en_kv e)\<rparr>"

definition remove_active_slot :: "int \<Rightarrow> engine \<Rightarrow> engine" where
  "remove_active_slot slot_id e = e\<lparr>en_active := AList.delete slot_id (en_active e)\<rparr>"

definition add_active_slot :: "int \<Rightarrow> slot_state \<Rightarrow> engine \<Rightarrow> engine" where
  "add_active_slot slot_id st e = e\<lparr>en_active := AList.update slot_id st (en_active e)\<rparr>"

definition remove_pending :: "int \<Rightarrow> engine \<Rightarrow> engine" where
  "remove_pending slot_id e = e\<lparr>en_pending := AList.delete slot_id (en_pending e)\<rparr>"

text \<open>\<open>_teardown_slot\<close> with an error: whatever happens, the slot leaves the active set and the future fails.\<close>

definition teardown_slot :: "bool \<Rightarrow> int \<Rightarrow> slot_state \<Rightarrow> engine \<Rightarrow> engine" where
  "teardown_slot up sid st e =
     fail_future (ss_request st)
       (remove_active_slot sid (snd (manager_release up sid (signal_leave sid (drop_kv sid e)))))"

section \<open>Activation\<close>

fun join_one :: "pyfloat \<Rightarrow> engine \<Rightarrow> int \<times> slot_state \<Rightarrow> engine" where
  "join_one now e (sid, st) =
     (if ss_joined st then e
      else let e1 = signal_join sid e
           in e1\<lparr>en_pending := AList.update sid (st\<lparr>ss_joined := True, ss_join_time := Some now\<rparr>)
                (en_pending e1)\<rparr>)"

definition join_all :: "pyfloat \<Rightarrow> engine \<Rightarrow> engine" where
  "join_all now e = foldl (join_one now) e (en_pending e)"

definition join_expired :: "engine_config \<Rightarrow> pyfloat \<Rightarrow> slot_state \<Rightarrow> bool" where
  "join_expired cfg now st =
     (case ss_join_time st of
        None \<Rightarrow> False
      | Some t \<Rightarrow> t \<noteq> 0 \<and> ec_activation_timeout cfg < now - t)"

fun expire_slots :: "(int \<Rightarrow> bool) \<Rightarrow> (int \<times> slot_state) list \<Rightarrow> engine \<Rightarrow> bool \<times> engine" where
  "expire_slots up [] e = (False, e)"
| "expire_slots up ((sid, st) # rest) e =
     (case manager_release (up sid) sid (signal_leave sid (remove_pending sid e)) of
        (True, e1) \<Rightarrow> (True, e1)
      | (False, e1) \<Rightarrow> expire_slots up rest (settle_future (ss_request st) Failed e1))"

definition move_active :: "int list \<Rightarrow> engine \<Rightarrow> engine" where
  "move_active sids e =
     foldl (\<lambda>e sid. case map_of (en_pending e) sid of
         None \<Rightarrow> e
       | Some st \<Rightarrow> add_active_slot sid st (remove_pending sid e)) e sids"

text \<open>Signals every join first, then sorts the slots; the order within a slot is the code's.\<close>

definition try_activate ::
  "engine_config \<Rightarrow> pyfloat \<Rightarrow> (int \<Rightarrow> bool) \<Rightarrow> (int \<Rightarrow> bool) \<Rightarrow> engine \<Rightarrow> bool \<times> engine" where
  "try_activate cfg now is_active up e =
     (if en_pending e = [] then (False, e)
      else
        let e1 = join_all now e;
            activated = filter is_active (dict_keys (en_pending e1));
            timed_out = filter (\<lambda>(sid, st). \<not> is_active sid \<and> join_expired cfg now st) (en_pending e1)
        in (case expire_slots up timed_out e1 of
              (True, e2) \<Rightarrow> (True, e2)
            | (False, e2) \<Rightarrow> (False, move_active activated e2)))"

section \<open>One token for every active slot\<close>

text \<open>
  The inputs of one call: which releases reach the aggregator, where the computation
  raises (before or after the sequence lengths advance), the blocks the attention kernels
  store (layer, slot, position in its table, contents), the sampled tokens, the clock.
\<close>

datatype compute_error = No_error | Early_error | Late_error

record gen_input =
  gi_up :: "int \<Rightarrow> bool"
  gi_error :: compute_error
  gi_writes :: "(nat \<times> int \<times> nat \<times> block \<times> block) list"
  gi_token :: "int \<Rightarrow> int"
  gi_now :: pyfloat

fun abort_one :: "gen_input \<Rightarrow> engine \<Rightarrow> int \<times> slot_state \<Rightarrow> engine" where
  "abort_one gi e (sid, st) =
     (if is_slot_evicted sid (en_pool e)
      then teardown_slot (gi_up gi sid) sid st (e\<lparr>en_pool := clear_evicted_slot sid (en_pool e)\<rparr>)
      else e)"

definition abort_evicted :: "gen_input \<Rightarrow> engine \<Rightarrow> engine" where
  "abort_evicted gi e = foldl (abort_one gi) e (en_active e)"

definition needed_len :: "int \<Rightarrow> slot_state \<Rightarrow> engine \<Rightarrow> int" where
  "needed_len sid st e = dict_get (kv_seq_lens (en_kv e)) sid 0 + int (length (ss_input_ids st))"

fun reserve_one :: "gen_input \<Rightarrow> engine \<Rightarrow> int \<times> slot_state \<Rightarrow> engine" where
  "reserve_one gi e (sid, st) =
     (case ensure_blocks_for_length sid (needed_len sid st e) (en_kv e) of
        Inl err \<Rightarrow> teardown_slot (gi_up gi sid) sid st e
      | Inr kv \<Rightarrow> e\<lparr>en_kv := kv\<rparr>)"

definition reserve_blocks :: "gen_input \<Rightarrow> engine \<Rightarrow> engine" where
  "reserve_blocks gi e = foldl (reserve_one gi) e (en_active e)"

text \<open>Slots grouped by the number of their input tokens, and the metadata of each group.\<close>

definition qlen_groups :: "(int, slot_state) dict \<Rightarrow> (nat \<times> int list) list" where
  "qlen_groups slots =
     map (\<lambda>q. (q, map fst (filter (\<lambda>(sid, st). length (ss_input_ids st) = q) slots)))
       (remdups (map (\<lambda>(sid, st). length (ss_input_ids st)) slots))"

definition is_error :: "'a + 'b \<Rightarrow> bool" where
  "is_error r = (case r of Inl e \<Rightarrow> True | Inr x \<Rightarrow> False)"

definition attn_meta_error :: "engine \<Rightarrow> bool" where
  "attn_meta_error e =
     list_ex (\<lambda>(q, sids). is_error (get_seq_lens_tensor sids (en_kv e)) \<or>
                          is_error (get_block_table_tensor sids (en_kv e)))
       (qlen_groups (en_active e))"

definition attention_writes :: "(nat \<times> int \<times> nat \<times> block \<times> block) list \<Rightarrow> engine \<Rightarrow> engine" where
  "attention_writes ws e =
     e\<lparr>en_kv := foldl (\<lambda>kv (layer, sid, j, k, v).
          let table = dict_get (kv_block_tables kv) sid []
          in if sid \<in> set (dict_keys (en_active e)) \<and> j < length table
             then write_block layer (table ! j) k v kv else kv)
        (en_kv e) ws\<rparr>"

definition next_input :: "gen_input \<Rightarrow> int \<Rightarrow> slot_state \<Rightarrow> slot_state" where
  "next_input gi sid st =
     (let next_token = gi_token gi sid
      in case ss_prefill_chunks st of
           chunk # chunks \<Rightarrow> st\<lparr>ss_input_ids := chunk, ss_prefill_chunks := chunks\<rparr>
         | [] \<Rightarrow> st\<lparr>ss_first_token_time := (if ss_first_token_time st = None then Some (gi_now gi)
                                          else ss_first_token_time st),
                  ss_generated_tokens := ss_generated_tokens st @ [next_token],
                  ss_input_ids := [next_token]\<rparr>)"

definition compute_tokens :: "gen_input \<Rightarrow> engine \<Rightarrow> bool \<times> engine" where
  "compute_tokens gi e =
     (if attn_meta_error e then (True, e)
      else
        let e1 = attention_writes (gi_writes gi) e
        in if gi_error gi = Early_error then (True, e1)
           else
             let (err, kv) = advance_seq_lens_by (dict_keys (en_active e1))
                   (map (\<lambda>(sid, st). int (length (ss_input_ids st))) (en_active e1)) (en_kv e1);
                 e2 = e1\<lparr>en_kv := kv\<rparr>
             in if err \<noteq> None \<or> gi_error gi = Late_error then (True, e2)
                else (False, e2\<lparr>en_active := map (\<lambda>(sid, st). (sid, next_input gi sid st)) (en_active e2)\<rparr>))"

definition generate_one_token_all :: "gen_input \<Rightarrow> engine \<Rightarrow> bool \<times> engine" where
  "generate_one_token_all gi e =
     (let e1 = abort_evicted gi e
      in if en_active e1 = [] then (False, e1)
         else
           let e2 = reserve_blocks gi e1
           in if en_active e2 = [] then (False, e2) else compute_tokens gi e2)"

section \<open>Completion\<close>

definition hit_eos :: "engine_config \<Rightarrow> slot_state \<Rightarrow> bool" where
  "hit_eos cfg st =
     (ss_generated_tokens st \<noteq> [] \<and> ec_eos_token_id cfg = Some (last (ss_generated_tokens st)))"

definition reached_max :: "slot_state \<Rightarrow> bool" where
  "reached_max st = (rq_max_tokens (ss_request st) \<le> int (length (ss_generated_tokens st)))"

definition slot_done :: "engine_config \<Rightarrow> slot_state \<Rightarrow> bool" where
  "slot_done cfg st = (reached_max st \<or> hit_eos cfg st)"

definition observe_post_admit :: "slot_state \<Rightarrow> engine \<Rightarrow> engine" where
  "observe_post_admit st e =
     (case ss_first_token_time st of
        None \<Rightarrow> e
      | Some t \<Rightarrow>
          if t = 0 \<or> ss_slot_allocated_time st = 0 then e
          else
            let obs = max 0 (t - ss_slot_allocated_time st)
            in e\<lparr>en_post_admit_s := (if en_post_admit_n e = 0 then obs
                                    else 1/5 * obs + 4/5 * en_post_admit_s e),
                 en_post_admit_n := en_post_admit_n e + 1\<rparr>)"

definition finish_request :: "engine_config \<Rightarrow> slot_state \<Rightarrow> engine \<Rightarrow> engine" where
  "finish_request cfg st e =
     settle_future (ss_request st)
       (Generated (ss_generated_tokens st) (ss_prompt_tokens st) (if hit_eos cfg st then Eos else Max_tokens))
       (observe_post_admit st e)"

datatype complete_input = Complete_ok | Release_lost | Decode_error

text \<open>
  The loop over the slots, and after it the removal of the completed ones. When a release
  or the decoding of the text raises, the completed slots stay in the active set.
\<close>

fun complete_slots ::
  "engine_config \<Rightarrow> (int \<Rightarrow> complete_input) \<Rightarrow> (int \<times> slot_state) list \<Rightarrow> engine \<Rightarrow> bool \<times> int list \<times> engine" where
  "complete_slots cfg inp [] e = (False, [], e)"
| "complete_slots cfg inp ((sid, st) # rest) e =
     (if slot_done cfg st
      then (case manager_release (inp sid \<noteq> Release_lost) sid (signal_leave sid (drop_kv sid e)) of
              (True, e1) \<Rightarrow> (True, [], e1)
            | (False, e1) \<Rightarrow>
                if inp sid = Decode_error then (True, [], e1)
                else
                  let (raised, sids, e2) = complete_slots cfg inp rest (finish_request cfg st e1)
                  in (raised, sid # sids, e2))
      else complete_slots cfg inp rest e)"

definition handle_completions :: "engine_config \<Rightarrow> (int \<Rightarrow> complete_input) \<Rightarrow> engine \<Rightarrow> bool \<times> engine" where
  "handle_completions cfg inp e =
     (let (raised, completed, e1) = complete_slots cfg inp (en_active e) e
      in if raised then (True, e1)
         else (False, foldl (\<lambda>e sid. remove_active_slot sid e) e1 completed))"

section \<open>Failure of the engine\<close>

fun fail_active_one :: "(int \<Rightarrow> bool) \<Rightarrow> engine \<Rightarrow> int \<times> slot_state \<Rightarrow> engine" where
  "fail_active_one up e (sid, st) =
     remove_active_slot sid
       (snd (manager_release (up sid) sid (signal_leave sid (drop_kv sid (fail_future (ss_request st) e)))))"

definition fail_active :: "(int \<Rightarrow> bool) \<Rightarrow> engine \<Rightarrow> engine" where
  "fail_active up e = foldl (fail_active_one up) e (en_active e)"

fun fail_pending_one :: "(int \<Rightarrow> bool) \<Rightarrow> engine \<Rightarrow> int \<times> slot_state \<Rightarrow> engine" where
  "fail_pending_one up e (sid, st) = snd (manager_release (up sid) sid (fail_future (ss_request st) e))"

definition fail_pending :: "(int \<Rightarrow> bool) \<Rightarrow> engine \<Rightarrow> engine" where
  "fail_pending up e = (foldl (fail_pending_one up) e (en_pending e))\<lparr>en_pending := []\<rparr>"

definition fail_all_active_slots :: "(int \<Rightarrow> bool) \<Rightarrow> engine \<Rightarrow> engine" where
  "fail_all_active_slots up e = fail_pending up (fail_active up e)"

section \<open>The loop\<close>

definition tight_loop_break :: "engine_config \<Rightarrow> engine \<Rightarrow> bool" where
  "tight_loop_break cfg e =
     (list_ex (\<lambda>(sid, st). slot_done cfg st) (en_active e) \<or> en_queue e \<noteq> [] \<or> en_pending e \<noteq> [])"

datatype engine_event =
    Submit inf_request
  | Accept accept_input pyfloat pyfloat
  | Activate pyfloat "int \<Rightarrow> bool" "int \<Rightarrow> bool"
  | Decide
  | Generate gen_input
  | Complete "int \<Rightarrow> complete_input"
  | Fail "int \<Rightarrow> bool"
  | Pool_change slot_pool

text \<open>
  The thread moves between the places of its loop; HTTP threads submit at any time, and
  the aggregator and the other workers change the pool.
\<close>

definition engine_step :: "engine_config \<Rightarrow> engine_event \<Rightarrow> engine \<Rightarrow> engine" where
  "engine_step cfg ev e =
     (case ev of
        Submit req \<Rightarrow> submit_request req e
      | Pool_change p \<Rightarrow> e\<lparr>en_pool := p\<rparr>
      | Accept inp wall perf \<Rightarrow>
          if en_pc e \<noteq> Accepting then e
          else if en_queue e = [] then e\<lparr>en_pc := Activating\<rparr>
          else let (raised, e1) = accept_one cfg inp wall perf e
               in if raised then e1\<lparr>en_pc := Failing\<rparr> else e1
      | Activate now is_active up \<Rightarrow>
          if en_pc e \<noteq> Activating then e
          else let (raised, e1) = try_activate cfg now is_active up e
               in e1\<lparr>en_pc := (if raised then Failing else Deciding)\<rparr>
      | Decide \<Rightarrow>
          if en_pc e \<noteq> Deciding then e
          else e\<lparr>en_pc := (if en_active e = [] then Accepting else Generating)\<rparr>
      | Generate gi \<Rightarrow>
          if en_pc e \<noteq> Generating then e
          else let (raised, e1) = generate_one_token_all gi e
               in e1\<lparr>en_pc := (if raised then Failing
                              else if tight_loop_break cfg e1 then Completing else Generating)\<rparr>
      | Complete inp \<Rightarrow>
          if en_pc e \<noteq> Completing then e
          else let (raised, e1) = handle_completions cfg inp e
               in e1\<lparr>en_pc := (if raised then Failing else Accepting)\<rparr>
      | Fail up \<Rightarrow>
          if en_pc e \<noteq> Failing then e
          else (fail_all_active_slots up e)\<lparr>en_pc := Accepting\<rparr>)"

definition engine_init :: "int \<Rightarrow> kv_cache \<Rightarrow> slot_pool \<Rightarrow> engine" where
  "engine_init worker_id kv p =
     \<lparr>en_worker_id = worker_id, en_pc = Accepting, en_queue = [], en_pending = [], en_active = [],
      en_kv = kv, en_pool = p, en_post_admit_s = 0, en_post_admit_n = 0, en_settled = []\<rparr>"

end
