(* ===== verification/Engine_Slots.thy ===== *)
theory Engine_Slots
  imports Worker_Engine
begin

text \<open>
  The slots of a worker: which slots of the aggregator's pool it owns, and that the slots
  its engine holds as pending or active are among them. Every way out of the engine
  gives the slot back, as long as the connection holds and no preparation fails.
\<close>

section \<open>Frames\<close>

lemma manager_release_frame [simp]:
  "en_worker_id (snd (manager_release up s e)) = en_worker_id e"
  "en_pc (snd (manager_release up s e)) = en_pc e"
  "en_queue (snd (manager_release up s e)) = en_queue e"
  "en_pending (snd (manager_release up s e)) = en_pending e"
  "en_active (snd (manager_release up s e)) = en_active e"
  "en_kv (snd (manager_release up s e)) = en_kv e"
  "en_settled (snd (manager_release up s e)) = en_settled e"
  by (auto simp: manager_release_def split: sum.split)

lemma signal_leave_frame [simp]:
  "en_worker_id (signal_leave s e) = en_worker_id e" "en_pc (signal_leave s e) = en_pc e"
  "en_queue (signal_leave s e) = en_queue e" "en_pending (signal_leave s e) = en_pending e"
  "en_active (signal_leave s e) = en_active e" "en_kv (signal_leave s e) = en_kv e"
  "en_settled (signal_leave s e) = en_settled e"
  by (auto simp: signal_leave_def split: sum.split)

lemma signal_join_frame [simp]:
  "en_worker_id (signal_join s e) = en_worker_id e" "en_pc (signal_join s e) = en_pc e"
  "en_queue (signal_join s e) = en_queue e" "en_pending (signal_join s e) = en_pending e"
  "en_active (signal_join s e) = en_active e" "en_kv (signal_join s e) = en_kv e"
  "en_settled (signal_join s e) = en_settled e"
  by (auto simp: signal_join_def split: sum.split)

lemma drop_kv_frame [simp]:
  "en_worker_id (drop_kv s e) = en_worker_id e" "en_pc (drop_kv s e) = en_pc e"
  "en_queue (drop_kv s e) = en_queue e" "en_pending (drop_kv s e) = en_pending e"
  "en_active (drop_kv s e) = en_active e" "en_pool (drop_kv s e) = en_pool e"
  "en_settled (drop_kv s e) = en_settled e" "en_kv (drop_kv s e) = free_slot s (en_kv e)"
  by (simp_all add: drop_kv_def)

lemma fail_future_frame [simp]:
  "en_worker_id (fail_future r e) = en_worker_id e" "en_pc (fail_future r e) = en_pc e"
  "en_queue (fail_future r e) = en_queue e" "en_pending (fail_future r e) = en_pending e"
  "en_active (fail_future r e) = en_active e" "en_pool (fail_future r e) = en_pool e"
  "en_kv (fail_future r e) = en_kv e"
  by (simp_all add: fail_future_def settle_future_def)

lemma settle_frame [simp]:
  "en_worker_id (settle_future r out e) = en_worker_id e" "en_pc (settle_future r out e) = en_pc e"
  "en_queue (settle_future r out e) = en_queue e" "en_pending (settle_future r out e) = en_pending e"
  "en_active (settle_future r out e) = en_active e" "en_pool (settle_future r out e) = en_pool e"
  "en_kv (settle_future r out e) = en_kv e" "en_settled (settle_future r out e) = en_settled e @ [(rq_id r, out)]"
  by (simp_all add: settle_future_def)

lemma observe_frame [simp]:
  "en_worker_id (observe_post_admit st e) = en_worker_id e" "en_pc (observe_post_admit st e) = en_pc e"
  "en_queue (observe_post_admit st e) = en_queue e" "en_pending (observe_post_admit st e) = en_pending e"
  "en_active (observe_post_admit st e) = en_active e" "en_pool (observe_post_admit st e) = en_pool e"
  "en_kv (observe_post_admit st e) = en_kv e" "en_settled (observe_post_admit st e) = en_settled e"
  by (auto simp: observe_post_admit_def Let_def split: option.split)

lemma finish_request_frame [simp]:
  "en_worker_id (finish_request cfg st e) = en_worker_id e" "en_pc (finish_request cfg st e) = en_pc e"
  "en_queue (finish_request cfg st e) = en_queue e" "en_pending (finish_request cfg st e) = en_pending e"
  "en_active (finish_request cfg st e) = en_active e" "en_pool (finish_request cfg st e) = en_pool e"
  "en_kv (finish_request cfg st e) = en_kv e"
  "map fst (en_settled (finish_request cfg st e)) = map fst (en_settled e) @ [rq_id (ss_request st)]"
  by (simp_all add: finish_request_def)

lemma teardown_frame [simp]:
  "en_worker_id (teardown_slot up s st e) = en_worker_id e" "en_pc (teardown_slot up s st e) = en_pc e"
  "en_queue (teardown_slot up s st e) = en_queue e" "en_pending (teardown_slot up s st e) = en_pending e"
  "en_active (teardown_slot up s st e) = AList.delete s (en_active e)"
  "en_kv (teardown_slot up s st e) = free_slot s (en_kv e)"
  by (simp_all add: teardown_slot_def remove_active_slot_def)

section \<open>Folding over the slots\<close>

text \<open>
  A loop over a snapshot of the slots, whose step keeps an invariant and touches no entry
  but its own, sees every entry as it was.
\<close>

lemma foldl_items:
  assumes "dict_wf xs" and "set xs \<subseteq> set (entries e)" and "I e"
    and step: "\<And>e sid st. I e \<Longrightarrow> (sid, st) \<in> set (entries e) \<Longrightarrow>
      I (f e (sid, st)) \<and> (\<forall>y \<in> set (entries e). fst y \<noteq> sid \<longrightarrow> y \<in> set (entries (f e (sid, st))))"
  shows "I (foldl f e xs)"
  using assms(1-3)
proof (induction xs arbitrary: e)
  case Nil
  then show ?case by simp
next
  case (Cons x xs)
  obtain sid st where x: "x = (sid, st)" by (cases x)
  have s: "I (f e x)" "\<forall>y \<in> set (entries e). fst y \<noteq> sid \<longrightarrow> y \<in> set (entries (f e x))"
    using step [of e sid st] Cons.prems x by auto
  have "fst y \<noteq> sid" if "y \<in> set xs" for y using Cons.prems(1) that x by force
  then have "set xs \<subseteq> set (entries (f e x))" using s(2) Cons.prems(2) by auto
  then show ?case using Cons.IH [of "f e x"] s(1) Cons.prems(1) by simp
qed

lemma in_delete: "y \<in> set d \<Longrightarrow> fst y \<noteq> k \<Longrightarrow> y \<in> set (AList.delete k d)"
  by (induction d) auto

lemma in_dict_keys: "(k, v) \<in> set d \<Longrightarrow> k \<in> fst ` set d"
  by force

lemma in_update: "y \<in> set d \<Longrightarrow> fst y \<noteq> k \<Longrightarrow> y \<in> set (AList.update k v d)"
  by (induction d) auto

section \<open>The slots a worker owns\<close>

definition owned :: "engine \<Rightarrow> int set" where
  "owned e = {s. get_slot_owner s (en_pool e) = en_worker_id e}"

abbreviation pending_keys :: "engine \<Rightarrow> int set" where
  "pending_keys e \<equiv> fst ` set (en_pending e)"

abbreviation active_keys :: "engine \<Rightarrow> int set" where
  "active_keys e \<equiv> fst ` set (en_active e)"

definition slots_inv :: "engine \<Rightarrow> bool" where
  "slots_inv e \<longleftrightarrow> slot_pool_ok (en_pool e) \<and> 0 \<le> en_worker_id e \<and>
     dict_wf (en_pending e) \<and> dict_wf (en_active e) \<and>
     pending_keys e \<inter> active_keys e = {} \<and> pending_keys e \<subseteq> owned e"

definition active_owned :: "engine \<Rightarrow> bool" where
  "active_owned e \<longleftrightarrow> active_keys e \<subseteq> owned e"

definition nothing_lost :: "engine \<Rightarrow> bool" where
  "nothing_lost e \<longleftrightarrow> owned e \<subseteq> pending_keys e \<union> active_keys e"

lemma owned_free:
  assumes "slots_inv e" and "s \<in> free_slots (en_pool e)"
  shows "s \<notin> owned e"
  using assms by (auto simp: slots_inv_def owned_def slot_pool_ok_def)

lemma manager_release_owned:
  assumes ok: "slot_pool_ok (en_pool e)" and w: "0 \<le> en_worker_id e"
  shows "slot_pool_ok (en_pool (snd (manager_release up s e)))"
    and "owned (snd (manager_release up s e)) = (if up then owned e - {s} else owned e)"
proof -
  have neg: "s \<notin> owned e" if "s < 0" using that w by (auto simp: owned_def get_slot_owner_def)
  show "slot_pool_ok (en_pool (snd (manager_release up s e)))"
    using ok pool.release_gives [OF ok] by (auto simp: manager_release_def split: sum.split)
  show "owned (snd (manager_release up s e)) = (if up then owned e - {s} else owned e)"
  proof (cases "up \<and> 0 \<le> s")
    case False
    then show ?thesis using neg by (auto simp: manager_release_def)
  next
    case True
    show ?thesis
    proof (cases "release_slot s (en_worker_id e) (en_pool e)")
      case (Inl err)
      then have "s \<notin> owned e"
        using ok w by (auto simp: release_slot_def Let_def owned_def get_slot_owner_def slot_pool_ok_def
            split: if_splits)
      then show ?thesis using True Inl by (auto simp: manager_release_def owned_def)
    next
      case (Inr p')
      note g = pool.release_gives [OF ok Inr]
      then have "get_slot_owner s p' = -1" by (auto simp: slot_pool_ok_def)
      then show ?thesis using True Inr g w by (auto simp: manager_release_def owned_def)
    qed
  qed
qed

lemma signal_pool:
  assumes "slot_pool_ok (en_pool e)"
  shows "slot_pool_ok (en_pool (signal_leave s e))" "owned (signal_leave s e) = owned e"
    "slot_pool_ok (en_pool (signal_join s e))" "owned (signal_join s e) = owned e"
  using assms
  by (auto simp: signal_leave_def signal_join_def slot_signal_leave_def slot_signal_join_def
      slot_pool_ok_def free_slots_def pool_slots_def get_slot_owner_def owned_def split: sum.split if_splits)

lemma owned_cong: "en_pool e' = en_pool e \<Longrightarrow> en_worker_id e' = en_worker_id e \<Longrightarrow> owned e' = owned e"
  by (simp add: owned_def)

text \<open>Leaving the barrier and giving the slot back, in whatever order the futures are settled.\<close>

definition gave_back :: "bool \<Rightarrow> int \<Rightarrow> engine \<Rightarrow> engine \<Rightarrow> bool" where
  "gave_back up s e e' \<longleftrightarrow> slot_pool_ok (en_pool e') \<and> en_worker_id e' = en_worker_id e \<and>
     owned e' = (if up then owned e - {s} else owned e)"

lemma leave_release:
  assumes "slot_pool_ok (en_pool e)" and "0 \<le> en_worker_id e"
  shows "gave_back up s e (snd (manager_release up s (signal_leave s e)))"
  using manager_release_owned [of "signal_leave s e" up s] signal_pool(1,2) [OF assms(1), of s] assms
  by (simp add: gave_back_def)

lemma gave_back_cong:
  assumes "gave_back up s e e'" "en_pool f = en_pool e" "en_worker_id f = en_worker_id e"
    "en_pool f' = en_pool e'" "en_worker_id f' = en_worker_id e'"
  shows "gave_back up s f f'"
  using assms owned_cong [of f e] owned_cong [of f' e'] by (simp add: gave_back_def)

lemma teardown_gave_back:
  assumes "slot_pool_ok (en_pool e)" and "0 \<le> en_worker_id e"
  shows "gave_back up s e (teardown_slot up s st e)"
proof -
  have "gave_back up s (drop_kv s e) (snd (manager_release up s (signal_leave s (drop_kv s e))))"
    using assms by (intro leave_release) simp_all
  then show ?thesis
    by (rule gave_back_cong) (simp_all add: teardown_slot_def remove_active_slot_def)
qed

text \<open>Giving back a slot and dropping it from the active set.\<close>

lemma drop_active_slots:
  assumes inv: "slots_inv e" and mem: "s \<in> active_keys e" and g: "gave_back up s e e'"
    and e': "en_pending e' = en_pending e" "en_active e' = AList.delete s (en_active e)"
  shows "slots_inv e'" and "active_owned e \<Longrightarrow> active_owned e'"
    and "up \<Longrightarrow> nothing_lost e \<Longrightarrow> nothing_lost e'"
proof -
  have out: "s \<notin> pending_keys e" using inv mem by (auto simp: slots_inv_def)
  show "slots_inv e'"
    using inv out g by (auto simp: slots_inv_def gave_back_def e' dict_keys_delete)
  show "active_owned e \<Longrightarrow> active_owned e'"
    using g by (auto simp: active_owned_def gave_back_def e' dict_keys_delete)
  show "up \<Longrightarrow> nothing_lost e \<Longrightarrow> nothing_lost e'"
    using g by (auto simp: nothing_lost_def gave_back_def e' dict_keys_delete)
qed

lemma teardown_slots:
  assumes inv: "slots_inv e" and mem: "s \<in> active_keys e"
  shows "slots_inv (teardown_slot up s st e)"
    and "active_owned e \<Longrightarrow> active_owned (teardown_slot up s st e)"
    and "up \<Longrightarrow> nothing_lost e \<Longrightarrow> nothing_lost (teardown_slot up s st e)"
proof -
  have "gave_back up s e (teardown_slot up s st e)"
    using inv by (intro teardown_gave_back) (auto simp: slots_inv_def)
  from drop_active_slots [OF inv mem this]
  show "slots_inv (teardown_slot up s st e)"
    and "active_owned e \<Longrightarrow> active_owned (teardown_slot up s st e)"
    and "up \<Longrightarrow> nothing_lost e \<Longrightarrow> nothing_lost (teardown_slot up s st e)" by simp_all
qed

text \<open>The invariant a loop over the active slots keeps when each turn drops its slot or nothing.\<close>

definition slots_kept :: "bool \<Rightarrow> engine \<Rightarrow> engine \<Rightarrow> bool" where
  "slots_kept up e e' \<longleftrightarrow> slots_inv e' \<and> (active_owned e \<longrightarrow> active_owned e') \<and>
     (up \<and> nothing_lost e \<longrightarrow> nothing_lost e') \<and> en_worker_id e' = en_worker_id e \<and>
     en_pending e' = en_pending e"

lemma slots_kept_refl: "slots_inv e \<Longrightarrow> slots_kept up e e"
  by (simp add: slots_kept_def)

lemma slots_kept_trans: "slots_kept up e e1 \<Longrightarrow> slots_kept up e1 e2 \<Longrightarrow> slots_kept up e e2"
  by (auto simp: slots_kept_def)

lemma slots_kept_same:
  assumes "slots_inv e" "slot_pool_ok (en_pool e')" "owned e' = owned e" "en_pending e' = en_pending e"
    "map fst (en_active e') = map fst (en_active e)" "en_worker_id e' = en_worker_id e"
  shows "slots_kept up e e'"
proof -
  have "active_keys e' = active_keys e" using arg_cong [OF assms(5), of set] by simp
  then show ?thesis using assms
    by (simp add: slots_kept_def slots_inv_def active_owned_def nothing_lost_def)
qed

lemma foldl_active_slots:
  assumes inv: "slots_inv e"
    and step: "\<And>e sid st. slots_inv e \<Longrightarrow> (sid, st) \<in> set (en_active e) \<Longrightarrow>
      slots_kept up e (f e (sid, st)) \<and>
      (en_active (f e (sid, st)) = en_active e \<or> en_active (f e (sid, st)) = AList.delete sid (en_active e))"
  shows "slots_kept up e (foldl f e (en_active e))"
proof (rule foldl_items [where entries = en_active and I = "slots_kept up e"])
  show "dict_wf (en_active e)" using inv by (simp add: slots_inv_def)
  show "slots_kept up e e" using inv by (rule slots_kept_refl)
  fix e' :: engine and sid st assume e': "slots_kept up e e'" "(sid, st) \<in> set (en_active e')"
  then have "slots_inv e'" by (simp add: slots_kept_def)
  from step [OF this e'(2)] e'(1)
  show "slots_kept up e (f e' (sid, st)) \<and>
      (\<forall>y \<in> set (en_active e'). fst y \<noteq> sid \<longrightarrow> y \<in> set (en_active (f e' (sid, st))))"
    by (metis in_delete slots_kept_trans)
qed simp

lemma teardown_kept:
  assumes "slots_inv e" and "(s, st) \<in> set (en_active e)" and "up \<longrightarrow> up'"
  shows "slots_kept up e (teardown_slot up' s st e)"
  using teardown_slots [OF assms(1) in_dict_keys [OF assms(2)], of up' st] assms(3)
  by (simp add: slots_kept_def)

lemma clear_evicted_pool:
  "slot_pool_ok (clear_evicted_slot s p) = slot_pool_ok p"
  "get_slot_owner t (clear_evicted_slot s p) = get_slot_owner t p"
  by (auto simp: clear_evicted_slot_def slot_pool_ok_def free_slots_def pool_slots_def get_slot_owner_def)

lemma abort_evicted_slots:
  assumes inv: "slots_inv e" and up: "up \<longrightarrow> (\<forall>s. gi_up gi s)"
  shows "slots_kept up e (abort_evicted gi e)"
  unfolding abort_evicted_def
proof (rule foldl_active_slots [OF inv])
  fix e :: engine and sid st assume e: "slots_inv e" "(sid, st) \<in> set (en_active e)"
  let ?c = "e\<lparr>en_pool := clear_evicted_slot sid (en_pool e)\<rparr>"
  have c: "slots_kept up e ?c"
    using e(1) by (intro slots_kept_same) (simp_all add: clear_evicted_pool slots_inv_def owned_def)
  then have "slots_inv ?c" by (simp add: slots_kept_def)
  from teardown_kept [OF this, of sid st up "gi_up gi sid"] e(2) up
  have "slots_kept up ?c (teardown_slot (gi_up gi sid) sid st ?c)" by simp
  from slots_kept_trans [OF c this] show "slots_kept up e (abort_one gi e (sid, st)) \<and>
      (en_active (abort_one gi e (sid, st)) = en_active e \<or>
       en_active (abort_one gi e (sid, st)) = AList.delete sid (en_active e))"
    using slots_kept_refl [OF e(1)] by simp
qed

lemma reserve_blocks_slots:
  assumes inv: "slots_inv e" and up: "up \<longrightarrow> (\<forall>s. gi_up gi s)"
  shows "slots_kept up e (reserve_blocks gi e)"
  unfolding reserve_blocks_def
proof (rule foldl_active_slots [OF inv])
  fix e :: engine and sid st assume e: "slots_inv e" "(sid, st) \<in> set (en_active e)"
  have kv: "slots_kept up e (e\<lparr>en_kv := kv\<rparr>)" for kv
    using e(1) by (intro slots_kept_same) (simp_all add: owned_def slots_inv_def)
  show "slots_kept up e (reserve_one gi e (sid, st)) \<and>
      (en_active (reserve_one gi e (sid, st)) = en_active e \<or>
       en_active (reserve_one gi e (sid, st)) = AList.delete sid (en_active e))"
    using teardown_kept [OF e, of up "gi_up gi sid"] up kv by (simp split: sum.split)
qed

lemma compute_tokens_slots:
  assumes "slots_inv e"
  shows "slots_kept up e (snd (compute_tokens gi e))"
proof -
  have keys: "map fst (map (\<lambda>(sid, st). (sid, next_input gi sid st)) d) = map fst d" for d
    by (induction d) auto
  show ?thesis
    using assms keys by (intro slots_kept_same)
      (auto simp: compute_tokens_def attention_writes_def Let_def case_prod_unfold slots_inv_def owned_def)
qed

lemma generate_slots:
  assumes inv: "slots_inv e" and up: "up \<longrightarrow> (\<forall>s. gi_up gi s)"
  shows "slots_kept up e (snd (generate_one_token_all gi e))"
proof -
  note a = abort_evicted_slots [OF inv up]
  then have ia: "slots_inv (abort_evicted gi e)" by (simp add: slots_kept_def)
  note b = reserve_blocks_slots [OF ia up]
  then have ib: "slots_inv (reserve_blocks gi (abort_evicted gi e))" by (simp add: slots_kept_def)
  note c = compute_tokens_slots [OF ib, of up gi]
  show ?thesis
    using a slots_kept_trans [OF a b] slots_kept_trans [OF slots_kept_trans [OF a b] c]
    by (simp add: generate_one_token_all_def Let_def)
qed

section \<open>Completion and failure\<close>

text \<open>
  While the loop of \<open>_handle_completions\<close> runs, the slots it has released are still in the
  active set; they are given back exactly once, and removed at its end unless it raises.
\<close>

lemma complete_slots_ConsE:
  assumes "complete_slots cfg inp ((sid, st) # rest) e = (raised, sids, e')"
  obtains (skip) "\<not> slot_done cfg st" "complete_slots cfg inp rest e = (raised, sids, e')"
  | (stop) "slot_done cfg st" "raised" "sids = []"
      "e' = snd (manager_release (inp sid \<noteq> Release_lost) sid (signal_leave sid (drop_kv sid e)))"
  | (finish) e1 sids' where "slot_done cfg st" "inp sid \<noteq> Decode_error" "sids = sid # sids'"
      "manager_release (inp sid \<noteq> Release_lost) sid (signal_leave sid (drop_kv sid e)) = (False, e1)"
      "complete_slots cfg inp rest (finish_request cfg st e1) = (raised, sids', e')"
proof (cases "slot_done cfg st")
  case False
  then show thesis using assms by (intro skip) simp_all
next
  case True
  obtain b e1 where m: "manager_release (inp sid \<noteq> Release_lost) sid (signal_leave sid (drop_kv sid e)) = (b, e1)"
    by (cases "manager_release (inp sid \<noteq> Release_lost) sid (signal_leave sid (drop_kv sid e))")
  show thesis
  proof (cases "b \<or> inp sid = Decode_error")
    case b: True
    show thesis using assms True m b by (intro stop) (auto split: bool.splits if_splits)
  next
    case b: False
    obtain r' sids' e2 where c: "complete_slots cfg inp rest (finish_request cfg st e1) = (r', sids', e2)"
      by (cases "complete_slots cfg inp rest (finish_request cfg st e1)")
    show thesis using assms True m b c by (intro finish [of sids' e1]) simp_all
  qed
qed

lemma complete_slots_frame:
  "complete_slots cfg inp xs e = (raised, sids, e') \<Longrightarrow>
    en_pending e' = en_pending e \<and> en_active e' = en_active e \<and> en_worker_id e' = en_worker_id e \<and>
    en_queue e' = en_queue e \<and> en_pc e' = en_pc e \<and> set sids \<subseteq> fst ` set xs"
proof (induction xs arbitrary: e raised sids)
  case Nil
  then show ?case by simp
next
  case (Cons x xs)
  obtain sid st where x: "x = (sid, st)" by (cases x)
  from Cons.prems [unfolded x] show ?case
  proof (cases rule: complete_slots_ConsE)
    case skip
    then show ?thesis using Cons.IH by (auto simp: x)
  next
    case stop
    then show ?thesis by (simp add: x)
  next
    case (finish e1 sids')
    have "e1 = snd (manager_release (inp sid \<noteq> Release_lost) sid (signal_leave sid (drop_kv sid e)))"
      using finish(4) by simp
    then show ?thesis using Cons.IH [OF finish(5)] finish(3) by (auto simp: x)
  qed
qed

lemma complete_slots_owned:
  "slot_pool_ok (en_pool e) \<Longrightarrow> 0 \<le> en_worker_id e \<Longrightarrow>
   complete_slots cfg inp xs e = (raised, sids, e') \<Longrightarrow>
   slot_pool_ok (en_pool e') \<and> owned e' \<subseteq> owned e \<and> owned e - fst ` set xs \<subseteq> owned e' \<and>
   (\<not> raised \<longrightarrow> owned e' = owned e - set sids)"
proof (induction xs arbitrary: e raised sids)
  case Nil
  then show ?case by auto
next
  case (Cons x xs)
  obtain sid st where x: "x = (sid, st)" by (cases x)
  let ?up = "inp sid \<noteq> Release_lost" and ?d = "drop_kv sid e"
  let ?e1 = "snd (manager_release ?up sid (signal_leave sid ?d))"
  have d: "owned ?d = owned e" by (simp add: owned_def)
  have "gave_back ?up sid ?d ?e1" using leave_release [of ?d ?up sid] Cons.prems(1,2) by simp
  then have g: "slot_pool_ok (en_pool ?e1)" "owned ?e1 = (if ?up then owned e - {sid} else owned e)"
    by (simp_all add: gave_back_def d)
  from Cons.prems(3) [unfolded x] show ?case
  proof (cases rule: complete_slots_ConsE)
    case skip
    then show ?thesis using Cons.IH [OF Cons.prems(1,2)] by (auto simp: x)
  next
    case stop
    then show ?thesis using g by (auto simp: x)
  next
    case (finish e1 sids')
    have e1: "e1 = ?e1" using finish(4) by simp
    have "?up \<or> sid < 0" using finish(4) by (auto simp: manager_release_def split: if_splits)
    moreover have "sid \<notin> owned e" if "sid < 0" using that Cons.prems(2) by (auto simp: owned_def get_slot_owner_def)
    ultimately have o1: "owned e1 = owned e - {sid}" using g(2) e1 by auto
    let ?e2 = "finish_request cfg st e1"
    have "owned ?e2 = owned e1" by (simp add: owned_def)
    moreover have "slot_pool_ok (en_pool ?e2)" "0 \<le> en_worker_id ?e2" using g(1) e1 Cons.prems(2) by simp_all
    ultimately show ?thesis using Cons.IH [OF _ _ finish(5)] o1 finish(3) by (auto simp: x)
  qed
qed

lemma foldl_remove_active:
  "en_active (foldl (\<lambda>e sid. remove_active_slot sid e) e sids) = foldl (\<lambda>d sid. AList.delete sid d) (en_active e) sids"
  "en_pending (foldl (\<lambda>e sid. remove_active_slot sid e) e sids) = en_pending e"
  "en_pool (foldl (\<lambda>e sid. remove_active_slot sid e) e sids) = en_pool e"
  "en_worker_id (foldl (\<lambda>e sid. remove_active_slot sid e) e sids) = en_worker_id e"
  "en_queue (foldl (\<lambda>e sid. remove_active_slot sid e) e sids) = en_queue e"
  "en_settled (foldl (\<lambda>e sid. remove_active_slot sid e) e sids) = en_settled e"
  "en_kv (foldl (\<lambda>e sid. remove_active_slot sid e) e sids) = en_kv e"
  "en_pc (foldl (\<lambda>e sid. remove_active_slot sid e) e sids) = en_pc e"
  by (induction sids arbitrary: e) (simp_all add: remove_active_slot_def)

lemma foldl_delete:
  "dict_wf d \<Longrightarrow> dict_wf (foldl (\<lambda>d k. AList.delete k d) d ks) \<and>
    fst ` set (foldl (\<lambda>d k. AList.delete k d) d ks) = fst ` set d - set ks \<and>
    set (foldl (\<lambda>d k. AList.delete k d) d ks) = {y \<in> set d. fst y \<notin> set ks}"
proof (induction ks arbitrary: d)
  case Nil
  then show ?case by simp
next
  case (Cons k ks)
  have "set (AList.delete k d) = {y \<in> set d. fst y \<noteq> k}" by (auto simp: delete_filter)
  then show ?case using Cons.IH [of "AList.delete k d"] Cons.prems by (auto simp: dict_keys_delete)
qed

lemma handle_completions_slots:
  assumes inv: "slots_inv e" and h: "handle_completions cfg inp e = (raised, e')"
  shows "slots_inv e'" and "\<not> raised \<Longrightarrow> active_owned e \<Longrightarrow> active_owned e'"
    and "nothing_lost e \<Longrightarrow> nothing_lost e'"
    and "en_worker_id e' = en_worker_id e"
proof -
  obtain r sids e1 where c: "complete_slots cfg inp (en_active e) e = (r, sids, e1)"
    by (cases "complete_slots cfg inp (en_active e) e")
  have ok: "slot_pool_ok (en_pool e)" "0 \<le> en_worker_id e" using inv by (auto simp: slots_inv_def)
  have f: "en_pending e1 = en_pending e" "en_active e1 = en_active e" "en_worker_id e1 = en_worker_id e"
    "set sids \<subseteq> active_keys e"
    using complete_slots_frame [OF c] by blast+
  have o: "slot_pool_ok (en_pool e1)" "owned e1 \<subseteq> owned e" "owned e - active_keys e \<subseteq> owned e1"
    "\<not> r \<Longrightarrow> owned e1 = owned e - set sids"
    using complete_slots_owned [OF ok c] by blast+
  have r: "r = raised" and e': "e' = (if r then e1 else foldl (\<lambda>e sid. remove_active_slot sid e) e1 sids)"
    using h c by (auto simp: handle_completions_def split: if_splits)
  have own: "owned e' = owned e1" by (simp add: e' owned_def foldl_remove_active)
  have wf: "dict_wf (en_active e)" using inv by (simp add: slots_inv_def)
  have del: "dict_wf (foldl (\<lambda>d k. AList.delete k d) (en_active e) sids)"
    "fst ` set (foldl (\<lambda>d k. AList.delete k d) (en_active e) sids) = active_keys e - set sids"
    using foldl_delete [OF wf, of sids] by blast+
  have keys: "active_keys e' = (if raised then active_keys e else active_keys e - set sids)"
    by (simp add: e' r foldl_remove_active f(2) del(2))
  have wf': "dict_wf (en_active e')" using del(1) wf by (simp add: e' foldl_remove_active f(2))
  have pend: "en_pending e' = en_pending e" and wid: "en_worker_id e' = en_worker_id e"
    by (simp_all add: e' foldl_remove_active f)
  have sub: "active_keys e' \<subseteq> active_keys e" by (simp add: keys)
  have pool: "slot_pool_ok (en_pool e')" using o(1) by (simp add: e' foldl_remove_active)
  show "en_worker_id e' = en_worker_id e" by (rule wid)
  have "pending_keys e \<subseteq> owned e1" using inv o(3) unfolding slots_inv_def by blast
  then show "slots_inv e'" using inv sub wf' pool
    unfolding slots_inv_def own pend wid by blast
  show "active_owned e'" if "\<not> raised" "active_owned e"
    using o(4) r that unfolding active_owned_def own keys by auto
  show "nothing_lost e'" if "nothing_lost e"
  proof (cases raised)
    case True
    then show ?thesis using o(2) that unfolding nothing_lost_def own pend keys by auto
  next
    case False
    then show ?thesis using o(4) r that unfolding nothing_lost_def own pend keys by auto
  qed
qed

section \<open>Failing everything\<close>

lemma fail_active_one_kept:
  assumes inv: "slots_inv e" and mem: "(sid, st) \<in> set (en_active e)"
  shows "slots_kept (\<forall>s. up s) e (fail_active_one up e (sid, st)) \<and>
    en_active (fail_active_one up e (sid, st)) = AList.delete sid (en_active e)"
proof -
  let ?e = "drop_kv sid (fail_future (ss_request st) e)"
  have "gave_back (up sid) sid ?e (snd (manager_release (up sid) sid (signal_leave sid ?e)))"
    using inv by (intro leave_release) (auto simp: slots_inv_def)
  then have "gave_back (up sid) sid e (fail_active_one up e (sid, st))"
    by (rule gave_back_cong) (simp_all add: remove_active_slot_def)
  from drop_active_slots [OF inv in_dict_keys [OF mem] this]
  show ?thesis by (simp add: slots_kept_def remove_active_slot_def)
qed

lemma foldl_drop_all:
  assumes "\<And>e sid st. en_active (f e (sid, st)) = AList.delete sid (en_active e)"
  shows "en_active (foldl f e xs) = foldl (\<lambda>d k. AList.delete k d) (en_active e) (map fst xs)"
proof (induction xs arbitrary: e)
  case (Cons x xs)
  then show ?case using assms by (cases x) simp
qed simp

lemma fail_active_slots:
  assumes inv: "slots_inv e"
  shows "slots_kept (\<forall>s. up s) e (fail_active up e)" and "en_active (fail_active up e) = []"
proof -
  show "slots_kept (\<forall>s. up s) e (fail_active up e)"
    unfolding fail_active_def using fail_active_one_kept by (intro foldl_active_slots inv) blast
  have wf: "dict_wf (en_active e)" using inv by (simp add: slots_inv_def)
  have "en_active (fail_active up e) = foldl (\<lambda>d k. AList.delete k d) (en_active e) (dict_keys (en_active e))"
    unfolding fail_active_def by (rule foldl_drop_all) (simp add: remove_active_slot_def)
  then show "en_active (fail_active up e) = []" using foldl_delete [OF wf, of "dict_keys (en_active e)"] by auto
qed

lemma fail_pending_fold:
  assumes "slot_pool_ok (en_pool e)" and "0 \<le> en_worker_id e"
  shows "slot_pool_ok (en_pool (foldl (fail_pending_one up) e xs)) \<and>
    en_worker_id (foldl (fail_pending_one up) e xs) = en_worker_id e \<and>
    en_active (foldl (fail_pending_one up) e xs) = en_active e \<and>
    owned (foldl (fail_pending_one up) e xs) \<subseteq> owned e \<and>
    ((\<forall>s. up s) \<longrightarrow> owned (foldl (fail_pending_one up) e xs) = owned e - fst ` set xs)"
  using assms
proof (induction xs arbitrary: e)
  case Nil
  then show ?case by simp
next
  case (Cons x xs)
  obtain sid st where x: "x = (sid, st)" by (cases x)
  let ?f = "fail_future (ss_request st) e"
  have f: "owned ?f = owned e" by (simp add: owned_def)
  have m: "slot_pool_ok (en_pool (snd (manager_release (up sid) sid ?f)))"
    "owned (snd (manager_release (up sid) sid ?f)) = (if up sid then owned e - {sid} else owned e)"
    using manager_release_owned [of ?f "up sid" sid] Cons.prems by (simp_all add: f)
  let ?e1 = "snd (manager_release (up sid) sid ?f)"
  have "0 \<le> en_worker_id ?e1" using Cons.prems(2) by simp
  note ih = Cons.IH [OF m(1) this]
  have fold: "foldl (fail_pending_one up) e (x # xs) = foldl (fail_pending_one up) ?e1 xs" by (simp add: x)
  have o: "owned ?e1 \<subseteq> owned e" "(\<forall>s. up s) \<longrightarrow> owned ?e1 = owned e - {sid}" using m(2) by auto
  have e1: "en_worker_id ?e1 = en_worker_id e" "en_active ?e1 = en_active e" by simp_all
  show ?case unfolding fold
  proof (intro conjI impI)
    assume up: "\<forall>s. up s"
    have "owned (foldl (fail_pending_one up) ?e1 xs) = owned ?e1 - fst ` set xs" using ih up by blast
    moreover have "owned ?e1 = owned e - {sid}" using o(2) up by blast
    moreover have "fst ` set (x # xs) = insert sid (fst ` set xs)" by (simp add: x)
    ultimately show "owned (foldl (fail_pending_one up) ?e1 xs) = owned e - fst ` set (x # xs)" by blast
  next
    show "slot_pool_ok (en_pool (foldl (fail_pending_one up) ?e1 xs))" using ih by blast
    show "en_worker_id (foldl (fail_pending_one up) ?e1 xs) = en_worker_id e" using ih e1(1) by metis
    show "en_active (foldl (fail_pending_one up) ?e1 xs) = en_active e" using ih e1(2) by metis
    show "owned (foldl (fail_pending_one up) ?e1 xs) \<subseteq> owned e" using ih o(1) by blast
  qed
qed

lemma fail_all_slots:
  assumes inv: "slots_inv e"
  shows "slots_inv (fail_all_active_slots up e)" and "en_active (fail_all_active_slots up e) = []"
    and "en_pending (fail_all_active_slots up e) = []"
    and "en_worker_id (fail_all_active_slots up e) = en_worker_id e"
    and "\<forall>s. up s \<Longrightarrow> nothing_lost e \<Longrightarrow> nothing_lost (fail_all_active_slots up e)"
proof -
  let ?a = "fail_active up e"
  note k = fail_active_slots [OF inv, of up]
  then have ia: "slots_inv ?a" and wid: "en_worker_id ?a = en_worker_id e"
    and lost: "\<forall>s. up s \<Longrightarrow> nothing_lost e \<Longrightarrow> nothing_lost ?a"
    by (auto simp: slots_kept_def)
  then have "slot_pool_ok (en_pool ?a)" "0 \<le> en_worker_id ?a" by (auto simp: slots_inv_def)
  from fail_pending_fold [OF this, of up "en_pending ?a"]
  have p: "slot_pool_ok (en_pool (fail_pending up ?a))" "en_worker_id (fail_pending up ?a) = en_worker_id ?a"
    "en_active (fail_pending up ?a) = en_active ?a"
    "(\<forall>s. up s) \<Longrightarrow> owned (fail_pending up ?a) = owned ?a - pending_keys ?a"
    by (auto simp: fail_pending_def owned_def)
  show "en_active (fail_all_active_slots up e) = []" "en_pending (fail_all_active_slots up e) = []"
    using k(2) p(3) by (simp_all add: fail_all_active_slots_def fail_pending_def)
  then show "slots_inv (fail_all_active_slots up e)"
    using ia p(1,2) by (simp add: slots_inv_def fail_all_active_slots_def)
  show "en_worker_id (fail_all_active_slots up e) = en_worker_id e"
    using wid p(2) by (simp add: fail_all_active_slots_def)
  show "nothing_lost (fail_all_active_slots up e)" if "\<forall>s. up s" "nothing_lost e"
  proof -
    have "owned ?a \<subseteq> pending_keys ?a" using lost [OF that] k(2) by (simp add: nothing_lost_def)
    then have "owned (fail_all_active_slots up e) = {}"
      using p(4) [OF that(1)] by (simp add: fail_all_active_slots_def Diff_eq_empty_iff)
    then show ?thesis by (simp add: nothing_lost_def)
  qed
qed

section \<open>Activation\<close>

lemma join_one_keeps:
  assumes "slot_pool_ok (en_pool e)" and "(sid, st) \<in> set (en_pending e)"
  shows "slot_pool_ok (en_pool (join_one now e (sid, st))) \<and> owned (join_one now e (sid, st)) = owned e \<and>
    en_active (join_one now e (sid, st)) = en_active e \<and>
    map fst (en_pending (join_one now e (sid, st))) = map fst (en_pending e) \<and>
    en_worker_id (join_one now e (sid, st)) = en_worker_id e \<and>
    en_queue (join_one now e (sid, st)) = en_queue e \<and> en_settled (join_one now e (sid, st)) = en_settled e \<and>
    en_kv (join_one now e (sid, st)) = en_kv e"
  using signal_pool(3,4) [OF assms(1), of sid] in_dict_keys [OF assms(2)] assms(1)
  by (auto simp: Let_def update_keys owned_def)

definition joined_all :: "engine \<Rightarrow> engine \<Rightarrow> bool" where
  "joined_all e e' \<longleftrightarrow> slot_pool_ok (en_pool e') \<and> owned e' = owned e \<and> en_active e' = en_active e \<and>
     map fst (en_pending e') = map fst (en_pending e) \<and> en_worker_id e' = en_worker_id e \<and>
     en_queue e' = en_queue e \<and> en_settled e' = en_settled e \<and> en_kv e' = en_kv e"

lemma join_all_keeps:
  assumes "slot_pool_ok (en_pool e)" and "dict_wf (en_pending e)"
  shows "joined_all e (join_all now e)"
  unfolding join_all_def
proof (rule foldl_items [where entries = en_pending and I = "joined_all e"])
  fix e' :: engine and sid st assume e': "joined_all e e'" "(sid, st) \<in> set (en_pending e')"
  then have "slot_pool_ok (en_pool e')" by (simp add: joined_all_def)
  from join_one_keeps [OF this e'(2), of now] e'(1)
  have "joined_all e (join_one now e' (sid, st))" by (simp add: joined_all_def del: join_one.simps)
  moreover have "\<forall>y \<in> set (en_pending e'). fst y \<noteq> sid \<longrightarrow> y \<in> set (en_pending (join_one now e' (sid, st)))"
    by (auto simp: Let_def intro: in_update)
  ultimately show "joined_all e (join_one now e' (sid, st)) \<and>
      (\<forall>y \<in> set (en_pending e'). fst y \<noteq> sid \<longrightarrow> y \<in> set (en_pending (join_one now e' (sid, st))))" by blast
qed (use assms in \<open>simp_all add: joined_all_def\<close>)

lemma expire_one_slots:
  assumes inv: "slots_inv e" and s: "sid \<in> pending_keys e"
    and r: "manager_release up sid (signal_leave sid (remove_pending sid e)) = (b, e1)"
  shows "slots_inv e1" and "active_owned e \<Longrightarrow> active_owned e1" and "up \<Longrightarrow> nothing_lost e \<Longrightarrow> nothing_lost e1"
    and "en_worker_id e1 = en_worker_id e" and "en_active e1 = en_active e"
    and "en_pending e1 = AList.delete sid (en_pending e)"
proof -
  let ?d = "remove_pending sid e"
  have d: "owned ?d = owned e" by (simp add: owned_def remove_pending_def)
  have "slot_pool_ok (en_pool ?d)" "0 \<le> en_worker_id ?d"
    using inv by (auto simp: remove_pending_def slots_inv_def)
  from leave_release [OF this, of up sid] r d
  have g: "slot_pool_ok (en_pool e1)" "owned e1 = (if up then owned e - {sid} else owned e)"
    by (simp_all add: gave_back_def)
  have e1: "e1 = snd (manager_release up sid (signal_leave sid ?d))" using r by simp
  show wid: "en_worker_id e1 = en_worker_id e" and act: "en_active e1 = en_active e"
    and pend: "en_pending e1 = AList.delete sid (en_pending e)"
    by (simp_all add: e1 remove_pending_def)
  have out: "sid \<notin> active_keys e" using inv s by (auto simp: slots_inv_def)
  have wf: "dict_wf (en_pending e)" "dict_wf (en_active e)" using inv by (auto simp: slots_inv_def)
  show "slots_inv e1" using inv g wf
    by (auto simp: slots_inv_def wid act pend dict_keys_delete)
  show "active_owned e \<Longrightarrow> active_owned e1" using g out by (auto simp: active_owned_def act)
  show "up \<Longrightarrow> nothing_lost e \<Longrightarrow> nothing_lost e1"
    using g by (auto simp: nothing_lost_def act pend dict_keys_delete)
qed

lemma slots_settle:
  "slots_inv (settle_future r out e) = slots_inv e" "active_owned (settle_future r out e) = active_owned e"
  "nothing_lost (settle_future r out e) = nothing_lost e" "owned (settle_future r out e) = owned e"
  by (simp_all add: slots_inv_def active_owned_def nothing_lost_def owned_def)

lemma expire_slots_inv:
  "slots_inv e \<Longrightarrow> dict_wf xs \<Longrightarrow> fst ` set xs \<subseteq> pending_keys e \<Longrightarrow> expire_slots up xs e = (raised, e') \<Longrightarrow>
   slots_inv e' \<and> (active_owned e \<longrightarrow> active_owned e') \<and>
   ((\<forall>s. up s) \<and> nothing_lost e \<longrightarrow> nothing_lost e') \<and> en_worker_id e' = en_worker_id e"
proof (induction xs arbitrary: e)
  case Nil
  then show ?case by simp
next
  case (Cons x xs)
  obtain sid st where x: "x = (sid, st)" by (cases x)
  obtain b e1 where m: "manager_release (up sid) sid (signal_leave sid (remove_pending sid e)) = (b, e1)"
    by (cases "manager_release (up sid) sid (signal_leave sid (remove_pending sid e))")
  have s: "sid \<in> pending_keys e" using Cons.prems(3) by (simp add: x)
  note o = expire_one_slots [OF Cons.prems(1) s m]
  show ?case
  proof (cases b)
    case True
    then show ?thesis using Cons.prems(4) m o by (auto simp: x)
  next
    case False
    let ?e2 = "settle_future (ss_request st) Failed e1"
    have e': "expire_slots up xs ?e2 = (raised, e')" using Cons.prems(4) m False by (simp add: x)
    have "sid \<notin> fst ` set xs" using Cons.prems(2) by (simp add: x)
    then have "fst ` set xs \<subseteq> pending_keys ?e2"
      using Cons.prems(3) by (simp add: x o(6) dict_keys_delete subset_Diff_insert)
    from Cons.IH [OF _ _ this e'] o Cons.prems(2) show ?thesis by (auto simp: slots_settle)
  qed
qed

lemma move_one_slots:
  assumes "slots_inv e" and "map_of (en_pending e) sid = Some st"
  shows "slots_inv (add_active_slot sid st (remove_pending sid e))"
    and "active_owned e \<Longrightarrow> active_owned (add_active_slot sid st (remove_pending sid e))"
    and "nothing_lost e \<Longrightarrow> nothing_lost (add_active_slot sid st (remove_pending sid e))"
proof -
  let ?e = "add_active_slot sid st (remove_pending sid e)"
  have s: "sid \<in> pending_keys e" using map_of_in_keys [OF assms(2)] by simp
  have f: "owned ?e = owned e" "en_pool ?e = en_pool e" "en_worker_id ?e = en_worker_id e"
    "pending_keys ?e = pending_keys e - {sid}" "active_keys ?e = insert sid (active_keys e)"
    by (simp_all add: owned_def add_active_slot_def remove_pending_def dict_keys_delete dom_update)
  have wf: "dict_wf (en_pending ?e)" "dict_wf (en_active ?e)"
    using assms(1) by (simp_all add: slots_inv_def add_active_slot_def remove_pending_def)
  show "slots_inv ?e" using assms(1) wf unfolding slots_inv_def f by blast
  show "active_owned ?e" if "active_owned e"
    using that s assms(1) unfolding active_owned_def slots_inv_def f by blast
  show "nothing_lost ?e" if "nothing_lost e"
    using that s unfolding nothing_lost_def f by blast
qed

lemma move_active_Cons:
  "move_active (sid # sids) e = move_active sids (case map_of (en_pending e) sid of
       None \<Rightarrow> e | Some st \<Rightarrow> add_active_slot sid st (remove_pending sid e))"
  by (simp add: move_active_def)

lemma move_active_slots:
  "slots_inv e \<Longrightarrow> slots_inv (move_active sids e) \<and> (active_owned e \<longrightarrow> active_owned (move_active sids e)) \<and>
    (nothing_lost e \<longrightarrow> nothing_lost (move_active sids e)) \<and>
    en_worker_id (move_active sids e) = en_worker_id e"
proof (induction sids arbitrary: e)
  case Nil
  then show ?case by (simp add: move_active_def)
next
  case (Cons sid sids)
  show ?case
  proof (cases "map_of (en_pending e) sid")
    case None
    then show ?thesis using Cons by (simp add: move_active_Cons)
  next
    case (Some st)
    note m = move_one_slots [OF Cons.prems Some]
    have "en_worker_id (add_active_slot sid st (remove_pending sid e)) = en_worker_id e"
      by (simp add: add_active_slot_def remove_pending_def)
    then show ?thesis using Cons.IH [OF m(1)] m(2,3) Some by (auto simp: move_active_Cons)
  qed
qed

lemma try_activate_slots:
  assumes inv: "slots_inv e" and t: "try_activate cfg now is_active up e = (raised, e')"
  shows "slots_inv e' \<and> (active_owned e \<longrightarrow> active_owned e') \<and>
    ((\<forall>s. up s) \<and> nothing_lost e \<longrightarrow> nothing_lost e') \<and> en_worker_id e' = en_worker_id e"
proof (cases "en_pending e = []")
  case True
  then show ?thesis using t inv by (simp add: try_activate_def)
next
  case False
  let ?e1 = "join_all now e"
  let ?timed = "filter (\<lambda>(sid, st). \<not> is_active sid \<and> join_expired cfg now st) (en_pending ?e1)"
  have "slot_pool_ok (en_pool e)" "dict_wf (en_pending e)" using inv by (auto simp: slots_inv_def)
  from join_all_keeps [OF this, of now]
  have j: "slot_pool_ok (en_pool ?e1)" "owned ?e1 = owned e" "en_active ?e1 = en_active e"
    "map fst (en_pending ?e1) = map fst (en_pending e)" "en_worker_id ?e1 = en_worker_id e"
    by (auto simp: joined_all_def)
  have keys: "pending_keys ?e1 = pending_keys e" using arg_cong [OF j(4), of set] by simp
  have i1: "slots_inv ?e1" "active_owned e \<longrightarrow> active_owned ?e1" "nothing_lost e \<longrightarrow> nothing_lost ?e1"
    using inv unfolding slots_inv_def active_owned_def nothing_lost_def j keys by (simp_all add: j(1))
  obtain b e2 where x: "expire_slots up ?timed ?e1 = (b, e2)" by (cases "expire_slots up ?timed ?e1")
  have wf: "dict_wf ?timed" using i1(1) by (simp add: slots_inv_def distinct_map_filter)
  have sub: "fst ` set ?timed \<subseteq> pending_keys ?e1" by auto
  note ex = expire_slots_inv [OF i1(1) wf sub x]
  show ?thesis
  proof (cases b)
    case True
    then show ?thesis using t False x ex i1 j(5) by (simp add: try_activate_def Let_def)
  next
    case b: False
    have "e' = move_active (filter is_active (dict_keys (en_pending ?e1))) e2"
      using t False x b by (simp add: try_activate_def Let_def)
    then show ?thesis
      using move_active_slots [of e2 "filter is_active (dict_keys (en_pending ?e1))"] ex i1 j(5) by simp
  qed
qed

section \<open>Accepting\<close>

lemma accept_one_slots:
  assumes inv: "slots_inv e" and act: "active_owned e"
  shows "slots_inv (snd (accept_one cfg inp wall perf e))" and "active_owned (snd (accept_one cfg inp wall perf e))"
    and "inp \<noteq> Claim_lost True \<Longrightarrow> inp \<noteq> Prepare_error \<Longrightarrow> nothing_lost e \<Longrightarrow>
      nothing_lost (snd (accept_one cfg inp wall perf e))"
    and "en_worker_id (snd (accept_one cfg inp wall perf e)) = en_worker_id e"
proof -
  let ?r = "snd (accept_one cfg inp wall perf e)"
  have "slots_inv ?r \<and> active_owned ?r \<and>
      (inp \<noteq> Claim_lost True \<and> inp \<noteq> Prepare_error \<and> nothing_lost e \<longrightarrow> nothing_lost ?r) \<and>
      en_worker_id ?r = en_worker_id e"
  proof (cases "en_queue e")
    case Nil
    then show ?thesis using inv act by (simp add: accept_one_def)
  next
    case (Cons req rest)
    let ?e1 = "e\<lparr>en_queue := rest\<rparr>"
    have q: "slots_inv ?e1" "active_owned ?e1" "nothing_lost e \<longrightarrow> nothing_lost ?e1"
      using inv act by (simp_all add: slots_inv_def active_owned_def nothing_lost_def owned_def)
    show ?thesis
    proof (cases "past_deadline cfg wall req ?e1 \<noteq> Inr False \<or> is_error (claim_slot (en_worker_id e) (en_pool e))")
      case True
      then show ?thesis using q Cons
        by (auto simp: accept_one_def Let_def slots_settle is_error_def split: sum.splits if_splits)
    next
      case False
      then obtain s p where c: "claim_slot (en_worker_id e) (en_pool e) = Inr (s, p)"
        by (auto simp: is_error_def split: sum.splits)
      have ok: "slot_pool_ok (en_pool e)" and w: "0 \<le> en_worker_id e" using inv by (auto simp: slots_inv_def)
      note g = pool.claim_gives [OF ok c]
      have s: "s \<notin> owned e" using g owned_free [OF inv] by blast
      have own: "owned e' = insert s (owned e)" if "en_pool e' = p" "en_worker_id e' = en_worker_id e" for e'
        using g that by (auto simp: owned_def)
      have lose: "slots_inv (settle_future req Failed (?e1\<lparr>en_pool := p\<rparr>))"
        "active_owned (settle_future req Failed (?e1\<lparr>en_pool := p\<rparr>))"
        using inv act own [of "?e1\<lparr>en_pool := p\<rparr>"] g
        by (auto simp: slots_settle slots_inv_def active_owned_def)
      show ?thesis
      proof (cases inp)
        case (Tokens tokens)
        let ?t = "?e1\<lparr>en_pool := p,
            en_kv := (en_kv e)\<lparr>kv_seq_lens := AList.update s 0 (kv_seq_lens (en_kv e))\<rparr>,
            en_pending := AList.update s (prepare_slot cfg req s tokens perf) (en_pending e)\<rparr>"
        have r: "?r = ?t" using Cons False c Tokens by (simp add: accept_one_def Let_def)
        have keys: "pending_keys ?t = insert s (pending_keys e)" by (simp add: dom_update)
        have o: "owned ?t = insert s (owned e)" by (rule own) simp_all
        have "s \<notin> active_keys e" using s act by (auto simp: active_owned_def)
        moreover have "slot_pool_ok (en_pool ?t)" "dict_wf (en_pending ?t)" using g inv by (simp_all add: slots_inv_def)
        ultimately have "slots_inv ?t"
          using inv unfolding slots_inv_def o keys by auto
        then show ?thesis
          using act unfolding r active_owned_def nothing_lost_def o keys by auto
      next
        case (Claim_lost granted)
        then show ?thesis using Cons False c lose q by (auto simp: accept_one_def Let_def slots_settle)
      next
        case Prepare_error
        then show ?thesis using Cons False c lose by (simp add: accept_one_def Let_def)
      qed
    qed
  qed
  then show "slots_inv ?r" "active_owned ?r"
    "inp \<noteq> Claim_lost True \<Longrightarrow> inp \<noteq> Prepare_error \<Longrightarrow> nothing_lost e \<Longrightarrow> nothing_lost ?r"
    "en_worker_id ?r = en_worker_id e" by blast+
qed

section \<open>Every step of the engine\<close>

text \<open>
  Other processes keep to their own slots: what they do to the pool leaves the slots of
  this worker as they are (see \<open>agg_step_isolated\<close>).
\<close>

definition pool_rely :: "engine \<Rightarrow> slot_pool \<Rightarrow> bool" where
  "pool_rely e p \<longleftrightarrow> slot_pool_ok p \<and> {s. get_slot_owner s p = en_worker_id e} = owned e"

definition event_ok :: "engine_event \<Rightarrow> engine \<Rightarrow> bool" where
  "event_ok ev e = (case ev of Pool_change p \<Rightarrow> pool_rely e p | _ \<Rightarrow> True)"

fun run_ok :: "engine_config \<Rightarrow> engine_event list \<Rightarrow> engine \<Rightarrow> bool" where
  "run_ok cfg [] e \<longleftrightarrow> True"
| "run_ok cfg (ev # evs) e \<longleftrightarrow> event_ok ev e \<and> run_ok cfg evs (engine_step cfg ev e)"

fun engine_run :: "engine_config \<Rightarrow> engine_event list \<Rightarrow> engine \<Rightarrow> engine" where
  "engine_run cfg [] e = e"
| "engine_run cfg (ev # evs) e = engine_run cfg evs (engine_step cfg ev e)"

text \<open>No preparation fails after the claim, and releases reach the aggregator.\<close>

definition loses_nothing :: "engine_event \<Rightarrow> bool" where
  "loses_nothing ev =
     (case ev of
        Accept inp wall perf \<Rightarrow> inp \<noteq> Claim_lost True \<and> inp \<noteq> Prepare_error
      | Activate now is_active up \<Rightarrow> (\<forall>s. up s)
      | Generate gi \<Rightarrow> (\<forall>s. gi_up gi s)
      | Fail up \<Rightarrow> (\<forall>s. up s)
      | _ \<Rightarrow> True)"

definition engine_slots_ok :: "engine \<Rightarrow> bool" where
  "engine_slots_ok e \<longleftrightarrow> slots_inv e \<and> (en_pc e \<noteq> Failing \<longrightarrow> active_owned e)"

lemma slots_inv_frame:
  assumes "en_pool e' = en_pool e" "en_worker_id e' = en_worker_id e" "en_pending e' = en_pending e"
    "en_active e' = en_active e"
  shows "slots_inv e' = slots_inv e" "active_owned e' = active_owned e" "nothing_lost e' = nothing_lost e"
  using assms owned_cong [OF assms(1,2)] by (simp_all add: slots_inv_def active_owned_def nothing_lost_def)

lemma engine_step_slots:
  assumes ok: "engine_slots_ok e" and ev: "event_ok ev e"
  shows "engine_slots_ok (engine_step cfg ev e) \<and>
    (loses_nothing ev \<and> nothing_lost e \<longrightarrow> nothing_lost (engine_step cfg ev e)) \<and>
    en_worker_id (engine_step cfg ev e) = en_worker_id e"
proof -
  have inv: "slots_inv e" using ok by (simp add: engine_slots_ok_def)
  have act: "active_owned e" if "en_pc e \<noteq> Failing" using ok that by (simp add: engine_slots_ok_def)
  have same: ?thesis if "engine_step cfg ev e = e" using that ok by simp
  show ?thesis
  proof (cases ev)
    case (Submit r)
    then show ?thesis using ok slots_inv_frame [of "submit_request r e" e]
      by (simp add: engine_step_def engine_slots_ok_def submit_request_def)
  next
    case (Pool_change p)
    let ?e = "e\<lparr>en_pool := p\<rparr>"
    have r: "slot_pool_ok p" "owned ?e = owned e"
      using ev Pool_change by (auto simp: event_ok_def pool_rely_def owned_def)
    have "slots_inv ?e" "active_owned ?e = active_owned e" "nothing_lost ?e = nothing_lost e"
      using inv r(1) unfolding slots_inv_def active_owned_def nothing_lost_def r(2) by simp_all
    then show ?thesis using ok Pool_change by (simp add: engine_step_def engine_slots_ok_def)
  next
    case (Accept inp wall perf)
    show ?thesis
    proof (cases "en_pc e = Accepting \<and> en_queue e \<noteq> []")
      case True
      then have "active_owned e" using act by simp
      obtain b e1 where a: "accept_one cfg inp wall perf e = (b, e1)" by (cases "accept_one cfg inp wall perf e")
      from accept_one_slots [OF inv \<open>active_owned e\<close>, where cfg = cfg and inp = inp and wall = wall and perf = perf] True Accept
        slots_inv_frame [of "e1\<lparr>en_pc := Failing\<rparr>" e1]
      show ?thesis by (auto simp: engine_step_def engine_slots_ok_def loses_nothing_def a)
    next
      case False
      then show ?thesis using Accept ok act slots_inv_frame [of "e\<lparr>en_pc := Activating\<rparr>" e]
        by (auto simp: engine_step_def engine_slots_ok_def)
    qed
  next
    case (Activate now is_active up)
    show ?thesis
    proof (cases "en_pc e = Activating")
      case True
      obtain b e1 where t: "try_activate cfg now is_active up e = (b, e1)"
        by (cases "try_activate cfg now is_active up e")
      from try_activate_slots [OF inv t] act True slots_inv_frame [of "e1\<lparr>en_pc := if b then Failing else Deciding\<rparr>" e1]
      show ?thesis using Activate t by (simp add: engine_step_def engine_slots_ok_def loses_nothing_def)
    next
      case False
      then show ?thesis using Activate by (intro same) (simp add: engine_step_def)
    qed
  next
    case Decide
    then show ?thesis using ok act slots_inv_frame [of "e\<lparr>en_pc := pc\<rparr>" e for pc]
      by (simp add: engine_step_def engine_slots_ok_def)
  next
    case (Generate gi)
    show ?thesis
    proof (cases "en_pc e = Generating")
      case True
      obtain b e1 where g: "generate_one_token_all gi e = (b, e1)" by (cases "generate_one_token_all gi e")
      have "slots_kept (\<forall>s. gi_up gi s) e e1" using generate_slots [OF inv, of "\<forall>s. gi_up gi s" gi] g by simp
      then show ?thesis using Generate True g act slots_inv_frame [of "e1\<lparr>en_pc := pc\<rparr>" e1 for pc]
        by (auto simp: engine_step_def engine_slots_ok_def loses_nothing_def slots_kept_def)
    next
      case False
      then show ?thesis using Generate by (intro same) (simp add: engine_step_def)
    qed
  next
    case (Complete inp)
    show ?thesis
    proof (cases "en_pc e = Completing")
      case True
      obtain b e1 where c: "handle_completions cfg inp e = (b, e1)" by (cases "handle_completions cfg inp e")
      from handle_completions_slots [OF inv c] True act c Complete slots_inv_frame [of "e1\<lparr>en_pc := pc\<rparr>" e1 for pc]
      show ?thesis by (simp add: engine_step_def engine_slots_ok_def loses_nothing_def)
    next
      case False
      then show ?thesis using Complete by (intro same) (simp add: engine_step_def)
    qed
  next
    case (Fail up)
    show ?thesis
    proof (cases "en_pc e = Failing")
      case True
      let ?f = "fail_all_active_slots up e"
      note f = fail_all_slots [OF inv, of up]
      have "active_owned ?f" using f(2) by (simp add: active_owned_def)
      then show ?thesis using f Fail True slots_inv_frame [of "?f\<lparr>en_pc := Accepting\<rparr>" ?f]
        by (simp add: engine_step_def engine_slots_ok_def loses_nothing_def)
    next
      case False
      then show ?thesis using Fail by (intro same) (simp add: engine_step_def)
    qed
  qed
qed

lemma engine_run_slots:
  "engine_slots_ok e \<Longrightarrow> run_ok cfg evs e \<Longrightarrow>
   engine_slots_ok (engine_run cfg evs e) \<and>
   ((\<forall>ev \<in> set evs. loses_nothing ev) \<and> nothing_lost e \<longrightarrow> nothing_lost (engine_run cfg evs e)) \<and>
   en_worker_id (engine_run cfg evs e) = en_worker_id e"
proof (induction evs arbitrary: e)
  case Nil
  then show ?case by simp
next
  case (Cons ev evs)
  then have "event_ok ev e" by simp
  note s = engine_step_slots [OF Cons.prems(1) this, of cfg]
  have "engine_slots_ok (engine_step cfg ev e)" "run_ok cfg evs (engine_step cfg ev e)" using s Cons.prems(2) by simp_all
  from Cons.IH [OF this] s show ?case by auto
qed

lemma engine_init_slots:
  assumes "slot_pool_ok p" "0 \<le> w" "\<forall>s. get_slot_owner s p \<noteq> w"
  shows "engine_slots_ok (engine_init w kv p)" "nothing_lost (engine_init w kv p)"
  using assms by (auto simp: engine_slots_ok_def slots_inv_def active_owned_def nothing_lost_def owned_def engine_init_def)

text \<open>Slots at rest: an idle engine owns none.\<close>

lemma idle_owns_nothing:
  assumes "nothing_lost e" "en_pending e = []" "en_active e = []"
  shows "owned e = {}"
  using assms by (simp add: nothing_lost_def)

end
