(* ===== verification/Engine_Requests.thy ===== *)
theory Engine_Requests
  imports Engine_Slots
begin

text \<open>
  What becomes of the requests of a worker: each submitted request is, at every moment, in
  exactly one of the queue, a pending slot, an active slot, or settled with one outcome.
  The account counts an active slot whose future is already settled (between the failure
  of a completion and the cleanup that follows) once, as settled.
\<close>

section \<open>The account\<close>

definition state_ids :: "(int, slot_state) dict \<Rightarrow> string list" where
  "state_ids d = map (\<lambda>(sid, st). rq_id (ss_request st)) d"

definition settled_ids :: "engine \<Rightarrow> string list" where
  "settled_ids e = map fst (en_settled e)"

definition open_ids :: "engine \<Rightarrow> string list" where
  "open_ids e = filter (\<lambda>i. i \<notin> set (settled_ids e)) (state_ids (en_active e))"

definition request_account :: "engine \<Rightarrow> string multiset" where
  "request_account e = mset (map rq_id (en_queue e)) + mset (state_ids (en_pending e)) +
     mset (open_ids e) + mset (settled_ids e)"

definition requests_inv :: "string multiset \<Rightarrow> engine \<Rightarrow> bool" where
  "requests_inv subs e \<longleftrightarrow> dict_wf (en_pending e) \<and> dict_wf (en_active e) \<and>
     distinct (state_ids (en_active e)) \<and> request_account e = subs"

definition none_settled :: "engine \<Rightarrow> bool" where
  "none_settled e \<longleftrightarrow> set (state_ids (en_active e)) \<inter> set (settled_ids e) = {}"

lemmas account_defs = request_account_def open_ids_def settled_ids_def

lemma state_ids_delete:
  assumes "dict_wf d" and "(sid, st) \<in> set d"
  shows "mset (state_ids d) = add_mset (rq_id (ss_request st)) (mset (state_ids (AList.delete sid d)))"
  using assms
proof (induction d)
  case Nil
  then show ?case by simp
next
  case (Cons x d)
  show ?case
  proof (cases "fst x = sid")
    case True
    then have "x = (sid, st)" "sid \<notin> set (dict_keys d)"
      using Cons.prems by (cases x; auto dest: in_dict_keys)+
    then show ?thesis by (simp add: state_ids_def delete_fresh)
  next
    case False
    then show ?thesis using Cons by (auto simp: state_ids_def)
  qed
qed

lemma state_ids_update_new:
  "sid \<notin> set (dict_keys d) \<Longrightarrow> state_ids (AList.update sid st d) = state_ids d @ [rq_id (ss_request st)]"
  by (simp add: update_fresh state_ids_def)

lemma state_ids_update_same:
  assumes "dict_wf d" "(sid, st) \<in> set d" "rq_id (ss_request st') = rq_id (ss_request st)"
  shows "state_ids (AList.update sid st' d) = state_ids d"
  using assms by (induction d) (auto simp: state_ids_def dest: in_dict_keys)

lemma distinct_state_ids_delete:
  assumes "dict_wf d" "(sid, st) \<in> set d" "distinct (state_ids d)"
  shows "distinct (state_ids (AList.delete sid d))"
    and "rq_id (ss_request st) \<notin> set (state_ids (AList.delete sid d))"
proof -
  have "mset (rq_id (ss_request st) # state_ids (AList.delete sid d)) = mset (state_ids d)"
    using state_ids_delete [OF assms(1,2)] by simp
  from mset_eq_imp_distinct_iff [OF this] assms(3)
  show "distinct (state_ids (AList.delete sid d))"
    and "rq_id (ss_request st) \<notin> set (state_ids (AList.delete sid d))" by auto
qed

text \<open>Settling a future and dropping its slot moves it within the account.\<close>

lemma drop_active_account:
  assumes inv: "requests_inv subs e" and mem: "(sid, st) \<in> set (en_active e)"
    and e': "en_queue e' = en_queue e" "en_pending e' = en_pending e"
      "en_active e' = AList.delete sid (en_active e)"
      "settled_ids e' = (if rq_id (ss_request st) \<in> set (settled_ids e) then settled_ids e
                         else settled_ids e @ [rq_id (ss_request st)])"
  shows "requests_inv subs e'"
proof -
  let ?i = "rq_id (ss_request st)" and ?rest = "state_ids (AList.delete sid (en_active e))"
  have wf: "dict_wf (en_active e)" and dist: "distinct (state_ids (en_active e))"
    using inv by (auto simp: requests_inv_def)
  note d = distinct_state_ids_delete [OF wf mem dist]
  have "mset (open_ids e') + mset (settled_ids e') = mset (open_ids e) + mset (settled_ids e)"
  proof (cases "?i \<in> set (settled_ids e)")
    case True
    then show ?thesis
      by (simp add: open_ids_def e' mset_filter state_ids_delete [OF wf mem] del: mset_map)
  next
    case False
    have "filter (\<lambda>i. i \<notin> set (settled_ids e')) ?rest = filter (\<lambda>i. i \<notin> set (settled_ids e)) ?rest"
      using False d(2) by (intro filter_cong) (auto simp: e'(4))
    then show ?thesis using False
      by (simp add: open_ids_def e' mset_filter state_ids_delete [OF wf mem] del: mset_map)
  qed
  then show ?thesis using inv d(1) unfolding requests_inv_def request_account_def e'
    by (simp add: add.assoc)
qed

lemma settled_fail_future:
  "settled_ids (fail_future r e) =
     (if rq_id r \<in> set (settled_ids e) then settled_ids e else settled_ids e @ [rq_id r])"
  by (simp add: fail_future_def settle_future_def settled_ids_def)

lemma settled_teardown:
  "settled_ids (teardown_slot up sid st e) = settled_ids (fail_future (ss_request st) e)"
  by (simp add: teardown_slot_def fail_future_def settle_future_def settled_ids_def remove_active_slot_def)

lemma teardown_requests:
  assumes "requests_inv subs e" and "(sid, st) \<in> set (en_active e)"
  shows "requests_inv subs (teardown_slot up sid st e)"
  by (rule drop_active_account [OF assms]) (simp_all add: settled_teardown settled_fail_future)

section \<open>Every step keeps the account\<close>

lemma foldl_active_requests:
  assumes "requests_inv subs e"
    and step: "\<And>e sid st. requests_inv subs e \<Longrightarrow> (sid, st) \<in> set (en_active e) \<Longrightarrow>
      requests_inv subs (f e (sid, st)) \<and>
      (en_active (f e (sid, st)) = en_active e \<or> en_active (f e (sid, st)) = AList.delete sid (en_active e))"
  shows "requests_inv subs (foldl f e (en_active e))"
proof (rule foldl_items [where entries = en_active and I = "requests_inv subs"])
  show "dict_wf (en_active e)" using assms(1) by (simp add: requests_inv_def)
  fix e :: engine and sid st assume "requests_inv subs e" "(sid, st) \<in> set (en_active e)"
  from step [OF this] show "requests_inv subs (f e (sid, st)) \<and>
      (\<forall>y \<in> set (en_active e). fst y \<noteq> sid \<longrightarrow> y \<in> set (en_active (f e (sid, st))))"
    by (metis in_delete)
qed (simp_all add: assms(1))

lemma requests_inv_cong:
  assumes "requests_inv subs e" "en_queue e' = en_queue e" "en_pending e' = en_pending e"
    "en_active e' = en_active e" "en_settled e' = en_settled e"
  shows "requests_inv subs e'"
  using assms by (simp add: requests_inv_def account_defs)

lemma abort_evicted_requests:
  assumes "requests_inv subs e"
  shows "requests_inv subs (abort_evicted gi e)"
  unfolding abort_evicted_def
proof (rule foldl_active_requests [OF assms])
  fix e :: engine and sid st assume e: "requests_inv subs e" "(sid, st) \<in> set (en_active e)"
  have "requests_inv subs (e\<lparr>en_pool := clear_evicted_slot sid (en_pool e)\<rparr>)"
    by (rule requests_inv_cong [OF e(1)]) simp_all
  then show "requests_inv subs (abort_one gi e (sid, st)) \<and>
      (en_active (abort_one gi e (sid, st)) = en_active e \<or>
       en_active (abort_one gi e (sid, st)) = AList.delete sid (en_active e))"
    using e teardown_requests by auto
qed

lemma reserve_blocks_requests:
  assumes "requests_inv subs e"
  shows "requests_inv subs (reserve_blocks gi e)"
  unfolding reserve_blocks_def
proof (rule foldl_active_requests [OF assms])
  fix e :: engine and sid st assume e: "requests_inv subs e" "(sid, st) \<in> set (en_active e)"
  then show "requests_inv subs (reserve_one gi e (sid, st)) \<and>
      (en_active (reserve_one gi e (sid, st)) = en_active e \<or>
       en_active (reserve_one gi e (sid, st)) = AList.delete sid (en_active e))"
    using teardown_requests [OF e] by (auto intro: requests_inv_cong split: sum.split)
qed

lemma state_ids_next_input [simp]:
  "state_ids (map (\<lambda>(sid, st). (sid, next_input gi sid st)) d) = state_ids d"
  by (induction d) (auto simp: state_ids_def next_input_def Let_def split: list.split)

lemma keys_next_input [simp]:
  "map fst (map (\<lambda>(sid, st). (sid, g sid st)) d) = map fst d"
  by (induction d) auto

lemma compute_tokens_requests:
  assumes "requests_inv subs e"
  shows "requests_inv subs (snd (compute_tokens gi e))"
proof -
  have same: "requests_inv subs e'" if "en_queue e' = en_queue e" "en_pending e' = en_pending e"
    "en_active e' = en_active e" "en_settled e' = en_settled e" for e'
    by (rule requests_inv_cong [OF assms that])
  have ids: "requests_inv subs e'" if "en_queue e' = en_queue e" "en_pending e' = en_pending e"
    "en_active e' = map (\<lambda>(sid, st). (sid, next_input gi sid st)) (en_active e)"
    "en_settled e' = en_settled e" for e'
    using assms that unfolding requests_inv_def account_defs by (simp del: map_map)
  have w: "en_queue (attention_writes ws e) = en_queue e" "en_pending (attention_writes ws e) = en_pending e"
    "en_active (attention_writes ws e) = en_active e" "en_settled (attention_writes ws e) = en_settled e" for ws
    by (simp_all add: attention_writes_def)
  let ?e1 = "attention_writes (gi_writes gi) e"
  obtain err kv where a: "advance_seq_lens_by (dict_keys (en_active ?e1))
      (map (\<lambda>(sid, st). int (length (ss_input_ids st))) (en_active ?e1)) (en_kv ?e1) = (err, kv)"
    by (cases "advance_seq_lens_by (dict_keys (en_active ?e1))
      (map (\<lambda>(sid, st). int (length (ss_input_ids st))) (en_active ?e1)) (en_kv ?e1)")
  show ?thesis
  proof (cases "attn_meta_error e \<or> gi_error gi = Early_error \<or> err \<noteq> None \<or> gi_error gi = Late_error")
    case True
    then show ?thesis using a by (intro same) (auto simp: compute_tokens_def Let_def w)
  next
    case False
    then show ?thesis using a by (intro ids) (simp_all add: compute_tokens_def Let_def w)
  qed
qed

lemma generate_requests:
  "requests_inv subs e \<Longrightarrow> requests_inv subs (snd (generate_one_token_all gi e))"
  using abort_evicted_requests reserve_blocks_requests compute_tokens_requests
  by (simp add: generate_one_token_all_def Let_def)

text \<open>With distinct requests, an identifier is in one place only.\<close>

definition once :: "string multiset \<Rightarrow> bool" where
  "once subs \<longleftrightarrow> (\<forall>i. count subs i \<le> 1)"

lemma once_disjoint:
  assumes "once (A + B)" and "i \<in># A"
  shows "i \<notin># B"
proof
  assume "i \<in># B"
  then have "1 \<le> count A i" "1 \<le> count B i" using assms(2) by (simp_all add: Suc_le_eq)
  then have "2 \<le> count (A + B) i" by (simp only: count_union)
  moreover have "count (A + B) i \<le> 1" using assms(1) by (simp add: once_def)
  ultimately show False by linarith
qed

lemma once_distinct:
  assumes "once (mset xs + B)"
  shows "distinct xs"
proof -
  have "count (mset xs) i \<le> 1" for i
    using assms unfolding once_def by (metis count_union le_add1 order_trans)
  then have "count (mset xs) i = (if i \<in> set xs then 1 else 0)" for i
    by (metis One_nat_def Suc_leI count_mset_0_iff count_mset_gt_0 le_antisym)
  then show ?thesis by (simp add: distinct_count_atmost_1)
qed

lemma open_ids_all: "none_settled e \<Longrightarrow> open_ids e = state_ids (en_active e)"
  unfolding none_settled_def open_ids_def by (rule filter_True) blast

lemma account_places:
  assumes inv: "requests_inv subs e" and n: "none_settled e" and once: "once subs"
  shows "i \<in> rq_id ` set (en_queue e) \<Longrightarrow>
      i \<notin> set (state_ids (en_pending e)) \<and> i \<notin> set (state_ids (en_active e)) \<and> i \<notin> set (settled_ids e)"
    and "i \<in> set (state_ids (en_pending e)) \<Longrightarrow>
      i \<notin> set (state_ids (en_active e)) \<and> i \<notin> set (settled_ids e)"
    and "distinct (state_ids (en_pending e))"
proof -
  let ?q = "mset (map rq_id (en_queue e))" and ?p = "mset (state_ids (en_pending e))"
    and ?a = "mset (state_ids (en_active e))" and ?s = "mset (settled_ids e)"
  have acc: "subs = ?q + ?p + ?a + ?s"
    using inv open_ids_all [OF n] by (simp add: requests_inv_def request_account_def)
  have "once (?q + (?p + ?a + ?s))" using once by (simp add: acc add.assoc)
  from once_disjoint [OF this, of i]
  show "i \<in> rq_id ` set (en_queue e) \<Longrightarrow>
      i \<notin> set (state_ids (en_pending e)) \<and> i \<notin> set (state_ids (en_active e)) \<and> i \<notin> set (settled_ids e)"
    by simp
  have p: "once (?p + (?q + ?a + ?s))" using once by (simp add: acc ac_simps)
  from once_disjoint [OF this, of i]
  show "i \<in> set (state_ids (en_pending e)) \<Longrightarrow>
      i \<notin> set (state_ids (en_active e)) \<and> i \<notin> set (settled_ids e)" by simp
  show "distinct (state_ids (en_pending e))" by (rule once_distinct [OF p])
qed

section \<open>The queue and the pending slots\<close>

lemma submit_requests:
  "requests_inv subs e \<Longrightarrow> requests_inv (add_mset (rq_id r) subs) (submit_request r e)"
  by (auto simp: requests_inv_def account_defs submit_request_def)

lemma open_ids_settle:
  assumes "rq_id r \<notin> set (state_ids (en_active e))" "en_active e' = en_active e"
    "settled_ids e' = settled_ids e @ [rq_id r]"
  shows "open_ids e' = open_ids e"
  unfolding open_ids_def using assms by (intro filter_cong) auto

lemma none_settled_settle:
  assumes "none_settled e" "rq_id r \<notin> set (state_ids (en_active e))" "en_active e' = en_active e"
    "settled_ids e' = settled_ids e @ [rq_id r]"
  shows "none_settled e'"
  using assms by (simp add: none_settled_def)

definition requests_ok :: "string multiset \<Rightarrow> engine \<Rightarrow> bool" where
  "requests_ok subs e \<longleftrightarrow> requests_inv subs e \<and> none_settled e"

lemma requests_ok_cong:
  assumes "requests_ok subs e" "en_queue e' = en_queue e" "en_pending e' = en_pending e"
    "en_active e' = en_active e" "en_settled e' = en_settled e"
  shows "requests_ok subs e'"
  using assms by (simp add: requests_ok_def requests_inv_def account_defs none_settled_def)

text \<open>
  The request that is lost when the test of its deadline raises. It was alone in its place,
  the queue, and goes to no other.
\<close>

definition lost_by :: "engine_event \<Rightarrow> engine \<Rightarrow> string multiset" where
  "lost_by ev e =
     (case ev of
        Accept inp wall perf \<Rightarrow>
          if en_pc e \<noteq> Accepting then {#}
          else (case en_queue e of
                  [] \<Rightarrow> {#}
                | req # rest \<Rightarrow> if rq_slo_deadline_wall req = Not_a_number then {#rq_id req#} else {#})
      | _ \<Rightarrow> {#})"

fun lost_run :: "engine_config \<Rightarrow> engine_event list \<Rightarrow> engine \<Rightarrow> string multiset" where
  "lost_run cfg [] e = {#}"
| "lost_run cfg (ev # evs) e = lost_by ev e + lost_run cfg evs (engine_step cfg ev e)"

lemma accept_one_raised:
  "fst (accept_one cfg inp wall perf e) \<longleftrightarrow> (\<exists>req rest. en_queue e = req # rest \<and> rq_slo_deadline_wall req = Not_a_number)"
  by (cases "en_queue e") (simp_all add: accept_one_def past_deadline_def Let_def split: slo_deadline.split)

lemma accept_one_lost:
  assumes "requests_inv subs e" "en_queue e = req # rest" "rq_slo_deadline_wall req = Not_a_number"
  shows "requests_inv (subs - {#rq_id req#}) (snd (accept_one cfg inp wall perf e)) \<and> rq_id req \<in># subs"
  using assms by (auto simp: requests_inv_def account_defs accept_one_def past_deadline_def Let_def)

lemma accept_one_requests:
  assumes ok: "requests_ok subs e" and once: "once subs"
    and slots: "slots_inv e" "active_owned e" and quiet: "accept_one cfg inp wall perf e = (False, e1)"
  shows "requests_ok subs e1"
proof (cases "en_queue e")
  case Nil
  then show ?thesis using ok quiet by (simp add: accept_one_def)
next
  case (Cons req rest)
  let ?r = e1
  obtain past where past: "past_deadline cfg wall req (e\<lparr>en_queue := rest\<rparr>) = Inr past"
    using quiet by (cases "past_deadline cfg wall req (e\<lparr>en_queue := rest\<rparr>)") (simp_all add: accept_one_def Cons)
  have inv: "requests_inv subs e" and n: "none_settled e" using ok by (auto simp: requests_ok_def)
  have places: "rq_id req \<notin> set (state_ids (en_pending e))" "rq_id req \<notin> set (state_ids (en_active e))"
    "rq_id req \<notin> set (settled_ids e)"
    using account_places(1) [OF inv n once, of "rq_id req"] Cons by simp_all
  have settled: "requests_ok subs e'"
    if "en_queue e' = rest" "en_pending e' = en_pending e" "en_active e' = en_active e"
      "en_settled e' = en_settled e @ [(rq_id req, out)]" for e' out
  proof -
    have s: "settled_ids e' = settled_ids e @ [rq_id req]" using that(4) by (simp add: settled_ids_def)
    note o = open_ids_settle [OF places(2) that(3) s] and n' = none_settled_settle [OF n places(2) that(3) s]
    show ?thesis using inv n' Cons
      by (simp add: requests_ok_def requests_inv_def request_account_def o s that)
  qed
  show ?thesis
  proof (cases "past \<or>
      is_error (claim_slot (en_worker_id e) (en_pool e)) \<or> \<not> (\<exists>tokens. inp = Tokens tokens)")
    case True
    show ?thesis
    proof (cases past)
      case True
      then show ?thesis by (intro settled [of _ Slo_pruned]) (use quiet past in \<open>auto simp: accept_one_def Cons Let_def\<close>)
    next
      case False
      with True show ?thesis
        by (intro settled [of _ Failed])
           (use quiet past in \<open>cases inp; auto simp: accept_one_def Cons Let_def is_error_def split: sum.splits prod.splits if_splits\<close>)+
    qed
  next
    case False
    then obtain s p tokens where c: "claim_slot (en_worker_id e) (en_pool e) = Inr (s, p)" "inp = Tokens tokens"
      by (auto simp: is_error_def split: sum.splits)
    have "slot_pool_ok (en_pool e)" using slots(1) by (simp add: slots_inv_def)
    from pool.claim_gives [OF this c(1)] owned_free [OF slots(1)] have "s \<notin> owned e" by blast
    then have fresh: "s \<notin> set (dict_keys (en_pending e))" using slots(1) by (auto simp: slots_inv_def)
    let ?st = "prepare_slot cfg req s tokens perf"
    have id: "rq_id (ss_request ?st) = rq_id req" by (simp add: prepare_slot_def Let_def)
    have r: "en_queue ?r = rest" "en_pending ?r = AList.update s ?st (en_pending e)"
      "en_active ?r = en_active e" "en_settled ?r = en_settled e"
      using False c quiet past by (auto simp: accept_one_def Cons Let_def)
    show ?thesis using inv n Cons
      by (simp add: requests_ok_def requests_inv_def account_defs none_settled_def r
          state_ids_update_new [OF fresh] id)
  qed
qed

lemma join_all_requests:
  assumes wf: "dict_wf (en_pending e)"
  shows "state_ids (en_pending (join_all now e)) = state_ids (en_pending e)"
    and "dict_wf (en_pending (join_all now e))"
proof -
  let ?I = "\<lambda>e'. dict_wf (en_pending e') \<and> state_ids (en_pending e') = state_ids (en_pending e)"
  have "?I (join_all now e)"
    unfolding join_all_def
  proof (rule foldl_items [where entries = en_pending and I = ?I])
    fix e' :: engine and sid st assume e': "?I e'" "(sid, st) \<in> set (en_pending e')"
    then have "state_ids (AList.update sid (st\<lparr>ss_joined := True, ss_join_time := Some now\<rparr>) (en_pending e')) =
        state_ids (en_pending e')"
      by (intro state_ids_update_same) simp_all
    then show "?I (join_one now e' (sid, st)) \<and>
        (\<forall>y \<in> set (en_pending e'). fst y \<noteq> sid \<longrightarrow> y \<in> set (en_pending (join_one now e' (sid, st))))"
      using e' by (auto simp: Let_def intro: in_update)
  qed (use wf in simp_all)
  then show "state_ids (en_pending (join_all now e)) = state_ids (en_pending e)"
    and "dict_wf (en_pending (join_all now e))" by simp_all
qed

text \<open>A pending request whose slot does not activate in time fails, and its entry goes.\<close>

lemma expire_one_requests:
  assumes ok: "requests_ok subs e" and once: "once subs" and mem: "(sid, st) \<in> set (en_pending e)"
    and e': "en_queue e' = en_queue e" "en_pending e' = AList.delete sid (en_pending e)"
      "en_active e' = en_active e" "en_settled e' = en_settled e @ [(rq_id (ss_request st), Failed)]"
  shows "requests_ok subs e'"
proof -
  let ?i = "rq_id (ss_request st)"
  have inv: "requests_inv subs e" and n: "none_settled e" using ok by (auto simp: requests_ok_def)
  have wf: "dict_wf (en_pending e)" using inv by (simp add: requests_inv_def)
  have "?i \<in> set (state_ids (en_pending e))" using mem by (force simp: state_ids_def)
  then have out: "?i \<notin> set (state_ids (en_active e))" using account_places(2) [OF inv n once] by blast
  have s: "settled_ids e' = settled_ids e @ [?i]" by (simp add: settled_ids_def e')
  note o = open_ids_settle [OF out e'(3) s] and n' = none_settled_settle [OF n out e'(3) s]
  show ?thesis using inv n' state_ids_delete [OF wf mem]
    by (simp add: requests_ok_def requests_inv_def request_account_def o s e')
qed

lemma expire_slots_requests:
  "requests_ok subs e \<Longrightarrow> once subs \<Longrightarrow> \<forall>s. up s \<Longrightarrow> dict_wf xs \<Longrightarrow> set xs \<subseteq> set (en_pending e) \<Longrightarrow>
   expire_slots up xs e = (raised, e') \<Longrightarrow> \<not> raised \<and> requests_ok subs e'"
proof (induction xs arbitrary: e)
  case Nil
  then show ?case by simp
next
  case (Cons x xs)
  obtain sid st where x: "x = (sid, st)" by (cases x)
  let ?e1 = "snd (manager_release (up sid) sid (signal_leave sid (remove_pending sid e)))"
  let ?e2 = "settle_future (ss_request st) Failed ?e1"
  have "fst (manager_release (up sid) sid (signal_leave sid (remove_pending sid e))) = False"
    using Cons.prems(3) by (simp add: manager_release_def)
  then have e': "expire_slots up xs ?e2 = (raised, e')"
    using Cons.prems(6) by (simp add: x split: prod.splits bool.splits)
  have "requests_ok subs ?e2"
    by (rule expire_one_requests [OF Cons.prems(1,2), of sid st])
       (use Cons.prems(5) in \<open>simp_all add: x remove_pending_def\<close>)
  moreover have "set xs \<subseteq> set (en_pending ?e2)"
  proof
    fix y assume y: "y \<in> set xs"
    then have "fst y \<noteq> sid" using Cons.prems(4) by (auto simp: x dest: in_dict_keys)
    then show "y \<in> set (en_pending ?e2)" using y Cons.prems(5) by (auto simp: remove_pending_def intro: in_delete)
  qed
  ultimately show ?case using Cons.IH [OF _ Cons.prems(2,3) _ _ e'] Cons.prems(4) by (simp add: x)
qed

text \<open>A slot that became active moves from one dictionary to the other.\<close>

lemma map_of_in_set: "map_of d k = Some v \<Longrightarrow> (k, v) \<in> set d"
  by (rule map_of_SomeD)

lemma move_one_requests:
  assumes ok: "requests_ok subs e" and once: "once subs" and slots: "slots_inv e"
    and m: "map_of (en_pending e) sid = Some st"
  shows "requests_ok subs (add_active_slot sid st (remove_pending sid e))"
proof -
  let ?i = "rq_id (ss_request st)" and ?e = "add_active_slot sid st (remove_pending sid e)"
  have inv: "requests_inv subs e" and n: "none_settled e" using ok by (auto simp: requests_ok_def)
  note mem = map_of_in_set [OF m]
  have wf: "dict_wf (en_pending e)" "dict_wf (en_active e)" using inv by (simp_all add: requests_inv_def)
  have "?i \<in> set (state_ids (en_pending e))" using mem by (force simp: state_ids_def)
  then have out: "?i \<notin> set (state_ids (en_active e))" "?i \<notin> set (settled_ids e)"
    using account_places(2) [OF inv n once] by blast+
  have "sid \<notin> active_keys e" using slots in_dict_keys [OF mem] by (auto simp: slots_inv_def)
  then have fresh: "sid \<notin> set (dict_keys (en_active e))" by simp
  have f: "en_queue ?e = en_queue e" "settled_ids ?e = settled_ids e"
    "en_pending ?e = AList.delete sid (en_pending e)"
    "state_ids (en_active ?e) = state_ids (en_active e) @ [?i]"
    by (simp_all add: add_active_slot_def remove_pending_def settled_ids_def state_ids_update_new [OF fresh])
  have "open_ids ?e = open_ids e @ [?i]" using out by (simp add: open_ids_def f)
  moreover have "dict_wf (en_active ?e)" using wf by (simp add: add_active_slot_def remove_pending_def)
  ultimately show ?thesis using inv n out wf state_ids_delete [OF wf(1) mem]
    by (simp add: requests_ok_def requests_inv_def request_account_def none_settled_def f)
qed

lemma move_active_requests:
  "requests_ok subs e \<Longrightarrow> once subs \<Longrightarrow> slots_inv e \<Longrightarrow> requests_ok subs (move_active sids e)"
proof (induction sids arbitrary: e)
  case Nil
  then show ?case by (simp add: move_active_def)
next
  case (Cons sid sids)
  show ?case
  proof (cases "map_of (en_pending e) sid")
    case None
    then show ?thesis using Cons by (simp add: move_active_Cons)
  next
    case (Some st)
    then show ?thesis
      using Cons.IH [OF move_one_requests [OF Cons.prems Some] Cons.prems(2) move_one_slots(1) [OF Cons.prems(3) Some]]
      by (simp add: move_active_Cons)
  qed
qed

lemma try_activate_requests:
  assumes ok: "requests_ok subs e" and once: "once subs" and slots: "slots_inv e" and up: "\<forall>s. up s"
    and t: "try_activate cfg now is_active up e = (raised, e')"
  shows "\<not> raised \<and> requests_ok subs e'"
proof (cases "en_pending e = []")
  case True
  then show ?thesis using t ok by (simp add: try_activate_def)
next
  case False
  let ?e1 = "join_all now e"
  let ?timed = "filter (\<lambda>(sid, st). \<not> is_active sid \<and> join_expired cfg now st) (en_pending ?e1)"
  have p: "slot_pool_ok (en_pool e)" "dict_wf (en_pending e)" using slots by (auto simp: slots_inv_def)
  have j: "joined_all e ?e1" by (rule join_all_keeps [OF p])
  note q = join_all_requests [OF p(2), of now]
  have ok1: "requests_ok subs ?e1" using ok j q
    by (simp add: requests_ok_def requests_inv_def account_defs none_settled_def joined_all_def)
  have keys: "pending_keys ?e1 = pending_keys e" using j by (simp add: joined_all_def flip: set_map)
  have s1: "slots_inv ?e1" using slots j unfolding slots_inv_def keys joined_all_def by simp
  obtain b e2 where x: "expire_slots up ?timed ?e1 = (b, e2)" by (cases "expire_slots up ?timed ?e1")
  have wf: "dict_wf ?timed" using q(2) by (simp add: distinct_map_filter)
  have sub: "set ?timed \<subseteq> set (en_pending ?e1)" by auto
  have ex: "\<not> b" "requests_ok subs e2" using expire_slots_requests [OF ok1 once up wf sub x] by simp_all
  have s2: "slots_inv e2" using expire_slots_inv [OF s1 wf _ x] by auto
  have "raised = False" "e' = move_active (filter is_active (dict_keys (en_pending ?e1))) e2"
    using t False x ex(1) by (simp_all add: try_activate_def Let_def)
  then show ?thesis using move_active_requests [OF ex(2) once s2] by simp
qed

section \<open>Completion\<close>

text \<open>The loop settles the futures of the slots it completes, one each.\<close>

lemma complete_slots_settles:
  "dict_wf xs \<Longrightarrow> complete_slots cfg inp xs e = (raised, sids, e') \<Longrightarrow>
   \<exists>fin. set fin \<subseteq> set xs \<and> dict_wf fin \<and> sids = map fst fin \<and>
     settled_ids e' = settled_ids e @ state_ids fin \<and> (\<forall>(sid, st) \<in> set fin. slot_done cfg st)"
proof (induction xs arbitrary: e sids)
  case Nil
  then show ?case by (intro exI [of _ "[]"]) (simp add: state_ids_def)
next
  case (Cons x xs)
  obtain sid st where x: "x = (sid, st)" by (cases x)
  have wf: "dict_wf xs" "sid \<notin> fst ` set xs" using Cons.prems(1) by (simp_all add: x)
  from Cons.prems(2) [unfolded x] show ?case
  proof (cases rule: complete_slots_ConsE)
    case skip
    from Cons.IH [OF wf(1) skip(2)] show ?thesis by fastforce
  next
    case stop
    then show ?thesis by (intro exI [of _ "[]"]) (simp add: state_ids_def settled_ids_def)
  next
    case (finish e1 sids')
    have e1: "e1 = snd (manager_release (inp sid \<noteq> Release_lost) sid (signal_leave sid (drop_kv sid e)))"
      using finish(4) by simp
    from Cons.IH [OF wf(1) finish(5)] obtain fin where fin: "set fin \<subseteq> set xs" "dict_wf fin"
      "sids' = map fst fin" "settled_ids e' = settled_ids (finish_request cfg st e1) @ state_ids fin"
      "\<forall>(sid, st) \<in> set fin. slot_done cfg st" by blast
    have "settled_ids (finish_request cfg st e1) = settled_ids e @ [rq_id (ss_request st)]"
      by (simp add: settled_ids_def e1)
    moreover have "sid \<notin> fst ` set fin" using fin(1) wf(2) by blast
    ultimately show ?thesis using fin finish(1,3)
      by (intro exI [of _ "(sid, st) # fin"]) (auto simp: x state_ids_def)
  qed
qed

lemma mset_distinct_split:
  assumes "distinct xs" "distinct ys" "set ys \<subseteq> set xs"
  shows "mset (filter (\<lambda>x. x \<notin> set ys) xs) + mset ys = mset xs"
proof -
  have "mset (filter (\<lambda>x. x \<notin> set ys) xs) + mset (filter (\<lambda>x. x \<in> set ys) xs) = mset xs"
    by (metis add.commute mset_filter multiset_partition)
  moreover have "mset (filter (\<lambda>x. x \<in> set ys) xs) = mset ys"
    using assms by (intro set_eq_iff_mset_eq_distinct [THEN iffD1]) auto
  ultimately show ?thesis by metis
qed

lemma state_ids_set: "set (state_ids d) = (\<lambda>(sid, st). rq_id (ss_request st)) ` set d"
  by (simp add: state_ids_def)

lemma state_ids_sub:
  assumes "distinct (state_ids d)" "dict_wf f" "set f \<subseteq> set d"
  shows "distinct (state_ids f)" "set (state_ids f) \<subseteq> set (state_ids d)"
proof -
  have "inj_on (\<lambda>(sid, st). rq_id (ss_request st)) (set d)"
    using assms(1) by (simp add: state_ids_def distinct_map)
  then show "distinct (state_ids f)"
    using assms(2,3) by (auto simp: state_ids_def distinct_map intro: inj_on_subset)
  show "set (state_ids f) \<subseteq> set (state_ids d)" using assms(3) by (auto simp: state_ids_set)
qed

lemma same_key: "dict_wf d \<Longrightarrow> y \<in> set d \<Longrightarrow> z \<in> set d \<Longrightarrow> fst y = fst z \<Longrightarrow> y = z"
  by (auto simp: distinct_map dest: inj_onD)

lemma handle_completions_requests:
  assumes ok: "requests_ok subs e" and h: "handle_completions cfg inp e = (raised, e')"
  shows "requests_inv subs e'" and "\<not> raised \<Longrightarrow> none_settled e'"
proof -
  have inv: "requests_inv subs e" and n: "none_settled e" using ok by (auto simp: requests_ok_def)
  have wf: "dict_wf (en_active e)" and dist: "distinct (state_ids (en_active e))"
    using inv by (simp_all add: requests_inv_def)
  obtain r sids e1 where c: "complete_slots cfg inp (en_active e) e = (r, sids, e1)"
    by (cases "complete_slots cfg inp (en_active e) e")
  obtain fin where fin: "set fin \<subseteq> set (en_active e)" "dict_wf fin" "sids = map fst fin"
    "settled_ids e1 = settled_ids e @ state_ids fin"
    using complete_slots_settles [OF wf c] by blast
  have f: "en_pending e1 = en_pending e" "en_active e1 = en_active e" "en_queue e1 = en_queue e"
    using complete_slots_frame [OF c] by blast+
  note ids = state_ids_sub [OF dist fin(2,1)]
  have "open_ids e1 = filter (\<lambda>i. i \<notin> set (state_ids fin)) (state_ids (en_active e))"
    unfolding open_ids_def fin(4) f using n by (intro filter_cong) (auto simp: none_settled_def)
  then have "mset (open_ids e1) + mset (settled_ids e1) = mset (open_ids e) + mset (settled_ids e)"
    using mset_distinct_split [OF dist ids] open_ids_all [OF n] by (simp add: fin(4) ac_simps)
  then have inv1: "requests_inv subs e1"
    using inv by (simp add: requests_inv_def request_account_def f add.assoc)
  have r: "r = raised" and e': "e' = (if r then e1 else foldl (\<lambda>e sid. remove_active_slot sid e) e1 sids)"
    using h c by (auto simp: handle_completions_def split: if_splits)
  have "requests_inv subs e' \<and> none_settled e'" if "\<not> raised"
  proof -
    have e'2: "e' = foldl (\<lambda>e sid. remove_active_slot sid e) e1 sids" using that r e' by simp
    let ?d = "foldl (\<lambda>d k. AList.delete k d) (en_active e) sids"
    have del: "dict_wf ?d" "set ?d = {y \<in> set (en_active e). fst y \<notin> set sids}"
      using foldl_delete [OF wf, of sids] by blast+
    have g: "en_queue e' = en_queue e" "en_pending e' = en_pending e" "en_active e' = ?d"
      "settled_ids e' = settled_ids e1"
      by (simp_all add: e'2 foldl_remove_active f settled_ids_def)
    have dsub: "set ?d \<subseteq> set (en_active e)" using del(2) by blast
    note d = state_ids_sub [OF dist del(1) dsub]
    have inj: "inj_on (\<lambda>(sid, st). rq_id (ss_request st)) (set (en_active e))"
      using dist by (simp add: state_ids_def distinct_map)
    have disj: "set ?d \<inter> set fin = {}" using del(2) fin(3) by auto
    have gone: "set (state_ids ?d) = set (state_ids (en_active e)) - set (state_ids fin)"
    proof -
      have "y \<in> set ?d \<or> y \<in> set fin" if "y \<in> set (en_active e)" for y
      proof (cases "fst y \<in> set sids")
        case True
        then obtain z where z: "z \<in> set fin" "fst z = fst y" using fin(3) by auto
        have "z \<in> set (en_active e)" using fin(1) z(1) by blast
        then have "z = y" using same_key [OF wf _ that, of z] z(2) by blast
        then show ?thesis using z(1) by blast
      next
        case False
        then have "y \<in> {y \<in> set (en_active e). fst y \<notin> set sids}" using that by blast
        then show ?thesis using del(2) by blast
      qed
      then have "set ?d = set (en_active e) - set fin" using fin(1) dsub disj by blast
      then show ?thesis
        using inj_on_image_set_diff [OF inj _ fin(1), of "set (en_active e)"] by (simp add: state_ids_set)
    qed
    have n': "none_settled e'" using gone n unfolding none_settled_def g fin(4) by auto
    have "mset (open_ids e') = mset (open_ids e1)"
      unfolding open_ids_all [OF n'] g
      using gone d(1) dist n unfolding open_ids_def f fin(4)
      by (intro set_eq_iff_mset_eq_distinct [THEN iffD1]) (auto simp: none_settled_def)
    then have "requests_inv subs e'"
      using inv1 d(1) del(1) by (simp add: requests_inv_def request_account_def g f)
    with n' show ?thesis by simp
  qed
  then show "requests_inv subs e'" and "\<not> raised \<Longrightarrow> none_settled e'"
    using inv1 r e' by auto
qed

section \<open>Failing everything\<close>

lemma fail_active_requests:
  assumes "requests_inv subs e"
  shows "requests_inv subs (fail_active up e)"
  unfolding fail_active_def
proof (rule foldl_active_requests [OF assms])
  fix e :: engine and sid st assume e: "requests_inv subs e" "(sid, st) \<in> set (en_active e)"
  have a: "en_active (fail_active_one up e (sid, st)) = AList.delete sid (en_active e)"
    by (simp add: remove_active_slot_def)
  have "requests_inv subs (fail_active_one up e (sid, st))"
  proof (rule drop_active_account [OF e _ _ a])
    show "settled_ids (fail_active_one up e (sid, st)) =
        (if rq_id (ss_request st) \<in> set (settled_ids e) then settled_ids e
         else settled_ids e @ [rq_id (ss_request st)])"
      using settled_fail_future [of "ss_request st" e]
      by (simp add: settled_ids_def remove_active_slot_def)
  qed (simp_all add: remove_active_slot_def)
  with a show "requests_inv subs (fail_active_one up e (sid, st)) \<and>
      (en_active (fail_active_one up e (sid, st)) = en_active e \<or>
       en_active (fail_active_one up e (sid, st)) = AList.delete sid (en_active e))" by blast
qed

lemma fail_pending_settles:
  "distinct (state_ids xs) \<Longrightarrow> set (state_ids xs) \<inter> set (settled_ids e) = {} \<Longrightarrow>
   settled_ids (foldl (fail_pending_one up) e xs) = settled_ids e @ state_ids xs \<and>
   en_active (foldl (fail_pending_one up) e xs) = en_active e \<and>
   en_queue (foldl (fail_pending_one up) e xs) = en_queue e"
proof (induction xs arbitrary: e)
  case Nil
  then show ?case by (simp add: state_ids_def)
next
  case (Cons x xs)
  obtain sid st where x: "x = (sid, st)" by (cases x)
  let ?e1 = "fail_pending_one up e x"
  have s: "settled_ids ?e1 = settled_ids e @ [rq_id (ss_request st)]"
    using settled_fail_future [of "ss_request st" e] Cons.prems(2)
    by (simp add: x settled_ids_def state_ids_def)
  have "distinct (state_ids xs)" "set (state_ids xs) \<inter> set (settled_ids ?e1) = {}"
    unfolding s using Cons.prems by (auto simp: state_ids_def x)
  from Cons.IH [OF this] s show ?case by (simp add: x state_ids_def)
qed

lemma fail_all_requests:
  assumes inv: "requests_inv subs e" and once: "once subs" and slots: "slots_inv e"
  shows "requests_ok subs (fail_all_active_slots up e)"
proof -
  let ?a = "fail_active up e" and ?f = "fail_all_active_slots up e"
  have ia: "requests_inv subs ?a" by (rule fail_active_requests [OF inv])
  have act: "en_active ?a = []" by (rule fail_active_slots(2) [OF slots])
  have na: "none_settled ?a" by (simp add: none_settled_def act state_ids_def)
  note pl = account_places [OF ia na once]
  have "set (state_ids (en_pending ?a)) \<inter> set (settled_ids ?a) = {}" using pl(2) by blast
  from fail_pending_settles [OF pl(3) this, of up]
  have f: "settled_ids ?f = settled_ids ?a @ state_ids (en_pending ?a)" "en_active ?f = []"
    "en_queue ?f = en_queue ?a" "en_pending ?f = []"
    by (simp_all add: fail_all_active_slots_def fail_pending_def settled_ids_def act)
  show ?thesis using ia
    by (simp add: requests_ok_def requests_inv_def request_account_def open_ids_def none_settled_def f act
        state_ids_def ac_simps)
qed

section \<open>Every step of the engine\<close>

definition engine_requests_ok :: "string multiset \<Rightarrow> engine \<Rightarrow> bool" where
  "engine_requests_ok subs e \<longleftrightarrow> requests_inv subs e \<and> (en_pc e \<noteq> Failing \<longrightarrow> none_settled e)"

text \<open>The connection holds while expired slots are given up.\<close>

definition expires_safely :: "engine_event \<Rightarrow> bool" where
  "expires_safely ev = (case ev of Activate now is_active up \<Rightarrow> (\<forall>s. up s) | _ \<Rightarrow> True)"

fun submitted :: "engine_event list \<Rightarrow> string multiset" where
  "submitted [] = {#}"
| "submitted (Submit r # evs) = add_mset (rq_id r) (submitted evs)"
| "submitted (_ # evs) = submitted evs"

lemma submitted_Cons: "submitted (ev # evs) = submitted [ev] + submitted evs"
  by (cases ev) simp_all

lemma requests_inv_pc:
  assumes "en_queue e' = en_queue e" "en_pending e' = en_pending e" "en_active e' = en_active e"
    "en_settled e' = en_settled e"
  shows "requests_inv subs e' = requests_inv subs e" "none_settled e' = none_settled e"
  using assms by (simp_all add: requests_inv_def account_defs none_settled_def)

lemma compute_tokens_settled: "settled_ids (snd (compute_tokens gi e)) = settled_ids e"
  by (simp add: compute_tokens_def Let_def case_prod_unfold settled_ids_def attention_writes_def)

lemma generate_none_settled:
  assumes "requests_ok subs e"
  shows "none_settled (snd (generate_one_token_all gi e))"
proof -
  have drop: "none_settled e'"
    if i: "requests_inv subs e0" and n: "none_settled e0" and m: "(sid, st) \<in> set (en_active e0)"
      and a: "en_active e' = AList.delete sid (en_active e0)"
      and s: "settled_ids e' = settled_ids (fail_future (ss_request st) e0)" for e0 e' :: engine and sid st
  proof -
    have wf: "dict_wf (en_active e0)" and d: "distinct (state_ids (en_active e0))"
      using i by (simp_all add: requests_inv_def)
    have sub: "set (state_ids (AList.delete sid (en_active e0))) \<subseteq> set (state_ids (en_active e0))"
      using state_ids_delete [OF wf m] by (metis set_mset_add_mset_insert set_mset_mset subset_insertI)
    show ?thesis
      using distinct_state_ids_delete(2) [OF wf m d] sub n
      by (auto simp: none_settled_def a s settled_fail_future)
  qed
  let ?I = "\<lambda>e. requests_inv subs e \<and> none_settled e"
  have fold: "?I (foldl f e0 (en_active e0))"
    if "?I e0" and step: "\<And>e sid st. ?I e \<Longrightarrow> (sid, st) \<in> set (en_active e) \<Longrightarrow> ?I (f e (sid, st)) \<and>
      (en_active (f e (sid, st)) = en_active e \<or> en_active (f e (sid, st)) = AList.delete sid (en_active e))"
    for f :: "engine \<Rightarrow> int \<times> slot_state \<Rightarrow> engine" and e0
  proof (rule foldl_items [where entries = en_active and I = ?I])
    show "dict_wf (en_active e0)" using that(1) by (simp add: requests_inv_def)
    fix e :: engine and sid st assume "?I e" "(sid, st) \<in> set (en_active e)"
    from step [OF this] show "?I (f e (sid, st)) \<and>
        (\<forall>y \<in> set (en_active e). fst y \<noteq> sid \<longrightarrow> y \<in> set (en_active (f e (sid, st))))"
      by (metis in_delete)
  qed (use that(1) in simp_all)
  have td: "?I (teardown_slot up sid st e0)" if "?I e0" "(sid, st) \<in> set (en_active e0)" for up sid st e0
    using teardown_requests [of subs e0 sid st up] that
      drop [of e0 sid st "teardown_slot up sid st e0"] by (simp add: settled_teardown)
  have "?I (abort_evicted gi e)"
    unfolding abort_evicted_def
  proof (rule fold)
    show "?I e" using assms by (simp add: requests_ok_def)
    fix e :: engine and sid st assume e: "?I e" "(sid, st) \<in> set (en_active e)"
    then have "?I (e\<lparr>en_pool := clear_evicted_slot sid (en_pool e)\<rparr>)"
      using requests_inv_pc [of "e\<lparr>en_pool := clear_evicted_slot sid (en_pool e)\<rparr>" e] by simp
    from td [OF this, of sid st "gi_up gi sid"] e
    show "?I (abort_one gi e (sid, st)) \<and> (en_active (abort_one gi e (sid, st)) = en_active e \<or>
        en_active (abort_one gi e (sid, st)) = AList.delete sid (en_active e))" by simp
  qed
  moreover have "?I (reserve_blocks gi e0)" if "?I e0" for e0
    unfolding reserve_blocks_def
  proof (rule fold [OF that])
    fix e :: engine and sid st assume e: "?I e" "(sid, st) \<in> set (en_active e)"
    show "?I (reserve_one gi e (sid, st)) \<and> (en_active (reserve_one gi e (sid, st)) = en_active e \<or>
        en_active (reserve_one gi e (sid, st)) = AList.delete sid (en_active e))"
      using e td [OF e] requests_inv_pc [of "e\<lparr>en_kv := kv\<rparr>" e for kv] by (simp split: sum.split)
  qed
  moreover have "none_settled (snd (compute_tokens gi e0))" if "none_settled e0" for e0
  proof -
    have "state_ids (en_active (snd (compute_tokens gi e0))) = state_ids (en_active e0)"
      by (auto simp: compute_tokens_def Let_def case_prod_unfold attention_writes_def
          state_ids_next_input [unfolded case_prod_unfold])
    with that compute_tokens_settled show ?thesis by (simp add: none_settled_def)
  qed
  ultimately show ?thesis by (simp add: generate_one_token_all_def Let_def)
qed

lemma engine_step_requests:
  assumes ok: "engine_requests_ok subs e" and slots: "engine_slots_ok e"
    and once: "once (submitted [ev] + subs)" and ev: "expires_safely ev"
  shows "engine_requests_ok (submitted [ev] + subs - lost_by ev e) (engine_step cfg ev e) \<and>
    lost_by ev e \<subseteq># submitted [ev] + subs"
proof -
  have inv: "requests_inv subs e" and n: "en_pc e \<noteq> Failing \<Longrightarrow> none_settled e"
    using ok by (auto simp: engine_requests_ok_def)
  have si: "slots_inv e" and act: "en_pc e \<noteq> Failing \<Longrightarrow> active_owned e"
    using slots by (auto simp: engine_slots_ok_def)
  have good: "requests_ok subs e" if "en_pc e \<noteq> Failing" using inv n that by (simp add: requests_ok_def)
  have same: ?thesis if "engine_step cfg ev e = e" "submitted [ev] = {#}" "lost_by ev e = {#}" using that ok by simp
  note pc = requests_inv_pc [of "e'\<lparr>en_pc := pc\<rparr>" e' for e' :: engine and pc, simplified]
  show ?thesis
  proof (cases ev)
    case (Submit r)
    have "none_settled (submit_request r e) = none_settled e"
      by (simp add: none_settled_def submit_request_def settled_ids_def)
    then show ?thesis using Submit submit_requests [OF inv] n
      by (simp add: engine_requests_ok_def engine_step_def lost_by_def submit_request_def)
  next
    case (Pool_change p)
    then show ?thesis using ok requests_inv_pc [of "e\<lparr>en_pool := p\<rparr>" e]
      by (simp add: engine_requests_ok_def engine_step_def lost_by_def)
  next
    case (Accept inp wall perf)
    have once': "once subs" using once Accept by simp
    show ?thesis
    proof (cases "en_pc e = Accepting \<and> en_queue e \<noteq> []")
      case True
      then obtain req rest where q: "en_queue e = req # rest" by (cases "en_queue e") auto
      obtain b e1 where a: "accept_one cfg inp wall perf e = (b, e1)" by (cases "accept_one cfg inp wall perf e")
      have b: "b \<longleftrightarrow> rq_slo_deadline_wall req = Not_a_number"
        using accept_one_raised [of cfg inp wall perf e] by (simp add: a q)
      show ?thesis
      proof (cases b)
        case raised: True
        then have "requests_inv (subs - {#rq_id req#}) e1 \<and> rq_id req \<in># subs"
          using accept_one_lost [OF inv q] b a by (metis snd_conv)
        then show ?thesis
          using raised b True Accept a q by (simp add: engine_step_def engine_requests_ok_def lost_by_def pc)
      next
        case quiet: False
        then have "requests_ok subs e1" using accept_one_requests [OF _ once' si] good act a True by simp
        then show ?thesis
          using quiet b True Accept a q by (simp add: engine_step_def engine_requests_ok_def requests_ok_def lost_by_def)
      qed
    next
      case False
      then show ?thesis using Accept ok n
        by (auto simp: engine_step_def engine_requests_ok_def lost_by_def pc split: list.splits)
    qed
  next
    case (Activate now is_active up)
    have once': "once subs" using once Activate by simp
    have up: "\<forall>s. up s" using ev Activate by (simp add: expires_safely_def)
    show ?thesis
    proof (cases "en_pc e = Activating")
      case True
      obtain b e1 where t: "try_activate cfg now is_active up e = (b, e1)"
        by (cases "try_activate cfg now is_active up e")
      have "requests_ok subs e1" using try_activate_requests [OF _ once' si up t] good True by simp
      then show ?thesis using Activate True t by (simp add: engine_step_def engine_requests_ok_def requests_ok_def lost_by_def pc)
    next
      case False
      then show ?thesis using Activate by (intro same) (simp_all add: engine_step_def lost_by_def)
    qed
  next
    case Decide
    then show ?thesis using ok n by (simp add: engine_step_def engine_requests_ok_def lost_by_def pc)
  next
    case (Generate gi)
    show ?thesis
    proof (cases "en_pc e = Generating")
      case True
      obtain b e1 where g: "generate_one_token_all gi e = (b, e1)" by (cases "generate_one_token_all gi e")
      have "requests_inv subs e1" using generate_requests [OF inv, of gi] g by simp
      moreover have "none_settled e1" using generate_none_settled [OF good, of gi] g True by simp
      ultimately show ?thesis using Generate True g by (simp add: engine_step_def engine_requests_ok_def lost_by_def pc)
    next
      case False
      then show ?thesis using Generate by (intro same) (simp_all add: engine_step_def lost_by_def)
    qed
  next
    case (Complete inp)
    show ?thesis
    proof (cases "en_pc e = Completing")
      case True
      obtain b e1 where c: "handle_completions cfg inp e = (b, e1)" by (cases "handle_completions cfg inp e")
      then show ?thesis using handle_completions_requests [OF good c] Complete True
        by (simp add: engine_step_def engine_requests_ok_def lost_by_def pc)
    next
      case False
      then show ?thesis using Complete by (intro same) (simp_all add: engine_step_def lost_by_def)
    qed
  next
    case (Fail up)
    have once': "once subs" using once Fail by simp
    show ?thesis
    proof (cases "en_pc e = Failing")
      case True
      then show ?thesis using fail_all_requests [OF inv once' si] Fail
        by (simp add: engine_step_def engine_requests_ok_def requests_ok_def lost_by_def pc)
    next
      case False
      then show ?thesis using Fail by (intro same) (simp_all add: engine_step_def lost_by_def)
    qed
  qed
qed

lemma once_sub: "once (A + B) \<Longrightarrow> once A"
  unfolding once_def by (metis count_union le_add1 order_trans)

lemma engine_run_requests:
  "engine_requests_ok subs e \<Longrightarrow> engine_slots_ok e \<Longrightarrow> run_ok cfg evs e \<Longrightarrow> \<forall>ev \<in> set evs. expires_safely ev \<Longrightarrow>
   once (submitted evs + subs) \<Longrightarrow>
   engine_requests_ok (submitted evs + subs - lost_run cfg evs e) (engine_run cfg evs e) \<and>
   lost_run cfg evs e \<subseteq># submitted evs + subs"
proof (induction evs arbitrary: e subs)
  case Nil
  then show ?case by simp
next
  case (Cons ev evs)
  let ?e1 = "engine_step cfg ev e" and ?lost = "lost_by ev e"
  have split: "submitted (ev # evs) + subs = submitted evs + (submitted [ev] + subs)"
    by (subst submitted_Cons) (simp add: ac_simps)
  have once: "once (submitted [ev] + subs)"
    using Cons.prems(5) split add.commute once_sub by metis
  have e: "expires_safely ev" "event_ok ev e" using Cons.prems(3,4) by simp_all
  note s = engine_step_requests [OF Cons.prems(1,2) once e(1), of cfg]
  have slots: "engine_slots_ok ?e1" using engine_step_slots [OF Cons.prems(2) e(2)] by blast
  have whole: "submitted (ev # evs) + subs = ?lost + (submitted evs + (submitted [ev] + subs - ?lost))"
    using s by (metis split add.assoc add.commute subset_mset.add_diff_inverse)
  then have once': "once (submitted evs + (submitted [ev] + subs - ?lost))"
    using Cons.prems(5) by (metis add.commute once_sub)
  have later: "run_ok cfg evs ?e1" "\<forall>ev \<in> set evs. expires_safely ev" using Cons.prems(3,4) by simp_all
  from Cons.IH [OF conjunct1 [OF s] slots later once'] whole show ?case by simp
qed

text \<open>Only requests whose deadline is not a number are lost.\<close>

definition bad_deadlines :: "engine_event list \<Rightarrow> string set" where
  "bad_deadlines evs = {rq_id r | r. Submit r \<in> set evs \<and> rq_slo_deadline_wall r = Not_a_number}"

lemma foldl_queue: "(\<And>e x. en_queue (f e x) = en_queue e) \<Longrightarrow> en_queue (foldl f e xs) = en_queue e"
  by (induction xs arbitrary: e) simp_all

lemma expire_queue: "en_queue (snd (expire_slots up xs e)) = en_queue e"
proof (induction up xs e rule: expire_slots.induct)
  case (2 up sid st rest e)
  obtain b e1 where m: "manager_release (up sid) sid (signal_leave sid (remove_pending sid e)) = (b, e1)"
    by (cases "manager_release (up sid) sid (signal_leave sid (remove_pending sid e))")
  have "en_queue e1 = en_queue e"
    using manager_release_frame(3) [of "up sid" sid "signal_leave sid (remove_pending sid e)"]
    unfolding m by (simp add: remove_pending_def)
  then show ?case using 2 m by (cases b) simp_all
qed simp

lemma complete_slots_queue: "en_queue (snd (snd (complete_slots cfg inp xs e))) = en_queue e"
proof (induction cfg inp xs e rule: complete_slots.induct)
  case (2 cfg inp sid st rest e)
  obtain b e1 where m: "manager_release (inp sid \<noteq> Release_lost) sid (signal_leave sid (drop_kv sid e)) = (b, e1)"
    by (cases "manager_release (inp sid \<noteq> Release_lost) sid (signal_leave sid (drop_kv sid e))")
  have "en_queue e1 = en_queue e"
    using manager_release_frame(3) [of "inp sid \<noteq> Release_lost" sid "signal_leave sid (drop_kv sid e)"]
    unfolding m by simp
  then show ?case using 2 m by (cases b) (simp_all add: case_prod_unfold Let_def)
qed simp

lemma activate_queue: "en_queue (snd (try_activate cfg now is_active up e)) = en_queue e"
proof -
  have join: "en_queue (join_all now e) = en_queue e"
    unfolding join_all_def by (rule foldl_queue) (simp add: split_paired_all Let_def)
  have move: "en_queue (move_active sids e) = en_queue e" for sids e
    unfolding move_active_def by (rule foldl_queue) (simp add: add_active_slot_def remove_pending_def split: option.split)
  let ?timed = "filter (\<lambda>(sid, st). \<not> is_active sid \<and> join_expired cfg now st) (en_pending (join_all now e))"
  show ?thesis
    using expire_queue [of up ?timed "join_all now e"] join move
    by (cases "expire_slots up ?timed (join_all now e)") (auto simp: try_activate_def Let_def split: bool.split)
qed

lemma complete_queue: "en_queue (snd (handle_completions cfg inp e)) = en_queue e"
proof -
  have "en_queue (foldl (\<lambda>e sid. remove_active_slot sid e) e' sids) = en_queue e'" for e' sids
    by (rule foldl_queue) (simp add: remove_active_slot_def)
  then show ?thesis
    using complete_slots_queue [of cfg inp "en_active e" e] by (simp add: handle_completions_def Let_def case_prod_unfold)
qed

lemma fail_all_queue: "en_queue (fail_all_active_slots up e) = en_queue e"
proof -
  have "en_queue (foldl (fail_active_one up) e' xs) = en_queue e'" for e' xs
    by (rule foldl_queue) (simp add: split_paired_all remove_active_slot_def)
  moreover have "en_queue (foldl (fail_pending_one up) e' xs) = en_queue e'" for e' xs
    by (rule foldl_queue) (simp add: split_paired_all)
  ultimately show ?thesis by (simp add: fail_all_active_slots_def fail_active_def fail_pending_def)
qed

lemma generate_queue: "en_queue (snd (generate_one_token_all gi e)) = en_queue e"
proof -
  have "en_queue (abort_evicted gi e') = en_queue e'" for e'
    unfolding abort_evicted_def by (rule foldl_queue) (simp add: split_paired_all)
  moreover have "en_queue (reserve_blocks gi e') = en_queue e'" for e'
    unfolding reserve_blocks_def by (rule foldl_queue) (simp add: split_paired_all split: sum.split)
  moreover have "en_queue (snd (compute_tokens gi e')) = en_queue e'" for e'
    by (simp add: compute_tokens_def Let_def case_prod_unfold attention_writes_def)
  ultimately show ?thesis by (simp add: generate_one_token_all_def Let_def)
qed

lemma engine_step_queue:
  "set (en_queue (engine_step cfg ev e)) \<subseteq> set (en_queue e) \<union> {r. ev = Submit r}"
proof -
  have accept: "set (en_queue (snd (accept_one cfg inp wall perf e))) \<subseteq> set (en_queue e)" for inp wall perf
    by (auto simp: accept_one_def Let_def settle_future_def split: list.splits sum.splits prod.splits accept_input.splits if_splits)
  show ?thesis
    using accept generate_queue [of _ e] complete_queue [of cfg _ e] activate_queue [of cfg _ _ _ e] fail_all_queue [of _ e]
    by (cases ev) (auto simp: engine_step_def submit_request_def case_prod_unfold Let_def)
qed

lemma lost_run_bad:
  "set_mset (lost_run cfg evs e) \<subseteq> bad_deadlines evs \<union> rq_id ` {r \<in> set (en_queue e). rq_slo_deadline_wall r = Not_a_number}"
proof (induction evs arbitrary: e)
  case (Cons ev evs)
  have "set_mset (lost_by ev e) \<subseteq> rq_id ` {r \<in> set (en_queue e). rq_slo_deadline_wall r = Not_a_number}"
    by (auto simp: lost_by_def split: engine_event.splits list.splits if_splits)
  moreover have "rq_id ` {r \<in> set (en_queue (engine_step cfg ev e)). rq_slo_deadline_wall r = Not_a_number} \<subseteq>
      rq_id ` {r \<in> set (en_queue e). rq_slo_deadline_wall r = Not_a_number} \<union> bad_deadlines [ev]"
    using engine_step_queue [of cfg ev e] by (auto simp: bad_deadlines_def)
  moreover have "bad_deadlines (ev # evs) = bad_deadlines [ev] \<union> bad_deadlines evs"
    by (auto simp: bad_deadlines_def)
  ultimately show ?case
    using Cons.IH [of "engine_step cfg ev e"] unfolding lost_run.simps set_mset_union by blast
qed simp

lemma engine_init_requests: "engine_requests_ok {#} (engine_init w kv p)"
  by (simp add: engine_requests_ok_def requests_inv_def account_defs none_settled_def engine_init_def state_ids_def)

end
