(* ===== verification/Engine_Cache.thy ===== *)
theory Engine_Cache
  imports Engine_Slots
begin

text \<open>
  The key/value cache and the lengths of the sequences of a worker: every active slot
  follows its prompt and then its own tokens, never beyond the longest sequence, so its
  block table never outgrows its row and, with no more active slots than the cache was
  built for, an allocation never fails. The results of finished requests are within the
  limits they asked for.
\<close>

section \<open>One slot\<close>

definition gen_len :: "slot_state \<Rightarrow> int" where
  "gen_len st = int (length (ss_generated_tokens st))"

definition max_toks :: "slot_state \<Rightarrow> int" where
  "max_toks st = rq_max_tokens (ss_request st)"

text \<open>
  With \<open>n\<close> tokens in the cache: what is cached, what is about to be fed and the chunks
  left are the prompt and the tokens generated so far.
\<close>

definition state_fits :: "engine_config \<Rightarrow> int \<Rightarrow> slot_state \<Rightarrow> bool" where
  "state_fits cfg n st \<longleftrightarrow> 0 \<le> n \<and> ss_input_ids st \<noteq> [] \<and> [] \<notin> set (ss_prefill_chunks st) \<and>
     (ss_prefill_chunks st \<noteq> [] \<longrightarrow> ss_generated_tokens st = []) \<and>
     n + int (length (ss_input_ids st)) + int (length (concat (ss_prefill_chunks st))) =
       ss_prompt_tokens st + gen_len st \<and>
     ss_prompt_tokens st + max_toks st \<le> ec_max_seq_len cfg \<and> 1 \<le> max_toks st"

definition running :: "slot_state \<Rightarrow> bool" where
  "running st \<longleftrightarrow> gen_len st < max_toks st"

definition in_limit :: "slot_state \<Rightarrow> bool" where
  "in_limit st \<longleftrightarrow> gen_len st \<le> max_toks st"

lemma concat_split_chunks: "concat (split_chunks n xs) = xs"
proof (induction n xs rule: split_chunks.induct)
  case (1 n xs)
  then show ?case by (subst split_chunks.simps) simp
qed

lemma split_chunks_nonempty:
  assumes "xs \<noteq> []"
  shows "split_chunks n xs \<noteq> []" and "[] \<notin> set (split_chunks n xs)"
proof -
  show "split_chunks n xs \<noteq> []" by (subst split_chunks.simps) simp
  show "[] \<notin> set (split_chunks n xs)" using assms
  proof (induction n xs rule: split_chunks.induct)
    case (1 n xs)
    then show ?case by (subst split_chunks.simps) auto
  qed
qed

lemma split_chunks_length: "0 < n \<Longrightarrow> c \<in> set (split_chunks n xs) \<Longrightarrow> length c \<le> n"
proof (induction n xs rule: split_chunks.induct)
  case (1 n xs)
  then show ?case by (cases "n = 0 \<or> length xs \<le> n") (auto simp: split_chunks.simps [of n xs])
qed

lemma prepare_slot_fits:
  assumes "tokens \<noteq> []" and "2 \<le> ec_max_seq_len cfg" and "1 \<le> rq_max_tokens req"
  shows "state_fits cfg 0 (prepare_slot cfg req s tokens perf)"
    and "running (prepare_slot cfg req s tokens perf)"
    and "ss_generated_tokens (prepare_slot cfg req s tokens perf) = []"
proof -
  define ids where "ids = (if ec_max_seq_len cfg \<le> int (length tokens)
    then take_last (nat (ec_max_seq_len cfg - 1)) tokens else tokens)"
  define chunks where "chunks = (if int (ec_prefill_chunk_size cfg) < int (length ids)
    then split_chunks (ec_prefill_chunk_size cfg) ids else [ids])"
  let ?st = "prepare_slot cfg req s tokens perf"
  have st: "ss_input_ids ?st = hd chunks" "ss_prefill_chunks ?st = tl chunks"
    "ss_generated_tokens ?st = []" "ss_prompt_tokens ?st = int (length ids)"
    "max_toks ?st = min (rq_max_tokens req) (ec_max_seq_len cfg - int (length ids))"
    by (simp_all add: prepare_slot_def Let_def ids_def [symmetric] chunks_def max_toks_def)
  have len: "1 \<le> int (length ids)" "int (length ids) \<le> ec_max_seq_len cfg - 1"
    using assms(1,2) by (auto simp: ids_def take_last_def Suc_le_eq)
  then have ne: "ids \<noteq> []" by auto
  have c: "concat chunks = ids" "chunks \<noteq> []" "[] \<notin> set chunks"
    using concat_split_chunks [of "ec_prefill_chunk_size cfg" ids]
      split_chunks_nonempty [OF ne, of "ec_prefill_chunk_size cfg"] ne
    by (auto simp: chunks_def)
  then obtain x xs where ch: "chunks = x # xs" by (cases chunks) auto
  have sum: "int (length x) + int (length (concat xs)) = int (length ids)"
    using arg_cong [OF c(1), of length] unfolding ch by simp
  have "x \<noteq> []" "[] \<notin> set xs" using c(3) unfolding ch by auto
  then show "state_fits cfg 0 ?st"
    using sum len assms(3) by (simp add: state_fits_def st ch gen_len_def)
  show "running ?st" using len assms(3) by (simp add: running_def gen_len_def st)
  show "ss_generated_tokens ?st = []" by (rule st(3))
qed

text \<open>One step of a slot feeds its input and takes the next chunk or the sampled token.\<close>

lemma next_input_fits:
  assumes "state_fits cfg n st" and "running st"
  shows "state_fits cfg (n + int (length (ss_input_ids st))) (next_input gi sid st)"
    and "in_limit (next_input gi sid st)"
  using assms
  by (auto simp: state_fits_def running_def in_limit_def gen_len_def max_toks_def next_input_def Let_def
      split: list.splits)

lemma needed_bound:
  assumes "state_fits cfg n st" and "running st"
  shows "n + int (length (ss_input_ids st)) \<le> ec_max_seq_len cfg"
  using assms by (auto simp: state_fits_def running_def)

section \<open>The whole engine\<close>

definition cache_base :: "engine_config \<Rightarrow> engine \<Rightarrow> bool" where
  "cache_base cfg e \<longleftrightarrow> slots_inv e \<and> kv_inv (en_kv e) \<and> 2 \<le> ec_max_seq_len cfg \<and>
     kv_max_blocks_per_seq (en_kv e) = ceil_div (ec_max_seq_len cfg) (kv_block_size (en_kv e)) \<and>
     kv_num_blocks (en_kv e) = kv_max_slots (en_kv e) * kv_max_blocks_per_seq (en_kv e) \<and>
     fst ` set (kv_block_tables (en_kv e)) \<subseteq> active_keys e \<and>
     (\<forall>s. int (length (slot_blocks s (en_kv e))) \<le> kv_max_blocks_per_seq (en_kv e)) \<and>
     (\<forall>(s, st) \<in> set (en_pending e). map_of (kv_seq_lens (en_kv e)) s = Some 0 \<and>
        state_fits cfg 0 st \<and> running st) \<and>
     (\<forall>r \<in> set (en_queue e). 1 \<le> rq_max_tokens r)"

definition cache_active :: "engine_config \<Rightarrow> (slot_state \<Rightarrow> bool) \<Rightarrow> engine \<Rightarrow> bool" where
  "cache_active cfg P e \<longleftrightarrow> (\<forall>(s, st) \<in> set (en_active e).
     \<exists>n. map_of (kv_seq_lens (en_kv e)) s = Some n \<and> state_fits cfg n st \<and> P st \<and>
       (s \<notin> fst ` set (kv_block_tables (en_kv e)) \<longrightarrow> n = 0))"

lemma cache_baseD:
  assumes "cache_base cfg e"
  shows "slots_inv e" "kv_inv (en_kv e)" "2 \<le> ec_max_seq_len cfg" "0 < kv_block_size (en_kv e)"
    "kv_max_blocks_per_seq (en_kv e) = ceil_div (ec_max_seq_len cfg) (kv_block_size (en_kv e))"
    "kv_num_blocks (en_kv e) = kv_max_slots (en_kv e) * kv_max_blocks_per_seq (en_kv e)"
    "fst ` set (kv_block_tables (en_kv e)) \<subseteq> active_keys e"
    "int (length (slot_blocks s (en_kv e))) \<le> kv_max_blocks_per_seq (en_kv e)"
    "dict_wf (kv_block_tables (en_kv e))" "dict_wf (kv_seq_lens (en_kv e))"
  using assms by (auto simp: cache_base_def kv_inv_def kv_shape_def)

lemma cache_pendingD:
  assumes "cache_base cfg e" "(s, st) \<in> set (en_pending e)"
  shows "map_of (kv_seq_lens (en_kv e)) s = Some 0" "state_fits cfg 0 st" "running st"
  using assms by (auto simp: cache_base_def)

lemma cache_activeD:
  assumes "cache_active cfg P e" "(s, st) \<in> set (en_active e)"
  obtains n where "map_of (kv_seq_lens (en_kv e)) s = Some n" "state_fits cfg n st" "P st"
    "s \<notin> fst ` set (kv_block_tables (en_kv e)) \<longrightarrow> n = 0"
proof -
  have "\<exists>n. map_of (kv_seq_lens (en_kv e)) s = Some n \<and> state_fits cfg n st \<and> P st \<and>
      (s \<notin> fst ` set (kv_block_tables (en_kv e)) \<longrightarrow> n = 0)"
    using bspec [OF assms(1) [unfolded cache_active_def] assms(2)] by (simp only: prod.case)
  with that show thesis by blast
qed

lemma dict_get_delete: "dict_get (AList.delete s d) t v = (if t = s then v else dict_get d t v)"
  by (simp add: dict_get_def delete_conv')

text \<open>Dropping an active slot together with its blocks.\<close>

lemma drop_slot_cache:
  assumes base: "cache_base cfg e" and slots: "slots_inv e'"
    and e': "en_kv e' = free_slot s (en_kv e)" "en_active e' = AList.delete s (en_active e)"
      "en_pending e' = en_pending e" "en_queue e' = en_queue e"
    and mem: "s \<in> active_keys e"
  shows "cache_base cfg e'" and "cache_active cfg P e \<Longrightarrow> cache_active cfg P e'"
proof -
  note b = cache_baseD [OF base]
  have out: "s \<notin> pending_keys e" using b(1) mem by (auto simp: slots_inv_def)
  have max0: "0 \<le> kv_max_blocks_per_seq (en_kv e)" using b(8) [of s] by linarith
  have tables: "fst ` set (kv_block_tables (free_slot s (en_kv e))) \<subseteq> active_keys e'"
    using b(7) by (auto simp: free_slot_fields e' dict_keys_delete)
  have pend: "\<forall>(t, st) \<in> set (en_pending e). map_of (kv_seq_lens (free_slot s (en_kv e))) t = Some 0 \<and>
      state_fits cfg 0 st \<and> running st"
  proof (intro ballI, clarify)
    fix t st assume t: "(t, st) \<in> set (en_pending e)"
    then have "t \<noteq> s" using out by (auto dest: in_dict_keys)
    then show "map_of (kv_seq_lens (free_slot s (en_kv e))) t = Some 0 \<and> state_fits cfg 0 st \<and> running st"
      using cache_pendingD [OF base t] by (simp add: free_slot_fields delete_conv')
  qed
  show "cache_base cfg e'"
    using base slots tables pend free_slot_inv [OF b(2), of s] b(8) max0
    by (simp add: cache_base_def e' free_slot_fields dict_get_delete)
  show "cache_active cfg P e'" if "cache_active cfg P e"
    unfolding cache_active_def
  proof (intro ballI, clarify)
    fix t st assume "(t, st) \<in> set (en_active e')"
    then have t: "(t, st) \<in> set (en_active e)" "t \<noteq> s" by (auto simp: e' delete_filter)
    from that t(1) obtain n where "map_of (kv_seq_lens (en_kv e)) t = Some n" "state_fits cfg n st" "P st"
      "t \<notin> fst ` set (kv_block_tables (en_kv e)) \<longrightarrow> n = 0" by (rule cache_activeD)
    then show "\<exists>n. map_of (kv_seq_lens (en_kv e')) t = Some n \<and> state_fits cfg n st \<and> P st \<and>
        (t \<notin> fst ` set (kv_block_tables (en_kv e')) \<longrightarrow> n = 0)"
      using t(2) by (intro exI [of _ n]) (auto simp: e' free_slot_fields delete_conv' dict_keys_delete)
  qed
qed

lemma teardown_cache:
  assumes "cache_base cfg e" "cache_active cfg P e" "(s, st) \<in> set (en_active e)"
  shows "cache_base cfg (teardown_slot up s st e)" "cache_active cfg P (teardown_slot up s st e)"
proof -
  have m: "s \<in> active_keys e" by (rule in_dict_keys [OF assms(3)])
  have "slots_inv (teardown_slot up s st e)"
    by (rule teardown_slots(1) [OF cache_baseD(1) [OF assms(1)] m])
  from drop_slot_cache(1) [OF assms(1) this _ _ _ _ m] drop_slot_cache(2) [OF assms(1) this _ _ _ _ m assms(2)]
  show "cache_base cfg (teardown_slot up s st e)" "cache_active cfg P (teardown_slot up s st e)" by simp_all
qed

lemma cache_frame:
  assumes "en_kv e' = en_kv e" "en_active e' = en_active e" "en_pending e' = en_pending e"
    "en_queue e' = en_queue e"
  shows "slots_inv e' \<Longrightarrow> cache_base cfg e \<Longrightarrow> cache_base cfg e'"
    and "cache_active cfg P e' = cache_active cfg P e"
  unfolding cache_base_def cache_active_def assms by blast+

lemma foldl_active_cache:
  assumes "cache_base cfg e" and "cache_active cfg P e"
    and step: "\<And>e sid st. cache_base cfg e \<Longrightarrow> cache_active cfg P e \<Longrightarrow> (sid, st) \<in> set (en_active e) \<Longrightarrow>
      cache_base cfg (f e (sid, st)) \<and> cache_active cfg P (f e (sid, st)) \<and>
      (en_active (f e (sid, st)) = en_active e \<or> en_active (f e (sid, st)) = AList.delete sid (en_active e))"
  shows "cache_base cfg (foldl f e (en_active e)) \<and> cache_active cfg P (foldl f e (en_active e))"
proof (rule foldl_items [where entries = en_active and I = "\<lambda>e. cache_base cfg e \<and> cache_active cfg P e"])
  show "dict_wf (en_active e)" using cache_baseD(1) [OF assms(1)] by (simp add: slots_inv_def)
  fix e :: engine and sid st assume "cache_base cfg e \<and> cache_active cfg P e" "(sid, st) \<in> set (en_active e)"
  with step [of e sid st] show "(cache_base cfg (f e (sid, st)) \<and> cache_active cfg P (f e (sid, st))) \<and>
      (\<forall>y \<in> set (en_active e). fst y \<noteq> sid \<longrightarrow> y \<in> set (en_active (f e (sid, st))))"
    by (metis in_delete)
qed (use assms in simp_all)

lemma abort_evicted_cache:
  assumes "cache_base cfg e" and "cache_active cfg P e"
  shows "cache_base cfg (abort_evicted gi e) \<and> cache_active cfg P (abort_evicted gi e)"
  unfolding abort_evicted_def
proof (rule foldl_active_cache [OF assms])
  fix e :: engine and sid st
  assume e: "cache_base cfg e" "cache_active cfg P e" "(sid, st) \<in> set (en_active e)"
  let ?c = "e\<lparr>en_pool := clear_evicted_slot sid (en_pool e)\<rparr>"
  have "slots_inv ?c"
    using cache_baseD(1) [OF e(1)] by (simp add: slots_inv_def owned_def clear_evicted_pool)
  then have c: "cache_base cfg ?c" "cache_active cfg P ?c"
    using cache_frame(1) [of ?c e cfg] cache_frame(2) [of ?c e cfg P] e by simp_all
  from teardown_cache [OF c, of sid st "gi_up gi sid"] e
  show "cache_base cfg (abort_one gi e (sid, st)) \<and> cache_active cfg P (abort_one gi e (sid, st)) \<and>
      (en_active (abort_one gi e (sid, st)) = en_active e \<or>
       en_active (abort_one gi e (sid, st)) = AList.delete sid (en_active e))" by simp
qed

text \<open>
  Reserving blocks: with at most \<open>max_slots\<close> active slots the allocation always succeeds,
  and each slot has the blocks for its next input.
\<close>

definition provided :: "engine \<Rightarrow> int \<times> slot_state \<Rightarrow> bool" where
  "provided e x \<longleftrightarrow> (case x of (sid, st) \<Rightarrow>
     needed_len sid st e \<le> int (length (slot_blocks sid (en_kv e))) * kv_block_size (en_kv e))"

lemma needed_len_eq:
  assumes "map_of (kv_seq_lens (en_kv e)) sid = Some n"
  shows "needed_len sid st e = n + int (length (ss_input_ids st))"
  using assms by (simp add: needed_len_def)

lemma ensure_seq_lens:
  assumes "ensure_blocks_for_length s len kv = Inr kv'" and "map_of (kv_seq_lens kv) s = Some n"
    and start: "s \<notin> fst ` set (kv_block_tables kv) \<longrightarrow> n = 0"
  shows "map_of (kv_seq_lens kv') t = map_of (kv_seq_lens kv) t"
    and "fst ` set (kv_block_tables kv) \<subseteq> fst ` set (kv_block_tables kv')"
proof -
  have "map_of (kv_seq_lens kv') t = map_of (kv_seq_lens kv) t \<and>
      fst ` set (kv_block_tables kv) \<subseteq> fst ` set (kv_block_tables kv')"
    using assms(1)
  proof (rule ensure_cases)
    assume "Inr kv' = Inr kv" then show ?thesis by simp
  next
    fix m assume a: "allocate_blocks s m kv = Inr kv'"
    from allocate_blocks_result [OF a] obtain blocks rest where
      "kv' = kv\<lparr>kv_free_blocks := rest,
          kv_block_tables := AList.update s (slot_blocks s kv @ blocks) (kv_block_tables kv),
          kv_seq_lens := (if map_of (kv_block_tables kv) s = None
                          then AList.update s 0 (kv_seq_lens kv) else kv_seq_lens kv)\<rparr>" by blast
    then show ?thesis using assms(2) start by (auto simp: update_conv' dom_update map_of_None_keys)
  qed
  then show "map_of (kv_seq_lens kv') t = map_of (kv_seq_lens kv) t"
    and "fst ` set (kv_block_tables kv) \<subseteq> fst ` set (kv_block_tables kv')" by blast+
qed

text \<open>One reservation that succeeds.\<close>

lemma reserve_success:
  assumes base: "cache_base cfg e" and act: "cache_active cfg running e" and mem: "(sid, st) \<in> set (en_active e)"
    and ens: "ensure_blocks_for_length sid (needed_len sid st e) (en_kv e) = Inr kv"
  shows "cache_base cfg (e\<lparr>en_kv := kv\<rparr>)" and "cache_active cfg running (e\<lparr>en_kv := kv\<rparr>)"
    and "map_of (kv_seq_lens kv) t = map_of (kv_seq_lens (en_kv e)) t"
    and "provided (e\<lparr>en_kv := kv\<rparr>) (sid, st)" and "provided e x \<Longrightarrow> provided (e\<lparr>en_kv := kv\<rparr>) x"
proof -
  let ?e = "e\<lparr>en_kv := kv\<rparr>" and ?kv = "en_kv e"
  note b = cache_baseD [OF base]
  from act mem obtain n where n: "map_of (kv_seq_lens ?kv) sid = Some n" "state_fits cfg n st" "running st"
    "sid \<notin> fst ` set (kv_block_tables ?kv) \<longrightarrow> n = 0" by (rule cache_activeD)
  have need: "needed_len sid st e \<le> ec_max_seq_len cfg"
    using needed_bound [OF n(2,3)] by (simp add: needed_len_eq [OF n(1)])
  note sl = ensure_seq_lens [OF ens n(1,4)]
  note fr = ensure_frame [OF ens] and en = ensure_slots [OF ens]
  have ceil: "ceil_div (needed_len sid st e) (kv_block_size ?kv) \<le> kv_max_blocks_per_seq ?kv"
    unfolding b(5) by (rule ceil_div_mono [OF b(4) need])
  have inv: "kv_inv kv" by (rule ensure_blocks_inv [OF b(2) ens])
  have si: "slots_inv ?e" using b(1) by (simp add: slots_inv_def owned_def)
  have keys: "fst ` set (kv_block_tables kv) \<subseteq> active_keys e"
    using en(4) b(7) in_dict_keys [OF mem] by auto
  have blocks: "int (length (slot_blocks t kv)) \<le> kv_max_blocks_per_seq kv" for t
    using en(1) en(3) [of t] ceil b(8) [of t] b(8) [of sid] fr by (cases "t = sid") auto
  show "map_of (kv_seq_lens kv) t = map_of (kv_seq_lens ?kv) t" by (rule sl(1))
  show "cache_base cfg ?e" using base si inv keys blocks fr sl(1)
    unfolding cache_base_def by simp
  show "cache_active cfg running ?e"
    unfolding cache_active_def
  proof (intro ballI, clarify)
    fix u su assume "(u, su) \<in> set (en_active ?e)"
    then have "(u, su) \<in> set (en_active e)" by simp
    with act obtain m where "map_of (kv_seq_lens ?kv) u = Some m" "state_fits cfg m su" "running su"
      "u \<notin> fst ` set (kv_block_tables ?kv) \<longrightarrow> m = 0" by (rule cache_activeD)
    then show "\<exists>n. map_of (kv_seq_lens (en_kv ?e)) u = Some n \<and> state_fits cfg n su \<and> running su \<and>
        (u \<notin> fst ` set (kv_block_tables (en_kv ?e)) \<longrightarrow> n = 0)"
      using sl(1) [of u] sl(2) by (intro exI [of _ m]) auto
  qed
  have len: "needed_len r u ?e = needed_len r u e" for r u
    by (simp add: needed_len_def dict_get_def sl(1))
  have "needed_len sid st e \<le> ceil_div (needed_len sid st e) (kv_block_size ?kv) * kv_block_size ?kv"
    by (rule ceil_div_enough [OF b(4)])
  also have "\<dots> \<le> int (length (slot_blocks sid kv)) * kv_block_size ?kv"
    using en(1) b(4) by (intro mult_right_mono) auto
  finally show "provided ?e (sid, st)" by (simp add: provided_def len fr)
  have "int (length (slot_blocks t ?kv)) \<le> int (length (slot_blocks t kv))" for t
    using en(1) en(3) [of t] by (cases "t = sid") auto
  then have "int (length (slot_blocks t ?kv)) * kv_block_size ?kv \<le> int (length (slot_blocks t kv)) * kv_block_size ?kv" for t
    using b(4) by (intro mult_right_mono) auto
  then show "provided ?e x" if "provided e x"
    using that by (auto simp: provided_def len fr split: prod.splits intro: order_trans)
qed

lemma reserve_blocks_cache:
  assumes "cache_base cfg e" and "cache_active cfg running e"
  shows "cache_base cfg (reserve_blocks gi e) \<and> cache_active cfg running (reserve_blocks gi e)"
  unfolding reserve_blocks_def
proof (rule foldl_active_cache [OF assms])
  fix e :: engine and sid st
  assume e: "cache_base cfg e" "cache_active cfg running e" "(sid, st) \<in> set (en_active e)"
  from teardown_cache [OF e, of "gi_up gi sid"] reserve_success(1,2) [OF e]
  show "cache_base cfg (reserve_one gi e (sid, st)) \<and> cache_active cfg running (reserve_one gi e (sid, st)) \<and>
      (en_active (reserve_one gi e (sid, st)) = en_active e \<or>
       en_active (reserve_one gi e (sid, st)) = AList.delete sid (en_active e))"
    by (simp split: sum.split)
qed

text \<open>Within its number of slots the cache is never exhausted.\<close>

lemma reserve_enough:
  assumes base: "cache_base cfg e" and act: "cache_active cfg running e" and mem: "(sid, st) \<in> set (en_active e)"
    and slots: "int (length (en_active e)) \<le> kv_max_slots (en_kv e)"
  shows "\<exists>kv. ensure_blocks_for_length sid (needed_len sid st e) (en_kv e) = Inr kv"
proof -
  note b = cache_baseD [OF base]
  from act mem obtain n where n: "map_of (kv_seq_lens (en_kv e)) sid = Some n" "state_fits cfg n st" "running st"
    by (rule cache_activeD)
  have need: "needed_len sid st e \<le> ec_max_seq_len cfg"
    using needed_bound [OF n(2,3)] by (simp add: needed_len_eq [OF n(1)])
  have ceil: "ceil_div (needed_len sid st e) (kv_block_size (en_kv e)) \<le> kv_max_blocks_per_seq (en_kv e)"
    unfolding b(5) by (rule ceil_div_mono [OF b(4) need])
  have "insert sid (fst ` set (kv_block_tables (en_kv e))) \<subseteq> active_keys e"
    using b(7) in_dict_keys [OF mem] by simp
  then have "card (insert sid (set (dict_keys (kv_block_tables (en_kv e))))) \<le> card (active_keys e)"
    by (intro card_mono) simp_all
  also have "\<dots> \<le> length (en_active e)" using card_length [of "dict_keys (en_active e)"] by simp
  finally have card: "int (card (insert sid (set (dict_keys (kv_block_tables (en_kv e)))))) \<le> kv_max_slots (en_kv e)"
    using slots by linarith
  have "0 \<le> kv_max_blocks_per_seq (en_kv e)" using b(8) [of sid] by linarith
  from ensure_succeeds [OF b(2,6) this _ card ceil] b(8) show ?thesis by blast
qed

lemma reserve_all:
  assumes "cache_base cfg e" "cache_active cfg running e" "set xs \<subseteq> set (en_active e)"
    and "int (length (en_active e)) \<le> kv_max_slots (en_kv e)"
  shows "cache_base cfg (foldl (reserve_one gi) e xs) \<and> cache_active cfg running (foldl (reserve_one gi) e xs) \<and>
    en_active (foldl (reserve_one gi) e xs) = en_active e \<and>
    kv_max_slots (en_kv (foldl (reserve_one gi) e xs)) = kv_max_slots (en_kv e) \<and>
    (\<forall>x \<in> set xs. provided (foldl (reserve_one gi) e xs) x) \<and>
    (\<forall>x. provided e x \<longrightarrow> provided (foldl (reserve_one gi) e xs) x)"
  using assms
proof (induction xs arbitrary: e)
  case Nil
  then show ?case by simp
next
  case (Cons x xs)
  obtain sid st where x: "x = (sid, st)" by (cases x)
  have mem: "(sid, st) \<in> set (en_active e)" using Cons.prems(3) by (simp add: x)
  obtain kv where kv: "ensure_blocks_for_length sid (needed_len sid st e) (en_kv e) = Inr kv"
    using reserve_enough [OF Cons.prems(1,2) mem Cons.prems(4)] by blast
  let ?e = "e\<lparr>en_kv := kv\<rparr>"
  note r = reserve_success [OF Cons.prems(1,2) mem kv]
  have e1: "reserve_one gi e x = ?e" by (simp add: x kv)
  have m: "kv_max_slots kv = kv_max_slots (en_kv e)" using ensure_frame [OF kv] by simp
  have "int (length (en_active ?e)) \<le> kv_max_slots (en_kv ?e)" "set xs \<subseteq> set (en_active ?e)"
    using Cons.prems(3,4) m by simp_all
  from Cons.IH [OF r(1,2) this(2,1)] r(4) [folded x] r(5) m show ?case
    by (auto simp: e1 simp del: split_paired_All)
qed

section \<open>The computation\<close>

lemma seq_len_entries_ok:
  assumes "\<forall>s \<in> set sids. map_of (kv_seq_lens kv) s \<noteq> None" "i + int (length sids) \<le> kv_max_slots kv"
  shows "\<not> is_error (seq_len_entries kv i sids)"
  using assms
proof (induction sids arbitrary: i)
  case Nil
  then show ?case by (simp add: is_error_def)
next
  case (Cons s sids)
  obtain n where "map_of (kv_seq_lens kv) s = Some n" using Cons.prems(1) by auto
  moreover have "\<not> is_error (seq_len_entries kv (i + 1) sids)" using Cons by (intro Cons.IH) auto
  ultimately show ?case using Cons.prems(2) by (auto simp: is_error_def split: sum.splits)
qed

lemma block_table_rows_ok:
  assumes "\<forall>s \<in> set sids. map_of (kv_block_tables kv) s \<noteq> None" "i + int (length sids) \<le> kv_max_slots kv"
    and "\<forall>s. int (length (slot_blocks s kv)) \<le> kv_max_blocks_per_seq kv"
  shows "\<not> is_error (block_table_rows kv i sids)"
  using assms(1,2)
proof (induction sids arbitrary: i)
  case Nil
  then show ?case by (simp add: is_error_def)
next
  case (Cons s sids)
  obtain bs where bs: "map_of (kv_block_tables kv) s = Some bs" using Cons.prems(1) by auto
  then have "int (length bs) \<le> kv_max_blocks_per_seq kv" using assms(3) [rule_format, of s] by simp
  moreover have "\<not> is_error (block_table_rows kv (i + 1) sids)" using Cons by (intro Cons.IH) auto
  ultimately show ?case using Cons.prems(2) bs by (auto simp: is_error_def split: sum.splits)
qed

lemma provided_table:
  assumes "provided e (sid, st)" "cache_base cfg e" "(sid, st) \<in> set (en_active e)" "cache_active cfg P e"
  shows "map_of (kv_block_tables (en_kv e)) sid \<noteq> None"
proof
  assume none: "map_of (kv_block_tables (en_kv e)) sid = None"
  from assms(4,3) obtain n where n: "map_of (kv_seq_lens (en_kv e)) sid = Some n" "state_fits cfg n st" "P st"
    by (rule cache_activeD)
  have "needed_len sid st e \<le> 0" using assms(1) none by (simp add: provided_def)
  then have "n + int (length (ss_input_ids st)) \<le> 0" by (simp add: needed_len_eq [OF n(1)])
  then show False using n(2) by (cases "ss_input_ids st") (auto simp: state_fits_def)
qed

lemma attn_meta_ok:
  assumes base: "cache_base cfg e" and act: "cache_active cfg P e"
    and slots: "int (length (en_active e)) \<le> kv_max_slots (en_kv e)"
    and prov: "\<forall>x \<in> set (en_active e). provided e x"
  shows "\<not> attn_meta_error e"
proof -
  have ok: "\<not> is_error (get_seq_lens_tensor sids (en_kv e)) \<and> \<not> is_error (get_block_table_tensor sids (en_kv e))"
    if "sids = map fst (filter Q (en_active e))" for sids Q
  proof -
    have "length sids \<le> length (en_active e)" by (simp add: that)
    then have len: "0 + int (length sids) \<le> kv_max_slots (en_kv e)" using slots by linarith
    have mem: "\<exists>st. (s, st) \<in> set (en_active e)" if s: "s \<in> set sids" for s
      using s by (auto simp: \<open>sids = map fst (filter Q (en_active e))\<close>)
    have "\<forall>s \<in> set sids. map_of (kv_seq_lens (en_kv e)) s \<noteq> None"
      using mem act by (metis cache_activeD option.distinct(1))
    moreover have "\<forall>s \<in> set sids. map_of (kv_block_tables (en_kv e)) s \<noteq> None"
      using mem prov provided_table [OF _ base _ act] by blast
    ultimately show ?thesis
      using seq_len_entries_ok [OF _ len] block_table_rows_ok [OF _ len] cache_baseD(8) [OF base]
      by (simp add: get_seq_lens_tensor_def get_block_table_tensor_def)
  qed
  show ?thesis
    unfolding attn_meta_error_def qlen_groups_def list_ex_iff
    using ok by (auto simp del: map_map)
qed

text \<open>What the kernels store stays within the blocks of active slots.\<close>

definition same_tables :: "kv_cache \<Rightarrow> kv_cache \<Rightarrow> bool" where
  "same_tables kv kv' \<longleftrightarrow> kv_inv kv' \<and> kv_block_tables kv' = kv_block_tables kv \<and>
     kv_block_size kv' = kv_block_size kv \<and>
     kv_num_blocks kv' = kv_num_blocks kv \<and> kv_max_slots kv' = kv_max_slots kv \<and>
     kv_max_blocks_per_seq kv' = kv_max_blocks_per_seq kv"

lemma write_block_seq_lens [simp]: "kv_seq_lens (write_block layer b k v kv) = kv_seq_lens kv"
  by (simp add: write_block_def)

lemma writes_seq_lens:
  "kv_seq_lens (foldl (\<lambda>kv (layer, sid, j, k, v).
       let table = dict_get (kv_block_tables kv) sid []
       in if sid \<in> A \<and> j < length table then write_block layer (table ! j) k v kv else kv) kv ws) =
   kv_seq_lens kv"
  by (induction ws arbitrary: kv) (auto simp: Let_def split: prod.split)

lemma writes_same_tables:
  "same_tables kv0 kv \<Longrightarrow>
   same_tables kv0 (foldl (\<lambda>kv (layer, sid, j, k, v).
       let table = dict_get (kv_block_tables kv) sid []
       in if sid \<in> A \<and> j < length table then write_block layer (table ! j) k v kv else kv) kv ws)"
proof (induction ws arbitrary: kv)
  case Nil
  then show ?case by simp
next
  case (Cons w ws)
  obtain layer sid j k v where w: "w = (layer, sid, j, k, v)" by (cases w) auto
  let ?table = "dict_get (kv_block_tables kv) sid []"
  have "same_tables kv0 (write_block layer (?table ! j) k v kv)" if "j < length ?table"
  proof -
    have "kv_inv (write_block layer (?table ! j) k v kv)"
      using Cons.prems that by (intro write_block_inv [of _ _ sid]) (auto simp: same_tables_def)
    then show ?thesis using Cons.prems by (simp add: same_tables_def write_block_def)
  qed
  then show ?case using Cons by (simp add: w Let_def)
qed

lemma advance_all:
  assumes "distinct sids" "length sids = length ns" "\<forall>s \<in> set sids. map_of (kv_seq_lens kv) s \<noteq> None"
  shows "fst (advance_seq_lens_by sids ns kv) = None \<and>
    (\<forall>t. t \<notin> set sids \<longrightarrow> map_of (kv_seq_lens (snd (advance_seq_lens_by sids ns kv))) t = map_of (kv_seq_lens kv) t) \<and>
    (\<forall>(s, n) \<in> set (zip sids ns). map_of (kv_seq_lens (snd (advance_seq_lens_by sids ns kv))) s =
       map_option (\<lambda>m. m + n) (map_of (kv_seq_lens kv) s))"
  using assms
proof (induction sids ns kv rule: advance_seq_lens_by.induct)
  case (1 sid sids n ns kv)
  obtain m where m: "map_of (kv_seq_lens kv) sid = Some m" using "1.prems"(3) by auto
  let ?kv = "kv\<lparr>kv_seq_lens := AList.update sid (m + n) (kv_seq_lens kv)\<rparr>"
  have "\<forall>s \<in> set sids. map_of (kv_seq_lens ?kv) s \<noteq> None" using "1.prems"(3) by (simp add: update_conv')
  note ih = "1.IH" [OF m _ _ this]
  have "s \<noteq> sid" if "(s, k) \<in> set (zip sids ns)" for s k
    using set_zip_leftD [OF that] "1.prems"(1) by auto
  then show ?case using ih "1.prems"(1,2) m by (auto simp: update_conv')
qed simp_all

text \<open>The state after the sampled tokens are taken.\<close>

lemma cache_base_change:
  assumes base: "cache_base cfg e" and si: "slots_inv e'"
    and e': "en_pending e' = en_pending e" "en_queue e' = en_queue e" "active_keys e' = active_keys e"
    and kv: "same_tables (en_kv e) (en_kv e')"
    and lens: "\<And>s. s \<in> pending_keys e \<Longrightarrow> map_of (kv_seq_lens (en_kv e')) s = map_of (kv_seq_lens (en_kv e)) s"
  shows "cache_base cfg e'"
proof -
  have "\<forall>(s, st) \<in> set (en_pending e). map_of (kv_seq_lens (en_kv e')) s = Some 0 \<and> state_fits cfg 0 st \<and> running st"
    using lens [OF in_dict_keys] cache_pendingD [OF base] by auto
  moreover have k: "kv_inv (en_kv e')" "kv_block_tables (en_kv e') = kv_block_tables (en_kv e)"
    "kv_block_size (en_kv e') = kv_block_size (en_kv e)" "kv_num_blocks (en_kv e') = kv_num_blocks (en_kv e)"
    "kv_max_slots (en_kv e') = kv_max_slots (en_kv e)"
    "kv_max_blocks_per_seq (en_kv e') = kv_max_blocks_per_seq (en_kv e)"
    using kv by (simp_all add: same_tables_def)
  ultimately show ?thesis using base si unfolding cache_base_def e' k(2-6) by blast
qed

lemma compute_tokens_cache:
  assumes base: "cache_base cfg e" and act: "cache_active cfg running e"
    and prov: "\<forall>x \<in> set (en_active e). provided e x"
    and c: "compute_tokens gi e = (raised, e')"
  shows "cache_base cfg e'" and "\<not> raised \<Longrightarrow> cache_active cfg in_limit e'"
    and "\<not> attn_meta_error e \<Longrightarrow> gi_error gi = No_error \<Longrightarrow> \<not> raised"
proof -
  note b = cache_baseD [OF base]
  let ?e1 = "attention_writes (gi_writes gi) e"
  let ?sids = "dict_keys (en_active e)" and ?ns = "map (\<lambda>(sid, st). int (length (ss_input_ids st))) (en_active e)"
  have e1: "en_active ?e1 = en_active e" "en_pending ?e1 = en_pending e" "en_queue ?e1 = en_queue e"
    "kv_seq_lens (en_kv ?e1) = kv_seq_lens (en_kv e)"
    by (simp_all add: attention_writes_def writes_seq_lens)
  have tab: "same_tables (en_kv e) (en_kv ?e1)"
    unfolding attention_writes_def
    using writes_same_tables [of "en_kv e" "en_kv e"] b(2) by (simp add: same_tables_def)
  obtain err kv where adv: "advance_seq_lens_by ?sids ?ns (en_kv ?e1) = (err, kv)"
    by (cases "advance_seq_lens_by ?sids ?ns (en_kv ?e1)")
  have wf: "distinct ?sids" using b(1) by (simp add: slots_inv_def)
  have pres: "\<forall>s \<in> set ?sids. map_of (kv_seq_lens (en_kv ?e1)) s \<noteq> None"
  proof
    fix s assume "s \<in> set ?sids"
    then obtain st where "(s, st) \<in> set (en_active e)" by auto
    with act obtain n where "map_of (kv_seq_lens (en_kv e)) s = Some n" by (rule cache_activeD)
    then show "map_of (kv_seq_lens (en_kv ?e1)) s \<noteq> None" by (simp add: e1)
  qed
  have len: "length ?sids = length ?ns" by simp
  have a: "err = None" "\<And>t. t \<notin> set ?sids \<Longrightarrow> map_of (kv_seq_lens kv) t = map_of (kv_seq_lens (en_kv e)) t"
    "\<And>s n. (s, n) \<in> set (zip ?sids ?ns) \<Longrightarrow>
       map_of (kv_seq_lens kv) s = map_option (\<lambda>m. m + n) (map_of (kv_seq_lens (en_kv e)) s)"
    using advance_all [OF wf len pres] unfolding adv fst_conv snd_conv e1(4) by blast+
  obtain l where l: "kv = (en_kv ?e1)\<lparr>kv_seq_lens := l\<rparr>"
    using advance_frame [of ?sids ?ns "en_kv ?e1"] by (simp add: adv)
  have "kv_inv kv" using advance_inv [of "en_kv ?e1" ?sids ?ns] tab by (simp add: adv same_tables_def)
  then have kv: "same_tables (en_kv e) kv" using tab by (simp add: same_tables_def l)
  have out: "s \<notin> set ?sids" if "s \<in> pending_keys e" for s using b(1) that by (auto simp: slots_inv_def)
  have si: "slots_inv e'" using compute_tokens_slots [OF b(1), of True gi] c by (simp add: slots_kept_def)
  have refl: "same_tables (en_kv e) (en_kv e)" using b(2) by (simp add: same_tables_def)
  let ?next = "map (\<lambda>(sid, st). (sid, next_input gi sid st)) (en_active e)"
  have res: "(raised, e') = (if attn_meta_error e then (True, e)
      else if gi_error gi = Early_error then (True, ?e1)
      else if gi_error gi = Late_error then (True, ?e1\<lparr>en_kv := kv\<rparr>)
      else (False, ?e1\<lparr>en_kv := kv, en_active := ?next\<rparr>))"
    unfolding c [symmetric] compute_tokens_def Let_def e1 adv prod.case a(1)
    by (cases "gi_error gi") (simp_all add: e1)
  have keys: "active_keys e' = active_keys e" "en_pending e' = en_pending e" "en_queue e' = en_queue e"
    using res by (auto simp: e1 image_image case_prod_unfold split: if_splits)
  have "same_tables (en_kv e) (en_kv e')"
    using res refl tab kv by (simp split: if_splits)
  moreover have "map_of (kv_seq_lens (en_kv e')) s = map_of (kv_seq_lens (en_kv e)) s" if "s \<in> pending_keys e" for s
    using res a(2) [OF out [OF that]] by (simp add: e1 split: if_splits)
  ultimately show "cache_base cfg e'" by (intro cache_base_change [OF base si keys(2,3,1)]) auto
  show "\<not> attn_meta_error e \<Longrightarrow> gi_error gi = No_error \<Longrightarrow> \<not> raised"
    using res by simp
  show "cache_active cfg in_limit e'" if "\<not> raised"
    unfolding cache_active_def
  proof (intro ballI, clarify)
    fix s st' assume "(s, st') \<in> set (en_active e')"
    moreover have e': "en_active e' = ?next" "en_kv e' = kv" using res that by (simp_all split: if_splits)
    ultimately obtain st where st: "(s, st) \<in> set (en_active e)" "st' = next_input gi s st" by auto
    with act obtain n where n: "map_of (kv_seq_lens (en_kv e)) s = Some n" "state_fits cfg n st" "running st"
      by (metis cache_activeD)
    have "(s, int (length (ss_input_ids st))) \<in> set (zip ?sids ?ns)"
      using st(1) by (auto simp: zip_map_map zip_same_conv_map intro!: image_eqI [of _ _ "(s, st)"])
    from a(3) [OF this] n(1) have m: "map_of (kv_seq_lens kv) s = Some (n + int (length (ss_input_ids st)))" by simp
    have "map_of (kv_block_tables (en_kv e)) s \<noteq> None"
      using provided_table [OF _ base st(1) act] prov st(1) by blast
    then have "s \<in> fst ` set (kv_block_tables kv)" using kv by (simp add: same_tables_def map_of_None_keys)
    then show "\<exists>n. map_of (kv_seq_lens (en_kv e')) s = Some n \<and> state_fits cfg n st' \<and> in_limit st' \<and>
        (s \<notin> fst ` set (kv_block_tables (en_kv e')) \<longrightarrow> n = 0)"
      using m next_input_fits [OF n(2,3), of gi s] by (simp add: e' st(2))
  qed
qed

text \<open>Also without that bound, a slot that is still active has its blocks.\<close>

lemma provided_teardown:
  assumes "provided e (t, su)" and "t \<noteq> s"
  shows "provided (teardown_slot up s st e) (t, su)"
  using assms by (simp add: provided_def needed_len_def free_slot_fields dict_get_delete)

lemma reserve_provided:
  "cache_base cfg e \<Longrightarrow> cache_active cfg running e \<Longrightarrow> dict_wf xs \<Longrightarrow> set xs \<subseteq> set (en_active e) \<Longrightarrow>
   set (en_active (foldl (reserve_one gi) e xs)) \<subseteq> set (en_active e) \<and>
   (\<forall>x. (x \<in> set xs \<or> provided e x) \<and> x \<in> set (en_active (foldl (reserve_one gi) e xs)) \<longrightarrow>
     provided (foldl (reserve_one gi) e xs) x)"
proof (induction xs arbitrary: e)
  case Nil
  then show ?case by simp
next
  case (Cons x xs)
  obtain sid st where x: "x = (sid, st)" by (cases x)
  let ?e1 = "reserve_one gi e x" and ?F = "foldl (reserve_one gi) (reserve_one gi e x) xs"
  have mem: "(sid, st) \<in> set (en_active e)" using Cons.prems(4) by (simp add: x)
  have ne: "y \<in> set xs \<Longrightarrow> fst y \<noteq> sid" for y using Cons.prems(3) by (auto simp: x dest: in_dict_keys)
  have one: "cache_base cfg ?e1 \<and> cache_active cfg running ?e1 \<and> set (en_active ?e1) \<subseteq> set (en_active e) \<and>
      set xs \<subseteq> set (en_active ?e1) \<and> (\<forall>y. (y = x \<or> provided e y) \<and> y \<in> set (en_active ?e1) \<longrightarrow> provided ?e1 y)"
  proof (cases "ensure_blocks_for_length sid (needed_len sid st e) (en_kv e)")
    case (Inl err)
    then have e1: "?e1 = teardown_slot (gi_up gi sid) sid st e" by (simp add: x)
    have act: "set (en_active ?e1) = {y \<in> set (en_active e). fst y \<noteq> sid}"
      by (auto simp: e1 delete_filter)
    have "provided ?e1 y" if "y = x \<or> provided e y" "y \<in> set (en_active ?e1)" for y
    proof -
      have "fst y \<noteq> sid" using that(2) act by simp
      then have "provided e y" using that(1) x by auto
      then show ?thesis using \<open>fst y \<noteq> sid\<close> provided_teardown by (cases y) (simp add: e1)
    qed
    moreover have "set xs \<subseteq> set (en_active ?e1)" using Cons.prems(4) ne by (auto simp: act)
    moreover have "set (en_active ?e1) \<subseteq> set (en_active e)" by (auto simp: act)
    ultimately show ?thesis using teardown_cache [OF Cons.prems(1,2) mem, of "gi_up gi sid"] unfolding e1 by blast
  next
    case (Inr kv)
    then have e1: "?e1 = e\<lparr>en_kv := kv\<rparr>" by (simp add: x)
    note r = reserve_success [OF Cons.prems(1,2) mem Inr]
    show ?thesis unfolding e1 using r(1,2) r(4) [folded x] r(5) Cons.prems(4)
      by (auto simp del: split_paired_All)
  qed
  have F: "foldl (reserve_one gi) e (x # xs) = ?F" by simp
  from Cons.IH [of ?e1] one Cons.prems(3)
  have ih: "set (en_active ?F) \<subseteq> set (en_active ?e1)"
    "\<And>y. (y \<in> set xs \<or> provided ?e1 y) \<Longrightarrow> y \<in> set (en_active ?F) \<Longrightarrow> provided ?F y" by auto
  show ?case unfolding F
  proof (intro conjI allI impI)
    show "set (en_active ?F) \<subseteq> set (en_active e)" using ih(1) one by blast
    fix y assume y: "(y \<in> set (x # xs) \<or> provided e y) \<and> y \<in> set (en_active ?F)"
    then have "y \<in> set (en_active ?e1)" using ih(1) by blast
    then show "provided ?F y" using y ih(2) [of y] one by (auto simp del: split_paired_All)
  qed
qed

lemma generate_cache:
  assumes base: "cache_base cfg e" and act: "cache_active cfg running e"
    and g: "generate_one_token_all gi e = (raised, e')"
  shows "cache_base cfg e'" and "\<not> raised \<Longrightarrow> cache_active cfg in_limit e'"
    and "int (length (en_active e)) \<le> kv_max_slots (en_kv e) \<Longrightarrow> gi_error gi = No_error \<Longrightarrow> \<not> raised"
proof -
  let ?a = "abort_evicted gi e" and ?r = "reserve_blocks gi (abort_evicted gi e)"
  have a: "cache_base cfg ?a" "cache_active cfg running ?a" using abort_evicted_cache [OF base act] by auto
  have r: "cache_base cfg ?r" "cache_active cfg running ?r" using reserve_blocks_cache [OF a] by auto
  have wf: "dict_wf (en_active ?a)" using cache_baseD(1) [OF a(1)] by (simp add: slots_inv_def)
  have prov: "\<forall>x \<in> set (en_active ?r). provided ?r x"
    using reserve_provided [OF a wf subset_refl, of gi] unfolding reserve_blocks_def by blast
  obtain b e2 where c: "compute_tokens gi ?r = (b, e2)" by (cases "compute_tokens gi ?r")
  note ct = compute_tokens_cache [OF r prov c]
  have triv: "cache_active cfg P e0" if "en_active e0 = []" for e0 P using that by (simp add: cache_active_def)
  have res: "(raised, e') = (if en_active ?a = [] then (False, ?a)
      else if en_active ?r = [] then (False, ?r) else (b, e2))"
    unfolding g [symmetric] generate_one_token_all_def Let_def c by simp
  show "cache_base cfg e'" using res a(1) r(1) ct(1) by (simp split: if_splits)
  show "cache_active cfg in_limit e'" if "\<not> raised"
    using res that ct(2) triv [of ?a] triv [of ?r] by (simp split: if_splits)
  show "\<not> raised" if slots: "int (length (en_active e)) \<le> kv_max_slots (en_kv e)" and ok: "gi_error gi = No_error"
  proof -
    have shrink: "set (en_active ?a) \<subseteq> set (en_active e) \<and> kv_max_slots (en_kv ?a) = kv_max_slots (en_kv e)"
    proof -
      have "set (en_active (foldl (abort_one gi) e0 xs)) \<subseteq> set (en_active e0) \<and>
          kv_max_slots (en_kv (foldl (abort_one gi) e0 xs)) = kv_max_slots (en_kv e0)" for e0 xs
      proof (induction xs arbitrary: e0)
        case (Cons x xs)
        have "set (en_active (abort_one gi e0 x)) \<subseteq> set (en_active e0) \<and>
            kv_max_slots (en_kv (abort_one gi e0 x)) = kv_max_slots (en_kv e0)"
          by (cases x) (auto simp: delete_filter free_slot_fields)
        with Cons.IH [of "abort_one gi e0 x"] show ?case by simp blast
      qed simp
      then show ?thesis by (simp add: abort_evicted_def)
    qed
    have "length (en_active ?a) = card (set (en_active ?a))"
      using wf by (metis distinct_card distinct_map)
    also have "\<dots> \<le> card (set (en_active e))" using shrink by (intro card_mono) auto
    also have "\<dots> \<le> length (en_active e)" by (rule card_length)
    finally have la: "int (length (en_active ?a)) \<le> kv_max_slots (en_kv ?a)" using slots shrink by simp
    have keep: "en_active ?r = en_active ?a \<and> kv_max_slots (en_kv ?r) = kv_max_slots (en_kv ?a)"
      using reserve_all [OF a subset_refl la, of gi] unfolding reserve_blocks_def by blast
    have "\<not> attn_meta_error ?r"
      by (rule attn_meta_ok [OF r _ prov]) (use la keep in simp)
    then show ?thesis using res ct(3) ok by (simp split: if_splits)
  qed
qed

section \<open>Completion and failure\<close>

lemma foldl_free_slot:
  "kv_inv kv \<Longrightarrow> kv_inv (foldl (\<lambda>kv s. free_slot s kv) kv ks)"
  "fst ` set (kv_block_tables (foldl (\<lambda>kv s. free_slot s kv) kv ks)) = fst ` set (kv_block_tables kv) - set ks"
  "t \<notin> set ks \<Longrightarrow> map_of (kv_seq_lens (foldl (\<lambda>kv s. free_slot s kv) kv ks)) t = map_of (kv_seq_lens kv) t"
  "slot_blocks t (foldl (\<lambda>kv s. free_slot s kv) kv ks) = (if t \<in> set ks then [] else slot_blocks t kv)"
  "kv_block_size (foldl (\<lambda>kv s. free_slot s kv) kv ks) = kv_block_size kv"
  "kv_num_blocks (foldl (\<lambda>kv s. free_slot s kv) kv ks) = kv_num_blocks kv"
  "kv_max_slots (foldl (\<lambda>kv s. free_slot s kv) kv ks) = kv_max_slots kv"
  "kv_max_blocks_per_seq (foldl (\<lambda>kv s. free_slot s kv) kv ks) = kv_max_blocks_per_seq kv"
  by (induction ks arbitrary: kv)
     (auto simp: free_slot_inv free_slot_fields dict_keys_delete dict_get_delete delete_conv')

text \<open>Freeing the blocks of active slots, whether or not they have left the active set.\<close>

lemma freed_cache:
  assumes base: "cache_base cfg e" and si: "slots_inv e'"
    and e': "en_pending e' = en_pending e" "set (en_queue e') \<subseteq> set (en_queue e)"
      "en_kv e' = foldl (\<lambda>kv s. free_slot s kv) (en_kv e) ks"
    and ks: "set ks \<subseteq> active_keys e" "active_keys e - set ks \<subseteq> active_keys e'"
  shows "cache_base cfg e'"
proof -
  note b = cache_baseD [OF base]
  have out: "s \<notin> set ks" if "s \<in> pending_keys e" for s using b(1) that ks(1) by (auto simp: slots_inv_def)
  have pend: "\<forall>(s, st) \<in> set (en_pending e). map_of (kv_seq_lens (en_kv e')) s = Some 0 \<and> state_fits cfg 0 st \<and> running st"
  proof (intro ballI, clarify)
    fix s st assume m: "(s, st) \<in> set (en_pending e)"
    then show "map_of (kv_seq_lens (en_kv e')) s = Some 0 \<and> state_fits cfg 0 st \<and> running st"
      using cache_pendingD [OF base m] foldl_free_slot(3) [OF out [OF in_dict_keys [OF m]]] by (simp add: e')
  qed
  have "0 \<le> kv_max_blocks_per_seq (en_kv e)" using b(8) [of 0] by linarith
  then have blocks: "\<forall>s. int (length (slot_blocks s (en_kv e'))) \<le> kv_max_blocks_per_seq (en_kv e)"
    using b(8) by (simp add: e' foldl_free_slot)
  have tables: "fst ` set (kv_block_tables (en_kv e')) \<subseteq> active_keys e'"
    using b(7) ks(2) by (auto simp: e' foldl_free_slot)
  show ?thesis
    using base si pend blocks tables e'(2) foldl_free_slot(1) [OF b(2), of ks]
    unfolding cache_base_def e'(1) by (auto simp: e'(3) foldl_free_slot)
qed

text \<open>The results of finished requests.\<close>

definition outcome_ok :: "engine_config \<Rightarrow> outcome \<Rightarrow> bool" where
  "outcome_ok cfg out =
     (case out of
        Generated toks prompt reason \<Rightarrow>
          toks \<noteq> [] \<and> prompt + int (length toks) \<le> ec_max_seq_len cfg \<and>
          (reason = Eos \<longleftrightarrow> ec_eos_token_id cfg = Some (last toks))
      | _ \<Rightarrow> True)"

definition outcomes_ok :: "engine_config \<Rightarrow> engine \<Rightarrow> bool" where
  "outcomes_ok cfg e \<longleftrightarrow> (\<forall>(i, out) \<in> set (en_settled e). outcome_ok cfg out)"

lemma finished_ok:
  assumes "state_fits cfg n st" "in_limit st" "slot_done cfg st"
  shows "outcome_ok cfg (Generated (ss_generated_tokens st) (ss_prompt_tokens st)
    (if hit_eos cfg st then Eos else Max_tokens))"
proof -
  have "ss_generated_tokens st \<noteq> []"
    using assms by (auto simp: slot_done_def hit_eos_def reached_max_def state_fits_def max_toks_def gen_len_def)
  then show ?thesis
    using assms by (auto simp: outcome_ok_def hit_eos_def state_fits_def in_limit_def gen_len_def)
qed

text \<open>What the loop over the completed slots does to the cache and to the futures.\<close>

lemma complete_slots_cache:
  "complete_slots cfg inp xs e = (raised, sids, e') \<Longrightarrow>
   (\<exists>ks. set ks \<subseteq> fst ` set xs \<and> en_kv e' = foldl (\<lambda>kv s. free_slot s kv) (en_kv e) ks \<and>
     (\<not> raised \<longrightarrow> ks = sids)) \<and>
   (outcomes_ok cfg e \<and> (\<forall>(s, st) \<in> set xs. slot_done cfg st \<longrightarrow> (\<exists>n. state_fits cfg n st \<and> in_limit st)) \<longrightarrow>
     outcomes_ok cfg e') \<and>
   (\<not> raised \<longrightarrow> set sids = fst ` {(s, st) \<in> set xs. slot_done cfg st})"
proof (induction xs arbitrary: e sids)
  case Nil
  then show ?case by (auto intro: exI [of _ "[]"])
next
  case (Cons x xs)
  obtain sid st where x: "x = (sid, st)" by (cases x)
  from Cons.prems [unfolded x] show ?case
  proof (cases rule: complete_slots_ConsE)
    case skip
    from Cons.IH [OF skip(2)] skip(1) show ?thesis by (auto simp: x)
  next
    case stop
    then show ?thesis by (auto simp: x outcomes_ok_def intro: exI [of _ "[sid]"])
  next
    case (finish e1 sids')
    let ?up = "inp sid \<noteq> Release_lost"
    have e1: "e1 = snd (manager_release ?up sid (signal_leave sid (drop_kv sid e)))"
      using finish(4) by simp
    let ?e2 = "finish_request cfg st e1"
    have kv: "en_kv e1 = free_slot sid (en_kv e)" by (simp add: e1)
    have set: "en_settled ?e2 = en_settled e @ [(rq_id (ss_request st), Generated (ss_generated_tokens st)
        (ss_prompt_tokens st) (if hit_eos cfg st then Eos else Max_tokens))]"
      by (simp add: e1 finish_request_def)
    from Cons.IH [OF finish(5)] obtain ks where ks: "set ks \<subseteq> fst ` set xs"
      "en_kv e' = foldl (\<lambda>kv s. free_slot s kv) (en_kv ?e2) ks" "\<not> raised \<longrightarrow> ks = sids'" by blast
    have "set (sid # ks) \<subseteq> fst ` set (x # xs)" "en_kv e' = foldl (\<lambda>kv s. free_slot s kv) (en_kv e) (sid # ks)"
      "\<not> raised \<longrightarrow> sid # ks = sids"
      using ks finish(3) by (auto simp: kv x)
    then have a: "\<exists>ks. set ks \<subseteq> fst ` set (x # xs) \<and> en_kv e' = foldl (\<lambda>kv s. free_slot s kv) (en_kv e) ks \<and>
        (\<not> raised \<longrightarrow> ks = sids)" by blast
    have "outcomes_ok cfg ?e2"
      if "outcomes_ok cfg e" "\<forall>(s, st) \<in> set (x # xs). slot_done cfg st \<longrightarrow> (\<exists>n. state_fits cfg n st \<and> in_limit st)"
      using that finished_ok [of cfg _ st] finish(1) unfolding outcomes_ok_def set by (auto simp: x)
    then have o: "outcomes_ok cfg e \<and>
        (\<forall>(s, st) \<in> set (x # xs). slot_done cfg st \<longrightarrow> (\<exists>n. state_fits cfg n st \<and> in_limit st)) \<longrightarrow> outcomes_ok cfg e'"
      using Cons.IH [OF finish(5)] by auto
    have "\<not> raised \<longrightarrow> set sids = fst ` {(s, st) \<in> set (x # xs). slot_done cfg st}"
    proof -
      have "{(s, st) \<in> set (x # xs). slot_done cfg st} = insert x {(s, st) \<in> set xs. slot_done cfg st}"
        using finish(1) by (auto simp: x)
      then show ?thesis using Cons.IH [OF finish(5)] finish(3) by (simp add: x)
    qed
    with a o show ?thesis by blast
  qed
qed

lemma handle_completions_cache:
  assumes base: "cache_base cfg e" and act: "cache_active cfg in_limit e" and out: "outcomes_ok cfg e"
    and h: "handle_completions cfg inp e = (raised, e')"
  shows "cache_base cfg e'" and "\<not> raised \<Longrightarrow> cache_active cfg running e'" and "outcomes_ok cfg e'"
proof -
  note b = cache_baseD [OF base]
  obtain r sids e1 where c: "complete_slots cfg inp (en_active e) e = (r, sids, e1)"
    by (cases "complete_slots cfg inp (en_active e) e")
  have r: "r = raised" and e': "e' = (if r then e1 else foldl (\<lambda>e sid. remove_active_slot sid e) e1 sids)"
    using h c by (auto simp: handle_completions_def split: if_splits)
  have f: "en_pending e1 = en_pending e" "en_active e1 = en_active e" "en_queue e1 = en_queue e"
    using complete_slots_frame [OF c] by blast+
  obtain ks where ks: "set ks \<subseteq> active_keys e" "en_kv e1 = foldl (\<lambda>kv s. free_slot s kv) (en_kv e) ks"
    "\<not> r \<longrightarrow> ks = sids" using complete_slots_cache [OF c] by blast
  have fits: "\<forall>(s, st) \<in> set (en_active e). slot_done cfg st \<longrightarrow> (\<exists>n. state_fits cfg n st \<and> in_limit st)"
    using act by (auto simp: cache_active_def)
  have o1: "outcomes_ok cfg e1" and fin: "\<not> r \<longrightarrow> set sids = fst ` {(s, st) \<in> set (en_active e). slot_done cfg st}"
    using complete_slots_cache [OF c] out fits by blast+
  have wf: "dict_wf (en_active e)" using b(1) by (simp add: slots_inv_def)
  have active': "en_active e' = (if r then en_active e else foldl (\<lambda>d k. AList.delete k d) (en_active e) sids)"
    and rest: "en_pending e' = en_pending e" "en_queue e' = en_queue e" "en_kv e' = en_kv e1" "en_settled e' = en_settled e1"
    by (simp_all add: e' foldl_remove_active f)
  have si: "slots_inv e'" by (rule handle_completions_slots(1) [OF b(1) h])
  have del: "fst ` set (foldl (\<lambda>d k. AList.delete k d) (en_active e) sids) = active_keys e - set sids"
    "set (foldl (\<lambda>d k. AList.delete k d) (en_active e) sids) = {y \<in> set (en_active e). fst y \<notin> set sids}"
    using foldl_delete [OF wf, of sids] by blast+
  have keep: "active_keys e - set ks \<subseteq> active_keys e'"
    using ks(3) del(1) unfolding active' by auto
  show "cache_base cfg e'"
    by (rule freed_cache [OF base si rest(1) _ _ ks(1) keep]) (simp_all add: rest ks(2))
  show "outcomes_ok cfg e'" using o1 by (simp add: outcomes_ok_def rest)
  show "cache_active cfg running e'" if "\<not> raised"
    unfolding cache_active_def
  proof (intro ballI, clarify)
    have nr: "\<not> r" using that r by simp
    fix s st assume "(s, st) \<in> set (en_active e')"
    then have m: "(s, st) \<in> set (en_active e)" "s \<notin> set sids" using nr del(2) by (auto simp: active')
    from act m(1) obtain n where n: "map_of (kv_seq_lens (en_kv e)) s = Some n" "state_fits cfg n st" "in_limit st"
      "s \<notin> fst ` set (kv_block_tables (en_kv e)) \<longrightarrow> n = 0" by (rule cache_activeD)
    have "\<not> slot_done cfg st"
    proof
      assume "slot_done cfg st"
      then have "(s, st) \<in> {(s, st) \<in> set (en_active e). slot_done cfg st}" using m(1) by simp
      then have "s \<in> set sids" using fin nr by (metis (no_types, lifting) fst_conv image_eqI)
      with m(2) show False by simp
    qed
    then have "running st"
      by (simp add: slot_done_def reached_max_def running_def gen_len_def max_toks_def)
    moreover have "s \<notin> set ks" using ks(3) nr m(2) by simp
    ultimately show "\<exists>n. map_of (kv_seq_lens (en_kv e')) s = Some n \<and> state_fits cfg n st \<and> running st \<and>
        (s \<notin> fst ` set (kv_block_tables (en_kv e')) \<longrightarrow> n = 0)"
      using n by (intro exI [of _ n]) (auto simp: rest ks(2) foldl_free_slot)
  qed
qed

text \<open>After a failure nothing is active or pending; the blocks are free.\<close>

lemma fail_active_kv:
  "en_kv (foldl (fail_active_one up) e xs) = foldl (\<lambda>kv s. free_slot s kv) (en_kv e) (map fst xs) \<and>
   en_queue (foldl (fail_active_one up) e xs) = en_queue e"
proof (induction xs arbitrary: e)
  case (Cons x xs)
  then show ?case by (cases x) (simp add: remove_active_slot_def)
qed simp

lemma fail_future_outcomes: "outcomes_ok cfg e \<Longrightarrow> outcomes_ok cfg (fail_future r e)"
  by (auto simp: outcomes_ok_def fail_future_def settle_future_def outcome_ok_def)

lemma outcomes_cong: "en_settled e' = en_settled e \<Longrightarrow> outcomes_ok cfg e' = outcomes_ok cfg e"
  by (simp add: outcomes_ok_def)

lemma foldl_keeps: "P e \<Longrightarrow> (\<And>e x. P e \<Longrightarrow> P (f e x)) \<Longrightarrow> P (foldl f e xs)"
  by (induction xs arbitrary: e) auto

lemma fail_pending_kv:
  "en_kv (foldl (fail_pending_one up) e xs) = en_kv e \<and> en_queue (foldl (fail_pending_one up) e xs) = en_queue e"
proof (induction xs arbitrary: e)
  case (Cons x xs)
  then show ?case by (cases x) simp
qed simp

lemma fail_all_cache:
  assumes base: "cache_base cfg e" and out: "outcomes_ok cfg e"
  shows "cache_base cfg (fail_all_active_slots up e)" and "cache_active cfg P (fail_all_active_slots up e)"
    and "outcomes_ok cfg (fail_all_active_slots up e)"
proof -
  let ?f = "fail_all_active_slots up e"
  note s = fail_all_slots [OF cache_baseD(1) [OF base], of up]
  have kv: "en_kv ?f = foldl (\<lambda>kv s. free_slot s kv) (en_kv e) (dict_keys (en_active e))" "en_queue ?f = en_queue e"
    using fail_active_kv [of up e "en_active e"] fail_pending_kv [of up "fail_active up e" "en_pending (fail_active up e)"]
    by (simp_all add: fail_all_active_slots_def fail_pending_def fail_active_def)
  have pend: "cache_base cfg (e\<lparr>en_pending := []\<rparr>)"
    using base by (auto simp: cache_base_def slots_inv_def owned_def)
  show "cache_base cfg ?f"
    by (rule freed_cache [OF pend s(1), of "dict_keys (en_active e)"]) (simp_all add: s(3) kv)
  show "cache_active cfg P ?f" by (simp add: cache_active_def s(2))
  have "outcomes_ok cfg (fail_active up e)"
    unfolding fail_active_def
  proof (rule foldl_keeps [of "outcomes_ok cfg", OF out])
    fix e :: engine and x assume "outcomes_ok cfg e"
    then show "outcomes_ok cfg (fail_active_one up e x)"
      by (cases x) (simp add: remove_active_slot_def outcomes_ok_def fail_future_def settle_future_def outcome_ok_def)
  qed
  then have "outcomes_ok cfg (foldl (fail_pending_one up) (fail_active up e) (en_pending (fail_active up e)))"
  proof (rule foldl_keeps [of "outcomes_ok cfg"])
    fix e :: engine and x assume "outcomes_ok cfg e"
    then show "outcomes_ok cfg (fail_pending_one up e x)"
      by (cases x) (simp add: outcomes_ok_def fail_future_def settle_future_def outcome_ok_def)
  qed
  then show "outcomes_ok cfg ?f"
    by (simp add: fail_all_active_slots_def fail_pending_def outcomes_ok_def)
qed

section \<open>Accepting and activating\<close>

lemma accept_one_cache:
  assumes base: "cache_base cfg e" and act: "cache_active cfg P e" and own: "active_owned e"
    and out: "outcomes_ok cfg e" and toks: "\<forall>tokens. inp = Tokens tokens \<longrightarrow> tokens \<noteq> []"
  shows "cache_base cfg (snd (accept_one cfg inp wall perf e))"
    and "cache_active cfg P (snd (accept_one cfg inp wall perf e))"
    and "outcomes_ok cfg (snd (accept_one cfg inp wall perf e))"
proof -
  let ?r = "snd (accept_one cfg inp wall perf e)"
  note b = cache_baseD [OF base]
  have si: "slots_inv ?r" by (rule accept_one_slots(1) [OF b(1) own])
  have "cache_base cfg ?r \<and> cache_active cfg P ?r \<and> outcomes_ok cfg ?r"
  proof (cases "en_queue e")
    case Nil
    then show ?thesis using base act out by (simp add: accept_one_def)
  next
    case (Cons req rest)
    have settled: ?thesis
      if f: "en_queue ?r = rest" "en_pending ?r = en_pending e" "en_active ?r = en_active e" "en_kv ?r = en_kv e"
        "en_settled ?r = en_settled e @ [(rq_id req, o0)]" and "\<not> (\<exists>t p q. o0 = Generated t p q)" for o0
    proof -
      have "outcome_ok cfg o0" using that(6) by (cases o0) (auto simp: outcome_ok_def)
      then have "outcomes_ok cfg ?r" using out by (simp add: outcomes_ok_def f)
      moreover have "\<forall>r \<in> set rest. 1 \<le> rq_max_tokens r" using base Cons by (simp add: cache_base_def)
      then have "cache_base cfg ?r" using base si unfolding cache_base_def f by blast
      moreover have "cache_active cfg P ?r" using act unfolding cache_active_def f by simp
      ultimately show ?thesis by blast
    qed
    show ?thesis
    proof (cases "past_deadline cfg wall req (e\<lparr>en_queue := rest\<rparr>)")
      case (Inl err)
      then have f: "en_queue ?r = rest" "en_pending ?r = en_pending e" "en_active ?r = en_active e" "en_kv ?r = en_kv e"
        "en_settled ?r = en_settled e"
        by (simp_all add: accept_one_def Cons Let_def)
      have "\<forall>r \<in> set rest. 1 \<le> rq_max_tokens r" using base Cons by (simp add: cache_base_def)
      then have "cache_base cfg ?r" using base si unfolding cache_base_def f by blast
      then show ?thesis using act out unfolding cache_active_def outcomes_ok_def f by simp
    next
      case (Inr past)
      show ?thesis
      proof (cases past)
        case True
        then show ?thesis by (intro settled [of Slo_pruned]) (simp_all add: accept_one_def Cons Let_def Inr)
      next
        case False
        show ?thesis
        proof (cases "is_error (claim_slot (en_worker_id e) (en_pool e)) \<or> \<not> (\<exists>tokens. inp = Tokens tokens)")
          case True
          with False show ?thesis
            by (intro settled [of Failed])
               (cases inp; simp add: accept_one_def Cons Let_def Inr is_error_def split: sum.splits prod.splits)+
        next
          case ok: False
          then obtain s p tokens where c: "claim_slot (en_worker_id e) (en_pool e) = Inr (s, p)" "inp = Tokens tokens"
            by (auto simp: is_error_def split: sum.splits)
          have "slot_pool_ok (en_pool e)" using b(1) by (simp add: slots_inv_def)
          from pool.claim_gives [OF this c(1)] owned_free [OF b(1)] have "s \<notin> owned e" by blast
          then have fresh: "s \<notin> pending_keys e" "s \<notin> active_keys e"
            using b(1) own by (auto simp: slots_inv_def active_owned_def)
          let ?st = "prepare_slot cfg req s tokens perf"
          have r: "en_queue ?r = rest" "en_pending ?r = AList.update s ?st (en_pending e)"
            "en_active ?r = en_active e" "en_settled ?r = en_settled e"
            "en_kv ?r = (en_kv e)\<lparr>kv_seq_lens := AList.update s 0 (kv_seq_lens (en_kv e))\<rparr>"
            using False c by (simp_all add: accept_one_def Cons Let_def Inr)
          have "1 \<le> rq_max_tokens req" using base Cons by (simp add: cache_base_def)
          note fits = prepare_slot_fits [OF _ b(3) this, of tokens s perf]
          have ne: "tokens \<noteq> []" using toks c(2) by simp
          have kv: "kv_inv (en_kv ?r)"
            unfolding r
          proof (rule kv_inv_seq_lens [OF b(2)])
            have "fst ` set (kv_block_tables (en_kv e)) \<subseteq> fst ` set (kv_seq_lens (en_kv e))"
              using b(2) by (simp add: kv_inv_def kv_shape_def)
            then show "set (dict_keys (kv_block_tables (en_kv e))) \<subseteq>
                set (dict_keys (AList.update s 0 (kv_seq_lens (en_kv e))))"
              by (auto simp: dom_update)
          qed (use b(10) in simp)
          have pend: "\<forall>(t, su) \<in> set (en_pending ?r). map_of (kv_seq_lens (en_kv ?r)) t = Some 0 \<and>
              state_fits cfg 0 su \<and> running su"
          proof (intro ballI, clarify)
            fix t su assume "(t, su) \<in> set (en_pending ?r)"
            then consider "t = s" "su = ?st" | "(t, su) \<in> set (en_pending e)"
              using fresh(1) by (auto simp: r update_fresh)
            then show "map_of (kv_seq_lens (en_kv ?r)) t = Some 0 \<and> state_fits cfg 0 su \<and> running su"
              using fits ne cache_pendingD [OF base] by cases (auto simp: r update_conv')
          qed
          have q: "\<forall>x \<in> set (en_queue ?r). 1 \<le> rq_max_tokens x" using base Cons by (simp add: cache_base_def r)
          have base': "cache_base cfg ?r"
            unfolding cache_base_def using si kv pend q b by (simp add: r)
          have act': "cache_active cfg P ?r"
            unfolding cache_active_def
          proof (intro ballI, clarify)
            fix t su assume "(t, su) \<in> set (en_active ?r)"
            then have m: "(t, su) \<in> set (en_active e)" by (simp add: r)
            then have "t \<noteq> s" using fresh(2) by (auto dest: in_dict_keys)
            moreover from act m obtain n where "map_of (kv_seq_lens (en_kv e)) t = Some n" "state_fits cfg n su" "P su"
              "t \<notin> fst ` set (kv_block_tables (en_kv e)) \<longrightarrow> n = 0" by (rule cache_activeD)
            ultimately show "\<exists>n. map_of (kv_seq_lens (en_kv ?r)) t = Some n \<and> state_fits cfg n su \<and> P su \<and>
                (t \<notin> fst ` set (kv_block_tables (en_kv ?r)) \<longrightarrow> n = 0)"
              by (intro exI [of _ n]) (simp add: r update_conv')
          qed
          have "outcomes_ok cfg ?r" using out by (simp add: outcomes_ok_def r)
          with base' act' show ?thesis by blast
        qed
      qed
    qed
  qed
  then show "cache_base cfg ?r" "cache_active cfg P ?r" "outcomes_ok cfg ?r" by blast+
qed

lemma in_updateD: "(a, b) \<in> set (AList.update k v d) \<Longrightarrow> (a, b) \<in> set d \<or> (a = k \<and> b = v)"
  by (induction d) (auto split: if_splits)

lemma join_all_cache:
  assumes base: "cache_base cfg e"
  shows "cache_base cfg (join_all now e)" and "cache_active cfg P (join_all now e) = cache_active cfg P e"
    and "outcomes_ok cfg (join_all now e) = outcomes_ok cfg e"
proof -
  let ?e = "join_all now e"
  note b = cache_baseD [OF base]
  have p: "slot_pool_ok (en_pool e)" "dict_wf (en_pending e)" using b(1) by (auto simp: slots_inv_def)
  have j: "joined_all e ?e" by (rule join_all_keeps [OF p])
  then have f: "en_active ?e = en_active e" "en_queue ?e = en_queue e" "en_settled ?e = en_settled e"
    "en_kv ?e = en_kv e" "map fst (en_pending ?e) = map fst (en_pending e)" "en_worker_id ?e = en_worker_id e"
    "owned ?e = owned e" "slot_pool_ok (en_pool ?e)"
    by (simp_all add: joined_all_def)
  have keys: "pending_keys ?e = pending_keys e" using arg_cong [OF f(5), of set] by simp
  have si: "slots_inv ?e" using b(1) f(8) unfolding slots_inv_def f keys by simp
  let ?Q = "\<lambda>e'. \<forall>(s, st) \<in> set (en_pending e'). map_of (kv_seq_lens (en_kv e)) s = Some 0 \<and>
      state_fits cfg 0 st \<and> running st"
  have "?Q ?e"
    unfolding join_all_def
  proof (rule foldl_items [where entries = en_pending and I = ?Q])
    show "?Q e" using cache_pendingD [OF base] by auto
    fix e' :: engine and sid st assume q: "?Q e'" "(sid, st) \<in> set (en_pending e')"
    let ?st = "st\<lparr>ss_joined := True, ss_join_time := Some now\<rparr>"
    have st: "map_of (kv_seq_lens (en_kv e)) sid = Some 0 \<and> state_fits cfg 0 ?st \<and> running ?st"
      using bspec [OF q] by (simp add: state_fits_def running_def gen_len_def max_toks_def)
    have "?Q (join_one now e' (sid, st))"
    proof (intro ballI, clarify)
      fix t su assume "(t, su) \<in> set (en_pending (join_one now e' (sid, st)))"
      then have "(t, su) \<in> set (en_pending e') \<or> (t = sid \<and> su = ?st)"
        by (auto simp: Let_def split: if_splits dest: in_updateD)
      then show "map_of (kv_seq_lens (en_kv e)) t = Some 0 \<and> state_fits cfg 0 su \<and> running su"
        using q(1) st by auto
    qed
    moreover have "\<forall>y \<in> set (en_pending e'). fst y \<noteq> sid \<longrightarrow> y \<in> set (en_pending (join_one now e' (sid, st)))"
      by (auto simp: Let_def intro: in_update)
    ultimately show "?Q (join_one now e' (sid, st)) \<and>
        (\<forall>y \<in> set (en_pending e'). fst y \<noteq> sid \<longrightarrow> y \<in> set (en_pending (join_one now e' (sid, st))))" by blast
  qed (use p in simp_all)
  then show "cache_base cfg ?e" using base si unfolding cache_base_def f by blast
  show "cache_active cfg P ?e = cache_active cfg P e" by (simp add: cache_active_def f)
  show "outcomes_ok cfg ?e = outcomes_ok cfg e" by (simp add: outcomes_ok_def f)
qed

lemma fewer_pending_cache:
  assumes "cache_base cfg e" "slots_inv e'" "en_kv e' = en_kv e" "en_active e' = en_active e"
    "en_queue e' = en_queue e" "set (en_pending e') \<subseteq> set (en_pending e)"
  shows "cache_base cfg e'"
  using assms(1,2,6) unfolding cache_base_def assms(3-5) by blast

lemma expire_slots_cache:
  "cache_base cfg e \<Longrightarrow> cache_active cfg P e \<Longrightarrow> outcomes_ok cfg e \<Longrightarrow> dict_wf xs \<Longrightarrow>
   fst ` set xs \<subseteq> pending_keys e \<Longrightarrow> expire_slots up xs e = (raised, e') \<Longrightarrow>
   cache_base cfg e' \<and> cache_active cfg P e' \<and> outcomes_ok cfg e'"
proof (induction xs arbitrary: e)
  case Nil
  then show ?case by simp
next
  case (Cons x xs)
  obtain sid st where x: "x = (sid, st)" by (cases x)
  obtain b e1 where m: "manager_release (up sid) sid (signal_leave sid (remove_pending sid e)) = (b, e1)"
    by (cases "manager_release (up sid) sid (signal_leave sid (remove_pending sid e))")
  have e1: "e1 = snd (manager_release (up sid) sid (signal_leave sid (remove_pending sid e)))" using m by simp
  have s: "sid \<in> pending_keys e" using Cons.prems(5) by (simp add: x)
  note o = expire_one_slots [OF cache_baseD(1) [OF Cons.prems(1)] s m]
  have f: "en_kv e1 = en_kv e" "en_queue e1 = en_queue e" "en_settled e1 = en_settled e"
    by (simp_all add: e1 remove_pending_def)
  have sub: "set (en_pending e1) \<subseteq> set (en_pending e)" by (auto simp: o(6) delete_filter)
  have c: "cache_base cfg e1" by (rule fewer_pending_cache [OF Cons.prems(1) o(1) f(1) o(5) f(2) sub])
  have a: "cache_active cfg P e1" using Cons.prems(2) by (simp add: cache_active_def f o(5))
  have out: "outcomes_ok cfg e1" using Cons.prems(3) by (simp add: outcomes_ok_def f)
  show ?case
  proof (cases b)
    case True
    then show ?thesis using Cons.prems(6) m c a out by (simp add: x)
  next
    case False
    let ?e2 = "settle_future (ss_request st) Failed e1"
    have e': "expire_slots up xs ?e2 = (raised, e')" using Cons.prems(6) m False by (simp add: x)
    have "sid \<notin> fst ` set xs" using Cons.prems(4) by (simp add: x)
    then have k: "fst ` set xs \<subseteq> pending_keys ?e2"
      using Cons.prems(5) by (simp add: x o(6) dict_keys_delete subset_Diff_insert)
    have "slots_inv ?e2" using o(1) by (simp add: slots_settle)
    then have "cache_base cfg ?e2" "cache_active cfg P ?e2"
      using cache_frame(1) [of ?e2 e1 cfg] cache_frame(2) [of ?e2 e1 cfg P] c a by simp_all
    moreover have "outcomes_ok cfg ?e2" using out by (simp add: outcomes_ok_def outcome_ok_def)
    ultimately show ?thesis using Cons.IH [OF _ _ _ _ k e'] Cons.prems(4) by (simp add: x)
  qed
qed

lemma move_one_cache:
  assumes base: "cache_base cfg e" and act: "cache_active cfg running e"
    and m: "map_of (en_pending e) sid = Some st"
  shows "cache_base cfg (add_active_slot sid st (remove_pending sid e))"
    and "cache_active cfg running (add_active_slot sid st (remove_pending sid e))"
proof -
  let ?e = "add_active_slot sid st (remove_pending sid e)"
  note b = cache_baseD [OF base]
  have mem: "(sid, st) \<in> set (en_pending e)" by (rule map_of_SomeD [OF m])
  note p = cache_pendingD [OF base mem]
  have out: "sid \<notin> active_keys e" using b(1) in_dict_keys [OF mem] by (auto simp: slots_inv_def)
  have f: "en_kv ?e = en_kv e" "en_queue ?e = en_queue e" "en_active ?e = en_active e @ [(sid, st)]"
    "set (en_pending ?e) \<subseteq> set (en_pending e)"
    using out by (auto simp: add_active_slot_def remove_pending_def update_fresh delete_filter)
  have keys: "active_keys e \<subseteq> active_keys ?e" by (auto simp: f)
  show "cache_base cfg ?e"
    using base move_one_slots(1) [OF b(1) m] f(4) keys unfolding cache_base_def f(1,2) by blast
  have "sid \<notin> fst ` set (kv_block_tables (en_kv e)) \<longrightarrow> (0 :: int) = 0" by simp
  then show "cache_active cfg running ?e"
    using act p unfolding cache_active_def f(1,3) by auto
qed

lemma move_active_cache:
  "cache_base cfg e \<Longrightarrow> cache_active cfg running e \<Longrightarrow> outcomes_ok cfg e \<Longrightarrow>
   cache_base cfg (move_active sids e) \<and> cache_active cfg running (move_active sids e) \<and>
   outcomes_ok cfg (move_active sids e)"
proof (induction sids arbitrary: e)
  case Nil
  then show ?case by (simp add: move_active_def)
next
  case (Cons sid sids)
  show ?case
  proof (cases "map_of (en_pending e) sid")
    case None
    then show ?thesis using Cons by (simp add: move_active_Cons)
  next
    case (Some st)
    have "outcomes_ok cfg (add_active_slot sid st (remove_pending sid e))"
      using Cons.prems(3) by (simp add: outcomes_ok_def add_active_slot_def remove_pending_def)
    then show ?thesis
      using Cons.IH [OF move_one_cache [OF Cons.prems(1,2) Some]] Some by (simp add: move_active_Cons)
  qed
qed

lemma try_activate_cache:
  assumes base: "cache_base cfg e" and act: "cache_active cfg running e" and out: "outcomes_ok cfg e"
    and t: "try_activate cfg0 now is_active up e = (raised, e')"
  shows "cache_base cfg e' \<and> cache_active cfg running e' \<and> outcomes_ok cfg e'"
proof (cases "en_pending e = []")
  case True
  then show ?thesis using t base act out by (simp add: try_activate_def)
next
  case False
  let ?e1 = "join_all now e"
  let ?timed = "filter (\<lambda>(sid, st). \<not> is_active sid \<and> join_expired cfg0 now st) (en_pending ?e1)"
  have j: "cache_base cfg ?e1" "cache_active cfg running ?e1" "outcomes_ok cfg ?e1"
    using join_all_cache [OF base] act out by simp_all
  obtain b e2 where x: "expire_slots up ?timed ?e1 = (b, e2)" by (cases "expire_slots up ?timed ?e1")
  have wf: "dict_wf ?timed" using cache_baseD(1) [OF j(1)] by (simp add: slots_inv_def distinct_map_filter)
  have sub: "fst ` set ?timed \<subseteq> pending_keys ?e1" by auto
  note ex = expire_slots_cache [OF j wf sub x]
  show ?thesis
  proof (cases b)
    case True
    then show ?thesis using t False x ex by (simp add: try_activate_def Let_def)
  next
    case b: False
    have "e' = move_active (filter is_active (dict_keys (en_pending ?e1))) e2"
      using t False x b by (simp add: try_activate_def Let_def)
    then show ?thesis using move_active_cache [of cfg e2] ex by simp
  qed
qed

section \<open>The loop\<close>

text \<open>
  What a step may assume of its inputs: a request asks for a token at least (the handler
  clamps it), a prompt has one, and the pool changes as \<open>event_ok\<close> says.
\<close>

fun cache_event :: "engine_event \<Rightarrow> bool" where
  "cache_event (Submit r) = (1 \<le> rq_max_tokens r)"
| "cache_event (Accept inp wall perf) = (inp \<noteq> Tokens [])"
| "cache_event _ = True"

definition engine_cache_ok :: "engine_config \<Rightarrow> engine \<Rightarrow> bool" where
  "engine_cache_ok cfg e \<longleftrightarrow> cache_base cfg e \<and> outcomes_ok cfg e \<and>
     (en_pc e \<noteq> Failing \<longrightarrow> cache_active cfg (if en_pc e = Completing then in_limit else running) e)"

lemma generate_outcomes:
  assumes "outcomes_ok cfg e"
  shows "outcomes_ok cfg (snd (generate_one_token_all gi e))"
proof -
  have td: "outcomes_ok cfg (teardown_slot up sid st e)" if "outcomes_ok cfg e" for up sid st e
    using that
    by (simp add: teardown_slot_def outcomes_ok_def fail_future_def settle_future_def outcome_ok_def remove_active_slot_def)
  have "outcomes_ok cfg (abort_evicted gi e)"
    unfolding abort_evicted_def
  proof (rule foldl_keeps [of "outcomes_ok cfg", OF assms])
    fix e :: engine and x assume "outcomes_ok cfg e"
    then show "outcomes_ok cfg (abort_one gi e x)"
      using outcomes_cong [of "e\<lparr>en_pool := p\<rparr>" e for p] by (cases x) (simp add: td)
  qed
  moreover have "outcomes_ok cfg (reserve_blocks gi e)" if "outcomes_ok cfg e" for e
    unfolding reserve_blocks_def
  proof (rule foldl_keeps [of "outcomes_ok cfg", OF that])
    fix e :: engine and x assume "outcomes_ok cfg e"
    then show "outcomes_ok cfg (reserve_one gi e x)"
      using outcomes_cong [of "e\<lparr>en_kv := kv\<rparr>" e for kv] by (cases x) (simp add: td split: sum.split)
  qed
  moreover have "en_settled (snd (compute_tokens gi e)) = en_settled e" for e
    by (simp add: compute_tokens_def Let_def case_prod_unfold attention_writes_def)
  then have "outcomes_ok cfg (snd (compute_tokens gi e)) = outcomes_ok cfg e" for e by (rule outcomes_cong)
  ultimately show ?thesis by (simp add: generate_one_token_all_def Let_def)
qed

lemma not_done_running:
  assumes "cache_active cfg in_limit e" and "\<not> tight_loop_break cfg' e"
  shows "cache_active cfg running e"
  unfolding cache_active_def
proof (intro ballI, clarify)
  fix s st assume m: "(s, st) \<in> set (en_active e)"
  from assms(1) m obtain n where n: "map_of (kv_seq_lens (en_kv e)) s = Some n" "state_fits cfg n st"
    "s \<notin> fst ` set (kv_block_tables (en_kv e)) \<longrightarrow> n = 0" by (rule cache_activeD)
  have "\<not> slot_done cfg' st"
  proof
    assume "slot_done cfg' st"
    with m have "list_ex (\<lambda>(sid, st). slot_done cfg' st) (en_active e)"
      unfolding list_ex_iff by (intro bexI [of _ "(s, st)"]) simp_all
    with assms(2) show False by (simp add: tight_loop_break_def)
  qed
  then have "running st" by (simp add: slot_done_def reached_max_def running_def gen_len_def max_toks_def)
  with n show "\<exists>n. map_of (kv_seq_lens (en_kv e)) s = Some n \<and> state_fits cfg n st \<and> running st \<and>
      (s \<notin> fst ` set (kv_block_tables (en_kv e)) \<longrightarrow> n = 0)" by (intro exI [of _ n]) simp
qed

lemma cache_pc:
  assumes "cache_base cfg e"
  shows "cache_base cfg (e\<lparr>en_pc := pc\<rparr>)" "cache_active cfg P (e\<lparr>en_pc := pc\<rparr>) = cache_active cfg P e"
    "outcomes_ok cfg (e\<lparr>en_pc := pc\<rparr>) = outcomes_ok cfg e"
  using assms cache_frame [of "e\<lparr>en_pc := pc\<rparr>" e] slots_inv_frame [of "e\<lparr>en_pc := pc\<rparr>" e]
  by (simp_all add: cache_baseD(1) outcomes_ok_def)

lemma engine_step_cache:
  assumes ok: "engine_cache_ok cfg e" and slots: "engine_slots_ok e"
    and ev: "event_ok ev e" "cache_event ev"
  shows "engine_cache_ok cfg (engine_step cfg ev e)"
proof -
  have base: "cache_base cfg e" and out: "outcomes_ok cfg e"
    and act: "en_pc e \<noteq> Failing \<Longrightarrow> cache_active cfg (if en_pc e = Completing then in_limit else running) e"
    using ok by (auto simp: engine_cache_ok_def)
  have own: "en_pc e \<noteq> Failing \<Longrightarrow> active_owned e" using slots by (auto simp: engine_slots_ok_def)
  have si': "slots_inv (engine_step cfg ev e)"
    using engine_step_slots [OF slots ev(1), of cfg] by (simp add: engine_slots_ok_def)
  have same: ?thesis if "engine_step cfg ev e = e" using that ok by simp
  have to: "engine_cache_ok cfg (e'\<lparr>en_pc := pc\<rparr>)"
    if "cache_base cfg e'" "outcomes_ok cfg e'"
      "pc \<noteq> Failing \<Longrightarrow> cache_active cfg (if pc = Completing then in_limit else running) e'" for e' pc
    using that cache_pc [OF that(1)] by (simp add: engine_cache_ok_def)
  show ?thesis
  proof (cases ev)
    case (Submit r)
    have e': "engine_step cfg ev e = submit_request r e" by (simp add: Submit engine_step_def)
    have f: "en_kv (submit_request r e) = en_kv e" "en_active (submit_request r e) = en_active e"
      "en_pending (submit_request r e) = en_pending e" "en_pc (submit_request r e) = en_pc e"
      "en_settled (submit_request r e) = en_settled e" "en_queue (submit_request r e) = en_queue e @ [r]"
      by (simp_all add: submit_request_def)
    have "\<forall>x \<in> set (en_queue e @ [r]). 1 \<le> rq_max_tokens x"
      using base ev(2) by (auto simp: Submit cache_base_def)
    then have "cache_base cfg (submit_request r e)"
      using base si' unfolding e' cache_base_def f by blast
    then show ?thesis using act out
      unfolding e' engine_cache_ok_def cache_active_def outcomes_ok_def f by blast
  next
    case (Pool_change p)
    have e': "engine_step cfg ev e = e\<lparr>en_pool := p\<rparr>" by (simp add: Pool_change engine_step_def)
    show ?thesis using si' base act out cache_frame [of "e\<lparr>en_pool := p\<rparr>" e]
      unfolding e' by (simp add: engine_cache_ok_def outcomes_ok_def)
  next
    case (Accept inp wall perf)
    show ?thesis
    proof (cases "en_pc e = Accepting \<and> en_queue e \<noteq> []")
      case True
      have toks: "\<forall>tokens. inp = Tokens tokens \<longrightarrow> tokens \<noteq> []" using ev(2) Accept by auto
      have a: "cache_active cfg running e" "active_owned e" using act own True by simp_all
      obtain b e1 where r: "accept_one cfg inp wall perf e = (b, e1)" by (cases "accept_one cfg inp wall perf e")
      have "en_pc (snd (accept_one cfg inp wall perf e)) = en_pc e"
        by (simp add: accept_one_def Let_def settle_future_def split: list.split sum.split prod.split accept_input.split)
      then show ?thesis using accept_one_cache [OF base a out toks, of wall perf] Accept True to [of e1 Failing]
        by (simp add: r engine_step_def engine_cache_ok_def)
    next
      case False
      then show ?thesis using Accept same to [OF base out, of Activating] act
        by (auto simp: engine_step_def)
    qed
  next
    case (Activate now is_active up)
    show ?thesis
    proof (cases "en_pc e = Activating")
      case True
      obtain b e1 where t: "try_activate cfg now is_active up e = (b, e1)"
        by (cases "try_activate cfg now is_active up e")
      have a: "cache_active cfg running e" using act True by simp
      from try_activate_cache [OF base a out t] show ?thesis
        using Activate True t to [of e1] by (simp add: engine_step_def)
    next
      case False
      then show ?thesis using Activate by (intro same) (simp add: engine_step_def)
    qed
  next
    case Decide
    show ?thesis
    proof (cases "en_pc e = Deciding")
      case True
      then have a: "cache_active cfg running e" using act by simp
      show ?thesis using Decide True to [OF base out, of "if en_active e = [] then Accepting else Generating"] a
        by (simp add: engine_step_def split: if_splits)
    next
      case False
      then show ?thesis using Decide by (intro same) (simp add: engine_step_def)
    qed
  next
    case (Generate gi)
    show ?thesis
    proof (cases "en_pc e = Generating")
      case True
      obtain b e1 where g: "generate_one_token_all gi e = (b, e1)" by (cases "generate_one_token_all gi e")
      have a: "cache_active cfg running e" using act True by simp
      have o: "outcomes_ok cfg e1" using generate_outcomes [OF out, of gi] g by simp
      note c = generate_cache [OF base a g]
      have e': "engine_step cfg ev e = e1\<lparr>en_pc := (if b then Failing
          else if tight_loop_break cfg e1 then Completing else Generating)\<rparr>"
        using Generate True g by (simp add: engine_step_def)
      show ?thesis unfolding e'
        by (rule to [OF c(1) o]) (use c(2) not_done_running [of cfg e1 cfg] in \<open>auto split: if_splits\<close>)
    next
      case False
      then show ?thesis using Generate by (intro same) (simp add: engine_step_def)
    qed
  next
    case (Complete inp)
    show ?thesis
    proof (cases "en_pc e = Completing")
      case True
      obtain b e1 where c: "handle_completions cfg inp e = (b, e1)" by (cases "handle_completions cfg inp e")
      have a: "cache_active cfg in_limit e" using act True by simp
      note h = handle_completions_cache [OF base a out c]
      have e': "engine_step cfg ev e = e1\<lparr>en_pc := if b then Failing else Accepting\<rparr>"
        using Complete True c by (simp add: engine_step_def)
      show ?thesis unfolding e' by (rule to [OF h(1,3)]) (use h(2) in \<open>auto split: if_splits\<close>)
    next
      case False
      then show ?thesis using Complete by (intro same) (simp add: engine_step_def)
    qed
  next
    case (Fail up)
    show ?thesis
    proof (cases "en_pc e = Failing")
      case True
      from fail_all_cache [OF base out] show ?thesis
        using Fail True to [of "fail_all_active_slots up e" Accepting] by (simp add: engine_step_def)
    next
      case False
      then show ?thesis using Fail by (intro same) (simp add: engine_step_def)
    qed
  qed
qed

lemma engine_run_cache:
  "engine_cache_ok cfg e \<Longrightarrow> engine_slots_ok e \<Longrightarrow> run_ok cfg evs e \<Longrightarrow> \<forall>ev \<in> set evs. cache_event ev \<Longrightarrow>
   engine_cache_ok cfg (engine_run cfg evs e)"
proof (induction evs arbitrary: e)
  case Nil
  then show ?case by simp
next
  case (Cons ev evs)
  have e: "event_ok ev e" "cache_event ev" using Cons.prems(3,4) by simp_all
  have "engine_slots_ok (engine_step cfg ev e)" using engine_step_slots [OF Cons.prems(2) e(1)] by blast
  from Cons.IH [OF engine_step_cache [OF Cons.prems(1,2) e] this] Cons.prems(3,4) show ?case by simp
qed

text \<open>The cache of \<open>kv_init\<close> starts an engine that keeps all of this.\<close>

lemma engine_init_cache:
  assumes "kv_inv kv" "2 \<le> ec_max_seq_len cfg" "kv_block_tables kv = []"
    and "kv_max_blocks_per_seq kv = ceil_div (ec_max_seq_len cfg) (kv_block_size kv)" "0 \<le> kv_max_blocks_per_seq kv"
    and "kv_num_blocks kv = kv_max_slots kv * kv_max_blocks_per_seq kv"
    and "engine_slots_ok (engine_init w kv p)"
  shows "engine_cache_ok cfg (engine_init w kv p)"
proof -
  have si: "slots_inv (engine_init w kv p)" using assms(7) by (simp add: engine_slots_ok_def)
  have "\<forall>s. slot_blocks s kv = []" by (simp add: assms(3))
  then show ?thesis using assms(1-6) si
    by (simp add: engine_cache_ok_def cache_base_def cache_active_def outcomes_ok_def engine_init_def)
qed

end
