(* ===== verification/Aggregator.thy ===== *)
theory Aggregator
  imports Slot_Pool
begin

text \<open>
  \<open>src/src/aggregator.py\<close>: registration of workers, their slot requests, and the cleanup
  when a connection ends, over the slot pool. Each registered worker has a thread that
  serves its connection; one thread accepts registrations. A message is the dictionary
  the worker sent, its missing keys \<open>None\<close>. The weights, the GEMM loop and the health
  endpoint are not modelled.

  The lemmas show which workers can own slots, that a finished connection leaves none
  behind, and that a worker which names itself in its messages cannot touch the slots of
  another.
\<close>

section \<open>Messages and replies\<close>

record message =
  m_type :: "string option"
  m_secret :: "string option"
  m_slot_request :: "string option"
  m_worker_id :: "int option"
  m_slot_id :: "int option"

text \<open>
  What \<open>_recv\<close> comes back with: an exception, nothing (a closed connection, or an empty
  dictionary, which the code treats alike), a message.
\<close>

datatype received = Recv_error | Recv_closed | Received message

datatype agg_reply =
    Auth_error
  | Weight_export
  | Registered int
  | Slot_claimed int
  | Slot_released int
  | Slot_error

definition field :: "'a option \<Rightarrow> 'a \<Rightarrow> 'a" where
  "field x v = (case x of None \<Rightarrow> v | Some y \<Rightarrow> y)"

section \<open>The aggregator\<close>

record aggregator =
  ag_secret :: string
  ag_max_workers :: int
  ag_num_registered :: int
  ag_pool :: slot_pool

definition verify_secret :: "string \<Rightarrow> aggregator \<Rightarrow> bool" where
  "verify_secret received ag = (if ag_secret ag = [] then True else received = ag_secret ag)"

text \<open>
  The worker id, or \<open>None\<close> and the connection is closed. \<open>send_ok\<close> tells whether the export
  and the sending of the answer work; an exception of them ends the connection, and a worker
  id that has been counted stays used.
\<close>

definition handle_registration ::
  "bool \<Rightarrow> received \<Rightarrow> aggregator \<Rightarrow> int option \<times> agg_reply option \<times> aggregator" where
  "handle_registration send_ok r ag =
     (case r of
        Recv_error \<Rightarrow> (None, None, ag)
      | Recv_closed \<Rightarrow> (None, None, ag)
      | Received msg \<Rightarrow>
          if \<not> verify_secret (field (m_secret msg) []) ag
          then (None, if send_ok then Some Auth_error else None, ag)
          else if m_type msg = Some ''export_weights''
          then (None, if send_ok then Some Weight_export else None, ag)
          else if m_type msg \<noteq> Some ''register'' then (None, None, ag)
          else if ag_max_workers ag \<le> ag_num_registered ag then (None, None, ag)
          else let ag1 = ag\<lparr>ag_num_registered := ag_num_registered ag + 1\<rparr>
               in if send_ok then (Some (ag_num_registered ag), Some (Registered (ag_num_registered ag)), ag1)
                  else (None, None, ag1))"

definition handle_slot_request :: "message \<Rightarrow> aggregator \<Rightarrow> bool \<times> agg_reply option \<times> aggregator" where
  "handle_slot_request msg ag =
     (let worker_id = field (m_worker_id msg) (-1)
      in if m_slot_request msg = Some ''claim''
         then (case claim_slot worker_id (ag_pool ag) of
                 Inl e \<Rightarrow> (False, Some Slot_error, ag)
               | Inr (slot_id, p) \<Rightarrow> (True, Some (Slot_claimed slot_id), ag\<lparr>ag_pool := p\<rparr>))
         else if m_slot_request msg = Some ''release''
         then let slot_id = field (m_slot_id msg) (-1)
              in (case release_slot slot_id worker_id (ag_pool ag) of
                    Inl e \<Rightarrow> (False, Some Slot_error, ag)
                  | Inr p \<Rightarrow> (True, Some (Slot_released slot_id), ag\<lparr>ag_pool := p\<rparr>))
         else (False, None, ag))"

text \<open>
  The end of \<open>_wait_for_done\<close>: the slots of the worker leave the barrier, and after half a
  second they are released. A failure on one slot is passed over.
\<close>

definition owned_slots :: "int \<Rightarrow> slot_pool \<Rightarrow> int list" where
  "owned_slots worker_id p = filter (\<lambda>sid. get_slot_owner sid p = worker_id) [0..sp_num_slots p - 1]"

definition signal_leaves :: "int list \<Rightarrow> slot_pool \<Rightarrow> slot_pool" where
  "signal_leaves sids p =
     foldl (\<lambda>q sid. case slot_signal_leave sid q of Inl e \<Rightarrow> q | Inr q' \<Rightarrow> q') p sids"

definition begin_cleanup :: "int \<Rightarrow> aggregator \<Rightarrow> int list \<times> aggregator" where
  "begin_cleanup worker_id ag =
     (let stale_slots = owned_slots worker_id (ag_pool ag)
      in (stale_slots, ag\<lparr>ag_pool := signal_leaves stale_slots (ag_pool ag)\<rparr>))"

definition release_stale :: "int list \<Rightarrow> int \<Rightarrow> slot_pool \<Rightarrow> slot_pool" where
  "release_stale sids worker_id p =
     foldl (\<lambda>q sid. case release_slot sid worker_id q of Inl e \<Rightarrow> q | Inr q' \<Rightarrow> q') p sids"

definition finish_cleanup :: "int list \<Rightarrow> int \<Rightarrow> aggregator \<Rightarrow> aggregator" where
  "finish_cleanup stale_slots worker_id ag =
     ag\<lparr>ag_pool := release_stale stale_slots worker_id (ag_pool ag)\<rparr>"

section \<open>Connections\<close>

datatype connection = Serving | Releasing "int list" | Closed

record agg_system =
  as_agg :: aggregator
  as_conns :: "(int, connection) dict"

datatype agg_event =
    Connect bool received
  | Message int message
  | Disconnect int
  | Release_stale int

text \<open>
  One turn of the loop in \<open>_wait_for_done\<close> for a message: \<open>done\<close> ends it, a slot request is
  answered, anything else is ignored. An exception or an empty answer of \<open>_recv\<close> other
  than a timeout is a \<open>Disconnect\<close>.
\<close>

definition serve_message :: "int \<Rightarrow> message \<Rightarrow> agg_system \<Rightarrow> agg_system" where
  "serve_message w msg s =
     (if m_type msg = Some ''done''
      then let (stale, ag) = begin_cleanup w (as_agg s)
           in s\<lparr>as_agg := ag, as_conns := AList.update w (Releasing stale) (as_conns s)\<rparr>
      else if m_type msg = Some ''slot_request''
      then s\<lparr>as_agg := snd (snd (handle_slot_request msg (as_agg s)))\<rparr>
      else s)"

definition agg_step :: "agg_event \<Rightarrow> agg_system \<Rightarrow> agg_system" where
  "agg_step ev s =
     (case ev of
        Connect send_ok r \<Rightarrow>
          (case handle_registration send_ok r (as_agg s) of
             (None, reply, ag) \<Rightarrow> s\<lparr>as_agg := ag\<rparr>
           | (Some w, reply, ag) \<Rightarrow> s\<lparr>as_agg := ag, as_conns := AList.update w Serving (as_conns s)\<rparr>)
      | Message w msg \<Rightarrow>
          if map_of (as_conns s) w = Some Serving then serve_message w msg s else s
      | Disconnect w \<Rightarrow>
          if map_of (as_conns s) w = Some Serving
          then let (stale, ag) = begin_cleanup w (as_agg s)
               in s\<lparr>as_agg := ag, as_conns := AList.update w (Releasing stale) (as_conns s)\<rparr>
          else s
      | Release_stale w \<Rightarrow>
          (case map_of (as_conns s) w of
             Some (Releasing stale) \<Rightarrow>
               s\<lparr>as_agg := finish_cleanup stale w (as_agg s),
                 as_conns := AList.update w Closed (as_conns s)\<rparr>
           | _ \<Rightarrow> s))"

text \<open>A worker that names itself in its slot requests, as \<open>slot_client.py\<close> does.\<close>

definition honest :: "agg_event \<Rightarrow> bool" where
  "honest ev =
     (case ev of
        Message w msg \<Rightarrow> m_type msg = Some ''slot_request'' \<longrightarrow> m_worker_id msg = Some w
      | _ \<Rightarrow> True)"

definition agg_start :: "string \<Rightarrow> int \<Rightarrow> slot_pool \<Rightarrow> agg_system" where
  "agg_start secret max_workers p =
     \<lparr>as_agg = \<lparr>ag_secret = secret, ag_max_workers = max_workers, ag_num_registered = 0, ag_pool = p\<rparr>,
      as_conns = []\<rparr>"

definition agg_run :: "agg_event list \<Rightarrow> agg_system \<Rightarrow> agg_system" where
  "agg_run evs s = foldl (\<lambda>s ev. agg_step ev s) s evs"

section \<open>Who owns the slots\<close>

lemma signal_leaves_frame: "\<exists>m. signal_leaves sids p = p\<lparr>sc_leaves := m\<rparr>"
proof (induction sids arbitrary: p)
  case Nil
  show ?case by (auto simp: signal_leaves_def intro: exI [of _ "sc_leaves p"])
next
  case (Cons sid sids)
  let ?q = "case slot_signal_leave sid p of Inl e \<Rightarrow> p | Inr q' \<Rightarrow> q'"
  obtain m where q: "?q = p\<lparr>sc_leaves := m\<rparr>"
    by (cases "slot_signal_leave sid p")
       (auto simp: slot_signal_leave_def split: if_splits intro: that [of "sc_leaves p"])
  have "signal_leaves (sid # sids) p = signal_leaves sids ?q" by (simp add: signal_leaves_def)
  with Cons.IH [of ?q] q show ?case by auto
qed

lemma signal_leaves_pool:
  "slot_pool_ok (signal_leaves sids p) = slot_pool_ok p"
  "pool_slots (signal_leaves sids p) = pool_slots p"
  "free_slots (signal_leaves sids p) = free_slots p"
  "get_slot_owner s (signal_leaves sids p) = get_slot_owner s p"
  using signal_leaves_frame [of sids p]
  by (elim exE, simp add: slot_pool_ok_def pool_slots_def free_slots_def get_slot_owner_def)+

lemma release_stale_eq: "release_stale sids w p = pool.release_each sids w p"
proof (induction sids arbitrary: p)
  case Nil
  show ?case by (simp add: release_stale_def)
next
  case (Cons s ss)
  have "release_stale (s # ss) w p =
      release_stale ss w (case release_slot s w p of Inl e \<Rightarrow> p | Inr p' \<Rightarrow> p')"
    by (simp add: release_stale_def)
  then show ?case by (simp add: Cons)
qed

lemma owned_slots:
  "slot_pool_ok p \<Longrightarrow> set (owned_slots w p) = {s \<in> pool_slots p. get_slot_owner s p = w}"
  "distinct (owned_slots w p)"
  by (auto simp: owned_slots_def pool_slots_def)

text \<open>
  A slot that is not free belongs to a worker whose connection is served, or whose
  cleanup has the slot on its list. Worker ids count up and their number is bounded.
\<close>

definition live_owner :: "(int, connection) dict \<Rightarrow> int \<Rightarrow> int \<Rightarrow> bool" where
  "live_owner conns s w \<longleftrightarrow>
     (case map_of conns w of
        Some Serving \<Rightarrow> True
      | Some (Releasing stale) \<Rightarrow> s \<in> set stale
      | _ \<Rightarrow> False)"

text \<open>The connections are those of workers that have been counted.\<close>

definition ids_counted :: "agg_system \<Rightarrow> bool" where
  "ids_counted s \<longleftrightarrow> set (dict_keys (as_conns s)) \<subseteq> {0..<ag_num_registered (as_agg s)}"

lemma ids_counted_cong:
  assumes "set (dict_keys (as_conns s')) = set (dict_keys (as_conns s))"
    "ag_num_registered (as_agg s') = ag_num_registered (as_agg s)"
  shows "ids_counted s' = ids_counted s"
  unfolding ids_counted_def assms ..

lemma ids_counted_agg [simp]:
  "ag_num_registered ag = ag_num_registered (as_agg s) \<Longrightarrow> ids_counted (s\<lparr>as_agg := ag\<rparr>) = ids_counted s"
  by (rule ids_counted_cong) simp_all

definition agg_inv :: "agg_system \<Rightarrow> bool" where
  "agg_inv s \<longleftrightarrow> slot_pool_ok (ag_pool (as_agg s)) \<and> dict_wf (as_conns s) \<and>
     ids_counted s \<and>
     0 \<le> ag_num_registered (as_agg s) \<and>
     (ag_num_registered (as_agg s) \<le> ag_max_workers (as_agg s) \<or> ag_num_registered (as_agg s) = 0) \<and>
     (\<forall>w stale. map_of (as_conns s) w = Some (Releasing stale) \<longrightarrow> distinct stale) \<and>
     (\<forall>sid \<in> pool_slots (ag_pool (as_agg s)) - free_slots (ag_pool (as_agg s)).
        live_owner (as_conns s) sid (get_slot_owner sid (ag_pool (as_agg s))))"

lemma agg_start_inv:
  assumes "slot_pool_ok p" and "free_slots p = pool_slots p"
  shows "agg_inv (agg_start secret n p)"
  using assms by (simp add: agg_inv_def agg_start_def ids_counted_def)

lemma conn_key:
  assumes "agg_inv s" and "map_of (as_conns s) w = Some c"
  shows "0 \<le> w" "w < ag_num_registered (as_agg s)"
proof -
  have "set (dict_keys (as_conns s)) \<subseteq> {0..<ag_num_registered (as_agg s)}"
    using assms(1) by (simp add: agg_inv_def ids_counted_def)
  then have "w \<in> {0..<ag_num_registered (as_agg s)}" using map_of_in_keys [OF assms(2)] by (rule subsetD)
  then show "0 \<le> w" "w < ag_num_registered (as_agg s)" by simp_all
qed

lemma handle_slot_request_frame:
  "\<exists>p. snd (snd (handle_slot_request msg ag)) = ag\<lparr>ag_pool := p\<rparr>"
  by (auto simp: handle_slot_request_def Let_def intro: exI [of _ "ag_pool ag"] split: sum.split prod.split)

lemma handle_slot_request_cases:
  assumes "m_worker_id msg = Some w"
  shows "snd (snd (handle_slot_request msg ag)) = ag \<or>
    (\<exists>s p'. claim_slot w (ag_pool ag) = Inr (s, p') \<and>
       snd (snd (handle_slot_request msg ag)) = ag\<lparr>ag_pool := p'\<rparr>) \<or>
    (\<exists>s p'. release_slot s w (ag_pool ag) = Inr p' \<and>
       snd (snd (handle_slot_request msg ag)) = ag\<lparr>ag_pool := p'\<rparr>)"
proof (cases "m_slot_request msg = Some ''claim''")
  case True
  then show ?thesis using assms
    by (cases "claim_slot w (ag_pool ag)") (auto simp: handle_slot_request_def field_def)
next
  case False
  show ?thesis
  proof (cases "m_slot_request msg = Some ''release''")
    case True
    then show ?thesis using assms
      by (cases "release_slot (field (m_slot_id msg) (-1)) w (ag_pool ag)")
         (auto simp: handle_slot_request_def field_def)
  next
    case other: False
    with False show ?thesis by (simp add: handle_slot_request_def)
  qed
qed

text \<open>What a slot request of a worker in its own name can do to the pool.\<close>

lemma slot_request_cases:
  assumes ok: "slot_pool_ok (ag_pool ag)" and w: "m_worker_id msg = Some w"
    and r: "snd (snd (handle_slot_request msg ag)) = ag'"
  shows "slot_pool_ok (ag_pool ag') \<and> pool_slots (ag_pool ag') = pool_slots (ag_pool ag) \<and>
    (\<forall>s \<in> pool_slots (ag_pool ag') - free_slots (ag_pool ag').
       get_slot_owner s (ag_pool ag') = w \<or>
       (s \<notin> free_slots (ag_pool ag) \<and> get_slot_owner s (ag_pool ag') = get_slot_owner s (ag_pool ag))) \<and>
    (\<forall>s. s \<notin> free_slots (ag_pool ag) \<and> get_slot_owner s (ag_pool ag) \<noteq> w \<longrightarrow>
       s \<notin> free_slots (ag_pool ag') \<and> get_slot_owner s (ag_pool ag') = get_slot_owner s (ag_pool ag))"
proof -
  let ?p = "ag_pool ag"
  consider (same) "ag' = ag"
    | (claim) s p' where "claim_slot w ?p = Inr (s, p')" "ag' = ag\<lparr>ag_pool := p'\<rparr>"
    | (release) s p' where "release_slot s w ?p = Inr p'" "ag' = ag\<lparr>ag_pool := p'\<rparr>"
    using handle_slot_request_cases [OF w, of ag] r by metis
  then show ?thesis
  proof cases
    case same
    then show ?thesis using ok by auto
  next
    case claim
    from pool.claim_gives [OF ok claim(1)] claim(2) show ?thesis by auto
  next
    case release
    from pool.release_gives [OF ok release(1)] release(2) show ?thesis by auto
  qed
qed

lemma update_conns:
  assumes "agg_inv s" and "map_of (as_conns s) w \<noteq> None"
  shows "dict_wf (AList.update w c (as_conns s))"
    and "set (dict_keys (AList.update w c (as_conns s))) = set (dict_keys (as_conns s))"
proof -
  obtain d where "map_of (as_conns s) w = Some d" using assms(2) by blast
  then have "w \<in> set (dict_keys (as_conns s))" by (rule map_of_in_keys)
  then show "set (dict_keys (AList.update w c (as_conns s))) = set (dict_keys (as_conns s))"
    by (simp add: dom_update insert_absorb)
  show "dict_wf (AList.update w c (as_conns s))" using assms(1) by (simp add: agg_inv_def)
qed

text \<open>Both ways into the cleanup leave the list of slots the worker owns in its connection.\<close>

definition start_release :: "int \<Rightarrow> agg_system \<Rightarrow> agg_system" where
  "start_release w s =
     s\<lparr>as_agg := snd (begin_cleanup w (as_agg s)),
       as_conns := AList.update w (Releasing (fst (begin_cleanup w (as_agg s)))) (as_conns s)\<rparr>"

lemma start_release_inv:
  assumes inv: "agg_inv s" and w: "map_of (as_conns s) w = Some Serving"
  shows "agg_inv (start_release w s)"
proof -
  let ?s = "start_release w s" and ?p = "ag_pool (as_agg s)"
  have ok: "slot_pool_ok ?p" using inv by (simp add: agg_inv_def)
  have conns: "as_conns ?s = AList.update w (Releasing (owned_slots w ?p)) (as_conns s)"
    and pool: "ag_pool (as_agg ?s) = signal_leaves (owned_slots w ?p) ?p"
    and rest: "ag_num_registered (as_agg ?s) = ag_num_registered (as_agg s)"
      "ag_max_workers (as_agg ?s) = ag_max_workers (as_agg s)"
    by (simp_all add: start_release_def begin_cleanup_def Let_def)
  have live: "live_owner (as_conns ?s) sid (get_slot_owner sid ?p)"
    if sid: "sid \<in> pool_slots ?p - free_slots ?p" for sid
  proof (cases "get_slot_owner sid ?p = w")
    case True
    then have "sid \<in> set (owned_slots w ?p)" using sid owned_slots(1) [OF ok] by auto
    then show ?thesis using True by (simp add: live_owner_def conns update_conv')
  next
    case False
    have "live_owner (as_conns s) sid (get_slot_owner sid ?p)" using inv sid by (simp add: agg_inv_def)
    then show ?thesis using False by (simp add: live_owner_def conns update_conv')
  qed
  have "ids_counted ?s = ids_counted s"
    by (rule ids_counted_cong) (use update_conns(2) [OF inv, of w] w in \<open>simp_all add: conns rest\<close>)
  then show ?thesis
    using inv update_conns [OF inv, of w] w live
    by (auto simp: agg_inv_def rest pool signal_leaves_pool conns update_conv' owned_slots(2) split: if_splits)
qed

lemma finish_cleanup_inv:
  assumes inv: "agg_inv s" and w: "map_of (as_conns s) w = Some (Releasing stale)"
  shows "agg_inv (s\<lparr>as_agg := finish_cleanup stale w (as_agg s), as_conns := AList.update w Closed (as_conns s)\<rparr>)"
proof -
  let ?p = "ag_pool (as_agg s)" and ?q = "pool.release_each stale w (ag_pool (as_agg s))"
  have ok: "slot_pool_ok ?p" and dist: "distinct stale" using inv w by (auto simp: agg_inv_def)
  note keeps = pool.release_each_keeps [OF ok, of stale w]
  have live: "live_owner (AList.update w Closed (as_conns s)) sid (get_slot_owner sid ?q)"
    if sid: "sid \<in> pool_slots ?p" "sid \<notin> free_slots ?q" for sid
  proof -
    have nf: "sid \<notin> free_slots ?p" using sid keeps by blast
    have old: "live_owner (as_conns s) sid (get_slot_owner sid ?p)" using inv sid(1) nf by (simp add: agg_inv_def)
    have "get_slot_owner sid ?p \<noteq> w"
    proof
      assume o: "get_slot_owner sid ?p = w"
      with old w have "sid \<in> set stale" by (simp add: live_owner_def)
      from pool.release_each_frees [OF ok dist this sid(1) o] sid(2) show False by simp
    qed
    moreover from this have "get_slot_owner sid ?q = get_slot_owner sid ?p"
      using pool.release_each_other [OF ok, of sid stale w] by simp
    ultimately show ?thesis using old by (simp add: live_owner_def update_conv')
  qed
  have "ids_counted (s\<lparr>as_agg := finish_cleanup stale w (as_agg s), as_conns := AList.update w Closed (as_conns s)\<rparr>)
      = ids_counted s"
    by (rule ids_counted_cong) (use update_conns(2) [OF inv, of w] w in \<open>simp_all add: finish_cleanup_def\<close>)
  then show ?thesis
    using inv update_conns [OF inv, of w Closed] w live keeps
    by (auto simp: agg_inv_def finish_cleanup_def release_stale_eq update_conv' split: if_splits)
qed

lemma handle_registration_cases:
  "(\<exists>reply. handle_registration b r ag = (None, reply, ag)) \<or>
   (ag_num_registered ag < ag_max_workers ag \<and>
    (handle_registration b r ag = (None, None, ag\<lparr>ag_num_registered := ag_num_registered ag + 1\<rparr>) \<or>
     handle_registration b r ag = (Some (ag_num_registered ag), Some (Registered (ag_num_registered ag)),
       ag\<lparr>ag_num_registered := ag_num_registered ag + 1\<rparr>)))"
proof (cases r)
  case (Received msg)
  then show ?thesis
    by (cases "verify_secret (field (m_secret msg) []) ag"; cases "m_type msg = Some ''export_weights''";
        cases "m_type msg = Some ''register''"; cases "ag_max_workers ag \<le> ag_num_registered ag")
       (simp_all add: handle_registration_def Let_def)
qed (simp_all add: handle_registration_def)

lemma registration_inv:
  assumes inv: "agg_inv s" and h: "handle_registration ok r (as_agg s) = (Some w, reply, ag)"
  shows "agg_inv (s\<lparr>as_agg := ag, as_conns := AList.update w Serving (as_conns s)\<rparr>)"
proof -
  have w: "w = ag_num_registered (as_agg s)" and less: "ag_num_registered (as_agg s) < ag_max_workers (as_agg s)"
    and ag: "ag = (as_agg s)\<lparr>ag_num_registered := ag_num_registered (as_agg s) + 1\<rparr>"
    using h handle_registration_cases [of ok r "as_agg s"] by (elim disjE exE conjE; simp)+
  have fresh: "map_of (as_conns s) w = None"
  proof (rule ccontr)
    assume "map_of (as_conns s) w \<noteq> None"
    then obtain c where "map_of (as_conns s) w = Some c" by blast
    from conn_key(2) [OF inv this] show False by (simp add: w)
  qed
  have "set (dict_keys (as_conns s)) \<subseteq> {0..<w}" and "0 \<le> w"
    using inv unfolding agg_inv_def ids_counted_def w by blast+
  then have "insert w (set (dict_keys (as_conns s))) \<subseteq> {0..<w + 1}" by auto
  then have keys: "ids_counted (s\<lparr>as_agg := ag, as_conns := AList.update w Serving (as_conns s)\<rparr>)"
    by (simp add: ids_counted_def dom_update ag w)
  have live: "live_owner (AList.update w Serving (as_conns s)) sid v" if "live_owner (as_conns s) sid v" for sid v
    using that by (auto simp: live_owner_def update_conv')
  show ?thesis using inv keys less live w
    by (auto simp: agg_inv_def ag update_conv' split: if_splits)
qed

lemma slot_request_inv:
  assumes inv: "agg_inv s" and w: "map_of (as_conns s) w = Some Serving" and m: "m_worker_id msg = Some w"
  shows "agg_inv (s\<lparr>as_agg := snd (snd (handle_slot_request msg (as_agg s)))\<rparr>)"
proof -
  have ok: "slot_pool_ok (ag_pool (as_agg s))" using inv by (simp add: agg_inv_def)
  obtain p where p: "snd (snd (handle_slot_request msg (as_agg s))) = (as_agg s)\<lparr>ag_pool := p\<rparr>"
    using handle_slot_request_frame by blast
  note c = slot_request_cases [OF ok m p]
  have "live_owner (as_conns s) sid (get_slot_owner sid p)" if "sid \<in> pool_slots p - free_slots p" for sid
  proof (cases "get_slot_owner sid p = w")
    case True
    then show ?thesis using w by (simp add: live_owner_def)
  next
    case False
    with c that have "sid \<notin> free_slots (ag_pool (as_agg s))" "sid \<in> pool_slots (ag_pool (as_agg s))"
      "get_slot_owner sid p = get_slot_owner sid (ag_pool (as_agg s))" by auto
    then show ?thesis using inv by (simp add: agg_inv_def)
  qed
  then show ?thesis using inv c by (auto simp: agg_inv_def p)
qed

lemma agg_step_inv:
  assumes inv: "agg_inv s" and h: "honest ev"
  shows "agg_inv (agg_step ev s)"
proof (cases ev)
  case (Connect b r)
  obtain o_w reply ag where hr: "handle_registration b r (as_agg s) = (o_w, reply, ag)"
    by (cases "handle_registration b r (as_agg s)")
  show ?thesis
  proof (cases o_w)
    case None
    then have "ag = as_agg s \<or> ag_num_registered (as_agg s) < ag_max_workers (as_agg s) \<and>
        ag = (as_agg s)\<lparr>ag_num_registered := ag_num_registered (as_agg s) + 1\<rparr>"
      using hr handle_registration_cases [of b r "as_agg s"] by auto
    moreover have "agg_inv (s\<lparr>as_agg := (as_agg s)\<lparr>ag_num_registered := ag_num_registered (as_agg s) + 1\<rparr>\<rparr>)"
      if "ag_num_registered (as_agg s) < ag_max_workers (as_agg s)"
    proof -
      have "set (dict_keys (as_conns s)) \<subseteq> {0..<ag_num_registered (as_agg s)}"
        using inv unfolding agg_inv_def ids_counted_def by blast
      then have "set (dict_keys (as_conns s)) \<subseteq> {0..<ag_num_registered (as_agg s) + 1}"
        by (rule subset_trans) simp
      then show ?thesis using inv that by (simp add: agg_inv_def ids_counted_def)
    qed
    ultimately show ?thesis using Connect hr None inv by (auto simp: agg_step_def)
  next
    case (Some w)
    then show ?thesis using Connect hr registration_inv [OF inv, of b r w] by (simp add: agg_step_def)
  qed
next
  case (Message w msg)
  show ?thesis
  proof (cases "map_of (as_conns s) w = Some Serving")
    case False
    then show ?thesis using Message inv by (simp add: agg_step_def)
  next
    case True
    have "agg_inv (serve_message w msg s)"
    proof (cases "m_type msg = Some ''done''")
      case True
      then show ?thesis using start_release_inv [OF inv \<open>map_of (as_conns s) w = Some Serving\<close>]
        by (simp add: serve_message_def start_release_def case_prod_unfold Let_def)
    next
      case False
      then show ?thesis
        using slot_request_inv [OF inv True] h inv by (simp add: serve_message_def honest_def Message)
    qed
    then show ?thesis using Message True by (simp add: agg_step_def)
  qed
next
  case (Disconnect w)
  then show ?thesis using inv start_release_inv [OF inv, of w]
    by (simp add: agg_step_def start_release_def case_prod_unfold Let_def)
next
  case (Release_stale w)
  then show ?thesis using inv finish_cleanup_inv [OF inv, of w]
    by (simp add: agg_step_def split: option.split connection.split)
qed

lemma agg_run_inv:
  "agg_inv s \<Longrightarrow> \<forall>ev \<in> set evs. honest ev \<Longrightarrow> agg_inv (agg_run evs s)"
  by (induction evs arbitrary: s) (simp_all add: agg_run_def agg_step_inv)

text \<open>When every connection is closed, the whole pool is free again.\<close>

lemma agg_inv_all_closed:
  assumes "agg_inv s" and "\<forall>c \<in> set (dict_values (as_conns s)). c = Closed"
  shows "free_slots (ag_pool (as_agg s)) = pool_slots (ag_pool (as_agg s))"
proof -
  have closed: "map_of (as_conns s) w \<in> {None, Some Closed}" for w
    using assms(2) by (cases "map_of (as_conns s) w") (auto dest: map_of_in_values)
  have dead: "\<not> live_owner (as_conns s) sid w" for sid w
    using closed [of w] by (auto simp: live_owner_def)
  have "pool_slots (ag_pool (as_agg s)) - free_slots (ag_pool (as_agg s)) = {}"
    using assms(1) dead unfolding agg_inv_def by blast
  moreover have "free_slots (ag_pool (as_agg s)) \<subseteq> pool_slots (ag_pool (as_agg s))"
    using assms(1) unfolding agg_inv_def slot_pool_ok_def by blast
  ultimately show ?thesis by blast
qed

text \<open>A step of one worker leaves the slots of another alone.\<close>

definition event_worker :: "agg_event \<Rightarrow> int option" where
  "event_worker ev =
     (case ev of Connect b r \<Rightarrow> None | Message w m \<Rightarrow> Some w | Disconnect w \<Rightarrow> Some w | Release_stale w \<Rightarrow> Some w)"

lemma agg_step_isolated:
  assumes inv: "agg_inv s" and h: "honest ev" and w: "event_worker ev \<noteq> Some v"
    and own: "sid \<in> pool_slots (ag_pool (as_agg s))" "sid \<notin> free_slots (ag_pool (as_agg s))"
      "get_slot_owner sid (ag_pool (as_agg s)) = v"
  shows "sid \<notin> free_slots (ag_pool (as_agg (agg_step ev s))) \<and>
    get_slot_owner sid (ag_pool (as_agg (agg_step ev s))) = v"
proof -
  have ok: "slot_pool_ok (ag_pool (as_agg s))" using inv by (simp add: agg_inv_def)
  show ?thesis
  proof (cases ev)
    case (Connect b r)
    then show ?thesis using own handle_registration_cases [of b r "as_agg s"]
      by (auto simp: agg_step_def)
  next
    case (Message u msg)
    then have u: "u \<noteq> v" using w by (simp add: event_worker_def)
    show ?thesis
    proof (cases "map_of (as_conns s) u = Some Serving \<and> m_type msg = Some ''slot_request''")
      case True
      then have "m_worker_id msg = Some u" using h Message by (simp add: honest_def)
      from slot_request_cases [OF ok this refl] own u
      show ?thesis using Message True by (simp add: agg_step_def serve_message_def)
    next
      case False
      then show ?thesis using Message own
        by (auto simp: agg_step_def serve_message_def begin_cleanup_def Let_def signal_leaves_pool)
    qed
  next
    case (Disconnect u)
    then show ?thesis using own by (simp add: agg_step_def begin_cleanup_def Let_def signal_leaves_pool)
  next
    case (Release_stale u)
    then have u: "u \<noteq> v" using w by (simp add: event_worker_def)
    then show ?thesis using Release_stale own pool.release_each_other [OF ok, of sid _ u]
      by (auto simp: agg_step_def finish_cleanup_def release_stale_eq split: option.split connection.split)
  qed
qed

text \<open>Over whole runs.\<close>

lemma serve_message_max: "ag_max_workers (as_agg (serve_message w msg s)) = ag_max_workers (as_agg s)"
  using handle_slot_request_frame [of msg "as_agg s"]
  by (auto simp: serve_message_def begin_cleanup_def Let_def)

lemma agg_step_max: "ag_max_workers (as_agg (agg_step ev s)) = ag_max_workers (as_agg s)"
proof (cases ev)
  case (Connect b r)
  then show ?thesis using handle_registration_cases [of b r "as_agg s"] by (auto simp: agg_step_def)
qed (auto simp: agg_step_def serve_message_max begin_cleanup_def finish_cleanup_def Let_def
    split: option.split connection.split)

lemma agg_run_max: "ag_max_workers (as_agg (agg_run evs s)) = ag_max_workers (as_agg s)"
  by (induction evs arbitrary: s) (simp_all add: agg_run_def agg_step_max)

lemma agg_inv_connections:
  assumes "agg_inv s"
  shows "int (length (as_conns s)) \<le> max 0 (ag_max_workers (as_agg s))"
proof -
  have wf: "dict_wf (as_conns s)" and keys: "set (dict_keys (as_conns s)) \<subseteq> {0..<ag_num_registered (as_agg s)}"
    and n: "0 \<le> ag_num_registered (as_agg s)"
      "ag_num_registered (as_agg s) \<le> ag_max_workers (as_agg s) \<or> ag_num_registered (as_agg s) = 0"
    using assms unfolding agg_inv_def ids_counted_def by blast+
  have "length (as_conns s) = card (set (dict_keys (as_conns s)))" using distinct_card [OF wf] by simp
  also have "\<dots> \<le> nat (ag_num_registered (as_agg s))" using card_mono [OF _ keys] by simp
  finally show ?thesis using n by auto
qed

lemma agg_step_slots:
  assumes "agg_inv s" "honest ev"
  shows "pool_slots (ag_pool (as_agg (agg_step ev s))) = pool_slots (ag_pool (as_agg s))"
proof -
  have ok: "slot_pool_ok (ag_pool (as_agg s))" using assms by (simp add: agg_inv_def)
  show ?thesis
  proof (cases ev)
    case (Connect b r)
    then show ?thesis using handle_registration_cases [of b r "as_agg s"] by (auto simp: agg_step_def)
  next
    case (Message w msg)
    have "pool_slots (ag_pool (as_agg (serve_message w msg s))) = pool_slots (ag_pool (as_agg s))"
      using slot_request_cases [OF ok _ refl, of msg w] assms(2)
      by (auto simp: serve_message_def begin_cleanup_def Let_def signal_leaves_pool honest_def Message)
    then show ?thesis by (simp add: Message agg_step_def)
  qed (use pool.release_each_keeps [OF ok] in \<open>auto simp: agg_step_def begin_cleanup_def finish_cleanup_def
      release_stale_eq signal_leaves_pool Let_def split: option.split connection.split\<close>)
qed

lemma agg_run_isolated:
  "agg_inv s \<Longrightarrow> \<forall>ev \<in> set evs. honest ev \<and> event_worker ev \<noteq> Some v \<Longrightarrow>
   sid \<in> pool_slots (ag_pool (as_agg s)) \<Longrightarrow> sid \<notin> free_slots (ag_pool (as_agg s)) \<Longrightarrow>
   get_slot_owner sid (ag_pool (as_agg s)) = v \<Longrightarrow>
   sid \<notin> free_slots (ag_pool (as_agg (agg_run evs s))) \<and> get_slot_owner sid (ag_pool (as_agg (agg_run evs s))) = v"
proof (induction evs arbitrary: s)
  case Nil
  then show ?case by (simp add: agg_run_def)
next
  case (Cons ev evs)
  have ev: "honest ev" "event_worker ev \<noteq> Some v" using Cons.prems(2) by auto
  note i = agg_step_isolated [OF Cons.prems(1) ev Cons.prems(3-5)]
  have "sid \<in> pool_slots (ag_pool (as_agg (agg_step ev s)))"
    using agg_step_slots [OF Cons.prems(1) ev(1)] Cons.prems(3) by simp
  from Cons.IH [OF agg_step_inv [OF Cons.prems(1) ev(1)] _ this] i Cons.prems(2) show ?case
    by (simp add: agg_run_def)
qed

end
