(* ===== verification/Worker_Examples.thy ===== *)
theory Worker_Examples
  imports Engine_Requests Engine_Cache Aggregator
begin

text \<open>
  Small concrete inputs for the worker and the aggregator: a pool of two slots, an engine
  that serves one request from its submission to its result, and an aggregator with two
  registered workers.
\<close>

section \<open>A pool of two slots\<close>

definition ex_pool :: slot_pool where
  "ex_pool = (case init_slot_pool 2 [[1], [2]] [[3], [4]] of Inr p \<Rightarrow> p | Inl e \<Rightarrow> undefined)"

lemma ex_pool_init: "init_slot_pool 2 [[1], [2]] [[3], [4]] = Inr ex_pool"
  by (simp add: ex_pool_def init_slot_pool_def)

lemma ex_pool_slots: "slot_pool_ok ex_pool" "free_slots ex_pool = pool_slots ex_pool" "sp_num_slots ex_pool = 2"
  using init_slot_pool_ok [OF ex_pool_init] by auto

lemma ex_pool_owner: "get_slot_owner s ex_pool = -1"
  using ex_pool_slots by (auto simp: slot_pool_ok_def get_slot_owner_def pool_slots_def)

section \<open>An engine serves a request\<close>

definition ex_kv :: kv_cache where
  "ex_kv = kv_init 1 1 1 2 2 4"

definition ex_cfg :: engine_config where
  "ex_cfg = \<lparr>ec_max_seq_len = 4, ec_prefill_chunk_size = 8, ec_eos_token_id = Some 0,
     ec_activation_timeout = 5, ec_slo_s = 3\<rparr>"

definition ex_req :: inf_request where
  "ex_req = \<lparr>rq_id = ''r'', rq_prompt = ''p'', rq_max_tokens = 2, rq_do_sample = False, rq_temperature = 1,
     rq_top_k = 0, rq_top_p = 1, rq_submit_time = 1, rq_slo_deadline_wall = No_deadline\<rparr>"

definition ex_gen :: gen_input where
  "ex_gen = \<lparr>gi_up = (\<lambda>_. True), gi_error = No_error, gi_writes = [(0, 0, 0, [7, 7], [8, 8])],
     gi_token = (\<lambda>_. 9), gi_now = 3\<rparr>"

definition ex_engine :: engine where
  "ex_engine = engine_init 0 ex_kv ex_pool"

text \<open>Submitted, given slot 0, activated; the first token is generated.\<close>

definition ex_evs1 :: "engine_event list" where
  "ex_evs1 = [Submit ex_req, Accept (Tokens [5, 6]) 1 1, Accept (Claim_lost False) 1 1,
     Activate 2 (\<lambda>_. True) (\<lambda>_. True), Decide, Generate ex_gen]"

text \<open>The second token, and the completion.\<close>

definition ex_evs2 :: "engine_event list" where
  "ex_evs2 = ex_evs1 @ [Generate ex_gen, Complete (\<lambda>_. Complete_ok)]"

lemma run_ok_no_change: "\<forall>p. Pool_change p \<notin> set evs \<Longrightarrow> run_ok cfg evs e"
  by (induction evs arbitrary: e) (auto simp: event_ok_def split: engine_event.split)

lemma ex_run_ok: "run_ok ex_cfg ex_evs1 ex_engine" "run_ok ex_cfg ex_evs2 ex_engine"
  by (rule run_ok_no_change; simp add: ex_evs1_def ex_evs2_def)+

lemma ex_engine_run1: "en_pc (engine_run ex_cfg ex_evs1 ex_engine) = Generating \<and>
    length (en_active (engine_run ex_cfg ex_evs1 ex_engine)) = 1 \<and>
    kv_block_tables (en_kv (engine_run ex_cfg ex_evs1 ex_engine)) = [(0, [0])]"
  by code_simp

lemma ex_engine_run2: "en_settled (engine_run ex_cfg ex_evs2 ex_engine) = [(''r'', Generated [9, 9] 2 Max_tokens)] \<and>
    en_queue (engine_run ex_cfg ex_evs2 ex_engine) = [] \<and> en_pending (engine_run ex_cfg ex_evs2 ex_engine) = [] \<and>
    en_active (engine_run ex_cfg ex_evs2 ex_engine) = [] \<and> en_pc (engine_run ex_cfg ex_evs2 ex_engine) = Accepting"
  by code_simp

text \<open>
  A request whose deadline is a string: the test of the deadline raises, the request is in
  no place any more, and the request beside it fails.
\<close>

definition ex_bad_req :: inf_request where
  "ex_bad_req = ex_req\<lparr>rq_id := ''s'', rq_slo_deadline_wall := Not_a_number\<rparr>"

definition ex_bad_evs :: "engine_event list" where
  "ex_bad_evs = [Submit ex_req, Submit ex_bad_req, Accept (Tokens [5, 6]) 1 1, Accept (Tokens [5]) 1 1, Fail (\<lambda>_. True)]"

lemma ex_bad_run: "en_settled (engine_run ex_cfg ex_bad_evs ex_engine) = [(''r'', Failed)] \<and>
    en_queue (engine_run ex_cfg ex_bad_evs ex_engine) = [] \<and> en_pending (engine_run ex_cfg ex_bad_evs ex_engine) = [] \<and>
    en_active (engine_run ex_cfg ex_bad_evs ex_engine) = []"
  by code_simp

lemma ex_bad_ok: "run_ok ex_cfg ex_bad_evs ex_engine" "submitted ex_bad_evs = {#''r'', ''s''#}"
  by (rule run_ok_no_change, simp add: ex_bad_evs_def) (simp add: ex_bad_evs_def ex_bad_req_def ex_req_def)

text \<open>
  When the connection of a worker ends, the aggregator takes back a slot that the worker's
  engine still uses.
\<close>

lemma cleanup_takes_used_slot:
  "\<exists>p. release_slot 0 0 (en_pool (engine_run ex_cfg ex_evs1 ex_engine)) = Inr p \<and>
     active_keys (engine_step ex_cfg (Pool_change p) (engine_run ex_cfg ex_evs1 ex_engine)) = {0} \<and>
     owned (engine_step ex_cfg (Pool_change p) (engine_run ex_cfg ex_evs1 ex_engine)) = {}"
proof -
  let ?e = "engine_run ex_cfg ex_evs1 ex_engine"
  have slots: "engine_slots_ok ?e \<and> nothing_lost ?e \<and> en_worker_id ?e = 0"
    using engine_run_slots [of ex_engine ex_cfg ex_evs1] engine_init_slots [OF ex_pool_slots(1), of 0 ex_kv] ex_run_ok(1) ex_pool_owner
    by (simp add: ex_engine_def engine_init_def ex_evs1_def loses_nothing_def ex_gen_def)
  have state: "en_pending ?e = [] \<and> map fst (en_active ?e) = [0] \<and> en_pc ?e = Generating" by code_simp
  then have keys: "pending_keys ?e = {}" "active_keys ?e = {0}" by (simp_all flip: set_map)
  have "active_keys ?e \<subseteq> owned ?e" "owned ?e \<subseteq> pending_keys ?e \<union> active_keys ?e"
    using slots state by (simp_all add: engine_slots_ok_def active_owned_def nothing_lost_def)
  then have owned: "owned ?e = {0}" unfolding keys by blast
  have ok: "slot_pool_ok (en_pool ?e)" using slots by (simp add: engine_slots_ok_def slots_inv_def)
  have owner: "get_slot_owner s (en_pool ?e) = 0 \<longleftrightarrow> s = 0" for s
    using owned slots by (auto simp: owned_def)
  have "0 \<in> pool_slots (en_pool ?e)"
    using owner [of 0] by (auto simp: get_slot_owner_def pool_slots_def split: if_splits)
  then obtain p where p: "release_slot 0 0 (en_pool ?e) = Inr p"
    using pool.release_own [OF ok] owner by blast
  note gives = pool.release_gives [OF ok p]
  then have "get_slot_owner 0 p = -1" by (simp add: slot_pool_ok_def)
  then have "get_slot_owner s p \<noteq> 0" for s
    using gives owner [of s] by (cases "s = 0") auto
  then show ?thesis using p keys slots by (auto simp: engine_step_def owned_def)
qed

section \<open>Two workers at the aggregator\<close>

definition ex_register :: message where
  "ex_register = \<lparr>m_type = Some ''register'', m_secret = None, m_slot_request = None, m_worker_id = None, m_slot_id = None\<rparr>"

definition ex_claim :: "int \<Rightarrow> message" where
  "ex_claim w = \<lparr>m_type = Some ''slot_request'', m_secret = None, m_slot_request = Some ''claim'',
     m_worker_id = Some w, m_slot_id = None\<rparr>"

definition ex_aggregator :: agg_system where
  "ex_aggregator = agg_start [] 4 ex_pool"

text \<open>Two workers register and claim a slot each; then the connection of the second ends.\<close>

definition ex_agg_claims :: "agg_event list" where
  "ex_agg_claims = [Connect True (Received ex_register), Connect True (Received ex_register),
     Message 0 (ex_claim 0), Message 1 (ex_claim 1)]"

definition ex_agg_end :: "agg_event list" where
  "ex_agg_end = [Disconnect 1, Release_stale 1]"

definition ex_agg_all :: "agg_event list" where
  "ex_agg_all = ex_agg_claims @ ex_agg_end @ [Disconnect 0, Release_stale 0]"

lemma ex_agg_honest: "\<forall>ev \<in> set ex_agg_all. honest ev" "\<forall>ev \<in> set ex_agg_end. honest ev"
  by (simp_all add: ex_agg_all_def ex_agg_claims_def ex_agg_end_def honest_def ex_claim_def)

lemma ex_agg_closed: "as_conns (agg_run ex_agg_all ex_aggregator) = [(0, Closed), (1, Closed)]"
  by code_simp

lemma ex_agg_claims_result:
  "get_slot_owner 0 (ag_pool (as_agg (agg_run ex_agg_claims ex_aggregator))) = 0 \<and>
   get_slot_owner 1 (ag_pool (as_agg (agg_run ex_agg_claims ex_aggregator))) = 1"
  by code_simp

lemma ex_agg_claims_held: "sp_free (ag_pool (as_agg (agg_run ex_agg_claims ex_aggregator))) = zero_mask"
  by code_simp

end
