(* ===== verification/Text_Format.thy ===== *)
theory Text_Format
  imports Model_Config
begin

text \<open>
  The Python string functions the processes use to talk to each other on command lines
  and in text: \<open>str\<close> and \<open>int\<close> on decimal numbers, \<open>strip\<close>, \<open>split\<close>, \<open>join\<close> and
  \<open>in\<close>, on ASCII strings. The lemmas are their round trips.
\<close>

section \<open>Numbers\<close>

definition str_int :: "int \<Rightarrow> string" where
  "str_int n = (if n < 0 then CHR ''-'' # str_nat (nat (- n)) else str_nat (nat n))"

definition is_digit :: "char \<Rightarrow> bool" where
  "is_digit c \<longleftrightarrow> 48 \<le> (of_char c :: nat) \<and> (of_char c :: nat) \<le> 57"

definition digit_val :: "char \<Rightarrow> nat" where
  "digit_val c = of_char c - 48"

text \<open>Digits, with single underscores between them.\<close>

fun digits_from :: "nat \<Rightarrow> string \<Rightarrow> nat option" where
  "digits_from acc [] = Some acc"
| "digits_from acc (c # cs) =
     (if c = CHR ''_'' then (case cs of [] \<Rightarrow> None | d # ds \<Rightarrow> if is_digit d then digits_from acc cs else None)
      else if is_digit c then digits_from (10 * acc + digit_val c) cs
      else None)"

definition parse_nat :: "string \<Rightarrow> nat option" where
  "parse_nat s = (case s of [] \<Rightarrow> None | c # cs \<Rightarrow> if is_digit c then digits_from 0 s else None)"

definition is_space :: "char \<Rightarrow> bool" where
  "is_space c \<longleftrightarrow> (let n = of_char c :: nat in (9 \<le> n \<and> n \<le> 13) \<or> (28 \<le> n \<and> n \<le> 32))"

definition strip :: "string \<Rightarrow> string" where
  "strip s = rev (dropWhile is_space (rev (dropWhile is_space s)))"

text \<open>\<open>int(s)\<close>.\<close>

definition parse_int :: "string \<Rightarrow> py_error + int" where
  "parse_int s =
     (let t = strip s;
          r = (case t of
                 [] \<Rightarrow> None
               | c # cs \<Rightarrow>
                   if c = CHR ''-'' then map_option (\<lambda>n. - int n) (parse_nat cs)
                   else if c = CHR ''+'' then map_option int (parse_nat cs)
                   else map_option int (parse_nat t))
      in case r of None \<Rightarrow> Inl ValueError | Some n \<Rightarrow> Inr n)"

lemma digit_char_digit: "d < 10 \<Longrightarrow> is_digit (digit_char d) \<and> digit_val (digit_char d) = d"
  by (simp add: is_digit_def digit_val_def digit_char_def take_bit_eq_mod)

lemma str_nat_digits: "\<forall>c \<in> set (str_nat n). is_digit c"
proof (induction n rule: less_induct)
  case (less n)
  show ?case
  proof (cases "n < 10")
    case True
    then show ?thesis by (subst str_nat.simps) (simp add: digit_char_digit)
  next
    case False
    then have "n div 10 < n" by simp
    from less.IH [OF this] have "\<forall>c \<in> set (str_nat (n div 10)). is_digit c" .
    then show ?thesis using False by (subst str_nat.simps) (simp add: digit_char_digit)
  qed
qed

lemma digit_no_underscore: "is_digit c \<Longrightarrow> c \<noteq> CHR ''_'' \<and> c \<noteq> CHR ''-'' \<and> c \<noteq> CHR ''+'' \<and> \<not> is_space c"
  by (auto simp: is_digit_def is_space_def Let_def)

lemma digits_from_append:
  "\<forall>c \<in> set xs. is_digit c \<Longrightarrow>
   digits_from acc (xs @ ys) = digits_from (foldl (\<lambda>a c. 10 * a + digit_val c) acc xs) ys"
  by (induction xs arbitrary: acc) (auto dest: digit_no_underscore)

lemma digits_str_nat: "foldl (\<lambda>a c. 10 * a + digit_val c) 0 (str_nat n) = n"
proof (induction n rule: less_induct)
  case (less n)
  then show ?case by (subst str_nat.simps) (simp add: digit_char_digit)
qed

lemma parse_str_nat: "parse_nat (str_nat n) = Some n"
proof -
  obtain c cs where s: "str_nat n = c # cs" using str_nat_nonempty by (cases "str_nat n") auto
  have "is_digit c" using str_nat_digits [of n] s by simp
  moreover have "digits_from 0 (str_nat n @ []) = Some n"
    by (subst digits_from_append [OF str_nat_digits]) (simp add: digits_str_nat)
  ultimately show ?thesis by (simp add: parse_nat_def s)
qed

text \<open>A text without white space is left alone by \<open>strip\<close>.\<close>

lemma strip_id: "\<forall>c \<in> set s. \<not> is_space c \<Longrightarrow> strip s = s"
proof -
  have d: "dropWhile is_space t = t" if "\<forall>c \<in> set t. \<not> is_space c" for t
    using that by (cases t) auto
  show "\<forall>c \<in> set s. \<not> is_space c \<Longrightarrow> strip s = s" by (simp add: strip_def d)
qed

lemma str_int_chars: "c \<in> set (str_int n) \<Longrightarrow> is_digit c \<or> c = CHR ''-''"
  using str_nat_digits by (auto simp: str_int_def split: if_splits)

lemma str_int_no_space: "\<forall>c \<in> set (str_int n). \<not> is_space c"
  using str_int_chars digit_no_underscore by (fastforce simp: is_space_def)

lemma parse_str_int [simp]: "parse_int (str_int n) = Inr n"
proof (cases "n < 0")
  case True
  have "strip (str_int n) = str_int n" by (rule strip_id [OF str_int_no_space])
  then show ?thesis using True by (simp add: parse_int_def str_int_def parse_str_nat)
next
  case False
  have s: "strip (str_nat (nat n)) = str_nat (nat n)"
    using strip_id [OF str_int_no_space, of n] False by (simp add: str_int_def)
  obtain c cs where c: "str_nat (nat n) = c # cs" using str_nat_nonempty by (cases "str_nat (nat n)") auto
  then have "is_digit c" using str_nat_digits [of "nat n"] by simp
  then have "c \<noteq> CHR ''-''" "c \<noteq> CHR ''+''" using digit_no_underscore by blast+
  then have "parse_int (str_nat (nat n)) = Inr n"
    using parse_str_nat [of "nat n"] False by (simp add: parse_int_def s) (simp add: c)
  then show ?thesis using False by (simp add: str_int_def)
qed

lemma str_int_nonempty [simp]: "str_int n \<noteq> []"
  by (simp add: str_int_def str_nat_nonempty)

section \<open>Lists of entries\<close>

fun split_on :: "char \<Rightarrow> string \<Rightarrow> string list" where
  "split_on sep [] = [[]]"
| "split_on sep (c # cs) =
     (if c = sep then [] # split_on sep cs
      else case split_on sep cs of [] \<Rightarrow> [[c]] | x # xs \<Rightarrow> (c # x) # xs)"

fun join_with :: "string \<Rightarrow> string list \<Rightarrow> string" where
  "join_with sep [] = []"
| "join_with sep [x] = x"
| "join_with sep (x # y # ys) = x @ sep @ join_with sep (y # ys)"

fun contains :: "string \<Rightarrow> string \<Rightarrow> bool" where
  "contains sub [] = (sub = [])"
| "contains sub (c # cs) = (take (length sub) (c # cs) = sub \<or> contains sub cs)"

lemma split_on_single: "sep \<notin> set x \<Longrightarrow> split_on sep x = [x]"
  by (induction x) auto

lemma split_on_append: "sep \<notin> set x \<Longrightarrow> split_on sep (x @ sep # ys) = x # split_on sep ys"
  by (induction x) auto

lemma split_join: "xs \<noteq> [] \<Longrightarrow> \<forall>x \<in> set xs. sep \<notin> set x \<Longrightarrow> split_on sep (join_with [sep] xs) = xs"
proof (induction xs rule: induct_list012)
  case (3 x y zs)
  then show ?case by (simp add: split_on_append)
qed (simp_all add: split_on_single)

lemma join_chars: "c \<in> set (join_with sep xs) \<Longrightarrow> c \<in> set sep \<or> (\<exists>x \<in> set xs. c \<in> set x)"
  by (induction sep xs rule: join_with.induct) auto

lemma join_nonempty: "xs \<noteq> [] \<Longrightarrow> hd xs \<noteq> [] \<Longrightarrow> join_with sep xs \<noteq> []"
  by (induction sep xs rule: join_with.induct) auto

lemma contains_chars: "contains sub s \<Longrightarrow> set sub \<subseteq> set s"
proof (induction s)
  case (Cons c cs)
  then show ?case using set_take_subset [of "length sub" "c # cs"] by auto
qed simp

lemma contains_prefix: "contains sub (sub @ s)"
proof (cases "sub @ s")
  case (Cons c cs)
  have "take (length sub) (sub @ s) = sub" by simp
  then show ?thesis by (simp add: Cons)
qed simp

end
