(* ===== verification/Node_Launch.thy ===== *)
theory Node_Launch
  imports Text_Format Worker_Pool
begin

text \<open>
  How a node agent starts the local controller
  (\<open>src/src/controller/cluster/node_agent.py\<close>, \<open>_per_gpu_cap\<close>, \<open>_launch_controller\<close> and
  \<open>_detect_gpus\<close>) and what the controller makes of its command line (the main block of
  \<open>src/src/controller/controller.py\<close>). The command line is the record of what
  \<open>argparse\<close> hands to the controller; ports and delays pass through unchanged.
\<close>

section \<open>The GPUs of a node\<close>

record gpu_info =
  gp_name :: string
  gp_memory_total_mb :: int
  gp_memory_free_mb :: int
  gp_index :: int

text \<open>The output of \<open>nvidia-smi\<close>, one line per GPU; \<open>None\<close> is a failure of the command.\<close>

fun gpu_lines :: "string list \<Rightarrow> py_error + gpu_info list" where
  "gpu_lines [] = Inr []"
| "gpu_lines (line # lines) =
     (let parts = map strip (split_on CHR '','' line)
      in if length parts < 4 then gpu_lines lines
         else (case (parse_int (parts ! 1), parse_int (parts ! 2), parse_int (parts ! 3)) of
                 (Inr m, Inr f, Inr i) \<Rightarrow>
                   (case gpu_lines lines of
                      Inl e \<Rightarrow> Inl e
                    | Inr gs \<Rightarrow> Inr (\<lparr>gp_name = parts ! 0, gp_memory_total_mb = m, gp_memory_free_mb = f,
                                      gp_index = i\<rparr> # gs))
               | _ \<Rightarrow> Inl ValueError))"

definition detect_gpus :: "(int \<times> string) option \<Rightarrow> gpu_info list" where
  "detect_gpus result =
     (case result of
        None \<Rightarrow> []
      | Some (returncode, stdout) \<Rightarrow>
          if returncode \<noteq> 0 then []
          else (case gpu_lines (split_on (CHR 0x0A) (strip stdout)) of Inl e \<Rightarrow> [] | Inr gs \<Rightarrow> gs))"

section \<open>The command line of the agent\<close>

record agent_config =
  ac_max_workers :: int
  ac_single_aggregator :: bool
  ac_aggregator_tcp_port :: int
  ac_aggregator_health_port :: int
  ac_controller_port :: int
  ac_worker_base_port :: int
  ac_scheduler :: string
  ac_scale_down_delay :: pyfloat
  ac_use_fork :: bool

text \<open>The defaults of \<open>NodeAgentConfig\<close> that matter here.\<close>

definition default_agent_config :: agent_config where
  "default_agent_config =
     \<lparr>ac_max_workers = 1024, ac_single_aggregator = False, ac_aggregator_tcp_port = 50056,
      ac_aggregator_health_port = 8000, ac_controller_port = 8343, ac_worker_base_port = 5000,
      ac_scheduler = ''default'', ac_scale_down_delay = 5, ac_use_fork = True\<rparr>"

record controller_args =
  ca_port :: int
  ca_max_workers :: "int option"
  ca_base_port :: int
  ca_aggregator_port :: int
  ca_default_adapter :: adapter
  ca_min_workers :: int
  ca_scale_down_delay :: pyfloat
  ca_spawn_timeout :: pyfloat
  ca_worker_devices :: "string option"
  ca_scheduler :: string
  ca_no_fork :: bool
  ca_aggregator_port_map :: "string option"
  ca_aggregator_health_port_map :: "string option"
  ca_max_workers_per_gpu :: "string option"

definition device_name :: "int \<Rightarrow> string" where
  "device_name i = ''cuda:'' @ str_int i"

definition per_gpu_cap :: "agent_config \<Rightarrow> int \<Rightarrow> string" where
  "per_gpu_cap cfg num_gpus =
     (if \<not> ac_single_aggregator cfg \<or> num_gpus \<le> 1
      then str_int (ac_max_workers cfg div max num_gpus 1)
      else
        let gpu0_cap = min 10 (ac_max_workers cfg); gpu1_cap = ac_max_workers cfg - gpu0_cap
        in ''cuda:0:'' @ str_int gpu0_cap @ '',cuda:1:'' @ str_int gpu1_cap)"

text \<open>\<open>",".join(f"{i}:{port}" for i in range(num_gpus))\<close>.\<close>

definition port_map_string :: "(int \<Rightarrow> int) \<Rightarrow> int \<Rightarrow> string" where
  "port_map_string port num_gpus =
     join_with '','' (map (\<lambda>i. str_int i @ '':'' @ str_int (port i)) [0..num_gpus - 1])"

definition agent_port :: "agent_config \<Rightarrow> int \<Rightarrow> int \<Rightarrow> int" where
  "agent_port cfg base i = (if ac_single_aggregator cfg then base else base + i)"

text \<open>The arguments the agent does not pass have the defaults of the controller's parser.\<close>

definition launch_controller_args :: "agent_config \<Rightarrow> gpu_info list \<Rightarrow> controller_args" where
  "launch_controller_args cfg gpus =
     (let num_gpus = (if gpus \<noteq> [] then int (length gpus) else 1);
          devices = join_with '','' (map (\<lambda>g. device_name (gp_index g)) gpus)
      in \<lparr>ca_port = ac_controller_port cfg, ca_max_workers = Some (ac_max_workers cfg),
          ca_base_port = ac_worker_base_port cfg, ca_aggregator_port = ac_aggregator_tcp_port cfg,
          ca_default_adapter = None, ca_min_workers = 0, ca_scale_down_delay = ac_scale_down_delay cfg,
          ca_spawn_timeout = 180,
          ca_worker_devices = Some (if devices \<noteq> [] then devices else ''cuda:0''),
          ca_scheduler = ac_scheduler cfg, ca_no_fork = (\<not> ac_use_fork cfg),
          ca_aggregator_port_map =
            Some (port_map_string (agent_port cfg (ac_aggregator_tcp_port cfg)) num_gpus),
          ca_aggregator_health_port_map =
            Some (port_map_string (agent_port cfg (ac_aggregator_health_port cfg)) num_gpus),
          ca_max_workers_per_gpu = Some (per_gpu_cap cfg num_gpus)\<rparr>)"

section \<open>What the controller reads\<close>

text \<open>Both are truthy strings only; \<open>int(parts[2])\<close> needs three parts.\<close>

fun caps_entries :: "string list \<Rightarrow> (string, int) dict \<Rightarrow> py_error + (string, int) dict" where
  "caps_entries [] d = Inr d"
| "caps_entries (entry # entries) d =
     (let parts = split_on CHR '':'' (strip entry)
      in if length parts < 3 then Inl IndexError
         else (case parse_int (parts ! 2) of
                 Inl e \<Rightarrow> Inl e
               | Inr cap \<Rightarrow> caps_entries entries (AList.update (parts ! 0 @ '':'' @ parts ! 1) cap d)))"

definition parse_caps :: "int \<Rightarrow> string option \<Rightarrow> py_error + (string, int) dict \<times> int" where
  "parse_caps default_cap arg =
     (case arg of
        None \<Rightarrow> Inr ([], default_cap)
      | Some s \<Rightarrow>
          if s = [] then Inr ([], default_cap)
          else if contains ''cuda:'' s
          then (case caps_entries (split_on CHR '','' s) [] of Inl e \<Rightarrow> Inl e | Inr d \<Rightarrow> Inr (d, default_cap))
          else (case parse_int s of Inl e \<Rightarrow> Inl e | Inr n \<Rightarrow> Inr ([], n)))"

text \<open>A dictionary comprehension over the devices.\<close>

definition caps_for :: "(string \<Rightarrow> int) \<Rightarrow> string list \<Rightarrow> (string, int) dict" where
  "caps_for f devices = foldl (\<lambda>d dev. AList.update dev (f dev) d) [] devices"

definition worker_devices_and_caps ::
  "int list \<Rightarrow> int list \<Rightarrow> string option \<Rightarrow> (string, int) dict \<Rightarrow> int \<Rightarrow>
   string list \<times> (string, int) dict option" where
  "worker_devices_and_caps worker_gpus detected arg caps_map cap =
     (case arg of
        Some s \<Rightarrow>
          if s \<noteq> []
          then let devices = map strip (split_on CHR '','' s)
               in (devices, Some (caps_for (\<lambda>dev. if caps_map \<noteq> [] then dict_get caps_map dev cap else cap) devices))
          else if worker_gpus \<noteq> []
          then let devices = map device_name worker_gpus in (devices, Some (caps_for (\<lambda>_. cap) devices))
          else if detected \<noteq> []
          then let devices = map device_name detected in (devices, Some (caps_for (\<lambda>_. cap) devices))
          else ([''cuda:0''], None)
      | None \<Rightarrow>
          if worker_gpus \<noteq> []
          then let devices = map device_name worker_gpus in (devices, Some (caps_for (\<lambda>_. cap) devices))
          else if detected \<noteq> []
          then let devices = map device_name detected in (devices, Some (caps_for (\<lambda>_. cap) devices))
          else ([''cuda:0''], None))"

definition max_workers_of :: "int option \<Rightarrow> (string, int) dict option \<Rightarrow> int" where
  "max_workers_of arg caps =
     (let of_caps = (case caps of Some c \<Rightarrow> if c \<noteq> [] then sum_list (dict_values c) else 8 | None \<Rightarrow> 8)
      in case arg of None \<Rightarrow> of_caps | Some n \<Rightarrow> if n \<noteq> 0 then n else of_caps)"

text \<open>\<open>gpu_idx, port = entry.strip().split(":")\<close> needs exactly two parts.\<close>

fun port_entries :: "string list \<Rightarrow> (string, int) dict \<Rightarrow> py_error + (string, int) dict" where
  "port_entries [] d = Inr d"
| "port_entries (entry # entries) d =
     (case split_on CHR '':'' (strip entry) of
        [gpu_idx, port] \<Rightarrow>
          (case parse_int port of
             Inl e \<Rightarrow> Inl e
           | Inr p \<Rightarrow> port_entries entries (AList.update (''cuda:'' @ gpu_idx) p d))
      | _ \<Rightarrow> Inl ValueError)"

definition parse_port_map :: "string option \<Rightarrow> py_error + (string, int) dict option" where
  "parse_port_map arg =
     (case arg of
        None \<Rightarrow> Inr None
      | Some s \<Rightarrow>
          if s = [] then Inr None
          else (case port_entries (split_on CHR '','' s) [] of Inl e \<Rightarrow> Inl e | Inr d \<Rightarrow> Inr (Some d)))"

record controller_setup =
  cs_args :: lb_args
  cs_aggregator_port :: int
  cs_port_map :: "(string, int) dict option"
  cs_health_map :: "(string, int) dict option"

definition controller_main ::
  "int \<Rightarrow> int list \<Rightarrow> int list \<Rightarrow> (nat \<Rightarrow> nat) \<Rightarrow> controller_args \<Rightarrow> py_error + controller_setup" where
  "controller_main max_workers_per_gpu worker_gpus detected draws args =
     (case parse_caps max_workers_per_gpu (ca_max_workers_per_gpu args) of
        Inl e \<Rightarrow> Inl e
      | Inr (caps_map, cap) \<Rightarrow>
          let (devices, caps) = worker_devices_and_caps worker_gpus detected (ca_worker_devices args) caps_map cap;
              cfg = default_sched_config\<lparr>sc_spawn_timeout := ca_spawn_timeout args\<rparr>
          in (case create_scheduler (ca_scheduler args) cfg draws of
                Inl e \<Rightarrow> Inl e
              | Inr sch \<Rightarrow>
                  (case parse_port_map (ca_aggregator_port_map args) of
                     Inl e \<Rightarrow> Inl e
                   | Inr ports \<Rightarrow>
                       (case parse_port_map (ca_aggregator_health_port_map args) of
                          Inl e \<Rightarrow> Inl e
                        | Inr health \<Rightarrow>
                            Inr \<lparr>cs_args = \<lparr>la_max_workers = max_workers_of (ca_max_workers args) caps,
                                    la_base_port = ca_base_port args, la_default_adapter = ca_default_adapter args,
                                    la_min_workers = ca_min_workers args,
                                    la_scale_down_delay = ca_scale_down_delay args,
                                    la_worker_devices = devices, la_scheduler = Some sch,
                                    la_scheduler_config = Some cfg, la_gpu_worker_caps = caps\<rparr>,
                                 cs_aggregator_port = ca_aggregator_port args,
                                 cs_port_map = ports, cs_health_map = health\<rparr>))))"

text \<open>The aggregator a worker on a device connects to (\<open>_launch_worker_process\<close>).\<close>

definition worker_aggregator_port :: "controller_setup \<Rightarrow> string \<Rightarrow> int" where
  "worker_aggregator_port cs device =
     (case cs_port_map cs of
        None \<Rightarrow> cs_aggregator_port cs
      | Some m \<Rightarrow> dict_get m device (cs_aggregator_port cs))"

section \<open>The plan arrives\<close>

lemma str_int_inj [simp]: "str_int m = str_int n \<longleftrightarrow> m = n"
  by (metis parse_str_int sum.inject(2))

lemma device_name_inj [simp]: "device_name i = device_name j \<longleftrightarrow> i = j"
  by (simp add: device_name_def)

lemma str_int_plain: "c \<in> set (str_int n) \<Longrightarrow> c \<noteq> CHR '','' \<and> c \<noteq> CHR '':'' \<and> c \<noteq> CHR ''c'' \<and> \<not> is_space c"
  using str_int_chars [of c n] by (auto simp: is_digit_def is_space_def Let_def)

lemma device_name_plain: "c \<in> set (device_name n) \<Longrightarrow> c \<noteq> CHR '','' \<and> \<not> is_space c"
  using str_int_plain by (auto simp: device_name_def is_space_def)

lemma strip_device_name [simp]: "strip (device_name n) = device_name n"
  using device_name_plain by (intro strip_id) blast

lemma devices_read:
  assumes "is \<noteq> []"
  shows "join_with '','' (map device_name is) \<noteq> []"
    and "map strip (split_on CHR '','' (join_with '','' (map device_name is))) = map device_name is"
proof -
  show "join_with '','' (map device_name is) \<noteq> []"
    using assms by (intro join_nonempty) (simp_all add: hd_map device_name_def)
  have "split_on CHR '','' (join_with '','' (map device_name is)) = map device_name is"
    using assms device_name_plain by (intro split_join) auto
  then show "map strip (split_on CHR '','' (join_with '','' (map device_name is))) = map device_name is"
    by simp
qed

lemma caps_for_eq: "distinct devices \<Longrightarrow> caps_for f devices = map (\<lambda>d. (d, f d)) devices"
proof -
  have "distinct devices \<Longrightarrow> set devices \<inter> set (dict_keys d0) = {} \<Longrightarrow>
      foldl (\<lambda>d dev. AList.update dev (f dev) d) d0 devices = d0 @ map (\<lambda>d. (d, f d)) devices" for d0
    by (induction devices arbitrary: d0) (auto simp: update_fresh)
  from this [of "[]"] show "distinct devices \<Longrightarrow> caps_for f devices = map (\<lambda>d. (d, f d)) devices"
    by (simp add: caps_for_def)
qed

text \<open>The cap strings.\<close>

lemma no_cuda_in_int: "\<not> contains ''cuda:'' (str_int n)"
  using contains_chars [of "''cuda:''" "str_int n"] str_int_plain [of "CHR ''c''" n] by auto

lemma uniform_caps_read: "parse_caps m (Some (str_int n)) = Inr ([], n)"
  by (simp add: parse_caps_def no_cuda_in_int)

lemma cap_entry_read:
  "split_on CHR '':'' (strip (''cuda:0:'' @ str_int n)) = [''cuda'', ''0'', str_int n]"
  "split_on CHR '':'' (strip (''cuda:1:'' @ str_int n)) = [''cuda'', ''1'', str_int n]"
proof -
  have s: "strip (''cuda:0:'' @ str_int n) = ''cuda:0:'' @ str_int n"
      "strip (''cuda:1:'' @ str_int n) = ''cuda:1:'' @ str_int n"
    using str_int_plain by (intro strip_id; auto simp: is_space_def)+
  have "split_on CHR '':'' (str_int n) = [str_int n]" using str_int_plain by (intro split_on_single) blast
  then show "split_on CHR '':'' (strip (''cuda:0:'' @ str_int n)) = [''cuda'', ''0'', str_int n]"
    "split_on CHR '':'' (strip (''cuda:1:'' @ str_int n)) = [''cuda'', ''1'', str_int n]"
    unfolding s by simp_all
qed

lemma device_name_01: "''cuda:0'' = device_name 0" "''cuda:1'' = device_name 1"
  by code_simp+

lemma split_caps_read:
  "parse_caps m (Some (''cuda:0:'' @ str_int a @ '',cuda:1:'' @ str_int b)) =
     Inr ([(device_name 0, a), (device_name 1, b)], m)"
proof -
  let ?x = "''cuda:0:'' @ str_int a" and ?y = "''cuda:1:'' @ str_int b"
  have plain: "CHR '','' \<notin> set ?x" "CHR '','' \<notin> set ?y" using str_int_plain by auto
  have s: "''cuda:0:'' @ str_int a @ '',cuda:1:'' @ str_int b = ?x @ CHR '','' # ?y" by simp
  have "split_on CHR '','' (?x @ CHR '','' # ?y) = [?x, ?y]"
    unfolding split_on_append [OF plain(1)] split_on_single [OF plain(2)] by simp
  moreover have "caps_entries [?x, ?y] [] = Inr [(device_name 0, a), (device_name 1, b)]"
    unfolding caps_entries.simps cap_entry_read Let_def
    by (simp add: device_name_01 [symmetric])
  moreover have "contains ''cuda:'' (?x @ CHR '','' # ?y)"
    using contains_prefix [of "''cuda:''"] by simp
  ultimately show ?thesis unfolding s parse_caps_def by simp
qed

text \<open>The port maps.\<close>

lemma port_entry_read:
  "split_on CHR '':'' (strip (str_int i @ '':'' @ str_int p)) = [str_int i, str_int p]"
proof -
  have s: "strip (str_int i @ '':'' @ str_int p) = str_int i @ CHR '':'' # str_int p"
    using str_int_plain by (subst strip_id) (auto simp: is_space_def)
  have plain: "CHR '':'' \<notin> set (str_int n)" for n using str_int_plain by blast
  show ?thesis unfolding s split_on_append [OF plain] split_on_single [OF plain] by simp
qed

lemma port_entries_read:
  "distinct is \<Longrightarrow> \<forall>i \<in> set is. device_name i \<notin> set (dict_keys d) \<Longrightarrow>
   port_entries (map (\<lambda>i. str_int i @ '':'' @ str_int (port i)) is) d =
     Inr (d @ map (\<lambda>i. (device_name i, port i)) is)"
proof (induction "is" arbitrary: d)
  case (Cons i "is")
  have u: "AList.update (''cuda:'' @ str_int i) (port i) d = d @ [(device_name i, port i)]"
    using Cons.prems by (simp only: device_name_def [symmetric]) (simp add: update_fresh)
  have "\<forall>j \<in> set is. device_name j \<notin> set (dict_keys (d @ [(device_name i, port i)]))"
    using Cons.prems by auto
  then have "port_entries (map (\<lambda>i. str_int i @ '':'' @ str_int (port i)) is) (d @ [(device_name i, port i)]) =
      Inr ((d @ [(device_name i, port i)]) @ map (\<lambda>i. (device_name i, port i)) is)"
    using Cons.IH Cons.prems(1) by simp
  then show ?case
    using u port_entry_read [of i "port i"] by simp
qed simp

lemma port_map_read:
  assumes "0 < n"
  shows "parse_port_map (Some (port_map_string port n)) =
    Inr (Some (map (\<lambda>i. (device_name i, port i)) [0..n - 1]))"
proof -
  let ?es = "map (\<lambda>i. str_int i @ '':'' @ str_int (port i)) [0..n - 1]"
  have ne: "?es \<noteq> []" using assms by simp
  have "CHR '','' \<notin> set (str_int i @ '':'' @ str_int (port i))" for i using str_int_plain by auto
  then have "split_on CHR '','' (join_with '','' ?es) = ?es" using ne by (intro split_join) auto
  moreover have "join_with '','' ?es \<noteq> []"
    using ne by (intro join_nonempty) (simp_all add: hd_map)
  moreover have "port_entries ?es [] = Inr (map (\<lambda>i. (device_name i, port i)) [0..n - 1])"
    using port_entries_read [of "[0..n - 1]" "[]" port] by simp
  ultimately show ?thesis by (simp add: parse_port_map_def port_map_string_def)
qed

lemma map_of_ports: "0 \<le> i \<Longrightarrow> i < n \<Longrightarrow> map_of (map (\<lambda>i. (device_name i, port i)) [0..n - 1]) (device_name i) = Some (port i)"
  by (rule map_of_is_SomeI) (auto simp: distinct_map inj_on_def comp_def)

text \<open>The cap of the GPU with an index, as the controller will see it.\<close>

definition planned_cap :: "agent_config \<Rightarrow> int \<Rightarrow> int \<Rightarrow> int \<Rightarrow> int" where
  "planned_cap cfg default_cap n i =
     (if \<not> ac_single_aggregator cfg \<or> n \<le> 1 then ac_max_workers cfg div n
      else if i = 0 then min 10 (ac_max_workers cfg)
      else if i = 1 then ac_max_workers cfg - min 10 (ac_max_workers cfg)
      else default_cap)"

lemma caps_read:
  assumes "gpus \<noteq> []" "n = int (length gpus)" "distinct (map gp_index gpus)"
  shows "\<exists>caps_map cap. parse_caps m (Some (per_gpu_cap cfg n)) = Inr (caps_map, cap) \<and>
    worker_devices_and_caps ws det (Some (join_with '','' (map (\<lambda>g. device_name (gp_index g)) gpus))) caps_map cap =
      (map (\<lambda>g. device_name (gp_index g)) gpus,
       Some (map (\<lambda>g. (device_name (gp_index g), planned_cap cfg m n (gp_index g))) gpus))"
proof -
  let ?ds = "map device_name (map gp_index gpus)"
  have n: "1 \<le> n" using assms by (cases gpus) auto
  note r = devices_read [of "map gp_index gpus"]
  have d: "distinct ?ds" using assms(3) by (simp add: distinct_map inj_on_def)
  have dev: "worker_devices_and_caps ws det (Some (join_with '','' ?ds)) cm c =
      (?ds, Some (map (\<lambda>d. (d, if cm \<noteq> [] then dict_get cm d c else c)) ?ds))" for cm c
    using r assms(1) d by (simp add: worker_devices_and_caps_def Let_def caps_for_eq del: map_map)
  show ?thesis
  proof (cases "\<not> ac_single_aggregator cfg \<or> n \<le> 1")
    case True
    then have "per_gpu_cap cfg n = str_int (ac_max_workers cfg div n)" using n by (simp add: per_gpu_cap_def)
    then show ?thesis using dev [of "[]" "ac_max_workers cfg div n"] True n
      by (simp add: uniform_caps_read planned_cap_def comp_def)
  next
    case False
    let ?a = "min 10 (ac_max_workers cfg)" and ?b = "ac_max_workers cfg - min 10 (ac_max_workers cfg)"
    have "per_gpu_cap cfg n = ''cuda:0:'' @ str_int ?a @ '',cuda:1:'' @ str_int ?b"
      using False by (simp add: per_gpu_cap_def Let_def)
    then have p: "parse_caps m (Some (per_gpu_cap cfg n)) = Inr ([(device_name 0, ?a), (device_name 1, ?b)], m)"
      by (simp only: split_caps_read)
    have "dict_get [(device_name 0, ?a), (device_name 1, ?b)] (device_name i) m = planned_cap cfg m n i" for i
      using False by (simp add: dict_get_def planned_cap_def)
    then show ?thesis using p dev [of "[(device_name 0, ?a), (device_name 1, ?b)]" m]
      by (simp add: comp_def)
  qed
qed

lemma controller_reads_plan:
  assumes "gpus \<noteq> []" "n = int (length gpus)" "distinct (map gp_index gpus)" "ac_max_workers cfg \<noteq> 0"
    and "ac_scheduler cfg \<in> {''lorant'', ''noswap'', ''random''}"
  shows "\<exists>cs. controller_main m ws det draws (launch_controller_args cfg gpus) = Inr cs \<and>
    la_max_workers (cs_args cs) = ac_max_workers cfg \<and> la_base_port (cs_args cs) = ac_worker_base_port cfg \<and>
    la_scale_down_delay (cs_args cs) = ac_scale_down_delay cfg \<and>
    la_worker_devices (cs_args cs) = map (\<lambda>g. device_name (gp_index g)) gpus \<and>
    la_gpu_worker_caps (cs_args cs) =
      Some (map (\<lambda>g. (device_name (gp_index g), planned_cap cfg m n (gp_index g))) gpus) \<and>
    (\<forall>i. 0 \<le> i \<and> i < n \<longrightarrow>
      worker_aggregator_port cs (device_name i) = agent_port cfg (ac_aggregator_tcp_port cfg) i)"
proof -
  let ?ds = "join_with '','' (map (\<lambda>g. device_name (gp_index g)) gpus)"
  have n: "0 < n" using assms(1,2) by simp
  obtain cm c where c: "parse_caps m (Some (per_gpu_cap cfg n)) = Inr (cm, c)"
    "worker_devices_and_caps ws det (Some ?ds) cm c = (map (\<lambda>g. device_name (gp_index g)) gpus,
       Some (map (\<lambda>g. (device_name (gp_index g), planned_cap cfg m n (gp_index g))) gpus))"
    using caps_read [OF assms(1-3)] by blast
  have ds: "?ds \<noteq> []" using devices_read(1) [of "map gp_index gpus"] assms(1) by (simp add: comp_def)
  obtain sch where s: "create_scheduler (ac_scheduler cfg) (default_sched_config\<lparr>sc_spawn_timeout := 180\<rparr>) draws = Inr sch"
    using assms(5) by (auto simp: create_scheduler_def)
  show ?thesis
    unfolding controller_main_def launch_controller_args_def Let_def
    using assms(1,4) n ds
    by (simp add: assms(2) [symmetric] c s port_map_read max_workers_of_def worker_aggregator_port_def map_of_ports)
qed

text \<open>The scheduler the agent passes by default is not one the controller knows.\<close>

lemma unknown_scheduler_fails:
  assumes "gpus \<noteq> []" "distinct (map gp_index gpus)" "ac_scheduler cfg \<notin> {''lorant'', ''noswap'', ''random''}"
  shows "controller_main m ws det draws (launch_controller_args cfg gpus) = Inl ValueError"
proof -
  let ?n = "int (length gpus)"
  obtain cm c r where "parse_caps m (Some (per_gpu_cap cfg ?n)) = Inr (cm, c)"
    using caps_read [OF assms(1) refl assms(2)] by blast
  then show ?thesis using assms
    by (simp add: controller_main_def launch_controller_args_def Let_def create_scheduler_def split: prod.split)
qed

end
