(* ===== verification/Node_Agent.thy ===== *)
theory Node_Agent
  imports Node_Launch Global_Controller
begin

text \<open>
  \<open>src/src/controller/cluster/node_agent.py\<close>, the agent of a node: it launches, stops and
  supervises the aggregator and the local controller as child processes, and reports to
  the global controller. The children that are alive are a set of process ids; whether a
  start fails, a process dies, becomes ready or survives a signal is an input. Each
  handler is one step, from its first line to its last; the process monitor is cut where it
  sleeps before a restart, so the handlers and the exits of processes interleave with its
  backoff. \<open>Agent_Races\<close> cuts the handlers at their awaits.
\<close>

section \<open>Processes\<close>

datatype monitor_pc = Check_aggregator | Restart_aggregator | Check_controller | Restart_controller

record node_agent =
  na_alive :: "int pyset"
  na_next_pid :: int
  na_aggregator :: "int option"
  na_controller :: "int option"
  na_base_model :: "string option"
  na_model_id :: "string option"
  na_monitor :: monitor_pc
  na_agg_failures :: nat
  na_ctrl_failures :: nat

definition node_agent_init :: node_agent where
  "node_agent_init = \<lparr>na_alive = [], na_next_pid = 1, na_aggregator = None, na_controller = None,
     na_base_model = None, na_model_id = None, na_monitor = Check_aggregator,
     na_agg_failures = 0, na_ctrl_failures = 0\<rparr>"

text \<open>\<open>process.poll() is None\<close>.\<close>

definition alive :: "int option \<Rightarrow> node_agent \<Rightarrow> bool" where
  "alive process a = (case process of None \<Rightarrow> False | Some pid \<Rightarrow> pid \<in> set (na_alive a))"

definition is_aggregator_running :: "node_agent \<Rightarrow> bool" where
  "is_aggregator_running a = alive (na_aggregator a) a"

definition is_controller_running :: "node_agent \<Rightarrow> bool" where
  "is_controller_running a = alive (na_controller a) a"

definition process_exit :: "int \<Rightarrow> node_agent \<Rightarrow> node_agent" where
  "process_exit pid a = a\<lparr>na_alive := set_discard pid (na_alive a)\<rparr>"

definition popen :: "node_agent \<Rightarrow> int \<times> node_agent" where
  "popen a = (na_next_pid a, a\<lparr>na_alive := set_add (na_next_pid a) (na_alive a), na_next_pid := na_next_pid a + 1\<rparr>)"

datatype stop_outcome = Terminated | Killed | Survived

definition stop_process :: "int \<Rightarrow> bool \<Rightarrow> stop_outcome \<Rightarrow> node_agent \<Rightarrow> bool \<times> node_agent" where
  "stop_process pid graceful out a =
     (if \<not> alive (Some pid) a then (True, a)
      else if graceful \<and> out = Terminated then (True, process_exit pid a)
      else if out = Survived then (True, a)
      else (True, process_exit pid a))"

definition kill_process :: "int option \<Rightarrow> stop_outcome \<Rightarrow> node_agent \<Rightarrow> node_agent" where
  "kill_process process out a =
     (if alive process a \<and> out \<noteq> Survived then process_exit (the process) a else a)"

definition stop_aggregator ::
  "bool \<Rightarrow> stop_outcome \<Rightarrow> stop_outcome \<Rightarrow> node_agent \<Rightarrow> (bool \<times> bool) \<times> node_agent" where
  "stop_aggregator graceful out_controller out_aggregator a =
     (let (c, a1) = (case na_controller a of
                       None \<Rightarrow> (False, a)
                     | Some pid \<Rightarrow> map_prod id (na_controller_update (\<lambda>_. None)) (stop_process pid graceful out_controller a));
          (g, a2) = (case na_aggregator a1 of
                       None \<Rightarrow> (False, a1)
                     | Some pid \<Rightarrow> map_prod id (na_aggregator_update (\<lambda>_. None)) (stop_process pid graceful out_aggregator a1))
      in ((g, c), a2))"

text \<open>\<open>_launch_controller\<close>: whether it raised (the process could not be started).\<close>

definition launch_controller :: "bool \<Rightarrow> node_agent \<Rightarrow> bool \<times> node_agent" where
  "launch_controller popen_ok a =
     (if is_controller_running a then (False, a)
      else if \<not> popen_ok then (True, a)
      else let (pid, a1) = popen a in (False, a1\<lparr>na_controller := Some pid\<rparr>))"

record launch_input =
  li_stop_controller :: stop_outcome
  li_stop_aggregator :: stop_outcome
  li_popen_ok :: bool
  li_exits :: bool
  li_ready :: bool
  li_controller_ok :: bool
  li_kill :: stop_outcome

record launch_response =
  lr_success :: bool
  lr_aggregator_pid :: "int option"
  lr_base_model :: "string option"

definition launch_failed :: launch_response where
  "launch_failed = \<lparr>lr_success = False, lr_aggregator_pid = None, lr_base_model = None\<rparr>"

definition launch_aggregator ::
  "launch_input \<Rightarrow> bool \<Rightarrow> string option \<Rightarrow> string option \<Rightarrow> node_agent \<Rightarrow> launch_response \<times> node_agent" where
  "launch_aggregator inp force base_model model_id a =
     (if is_aggregator_running a \<and> \<not> force
      then (\<lparr>lr_success = True, lr_aggregator_pid = na_aggregator a, lr_base_model = na_base_model a\<rparr>, a)
      else
        let a0 = (if is_aggregator_running a
                  then snd (stop_aggregator True (li_stop_controller inp) (li_stop_aggregator inp) a) else a);
            a1 = a0\<lparr>na_base_model := base_model, na_model_id := model_id\<rparr>
        in if \<not> li_popen_ok inp then (launch_failed, a1)
           else
             let (pid, a2) = popen a1;
                 a3 = a2\<lparr>na_aggregator := Some pid\<rparr>;
                 a4 = (if li_exits inp then process_exit pid a3 else a3)
             in if is_aggregator_running a4 \<and> li_ready inp
                then (case launch_controller (li_controller_ok inp) a4 of
                        (True, a5) \<Rightarrow> (launch_failed, a5)
                      | (False, a5) \<Rightarrow>
                          (\<lparr>lr_success = True, lr_aggregator_pid = na_aggregator a5, lr_base_model = base_model\<rparr>, a5))
                else (launch_failed,
                      (kill_process (na_aggregator a4) (li_kill inp) a4)
                        \<lparr>na_aggregator := None, na_base_model := None, na_model_id := None\<rparr>))"

section \<open>The monitor\<close>

definition restart_backoff :: "nat \<Rightarrow> pyfloat \<Rightarrow> pyfloat" where
  "restart_backoff failures cap = min (5 * 2 ^ (failures - 1)) cap"

text \<open>
  The loop of \<open>_process_monitor_loop\<close>, from one sleep to the next: the result is the time
  it sleeps, or \<open>None\<close> when it goes on at once.
\<close>

definition monitor_step :: "launch_input \<Rightarrow> node_agent \<Rightarrow> pyfloat option \<times> node_agent" where
  "monitor_step inp a =
     (case na_monitor a of
        Check_aggregator \<Rightarrow>
          if na_aggregator a \<noteq> None \<and> \<not> is_aggregator_running a
          then let a1 = a\<lparr>na_agg_failures := na_agg_failures a + 1, na_aggregator := None\<rparr>
               in if 5 < na_agg_failures a1 then (None, a1\<lparr>na_monitor := Check_controller\<rparr>)
                  else (Some (restart_backoff (na_agg_failures a1) 120), a1\<lparr>na_monitor := Restart_aggregator\<rparr>)
          else (None, a\<lparr>na_monitor := Check_controller\<rparr>)
      | Restart_aggregator \<Rightarrow>
          (None, (snd (launch_aggregator inp False (na_base_model a) (na_model_id a) a))
                   \<lparr>na_agg_failures := 0, na_monitor := Check_controller\<rparr>)
      | Check_controller \<Rightarrow>
          if na_controller a \<noteq> None \<and> \<not> is_controller_running a
          then let a1 = a\<lparr>na_ctrl_failures := na_ctrl_failures a + 1, na_controller := None\<rparr>
               in if 5 < na_ctrl_failures a1 then (Some 5, a1\<lparr>na_monitor := Check_aggregator\<rparr>)
                  else (Some (restart_backoff (na_ctrl_failures a1) 60), a1\<lparr>na_monitor := Restart_controller\<rparr>)
          else (Some 5, a\<lparr>na_monitor := Check_aggregator\<rparr>)
      | Restart_controller \<Rightarrow>
          (case launch_controller (li_controller_ok inp) a of
             (True, a1) \<Rightarrow> (Some 5, a1\<lparr>na_monitor := Check_aggregator\<rparr>)
           | (False, a1) \<Rightarrow> (Some 5, a1\<lparr>na_ctrl_failures := 0, na_monitor := Check_aggregator\<rparr>)))"

datatype agent_event =
    Process_exit int
  | Launch launch_input bool "string option" "string option"
  | Stop bool stop_outcome stop_outcome
  | Monitor launch_input

definition agent_step :: "agent_event \<Rightarrow> node_agent \<Rightarrow> node_agent" where
  "agent_step ev a =
     (case ev of
        Process_exit pid \<Rightarrow> process_exit pid a
      | Launch inp force base_model model_id \<Rightarrow> snd (launch_aggregator inp force base_model model_id a)
      | Stop graceful oc oa \<Rightarrow> snd (stop_aggregator graceful oc oa a)
      | Monitor inp \<Rightarrow> snd (monitor_step inp a))"

definition agent_run :: "agent_event list \<Rightarrow> node_agent \<Rightarrow> node_agent" where
  "agent_run evs a = foldl (\<lambda>a ev. agent_step ev a) a evs"

section \<open>Status and heartbeat\<close>

record node_report =
  nr_status :: string
  nr_aggregator_running :: bool
  nr_aggregator_pid :: "int option"
  nr_base_model :: "string option"
  nr_controller_running :: bool
  nr_active_workers :: int
  nr_total_workers :: int
  nr_free_workers :: int
  nr_queue_depth :: int
  nr_loaded_adapters :: "string list"
  nr_node_metrics :: "(string, pyfloat) dict option"

text \<open>
  What the local controller answers: \<open>/workers\<close> (nothing when it cannot be reached) and
  \<open>/node_metrics\<close>.
\<close>

definition get_status ::
  "(worker_row list \<times> int) option \<Rightarrow> (string, pyfloat) dict option \<Rightarrow> node_agent \<Rightarrow> node_report" where
  "get_status workers metrics a =
     (let status = (if is_aggregator_running a \<and> is_controller_running a then ''active''
                    else if is_aggregator_running a then ''starting'' else ''idle'');
          (rows, queue_depth) = (if is_controller_running a
                                 then (case workers of None \<Rightarrow> ([], 0) | Some r \<Rightarrow> r) else ([], 0));
          ready = filter (\<lambda>w. wr_status w = ''ready'') rows;
          active = int (length (filter (\<lambda>w. 0 < wr_active_requests w) ready))
      in \<lparr>nr_status = status, nr_aggregator_running = is_aggregator_running a,
          nr_aggregator_pid = na_aggregator a, nr_base_model = na_base_model a,
          nr_controller_running = is_controller_running a, nr_active_workers = active,
          nr_total_workers = int (length ready), nr_free_workers = int (length ready) - active,
          nr_queue_depth = queue_depth,
          nr_loaded_adapters = remdups (map (\<lambda>w. the (wr_adapter_id w)) (filter (\<lambda>w. truthy (wr_adapter_id w)) ready)),
          nr_node_metrics = (if is_controller_running a then metrics else None)\<rparr>)"

record agent_identity =
  ai_node_id :: string
  ai_host :: string
  ai_port :: int
  ai_register_host :: string
  ai_register_port :: int
  ai_gpu_type :: string
  ai_gpu_memory_gb :: pyfloat

definition auto_detect_gpu :: "gpu_info list \<Rightarrow> agent_identity \<Rightarrow> agent_identity" where
  "auto_detect_gpu gpus idn =
     (case gpus of
        [] \<Rightarrow> idn
      | g # _ \<Rightarrow>
          let i1 = (if ai_gpu_type idn = ''unknown'' then idn\<lparr>ai_gpu_type := gp_name g\<rparr> else idn)
          in if ai_gpu_memory_gb i1 = 0
             then i1\<lparr>ai_gpu_memory_gb := of_int (gp_memory_total_mb g) / 1024\<rparr> else i1)"

definition registration :: "agent_identity \<Rightarrow> agent_config \<Rightarrow> gpu_info list \<Rightarrow> string \<Rightarrow> node_spec" where
  "registration idn cfg gpus external_ip =
     \<lparr>ns_host = (if ai_register_host idn \<noteq> [] then ai_register_host idn
                 else if ai_host idn \<noteq> ''0.0.0.0'' then ai_host idn else external_ip),
      ns_port = (if ai_register_port idn \<noteq> 0 then ai_register_port idn else ai_port idn),
      ns_gpu_type = ai_gpu_type idn, ns_gpu_memory_gb = ai_gpu_memory_gb idn,
      ns_num_gpus = int (length gpus), ns_max_workers = ac_max_workers cfg\<rparr>"

definition heartbeat_of :: "agent_identity \<Rightarrow> agent_config \<Rightarrow> gpu_info list \<Rightarrow> node_report \<Rightarrow> heartbeat" where
  "heartbeat_of idn cfg gpus st =
     \<lparr>hb_active_workers = nr_active_workers st, hb_loaded_adapters = nr_loaded_adapters st,
      hb_aggregator_pid = nr_aggregator_pid st, hb_max_workers = Some (ac_max_workers cfg),
      hb_num_gpus = Some (int (length gpus)), hb_gpu_type = Some (ai_gpu_type idn),
      hb_node_metrics = nr_node_metrics st, hb_total_workers = nr_total_workers st,
      hb_free_workers = nr_free_workers st, hb_queue_depth = nr_queue_depth st\<rparr>"

text \<open>What \<open>GET /workers\<close> of the local controller answers (\<open>list_workers\<close>).\<close>

definition list_workers :: "pyfloat \<Rightarrow> 'r load_balancer \<Rightarrow> worker_row list \<times> int" where
  "list_workers now lb = (get_workers now lb, st_queue_depth (lb_stats_of lb))"

text \<open>
  One heartbeat from the agent to the global controller, with the local controller's pool
  as the agent reads it. A post that does not reach the endpoint is logged and changes
  nothing; the answer is not read beyond its status, which is only logged.
\<close>

definition send_heartbeat ::
  "pyfloat \<Rightarrow> agent_identity \<Rightarrow> agent_config \<Rightarrow> gpu_info list \<Rightarrow> (worker_row list \<times> int) option \<Rightarrow>
   (string, pyfloat) dict option \<Rightarrow> bool \<Rightarrow> node_agent \<Rightarrow> 'r controller \<Rightarrow> 'r controller" where
  "send_heartbeat now idn cfg gpus workers metrics delivered a s =
     (let st = get_status workers metrics a
      in if delivered
         then node_heartbeat_endpoint now (ai_node_id idn) (nr_status st) (heartbeat_of idn cfg gpus st) (na_base_model a) s
         else s)"

section \<open>Forwarding\<close>

text \<open>
  One attempt to post to the local controller: a reply, a status other than 200, a body
  that is not JSON, or an exception of the client. The first failures are raised as
  \<open>HTTPException\<close>, which has no attribute \<open>status\<close>: the classifier does not see the code.
\<close>

datatype 'a post_result = Post_ok 'a | Post_status int | Post_bad_json | Post_exn exn

definition do_forward :: "'a post_result \<Rightarrow> exn + 'a" where
  "do_forward r =
     (case r of
        Post_ok v \<Rightarrow> Inr v
      | Post_status status \<Rightarrow> Inl (HTTPException status)
      | Post_bad_json \<Rightarrow> Inl (HTTPException 502)
      | Post_exn e \<Rightarrow> Inl e)"

definition forward_retry_config :: retry_config where
  "forward_retry_config = default_retry_config\<lparr>rc_max_attempts := 2, rc_base_delay := 1/10\<rparr>"

text \<open>\<open>except HTTPException: raise\<close>, anything else becomes a 502.\<close>

definition reraise :: "exn \<Rightarrow> int" where
  "reraise e = (case e of HTTPException status \<Rightarrow> status | _ \<Rightarrow> 502)"

definition forward_to_controller ::
  "(nat \<Rightarrow> pyfloat) \<Rightarrow> (nat \<Rightarrow> 'a post_result) \<Rightarrow> node_agent \<Rightarrow> (int + 'a) \<times> pyfloat list" where
  "forward_to_controller rnd posts a =
     (if \<not> is_controller_running a then (Inl 503, [])
      else case retry_execute forward_retry_config classify_error rnd (\<lambda>n. do_forward (posts n)) of
             (Inr v, ds) \<Rightarrow> (Inr v, ds)
           | (Inl e, ds) \<Rightarrow> (Inl (reraise e), ds))"

end
