(* ===== verification/Node_Agent_Inv.thy ===== *)
theory Node_Agent_Inv
  imports Node_Agent Registry_Inv Pool_Inv
begin

text \<open>
  What holds of a node agent: every living child process is one it still has a handle on,
  as long as processes die when killed; the restarts of the aggregator are never given
  up; and a heartbeat carries the state of the local pool into the global registry.
\<close>

section \<open>Children and handles\<close>

definition children :: "node_agent \<Rightarrow> int set" where
  "children a = {p. na_aggregator a = Some p \<or> na_controller a = Some p}"

text \<open>At rest; the failure count is the monitor's own and is left out.\<close>

definition handles_ok :: "node_agent \<Rightarrow> bool" where
  "handles_ok a \<longleftrightarrow> set (na_alive a) \<subseteq> children a \<and> (\<forall>p \<in> children a. p < na_next_pid a) \<and>
     (na_aggregator a \<noteq> None \<longrightarrow> na_aggregator a \<noteq> na_controller a)"

definition failures_ok :: "node_agent \<Rightarrow> bool" where
  "failures_ok a \<longleftrightarrow> na_agg_failures a = (if na_monitor a = Restart_aggregator then 1 else 0)"

text \<open>Every process that is killed dies.\<close>

definition clean :: "agent_event \<Rightarrow> bool" where
  "clean ev =
     (case ev of
        Process_exit pid \<Rightarrow> True
      | Launch inp force b m \<Rightarrow>
          li_stop_controller inp \<noteq> Survived \<and> li_stop_aggregator inp \<noteq> Survived \<and> li_kill inp \<noteq> Survived
      | Stop graceful oc oa \<Rightarrow> oc \<noteq> Survived \<and> oa \<noteq> Survived
      | Monitor inp \<Rightarrow>
          li_stop_controller inp \<noteq> Survived \<and> li_stop_aggregator inp \<noteq> Survived \<and> li_kill inp \<noteq> Survived)"

lemma set_discard_set [simp]: "set (set_discard x xs) = set xs - {x}"
  by (auto simp: set_discard_def)

lemma set_add_set: "set (set_add x xs) = insert x (set xs)"
  by (auto simp: set_add_def)

lemma exit_handles: "handles_ok a \<Longrightarrow> handles_ok (process_exit pid a)"
  by (auto simp: handles_ok_def process_exit_def children_def)

lemma set_discard_absent: "x \<notin> set xs \<Longrightarrow> set_discard x xs = xs"
  by (auto simp: set_discard_def filter_id_conv)

lemma stop_process_clean:
  "out \<noteq> Survived \<Longrightarrow> stop_process pid graceful out a = (True, a\<lparr>na_alive := set_discard pid (na_alive a)\<rparr>)"
  by (auto simp: stop_process_def alive_def process_exit_def set_discard_absent)

text \<open>Stopping leaves no child when both processes die.\<close>

lemma all_discarded: "set xs \<subseteq> {p, q} \<Longrightarrow> set_discard p (set_discard q xs) = []"
  by (subst set_empty [symmetric]) auto

lemma stop_aggregator_clean:
  assumes "handles_ok a" "oc \<noteq> Survived" "oa \<noteq> Survived"
  shows "snd (stop_aggregator graceful oc oa a) = a\<lparr>na_alive := [], na_controller := None, na_aggregator := None\<rparr>"
proof (cases "na_controller a")
  case None
  then show ?thesis using assms all_discarded [of "na_alive a" p p for p]
    by (cases "na_aggregator a")
       (auto simp: stop_aggregator_def Let_def handles_ok_def children_def stop_process_clean set_discard_def)
next
  case (Some c)
  show ?thesis
  proof (cases "na_aggregator a")
    case None
    then have "set (na_alive a) \<subseteq> {c, c}" using Some assms(1) by (auto simp: handles_ok_def children_def)
    then have "set_discard c (na_alive a) = []" by (subst set_empty [symmetric]) auto
    then show ?thesis using Some None assms(2,3) by (simp add: stop_aggregator_def Let_def stop_process_clean)
  next
    case (Some g)
    then have "set (na_alive a) \<subseteq> {g, c}" using \<open>na_controller a = Some c\<close> assms(1)
      by (auto simp: handles_ok_def children_def)
    from all_discarded [OF this] show ?thesis using Some \<open>na_controller a = Some c\<close> assms(2,3)
      by (simp add: stop_aggregator_def Let_def stop_process_clean)
  qed
qed

lemma launch_controller_handles:
  assumes "handles_ok a"
  shows "handles_ok (snd (launch_controller ok a))"
    and "na_monitor (snd (launch_controller ok a)) = na_monitor a"
    and "na_agg_failures (snd (launch_controller ok a)) = na_agg_failures a"
proof -
  let ?pid = "na_next_pid a"
  have "na_controller a \<noteq> None \<Longrightarrow> \<not> is_controller_running a \<Longrightarrow> the (na_controller a) \<notin> set (na_alive a)"
    by (auto simp: is_controller_running_def alive_def)
  then show "handles_ok (snd (launch_controller ok a))"
    using assms
    by (auto simp: launch_controller_def popen_def Let_def handles_ok_def children_def set_add_set)
  show "na_monitor (snd (launch_controller ok a)) = na_monitor a"
    "na_agg_failures (snd (launch_controller ok a)) = na_agg_failures a"
    by (simp_all add: launch_controller_def popen_def Let_def)
qed

text \<open>The part of a launch after the old processes are gone.\<close>

lemma started_handles:
  assumes "handles_ok a" "\<not> is_aggregator_running a"
  shows "handles_ok (a\<lparr>na_alive := set_add (na_next_pid a) (na_alive a), na_next_pid := na_next_pid a + 1,
    na_aggregator := Some (na_next_pid a)\<rparr>)"
proof -
  have "na_aggregator a \<noteq> None \<Longrightarrow> the (na_aggregator a) \<notin> set (na_alive a)"
    using assms(2) by (auto simp: is_aggregator_running_def alive_def)
  moreover have "na_controller a \<noteq> Some (na_next_pid a)"
    using assms(1) by (auto simp: handles_ok_def children_def)
  then have "Some (na_next_pid a) \<noteq> na_controller a" by (rule not_sym)
  ultimately show ?thesis using assms(1) by (auto simp: handles_ok_def children_def set_add_set)
qed

lemma gone_handles:
  assumes "handles_ok a" "out \<noteq> Survived"
  shows "handles_ok ((kill_process (na_aggregator a) out a)\<lparr>na_aggregator := None, na_base_model := b, na_model_id := m\<rparr>)"
  using assms by (auto simp: kill_process_def alive_def process_exit_def handles_ok_def children_def)

lemma launch_aggregator_handles:
  assumes ok: "handles_ok a"
    and inp: "li_stop_controller inp \<noteq> Survived" "li_stop_aggregator inp \<noteq> Survived" "li_kill inp \<noteq> Survived"
  shows "handles_ok (snd (launch_aggregator inp force b m a)) \<and>
    na_monitor (snd (launch_aggregator inp force b m a)) = na_monitor a \<and>
    na_agg_failures (snd (launch_aggregator inp force b m a)) = na_agg_failures a"
proof (cases "is_aggregator_running a \<and> \<not> force")
  case True
  then show ?thesis using ok by (simp add: launch_aggregator_def)
next
  case False
  let ?a0 = "if is_aggregator_running a
    then snd (stop_aggregator True (li_stop_controller inp) (li_stop_aggregator inp) a) else a"
  let ?a1 = "?a0\<lparr>na_base_model := b, na_model_id := m\<rparr>"
  let ?pid = "na_next_pid ?a1"
  let ?a3 = "?a1\<lparr>na_alive := set_add ?pid (na_alive ?a1), na_next_pid := ?pid + 1, na_aggregator := Some ?pid\<rparr>"
  let ?a4 = "if li_exits inp then process_exit ?pid ?a3 else ?a3"
  have a1: "handles_ok ?a1 \<and> \<not> is_aggregator_running ?a1 \<and> na_monitor ?a1 = na_monitor a \<and>
      na_agg_failures ?a1 = na_agg_failures a"
  proof (cases "is_aggregator_running a")
    case True
    then show ?thesis using ok stop_aggregator_clean [OF ok inp(1,2), of True]
      by (simp add: handles_ok_def children_def is_aggregator_running_def alive_def)
  next
    case False
    then show ?thesis using ok
      by (simp add: handles_ok_def children_def is_aggregator_running_def alive_def split: option.split option.split_asm)
  qed
  have "handles_ok ?a3" using started_handles [of ?a1] a1 by blast
  then have a4: "handles_ok ?a4" by (simp add: exit_handles)
  have mon: "na_monitor ?a4 = na_monitor a" "na_agg_failures ?a4 = na_agg_failures a"
    using a1 by (auto simp: process_exit_def)
  have kill: "na_monitor (kill_process p o' x) = na_monitor x" "na_agg_failures (kill_process p o' x) = na_agg_failures x"
    for p o' x by (simp_all add: kill_process_def process_exit_def)
  have res: "snd (launch_aggregator inp force b m a) =
      (if \<not> li_popen_ok inp then ?a1
       else if is_aggregator_running ?a4 \<and> li_ready inp then snd (launch_controller (li_controller_ok inp) ?a4)
       else (kill_process (na_aggregator ?a4) (li_kill inp) ?a4)
              \<lparr>na_aggregator := None, na_base_model := None, na_model_id := None\<rparr>)"
    unfolding launch_aggregator_def popen_def Let_def using False
    by (simp split: prod.split bool.split)
  show ?thesis
    unfolding res
    using a1 launch_controller_handles [OF a4, of "li_controller_ok inp"] gone_handles [OF a4 inp(3), of None None] mon
    by (simp add: kill)
qed

lemma agent_step_handles:
  assumes ok: "handles_ok a" "failures_ok a" and ev: "clean ev"
  shows "handles_ok (agent_step ev a) \<and> failures_ok (agent_step ev a)"
proof (cases ev)
  case (Process_exit pid)
  then show ?thesis using ok exit_handles [OF ok(1), of pid]
    by (simp add: agent_step_def failures_ok_def process_exit_def)
next
  case (Launch inp force b m)
  then show ?thesis using launch_aggregator_handles [OF ok(1), of inp force b m] ev ok(2)
    by (simp add: agent_step_def clean_def failures_ok_def)
next
  case (Stop graceful oc oa)
  then show ?thesis using stop_aggregator_clean [OF ok(1), of oc oa graceful] ev ok
    by (simp add: agent_step_def clean_def failures_ok_def handles_ok_def children_def)
next
  case (Monitor inp)
  have field: "handles_ok (x\<lparr>na_monitor := m\<rparr>) = handles_ok x" "handles_ok (x\<lparr>na_agg_failures := n\<rparr>) = handles_ok x"
    "handles_ok (x\<lparr>na_ctrl_failures := n\<rparr>) = handles_ok x" for x m n
    by (simp_all add: handles_ok_def children_def)
  have drop: "handles_ok (a\<lparr>na_aggregator := None\<rparr>)" if "\<not> is_aggregator_running a"
    using ok(1) that by (auto simp: handles_ok_def children_def is_aggregator_running_def alive_def split: option.splits)
  have dropc: "handles_ok (a\<lparr>na_controller := None\<rparr>)" if "\<not> is_controller_running a"
    using ok(1) that by (auto simp: handles_ok_def children_def is_controller_running_def alive_def split: option.splits)
  have inp: "li_stop_controller inp \<noteq> Survived" "li_stop_aggregator inp \<noteq> Survived" "li_kill inp \<noteq> Survived"
    using ev by (simp_all add: Monitor clean_def)
  have step: "agent_step ev a = snd (monitor_step inp a)" by (simp add: Monitor agent_step_def)
  show ?thesis
  proof (cases "na_monitor a")
    case Check_aggregator
    then show ?thesis using ok drop
      unfolding step by (auto simp: monitor_step_def Let_def failures_ok_def handles_ok_def children_def)
  next
    case Restart_aggregator
    then show ?thesis using launch_aggregator_handles [OF ok(1) inp, of False "na_base_model a" "na_model_id a"]
      unfolding step by (simp add: monitor_step_def failures_ok_def field)
  next
    case Check_controller
    then show ?thesis using ok dropc
      unfolding step by (auto simp: monitor_step_def Let_def failures_ok_def handles_ok_def children_def)
  next
    case Restart_controller
    then show ?thesis using ok launch_controller_handles [OF ok(1), of "li_controller_ok inp"]
      unfolding step
      by (cases "launch_controller (li_controller_ok inp) a")
         (auto simp: monitor_step_def failures_ok_def handles_ok_def children_def split: bool.split)
  qed
qed

lemma agent_run_handles:
  "handles_ok a \<Longrightarrow> failures_ok a \<Longrightarrow> \<forall>ev \<in> set evs. clean ev \<Longrightarrow>
   handles_ok (agent_run evs a) \<and> failures_ok (agent_run evs a)"
proof (induction evs arbitrary: a)
  case (Cons ev evs)
  then have "clean ev" by simp
  from agent_step_handles [OF Cons.prems(1,2) this] Cons.IH [of "agent_step ev a"] Cons.prems(3)
  show ?case by (simp add: agent_run_def)
qed (simp add: agent_run_def)

lemma agent_init_handles: "handles_ok node_agent_init" "failures_ok node_agent_init"
  by (simp_all add: node_agent_init_def handles_ok_def failures_ok_def children_def)

section \<open>The heartbeat\<close>

text \<open>The adapters a pool has ready.\<close>

definition ready_adapters :: "'r load_balancer \<Rightarrow> string set" where
  "ready_adapters s = {a. a \<noteq> [] \<and> (\<exists>w \<in> set (pool_workers s). wi_status w = W_READY \<and> wi_adapter_id w = Some a)}"

definition ready_workers :: "'r load_balancer \<Rightarrow> worker_info list" where
  "ready_workers s = filter (\<lambda>w. wi_status w = W_READY) (pool_workers s)"

lemma ready_value: "worker_status_value st = ''ready'' \<longleftrightarrow> st = W_READY"
  by (cases st) simp_all

lemma status_of_pool:
  assumes "is_controller_running a"
  shows "set (nr_loaded_adapters (get_status (Some (get_workers now s, q)) m a)) = ready_adapters s"
    and "nr_total_workers (get_status (Some (get_workers now s, q)) m a) = int (length (ready_workers s))"
    and "nr_free_workers (get_status (Some (get_workers now s, q)) m a) =
      int (length (filter (\<lambda>w. wi_active_requests w \<le> 0) (ready_workers s)))"
proof -
  let ?f = "\<lambda>w. \<lparr>wr_worker_id = wi_worker_id w, wr_http_port = wi_http_port w,
     wr_adapter_id = wi_adapter_id w, wr_status = worker_status_value (wi_status w),
     wr_active_requests = wi_active_requests w, wr_requests_handled = wi_requests_handled w,
     wr_avg_inference_ms = py_round_digits 2 (avg_inference_ms w),
     wr_idle_time = (if 0 < wi_last_request_at w then py_round_digits 1 (worker_idle_time now w) else -1)\<rparr>"
  let ?st = "get_status (Some (get_workers now s, q)) m a"
  have ready: "filter (\<lambda>w. wr_status w = ''ready'') (get_workers now s) = map ?f (ready_workers s)"
    by (simp add: get_workers_def ready_workers_def filter_map comp_def ready_value)
  have load: "nr_loaded_adapters ?st = remdups (map (\<lambda>w. the (wr_adapter_id w))
      (filter (\<lambda>w. truthy (wr_adapter_id w)) (map ?f (ready_workers s))))"
    using assms unfolding ready [symmetric] by (simp add: get_status_def Let_def)
  have "set (nr_loaded_adapters ?st) = (\<lambda>w. the (wi_adapter_id w)) ` {w \<in> set (ready_workers s). truthy (wi_adapter_id w)}"
    unfolding load by (simp add: filter_map comp_def image_image)
  also have "\<dots> = ready_adapters s"
  proof (intro equalityI subsetI)
    fix x assume "x \<in> (\<lambda>w. the (wi_adapter_id w)) ` {w \<in> set (ready_workers s). truthy (wi_adapter_id w)}"
    then show "x \<in> ready_adapters s"
      by (auto simp: ready_adapters_def ready_workers_def truthy_def split: option.splits)
  next
    fix x assume "x \<in> ready_adapters s"
    then obtain w where "w \<in> set (ready_workers s)" "wi_adapter_id w = Some x" "x \<noteq> []"
      by (auto simp: ready_adapters_def ready_workers_def)
    then show "x \<in> (\<lambda>w. the (wi_adapter_id w)) ` {w \<in> set (ready_workers s). truthy (wi_adapter_id w)}"
      by (intro image_eqI [of _ _ w]) (simp_all add: truthy_def)
  qed
  finally show "set (nr_loaded_adapters ?st) = ready_adapters s" .
  show tot: "nr_total_workers ?st = int (length (ready_workers s))"
    using assms arg_cong [OF ready, of length] by (simp add: get_status_def Let_def)
  have "nr_active_workers ?st = int (length (filter (\<lambda>w. 0 < wi_active_requests w) (ready_workers s)))"
    using assms arg_cong [OF ready, of "\<lambda>xs. length (filter (\<lambda>w. 0 < wr_active_requests w) xs)"]
    by (simp add: get_status_def Let_def filter_map comp_def)
  moreover have "nr_free_workers ?st = nr_total_workers ?st - nr_active_workers ?st"
    using assms by (simp add: get_status_def Let_def)
  moreover have "length (filter (\<lambda>w. 0 < wi_active_requests w) (ready_workers s)) +
      length (filter (\<lambda>w. \<not> 0 < wi_active_requests w) (ready_workers s)) = length (ready_workers s)"
    by (rule sum_length_filter_compl)
  ultimately show "nr_free_workers ?st = int (length (filter (\<lambda>w. wi_active_requests w \<le> 0) (ready_workers s)))"
    using tot by (simp add: not_less)
qed

text \<open>Without an answer of the local controller the report is empty.\<close>

lemma status_of_silence:
  assumes "\<not> is_controller_running a \<or> workers = None"
  shows "nr_loaded_adapters (get_status workers m a) = []" "nr_total_workers (get_status workers m a) = 0"
    "nr_free_workers (get_status workers m a) = 0" "nr_queue_depth (get_status workers m a) = 0"
  using assms by (auto simp: get_status_def Let_def)

lemma queue_of_answer:
  "is_controller_running a \<Longrightarrow> nr_queue_depth (get_status (Some (rows, q)) m a) = q"
  by (simp add: get_status_def Let_def)

text \<open>The state of a node as its heartbeat reports it.\<close>

definition reported_status :: "node_agent \<Rightarrow> node_status" where
  "reported_status a =
     (if \<not> is_aggregator_running a then IDLE else if is_controller_running a then ACTIVE else STARTING)"

lemma status_reported: "status_of_string (nr_status (get_status workers m a)) = reported_status a"
  by (simp add: get_status_def Let_def status_of_string_def reported_status_def split: prod.split)

lemma heartbeat_endpoint_index:
  assumes "registry_inv (g_registry s)" and "map_of (rg_nodes (g_registry s)) nid = Some n"
  shows "set (index (g_registry (node_heartbeat_endpoint now nid st h b s)) a) =
    (if a \<in> set (hb_loaded_adapters h) then insert nid (set (index (g_registry s) a))
     else set (index (g_registry s) a) - {nid})"
proof -
  let ?r1 = "update_node_status now nid (status_of_string st) (g_registry s)"
  have "registry_inv ?r1" using assms(1) by (rule update_node_status_inv)
  moreover have "\<exists>n'. map_of (rg_nodes ?r1) nid = Some n'"
    using assms(2) by (simp add: update_node_status_def upd_node_lookup)
  moreover have "index ?r1 a = index (g_registry s) a" by (simp add: update_node_status_def)
  ultimately show ?thesis
    using update_node_heartbeat_index [of ?r1 nid _ now h a]
    by (auto simp: node_heartbeat_endpoint_def Let_def set_node_base_model_def)
qed

lemma heartbeat_endpoint_node:
  assumes "map_of (rg_nodes (g_registry s)) nid = Some n"
  shows "\<exists>n'. map_of (rg_nodes (g_registry (node_heartbeat_endpoint now nid st h b s))) nid = Some n' \<and>
    ni_status n' = status_of_string st \<and> ni_last_heartbeat n' = now \<and>
    ni_total_workers n' = hb_total_workers h \<and> ni_free_workers n' = hb_free_workers h \<and>
    ni_queue_depth n' = hb_queue_depth h \<and> ni_aggregator_pid n' = hb_aggregator_pid h"
proof -
  let ?r1 = "update_node_status now nid (status_of_string st) (g_registry s)"
  obtain n1 where n1: "map_of (rg_nodes ?r1) nid = Some n1" "ni_status n1 = status_of_string st"
    using assms by (simp add: update_node_status_def upd_node_lookup Let_def)
  let ?n2 = "(heartbeat_fields now h n1)\<lparr>ni_loaded_adapters := remdups (hb_loaded_adapters h)\<rparr>"
  have n2: "map_of (rg_nodes (update_node_heartbeat now nid h ?r1)) nid = Some ?n2"
    by (simp add: update_node_heartbeat_nodes n1(1) update_conv')
  have f: "ni_total_workers (heartbeat_fields now h n1) = hb_total_workers h"
    "ni_free_workers (heartbeat_fields now h n1) = hb_free_workers h"
    "ni_queue_depth (heartbeat_fields now h n1) = hb_queue_depth h"
    by (auto simp: heartbeat_fields_def Let_def split: option.split)
  have "ni_status ?n2 = status_of_string st \<and> ni_last_heartbeat ?n2 = now \<and>
    ni_total_workers ?n2 = hb_total_workers h \<and> ni_free_workers ?n2 = hb_free_workers h \<and>
    ni_queue_depth ?n2 = hb_queue_depth h \<and> ni_aggregator_pid ?n2 = hb_aggregator_pid h"
    using n1(2) by (simp add: f)
  then show ?thesis using n2
    by (auto simp: node_heartbeat_endpoint_def Let_def set_node_base_model_def upd_node_lookup)
qed

section \<open>Forwarding\<close>

text \<open>A client error of the local controller is posted a second time.\<close>

lemma forward_posts_again:
  assumes "is_controller_running a" "posts 0 = Post_status status" "posts 1 = Post_ok v"
  shows "fst (forward_to_controller rnd posts a) = Inr v"
  using assms
  by (simp add: forward_to_controller_def retry_execute_def forward_retry_config_def default_retry_config_def
      do_forward_def numeral_2_eq_2 split: prod.split)

end
