(* ===== verification/Wire_Format.thy ===== *)
theory Wire_Format
  imports Prelude "HOL-Library.Word"
begin

text \<open>
  The messages between workers and aggregator, \<open>src/src/worker/utils.py\<close>: dictionaries
  whose bytes are wrapped in base64, as JSON behind a four-byte length. JSON itself
  (\<open>json.dumps\<close>, \<open>json.loads\<close> with UTF-8) is a parameter. A socket is the list of the
  chunks its \<open>recv\<close> delivers; the end of the list, or an empty chunk, is a closed
  connection. Values are those that JSON gives back as they are: tuples, which it turns into
  lists, and dictionary keys that are not strings, which it turns into strings, are left out.
\<close>

section \<open>Values\<close>

type_synonym bytes = "8 word list"

datatype pyval =
    PNone
  | PBool bool
  | PInt int
  | PFloat pyfloat
  | PStr string
  | PBytes bytes
  | PList "pyval list"
  | PDict "(string \<times> pyval) list"

text \<open>What \<open>json.dumps\<close> accepts: everything here but bytes.\<close>

fun json_ok :: "pyval \<Rightarrow> bool" and json_ok_list :: "pyval list \<Rightarrow> bool"
  and json_ok_dict :: "(string \<times> pyval) list \<Rightarrow> bool" where
  "json_ok (PBytes b) = False"
| "json_ok (PList xs) = json_ok_list xs"
| "json_ok (PDict d) = json_ok_dict d"
| "json_ok v = True"
| "json_ok_list [] = True"
| "json_ok_list (x # xs) = (json_ok x \<and> json_ok_list xs)"
| "json_ok_dict [] = True"
| "json_ok_dict ((k, x) # d) = (json_ok x \<and> json_ok_dict d)"

section \<open>Base64\<close>

definition b64_alphabet :: string where
  "b64_alphabet = ''ABCDEFGHIJKLMNOPQRSTUVWXYZabcdefghijklmnopqrstuvwxyz0123456789+/''"

definition b64_char :: "nat \<Rightarrow> char" where
  "b64_char n = b64_alphabet ! n"

definition b64_value :: "char \<Rightarrow> nat option" where
  "b64_value c = map_of (zip b64_alphabet [0..<64]) c"

text \<open>Three bytes are four groups of six bits; a shorter end is filled with zero bits and padded.\<close>

fun b64encode :: "bytes \<Rightarrow> string" where
  "b64encode [] = []"
| "b64encode [a] = [b64_char (unat a div 4), b64_char (unat a mod 4 * 16), CHR ''='', CHR ''='']"
| "b64encode [a, b] =
     [b64_char (unat a div 4), b64_char (unat a mod 4 * 16 + unat b div 16), b64_char (unat b mod 16 * 4), CHR ''='']"
| "b64encode (a # b # c # rest) =
     b64_char (unat a div 4) # b64_char (unat a mod 4 * 16 + unat b div 16) #
     b64_char (unat b mod 16 * 4 + unat c div 64) # b64_char (unat c mod 64) # b64encode rest"

text \<open>The bytes of a quantum of two, three or four characters.\<close>

fun quad_bytes :: "nat list \<Rightarrow> bytes" where
  "quad_bytes [x, y] = [of_nat (x * 4 + y div 16)]"
| "quad_bytes [x, y, z] = [of_nat (x * 4 + y div 16), of_nat (y mod 16 * 16 + z div 4)]"
| "quad_bytes [x, y, z, u] =
     [of_nat (x * 4 + y div 16), of_nat (y mod 16 * 16 + z div 4), of_nat (z mod 4 * 64 + u)]"
| "quad_bytes _ = []"

text \<open>
  The decoder of \<open>binascii\<close>, not strict: characters outside the alphabet are passed over,
  padding ends the text, an incomplete quantum without padding is an error.
\<close>

fun b64_loop :: "nat list \<Rightarrow> nat \<Rightarrow> string \<Rightarrow> py_error + bytes" where
  "b64_loop quad pads [] = (if quad = [] then Inr [] else Inl ValueError)"
| "b64_loop quad pads (c # cs) =
     (if c = CHR ''=''
      then if 2 \<le> length quad
           then if 4 \<le> length quad + pads + 1 then Inr (quad_bytes quad) else b64_loop quad (pads + 1) cs
           else b64_loop quad pads cs
      else (case b64_value c of
              None \<Rightarrow> b64_loop quad pads cs
            | Some v \<Rightarrow>
                if length quad = 3
                then (case b64_loop [] 0 cs of
                        Inl e \<Rightarrow> Inl e
                      | Inr bs \<Rightarrow> Inr (quad_bytes (quad @ [v]) @ bs))
                else b64_loop (quad @ [v]) 0 cs))"

text \<open>\<open>base64.b64decode\<close> refuses a text that is not ASCII.\<close>

definition b64decode :: "string \<Rightarrow> py_error + bytes" where
  "b64decode s = (if list_all (\<lambda>c. of_char c < (128 :: nat)) s then b64_loop [] 0 s else Inl ValueError)"

definition b64decode_bytes :: "bytes \<Rightarrow> py_error + bytes" where
  "b64decode_bytes b = b64_loop [] 0 (map (\<lambda>w. char_of (unat w)) b)"

section \<open>Encoding and decoding\<close>

definition b64_key :: string where
  "b64_key = ''__b64__''"

fun encode :: "pyval \<Rightarrow> pyval" and encode_list :: "pyval list \<Rightarrow> pyval list"
  and encode_dict :: "(string \<times> pyval) list \<Rightarrow> (string \<times> pyval) list" where
  "encode (PBytes b) = PDict [(b64_key, PStr (b64encode b))]"
| "encode (PDict d) = PDict (encode_dict d)"
| "encode (PList xs) = PList (encode_list xs)"
| "encode v = v"
| "encode_list [] = []"
| "encode_list (x # xs) = encode x # encode_list xs"
| "encode_dict [] = []"
| "encode_dict ((k, x) # d) = (k, encode x) # encode_dict d"

fun decode :: "pyval \<Rightarrow> py_error + pyval" and decode_list :: "pyval list \<Rightarrow> py_error + pyval list"
  and decode_dict :: "(string \<times> pyval) list \<Rightarrow> py_error + (string \<times> pyval) list" where
  "decode (PDict d) =
     (if dict_keys d = [b64_key]
      then (case dict_values d of
              [PStr s] \<Rightarrow> (case b64decode s of Inl e \<Rightarrow> Inl e | Inr b \<Rightarrow> Inr (PBytes b))
            | [PBytes b] \<Rightarrow> (case b64decode_bytes b of Inl e \<Rightarrow> Inl e | Inr b \<Rightarrow> Inr (PBytes b))
            | _ \<Rightarrow> Inl TypeError)
      else (case decode_dict d of Inl e \<Rightarrow> Inl e | Inr d' \<Rightarrow> Inr (PDict d')))"
| "decode (PList xs) = (case decode_list xs of Inl e \<Rightarrow> Inl e | Inr ys \<Rightarrow> Inr (PList ys))"
| "decode v = Inr v"
| "decode_list [] = Inr []"
| "decode_list (x # xs) =
     (case decode x of
        Inl e \<Rightarrow> Inl e
      | Inr y \<Rightarrow> (case decode_list xs of Inl e \<Rightarrow> Inl e | Inr ys \<Rightarrow> Inr (y # ys)))"
| "decode_dict [] = Inr []"
| "decode_dict ((k, x) # d) =
     (case decode x of
        Inl e \<Rightarrow> Inl e
      | Inr y \<Rightarrow> (case decode_dict d of Inl e \<Rightarrow> Inl e | Inr d' \<Rightarrow> Inr ((k, y) # d')))"

section \<open>Frames\<close>

text \<open>\<open>struct.pack('>I', n)\<close> and \<open>struct.unpack\<close>.\<close>

definition pack_u32 :: "nat \<Rightarrow> bytes" where
  "pack_u32 n = [of_nat (n div 16777216), of_nat (n div 65536 mod 256), of_nat (n div 256 mod 256), of_nat (n mod 256)]"

definition unpack_u32 :: "bytes \<Rightarrow> nat" where
  "unpack_u32 bs = foldl (\<lambda>n b. n * 256 + unat b) 0 bs"

definition max_msg_bytes :: nat where
  "max_msg_bytes = 200 * 1024 * 1024"

definition send_msg :: "(pyval \<Rightarrow> bytes) \<Rightarrow> pyval \<Rightarrow> py_error + bytes" where
  "send_msg dumps obj =
     (if json_ok (encode obj)
      then let data = dumps (encode obj)
           in if 2 ^ 32 \<le> length data then Inl StructError else Inr (pack_u32 (length data) @ data)
      else Inl TypeError)"

text \<open>
  \<open>while len(data) < size: chunk = recv(min(size - len(data), buffer))\<close>: the bytes still
  needed, and the socket with what it has left.
\<close>

function recv_exact :: "nat \<Rightarrow> nat \<Rightarrow> bytes list \<Rightarrow> (py_error + bytes) \<times> bytes list" where
  "recv_exact buffer need sock =
     (if need = 0 then (Inr [], sock)
      else (case sock of
              [] \<Rightarrow> (Inl ConnectionError, [])
            | chunk # chunks \<Rightarrow>
                let k = min need buffer; got = take k chunk;
                    rest = (if drop k chunk = [] then chunks else drop k chunk # chunks)
                in if got = [] then (Inl ConnectionError, rest)
                   else (case recv_exact buffer (need - length got) rest of
                           (Inl e, s) \<Rightarrow> (Inl e, s)
                         | (Inr data, s) \<Rightarrow> (Inr (got @ data), s))))"
  by pat_completeness auto
termination
  by (relation "measure (\<lambda>(buffer, need, sock). need)") (auto simp: min_def split: if_splits)

declare recv_exact.simps [simp del]

definition recv_msg :: "(bytes \<Rightarrow> py_error + pyval) \<Rightarrow> bytes list \<Rightarrow> (py_error + pyval) \<times> bytes list" where
  "recv_msg loads sock =
     (case recv_exact 4 4 sock of
        (Inl e, s) \<Rightarrow> (Inl e, s)
      | (Inr raw_len, s) \<Rightarrow>
          let size = unpack_u32 raw_len
          in if max_msg_bytes < size then (Inl ValueError, s)
             else (case recv_exact 65536 size s of
                     (Inl e, s1) \<Rightarrow> (Inl e, s1)
                   | (Inr data, s1) \<Rightarrow>
                       (case loads data of
                          Inl e \<Rightarrow> (Inl e, s1)
                        | Inr v \<Rightarrow> (decode v, s1))))"

text \<open>The messages on a connection, one after the other.\<close>

fun recv_all :: "(bytes \<Rightarrow> py_error + pyval) \<Rightarrow> nat \<Rightarrow> bytes list \<Rightarrow> (py_error + pyval) list \<times> bytes list" where
  "recv_all loads 0 sock = ([], sock)"
| "recv_all loads (Suc n) sock =
     (let (r, s) = recv_msg loads sock; (rs, s') = recv_all loads n s in (r # rs, s'))"

section \<open>Round trips\<close>

lemma b64_alphabet_length: "length b64_alphabet = 64"
  by (simp add: b64_alphabet_def)

lemma b64_alphabet_distinct: "distinct b64_alphabet"
  by (simp add: b64_alphabet_def)

lemma b64_value_char: "n < 64 \<Longrightarrow> b64_value (b64_char n) = Some n"
  unfolding b64_value_def b64_char_def
  by (rule map_of_is_SomeI)
     (auto simp: b64_alphabet_distinct b64_alphabet_length set_zip intro: exI [of _ n])

lemma b64_char_no_pad: "n < 64 \<Longrightarrow> b64_char n \<noteq> CHR ''=''"
proof
  assume "n < 64" "b64_char n = CHR ''=''"
  then have "CHR ''='' \<in> set b64_alphabet"
    using nth_mem [of n b64_alphabet] by (simp add: b64_char_def b64_alphabet_length)
  then show False by (simp add: b64_alphabet_def)
qed

lemma unat_byte: "unat (w :: 8 word) < 256"
  using unsigned_less [of w, where 'a = nat] by simp

lemma sextets:
  fixes a b c :: "8 word"
  shows "unat a div 4 < 64" "unat a mod 4 * 16 < 64" "unat a mod 4 * 16 + unat b div 16 < 64"
    "unat b mod 16 * 4 < 64" "unat b mod 16 * 4 + unat c div 64 < 64" "unat c mod 64 < 64"
  using unat_byte [of a] unat_byte [of b] unat_byte [of c] by linarith+

lemma quad_one: "quad_bytes [unat (a :: 8 word) div 4, unat a mod 4 * 16] = [a]"
  by simp

lemma quad_two:
  "quad_bytes [unat (a :: 8 word) div 4, unat a mod 4 * 16 + unat (b :: 8 word) div 16, unat b mod 16 * 4] = [a, b]"
proof -
  have "unat a div 4 * 4 + (unat a mod 4 * 16 + unat b div 16) div 16 = unat a"
    "(unat a mod 4 * 16 + unat b div 16) mod 16 * 16 + unat b mod 16 * 4 div 4 = unat b"
    using unat_byte [of b] by (simp_all add: mod_mult_self3 div_mult_self3)
  then show ?thesis by (simp only: quad_bytes.simps) simp
qed

lemma quad_three:
  "quad_bytes [unat (a :: 8 word) div 4, unat a mod 4 * 16 + unat (b :: 8 word) div 16,
     unat b mod 16 * 4 + unat (c :: 8 word) div 64, unat c mod 64] = [a, b, c]"
proof -
  have "unat a div 4 * 4 + (unat a mod 4 * 16 + unat b div 16) div 16 = unat a"
    "(unat a mod 4 * 16 + unat b div 16) mod 16 * 16 + (unat b mod 16 * 4 + unat c div 64) div 4 = unat b"
    "(unat b mod 16 * 4 + unat c div 64) mod 4 * 64 + unat c mod 64 = unat c"
    using unat_byte [of b] unat_byte [of c] by (simp_all add: mod_mult_self3 div_mult_self3)
  then show ?thesis by (simp only: quad_bytes.simps) simp
qed

lemma b64_loop_value:
  "n < 64 \<Longrightarrow> b64_loop quad pads (b64_char n # cs) =
     (if length quad = 3
      then (case b64_loop [] 0 cs of Inl e \<Rightarrow> Inl e | Inr bs \<Rightarrow> Inr (quad_bytes (quad @ [n]) @ bs))
      else b64_loop (quad @ [n]) 0 cs)"
  by (simp add: b64_char_no_pad b64_value_char)

lemma b64_loop_pad:
  "2 \<le> length quad \<Longrightarrow> b64_loop quad pads (CHR ''='' # cs) =
     (if 4 \<le> length quad + pads + 1 then Inr (quad_bytes quad) else b64_loop quad (pads + 1) cs)"
  by simp

lemma b64_loop_encode: "b64_loop [] 0 (b64encode bs) = Inr bs"
proof (induction bs rule: b64encode.induct)
  case 1 then show ?case by simp
next
  case (2 a)
  show ?case
    by (simp add: b64_loop_value b64_loop_pad sextets quad_one del: quad_bytes.simps b64_loop.simps)
next
  case (3 a b)
  show ?case
    by (simp add: b64_loop_value b64_loop_pad sextets quad_two del: quad_bytes.simps b64_loop.simps)
next
  case (4 a b c rest)
  then show ?case
    by (simp add: b64_loop_value sextets quad_three del: quad_bytes.simps b64_loop.simps)
qed

lemma b64_ascii: "list_all (\<lambda>c. of_char c < (128 :: nat)) (b64encode bs)"
proof -
  have alphabet: "list_all (\<lambda>c. of_char c < (128 :: nat)) b64_alphabet"
    by (simp add: b64_alphabet_def)
  have "of_char (b64_char n) < (128 :: nat)" if "n < 64" for n
    using alphabet that by (simp add: b64_char_def list_all_length b64_alphabet_length)
  then show ?thesis
    by (induction bs rule: b64encode.induct) (simp_all add: sextets)
qed

lemma b64decode_encode [simp]: "b64decode (b64encode bs) = Inr bs"
  by (simp add: b64decode_def b64_ascii b64_loop_encode)

text \<open>The encoder leaves no bytes, so \<open>json.dumps\<close> accepts what it returns.\<close>

lemma json_ok_encode [simp]:
  "json_ok (encode v)" "json_ok_list (encode_list xs)" "json_ok_dict (encode_dict d)"
  by (induction v and xs and d rule: encode_encode_list_encode_dict.induct) auto

text \<open>A dictionary whose only key is the marker is taken for encoded bytes.\<close>

fun no_marker :: "pyval \<Rightarrow> bool" and no_marker_list :: "pyval list \<Rightarrow> bool"
  and no_marker_dict :: "(string \<times> pyval) list \<Rightarrow> bool" where
  "no_marker (PDict d) = (dict_keys d \<noteq> [b64_key] \<and> no_marker_dict d)"
| "no_marker (PList xs) = no_marker_list xs"
| "no_marker v = True"
| "no_marker_list [] = True"
| "no_marker_list (x # xs) = (no_marker x \<and> no_marker_list xs)"
| "no_marker_dict [] = True"
| "no_marker_dict ((k, x) # d) = (no_marker x \<and> no_marker_dict d)"

lemma dict_keys_encode [simp]: "dict_keys (encode_dict d) = dict_keys d"
  by (induction d) auto

lemma decode_encode:
  "no_marker v \<Longrightarrow> decode (encode v) = Inr v"
  "no_marker_list xs \<Longrightarrow> decode_list (encode_list xs) = Inr xs"
  "no_marker_dict d \<Longrightarrow> decode_dict (encode_dict d) = Inr d"
  by (induction v and xs and d rule: no_marker_no_marker_list_no_marker_dict.induct)
     auto

lemma unpack_pack_u32:
  assumes "n < 2 ^ 32"
  shows "unpack_u32 (pack_u32 n) = n"
proof -
  have split: "n div 65536 = n div 256 div 256" "n div 16777216 = n div 256 div 256 div 256"
    by (simp_all flip: div_mult2_eq)
  have high: "n div 256 div 256 div 256 < 256" using assms by (simp flip: div_mult2_eq)
  have byte: "unat (of_nat m :: 8 word) = m" if "m < 256" for m
    using that by (simp add: unat_of_nat)
  show ?thesis
    using high by (simp add: unpack_u32_def pack_u32_def byte split)
qed

lemma pack_u32_length [simp]: "length (pack_u32 n) = 4"
  by (simp add: pack_u32_def)

section \<open>The stream of bytes\<close>

text \<open>A socket that never returns an empty chunk while it is open.\<close>

definition open_sock :: "bytes list \<Rightarrow> bool" where
  "open_sock sock = list_all (\<lambda>c. c \<noteq> []) sock"

lemma recv_exact_step:
  assumes "need \<noteq> 0" "k = min need buffer" "take k chunk \<noteq> []"
    "rest = (if drop k chunk = [] then chunks else drop k chunk # chunks)"
  shows "recv_exact buffer need (chunk # chunks) =
    (case recv_exact buffer (need - length (take k chunk)) rest of
       (Inl e, s) \<Rightarrow> (Inl e, s) | (Inr data, s) \<Rightarrow> (Inr (take k chunk @ data), s))"
  unfolding assms(4) using assms(1,3)
  by (subst recv_exact.simps) (simp only: Let_def list.case if_False assms(2))

lemma recv_exact_split:
  assumes "open_sock sock" "0 < buffer" "need \<le> length (concat sock)"
  shows "\<exists>s. recv_exact buffer need sock = (Inr (take need (concat sock)), s) \<and>
    concat s = drop need (concat sock) \<and> open_sock s"
  using assms
proof (induction need arbitrary: sock rule: less_induct)
  case (less need)
  note prems = less.prems
  show ?case
  proof (cases "need = 0 \<or> sock = []")
    case True
    with prems show ?thesis by (auto simp: recv_exact.simps)
  next
    case False
    then obtain chunk chunks where sock: "need \<noteq> 0" "sock = chunk # chunks"
      by (cases sock) auto
    define k where "k = min need buffer"
    define rest where "rest = (if drop k chunk = [] then chunks else drop k chunk # chunks)"
    have k: "0 < k" "k \<le> need" using sock prems by (auto simp: k_def)
    have chunk: "chunk \<noteq> []" "take k chunk \<noteq> []" using prems sock k by (auto simp: open_sock_def)
    have rest: "open_sock rest" "concat sock = take k chunk @ concat rest"
      using prems sock by (auto simp: open_sock_def rest_def)
    have "need - length (take k chunk) < need" "need - length (take k chunk) \<le> length (concat rest)"
      using prems(3) rest(2) k(1) chunk(1) sock(1) by simp_all
    from less.IH [OF this(1) rest(1) prems(2) this(2)]
    obtain s where s: "recv_exact buffer (need - length (take k chunk)) rest =
        (Inr (take (need - length (take k chunk)) (concat rest)), s)"
      "concat s = drop (need - length (take k chunk)) (concat rest)" "open_sock s" by blast
    have step: "recv_exact buffer need sock =
        (Inr (take k chunk @ take (need - length (take k chunk)) (concat rest)), s)"
      using recv_exact_step [OF sock(1) k_def chunk(2) rest_def] s(1) sock(2) by simp
    have "length (take k chunk) \<le> need" using k(2) by simp
    with k(2) have "take need (take k chunk) = take k chunk" "drop need (take k chunk) = []" by simp_all
    with step s rest(2) show ?thesis by (simp add: take_append drop_append del: take_take drop_take)
  qed
qed

lemma recv_exact_short:
  assumes "open_sock sock" "0 < buffer" "length (concat sock) < need"
  shows "fst (recv_exact buffer need sock) = Inl ConnectionError"
  using assms
proof (induction need arbitrary: sock rule: less_induct)
  case (less need)
  note prems = less.prems
  show ?case
  proof (cases sock)
    case Nil
    with prems show ?thesis by (auto simp: recv_exact.simps)
  next
    case (Cons chunk chunks)
    define k where "k = min need buffer"
    define rest where "rest = (if drop k chunk = [] then chunks else drop k chunk # chunks)"
    have need: "need \<noteq> 0" using prems by simp
    have k: "0 < k" "k \<le> need" using need prems by (auto simp: k_def)
    have chunk: "chunk \<noteq> []" "take k chunk \<noteq> []" using prems Cons k by (auto simp: open_sock_def)
    have rest: "open_sock rest" "concat sock = take k chunk @ concat rest"
      using prems Cons by (auto simp: open_sock_def rest_def)
    have "need - length (take k chunk) < need" "length (concat rest) < need - length (take k chunk)"
      using prems(3) rest(2) k(1) chunk(1) need by simp_all
    from less.IH [OF this(1) rest(1) prems(2) this(2)]
    have "fst (recv_exact buffer (need - length (take k chunk)) rest) = Inl ConnectionError" .
    then show ?thesis
      using recv_exact_step [OF need k_def chunk(2) rest_def] Cons by (simp split: prod.splits sum.splits)
  qed
qed

section \<open>Messages\<close>

text \<open>
  \<open>json.loads\<close> gives back what \<open>json.dumps\<close> was given, for the value a message is
  encoded to.
\<close>

definition json_inverse :: "(pyval \<Rightarrow> bytes) \<Rightarrow> (bytes \<Rightarrow> py_error + pyval) \<Rightarrow> pyval \<Rightarrow> bool" where
  "json_inverse dumps loads v = (loads (dumps (encode v)) = Inr (encode v))"

lemma recv_msg_frame:
  assumes "open_sock sock" "concat sock = pack_u32 (length data) @ data @ more"
    "length data \<le> max_msg_bytes"
  shows "\<exists>s. recv_msg loads sock = (case loads data of Inl e \<Rightarrow> Inl e | Inr v \<Rightarrow> decode v, s) \<and>
    concat s = more \<and> open_sock s"
proof -
  have size: "length data < 2 ^ 32" using assms(3) by (simp add: max_msg_bytes_def)
  obtain s1 where s1: "recv_exact 4 4 sock = (Inr (pack_u32 (length data)), s1)"
    "concat s1 = data @ more" "open_sock s1"
    using recv_exact_split [OF assms(1), of 4 4] assms(2) by auto
  obtain s2 where s2: "recv_exact 65536 (length data) s1 = (Inr data, s2)" "concat s2 = more" "open_sock s2"
    using recv_exact_split [OF s1(3), of 65536 "length data"] s1(2) by auto
  show ?thesis
    using s1(1) s2 assms(3) size
    by (auto simp: recv_msg_def unpack_pack_u32 Let_def split: sum.split)
qed

lemma send_msg_frame:
  "send_msg dumps v = Inr frame \<Longrightarrow>
     frame = pack_u32 (length (dumps (encode v))) @ dumps (encode v)"
  by (auto simp: send_msg_def Let_def split: if_splits)

lemma recv_send_msg:
  assumes "open_sock sock" "send_msg dumps v = Inr frame" "concat sock = frame @ more"
    "length (dumps (encode v)) \<le> max_msg_bytes" "json_inverse dumps loads v" "no_marker v"
  shows "\<exists>s. recv_msg loads sock = (Inr v, s) \<and> concat s = more \<and> open_sock s"
  using recv_msg_frame [OF assms(1), of "dumps (encode v)" more loads] assms
  by (auto simp: send_msg_frame json_inverse_def decode_encode)

lemma recv_all_sent:
  assumes "open_sock sock" "concat sock = concat (map (\<lambda>v. projr (send_msg dumps v)) vs) @ more"
    "list_all (\<lambda>v. length (dumps (encode v)) \<le> max_msg_bytes \<and> json_inverse dumps loads v \<and> no_marker v) vs"
  shows "fst (recv_all loads (length vs) sock) = map Inr vs \<and>
    concat (snd (recv_all loads (length vs) sock)) = more"
  using assms
proof (induction vs arbitrary: sock)
  case (Cons v vs)
  obtain frame where frame: "send_msg dumps v = Inr frame"
    using Cons.prems(3) by (auto simp: send_msg_def Let_def max_msg_bytes_def)
  obtain s where s: "recv_msg loads sock = (Inr v, s)"
    "concat s = concat (map (\<lambda>v. projr (send_msg dumps v)) vs) @ more" "open_sock s"
    using recv_send_msg [OF Cons.prems(1) frame, of _ loads] Cons.prems frame by auto
  show ?case
    using s(1) Cons.IH [OF s(3,2)] Cons.prems(3) by (simp add: split_beta)
qed simp

text \<open>A connection that ends inside a message, and a message the receiver finds too large.\<close>

lemma recv_msg_truncated:
  assumes "open_sock sock" "length data \<le> max_msg_bytes"
    "concat sock @ missing = pack_u32 (length data) @ data" "missing \<noteq> []"
  shows "fst (recv_msg loads sock) = Inl ConnectionError"
proof (cases "length (concat sock) < 4")
  case True
  with recv_exact_short [OF assms(1), of 4 4] show ?thesis
    by (cases "recv_exact 4 4 sock") (simp add: recv_msg_def split: sum.split)
next
  case False
  have size: "length data < 2 ^ 32" using assms(2) by (simp add: max_msg_bytes_def)
  have len: "length (concat sock) + length missing = 4 + length data"
    using arg_cong [OF assms(3), of length] by simp
  have "take 4 (concat sock) = take 4 (concat sock @ missing)" using False by simp
  then have head: "take 4 (concat sock) = pack_u32 (length data)" by (simp only: assms(3)) simp
  obtain s1 where s1: "recv_exact 4 4 sock = (Inr (pack_u32 (length data)), s1)"
    "concat s1 = drop 4 (concat sock)" "open_sock s1"
    using recv_exact_split [OF assms(1), of 4 4] False head by auto
  have "length (concat s1) < length data"
    using len assms(4) False by (auto simp: s1(2) simp flip: length_greater_0_conv)
  from recv_exact_short [OF s1(3) _ this, of 65536]
  have "fst (recv_exact 65536 (length data) s1) = Inl ConnectionError" by simp
  with s1(1) assms(2) size show ?thesis
    by (cases "recv_exact 65536 (length data) s1")
       (simp add: recv_msg_def unpack_pack_u32 Let_def split: sum.split)
qed

lemma recv_msg_too_large:
  assumes "open_sock sock" "send_msg dumps v = Inr frame" "concat sock = frame @ more"
    "max_msg_bytes < length (dumps (encode v))"
  shows "fst (recv_msg loads sock) = Inl ValueError"
proof -
  have size: "length (dumps (encode v)) < 2 ^ 32"
    using assms(2) by (auto simp: send_msg_def Let_def split: if_splits)
  obtain s1 where "recv_exact 4 4 sock = (Inr (pack_u32 (length (dumps (encode v)))), s1)"
    using recv_exact_split [OF assms(1), of 4 4] assms(3) send_msg_frame [OF assms(2)] by auto
  with size assms(4) show ?thesis by (simp add: recv_msg_def unpack_pack_u32 Let_def)
qed

end
