(* ===== verification/Adapter_Files.thy ===== *)
theory Adapter_Files
  imports Lora_Layers Text_Format
begin

text \<open>
  Loading an adapter, \<open>src/src/worker/model_builder.py\<close>: which paths a worker trusts, how
  it finds the files, and how the tensors of the file become the modules of the layers. The
  file system and the Hub are parameters: which names are directories, their real paths,
  and what the configuration and the weights there are. \<open>/\<close> is the separator.
\<close>

section \<open>Paths\<close>

record file_system =
  fs_isdir :: "string \<Rightarrow> bool"
  fs_realpath :: "string \<Rightarrow> string"
  fs_hub :: "string \<Rightarrow> py_error + string"

definition starts_with :: "string \<Rightarrow> string \<Rightarrow> bool" where
  "starts_with s pre = (take (length pre) s = pre)"

definition ends_with :: "string \<Rightarrow> string \<Rightarrow> bool" where
  "ends_with s post = (length post \<le> length s \<and> drop (length s - length post) s = post)"

text \<open>\<open>os.path.dirname\<close>: up to the last separator, without separators at its end unless it has nothing else.\<close>

definition dirname :: "string \<Rightarrow> string" where
  "dirname p =
     (let head = rev (dropWhile (\<lambda>c. c \<noteq> CHR ''/'') (rev p))
      in if list_all (\<lambda>c. c = CHR ''/'') head then head
         else rev (dropWhile (\<lambda>c. c = CHR ''/'') (rev head)))"

definition register_adapter_base_dir :: "file_system \<Rightarrow> string \<Rightarrow> string pyset \<Rightarrow> string pyset" where
  "register_adapter_base_dir fs base_dir bases =
     (let real = fs_realpath fs base_dir in if real \<in> set bases then bases else bases @ [real])"

text \<open>\<open>_HF_REPO_RE\<close>: two non-empty names; its \<open>$\<close> also matches before a final newline.\<close>

definition hf_char :: "char \<Rightarrow> bool" where
  "hf_char c \<longleftrightarrow> (let n = of_char c :: nat
     in (97 \<le> n \<and> n \<le> 122) \<or> (65 \<le> n \<and> n \<le> 90) \<or> (48 \<le> n \<and> n \<le> 57) \<or> c \<in> set ''_.-'')"

definition hf_repo_match :: "string \<Rightarrow> bool" where
  "hf_repo_match s =
     (let t = (if s \<noteq> [] \<and> last s = CHR 0x0A then butlast s else s)
      in case split_on (CHR ''/'') t of
           [owner, repo] \<Rightarrow> owner \<noteq> [] \<and> repo \<noteq> [] \<and> list_all hf_char owner \<and> list_all hf_char repo
         | _ \<Rightarrow> False)"

definition looks_like_hf :: "string \<Rightarrow> bool" where
  "looks_like_hf p = (hf_repo_match p \<and> ''..'' \<notin> set (split_on (CHR ''/'') p))"

definition validate_adapter_id :: "file_system \<Rightarrow> string pyset \<Rightarrow> string \<Rightarrow> py_error + unit" where
  "validate_adapter_id fs bases p =
     (if p = [] \<or> CHR 0x00 \<in> set p \<or> 512 < length p then Inl ValueError
      else if fs_isdir fs p \<or> \<not> looks_like_hf p
      then let real = fs_realpath fs p
           in if bases \<noteq> []
              then (if list_ex (\<lambda>base. starts_with real (base @ ''/'') \<or> real = base) bases then Inr ()
                    else Inl ValueError)
              else if contains ''../'' p \<or> ends_with p ''..'' then Inl ValueError else Inr ()
      else Inr ())"

definition resolve_lora_path :: "file_system \<Rightarrow> string \<Rightarrow> py_error + string" where
  "resolve_lora_path fs p = (if fs_isdir fs p then Inr (fs_realpath fs p) else fs_hub fs p)"

text \<open>What \<open>FaaSWorker.__init__\<close> keeps: the adapter it starts with, the trusted directories and its GPU.\<close>

definition worker_lora_id :: "string \<Rightarrow> adapter \<Rightarrow> string" where
  "worker_lora_id default_adapter lora_id = (if truthy lora_id then the lora_id else default_adapter)"

definition path_shaped :: "string \<Rightarrow> bool" where
  "path_shaped lora \<longleftrightarrow> CHR ''/'' \<in> set lora \<or> starts_with lora ''.''"

definition worker_bases :: "file_system \<Rightarrow> string \<Rightarrow> string pyset \<Rightarrow> string pyset" where
  "worker_bases fs lora bases =
     (if path_shaped lora
      then register_adapter_base_dir fs (dirname (dirname (fs_realpath fs lora))) bases
      else bases)"

definition worker_device_idx :: "string \<Rightarrow> py_error + int" where
  "worker_device_idx device =
     (if CHR '':'' \<in> set device then parse_int (last (split_on (CHR '':'') device)) else Inr 0)"

section \<open>The files of an adapter\<close>

record lora_config =
  lc_r :: "int option"
  lc_lora_alpha :: "pyfloat option"

type_synonym lora_weight_file = "(string, matrix) dict"

record adapter_files =
  af_config :: "py_error + lora_config"
  af_safetensors :: "lora_weight_file option"
  af_bin :: bool

definition load_lora_raw :: "(string \<Rightarrow> adapter_files) \<Rightarrow> string \<Rightarrow> py_error + lora_weight_file \<times> lora_config" where
  "load_lora_raw disk path =
     and_then (af_config (disk path)) (\<lambda>config.
       case af_safetensors (disk path) of
         Some weights \<Rightarrow> Inr (weights, config)
       | None \<Rightarrow> if af_bin (disk path) then Inl ValueError else Inl FileNotFoundError)"

text \<open>\<open>config.get('lora_alpha', config['r']) / config['r']\<close>.\<close>

definition lora_scaling :: "lora_config \<Rightarrow> py_error + pyfloat" where
  "lora_scaling config =
     (case lc_r config of
        None \<Rightarrow> Inl KeyError
      | Some r \<Rightarrow>
          let alpha = (case lc_lora_alpha config of None \<Rightarrow> of_int r | Some a \<Rightarrow> a)
          in if r = 0 then Inl ZeroDivisionError else Inr (alpha / of_int r))"

text \<open>The name of a tensor: the layer, the module and whether it is \<open>lora_A\<close> or \<open>lora_B\<close>.\<close>

definition parse_weight_key :: "string \<Rightarrow> py_error + int \<times> string \<times> string" where
  "parse_weight_key key =
     (let parts = split_on (CHR ''.'') key
      in if length parts \<le> 4 then Inl IndexError
         else and_then (parse_int (parts ! 4)) (\<lambda>layer_idx.
           if length parts \<le> 6 then Inl IndexError
           else Inr (layer_idx, parts ! 5 @ ''.'' @ parts ! 6, parts ! (length parts - 2))))"

type_synonym raw_modules = "(int, (string, (string, matrix option) dict) dict) dict"

definition add_weight :: "int \<Rightarrow> string \<Rightarrow> string \<Rightarrow> matrix \<Rightarrow> raw_modules \<Rightarrow> raw_modules" where
  "add_weight layer_idx module_name lora_type tensor raw =
     (let modules = dict_get raw layer_idx [];
          entry = dict_get modules module_name [(''lora_A'', None), (''lora_B'', None)]
      in AList.update layer_idx (AList.update module_name (AList.update lora_type (Some tensor) entry) modules) raw)"

fun organize_weights :: "lora_weight_file \<Rightarrow> raw_modules \<Rightarrow> py_error + raw_modules" where
  "organize_weights [] raw = Inr raw"
| "organize_weights ((key, tensor) # ws) raw =
     and_then (parse_weight_key key) (\<lambda>(layer_idx, module_name, lora_type).
       organize_weights ws (add_weight layer_idx module_name lora_type tensor raw))"

text \<open>\<open>FastLoRAModule(lora_A, lora_B, scaling)\<close> reads the shapes of both.\<close>

definition new_fast_lora :: "pyfloat \<Rightarrow> (string, matrix option) dict \<Rightarrow> py_error + fast_lora" where
  "new_fast_lora scaling entry =
     (case (dict_get entry ''lora_A'' None, dict_get entry ''lora_B'' None) of
        (Some a, Some b) \<Rightarrow> Inr \<lparr>fm_A = a, fm_B = b, fm_scaling = scaling\<rparr>
      | _ \<Rightarrow> Inl AttributeError)"

fun map_dict :: "('v \<Rightarrow> py_error + 'w) \<Rightarrow> ('k, 'v) dict \<Rightarrow> py_error + ('k, 'w) dict" where
  "map_dict f [] = Inr []"
| "map_dict f ((k, v) # d) = and_then (f v) (\<lambda>w. and_then (map_dict f d) (\<lambda>d'. Inr ((k, w) # d')))"

definition load_lora_fast ::
  "file_system \<Rightarrow> (string \<Rightarrow> adapter_files) \<Rightarrow> string pyset \<Rightarrow> string \<Rightarrow> py_error + lora_layers \<times> lora_config" where
  "load_lora_fast fs disk bases p =
     and_then (validate_adapter_id fs bases p) (\<lambda>_.
     and_then (resolve_lora_path fs p) (\<lambda>path.
     and_then (load_lora_raw disk path) (\<lambda>(weights, config).
     and_then (lora_scaling config) (\<lambda>scaling.
     and_then (organize_weights weights []) (\<lambda>raw.
     and_then (map_dict (map_dict (new_fast_lora scaling)) raw) (\<lambda>lls. Inr (lls, config)))))))"

section \<open>A worker only reads adapters below its directories\<close>

definition below :: "string \<Rightarrow> string \<Rightarrow> bool" where
  "below base p \<longleftrightarrow> p = base \<or> starts_with p (base @ ''/'')"

lemma validate_local:
  assumes "validate_adapter_id fs bases p = Inr ()" "fs_isdir fs p" "bases \<noteq> []"
  shows "\<exists>base \<in> set bases. below base (fs_realpath fs p)"
  using assms by (auto simp: validate_adapter_id_def Let_def below_def list_ex_iff split: if_splits)

text \<open>Without a trusted directory only explicit steps upwards are refused.\<close>

lemma validate_untrusted:
  assumes "p \<noteq> []" "CHR 0x00 \<notin> set p" "length p \<le> 512" "\<not> contains ''../'' p" "\<not> ends_with p ''..''"
  shows "validate_adapter_id fs [] p = Inr ()"
  using assms by (simp add: validate_adapter_id_def Let_def)

lemma load_lora_fast_local:
  assumes "load_lora_fast fs disk bases p = Inr r" "fs_isdir fs p" "bases \<noteq> []"
  shows "\<exists>base \<in> set bases. below base (fs_realpath fs p)"
  using assms validate_local by (auto simp: load_lora_fast_def and_then_Inr)

text \<open>A trusted directory that is the root admits only itself: no path starts with two separators.\<close>

lemma root_base_admits_nothing:
  assumes "\<not> looks_like_hf p \<or> fs_isdir fs p" "\<not> starts_with (fs_realpath fs p) ''//''" "fs_realpath fs p \<noteq> ''/''"
  shows "validate_adapter_id fs [''/''] p = Inl ValueError"
  using assms by (auto simp: validate_adapter_id_def Let_def)

section \<open>The modules of the file\<close>

definition all_scaled :: "pyfloat \<Rightarrow> lora_layers \<Rightarrow> bool" where
  "all_scaled s lls \<longleftrightarrow> (\<forall>i name m. get_lora_module lls i name = Some m \<longrightarrow> fm_scaling m = s)"

lemma map_dict_of:
  "map_dict f d = Inr d' \<Longrightarrow> rel_option (\<lambda>v w. f v = Inr w) (map_of d k) (map_of d' k)"
  by (induction f d arbitrary: d' rule: map_dict.induct) (auto simp: and_then_Inr)

lemma loaded_module:
  assumes "map_dict (map_dict (new_fast_lora s)) raw = Inr lls" "get_lora_module lls i name = Some m"
  shows "\<exists>entry. map_of (dict_get raw i []) name = Some entry \<and> new_fast_lora s entry = Inr m"
proof -
  obtain ms where ms: "map_of lls i = Some ms" "map_of ms name = Some m"
    using assms(2) by (auto simp: get_lora_module_def split: option.splits)
  from map_dict_of [OF assms(1), of i] ms obtain modules where
    modules: "map_of raw i = Some modules" "map_dict (new_fast_lora s) modules = Inr ms"
    by (auto simp: option_rel_Some2)
  from map_dict_of [OF modules(2), of name] ms modules(1) show ?thesis
    by (auto simp: option_rel_Some2 dict_get_def)
qed

lemma load_lora_fast_scaled:
  assumes "load_lora_fast fs disk bases p = Inr (lls, config)"
  shows "\<exists>s. lora_scaling config = Inr s \<and> all_scaled s lls"
proof -
  obtain s raw where "lora_scaling config = Inr s" "map_dict (map_dict (new_fast_lora s)) raw = Inr lls"
    using assms by (auto simp: load_lora_fast_def and_then_Inr)
  then show ?thesis
    using loaded_module
    by (fastforce simp: all_scaled_def new_fast_lora_def split: option.splits)
qed

text \<open>The names PEFT writes are read back.\<close>

definition weight_key :: "int \<Rightarrow> string \<Rightarrow> string \<Rightarrow> string \<Rightarrow> string" where
  "weight_key i block proj lora_type =
     join_with ''.'' [''base_model'', ''model'', ''model'', ''layers'', str_int i, block, proj, lora_type, ''weight'']"

lemma parse_weight_key_of:
  assumes "CHR ''.'' \<notin> set block" "CHR ''.'' \<notin> set proj" "CHR ''.'' \<notin> set lora_type"
  shows "parse_weight_key (weight_key i block proj lora_type) = Inr (i, block @ ''.'' @ proj, lora_type)"
proof -
  have "CHR ''.'' \<notin> set (str_int i)"
    using str_int_chars [of "CHR ''.''" i] by (auto simp: is_digit_def)
  then have "split_on (CHR ''.'') (weight_key i block proj lora_type) =
      [''base_model'', ''model'', ''model'', ''layers'', str_int i, block, proj, lora_type, ''weight'']"
    unfolding weight_key_def using assms by (intro split_join) auto
  then show ?thesis by (simp add: parse_weight_key_def)
qed

text \<open>The tensor filed for a module, and the last tensor of the file whose name says so.\<close>

definition raw_at :: "raw_modules \<Rightarrow> int \<Rightarrow> string \<Rightarrow> string \<Rightarrow> matrix option" where
  "raw_at raw i name t = dict_get (dict_get (dict_get raw i []) name []) t None"

definition weight_at :: "lora_weight_file \<Rightarrow> int \<Rightarrow> string \<Rightarrow> string \<Rightarrow> matrix option" where
  "weight_at ws i name t = map_of (rev (map (apfst parse_weight_key) ws)) (Inr (i, name, t))"

lemma raw_at_add:
  "raw_at (add_weight i name t x raw) j other u =
     (if j = i \<and> other = name \<and> u = t then Some x else raw_at raw j other u)"
  by (auto simp: raw_at_def add_weight_def dict_get_def Let_def update_conv' split: option.split)

lemma organize_weights_at:
  "organize_weights ws raw = Inr raw' \<Longrightarrow>
     raw_at raw' i name t = (case weight_at ws i name t of Some x \<Rightarrow> Some x | None \<Rightarrow> raw_at raw i name t)"
proof (induction ws raw rule: organize_weights.induct)
  case (2 key tensor ws raw)
  then obtain j other u where key: "parse_weight_key key = Inr (j, other, u)"
    "organize_weights ws (add_weight j other u tensor raw) = Inr raw'" by (auto simp: and_then_Inr)
  with 2 show ?case
    by (auto simp: weight_at_def map_add_def raw_at_add and_then_Inr split: option.split)
qed (simp add: weight_at_def)

text \<open>The loaded modules are the pairs of tensors of the file, with the scaling of its configuration.\<close>

lemma load_lora_fast_modules:
  assumes "load_lora_fast fs disk bases p = Inr (lls, config)" "resolve_lora_path fs p = Inr path"
    "af_safetensors (disk path) = Some weights" "get_lora_module lls i name = Some m"
  shows "weight_at weights i name ''lora_A'' = Some (fm_A m) \<and> weight_at weights i name ''lora_B'' = Some (fm_B m) \<and>
    lora_scaling config = Inr (fm_scaling m)"
proof -
  obtain s raw where s: "lora_scaling config = Inr s" "organize_weights weights [] = Inr raw"
    "map_dict (map_dict (new_fast_lora s)) raw = Inr lls"
    using assms(1-3) by (auto simp: load_lora_fast_def and_then_Inr load_lora_raw_def)
  obtain entry where entry: "map_of (dict_get raw i []) name = Some entry" "new_fast_lora s entry = Inr m"
    using loaded_module [OF s(3) assms(4)] by blast
  then have "raw_at raw i name ''lora_A'' = Some (fm_A m)" "raw_at raw i name ''lora_B'' = Some (fm_B m)"
    "fm_scaling m = s"
    by (auto simp: raw_at_def new_fast_lora_def dict_get_def split: option.splits)
  then show ?thesis
    using s(1) organize_weights_at [OF s(2)] by (auto simp: raw_at_def dict_get_def split: option.splits)
qed

lemma load_lora_fast_complete:
  assumes "load_lora_fast fs disk bases p = Inr (lls, config)" "resolve_lora_path fs p = Inr path"
    "af_safetensors (disk path) = Some weights" "weight_at weights i name t = Some x"
  shows "get_lora_module lls i name \<noteq> None"
proof -
  obtain s raw where s: "organize_weights weights [] = Inr raw" "map_dict (map_dict (new_fast_lora s)) raw = Inr lls"
    using assms(1-3) by (auto simp: load_lora_fast_def and_then_Inr load_lora_raw_def)
  have "raw_at raw i name t = Some x" using organize_weights_at [OF s(1)] assms(4) by simp
  then obtain ms entry where "map_of raw i = Some ms" "map_of ms name = Some entry"
    by (auto simp: raw_at_def dict_get_def split: option.splits)
  with map_dict_of [OF s(2), of i] map_dict_of [of "new_fast_lora s" ms _ name]
  show ?thesis by (auto simp: get_lora_module_def option_rel_Some1)
qed

end
