(* ===== verification/Adapter_Swap.thy ===== *)
theory Adapter_Swap
  imports Lora_Facts Adapter_Files
begin

text \<open>
  Hot swap of the adapter of a running worker, \<open>src/src/worker/adapter_manager.py\<close>. The
  model is changed in place, layer by layer, so an exception leaves what was changed before
  it: an operation returns the exception, if any, with the new state. A swap holds the
  manager's lock from its start to its end and is one step.
\<close>

section \<open>The manager\<close>

record adapter_manager =
  am_current_adapter_id :: adapter
  am_current_rank :: int
  am_current_config :: "lora_config option"

definition new_adapter_manager :: adapter_manager where
  "new_adapter_manager = \<lparr>am_current_adapter_id = None, am_current_rank = 0, am_current_config = None\<rparr>"

definition set_adapter :: "string \<Rightarrow> int \<Rightarrow> lora_config \<Rightarrow> adapter_manager \<Rightarrow> adapter_manager" where
  "set_adapter adapter_id rank config am =
     am\<lparr>am_current_adapter_id := Some adapter_id, am_current_rank := rank, am_current_config := Some config\<rparr>"

section \<open>Same rank: the weights are overwritten\<close>

definition update_fused_lora :: "fast_lora option list \<Rightarrow> pyfloat \<Rightarrow> fused_lora \<Rightarrow> py_error option \<times> fused_lora" where
  "update_fused_lora ms s f =
     (case fl_params f of
        None \<Rightarrow> (None, f)
      | Some (a, b) \<Rightarrow>
          (case valid_modules ms of
             [] \<Rightarrow> (None, f)
           | v # _ \<Rightarrow>
               let rank = mx_rows (fm_A v); dims = fl_out_dims f
               in (case collect_weights (mx_rows a) rank (\<lambda>_. s) ms dims of
                     Inl e \<Rightarrow> (Some e, f)
                   | Inr ws \<Rightarrow>
                       (case and_then (mx_cat (map fst ws)) (mx_copy a) of
                          Inl e \<Rightarrow> (Some e, f)
                        | Inr a' \<Rightarrow>
                            (case and_then (fill_diagonal rank 0 0 (map snd ws) dims
                                              (mx_zeros (rank * length ms) (sum_list dims))) (mx_copy b) of
                               Inl e \<Rightarrow> (Some e, f\<lparr>fl_params := Some (a', b)\<rparr>)
                             | Inr b' \<Rightarrow> (None, f\<lparr>fl_params := Some (a', b')\<rparr>))))))"

definition update_single_lora :: "fast_lora option \<Rightarrow> pyfloat \<Rightarrow> remote_linear \<Rightarrow> py_error option \<times> remote_linear" where
  "update_single_lora m s l =
     (case (l, m) of
        (Remote_lora a b sc, Some new) \<Rightarrow>
          (case mx_copy a (fm_A new) of
             Inl e \<Rightarrow> (Some e, l)
           | Inr a' \<Rightarrow>
               (case mx_copy b (fm_B new) of
                  Inl e \<Rightarrow> (Some e, Remote_lora a' b sc)
                | Inr b' \<Rightarrow> (None, Remote_lora a' b' s)))
      | _ \<Rightarrow> (None, l))"

definition update_group :: "fast_lora option list \<Rightarrow> pyfloat \<Rightarrow> fused_lora option \<Rightarrow> py_error option \<times> fused_lora option" where
  "update_group ms s g = (case g of None \<Rightarrow> (None, None) | Some f \<Rightarrow> apsnd Some (update_fused_lora ms s f))"

text \<open>The four parts of a layer in their order; an exception ends the sequence.\<close>

definition update_layer :: "lora_layers \<Rightarrow> pyfloat \<Rightarrow> int \<Rightarrow> decoder_layer \<Rightarrow> py_error option \<times> decoder_layer" where
  "update_layer lls s i layer =
     (let (e1, qkv) = update_group (map (get_lora_module lls i) qkv_names) s (dl_qkv layer);
          l1 = layer\<lparr>dl_qkv := qkv\<rparr>
      in if e1 \<noteq> None then (e1, l1)
         else let (e2, gu) = update_group (map (get_lora_module lls i) gate_up_names) s (dl_gate_up l1);
                  l2 = l1\<lparr>dl_gate_up := gu\<rparr>
         in if e2 \<noteq> None then (e2, l2)
         else let (e3, op) = update_single_lora (get_lora_module lls i ''self_attn.o_proj'') s (dl_o_proj l2);
                  l3 = l2\<lparr>dl_o_proj := op\<rparr>
         in if e3 \<noteq> None then (e3, l3)
         else let (e4, dp) = update_single_lora (get_lora_module lls i ''mlp.down_proj'') s (dl_down_proj l3)
         in (e4, l3\<lparr>dl_down_proj := dp\<rparr>))"

fun over_layers ::
  "(int \<Rightarrow> decoder_layer \<Rightarrow> py_error option \<times> decoder_layer) \<Rightarrow> int \<Rightarrow> decoder_layer list \<Rightarrow> py_error option \<times> decoder_layer list" where
  "over_layers f i [] = (None, [])"
| "over_layers f i (l # ls) =
     (case f i l of
        (Some e, l') \<Rightarrow> (Some e, l' # ls)
      | (None, l') \<Rightarrow> apsnd ((#) l') (over_layers f (i + 1) ls))"

definition update_lora_weights :: "lora_layers \<Rightarrow> lora_config \<Rightarrow> decoder_layer list \<Rightarrow> py_error option \<times> decoder_layer list" where
  "update_lora_weights lls config layers =
     (case lora_scaling config of
        Inl e \<Rightarrow> (Some e, layers)
      | Inr s \<Rightarrow> over_layers (update_layer lls s) 0 layers)"

section \<open>Another rank: the modules are made anew\<close>

definition zero_fused :: "fused_lora \<Rightarrow> fused_lora" where
  "zero_fused f = f\<lparr>fl_params := map_option (\<lambda>(a, b). (mx_zeroed a, mx_zeroed b)) (fl_params f)\<rparr>"

definition zero_remote :: "remote_linear \<Rightarrow> remote_linear" where
  "zero_remote l = (case l of Remote_linear \<Rightarrow> l | Remote_lora a b s \<Rightarrow> Remote_lora (mx_zeroed a) (mx_zeroed b) s)"

definition zero_layer :: "decoder_layer \<Rightarrow> decoder_layer" where
  "zero_layer layer = layer\<lparr>dl_qkv := map_option zero_fused (dl_qkv layer),
     dl_gate_up := map_option zero_fused (dl_gate_up layer),
     dl_o_proj := zero_remote (dl_o_proj layer), dl_down_proj := zero_remote (dl_down_proj layer)\<rparr>"

definition recreate_remote :: "fast_lora option \<Rightarrow> pyfloat \<Rightarrow> remote_linear \<Rightarrow> remote_linear" where
  "recreate_remote m s l =
     (case (l, m) of
        (Remote_lora a b sc, Some new) \<Rightarrow> Remote_lora (fm_A new) (fm_B new) s
      | _ \<Rightarrow> l)"

definition recreate_layer ::
  "lora_layers \<Rightarrow> nat list \<Rightarrow> nat list \<Rightarrow> pyfloat \<Rightarrow> int \<Rightarrow> decoder_layer \<Rightarrow> py_error option \<times> decoder_layer" where
  "recreate_layer lls qdims gdims s i layer =
     (case fused_or_none (map (get_lora_module lls i) qkv_names) qdims of
        Inl e \<Rightarrow> (Some e, layer)
      | Inr qkv \<Rightarrow>
          (case fused_or_none (map (get_lora_module lls i) gate_up_names) gdims of
             Inl e \<Rightarrow> (Some e, layer\<lparr>dl_qkv := qkv\<rparr>)
           | Inr gu \<Rightarrow>
               (None, layer\<lparr>dl_qkv := qkv, dl_gate_up := gu,
                  dl_o_proj := recreate_remote (get_lora_module lls i ''self_attn.o_proj'') s (dl_o_proj layer),
                  dl_down_proj := recreate_remote (get_lora_module lls i ''mlp.down_proj'') s (dl_down_proj layer)\<rparr>)))"

definition recreate_lora_modules ::
  "model_info \<Rightarrow> lora_layers \<Rightarrow> lora_config \<Rightarrow> decoder_layer list \<Rightarrow> py_error option \<times> decoder_layer list" where
  "recreate_lora_modules info lls config layers =
     (let zeroed = map zero_layer layers
      in case lora_scaling config of
           Inl e \<Rightarrow> (Some e, zeroed)
         | Inr s \<Rightarrow>
             (case qkv_dims info of
                Inl e \<Rightarrow> (Some e, zeroed)
              | Inr qdims \<Rightarrow> over_layers (recreate_layer lls qdims (gate_up_dims info) s) 0 zeroed))"

section \<open>The swap\<close>

datatype swap_result =
    Swapped "adapter" string int int bool
  | Swap_failed py_error

text \<open>
  \<open>loaded\<close> is what \<open>load_lora_fast\<close> returns for the new adapter; \<open>sync\<close> is the exception
  of \<open>torch.cuda.synchronize\<close>, if it raises one.
\<close>

definition swap_adapter ::
  "model_info \<Rightarrow> py_error + lora_layers \<times> lora_config \<Rightarrow> py_error option \<Rightarrow> string \<Rightarrow>
     adapter_manager \<Rightarrow> decoder_layer list \<Rightarrow> swap_result \<times> adapter_manager \<times> decoder_layer list" where
  "swap_adapter info loaded sync new_id am layers =
     (case loaded of
        Inl e \<Rightarrow> (Swap_failed e, am, layers)
      | Inr (lls, config) \<Rightarrow>
          (case lc_r config of
             None \<Rightarrow> (Swap_failed KeyError, am, layers)
           | Some new_rank \<Rightarrow>
               let old_rank = am_current_rank am;
                   rank_changed = (old_rank \<noteq> new_rank \<and> old_rank \<noteq> 0);
                   (e, layers') = (if rank_changed then recreate_lora_modules info lls config layers
                                   else update_lora_weights lls config layers)
               in (case (e, sync) of
                     (Some er, _) \<Rightarrow> (Swap_failed er, am, layers')
                   | (None, Some er) \<Rightarrow> (Swap_failed er, am, layers')
                   | (None, None) \<Rightarrow>
                       (Swapped (am_current_adapter_id am) new_id old_rank new_rank rank_changed,
                        am\<lparr>am_current_adapter_id := Some new_id, am_current_rank := new_rank,
                           am_current_config := Some config\<rparr>, layers'))))"

section \<open>What a swap installs\<close>

text \<open>
  What the model must have been built for: o_proj and down_proj are targeted by both
  adapters or by none; without a change of rank, so are the groups of the fused
  projections.
\<close>

definition any_module :: "lora_layers \<Rightarrow> int \<Rightarrow> string list \<Rightarrow> bool" where
  "any_module lls i names = list_ex (\<lambda>m. m \<noteq> None) (modules_of lls i names)"

definition can_host :: "bool \<Rightarrow> lora_layers \<Rightarrow> lora_layers \<Rightarrow> int \<Rightarrow> bool" where
  "can_host rank_changed old new i \<longleftrightarrow>
     (get_lora_module old i ''self_attn.o_proj'' = None) = (get_lora_module new i ''self_attn.o_proj'' = None) \<and>
     (get_lora_module old i ''mlp.down_proj'' = None) = (get_lora_module new i ''mlp.down_proj'' = None) \<and>
     (rank_changed \<or> (any_module old i qkv_names = any_module new i qkv_names \<and>
                       any_module old i gate_up_names = any_module new i gate_up_names))"

definition scaled :: "pyfloat \<Rightarrow> fast_lora option \<Rightarrow> bool" where
  "scaled s m \<longleftrightarrow> (\<forall>l. m = Some l \<longrightarrow> fm_scaling l = s)"

lemma block_weights_scaled:
  "list_all (scaled s) ms \<Longrightarrow> block_weights nin rank (\<lambda>_. s) ms dims = block_weights nin rank fm_scaling ms dims"
  unfolding block_weights_def
  by (rule map_cong) (auto simp: lora_weights_def scaled_def list_all_iff split: option.split dest!: set_zip_leftD)

lemma mx_copy_same:
  "mx_rows src = mx_rows dst \<Longrightarrow> mx_cols src = mx_cols dst \<Longrightarrow> mx_ok src \<Longrightarrow> mx_copy dst src = Inr src"
  unfolding mx_copy_def
  using mk_matrix_at [of src] mk_matrix_cong [of "mx_rows dst" "mx_rows src" "mx_cols dst" "mx_cols src"
      "\<lambda>i j. mx_at src (bc (mx_rows src) i) (bc (mx_cols src) j)" "mx_at src"]
  by (simp add: fits_def bc_below)

lemma update_fused_of:
  assumes "length old = length dims" "list_all2 (module_fits nin rank) ms dims" "list_ex (\<lambda>m. m \<noteq> None) ms"
    "list_all (scaled s) ms"
  shows "update_fused_lora ms s (fused_of nin rank old dims) = (None, fused_of nin rank ms dims)"
proof -
  obtain v vs where v: "valid_modules ms = v # vs" "mx_rows (fm_A v) = rank"
    using valid_modules_cases [OF assms(3,2)] by blast
  have len: "length ms = length dims" using assms(2) by (rule list_all2_lengthD)
  have "ms \<noteq> []" using assms(3) by auto
  note parts = fused_parts [OF assms(2) this block_weights_scaled [OF assms(4), symmetric]]
  show ?thesis
    using v parts assms(1) len by (simp add: update_fused_lora_def fused_of_def Let_def mx_copy_same)
qed

lemma update_group_of:
  assumes "length old = length dims" "list_all2 (module_fits nin rank) ms dims"
    "list_ex (\<lambda>m. m \<noteq> None) old = list_ex (\<lambda>m. m \<noteq> None) ms" "list_all (scaled s) ms"
  shows "update_group ms s (group_of nin rank old dims) = (None, group_of nin rank ms dims)"
  using update_fused_of [OF assms(1,2) _ assms(4)] assms(3) by (simp add: update_group_def group_of_def)

lemma update_single_of:
  assumes "module_fits nin rank old out" "module_fits nin rank m out" "(old = None) = (m = None)" "scaled s m"
  shows "update_single_lora m s (remote_of old) = (None, remote_of m)"
  using assms
  by (cases old; cases m) (simp_all add: update_single_lora_def remote_of_def module_fits_def scaled_def mx_copy_same)

lemma recreate_remote_of:
  "(old = None) = (m = None) \<Longrightarrow> scaled s m \<Longrightarrow> recreate_remote m s (zero_remote (remote_of old)) = remote_of m"
  by (cases old; cases m) (simp_all add: recreate_remote_def zero_remote_def remote_of_def scaled_def)

lemma update_layer_of:
  assumes fits: "layer_fits info qdims rank old i" "layer_fits info qdims rank new i"
    and host: "can_host False old new i" and s: "all_scaled s new"
  shows "update_layer new s i (layer_of info qdims rank old i) = (None, layer_of info qdims rank new i)"
proof -
  note fits' = fits [unfolded layer_fits_def Let_def] and host' = host [unfolded can_host_def any_module_def]
  have scaled: "scaled s (get_lora_module new i name)" "list_all (scaled s) (modules_of new i names)" for name names
    using s by (auto simp: all_scaled_def scaled_def list_all_iff)
  have "update_group (modules_of new i qkv_names) s (dl_qkv (layer_of info qdims rank old i)) =
      (None, dl_qkv (layer_of info qdims rank new i))"
    unfolding layer_of_def decoder_layer.simps
    using fits' host' scaled(2) by (intro update_group_of) (auto dest: list_all2_lengthD)
  moreover have "update_group (modules_of new i gate_up_names) s (dl_gate_up (layer_of info qdims rank old i)) =
      (None, dl_gate_up (layer_of info qdims rank new i))"
    unfolding layer_of_def decoder_layer.simps
    using fits' host' scaled(2) by (intro update_group_of) (auto dest: list_all2_lengthD)
  moreover have "update_single_lora (get_lora_module new i ''self_attn.o_proj'') s (dl_o_proj (layer_of info qdims rank old i)) =
      (None, dl_o_proj (layer_of info qdims rank new i))"
    "update_single_lora (get_lora_module new i ''mlp.down_proj'') s (dl_down_proj (layer_of info qdims rank old i)) =
      (None, dl_down_proj (layer_of info qdims rank new i))"
    unfolding layer_of_def decoder_layer.simps
    using fits' host' by (auto intro!: update_single_of [OF _ _ _ scaled(1)])
  ultimately show ?thesis by (simp add: update_layer_def Let_def)
qed

lemma recreate_layer_of:
  assumes "layer_fits info qdims rank' new i" "can_host True old new i" "all_scaled s new"
  shows "recreate_layer new qdims (gate_up_dims info) s i (zero_layer (layer_of info qdims rank old i)) =
    (None, layer_of info qdims rank' new i)"
proof -
  note fits = assms(1) [unfolded layer_fits_def Let_def]
  have "scaled s (get_lora_module new i name)" for name using assms(3) by (auto simp: all_scaled_def scaled_def)
  moreover have "fused_or_none (modules_of new i qkv_names) qdims =
      Inr (group_of (mi_hidden_size info) rank' (modules_of new i qkv_names) qdims)"
    "fused_or_none (modules_of new i gate_up_names) (gate_up_dims info) =
      Inr (group_of (mi_hidden_size info) rank' (modules_of new i gate_up_names) (gate_up_dims info))"
    using fits fused_or_none_of by blast+
  ultimately show ?thesis
    using assms(2) by (simp add: recreate_layer_def zero_layer_def layer_of_def recreate_remote_of can_host_def)
qed

lemma over_layers_of:
  "(\<And>j. j < length ls \<Longrightarrow> f (i + int j) (ls ! j) = (None, g (i + int j))) \<Longrightarrow>
     over_layers f i ls = (None, map (\<lambda>j. g (i + int j)) [0..<length ls])"
proof (induction ls arbitrary: i)
  case (Cons l ls)
  have "f i l = (None, g i)" using Cons.prems [of 0] by simp
  moreover have "f (i + 1 + int j) (ls ! j) = (None, g (i + 1 + int j))" if "j < length ls" for j
    using Cons.prems [of "Suc j"] that by (simp add: add.assoc)
  ultimately show ?case
    using Cons.IH [of "i + 1"] by (simp add: map_upt_Suc add.assoc del: upt_Suc)
qed simp

text \<open>A swap turns the model of the old adapter into the model of the new one.\<close>

lemma swap_adapter_installs:
  assumes q: "qkv_dims info = Inr qdims"
    and fits: "adapter_fits info rank old n" "adapter_fits info rank' new n"
    and ranks: "am_current_rank am = int rank" "0 < rank" "lc_r config = Some (int rank')"
    and s: "lora_scaling config = Inr s" "all_scaled s new"
    and host: "\<forall>i<n. can_host (rank \<noteq> rank') old new (int i)"
  shows "swap_adapter info (Inr (new, config)) None new_id am (model_of info qdims rank old n) =
    (Swapped (am_current_adapter_id am) new_id (int rank) (int rank') (rank \<noteq> rank'),
     am\<lparr>am_current_adapter_id := Some new_id, am_current_rank := int rank', am_current_config := Some config\<rparr>,
     model_of info qdims rank' new n)"
proof -
  have layer: "layer_fits info qdims rank old (int i)" "layer_fits info qdims rank' new (int i)" if "i < n" for i
    using that adapter_fits_layer [OF fits(1)] adapter_fits_layer [OF fits(2)] q by auto
  show ?thesis
  proof (cases "rank = rank'")
    case True
    have "update_layer new s (0 + int i) (model_of info qdims rank old n ! i) = (None, layer_of info qdims rank new (0 + int i))"
      if "i < length (model_of info qdims rank old n)" for i
      using update_layer_of [OF layer(1) _ _ s(2)] layer(2) host True that by (simp add: model_of_def)
    from over_layers_of [where g = "layer_of info qdims rank new", OF this] show ?thesis
      using True ranks s(1) by (simp add: swap_adapter_def update_lora_weights_def Let_def) (simp add: model_of_def)
  next
    case False
    have "recreate_layer new qdims (gate_up_dims info) s (0 + int i) (map zero_layer (model_of info qdims rank old n) ! i) =
        (None, layer_of info qdims rank' new (0 + int i))"
      if "i < length (map zero_layer (model_of info qdims rank old n))" for i
      using recreate_layer_of [OF layer(2) _ s(2)] host False that by (simp add: model_of_def)
    from over_layers_of [where g = "layer_of info qdims rank' new", OF this] show ?thesis
      using False ranks s(1) q
      by (simp add: swap_adapter_def recreate_lora_modules_def Let_def) (simp add: model_of_def)
  qed
qed

section \<open>What a swap leaves\<close>

lemma swap_adapter_failed:
  assumes "swap_adapter info loaded sync new_id am layers = (Swap_failed e, am', layers')"
  shows "am' = am" "loaded = Inl e' \<Longrightarrow> layers' = layers"
  using assms by (auto simp: swap_adapter_def Let_def split: sum.splits option.splits prod.splits)

lemma swap_adapter_done:
  assumes "swap_adapter info loaded sync new_id am layers = (Swapped old_id new_id' r r' changed, am', layers')"
  shows "am_current_adapter_id am' = Some new_id" "sync = None" "\<exists>lls config. loaded = Inr (lls, config) \<and>
    lc_r config = Some (am_current_rank am') \<and> am_current_config am' = Some config"
  using assms by (auto simp: swap_adapter_def Let_def split: sum.splits option.splits prod.splits)

text \<open>
  Without a change of rank, a fused group none of whose projections the new adapter targets
  keeps the weights of the old adapter; an untargeted single projection does too, and a
  projection the worker was not built with stays without.
\<close>

lemma update_keeps_untargeted:
  "valid_modules ms = [] \<Longrightarrow> update_group ms s g = (None, g)"
  "update_single_lora None s l = (None, l)"
  "update_group ms s None = (None, None)" "update_single_lora m s Remote_linear = (None, Remote_linear)"
  by (auto simp: update_group_def update_fused_lora_def update_single_lora_def split: option.split remote_linear.split)

lemma update_layer_keeps_qkv:
  assumes "update_layer new s i layer = (None, layer')" "\<not> any_module new i qkv_names"
  shows "dl_qkv layer' = dl_qkv layer"
proof -
  have "valid_modules (modules_of new i qkv_names) = []"
    using assms(2) by (auto simp: any_module_def valid_modules_def list_ex_iff filter_empty_conv)
  then show ?thesis
    using assms(1) update_keeps_untargeted(1) [of "modules_of new i qkv_names" s "dl_qkv layer"]
    by (auto simp: update_layer_def Let_def split: prod.splits if_splits)
qed

end
