(* ===== verification/Worker_Http.thy ===== *)
theory Worker_Http
  imports Engine_Requests Wire_Format Text_Format Adapter_Swap
begin

text \<open>
  The HTTP server of a worker, \<open>src/src/worker/worker_sync.py\<close>: the handlers of
  \<open>/inference\<close>, \<open>/swap_adapter\<close>, \<open>/adapter_info\<close>, \<open>/health\<close> and \<open>/shutdown\<close> in front of
  the engine. The inference handler is two steps, since it waits for the engine's future
  between them. A body is a JSON value, or one Flask could not read. What the tokenizer
  makes of a prompt that is a list or an object and the reading of decimal fractions are
  parameters.
\<close>

section \<open>JSON values as Python reads them\<close>

fun py_truthy :: "pyval \<Rightarrow> bool" where
  "py_truthy PNone = False"
| "py_truthy (PBool b) = b"
| "py_truthy (PInt n) = (n \<noteq> 0)"
| "py_truthy (PFloat f) = (f \<noteq> 0)"
| "py_truthy (PStr s) = (s \<noteq> [])"
| "py_truthy (PBytes b) = (b \<noteq> [])"
| "py_truthy (PList xs) = (xs \<noteq> [])"
| "py_truthy (PDict d) = (d \<noteq> [])"

record json_reading =
  jr_float :: "string \<Rightarrow> py_error + pyfloat"
  jr_prompt :: "pyval \<Rightarrow> string"

fun int_of_json :: "pyval \<Rightarrow> py_error + int" where
  "int_of_json (PInt n) = Inr n"
| "int_of_json (PBool b) = Inr (if b then 1 else 0)"
| "int_of_json (PFloat f) = Inr (py_int f)"
| "int_of_json (PStr s) = parse_int s"
| "int_of_json _ = Inl TypeError"

fun float_of_json :: "json_reading \<Rightarrow> pyval \<Rightarrow> py_error + pyfloat" where
  "float_of_json jr (PInt n) = Inr (of_int n)"
| "float_of_json jr (PBool b) = Inr (if b then 1 else 0)"
| "float_of_json jr (PFloat f) = Inr f"
| "float_of_json jr (PStr s) = jr_float jr s"
| "float_of_json jr _ = Inl TypeError"

definition clamp :: "'a::linorder \<Rightarrow> 'a \<Rightarrow> 'a \<Rightarrow> 'a" where
  "clamp lo hi x = max lo (min x hi)"

section \<open>State\<close>

record http_worker =
  hw_worker_id :: int
  hw_device :: string
  hw_initialized :: bool
  hw_running :: bool
  hw_permits :: nat
  hw_waiting :: "string list"
  hw_engine :: engine
  hw_manager :: "adapter_manager option"
  hw_layers :: "decoder_layer list"

record http_config =
  hc_max_slots :: nat
  hc_engine :: engine_config
  hc_info :: model_info
  hc_json :: json_reading

text \<open>What \<open>initialize\<close> and the start of the server leave.\<close>

definition http_init :: "http_config \<Rightarrow> int \<Rightarrow> string \<Rightarrow> engine \<Rightarrow> adapter_manager \<Rightarrow> decoder_layer list \<Rightarrow> http_worker" where
  "http_init hc worker_id device e am layers =
     \<lparr>hw_worker_id = worker_id, hw_device = device, hw_initialized = True, hw_running = True,
      hw_permits = hc_max_slots hc, hw_waiting = [], hw_engine = e, hw_manager = Some am, hw_layers = layers\<rparr>"

section \<open>A request for inference\<close>

datatype json_body = Bad_json | Json pyval

definition body_dict :: "pyval \<Rightarrow> py_error + (string \<times> pyval) list" where
  "body_dict v =
     (if py_truthy v then (case v of PDict d \<Rightarrow> Inr d | _ \<Rightarrow> Inl AttributeError) else Inr [])"

definition arrival_of :: "json_reading \<Rightarrow> pyfloat \<Rightarrow> pyval \<Rightarrow> py_error + pyfloat option" where
  "arrival_of jr now v =
     (if v = PNone then Inr None
      else case float_of_json jr v of
             Inr a \<Rightarrow> Inr (Some (if 60 < \<bar>now - a\<bar> then now else a))
           | Inl e \<Rightarrow> if e = TypeError \<or> e = ValueError then Inr (Some now) else Inl e)"

text \<open>\<open>len(prompt) > limit\<close> and \<open>prompt[-limit:]\<close>, for a prompt that is true.\<close>

definition cut_prompt :: "json_reading \<Rightarrow> nat \<Rightarrow> pyval \<Rightarrow> py_error + string" where
  "cut_prompt jr limit prompt =
     (case prompt of
        PStr s \<Rightarrow> Inr (take_last limit s)
      | PList xs \<Rightarrow> Inr (jr_prompt jr (PList (take_last limit xs)))
      | PDict d \<Rightarrow> if limit < length d then Inl TypeError else Inr (jr_prompt jr prompt)
      | _ \<Rightarrow> Inl TypeError)"

text \<open>The deadline is handed on as it is; nothing looks at it before the engine compares it with the time.\<close>

fun deadline_of_json :: "pyval \<Rightarrow> slo_deadline" where
  "deadline_of_json PNone = No_deadline"
| "deadline_of_json (PInt n) = Deadline (of_int n)"
| "deadline_of_json (PFloat f) = Deadline f"
| "deadline_of_json (PBool b) = Deadline (if b then 1 else 0)"
| "deadline_of_json _ = Not_a_number"

text \<open>The fields in the order they are read; \<open>None\<close> for a prompt that is not true.\<close>

definition parse_inference ::
  "http_config \<Rightarrow> pyfloat \<Rightarrow> string \<Rightarrow> (string \<times> pyval) list \<Rightarrow> py_error + inf_request option" where
  "parse_inference hc now uid data =
     (let jr = hc_json hc; limit = ec_max_seq_len (hc_engine hc); prompt = dict_get data ''prompt'' (PStr '''')
      in and_then (int_of_json (dict_get data ''max_tokens'' (PInt 256))) (\<lambda>max_tokens.
         and_then (float_of_json jr (dict_get data ''temperature'' (PFloat 1))) (\<lambda>temperature.
         and_then (int_of_json (dict_get data ''top_k'' (PInt 0))) (\<lambda>top_k.
         and_then (float_of_json jr (dict_get data ''top_p'' (PFloat 1))) (\<lambda>top_p.
         and_then (arrival_of jr now (dict_get data ''arrival_time'' PNone)) (\<lambda>arrival.
         if \<not> py_truthy prompt then Inr None
         else and_then (cut_prompt jr (nat (limit * 6)) prompt) (\<lambda>text.
           Inr (Some \<lparr>rq_id = uid, rq_prompt = text, rq_max_tokens = clamp 1 limit max_tokens,
             rq_do_sample = py_truthy (dict_get data ''do_sample'' (PBool False)),
             rq_temperature = clamp (1/100) 100 temperature, rq_top_k = clamp 0 100000 top_k,
             rq_top_p = clamp 0 1 top_p,
             rq_submit_time = (case arrival of None \<Rightarrow> now | Some a \<Rightarrow> a),
             rq_slo_deadline_wall = deadline_of_json (dict_get data ''slo_deadline_wall'' PNone)\<rparr>))))))))"

text \<open>
  A handler answers with a status, or its exception reaches Flask (400 for a body Flask
  refuses, 500 otherwise), or it waits for its future.
\<close>

datatype http_reply =
    Status int
  | Uncaught int
  | Waiting string
  | Text string outcome adapter

definition take_permit :: "http_worker \<Rightarrow> http_worker" where
  "take_permit s = s\<lparr>hw_permits := hw_permits s - 1\<rparr>"

definition give_permit :: "http_worker \<Rightarrow> http_worker" where
  "give_permit s = s\<lparr>hw_permits := hw_permits s + 1\<rparr>"

definition inference_begin :: "http_config \<Rightarrow> json_body \<Rightarrow> pyfloat \<Rightarrow> string \<Rightarrow> http_worker \<Rightarrow> http_reply \<times> http_worker" where
  "inference_begin hc body now uid s =
     (if \<not> hw_running s then (Status 503, s)
      else if hw_permits s = 0 then (Status 503, s)
      else let s1 = take_permit s
           in case body of
                Bad_json \<Rightarrow> (Uncaught 400, s1)
              | Json v \<Rightarrow>
                  (case and_then (body_dict v) (parse_inference hc now uid) of
                     Inl e \<Rightarrow> (Uncaught 500, s1)
                   | Inr None \<Rightarrow> (Status 400, give_permit s1)
                   | Inr (Some req) \<Rightarrow>
                       (Waiting uid, s1\<lparr>hw_engine := submit_request req (hw_engine s1),
                                        hw_waiting := hw_waiting s1 @ [uid]\<rparr>)))"

text \<open>
  The future is done, or the wait timed out. The adapter of the reply is the one the worker
  has when it is written.
\<close>

definition inference_end :: "bool \<Rightarrow> string \<Rightarrow> http_worker \<Rightarrow> http_reply option \<times> http_worker" where
  "inference_end timed_out uid s =
     (if uid \<notin> set (hw_waiting s) then (None, s)
      else let s1 = give_permit (s\<lparr>hw_waiting := remove1 uid (hw_waiting s)\<rparr>)
           in case map_of (en_settled (hw_engine s)) uid of
                Some (Generated ts n r) \<Rightarrow>
                  (Some (Text uid (Generated ts n r) (case hw_manager s of None \<Rightarrow> None | Some am \<Rightarrow> am_current_adapter_id am)), s1)
              | Some Slo_pruned \<Rightarrow> (Some (Status 500), s1)
              | Some Failed \<Rightarrow> (Some (Status 500), s1)
              | None \<Rightarrow> if timed_out then (Some (Status 500), s1) else (None, s))"

section \<open>The other handlers\<close>

definition http_shutdown :: "http_worker \<Rightarrow> http_worker" where
  "http_shutdown s = s\<lparr>hw_running := False\<rparr>"

text \<open>\<open>_validate_adapter_id\<close> on a value that is not a string: the tests for a zero byte and the length, then the regular expression refuses it.\<close>

definition validate_json_id :: "file_system \<Rightarrow> string pyset \<Rightarrow> pyval \<Rightarrow> py_error + unit" where
  "validate_json_id fs bases v =
     (case v of
        PStr p \<Rightarrow> validate_adapter_id fs bases p
      | PList xs \<Rightarrow> if PStr [CHR 0x00] \<in> set xs \<or> 512 < length xs then Inl ValueError else Inl TypeError
      | PDict d \<Rightarrow> if [CHR 0x00] \<in> set (dict_keys d) \<or> 512 < length d then Inl ValueError else Inl TypeError
      | _ \<Rightarrow> Inl TypeError)"

definition swap_handler ::
  "http_config \<Rightarrow> file_system \<Rightarrow> (string \<Rightarrow> adapter_files) \<Rightarrow> string pyset \<Rightarrow> py_error option \<Rightarrow> json_body \<Rightarrow>
     http_worker \<Rightarrow> http_reply \<times> http_worker" where
  "swap_handler hc fs disk bases sync body s =
     (case body of
        Bad_json \<Rightarrow> (Uncaught 400, s)
      | Json v \<Rightarrow>
          (case body_dict v of
             Inl e \<Rightarrow> (Uncaught 500, s)
           | Inr data \<Rightarrow>
               let new_id = dict_get data ''adapter_id'' PNone
               in if \<not> py_truthy new_id then (Status 400, s)
                  else case validate_json_id fs bases new_id of
                    Inl e \<Rightarrow> if e = ValueError then (Status 400, s) else (Uncaught 500, s)
                  | Inr _ \<Rightarrow>
                      if \<not> hw_initialized s then (Status 503, s)
                      else case (hw_manager s, new_id) of
                        (Some am, PStr p) \<Rightarrow>
                          if am_current_adapter_id am = Some p then (Status 200, s)
                          else (case swap_adapter (hc_info hc) (load_lora_fast fs disk bases p) sync p am (hw_layers s) of
                                  (Swapped old_id p' r r' changed, am', layers') \<Rightarrow>
                                    (Status 200, s\<lparr>hw_manager := Some am', hw_layers := layers'\<rparr>)
                                | (Swap_failed e, am', layers') \<Rightarrow>
                                    (Status 500, s\<lparr>hw_manager := Some am', hw_layers := layers'\<rparr>))
                      | _ \<Rightarrow> (Status 503, s)))"

record worker_adapter_info =
  wa_adapter_id :: adapter
  wa_rank :: int
  wa_worker_id :: int
  wa_device :: string
  wa_initialized :: bool

definition adapter_info :: "http_worker \<Rightarrow> worker_adapter_info" where
  "adapter_info s =
     \<lparr>wa_adapter_id = (case hw_manager s of None \<Rightarrow> None | Some am \<Rightarrow> am_current_adapter_id am),
      wa_rank = (case hw_manager s of None \<Rightarrow> 0 | Some am \<Rightarrow> am_current_rank am),
      wa_worker_id = hw_worker_id s, wa_device = hw_device s, wa_initialized = hw_initialized s\<rparr>"

record worker_health =
  wh_ready :: bool
  wh_active_slots :: nat
  wh_pending_slots :: nat
  wh_max_seq_len :: int
  wh_total_seq_len :: int
  wh_num_prefill :: nat
  wh_num_decode :: nat

definition worker_health_of :: "http_worker \<Rightarrow> worker_health" where
  "worker_health_of s =
     (let e = hw_engine s; seq_lens = dict_values (kv_seq_lens (en_kv e));
          prefill = filter (\<lambda>(sid, st). ss_prefill_chunks st \<noteq> []) (en_active e)
      in \<lparr>wh_ready = hw_initialized s, wh_active_slots = length (en_active e),
          wh_pending_slots = length (en_pending e),
          wh_max_seq_len = (if seq_lens = [] then 0 else Max (set seq_lens)),
          wh_total_seq_len = sum_list seq_lens, wh_num_prefill = length prefill,
          wh_num_decode = length (en_active e) - length prefill\<rparr>)"

section \<open>The worker as a machine\<close>

datatype http_event =
    Inference_begin json_body pyfloat string
  | Inference_end bool string
  | Engine_event engine_event
  | Swap_request file_system "string \<Rightarrow> adapter_files" "string pyset" "py_error option" json_body
  | Shutdown

definition http_step :: "http_config \<Rightarrow> http_event \<Rightarrow> http_worker \<Rightarrow> http_reply option \<times> http_worker" where
  "http_step hc ev s =
     (case ev of
        Inference_begin body now uid \<Rightarrow> apfst Some (inference_begin hc body now uid s)
      | Inference_end timed_out uid \<Rightarrow> inference_end timed_out uid s
      | Engine_event ee \<Rightarrow>
          (None, case ee of Submit _ \<Rightarrow> s | _ \<Rightarrow> s\<lparr>hw_engine := engine_step (hc_engine hc) ee (hw_engine s)\<rparr>)
      | Swap_request fs disk bases sync body \<Rightarrow> apfst Some (swap_handler hc fs disk bases sync body s)
      | Shutdown \<Rightarrow> (Some (Status 200), http_shutdown s))"

fun http_run :: "http_config \<Rightarrow> http_event list \<Rightarrow> http_worker \<Rightarrow> http_worker" where
  "http_run hc [] s = s"
| "http_run hc (ev # evs) s = http_run hc evs (snd (http_step hc ev s))"

end
