(* ===== verification/Worker_Http_Facts.thy ===== *)
theory Worker_Http_Facts
  imports Worker_Http
begin

text \<open>
  What the HTTP server of a worker keeps: its permits are given back by every path of the
  inference handler but an exception, what reaches the engine is within the limits, a run of
  the server is a run of the engine, and when the engine is idle every waiting handler has
  its answer. A swap request changes the adapter only after the guards.
\<close>

section \<open>Permits\<close>

text \<open>A permit is lost when the inference handler raises.\<close>

definition lost_permit :: "http_config \<Rightarrow> http_event \<Rightarrow> http_worker \<Rightarrow> nat" where
  "lost_permit hc ev s =
     (case ev of
        Inference_begin body now uid \<Rightarrow>
          (case fst (inference_begin hc body now uid s) of Uncaught _ \<Rightarrow> 1 | _ \<Rightarrow> 0)
      | _ \<Rightarrow> 0)"

fun lost_permits :: "http_config \<Rightarrow> http_event list \<Rightarrow> http_worker \<Rightarrow> nat" where
  "lost_permits hc [] s = 0"
| "lost_permits hc (ev # evs) s = lost_permit hc ev s + lost_permits hc evs (snd (http_step hc ev s))"

lemma permit_taken [simp]:
  "hw_permits (take_permit s) = hw_permits s - 1" "hw_waiting (take_permit s) = hw_waiting s"
  "hw_engine (take_permit s) = hw_engine s" "hw_running (take_permit s) = hw_running s"
  "hw_permits (give_permit s) = hw_permits s + 1" "hw_waiting (give_permit s) = hw_waiting s"
  "hw_engine (give_permit s) = hw_engine s" "hw_running (give_permit s) = hw_running s"
  by (simp_all add: take_permit_def give_permit_def)

lemma swap_handler_frame:
  "hw_permits (snd (swap_handler hc fs disk bases sync body s)) = hw_permits s"
  "hw_waiting (snd (swap_handler hc fs disk bases sync body s)) = hw_waiting s"
  "hw_engine (snd (swap_handler hc fs disk bases sync body s)) = hw_engine s"
  "hw_running (snd (swap_handler hc fs disk bases sync body s)) = hw_running s"
  by (auto simp: swap_handler_def Let_def split: json_body.split sum.split option.split pyval.split
           prod.split swap_result.split)

lemma inference_begin_permits:
  "hw_permits (snd (inference_begin hc body now uid s)) + length (hw_waiting (snd (inference_begin hc body now uid s))) +
     lost_permit hc (Inference_begin body now uid) s = hw_permits s + length (hw_waiting s)"
  by (auto simp: inference_begin_def lost_permit_def Let_def split: json_body.split sum.split option.split)

lemma inference_end_permits:
  "hw_permits (snd (inference_end t uid s)) + length (hw_waiting (snd (inference_end t uid s))) =
     hw_permits s + length (hw_waiting s)"
  by (cases "uid \<in> set (hw_waiting s)")
     (auto simp: inference_end_def Let_def length_remove1 dest: length_pos_if_in_set split: option.split outcome.split)

lemma http_step_permits:
  "hw_permits (snd (http_step hc ev s)) + length (hw_waiting (snd (http_step hc ev s))) + lost_permit hc ev s =
     hw_permits s + length (hw_waiting s)"
  using inference_begin_permits inference_end_permits
  by (cases ev) (auto simp: http_step_def lost_permit_def http_shutdown_def swap_handler_frame split: engine_event.split)

lemma http_run_permits:
  "hw_permits (http_run hc evs s) + length (hw_waiting (http_run hc evs s)) + lost_permits hc evs s =
     hw_permits s + length (hw_waiting s)"
proof (induction evs arbitrary: s)
  case (Cons ev evs)
  show ?case using Cons [of "snd (http_step hc ev s)"] http_step_permits [of hc ev s] by simp
qed simp

text \<open>Without permits and without waiting handlers, the worker refuses every request from then on.\<close>

lemma exhausted_run:
  assumes "hw_permits s = 0" "hw_waiting s = []"
  shows "fst (inference_begin hc body now uid (http_run hc evs s)) = Status 503"
proof -
  have "hw_permits (http_run hc evs s) = 0" using http_run_permits [of hc evs s] assms by simp
  then show ?thesis by (simp add: inference_begin_def)
qed

lemma malformed_request_blocks:
  assumes "hc_max_slots hc = 1" "and_then (body_dict v) (parse_inference hc now uid) = Inl e"
    "s = http_init hc w d en am layers"
  shows "fst (inference_begin hc (Json v) now uid s) = Uncaught 500"
    "fst (inference_begin hc body now' uid' (http_run hc evs (snd (inference_begin hc (Json v) now uid s)))) = Status 503"
proof -
  have "inference_begin hc (Json v) now uid s = (Uncaught 500, take_permit s)"
    using assms by (simp add: inference_begin_def http_init_def)
  then show "fst (inference_begin hc (Json v) now uid s) = Uncaught 500"
    "fst (inference_begin hc body now' uid' (http_run hc evs (snd (inference_begin hc (Json v) now uid s)))) = Status 503"
    using exhausted_run [of "take_permit s"] assms by (simp_all add: http_init_def)
qed

section \<open>What reaches the engine\<close>

definition submits :: "http_config \<Rightarrow> http_event \<Rightarrow> http_worker \<Rightarrow> engine_event list" where
  "submits hc ev s =
     (case ev of
        Inference_begin (Json v) now uid \<Rightarrow>
          if hw_running s \<and> hw_permits s \<noteq> 0
          then (case and_then (body_dict v) (parse_inference hc now uid) of
                  Inr (Some req) \<Rightarrow> [Submit req]
                | _ \<Rightarrow> [])
          else []
      | Engine_event ee \<Rightarrow> (case ee of Submit _ \<Rightarrow> [] | _ \<Rightarrow> [ee])
      | _ \<Rightarrow> [])"

fun engine_trace :: "http_config \<Rightarrow> http_event list \<Rightarrow> http_worker \<Rightarrow> engine_event list" where
  "engine_trace hc [] s = []"
| "engine_trace hc (ev # evs) s = submits hc ev s @ engine_trace hc evs (snd (http_step hc ev s))"

lemma engine_run_append: "engine_run cfg (xs @ ys) e = engine_run cfg ys (engine_run cfg xs e)"
  by (induction xs arbitrary: e) simp_all

lemma http_step_engine:
  "hw_engine (snd (http_step hc ev s)) = engine_run (hc_engine hc) (submits hc ev s) (hw_engine s)"
proof (cases ev)
  case (Inference_begin body now uid)
  then show ?thesis
    by (auto simp: http_step_def inference_begin_def submits_def Let_def engine_step_def
             split: json_body.split sum.split option.split)
next
  case (Inference_end t uid)
  then show ?thesis
    by (auto simp: http_step_def inference_end_def submits_def Let_def split: option.split outcome.split)
next
  case (Engine_event ee)
  then show ?thesis by (cases ee) (simp_all add: http_step_def submits_def)
qed (simp_all add: http_step_def submits_def swap_handler_frame http_shutdown_def)

lemma http_run_engine:
  "hw_engine (http_run hc evs s) = engine_run (hc_engine hc) (engine_trace hc evs s) (hw_engine s)"
  by (induction evs arbitrary: s) (simp_all add: engine_run_append http_step_engine)

text \<open>The sampling parameters and the length are within their limits.\<close>

definition request_in_limits :: "http_config \<Rightarrow> inf_request \<Rightarrow> bool" where
  "request_in_limits hc req \<longleftrightarrow> 1 \<le> rq_max_tokens req \<and> rq_max_tokens req \<le> max 1 (ec_max_seq_len (hc_engine hc)) \<and>
     1/100 \<le> rq_temperature req \<and> rq_temperature req \<le> 100 \<and> 0 \<le> rq_top_k req \<and> rq_top_k req \<le> 100000 \<and>
     0 \<le> rq_top_p req \<and> rq_top_p req \<le> 1"

lemma clamp_bounds: "lo \<le> clamp lo hi x" "clamp lo hi x \<le> max lo hi"
  by (auto simp: clamp_def min_le_iff_disj le_max_iff_disj)

lemma parse_inference_limits:
  assumes "parse_inference hc now uid data = Inr (Some req)"
  shows "request_in_limits hc req" "rq_id req = uid"
proof -
  obtain mt t k p where "req = \<lparr>rq_id = uid, rq_prompt = rq_prompt req,
      rq_max_tokens = clamp 1 (ec_max_seq_len (hc_engine hc)) mt,
      rq_do_sample = py_truthy (dict_get data ''do_sample'' (PBool False)),
      rq_temperature = clamp (1/100) 100 t, rq_top_k = clamp 0 100000 k, rq_top_p = clamp 0 1 p,
      rq_submit_time = rq_submit_time req, rq_slo_deadline_wall = rq_slo_deadline_wall req\<rparr>"
    using assms by (auto simp: parse_inference_def Let_def and_then_Inr split: if_splits)
  then show "request_in_limits hc req" "rq_id req = uid"
    using clamp_bounds [of "1 :: int"] clamp_bounds [of "1/100 :: pyfloat" 100 t] clamp_bounds [of "0 :: int" 100000 k]
      clamp_bounds [of "0 :: pyfloat" 1 p]
    by (cases req; simp add: request_in_limits_def)+
qed

lemma submitted_limits:
  assumes "Submit req \<in> set (engine_trace hc evs s)"
  shows "request_in_limits hc req"
  using assms
proof (induction evs arbitrary: s)
  case (Cons ev evs)
  have "request_in_limits hc req" if mem: "Submit req \<in> set (submits hc ev s)"
  proof (cases ev)
    case (Inference_begin body now uid)
    show ?thesis
    proof (cases body)
      case Bad_json
      then show ?thesis using mem Inference_begin by (simp add: submits_def)
    next
      case (Json v)
      define r where "r = and_then (body_dict v) (parse_inference hc now uid)"
      have "Submit req \<in> set (case r of Inr (Some req) \<Rightarrow> [Submit req] | _ \<Rightarrow> [])"
        using mem Inference_begin Json
        by (cases "hw_running s \<and> hw_permits s \<noteq> 0") (simp_all only: submits_def r_def http_event.case json_body.case
          simp_thms if_True if_False list.set empty_iff)
      then have "r = Inr (Some req)" by (auto split: sum.splits option.splits)
      then show ?thesis using parse_inference_limits(1) by (auto simp: r_def and_then_Inr)
    qed
  next
    case (Engine_event ee)
    then show ?thesis using mem by (cases ee) (simp_all add: submits_def)
  qed (insert mem, auto simp: submits_def)
  with Cons show ?case by auto
qed simp

lemma parsed_prompt_length:
  assumes "parse_inference hc now uid data = Inr (Some req)" "dict_get data ''prompt'' (PStr '''') = PStr p"
  shows "length (rq_prompt req) \<le> nat (ec_max_seq_len (hc_engine hc) * 6)"
  using assms
  by (auto simp: parse_inference_def Let_def and_then_Inr cut_prompt_def take_last_def split: if_splits)

section \<open>Every handler gets its answer\<close>

lemma inference_begin_waiting:
  "set (hw_waiting (snd (inference_begin hc body now uid s))) \<subseteq>
     set (hw_waiting s) \<union> {i. i \<in># submitted (submits hc (Inference_begin body now uid) s)}"
  by (auto simp: inference_begin_def submits_def Let_def and_then_Inr dest: parse_inference_limits(2)
           split: json_body.split sum.split option.split)

lemma submitted_append: "submitted (xs @ ys) = submitted xs + submitted ys"
  by (induction xs rule: submitted.induct) simp_all

lemma http_run_waiting:
  "set (hw_waiting (http_run hc evs s)) \<subseteq> set (hw_waiting s) \<union> {i. i \<in># submitted (engine_trace hc evs s)}"
proof (induction evs arbitrary: s)
  case (Cons ev evs)
  have "set (hw_waiting (snd (http_step hc ev s))) \<subseteq> set (hw_waiting s) \<union> {i. i \<in># submitted (submits hc ev s)}"
  proof (cases ev)
    case (Inference_begin body now uid)
    then show ?thesis using inference_begin_waiting [of hc body now uid s] by (simp add: http_step_def)
  next
    case (Inference_end t uid)
    then show ?thesis
      using set_remove1_subset [of uid "hw_waiting s"]
      by (auto simp: http_step_def inference_end_def Let_def split: option.split outcome.split)
  qed (auto simp: http_step_def swap_handler_frame http_shutdown_def split: engine_event.splits)
  with Cons [of "snd (http_step hc ev s)"] show ?case by (auto simp: submitted_append)
qed simp

text \<open>A waiting handler whose future is done replies and gives its permit back.\<close>

lemma inference_end_settled:
  assumes "uid \<in> set (hw_waiting s)" "uid \<in> set (settled_ids (hw_engine s))"
  shows "\<exists>reply. fst (inference_end t uid s) = Some reply \<and>
    hw_permits (snd (inference_end t uid s)) = hw_permits s + 1"
proof -
  obtain out where "map_of (en_settled (hw_engine s)) uid = Some out"
    using assms(2) by (auto simp: settled_ids_def dest: weak_map_of_SomeI)
  then show ?thesis
    using assms(1) by (auto simp: inference_end_def Let_def split: outcome.split)
qed

lemma inference_end_timed_out:
  assumes "uid \<in> set (hw_waiting s)"
  shows "\<exists>reply. fst (inference_end True uid s) = Some reply \<and>
    hw_permits (snd (inference_end True uid s)) = hw_permits s + 1"
  using assms by (auto simp: inference_end_def Let_def split: option.split outcome.split)

section \<open>Swap requests\<close>

lemma swap_handler_ok:
  assumes "swap_handler hc fs disk bases sync (Json v) s = (Status 200, s')"
  shows "\<exists>data p. body_dict v = Inr data \<and> dict_get data ''adapter_id'' PNone = PStr p \<and>
    wa_adapter_id (adapter_info s') = Some p \<and> hw_initialized s \<and> validate_adapter_id fs bases p = Inr ()"
  using assms
  by (auto simp: swap_handler_def Let_def validate_json_id_def adapter_info_def dest: swap_adapter_done
           split: sum.splits option.splits pyval.splits prod.splits swap_result.splits if_splits)

lemma swap_handler_refused:
  assumes "swap_handler hc fs disk bases sync body s = (reply, s')" "reply \<noteq> Status 200"
  shows "adapter_info s' = adapter_info s"
  using assms
  by (auto simp: swap_handler_def Let_def adapter_info_def dest: swap_adapter_failed(1)
           split: json_body.splits sum.splits option.splits pyval.splits prod.splits swap_result.splits if_splits)

lemma health_counts:
  "wh_num_prefill (worker_health_of s) + wh_num_decode (worker_health_of s) = wh_active_slots (worker_health_of s)"
  by (simp add: worker_health_of_def Let_def)

end
