(* ===== verification/Node_Examples.thy ===== *)
theory Node_Examples
  imports Examples Worker_Examples Node_Agent_Inv Wire_Format Worker_Http_Facts
begin

text \<open>
  Small concrete inputs for the node agent, the wire format, the adapters and the HTTP
  server of a worker.
\<close>

section \<open>A node with two GPUs\<close>

definition ex_gpus :: "gpu_info list" where
  "ex_gpus = [\<lparr>gp_name = ''A100'', gp_memory_total_mb = 81920, gp_memory_free_mb = 81000, gp_index = 0\<rparr>,
     \<lparr>gp_name = ''A100'', gp_memory_total_mb = 81920, gp_memory_free_mb = 81000, gp_index = 1\<rparr>]"

definition ex_agent_cfg :: agent_config where
  "ex_agent_cfg = default_agent_config\<lparr>ac_scheduler := ''lorant'', ac_max_workers := 8\<rparr>"

definition ex_launch :: launch_input where
  "ex_launch = \<lparr>li_stop_controller = Terminated, li_stop_aggregator = Terminated, li_popen_ok = True, li_exits = False,
     li_ready = True, li_controller_ok = True, li_kill = Killed\<rparr>"

definition ex_agent :: node_agent where
  "ex_agent = agent_run [Launch ex_launch False (Some ''m'') None] node_agent_init"

lemma ex_agent_state: "na_alive ex_agent = [1, 2]" "na_aggregator ex_agent = Some 1" "na_controller ex_agent = Some 2"
  by code_simp+

lemma ex_agent_running: "is_controller_running ex_agent" "is_aggregator_running ex_agent"
  by code_simp+

text \<open>The aggregator dies, the monitor restarts it; then everything is stopped.\<close>

definition ex_agent_evs :: "agent_event list" where
  "ex_agent_evs = [Launch ex_launch False (Some ''m'') None, Process_exit 1, Monitor ex_launch, Monitor ex_launch]"

lemma ex_agent_evs_clean: "\<forall>ev \<in> set ex_agent_evs. clean ev"
  by (simp add: ex_agent_evs_def clean_def ex_launch_def)

lemma ex_agent_evs_run: "na_alive (agent_run ex_agent_evs node_agent_init) = [2, 3]"
  by code_simp

definition ex_identity :: agent_identity where
  "ex_identity = \<lparr>ai_node_id = ''n'', ai_host = ''h'', ai_port = 9000, ai_register_host = [], ai_register_port = 0,
     ai_gpu_type = ''A100'', ai_gpu_memory_gb = 80\<rparr>"

section \<open>Messages\<close>

definition ex_msg :: pyval where
  "ex_msg = PDict [(''type'', PStr ''norms''), (''w'', PList [PBytes [1, 255, 0], PInt 3])]"

lemma ex_msg_no_marker: "no_marker ex_msg"
  by (simp add: ex_msg_def b64_key_def)

text \<open>A toy of a JSON library for this one message, and its frame in three chunks.\<close>

definition ex_dumps :: "pyval \<Rightarrow> bytes" where
  "ex_dumps v = (if v = encode ex_msg then [123, 125] else [110])"

definition ex_loads :: "bytes \<Rightarrow> py_error + pyval" where
  "ex_loads b = (if b = [123, 125] then Inr (encode ex_msg) else Inl ValueError)"

definition ex_sock :: "bytes list" where
  "ex_sock = [[0, 0], [0, 2, 123], [125, 7]]"

lemma ex_sock_frame: "open_sock ex_sock" "concat ex_sock = concat (map (\<lambda>v. projr (send_msg ex_dumps v)) [ex_msg]) @ [7]"
  by (simp_all add: open_sock_def ex_sock_def send_msg_def ex_dumps_def pack_u32_def)

section \<open>Two adapters on one layer\<close>

definition ex_info :: model_info where
  "ex_info = \<lparr>mi_hidden_size = 1, mi_num_heads = 1, mi_num_kv_heads = 1, mi_intermediate_size = 1\<rparr>"

definition mx1 :: "pyfloat \<Rightarrow> matrix" where
  "mx1 x = mk_matrix 1 1 (\<lambda>_ _. x)"

definition ex_old :: lora_layers where
  "ex_old = [(0, [(''self_attn.q_proj'', \<lparr>fm_A = mx1 2, fm_B = mx1 3, fm_scaling = 1\<rparr>)])]"

definition ex_key :: "string \<Rightarrow> string" where
  "ex_key t = ''base_model.model.model.layers.0.self_attn.q_proj.'' @ t @ ''.weight''"

definition ex_config :: lora_config where
  "ex_config = \<lparr>lc_r = Some 1, lc_lora_alpha = Some 2\<rparr>"

definition ex_disk :: "string \<Rightarrow> adapter_files" where
  "ex_disk path = \<lparr>af_config = Inr ex_config,
     af_safetensors = Some [(ex_key ''lora_A'', mx1 5), (ex_key ''lora_B'', mx1 7)], af_bin = False\<rparr>"

definition ex_fs :: file_system where
  "ex_fs = \<lparr>fs_isdir = (\<lambda>_. True), fs_realpath = (\<lambda>p. p), fs_hub = (\<lambda>_. Inl ValueError)\<rparr>"

definition ex_new :: lora_layers where
  "ex_new = [(0, [(''self_attn.q_proj'', \<lparr>fm_A = mx1 5, fm_B = mx1 7, fm_scaling = 2\<rparr>)])]"

lemma ex_key_parse: "parse_weight_key (ex_key ''lora_A'') = Inr (0, ''self_attn.q_proj'', ''lora_A'')"
  "parse_weight_key (ex_key ''lora_B'') = Inr (0, ''self_attn.q_proj'', ''lora_B'')"
  by code_simp+

lemma ex_validate: "validate_adapter_id ex_fs (worker_bases ex_fs ''/a/p/x'' []) ''/a/q/y'' = Inr ()"
  by code_simp

lemma ex_resolve: "resolve_lora_path ex_fs p = Inr p"
  by (simp add: resolve_lora_path_def ex_fs_def)

lemma ex_load: "load_lora_fast ex_fs ex_disk (worker_bases ex_fs ''/a/p/x'' []) ''/a/q/y'' = Inr (ex_new, ex_config)"
  by (simp add: load_lora_fast_def ex_validate ex_resolve load_lora_raw_def ex_disk_def
      lora_scaling_def ex_config_def ex_key_parse add_weight_def dict_get_def new_fast_lora_def ex_new_def)

lemma ex_fits: "adapter_fits ex_info 1 ex_old 1" "adapter_fits ex_info 1 ex_new 1"
  by (simp_all add: adapter_fits_def qkv_dims_def ex_info_def layer_fits_def get_lora_module_def ex_old_def ex_new_def
      qkv_names_def gate_up_names_def gate_up_dims_def module_fits_def mx1_def)

lemma ex_host: "can_host b ex_old ex_new 0"
  by (simp add: can_host_def any_module_def get_lora_module_def ex_old_def ex_new_def qkv_names_def gate_up_names_def)

definition ex_manager :: adapter_manager where
  "ex_manager = set_adapter ''/a/p/x'' 1 \<lparr>lc_r = Some 1, lc_lora_alpha = None\<rparr> new_adapter_manager"

definition ex_layers :: "decoder_layer list" where
  "ex_layers = model_of ex_info [1, 1, 1] 1 ex_old 1"

lemma ex_dims: "qkv_dims ex_info = Inr [1, 1, 1]"
  by (simp add: qkv_dims_def ex_info_def)

lemma ex_layers_built: "build_lora_model ex_info 1 ex_old = Inr ex_layers"
  using build_lora_model_of [OF ex_fits(1) ex_dims] by (simp add: ex_layers_def)

section \<open>A worker's server\<close>

definition ex_json :: json_reading where
  "ex_json = \<lparr>jr_float = (\<lambda>_. Inl ValueError), jr_prompt = (\<lambda>_. [])\<rparr>"

definition ex_hc :: http_config where
  "ex_hc = \<lparr>hc_max_slots = 1, hc_engine = ex_cfg, hc_info = ex_info, hc_json = ex_json\<rparr>"

definition ex_server :: http_worker where
  "ex_server = http_init ex_hc 0 ''cuda:0'' ex_engine ex_manager ex_layers"

definition ex_body :: json_body where
  "ex_body = Json (PDict [(''prompt'', PStr ''p''), (''max_tokens'', PInt 2), (''top_k'', PInt (-5))])"

definition ex_bad_body :: json_body where
  "ex_bad_body = Json (PDict [(''prompt'', PStr ''p''), (''max_tokens'', PStr ''many'')])"

text \<open>One request, served by the engine as in the run of \<open>ex_evs2\<close>; its handler still waits.\<close>

definition ex_http_evs :: "http_event list" where
  "ex_http_evs = Inference_begin ex_body 1 ''r'' # map Engine_event (tl ex_evs2)"

lemma ex_begin: "inference_begin ex_hc ex_body 1 ''r'' ex_server =
    (Waiting ''r'', (take_permit ex_server)\<lparr>hw_engine := submit_request ex_req ex_engine, hw_waiting := [''r'']\<rparr>)"
  by (simp add: inference_begin_def ex_body_def ex_server_def http_init_def ex_hc_def body_dict_def parse_inference_def
      dict_get_def ex_json_def arrival_of_def cut_prompt_def take_last_def clamp_def ex_cfg_def ex_req_def take_permit_def)

lemma engine_events_trace:
  "\<forall>r. Submit r \<notin> set es \<Longrightarrow> engine_trace hc (map Engine_event es) s = es"
  by (induction es arbitrary: s) (auto simp: submits_def split: engine_event.split)

lemma engine_events_waiting:
  "hw_waiting (http_run hc (map Engine_event es) s) = hw_waiting s"
  by (induction es arbitrary: s) (auto simp: http_step_def split: engine_event.split)

lemma ex_http_trace: "engine_trace ex_hc ex_http_evs ex_server = ex_evs2"
proof -
  have "\<forall>r. Submit r \<notin> set (tl ex_evs2)" by (simp add: ex_evs2_def ex_evs1_def)
  moreover have "submits ex_hc (Inference_begin ex_body 1 ''r'') ex_server = [Submit ex_req]"
    by (simp add: submits_def ex_body_def ex_server_def http_init_def ex_hc_def body_dict_def parse_inference_def
        dict_get_def ex_json_def arrival_of_def cut_prompt_def take_last_def clamp_def ex_cfg_def ex_req_def)
  moreover have "ex_evs2 = Submit ex_req # tl ex_evs2" by (simp add: ex_evs2_def ex_evs1_def)
  ultimately show ?thesis by (simp add: ex_http_evs_def engine_events_trace)
qed

lemma ex_http_waiting: "hw_waiting (http_run ex_hc ex_http_evs ex_server) = [''r'']"
  by (simp add: ex_http_evs_def engine_events_waiting http_step_def ex_begin)

lemma ex_http_idle:
  "en_queue (hw_engine (http_run ex_hc ex_http_evs ex_server)) = []"
  "en_pending (hw_engine (http_run ex_hc ex_http_evs ex_server)) = []"
  "en_active (hw_engine (http_run ex_hc ex_http_evs ex_server)) = []"
  using ex_engine_run2 by (simp_all add: http_run_engine ex_http_trace) (simp_all add: ex_hc_def ex_server_def http_init_def)

section \<open>A layer of the model\<close>

definition ex_x :: matrix where
  "ex_x = mx1 11"

lemma ex_raw: "raw_fits (mx_rows ex_x) [mx1 1, mx1 1, mx1 1] [1, 1, 1]" "raw_fits (mx_rows ex_x) [mx1 1, mx1 1] (gate_up_dims ex_info)"
  "raw_fits (mx_rows ex_x) [mx1 1] [mi_hidden_size ex_info]" "mx_cols ex_x = mi_hidden_size ex_info"
  "mx_cols ex_x = mi_intermediate_size ex_info"
  by (simp_all add: raw_fits_def ex_x_def mx1_def gate_up_dims_def ex_info_def)

text \<open>\<open>1 + 11 * 2 * 3\<close>.\<close>

lemma ex_effect: "map2 (with_effect ex_x) (modules_of ex_old 0 qkv_names) [mx1 1, mx1 1, mx1 1] = [mx1 67, mx1 1, mx1 1]"
  by (simp add: qkv_names_def get_lora_module_def ex_old_def with_effect_def effect_at_def delta_at_def ex_x_def mx1_def
      mk_matrix_def mx_at_def)

end
