(* ===== verification/Serving_Examples.thy ===== *)
theory Serving_Examples
  imports Serving Node_Examples
begin

text \<open>
  A model with one layer of size one and two tokens, and an adapter that turns the sign of
  its queries: the base model goes from token 0 to token 1 and back, the merged model stays
  with token 0. Two slots of one aggregator serve it.
\<close>

definition sv_fns :: "(matrix list) model_fns" where
  "sv_fns =
     \<lparr>mf_input_norm = (\<lambda>l x. x), mf_post_norm = (\<lambda>l x. x), mf_final_norm = (\<lambda>x. x), mf_silu = max 0,
      mf_attention = (\<lambda>l c pos q k v. (mk_matrix (mx_rows q) 1 (\<lambda>i j. mx_at q i 0), c @ [k]))\<rparr>"

definition sv_layer :: plain_layer where
  "sv_layer =
     \<lparr>pl_q = mx1 1, pl_k = mx1 1, pl_v = mx1 1, pl_o = mx1 1, pl_o_bias = None, pl_gate = mx1 1, pl_up = mx1 1,
      pl_down = mx1 1, pl_down_bias = None\<rparr>"

definition sv_model :: plain_model where
  "sv_model =
     \<lparr>pm_embed = \<lparr>mx_rows = 2, mx_cols = 1, mx_data = [[1], [-1]]\<rparr>,
      pm_lm_head = \<lparr>mx_rows = 2, mx_cols = 1, mx_data = [[0], [1]]\<rparr>, pm_layers = [sv_layer]\<rparr>"

definition sv_adapter :: lora_layers where
  "sv_adapter = [(0, [(''self_attn.q_proj'', \<lparr>fm_A = mx1 1, fm_B = mx1 (-3), fm_scaling = 1\<rparr>)])]"

definition sv_layers :: "decoder_layer list" where
  "sv_layers = model_of ex_info [1, 1, 1] 1 sv_adapter 1"

definition sv_cfg :: "(matrix list) forward_config" where
  "sv_cfg =
     \<lparr>fc_layers = sv_layers, fc_qkv_dims = [1, 1, 1], fc_gate_up_dims = [1, 1], fc_hidden_size = 1, fc_fns = sv_fns,
      fc_sampling = default_sampling\<rparr>"

definition sv_state :: "(matrix list) forward_state" where
  "sv_state =
     \<lparr>fs_input_ids = [0], fs_chunks = [], fs_generated = [], fs_hidden = mx_zeros 0 1, fs_residual = mx_zeros 0 1,
      fs_mlp_residual = mx_zeros 0 1, fs_seq_len = 0, fs_cache = []\<rparr>"

definition sv_draw :: draw where
  "sv_draw s m i = 0"

definition sv_barrier :: "(agg_input, agg_output) batch_fun barrier_config" where
  "sv_barrier =
     \<lparr>bc_num_slots = 2, bc_capacity = 8, bc_num_layers = 1, bc_execute = execute_batch sv_draw (load_weights sv_model)\<rparr>"

definition sv_request :: "(int list) worker_calls" where
  "sv_request = serve_calls sv_cfg 2 None sv_state"

lemma sv_fits: "serving_fits ex_info 1 sv_adapter sv_model sv_cfg"
proof -
  have adapter: "adapter_fits ex_info 1 sv_adapter 1"
    by (simp add: adapter_fits_def qkv_dims_def ex_info_def layer_fits_def get_lora_module_def sv_adapter_def
        qkv_names_def gate_up_names_def gate_up_dims_def module_fits_def mx1_def)
  have "build_lora_model ex_info 1 sv_adapter = Inr sv_layers"
    using build_lora_model_of [OF adapter ex_dims] by (simp add: sv_layers_def)
  moreover have "fns_fit 1 sv_fns" by (simp add: fns_fit_def sv_fns_def)
  ultimately show ?thesis
    using adapter
    by (simp add: serving_fits_def Let_def qkv_dims_def sv_model_def sv_cfg_def gate_up_dims_def ex_info_def plain_layer_fits_def
        has_shape_def sv_layer_def mx1_def default_sampling_def)
qed

lemma sv_inputs: "inputs_ok sv_state"
  by (simp add: inputs_ok_def sv_state_def command_size_ok_def)

lemma sv_generated: "plain_generate sv_fns (merge_adapter sv_adapter sv_model) 2 None 2 (decode_of sv_state) = [0, 0]"
  by code_simp

lemma sv_base_generated: "plain_generate sv_fns sv_model 2 None 2 (decode_of sv_state) = [1, 0]"
  by code_simp

lemma sv_passes: "passes 2 sv_state = 2"
  by (simp add: passes_def sv_state_def)

lemma sv_executes: "bc_execute sv_barrier = execute_batch sv_draw (load_weights sv_model)" "bc_num_slots sv_barrier \<le> 128"
  "bc_num_layers sv_barrier = length (pm_layers sv_model)" "2 \<le> bc_capacity sv_barrier" "1 < bc_num_slots sv_barrier"
  by (simp_all add: sv_barrier_def sv_model_def)

lemma sv_fitting: "fitting_request sv_fns sv_model sv_request"
  unfolding fitting_request_def sv_request_def
proof (intro exI conjI)
  show "serving_fits ex_info 1 sv_adapter sv_model sv_cfg" by (rule sv_fits)
  show "inputs_ok sv_state" by (rule sv_inputs)
qed (simp_all add: sv_cfg_def)

definition sv_start :: "(agg_input, agg_output, py_error + int list) barrier" where
  "sv_start = barrier_init (\<lambda>_. Token_ids []) (\<lambda>_. Next_token 7)"

definition sv_calls :: nat where
  "sv_calls = num_calls (base_op sv_draw (load_weights sv_model)) sv_request"

lemma sv_serving: "serving_run sv_fns sv_model sv_barrier (solo_events 1 5 sv_request sv_calls)"
  by (rule solo_events_serving [OF sv_executes(5) sv_fitting])

lemma sv_reuse: "safe_reuse sv_barrier (solo_events 1 5 sv_request sv_calls) b"
  by (simp add: safe_reuse_def solo_events_orderly sv_barrier_def)

lemma sv_done: "\<exists>r. br_done (barrier_run sv_barrier (solo_events 1 5 sv_request sv_calls) sv_start) = [(1, sv_request, r)]"
  using solo_answered [OF sv_executes(4), of "base_op sv_draw (load_weights sv_model)" 1 5 sv_request]
  by (simp add: sv_executes(1) execute_batch_single base_op_def sv_calls_def sv_start_def)

text \<open>Two slots that wait for the embeddings of their tokens.\<close>

definition sv_shared :: "(agg_input, agg_output, py_error + int list) barrier_event list" where
  "sv_shared =
     [Claim_slot 0 4 sv_request, Claim_slot 1 5 sv_request, Join 0, Join 1, Agg_loop, Agg_loop, Agg_loop, Notice 0, Notice 1,
      Read_epoch 0, Submit_command 0, Read_epoch 1, Submit_command 1, Signal_ready 1, Signal_ready 0]"

definition sv_waiting :: "(agg_input, agg_output, py_error + int list) barrier" where
  "sv_waiting = barrier_run sv_barrier sv_shared sv_start"

lemma sv_first_call: "\<exists>k. sv_request = Call Op_embed (Token_ids [0]) k"
proof -
  have "(2::nat) = Suc 1" by simp
  then have "sv_request = generate_calls sv_cfg 2 None (Suc 1) sv_state"
    by (metis sv_request_def serve_calls_def sv_passes)
  moreover have "fs_input_ids sv_state = [0]" by (simp add: sv_state_def)
  ultimately show ?thesis by (simp only: generate_calls.simps token_calls_def) blast
qed

lemma sv_shared_run: "serving_run sv_fns sv_model sv_barrier sv_shared"
  using sv_fitting by (simp add: serving_run_def sv_shared_def serving_event_def sv_barrier_def)

lemma sv_shared_reuse: "safe_reuse sv_barrier sv_shared b"
  by (simp add: safe_reuse_def orderly_def orderly_event_def sv_shared_def sv_barrier_def)

lemma sv_waiting: "br_active sv_waiting = {0, 1}" "br_pc sv_waiting = Wait_slots 0" "br_epoch sv_waiting = 0"
  "\<exists>k. br_slot sv_waiting 0 = Waiting_epoch 0 sv_request (Call Op_embed (Token_ids [0]) k)"
  "\<exists>k. br_slot sv_waiting 1 = Waiting_epoch 0 sv_request (Call Op_embed (Token_ids [0]) k)"
proof -
  obtain k where k: "sv_request = Call Op_embed (Token_ids [0]) k" using sv_first_call by blast
  note defs = sv_waiting_def barrier_run_def sv_shared_def sv_start_def barrier_init_def barrier_step_defs agg_loop_step_def sv_barrier_def
  show "br_active sv_waiting = {0, 1}" "br_pc sv_waiting = Wait_slots 0" "br_epoch sv_waiting = 0"
    "\<exists>k. br_slot sv_waiting 0 = Waiting_epoch 0 sv_request (Call Op_embed (Token_ids [0]) k)"
    "\<exists>k. br_slot sv_waiting 1 = Waiting_epoch 0 sv_request (Call Op_embed (Token_ids [0]) k)"
    unfolding k by (auto simp: defs k)
qed

end
