(* ===== verification/Barrier_Races.thy ===== *)
theory Barrier_Races
  imports Barrier_Inv
begin

text \<open>
  What a request that is aborted leaves behind, and what the code makes of it: its command
  stays in the ring, the slot is given back at once, and neither \<open>claim_slot\<close> nor the loop
  looks for the command. The conditions of the theorems about the barrier are needed.
\<close>

section \<open>A crashed loop\<close>

text \<open>Once an exception has ended the loop, no step of anybody brings it back, and no epoch comes.\<close>

lemma crashed_step:
  assumes "br_pc b = Crashed k"
  shows "br_pc (barrier_step cfg ev b) = Crashed k \<and> br_epoch (barrier_step cfg ev b) = br_epoch b"
  using assms
  by (cases ev)
    (simp_all add: barrier_step_def barrier_claim_def signal_slot_join_def notice_active_def read_epoch_def submit_command_def
      signal_slot_ready_def read_output_def finish_slot_def await_left_def give_up_def abort_slot_def barrier_release_def
      agg_loop_step_def check_leaves_def split: slot_stage.split calls.split)

lemma crashed_run:
  assumes "br_pc b = Crashed k"
  shows "br_pc (barrier_run cfg evs b) = Crashed k \<and> br_epoch (barrier_run cfg evs b) = br_epoch b"
  using assms
proof (induction evs arbitrary: b)
  case (Cons ev evs)
  then show ?case using crashed_step [OF Cons.prems, of cfg ev] by (simp add: barrier_run_def)
qed (simp add: barrier_run_def)

text \<open>A slot that waits for its result then waits forever.\<close>

lemma crashed_waits:
  assumes "br_pc b = Crashed k" "br_slot (barrier_run cfg evs b) sid = Waiting_epoch e req rest" "br_epoch b \<le> e"
  shows "read_output sid (barrier_run cfg evs b) = barrier_run cfg evs b"
  using assms(2,3) crashed_run [OF assms(1), of cfg evs] by (auto simp: read_output_def split: slot_stage.split calls.split)

section \<open>Two runs\<close>

text \<open>
  A model without layers: the embedding adds one, the head doubles. A request for a number
  asks for both.
\<close>

definition race_op :: "agg_op \<Rightarrow> nat \<Rightarrow> nat" where
  "race_op op i = (if op = Op_lm_head then 2 * i else i + 1)"

definition race_request :: "nat \<Rightarrow> (nat, nat, nat) calls" where
  "race_request n = Call Op_embed n (\<lambda>h. Call Op_lm_head h Return)"

definition race_cfg :: "(nat, nat) batch_fun barrier_config" where
  "race_cfg = \<lparr>bc_num_slots = 2, bc_capacity = 8, bc_num_layers = 0, bc_execute = (\<lambda>op. map (race_op op))\<rparr>"

definition race_start :: "(nat, nat, nat) barrier" where
  "race_start = barrier_init (\<lambda>_. 0) (\<lambda>_. 0)"

definition race_enter :: "nat \<Rightarrow> int \<Rightarrow> nat \<Rightarrow> (nat, nat, nat) barrier_event list" where
  "race_enter sid wid n = [Claim_slot sid wid (race_request n), Join sid, Agg_loop, Agg_loop, Agg_loop, Notice sid]"

definition race_ask :: "nat \<Rightarrow> (nat, nat, nat) barrier_event list" where
  "race_ask sid = [Read_epoch sid, Submit_command sid, Signal_ready sid]"

text \<open>
  The worker aborts its request after it has submitted its second command; it claims the slot
  again as soon as the loop has dropped it. The old command is then taken for the first one
  of the new request: the answer to 7 is \<open>2 * 7 + 1\<close>, and not \<open>2 * (7 + 1)\<close>.
\<close>

definition stale_run :: "(nat, nat, nat) barrier_event list" where
  "stale_run =
     race_enter 0 5 3 @ race_ask 0 @ [Agg_loop, Agg_loop, Read_output 0, Read_epoch 0, Submit_command 0, Abort 0, Check_leaves] @
     race_enter 0 5 7 @ race_ask 0 @ [Agg_loop, Agg_loop, Read_output 0] @
     race_ask 0 @ [Agg_loop, Agg_loop, Read_output 0, Finish 0, Agg_loop, Agg_loop, Agg_loop, Release 0]"

lemmas race_defs = barrier_run_def barrier_step_def barrier_claim_def signal_slot_join_def notice_active_def read_epoch_def
  submit_command_def signal_slot_ready_def read_output_def finish_slot_def await_left_def give_up_def abort_slot_def
  leave_barrier_def barrier_release_def set_stage_def agg_loop_step_def check_leaves_def owners_verified_def execute_commands_def
  scatter_def signal_done_def next_pc_def ops_per_token_def max_drain_def race_start_def barrier_init_def race_cfg_def
  race_enter_def race_ask_def race_request_def race_op_def

theorem stale_command_answers_wrong:
  "br_done (barrier_run race_cfg stale_run race_start) = [(0, race_request 7, 15)] \<and> run_calls race_op (race_request 7) = 16"
  by (simp add: stale_run_def race_defs eval_nat_numeral insert_Diff_if)

text \<open>
  Two workers share the aggregator and both wait for their embeddings; one of them then
  aborts. Its slot is given back at once, but it is still active and ready, so its command is
  executed with the others: it fails the check of its owner, and that ends the loop. The
  other worker waits forever.
\<close>

definition crash_run :: "(nat, nat, nat) barrier_event list" where
  "crash_run =
     [Claim_slot 0 4 (race_request 3), Claim_slot 1 5 (race_request 7), Join 0, Join 1, Agg_loop, Agg_loop, Agg_loop, Notice 0, Notice 1] @
     race_ask 0 @ race_ask 1 @ [Abort 0, Agg_loop, Agg_loop]"

theorem aborted_command_stops_the_loop:
  "br_pc (barrier_run race_cfg crash_run race_start) = Crashed 0 \<and>
   br_slot (barrier_run race_cfg crash_run race_start) 1 = Waiting_epoch 0 (race_request 7) (race_request 7) \<and>
   br_epoch (barrier_run race_cfg crash_run race_start) = 0"
  by (simp add: crash_run_def race_defs eval_nat_numeral insert_Diff_if)

end
