(* ===== verification/Agent_Races.thy ===== *)
theory Agent_Races
  imports Node_Agent_Inv
begin

text \<open>
  \<open>_launch_aggregator\<close> and \<open>_stop_aggregator\<close> of the node agent, cut at their awaits: the
  wait for the end of each process, the wait for the aggregator to be ready, and the wait
  after a kill. A task that runs alone does what the handler of \<open>Node_Agent\<close> does in one
  step. The agent has no lock, so tasks may also alternate, and then a stop can forget the
  process a launch has just started. The sleep at the end of \<open>_launch_controller\<close> is not
  cut: no state is written after it.
\<close>

section \<open>Handlers as tasks\<close>

text \<open>
  Where a task waits; a stop carries the base model and the model id of the launch that
  called it, if one did.
\<close>

type_synonym relaunch = "(string option \<times> string option) option"

datatype agent_task =
    Task_done
  | Stopping_controller int relaunch
  | Stopping_aggregator int relaunch
  | Awaiting_ready int
  | Killing int

definition waited :: "stop_outcome \<Rightarrow> int \<Rightarrow> node_agent \<Rightarrow> node_agent" where
  "waited out pid a = (if out = Survived then a else process_exit pid a)"

text \<open>From the storing of the base model to the wait for the new aggregator.\<close>

definition start_aggregator ::
  "launch_input \<Rightarrow> string option \<times> string option \<Rightarrow> node_agent \<Rightarrow> agent_task \<times> node_agent" where
  "start_aggregator inp bm a =
     (let a1 = a\<lparr>na_base_model := fst bm, na_model_id := snd bm\<rparr>
      in if \<not> li_popen_ok inp then (Task_done, a1)
         else let (pid, a2) = popen a1 in (Awaiting_ready pid, a2\<lparr>na_aggregator := Some pid\<rparr>))"

definition after_stop :: "launch_input \<Rightarrow> relaunch \<Rightarrow> node_agent \<Rightarrow> agent_task \<times> node_agent" where
  "after_stop inp next a = (case next of None \<Rightarrow> (Task_done, a) | Some bm \<Rightarrow> start_aggregator inp bm a)"

definition stop_second :: "launch_input \<Rightarrow> relaunch \<Rightarrow> node_agent \<Rightarrow> agent_task \<times> node_agent" where
  "stop_second inp next a =
     (case na_aggregator a of
        None \<Rightarrow> after_stop inp next a
      | Some pid \<Rightarrow> if alive (Some pid) a then (Stopping_aggregator pid next, a)
                    else after_stop inp next (a\<lparr>na_aggregator := None\<rparr>))"

definition stop_begin :: "launch_input \<Rightarrow> relaunch \<Rightarrow> node_agent \<Rightarrow> agent_task \<times> node_agent" where
  "stop_begin inp next a =
     (case na_controller a of
        None \<Rightarrow> stop_second inp next a
      | Some pid \<Rightarrow> if alive (Some pid) a then (Stopping_controller pid next, a)
                    else stop_second inp next (a\<lparr>na_controller := None\<rparr>))"

definition launch_begin ::
  "launch_input \<Rightarrow> bool \<Rightarrow> string option \<times> string option \<Rightarrow> node_agent \<Rightarrow> agent_task \<times> node_agent" where
  "launch_begin inp force bm a =
     (if is_aggregator_running a
      then if force then stop_begin inp (Some bm) a else (Task_done, a)
      else start_aggregator inp bm a)"

text \<open>
  A task goes on from its await to the next one. What it awaits is given by the input; the
  handles it reads are those of the agent when it goes on.
\<close>

definition resume :: "launch_input \<Rightarrow> agent_task \<Rightarrow> node_agent \<Rightarrow> agent_task \<times> node_agent" where
  "resume inp t a =
     (case t of
        Task_done \<Rightarrow> (Task_done, a)
      | Stopping_controller pid next \<Rightarrow>
          stop_second inp next ((waited (li_stop_controller inp) pid a)\<lparr>na_controller := None\<rparr>)
      | Stopping_aggregator pid next \<Rightarrow>
          after_stop inp next ((waited (li_stop_aggregator inp) pid a)\<lparr>na_aggregator := None\<rparr>)
      | Awaiting_ready pid \<Rightarrow>
          let a1 = (if li_exits inp then process_exit pid a else a)
          in if is_aggregator_running a1 \<and> li_ready inp
             then (Task_done, snd (launch_controller (li_controller_ok inp) a1))
             else if is_aggregator_running a1 then (Killing (the (na_aggregator a1)), a1)
             else (Task_done, a1\<lparr>na_aggregator := None, na_base_model := None, na_model_id := None\<rparr>)
      | Killing pid \<Rightarrow>
          (Task_done, (waited (li_kill inp) pid a)
             \<lparr>na_aggregator := None, na_base_model := None, na_model_id := None\<rparr>))"

section \<open>A task alone\<close>

definition run_alone :: "launch_input \<Rightarrow> nat \<Rightarrow> agent_task \<times> node_agent \<Rightarrow> agent_task \<times> node_agent" where
  "run_alone inp n = (\<lambda>(t, a). resume inp t a) ^^ n"

lemma run_alone_done: "run_alone inp n (Task_done, a) = (Task_done, a)"
  by (induction n) (simp_all add: run_alone_def resume_def)

lemma run_alone_Suc: "0 < n \<Longrightarrow> run_alone inp n (t, a) = run_alone inp (n - 1) (resume inp t a)"
  by (cases n) (simp_all add: run_alone_def funpow_swap1)

lemma stop_process_waited: "alive (Some pid) a \<Longrightarrow> stop_process pid True out a = (True, waited out pid a)"
  by (cases out) (simp_all add: stop_process_def waited_def)

lemma stop_process_gone: "\<not> alive (Some pid) a \<Longrightarrow> stop_process pid graceful out a = (True, a)"
  by (simp add: stop_process_def)

lemma stop_process_graceful: "stop_process pid graceful out a = stop_process pid True out a"
  by (cases out) (simp_all add: stop_process_def)

text \<open>What the two halves of a stop, and what runs after it, leave.\<close>

definition stopped_second :: "launch_input \<Rightarrow> node_agent \<Rightarrow> node_agent" where
  "stopped_second inp a =
     (case na_aggregator a of
        None \<Rightarrow> a
      | Some pid \<Rightarrow> (snd (stop_process pid True (li_stop_aggregator inp) a))\<lparr>na_aggregator := None\<rparr>)"

definition stopped_first :: "launch_input \<Rightarrow> node_agent \<Rightarrow> node_agent" where
  "stopped_first inp a =
     (case na_controller a of
        None \<Rightarrow> a
      | Some pid \<Rightarrow> (snd (stop_process pid True (li_stop_controller inp) a))\<lparr>na_controller := None\<rparr>)"

lemma stop_aggregator_halves:
  "snd (stop_aggregator graceful (li_stop_controller inp) (li_stop_aggregator inp) a) =
   stopped_second inp (stopped_first inp a)"
  unfolding stop_aggregator_def stopped_first_def stopped_second_def stop_process_graceful [of _ graceful]
  by (auto simp: Let_def map_prod_def split: option.split prod.split)

definition final_agent :: "launch_input \<Rightarrow> relaunch \<Rightarrow> node_agent \<Rightarrow> node_agent" where
  "final_agent inp next a = (case next of None \<Rightarrow> a | Some bm \<Rightarrow> snd (launch_aggregator inp False (fst bm) (snd bm) a))"

lemma ready_alone:
  assumes "1 < n"
  shows "run_alone inp n (Awaiting_ready pid, a) =
    (let a1 = (if li_exits inp then process_exit pid a else a)
     in (Task_done,
         if is_aggregator_running a1 \<and> li_ready inp then snd (launch_controller (li_controller_ok inp) a1)
         else (kill_process (na_aggregator a1) (li_kill inp) a1)
                \<lparr>na_aggregator := None, na_base_model := None, na_model_id := None\<rparr>))"
proof -
  let ?a1 = "if li_exits inp then process_exit pid a else a"
  have n: "0 < n" "0 < n - 1" using assms by simp_all
  show ?thesis
  proof (cases "is_aggregator_running ?a1 \<and> \<not> li_ready inp")
    case True
    then have "resume inp (Awaiting_ready pid) a = (Killing (the (na_aggregator ?a1)), ?a1)"
      unfolding resume_def Let_def by simp
    moreover have "kill_process (na_aggregator ?a1) (li_kill inp) ?a1 = waited (li_kill inp) (the (na_aggregator ?a1)) ?a1"
      using True unfolding kill_process_def waited_def is_aggregator_running_def by (simp add: alive_def)
    ultimately show ?thesis using True n
      by (simp add: run_alone_Suc resume_def run_alone_done Let_def)
  next
    case False
    then have "kill_process (na_aggregator ?a1) (li_kill inp) ?a1 = ?a1 \<or> is_aggregator_running ?a1"
      by (auto simp: kill_process_def is_aggregator_running_def)
    then show ?thesis using False n
      by (auto simp: run_alone_Suc resume_def run_alone_done Let_def)
  qed
qed

lemma start_alone:
  assumes "1 < n" "\<not> is_aggregator_running a"
  shows "run_alone inp n (start_aggregator inp bm a) = (Task_done, snd (launch_aggregator inp False (fst bm) (snd bm) a))"
  using assms
  by (simp add: start_aggregator_def launch_aggregator_def popen_def Let_def run_alone_done ready_alone
      split: prod.split bool.split)

lemma after_stop_alone:
  assumes "1 < n" "\<not> is_aggregator_running a"
  shows "run_alone inp n (after_stop inp next a) = (Task_done, final_agent inp next a)"
  using assms by (simp add: after_stop_def final_agent_def run_alone_done start_alone split: option.split)

lemma stopped_second_gone: "\<not> is_aggregator_running (stopped_second inp a)"
  by (simp add: stopped_second_def is_aggregator_running_def alive_def split: option.split)

lemma stop_second_alone:
  assumes "2 < n"
  shows "run_alone inp n (stop_second inp next a) = (Task_done, final_agent inp next (stopped_second inp a))"
proof -
  note gone = stopped_second_gone [of inp a]
  have n: "1 < n" "1 < n - 1" "0 < n" using assms by simp_all
  show ?thesis
  proof (cases "na_aggregator a")
    case None
    then have "stop_second inp next a = after_stop inp next (stopped_second inp a)"
      by (simp add: stop_second_def stopped_second_def)
    then show ?thesis using after_stop_alone [OF n(1) gone] by simp
  next
    case (Some pid)
    show ?thesis
    proof (cases "alive (Some pid) a")
      case True
      then have "stop_second inp next a = (Stopping_aggregator pid next, a)"
        "resume inp (Stopping_aggregator pid next) a = after_stop inp next (stopped_second inp a)"
        using Some by (simp_all add: stop_second_def stopped_second_def resume_def stop_process_waited)
      then show ?thesis using after_stop_alone [OF n(2) gone] n(3) by (simp add: run_alone_Suc)
    next
      case False
      then have "stop_second inp next a = after_stop inp next (stopped_second inp a)"
        using Some by (simp add: stop_second_def stopped_second_def stop_process_gone)
      then show ?thesis using after_stop_alone [OF n(1) gone] by simp
    qed
  qed
qed

lemma stop_begin_alone:
  assumes "3 < n"
  shows "run_alone inp n (stop_begin inp next a) =
    (Task_done, final_agent inp next (stopped_second inp (stopped_first inp a)))"
proof (cases "na_controller a")
  case None
  then show ?thesis using assms by (simp add: stop_begin_def stopped_first_def stop_second_alone)
next
  case (Some pid)
  show ?thesis
  proof (cases "alive (Some pid) a")
    case True
    then show ?thesis using assms Some
      by (simp add: stop_begin_def stopped_first_def run_alone_Suc resume_def stop_process_waited stop_second_alone)
  next
    case False
    then show ?thesis using assms Some
      by (simp add: stop_begin_def stopped_first_def stop_process_gone stop_second_alone)
  qed
qed

text \<open>The handlers of \<open>Node_Agent\<close> are their tasks run without a break.\<close>

lemma stop_is_task_alone:
  "run_alone inp 4 (stop_begin inp None a) =
   (Task_done, snd (stop_aggregator graceful (li_stop_controller inp) (li_stop_aggregator inp) a))"
  by (simp add: stop_begin_alone stop_aggregator_halves final_agent_def)

lemma launch_is_task_alone:
  "run_alone inp 4 (launch_begin inp force bm a) =
   (Task_done, snd (launch_aggregator inp force (fst bm) (snd bm) a))"
proof (cases "is_aggregator_running a")
  case False
  then show ?thesis by (simp add: launch_begin_def start_alone launch_aggregator_def)
next
  case running: True
  show ?thesis
  proof (cases force)
    case False
    then show ?thesis using running by (simp add: launch_begin_def launch_aggregator_def run_alone_done)
  next
    case True
    let ?b = "stopped_second inp (stopped_first inp a)"
    have "snd (launch_aggregator inp False (fst bm) (snd bm) ?b) = snd (launch_aggregator inp force (fst bm) (snd bm) a)"
      using running True stopped_second_gone [of inp "stopped_first inp a"]
      by (simp add: launch_aggregator_def stop_aggregator_halves)
    then show ?thesis using running True
      by (simp add: launch_begin_def stop_begin_alone final_agent_def)
  qed
qed

section \<open>Tasks that alternate\<close>

datatype race_event =
    Begin_stop launch_input
  | Begin_launch launch_input bool "string option \<times> string option"
  | Resume nat launch_input

definition race_step :: "race_event \<Rightarrow> agent_task list \<times> node_agent \<Rightarrow> agent_task list \<times> node_agent" where
  "race_step ev x =
     (case ev of
        Begin_stop inp \<Rightarrow> (let (t, a) = stop_begin inp None (snd x) in (fst x @ [t], a))
      | Begin_launch inp force bm \<Rightarrow> (let (t, a) = launch_begin inp force bm (snd x) in (fst x @ [t], a))
      | Resume i inp \<Rightarrow>
          if i < length (fst x) then (let (t, a) = resume inp (fst x ! i) (snd x) in ((fst x)[i := t], a)) else x)"

definition race_run :: "race_event list \<Rightarrow> agent_task list \<times> node_agent \<Rightarrow> agent_task list \<times> node_agent" where
  "race_run evs x = foldl (\<lambda>x ev. race_step ev x) x evs"

text \<open>
  A stop and a forced launch overlap. Both wait for the old processes, the launch goes on
  first and starts process 3, and the stop, which waited for process 1, then forgets it.
\<close>

definition race_input :: launch_input where
  "race_input = \<lparr>li_stop_controller = Terminated, li_stop_aggregator = Terminated, li_popen_ok = True,
     li_exits = False, li_ready = True, li_controller_ok = True, li_kill = Killed\<rparr>"

definition race_events :: "race_event list" where
  "race_events =
     [Begin_stop race_input, Begin_launch race_input True (None, None), Resume 0 race_input, Resume 1 race_input,
      Resume 1 race_input, Resume 0 race_input, Resume 1 race_input]"

definition race_start :: node_agent where
  "race_start = agent_step (Launch race_input False None None) node_agent_init"

lemma race_start_running: "na_alive race_start = [1, 2] \<and> is_aggregator_running race_start \<and> is_controller_running race_start"
  by code_simp

lemma overlap_orphans:
  "fst (race_run race_events ([], race_start)) = [Task_done, Task_done] \<and>
   na_alive (snd (race_run race_events ([], race_start))) = [3] \<and>
   children (snd (race_run race_events ([], race_start))) = {} \<and>
   na_alive (agent_step (Stop False Killed Killed) (snd (race_run race_events ([], race_start)))) = [3]"
proof -
  have "(let x = race_run race_events ([], race_start) in
      fst x = [Task_done, Task_done] \<and> na_alive (snd x) = [3] \<and> na_aggregator (snd x) = None \<and>
      na_controller (snd x) = None \<and> na_alive (agent_step (Stop False Killed Killed) (snd x)) = [3])"
    by code_simp
  then show ?thesis by (simp add: Let_def children_def)
qed

end
