(* ===== verification/Artifact_Registry.thy ===== *)
theory Artifact_Registry
  imports Prelude
begin

text \<open>
  The registry of the ServerlessLoRA baseline, \<open>src/baselines/serverlesslora/artifact_registry.py\<close>:
  artifacts that can be loaded ahead of requests, the profiles of functions, worker nodes with
  their containers, and request rates. The singleton and its locks are left out: each method
  is one step. A container lives in the dictionary of its node.
\<close>

section \<open>Densities\<close>

text \<open>A Python float that may be infinite.\<close>

datatype density = Finite pyfloat | Infinite

instantiation density :: linorder
begin

definition less_eq_density :: "density \<Rightarrow> density \<Rightarrow> bool" where
  "less_eq_density a b = (case (a, b) of (_, Infinite) \<Rightarrow> True | (Infinite, Finite y) \<Rightarrow> False | (Finite x, Finite y) \<Rightarrow> x \<le> y)"

definition less_density :: "density \<Rightarrow> density \<Rightarrow> bool" where
  "less_density a b \<longleftrightarrow> a \<le> b \<and> \<not> b \<le> (a :: density)"

instance
  by standard (auto simp: less_eq_density_def less_density_def split: density.splits)

end

definition boosted :: "pyfloat \<Rightarrow> density \<Rightarrow> density" where
  "boosted b d = (case d of Finite x \<Rightarrow> Finite (x * b) | Infinite \<Rightarrow> Infinite)"

section \<open>Artifacts\<close>

datatype artifact_type = LIBRARY | BACKBONE | ADAPTER | KERNEL

datatype artifact_location = Not_loaded | DISK | CONTAINER | GPU

record artifact =
  art_id :: string
  art_type :: artifact_type
  art_size_mb :: pyfloat
  art_loading_delay_ms :: pyfloat
  art_depends_on :: "string pyset"
  art_backbone_id :: "string option"
  art_location :: artifact_location
  art_loaded_at_node :: "string option"
  art_loaded_at_container :: "string option"

text \<open>The artifact of an adapter: slashes of the name become underscores.\<close>

definition adapter_artifact_id :: "string \<Rightarrow> string" where
  "adapter_artifact_id adapter_id = ''adapter_'' @ map (\<lambda>ch. if ch = CHR ''/'' then CHR ''_'' else ch) adapter_id"

definition create_adapter_artifact :: "string \<Rightarrow> string \<Rightarrow> pyfloat \<Rightarrow> pyfloat \<Rightarrow> artifact" where
  "create_adapter_artifact adapter_id backbone_id size_mb loading_delay_ms =
     \<lparr>art_id = adapter_artifact_id adapter_id, art_type = ADAPTER, art_size_mb = size_mb, art_loading_delay_ms = loading_delay_ms,
      art_depends_on = [backbone_id], art_backbone_id = Some backbone_id, art_location = DISK,
      art_loaded_at_node = None, art_loaded_at_container = None\<rparr>"

text \<open>The libraries, the backbone and the kernels of a model.\<close>

definition shared_artifact :: "string \<Rightarrow> artifact_type \<Rightarrow> pyfloat \<Rightarrow> pyfloat \<Rightarrow> string pyset \<Rightarrow> artifact" where
  "shared_artifact i ty size_mb delay_ms deps =
     \<lparr>art_id = i, art_type = ty, art_size_mb = size_mb, art_loading_delay_ms = delay_ms, art_depends_on = deps, art_backbone_id = None,
      art_location = DISK, art_loaded_at_node = None, art_loaded_at_container = None\<rparr>"

definition backbone_sizes :: "(string, pyfloat) dict" where
  "backbone_sizes = [(''llama-3.1-8b'', 16000), (''llama-2-7b'', 14000), (''mistral-7b'', 14000), (''llama-2-13b'', 26000)]"

definition create_default_artifacts :: "string \<Rightarrow> artifact list" where
  "create_default_artifacts model_name =
     (let backbone = ''backbone_'' @ model_name in
      [shared_artifact ''lib_torch'' LIBRARY 500 2000 [],
       shared_artifact ''lib_transformers'' LIBRARY 100 500 [''lib_torch''],
       shared_artifact backbone BACKBONE (dict_get backbone_sizes model_name 16000) 10000 [''lib_torch'', ''lib_transformers''],
       shared_artifact ''kernel_attention'' KERNEL 10 500 [backbone],
       shared_artifact ''kernel_lora_fused'' KERNEL 5 300 [backbone]])"

definition compute_value :: "artifact \<Rightarrow> pyfloat \<Rightarrow> pyfloat" where
  "compute_value art request_rate = art_loading_delay_ms art * request_rate"

definition get_effective_size :: "artifact \<Rightarrow> artifact_location \<Rightarrow> pyfloat" where
  "get_effective_size art loc = (if loc = GPU then art_size_mb art * (105 / 100) else art_size_mb art)"

definition compute_density :: "artifact \<Rightarrow> pyfloat \<Rightarrow> artifact_location \<Rightarrow> density" where
  "compute_density art request_rate loc =
     (let value = compute_value art request_rate; weight = get_effective_size art loc
      in if weight \<le> 0 then (if 0 < value then Infinite else Finite 0) else Finite (value / weight))"

section \<open>Functions\<close>

record function_profile =
  fp_function_id :: string
  fp_backbone_id :: string
  fp_adapter_id :: "string option"
  fp_base_ttft_ms :: pyfloat
  fp_marginal_cost_ms :: pyfloat
  fp_slo_ms :: pyfloat
  fp_request_rate :: pyfloat
  fp_last_request_time :: pyfloat
  fp_total_requests :: int
  fp_required_artifacts :: "string pyset"

definition compute_ttft :: "function_profile \<Rightarrow> int \<Rightarrow> pyfloat" where
  "compute_ttft f batch_size = fp_base_ttft_ms f + fp_marginal_cost_ms f * (of_int batch_size - 1)"

definition compute_max_batch_size :: "function_profile \<Rightarrow> int" where
  "compute_max_batch_size f =
     (if fp_marginal_cost_ms f \<le> 0 then 128
      else min (max 1 (py_int ((fp_slo_ms f - fp_base_ttft_ms f) / fp_marginal_cost_ms f) + 1)) 128)"

definition update_request_stats :: "pyfloat \<Rightarrow> function_profile \<Rightarrow> function_profile" where
  "update_request_stats now f = f\<lparr>fp_total_requests := fp_total_requests f + 1, fp_last_request_time := now\<rparr>"

section \<open>Containers and nodes\<close>

record container =
  ct_container_id :: string
  ct_function_id :: string
  ct_node_id :: string
  ct_status :: string
  ct_last_request_time :: pyfloat
  ct_keep_alive_ms :: int
  ct_loaded_artifacts :: "string pyset"
  ct_gpu_loaded_artifacts :: "string pyset"
  ct_pending_requests :: int
  ct_lora_id :: "string option"

definition is_expired :: "pyfloat \<Rightarrow> container \<Rightarrow> bool" where
  "is_expired now c \<longleftrightarrow> ct_status c \<noteq> ''busy'' \<and> of_int (ct_keep_alive_ms c) < (now - ct_last_request_time c) * 1000"

definition update_activity :: "pyfloat \<Rightarrow> container \<Rightarrow> container" where
  "update_activity now c = c\<lparr>ct_last_request_time := now\<rparr>"

definition rebind_function :: "pyfloat \<Rightarrow> string \<Rightarrow> string \<Rightarrow> container \<Rightarrow> container" where
  "rebind_function now function_id lora_id c =
     update_activity now (c\<lparr>ct_function_id := function_id, ct_lora_id := Some lora_id\<rparr>)"

definition compute_preload_score :: "string pyset \<Rightarrow> container \<Rightarrow> pyfloat" where
  "compute_preload_score required_artifacts c =
     foldl (\<lambda>score a. if a \<in> set (ct_loaded_artifacts c)
                       then (if a \<in> set (ct_gpu_loaded_artifacts c) then score + 10 + 20 else score + 10)
                       else score) 0 required_artifacts
     - of_int (ct_pending_requests c) * 5"

record cluster_node =
  cn_node_id :: string
  cn_hostname :: string
  cn_agent_port :: int
  cn_container_memory_mb :: pyfloat
  cn_gpu_memory_mb :: pyfloat
  cn_container_memory_used_mb :: pyfloat
  cn_gpu_memory_used_mb :: pyfloat
  cn_containers :: "(string, container) dict"
  cn_status :: string
  cn_last_heartbeat :: pyfloat

definition get_container_memory_available :: "cluster_node \<Rightarrow> pyfloat" where
  "get_container_memory_available n = max 0 (cn_container_memory_mb n - cn_container_memory_used_mb n)"

definition get_gpu_memory_available :: "cluster_node \<Rightarrow> pyfloat" where
  "get_gpu_memory_available n = max 0 (cn_gpu_memory_mb n - cn_gpu_memory_used_mb n)"

definition can_allocate_container :: "cluster_node \<Rightarrow> pyfloat \<Rightarrow> bool" where
  "can_allocate_container n required_mb \<longleftrightarrow> required_mb \<le> get_container_memory_available n"

definition can_allocate_gpu :: "cluster_node \<Rightarrow> pyfloat \<Rightarrow> bool" where
  "can_allocate_gpu n required_mb \<longleftrightarrow> required_mb \<le> get_gpu_memory_available n"

definition node_is_healthy :: "pyfloat \<Rightarrow> cluster_node \<Rightarrow> bool" where
  "node_is_healthy now n \<longleftrightarrow> now - cn_last_heartbeat n < 300"

section \<open>The registry\<close>

record artifact_registry =
  ag_artifacts :: "(string, artifact) dict"
  ag_functions :: "(string, function_profile) dict"
  ag_nodes :: "(string, cluster_node) dict"
  ag_request_counts :: "(string, pyfloat list) dict"

definition new_artifact_registry :: artifact_registry where
  "new_artifact_registry = \<lparr>ag_artifacts = [], ag_functions = [], ag_nodes = [], ag_request_counts = []\<rparr>"

definition register_artifact :: "artifact \<Rightarrow> artifact_registry \<Rightarrow> artifact_registry" where
  "register_artifact art r = r\<lparr>ag_artifacts := AList.update (art_id art) art (ag_artifacts r)\<rparr>"

definition get_artifact :: "artifact_registry \<Rightarrow> string \<Rightarrow> artifact option" where
  "get_artifact r artifact_id = map_of (ag_artifacts r) artifact_id"

definition get_all_artifacts :: "artifact_registry \<Rightarrow> artifact list" where
  "get_all_artifacts r = dict_values (ag_artifacts r)"

definition update_artifact_location ::
  "string \<Rightarrow> artifact_location \<Rightarrow> string option \<Rightarrow> string option \<Rightarrow> artifact_registry \<Rightarrow> bool \<times> artifact_registry" where
  "update_artifact_location artifact_id loc node_id container_id r =
     (case map_of (ag_artifacts r) artifact_id of
        None \<Rightarrow> (False, r)
      | Some art \<Rightarrow>
          (True, r\<lparr>ag_artifacts := AList.update artifact_id
             (art\<lparr>art_location := loc, art_loaded_at_node := node_id, art_loaded_at_container := container_id\<rparr>) (ag_artifacts r)\<rparr>))"

definition register_function :: "function_profile \<Rightarrow> artifact_registry \<Rightarrow> artifact_registry" where
  "register_function f r = r\<lparr>ag_functions := AList.update (fp_function_id f) f (ag_functions r)\<rparr>"

definition get_function :: "artifact_registry \<Rightarrow> string \<Rightarrow> function_profile option" where
  "get_function r function_id = map_of (ag_functions r) function_id"

definition get_all_functions :: "artifact_registry \<Rightarrow> function_profile list" where
  "get_all_functions r = dict_values (ag_functions r)"

definition update_function_profile ::
  "string \<Rightarrow> pyfloat option \<Rightarrow> pyfloat option \<Rightarrow> pyfloat option \<Rightarrow> artifact_registry \<Rightarrow> bool \<times> artifact_registry" where
  "update_function_profile function_id base marginal slo r =
     (case map_of (ag_functions r) function_id of
        None \<Rightarrow> (False, r)
      | Some f \<Rightarrow>
          let f1 = (case base of None \<Rightarrow> f | Some x \<Rightarrow> f\<lparr>fp_base_ttft_ms := x\<rparr>);
              f2 = (case marginal of None \<Rightarrow> f1 | Some x \<Rightarrow> f1\<lparr>fp_marginal_cost_ms := x\<rparr>);
              f3 = (case slo of None \<Rightarrow> f2 | Some x \<Rightarrow> f2\<lparr>fp_slo_ms := x\<rparr>)
          in (True, r\<lparr>ag_functions := AList.update function_id f3 (ag_functions r)\<rparr>))"

definition record_request :: "pyfloat \<Rightarrow> string \<Rightarrow> artifact_registry \<Rightarrow> artifact_registry" where
  "record_request now function_id r =
     (let r1 = r\<lparr>ag_request_counts :=
                AList.update function_id (dict_get (ag_request_counts r) function_id [] @ [now]) (ag_request_counts r)\<rparr>
      in case map_of (ag_functions r1) function_id of
           None \<Rightarrow> r1
         | Some f \<Rightarrow> r1\<lparr>ag_functions := AList.update function_id (update_request_stats now f) (ag_functions r1)\<rparr>)"

definition rate_window_s :: pyfloat where
  "rate_window_s = 60"

definition get_request_rate :: "pyfloat \<Rightarrow> string \<Rightarrow> artifact_registry \<Rightarrow> pyfloat \<times> artifact_registry" where
  "get_request_rate now function_id r =
     (let ts = filter (\<lambda>t. now - rate_window_s < t) (dict_get (ag_request_counts r) function_id []);
          rate = of_nat (length ts) / rate_window_s;
          r1 = r\<lparr>ag_request_counts := AList.update function_id ts (ag_request_counts r)\<rparr>
      in (rate,
          case map_of (ag_functions r1) function_id of
            None \<Rightarrow> r1
          | Some f \<Rightarrow> r1\<lparr>ag_functions := AList.update function_id (f\<lparr>fp_request_rate := rate\<rparr>) (ag_functions r1)\<rparr>))"

section \<open>Nodes and containers of the registry\<close>

definition register_cluster_node :: "pyfloat \<Rightarrow> cluster_node \<Rightarrow> artifact_registry \<Rightarrow> artifact_registry" where
  "register_cluster_node now n r =
     (case map_of (ag_nodes r) (cn_node_id n) of
        Some old \<Rightarrow>
          r\<lparr>ag_nodes := AList.update (cn_node_id n)
             (old\<lparr>cn_last_heartbeat := (if cn_last_heartbeat n = 0 then now else cn_last_heartbeat n),
                  cn_hostname := cn_hostname n, cn_agent_port := cn_agent_port n,
                  cn_gpu_memory_mb := cn_gpu_memory_mb n, cn_container_memory_mb := cn_container_memory_mb n\<rparr>) (ag_nodes r)\<rparr>
      | None \<Rightarrow> r\<lparr>ag_nodes := AList.update (cn_node_id n) n (ag_nodes r)\<rparr>)"

definition get_cluster_node :: "artifact_registry \<Rightarrow> string \<Rightarrow> cluster_node option" where
  "get_cluster_node r node_id = map_of (ag_nodes r) node_id"

definition get_healthy_nodes :: "pyfloat \<Rightarrow> artifact_registry \<Rightarrow> cluster_node list" where
  "get_healthy_nodes now r = filter (\<lambda>n. cn_status n = ''active'' \<and> node_is_healthy now n) (dict_values (ag_nodes r))"

definition register_container :: "container \<Rightarrow> artifact_registry \<Rightarrow> bool \<times> artifact_registry" where
  "register_container c r =
     (case map_of (ag_nodes r) (ct_node_id c) of
        None \<Rightarrow> (False, r)
      | Some n \<Rightarrow>
          (True, r\<lparr>ag_nodes := AList.update (ct_node_id c)
             (n\<lparr>cn_containers := AList.update (ct_container_id c) c (cn_containers n)\<rparr>) (ag_nodes r)\<rparr>))"

text \<open>The methods that look for a container take the first node that has it.\<close>

definition node_of_container :: "string \<Rightarrow> artifact_registry \<Rightarrow> (string \<times> cluster_node) option" where
  "node_of_container container_id r = find (\<lambda>(nid, n). container_id \<in> set (dict_keys (cn_containers n))) (ag_nodes r)"

definition get_container :: "artifact_registry \<Rightarrow> string \<Rightarrow> container option" where
  "get_container r container_id =
     (case node_of_container container_id r of None \<Rightarrow> None | Some (nid, n) \<Rightarrow> map_of (cn_containers n) container_id)"

definition all_containers :: "artifact_registry \<Rightarrow> container list" where
  "all_containers r = concat (map (\<lambda>n. dict_values (cn_containers n)) (dict_values (ag_nodes r)))"

definition get_containers_for_function :: "artifact_registry \<Rightarrow> string \<Rightarrow> container list" where
  "get_containers_for_function r function_id = filter (\<lambda>c. ct_function_id c = function_id) (all_containers r)"

definition get_all_ready_containers :: "artifact_registry \<Rightarrow> container list" where
  "get_all_ready_containers r = filter (\<lambda>c. ct_status c = ''ready'') (all_containers r)"

definition update_container :: "string \<Rightarrow> (container \<Rightarrow> container) \<Rightarrow> artifact_registry \<Rightarrow> bool \<times> artifact_registry" where
  "update_container container_id f r =
     (case node_of_container container_id r of
        None \<Rightarrow> (False, r)
      | Some (nid, n) \<Rightarrow>
          (True, r\<lparr>ag_nodes := AList.update nid
             (n\<lparr>cn_containers := AList.map_entry container_id f (cn_containers n)\<rparr>) (ag_nodes r)\<rparr>))"

definition rebind_container :: "pyfloat \<Rightarrow> string \<Rightarrow> string \<Rightarrow> string \<Rightarrow> artifact_registry \<Rightarrow> bool \<times> artifact_registry" where
  "rebind_container now container_id function_id lora_id r =
     update_container container_id (rebind_function now function_id lora_id) r"

definition remove_container :: "string \<Rightarrow> artifact_registry \<Rightarrow> bool \<times> artifact_registry" where
  "remove_container container_id r =
     (case node_of_container container_id r of
        None \<Rightarrow> (False, r)
      | Some (nid, n) \<Rightarrow>
          (True, r\<lparr>ag_nodes := AList.update nid (n\<lparr>cn_containers := AList.delete container_id (cn_containers n)\<rparr>) (ag_nodes r)\<rparr>))"

end
