(* ===== verification/Preload_Scheduler.thy ===== *)
theory Preload_Scheduler
  imports Artifact_Registry Text_Format
begin

text \<open>
  The pre-loading scheduler of the ServerlessLoRA baseline,
  \<open>src/baselines/serverlesslora/preload_scheduler.py\<close>: the greedy ranking of artifacts by value
  density, the decisions that fit the nodes' memory, and the rebalancing of containers from
  overstocked to starving functions. The clock is read once for a round; the answers of the
  containers to a swap are an argument. Logging and the HTTP server are left out.
\<close>

section \<open>State\<close>

datatype preload_target = To_container | To_gpu

record preload_decision =
  pd_decision_id :: string
  pd_artifact_id :: string
  pd_target_node_id :: string
  pd_target_location :: preload_target
  pd_function_id :: "string option"
  pd_priority :: int
  pd_value_density :: density
  pd_expected_value :: pyfloat
  pd_status :: string

record preload_scheduler =
  ps_registry :: artifact_registry
  ps_threshold :: pyfloat
  ps_swapping_containers :: "string pyset"
  ps_pending_decisions :: "(string, preload_decision list) dict"
  ps_decision_counter :: int
  ps_last_swap_time :: "(string, pyfloat) dict"
  ps_total_rebalance_decisions :: int
  ps_total_schedules :: int
  ps_total_decisions :: int
  ps_last_schedule_time :: pyfloat

definition preload_init :: "artifact_registry \<Rightarrow> pyfloat \<Rightarrow> preload_scheduler" where
  "preload_init r threshold =
     \<lparr>ps_registry = r, ps_threshold = threshold, ps_swapping_containers = [], ps_pending_decisions = [], ps_decision_counter = 0,
      ps_last_swap_time = [], ps_total_rebalance_decisions = 0, ps_total_schedules = 0, ps_total_decisions = 0,
      ps_last_schedule_time = 0\<rparr>"

definition rate_of :: "pyfloat \<Rightarrow> string \<Rightarrow> preload_scheduler \<Rightarrow> pyfloat \<times> preload_scheduler" where
  "rate_of now function_id s =
     (let (rate, r) = get_request_rate now function_id (ps_registry s) in (rate, s\<lparr>ps_registry := r\<rparr>))"

section \<open>Rates of artifacts\<close>

text \<open>Functions add their rate to the artifacts they require.\<close>

definition add_rate :: "pyfloat \<Rightarrow> (string, pyfloat) dict \<Rightarrow> string \<Rightarrow> (string, pyfloat) dict" where
  "add_rate rate rates a =
     (case map_of rates a of None \<Rightarrow> rates | Some x \<Rightarrow> AList.update a (x + rate) rates)"

fun add_function_rates ::
  "pyfloat \<Rightarrow> function_profile list \<Rightarrow> (string, pyfloat) dict \<Rightarrow> preload_scheduler \<Rightarrow> (string, pyfloat) dict \<times> preload_scheduler" where
  "add_function_rates now [] rates s = (rates, s)"
| "add_function_rates now (f # fs) rates s =
     (let (rate, s1) = rate_of now (fp_function_id f) s
      in add_function_rates now fs (foldl (add_rate rate) rates (fp_required_artifacts f)) s1)"

definition compute_artifact_rates ::
  "pyfloat \<Rightarrow> function_profile list \<Rightarrow> artifact list \<Rightarrow> preload_scheduler \<Rightarrow> (string, pyfloat) dict \<times> preload_scheduler" where
  "compute_artifact_rates now functions artifacts s =
     add_function_rates now functions (foldl (\<lambda>d a. AList.update (art_id a) 0 d) [] artifacts) s"

section \<open>Constraints\<close>

definition artifact_loaded_on_node :: "artifact_registry \<Rightarrow> artifact \<Rightarrow> cluster_node \<Rightarrow> bool" where
  "artifact_loaded_on_node r art n \<longleftrightarrow>
     list_ex (\<lambda>c. ct_function_id c \<noteq> [] \<and>
                    (case get_function r (ct_function_id c) of
                       None \<Rightarrow> False
                     | Some f \<Rightarrow> art_id art \<in> set (fp_required_artifacts f)) \<or>
                  art_id art \<in> set (ct_loaded_artifacts c) \<or> art_id art \<in> set (ct_gpu_loaded_artifacts c))
       (dict_values (cn_containers n)) \<or>
     art_type art \<noteq> ADAPTER \<and>
       (art_loaded_at_node art = Some (cn_node_id n) \<or> art_type art \<in> {BACKBONE, LIBRARY} \<and> cn_containers n \<noteq> [])"

definition check_capacity :: "artifact \<Rightarrow> cluster_node \<Rightarrow> preload_target \<Rightarrow> bool" where
  "check_capacity art n target =
     (case target of
        To_gpu \<Rightarrow> can_allocate_gpu n (art_size_mb art * (105 / 100))
      | To_container \<Rightarrow> can_allocate_container n (art_size_mb art))"

definition pending_for :: "preload_scheduler \<Rightarrow> cluster_node \<Rightarrow> string \<Rightarrow> bool" where
  "pending_for s n a \<longleftrightarrow> list_ex (\<lambda>d. pd_artifact_id d = a) (dict_get (ps_pending_decisions s) (cn_node_id n) [])"

definition check_precedence :: "preload_scheduler \<Rightarrow> artifact \<Rightarrow> cluster_node \<Rightarrow> bool" where
  "check_precedence s art n \<longleftrightarrow>
     list_all (\<lambda>dep_id. case get_artifact (ps_registry s) dep_id of
                            None \<Rightarrow> True
                          | Some dep \<Rightarrow>
                              art_type dep \<in> {BACKBONE, LIBRARY} \<and> cn_containers n \<noteq> [] \<or>
                              art_loaded_at_node dep = Some (cn_node_id n) \<or> pending_for s n dep_id)
       (art_depends_on art)"

definition check_coupling :: "preload_scheduler \<Rightarrow> artifact \<Rightarrow> cluster_node \<Rightarrow> bool" where
  "check_coupling s art n =
     (if art_type art \<noteq> ADAPTER then True
      else case art_backbone_id art of
             None \<Rightarrow> True
           | Some b \<Rightarrow>
               if b = [] then True
               else (case get_artifact (ps_registry s) b of
                       None \<Rightarrow> False
                     | Some backbone \<Rightarrow>
                         art_type backbone = BACKBONE \<and> cn_containers n \<noteq> [] \<or>
                         art_loaded_at_node backbone = Some (cn_node_id n) \<or> pending_for s n b))"

section \<open>Ranking\<close>

record candidate =
  cd_artifact :: artifact
  cd_node_id :: string
  cd_target :: preload_target
  cd_density :: density

definition requires :: "string \<Rightarrow> function_profile \<Rightarrow> bool" where
  "requires a f \<longleftrightarrow> a \<in> set (fp_required_artifacts f)"

text \<open>An adapter whose function has demand and no container counts ten times.\<close>

definition unserved_boost :: "artifact_registry \<Rightarrow> artifact \<Rightarrow> pyfloat" where
  "unserved_boost r art =
     (if art_type art = ADAPTER
      then case find (requires (art_id art)) (get_all_functions r) of
             None \<Rightarrow> 1
           | Some f \<Rightarrow> if get_containers_for_function r (fp_function_id f) = [] \<and> 0 < fp_request_rate f then 10 else 1
      else 1)"

definition target_location :: "preload_target \<Rightarrow> artifact_location" where
  "target_location target = (case target of To_container \<Rightarrow> CONTAINER | To_gpu \<Rightarrow> GPU)"

definition admissible :: "preload_scheduler \<Rightarrow> artifact \<Rightarrow> preload_target \<Rightarrow> cluster_node \<Rightarrow> bool" where
  "admissible s art target n \<longleftrightarrow>
     \<not> artifact_loaded_on_node (ps_registry s) art n \<and> check_capacity art n target \<and> check_precedence s art n \<and>
     check_coupling s art n"

definition artifact_candidates ::
  "preload_scheduler \<Rightarrow> (string, pyfloat) dict \<Rightarrow> cluster_node list \<Rightarrow> artifact \<Rightarrow> candidate list" where
  "artifact_candidates s rates nodes art =
     (let rate = dict_get rates (art_id art) 0; boost = unserved_boost (ps_registry s) art
      in if rate < 1 / 1000 then []
         else concat (map (\<lambda>target.
           let dens = boosted boost (compute_density art rate (target_location target))
           in if dens < Finite (ps_threshold s) then []
              else map (\<lambda>n. \<lparr>cd_artifact = art, cd_node_id = cn_node_id n, cd_target = target, cd_density = dens\<rparr>)
                     (filter (admissible s art target) nodes)) [To_container, To_gpu]))"

definition compute_greedy_ranking ::
  "preload_scheduler \<Rightarrow> artifact list \<Rightarrow> (string, pyfloat) dict \<Rightarrow> cluster_node list \<Rightarrow> candidate list" where
  "compute_greedy_ranking s artifacts rates nodes =
     sort_desc cd_density (concat (map (artifact_candidates s rates nodes) artifacts))"

section \<open>Decisions\<close>

definition loaded_in :: "(container \<Rightarrow> string pyset) \<Rightarrow> cluster_node \<Rightarrow> string \<Rightarrow> bool" where
  "loaded_in sel n a \<longleftrightarrow> list_ex (\<lambda>c. a \<in> set (sel c)) (dict_values (cn_containers n))"

definition estimate_node_memory :: "artifact_registry \<Rightarrow> cluster_node \<Rightarrow> artifact list \<Rightarrow> pyfloat \<times> pyfloat" where
  "estimate_node_memory r n artifacts =
     foldl (\<lambda>(c, g) art.
              if \<not> artifact_loaded_on_node r art n then (c, g)
              else if loaded_in ct_gpu_loaded_artifacts n (art_id art) then (c, g + get_effective_size art GPU)
              else if loaded_in ct_loaded_artifacts n (art_id art) then (c + get_effective_size art CONTAINER, g)
              else (c, g)) (0, 0) artifacts"

record generation =
  gn_decisions :: "preload_decision list"
  gn_container :: "(string, pyfloat) dict"
  gn_gpu :: "(string, pyfloat) dict"
  gn_placed :: "(string \<times> string) list"
  gn_scheduler :: preload_scheduler

definition start_generation :: "preload_scheduler \<Rightarrow> cluster_node list \<Rightarrow> generation" where
  "start_generation s nodes =
     (let r = ps_registry s; arts = get_all_artifacts r
      in \<lparr>gn_decisions = [],
          gn_container = foldl (\<lambda>d n. AList.update (cn_node_id n)
             (max (cn_container_memory_used_mb n) (fst (estimate_node_memory r n arts))) d) [] nodes,
          gn_gpu = foldl (\<lambda>d n. AList.update (cn_node_id n)
             (max (cn_gpu_memory_used_mb n) (snd (estimate_node_memory r n arts))) d) [] nodes,
          gn_placed = [], gn_scheduler = s\<rparr>)"

definition function_for :: "artifact_registry \<Rightarrow> string \<Rightarrow> string" where
  "function_for r a = (case find (requires a) (get_all_functions r) of None \<Rightarrow> [] | Some f \<Rightarrow> fp_function_id f)"

definition place_candidate :: "pyfloat \<Rightarrow> generation \<Rightarrow> candidate \<Rightarrow> generation" where
  "place_candidate now g c =
     (let s = gn_scheduler g; a = art_id (cd_artifact c); required_mb = get_effective_size (cd_artifact c) (target_location (cd_target c))
      in if (a, cd_node_id c) \<in> set (gn_placed g) then g
         else case get_cluster_node (ps_registry s) (cd_node_id c) of
           None \<Rightarrow> g
         | Some n \<Rightarrow>
             let used = dict_get (if cd_target c = To_gpu then gn_gpu g else gn_container g) (cd_node_id c) 0;
                 limit = (if cd_target c = To_gpu then cn_gpu_memory_mb n else cn_container_memory_mb n)
             in if limit < used + required_mb then g
                else let s1 = s\<lparr>ps_decision_counter := ps_decision_counter s + 1\<rparr>;
                         fid = function_for (ps_registry s1) a;
                         (rate, s2) = rate_of now fid s1;
                         d = \<lparr>pd_decision_id = ''decision_'' @ str_int (ps_decision_counter s1), pd_artifact_id = a,
                              pd_target_node_id = cd_node_id c, pd_target_location = cd_target c,
                              pd_function_id = (if fid = [] then None else Some fid),
                              pd_priority = int (length (gn_decisions g)), pd_value_density = cd_density c,
                              pd_expected_value = compute_value (cd_artifact c) rate, pd_status = ''pending''\<rparr>
                     in \<lparr>gn_decisions = gn_decisions g @ [d],
                         gn_container = (if cd_target c = To_gpu then gn_container g
                                         else AList.update (cd_node_id c) (used + required_mb) (gn_container g)),
                         gn_gpu = (if cd_target c = To_gpu then AList.update (cd_node_id c) (used + required_mb) (gn_gpu g)
                                   else gn_gpu g),
                         gn_placed = set_add (a, cd_node_id c) (gn_placed g), gn_scheduler = s2\<rparr>)"

definition generate_decisions :: "pyfloat \<Rightarrow> preload_scheduler \<Rightarrow> candidate list \<Rightarrow> cluster_node list \<Rightarrow> generation" where
  "generate_decisions now s ranked nodes = foldl (place_candidate now) (start_generation s nodes) ranked"

end
