(* ===== verification/Preload_Rebalance.thy ===== *)
theory Preload_Rebalance
  imports Preload_Scheduler
begin

text \<open>
  Rebalancing in \<open>preload_scheduler.py\<close>: which containers of a node's overstocked functions
  go to its starving ones, the swaps, and a whole round of the scheduler.
\<close>

section \<open>Fair shares on a node\<close>

definition rebalance_min_containers :: int where
  "rebalance_min_containers = 1"

definition rebalance_max_swaps :: nat where
  "rebalance_max_swaps = 2"

definition add_container :: "(string, container list) dict \<Rightarrow> container \<Rightarrow> (string, container list) dict" where
  "add_container d c =
     (if ct_function_id c = [] then d else AList.update (ct_function_id c) (dict_get d (ct_function_id c) [] @ [c]) d)"

definition function_containers :: "cluster_node \<Rightarrow> (string, container list) dict" where
  "function_containers n = foldl add_container [] (dict_values (cn_containers n))"

fun function_rates :: "pyfloat \<Rightarrow> string list \<Rightarrow> preload_scheduler \<Rightarrow> (string, pyfloat) dict \<times> preload_scheduler" where
  "function_rates now [] s = ([], s)"
| "function_rates now (fid # fids) s =
     (let (rate, s1) = rate_of now fid s; (rates, s2) = function_rates now fids s1 in ((fid, rate) # rates, s2))"

definition desired_count :: "int \<Rightarrow> pyfloat \<Rightarrow> pyfloat \<Rightarrow> int" where
  "desired_count total_containers total_rate rate =
     max rebalance_min_containers (py_round (of_int total_containers * rate / total_rate))"

text \<open>Starving: fewer containers than its share, and more requests pending than it has containers.\<close>

definition starving_functions :: "(string \<times> container list) list \<Rightarrow> (string \<Rightarrow> int) \<Rightarrow> (string \<times> int) list" where
  "starving_functions fcs desired =
     map (\<lambda>(fid, cs). (fid, desired fid - int (length cs)))
       (filter (\<lambda>(fid, cs). int (length cs) < desired fid \<and> int (length cs) < sum_list (map ct_pending_requests cs)) fcs)"

definition overstocked_functions :: "(string \<times> container list) list \<Rightarrow> (string \<Rightarrow> int) \<Rightarrow> (string \<times> int) list" where
  "overstocked_functions fcs desired =
     map (\<lambda>(fid, cs). (fid, int (length cs) - desired fid))
       (filter (\<lambda>(fid, cs). desired fid < int (length cs) \<and> rebalance_min_containers < int (length cs)) fcs)"

section \<open>Pairing\<close>

record swap_candidate =
  sw_artifact :: artifact
  sw_node_id :: string
  sw_density :: pyfloat
  sw_donor :: container

text \<open>What the loops over a node change: candidates, donors, swap times and the number of swaps.\<close>

record pairing =
  pg_candidates :: "swap_candidate list"
  pg_donors :: "string pyset"
  pg_last_swap :: "(string, pyfloat) dict"
  pg_swaps :: nat

definition take_donor :: "pyfloat \<Rightarrow> swap_candidate \<Rightarrow> pairing \<Rightarrow> pairing" where
  "take_donor now sw g =
     g\<lparr>pg_candidates := pg_candidates g @ [sw], pg_donors := set_add (ct_container_id (sw_donor sw)) (pg_donors g),
       pg_last_swap := AList.update (ct_container_id (sw_donor sw)) now (pg_last_swap g), pg_swaps := pg_swaps g + 1\<rparr>"

definition remaining_count :: "container list \<Rightarrow> pairing \<Rightarrow> int" where
  "remaining_count donors g = int (length donors) - int (length (filter (\<lambda>c. ct_container_id c \<in> set (pg_donors g)) donors))"

text \<open>The loop over the containers of one donor function.\<close>

fun donate ::
  "pyfloat \<Rightarrow> string \<Rightarrow> artifact \<Rightarrow> pyfloat \<Rightarrow> container list \<Rightarrow> container list \<Rightarrow> int \<times> int \<times> pairing \<Rightarrow> int \<times> int \<times> pairing" where
  "donate now node_id art rate_diff donors [] (deficit, surplus, g) = (deficit, surplus, g)"
| "donate now node_id art rate_diff donors (c # cs) (deficit, surplus, g) =
     (if deficit \<le> 0 \<or> surplus \<le> 0 then (deficit, surplus, g)
      else if ct_container_id c \<in> set (pg_donors g) then donate now node_id art rate_diff donors cs (deficit, surplus, g)
      else if remaining_count donors g \<le> rebalance_min_containers then (deficit, surplus, g)
      else if 0 < ct_pending_requests c then donate now node_id art rate_diff donors cs (deficit, surplus, g)
      else if now - dict_get (pg_last_swap g) (ct_container_id c) 0 < 30
      then donate now node_id art rate_diff donors cs (deficit, surplus, g)
      else let g1 = take_donor now
                 \<lparr>sw_artifact = art, sw_node_id = node_id,
                  sw_density = rate_diff * art_loading_delay_ms art / max (art_size_mb art) 1, sw_donor = c\<rparr> g
           in if rebalance_max_swaps \<le> pg_swaps g1 then (deficit - 1, surplus - 1, g1)
              else donate now node_id art rate_diff donors cs (deficit - 1, surplus - 1, g1))"

text \<open>The loop over the overstocked functions; their surplus is written back.\<close>

fun pair_overstocked ::
  "pyfloat \<Rightarrow> string \<Rightarrow> artifact \<Rightarrow> (string \<Rightarrow> pyfloat) \<Rightarrow> (string \<Rightarrow> container list) \<Rightarrow> pyfloat \<Rightarrow> (string \<times> int) list \<Rightarrow>
   int \<Rightarrow> pairing \<Rightarrow> (string \<times> int) list \<times> pairing" where
  "pair_overstocked now node_id art rates conts srate [] deficit g = ([], g)"
| "pair_overstocked now node_id art rates conts srate ((donor, surplus) # ovs) deficit g =
     (if deficit \<le> 0 then ((donor, surplus) # ovs, g)
      else if surplus \<le> 0 \<or> srate < rates donor * 2 \<or> srate - rates donor < 5 / 100
      then apfst ((#) (donor, surplus)) (pair_overstocked now node_id art rates conts srate ovs deficit g)
      else let (deficit1, surplus1, g1) = donate now node_id art (srate - rates donor) (conts donor) (conts donor) (deficit, surplus, g)
           in apfst ((#) (donor, surplus1)) (pair_overstocked now node_id art rates conts srate ovs deficit1 g1))"

definition adapter_of :: "artifact_registry \<Rightarrow> function_profile \<Rightarrow> artifact option" where
  "adapter_of r f =
     (case find (\<lambda>a. case get_artifact r a of None \<Rightarrow> False | Some art \<Rightarrow> art_type art = ADAPTER) (fp_required_artifacts f) of
        None \<Rightarrow> None
      | Some a \<Rightarrow> get_artifact r a)"

fun pair_starving ::
  "pyfloat \<Rightarrow> string \<Rightarrow> artifact_registry \<Rightarrow> (string \<Rightarrow> pyfloat) \<Rightarrow> (string \<Rightarrow> container list) \<Rightarrow> (string \<times> int) list \<Rightarrow>
   (string \<times> int) list \<Rightarrow> pairing \<Rightarrow> pairing" where
  "pair_starving now node_id r rates conts [] ovs g = g"
| "pair_starving now node_id r rates conts ((fid, deficit) # sts) ovs g =
     (if rebalance_max_swaps \<le> pg_swaps g then g
      else case Option.bind (get_function r fid) (adapter_of r) of
             None \<Rightarrow> pair_starving now node_id r rates conts sts ovs g
           | Some art \<Rightarrow>
               let (ovs1, g1) = pair_overstocked now node_id art rates conts (rates fid) ovs deficit g
               in pair_starving now node_id r rates conts sts ovs1 g1)"

section \<open>The candidates\<close>

definition rebalance_node :: "pyfloat \<Rightarrow> cluster_node \<Rightarrow> swap_candidate list \<times> preload_scheduler \<Rightarrow> swap_candidate list \<times> preload_scheduler" where
  "rebalance_node now n css =
     (let (cands, s) = css; fcs = function_containers n
      in if fcs = [] then (cands, s)
         else let (rates, s1) = function_rates now (dict_keys fcs) s;
                  total_rate = sum_list (dict_values rates);
                  total_containers = int (sum_list (map length (dict_values fcs)))
              in if total_rate < 1 / 1000 \<or> total_rate < 10 / 60 \<or> total_containers < 2 then (cands, s1)
                 else let rate = (\<lambda>fid. dict_get rates fid 0);
                          desired = (\<lambda>fid. desired_count total_containers total_rate (rate fid));
                          starving = starving_functions fcs desired;
                          overstocked = overstocked_functions fcs desired
                      in if starving = [] \<or> overstocked = [] then (cands, s1)
                         else let g = pair_starving now (cn_node_id n) (ps_registry s1) rate (\<lambda>fid. dict_get fcs fid [])
                                        (sort_desc (rate \<circ> fst) starving) (sort_key (rate \<circ> fst) overstocked)
                                        \<lparr>pg_candidates = [], pg_donors = [], pg_last_swap = ps_last_swap_time s1, pg_swaps = 0\<rparr>
                              in (cands @ pg_candidates g, s1\<lparr>ps_last_swap_time := pg_last_swap g\<rparr>))"

definition compute_rebalance_candidates :: "pyfloat \<Rightarrow> cluster_node list \<Rightarrow> preload_scheduler \<Rightarrow> swap_candidate list \<times> preload_scheduler" where
  "compute_rebalance_candidates now nodes s =
     (let (cands, s1) = foldl (\<lambda>css n. rebalance_node now n css) ([], s) nodes in (sort_desc sw_density cands, s1))"

section \<open>The swaps\<close>

text \<open>Whether a container answers a swap to an adapter for a function with success.\<close>

type_synonym swap_answers = "string \<Rightarrow> string \<Rightarrow> string \<Rightarrow> bool"

definition swap_artifacts :: "string \<Rightarrow> container \<Rightarrow> container" where
  "swap_artifacts new_adapter_id c =
     (let drop_old = (\<lambda>xs. case ct_lora_id c of
                             None \<Rightarrow> xs
                           | Some l \<Rightarrow> if l = [] then xs else set_discard (adapter_artifact_id l) xs);
          new = adapter_artifact_id new_adapter_id
      in c\<lparr>ct_loaded_artifacts := set_add new (drop_old (ct_loaded_artifacts c)),
           ct_gpu_loaded_artifacts := set_add new (drop_old (ct_gpu_loaded_artifacts c))\<rparr>)"

definition swap_container :: "pyfloat \<Rightarrow> string \<Rightarrow> string \<Rightarrow> string \<Rightarrow> preload_scheduler \<Rightarrow> preload_scheduler" where
  "swap_container now cid func_id new_adapter_id s =
     (let r1 = snd (update_container cid (swap_artifacts new_adapter_id) (ps_registry s));
          r2 = snd (rebind_container now cid func_id new_adapter_id r1)
      in s\<lparr>ps_registry := r2, ps_last_swap_time := AList.update cid now (ps_last_swap_time s)\<rparr>)"

definition swap_one ::
  "pyfloat \<Rightarrow> swap_answers \<Rightarrow> string pyset \<times> nat \<times> preload_scheduler \<Rightarrow> swap_candidate \<Rightarrow> string pyset \<times> nat \<times> preload_scheduler" where
  "swap_one now answers acc sw =
     (let (targeted, executed, s) = acc; cid = ct_container_id (sw_donor sw); r = ps_registry s;
          func_id = function_for r (art_id (sw_artifact sw))
      in if cid \<in> set targeted then acc
         else case get_container r cid of
           None \<Rightarrow> acc
         | Some c \<Rightarrow>
             if ct_status c \<noteq> ''ready'' \<or> func_id = [] then acc
             else case Option.bind (get_function r func_id) fp_adapter_id of
               None \<Rightarrow> acc
             | Some new_adapter_id \<Rightarrow>
                 if new_adapter_id = [] \<or> ct_lora_id c = Some new_adapter_id \<or> 0 < ct_pending_requests c \<or>
                    cid \<in> set (ps_swapping_containers s) \<or> \<not> answers cid new_adapter_id func_id
                 then acc
                 else (set_add cid targeted, executed + 1, swap_container now cid func_id new_adapter_id s))"

definition execute_rebalance_swaps :: "pyfloat \<Rightarrow> swap_answers \<Rightarrow> swap_candidate list \<Rightarrow> preload_scheduler \<Rightarrow> nat \<times> preload_scheduler" where
  "execute_rebalance_swaps now answers cands s =
     (let (targeted, executed, s1) = foldl (swap_one now answers) ([], 0, s) cands
      in (executed, s1\<lparr>ps_total_rebalance_decisions := ps_total_rebalance_decisions s1 + int executed\<rparr>))"

section \<open>A round\<close>

definition store_decision :: "(string, preload_decision list) dict \<Rightarrow> preload_decision \<Rightarrow> (string, preload_decision list) dict" where
  "store_decision p d = AList.update (pd_target_node_id d) (dict_get p (pd_target_node_id d) [] @ [d]) p"

definition compute_schedule :: "pyfloat \<Rightarrow> swap_answers \<Rightarrow> preload_scheduler \<Rightarrow> preload_decision list \<times> preload_scheduler" where
  "compute_schedule now answers s =
     (let s0 = s\<lparr>ps_total_schedules := ps_total_schedules s + 1\<rparr>;
          artifacts = get_all_artifacts (ps_registry s0); functions = get_all_functions (ps_registry s0);
          nodes = get_healthy_nodes now (ps_registry s0)
      in if nodes = [] then ([], s0)
         else let (rates, s1) = compute_artifact_rates now functions artifacts s0;
                  ranked = compute_greedy_ranking s1 artifacts rates nodes;
                  g = generate_decisions now s1 ranked nodes;
                  (cands, s2) = compute_rebalance_candidates now nodes (gn_scheduler g);
                  (executed, s3) = execute_rebalance_swaps now answers cands s2
              in (gn_decisions g,
                  s3\<lparr>ps_pending_decisions := foldl store_decision (ps_pending_decisions s3) (gn_decisions g),
                     ps_total_decisions := ps_total_decisions s3 + int (length (gn_decisions g)) + int executed,
                     ps_last_schedule_time := now\<rparr>))"

definition get_pending_decisions :: "preload_scheduler \<Rightarrow> string \<Rightarrow> preload_decision list" where
  "get_pending_decisions s node_id = sort_key pd_priority (dict_get (ps_pending_decisions s) node_id [])"

text \<open>The first decision with the id is popped from the list of its node.\<close>

fun pop_decision :: "string \<Rightarrow> preload_decision list \<Rightarrow> preload_decision list option" where
  "pop_decision did [] = None"
| "pop_decision did (d # ds) = (if pd_decision_id d = did then Some ds else map_option ((#) d) (pop_decision did ds))"

fun pop_pending :: "string \<Rightarrow> (string, preload_decision list) dict \<Rightarrow> bool \<times> (string, preload_decision list) dict" where
  "pop_pending did [] = (False, [])"
| "pop_pending did ((n, ds) # p) =
     (case pop_decision did ds of Some ds1 \<Rightarrow> (True, (n, ds1) # p) | None \<Rightarrow> apsnd ((#) (n, ds)) (pop_pending did p))"

definition mark_decision_completed :: "string \<Rightarrow> preload_scheduler \<Rightarrow> bool \<times> preload_scheduler" where
  "mark_decision_completed did s =
     (let (found, p) = pop_pending did (ps_pending_decisions s) in (found, s\<lparr>ps_pending_decisions := p\<rparr>))"

end
