(* ===== verification/Preload_Facts.thy ===== *)
theory Preload_Facts
  imports Preload_Rebalance
begin

text \<open>
  What a round of the scheduler keeps to: the decisions fit the memory of the nodes and the
  constraints of the artifacts, and rebalancing never takes a function's last container.
\<close>

section \<open>The registry\<close>

text \<open>The batch size is the largest that meets the objective, up to 128.\<close>

lemma max_batch_meets_slo:
  assumes "0 < fp_marginal_cost_ms f" "fp_base_ttft_ms f \<le> fp_slo_ms f"
  shows "compute_ttft f (compute_max_batch_size f) \<le> fp_slo_ms f"
    and "compute_max_batch_size f < 128 \<Longrightarrow> fp_slo_ms f < compute_ttft f (compute_max_batch_size f + 1)"
proof -
  define q where "q = (fp_slo_ms f - fp_base_ttft_ms f) / fp_marginal_cost_ms f"
  have q: "0 \<le> q" using assms by (simp add: q_def)
  have q_eq: "fp_slo_ms f = fp_base_ttft_ms f + fp_marginal_cost_ms f * q" using assms(1) by (simp add: q_def)
  have b: "compute_max_batch_size f = min (\<lfloor>q\<rfloor> + 1) 128" using assms(1) q by (simp add: compute_max_batch_size_def py_int_def flip: q_def)
  have "of_int (compute_max_batch_size f - 1) \<le> q" using q unfolding b by linarith
  then show "compute_ttft f (compute_max_batch_size f) \<le> fp_slo_ms f" using assms(1) by (simp add: compute_ttft_def q_eq)
  assume "compute_max_batch_size f < 128"
  then have "q < of_int (compute_max_batch_size f)" unfolding b by linarith
  then show "fp_slo_ms f < compute_ttft f (compute_max_batch_size f + 1)" using assms(1) by (simp add: compute_ttft_def q_eq)
qed

text \<open>The rate is that of the requests recorded in the last minute.\<close>

lemma recorded_requests:
  "dict_get (ag_request_counts (foldl (\<lambda>r now. record_request now fid r) r ts)) fid [] = dict_get (ag_request_counts r) fid [] @ ts"
proof (induction ts arbitrary: r)
  case (Cons t ts)
  have "dict_get (ag_request_counts (record_request t fid r)) fid [] = dict_get (ag_request_counts r) fid [] @ [t]"
    by (simp add: record_request_def Let_def split: option.splits)
  then show ?case by (simp add: Cons)
qed simp

lemma request_rate_counts:
  "fst (get_request_rate now fid (foldl (\<lambda>r now. record_request now fid r) new_artifact_registry ts)) =
     of_nat (length (filter (\<lambda>t. now - 60 < t) ts)) / 60"
  by (simp add: get_request_rate_def Let_def recorded_requests rate_window_s_def new_artifact_registry_def)

text \<open>Every shared artifact depends on earlier ones only, and their ids differ.\<close>

lemma default_artifacts_ordered:
  "distinct (map art_id (create_default_artifacts m)) \<and>
   list_all (\<lambda>i. set (art_depends_on (create_default_artifacts m ! i)) \<subseteq> art_id ` set (take i (create_default_artifacts m)))
     [0..<length (create_default_artifacts m)]"
  by (simp add: create_default_artifacts_def Let_def shared_artifact_def upt_rec)

section \<open>Reading a rate changes only rates\<close>

definition registry_ok :: "artifact_registry \<Rightarrow> bool" where
  "registry_ok r \<longleftrightarrow>
     dict_wf (ag_artifacts r) \<and> dict_wf (ag_nodes r) \<and>
     list_all (\<lambda>(k, a). art_id a = k) (ag_artifacts r) \<and> list_all (\<lambda>(k, n). cn_node_id n = k) (ag_nodes r)"

text \<open>The same artifacts, nodes and requirements.\<close>

definition same_plan :: "preload_scheduler \<Rightarrow> preload_scheduler \<Rightarrow> bool" where
  "same_plan s s' \<longleftrightarrow>
     ag_artifacts (ps_registry s') = ag_artifacts (ps_registry s) \<and> ag_nodes (ps_registry s') = ag_nodes (ps_registry s) \<and>
     (\<forall>fid. map_option fp_required_artifacts (get_function (ps_registry s') fid) =
            map_option fp_required_artifacts (get_function (ps_registry s) fid)) \<and>
     ps_pending_decisions s' = ps_pending_decisions s \<and> ps_threshold s' = ps_threshold s \<and>
     ps_last_swap_time s' = ps_last_swap_time s"

lemma same_plan_refl [simp]: "same_plan s s"
  by (simp add: same_plan_def)

lemma same_plan_trans: "same_plan s s' \<Longrightarrow> same_plan s' s'' \<Longrightarrow> same_plan s s''"
  by (simp add: same_plan_def)

lemma rate_of_plan: "rate_of now fid s = (rate, s') \<Longrightarrow> same_plan s s'"
  by (auto simp: rate_of_def get_request_rate_def Let_def same_plan_def get_function_def update_conv' split: prod.splits option.splits)

lemma add_function_rates_plan: "add_function_rates now fs rates s = (rates', s') \<Longrightarrow> same_plan s s'"
  by (induction now fs rates s rule: add_function_rates.induct)
    (auto split: prod.splits dest!: rate_of_plan elim: same_plan_trans)

lemma function_rates_plan: "function_rates now fids s = (rates, s') \<Longrightarrow> same_plan s s'"
  by (induction now fids s arbitrary: rates s' rule: function_rates.induct)
    (fastforce split: prod.splits dest!: rate_of_plan elim: same_plan_trans)+

lemma same_plan_loaded: "same_plan s s' \<Longrightarrow> artifact_loaded_on_node (ps_registry s') art n = artifact_loaded_on_node (ps_registry s) art n"
proof -
  assume same: "same_plan s s'"
  have "(case get_function (ps_registry s') fid of None \<Rightarrow> False | Some f \<Rightarrow> a \<in> set (fp_required_artifacts f)) =
      (case get_function (ps_registry s) fid of None \<Rightarrow> False | Some f \<Rightarrow> a \<in> set (fp_required_artifacts f))" for fid a
  proof -
    have "map_option fp_required_artifacts (get_function (ps_registry s') fid) =
        map_option fp_required_artifacts (get_function (ps_registry s) fid)"
      using same by (simp add: same_plan_def)
    then show ?thesis by (cases "get_function (ps_registry s') fid"; cases "get_function (ps_registry s) fid") simp_all
  qed
  then show ?thesis by (simp add: artifact_loaded_on_node_def)
qed

lemma same_plan_admissible: "same_plan s s' \<Longrightarrow> admissible s' art target n = admissible s art target n"
  by (simp add: admissible_def same_plan_loaded)
    (simp add: same_plan_def check_precedence_def check_coupling_def pending_for_def get_artifact_def cong: list.map_cong option.case_cong)

lemma same_plan_estimate:
  "same_plan s s' \<Longrightarrow> estimate_node_memory (ps_registry s') n arts = estimate_node_memory (ps_registry s) n arts"
  by (simp add: estimate_node_memory_def same_plan_loaded)

section \<open>Decisions\<close>

text \<open>The memory the decisions of a round take on a node.\<close>

definition planned_mb :: "artifact_registry \<Rightarrow> preload_decision list \<Rightarrow> string \<Rightarrow> preload_target \<Rightarrow> pyfloat" where
  "planned_mb r ds node_id target =
     sum_list (map (\<lambda>d. case get_artifact r (pd_artifact_id d) of
                          None \<Rightarrow> 0 | Some art \<Rightarrow> get_effective_size art (target_location target))
       (filter (\<lambda>d. pd_target_node_id d = node_id \<and> pd_target_location d = target) ds))"

definition node_limit :: "cluster_node \<Rightarrow> preload_target \<Rightarrow> pyfloat" where
  "node_limit n target = (case target of To_gpu \<Rightarrow> cn_gpu_memory_mb n | To_container \<Rightarrow> cn_container_memory_mb n)"

text \<open>What a node holds: the larger of what it reports and what is known to be loaded.\<close>

definition node_used :: "artifact_registry \<Rightarrow> cluster_node \<Rightarrow> preload_target \<Rightarrow> pyfloat" where
  "node_used r n target =
     (case target of
        To_gpu \<Rightarrow> max (cn_gpu_memory_used_mb n) (snd (estimate_node_memory r n (get_all_artifacts r)))
      | To_container \<Rightarrow> max (cn_container_memory_used_mb n) (fst (estimate_node_memory r n (get_all_artifacts r))))"

definition gn_used :: "generation \<Rightarrow> preload_target \<Rightarrow> (string, pyfloat) dict" where
  "gn_used g target = (case target of To_gpu \<Rightarrow> gn_gpu g | To_container \<Rightarrow> gn_container g)"

lemma foldl_update_node:
  "map_of (foldl (\<lambda>d n. AList.update (cn_node_id n) (f n) d) d0 nodes) k =
     (case find (\<lambda>n. cn_node_id n = k) (rev nodes) of Some n \<Rightarrow> Some (f n) | None \<Rightarrow> map_of d0 k)"
  by (induction nodes rule: rev_induct) (auto simp: update_conv')

lemma find_node:
  assumes "distinct (map cn_node_id nodes)" "n \<in> set nodes"
  shows "find (\<lambda>m. cn_node_id m = cn_node_id n) (rev nodes) = Some n"
proof (cases "find (\<lambda>m. cn_node_id m = cn_node_id n) (rev nodes)")
  case None
  then show ?thesis using assms(2) by (auto simp: find_None_iff)
next
  case (Some m)
  then have "m \<in> set nodes" "cn_node_id m = cn_node_id n"
    by (metis (mono_tags, lifting) find_Some_iff nth_mem set_rev) (use Some in \<open>auto simp: find_Some_iff\<close>)
  then show ?thesis using assms Some by (metis distinct_map inj_onD)
qed

text \<open>The invariant of the loop over the ranked candidates.\<close>

definition generation_ok :: "preload_scheduler \<Rightarrow> cluster_node list \<Rightarrow> candidate list \<Rightarrow> generation \<Rightarrow> bool" where
  "generation_ok s nodes ranked g \<longleftrightarrow>
     same_plan s (gn_scheduler g) \<and>
     (\<forall>n \<in> set nodes. \<forall>target.
        dict_get (gn_used g target) (cn_node_id n) 0 =
          node_used (ps_registry s) n target + planned_mb (ps_registry s) (gn_decisions g) (cn_node_id n) target \<and>
        (\<forall>d \<in> set (gn_decisions g). pd_target_node_id d = cn_node_id n \<longrightarrow> pd_target_location d = target \<longrightarrow>
           dict_get (gn_used g target) (cn_node_id n) 0 \<le> node_limit n target)) \<and>
     set (gn_placed g) = (\<lambda>d. (pd_artifact_id d, pd_target_node_id d)) ` set (gn_decisions g) \<and>
     distinct (map (\<lambda>d. (pd_artifact_id d, pd_target_node_id d)) (gn_decisions g)) \<and>
     map pd_priority (gn_decisions g) = map int [0..<length (gn_decisions g)] \<and>
     (\<forall>d \<in> set (gn_decisions g). \<exists>c \<in> set ranked. pd_artifact_id d = art_id (cd_artifact c) \<and> pd_target_node_id d = cd_node_id c \<and>
        pd_target_location d = cd_target c \<and> pd_value_density d = cd_density c)"

lemma planned_append:
  "planned_mb r (ds @ [d]) m t = planned_mb r ds m t +
     (if pd_target_node_id d = m \<and> pd_target_location d = t
      then (case get_artifact r (pd_artifact_id d) of None \<Rightarrow> 0 | Some art \<Rightarrow> get_effective_size art (target_location t)) else 0)"
  by (simp add: planned_mb_def)

lemma generation_okD:
  assumes "generation_ok s nodes ranked g" "n \<in> set nodes"
  shows "dict_get (gn_used g t) (cn_node_id n) 0 = node_used (ps_registry s) n t + planned_mb (ps_registry s) (gn_decisions g) (cn_node_id n) t"
    and "d \<in> set (gn_decisions g) \<Longrightarrow> pd_target_node_id d = cn_node_id n \<Longrightarrow> pd_target_location d = t \<Longrightarrow>
      dict_get (gn_used g t) (cn_node_id n) 0 \<le> node_limit n t"
  using assms unfolding generation_ok_def by blast+

text \<open>What one candidate does: nothing, or a decision that fits.\<close>

lemma place_candidate_cases:
  obtains "place_candidate now g c = g"
  | n d s2 where "get_cluster_node (ps_registry (gn_scheduler g)) (cd_node_id c) = Some n"
      "(art_id (cd_artifact c), cd_node_id c) \<notin> set (gn_placed g)"
      "pd_artifact_id d = art_id (cd_artifact c)" "pd_target_node_id d = cd_node_id c" "pd_target_location d = cd_target c"
      "pd_value_density d = cd_density c" "pd_priority d = int (length (gn_decisions g))" "same_plan (gn_scheduler g) s2"
      "dict_get (gn_used g (cd_target c)) (cd_node_id c) 0 + get_effective_size (cd_artifact c) (target_location (cd_target c))
         \<le> node_limit n (cd_target c)"
      "gn_decisions (place_candidate now g c) = gn_decisions g @ [d]" "gn_scheduler (place_candidate now g c) = s2"
      "set (gn_placed (place_candidate now g c)) = insert (art_id (cd_artifact c), cd_node_id c) (set (gn_placed g))"
      "\<And>t k. dict_get (gn_used (place_candidate now g c) t) k 0 =
         dict_get (gn_used g t) k 0 +
         (if t = cd_target c \<and> k = cd_node_id c then get_effective_size (cd_artifact c) (target_location (cd_target c)) else 0)"
proof -
  let ?s = "gn_scheduler g" and ?a = "art_id (cd_artifact c)"
  let ?req = "get_effective_size (cd_artifact c) (target_location (cd_target c))"
  let ?used = "dict_get (if cd_target c = To_gpu then gn_gpu g else gn_container g) (cd_node_id c) 0"
  consider (placed) "(?a, cd_node_id c) \<in> set (gn_placed g)"
    | (none) "(?a, cd_node_id c) \<notin> set (gn_placed g)" "get_cluster_node (ps_registry ?s) (cd_node_id c) = None"
    | (full) n where "(?a, cd_node_id c) \<notin> set (gn_placed g)" "get_cluster_node (ps_registry ?s) (cd_node_id c) = Some n"
        "(if cd_target c = To_gpu then cn_gpu_memory_mb n else cn_container_memory_mb n) < ?used + ?req"
    | (fits) n where "(?a, cd_node_id c) \<notin> set (gn_placed g)" "get_cluster_node (ps_registry ?s) (cd_node_id c) = Some n"
        "\<not> (if cd_target c = To_gpu then cn_gpu_memory_mb n else cn_container_memory_mb n) < ?used + ?req"
    by blast
  then show thesis
  proof cases
    case placed
    then show ?thesis using that(1) by (simp add: place_candidate_def Let_def)
  next
    case none
    then show ?thesis using that(1) by (simp add: place_candidate_def Let_def)
  next
    case full
    then show ?thesis using that(1) by (simp add: place_candidate_def Let_def)
  next
    case fits
    define s1 where "s1 = ?s\<lparr>ps_decision_counter := ps_decision_counter ?s + 1\<rparr>"
    obtain rate s2 where rate: "rate_of now (function_for (ps_registry s1) ?a) s1 = (rate, s2)" by fastforce
    have plan: "same_plan ?s s2" using rate_of_plan [OF rate] by (simp add: same_plan_def s1_def get_function_def)
    have res: "place_candidate now g c = \<lparr>gn_decisions = gn_decisions g @
        [\<lparr>pd_decision_id = ''decision_'' @ str_int (ps_decision_counter s1), pd_artifact_id = ?a,
           pd_target_node_id = cd_node_id c, pd_target_location = cd_target c,
           pd_function_id = (if function_for (ps_registry s1) ?a = [] then None else Some (function_for (ps_registry s1) ?a)),
           pd_priority = int (length (gn_decisions g)), pd_value_density = cd_density c,
           pd_expected_value = compute_value (cd_artifact c) rate, pd_status = ''pending''\<rparr>],
        gn_container = (if cd_target c = To_gpu then gn_container g else AList.update (cd_node_id c) (?used + ?req) (gn_container g)),
        gn_gpu = (if cd_target c = To_gpu then AList.update (cd_node_id c) (?used + ?req) (gn_gpu g) else gn_gpu g),
        gn_placed = set_add (?a, cd_node_id c) (gn_placed g), gn_scheduler = s2\<rparr>"
      using fits by (simp add: place_candidate_def Let_def rate flip: s1_def)
    show ?thesis
    proof (rule that(2) [OF fits(2,1) _ _ _ _ _ plan, of "last (gn_decisions (place_candidate now g c))"])
      show "dict_get (gn_used g (cd_target c)) (cd_node_id c) 0 + ?req \<le> node_limit n (cd_target c)"
        using fits(3) by (cases "cd_target c") (simp_all add: gn_used_def node_limit_def not_less)
      show "dict_get (gn_used (place_candidate now g c) t) k 0 =
          dict_get (gn_used g t) k 0 + (if t = cd_target c \<and> k = cd_node_id c then ?req else 0)" for t k
        unfolding res by (cases t; cases "cd_target c") (auto simp: gn_used_def)
    qed (simp_all add: res)
  qed
qed

lemma place_candidate_ok:
  assumes ok: "generation_ok s nodes ranked g" and c: "c \<in> set ranked"
    and art: "get_artifact (ps_registry s) (art_id (cd_artifact c)) = Some (cd_artifact c)"
    and nodes: "\<forall>n \<in> set nodes. get_cluster_node (ps_registry s) (cn_node_id n) = Some n"
  shows "generation_ok s nodes ranked (place_candidate now g c)"
proof (cases rule: place_candidate_cases [of now g c])
  case 1
  then show ?thesis using ok by simp
next
  case (2 n d s2)
  have plan: "same_plan s (gn_scheduler g)" using ok by (simp add: generation_ok_def)
  have same_n: "m = n" if "m \<in> set nodes" "cn_node_id m = cd_node_id c" for m
    using 2(1) nodes that plan by (auto simp: same_plan_def get_cluster_node_def)
  have size: "(case get_artifact (ps_registry s) (pd_artifact_id d) of None \<Rightarrow> 0 | Some art \<Rightarrow> get_effective_size art l) =
      get_effective_size (cd_artifact c) l" for l
    using art by (simp add: 2(3))
  show ?thesis
    unfolding generation_ok_def 2(10,11,12,13)
  proof (intro conjI ballI allI impI)
    show "same_plan s s2" using plan 2(8) by (rule same_plan_trans)
  next
    fix m t assume m: "m \<in> set nodes"
    show "dict_get (gn_used g t) (cn_node_id m) 0 +
        (if t = cd_target c \<and> cn_node_id m = cd_node_id c then get_effective_size (cd_artifact c) (target_location (cd_target c)) else 0) =
        node_used (ps_registry s) m t + planned_mb (ps_registry s) (gn_decisions g @ [d]) (cn_node_id m) t"
      using generation_okD(1) [OF ok m, of t] by (auto simp: planned_append size 2(4,5))
    fix d' assume "d' \<in> set (gn_decisions g @ [d])" "pd_target_node_id d' = cn_node_id m" "pd_target_location d' = t"
    then show "dict_get (gn_used g t) (cn_node_id m) 0 +
        (if t = cd_target c \<and> cn_node_id m = cd_node_id c then get_effective_size (cd_artifact c) (target_location (cd_target c)) else 0)
        \<le> node_limit m t"
      using generation_okD(2) [OF ok m, of _ t] 2(4,5,9) same_n [OF m] by auto
  next
    show "insert (art_id (cd_artifact c), cd_node_id c) (set (gn_placed g)) =
        (\<lambda>d. (pd_artifact_id d, pd_target_node_id d)) ` set (gn_decisions g @ [d])"
      using ok by (simp add: generation_ok_def 2(3,4))
    show "distinct (map (\<lambda>d. (pd_artifact_id d, pd_target_node_id d)) (gn_decisions g @ [d]))"
      using ok 2(2) by (auto simp: generation_ok_def 2(3,4))
    show "map pd_priority (gn_decisions g @ [d]) = map int [0..<length (gn_decisions g @ [d])]"
      using ok by (simp add: generation_ok_def 2(7))
  next
    fix d' assume "d' \<in> set (gn_decisions g @ [d])"
    then show "\<exists>c \<in> set ranked. pd_artifact_id d' = art_id (cd_artifact c) \<and> pd_target_node_id d' = cd_node_id c \<and>
        pd_target_location d' = cd_target c \<and> pd_value_density d' = cd_density c"
      using ok c 2(3-6) by (auto simp: generation_ok_def)
  qed
qed

lemma start_generation_ok:
  assumes "distinct (map cn_node_id nodes)"
  shows "generation_ok s nodes ranked (start_generation s nodes)"
proof -
  have "dict_get (gn_used (start_generation s nodes) t) (cn_node_id n) 0 = node_used (ps_registry s) n t" if "n \<in> set nodes" for n t
    using find_node [OF assms that]
    by (cases t) (simp_all add: gn_used_def start_generation_def Let_def node_used_def dict_get_def foldl_update_node)
  then show ?thesis
    by (simp add: generation_ok_def planned_mb_def) (simp add: start_generation_def Let_def)
qed

lemma generate_decisions_ok:
  assumes "distinct (map cn_node_id nodes)" "\<forall>n \<in> set nodes. get_cluster_node (ps_registry s) (cn_node_id n) = Some n"
    and "\<forall>c \<in> set ranked. get_artifact (ps_registry s) (art_id (cd_artifact c)) = Some (cd_artifact c)"
  shows "generation_ok s nodes ranked (generate_decisions now s ranked nodes)"
proof -
  have "generation_ok s nodes ranked (foldl (place_candidate now) g cs)"
    if "generation_ok s nodes ranked g" "set cs \<subseteq> set ranked" for g cs
    using that assms(2,3) by (induction cs arbitrary: g) (auto intro: place_candidate_ok)
  then show ?thesis
    unfolding generate_decisions_def using start_generation_ok [OF assms(1)] by blast
qed

text \<open>The order of the ranking is the order of the decisions.\<close>

lemma place_candidate_density:
  "map pd_value_density (gn_decisions (place_candidate now g c)) \<in>
     {map pd_value_density (gn_decisions g), map pd_value_density (gn_decisions g) @ [cd_density c]}"
  by (cases rule: place_candidate_cases [of now g c]) auto

lemma place_candidates_densities:
  assumes "sorted_wrt (\<lambda>a b. cd_density b \<le> cd_density a) cs"
  shows "\<exists>ds. map pd_value_density (gn_decisions (foldl (place_candidate now) g cs)) = map pd_value_density (gn_decisions g) @ ds \<and>
    sorted_wrt (\<lambda>a b. b \<le> a) ds \<and> set ds \<subseteq> cd_density ` set cs"
  using assms
proof (induction cs arbitrary: g)
  case (Cons c cs)
  obtain ds where ds: "map pd_value_density (gn_decisions (foldl (place_candidate now) (place_candidate now g c) cs)) =
      map pd_value_density (gn_decisions (place_candidate now g c)) @ ds"
    "sorted_wrt (\<lambda>a b. b \<le> a) ds" "set ds \<subseteq> cd_density ` set cs"
    using Cons by fastforce
  then show ?case
    using place_candidate_density [of now g c] Cons.prems
    by (elim insertE emptyE) (force intro: exI [of _ ds], auto intro!: exI [of _ "cd_density c # ds"])
qed simp

lemma ranking_sound:
  assumes "c \<in> set (compute_greedy_ranking s artifacts rates nodes)"
  shows "cd_artifact c \<in> set artifacts" "\<exists>n \<in> set nodes. cd_node_id c = cn_node_id n \<and> admissible s (cd_artifact c) (cd_target c) n"
    "1 / 1000 \<le> dict_get rates (art_id (cd_artifact c)) 0" "Finite (ps_threshold s) \<le> cd_density c"
  using assms
  by (auto simp: compute_greedy_ranking_def artifact_candidates_def Let_def split: if_splits)

lemma registry_okD:
  assumes "registry_ok r"
  shows "art \<in> set (get_all_artifacts r) \<Longrightarrow> get_artifact r (art_id art) = Some art"
    and "n \<in> set (get_healthy_nodes now r) \<Longrightarrow> get_cluster_node r (cn_node_id n) = Some n"
    and "distinct (map cn_node_id (get_healthy_nodes now r))"
proof -
  have keys: "map cn_node_id (dict_values (ag_nodes r)) = dict_keys (ag_nodes r)" and wf: "dict_wf (ag_artifacts r)" "dict_wf (ag_nodes r)"
    and ids: "\<And>k a. (k, a) \<in> set (ag_artifacts r) \<Longrightarrow> art_id a = k" "\<And>k n. (k, n) \<in> set (ag_nodes r) \<Longrightarrow> cn_node_id n = k"
    using assms by (auto simp: registry_ok_def list_all_iff)
  show "art \<in> set (get_all_artifacts r) \<Longrightarrow> get_artifact r (art_id art) = Some art"
    using wf(1) ids(1) by (fastforce simp: get_all_artifacts_def get_artifact_def map_of_eq_Some_iff)
  show "n \<in> set (get_healthy_nodes now r) \<Longrightarrow> get_cluster_node r (cn_node_id n) = Some n"
    using wf(2) ids(2) by (fastforce simp: get_healthy_nodes_def get_cluster_node_def map_of_eq_Some_iff)
  show "distinct (map cn_node_id (get_healthy_nodes now r))"
    using wf(2) unfolding keys [symmetric] get_healthy_nodes_def by (rule distinct_map_filter)
qed

lemma same_plan_ok: "same_plan s s' \<Longrightarrow> registry_ok (ps_registry s') = registry_ok (ps_registry s)"
  by (simp add: same_plan_def registry_ok_def)

text \<open>The decisions of a round.\<close>

lemma schedule_decisions:
  assumes ok: "registry_ok (ps_registry s)" and schedule: "compute_schedule now answers s = (ds, s')"
  defines "r \<equiv> ps_registry s" and "nodes \<equiv> get_healthy_nodes now (ps_registry s)"
  shows "n \<in> set nodes \<Longrightarrow> d \<in> set ds \<Longrightarrow> pd_target_node_id d = cn_node_id n \<Longrightarrow>
      node_used r n (pd_target_location d) + planned_mb r ds (cn_node_id n) (pd_target_location d) \<le> node_limit n (pd_target_location d)"
    and "distinct (map (\<lambda>d. (pd_artifact_id d, pd_target_node_id d)) ds)"
    and "map pd_priority ds = map int [0..<length ds]" "sorted_wrt (\<lambda>a b. b \<le> a) (map pd_value_density ds)"
    and "d \<in> set ds \<Longrightarrow> \<exists>art n. get_artifact r (pd_artifact_id d) = Some art \<and> n \<in> set nodes \<and> pd_target_node_id d = cn_node_id n \<and>
      admissible s art (pd_target_location d) n"
proof -
  define s0 where "s0 = s\<lparr>ps_total_schedules := ps_total_schedules s + 1\<rparr>"
  have s0: "same_plan s s0" "ps_registry s0 = ps_registry s" by (simp_all add: s0_def same_plan_def)
  obtain rates s1 where rates: "compute_artifact_rates now (get_all_functions r) (get_all_artifacts r) s0 = (rates, s1)" by fastforce
  have plan: "same_plan s s1"
    using rates s0(1) unfolding compute_artifact_rates_def by (blast dest: add_function_rates_plan intro: same_plan_trans)
  define ranked where "ranked = compute_greedy_ranking s1 (get_all_artifacts r) rates nodes"
  define g where "g = (if nodes = [] then \<lparr>gn_decisions = [], gn_container = [], gn_gpu = [], gn_placed = [], gn_scheduler = s1\<rparr>
    else generate_decisions now s1 ranked nodes)"
  have ds: "ds = gn_decisions g"
    using schedule rates
    by (auto simp: compute_schedule_def Let_def r_def nodes_def g_def ranked_def s0(2) split: if_splits prod.splits simp flip: s0_def)
  have ok1: "registry_ok (ps_registry s1)" using same_plan_ok [OF plan] ok by simp
  have same: "get_artifact (ps_registry s1) = get_artifact r" "get_cluster_node (ps_registry s1) = get_cluster_node r"
    "get_all_artifacts (ps_registry s1) = get_all_artifacts r" "planned_mb (ps_registry s1) = planned_mb r"
    using plan by (auto simp: same_plan_def r_def get_artifact_def get_cluster_node_def get_all_artifacts_def planned_mb_def fun_eq_iff)
  have used: "node_used (ps_registry s1) n t = node_used r n t" for n t
    unfolding node_used_def same(3) same_plan_estimate [OF plan] r_def ..
  have lookups: "\<forall>n \<in> set nodes. get_cluster_node (ps_registry s1) (cn_node_id n) = Some n"
    "\<forall>c \<in> set ranked. get_artifact (ps_registry s1) (art_id (cd_artifact c)) = Some (cd_artifact c)"
    "distinct (map cn_node_id nodes)"
    using registry_okD [OF ok] ranking_sound(1) by (auto simp: same r_def nodes_def ranked_def)
  have gen: "generation_ok s1 nodes ranked g"
  proof (cases "nodes = []")
    case False
    then show ?thesis using generate_decisions_ok [OF lookups(3,1,2)] by (simp add: g_def)
  qed (simp add: g_def generation_ok_def)
  show "n \<in> set nodes \<Longrightarrow> d \<in> set ds \<Longrightarrow> pd_target_node_id d = cn_node_id n \<Longrightarrow>
      node_used r n (pd_target_location d) + planned_mb r ds (cn_node_id n) (pd_target_location d) \<le> node_limit n (pd_target_location d)"
    using generation_okD(1) [OF gen, of n "pd_target_location d"] generation_okD(2) [OF gen, of n d "pd_target_location d"]
    by (simp add: ds same used)
  show "distinct (map (\<lambda>d. (pd_artifact_id d, pd_target_node_id d)) ds)" "map pd_priority ds = map int [0..<length ds]"
    using gen by (simp_all add: ds generation_ok_def)
  show "sorted_wrt (\<lambda>a b. b \<le> a) (map pd_value_density ds)"
  proof (cases "nodes = []")
    case False
    have "sorted_wrt (\<lambda>a b. cd_density b \<le> cd_density a) ranked"
      unfolding ranked_def compute_greedy_ranking_def by (rule sorted_sort_desc)
    from place_candidates_densities [OF this, of now "start_generation s1 nodes"] False show ?thesis
      by (auto simp: ds g_def generate_decisions_def start_generation_def Let_def)
  qed (simp add: ds g_def)
  show "\<exists>art n. get_artifact r (pd_artifact_id d) = Some art \<and> n \<in> set nodes \<and> pd_target_node_id d = cn_node_id n \<and>
      admissible s art (pd_target_location d) n" if d: "d \<in> set ds"
  proof -
    obtain c where c: "c \<in> set ranked" "pd_artifact_id d = art_id (cd_artifact c)" "pd_target_node_id d = cd_node_id c"
      "pd_target_location d = cd_target c"
      using gen d unfolding generation_ok_def ds by blast
    obtain n where n: "n \<in> set nodes" "cd_node_id c = cn_node_id n" "admissible s1 (cd_artifact c) (cd_target c) n"
      using ranking_sound(2) [OF c(1) [unfolded ranked_def]] by blast
    have "get_artifact r (pd_artifact_id d) = Some (cd_artifact c)" using lookups(2) c by (simp add: same)
    with n c same_plan_admissible [OF plan] show ?thesis by auto
  qed
qed

end
