(* ===== verification/Rebalance_Facts.thy ===== *)
theory Rebalance_Facts
  imports Preload_Facts
begin

text \<open>
  What rebalancing keeps to: donors are idle, rested and distinct, and no function loses its last
  container on a node.
\<close>

section \<open>The containers of the functions of a node\<close>

lemma function_containers_get:
  "dict_get (function_containers n) fid [] = (if fid = [] then [] else filter (\<lambda>c. ct_function_id c = fid) (dict_values (cn_containers n)))"
proof -
  have "dict_get (foldl add_container [] cs) fid [] = (if fid = [] then [] else filter (\<lambda>c. ct_function_id c = fid) cs)" for cs
    by (induction cs rule: rev_induct) (auto simp: add_container_def)
  then show ?thesis by (simp add: function_containers_def)
qed

section \<open>Pairing\<close>

text \<open>The containers of different functions have different ids.\<close>

definition conts_ok :: "(string \<Rightarrow> container list) \<Rightarrow> bool" where
  "conts_ok conts \<longleftrightarrow>
     (\<forall>fid. distinct (map ct_container_id (conts fid))) \<and>
     (\<forall>fid fid'. fid \<noteq> fid' \<longrightarrow> ct_container_id ` set (conts fid) \<inter> ct_container_id ` set (conts fid') = {})"

text \<open>A candidate: an idle, rested container of a function with at most half the rate of the starving one.\<close>

definition swap_ok ::
  "pyfloat \<Rightarrow> string \<Rightarrow> artifact_registry \<Rightarrow> (string \<Rightarrow> pyfloat) \<Rightarrow> (string \<Rightarrow> container list) \<Rightarrow> (string, pyfloat) dict \<Rightarrow> swap_candidate \<Rightarrow> bool" where
  "swap_ok now node_id r rates conts lsw sw \<longleftrightarrow>
     sw_node_id sw = node_id \<and> ct_pending_requests (sw_donor sw) \<le> 0 \<and>
     30 \<le> now - dict_get lsw (ct_container_id (sw_donor sw)) 0 \<and>
     (\<exists>fid donor. sw_donor sw \<in> set (conts donor) \<and> rates donor * 2 \<le> rates fid \<and>
        Option.bind (get_function r fid) (adapter_of r) = Some (sw_artifact sw))"

definition donor_id :: "swap_candidate \<Rightarrow> string" where
  "donor_id sw = ct_container_id (sw_donor sw)"

definition pairing_ok ::
  "pyfloat \<Rightarrow> string \<Rightarrow> artifact_registry \<Rightarrow> (string \<Rightarrow> pyfloat) \<Rightarrow> (string \<Rightarrow> container list) \<Rightarrow> (string, pyfloat) dict \<Rightarrow> pairing \<Rightarrow> bool" where
  "pairing_ok now node_id r rates conts lsw g \<longleftrightarrow>
     set (pg_donors g) = donor_id ` set (pg_candidates g) \<and> distinct (map donor_id (pg_candidates g)) \<and>
     (\<forall>sw \<in> set (pg_candidates g). swap_ok now node_id r rates conts lsw sw) \<and>
     (\<forall>cid. cid \<notin> set (pg_donors g) \<longrightarrow> dict_get (pg_last_swap g) cid 0 = dict_get lsw cid 0) \<and>
     (\<forall>fid. conts fid \<noteq> [] \<longrightarrow> 1 \<le> remaining_count (conts fid) g)"

lemma remaining_take:
  assumes "conts_ok conts" "c \<in> set (conts donor)" "ct_container_id c \<notin> set (pg_donors g)" "sw_donor sw = c"
  shows "remaining_count (conts fid) (take_donor now sw g) =
    (if fid = donor then remaining_count (conts fid) g - 1 else remaining_count (conts fid) g)"
proof -
  let ?new = "\<lambda>x. ct_container_id x \<in> insert (ct_container_id c) (set (pg_donors g))"
  let ?old = "\<lambda>x. ct_container_id x \<in> set (pg_donors g)"
  have "length (filter ?new xs) = (if c \<in> set xs then 1 else 0) + length (filter ?old xs)"
    if "distinct (map ct_container_id xs)" "ct_container_id c \<in> ct_container_id ` set xs \<longrightarrow> c \<in> set xs" for xs
    using that
  proof (induction xs)
    case (Cons x xs)
    show ?case
    proof (cases "x = c")
      case True
      with Cons.prems have "ct_container_id c \<notin> ct_container_id ` set xs" by simp
      then have other: "ct_container_id y \<noteq> ct_container_id c" if "y \<in> set xs" for y using that by (metis image_eqI)
      then have "filter ?new xs = filter ?old xs" by (intro filter_cong) auto
      moreover have "c \<notin> set xs" using other by blast
      ultimately have "filter ?new xs = filter ?old xs" "c \<notin> set xs" .
      with True assms(3) show ?thesis by simp
    next
      case False
      with Cons.prems have "ct_container_id c \<in> ct_container_id ` set xs \<longrightarrow> c \<in> set xs" "c \<in> set xs \<or> ct_container_id x \<noteq> ct_container_id c"
        by auto
      moreover from this(2) Cons.prems(1) have "ct_container_id x \<noteq> ct_container_id c" by force
      ultimately show ?thesis using Cons False by auto
    qed
  qed simp
  moreover have "distinct (map ct_container_id (conts fid))" using assms(1) by (simp add: conts_ok_def)
  moreover have mem: "ct_container_id c \<in> ct_container_id ` set (conts fid) \<longrightarrow> fid = donor" "c \<in> set (conts fid) \<longleftrightarrow> fid = donor"
    using assms(1,2) unfolding conts_ok_def by blast+
  ultimately have "length (filter ?new (conts fid)) = (if fid = donor then 1 else 0) + length (filter ?old (conts fid))"
    by simp
  then show ?thesis by (simp add: remaining_count_def take_donor_def assms(4))
qed

lemma take_donor_ok:
  assumes ok: "pairing_ok now node_id r rates conts lsw g" and conts: "conts_ok conts" and c: "sw_donor sw \<in> set (conts donor)"
    and fresh: "ct_container_id (sw_donor sw) \<notin> set (pg_donors g)" and left: "1 < remaining_count (conts donor) g"
    and sw: "swap_ok now node_id r rates conts lsw sw"
  shows "pairing_ok now node_id r rates conts lsw (take_donor now sw g)"
proof -
  have "1 \<le> remaining_count (conts fid) (take_donor now sw g)" if "conts fid \<noteq> []" for fid
    using remaining_take [OF conts c fresh refl, of fid now] ok left that by (simp add: pairing_ok_def)
  then show ?thesis
    using ok sw fresh unfolding pairing_ok_def by (auto simp: take_donor_def donor_id_def)
qed

lemma donate_ok:
  assumes "pairing_ok now node_id r rates conts lsw g" "conts_ok conts" "set cs \<subseteq> set (conts donor)"
    and "rates donor * 2 \<le> rates fid" "Option.bind (get_function r fid) (adapter_of r) = Some art"
    and "donate now node_id art rd (conts donor) cs (deficit, surplus, g) = (deficit', surplus', g')"
  shows "pairing_ok now node_id r rates conts lsw g'"
  using assms
proof (induction cs arbitrary: deficit surplus g)
  case (Cons c cs)
  let ?sw = "\<lparr>sw_artifact = art, sw_node_id = node_id, sw_density = rd * art_loading_delay_ms art / max (art_size_mb art) 1, sw_donor = c\<rparr>"
  let ?next = "\<lambda>d s g. donate now node_id art rd (conts donor) cs (d, s, g) = (deficit', surplus', g')"
  have IH: "pairing_ok now node_id r rates conts lsw g'" if "pairing_ok now node_id r rates conts lsw g1" "?next d s g1" for d s g1
    using Cons.IH [OF that(1) Cons.prems(2) _ Cons.prems(4,5) that(2)] Cons.prems(3) by simp
  consider "g' = g" | "?next deficit surplus g"
    | "ct_container_id c \<notin> set (pg_donors g)" "1 < remaining_count (conts donor) g" "ct_pending_requests c \<le> 0"
      "30 \<le> now - dict_get (pg_last_swap g) (ct_container_id c) 0"
      "g' = take_donor now ?sw g \<or> ?next (deficit - 1) (surplus - 1) (take_donor now ?sw g)"
    using Cons.prems(6) by (auto simp: Let_def rebalance_min_containers_def not_less not_le split: if_splits)
  then show ?case
  proof cases
    case 3
    have "dict_get lsw (ct_container_id c) 0 = dict_get (pg_last_swap g) (ct_container_id c) 0"
      using Cons.prems(1) 3(1) by (simp add: pairing_ok_def)
    with 3 Cons.prems(3-5) have "swap_ok now node_id r rates conts lsw ?sw" unfolding swap_ok_def by auto
    with 3 Cons.prems have "pairing_ok now node_id r rates conts lsw (take_donor now ?sw g)"
      by (intro take_donor_ok [where donor = donor]) simp_all
    with 3(5) IH show ?thesis by blast
  qed (use Cons.prems(1) IH in blast)+
qed simp

lemma pair_overstocked_ok:
  assumes "pairing_ok now node_id r rates conts lsw g" "conts_ok conts"
    and "Option.bind (get_function r fid) (adapter_of r) = Some art"
    and "pair_overstocked now node_id art rates conts (rates fid) ovs deficit g = (ovs', g')"
  shows "pairing_ok now node_id r rates conts lsw g'"
  using assms
proof (induction ovs arbitrary: deficit g ovs')
  case (Cons ov ovs)
  obtain donor surplus where ov: "ov = (donor, surplus)" by fastforce
  obtain d1 s1 g1 where don: "donate now node_id art (rates fid - rates donor) (conts donor) (conts donor) (deficit, surplus, g) = (d1, s1, g1)"
    by (metis prod_cases3)
  show ?case
  proof (cases "deficit \<le> 0")
    case True
    then show ?thesis using Cons.prems(1,4) by (simp add: ov)
  next
    case False
    show ?thesis
    proof (cases "surplus \<le> 0 \<or> rates fid < rates donor * 2 \<or> rates fid - rates donor < 5 / 100")
      case True
      then obtain o1 where "pair_overstocked now node_id art rates conts (rates fid) ovs deficit g = (o1, g')"
        using Cons.prems(4) False by (auto simp: ov apfst_def map_prod_def split: prod.splits)
      from Cons.IH [OF Cons.prems(1-3) this] show ?thesis .
    next
      case far: False
      then obtain o1 where o1: "pair_overstocked now node_id art rates conts (rates fid) ovs d1 g1 = (o1, g')"
        using Cons.prems(4) False by (auto simp: ov don apfst_def map_prod_def split: prod.splits)
      have "pairing_ok now node_id r rates conts lsw g1"
        using donate_ok [OF Cons.prems(1,2) subset_refl _ Cons.prems(3) don] far by simp
      from Cons.IH [OF this Cons.prems(2,3) o1] show ?thesis .
    qed
  qed
qed simp

lemma pair_starving_ok:
  assumes "pairing_ok now node_id r rates conts lsw g" "conts_ok conts"
  shows "pairing_ok now node_id r rates conts lsw (pair_starving now node_id r rates conts sts ovs g)"
  using assms
  by (induction sts arbitrary: ovs g) (auto split: option.splits prod.splits, metis pair_overstocked_ok)

section \<open>The candidates of a round\<close>

text \<open>Containers are stored under their ids, in one node each.\<close>

definition containers_ok :: "artifact_registry \<Rightarrow> bool" where
  "containers_ok r \<longleftrightarrow>
     dict_wf (ag_nodes r) \<and> distinct (concat (map (\<lambda>n. dict_keys (cn_containers n)) (dict_values (ag_nodes r)))) \<and>
     list_all (\<lambda>n. list_all (\<lambda>(k, c). ct_container_id c = k) (cn_containers n)) (dict_values (ag_nodes r))"

lemma containers_okD:
  assumes "containers_ok r" "n \<in> set (dict_values (ag_nodes r))"
  shows "dict_wf (cn_containers n)" "map ct_container_id (dict_values (cn_containers n)) = dict_keys (cn_containers n)"
proof -
  have "dict_keys (cn_containers n) \<in> set (map (\<lambda>n. dict_keys (cn_containers n)) (dict_values (ag_nodes r)))"
    using assms(2) by auto
  then show "dict_wf (cn_containers n)" using assms(1) unfolding containers_ok_def distinct_concat_iff by blast
  have "\<forall>x \<in> set (cn_containers n). ct_container_id (snd x) = fst x"
    using assms by (fastforce simp: containers_ok_def list_all_iff)
  then show "map ct_container_id (dict_values (cn_containers n)) = dict_keys (cn_containers n)" by simp
qed

lemma concat_disjoint:
  "distinct (concat (map f d)) \<Longrightarrow> x \<in> set d \<Longrightarrow> y \<in> set d \<Longrightarrow> i \<in> set (f x) \<Longrightarrow> i \<in> set (f y) \<Longrightarrow> x = y"
  by (induction d) auto

lemma containers_disjoint:
  assumes "containers_ok r" "(k, n) \<in> set (ag_nodes r)" "(k', n') \<in> set (ag_nodes r)"
    and "i \<in> set (dict_keys (cn_containers n))" "i \<in> set (dict_keys (cn_containers n'))"
  shows "(k, n) = (k', n')"
  by (rule concat_disjoint [of "\<lambda>(k, n). dict_keys (cn_containers n)" "ag_nodes r"])
    (use assms in \<open>simp_all add: containers_ok_def comp_def case_prod_unfold\<close>)

lemma node_conts_ok:
  assumes "dict_wf (cn_containers n)" "map ct_container_id (dict_values (cn_containers n)) = dict_keys (cn_containers n)"
  shows "conts_ok (\<lambda>fid. dict_get (function_containers n) fid [])"
proof -
  have distinct: "distinct (map ct_container_id (dict_values (cn_containers n)))" unfolding assms(2) by (rule assms(1))
  then have inj: "inj_on ct_container_id (set (dict_values (cn_containers n)))"
    by (rule distinct_map [THEN iffD1, THEN conjunct2])
  have "ct_container_id ` set (filter (\<lambda>c. ct_function_id c = f) (dict_values (cn_containers n))) \<inter>
      ct_container_id ` set (filter (\<lambda>c. ct_function_id c = f') (dict_values (cn_containers n))) = {}" if "f \<noteq> f'" for f f'
    using inj_onD [OF inj] that by fastforce
  then show ?thesis
    unfolding conts_ok_def function_containers_get using distinct_map_filter [OF distinct] by simp
qed

text \<open>What the candidates of one node leave to every function of the node.\<close>

definition leaves_one :: "cluster_node \<Rightarrow> swap_candidate list \<Rightarrow> bool" where
  "leaves_one n cands \<longleftrightarrow>
     (\<forall>fid. fid \<noteq> [] \<longrightarrow> fid \<in> ct_function_id ` set (dict_values (cn_containers n)) \<longrightarrow>
        (\<exists>c \<in> set (dict_values (cn_containers n)). ct_function_id c = fid \<and> ct_container_id c \<notin> donor_id ` set cands))"

lemma pairing_leaves_one:
  assumes "pairing_ok now node_id r rates (\<lambda>fid. dict_get (function_containers n) fid []) lsw g"
  shows "leaves_one n (pg_candidates g)"
  unfolding leaves_one_def
proof (intro allI impI)
  fix fid assume fid: "fid \<noteq> []" "fid \<in> ct_function_id ` set (dict_values (cn_containers n))"
  let ?cs = "filter (\<lambda>c. ct_function_id c = fid) (dict_values (cn_containers n))"
  have cs: "dict_get (function_containers n) fid [] = ?cs" using fid(1) by (simp add: function_containers_get)
  have "?cs \<noteq> []" using fid(2) by (auto simp: filter_empty_conv)
  then have "1 \<le> remaining_count ?cs g" using assms unfolding pairing_ok_def by (metis cs)
  then have "filter (\<lambda>c. ct_container_id c \<in> set (pg_donors g)) ?cs \<noteq> ?cs"
    unfolding remaining_count_def by (metis diff_self not_one_le_zero)
  then obtain c where "c \<in> set ?cs" "ct_container_id c \<notin> set (pg_donors g)" by (auto simp: filter_id_conv simp del: filter_filter)
  moreover have "set (pg_donors g) = donor_id ` set (pg_candidates g)" using assms by (simp add: pairing_ok_def)
  ultimately show "\<exists>c \<in> set (dict_values (cn_containers n)). ct_function_id c = fid \<and> ct_container_id c \<notin> donor_id ` set (pg_candidates g)"
    by auto
qed

text \<open>The cap on swaps of a node only ends the loop over one function's containers.\<close>

lemma swap_cap_exceeded:
  "pg_swaps (snd (pair_overstocked 100 ''n'' (art :: artifact) (\<lambda>_. 0)
     (\<lambda>fid. map (\<lambda>i. \<lparr>ct_container_id = i @ fid, ct_function_id = fid, ct_node_id = ''n'', ct_status = ''ready'', ct_last_request_time = 0,
        ct_keep_alive_ms = 0, ct_loaded_artifacts = [], ct_gpu_loaded_artifacts = [], ct_pending_requests = 0, ct_lora_id = None\<rparr>)
        [''1'', ''2'', ''3'']) 1 [(''f'', 2), (''g'', 2)] 4
     \<lparr>pg_candidates = [], pg_donors = [], pg_last_swap = [], pg_swaps = 0\<rparr>)) = 3 \<and> rebalance_max_swaps = 2"
  by (simp add: Let_def remaining_count_def rebalance_min_containers_def rebalance_max_swaps_def take_donor_def set_add_def)
text \<open>The invariant of the loop over the nodes: the candidates so far against the state of the round's start.\<close>

definition rested_donor :: "pyfloat \<Rightarrow> preload_scheduler \<Rightarrow> cluster_node list \<Rightarrow> swap_candidate \<Rightarrow> bool" where
  "rested_donor now s nodes sw \<longleftrightarrow>
     ct_pending_requests (sw_donor sw) \<le> 0 \<and> 30 \<le> now - dict_get (ps_last_swap_time s) (donor_id sw) 0 \<and>
     (\<exists>n \<in> set nodes. sw_node_id sw = cn_node_id n \<and> sw_donor sw \<in> set (dict_values (cn_containers n)))"

definition rebalance_ok :: "pyfloat \<Rightarrow> preload_scheduler \<Rightarrow> cluster_node list \<Rightarrow> swap_candidate list \<times> preload_scheduler \<Rightarrow> bool" where
  "rebalance_ok now s nodes css \<longleftrightarrow>
     ag_nodes (ps_registry (snd css)) = ag_nodes (ps_registry s) \<and>
     (\<forall>sw \<in> set (fst css). rested_donor now s nodes sw) \<and> distinct (map donor_id (fst css)) \<and>
     (\<forall>cid. cid \<notin> donor_id ` set (fst css) \<longrightarrow> dict_get (ps_last_swap_time (snd css)) cid 0 = dict_get (ps_last_swap_time s) cid 0) \<and>
     (\<forall>n \<in> set nodes. leaves_one n (fst css))"

text \<open>What one node adds.\<close>

lemma rebalance_node_cases:
  obtains s1 where "same_plan s s1" "rebalance_node now n (cands, s) = (cands, s1)"
  | s1 s2 rates sts ovs g where "same_plan s s1" "rebalance_node now n (cands, s) = (cands @ pg_candidates g, s2)"
      "s2 = s1\<lparr>ps_last_swap_time := pg_last_swap g\<rparr>"
      "g = pair_starving now (cn_node_id n) (ps_registry s1) rates (\<lambda>fid. dict_get (function_containers n) fid []) sts ovs
         \<lparr>pg_candidates = [], pg_donors = [], pg_last_swap = ps_last_swap_time s, pg_swaps = 0\<rparr>"
proof (cases "function_containers n = []")
  case True
  then show thesis using that(1) [of s] by (simp add: rebalance_node_def)
next
  case False
  obtain rates s1 where rates: "function_rates now (dict_keys (function_containers n)) s = (rates, s1)" by fastforce
  have plan: "same_plan s s1" using rates by (rule function_rates_plan)
  then have swap: "ps_last_swap_time s1 = ps_last_swap_time s" by (simp add: same_plan_def)
  let ?g = "\<lambda>rates sts ovs. pair_starving now (cn_node_id n) (ps_registry s1) rates (\<lambda>fid. dict_get (function_containers n) fid []) sts ovs
    \<lparr>pg_candidates = [], pg_donors = [], pg_last_swap = ps_last_swap_time s, pg_swaps = 0\<rparr>"
  have "rebalance_node now n (cands, s) = (cands, s1) \<or>
      (\<exists>rates sts ovs. rebalance_node now n (cands, s) =
         (cands @ pg_candidates (?g rates sts ovs), s1\<lparr>ps_last_swap_time := pg_last_swap (?g rates sts ovs)\<rparr>))"
    by (simp add: rebalance_node_def Let_def rates False swap) blast
  with that plan show thesis by blast
qed

lemma leaves_one_mono:
  assumes one: "leaves_one n cands" and sub: "\<And>c. c \<in> set (dict_values (cn_containers n)) \<Longrightarrow>
      ct_container_id c \<in> donor_id ` set cands' \<Longrightarrow> ct_container_id c \<in> donor_id ` set cands"
  shows "leaves_one n cands'"
  unfolding leaves_one_def
proof (intro allI impI)
  fix fid assume "fid \<noteq> []" "fid \<in> ct_function_id ` set (dict_values (cn_containers n))"
  with one obtain c where c: "c \<in> set (dict_values (cn_containers n))" "ct_function_id c = fid" "ct_container_id c \<notin> donor_id ` set cands"
    unfolding leaves_one_def by meson
  with sub [OF c(1)]
  show "\<exists>c \<in> set (dict_values (cn_containers n)). ct_function_id c = fid \<and> ct_container_id c \<notin> donor_id ` set cands'"
    by (intro bexI [OF _ c(1)] conjI) auto
qed

lemma rebalance_okD:
  assumes "rebalance_ok now s ns css"
  shows "ag_nodes (ps_registry (snd css)) = ag_nodes (ps_registry s)" "sw \<in> set (fst css) \<Longrightarrow> rested_donor now s ns sw"
    "distinct (map donor_id (fst css))"
    "cid \<notin> donor_id ` set (fst css) \<Longrightarrow> dict_get (ps_last_swap_time (snd css)) cid 0 = dict_get (ps_last_swap_time s) cid 0"
    "n \<in> set ns \<Longrightarrow> leaves_one n (fst css)"
  using assms unfolding rebalance_ok_def by blast+

lemma pairing_okD:
  assumes "pairing_ok now node_id r rates conts lsw g"
  shows "set (pg_donors g) = donor_id ` set (pg_candidates g)" "distinct (map donor_id (pg_candidates g))"
    "sw \<in> set (pg_candidates g) \<Longrightarrow> swap_ok now node_id r rates conts lsw sw"
    "cid \<notin> set (pg_donors g) \<Longrightarrow> dict_get (pg_last_swap g) cid 0 = dict_get lsw cid 0"
  using assms unfolding pairing_ok_def by blast+

definition node_ids_ok :: "cluster_node \<Rightarrow> bool" where
  "node_ids_ok n \<longleftrightarrow>
     dict_wf (cn_containers n) \<and> map ct_container_id (dict_values (cn_containers n)) = dict_keys (cn_containers n)"

definition apart :: "cluster_node list \<Rightarrow> cluster_node \<Rightarrow> bool" where
  "apart ns n \<longleftrightarrow>
     (\<forall>m \<in> set ns. ct_container_id ` set (dict_values (cn_containers m)) \<inter> ct_container_id ` set (dict_values (cn_containers n)) = {})"

lemma node_pairing:
  assumes ids: "node_ids_ok n"
    and g: "g = pair_starving now (cn_node_id n) r rates (\<lambda>fid. dict_get (function_containers n) fid []) sts ovs
      \<lparr>pg_candidates = [], pg_donors = [], pg_last_swap = lsw, pg_swaps = 0\<rparr>"
  shows "pairing_ok now (cn_node_id n) r rates (\<lambda>fid. dict_get (function_containers n) fid []) lsw g"
    and "sw \<in> set (pg_candidates g) \<Longrightarrow> sw_donor sw \<in> set (dict_values (cn_containers n))"
proof -
  let ?conts = "\<lambda>fid. dict_get (function_containers n) fid []"
  have "conts_ok ?conts" using ids by (intro node_conts_ok) (simp_all only: node_ids_ok_def)
  moreover have "pairing_ok now (cn_node_id n) r rates ?conts lsw \<lparr>pg_candidates = [], pg_donors = [], pg_last_swap = lsw, pg_swaps = 0\<rparr>"
    by (simp add: pairing_ok_def remaining_count_def Suc_leI)
  ultimately show ok: "pairing_ok now (cn_node_id n) r rates ?conts lsw g"
    unfolding g by (intro pair_starving_ok)
  show "sw_donor sw \<in> set (dict_values (cn_containers n))" if sw: "sw \<in> set (pg_candidates g)"
  proof -
    obtain donor where "sw_donor sw \<in> set (?conts donor)" 
      using pairing_okD(3) [OF ok sw] unfolding swap_ok_def by (elim conjE exE)
    then show ?thesis by (simp add: function_containers_get split: if_splits)
  qed
qed

lemma rested_donor_mono: "rested_donor now s ns sw \<Longrightarrow> set ns \<subseteq> set ns' \<Longrightarrow> rested_donor now s ns' sw"
  unfolding rested_donor_def by blast

lemma rebalance_node_ok:
  assumes ok: "rebalance_ok now s ns (cands, s0)" and ids: "node_ids_ok n" and apart: "apart ns n"
  shows "rebalance_ok now s (ns @ [n]) (rebalance_node now n (cands, s0))"
proof -
  define ids where "ids m = ct_container_id ` set (dict_values (cn_containers m))" for m :: cluster_node
  note okD = rebalance_okD [OF ok, simplified]
  have idsI: "c \<in> set (dict_values (cn_containers m)) \<Longrightarrow> ct_container_id c \<in> ids m" for c m
    unfolding ids_def by (rule imageI)
  have disj: "x \<notin> ids n" if "x \<in> ids m" "m \<in> set ns" for x m
    using apart that unfolding apart_def ids_def by blast
  have old: "donor_id sw \<notin> ids n" if sw: "sw \<in> set cands" for sw
  proof -
    obtain m where "m \<in> set ns" "sw_donor sw \<in> set (dict_values (cn_containers m))"
      using okD(2) [OF sw] unfolding rested_donor_def by blast
    then show ?thesis using disj [OF idsI] by (simp add: donor_id_def)
  qed
  have leaves_n: "leaves_one n []" by (auto simp: leaves_one_def)
  have old_ok: "rested_donor now s (ns @ [n]) sw" if "sw \<in> set cands" for sw
    using okD(2) [OF that] by (rule rested_donor_mono) auto
  show ?thesis
  proof (cases rule: rebalance_node_cases [of s0 now n cands])
    case (1 s1)
    have "leaves_one n cands" using leaves_n by (rule leaves_one_mono) (use old idsI in \<open>metis imageE\<close>)
    then show ?thesis
      unfolding rebalance_ok_def 1(2) using okD old_ok 1(1) by (simp add: same_plan_def)
  next
    case (2 s1 s2 rates sts ovs g)
    note pairing = node_pairing [OF ids 2(4)]
    note pairD = pairing_okD [OF pairing(1)]
    have new_ids: "donor_id sw \<in> ids n" if "sw \<in> set (pg_candidates g)" for sw
      using idsI [OF pairing(2) [OF that]] by (simp add: donor_id_def)
    have fresh: "donor_id sw \<notin> donor_id ` set cands" if "sw \<in> set (pg_candidates g)" for sw
      using old new_ids [OF that] by (metis imageE)
    have new: "rested_donor now s (ns @ [n]) sw" if sw: "sw \<in> set (pg_candidates g)" for sw
      using pairD(3) [OF sw] pairing(2) [OF sw] okD(4) [OF fresh [OF sw]]
      by (simp add: rested_donor_def swap_ok_def donor_id_def)
    have distinct: "distinct (map donor_id (cands @ pg_candidates g))"
    proof -
      have "x \<notin> donor_id ` set cands" if x: "x \<in> donor_id ` set (pg_candidates g)" for x
        using x by (rule imageE) (simp add: fresh)
      then have "donor_id ` set cands \<inter> donor_id ` set (pg_candidates g) = {}" by (intro equals0I) (elim IntE, rule notE)
      with okD(3) pairD(2) show ?thesis by simp
    qed
    have leaves: "leaves_one m (cands @ pg_candidates g)" if "m \<in> set ns" for m
    proof -
      have "ct_container_id c \<notin> donor_id ` set (pg_candidates g)" if "c \<in> set (dict_values (cn_containers m))" for c
        using new_ids disj [OF idsI [OF that] \<open>m \<in> set ns\<close>] by (metis imageE)
      then show ?thesis
        using okD(5) [OF that] by (elim leaves_one_mono) (simp only: set_append image_Un, blast)
    qed
    have leaves': "leaves_one n (cands @ pg_candidates g)"
    proof -
      have "ct_container_id c \<notin> donor_id ` set cands" if "c \<in> set (dict_values (cn_containers n))" for c
        using old idsI [OF that] by (metis imageE)
      then show ?thesis
        using pairing_leaves_one [OF pairing(1)] by (elim leaves_one_mono) (simp only: set_append image_Un, blast)
    qed
    have rest: "dict_get (pg_last_swap g) cid 0 = dict_get (ps_last_swap_time s) cid 0"
      if "cid \<notin> donor_id ` set cands" "cid \<notin> donor_id ` set (pg_candidates g)" for cid
      using pairD(1,4) okD(4) [OF that(1)] that(2) by simp
    have nodes: "ag_nodes (ps_registry s1) = ag_nodes (ps_registry s)" using okD(1) 2(1) by (simp add: same_plan_def)
    show ?thesis
      unfolding rebalance_ok_def 2(2,3) using new old_ok distinct leaves leaves' rest nodes by (simp add: ball_Un image_Un)
  qed
qed

text \<open>All nodes of a round.\<close>

lemma rebalance_nodes_ok:
  assumes "\<forall>n \<in> set ns. node_ids_ok n" "sorted_wrt (\<lambda>m n. apart [m] n) ns"
  shows "rebalance_ok now s ns (foldl (\<lambda>css n. rebalance_node now n css) ([], s) ns)"
  using assms
proof (induction ns rule: rev_induct)
  case Nil
  then show ?case by (simp add: rebalance_ok_def)
next
  case (snoc n ns)
  have "rebalance_ok now s ns (foldl (\<lambda>css n. rebalance_node now n css) ([], s) ns)"
    using snoc by (simp add: sorted_wrt_append)
  moreover have "apart ns n" using snoc.prems(2) by (simp add: sorted_wrt_append apart_def)
  ultimately show ?case
    using snoc.prems(1) by (cases "foldl (\<lambda>css n. rebalance_node now n css) ([], s) ns") (simp add: rebalance_node_ok)
qed

lemma healthy_nodes_apart:
  assumes "containers_ok r"
  shows "\<forall>n \<in> set (get_healthy_nodes now r). node_ids_ok n" "sorted_wrt (\<lambda>m n. apart [m] n) (get_healthy_nodes now r)"
proof -
  show "\<forall>n \<in> set (get_healthy_nodes now r). node_ids_ok n"
    using containers_okD [OF assms] unfolding node_ids_ok_def get_healthy_nodes_def set_filter by blast
  have keys: "ct_container_id ` set (dict_values (cn_containers n)) = set (dict_keys (cn_containers n))"
    if "n \<in> set (dict_values (ag_nodes r))" for n
    using arg_cong [OF containers_okD(2) [OF assms that], of set] by (simp add: image_image)
  have "distinct (concat (map (\<lambda>n. dict_keys (cn_containers n)) ns)) \<Longrightarrow> set ns \<subseteq> set (dict_values (ag_nodes r)) \<Longrightarrow>
      sorted_wrt (\<lambda>m n. apart [m] n) ns" for ns
  proof (induction ns)
    case (Cons m ns)
    have "apart [m] n" if n: "n \<in> set ns" for n
    proof -
      have mem: "m \<in> set (dict_values (ag_nodes r))" "n \<in> set (dict_values (ag_nodes r))" using Cons.prems(2) n by auto
      have "set (dict_keys (cn_containers m)) \<inter> set (concat (map (\<lambda>n. dict_keys (cn_containers n)) ns)) = {}"
        using Cons.prems(1) by simp
      moreover have "set (dict_keys (cn_containers n)) \<subseteq> set (concat (map (\<lambda>n. dict_keys (cn_containers n)) ns))"
        using n by auto
      ultimately have disj: "set (dict_keys (cn_containers m)) \<inter> set (dict_keys (cn_containers n)) = {}" by blast
      have "ct_container_id ` set (dict_values (cn_containers m)) \<inter> ct_container_id ` set (dict_values (cn_containers n)) = {}"
        unfolding keys [OF mem(1)] keys [OF mem(2)] by (rule disj)
      then show ?thesis unfolding apart_def by simp
    qed
    with Cons show ?case by simp
  qed simp
  then have "sorted_wrt (\<lambda>m n. apart [m] n) (dict_values (ag_nodes r))"
    using assms by (simp only: containers_ok_def)
  then show "sorted_wrt (\<lambda>m n. apart [m] n) (get_healthy_nodes now r)"
    unfolding get_healthy_nodes_def by (rule sorted_wrt_filter)
qed

lemma rebalance_candidates_ok:
  assumes "containers_ok (ps_registry s)" "compute_rebalance_candidates now (get_healthy_nodes now (ps_registry s)) s = (cands, s')"
  shows "rebalance_ok now s (get_healthy_nodes now (ps_registry s)) (cands, s')"
proof -
  obtain cands0 where c: "foldl (\<lambda>css n. rebalance_node now n css) ([], s) (get_healthy_nodes now (ps_registry s)) = (cands0, s')"
    "cands = sort_desc sw_density cands0"
    using assms(2) by (auto simp: compute_rebalance_candidates_def split: prod.splits)
  have ok: "rebalance_ok now s (get_healthy_nodes now (ps_registry s)) (cands0, s')"
    using rebalance_nodes_ok [OF healthy_nodes_apart [OF assms(1), of now], of now s] c(1) by simp
  have "mset (map donor_id (sort_desc sw_density xs)) = mset (map donor_id xs)" for xs :: "swap_candidate list"
    by (simp add: sort_desc_def)
  then have "distinct (map donor_id (sort_desc sw_density xs)) = distinct (map donor_id xs)" for xs :: "swap_candidate list"
    using mset_eq_imp_distinct_iff by blast
  with ok show ?thesis by (simp add: rebalance_ok_def c(2) leaves_one_def)
qed

section \<open>The swaps\<close>

definition container_at :: "artifact_registry \<Rightarrow> string \<Rightarrow> string \<Rightarrow> container option" where
  "container_at r k cid = Option.bind (map_of (ag_nodes r) k) (\<lambda>n. map_of (cn_containers n) cid)"

lemma update_container_at:
  assumes wf: "dict_wf (ag_nodes r)"
  shows "dict_wf (ag_nodes (snd (update_container i f r)))"
    and "cid \<noteq> i \<Longrightarrow> container_at (snd (update_container i f r)) k cid = container_at r k cid"
proof -
  show "dict_wf (ag_nodes (snd (update_container i f r)))"
    using wf by (simp add: update_container_def split: option.splits)
  show "container_at (snd (update_container i f r)) k cid = container_at r k cid" if "cid \<noteq> i"
  proof (cases "node_of_container i r")
    case (Some p)
    obtain nid n where p: "p = (nid, n)" by fastforce
    have "(nid, n) \<in> set (ag_nodes r)"
      using Some unfolding p node_of_container_def by (metis find_Some_iff nth_mem)
    then have "map_of (ag_nodes r) nid = Some n" using wf by simp
    with that Some show ?thesis
      by (auto simp: p update_container_def container_at_def update_conv' map_of_map_entry)
  qed (simp add: update_container_def)
qed

lemma register_container_found:
  assumes "dict_wf (ag_nodes r)" "register_container c r = (True, r')"
  shows "container_at r' (ct_node_id c) (ct_container_id c) = Some c"
  using assms by (auto simp: register_container_def container_at_def update_conv' split: option.splits)

lemma remove_container_gone:
  assumes "containers_ok r" "remove_container i r = (True, r')"
  shows "container_at r' k i = None"
proof -
  obtain nid n where n: "node_of_container i r = Some (nid, n)"
    "r' = r\<lparr>ag_nodes := AList.update nid (n\<lparr>cn_containers := AList.delete i (cn_containers n)\<rparr>) (ag_nodes r)\<rparr>"
    using assms(2) by (auto simp: remove_container_def split: option.splits)
  have mem: "(nid, n) \<in> set (ag_nodes r)" "i \<in> set (dict_keys (cn_containers n))"
    using n(1) unfolding node_of_container_def find_Some_iff by (auto, metis nth_mem)
  show ?thesis
  proof (cases "k = nid")
    case True
    then show ?thesis by (simp add: n(2) container_at_def update_conv' delete_conv')
  next
    case False
    have "i \<notin> set (dict_keys (cn_containers m))" if "map_of (ag_nodes r) k = Some m" for m
      using containers_disjoint [OF assms(1) mem(1) map_of_SomeD [OF that] mem(2)] False by blast
    then show ?thesis
      using False by (auto simp: n(2) container_at_def update_conv' bind_eq_None_conv map_of_None_keys split: option.splits)
  qed
qed

lemma swap_one_at:
  assumes "dict_wf (ag_nodes (ps_registry s))" "swap_one now answers (targeted, executed, s) sw = (targeted', executed', s')"
  shows "dict_wf (ag_nodes (ps_registry s'))"
    and "cid \<noteq> donor_id sw \<Longrightarrow> container_at (ps_registry s') k cid = container_at (ps_registry s) k cid"
proof -
  have "s' = s \<or> (\<exists>fid aid. s' = swap_container now (donor_id sw) fid aid s)"
    using assms(2) by (auto simp: swap_one_def Let_def donor_id_def split: if_splits option.splits)
  then show "dict_wf (ag_nodes (ps_registry s'))"
    "cid \<noteq> donor_id sw \<Longrightarrow> container_at (ps_registry s') k cid = container_at (ps_registry s) k cid"
    using assms(1) by (auto simp: swap_container_def Let_def rebind_container_def update_container_at)
qed

lemma swaps_at:
  assumes "dict_wf (ag_nodes (ps_registry s))" "cid \<notin> donor_id ` set cands"
    and "foldl (swap_one now answers) (targeted, executed, s) cands = (targeted', executed', s')"
  shows "container_at (ps_registry s') k cid = container_at (ps_registry s) k cid"
  using assms
proof (induction cands arbitrary: targeted executed s)
  case (Cons sw cands)
  obtain t1 e1 s1 where step: "swap_one now answers (targeted, executed, s) sw = (t1, e1, s1)" by (metis prod_cases3)
  show ?case
    using Cons.IH [OF swap_one_at(1) [OF Cons.prems(1) step]] Cons.prems swap_one_at(2) [OF Cons.prems(1) step] step by simp
qed simp

section \<open>A round\<close>

lemma container_at_iff:
  assumes "containers_ok r" "map_of (ag_nodes r) k = Some n"
  shows "container_at r k cid = Some c \<longleftrightarrow> c \<in> set (dict_values (cn_containers n)) \<and> ct_container_id c = cid"
proof -
  have n: "n \<in> set (dict_values (ag_nodes r))" using assms(2) by (rule map_of_in_values)
  have "\<forall>x \<in> set (cn_containers n). ct_container_id (snd x) = fst x"
    using containers_okD(2) [OF assms(1) n] by simp
  with containers_okD(1) [OF assms(1) n] assms(2) show ?thesis
    by (force simp: container_at_def map_of_eq_Some_iff)
qed

lemma generate_decisions_plan: "same_plan s (gn_scheduler (generate_decisions now s ranked nodes))"
proof -
  have "same_plan s (gn_scheduler (place_candidate now g c))" if "same_plan s (gn_scheduler g)" for g c
    using that by (cases rule: place_candidate_cases [of now g c]) (auto elim: same_plan_trans)
  then have "same_plan s (gn_scheduler g) \<Longrightarrow> same_plan s (gn_scheduler (foldl (place_candidate now) g ranked))" for g
    by (induction ranked arbitrary: g) simp_all
  then show ?thesis by (simp add: generate_decisions_def start_generation_def Let_def)
qed

text \<open>A function with a container on a node still has one there after the round.\<close>

lemma round_keeps_functions:
  assumes ok: "registry_ok (ps_registry s)" "containers_ok (ps_registry s)"
    and schedule: "compute_schedule now answers s = (ds, s')"
    and n: "get_cluster_node (ps_registry s) k = Some n" and c: "c \<in> set (dict_values (cn_containers n))" "ct_function_id c \<noteq> []"
  shows "\<exists>c'. container_at (ps_registry s') k (ct_container_id c') = Some c' \<and> ct_function_id c' = ct_function_id c"
proof -
  let ?r = "ps_registry s" and ?nodes = "get_healthy_nodes now (ps_registry s)"
  define s0 where "s0 = s\<lparr>ps_total_schedules := ps_total_schedules s + 1\<rparr>"
  have r0: "ps_registry s0 = ?r" by (simp add: s0_def)
  have n_at: "map_of (ag_nodes ?r) k = Some n" using n by (simp add: get_cluster_node_def)
  have stays: ?thesis if c1: "c1 \<in> set (dict_values (cn_containers n))" "ct_function_id c1 = ct_function_id c"
    "container_at (ps_registry s') k (ct_container_id c1) = container_at ?r k (ct_container_id c1)" for c1
    using container_at_iff [OF ok(2) n_at] c1 by (intro exI [of _ c1]) simp
  show ?thesis
  proof (cases "?nodes = []")
    case True
    then have "ps_registry s' = ?r" using schedule by (auto simp: compute_schedule_def Let_def)
    with c(1) stays show ?thesis by simp
  next
    case False
    obtain rates s1 where rates: "compute_artifact_rates now (get_all_functions ?r) (get_all_artifacts ?r) s0 = (rates, s1)" by fastforce
    define g where "g = generate_decisions now s1 (compute_greedy_ranking s1 (get_all_artifacts ?r) rates ?nodes) ?nodes"
    obtain cands s2 where cands: "compute_rebalance_candidates now ?nodes (gn_scheduler g) = (cands, s2)" by fastforce
    obtain executed s3 where swaps: "execute_rebalance_swaps now answers cands s2 = (executed, s3)" by fastforce
    have s': "ps_registry s' = ps_registry s3"
      using schedule False rates cands swaps by (auto simp: compute_schedule_def Let_def r0 simp flip: s0_def g_def)
    have plan: "same_plan s (gn_scheduler g)"
    proof -
      have "same_plan s s1"
        using rates add_function_rates_plan [of now _ _ s0 rates s1] unfolding compute_artifact_rates_def by (auto simp: same_plan_def s0_def)
      moreover have "same_plan s1 (gn_scheduler g)" unfolding g_def by (rule generate_decisions_plan)
      ultimately show ?thesis by (rule same_plan_trans)
    qed
    then have nodes: "ag_nodes (ps_registry (gn_scheduler g)) = ag_nodes ?r" by (simp add: same_plan_def)
    have ok': "containers_ok (ps_registry (gn_scheduler g))" "?nodes = get_healthy_nodes now (ps_registry (gn_scheduler g))"
      using ok(2) by (simp_all add: containers_ok_def get_healthy_nodes_def nodes)
    note reb = rebalance_okD [OF rebalance_candidates_ok [OF ok'(1) cands [unfolded ok'(2)], folded ok'(2)], unfolded fst_conv snd_conv]
    have wf: "dict_wf (ag_nodes (ps_registry s2))" using ok(1) by (simp add: reb(1) nodes registry_ok_def)
    obtain t1 e1 s4 where fold: "foldl (swap_one now answers) ([], 0, s2) cands = (t1, e1, s4)" by (metis prod_cases3)
    have kept: "container_at (ps_registry s') k cid = container_at ?r k cid" if "cid \<notin> donor_id ` set cands" for cid
      using swaps_at [OF wf that fold, of k] swaps
      by (auto simp: s' execute_rebalance_swaps_def fold container_at_def reb(1) nodes)
    show ?thesis
    proof (cases "n \<in> set ?nodes")
      case True
      then obtain c1 where "c1 \<in> set (dict_values (cn_containers n))" "ct_function_id c1 = ct_function_id c"
        "ct_container_id c1 \<notin> donor_id ` set cands"
        using reb(5) c unfolding leaves_one_def by (metis imageI)
      with kept stays show ?thesis by blast
    next
      case unhealthy: False
      have "ct_container_id c \<notin> donor_id ` set cands"
      proof
        assume "ct_container_id c \<in> donor_id ` set cands"
        then obtain sw where sw: "sw \<in> set cands" "ct_container_id c = ct_container_id (sw_donor sw)" by (auto simp: donor_id_def)
        obtain m where m: "m \<in> set ?nodes" "sw_donor sw \<in> set (dict_values (cn_containers m))"
          using reb(2) [OF sw(1)] unfolding rested_donor_def by blast
        have "m \<in> set (dict_values (ag_nodes ?r))" using m(1) by (simp add: get_healthy_nodes_def)
        then obtain k' where k': "(k', m) \<in> set (ag_nodes ?r)" by auto
        have id: "ct_container_id x \<in> set (dict_keys (cn_containers n'))"
          if "(k1, n') \<in> set (ag_nodes ?r)" "x \<in> set (dict_values (cn_containers n'))" for x k1 n'
        proof -
          have "n' \<in> set (dict_values (ag_nodes ?r))" using that(1) by force
          from containers_okD(2) [OF ok(2) this] that(2) show ?thesis by (metis image_eqI list.set_map)
        qed
        have "(k, n) = (k', m)"
          using containers_disjoint [OF ok(2) map_of_SomeD [OF n_at] k' id [OF map_of_SomeD [OF n_at] c(1)]] id [OF k' m(2)] sw(2) by simp
        with unhealthy m(1) show False by simp
      qed
      with c(1) kept stays show ?thesis by blast
    qed
  qed
qed

end
