(* ===== verification/Preload_Examples.thy ===== *)
theory Preload_Examples
  imports Rebalance_Facts
begin

text \<open>
  A round on one node with four containers: three of a quiet function, one of a busy one with requests
  queued, and a function with requests and no container. The round decides to load the adapter of
  the third function and gives the busy one two containers of the quiet one, which keeps its last.
\<close>

definition ex_adapter_artifact :: "string \<Rightarrow> artifact" where
  "ex_adapter_artifact i = \<lparr>art_id = i, art_type = ADAPTER, art_size_mb = 100, art_loading_delay_ms = 500,
     art_depends_on = [''base''], art_backbone_id = Some ''base'', art_location = Not_loaded, art_loaded_at_node = None,
     art_loaded_at_container = None\<rparr>"

definition ex_backbone :: artifact where
  "ex_backbone = \<lparr>art_id = ''base'', art_type = BACKBONE, art_size_mb = 8000, art_loading_delay_ms = 9000,
     art_depends_on = [], art_backbone_id = None, art_location = GPU, art_loaded_at_node = Some ''n'',
     art_loaded_at_container = None\<rparr>"

definition ex_profile :: "string \<Rightarrow> string \<Rightarrow> string \<Rightarrow> pyfloat \<Rightarrow> function_profile" where
  "ex_profile i art lora rate = \<lparr>fp_function_id = i, fp_backbone_id = ''base'', fp_adapter_id = Some lora, fp_base_ttft_ms = 50,
     fp_marginal_cost_ms = 10, fp_slo_ms = 500, fp_request_rate = rate, fp_last_request_time = 0, fp_total_requests = 0,
     fp_required_artifacts = [''base'', art]\<rparr>"

definition ex_ct :: "string \<Rightarrow> string \<Rightarrow> string \<Rightarrow> string \<Rightarrow> int \<Rightarrow> container" where
  "ex_ct i f art lora pending = \<lparr>ct_container_id = i, ct_function_id = f, ct_node_id = ''n'', ct_status = ''ready'',
     ct_last_request_time = 90, ct_keep_alive_ms = 60000, ct_loaded_artifacts = [art], ct_gpu_loaded_artifacts = [art],
     ct_pending_requests = pending, ct_lora_id = Some lora\<rparr>"

definition ex_cluster_node :: cluster_node where
  "ex_cluster_node = \<lparr>cn_node_id = ''n'', cn_hostname = ''h'', cn_agent_port = 9000, cn_container_memory_mb = 1000, cn_gpu_memory_mb = 24000,
     cn_container_memory_used_mb = 800, cn_gpu_memory_used_mb = 9000,
     cn_containers = [(''p'', ex_ct ''p'' ''quiet'' ''adapter_q'' ''q'' 0), (''q'', ex_ct ''q'' ''quiet'' ''adapter_q'' ''q'' 0),
       (''r'', ex_ct ''r'' ''quiet'' ''adapter_q'' ''q'' 0), (''s'', ex_ct ''s'' ''busy'' ''adapter_b'' ''b'' 3)],
     cn_status = ''active'', cn_last_heartbeat = 95\<rparr>"

text \<open>The registry, with the rates last read for the three functions.\<close>

definition ex_rates :: "pyfloat \<Rightarrow> pyfloat \<Rightarrow> pyfloat \<Rightarrow> artifact_registry" where
  "ex_rates q b w = \<lparr>ag_artifacts = [(''base'', ex_backbone), (''adapter_q'', ex_adapter_artifact ''adapter_q''),
       (''adapter_b'', ex_adapter_artifact ''adapter_b''), (''adapter_w'', ex_adapter_artifact ''adapter_w'')],
     ag_functions = [(''quiet'', ex_profile ''quiet'' ''adapter_q'' ''q'' q), (''busy'', ex_profile ''busy'' ''adapter_b'' ''b'' b),
       (''waiting'', ex_profile ''waiting'' ''adapter_w'' ''w'' w)],
     ag_nodes = [(''n'', ex_cluster_node)],
     ag_request_counts = [(''quiet'', [97]), (''busy'', replicate 12 98), (''waiting'', [99, 99])]\<rparr>"

definition ex_scheduler :: preload_scheduler where
  "ex_scheduler = preload_init (ex_rates 0 0 0) (1 / 100)"

lemmas ex_defs = ex_rates_def ex_cluster_node_def ex_ct_def ex_profile_def ex_backbone_def ex_adapter_artifact_def

lemma ex_ok: "registry_ok (ex_rates q b w) \<and> containers_ok (ex_rates q b w)"
  by (simp add: registry_ok_def containers_ok_def ex_defs)

lemma ex_reads:
  "rate_of 100 ''quiet'' (s\<lparr>ps_registry := ex_rates q b w\<rparr>) = (1 / 60, s\<lparr>ps_registry := ex_rates (1 / 60) b w\<rparr>)"
  "rate_of 100 ''busy'' (s\<lparr>ps_registry := ex_rates q b w\<rparr>) = (1 / 5, s\<lparr>ps_registry := ex_rates q (1 / 5) w\<rparr>)"
  "rate_of 100 ''waiting'' (s\<lparr>ps_registry := ex_rates q b w\<rparr>) = (1 / 30, s\<lparr>ps_registry := ex_rates q b (1 / 30)\<rparr>)"
  by (simp_all add: rate_of_def get_request_rate_def Let_def ex_rates_def rate_window_s_def dict_get_def ex_profile_def)

lemma ex_artifact_rates:
  "compute_artifact_rates 100 (get_all_functions (ex_rates 0 0 0)) (get_all_artifacts (ex_rates 0 0 0)) (s\<lparr>ps_registry := ex_rates 0 0 0\<rparr>) =
     ([(''base'', 1 / 4), (''adapter_q'', 1 / 60), (''adapter_b'', 1 / 5), (''adapter_w'', 1 / 30)],
      s\<lparr>ps_registry := ex_rates (1 / 60) (1 / 5) (1 / 30)\<rparr>)"
  by (simp add: compute_artifact_rates_def get_all_functions_def get_all_artifacts_def ex_profile_def ex_adapter_artifact_def ex_backbone_def
      ex_rates_def [of 0 0 0, THEN arg_cong, of ag_functions] ex_rates_def [of 0 0 0, THEN arg_cong, of ag_artifacts] ex_reads add_rate_def)

abbreviation "ex_rated \<equiv> ex_rates (1 / 60) (1 / 5) (1 / 30)"

definition ex_round :: "artifact_registry \<Rightarrow> preload_scheduler" where
  "ex_round r = \<lparr>ps_registry = r, ps_threshold = 1 / 100, ps_swapping_containers = [], ps_pending_decisions = [], ps_decision_counter = 0,
      ps_last_swap_time = [], ps_total_rebalance_decisions = 0, ps_total_schedules = 1, ps_total_decisions = 0,
      ps_last_schedule_time = 0\<rparr>"

lemma ex_fields [simp]:
  "art_id (ex_adapter_artifact i) = i" "art_type (ex_adapter_artifact i) = ADAPTER" "art_size_mb (ex_adapter_artifact i) = 100"
  "art_loading_delay_ms (ex_adapter_artifact i) = 500" "art_depends_on (ex_adapter_artifact i) = [''base'']"
  "art_backbone_id (ex_adapter_artifact i) = Some ''base''" "art_type ex_backbone = BACKBONE"
  "cn_node_id ex_cluster_node = ''n''" "cn_container_memory_mb ex_cluster_node = 1000" "cn_gpu_memory_mb ex_cluster_node = 24000"
  "cn_container_memory_used_mb ex_cluster_node = 800" "cn_gpu_memory_used_mb ex_cluster_node = 9000"
  "ps_registry (ex_round r) = r" "ps_threshold (ex_round r) = 1 / 100" "ps_pending_decisions (ex_round r) = []"
  by (simp_all add: ex_adapter_artifact_def ex_backbone_def ex_cluster_node_def ex_round_def)

lemma ex_healthy: "get_healthy_nodes 100 (ex_rates q b w) = [ex_cluster_node]"
  by (simp add: get_healthy_nodes_def ex_rates_def ex_cluster_node_def node_is_healthy_def)

lemma ex_lookups:
  "get_artifact (ex_rates q b w) ''base'' = Some ex_backbone"
  "get_all_artifacts (ex_rates q b w) = [ex_backbone, ex_adapter_artifact ''adapter_q'', ex_adapter_artifact ''adapter_b'', ex_adapter_artifact ''adapter_w'']"
  "get_all_functions (ex_rates q b w) = [ex_profile ''quiet'' ''adapter_q'' ''q'' q, ex_profile ''busy'' ''adapter_b'' ''b'' b, ex_profile ''waiting'' ''adapter_w'' ''w'' w]"
  "get_function (ex_rates q b w) ''quiet'' = Some (ex_profile ''quiet'' ''adapter_q'' ''q'' q)"
  "get_function (ex_rates q b w) ''busy'' = Some (ex_profile ''busy'' ''adapter_b'' ''b'' b)"
  "get_function (ex_rates q b w) ''waiting'' = Some (ex_profile ''waiting'' ''adapter_w'' ''w'' w)"
  "get_cluster_node (ex_rates q b w) ''n'' = Some ex_cluster_node"
  by (simp_all add: get_artifact_def get_all_artifacts_def get_all_functions_def get_function_def get_cluster_node_def ex_rates_def)

lemma ex_loaded:
  "artifact_loaded_on_node (ex_rates q b w) ex_backbone ex_cluster_node"
  "artifact_loaded_on_node (ex_rates q b w) (ex_adapter_artifact ''adapter_q'') ex_cluster_node"
  "artifact_loaded_on_node (ex_rates q b w) (ex_adapter_artifact ''adapter_b'') ex_cluster_node"
  "\<not> artifact_loaded_on_node (ex_rates q b w) (ex_adapter_artifact ''adapter_w'') ex_cluster_node"
  by (simp_all add: artifact_loaded_on_node_def ex_lookups ex_cluster_node_def ex_ct_def ex_profile_def ex_backbone_def ex_adapter_artifact_def)

lemma ex_admissible: "admissible (ex_round (ex_rates q b w)) (ex_adapter_artifact ''adapter_w'') target ex_cluster_node"
  by (cases target)
    (simp_all add: admissible_def ex_loaded check_capacity_def check_precedence_def check_coupling_def ex_lookups
      can_allocate_gpu_def can_allocate_container_def get_gpu_memory_available_def get_container_memory_available_def,
      simp_all add: ex_cluster_node_def)

lemma ex_boost: "unserved_boost ex_rated (ex_adapter_artifact ''adapter_w'') = 10"
  by (simp add: unserved_boost_def ex_lookups requires_def get_containers_for_function_def all_containers_def)
    (simp add: ex_defs requires_def)

abbreviation "ex_demand \<equiv> [(''base'', 1 / 4), (''adapter_q'', 1 / 60), (''adapter_b'', 1 / 5), (''adapter_w'', 1 / 30 :: pyfloat)]"

definition ex_candidate :: "preload_target \<Rightarrow> pyfloat \<Rightarrow> candidate" where
  "ex_candidate target d = \<lparr>cd_artifact = ex_adapter_artifact ''adapter_w'', cd_node_id = ''n'', cd_target = target, cd_density = Finite d\<rparr>"

lemma ex_ranking:
  "compute_greedy_ranking (ex_round ex_rated) (get_all_artifacts ex_rated) ex_demand [ex_cluster_node] =
     [ex_candidate To_container (5 / 3), ex_candidate To_gpu (100 / 63)]"
proof -
  have none: "artifact_candidates (ex_round ex_rated) ex_demand [ex_cluster_node] art = []"
    if "artifact_loaded_on_node ex_rated art ex_cluster_node" for art
    using that by (simp add: artifact_candidates_def Let_def admissible_def)
  have "artifact_candidates (ex_round ex_rated) ex_demand [ex_cluster_node] (ex_adapter_artifact ''adapter_w'') =
      [ex_candidate To_container (5 / 3), ex_candidate To_gpu (100 / 63)]"
    by (simp add: artifact_candidates_def Let_def ex_admissible)
      (simp add: ex_boost ex_candidate_def dict_get_def compute_density_def compute_value_def
        get_effective_size_def target_location_def boosted_def less_density_def less_eq_density_def)
  then show ?thesis
    by (simp add: compute_greedy_ranking_def ex_lookups none ex_loaded sort_desc_def)
      (simp add: ex_candidate_def less_eq_density_def)
qed

lemma ex_estimate: "estimate_node_memory (ex_rates q b w) ex_cluster_node (get_all_artifacts (ex_rates q b w)) = (0, 210)"
  by (simp add: estimate_node_memory_def ex_lookups ex_loaded)
    (simp add: loaded_in_def ex_cluster_node_def ex_ct_def ex_backbone_def get_effective_size_def)

definition ex_decision :: preload_decision where
  "ex_decision = \<lparr>pd_decision_id = ''decision_1'', pd_artifact_id = ''adapter_w'', pd_target_node_id = ''n'', pd_target_location = To_container,
     pd_function_id = Some ''waiting'', pd_priority = 0, pd_value_density = Finite (5 / 3), pd_expected_value = 50 / 3, pd_status = ''pending''\<rparr>"

lemma ex_round_update: "ex_round r\<lparr>ps_registry := r'\<rparr> = ex_round r'"
  by (simp add: ex_round_def)

lemma ex_function_for: "function_for (ex_rates q b w) ''adapter_w'' = ''waiting''"
  by (simp add: function_for_def ex_lookups requires_def ex_profile_def)

lemma ex_rate_again: "rate_of 100 ''waiting'' (ex_round ex_rated\<lparr>ps_decision_counter := 1\<rparr>) = (1 / 30, ex_round ex_rated\<lparr>ps_decision_counter := 1\<rparr>)"
  using ex_reads(3) [where w = "1 / 30" and q = "1 / 60" and b = "1 / 5" and s = "ex_round ex_rated\<lparr>ps_decision_counter := 1\<rparr>"] by (simp add: ex_round_def)

lemma str_one: "str_int 1 = ''1''"
  by code_simp

lemma ex_generation:
  "generate_decisions 100 (ex_round ex_rated) [ex_candidate To_container (5 / 3), ex_candidate To_gpu (100 / 63)] [ex_cluster_node] =
     \<lparr>gn_decisions = [ex_decision], gn_container = [(''n'', 900)], gn_gpu = [(''n'', 9000)],
      gn_placed = [(''adapter_w'', ''n'')], gn_scheduler = ex_round ex_rated\<lparr>ps_decision_counter := 1\<rparr>\<rparr>"
proof -
  have start: "start_generation (ex_round ex_rated) [ex_cluster_node] =
      \<lparr>gn_decisions = [], gn_container = [(''n'', 800)], gn_gpu = [(''n'', 9000)], gn_placed = [], gn_scheduler = ex_round ex_rated\<rparr>"
    by (simp add: start_generation_def Let_def ex_estimate)
  have counter: "ps_decision_counter (ex_round ex_rated) = 0" by (simp add: ex_round_def)
  have first: "place_candidate 100 \<lparr>gn_decisions = [], gn_container = [(''n'', 800)], gn_gpu = [(''n'', 9000)], gn_placed = [], gn_scheduler = ex_round ex_rated\<rparr>
      (ex_candidate To_container (5 / 3)) =
      \<lparr>gn_decisions = [ex_decision], gn_container = [(''n'', 900)], gn_gpu = [(''n'', 9000)],
       gn_placed = [(''adapter_w'', ''n'')], gn_scheduler = ex_round ex_rated\<lparr>ps_decision_counter := 1\<rparr>\<rparr>"
    by (simp add: place_candidate_def Let_def ex_candidate_def ex_lookups dict_get_def get_effective_size_def target_location_def
        ex_function_for counter ex_rate_again ex_decision_def compute_value_def str_one set_add_def)
  show ?thesis
    by (simp add: generate_decisions_def start first) (simp add: place_candidate_def ex_candidate_def)
qed

section \<open>The swaps of the round\<close>

abbreviation "ex_quiet i \<equiv> ex_ct i ''quiet'' ''adapter_q'' ''q'' 0"

abbreviation "ex_ready \<equiv> ex_round ex_rated\<lparr>ps_decision_counter := 1\<rparr>"

lemma ex_fcs: "function_containers ex_cluster_node =
    [(''quiet'', [ex_quiet ''p'', ex_quiet ''q'', ex_quiet ''r'']), (''busy'', [ex_ct ''s'' ''busy'' ''adapter_b'' ''b'' 3])]"
  by (simp add: function_containers_def ex_cluster_node_def add_container_def ex_ct_def dict_get_def)

lemma ex_function_rates: "function_rates 100 [''quiet'', ''busy''] ex_ready = ([(''quiet'', 1 / 60), (''busy'', 1 / 5)], ex_ready)"
proof -
  have same: "ex_ready\<lparr>ps_registry := ex_rated\<rparr> = ex_ready" by (simp add: ex_round_def)
  have "rate_of 100 ''quiet'' ex_ready = (1 / 60, ex_ready)" "rate_of 100 ''busy'' ex_ready = (1 / 5, ex_ready)"
    using ex_reads(1,2) [where w = "1 / 30" and q = "1 / 60" and b = "1 / 5" and s = ex_ready] unfolding same by -
  then show ?thesis by simp
qed

definition ex_swap :: "string \<Rightarrow> swap_candidate" where
  "ex_swap i = \<lparr>sw_artifact = ex_adapter_artifact ''adapter_b'', sw_node_id = ''n'', sw_density = 11 / 12, sw_donor = ex_quiet i\<rparr>"

lemma ex_adapter_of: "adapter_of (ex_rates q b w) (ex_profile ''busy'' ''adapter_b'' ''b'' b) = Some (ex_adapter_artifact ''adapter_b'')"
  by (simp add: adapter_of_def ex_profile_def get_artifact_def ex_rates_def ex_backbone_def)

lemma ex_donate:
  "donate 100 ''n'' (ex_adapter_artifact ''adapter_b'') (11 / 60) [ex_quiet ''p'', ex_quiet ''q'', ex_quiet ''r'']
     [ex_quiet ''p'', ex_quiet ''q'', ex_quiet ''r''] (3, 2, \<lparr>pg_candidates = [], pg_donors = [], pg_last_swap = [], pg_swaps = 0\<rparr>) =
   (1, 0, \<lparr>pg_candidates = [ex_swap ''p'', ex_swap ''q''], pg_donors = [''p'', ''q''], pg_last_swap = [(''p'', 100), (''q'', 100)], pg_swaps = 2\<rparr>)"
  by (simp add: Let_def remaining_count_def rebalance_min_containers_def rebalance_max_swaps_def take_donor_def ex_swap_def ex_ct_def
      dict_get_def set_add_def)

lemma ex_rebalance:
  "compute_rebalance_candidates 100 [ex_cluster_node] ex_ready =
     ([ex_swap ''p'', ex_swap ''q''], ex_ready\<lparr>ps_last_swap_time := [(''p'', 100), (''q'', 100)]\<rparr>)"
proof -
  have desired: "desired_count 4 (13 / 60) (1 / 60) = 1" "desired_count 4 (13 / 60) (1 / 5) = 4"
    by code_simp+
  have lists:
    "starving_functions (function_containers ex_cluster_node)
       (\<lambda>fid. desired_count 4 (13 / 60) (dict_get [(''quiet'', 1 / 60), (''busy'', 1 / 5)] fid 0)) = [(''busy'', 3)]"
    "overstocked_functions (function_containers ex_cluster_node)
       (\<lambda>fid. desired_count 4 (13 / 60) (dict_get [(''quiet'', 1 / 60), (''busy'', 1 / 5)] fid 0)) = [(''quiet'', 2)]"
    by (simp_all add: ex_fcs starving_functions_def overstocked_functions_def dict_get_def desired rebalance_min_containers_def)
      (simp add: ex_ct_def)
  have pairs: "pair_starving 100 ''n'' ex_rated (\<lambda>fid. dict_get [(''quiet'', 1 / 60), (''busy'', 1 / 5)] fid 0)
      (\<lambda>fid. dict_get (function_containers ex_cluster_node) fid []) [(''busy'', 3)] [(''quiet'', 2)]
      \<lparr>pg_candidates = [], pg_donors = [], pg_last_swap = [], pg_swaps = 0\<rparr> =
      \<lparr>pg_candidates = [ex_swap ''p'', ex_swap ''q''], pg_donors = [''p'', ''q''], pg_last_swap = [(''p'', 100), (''q'', 100)], pg_swaps = 2\<rparr>"
    by (simp add: ex_fcs dict_get_def ex_lookups ex_adapter_of ex_donate rebalance_max_swaps_def Let_def del: donate.simps)
  have state: "ps_registry ex_ready = ex_rated" "ps_last_swap_time ex_ready = []" by (simp_all add: ex_round_def)
  have sums: "sum_list (map (length \<circ> snd) (function_containers ex_cluster_node)) = 4" "function_containers ex_cluster_node \<noteq> []"
    "dict_keys (function_containers ex_cluster_node) = [''quiet'', ''busy'']"
    by (simp_all add: ex_fcs)
  have node: "rebalance_node 100 ex_cluster_node ([], ex_ready) =
      ([ex_swap ''p'', ex_swap ''q''], ex_ready\<lparr>ps_last_swap_time := [(''p'', 100), (''q'', 100)]\<rparr>)"
    unfolding rebalance_node_def sums
    by (simp add: Let_def sums ex_function_rates lists pairs sort_desc_def state del: function_rates.simps pair_starving.simps)
  show ?thesis
    by (simp add: compute_rebalance_candidates_def node sort_desc_def) (simp add: ex_swap_def)
qed

text \<open>Both swaps are answered with success; the first round rebinds two containers.\<close>

definition ex_taken :: "string \<Rightarrow> container" where
  "ex_taken i = (ex_ct i ''busy'' ''adapter_b'' ''b'' 0)\<lparr>ct_last_request_time := 100\<rparr>"

definition ex_swapped :: "bool \<Rightarrow> artifact_registry" where
  "ex_swapped both = ex_rated\<lparr>ag_nodes := [(''n'', ex_cluster_node\<lparr>cn_containers :=
     [(''p'', ex_taken ''p''), (''q'', if both then ex_taken ''q'' else ex_quiet ''q''), (''r'', ex_quiet ''r''),
      (''s'', ex_ct ''s'' ''busy'' ''adapter_b'' ''b'' 3)]\<rparr>)]\<rparr>"

lemma ex_swap_containers:
  "swap_container 100 ''p'' ''busy'' ''b'' (s\<lparr>ps_registry := ex_rated\<rparr>) =
     s\<lparr>ps_registry := ex_swapped False, ps_last_swap_time := AList.update ''p'' 100 (ps_last_swap_time s)\<rparr>"
  "swap_container 100 ''q'' ''busy'' ''b'' (s\<lparr>ps_registry := ex_swapped False\<rparr>) =
     s\<lparr>ps_registry := ex_swapped True, ps_last_swap_time := AList.update ''q'' 100 (ps_last_swap_time s)\<rparr>"
  by (simp_all add: swap_container_def Let_def update_container_def rebind_container_def node_of_container_def ex_swapped_def ex_rates_def
      ex_cluster_node_def ex_taken_def ex_ct_def swap_artifacts_def adapter_artifact_id_def rebind_function_def update_activity_def
      set_add_def set_discard_def)

lemma ex_swap_one:
  "swap_one 100 (\<lambda>_ _ _. True) ([], 0, s\<lparr>ps_swapping_containers := [], ps_registry := ex_rated\<rparr>) (ex_swap ''p'') =
     ([''p''], 1, s\<lparr>ps_swapping_containers := [], ps_registry := ex_swapped False,
        ps_last_swap_time := AList.update ''p'' 100 (ps_last_swap_time s)\<rparr>)"
  "swap_one 100 (\<lambda>_ _ _. True) ([''p''], 1, s\<lparr>ps_swapping_containers := [], ps_registry := ex_swapped False\<rparr>) (ex_swap ''q'') =
     ([''p'', ''q''], 2, s\<lparr>ps_swapping_containers := [], ps_registry := ex_swapped True,
        ps_last_swap_time := AList.update ''q'' 100 (ps_last_swap_time s)\<rparr>)"
proof -
  have func: "function_for (ex_rates q b w) ''adapter_b'' = ''busy''" for q b w
    by (simp add: function_for_def ex_lookups requires_def ex_profile_def)
  have conts: "get_container ex_rated ''p'' = Some (ex_quiet ''p'')" "get_container (ex_swapped False) ''q'' = Some (ex_quiet ''q'')"
    by (simp_all add: get_container_def node_of_container_def ex_swapped_def ex_rates_def ex_cluster_node_def)
  have same: "function_for (ex_swapped False) ''adapter_b'' = ''busy''" "get_function (ex_swapped False) ''busy'' = get_function ex_rated ''busy''"
    using func [of "1 / 60" "1 / 5" "1 / 30"] by (simp_all add: function_for_def get_all_functions_def get_function_def ex_swapped_def)
  have lora: "fp_adapter_id (ex_profile ''busy'' ''adapter_b'' ''b'' b) = Some ''b''" for b by (simp add: ex_profile_def)
  have quiet: "ct_status (ex_quiet i) = ''ready''" "ct_lora_id (ex_quiet i) = Some ''q''" "ct_pending_requests (ex_quiet i) = 0"
    "ct_container_id (ex_quiet i) = i" for i by (simp_all add: ex_ct_def)
  have swap: "sw_donor (ex_swap i) = ex_quiet i" "sw_artifact (ex_swap i) = ex_adapter_artifact ''adapter_b''" for i by (simp_all add: ex_swap_def)
  show "swap_one 100 (\<lambda>_ _ _. True) ([], 0, s\<lparr>ps_swapping_containers := [], ps_registry := ex_rated\<rparr>) (ex_swap ''p'') =
     ([''p''], 1, s\<lparr>ps_swapping_containers := [], ps_registry := ex_swapped False,
        ps_last_swap_time := AList.update ''p'' 100 (ps_last_swap_time s)\<rparr>)"
    using ex_swap_containers(1) [of "s\<lparr>ps_swapping_containers := []\<rparr>"]
    by (simp add: swap_one_def Let_def swap quiet func conts ex_lookups lora set_add_def)
  show "swap_one 100 (\<lambda>_ _ _. True) ([''p''], 1, s\<lparr>ps_swapping_containers := [], ps_registry := ex_swapped False\<rparr>) (ex_swap ''q'') =
     ([''p'', ''q''], 2, s\<lparr>ps_swapping_containers := [], ps_registry := ex_swapped True,
        ps_last_swap_time := AList.update ''q'' 100 (ps_last_swap_time s)\<rparr>)"
    using ex_swap_containers(2) [of "s\<lparr>ps_swapping_containers := []\<rparr>"]
    by (simp add: swap_one_def Let_def swap quiet same conts ex_lookups lora set_add_def)
qed

text \<open>The whole round.\<close>

lemma ex_schedule:
  "compute_schedule 100 (\<lambda>_ _ _. True) ex_scheduler =
     ([ex_decision],
      \<lparr>ps_registry = ex_swapped True, ps_threshold = 1 / 100, ps_swapping_containers = [], ps_pending_decisions = [(''n'', [ex_decision])],
       ps_decision_counter = 1, ps_last_swap_time = [(''p'', 100), (''q'', 100)], ps_total_rebalance_decisions = 2,
       ps_total_schedules = 1, ps_total_decisions = 3, ps_last_schedule_time = 100\<rparr>)"
proof -
  have start: "ex_scheduler\<lparr>ps_total_schedules := ps_total_schedules ex_scheduler + 1\<rparr> = ex_round (ex_rates 0 0 0)"
    by (simp add: ex_scheduler_def preload_init_def ex_round_def)
  have rates: "compute_artifact_rates 100 (get_all_functions (ex_rates 0 0 0)) (get_all_artifacts (ex_rates 0 0 0)) (ex_round (ex_rates 0 0 0)) =
      (ex_demand, ex_round ex_rated)"
    using ex_artifact_rates [of "ex_round (ex_rates 0 0 0)"] unfolding ex_round_update .
  have arts: "get_all_artifacts (ex_rates 0 0 0) = get_all_artifacts ex_rated" by (simp add: ex_lookups)
  have swaps: "execute_rebalance_swaps 100 (\<lambda>_ _ _. True) [ex_swap ''p'', ex_swap ''q''] (ex_ready\<lparr>ps_last_swap_time := [(''p'', 100), (''q'', 100)]\<rparr>) =
      (2, (ex_round (ex_swapped True))\<lparr>ps_decision_counter := 1, ps_last_swap_time := [(''p'', 100), (''q'', 100)], ps_total_rebalance_decisions := 2\<rparr>)"
    using ex_swap_one(1) [of "ex_ready\<lparr>ps_last_swap_time := [(''p'', 100), (''q'', 100)]\<rparr>"]
      ex_swap_one(2) [of "ex_ready\<lparr>ps_last_swap_time := [(''p'', 100), (''q'', 100)]\<rparr>"]
    by (simp add: execute_rebalance_swaps_def ex_round_def)
  show ?thesis
    unfolding compute_schedule_def Let_def start ex_fields ex_healthy rates split_conv
    unfolding arts ex_ranking ex_generation generation.select_convs ex_rebalance split_conv swaps
    by (simp add: store_decision_def ex_decision_def ex_round_def)
qed

end
