(* ===== verification/Gpu_Offloader.thy ===== *)
theory Gpu_Offloader
  imports Artifact_Registry
begin

text \<open>
  The GPU offloader of the ServerlessLoRA baseline, \<open>src/baselines/serverlesslora/gpu_offloader.py\<close>:
  when a GPU is nearly full, the artifacts of least value density move to container memory,
  together with those coupled to them. What the device reports and what the offload callback
  answers are arguments; the monitor's thread and the HTTP server are left out.
\<close>

section \<open>State\<close>

record offload_candidate =
  oc_artifact :: artifact
  oc_container_id :: string
  oc_value_density :: density
  oc_memory_mb :: pyfloat

record offload_event =
  oe_artifact_id :: string
  oe_container_id :: string
  oe_memory_freed_mb :: pyfloat
  oe_timestamp :: pyfloat
  oe_reason :: string

record gpu_offloader =
  go_registry :: artifact_registry
  go_pressure_threshold :: pyfloat
  go_target_free_mb :: pyfloat
  go_cooldown_ms :: int
  go_current_batch_artifacts :: "string pyset"
  go_offload_history :: "offload_event list"
  go_last_offload_time :: pyfloat
  go_total_offloads :: int
  go_total_mb_freed :: pyfloat
  go_pressure_events :: int

definition offloader_init :: "artifact_registry \<Rightarrow> pyfloat \<Rightarrow> pyfloat \<Rightarrow> int \<Rightarrow> gpu_offloader" where
  "offloader_init r pressure_threshold target_free_mb cooldown_ms =
     \<lparr>go_registry = r, go_pressure_threshold = pressure_threshold, go_target_free_mb = target_free_mb, go_cooldown_ms = cooldown_ms,
      go_current_batch_artifacts = [], go_offload_history = [], go_last_offload_time = 0, go_total_offloads = 0,
      go_total_mb_freed = 0, go_pressure_events = 0\<rparr>"

section \<open>Memory pressure\<close>

record gpu_memory_status =
  gs_total_mb :: pyfloat
  gs_used_mb :: pyfloat
  gs_free_mb :: pyfloat
  gs_usage_percent :: pyfloat

text \<open>The free and total bytes of the device, or nothing when it cannot be asked.\<close>

definition get_gpu_memory_status :: "(int \<times> int) option \<Rightarrow> gpu_memory_status" where
  "get_gpu_memory_status info =
     (case info of
        None \<Rightarrow> \<lparr>gs_total_mb = 0, gs_used_mb = 0, gs_free_mb = 0, gs_usage_percent = 0\<rparr>
      | Some (free, tot) \<Rightarrow>
          let total_mb = of_int tot / (1024 * 1024); free_mb = of_int free / (1024 * 1024)
          in \<lparr>gs_total_mb = total_mb, gs_used_mb = total_mb - free_mb, gs_free_mb = free_mb,
              gs_usage_percent = (if 0 < tot then of_int (tot - free) / of_int tot else 0)\<rparr>)"

definition check_memory_pressure :: "(int \<times> int) option \<Rightarrow> gpu_offloader \<Rightarrow> bool" where
  "check_memory_pressure info s \<longleftrightarrow> go_pressure_threshold s < gs_usage_percent (get_gpu_memory_status info)"

definition compute_required_free_mb :: "(int \<times> int) option \<Rightarrow> gpu_offloader \<Rightarrow> pyfloat" where
  "compute_required_free_mb info s =
     (let status = get_gpu_memory_status info
      in if gs_usage_percent status \<le> go_pressure_threshold s then 0
         else let target_used_mb = gs_total_mb status * (go_pressure_threshold s - 5 / 100)
              in max (gs_used_mb status - target_used_mb) (go_target_free_mb s))"

section \<open>Candidates\<close>

text \<open>The rates of the functions that require an artifact; reading a rate updates the registry.\<close>

fun required_rate :: "pyfloat \<Rightarrow> string \<Rightarrow> function_profile list \<Rightarrow> pyfloat \<Rightarrow> artifact_registry \<Rightarrow> pyfloat \<times> artifact_registry" where
  "required_rate now a [] rate r = (rate, r)"
| "required_rate now a (f # fs) rate r =
     (if a \<in> set (fp_required_artifacts f)
      then let (x, r1) = get_request_rate now (fp_function_id f) r in required_rate now a fs (rate + x) r1
      else required_rate now a fs rate r)"

fun candidate_loop :: "pyfloat \<Rightarrow> string pyset \<Rightarrow> artifact list \<Rightarrow> artifact_registry \<Rightarrow> offload_candidate list \<times> artifact_registry" where
  "candidate_loop now protected [] r = ([], r)"
| "candidate_loop now protected (art # arts) r =
     (if art_location art \<noteq> GPU \<or> art_id art \<in> set protected then candidate_loop now protected arts r
      else let (rate, r1) = required_rate now (art_id art) (get_all_functions r) 0 r;
               c = \<lparr>oc_artifact = art, oc_container_id = (case art_loaded_at_container art of None \<Rightarrow> [] | Some cid \<Rightarrow> cid),
                    oc_value_density = compute_density art rate GPU, oc_memory_mb = get_effective_size art GPU\<rparr>;
               (cs, r2) = candidate_loop now protected arts r1
           in (c # cs, r2))"

definition compute_offload_candidates :: "pyfloat \<Rightarrow> gpu_offloader \<Rightarrow> offload_candidate list \<times> gpu_offloader" where
  "compute_offload_candidates now s =
     (let (cs, r) = candidate_loop now (go_current_batch_artifacts s) (get_all_artifacts (go_registry s)) (go_registry s)
      in (sort_key oc_value_density cs, s\<lparr>go_registry := r\<rparr>))"

section \<open>Selection\<close>

definition oc_id :: "offload_candidate \<Rightarrow> string" where
  "oc_id c = art_id (oc_artifact c)"

definition candidates_by_id :: "offload_candidate list \<Rightarrow> (string, offload_candidate) dict" where
  "candidates_by_id cs = foldl (\<lambda>d c. AList.update (oc_id c) c d) [] cs"

definition lookup_all :: "(string, offload_candidate) dict \<Rightarrow> artifact list \<Rightarrow> offload_candidate list" where
  "lookup_all d arts = concat (map (\<lambda>a. case map_of d (art_id a) of None \<Rightarrow> [] | Some c \<Rightarrow> [c]) arts)"

definition find_coupled_artifacts :: "artifact_registry \<Rightarrow> artifact \<Rightarrow> (string, offload_candidate) dict \<Rightarrow> offload_candidate list" where
  "find_coupled_artifacts r art by_id =
     (let others = filter (\<lambda>a. art_id a \<noteq> art_id art \<and> art_location a = GPU) (get_all_artifacts r)
      in lookup_all by_id (filter (\<lambda>a. art_id art \<in> set (art_depends_on a)) others) @
         (if art_type art = BACKBONE then lookup_all by_id (filter (\<lambda>a. art_backbone_id a = Some (art_id art)) others) else []))"

definition add_candidate ::
  "offload_candidate list \<times> string pyset \<times> pyfloat \<Rightarrow> offload_candidate \<Rightarrow> offload_candidate list \<times> string pyset \<times> pyfloat" where
  "add_candidate acc c =
     (let (selected, ids, freed) = acc
      in if oc_id c \<in> set ids then acc else (selected @ [c], set_add (oc_id c) ids, freed + oc_memory_mb c))"

fun select_loop ::
  "pyfloat \<Rightarrow> (offload_candidate \<Rightarrow> offload_candidate list) \<Rightarrow> offload_candidate list \<Rightarrow>
   offload_candidate list \<times> string pyset \<times> pyfloat \<Rightarrow> offload_candidate list" where
  "select_loop required_mb coupled [] acc = fst acc"
| "select_loop required_mb coupled (c # cs) acc =
     (let (selected, ids, freed) = acc
      in if required_mb \<le> freed then selected
         else if oc_id c \<in> set ids then select_loop required_mb coupled cs acc
         else select_loop required_mb coupled cs (foldl add_candidate (add_candidate acc c) (coupled c)))"

definition select_offload_set :: "pyfloat \<Rightarrow> pyfloat \<Rightarrow> gpu_offloader \<Rightarrow> offload_candidate list \<times> gpu_offloader" where
  "select_offload_set now required_mb s =
     (let (cs, s1) = compute_offload_candidates now s
      in (select_loop required_mb (\<lambda>c. find_coupled_artifacts (go_registry s1) (oc_artifact c) (candidates_by_id cs)) cs ([], [], 0), s1))"

section \<open>Offloading\<close>

definition offload_to_container :: "pyfloat \<Rightarrow> (string \<Rightarrow> string \<Rightarrow> bool) \<Rightarrow> artifact \<Rightarrow> string \<Rightarrow> gpu_offloader \<Rightarrow> bool \<times> gpu_offloader" where
  "offload_to_container now callback art container_id s =
     (if \<not> callback (art_id art) container_id then (False, s)
      else let r1 = snd (update_artifact_location (art_id art) CONTAINER (art_loaded_at_node art) (Some container_id) (go_registry s));
               r2 = snd (update_container container_id
                      (\<lambda>c. c\<lparr>ct_gpu_loaded_artifacts := set_discard (art_id art) (ct_gpu_loaded_artifacts c)\<rparr>) r1);
               event = \<lparr>oe_artifact_id = art_id art, oe_container_id = container_id, oe_memory_freed_mb = get_effective_size art GPU,
                        oe_timestamp = now, oe_reason = ''pressure''\<rparr>
           in (True, s\<lparr>go_registry := r2, go_offload_history := go_offload_history s @ [event],
                       go_total_offloads := go_total_offloads s + 1,
                       go_total_mb_freed := go_total_mb_freed s + oe_memory_freed_mb event\<rparr>))"

definition offload_all :: "pyfloat \<Rightarrow> (string \<Rightarrow> string \<Rightarrow> bool) \<Rightarrow> offload_candidate list \<Rightarrow> gpu_offloader \<Rightarrow> nat \<times> gpu_offloader" where
  "offload_all now callback cs s =
     foldl (\<lambda>(n, s) c. let (moved, s1) = offload_to_container now callback (oc_artifact c) (oc_container_id c) s
                        in (if moved then n + 1 else n, s1)) (0, s) cs"

text \<open>The device is asked twice, once for the pressure and once for the amount.\<close>

definition handle_memory_pressure ::
  "pyfloat \<Rightarrow> (int \<times> int) option \<Rightarrow> (int \<times> int) option \<Rightarrow> (string \<Rightarrow> string \<Rightarrow> bool) \<Rightarrow> gpu_offloader \<Rightarrow> nat \<times> gpu_offloader" where
  "handle_memory_pressure now info1 info2 callback s =
     (if (now - go_last_offload_time s) * 1000 < of_int (go_cooldown_ms s) \<or> \<not> check_memory_pressure info1 s then (0, s)
      else let s1 = s\<lparr>go_pressure_events := go_pressure_events s + 1\<rparr>;
               (to_offload, s2) = select_offload_set now (compute_required_free_mb info2 s1) s1
           in if to_offload = [] then (0, s2)
              else let (n, s3) = offload_all now callback to_offload s2 in (n, s3\<lparr>go_last_offload_time := now\<rparr>))"

definition protect_artifacts :: "string pyset \<Rightarrow> gpu_offloader \<Rightarrow> gpu_offloader" where
  "protect_artifacts ids s = s\<lparr>go_current_batch_artifacts := ids\<rparr>"

definition release_artifacts :: "string pyset \<Rightarrow> gpu_offloader \<Rightarrow> gpu_offloader" where
  "release_artifacts ids s = s\<lparr>go_current_batch_artifacts := filter (\<lambda>a. a \<notin> set ids) (go_current_batch_artifacts s)\<rparr>"

end
