(* ===== verification/Gpu_Offloader_Facts.thy ===== *)
theory Gpu_Offloader_Facts
  imports Gpu_Offloader Preload_Facts
begin

text \<open>
  What the offloader keeps to: it frees what is asked for or everything it may, takes nothing a
  batch uses, takes the least valuable first, and moves exactly what it has chosen.
\<close>

section \<open>Candidates\<close>

lemma rate_keeps_artifacts: "get_request_rate now fid r = (x, r') \<Longrightarrow> ag_artifacts r' = ag_artifacts r \<and> ag_nodes r' = ag_nodes r"
  by (auto simp: get_request_rate_def Let_def split: option.splits)

lemma required_rate_keeps: "required_rate now a fs rate r = (x, r') \<Longrightarrow> ag_artifacts r' = ag_artifacts r \<and> ag_nodes r' = ag_nodes r"
  by (induction now a fs rate r rule: required_rate.induct) (auto split: if_splits prod.splits dest!: rate_keeps_artifacts)

definition may_offload :: "string pyset \<Rightarrow> artifact \<Rightarrow> bool" where
  "may_offload protected art \<longleftrightarrow> art_location art = GPU \<and> art_id art \<notin> set protected"

lemma candidate_loop_sound:
  "candidate_loop now protected arts r = (cs, r') \<Longrightarrow>
     map oc_artifact cs = filter (may_offload protected) arts \<and> ag_artifacts r' = ag_artifacts r \<and> ag_nodes r' = ag_nodes r \<and>
     (\<forall>c \<in> set cs. oc_memory_mb c = get_effective_size (oc_artifact c) GPU)"
proof (induction now protected arts r arbitrary: cs r' rule: candidate_loop.induct)
  case (2 now protected art arts r)
  show ?case
  proof (cases "may_offload protected art")
    case False
    then show ?thesis using 2(1,3) by (auto simp: may_offload_def)
  next
    case True
    obtain rate r1 where rate: "required_rate now (art_id art) (get_all_functions r) 0 r = (rate, r1)" by fastforce
    obtain cs1 r2 where rest: "candidate_loop now protected arts r1 = (cs1, r2)" by fastforce
    have "\<not> (art_location art \<noteq> GPU \<or> art_id art \<in> set protected)" using True by (simp add: may_offload_def)
    note IH = 2(2) [OF this refl rate [symmetric] refl rest]
    show ?thesis
      using IH 2(3) True required_rate_keeps [OF rate] by (auto simp: rate rest Let_def may_offload_def)
  qed
qed simp

lemma offload_candidates_sound:
  assumes "compute_offload_candidates now s = (cs, s')"
  shows "mset (map oc_artifact cs) = mset (filter (may_offload (go_current_batch_artifacts s)) (get_all_artifacts (go_registry s)))"
    and "sorted (map oc_value_density cs)" and "\<forall>c \<in> set cs. oc_memory_mb c = get_effective_size (oc_artifact c) GPU"
    and "get_all_artifacts (go_registry s') = get_all_artifacts (go_registry s)" "ag_artifacts (go_registry s') = ag_artifacts (go_registry s)"
    and "ag_nodes (go_registry s') = ag_nodes (go_registry s)"
proof -
  obtain cs0 r where loop: "candidate_loop now (go_current_batch_artifacts s) (get_all_artifacts (go_registry s)) (go_registry s) = (cs0, r)"
    by fastforce
  have cs: "cs = sort_key oc_value_density cs0" "go_registry s' = r"
    using assms by (auto simp: compute_offload_candidates_def loop)
  note sound = candidate_loop_sound [OF loop]
  have "mset (map oc_artifact cs) = mset (map oc_artifact cs0)" by (simp add: cs)
  with sound show "mset (map oc_artifact cs) = mset (filter (may_offload (go_current_batch_artifacts s)) (get_all_artifacts (go_registry s)))"
    by (simp only:)
  show "sorted (map oc_value_density cs)" "\<forall>c \<in> set cs. oc_memory_mb c = get_effective_size (oc_artifact c) GPU"
    using sound by (simp_all add: cs)
  show "get_all_artifacts (go_registry s') = get_all_artifacts (go_registry s)" "ag_artifacts (go_registry s') = ag_artifacts (go_registry s)"
    "ag_nodes (go_registry s') = ag_nodes (go_registry s)"
    using sound by (simp_all add: cs get_all_artifacts_def)
qed

section \<open>Selection\<close>

definition selection_ok :: "offload_candidate list \<Rightarrow> offload_candidate list \<times> string pyset \<times> pyfloat \<Rightarrow> bool" where
  "selection_ok cs acc \<longleftrightarrow>
     (case acc of (selected, ids, freed) \<Rightarrow>
        set ids = oc_id ` set selected \<and> distinct (map oc_id selected) \<and> set selected \<subseteq> set cs \<and>
        freed = sum_list (map oc_memory_mb selected))"

lemma add_candidate_ok: "selection_ok cs acc \<Longrightarrow> c \<in> set cs \<Longrightarrow> selection_ok cs (add_candidate acc c)"
  by (auto simp: selection_ok_def add_candidate_def split: prod.splits)

lemma add_candidates_ok: "selection_ok cs acc \<Longrightarrow> set ds \<subseteq> set cs \<Longrightarrow> selection_ok cs (foldl add_candidate acc ds)"
  by (induction ds arbitrary: acc) (simp_all add: add_candidate_ok)

lemma add_candidate_sel:
  assumes "selection_ok cs acc" "distinct (map oc_id cs)" "c \<in> set cs"
  shows "set (fst (add_candidate acc c)) = insert c (set (fst acc))"
proof -
  obtain selected ids freed where acc: "acc = (selected, ids, freed)" by (metis prod_cases3)
  have "c \<in> set selected" if "oc_id c \<in> oc_id ` set selected"
    using that assms unfolding selection_ok_def acc by (auto simp: distinct_map dest!: inj_onD)
  with assms(1) show ?thesis by (auto simp: add_candidate_def acc selection_ok_def)
qed

lemma add_candidates_sel:
  assumes "selection_ok cs acc" "distinct (map oc_id cs)" "set ds \<subseteq> set cs"
  shows "set (fst (foldl add_candidate acc ds)) = set (fst acc) \<union> set ds"
  using assms(1,3) by (induction ds arbitrary: acc) (auto simp: add_candidate_ok add_candidate_sel [OF _ assms(2)])

text \<open>A selected candidate is primary, or coupled to a primary one; a primary one is no more valuable than any that stays.\<close>

definition primary :: "(offload_candidate \<Rightarrow> offload_candidate list) \<Rightarrow> offload_candidate list \<Rightarrow> offload_candidate list \<Rightarrow> offload_candidate \<Rightarrow> bool" where
  "primary coupled cs selected p \<longleftrightarrow>
     p \<in> set selected \<and> set (coupled p) \<subseteq> set selected \<and>
     (\<forall>u \<in> set cs. u \<notin> set selected \<longrightarrow> oc_value_density p \<le> oc_value_density u)"

lemma select_loop_ok:
  assumes ok: "selection_ok cs acc" and dist: "distinct (map oc_id cs)" and sub: "set ds \<subseteq> set cs" and coupled: "\<And>c. set (coupled c) \<subseteq> set cs"
    and srt: "sorted (map oc_value_density ds)" and sel: "selected = select_loop required_mb coupled ds acc"
  shows "\<exists>ids freed. selection_ok cs (selected, ids, freed) \<and> set (fst acc) \<subseteq> set selected \<and>
      (required_mb \<le> freed \<or> set ds \<subseteq> set selected) \<and>
      (\<forall>c \<in> set selected. c \<in> set (fst acc) \<or> (\<exists>p. primary coupled ds selected p \<and> (c = p \<or> c \<in> set (coupled p))))"
  using ok sub srt sel
proof (induction ds arbitrary: acc)
  case Nil
  then show ?case by (cases acc) auto
next
  case (Cons d ds)
  obtain sel0 ids0 freed0 where acc: "acc = (sel0, ids0, freed0)" by (metis prod_cases3)
  consider (enough) "required_mb \<le> freed0" | (skip) "freed0 < required_mb" "oc_id d \<in> set ids0" | (take) "freed0 < required_mb" "oc_id d \<notin> set ids0"
    by linarith
  then show ?case
  proof cases
    case enough
    then show ?thesis using Cons.prems(1,4) by (auto simp: acc)
  next
    case skip
    then have d: "d \<in> set sel0"
      using Cons.prems(1,2) dist unfolding selection_ok_def acc by (auto simp: distinct_map dest!: inj_onD)
    have same: "selected = select_loop required_mb coupled ds acc" using skip Cons.prems(4) by (simp add: acc)
    from Cons.IH [OF Cons.prems(1) _ _ same] Cons.prems(2,3) obtain ids freed where IH: "selection_ok cs (selected, ids, freed)"
      "set (fst acc) \<subseteq> set selected" "required_mb \<le> freed \<or> set ds \<subseteq> set selected"
      "\<forall>c \<in> set selected. c \<in> set (fst acc) \<or> (\<exists>p. primary coupled ds selected p \<and> (c = p \<or> c \<in> set (coupled p)))"
      by auto
    have mono: "primary coupled (d # ds) selected p" if "primary coupled ds selected p" for p
      using that IH(2) d by (auto simp: primary_def acc)
    have "c \<in> set (fst acc) \<or> (\<exists>p. primary coupled (d # ds) selected p \<and> (c = p \<or> c \<in> set (coupled p)))" if "c \<in> set selected" for c
      using IH(4) that mono by blast
    with IH(1,2,3) d show ?thesis by (auto simp: acc)
  next
    case take
    define acc1 where "acc1 = foldl add_candidate (add_candidate acc d) (coupled d)"
    have ok1: "selection_ok cs acc1"
      unfolding acc1_def using Cons.prems(1,2) coupled by (intro add_candidates_ok add_candidate_ok) auto
    have sel1: "set (fst acc1) = insert d (set sel0) \<union> set (coupled d)"
      unfolding acc1_def using Cons.prems(1,2) coupled
      by (subst add_candidates_sel [OF _ dist]) (auto simp: add_candidate_ok add_candidate_sel [OF _ dist] acc)
    have "selected = select_loop required_mb coupled ds acc1" using take Cons.prems(4) by (simp add: acc acc1_def)
    from Cons.IH [OF ok1 _ _ this] Cons.prems(2,3) obtain ids freed where IH: "selection_ok cs (selected, ids, freed)"
      "set (fst acc1) \<subseteq> set selected" "required_mb \<le> freed \<or> set ds \<subseteq> set selected"
      "\<forall>c \<in> set selected. c \<in> set (fst acc1) \<or> (\<exists>p. primary coupled ds selected p \<and> (c = p \<or> c \<in> set (coupled p)))"
      by auto
    have d: "primary coupled (d # ds) selected d" using IH(2) sel1 Cons.prems(3) by (auto simp: primary_def)
    have mono: "primary coupled (d # ds) selected p" if "primary coupled ds selected p" for p
      using that IH(2) sel1 by (auto simp: primary_def)
    have "c \<in> set sel0 \<or> (\<exists>p. primary coupled (d # ds) selected p \<and> (c = p \<or> c \<in> set (coupled p)))" if "c \<in> set selected" for c
      using IH(4) that sel1 d mono by blast
    then show ?thesis using IH(1,2,3) sel1 by (auto simp: acc)
  qed
qed

lemma candidates_by_id_get:
  "map_of (candidates_by_id cs) k = find (\<lambda>c. oc_id c = k) (rev cs)"
  unfolding candidates_by_id_def by (induction cs rule: rev_induct) (auto simp: update_conv')

lemma lookup_all_sub: "set (lookup_all (candidates_by_id cs) arts) \<subseteq> set cs"
proof
  fix c assume "c \<in> set (lookup_all (candidates_by_id cs) arts)"
  then obtain a where "find (\<lambda>c. oc_id c = a) (rev cs) = Some c"
    by (auto simp: lookup_all_def candidates_by_id_get split: option.splits)
  then show "c \<in> set cs" by (metis find_Some_iff nth_mem set_rev)
qed

definition coupled_in :: "gpu_offloader \<Rightarrow> offload_candidate list \<Rightarrow> offload_candidate \<Rightarrow> offload_candidate list" where
  "coupled_in s cs c = find_coupled_artifacts (go_registry s) (oc_artifact c) (candidates_by_id cs)"

lemma coupled_in_sub: "set (coupled_in s cs c) \<subseteq> set cs"
  by (auto simp: coupled_in_def find_coupled_artifacts_def Let_def dest: subsetD [OF lookup_all_sub])

text \<open>An artifact that may be moved and depends on a candidate, or is an adapter of it, is coupled to it.\<close>

lemma coupled_in_complete:
  assumes cs: "distinct (map oc_id cs)" "c' \<in> set cs" "oc_artifact c' \<in> set (get_all_artifacts (go_registry s))" "art_location (oc_artifact c') = GPU"
    and other: "oc_id c' \<noteq> oc_id c"
    and dep: "oc_id c \<in> set (art_depends_on (oc_artifact c')) \<or> art_type (oc_artifact c) = BACKBONE \<and> art_backbone_id (oc_artifact c') = Some (oc_id c)"
  shows "c' \<in> set (coupled_in s cs c)"
proof -
  have "find (\<lambda>x. oc_id x = oc_id c') (rev cs) = Some c'"
  proof (cases "find (\<lambda>x. oc_id x = oc_id c') (rev cs)")
    case None
    then show ?thesis using cs(2) by (auto simp: find_None_iff)
  next
    case (Some x)
    then have "oc_id x = oc_id c'" "x \<in> set cs" by (auto simp: find_Some_iff) (metis nth_mem rev_rev_ident set_rev length_rev)
    with cs(1,2) Some show ?thesis by (metis distinct_map inj_onD)
  qed
  then have look: "map_of (candidates_by_id cs) (art_id (oc_artifact c')) = Some c'" by (simp add: candidates_by_id_get oc_id_def)
  have in_lookup: "c' \<in> set (lookup_all (candidates_by_id cs) arts)" if "oc_artifact c' \<in> set arts" for arts
    using that look by (force simp: lookup_all_def)
  show ?thesis
    using dep cs(3,4) other unfolding coupled_in_def find_coupled_artifacts_def Let_def
    by (auto simp: oc_id_def intro: in_lookup)
qed

lemma selection_sound:
  assumes ok: "registry_ok (go_registry s)" and sel: "select_offload_set now required_mb s = (selected, s')"
    and may: "may = filter (may_offload (go_current_batch_artifacts s)) (get_all_artifacts (go_registry s))"
  obtains cs where "compute_offload_candidates now s = (cs, s')" "mset (map oc_artifact cs) = mset may" "distinct (map oc_id cs)"
    "distinct (map oc_id selected)" "set selected \<subseteq> set cs"
    "required_mb \<le> sum_list (map (\<lambda>c. get_effective_size (oc_artifact c) GPU) selected) \<or> set selected = set cs"
    "\<And>c. c \<in> set selected \<Longrightarrow> \<exists>p. primary (coupled_in s' cs) cs selected p \<and> (c = p \<or> c \<in> set (coupled_in s' cs p))"
proof -
  obtain cs where cs: "compute_offload_candidates now s = (cs, s')"
    using sel by (auto simp: select_offload_set_def split: prod.splits)
  note sound = offload_candidates_sound [OF cs]
  have ids: "distinct (map art_id (get_all_artifacts (go_registry s)))"
  proof -
    have "map art_id (dict_values (ag_artifacts (go_registry s))) = dict_keys (ag_artifacts (go_registry s))"
      using ok by (auto simp: registry_ok_def list_all_iff)
    then show ?thesis using ok by (simp only: registry_ok_def get_all_artifacts_def)
  qed
  have "mset (map oc_id cs) = mset (map art_id (filter (may_offload (go_current_batch_artifacts s)) (get_all_artifacts (go_registry s))))"
  proof -
    have "oc_id = art_id \<circ> oc_artifact" by (simp add: fun_eq_iff oc_id_def)
    with arg_cong [OF sound(1), of "image_mset art_id"] show ?thesis by (simp add: image_mset.compositionality)
  qed
  then have dist: "distinct (map oc_id cs)" using distinct_map_filter [OF ids] by (metis mset_eq_imp_distinct_iff)
  have loop: "selected = select_loop required_mb (coupled_in s' cs) cs ([], [], 0)"
    using sel by (auto simp: select_offload_set_def cs coupled_in_def [abs_def])
  obtain ids' freed where res: "selection_ok cs (selected, ids', freed)" "required_mb \<le> freed \<or> set cs \<subseteq> set selected"
    "\<forall>c \<in> set selected. (\<exists>p. primary (coupled_in s' cs) cs selected p \<and> (c = p \<or> c \<in> set (coupled_in s' cs p)))"
    using select_loop_ok [OF _ dist subset_refl coupled_in_sub sound(2) loop] by (auto simp: selection_ok_def)
  have freed: "freed = sum_list (map (\<lambda>c. get_effective_size (oc_artifact c) GPU) selected)"
  proof -
    have "map oc_memory_mb selected = map (\<lambda>c. get_effective_size (oc_artifact c) GPU) selected"
      using res(1) sound(3) by (intro map_cong refl) (auto simp: selection_ok_def)
    moreover have "freed = sum_list (map oc_memory_mb selected)" using res(1) by (simp add: selection_ok_def)
    ultimately show ?thesis by (simp only:)
  qed
  show thesis
    using that [OF cs] sound(1) dist res freed by (auto simp: may selection_ok_def)
qed

section \<open>Moving\<close>

lemma update_container_artifacts: "ag_artifacts (snd (update_container i f r)) = ag_artifacts r"
  by (simp add: update_container_def split: option.splits prod.splits)

definition location_of :: "gpu_offloader \<Rightarrow> string \<Rightarrow> artifact_location option" where
  "location_of s a = map_option art_location (get_artifact (go_registry s) a)"

lemma offload_location:
  assumes "get_artifact (go_registry s) (art_id art) \<noteq> None" "offload_to_container now callback art cid s = (moved, s')"
  shows "moved = callback (art_id art) cid"
    and "location_of s' a = (if moved \<and> a = art_id art then Some CONTAINER else location_of s a)"
    and "get_artifact (go_registry s') a = None \<longleftrightarrow> get_artifact (go_registry s) a = None"
    and "go_total_offloads s' = go_total_offloads s + (if moved then 1 else 0)"
  using assms
  by (auto simp: offload_to_container_def Let_def location_of_def get_artifact_def update_container_artifacts update_artifact_location_def
      update_conv' split: if_splits option.splits)

lemma offload_all_locations:
  assumes "\<forall>c \<in> set cs. get_artifact (go_registry s) (oc_id c) \<noteq> None" "offload_all now callback cs s = (n, s')"
  shows "n = length (filter (\<lambda>c. callback (oc_id c) (oc_container_id c)) cs)"
    and "location_of s' a =
      (if \<exists>c \<in> set cs. oc_id c = a \<and> callback a (oc_container_id c) then Some CONTAINER else location_of s a)"
    and "go_total_offloads s' = go_total_offloads s + int n"
proof -
  have "n = length (filter (\<lambda>c. callback (oc_id c) (oc_container_id c)) cs) \<and>
      (\<forall>a. location_of s' a = (if \<exists>c \<in> set cs. oc_id c = a \<and> callback a (oc_container_id c) then Some CONTAINER else location_of s a)) \<and>
      (\<forall>a. get_artifact (go_registry s') a = None \<longleftrightarrow> get_artifact (go_registry s) a = None) \<and>
      go_total_offloads s' = go_total_offloads s + int n"
    using assms
  proof (induction cs arbitrary: n s' rule: rev_induct)
    case Nil
    then show ?case by (simp add: offload_all_def)
  next
    case (snoc c cs)
    obtain n1 s1 where front: "offload_all now callback cs s = (n1, s1)" by fastforce
    obtain moved s2 where step: "offload_to_container now callback (oc_artifact c) (oc_container_id c) s1 = (moved, s2)" by fastforce
    have res: "n = (if moved then n1 + 1 else n1)" "s' = s2"
      using snoc.prems(2) front step by (auto simp: offload_all_def split: if_splits)
    have IH: "n1 = length (filter (\<lambda>c. callback (oc_id c) (oc_container_id c)) cs)"
      "\<And>a. location_of s1 a = (if \<exists>c \<in> set cs. oc_id c = a \<and> callback a (oc_container_id c) then Some CONTAINER else location_of s a)"
      "\<And>a. get_artifact (go_registry s1) a = None \<longleftrightarrow> get_artifact (go_registry s) a = None"
      "go_total_offloads s1 = go_total_offloads s + int n1"
      using snoc.IH [OF _ front] snoc.prems(1) by simp_all
    have known: "get_artifact (go_registry s1) (art_id (oc_artifact c)) \<noteq> None"
      using IH(3) snoc.prems(1) by (simp add: oc_id_def)
    note st = offload_location [OF known step]
    show ?case
      using st(1,4) IH(1,4) by (auto simp: res st(2,3) IH(2,3) oc_id_def)
  qed
  then show "n = length (filter (\<lambda>c. callback (oc_id c) (oc_container_id c)) cs)"
    "location_of s' a = (if \<exists>c \<in> set cs. oc_id c = a \<and> callback a (oc_container_id c) then Some CONTAINER else location_of s a)"
    "go_total_offloads s' = go_total_offloads s + int n"
    by blast+
qed

text \<open>Nothing happens without pressure or within the cooldown.\<close>

lemma no_pressure_no_offload:
  assumes "(now - go_last_offload_time s) * 1000 < of_int (go_cooldown_ms s) \<or>
    gs_usage_percent (get_gpu_memory_status info1) \<le> go_pressure_threshold s"
  shows "handle_memory_pressure now info1 info2 callback s = (0, s)"
  using assms by (auto simp: handle_memory_pressure_def check_memory_pressure_def)

text \<open>The memory asked for brings the use down to five percent below the threshold.\<close>

lemma required_free_enough:
  assumes "go_pressure_threshold s < gs_usage_percent (get_gpu_memory_status info)"
  shows "gs_used_mb (get_gpu_memory_status info) - compute_required_free_mb info s
    \<le> gs_total_mb (get_gpu_memory_status info) * (go_pressure_threshold s - 5 / 100)"
  using assms by (simp add: compute_required_free_mb_def Let_def)

lemma coupled_in_same: "get_all_artifacts (go_registry s') = get_all_artifacts (go_registry s) \<Longrightarrow> coupled_in s' = coupled_in s"
  by (simp add: fun_eq_iff coupled_in_def find_coupled_artifacts_def)

text \<open>What handling pressure does, by the selection it makes.\<close>

lemma handle_memory_pressure_moves:
  assumes ok: "registry_ok (go_registry s)" and time: "of_int (go_cooldown_ms s) \<le> (now - go_last_offload_time s) * 1000"
    and pressure: "go_pressure_threshold s < gs_usage_percent (get_gpu_memory_status info1)"
    and handle: "handle_memory_pressure now info1 info2 callback s = (n, s')"
    and selected: "selected = fst (select_offload_set now (compute_required_free_mb info2 s) s)"
  shows "n = length (filter (\<lambda>c. callback (oc_id c) (oc_container_id c)) selected)"
    and "location_of s' a =
      (if \<exists>c \<in> set selected. oc_id c = a \<and> callback a (oc_container_id c) then Some CONTAINER else location_of s a)"
proof -
  define s1 where "s1 = s\<lparr>go_pressure_events := go_pressure_events s + 1\<rparr>"
  have same: "compute_required_free_mb info2 s1 = compute_required_free_mb info2 s" "go_registry s1 = go_registry s"
    "fst (select_offload_set now q s1) = fst (select_offload_set now q s)" for q
    by (auto simp: s1_def compute_required_free_mb_def Let_def select_offload_set_def compute_offload_candidates_def split: prod.splits)
  obtain s2 where sel: "select_offload_set now (compute_required_free_mb info2 s) s1 = (selected, s2)"
    using same(3) selected by (metis prod.collapse)
  have ok1: "registry_ok (go_registry s1)" using ok same(2) by simp
  obtain cs where cs: "compute_offload_candidates now s1 = (cs, s2)"
    "mset (map oc_artifact cs) = mset (filter (may_offload (go_current_batch_artifacts s1)) (get_all_artifacts (go_registry s1)))"
    "set selected \<subseteq> set cs"
    by (rule selection_sound [OF ok1 sel refl], rule that)
  have arts: "ag_artifacts (go_registry s2) = ag_artifacts (go_registry s)" using offload_candidates_sound(5) [OF cs(1)] same(2) by simp
  have sub: "oc_artifact ` set cs \<subseteq> set (get_all_artifacts (go_registry s))"
    using mset_eq_setD [OF cs(2)] unfolding set_map same(2) set_filter by blast
  have "oc_artifact c \<in> set (get_all_artifacts (go_registry s))" if "c \<in> set selected" for c
  proof -
    have "oc_artifact c \<in> oc_artifact ` set cs" using subsetD [OF cs(3) that] by (rule imageI)
    with sub show ?thesis by auto
  qed
  then have known: "\<forall>c \<in> set selected. get_artifact (go_registry s2) (oc_id c) \<noteq> None"
    using registry_okD(1) [OF ok] arts by (simp add: oc_id_def get_artifact_def)
  obtain n1 s3 where all: "offload_all now callback selected s2 = (n1, s3)" by fastforce
  have res: "n = n1" "location_of s' = location_of s3"
    using handle time pressure sel all
    by (auto simp: handle_memory_pressure_def check_memory_pressure_def Let_def same(1) location_of_def offload_all_def fun_eq_iff
        simp flip: s1_def split: if_splits)
  have start: "location_of s2 = location_of s" using arts by (simp add: location_of_def get_artifact_def fun_eq_iff)
  show "n = length (filter (\<lambda>c. callback (oc_id c) (oc_container_id c)) selected)"
    using offload_all_locations(1) [OF known all] res(1) by simp
  show "location_of s' a =
      (if \<exists>c \<in> set selected. oc_id c = a \<and> callback a (oc_container_id c) then Some CONTAINER else location_of s a)"
    unfolding res(2) offload_all_locations(2) [OF known all] start ..
qed

end
