(* ===== verification/Offloader_Examples.thy ===== *)
theory Offloader_Examples
  imports Gpu_Offloader_Facts
begin

text \<open>
  A GPU with a backbone, an adapter on it and a kernel compiled for the adapter, none of them
  requested. The backbone comes first; its adapter goes with it, the adapter's kernel stays.
  When a batch uses the backbone, the adapter and its kernel go.
\<close>

definition on_gpu :: "string \<Rightarrow> artifact_type \<Rightarrow> pyfloat \<Rightarrow> string pyset \<Rightarrow> string option \<Rightarrow> artifact" where
  "on_gpu i ty size_mb deps backbone = \<lparr>art_id = i, art_type = ty, art_size_mb = size_mb, art_loading_delay_ms = 500, art_depends_on = deps,
     art_backbone_id = backbone, art_location = GPU, art_loaded_at_node = Some ''n'', art_loaded_at_container = Some ''c''\<rparr>"

definition ex_gpu :: artifact_registry where
  "ex_gpu = new_artifact_registry\<lparr>ag_artifacts := [(''base'', on_gpu ''base'' BACKBONE 8000 [] None),
     (''adapter'', on_gpu ''adapter'' ADAPTER 100 [''base''] (Some ''base'')), (''kernel'', on_gpu ''kernel'' KERNEL 20 [''adapter''] None)]\<rparr>"

definition ex_offloader :: gpu_offloader where
  "ex_offloader = offloader_init ex_gpu (9 / 10) 50 5000"

definition as_candidate :: "artifact \<Rightarrow> offload_candidate" where
  "as_candidate art = \<lparr>oc_artifact = art, oc_container_id = ''c'', oc_value_density = Finite 0, oc_memory_mb = art_size_mb art * (105 / 100)\<rparr>"

abbreviation "cand_base \<equiv> as_candidate (on_gpu ''base'' BACKBONE 8000 [] None)"
abbreviation "cand_adapter \<equiv> as_candidate (on_gpu ''adapter'' ADAPTER 100 [''base''] (Some ''base''))"
abbreviation "cand_kernel \<equiv> as_candidate (on_gpu ''kernel'' KERNEL 20 [''adapter''] None)"

lemmas offload_simps = as_candidate_def on_gpu_def ex_offloader_def offloader_init_def ex_gpu_def new_artifact_registry_def

lemma ex_gpu_ok: "registry_ok (go_registry (protect_artifacts ids ex_offloader))"
  by (simp add: registry_ok_def protect_artifacts_def offload_simps)

lemma ex_candidates:
  "compute_offload_candidates 100 ex_offloader = ([cand_base, cand_adapter, cand_kernel], ex_offloader)"
  "compute_offload_candidates 100 (protect_artifacts [''base''] ex_offloader) = ([cand_adapter, cand_kernel], protect_artifacts [''base''] ex_offloader)"
  by (simp_all add: compute_offload_candidates_def protect_artifacts_def offload_simps get_all_artifacts_def get_all_functions_def
      compute_density_def compute_value_def get_effective_size_def)

text \<open>Coupling is followed one step only: the kernel of the adapter that goes with its backbone stays on the GPU.\<close>

lemma coupling_one_step:
  "fst (select_offload_set 100 100 ex_offloader) = [cand_base, cand_adapter]"
  "art_depends_on (oc_artifact cand_kernel) = [oc_id cand_adapter]" "art_location (oc_artifact cand_kernel) = GPU"
  unfolding select_offload_set_def ex_candidates split_conv
  by (simp_all add: find_coupled_artifacts_def Let_def candidates_by_id_def lookup_all_def
      add_candidate_def oc_id_def set_add_def offload_simps get_all_artifacts_def)

lemma ex_selected: "fst (select_offload_set 100 100 (protect_artifacts [''base''] ex_offloader)) = [cand_adapter, cand_kernel]"
  unfolding select_offload_set_def ex_candidates split_conv
  by (simp add: find_coupled_artifacts_def Let_def candidates_by_id_def lookup_all_def
      add_candidate_def oc_id_def set_add_def offload_simps get_all_artifacts_def protect_artifacts_def)

text \<open>A device of 1000 MB with 50 MB free.\<close>

definition ex_device :: "(int \<times> int) option" where
  "ex_device = Some (50 * 1048576, 1000 * 1048576)"

lemma ex_pressure:
  "go_pressure_threshold (protect_artifacts ids ex_offloader) < gs_usage_percent (get_gpu_memory_status ex_device)"
  "compute_required_free_mb ex_device (protect_artifacts ids ex_offloader) = 100"
  by (simp_all add: compute_required_free_mb_def Let_def ex_device_def get_gpu_memory_status_def protect_artifacts_def offload_simps)

end
