(* ===== verification/Spec2Isabelle.thy ===== *)
theory Spec2Isabelle
  imports Serving_Examples Barrier_Races Agent_Races Preload_Examples Offloader_Examples
begin

text \<open>
  SwarmLoRA serves many LoRA adapters on one base model: the workers of a GPU, one for each
  adapter, leave the multiplications with the base weights to an aggregator, which batches
  them, and add the deltas of their own adapter. This development models the path of a token
  through workers and aggregator, and the control plane around them, and proves the
  properties C1 to C40 below.

  \<^bold>\<open>The program and the theories.\<close> Paths are relative to \<open>src/src/\<close>, those of the
  baseline to \<open>src/baselines/serverlesslora/\<close>.

  \<^item> The path of a token. Barrier is the synchronisation of workers and aggregator
    (\<open>cpp_extensions/ext_ipc_queue.cpp\<close>, the main loop of \<open>cpp_extensions/ext_aggregator.cpp\<close>
    and the submit and get operations of \<open>BatchedAggregatorOps\<close>): every access to shared memory
    that others can observe is an event, a worker's request is a tree of calls to the
    aggregator; Barrier_Inv has its invariant, which ties the stage of every slot to the
    operation the loop is at. Base_Model has the weights and the batched kernels of
    \<open>ext_aggregator.cpp\<close>; Forward_Pass the worker's pass \<open>_generate_one_token_all\<close> as such
    calls; Merged_Model the reference, a model with the adapter in its weights, and the proof
    that a pass computes it; Serving the runs in which workers serve requests; Barrier_Races
    two runs in which a slot changes hands too early.
  \<^item> The local controller of a node, \<open>controller/controller.py\<close>. The state of
    \<open>AsyncLoadBalancer\<close> is the record \<open>load_balancer\<close> of Worker_Pool: the heap of
    \<open>WorkerInfo\<close> objects by identity, the pool by worker id, ports, GPU counts,
    futures, pending queue, statistics. Worker_Pool has ids, spawning with its reservation,
    stopping, reaping, health checks, swaps, pre-warming, status and the idempotency cache;
    Dispatch has \<open>route_request\<close>, the queue and its dispatcher, burst detection, the
    proactive loop and \<open>_send_inference\<close>; Adapter_Tracking has \<open>AdapterRegistry\<close> and
    \<open>AdapterFrequencyTracker\<close>. A coroutine is cut where it waits: every definition is the
    code between two waits, so that other tasks can run in between. Pool_Inv, Dispatch_Inv
    and Pool_System have the invariants and the reachable states.
  \<^item> Scheduling, \<open>controller/scheduling/\<close>: Sched_Base (snapshots and the interface
    \<open>local_scheduler\<close>), Lorant, Lorant_Demand and Lorant_Reap (routing, targets, rebalances,
    reaping), Random_Sched (the random policy and the sum of all policies). The pool calls
    a policy only through that interface.
  \<^item> Admission: the post-admission margin and the SLO report, \<open>controller/admission.py\<close> and
    \<open>controller/slo_metrics.py\<close>.
  \<^item> The cluster, \<open>controller/cluster/\<close>: Registry and Registry_Inv (nodes, heartbeats and
    the adapter index), Placement (the five policies behind \<open>placement_policy\<close>), Scaler
    (behind \<open>cluster_scaler\<close>), Resilience (error classes, retry, circuit breaker),
    Model_Config, and the global controller: Global_Controller has its state and endpoints,
    Global_Requests the life of a request as a step relation over all interleavings of
    requests and background tasks, Global_Inv, Global_Sound and Global_Facts its invariants.
  \<^item> The agent of a node, \<open>controller/cluster/node_agent.py\<close>: Text_Format (how Python
    formats and parses integers and lists), Node_Launch (the command line of the local
    controller and what the controller's main block makes of it), Node_Agent (processes,
    the monitor, status, heartbeat, forwarding), Node_Agent_Inv, and Agent_Races (launches
    and stops cut at their awaits).
  \<^item> The aggregator's slots: Slot_Pool is the shared pool of
    \<open>cpp_extensions/common/ipc_types.h\<close> and its operations on two 64-bit mask words, behind
    the interface \<open>slot_allocator\<close>; Aggregator has the handlers of \<open>aggregator.py\<close>.
  \<^item> The worker, \<open>worker/\<close>: Paged_Cache is \<open>PagedKVCache\<close>; Worker_Engine is
    \<open>BatchedInferenceEngine\<close> as a step function over its program counter, with Engine_Slots,
    Engine_Requests and Engine_Cache for slots, futures and cache blocks; Wire_Format is the
    framing and encoding of \<open>utils.py\<close>; Lora_Layers and Lora_Facts are the LoRA modules and
    their deltas; Adapter_Files validates, resolves and loads adapters; Adapter_Swap is
    \<open>adapter_manager.py\<close>; Worker_Http and Worker_Http_Facts are the HTTP handlers in front of
    the engine.
  \<^item> The baseline ServerlessLoRA, which the evaluation
    compares with: Artifact_Registry is \<open>artifact_registry.py\<close> (artifacts, function profiles,
    nodes, containers, request rates); Preload_Scheduler and Preload_Rebalance are a round of
    \<open>preload_scheduler.py\<close> (ranking by value density, decisions, rebalancing of containers),
    with Preload_Facts and Rebalance_Facts; Gpu_Offloader and Gpu_Offloader_Facts are
    \<open>gpu_offloader.py\<close>.
  \<^item> Examples, Worker_Examples, Node_Examples, Serving_Examples, Preload_Examples and
    Offloader_Examples hold the concrete inputs of the witnesses.
    Prelude has the shared vocabulary: dictionaries, sets, errors, sums, sorting.

  \<^bold>\<open>How they meet.\<close> A worker's pass asks the aggregator through the barrier and gets what its
  own merged model would compute (C1 to C4); its deltas come from the layers a swap replaces
  (C28, C29). The dispatcher asks the scheduler and hands workers of the pool to requests (C5
  to C7); the pool's spawns, swaps and reaps follow the scheduler (C8 to C11, C13 to C15).
  The agent starts the controller (C35), supervises it (C36) and carries its pool to the
  registry (C37), on which placement and the global controller rest (C16 to C20). A worker's
  handler submits to the engine (C31, C32), which claims slots of the aggregator's pool and
  blocks of the cache (C22 to C27). In the baseline the scheduler and the offloader work on
  one registry (C38 to C40).

  \<^bold>\<open>Interfaces.\<close> Each locale is interpreted on the code's own definitions:
  \<open>local_scheduler\<close> on LoRant, its no-swap variant, the random policy and the dispatching
  sum of them; \<open>placement_policy\<close> on the five policies; \<open>cluster_scaler\<close> on the default
  scaler; \<open>slot_allocator\<close> on the shared pool; \<open>batch_executor\<close>, the law that a batch is its
  slots, on the kernels of the aggregator.

  \<^bold>\<open>Conventions.\<close> A dictionary is an association list with unique keys in insertion order, a
  Python set a list without duplicates, a Python float a rational (arithmetic is exact; the
  float32 and bfloat16 of tensors too), an integer of Python an \<open>int\<close>, the mask words of the
  C++ code are 64-bit words. An exception is the left of a sum, or a value beside the state
  where the code has changed the state before it. Clocks, random choices, the outcomes of
  processes and of requests to others are arguments or parts of events. A matrix is its
  shape and its rows, with torch's refusal and broadcasting of shapes written out.
  Retry and polling loops of the code are recursions on their number of attempts or steps of a
  machine; no definition runs on fuel that could end before the code does. (The passes of a
  request are bounded by its chunks and its limit of tokens: one for every chunk but the last
  and one for every token; with more the result is the same, \<open>serve_calls_enough\<close>.)

  \<^bold>\<open>Lemmas.\<close> Files ending in Inv or Facts, and the last sections of the others, have: for
  each operation the invariant it preserves; what it leaves unchanged; what a whole run does,
  by induction over the events. The theorems of this file are short because they combine
  these.

  \<^bold>\<open>Not modelled.\<close> Parameters of the model, with the laws used as hypotheses: the JSON
  library, the file system and the Hugging Face Hub, the tokenizer, reading of decimal
  fractions, operating-system processes; the norms, the activation, the attention kernel and
  the drawing of a token from a distribution. Left out: in the barrier the quit flag and the
  eviction of a slot that is stuck for 500 ms (its effect on the engine is an input of
  Worker_Engine), and a full batch in sampling mode, which the code does not keep apart by
  worker; dtypes, streams, IPC handles and buffers; the copy of the pass that measures times;
  loading of the base weights, logging, timing metrics, HTTP framing and read-only listing
  endpoints, YAML parsing; of the baselines everything but the decision logic of ServerlessLoRA
  (their processes and servers wrap torch; ServerlessLLM and S-LoRA are vendored); and the
  benchmarks, plots and security experiments, which are not part of the system. Spawning by fork or
  subprocess is an outcome given to the pool, a crash of the coroutine after its reservation
  included. The handlers of the node agent run one at a time in C36 and C37; Agent_Races cuts
  launches and stops at their awaits, shows that each of them alone is its handler, and has
  the run in which two of them overlap and orphan a process. A time-out of the worker's
  socket to the aggregator, after which answers belong to earlier questions, is not modelled;
  nor are tuples and keys other than strings in messages, and the clearing of a slot's buffers
  when it changes hands.
\<close>

section \<open>One base model for many adapters\<close>

text \<open>
  C1. A worker and the base model compute the merged model: when the calls of a request are
  answered by a base model of its own, the request returns exactly the tokens that the model
  generates in whose weights the adapter has been merged (W + s B A for every targeted
  projection of every layer), over chunked prefill and decoding, until the limit or the
  end-of-sequence token; and the calls follow the order of operations of the aggregator's
  loop, with inputs of the right shape. For greedy decoding, an adapter and model whose
  shapes fit, and exact arithmetic.
\<close>

theorem worker_computes_merged_model:
  assumes "serving_fits info rank lls pm cfg" "inputs_ok st"
  shows "run_calls (base_op draw (load_weights pm)) (serve_calls cfg max_tokens eos st) =
      Inr (plain_generate (fc_fns cfg) (merge_adapter lls pm) max_tokens eos (passes max_tokens st) (decode_of st)) \<and>
    in_phase (base_op draw (load_weights pm)) (good_input (load_weights pm)) (length (pm_layers pm))
      (serve_calls cfg max_tokens eos st) 0"
  using serve_calls_merged [OF assms] by blast

theorem worker_computes_merged_model_witness:
  "run_calls (base_op sv_draw (load_weights sv_model)) (serve_calls sv_cfg 2 None sv_state) = Inr [0, 0]"
  using worker_computes_merged_model [OF sv_fits sv_inputs, of sv_draw 2 None] sv_generated
  by (simp add: sv_passes sv_cfg_def)





text \<open>
  C4. A worker that has the aggregator for itself is answered: from the start, the run that
  claims a slot, joins, and alternates the worker's steps with those of the loop for as many
  rounds as the request has calls, over all its tokens, and leaves and gives the slot back,
  ends with the request answered and the tokens of the merged model as its result.
\<close>

theorem lone_worker_is_answered:
  assumes "bc_execute cfg = execute_batch draw (load_weights pm)" "2 \<le> bc_capacity cfg" "serving_fits info rank lls pm fc"
    and "inputs_ok st" "req = serve_calls fc max_tokens eos st"
  shows "br_done (barrier_run cfg (solo_events sid wid req (num_calls (base_op draw (load_weights pm)) req)) (barrier_init input out)) =
    [(sid, req, Inr (plain_generate (fc_fns fc) (merge_adapter lls pm) max_tokens eos (passes max_tokens st) (decode_of st)))]"
proof -
  have "bc_execute cfg op [i] \<noteq> []" for op i
    by (simp add: assms(1) execute_batch_single)
  then have "br_done (barrier_run cfg (solo_events sid wid req (num_calls (base_op draw (load_weights pm)) req)) (barrier_init input out)) =
      [(sid, req, run_calls (base_op draw (load_weights pm)) req)]"
    using solo_answered [of cfg "base_op draw (load_weights pm)" sid wid req input out] assms(1,2)
    by (simp add: base_op_def)
  then show ?thesis
    using serve_calls_merged(1) [OF assms(3,4), of draw max_tokens eos, folded assms(5)] by simp
qed

theorem lone_worker_is_answered_witness:
  "map (snd \<circ> snd) (br_done (barrier_run sv_barrier (solo_events 1 5 sv_request sv_calls) sv_start)) = [Inr [0, 0]]"
  using lone_worker_is_answered [OF sv_executes(1,4) sv_fits sv_inputs sv_request_def, of 1 5 "\<lambda>_. Token_ids []" "\<lambda>_. Next_token 7",
      folded sv_calls_def sv_start_def] sv_generated
  by (simp add: sv_passes sv_cfg_def)

section \<open>Dispatching requests to workers\<close>

text \<open>
  C5. One cycle of the dispatcher never gives the same worker to two requests: the workers
  handed out (through a resolved future or a swap task) are pairwise different, each was
  ready and idle before the cycle, each has exactly one active request after it, and every
  other worker object is unchanged.
\<close>

theorem dispatch_no_double_booking:
  assumes "pool_ok s" and "dispatch_cycle now s = (ts, s')"
  shows "\<exists>hs. distinct (map snd hs) \<and> (\<forall>(fid, oid) \<in> set hs. idle_ready s oid) \<and>
    (\<forall>oid a fid. SwapResolve oid a fid \<in> set ts \<longrightarrow> (fid, oid) \<in> set hs) \<and>
    (\<forall>fid oid. map_of (lb_futures s') fid = Some (F_Result oid) \<longrightarrow>
       map_of (lb_futures s) fid = Some (F_Result oid) \<or> (fid, oid) \<in> set hs) \<and>
    (\<forall>oid. map_of (lb_heap s') oid = (if oid \<in> snd ` set hs
       then map_option (\<lambda>w. w\<lparr>wi_active_requests := 1\<rparr>) (map_of (lb_heap s) oid)
       else map_of (lb_heap s) oid))"
  using dispatch_cycle_cases [OF assms] unfolding pass_ok_def by blast

theorem dispatch_no_double_booking_witness:
  "map_of (lb_futures (snd (dispatch_cycle 4 ex_lb4))) 0 = Some (F_Result 0) \<and> idle_ready ex_lb4 0"
proof -
  have res: "map_of (lb_futures (snd (dispatch_cycle 4 ex_lb4))) 0 = Some (F_Result 0)" using ex_dispatch by blast
  have new: "map_of (lb_futures ex_lb4) 0 = Some F_Pending" by code_simp
  show ?thesis
    using dispatch_no_double_booking [OF ex_pool_ok(2), of 4 "fst (dispatch_cycle 4 ex_lb4)"
        "snd (dispatch_cycle 4 ex_lb4)"] res new by fastforce
qed

text \<open>
  C6. The dispatcher loses no request: after a cycle every request that was queued is still
  queued, or its future is done (it has a worker, or was cancelled), or a swap task is going
  to resolve it.
\<close>

theorem dispatch_loses_no_request:
  assumes "pool_ok s" and "dispatch_cycle now s = (ts, s')" and "pr \<in> set (lb_pending s)"
  shows "pr \<in> set (lb_pending s') \<or> future_done s' (pr_future pr) \<or>
    (\<exists>oid a. SwapResolve oid a (pr_future pr) \<in> set ts)"
  using dispatch_cycle_cases [OF assms(1,2)] assms(3) by blast

theorem dispatch_loses_no_request_witness:
  "lb_pending ex_lb4 \<noteq> [] \<and>
   (hd (lb_pending ex_lb4) \<in> set (lb_pending (snd (dispatch_cycle 4 ex_lb4))) \<or>
    future_done (snd (dispatch_cycle 4 ex_lb4)) (pr_future (hd (lb_pending ex_lb4))) \<or>
    (\<exists>oid a. SwapResolve oid a (pr_future (hd (lb_pending ex_lb4))) \<in> set (fst (dispatch_cycle 4 ex_lb4))))"
proof -
  have ne: "lb_pending ex_lb4 \<noteq> []" by code_simp
  then show ?thesis
    using dispatch_loses_no_request [OF ex_pool_ok(2), of 4 "fst (dispatch_cycle 4 ex_lb4)"
        "snd (dispatch_cycle 4 ex_lb4)" "hd (lb_pending ex_lb4)"] by simp
qed

text \<open>
  C7. A routing decision is executed atomically on a worker that can take the request: when
  a worker is reserved it was ready and idle and only its request count changes; SPAWN is
  only decided below the maximum number of workers and QUEUE only at it.
\<close>

theorem routing_reserves_idle_worker:
  assumes "pool_ok s" and "decide_and_reserve now a s = (d, worker, s1)"
  shows "case worker of
      Some oid \<Rightarrow> rd_action d = ROUTE \<and> idle_ready s oid \<and> lb_heap s1 = lb_heap (reserve oid s)
    | None \<Rightarrow> lb_heap s1 = lb_heap s \<and>
        (rd_action d = SPAWN \<and> int (length (lb_workers s)) < lb_max_workers s \<or>
         rd_action d = QUEUE \<and> lb_max_workers s \<le> int (length (lb_workers s)))"
proof -
  obtain d' s0 where dec: "decide now a s = (d', s0)" by fastforce
  have "d = d'" using assms(2) by (auto simp: decide_and_reserve_def dec split: option.splits)
  moreover note decide_queue_full [OF assms(1) dec] decide_and_reserve_cases [OF assms]
  ultimately show ?thesis by (cases worker; cases "rd_action d") auto
qed

theorem routing_reserves_idle_worker_witness:
  "fst (snd (decide_and_reserve 3 (Some ''a'') ex_lb3)) = Some 0 \<and> idle_ready ex_lb3 0"
proof -
  obtain d worker s1 where run: "decide_and_reserve 3 (Some ''a'') ex_lb3 = (d, worker, s1)" by (metis prod_cases3)
  have "fst (snd (decide_and_reserve 3 (Some ''a'') ex_lb3)) = Some 0" by code_simp
  with run show ?thesis using routing_reserves_idle_worker [OF ex_pool_ok(1) run] by simp
qed

section \<open>The worker pool\<close>

text \<open>
  C8. Over every interleaving of spawns, stops, health checks, swaps, reaping and
  dispatching, the pool never exceeds the maximum, every worker has an id in range under
  which it is filed, and no two workers share a port.
\<close>

theorem pool_ids_and_ports:
  assumes "pool_reachable p slo_s (rvs, s)" and "0 \<le> lb_max_workers s"
  shows "int (length (pool_workers s)) \<le> lb_max_workers s \<and>
    map wi_worker_id (pool_workers s) = dict_keys (lb_workers s) \<and>
    (\<forall>wid \<in> set (dict_keys (lb_workers s)). 0 \<le> wid \<and> wid < lb_max_workers s) \<and>
    distinct (map wi_worker_id (pool_workers s)) \<and> distinct (map wi_http_port (pool_workers s))"
proof -
  have ok: "pool_ok s" using pool_reachable_inv [OF assms(1)] by (simp add: pool_state_inv_def pool_inv_def)
  then have "\<forall>wid \<in> set (dict_keys (lb_workers s)). 0 \<le> wid \<and> wid < lb_max_workers s"
    using pool_entry [OF ok] by (metis entry_ok_def map_of_None_keys not_None_eq)
  moreover have "distinct (dict_keys (lb_workers s))" using ok by (simp add: pool_ok_def)
  ultimately show ?thesis
    using pool_size_le [OF ok assms(2)] pool_ports_distinct [OF ok] pool_workers_ids [OF ok]
    by (simp add: pool_workers_length [OF ok] del: set_map)
qed

theorem pool_ids_and_ports_witness:
  "map wi_worker_id (pool_workers ex_lb3) = [0] \<and> distinct (map wi_http_port (pool_workers ex_lb3))"
proof -
  have "0 \<le> lb_max_workers ex_lb3" and "dict_keys (lb_workers ex_lb3) = [0]" by code_simp+
  then show ?thesis using pool_ids_and_ports [OF ex_reachable3] by simp
qed



text \<open>
  A spawn takes a slot only on a configured GPU that is below its cap, and it gives up
  exactly when every worker id is in use or every GPU is at its cap.
\<close>

theorem spawn_respects_caps:
  "case spawn_begin s of
     (Some rv, s1) \<Rightarrow> rv_device rv \<in> set (lb_worker_devices s) \<and>
       rv_worker_id rv \<notin> set (dict_keys (lb_workers s)) \<and>
       (\<forall>caps. lb_gpu_worker_caps s = Some caps \<longrightarrow>
          dict_get (lb_gpu_worker_count s) (rv_device rv) 0 < dict_get caps (rv_device rv) (lb_max_workers s) \<and>
          dict_get (lb_gpu_worker_count s1) (rv_device rv) 0 = dict_get (lb_gpu_worker_count s) (rv_device rv) 0 + 1)
   | (None, s1) \<Rightarrow> s1 = s \<and>
       ((\<forall>i. 0 \<le> i \<longrightarrow> i < lb_max_workers s \<longrightarrow> i \<in> set (dict_keys (lb_workers s))) \<or> pick_device s = None)"
proof (cases "get_next_worker_id s < 0")
  case True
  then show ?thesis using next_worker_id_exhausted [of s] by (simp add: spawn_begin_def del: set_map)
next
  case False
  show ?thesis
  proof (cases "pick_device s")
    case None
    with False show ?thesis by (simp add: spawn_begin_def Let_def)
  next
    case (Some dev)
    then show ?thesis
      using False pick_device_cap [OF Some] next_worker_id_fresh [of s]
      by (simp add: spawn_begin_def Let_def del: set_map)
  qed
qed

text \<open>
  C10. The idle reaper takes out only workers that are ready and serve no request, does
  nothing while requests wait for a worker, and never shrinks the pool below the
  configured minimum.
\<close>

theorem reaper_takes_only_idle_workers:
  assumes "pool_ok s" and "reap_idle_workers now s = (stopped, s')"
  shows "(\<forall>oid \<in> set stopped. reapable s oid) \<and> (lb_pending s \<noteq> [] \<longrightarrow> stopped = []) \<and>
    int (length (lb_workers s')) = int (length (lb_workers s)) - int (length stopped) \<and>
    (stopped \<noteq> [] \<longrightarrow> lb_min_workers s \<le> int (length (lb_workers s')))"
  using assms(2)
proof (cases rule: reap_idle_workers_cases)
  case (some ids)
  have wf: "dict_wf (lb_workers s)" using assms(1) by (simp add: pool_ok_def)
  have "lb_min_workers s \<le> int (length (lb_workers s))"
    using any_policy.reap_floor [of "lb_scheduler s" "build_worker_snapshots now s" "lb_min_workers s"
        "lb_scale_down_delay s"] some(2,3) snapshots_length [OF assms(1)] by simp
  with reap_workers_sound [OF wf refl, of ids] some show ?thesis
    by (simp add: unregister_workers_frame)
qed simp

theorem reaper_takes_only_idle_workers_witness:
  "lb_workers (snd (reap_idle_workers 100 ex_lb3)) = [] \<and> reapable ex_lb3 0"
proof -
  have run: "fst (reap_idle_workers 100 ex_lb3) = [0]" "length (lb_workers ex_lb3) = 1" by code_simp+
  have "reap_idle_workers 100 ex_lb3 = ([0], snd (reap_idle_workers 100 ex_lb3))"
    using run(1) by (cases "reap_idle_workers 100 ex_lb3") simp
  from reaper_takes_only_idle_workers [OF ex_pool_ok(1) this] run(2) show ?thesis by simp
qed

text \<open>
  C11. Burst detection starts at most twenty spawns at once, only for adapters that are
  waited for, and never commits the pool beyond its maximum (workers, starting workers and
  spawns in progress together).
\<close>

theorem burst_stays_within_capacity:
  assumes "detect_burst_and_spawn now s = (ts, s')"
  shows "int (length ts) \<le> 20 \<and> (ts \<noteq> [] \<longrightarrow> total_committed s + int (length ts) \<le> lb_max_workers s) \<and>
    (\<forall>t \<in> set ts. \<exists>pr \<in> set (lb_pending s). t = SpawnDispatch (pr_adapter_id pr)) \<and>
    total_committed s' = total_committed s + int (length ts)"
proof -
  define b where "b = lb_max_workers s - total_committed s"
  define as where "as = burst_loop (sort_desc snd (adapter_demand (lb_pending s))) (lb_spawns_in_progress s) b 0"
  have bounds: "int (length as) \<le> min 20 b" "set as \<subseteq> pr_adapter_id ` set (lb_pending s)" if "0 \<le> b"
    using burst_loop_bounds [of 0 b "sort_desc snd (adapter_demand (lb_pending s))" "lb_spawns_in_progress s"] that
      adapter_demand_keys [of "lb_pending s"]
    by (simp_all add: as_def burst_spawn_cap_def sort_desc_def)
  have tc: "total_committed (s\<lparr>lb_recent_arrivals := x\<rparr>) = total_committed s"
    "total_committed (s\<lparr>lb_recent_arrivals := x, lb_spawns_in_progress := lb_spawns_in_progress s @ ys\<rparr>)
      = total_committed s + int (length ys)" for x ys
    by (simp_all add: total_committed_def starting_workers_def pool_workers_def)
  consider "ts = []" "total_committed s' = total_committed s"
    | "0 \<le> b" "ts = map SpawnDispatch as" "total_committed s' = total_committed s + int (length as)"
    using assms by (auto simp: detect_burst_and_spawn_def Let_def tc as_def b_def split: if_split_asm)
  then show ?thesis
  proof cases
    case 2
    with bounds show ?thesis by (auto simp: b_def)
  qed simp
qed

theorem burst_stays_within_capacity_witness:
  "length (fst (detect_burst_and_spawn 2 ex_crowd)) = 8 \<and> total_committed (snd (detect_burst_and_spawn 2 ex_crowd)) = 8"
proof -
  have run: "length (fst (detect_burst_and_spawn 2 ex_crowd)) = 8" "total_committed ex_crowd = 0" by code_simp+
  have "detect_burst_and_spawn 2 ex_crowd =
      (fst (detect_burst_and_spawn 2 ex_crowd), snd (detect_burst_and_spawn 2 ex_crowd))" by simp
  from burst_stays_within_capacity [OF this] run show ?thesis by simp
qed

text \<open>
  The retry after a refused connection reserves its worker twice: the dispatcher has
  already counted the request, and \<open>route_request\<close> counts it again, but the answer takes
  back only one. The worker is left with one active request that does not exist, so it is
  neither chosen by the scheduler nor reaped any more.
\<close>

theorem retry_leaks_reservation:
  assumes "map_of (lb_futures s) fid = Some (F_Result oid)" and "map_of (lb_heap s) oid = Some w"
  shows "fst (route_after_retry_wait fid s) = Some oid \<and>
    map_option wi_active_requests (map_of (lb_heap (send_finish now oid reply (snd (route_after_retry_wait fid s)))) oid)
      = Some (wi_active_requests w) \<and>
    fst (route_after_wait now fid s) = N_Send oid \<and>
    map_option wi_active_requests (map_of (lb_heap (send_finish now oid reply (snd (route_after_wait now fid s)))) oid)
      = Some (wi_active_requests w - 1)"
  using assms
  by (cases reply) (auto simp: route_after_retry_wait_def route_after_wait_def wait_finish_def cancel_future_def
      future_done_def reserve_def upd_worker_def send_finish_def finish_worker_def set_queue_depth_def
      upd_stats_def wake_def Let_def dict_simps split: option.split)

text \<open>
  A request that is given a worker leaves its counter exactly as it found it, on every
  path of the first attempt: a match or a completed swap followed by a send, a failed swap,
  and a worker that is being stopped.
\<close>

theorem reservation_is_returned:
  assumes "map_of (lb_heap s) oid = Some w"
  shows "map_option wi_active_requests (map_of (lb_heap (send_finish now oid reply (reserve oid s))) oid)
      = Some (wi_active_requests w) \<and>
    (wi_status w = W_STOPPING \<longrightarrow> fst (send_begin oid (reserve oid s)) = False \<and>
      map_of (lb_heap (snd (send_begin oid (reserve oid s)))) oid = Some w) \<and>
    map_option wi_active_requests (map_of (lb_heap (snd (snd
       (route_after_swap oid a grow None (swap_begin oid (reserve oid s)))))) oid) = Some (wi_active_requests w) \<and>
    fst (route_after_swap oid a grow None (swap_begin oid (reserve oid s))) = N_Spawn \<and>
    fst (route_after_swap oid a grow (Some ms) (swap_begin oid (reserve oid s))) = N_Send oid \<and>
    map_option wi_active_requests (map_of (lb_heap (send_finish now oid reply (snd (snd
       (route_after_swap oid a grow (Some ms) (swap_begin oid (reserve oid s))))))) oid) = Some (wi_active_requests w)"
  using assms
  by (cases reply) (auto simp: route_after_swap_def swap_finish_def swap_begin_def unreserve_def count_spawned_def
      send_begin_def register_worker_def reserve_def upd_worker_def send_finish_def finish_worker_def
      upd_stats_def wake_def Let_def dict_simps)

text \<open>
  Stopping a worker ends with a removal by worker id. When the worker object was
  already removed (its process died) and its id was given to a new worker, the removal
  takes the new worker out of the pool.
\<close>

theorem stale_stop_removes_new_worker:
  assumes "map_of (lb_heap s) oid = Some w" and "map_of (lb_workers s) (wi_worker_id w) = Some new" and "new \<noteq> oid"
  shows "map_of (lb_workers (stop_end oid s)) (wi_worker_id w) = None"
  using assms by (simp add: stop_end_def remove_worker_def Let_def dict_simps split: option.split)

text \<open>The situation arises: a first worker dies while starting, a second one takes its id.\<close>

text \<open>
  C12. The request rate of an adapter is the number of its requests in the last sixty
  seconds, per second: after any sequence of calls, requests that are recorded and looks at
  one rate or at all of them, the tracker, which forgets old timestamps whenever it looks at
  them and when a list grows long, returns what the full history of the requests gives, and
  the rates of all adapters are those of the adapters that have ever been asked for. The
  readings of the clock must not decrease from call to call (\<open>time.time()\<close> does not promise
  that).
\<close>

theorem tracker_rate_is_history_rate:
  assumes "sorted (map fst cs)" and "\<forall>(t, call) \<in> set cs. t \<le> now"
  shows "fst (ft_get_request_rate now a (tracker_run cs)) = hist_rate now (requests_of cs) a \<and>
    (\<forall>(b, r) \<in> set (fst (ft_all_rates now (tracker_run cs))). r = hist_rate now (requests_of cs) b) \<and>
    set (dict_keys (fst (ft_all_rates now (tracker_run cs)))) = fst ` set (requests_of cs)"
proof -
  have rep: "represents now (tracker_run cs) (requests_of cs)" using assms by (rule tracker_run_represents)
  note rates = ft_all_rates_spec [OF rep order_refl]
  have "dict_keys (fst (ft_all_rates now (tracker_run cs))) = dict_keys (tracker_run cs)"
    using rates by (simp add: comp_def)
  with represents_rate [OF rep order_refl] rates tracker_run_keys [of cs] show ?thesis by auto
qed

theorem tracker_rate_is_history_rate_witness:
  "fst (ft_get_request_rate 75 (Some ''a'')
     (tracker_run [(1, Record_request (Some ''a'')), (20, Record_request (Some ''b'')), (30, Record_request (Some ''a'')),
       (65, Get_rate (Some ''a'')), (66, Record_request (Some ''a'')), (70, Get_all_rates)])) = 2 / 60"
  using tracker_rate_is_history_rate [of "[(1, Record_request (Some ''a'')), (20, Record_request (Some ''b'')),
      (30, Record_request (Some ''a'')), (65, Get_rate (Some ''a'')), (66, Record_request (Some ''a'')), (70, Get_all_rates)]"
      75 "Some ''a''"]
  by (simp add: hist_rate_def hist_times_def requests_of_def)

text \<open>
  The adapter registry of a node agrees with the calls made on it: after any sequence
  of \<open>register\<close> and \<open>unregister\<close> a worker belongs to the adapter of its last registration,
  and the index by adapter lists exactly the workers of that adapter, each once. (For the
  empty adapter the index may keep stale workers.)
\<close>

theorem adapter_registry_last_call:
  "get_adapter_for_worker (ar_run cs) wid = (case map_of (rev cs) wid of Some (Some a) \<Rightarrow> a | _ \<Rightarrow> None) \<and>
   (truthy a \<longrightarrow> (wid \<in> set (get_workers_for_adapter (ar_run cs) a) \<longleftrightarrow> map_of (rev cs) wid = Some (Some a))) \<and>
   distinct (get_workers_for_adapter (ar_run cs) a)"
proof -
  have inv: "ar_inv (ar_run cs)" by (rule ar_run_inv)
  have last: "map_of (ar_worker_to_adapter (ar_run cs)) wid = (case map_of (rev cs) wid of None \<Rightarrow> None | Some c \<Rightarrow> c)"
    by (rule ar_run_worker)
  have "truthy a \<longrightarrow> (wid \<in> set (get_workers_for_adapter (ar_run cs) a) \<longleftrightarrow>
      map_of (ar_worker_to_adapter (ar_run cs)) wid = Some a)"
    using ar_invD(1,2) [OF inv] by blast
  then show ?thesis
    using last ar_invD(3) [OF inv] by (auto simp: get_adapter_for_worker_def dict_get_def split: option.splits)
qed

section \<open>Scheduling policies\<close>

text \<open>
  C13. Every scheduling policy keeps the contract the controller relies on: it routes only
  to a worker of the snapshot that is ready and idle, without a swap only when the worker
  has the adapter; it asks for a spawn only below the maximum, queues only at it, and never
  rejects.
\<close>

theorem scheduler_contract:
  assumes "dict_wf ws"
  shows "case rd_action (fst (sched_route sch a ws wwa r rs n m)) of
      ROUTE \<Rightarrow> (\<exists>wid w. rd_worker_id (fst (sched_route sch a ws wwa r rs n m)) = Some wid \<and>
        map_of ws wid = Some w \<and> is_free w \<and>
        (rd_needs_swap (fst (sched_route sch a ws wwa r rs n m)) \<or> wid \<in> set wwa))
    | SPAWN \<Rightarrow> n < m | QUEUE \<Rightarrow> m \<le> n | REJECT \<Rightarrow> False"
  using any_policy.route_free [OF assms, of sch a wwa r rs n m]
    any_policy.route_match [OF assms, of sch a wwa r rs n m]
    any_policy.route_spawn [of sch a ws wwa r rs n m] any_policy.route_queue [of sch a ws wwa r rs n m]
    any_policy.route_total [of sch a ws wwa r rs n m]
  by (cases "rd_action (fst (sched_route sch a ws wwa r rs n m))"; fastforce)

theorem scheduler_contract_witness:
  "\<exists>w. rd_worker_id (fst (sched_route (LoRant ex_lorant) (Some ''c'') ex_snapshots [] 0 [] 2 2)) = Some 0 \<and>
     map_of ex_snapshots 0 = Some w \<and> is_free w"
proof -
  have wf: "dict_wf ex_snapshots" by (simp add: ex_snapshots_def)
  have "fst (sched_route (LoRant ex_lorant) (Some ''c'') ex_snapshots [] 0 [] 2 2) =
      \<lparr>rd_action = ROUTE, rd_worker_id = Some 0, rd_needs_swap = True, rd_needs_spawn = False\<rparr>"
    by code_simp
  with scheduler_contract [OF wf, of "LoRant ex_lorant" "Some ''c''" "[]" 0 "[]" 2 2] show ?thesis by simp
qed

text \<open>
  C14. LoRant routes to the most recently used free worker that has the adapter, if there
  is one; otherwise it swaps the free worker whose adapter is most overserved; it spawns or
  queues only when no worker is free.
\<close>

theorem lorant_priorities:
  assumes "(k, v) \<in> set ws" and "is_free v"
  shows "\<exists>wid w. (wid, w) \<in> set ws \<and> is_free w \<and>
    rd_action (fst (lorant_route_request s a ws wwa r rs n m)) = ROUTE \<and>
    rd_worker_id (fst (lorant_route_request s a ws wwa r rs n m)) = Some wid \<and>
    (if rd_needs_swap (fst (lorant_route_request s a ws wwa r rs n m))
     then k \<notin> set wwa \<and> overserve_score (ws_adapter_id v) rs (count_workers_per_adapter ws)
            \<le> overserve_score (ws_adapter_id w) rs (count_workers_per_adapter ws)
     else wid \<in> set wwa \<and> (k \<in> set wwa \<longrightarrow> ws_idle_time w \<le> ws_idle_time v))"
proof (cases rule: lorant_route_cases [of ws wwa s a r rs n m])
  case (matched wid w)
  with assms show ?thesis by (intro exI [of _ wid] exI [of _ w]) auto
next
  case (swapped wid w)
  with assms show ?thesis by (intro exI [of _ wid] exI [of _ w]) auto
qed (use assms in auto)

theorem lorant_priorities_witness:
  "rd_worker_id (fst (lorant_route_request ex_lorant (Some ''a'') ex_snapshots [0] 0 [] 2 2)) = Some 0"
proof -
  have "(0, ex_idle) \<in> set ex_snapshots" "is_free ex_idle"
    by (simp_all add: ex_snapshots_def is_free_def ex_idle_def)
  then obtain wid w where "(wid, w) \<in> set ex_snapshots" "is_free w"
    "rd_worker_id (fst (lorant_route_request ex_lorant (Some ''a'') ex_snapshots [0] 0 [] 2 2)) = Some wid"
    using lorant_priorities [of 0 ex_idle ex_snapshots ex_lorant "Some ''a''" "[0]" 0 "[]" 2 2] by blast
  then show ?thesis by (auto simp: ex_snapshots_def is_free_def ex_busy_def ex_idle_def)
qed

text \<open>
  The no-swap variant is LoRant with the swap step removed: it decides the same, except
  that where LoRant swaps it spawns below the maximum and queues at it.
\<close>

theorem noswap_is_lorant_without_swaps:
  "fst (noswap_route_request s a ws wwa r rs n m) =
    (if rd_needs_swap (fst (lorant_route_request s a ws wwa r rs n m))
     then mk_decision (if n < m then SPAWN else QUEUE)
     else fst (lorant_route_request s a ws wwa r rs n m)) \<and>
   noswap_get_proactive_rebalances s ws rs n m = []"
proof -
  let ?free = "filter (\<lambda>(wid, w). is_free w) ws"
  let ?best = "py_min (\<lambda>(wid, w). ws_idle_time w) (filter (\<lambda>(wid, w). wid \<in> set wwa) ?free)"
  let ?victim = "py_max (\<lambda>(wid, w). overserve_score (ws_adapter_id w) rs (count_workers_per_adapter ws)) ?free"
  show ?thesis
    by (cases ?best; cases ?victim)
      (simp_all only: noswap_route_request_def lorant_route_request_def noswap_get_proactive_rebalances_def Let_def
        mk_decision_def option.case prod.case fst_conv if_distrib [of fst] routing_decision.simps
        split: if_split prod.split, simp_all)
qed

text \<open>
  Reaping never takes the last worker of an adapter that is still in demand, unless
  it has been idle four times as long as the delay.
\<close>

theorem reaping_keeps_active_adapters:
  assumes "dict_wf ws" and "truthy a" and "0 < dict_get (lr_adapter_rates s) a 0"
    and "\<forall>(wid, w) \<in> set ws. ws_adapter_id w = a \<longrightarrow> ws_idle_time w < d * 4"
    and "1 \<le> holders ws a"
  shows "1 \<le> holders (survivors (lorant_select_workers_to_reap s ws mn d) ws) a"
  using lorant_reap_keeps_adapter [OF assms] .

text \<open>
  C15. Proactive rebalancing swaps at most two workers at a time, different ones, each ready
  and idle, each to another adapter that has fewer workers than its target; and no adapter
  in demand that has a worker is left without one.
\<close>

theorem rebalances_are_safe:
  assumes "dict_wf ws"
  shows "length (get_proactive_rebalances s ws rs n m) \<le> 2 \<and>
    distinct (map fst (get_proactive_rebalances s ws rs n m)) \<and>
    (\<forall>(wid, t) \<in> set (get_proactive_rebalances s ws rs n m). \<exists>w target. (wid, w) \<in> set ws \<and>
       ws_status w = ''ready'' \<and> ws_active_requests w \<le> 0 \<and> ws_adapter_id w \<noteq> t \<and>
       (t, target) \<in> set (compute_demand_targets s rs n m) \<and> holders ws t < target) \<and>
    (truthy a \<longrightarrow> 0 < dict_get rs a 0 \<longrightarrow> 1 \<le> holders ws a \<longrightarrow>
       1 \<le> holders (apply_swaps (get_proactive_rebalances s ws rs n m) ws) a)"
proof -
  have "length (get_proactive_rebalances s ws rs n m) \<le> 2 \<and>
    distinct (map fst (get_proactive_rebalances s ws rs n m)) \<and>
    (\<forall>(wid, t) \<in> set (get_proactive_rebalances s ws rs n m). \<exists>w target. (wid, w) \<in> set ws \<and>
       ws_status w = ''ready'' \<and> ws_active_requests w \<le> 0 \<and> ws_adapter_id w \<noteq> t \<and>
       (t, target) \<in> set (compute_demand_targets s rs n m) \<and> holders ws t < target)"
  proof (cases rule: proactive_rebalances_cases [of s ws rs n m])
    case (loop sw under)
    then have "dict_wf sw"
      and "set sw \<subseteq> {(wid, w). (wid, w) \<in> set ws \<and> ws_status w = ''ready'' \<and> ws_active_requests w \<le> 0}"
      using assms by (auto simp: distinct_map_filter)
    with loop(1,3) rebalance_loop_length [of 0 rs sw under] rebalance_loop_distinct [of sw rs under _ 0]
    show ?thesis by (fastforce dest: rebalance_loop_in)
  qed simp
  with rebalances_kept [OF assms] show ?thesis by blast
qed

theorem rebalances_are_safe_witness:
  "get_proactive_rebalances ex_lorant [(0, ex_idle), (1, ex_idle\<lparr>ws_worker_id := 1\<rparr>)] [(Some ''a'', 1), (Some ''b'', 9)] 2 4
     = [(0, Some ''b'')] \<and>
   1 \<le> holders (apply_swaps (get_proactive_rebalances ex_lorant [(0, ex_idle), (1, ex_idle\<lparr>ws_worker_id := 1\<rparr>)]
     [(Some ''a'', 1), (Some ''b'', 9)] 2 4) [(0, ex_idle), (1, ex_idle\<lparr>ws_worker_id := 1\<rparr>)]) (Some ''a'')"
proof -
  have "get_proactive_rebalances ex_lorant [(0, ex_idle), (1, ex_idle\<lparr>ws_worker_id := 1\<rparr>)]
      [(Some ''a'', 1), (Some ''b'', 9)] 2 4 = [(0, Some ''b'')]" by code_simp
  then show ?thesis
    using rebalances_are_safe [of "[(0, ex_idle), (1, ex_idle\<lparr>ws_worker_id := 1\<rparr>)]" ex_lorant
        "[(Some ''a'', 1), (Some ''b'', 9)]" 2 4 "Some ''a''"]
    by (simp add: truthy_def dict_get_def ex_idle_def)
qed

text \<open>
  Proactive spawning asks for at most forty workers, for different adapters that are
  below their target, and together with the workers and the spawns in flight it stays
  within the maximum.
\<close>

theorem proactive_spawns_within_capacity:
  assumes "dict_wf rs"
  shows "length (get_proactive_spawns s ws rs n m fl) \<le> 40 \<and>
    distinct (get_proactive_spawns s ws rs n m fl) \<and>
    (get_proactive_spawns s ws rs n m fl \<noteq> [] \<longrightarrow>
      n + fl + int (length (get_proactive_spawns s ws rs n m fl)) \<le> m) \<and>
    (\<forall>a \<in> set (get_proactive_spawns s ws rs n m fl). \<exists>target.
       (a, target) \<in> set (compute_demand_targets s rs (int (length (filter is_busy (dict_values ws)))) m) \<and>
       holders ws a < target)"
proof (cases rule: proactive_spawns_cases [of s ws rs n m fl])
  case (loop ts)
  have "distinct (dict_keys (sort_desc (\<lambda>(aid, target). target - dict_get (count_workers_per_adapter ws) aid 0) ts))"
    using demand_targets_wf [OF assms] by (simp add: loop(1))
  then have "distinct (get_proactive_spawns s ws rs n m fl)"
    by (simp only: loop(2) spawn_loop_distinct append_Nil)
  with spawn_loop_bounds [of "[]" "n + fl" m] show ?thesis
    unfolding loop(1) [symmetric] using spawn_loop_in [of _ "count_workers_per_adapter ws"]
    by (fastforce simp: loop(2))
qed simp

text \<open>
  The demand targets name exactly the adapters with a positive rate and give each at
  least one worker. Their sum can exceed the maximum, but by at most one per adapter.
\<close>

theorem demand_targets_bounds:
  assumes "0 \<le> m"
  shows "(\<forall>(a, t) \<in> set (compute_demand_targets s rs busy m). 1 \<le> t) \<and>
    (0 < sum_list (dict_values rs) \<longrightarrow>
       set (dict_keys (compute_demand_targets s rs busy m)) = {a. \<exists>r. (a, r) \<in> set rs \<and> 0 < r}) \<and>
    sum_list (dict_values (compute_demand_targets s rs busy m))
      \<le> m + int (length (filter (\<lambda>(a, r). 0 < r) rs))"
  using demand_targets_ge demand_targets_keys demand_targets_complete demand_targets_sum [OF assms]
  by fast

text \<open>Three adapters on a pool of two: the "clamped" total is three.\<close>

section \<open>The global controller\<close>

text \<open>
  C16. Requests are conserved: in every reachable state the accepted requests are those still
  pending plus those answered, failed or aborted; the pending counter is the number of
  requests in flight, and the completed and failed counters count the replies given.
\<close>

theorem requests_are_conserved:
  assumes "reachable cfg mc p y"
  shows "g_pending_requests (y_controller y) = int (length (y_tasks y)) \<and>
    g_completed_requests (y_controller y) = int (length (filter is_answered (y_replies y))) \<and>
    g_failed_requests (y_controller y) = int (length (filter is_failed (y_replies y))) \<and>
    g_total_requests (y_controller y) =
      int (length (y_tasks y)) + int (length (filter accepted (y_replies y)))"
  using reachable_counts [OF assms] by (simp add: counts_inv_def Let_def)

theorem requests_are_conserved_witness:
  "g_total_requests (y_controller ex_y1) = 1 \<and> g_pending_requests (y_controller ex_y1) = 1"
  using requests_are_conserved [OF ex_y1_reachable] ex_y1_state by simp

text \<open>
  C17. The in-flight count of a node is exactly the number of requests that have taken it and
  are not finished; a request takes different nodes, one per attempt, and makes at most
  the configured number of attempts.
\<close>

theorem inflight_is_exact:
  assumes "reachable cfg mc p y"
  shows "dict_get (g_inflight_per_node (y_controller y)) nid 0 =
      int (length (filter (\<lambda>t. nid \<in> set (t_tried t)) (dict_values (y_tasks y)))) \<and>
    (\<forall>t \<in> set (dict_values (y_tasks y)). distinct (t_tried t) \<and>
       int (t_attempt t) < gc_forward_max_attempts cfg \<and>
       length (t_tried t) = t_attempt t + (case t_phase t of FORWARD _ \<Rightarrow> 1 | _ \<Rightarrow> 0))"
proof -
  have sum: "sum_list (map (holds_node nid) ts) = int (length (filter (\<lambda>t. nid \<in> set (t_tried t)) ts))" for ts
    by (induction ts) (simp_all add: holds_node_def)
  have inv: "counts_inv cfg y" using assms by (rule reachable_counts)
  then have "inflight_of (y_controller y) nid = sum_list (map (holds_node nid) (dict_values (y_tasks y)))"
    by (simp add: counts_inv_def Let_def del: map_map)
  moreover have "distinct (t_tried t) \<and> int (t_attempt t) < gc_forward_max_attempts cfg \<and>
      length (t_tried t) = t_attempt t + (case t_phase t of FORWARD _ \<Rightarrow> 1 | _ \<Rightarrow> 0)"
    if "t \<in> set (dict_values (y_tasks y))" for t
  proof -
    have "task_ok cfg t" using inv that by (simp add: counts_inv_def Let_def del: set_map)
    then show ?thesis by (cases "t_phase t") (simp_all add: task_ok_def)
  qed
  ultimately show ?thesis unfolding inflight_of_def sum by blast
qed

theorem inflight_is_exact_witness:
  "dict_get (g_inflight_per_node (y_controller ex_y2)) ''n'' 0 = 1"
proof -
  have "length (filter (\<lambda>t. ''n'' \<in> set (t_tried t)) (dict_values (y_tasks ex_y2))) = 1" by code_simp
  then show ?thesis using inflight_is_exact [OF ex_y2_reachable, of "''n''"] by simp
qed

text \<open>
  C18. Every reachable controller state is sound: the registry's adapter index, its adapter
  table and the nodes' loaded adapters agree, every breaker's counters fit its state, the
  global latency buffer has at most as many entries as its limit, and so has the latency
  buffer of every node (for limits that are configured positive: a slice with a limit of 0
  keeps the whole list).
\<close>

theorem controller_stays_sound:
  assumes "reachable cfg mc p y"
  shows "registry_inv (g_registry (y_controller y)) \<and>
    (\<forall>b \<in> set (dict_values (g_node_circuits (y_controller y))). breaker_inv b) \<and>
    (0 < gc_latency_buffer_max cfg \<longrightarrow>
      int (length (g_latency_buffer (y_controller y))) \<le> gc_latency_buffer_max cfg) \<and>
    (0 < gc_per_node_latency_buffer_max cfg \<longrightarrow>
      (\<forall>nid buf. map_of (g_per_node_latency (y_controller y)) nid = Some buf \<longrightarrow>
        int (length buf) \<le> gc_per_node_latency_buffer_max cfg))"
proof -
  have "g_config (y_controller y) = cfg"
    using reachable_counts [OF assms] by (simp add: counts_inv_def Let_def)
  with reachable_sound [OF assms] show ?thesis
    by (auto simp: sound_def circuits_ok_def buffers_ok_def dict_get_def split: option.splits simp del: set_map)
qed

theorem controller_stays_sound_witness:
  "registry_inv (g_registry (y_controller ex_y2)) \<and> length (rg_nodes (g_registry (y_controller ex_y2))) = 1"
  using controller_stays_sound [OF ex_y2_reachable] ex_y2_state by simp

text \<open>
  C19. A placement policy chooses only among the registered nodes that are active and serve
  the adapter's base model, finds one whenever such a node has capacity, and picks only
  idle nodes for a launch; so no node is both forwarded to and launched.
\<close>

theorem placement_contract:
  assumes "registry_inv r"
  shows "(case fst (policy_select r mc a i p) of
      Some n \<Rightarrow> map_of (rg_nodes r) (ni_node_id n) = Some n \<and> ni_status n = ACTIVE \<and>
        (truthy (placement_base_model mc a) \<longrightarrow> ni_base_model n = placement_base_model mc a)
    | None \<Rightarrow> \<not> (\<exists>n \<in> set (dict_values (rg_nodes r)). serves mc a n \<and> has_capacity n)) \<and>
    (\<forall>n. policy_scale_up r b p = Inr (Some n) \<longrightarrow>
       map_of (rg_nodes r) (ni_node_id n) = Some n \<and> ni_status n = IDLE)"
proof (intro conjI allI impI)
  show "case fst (policy_select r mc a i p) of
      Some n \<Rightarrow> map_of (rg_nodes r) (ni_node_id n) = Some n \<and> ni_status n = ACTIVE \<and>
        (truthy (placement_base_model mc a) \<longrightarrow> ni_base_model n = placement_base_model mc a)
    | None \<Rightarrow> \<not> (\<exists>n \<in> set (dict_values (rg_nodes r)). serves mc a n \<and> has_capacity n)"
  proof (cases "fst (policy_select r mc a i p)")
    case None
    then show ?thesis using any_placement.select_complete [of _ r mc a i p] by auto
  next
    case (Some n)
    then show ?thesis using any_placement.select_registered [OF assms Some] by (simp add: serves_def)
  qed
next
  fix n
  assume "policy_scale_up r b p = Inr (Some n)"
  then show "map_of (rg_nodes r) (ni_node_id n) = Some n" "ni_status n = IDLE"
    using any_placement.scale_up_registered [OF assms] by blast+
qed

theorem placement_contract_witness:
  "\<exists>n. fst (policy_select (g_registry ex_c1) (Some ex_models) ''a'' [] LeastLoaded) = Some n \<and> ni_status n = ACTIVE"
proof -
  have "registry_inv (g_registry ex_c1)"
    using reachable_sound [OF ex_c1_reachable] by (simp add: sound_def)
  moreover have "fst (policy_select (g_registry ex_c1) (Some ex_models) ''a'' [] LeastLoaded) \<noteq> None" by code_simp
  ultimately show ?thesis
    using placement_contract [of "g_registry ex_c1" "Some ex_models" "''a''" "[]" LeastLoaded] by auto
qed

text \<open>
  A heartbeat sets the placement of a node exactly: afterwards the index lists the node
  for the adapters it reported and for no other, every other node is listed as before, and
  a lookup by adapter returns exactly the active nodes that have it loaded.
\<close>

theorem heartbeat_sets_placement:
  assumes "registry_inv r" and "map_of (rg_nodes r) nid = Some n"
  shows "(m \<in> set (index (update_node_heartbeat now nid h r) a) \<longleftrightarrow>
      (if m = nid then a \<in> set (hb_loaded_adapters h) else m \<in> set (index r a))) \<and>
    set (get_nodes_for_adapter (update_node_heartbeat now nid h r) a) =
      {v. \<exists>k. map_of (rg_nodes (update_node_heartbeat now nid h r)) k = Some v \<and> ni_status v = ACTIVE \<and>
        a \<in> set (ni_loaded_adapters v)}"
  using update_node_heartbeat_index [OF assms, of now h a]
    get_nodes_for_adapter_set [OF update_node_heartbeat_inv [OF assms(1)], of now nid h a]
  by (auto split: if_split_asm)

text \<open>
  C20. A health-monitor pass never leaves a stale node FAILED: marking the node stamps a new
  heartbeat on it, and the recovery in the same pass takes that for a sign of life. A node
  that has been silent for any time longer than the timeout ends the pass ACTIVE (when its
  last heartbeat named an aggregator process) or IDLE, with a fresh heartbeat.
\<close>

theorem health_pass_revives_stale_nodes:
  assumes "registry_inv (g_registry s)" and "map_of (rg_nodes (g_registry s)) nid = Some n"
    and "ni_status n \<in> {ACTIVE, DRAINING}" and "gc_heartbeat_timeout (g_config s) < now - ni_last_heartbeat n"
    and "0 < gc_heartbeat_timeout (g_config s)"
  shows "\<exists>m. map_of (rg_nodes (g_registry (health_monitor_pass now s))) nid = Some m \<and> ni_last_heartbeat m = now \<and>
    ni_status m = (case ni_aggregator_pid n of Some pid \<Rightarrow> if pid \<noteq> 0 then ACTIVE else IDLE | None \<Rightarrow> IDLE)"
proof -
  have "ni_node_id n = nid" using assms(1,2) by (simp add: registry_inv_def nodes_ok_def)
  then have stale: "nid \<in> ni_node_id ` set (get_stale_nodes now (gc_heartbeat_timeout (g_config s)) (g_registry s))"
    using assms(2-4) by (force simp: get_stale_nodes_def dest: map_of_in_values)
  then have "map_of (rg_nodes (g_registry (mark_stale now s))) nid
      = Some (n\<lparr>ni_status := FAILED, ni_last_heartbeat := now\<rparr>)"
    using assms(2) by (simp add: mark_stale_def fail_nodes_lookup)
  with sync_circuits_lookup [of "g_registry (mark_stale now s)" "g_node_circuits s" nid]
  obtain c where "map_of (rg_nodes (g_registry (sync_circuits (mark_stale now s)))) nid
      = Some (n\<lparr>ni_status := FAILED, ni_last_heartbeat := now, ni_circuit_state := c\<rparr>)"
    by (auto simp: sync_circuits_def mark_stale_def)
  then show ?thesis
    using assms(5) by (simp add: health_monitor_pass_def recover_failed_lookup recover_node_def sync_circuits_def mark_stale_def)
qed

theorem health_pass_revives_stale_nodes_witness:
  "\<exists>m. map_of (rg_nodes (g_registry (health_monitor_pass 1000 ex_c1))) ''n'' = Some m \<and> ni_status m = ACTIVE"
proof -
  have inv: "registry_inv (g_registry ex_c1)"
    using reachable_sound [OF ex_c1_reachable] by (simp add: sound_def)
  have "map_option (\<lambda>n. (ni_status n, ni_last_heartbeat n, ni_aggregator_pid n)) (map_of (rg_nodes (g_registry ex_c1)) ''n'')
      = Some (ACTIVE, 2, Some 7)" "gc_heartbeat_timeout (g_config ex_c1) = 30" by code_simp+
  then obtain n where "map_of (rg_nodes (g_registry ex_c1)) ''n'' = Some n" "ni_status n = ACTIVE"
    "ni_last_heartbeat n = 2" "ni_aggregator_pid n = Some 7" "gc_heartbeat_timeout (g_config ex_c1) = 30" by blast
  with health_pass_revives_stale_nodes [OF inv, of "''n''" n 1000] show ?thesis by auto
qed

text \<open>
  The default scaler stops only drainable nodes, never below the floor; it launches
  nothing without idle nodes. Its launches keep within one node of the ceiling - the launch
  for the queue is decided on the count before the launches for the floor.
\<close>

theorem scaler_bounds:
  "set (map sd_node_id (scale_downs (make_scaling_decisions t s ds))) \<subseteq> Some ` set ds \<and>
   min (sn_num_active_nodes s) (sn_min_active_nodes s)
     \<le> sn_num_active_nodes s - int (length (scale_downs (make_scaling_decisions t s ds))) \<and>
   sn_num_active_nodes s + int (length (scale_ups (make_scaling_decisions t s ds)))
     \<le> max (sn_num_active_nodes s) (max (sn_min_active_nodes s) (sn_max_active_nodes s - 1) + 1) \<and>
   (sn_num_idle_nodes s \<le> 0 \<longrightarrow> scale_ups (make_scaling_decisions t s ds) = [])"
  using default_scaler.downs_sub [of _ t s ds] default_scaler.downs_floor [of s t ds]
    default_scaler.ups_ceiling [of s t ds] default_scaler.ups_none [of s t ds] by fastforce

text \<open>With floor and ceiling two and three idle nodes, three launches are decided.\<close>

section \<open>Resilience\<close>

text \<open>
  A circuit breaker trips exactly on a run of consecutive failures as long as its
  threshold: while no permission is asked, it is OPEN if such a run occurred and CLOSED
  otherwise; and in every state it can reach its counters fit its state.
\<close>

theorem breaker_trips_on_streak:
  assumes "0 < bc_failure_threshold cfg" and "\<forall>c \<in> set cs. \<forall>t. c \<noteq> Acquire t"
  shows "cb_state (breaker_run (breaker_init name cfg) cs) =
    (if has_streak (nat (bc_failure_threshold cfg)) cs then OPEN else CLOSED)"
  using breaker_trip_state [OF assms] by blast

text \<open>
  C21. A retried call returns the first success; a permanent error ends it at once; when
  every attempt fails it raises the last error. It never sleeps after the last attempt.
\<close>

theorem retry_outcome:
  assumes "k < nat (rc_max_attempts cfg)"
    and "\<forall>i < k. \<exists>e. func i = Inl e \<and> classifier e \<noteq> PERMANENT"
    and "case func k of Inr v \<Rightarrow> True
      | Inl e \<Rightarrow> classifier e = PERMANENT \<or> Suc k = nat (rc_max_attempts cfg)"
  shows "fst (retry_execute cfg classifier rnd func) = func k \<and>
    length (snd (retry_execute cfg classifier rnd func)) < nat (rc_max_attempts cfg)"
proof -
  have "length (snd (retry_execute cfg classifier rnd func)) < nat (rc_max_attempts cfg)"
    unfolding retry_execute_def using assms(1) by (intro retry_loop_delays [THEN conjunct1]) auto
  moreover have "fst (retry_execute cfg classifier rnd func) = func k"
  proof (cases "func k")
    case (Inr v)
    then show ?thesis
      using retry_loop_success [of 0 k "nat (rc_max_attempts cfg)" func v classifier] assms(1,2)
      by (simp add: retry_execute_def)
  next
    case (Inl e)
    show ?thesis
    proof (cases "classifier e = PERMANENT")
      case True
      then show ?thesis
        using retry_loop_permanent [of k "nat (rc_max_attempts cfg)" func 0 e classifier] assms(1,2) Inl
        by (simp add: retry_execute_def)
    next
      case False
      with assms(3) Inl have last: "Suc k = nat (rc_max_attempts cfg)" by simp
      have "\<forall>i < nat (rc_max_attempts cfg). \<exists>e. func (0 + i) = Inl e \<and> classifier e \<noteq> PERMANENT"
        using assms(2) Inl False last by (metis add_0 less_Suc_eq)
      from retry_loop_exhausted [OF this] last [symmetric] show ?thesis
        by (simp add: retry_execute_def)
    qed
  qed
  ultimately show ?thesis by blast
qed

theorem retry_outcome_witness:
  "fst (retry_execute default_retry_config classify_error (\<lambda>_. 0)
     (\<lambda>i. if i = 0 then Inl ConnectionRefusedError else Inr (7::nat))) = Inr 7"
  using retry_outcome [of 1 default_retry_config "\<lambda>i. if i = 0 then Inl ConnectionRefusedError else Inr (7::nat)"
      classify_error "\<lambda>_. 0"]
  by (simp add: default_retry_config_def)

section \<open>Configuration, statistics, caches\<close>

text \<open>
  Writing a model configuration to a dictionary and reading it back gives the same
  base models and node assignments, with the adapter lookup rebuilt from the base models:
  an adapter belongs to the last base model that lists it.
\<close>

theorem model_config_round_trip:
  assumes "dict_wf (cm_base_models c)"
  shows "\<exists>c'. model_config_from_dict (model_config_to_dict c) = Inr c' \<and>
    cm_base_models c' = cm_base_models c \<and> cm_node_assignments c' = cm_node_assignments c \<and>
    (\<forall>bs b cfg rest a. cm_base_models c = bs @ (b, cfg) # rest \<longrightarrow> a \<in> set (bm_adapters cfg) \<longrightarrow>
       (\<forall>(b', cfg') \<in> set rest. a \<notin> set (bm_adapters cfg')) \<longrightarrow> get_base_model_for_adapter c' a = Some b)"
proof -
  have "raw_bases (map (\<lambda>(name, cfg). (name, base_to_dict cfg)) (cm_base_models c)) [] = Inr (cm_base_models c)"
    using raw_bases_to_dict [of "[]" "cm_base_models c"] assms by simp
  then have "model_config_from_dict (model_config_to_dict c) =
      Inr ((mk_model_config (cm_base_models c))\<lparr>cm_node_assignments := cm_node_assignments c\<rparr>)"
    by (simp add: model_config_from_dict_def model_config_to_dict_def)
  then show ?thesis
    by (auto simp: mk_model_config_def build_reverse_lookup_def get_base_model_for_adapter_def
        reverse_lookup_last_wins)
qed

text \<open>
  In a generated benchmark configuration with distinct model names every adapter finds
  its base model: adapter number \<open>i * k + j\<close> (with \<open>j < k\<close>) belongs to base model \<open>i\<close>.
\<close>

theorem benchmark_adapter_lookup:
  assumes "distinct (map short_name (take n (extend_ids (opt_default ids [dflt]) n)))" and "i < n" and "j < k"
  shows "get_base_model_for_adapter (create_benchmark_config dflt n k ids pre) (pre @ str_nat (i * k + j))
    = Some (short_name (extend_ids (opt_default ids [dflt]) n ! i))"
proof -
  let ?ids = "extend_ids (opt_default ids [dflt]) n"
  let ?g = "benchmark_base ?ids k pre"
  have len: "n \<le> length ?ids" by (simp add: length_extend_ids)
  have "map short_name (take n ?ids) = map (\<lambda>i. short_name (?ids ! i)) [0..<n]"
    using len by (intro nth_equalityI) auto
  then have dist: "distinct (map (\<lambda>i. short_name (?ids ! i)) [0..<n])" using assms(1) by simp
  have "foldl (\<lambda>d i. case ?g i of (k, v) \<Rightarrow> AList.update k v d) [] [0..<n] = [] @ map ?g [0..<n]"
    by (rule benchmark_bases_fold [OF dist]) (simp_all add: benchmark_base_def Let_def)
  moreover have "map ?g [0..<n] = map ?g [0..<i] @ ?g i # map ?g [Suc i..<n]"
    using assms(2) upt_add_eq_append [of 0 i "n - i"] by (simp add: upt_conv_Cons)
  ultimately have bases: "foldl (\<lambda>d i. case ?g i of (k, v) \<Rightarrow> AList.update k v d) [] [0..<n]
      = map ?g [0..<i] @ (fst (?g i), snd (?g i)) # map ?g [Suc i..<n]" by simp
  have other: "pre @ str_nat (i * k + j) \<notin> set (bm_adapters (snd (?g m)))" if "i < m" for m
  proof -
    have "i * k + j \<noteq> m * k + j'" for j'
    proof -
      have "Suc i * k \<le> m * k" using that by (intro mult_le_mono1) simp
      then show ?thesis using assms(3) by simp
    qed
    then show ?thesis by (auto simp: benchmark_base_def Let_def str_nat_inj)
  qed
  have "map_of (reverse_lookup_from (map ?g [0..<i] @ (fst (?g i), snd (?g i)) # map ?g [Suc i..<n]) [])
      (pre @ str_nat (i * k + j)) = Some (fst (?g i))"
  proof (rule reverse_lookup_last_wins)
    show "pre @ str_nat (i * k + j) \<in> set (bm_adapters (snd (?g i)))"
      using assms(3) by (auto simp: benchmark_base_def Let_def)
    show "\<forall>(b, c) \<in> set (map ?g [Suc i..<n]). pre @ str_nat (i * k + j) \<notin> set (bm_adapters c)"
    proof clarify
      fix b c
      assume "(b, c) \<in> set (map ?g [Suc i..<n])" and a: "pre @ str_nat (i * k + j) \<in> set (bm_adapters c)"
      then have "(b, c) \<in> ?g ` set [Suc i..<n]" by (simp only: set_map)
      then obtain m where "(b, c) = ?g m" "i < m" by (rule imageE) simp
      with other [of m] a show False by (metis snd_conv)
    qed
  qed
  moreover have "fst (?g i) = short_name (?ids ! i)" by (simp add: benchmark_base_def Let_def)
  ultimately show ?thesis
    by (simp only: create_benchmark_config_def Let_def bases mk_model_config_def build_reverse_lookup_def
        get_base_model_for_adapter_def) simp
qed

text \<open>
  The latency percentiles never index past the buffer: they are computed for every
  buffer, are values of it, and are ordered.
\<close>

theorem percentiles_total:
  "\<exists>pc. percentiles_from buffer = Inr pc \<and> pc_count pc = length buffer \<and>
    (buffer \<noteq> [] \<longrightarrow> {pc_p50 pc, pc_p90 pc, pc_p99 pc} \<subseteq> set buffer \<and>
       pc_p50 pc \<le> pc_p90 pc \<and> pc_p90 pc \<le> pc_p99 pc)"
proof (cases "buffer = []")
  case False
  let ?n = "length buffer" and ?at = "\<lambda>q. nat (py_int (of_nat (length buffer) * q))"
  have lt: "?at q < ?n" if "0 \<le> q" "q < 1" for q using percentile_index [OF that, of ?n] False by simp
  have run: "percentiles_from buffer = Inr \<lparr>pc_p50 = sort buffer ! ?at (1/2), pc_p90 = sort buffer ! ?at (9/10),
      pc_p99 = sort buffer ! ?at (99/100), pc_count = ?n\<rparr>"
    using False lt [of "1/2"] lt [of "9/10"] lt [of "99/100"]
    by (simp add: percentiles_from_def py_nth_def Let_def median_index del: times_divide_eq_right mult_1_right)
  have mem: "sort buffer ! ?at q \<in> set buffer" if "0 \<le> q" "q < 1" for q
    using nth_mem [of "?at q" "sort buffer"] lt [OF that] by simp
  have mono: "sort buffer ! ?at p \<le> sort buffer ! ?at q" if "0 \<le> p" "p \<le> q" "q < 1" for p q
    using that lt [of q] percentile_index_mono [of p q ?n] by (intro sorted_nth_mono) auto
  show ?thesis
    unfolding run using mem [of "1/2"] mem [of "9/10"] mem [of "99/100"]
      mono [of "1/2" "9/10"] mono [of "9/10" "99/100"] by simp
qed (simp add: percentiles_from_def)

text \<open>
  The idempotency cache: a finished request with a key is answered from the cache for
  the next hour without being counted, and the cleanup drops exactly the entries that are
  older than that.
\<close>

theorem idempotent_replies:
  assumes "truthy (t_key t)" and "later - now < 3600" and "t_phase t = FORWARD nid"
    and "request_step now (ForwardReply ms (Inr r)) t s = Some (prog, s')"
  shows "prog = Finished (Answered r) \<and>
    handle_arrival later a (t_key t) s' = (Finished (Cached r), s') \<and>
    (dict_wf (g_idempotency_cache s') \<longrightarrow>
      map_of (g_idempotency_cache (idempotency_cleanup later s')) k =
       (case map_of (g_idempotency_cache s') k of
          Some (ts, v) \<Rightarrow> if 3600 < later - ts then None else Some (ts, v) | None \<Rightarrow> None))"
proof -
  have run: "(prog, s') = forward_finish now ms (Inr r) t nid s"
    using assms(3,4) by (simp add: request_step.simps)
  then have "prog = Finished (Answered r)" and "map_of (g_idempotency_cache s') (the (t_key t)) = Some (now, r)"
    using assms(1) by (simp_all add: forward_finish_def Let_def finish_def request_finally_def dict_simps)
  then show ?thesis
    using assms(1,2) by (simp add: handle_arrival_def cached_reply_def idempotency_ttl_def idempotency_cleanup_lookup)
qed

text \<open>
  SLO attainment is measured over all submitted requests: a failed request, and a
  success without a positive first-token time, is a miss; tokens count only for requests
  that met the target; a target that is not positive is an error.
\<close>

theorem slo_metrics_counts_all:
  "slo_metrics env samples duration (Some slo) =
    (if slo \<le> 0 then Inl ValueError
     else Inr \<lparr>sr_slo_s = slo, sr_met_requests = int (length (filter (meets_slo slo) samples)),
       sr_attainment = (if samples = [] then 0
         else py_round_digits 4 (of_nat (length (filter (meets_slo slo) samples)) / of_nat (length samples))),
       sr_effective_throughput = (if 0 < duration
         then py_round_digits 1 (of_int (sum_list (map (\<lambda>(_, _, tokens). max 0 tokens) (filter (meets_slo slo) samples))) / duration)
         else 0)\<rparr>)"
  by (simp add: slo_metrics_def slo_loop_eq Let_def case_prod_unfold)

section \<open>The worker\<close>





text \<open>
  C24. The key/value cache of a worker keeps its blocks partitioned between the active slots
  and the free list, free blocks zeroed, and it never runs out: in every reachable state in
  which tokens are generated, with no more active slots than the cache has been built for,
  a step that meets no error of the computation does not fail. Every finished request has a
  token, stays within the longest sequence, and ends in the end-of-sequence token exactly
  when that is the reason given. (Hypotheses: the tokenizer yields at least one token and
  requests ask for at least one, as the HTTP handler sees to; the connection stands, as for
  C23.)
\<close>

theorem cache_never_runs_out:
  assumes "kv = kv_init layers heads hdim bsize mslots (ec_max_seq_len cfg)"
    and "0 < bsize" "0 \<le> mslots" "2 \<le> ec_max_seq_len cfg"
    and "slot_pool_ok p" "0 \<le> w" "\<forall>s. get_slot_owner s p \<noteq> w"
    and "run_ok cfg evs (engine_init w kv p)" "\<forall>ev \<in> set evs. cache_event ev"
    and "e = engine_run cfg evs (engine_init w kv p)"
  shows "kv_partition (en_kv e) \<and> kv_clean (en_kv e) \<and>
    fst ` set (kv_block_tables (en_kv e)) \<subseteq> active_keys e \<and>
    (\<forall>(i, out) \<in> set (en_settled e). outcome_ok cfg out) \<and>
    (en_pc e = Generating \<and> int (length (en_active e)) \<le> kv_max_slots (en_kv e) \<and> gi_error gi = No_error \<longrightarrow>
       en_pc (engine_step cfg (Generate gi) e) \<noteq> Failing)"
proof -
  note slots = engine_init_slots(1) [OF assms(5-7)]
  have init: "engine_cache_ok cfg (engine_init w kv p)"
    unfolding assms(1)
    by (rule engine_init_cache) (use assms(2-4) slots [unfolded assms(1)] kv_init_inv in \<open>auto simp: kv_init_def Let_def ceil_div_nonneg\<close>)
  have ok: "engine_cache_ok cfg e" using engine_run_cache [OF init slots assms(8,9)] assms(10) by simp
  then have base: "cache_base cfg e" and out: "outcomes_ok cfg e"
    and act: "en_pc e \<noteq> Failing \<Longrightarrow> cache_active cfg (if en_pc e = Completing then in_limit else running) e"
    by (auto simp: engine_cache_ok_def)
  have "en_pc (engine_step cfg (Generate gi) e) \<noteq> Failing"
    if g: "en_pc e = Generating" "int (length (en_active e)) \<le> kv_max_slots (en_kv e)" "gi_error gi = No_error"
  proof -
    obtain b e1 where c: "generate_one_token_all gi e = (b, e1)" by (cases "generate_one_token_all gi e")
    have "\<not> b" using generate_cache(3) [OF base _ c g(2,3)] act g(1) by simp
    then show ?thesis using c g(1) by (simp add: engine_step_def)
  qed
  then show ?thesis
    using cache_baseD(2,7) [OF base] out unfolding kv_inv_def outcomes_ok_def by blast
qed

theorem cache_never_runs_out_witness:
  "kv_partition (en_kv (engine_run ex_cfg ex_evs1 ex_engine)) \<and>
   en_pc (engine_step ex_cfg (Generate ex_gen) (engine_run ex_cfg ex_evs1 ex_engine)) \<noteq> Failing"
proof -
  have ev: "\<forall>ev \<in> set ex_evs1. cache_event ev"
    by (simp add: ex_evs1_def ex_req_def)
  have kv: "ex_kv = kv_init 1 1 1 2 2 (ec_max_seq_len ex_cfg)" by (simp add: ex_kv_def ex_cfg_def)
  have ms: "kv_max_slots (en_kv (engine_run ex_cfg ex_evs1 ex_engine)) = 2" by code_simp
  show ?thesis
    using cache_never_runs_out [OF kv _ _ _ ex_pool_slots(1) _ _ ex_run_ok(1) [unfolded ex_engine_def] ev refl, of ex_gen]
      ex_engine_run1 ms by (simp add: ex_pool_owner ex_engine_def ex_cfg_def ex_gen_def)
qed

section \<open>The slot pool and the aggregator\<close>

text \<open>
  C25. On its 128-bit masks the slot pool is a set of free slots with owners: a claim takes
  the smallest free slot and fails exactly when there is none, a release succeeds exactly
  for the owner of the slot, and both leave every other slot alone. A released slot's
  buffers hold only zeros; a claimed one starts neither evicted nor ready.
\<close>

theorem slot_pool_refines_sets:
  assumes "slot_pool_ok p"
  shows "(case claim_slot w p of
        Inl err \<Rightarrow> free_slots p = {}
      | Inr (s, p') \<Rightarrow> s = Min (free_slots p) \<and> slot_pool_ok p' \<and> free_slots p' = free_slots p - {s} \<and>
          get_slot_owner s p' = w \<and> (\<forall>t. t \<noteq> s \<longrightarrow> get_slot_owner t p' = get_slot_owner t p) \<and>
          \<not> is_slot_evicted s p' \<and> nat s \<notin> mask_set (sc_ready p')) \<and>
    (case release_slot s w p of
        Inl err \<Rightarrow> s \<notin> pool_slots p \<or> get_slot_owner s p \<noteq> w
      | Inr p' \<Rightarrow> s \<in> pool_slots p \<and> get_slot_owner s p = w \<and> slot_pool_ok p' \<and>
          free_slots p' = insert s (free_slots p) \<and> get_slot_owner s p' = -1 \<and>
          (\<forall>t. t \<noteq> s \<longrightarrow> get_slot_owner t p' = get_slot_owner t p) \<and>
          (nat s < length (sp_input p) \<and> nat s < length (sp_output p) \<longrightarrow>
             set (sp_input p' ! nat s) \<subseteq> {0} \<and> set (sp_output p' ! nat s) \<subseteq> {0}))"
  using claim_slot_spec [OF assms, of w] release_slot_spec [OF assms, of s w] by blast

theorem slot_pool_refines_sets_witness:
  "\<exists>p'. claim_slot 5 ex_pool = Inr (0, p') \<and> get_slot_owner 0 p' = 5"
proof -
  obtain s p' where c: "claim_slot 5 ex_pool = Inr (s, p')"
    using pool.claim_succeeds [OF ex_pool_slots(1), of 5] by (auto simp: ex_pool_slots pool_slots_def)
  have "Min (free_slots ex_pool) = 0" by (simp add: ex_pool_slots pool_slots_def Min_eq_iff)
  then show ?thesis using slot_pool_refines_sets [OF ex_pool_slots(1), of 5 0] c by auto
qed

text \<open>
  C26. The aggregator reclaims what dead workers held: after any run in which workers name
  themselves in their requests, every slot that is not free belongs to a worker whose
  connection is being served or whose cleanup has the slot on its list, there are never
  more workers than allowed, and when every connection is closed the whole pool is free.
\<close>

theorem aggregator_reclaims_slots:
  assumes "init_slot_pool n input output = Inr p" and "\<forall>ev \<in> set evs. honest ev"
    and "s = agg_run evs (agg_start secret m p)"
  shows "(\<forall>sid \<in> pool_slots (ag_pool (as_agg s)) - free_slots (ag_pool (as_agg s)).
      live_owner (as_conns s) sid (get_slot_owner sid (ag_pool (as_agg s)))) \<and>
    int (length (as_conns s)) \<le> max 0 m \<and>
    ((\<forall>c \<in> set (dict_values (as_conns s)). c = Closed) \<longrightarrow>
      free_slots (ag_pool (as_agg s)) = pool_slots (ag_pool (as_agg s)))"
proof -
  have "agg_inv (agg_start secret m p)"
    using agg_start_inv init_slot_pool_ok [OF assms(1)] by blast
  then have inv: "agg_inv s" using agg_run_inv assms(2,3) by blast
  moreover have "ag_max_workers (as_agg s) = m"
    unfolding assms(3) by (simp add: agg_run_max agg_start_def)
  ultimately show ?thesis
    using agg_inv_connections [OF inv] agg_inv_all_closed [OF inv] unfolding agg_inv_def by auto
qed

theorem aggregator_reclaims_slots_witness:
  "free_slots (ag_pool (as_agg (agg_run ex_agg_all ex_aggregator))) =
   pool_slots (ag_pool (as_agg (agg_run ex_agg_all ex_aggregator)))"
  using aggregator_reclaims_slots [OF ex_pool_init ex_agg_honest(1) refl, of "[]" 4] ex_agg_closed
  by (simp add: ex_aggregator_def)

text \<open>
  C27. One worker's failure is not another's: a slot that a worker holds stays its own
  through every step of the other workers, their disconnections and cleanups included.
\<close>

theorem aggregator_isolates_workers:
  assumes "init_slot_pool n input output = Inr p"
    and "\<forall>ev \<in> set evs. honest ev" "\<forall>ev \<in> set evs'. honest ev \<and> event_worker ev \<noteq> Some v"
    and "s = agg_run evs (agg_start secret m p)" "s' = agg_run evs' s"
    and "sid \<in> pool_slots (ag_pool (as_agg s)) - free_slots (ag_pool (as_agg s))"
    and "get_slot_owner sid (ag_pool (as_agg s)) = v"
  shows "sid \<notin> free_slots (ag_pool (as_agg s')) \<and> get_slot_owner sid (ag_pool (as_agg s')) = v"
proof -
  have "agg_inv (agg_start secret m p)"
    using agg_start_inv init_slot_pool_ok [OF assms(1)] by blast
  then have "agg_inv s" using agg_run_inv assms(2,4) by blast
  from agg_run_isolated [OF this assms(3)] assms(5-7) show ?thesis by auto
qed

theorem aggregator_isolates_workers_witness:
  "get_slot_owner 0 (ag_pool (as_agg (agg_run ex_agg_end (agg_run ex_agg_claims ex_aggregator)))) = 0"
proof -
  let ?p = "ag_pool (as_agg (agg_run ex_agg_claims ex_aggregator))"
  have h: "\<forall>ev \<in> set ex_agg_claims. honest ev" "\<forall>ev \<in> set ex_agg_end. honest ev \<and> event_worker ev \<noteq> Some 0"
    using ex_agg_honest by (auto simp: ex_agg_all_def ex_agg_end_def event_worker_def)
  have "free_slots ?p = {}" by (simp add: free_slots_def ex_agg_claims_held)
  moreover have "sp_num_slots ?p = 2" by code_simp
  ultimately have "0 \<in> pool_slots ?p - free_slots ?p" by (simp add: pool_slots_def)
  from aggregator_isolates_workers [OF ex_pool_init h refl refl, of 0 "[]" 4] this ex_agg_claims_result
  show ?thesis by (simp add: ex_aggregator_def)
qed

section \<open>The LoRA layers and the hot swap of adapters\<close>

text \<open>
  C28. The fused LoRA layers compute what their modules say: in a model built for an adapter
  whose modules have the shapes of the projections, what a layer returns for Q, K and V (and
  for gate and up) is, entry by entry, the aggregator's result plus the delta of that
  projection's own module, and o_proj and down_proj add theirs to the residual. The block
  diagonal B never mixes projections, and a projection without module is left as it is.
\<close>

theorem lora_layers_add_module_deltas:
  assumes "adapter_fits info rank lls n" "qkv_dims info = Inr qdims" "build_lora_model info n lls = Inr layers" "i < n"
    and "mx_cols x = mi_hidden_size info" "mx_cols z = mi_intermediate_size info"
    and "raw_fits (mx_rows x) raw qdims" "raw_fits (mx_rows x) raw' (gate_up_dims info)"
    and "raw_fits (mx_rows x) [out] [mi_hidden_size info]" "raw_fits (mx_rows z) [out'] [mi_hidden_size info]"
  shows "qkv_all (layers ! i) x raw = Inr (map2 (with_effect x) (modules_of lls (int i) qkv_names) raw) \<and>
    gate_up_all (layers ! i) x raw' = Inr (map2 (with_effect x) (modules_of lls (int i) gate_up_names) raw') \<and>
    remote_all (dl_o_proj (layers ! i)) x out residual =
      mx_add residual (with_effect x (get_lora_module lls (int i) ''self_attn.o_proj'') out) \<and>
    remote_all (dl_down_proj (layers ! i)) z out' residual =
      mx_add residual (with_effect z (get_lora_module lls (int i) ''mlp.down_proj'') out')"
proof -
  have layer: "layers ! i = layer_of info qdims rank lls (int i)"
    using build_lora_model_of [OF assms(1,2)] assms(3,4) by (auto simp: model_of_def)
  have fits: "layer_fits info qdims rank lls (int i)"
    using adapter_fits_layer [OF assms(1)] assms(2,4) by auto
  then have "module_fits (mi_hidden_size info) rank (get_lora_module lls (int i) ''self_attn.o_proj'') (mi_hidden_size info)"
    "module_fits (mi_intermediate_size info) rank (get_lora_module lls (int i) ''mlp.down_proj'') (mi_hidden_size info)"
    by (auto simp: layer_fits_def Let_def)
  from remote_adds [OF this(1) assms(5)] remote_adds [OF this(2) assms(6)] layer_adds [OF fits assms(5)] assms(7-10)
  show ?thesis by (simp add: layer layer_of_def raw_fits_def)
qed

theorem lora_layers_add_module_deltas_witness:
  "qkv_all (ex_layers ! 0) ex_x [mx1 1, mx1 1, mx1 1] = Inr [mx1 67, mx1 1, mx1 1]"
  using lora_layers_add_module_deltas [OF ex_fits(1) ex_dims ex_layers_built _ ex_raw(4,5,1,2,3,3), of 0] ex_effect by simp

text \<open>
  C29. Swapping the adapter of a running worker is the same as building its model anew for
  the new adapter: when the worker was built for an adapter that targets the same
  projections (for a change of rank, the same of o_proj and down_proj), a swap to an adapter
  loaded from its files succeeds and leaves exactly the layers \<open>build_hollow_model\<close> makes,
  whether the weights are overwritten or the modules made anew.
\<close>

theorem swap_equals_rebuild:
  assumes "build_lora_model info n old = Inr layers" "adapter_fits info rank old n" "am_current_rank am = int rank" "0 < rank"
    and "load_lora_fast fs disk bases p = Inr (new, config)" "adapter_fits info rank' new n" "lc_r config = Some (int rank')"
    and "\<forall>i<n. can_host (rank \<noteq> rank') old new (int i)"
  shows "\<exists>layers'. build_lora_model info n new = Inr layers' \<and>
    swap_adapter info (load_lora_fast fs disk bases p) None p am layers =
      (Swapped (am_current_adapter_id am) p (int rank) (int rank') (rank \<noteq> rank'),
       am\<lparr>am_current_adapter_id := Some p, am_current_rank := int rank', am_current_config := Some config\<rparr>, layers')"
proof -
  obtain qdims where q: "qkv_dims info = Inr qdims" using adapter_fits_layer [OF assms(2)] by blast
  obtain s where s: "lora_scaling config = Inr s" "all_scaled s new" using load_lora_fast_scaled [OF assms(5)] by blast
  have "layers = model_of info qdims rank old n" using build_lora_model_of [OF assms(2) q] assms(1) by simp
  then show ?thesis
    using swap_adapter_installs [OF q assms(2,6,3,4,7) s assms(8)] build_lora_model_of [OF assms(6) q] assms(5) by simp
qed

theorem swap_equals_rebuild_witness:
  "\<exists>layers'. build_lora_model ex_info 1 ex_new = Inr layers' \<and>
     snd (snd (swap_adapter ex_info (Inr (ex_new, ex_config)) None ''/a/q/y'' ex_manager ex_layers)) = layers'"
proof -
  have "am_current_rank ex_manager = int 1" by (simp add: ex_manager_def set_adapter_def)
  moreover have "lc_r ex_config = Some (int 1)" by (simp add: ex_config_def)
  ultimately show ?thesis
    using swap_equals_rebuild [OF ex_layers_built ex_fits(1) _ _ ex_load ex_fits(2)] ex_host ex_load by fastforce
qed



section \<open>The HTTP server of a worker\<close>

text \<open>
  C31. The server admits at most \<open>MAX_SLOTS\<close> requests at a time: after any events, its
  permits, the waiting handlers and the permits lost to handlers that raised add up to
  \<open>MAX_SLOTS\<close>; and whatever a request asks for, what reaches the engine is within the limits
  of length, temperature, top-k and top-p.
\<close>

theorem http_server_bounds:
  assumes "s = http_init hc w dev e am layers" and "s' = http_run hc evs s"
  shows "hw_permits s' + length (hw_waiting s') + lost_permits hc evs s = hc_max_slots hc \<and>
    hw_engine s' = engine_run (hc_engine hc) (engine_trace hc evs s) e \<and>
    (\<forall>req. Submit req \<in> set (engine_trace hc evs s) \<longrightarrow> request_in_limits hc req)"
  using http_run_permits [of hc evs s] http_run_engine [of hc evs s] submitted_limits assms
  by (auto simp: http_init_def)

theorem http_server_bounds_witness:
  "hw_permits (http_run ex_hc ex_http_evs ex_server) + length (hw_waiting (http_run ex_hc ex_http_evs ex_server)) +
     lost_permits ex_hc ex_http_evs ex_server = 1 \<and> request_in_limits ex_hc ex_req"
  using http_server_bounds [OF ex_server_def refl, of ex_http_evs] ex_http_trace
  by (simp add: ex_hc_def ex_evs2_def ex_evs1_def)



section \<open>Messages between workers and aggregator\<close>

text \<open>
  C33. Every message is JSON and comes back: what the encoder returns has no bytes left, so
  \<open>json.dumps\<close> never refuses it, and decoding gives back the value (unless it contains a
  dictionary whose only key is the marker of the encoding).
\<close>

theorem messages_are_json:
  assumes "no_marker v"
  shows "json_ok (encode v) \<and> send_msg dumps v \<noteq> Inl TypeError \<and> decode (encode v) = Inr v"
  using decode_encode(1) [OF assms] by (simp add: send_msg_def Let_def)

theorem messages_are_json_witness:
  "json_ok (encode ex_msg) \<and> decode (encode ex_msg) = Inr ex_msg"
  using messages_are_json [OF ex_msg_no_marker] by blast

text \<open>
  C34. The framing is independent of how the network cuts the stream: when a connection
  delivers the frames of some messages, in chunks of any size and followed by any bytes, the
  receiver returns exactly these messages, in order, and leaves the bytes after them.
  (Hypotheses: no message is larger than the receiver's limit, and the JSON library reads
  back what it wrote.)
\<close>

theorem stream_delivers_messages:
  assumes "open_sock sock" "concat sock = concat (map (\<lambda>v. projr (send_msg dumps v)) vs) @ rest"
    and "list_all (\<lambda>v. length (dumps (encode v)) \<le> max_msg_bytes \<and> json_inverse dumps loads v \<and> no_marker v) vs"
  shows "fst (recv_all loads (length vs) sock) = map Inr vs \<and> concat (snd (recv_all loads (length vs) sock)) = rest"
  by (rule recv_all_sent [OF assms])

theorem stream_delivers_messages_witness:
  "fst (recv_all ex_loads 1 ex_sock) = [Inr ex_msg] \<and> concat (snd (recv_all ex_loads 1 ex_sock)) = [7]"
  using stream_delivers_messages [OF ex_sock_frame, of ex_loads] ex_msg_no_marker
  by (simp add: ex_dumps_def max_msg_bytes_def json_inverse_def ex_loads_def)

section \<open>The agent of a node\<close>

text \<open>
  C35. The controller a node agent starts runs with the agent's plan: from the command line
  the agent builds, the controller reads back the worker limit, the base port, the GPUs
  with their caps, and the aggregator's port for the devices 0 to n-1 of a node with n GPUs -
  provided the scheduler is one it knows; with any other, the default of the agent included,
  it ends with an error. For a node that has GPUs, with different indexes, and a worker limit
  that is not zero.
\<close>

theorem controller_follows_agent_plan:
  assumes "gpus \<noteq> []" "n = int (length gpus)" "distinct (map gp_index gpus)" "ac_max_workers cfg \<noteq> 0"
  shows "if ac_scheduler cfg \<in> {''lorant'', ''noswap'', ''random''}
    then \<exists>cs. controller_main m ws det draws (launch_controller_args cfg gpus) = Inr cs \<and>
      la_max_workers (cs_args cs) = ac_max_workers cfg \<and> la_base_port (cs_args cs) = ac_worker_base_port cfg \<and>
      la_scale_down_delay (cs_args cs) = ac_scale_down_delay cfg \<and>
      la_worker_devices (cs_args cs) = map (\<lambda>g. device_name (gp_index g)) gpus \<and>
      la_gpu_worker_caps (cs_args cs) =
        Some (map (\<lambda>g. (device_name (gp_index g), planned_cap cfg m n (gp_index g))) gpus) \<and>
      (\<forall>i. 0 \<le> i \<and> i < n \<longrightarrow>
        worker_aggregator_port cs (device_name i) = agent_port cfg (ac_aggregator_tcp_port cfg) i)
    else controller_main m ws det draws (launch_controller_args cfg gpus) = Inl ValueError"
  using controller_reads_plan [OF assms, of m ws det draws] unknown_scheduler_fails [OF assms(1,3), of cfg m ws det draws]
  by simp

theorem controller_follows_agent_plan_witness:
  "\<exists>cs. controller_main 4 [] [] (\<lambda>_. 0) (launch_controller_args ex_agent_cfg ex_gpus) = Inr cs \<and>
     la_worker_devices (cs_args cs) = [''cuda:0'', ''cuda:1'']"
proof -
  have names: "map (\<lambda>g. device_name (gp_index g)) ex_gpus = [''cuda:0'', ''cuda:1'']" by code_simp
  have "\<exists>cs. controller_main 4 [] [] (\<lambda>_. 0) (launch_controller_args ex_agent_cfg ex_gpus) = Inr cs \<and>
      la_worker_devices (cs_args cs) = map (\<lambda>g. device_name (gp_index g)) ex_gpus"
    using controller_follows_agent_plan [of ex_gpus "int (length ex_gpus)" ex_agent_cfg 4 "[]" "[]" "\<lambda>_. 0"]
    by (auto simp: ex_gpus_def ex_agent_cfg_def default_agent_config_def)
  then show ?thesis unfolding names .
qed





section \<open>The pre-loading baseline\<close>

text \<open>
  C38. The decisions of a round of the pre-loading scheduler can be carried out together:
  each is for an artifact that is admissible on its healthy node (not loaded there, its
  dependencies and backbone there or planned), all decisions for a node fit beside what the
  node holds, no artifact is placed twice on a node, and the priorities follow the value
  density downwards.
\<close>

theorem preload_decisions_are_sound:
  assumes "registry_ok (ps_registry s)" "compute_schedule now answers s = (ds, s')" "d \<in> set ds"
  shows "(\<exists>art n. get_artifact (ps_registry s) (pd_artifact_id d) = Some art \<and> n \<in> set (get_healthy_nodes now (ps_registry s)) \<and>
      pd_target_node_id d = cn_node_id n \<and> admissible s art (pd_target_location d) n \<and>
      node_used (ps_registry s) n (pd_target_location d) + planned_mb (ps_registry s) ds (cn_node_id n) (pd_target_location d)
        \<le> node_limit n (pd_target_location d)) \<and>
    distinct (map (\<lambda>d. (pd_artifact_id d, pd_target_node_id d)) ds) \<and>
    map pd_priority ds = map int [0..<length ds] \<and> sorted_wrt (\<lambda>a b. b \<le> a) (map pd_value_density ds)"
  using schedule_decisions [OF assms(1,2)] assms(3) by metis

theorem preload_decisions_are_sound_witness:
  "fst (compute_schedule 100 (\<lambda>_ _ _. True) ex_scheduler) = [ex_decision] \<and>
   (\<exists>art n. get_artifact (ps_registry ex_scheduler) ''adapter_w'' = Some art \<and> n \<in> set (get_healthy_nodes 100 (ps_registry ex_scheduler)) \<and>
     admissible ex_scheduler art To_container n)"
proof -
  have "registry_ok (ps_registry ex_scheduler)" using ex_ok by (simp add: ex_scheduler_def preload_init_def)
  from preload_decisions_are_sound [OF this ex_schedule, of ex_decision] show ?thesis
    unfolding ex_schedule by (auto simp: ex_decision_def)
qed

text \<open>
  C39. Rebalancing never takes the last container of a function: a function with a container
  on a node before a round still has one on that node after it, whatever the containers
  answer to the swaps. For a registry whose artifacts, nodes and containers are stored under
  their ids and no id of a container occurs on two nodes.
\<close>

theorem rebalance_keeps_functions:
  assumes "registry_ok (ps_registry s)" "containers_ok (ps_registry s)" "compute_schedule now answers s = (ds, s')"
    and "get_cluster_node (ps_registry s) k = Some n" "c \<in> set (dict_values (cn_containers n))" "ct_function_id c \<noteq> []"
  shows "\<exists>c'. container_at (ps_registry s') k (ct_container_id c') = Some c' \<and> ct_function_id c' = ct_function_id c"
  by (rule round_keeps_functions [OF assms])

theorem rebalance_keeps_functions_witness:
  "ps_total_rebalance_decisions (snd (compute_schedule 100 (\<lambda>_ _ _. True) ex_scheduler)) = 2 \<and>
   (\<exists>c'. container_at (ps_registry (snd (compute_schedule 100 (\<lambda>_ _ _. True) ex_scheduler))) ''n'' (ct_container_id c') = Some c' \<and>
     ct_function_id c' = ''quiet'')"
proof -
  have ok: "registry_ok (ps_registry ex_scheduler)" "containers_ok (ps_registry ex_scheduler)"
    using ex_ok by (simp_all add: ex_scheduler_def preload_init_def)
  have n: "get_cluster_node (ps_registry ex_scheduler) ''n'' = Some ex_cluster_node"
    by (simp add: ex_scheduler_def preload_init_def ex_lookups)
  have c: "ex_quiet ''p'' \<in> set (dict_values (cn_containers ex_cluster_node))" "ct_function_id (ex_quiet ''p'') = ''quiet''"
    by (simp_all add: ex_cluster_node_def ex_ct_def)
  show ?thesis
    using rebalance_keeps_functions [OF ok ex_schedule n c(1)] unfolding c(2) ex_schedule by simp
qed

text \<open>
  C40. Under memory pressure, once the cooldown of the last offload has passed, the least
  valuable artifacts leave the GPU: those selected are on
  the GPU and not in use by a batch; they free what is asked for, or they are all there is;
  each is no more valuable than any artifact that stays, or goes because it is coupled to one
  that is not, and the artifacts coupled to that one go with it. Exactly the selected ones
  whose move succeeds change their location, to container memory.
\<close>

theorem pressure_offloads_least_valuable:
  assumes "registry_ok (go_registry s)" "of_int (go_cooldown_ms s) \<le> (now - go_last_offload_time s) * 1000"
    and "go_pressure_threshold s < gs_usage_percent (get_gpu_memory_status info1)"
    and "handle_memory_pressure now info1 info2 callback s = (n, s')"
    and "selected = fst (select_offload_set now (compute_required_free_mb info2 s) s)" "cs = fst (compute_offload_candidates now s)"
  shows "mset (map oc_artifact cs) = mset (filter (may_offload (go_current_batch_artifacts s)) (get_all_artifacts (go_registry s))) \<and>
    set selected \<subseteq> set cs \<and> distinct (map oc_id selected) \<and>
    (compute_required_free_mb info2 s \<le> sum_list (map (\<lambda>c. get_effective_size (oc_artifact c) GPU) selected) \<or> set selected = set cs) \<and>
    (\<forall>c \<in> set selected. \<exists>p. primary (coupled_in s cs) cs selected p \<and> (c = p \<or> c \<in> set (coupled_in s cs p))) \<and>
    n = length (filter (\<lambda>c. callback (oc_id c) (oc_container_id c)) selected) \<and>
    (\<forall>a. location_of s' a =
      (if \<exists>c \<in> set selected. oc_id c = a \<and> callback a (oc_container_id c) then Some CONTAINER else location_of s a))"
proof -
  obtain s1 where sel: "select_offload_set now (compute_required_free_mb info2 s) s = (selected, s1)"
    using assms(5) by (metis prod.collapse)
  obtain cs' where c: "compute_offload_candidates now s = (cs', s1)"
    "mset (map oc_artifact cs') = mset (filter (may_offload (go_current_batch_artifacts s)) (get_all_artifacts (go_registry s)))"
    "distinct (map oc_id selected)" "set selected \<subseteq> set cs'"
    "compute_required_free_mb info2 s \<le> sum_list (map (\<lambda>c. get_effective_size (oc_artifact c) GPU) selected) \<or> set selected = set cs'"
    "\<And>c. c \<in> set selected \<Longrightarrow> \<exists>p. primary (coupled_in s1 cs') cs' selected p \<and> (c = p \<or> c \<in> set (coupled_in s1 cs' p))"
    by (rule selection_sound [OF assms(1) sel refl], rule that)
  have "cs = cs'" "coupled_in s1 = coupled_in s"
    using assms(6) c(1) coupled_in_same [OF offload_candidates_sound(4) [OF c(1)]] by simp_all
  then show ?thesis
    using c(2-6) handle_memory_pressure_moves [OF assms(1-5)] by simp
qed

theorem pressure_offloads_least_valuable_witness:
  "location_of (snd (handle_memory_pressure 100 ex_device ex_device (\<lambda>_ _. True) (protect_artifacts [''base''] ex_offloader))) ''adapter'' = Some CONTAINER \<and>
   location_of (snd (handle_memory_pressure 100 ex_device ex_device (\<lambda>_ _. True) (protect_artifacts [''base''] ex_offloader))) ''base'' = Some GPU"
proof -
  let ?s = "protect_artifacts [''base''] ex_offloader"
  have time: "of_int (go_cooldown_ms ?s) \<le> (100 - go_last_offload_time ?s) * 1000"
    by (simp add: protect_artifacts_def ex_offloader_def offloader_init_def)
  have sel: "[cand_adapter, cand_kernel] = fst (select_offload_set 100 (compute_required_free_mb ex_device ?s) ?s)"
    by (simp add: ex_pressure ex_selected)
  have base: "location_of ?s ''base'' = Some GPU"
    by (simp add: location_of_def get_artifact_def protect_artifacts_def offload_simps)
  from pressure_offloads_least_valuable [OF ex_gpu_ok time ex_pressure(1) prod.collapse [symmetric] sel refl, of "\<lambda>_ _. True"] base
  show ?thesis by (simp add: oc_id_def as_candidate_def on_gpu_def)
qed

end
